(* ===== verification/Prelude.thy ===== *)
theory Prelude
  imports Main "HOL-Library.Word"
begin

text \<open>
  Shared vocabulary of the development: the machine-integer types of the C sources, the two
  result enumerations of the stack (\<open>CAResult_t\<close>, \<open>OCStackResult\<close>), the allocator wrappers of
  \<^verbatim>\<open>resource/c_common/oic_malloc/src/oic_malloc.c\<close>, and the generic list lemmas the components
  use. NULL is \<^const>\<open>None\<close> wherever a C pointer may be NULL.
\<close>

unbundle bit_operations_syntax

section \<open>Machine integers\<close>

type_synonym u8 = "8 word"
type_synonym u16 = "16 word"
type_synonym u32 = "32 word"
type_synonym u64 = "64 word"

named_theorems iot_simps
named_theorems iot_invs

section \<open>Result codes\<close>

datatype CAResult =
    CA_STATUS_OK | CA_STATUS_INVALID_PARAM | CA_ADAPTER_NOT_ENABLED
  | CA_SERVER_STARTED_ALREADY | CA_SERVER_NOT_STARTED | CA_DESTINATION_NOT_REACHABLE
  | CA_SOCKET_OPERATION_FAILED | CA_SEND_FAILED | CA_RECEIVE_FAILED
  | CA_MEMORY_ALLOC_FAILED | CA_REQUEST_TIMEOUT | CA_DESTINATION_DISCONNECTED
  | CA_NOT_SUPPORTED | CA_STATUS_NOT_INITIALIZED | CA_DTLS_AUTHENTICATION_FAILURE
  | CA_CONTINUE_OPERATION | CA_HANDLE_ERROR_OTHER_MODULE | CA_STATUS_FAILED

text \<open>The members of \<open>OCStackResult\<close> that the modelled code returns or tests.\<close>

datatype OCStackResult =
    OC_STACK_OK | OC_STACK_INVALID_PARAM | OC_STACK_NO_MEMORY | OC_STACK_COMM_ERROR
  | OC_STACK_NO_RESOURCE | OC_STACK_DUPLICATE_REQUEST | OC_STACK_FORBIDDEN_REQ
  | OC_STACK_INTERNAL_SERVER_ERROR | OC_STACK_ERROR | OC_STACK_CONTINUE | OC_STACK_RESOURCE_ERROR
  | OC_STACK_NO_OBSERVERS | OC_STACK_OBSERVER_NOT_FOUND | OC_STACK_ADAPTER_NOT_ENABLED

section \<open>The allocator\<close>

text \<open>
  Every call of \<open>malloc\<close>, \<open>calloc\<close> or \<open>realloc\<close> may fail. The environment decides: a
  \<open>mem\<close> value lists the outcomes of the next allocations (an exhausted list means that the
  remaining ones succeed). No allocation of \<open>2^63\<close> bytes or more succeeds, since an object is
  never larger than \<open>PTRDIFF_MAX\<close>. An allocation returns whether the pointer is non-NULL.
\<close>

type_synonym mem = "bool list"

definition max_object :: nat where
  "max_object = 2 ^ 63 - 1"

fun libc_alloc :: "mem \<Rightarrow> nat \<Rightarrow> bool \<times> mem" where
  "libc_alloc [] n = (n \<le> max_object, [])"
| "libc_alloc (b # bs) n = (b \<and> n \<le> max_object, bs)"

definition OICMalloc :: "mem \<Rightarrow> nat \<Rightarrow> bool \<times> mem" where
  "OICMalloc m sz = (if sz = 0 then (False, m) else libc_alloc m sz)"

definition OICCalloc :: "mem \<Rightarrow> nat \<Rightarrow> nat \<Rightarrow> bool \<times> mem" where
  "OICCalloc m num sz =
     (if sz = 0 \<or> num = 0 then (False, m) else libc_alloc m (num * sz))"

text \<open>
  \<open>OICRealloc\<close> on a non-NULL block leaves the behaviour to \<open>realloc\<close>; a request of zero bytes
  is modelled as glibc has it: the block is freed and NULL is returned.
\<close>

definition OICRealloc :: "mem \<Rightarrow> bool \<Rightarrow> nat \<Rightarrow> bool \<times> mem" where
  "OICRealloc m ptr_nonnull sz =
     (if \<not> ptr_nonnull then OICMalloc m sz
      else if sz = 0 then (False, m) else libc_alloc m sz)"

lemma libc_alloc_bound: "libc_alloc m n = (True, m') \<Longrightarrow> n \<le> max_object"
  by (cases m) auto

lemma OICMalloc_bound: "OICMalloc m n = (True, m') \<Longrightarrow> 0 < n \<and> n \<le> max_object"
  by (auto simp: OICMalloc_def libc_alloc_bound split: if_splits)

lemma OICRealloc_bound: "OICRealloc m p n = (True, m') \<Longrightarrow> 0 < n \<and> n \<le> max_object"
  by (auto simp: OICRealloc_def OICMalloc_def libc_alloc_bound split: if_splits)

section \<open>Lists\<close>

definition remove_nth :: "nat \<Rightarrow> 'a list \<Rightarrow> 'a list" where
  "remove_nth i xs = take i xs @ drop (Suc i) xs"

lemma remove_nth_Nil [simp]: "remove_nth i [] = []"
  by (simp add: remove_nth_def)

lemma remove_nth_0 [simp]: "remove_nth 0 (x # xs) = xs"
  by (simp add: remove_nth_def)

lemma remove_nth_Suc [simp]: "remove_nth (Suc i) (x # xs) = x # remove_nth i xs"
  by (simp add: remove_nth_def)

lemma length_remove_nth [simp]:
  "i < length xs \<Longrightarrow> length (remove_nth i xs) = length xs - 1"
  by (simp add: remove_nth_def)

lemma remove_nth_append:
  "remove_nth (length xs) (xs @ y # ys) = xs @ ys"
  by (simp add: remove_nth_def)

lemma set_remove_nth_subset: "set (remove_nth i xs) \<subseteq> set xs"
  by (auto simp: remove_nth_def dest: in_set_takeD in_set_dropD)

lemma distinct_map_remove_nth: "distinct (map f xs) \<Longrightarrow> distinct (map f (remove_nth i xs))"
proof -
  assume "distinct (map f xs)"
  moreover have "map f (remove_nth i xs) = take i (map f xs) @ drop (Suc i) (map f xs)"
    by (simp add: remove_nth_def take_map drop_map)
  ultimately show ?thesis using set_take_disj_set_drop_if_distinct [of "map f xs" i "Suc i"] by simp
qed

text \<open>The first index whose element satisfies a predicate: what every search loop computes.\<close>

fun find_index :: "('a \<Rightarrow> bool) \<Rightarrow> 'a list \<Rightarrow> nat option" where
  "find_index P [] = None"
| "find_index P (x # xs) = (if P x then Some 0 else map_option Suc (find_index P xs))"

lemma find_index_None: "find_index P xs = None \<longleftrightarrow> (\<forall>x\<in>set xs. \<not> P x)"
  by (induction xs) auto

lemma find_index_SomeD:
  "find_index P xs = Some i \<Longrightarrow> i < length xs \<and> P (xs ! i) \<and> (\<forall>j<i. \<not> P (xs ! j))"
proof (induction xs arbitrary: i)
  case Nil
  then show ?case by simp
next
  case (Cons x xs)
  show ?case
  proof (cases "P x")
    case True
    with Cons.prems show ?thesis by simp
  next
    case False
    with Cons.prems obtain k where k: "find_index P xs = Some k" and i: "i = Suc k" by auto
    from Cons.IH [OF k] False i show ?thesis
      by (auto simp: nth_Cons split: nat.splits)
  qed
qed

text \<open>
  A \<open>while\<close> loop over the elements of a list that may return early: \<^const>\<open>Inl\<close> leaves the
  function with a value, \<^const>\<open>Inr\<close> goes on with the next element.
\<close>

fun fold_exit :: "('a \<Rightarrow> 'b \<Rightarrow> 'r + 'b) \<Rightarrow> 'a list \<Rightarrow> 'b \<Rightarrow> 'r + 'b" where
  "fold_exit f [] acc = Inr acc"
| "fold_exit f (x # xs) acc = (case f x acc of Inl r \<Rightarrow> Inl r | Inr acc' \<Rightarrow> fold_exit f xs acc')"

text \<open>
  The same for a loop whose body also sees the position of the element and may run into undefined
  behaviour (\<^const>\<open>None\<close>).
\<close>

fun fold_loop :: "('i \<Rightarrow> 'x \<Rightarrow> 'b \<Rightarrow> ('r + 'b) option) \<Rightarrow> ('i \<times> 'x) list \<Rightarrow> 'b \<Rightarrow> ('r + 'b) option" where
  "fold_loop f [] acc = Some (Inr acc)"
| "fold_loop f ((p, x) # xs) acc =
     (case f p x acc of
        None \<Rightarrow> None | Some (Inl r) \<Rightarrow> Some (Inl r) | Some (Inr acc') \<Rightarrow> fold_loop f xs acc')"

text \<open>A loop that leaves at the first element with a property and changes nothing before.\<close>

lemma fold_loop_find:
  assumes "\<And>p x. (p, x) \<in> set xs \<Longrightarrow> f p x acc = Some (if P p x then Inl (g p x) else Inr acc)"
  shows "fold_loop f xs acc =
    Some (case find (\<lambda>(p, x). P p x) xs of None \<Rightarrow> Inr acc | Some (p, x) \<Rightarrow> Inl (g p x))"
  using assms
proof (induction xs)
  case (Cons y ys)
  then show ?case by (cases y) auto
qed simp

text \<open>A loop that always goes on.\<close>

lemma fold_loop_total:
  assumes "\<And>p x acc. (p, x) \<in> set xs \<Longrightarrow> I acc \<Longrightarrow> \<exists>acc'. f p x acc = Some (Inr acc') \<and> I acc'" and "I acc"
  shows "\<exists>acc'. fold_loop f xs acc = Some (Inr acc') \<and> I acc'"
  using assms
proof (induction xs arbitrary: acc)
  case (Cons y ys)
  obtain p x where y: "y = (p, x)" by fastforce
  obtain a where "f p x acc = Some (Inr a)" "I a" using Cons.prems y by fastforce
  with Cons.IH [of a] Cons.prems(1) y show ?case by (metis fold_loop.simps(2) list.set_intros(2) option.simps(5) sum.simps(6))
qed auto

section \<open>Buffers\<close>

text \<open>
  A buffer is the list of its cells. A read or write outside it is undefined (\<^const>\<open>None\<close>):
  single cells, and \<open>memcpy\<close> from and to an offset.
\<close>

definition cell_read :: "nat \<Rightarrow> 'a list \<Rightarrow> 'a option" where
  "cell_read i buf = (if i < length buf then Some (buf ! i) else None)"

definition cell_write :: "nat \<Rightarrow> 'a \<Rightarrow> 'a list \<Rightarrow> 'a list option" where
  "cell_write i v buf = (if i < length buf then Some (buf[i := v]) else None)"

definition buf_read :: "nat \<Rightarrow> nat \<Rightarrow> 'a list \<Rightarrow> 'a list option" where
  "buf_read off n buf = (if off + n \<le> length buf then Some (take n (drop off buf)) else None)"

definition buf_write :: "nat \<Rightarrow> 'a list \<Rightarrow> 'a list \<Rightarrow> 'a list option" where
  "buf_write off bs buf =
     (if off + length bs \<le> length buf then Some (take off buf @ bs @ drop (off + length bs) buf) else None)"

text \<open>\<open>memcmp(a, b, n) == 0\<close>.\<close>

definition mem_eq :: "u8 list \<Rightarrow> u8 list \<Rightarrow> nat \<Rightarrow> bool option" where
  "mem_eq a b n = (if n \<le> length a \<and> n \<le> length b then Some (take n a = take n b) else None)"

end
