(* ===== verification/Svr_State.thy ===== *)
theory Svr_State
  imports Prelude
begin

text \<open>
  The security virtual resources (\<^verbatim>\<open>resource/csdk/security\<close>) as the rest of the security layer
  sees them: the global objects \<open>gPstat\<close>, \<open>gDoxm\<close>, \<open>gAcl\<close>, \<open>gCred\<close> and \<open>gRownerId\<close> with the property
  accessors of \<^verbatim>\<open>pstatresource.c\<close>, \<^verbatim>\<open>doxmresource.c\<close>, \<^verbatim>\<open>aclresource.c\<close> and \<^verbatim>\<open>credresource.c\<close>.
  A resource that is not initialised is \<^const>\<open>None\<close>. An out-parameter is an option: \<^const>\<open>None\<close> for a
  NULL pointer, otherwise the content of the variable, which the accessor returns updated.

  The persistent storage is the part of the state named \<open>ps_\<dots>\<close>: the last value of each resource
  that was written. Whether a CBOR encoding, a write to storage or the call into the TLS adapter
  succeeds is decided by the environment, as the list of the next outcomes \<open>env_results\<close>
  (\<open>OC_STACK_OK\<close> once the list is exhausted).
\<close>

section \<open>Data types\<close>

type_synonym OicUuid = "u8 list"

definition THE_NIL_UUID :: OicUuid where
  "THE_NIL_UUID = replicate 16 0"

datatype OicSecDeviceOnboardingState =
  DOS_RESET | DOS_RFOTM | DOS_RFPRO | DOS_RFNOP | DOS_SRESET | DOS_STATE_COUNT

record OicSecDostype =
  dos_state :: OicSecDeviceOnboardingState
  dos_pending :: bool

type_synonym OicSecDpm = u32

definition RESET :: OicSecDpm where "RESET = 1"
definition TAKE_OWNER :: OicSecDpm where "TAKE_OWNER = 2"

definition OIC_JUST_WORKS :: u32 where "OIC_JUST_WORKS = 0"

record OicSecPstat =
  pstat_dos :: OicSecDostype
  pstat_isOp :: bool
  pstat_cm :: OicSecDpm
  pstat_tm :: OicSecDpm
  pstat_om :: u32
  pstat_sm :: "u32 list"
  pstat_commitHash :: u16
  pstat_rownerID :: OicUuid

record OicSecDoxm =
  doxm_oxm :: "u32 list"
  doxm_oxmSel :: u32
  doxm_sct :: u32
  doxm_owned :: bool
  doxm_deviceID :: OicUuid
  doxm_dpc :: bool
  doxm_owner :: OicUuid
  doxm_rownerID :: OicUuid

datatype OicSecAceResourceWildcard =
  NO_WILDCARD | ALL_DISCOVERABLE | ALL_NON_DISCOVERABLE | ALL_RESOURCES

record OicSecRsrc =
  rsrc_href :: "string option"
  rsrc_rel :: "string option"
  rsrc_types :: "string list"
  rsrc_interfaces :: "string list"
  rsrc_wildcard :: OicSecAceResourceWildcard

text \<open>\<open>recurrences\<close> is a possibly NULL array of \<open>recurrenceLen\<close> strings.\<close>

record OicSecValidity =
  val_period :: "string option"
  val_recurrences :: "string list option"

record OicSecRole =
  role_id :: string
  role_authority :: string

datatype OicSecConntype = AUTH_CRYPT | ANON_CLEAR

text \<open>The subject of an ACE: the tag \<open>subjectType\<close> with the union member it selects.\<close>

datatype OicSecAceSubject =
  OicSecAceUuidSubject OicUuid | OicSecAceRoleSubject OicSecRole
| OicSecAceConntypeSubject OicSecConntype

record OicSecAce =
  ace_subject :: OicSecAceSubject
  ace_resources :: "OicSecRsrc list"
  ace_permission :: u16
  ace_validities :: "OicSecValidity list"
  ace_aceid :: u16

record OicSecAcl =
  acl_rownerID :: OicUuid
  acl_aces :: "OicSecAce list"

record svr_state =
  gPstat :: "OicSecPstat option"
  gDoxm :: "OicSecDoxm option"
  gAcl :: "OicSecAcl option"
  gCred :: "u16 list"
  gRownerId :: OicUuid
  ps_pstat :: "OicSecPstat option"
  ps_doxm :: "OicSecDoxm option"
  ps_acl :: "OicSecAcl option"
  ps_cred_rowner :: "OicUuid option"
  anon_cipher :: bool
  otm_handshake_cb :: bool
  env_results :: "OCStackResult list"

text \<open>\<open>gCred\<close> is the list of credential ids; the accessors below only use whether it is empty.\<close>

section \<open>Environment and persistent storage\<close>

definition next_result :: "svr_state \<Rightarrow> OCStackResult \<times> svr_state" where
  "next_result s = (case env_results s of
     [] \<Rightarrow> (OC_STACK_OK, s) | r # rs \<Rightarrow> (r, s\<lparr>env_results := rs\<rparr>))"

text \<open>Encode the resource, and on success write it.\<close>

definition encode_and_write ::
  "(svr_state \<Rightarrow> svr_state) \<Rightarrow> svr_state \<Rightarrow> OCStackResult \<times> svr_state" where
  "encode_and_write store s =
     (let (enc, s1) = next_result s in
      if enc \<noteq> OC_STACK_OK then (enc, s1)
      else let (wr, s2) = next_result s1 in
        if wr \<noteq> OC_STACK_OK then (wr, s2) else (OC_STACK_OK, store s2))"

definition UpdatePersistentStorage_pstat :: "svr_state \<Rightarrow> bool \<times> svr_state" where
  "UpdatePersistentStorage_pstat s =
     (let (r, s') = encode_and_write (\<lambda>s. s\<lparr>ps_pstat := gPstat s\<rparr>) s in (r = OC_STACK_OK, s'))"

definition UpdatePersistentStorage_doxm :: "svr_state \<Rightarrow> bool \<times> svr_state" where
  "UpdatePersistentStorage_doxm s =
     (case gDoxm s of
        Some d \<Rightarrow>
          (let (r, s') = encode_and_write (\<lambda>s. s\<lparr>ps_doxm := Some d\<rparr>) s in (r = OC_STACK_OK, s'))
      | None \<Rightarrow>
          (let (r, s') = next_result s in
           if r = OC_STACK_OK then (True, s'\<lparr>ps_doxm := None\<rparr>) else (False, s')))"

definition UpdatePersistentStorage_cred :: "svr_state \<Rightarrow> bool \<times> svr_state" where
  "UpdatePersistentStorage_cred s =
     (if gCred s \<noteq> [] then
        (let (r, s') = encode_and_write (\<lambda>s. s\<lparr>ps_cred_rowner := Some (gRownerId s)\<rparr>) s
         in (r = OC_STACK_OK, s'))
      else
        (let (r, s') = next_result s in
         if r = OC_STACK_OK then (True, s'\<lparr>ps_cred_rowner := None\<rparr>) else (False, s')))"

section \<open>UUIDs\<close>

definition UuidCmp :: "OicUuid option \<Rightarrow> OicUuid option \<Rightarrow> bool" where
  "UuidCmp firstId secondId =
     (case (firstId, secondId) of (Some a, Some b) \<Rightarrow> a = b | _ \<Rightarrow> False)"

definition IsNilUuid :: "OicUuid option \<Rightarrow> bool" where
  "IsNilUuid uuid = UuidCmp uuid (Some THE_NIL_UUID)"

section \<open>/oic/sec/pstat\<close>

text \<open>Reading a field of a global object that may be NULL into an out-parameter.\<close>

definition read_field :: "'g option \<Rightarrow> ('g \<Rightarrow> 'a) \<Rightarrow> 'a option \<Rightarrow> OCStackResult \<times> 'a option" where
  "read_field g f out = (case (g, out) of
     (Some x, Some _) \<Rightarrow> (OC_STACK_OK, Some (f x)) | _ \<Rightarrow> (OC_STACK_ERROR, out))"

text \<open>Assigning a field of a global object that may be NULL.\<close>

definition write_field ::
  "(svr_state \<Rightarrow> 'g option) \<Rightarrow> ('g \<Rightarrow> svr_state \<Rightarrow> svr_state) \<Rightarrow> svr_state \<Rightarrow> OCStackResult \<times> svr_state" where
  "write_field g upd s = (case g s of None \<Rightarrow> (OC_STACK_ERROR, s) | Some x \<Rightarrow> (OC_STACK_OK, upd x s))"

definition GetPstatRownerId :: "svr_state \<Rightarrow> OicUuid option \<Rightarrow> OCStackResult \<times> OicUuid option" where
  "GetPstatRownerId s rowneruuid = read_field (gPstat s) pstat_rownerID rowneruuid"

definition IsPstatRowneruuidTheNilUuid :: "svr_state \<Rightarrow> bool" where
  "IsPstatRowneruuidTheNilUuid s =
     (case gPstat s of Some p \<Rightarrow> IsNilUuid (Some (pstat_rownerID p)) | None \<Rightarrow> True)"

definition SetPstatRownerId :: "svr_state \<Rightarrow> OicUuid option \<Rightarrow> OCStackResult \<times> svr_state" where
  "SetPstatRownerId s rowneruuid =
     (case rowneruuid of
        None \<Rightarrow> (OC_STACK_INVALID_PARAM, s)
      | Some u \<Rightarrow>
          (case gPstat s of
             None \<Rightarrow> (OC_STACK_NO_RESOURCE, s)
           | Some p \<Rightarrow>
               let prevId = pstat_rownerID p;
                   (ok, s1) = UpdatePersistentStorage_pstat (s\<lparr>gPstat := Some (p\<lparr>pstat_rownerID := u\<rparr>)\<rparr>)
               in if \<not> ok then (OC_STACK_ERROR,
                                s1\<lparr>gPstat := map_option (\<lambda>q. q\<lparr>pstat_rownerID := prevId\<rparr>) (gPstat s1)\<rparr>)
                  else (OC_STACK_OK, s1)))"

definition GetPstatDosS ::
  "svr_state \<Rightarrow> OicSecDeviceOnboardingState option \<Rightarrow> OCStackResult \<times> OicSecDeviceOnboardingState option" where
  "GetPstatDosS s out = read_field (gPstat s) (\<lambda>p. dos_state (pstat_dos p)) out"

definition SetPstatDosS :: "svr_state \<Rightarrow> OicSecDeviceOnboardingState \<Rightarrow> OCStackResult \<times> svr_state" where
  "SetPstatDosS s v = write_field gPstat
     (\<lambda>p. gPstat_update (\<lambda>_. Some (p\<lparr>pstat_dos := (pstat_dos p)\<lparr>dos_state := v\<rparr>\<rparr>))) s"

definition GetPstatDosP :: "svr_state \<Rightarrow> bool option \<Rightarrow> OCStackResult \<times> bool option" where
  "GetPstatDosP s out = read_field (gPstat s) (\<lambda>p. dos_pending (pstat_dos p)) out"

definition SetPstatDosP :: "svr_state \<Rightarrow> bool \<Rightarrow> OCStackResult \<times> svr_state" where
  "SetPstatDosP s v = write_field gPstat
     (\<lambda>p. gPstat_update (\<lambda>_. Some (p\<lparr>pstat_dos := (pstat_dos p)\<lparr>dos_pending := v\<rparr>\<rparr>))) s"

definition GetPstatIsop :: "svr_state \<Rightarrow> bool option \<Rightarrow> OCStackResult \<times> bool option" where
  "GetPstatIsop s out = read_field (gPstat s) pstat_isOp out"

definition SetPstatIsop :: "svr_state \<Rightarrow> bool \<Rightarrow> OCStackResult \<times> svr_state" where
  "SetPstatIsop s v = write_field gPstat (\<lambda>p. gPstat_update (\<lambda>_. Some (p\<lparr>pstat_isOp := v\<rparr>))) s"

definition GetPstatCm :: "svr_state \<Rightarrow> OicSecDpm option \<Rightarrow> OCStackResult \<times> OicSecDpm option" where
  "GetPstatCm s out = read_field (gPstat s) pstat_cm out"

definition SetPstatCm :: "svr_state \<Rightarrow> OicSecDpm \<Rightarrow> OCStackResult \<times> svr_state" where
  "SetPstatCm s v = write_field gPstat (\<lambda>p. gPstat_update (\<lambda>_. Some (p\<lparr>pstat_cm := v\<rparr>))) s"

definition GetPstatTm :: "svr_state \<Rightarrow> OicSecDpm option \<Rightarrow> OCStackResult \<times> OicSecDpm option" where
  "GetPstatTm s out = read_field (gPstat s) pstat_tm out"

definition SetPstatTm :: "svr_state \<Rightarrow> OicSecDpm \<Rightarrow> OCStackResult \<times> svr_state" where
  "SetPstatTm s v = write_field gPstat (\<lambda>p. gPstat_update (\<lambda>_. Some (p\<lparr>pstat_tm := v\<rparr>))) s"

section \<open>/oic/sec/doxm\<close>

definition GetDoxmDeviceID :: "svr_state \<Rightarrow> OicUuid option \<Rightarrow> OCStackResult \<times> OicUuid option" where
  "GetDoxmDeviceID s deviceuuid = read_field (gDoxm s) doxm_deviceID deviceuuid"

definition SetDoxmDeviceID :: "svr_state \<Rightarrow> OicUuid option \<Rightarrow> OCStackResult \<times> svr_state" where
  "SetDoxmDeviceID s deviceuuid =
     (case deviceuuid of
        None \<Rightarrow> (OC_STACK_INVALID_PARAM, s)
      | Some u \<Rightarrow>
          (case gDoxm s of
             None \<Rightarrow> (OC_STACK_NO_RESOURCE, s)
           | Some d \<Rightarrow>
               if doxm_owned d \<and> \<not> UuidCmp (Some (doxm_deviceID d)) (Some (doxm_owner d))
               then (OC_STACK_ERROR, s)
               else
                 let (ok, s1) = UpdatePersistentStorage_doxm (s\<lparr>gDoxm := Some (d\<lparr>doxm_deviceID := u\<rparr>)\<rparr>)
                 in (if ok then OC_STACK_OK else OC_STACK_ERROR, s1)))"

definition GetDoxmDevOwnerId :: "svr_state \<Rightarrow> OicUuid option \<Rightarrow> OCStackResult \<times> OicUuid option" where
  "GetDoxmDevOwnerId s devowneruuid = read_field (gDoxm s) doxm_owner devowneruuid"

definition SetDoxmDevOwnerId :: "svr_state \<Rightarrow> OicUuid option \<Rightarrow> OCStackResult \<times> svr_state" where
  "SetDoxmDevOwnerId s devowneruuid =
     (case devowneruuid of
        None \<Rightarrow> (OC_STACK_ERROR, s)
      | Some u \<Rightarrow> write_field gDoxm (\<lambda>d. gDoxm_update (\<lambda>_. Some (d\<lparr>doxm_owner := u\<rparr>))) s)"

definition GetDoxmIsOwned :: "svr_state \<Rightarrow> bool option \<Rightarrow> OCStackResult \<times> bool option" where
  "GetDoxmIsOwned s isowned = read_field (gDoxm s) doxm_owned isowned"

definition IsDoxmOwned :: "svr_state \<Rightarrow> bool" where
  "IsDoxmOwned s = (case gDoxm s of Some d \<Rightarrow> doxm_owned d | None \<Rightarrow> False)"

definition IsDoxmDevowneruuidTheNilUuid :: "svr_state \<Rightarrow> bool" where
  "IsDoxmDevowneruuidTheNilUuid s =
     (case gDoxm s of Some d \<Rightarrow> IsNilUuid (Some (doxm_owner d)) | None \<Rightarrow> True)"

definition IsDoxmDeviceuuidTheNilUuid :: "svr_state \<Rightarrow> bool" where
  "IsDoxmDeviceuuidTheNilUuid s =
     (case gDoxm s of Some d \<Rightarrow> IsNilUuid (Some (doxm_deviceID d)) | None \<Rightarrow> True)"

definition SetDoxmIsOwned :: "svr_state \<Rightarrow> bool \<Rightarrow> OCStackResult \<times> svr_state" where
  "SetDoxmIsOwned s isowned =
     write_field gDoxm (\<lambda>d. gDoxm_update (\<lambda>_. Some (d\<lparr>doxm_owned := isowned\<rparr>))) s"

definition GetDoxmRownerId :: "svr_state \<Rightarrow> OicUuid option \<Rightarrow> OCStackResult \<times> OicUuid option" where
  "GetDoxmRownerId s rowneruuid = read_field (gDoxm s) doxm_rownerID rowneruuid"

definition IsDoxmRowneruuidTheNilUuid :: "svr_state \<Rightarrow> bool" where
  "IsDoxmRowneruuidTheNilUuid s =
     (case gDoxm s of Some d \<Rightarrow> IsNilUuid (Some (doxm_rownerID d)) | None \<Rightarrow> False)"

definition SetDoxmRownerId :: "svr_state \<Rightarrow> OicUuid option \<Rightarrow> OCStackResult \<times> svr_state" where
  "SetDoxmRownerId s rowneruuid =
     (case rowneruuid of
        None \<Rightarrow> (OC_STACK_ERROR, s)
      | Some u \<Rightarrow> write_field gDoxm (\<lambda>d. gDoxm_update (\<lambda>_. Some (d\<lparr>doxm_rownerID := u\<rparr>))) s)"

text \<open>
  \<open>RegisterOTMSslHandshakeCallback\<close> sets \<open>otm_handshake_cb\<close>; \<open>CAEnableAnonECDHCipherSuite\<close> is a call
  into the TLS adapter whose result the environment gives. The second argument is \<open>*enabled\<close>.
\<close>

definition EnableAnonCipherSuiteIfUnOwnedAndJustWorksSelected ::
  "svr_state \<Rightarrow> bool option \<Rightarrow> OCStackResult \<times> bool option \<times> svr_state" where
  "EnableAnonCipherSuiteIfUnOwnedAndJustWorksSelected s enabled =
     (case gDoxm s of
        None \<Rightarrow> (OC_STACK_OK, enabled, s)
      | Some d \<Rightarrow>
          if doxm_owned d then (OC_STACK_OK, enabled, s)
          else if doxm_oxmSel d \<noteq> OIC_JUST_WORKS then (OC_STACK_OK, enabled, s)
          else
            let (r, s1) = next_result (s\<lparr>otm_handshake_cb := True\<rparr>) in
            if r = OC_STACK_OK
            then (OC_STACK_OK, map_option (\<lambda>_. True) enabled, s1\<lparr>anon_cipher := True\<rparr>)
            else (OC_STACK_ERROR, enabled, s1))"

text \<open>The loop over the \<open>oxm\<close> arrays, which have the same length when it is reached.\<close>

fun oxm_loop :: "u32 list \<Rightarrow> u32 list \<Rightarrow> nat \<Rightarrow> nat \<Rightarrow> bool" where
  "oxm_loop xs ys i 0 = True"
| "oxm_loop xs ys i (Suc n) = (if xs ! i \<noteq> ys ! i then False else oxm_loop xs ys (Suc i) n)"

definition AreDoxmBinPropertyValuesEqual :: "OicSecDoxm option \<Rightarrow> OicSecDoxm option \<Rightarrow> bool" where
  "AreDoxmBinPropertyValuesEqual doxm1 doxm2 =
     (case (doxm1, doxm2) of
        (Some d1, Some d2) \<Rightarrow>
          if length (doxm_oxm d1) \<noteq> length (doxm_oxm d2) then False
          else if \<not> oxm_loop (doxm_oxm d1) (doxm_oxm d2) 0 (length (doxm_oxm d1)) then False
          else if doxm_oxmSel d1 \<noteq> doxm_oxmSel d2 then False
          else if doxm_sct d1 \<noteq> doxm_sct d2 then False
          else if doxm_owned d1 \<noteq> doxm_owned d2 then False
          else if doxm_deviceID d1 \<noteq> doxm_deviceID d2 then False
          else if doxm_dpc d1 \<noteq> doxm_dpc d2 then False
          else if doxm_owner d1 \<noteq> doxm_owner d2 then False
          else if doxm_rownerID d1 \<noteq> doxm_rownerID d2 then False
          else True
      | _ \<Rightarrow> False)"

section \<open>/oic/sec/cred and /oic/sec/acl2\<close>

definition SetCredRownerId :: "svr_state \<Rightarrow> OicUuid option \<Rightarrow> OCStackResult \<times> svr_state" where
  "SetCredRownerId s newROwner =
     (case newROwner of
        None \<Rightarrow> (OC_STACK_INVALID_PARAM, s)
      | Some u \<Rightarrow>
          if UuidCmp (Some (gRownerId s)) (Some u) then (OC_STACK_OK, s)
          else
            let (ok, s1) = UpdatePersistentStorage_cred (s\<lparr>gRownerId := u\<rparr>)
            in (if ok then OC_STACK_OK else OC_STACK_ERROR, s1))"

definition GetCredRownerId :: "svr_state \<Rightarrow> OicUuid option \<Rightarrow> OCStackResult \<times> OicUuid option" where
  "GetCredRownerId s rowneruuid =
     (case rowneruuid of None \<Rightarrow> (OC_STACK_ERROR, None) | Some _ \<Rightarrow> (OC_STACK_OK, Some (gRownerId s)))"

definition IsCredRowneruuidTheNilUuid :: "svr_state \<Rightarrow> bool" where
  "IsCredRowneruuidTheNilUuid s = IsNilUuid (Some (gRownerId s))"

definition SetAclRownerId :: "svr_state \<Rightarrow> OicUuid option \<Rightarrow> OCStackResult \<times> svr_state" where
  "SetAclRownerId s newROwner =
     (case (newROwner, gAcl s) of
        (Some u, Some a) \<Rightarrow>
          (let prevId = acl_rownerID a;
               (r, s1) = encode_and_write (\<lambda>s. s\<lparr>ps_acl := gAcl s\<rparr>)
                           (s\<lparr>gAcl := Some (a\<lparr>acl_rownerID := u\<rparr>)\<rparr>)
           in if r = OC_STACK_OK then (OC_STACK_OK, s1)
              else (r, s1\<lparr>gAcl := map_option (\<lambda>a. a\<lparr>acl_rownerID := prevId\<rparr>) (gAcl s1)\<rparr>))
      | (_, None) \<Rightarrow> (OC_STACK_NO_RESOURCE, s)
      | (None, _) \<Rightarrow> (OC_STACK_INVALID_PARAM, s))"

definition GetAclRownerId :: "svr_state \<Rightarrow> OicUuid option \<Rightarrow> OCStackResult \<times> OicUuid option" where
  "GetAclRownerId s rowneruuid = read_field (gAcl s) acl_rownerID rowneruuid"

definition IsAclRowneruuidTheNilUuid :: "svr_state \<Rightarrow> bool" where
  "IsAclRowneruuidTheNilUuid s =
     (case gAcl s of Some a \<Rightarrow> IsNilUuid (Some (acl_rownerID a)) | None \<Rightarrow> True)"

section \<open>The contract of a property\<close>

text \<open>
  What a client of the accessors relies on: reading and writing are errors exactly while the
  resource is not initialised, a successful write is what later reads return, a failed write
  leaves the property as it was.
\<close>

locale svr_property =
  fixes get :: "svr_state \<Rightarrow> 'a option \<Rightarrow> OCStackResult \<times> 'a option"
    and put :: "svr_state \<Rightarrow> 'a \<Rightarrow> OCStackResult \<times> svr_state"
    and ready :: "svr_state \<Rightarrow> bool"
  assumes get_ready: "ready s \<Longrightarrow> \<exists>v. \<forall>w. get s (Some w) = (OC_STACK_OK, Some v)"
    and get_not_ready: "\<not> ready s \<Longrightarrow> get s out = (OC_STACK_ERROR, out)"
    and get_null: "get s None = (OC_STACK_ERROR, None)"
    and put_not_ready: "\<not> ready s \<Longrightarrow> fst (put s v) \<noteq> OC_STACK_OK"
    and put_ready: "ready (snd (put s v)) = ready s"
    and get_put: "fst (put s v) = OC_STACK_OK \<Longrightarrow> get (snd (put s v)) (Some w) = (OC_STACK_OK, Some v)"
    and put_fail: "fst (put s v) \<noteq> OC_STACK_OK \<Longrightarrow> get (snd (put s v)) out = get s out"
begin

lemma get_ok_iff: "fst (get s out) = OC_STACK_OK \<longleftrightarrow> ready s \<and> out \<noteq> None"
proof (cases "ready s")
  case True
  then show ?thesis using get_ready [OF True] get_null by (cases out) auto
next
  case False
  then show ?thesis using get_not_ready by simp
qed

lemma get_old_content: "ready s \<Longrightarrow> get s (Some w) = get s (Some w')"
  using get_ready by metis

lemma get_after_put:
  assumes "get s (Some w) = (OC_STACK_OK, Some u)"
  shows "get (snd (put s v)) (Some w') =
    (OC_STACK_OK, Some (if fst (put s v) = OC_STACK_OK then v else u))"
proof -
  have "ready s" using assms get_ok_iff [of s "Some w"] by simp
  then have "get s (Some w') = (OC_STACK_OK, Some u)"
    using get_old_content [of s w w'] assms by simp
  then show ?thesis using get_put [of s v w'] put_fail [of s v "Some w'"] by simp
qed

end

text \<open>A property kept in memory only: a write to an initialised resource cannot fail.\<close>

locale svr_volatile = svr_property +
  assumes put_ok: "ready s \<Longrightarrow> fst (put s v) = OC_STACK_OK"
begin

lemma put_ok_iff: "fst (put s v) = OC_STACK_OK \<longleftrightarrow> ready s"
  using put_ok put_not_ready by blast

lemma get_put_ready: "ready s \<Longrightarrow> get (snd (put s v)) (Some w) = (OC_STACK_OK, Some v)"
  using get_put put_ok by simp

end

abbreviation pstat_ready :: "svr_state \<Rightarrow> bool" where
  "pstat_ready s \<equiv> gPstat s \<noteq> None"

abbreviation doxm_ready :: "svr_state \<Rightarrow> bool" where
  "doxm_ready s \<equiv> gDoxm s \<noteq> None"

lemmas field_defs = read_field_def write_field_def

lemma next_result_fields [iot_simps]:
  "gPstat (snd (next_result s)) = gPstat s" "gDoxm (snd (next_result s)) = gDoxm s"
  "gAcl (snd (next_result s)) = gAcl s" "gCred (snd (next_result s)) = gCred s"
  "gRownerId (snd (next_result s)) = gRownerId s"
  by (auto simp: next_result_def split: list.splits)

lemma svr_volatile_field:
  assumes "\<And>x v s. g s = Some x \<Longrightarrow> \<exists>y. g (upd v x s) = Some y \<and> f y = v"
  shows "svr_volatile (\<lambda>s. read_field (g s) f) (\<lambda>s v. write_field g (upd v) s) (\<lambda>s. g s \<noteq> None)"
proof unfold_locales
  fix s v w out
  show "g s \<noteq> None \<Longrightarrow> \<exists>v. \<forall>w. read_field (g s) f (Some w) = (OC_STACK_OK, Some v)"
    by (auto simp: read_field_def)
  show "\<not> g s \<noteq> None \<Longrightarrow> read_field (g s) f out = (OC_STACK_ERROR, out)"
    by (simp add: read_field_def)
  show "read_field (g s) f None = (OC_STACK_ERROR, None)"
    by (simp add: read_field_def split: option.splits)
  show "\<not> g s \<noteq> None \<Longrightarrow> fst (write_field g (upd v) s) \<noteq> OC_STACK_OK"
    by (simp add: write_field_def)
  show "(g (snd (write_field g (upd v) s)) \<noteq> None) = (g s \<noteq> None)"
    using assms by (fastforce simp: write_field_def split: option.splits)
  show "fst (write_field g (upd v) s) = OC_STACK_OK \<Longrightarrow>
      read_field (g (snd (write_field g (upd v) s))) f (Some w) = (OC_STACK_OK, Some v)"
    using assms [of s _ v] by (fastforce simp: field_defs split: option.splits)
  show "fst (write_field g (upd v) s) \<noteq> OC_STACK_OK \<Longrightarrow>
      read_field (g (snd (write_field g (upd v) s))) f out = read_field (g s) f out"
    by (simp add: write_field_def split: option.splits)
  show "g s \<noteq> None \<Longrightarrow> fst (write_field g (upd v) s) = OC_STACK_OK"
    by (auto simp: write_field_def)
qed

interpretation dosS: svr_volatile GetPstatDosS SetPstatDosS pstat_ready
  unfolding GetPstatDosS_def [abs_def] SetPstatDosS_def [abs_def] option.case
  by (rule svr_volatile_field) simp

interpretation dosP: svr_volatile GetPstatDosP SetPstatDosP pstat_ready
  unfolding GetPstatDosP_def [abs_def] SetPstatDosP_def [abs_def] option.case
  by (rule svr_volatile_field) simp

interpretation isop: svr_volatile GetPstatIsop SetPstatIsop pstat_ready
  unfolding GetPstatIsop_def [abs_def] SetPstatIsop_def [abs_def] option.case
  by (rule svr_volatile_field) simp

interpretation cm: svr_volatile GetPstatCm SetPstatCm pstat_ready
  unfolding GetPstatCm_def [abs_def] SetPstatCm_def [abs_def] option.case
  by (rule svr_volatile_field) simp

interpretation tm: svr_volatile GetPstatTm SetPstatTm pstat_ready
  unfolding GetPstatTm_def [abs_def] SetPstatTm_def [abs_def] option.case
  by (rule svr_volatile_field) simp

interpretation owned: svr_volatile GetDoxmIsOwned SetDoxmIsOwned doxm_ready
  unfolding GetDoxmIsOwned_def [abs_def] SetDoxmIsOwned_def [abs_def] option.case
  by (rule svr_volatile_field) simp

interpretation devowner: svr_volatile GetDoxmDevOwnerId "\<lambda>s u. SetDoxmDevOwnerId s (Some u)" doxm_ready
  unfolding GetDoxmDevOwnerId_def [abs_def] SetDoxmDevOwnerId_def [abs_def] option.case
  by (rule svr_volatile_field) simp

interpretation doxm_rowner: svr_volatile GetDoxmRownerId "\<lambda>s u. SetDoxmRownerId s (Some u)" doxm_ready
  unfolding GetDoxmRownerId_def [abs_def] SetDoxmRownerId_def [abs_def] option.case
  by (rule svr_volatile_field) simp

text \<open>Storage writes do not touch the resources in memory.\<close>

lemma encode_and_write_keeps:
  assumes "\<And>s. f (store s) = f s" "\<And>s. f (snd (next_result s)) = f s"
  shows "f (snd (encode_and_write store s)) = f s"
  using assms by (simp add: encode_and_write_def Let_def split_def)

lemma UpdatePersistentStorage_pstat_keeps [iot_simps]:
  "gPstat (snd (UpdatePersistentStorage_pstat s)) = gPstat s"
  using encode_and_write_keeps [of gPstat "\<lambda>s. s\<lparr>ps_pstat := gPstat s\<rparr>" s]
  by (simp add: UpdatePersistentStorage_pstat_def split_def Let_def iot_simps)

lemma UpdatePersistentStorage_doxm_keeps [iot_simps]:
  "gDoxm (snd (UpdatePersistentStorage_doxm s)) = gDoxm s"
proof -
  have "gDoxm (snd (encode_and_write (\<lambda>s. s\<lparr>ps_doxm := Some d\<rparr>) s)) = gDoxm s" for d
    by (rule encode_and_write_keeps) (simp_all add: iot_simps)
  then show ?thesis
    by (auto simp: UpdatePersistentStorage_doxm_def split_def Let_def iot_simps split: option.splits)
qed

lemma UpdatePersistentStorage_cred_keeps [iot_simps]:
  "gRownerId (snd (UpdatePersistentStorage_cred s)) = gRownerId s"
  using encode_and_write_keeps [of gRownerId "\<lambda>s. s\<lparr>ps_cred_rowner := Some (gRownerId s)\<rparr>" s]
  by (simp add: UpdatePersistentStorage_cred_def split_def Let_def iot_simps)

text \<open>What each write leaves alone.\<close>

lemma UpdatePersistentStorage_frames:
  "gDoxm (snd (UpdatePersistentStorage_pstat s)) = gDoxm s"
  "gAcl (snd (UpdatePersistentStorage_pstat s)) = gAcl s"
  "gRownerId (snd (UpdatePersistentStorage_pstat s)) = gRownerId s"
  "gPstat (snd (UpdatePersistentStorage_cred s)) = gPstat s"
  "gDoxm (snd (UpdatePersistentStorage_cred s)) = gDoxm s"
  "gAcl (snd (UpdatePersistentStorage_cred s)) = gAcl s"
  by (auto simp: UpdatePersistentStorage_pstat_def UpdatePersistentStorage_cred_def
      encode_and_write_def next_result_def Let_def split: list.splits)

lemma SetAclRownerId_frame [iot_simps]:
  "gPstat (snd (SetAclRownerId s u)) = gPstat s"
  "gDoxm (snd (SetAclRownerId s u)) = gDoxm s"
  "gRownerId (snd (SetAclRownerId s u)) = gRownerId s"
proof -
  have "gPstat (snd (encode_and_write (\<lambda>s. s\<lparr>ps_acl := gAcl s\<rparr>) t)) = gPstat t"
    "gDoxm (snd (encode_and_write (\<lambda>s. s\<lparr>ps_acl := gAcl s\<rparr>) t)) = gDoxm t"
    "gRownerId (snd (encode_and_write (\<lambda>s. s\<lparr>ps_acl := gAcl s\<rparr>) t)) = gRownerId t" for t
    by (rule encode_and_write_keeps; simp add: iot_simps)+
  then show "gPstat (snd (SetAclRownerId s u)) = gPstat s"
    "gDoxm (snd (SetAclRownerId s u)) = gDoxm s" "gRownerId (snd (SetAclRownerId s u)) = gRownerId s"
    by (auto simp: SetAclRownerId_def Let_def split_def split: option.splits)
qed

lemma SetCredRownerId_frame [iot_simps]:
  "gPstat (snd (SetCredRownerId s u)) = gPstat s"
  "gDoxm (snd (SetCredRownerId s u)) = gDoxm s"
  "gAcl (snd (SetCredRownerId s u)) = gAcl s"
  by (auto simp: SetCredRownerId_def Let_def split_def UpdatePersistentStorage_frames split: option.splits)

lemma SetCredRownerId_ok:
  "fst (SetCredRownerId s (Some u)) = OC_STACK_OK \<Longrightarrow> gRownerId (snd (SetCredRownerId s (Some u))) = u"
  by (auto simp: SetCredRownerId_def Let_def split_def UuidCmp_def iot_simps split: if_splits)

lemma SetPstatRownerId_frame [iot_simps]:
  "gDoxm (snd (SetPstatRownerId s u)) = gDoxm s"
  "gAcl (snd (SetPstatRownerId s u)) = gAcl s"
  "gRownerId (snd (SetPstatRownerId s u)) = gRownerId s"
  by (auto simp: SetPstatRownerId_def Let_def split_def UpdatePersistentStorage_frames split: option.splits)

lemma doxm_write_frames [iot_simps]:
  "gPstat (snd (SetDoxmIsOwned s b)) = gPstat s" "gPstat (snd (SetDoxmDevOwnerId s u)) = gPstat s"
  "gPstat (snd (SetDoxmRownerId s u)) = gPstat s" "gAcl (snd (SetDoxmIsOwned s b)) = gAcl s"
  "gAcl (snd (SetDoxmDevOwnerId s u)) = gAcl s" "gAcl (snd (SetDoxmRownerId s u)) = gAcl s"
  "gRownerId (snd (SetDoxmIsOwned s b)) = gRownerId s"
  "gRownerId (snd (SetDoxmDevOwnerId s u)) = gRownerId s"
  "gRownerId (snd (SetDoxmRownerId s u)) = gRownerId s"
  by (auto simp: SetDoxmIsOwned_def SetDoxmDevOwnerId_def SetDoxmRownerId_def write_field_def
      split: option.splits)

lemma SetPstatRownerId_some:
  assumes "gPstat s = Some p"
  shows "SetPstatRownerId s (Some u) = (OC_STACK_OK, snd (SetPstatRownerId s (Some u)))
           \<and> gPstat (snd (SetPstatRownerId s (Some u))) = Some (p\<lparr>pstat_rownerID := u\<rparr>)
       \<or> SetPstatRownerId s (Some u) = (OC_STACK_ERROR, snd (SetPstatRownerId s (Some u)))
           \<and> gPstat (snd (SetPstatRownerId s (Some u))) = Some p"
  using assms
  by (auto simp: SetPstatRownerId_def Let_def split_def iot_simps)

lemma SetAclRownerId_some:
  assumes "gAcl s = Some a"
  shows "fst (SetAclRownerId s (Some u)) = OC_STACK_OK
           \<and> gAcl (snd (SetAclRownerId s (Some u))) = Some (a\<lparr>acl_rownerID := u\<rparr>)
       \<or> fst (SetAclRownerId s (Some u)) \<noteq> OC_STACK_OK
           \<and> gAcl (snd (SetAclRownerId s (Some u))) = Some a"
proof -
  have "gAcl (snd (encode_and_write (\<lambda>s. s\<lparr>ps_acl := gAcl s\<rparr>) t)) = gAcl t" for t
    by (rule encode_and_write_keeps) (simp_all add: iot_simps)
  then show ?thesis using assms by (auto simp: SetAclRownerId_def Let_def split_def)
qed

lemma svr_property_stored:
  assumes none: "\<And>s u. g s = None \<Longrightarrow> fst (put s u) \<noteq> OC_STACK_OK \<and> g (snd (put s u)) = None"
    and some: "\<And>s u x. g s = Some x \<Longrightarrow>
        fst (put s u) = OC_STACK_OK \<and> (\<exists>y. g (snd (put s u)) = Some y \<and> f y = u)
      \<or> fst (put s u) \<noteq> OC_STACK_OK \<and> g (snd (put s u)) = Some x"
  shows "svr_property (\<lambda>s. read_field (g s) f) put (\<lambda>s. g s \<noteq> None)"
proof unfold_locales
  fix s v w out
  show "g s \<noteq> None \<Longrightarrow> \<exists>v. \<forall>w. read_field (g s) f (Some w) = (OC_STACK_OK, Some v)"
    by (auto simp: read_field_def)
  show "\<not> g s \<noteq> None \<Longrightarrow> read_field (g s) f out = (OC_STACK_ERROR, out)"
    by (simp add: read_field_def)
  show "read_field (g s) f None = (OC_STACK_ERROR, None)"
    by (simp add: read_field_def split: option.splits)
  show "\<not> g s \<noteq> None \<Longrightarrow> fst (put s v) \<noteq> OC_STACK_OK"
    using none by simp
  show "(g (snd (put s v)) \<noteq> None) = (g s \<noteq> None)"
    using none [of s v] some [of s _ v] by (cases "g s") auto
  show "fst (put s v) = OC_STACK_OK \<Longrightarrow> read_field (g (snd (put s v))) f (Some w) = (OC_STACK_OK, Some v)"
    using none [of s v] some [of s _ v] by (cases "g s") (auto simp: read_field_def)
  show "fst (put s v) \<noteq> OC_STACK_OK \<Longrightarrow> read_field (g (snd (put s v))) f out = read_field (g s) f out"
    using none [of s v] some [of s _ v] by (cases "g s") auto
qed

interpretation pstat_rowner: svr_property GetPstatRownerId "\<lambda>s u. SetPstatRownerId s (Some u)" pstat_ready
  unfolding GetPstatRownerId_def [abs_def]
proof (rule svr_property_stored)
  fix s u show "gPstat s = None \<Longrightarrow> fst (SetPstatRownerId s (Some u)) \<noteq> OC_STACK_OK
      \<and> gPstat (snd (SetPstatRownerId s (Some u))) = None"
    by (simp add: SetPstatRownerId_def)
  fix x assume "gPstat s = Some x"
  from SetPstatRownerId_some [OF this, of u]
  show "fst (SetPstatRownerId s (Some u)) = OC_STACK_OK
      \<and> (\<exists>y. gPstat (snd (SetPstatRownerId s (Some u))) = Some y \<and> pstat_rownerID y = u)
    \<or> fst (SetPstatRownerId s (Some u)) \<noteq> OC_STACK_OK
      \<and> gPstat (snd (SetPstatRownerId s (Some u))) = Some x"
    by (metis OCStackResult.distinct(15) OicSecPstat.select_convs(8) OicSecPstat.surjective
        OicSecPstat.update_convs(8) fst_conv)
qed

interpretation acl_rowner: svr_property GetAclRownerId "\<lambda>s u. SetAclRownerId s (Some u)" "\<lambda>s. gAcl s \<noteq> None"
  unfolding GetAclRownerId_def [abs_def]
proof (rule svr_property_stored)
  fix s u show "gAcl s = None \<Longrightarrow> fst (SetAclRownerId s (Some u)) \<noteq> OC_STACK_OK
      \<and> gAcl (snd (SetAclRownerId s (Some u))) = None"
    by (simp add: SetAclRownerId_def)
  fix x assume "gAcl s = Some x"
  from SetAclRownerId_some [OF this, of u]
  show "fst (SetAclRownerId s (Some u)) = OC_STACK_OK
      \<and> (\<exists>y. gAcl (snd (SetAclRownerId s (Some u))) = Some y \<and> acl_rownerID y = u)
    \<or> fst (SetAclRownerId s (Some u)) \<noteq> OC_STACK_OK
      \<and> gAcl (snd (SetAclRownerId s (Some u))) = Some x"
    by auto
qed

section \<open>Properties\<close>

lemma oxm_loop_iff:
  "oxm_loop xs ys i n \<longleftrightarrow> (\<forall>j<n. xs ! (i + j) = ys ! (i + j))"
proof (induction n arbitrary: i)
  case (Suc n)
  have "(\<forall>j<Suc n. xs ! (i + j) = ys ! (i + j)) \<longleftrightarrow>
      xs ! i = ys ! i \<and> (\<forall>j<n. xs ! (Suc i + j) = ys ! (Suc i + j))"
    by (auto simp: less_Suc_eq_0_disj)
  then show ?case using Suc by simp
qed simp

text \<open>
  \<open>AreDoxmBinPropertyValuesEqual\<close> is equality of the two doxm structures in every property,
  and false when one of the pointers is NULL.
\<close>

lemma AreDoxmBinPropertyValuesEqual_correct:
  "AreDoxmBinPropertyValuesEqual doxm1 doxm2 \<longleftrightarrow> doxm1 \<noteq> None \<and> doxm1 = doxm2"
proof (cases doxm1; cases doxm2)
  fix a b assume d: "doxm1 = Some a" "doxm2 = Some b"
  have "doxm_oxm a = doxm_oxm b \<longleftrightarrow> length (doxm_oxm a) = length (doxm_oxm b)
      \<and> oxm_loop (doxm_oxm a) (doxm_oxm b) 0 (length (doxm_oxm a))"
    by (simp add: oxm_loop_iff list_eq_iff_nth_eq)
  then have "AreDoxmBinPropertyValuesEqual (Some a) (Some b) \<longleftrightarrow> a = b"
    by (cases a; cases b) (auto simp: AreDoxmBinPropertyValuesEqual_def)
  then show ?thesis using d by simp
qed (simp_all add: AreDoxmBinPropertyValuesEqual_def)

text \<open>
  The resource owner ids are transactional in /pstat and /acl2: whatever the storage does,
  after a write the id read back is the new one if the write reported success and the old one
  otherwise.
\<close>

lemma rowner_write_transactional:
  assumes "GetPstatRownerId s (Some w) = (OC_STACK_OK, Some p)"
    and "GetAclRownerId s (Some w) = (OC_STACK_OK, Some a)"
  shows "GetPstatRownerId (snd (SetPstatRownerId s (Some u))) (Some w)
        = (OC_STACK_OK, Some (if fst (SetPstatRownerId s (Some u)) = OC_STACK_OK then u else p))
    \<and> GetAclRownerId (snd (SetAclRownerId s (Some u))) (Some w)
        = (OC_STACK_OK, Some (if fst (SetAclRownerId s (Some u)) = OC_STACK_OK then u else a))"
  using pstat_rowner.get_after_put [OF assms(1)] acl_rowner.get_after_put [OF assms(2)] by simp

text \<open>A device that has just been taken over by its owner, used by the examples.\<close>

definition example_uuid :: OicUuid where
  "example_uuid = replicate 15 0 @ [7]"

definition example_svr :: svr_state where
  "example_svr = \<lparr>
     gPstat = Some \<lparr>pstat_dos = \<lparr>dos_state = DOS_RFOTM, dos_pending = False\<rparr>, pstat_isOp = False,
       pstat_cm = 2, pstat_tm = 0, pstat_om = 4, pstat_sm = [4], pstat_commitHash = 0,
       pstat_rownerID = example_uuid\<rparr>,
     gDoxm = Some \<lparr>doxm_oxm = [0], doxm_oxmSel = 0, doxm_sct = 1, doxm_owned = True,
       doxm_deviceID = replicate 16 1, doxm_dpc = False, doxm_owner = example_uuid,
       doxm_rownerID = example_uuid\<rparr>,
     gAcl = Some \<lparr>acl_rownerID = example_uuid, acl_aces = []\<rparr>,
     gCred = [1], gRownerId = example_uuid,
     ps_pstat = None, ps_doxm = None, ps_acl = None, ps_cred_rowner = Some example_uuid,
     anon_cipher = False, otm_handshake_cb = False, env_results = []\<rparr>"

lemma rowner_write_transactional_example:
  "GetPstatRownerId (snd (SetPstatRownerId (example_svr\<lparr>env_results := [OC_STACK_ERROR]\<rparr>) (Some [9])))
      (Some []) = (OC_STACK_OK, Some example_uuid)
   \<and> GetAclRownerId (snd (SetAclRownerId (example_svr\<lparr>env_results := [OC_STACK_ERROR]\<rparr>) (Some [9])))
      (Some []) = (OC_STACK_OK, Some example_uuid)"
proof -
  let ?s = "example_svr\<lparr>env_results := [OC_STACK_ERROR]\<rparr>"
  have "GetPstatRownerId ?s (Some []) = (OC_STACK_OK, Some example_uuid)"
    and "GetAclRownerId ?s (Some []) = (OC_STACK_OK, Some example_uuid)"
    by (simp_all add: GetPstatRownerId_def GetAclRownerId_def read_field_def example_svr_def)
  from rowner_write_transactional [OF this, of "[9]"]
  show ?thesis
    by (simp add: SetPstatRownerId_def SetAclRownerId_def UpdatePersistentStorage_pstat_def
        encode_and_write_def next_result_def example_svr_def)
qed

text \<open>
  the owner id of /cred is not transactional: when storing it fails, \<open>SetCredRownerId\<close> keeps the
  new id in memory although its log message says that it is reverted, and a retry with the same id
  then reports success without writing anything, so the stored id stays the old one.
\<close>

lemma SetCredRownerId_not_reverted:
  assumes fail: "SetCredRownerId s (Some u) = (r, s1)" "r \<noteq> OC_STACK_OK"
  shows "gRownerId s1 = u \<and> ps_cred_rowner s1 = ps_cred_rowner s
    \<and> SetCredRownerId s1 (Some u) = (OC_STACK_OK, s1)"
proof -
  have s1: "UpdatePersistentStorage_cred (s\<lparr>gRownerId := u\<rparr>) = (False, s1)"
    using fail by (auto simp: SetCredRownerId_def split: if_splits prod.splits)
  then have mem: "gRownerId s1 = u"
    using UpdatePersistentStorage_cred_keeps [of "s\<lparr>gRownerId := u\<rparr>"] by simp
  have "ps_cred_rowner s1 = ps_cred_rowner s"
    using s1 by (auto simp: UpdatePersistentStorage_cred_def encode_and_write_def next_result_def Let_def
        split: list.splits if_splits)
  with mem show ?thesis by (simp add: SetCredRownerId_def UuidCmp_def)
qed

lemma SetCredRownerId_not_reverted_witness:
  "\<exists>s1. SetCredRownerId (example_svr\<lparr>env_results := [OC_STACK_ERROR]\<rparr>) (Some [9]) = (OC_STACK_ERROR, s1)
     \<and> gRownerId s1 = [9] \<and> ps_cred_rowner s1 = Some example_uuid"
proof -
  obtain s1 where s1: "SetCredRownerId (example_svr\<lparr>env_results := [OC_STACK_ERROR]\<rparr>) (Some [9])
      = (OC_STACK_ERROR, s1)"
    by (simp add: SetCredRownerId_def UuidCmp_def UpdatePersistentStorage_cred_def encode_and_write_def
        next_result_def example_svr_def example_uuid_def)
  from SetCredRownerId_not_reverted [OF s1] s1 show ?thesis by (simp add: example_svr_def)
qed

end
