(* ===== verification/Onboarding.thy ===== *)
theory Onboarding
  imports Svr_State
begin

text \<open>
  The device onboarding state machine of \<^verbatim>\<open>resource/csdk/security/src/deviceonboardingstate.c\<close>:
  the transition table, the entry conditions, the entry actions and \<open>SetDosState\<close>, over the state
  of \<^verbatim>\<open>Svr_State\<close>. The entry actions write several resources one after the other and stop at the
  first write that fails, so a failed transition may leave some of the writes behind: the model
  keeps that. The \<open>assert(false)\<close> on \<open>DOS_STATE_COUNT\<close> is compiled out of release builds, where the
  function returns the initial value of its result; that is what is modelled.
\<close>

section \<open>The transition table and the entry conditions\<close>

definition IsValidStateTransition ::
  "OicSecDeviceOnboardingState \<Rightarrow> OicSecDeviceOnboardingState \<Rightarrow> bool" where
  "IsValidStateTransition oldState newState =
     (case newState of
        DOS_RESET \<Rightarrow> True
      | DOS_RFNOP \<Rightarrow> oldState = DOS_RFPRO
      | DOS_RFOTM \<Rightarrow> oldState = DOS_RESET
      | DOS_RFPRO \<Rightarrow> oldState = DOS_RFNOP \<or> oldState = DOS_RFOTM \<or> oldState = DOS_SRESET
      | DOS_SRESET \<Rightarrow> oldState = DOS_RFNOP \<or> oldState = DOS_RFPRO
      | DOS_STATE_COUNT \<Rightarrow> False)"

definition IsReadyToEnterRFNOP :: "svr_state \<Rightarrow> bool" where
  "IsReadyToEnterRFNOP s =
     (if \<not> IsDoxmOwned s then False
      else if IsDoxmDevowneruuidTheNilUuid s then False
      else if IsDoxmDeviceuuidTheNilUuid s then False
      else case GetPstatIsop s (Some False) of
        (OC_STACK_OK, Some isop) \<Rightarrow>
          if isop then False
          else if IsAclRowneruuidTheNilUuid s then False
          else if IsCredRowneruuidTheNilUuid s then False
          else if IsDoxmRowneruuidTheNilUuid s then False
          else if IsPstatRowneruuidTheNilUuid s then False
          else True
      | _ \<Rightarrow> False)"

definition IsReadyToEnterRFOTM :: "svr_state \<Rightarrow> bool" where
  "IsReadyToEnterRFOTM s =
     (if IsDoxmOwned s then False
      else if \<not> IsDoxmDevowneruuidTheNilUuid s then False
      else True)"

definition IsReadyToEnterRFPRO :: "svr_state \<Rightarrow> bool" where
  "IsReadyToEnterRFPRO s =
     (if \<not> IsDoxmOwned s then False
      else if IsDoxmDevowneruuidTheNilUuid s then False
      else if IsDoxmDeviceuuidTheNilUuid s then False
      else if IsAclRowneruuidTheNilUuid s then False
      else if IsCredRowneruuidTheNilUuid s then False
      else if IsDoxmRowneruuidTheNilUuid s then False
      else if IsPstatRowneruuidTheNilUuid s then False
      else True)"

definition IsReadyToEnterSRESET :: "svr_state \<Rightarrow> bool" where
  "IsReadyToEnterSRESET s =
     (if \<not> IsDoxmOwned s then False
      else if IsDoxmDevowneruuidTheNilUuid s then False
      else if IsDoxmDeviceuuidTheNilUuid s then False
      else True)"

section \<open>The entry actions\<close>

text \<open>\<open>VERIFY_SUCCESS(TAG, OC_STACK_OK == op, ERROR)\<close>: go on, or leave with \<open>ret = false\<close>.\<close>

definition verify_then ::
  "OCStackResult \<times> svr_state \<Rightarrow> (svr_state \<Rightarrow> bool \<times> svr_state) \<Rightarrow> bool \<times> svr_state" where
  "verify_then op k = (if fst op = OC_STACK_OK then k (snd op) else (False, snd op))"

definition set_bit_if :: "bool \<Rightarrow> OicSecDpm \<Rightarrow> OicSecDpm \<Rightarrow> OicSecDpm" where
  "set_bit_if b flag v = (if b then v OR flag else v AND NOT flag)"

definition EnterStateGeneric ::
  "svr_state \<Rightarrow> bool \<Rightarrow> bool \<Rightarrow> bool \<Rightarrow> bool \<Rightarrow> bool \<Rightarrow> OicSecDeviceOnboardingState
     \<Rightarrow> bool \<times> svr_state" where
  "EnterStateGeneric s isop cmReset cmTakeOwner tmReset tmTakeOwner state =
     (case (GetPstatCm s (Some 0), GetPstatTm s (Some 0)) of
        ((OC_STACK_OK, Some cm), (OC_STACK_OK, Some tm)) \<Rightarrow>
          verify_then (SetPstatIsop s isop) (\<lambda>s.
          verify_then (SetPstatCm s (set_bit_if cmTakeOwner TAKE_OWNER (set_bit_if cmReset RESET cm))) (\<lambda>s.
          verify_then (SetPstatTm s (set_bit_if tmTakeOwner TAKE_OWNER (set_bit_if tmReset RESET tm))) (\<lambda>s.
          verify_then (SetPstatDosS s state) (\<lambda>s. (True, s)))))
      | _ \<Rightarrow> (False, s))"

definition EnterRFNOP :: "svr_state \<Rightarrow> bool \<times> svr_state" where
  "EnterRFNOP s = EnterStateGeneric s True False False False False DOS_RFNOP"

definition EnterRFOTM :: "svr_state \<Rightarrow> bool \<times> svr_state" where
  "EnterRFOTM s = EnterStateGeneric s False False True False False DOS_RFOTM"

definition EnterRFPRO :: "svr_state \<Rightarrow> bool \<times> svr_state" where
  "EnterRFPRO s = EnterStateGeneric s False False False False False DOS_RFPRO"

definition EnterRESET :: "svr_state \<Rightarrow> bool \<times> svr_state" where
  "EnterRESET s =
     verify_then (SetDoxmIsOwned s False) (\<lambda>s.
     verify_then (SetDoxmDevOwnerId s (Some THE_NIL_UUID)) (\<lambda>s.
     verify_then (SetAclRownerId s (Some THE_NIL_UUID)) (\<lambda>s.
     verify_then (SetCredRownerId s (Some THE_NIL_UUID)) (\<lambda>s.
     verify_then (SetDoxmRownerId s (Some THE_NIL_UUID)) (\<lambda>s.
     verify_then (SetPstatRownerId s (Some THE_NIL_UUID)) (\<lambda>s.
     verify_then (SetPstatCm s 0) (\<lambda>s.
     verify_then (SetPstatTm s 0) (\<lambda>s.
       let (ok, s) = EnterStateGeneric s False True False False True DOS_RESET in
       if \<not> ok then (False, s)
       else let (r, _, s) = EnableAnonCipherSuiteIfUnOwnedAndJustWorksSelected s (Some False)
         in (r = OC_STACK_OK, s)))))))))"

definition EnterSRESET :: "svr_state \<Rightarrow> bool \<times> svr_state" where
  "EnterSRESET s =
     (let (ok, s) = EnterStateGeneric s False True False False False DOS_SRESET in
      if \<not> ok then (False, s) else (True, s))"

section \<open>State changes\<close>

text \<open>\<open>if (ready) { if (enter()) OK else INTERNAL_SERVER_ERROR } else FORBIDDEN_REQ\<close>\<close>

definition guarded_enter ::
  "bool \<Rightarrow> bool \<times> svr_state \<Rightarrow> svr_state \<Rightarrow> OCStackResult \<times> svr_state" where
  "guarded_enter isready entered s =
     (if isready then
        (if fst entered then (OC_STACK_OK, snd entered) else (OC_STACK_INTERNAL_SERVER_ERROR, snd entered))
      else (OC_STACK_FORBIDDEN_REQ, s))"

definition DoStateChange ::
  "svr_state \<Rightarrow> OicSecDeviceOnboardingState \<Rightarrow> OCStackResult \<times> svr_state" where
  "DoStateChange s newState =
     (case newState of
        DOS_RESET \<Rightarrow>
          (case EnterRESET s of
             (True, s1) \<Rightarrow> guarded_enter (IsReadyToEnterRFOTM s1) (EnterRFOTM s1) s1
           | (False, s1) \<Rightarrow> (OC_STACK_INTERNAL_SERVER_ERROR, s1))
      | DOS_RFNOP \<Rightarrow> guarded_enter (IsReadyToEnterRFNOP s) (EnterRFNOP s) s
      | DOS_RFOTM \<Rightarrow> guarded_enter (IsReadyToEnterRFOTM s) (EnterRFOTM s) s
      | DOS_RFPRO \<Rightarrow> guarded_enter (IsReadyToEnterRFPRO s) (EnterRFPRO s) s
      | DOS_SRESET \<Rightarrow> guarded_enter (IsReadyToEnterSRESET s) (EnterSRESET s) s
      | DOS_STATE_COUNT \<Rightarrow> (OC_STACK_INTERNAL_SERVER_ERROR, s))"

definition GetDos :: "svr_state \<Rightarrow> OicSecDostype option \<Rightarrow> OCStackResult \<times> OicSecDostype option" where
  "GetDos s dos =
     (case dos of
        None \<Rightarrow> (OC_STACK_ERROR, None)
      | Some d \<Rightarrow>
          (case GetPstatDosS s (Some (dos_state d)) of
             (OC_STACK_OK, Some st) \<Rightarrow>
               (case GetPstatDosP s (Some (dos_pending d)) of
                  (OC_STACK_OK, Some p) \<Rightarrow> (OC_STACK_OK, Some \<lparr>dos_state = st, dos_pending = p\<rparr>)
                | _ \<Rightarrow> (OC_STACK_ERROR, Some (d\<lparr>dos_state := st\<rparr>)))
           | _ \<Rightarrow> (OC_STACK_ERROR, dos)))"

definition SetDosState ::
  "svr_state \<Rightarrow> OicSecDeviceOnboardingState \<Rightarrow> OCStackResult \<times> svr_state" where
  "SetDosState s desiredState =
     (case GetPstatDosP s (Some False) of
        (OC_STACK_OK, Some pending) \<Rightarrow>
          if pending then (OC_STACK_FORBIDDEN_REQ, s)
          else
            (case SetPstatDosP s True of
               (OC_STACK_OK, s1) \<Rightarrow>
                 (case GetPstatDosS s1 (Some DOS_RESET) of
                    (OC_STACK_OK, Some oldState) \<Rightarrow>
                      (let (ret, s2) =
                         (if IsValidStateTransition oldState desiredState then
                            (case DoStateChange s1 desiredState of
                               (OC_STACK_OK, s2) \<Rightarrow> (OC_STACK_OK, s2)
                             | (OC_STACK_FORBIDDEN_REQ, s2) \<Rightarrow> (OC_STACK_FORBIDDEN_REQ, s2)
                             | (_, s2) \<Rightarrow> (OC_STACK_INTERNAL_SERVER_ERROR, s2))
                          else (OC_STACK_FORBIDDEN_REQ, s1))
                       in case SetPstatDosP s2 False of
                            (OC_STACK_OK, s3) \<Rightarrow> (ret, s3)
                          | (_, s3) \<Rightarrow> (OC_STACK_INTERNAL_SERVER_ERROR, s3))
                  | _ \<Rightarrow> (OC_STACK_INTERNAL_SERVER_ERROR, s1))
             | (_, s1) \<Rightarrow> (OC_STACK_INTERNAL_SERVER_ERROR, s1))
      | _ \<Rightarrow> (OC_STACK_INTERNAL_SERVER_ERROR, s))"

section \<open>The entity handler of /pstat\<close>

text \<open>
  \<open>HandlePstatPostRequest\<close> and \<open>SetPstatSelfOwnership\<close> of \<^verbatim>\<open>resource/csdk/security/src/pstatresource.c\<close>,
  the other two places that write /pstat. The CBOR reader is tinycbor, which is not part of the
  sources: a request carries the tags that the reader finds, with the values it gives for them
  (\<open>None\<close> for no payload, or one from which no \<open>pstat\<close> is made). An integer outside the enumeration
  behaves as \<open>DOS_STATE_COUNT\<close>. The access modes are a table with one column per real state; reading
  it at \<open>DOS_STATE_COUNT\<close> is out of its bounds, which is \<open>None\<close>. Of the parsed copy only \<open>om\<close>,
  \<open>tm\<close>, \<open>rownerID\<close> and \<open>dos.state\<close> are used; the bits of \<open>cm\<close> that the handler clears are cleared in
  that copy, which is freed.
\<close>

datatype OCEntityHandlerResult =
  OC_EH_OK | OC_EH_ERROR | OC_EH_BAD_REQ | OC_EH_NOT_ACCEPTABLE | OC_EH_INTERNAL_SERVER_ERROR

datatype PstatProperty =
  PSTAT_DOS | PSTAT_ISOP | PSTAT_CM | PSTAT_TM | PSTAT_OM | PSTAT_SM | PSTAT_ROWNERUUID

text \<open>\<open>True\<close> stands for \<open>R\<close> alone, \<open>False\<close> for \<open>RW\<close>; the columns are RESET, RFOTM, RFPRO, RFNOP, SRESET.\<close>

fun gPstatPropertyAccessModes :: "PstatProperty \<Rightarrow> bool list" where
  "gPstatPropertyAccessModes PSTAT_DOS = [True, False, False, False, False]"
| "gPstatPropertyAccessModes PSTAT_ISOP = [True, True, True, True, True]"
| "gPstatPropertyAccessModes PSTAT_CM = [True, True, True, True, True]"
| "gPstatPropertyAccessModes PSTAT_TM = [True, False, False, False, False]"
| "gPstatPropertyAccessModes PSTAT_OM = [True, False, False, False, False]"
| "gPstatPropertyAccessModes PSTAT_SM = [True, True, True, True, True]"
| "gPstatPropertyAccessModes PSTAT_ROWNERUUID = [True, False, True, True, False]"

fun dos_index :: "OicSecDeviceOnboardingState \<Rightarrow> nat" where
  "dos_index DOS_RESET = 0"
| "dos_index DOS_RFOTM = 1"
| "dos_index DOS_RFPRO = 2"
| "dos_index DOS_RFNOP = 3"
| "dos_index DOS_SRESET = 4"
| "dos_index DOS_STATE_COUNT = 5"

definition IsPropertyReadOnly :: "PstatProperty \<Rightarrow> OicSecDeviceOnboardingState \<Rightarrow> bool option" where
  "IsPropertyReadOnly p s =
     (if dos_index s < length (gPstatPropertyAccessModes p)
      then Some (gPstatPropertyAccessModes p ! dos_index s) else None)"

text \<open>The dos tag: missing, not a container, or a map with the last \<open>s\<close> and \<open>p\<close> entries found in it.\<close>

datatype dos_tag = DosMissing | DosNotAMap | DosMap "int option" "bool option"

record pstat_payload =
  pl_dos :: dos_tag
  pl_isop :: "bool option"
  pl_cm :: "int option"
  pl_tm :: "int option"
  pl_om :: "int option"
  pl_sm :: "int option"
  pl_rowneruuid :: "OicUuid option"

definition dos_of_int :: "int \<Rightarrow> OicSecDeviceOnboardingState" where
  "dos_of_int i =
     (if i = 0 then DOS_RESET else if i = 1 then DOS_RFOTM else if i = 2 then DOS_RFPRO
      else if i = 3 then DOS_RFNOP else if i = 4 then DOS_SRESET else DOS_STATE_COUNT)"

fun parsed_dos :: "dos_tag \<Rightarrow> OicSecDostype \<Rightarrow> OicSecDostype" where
  "parsed_dos DosMissing g = g"
| "parsed_dos DosNotAMap g = \<lparr>dos_state = DOS_RESET, dos_pending = False\<rparr>"
| "parsed_dos (DosMap s p) g =
     \<lparr>dos_state = (case s of None \<Rightarrow> DOS_RESET | Some i \<Rightarrow> dos_of_int i),
      dos_pending = (case p of None \<Rightarrow> False | Some b \<Rightarrow> b)\<rparr>"

definition parsed_properties :: "pstat_payload \<Rightarrow> PstatProperty list" where
  "parsed_properties pl =
     (case pl_dos pl of DosMap _ _ \<Rightarrow> [PSTAT_DOS] | _ \<Rightarrow> [])
     @ (if pl_isop pl \<noteq> None then [PSTAT_ISOP] else [])
     @ (if pl_cm pl \<noteq> None then [PSTAT_CM] else [])
     @ (if pl_tm pl \<noteq> None then [PSTAT_TM] else [])
     @ (if pl_om pl \<noteq> None then [PSTAT_OM] else [])
     @ (if pl_sm pl \<noteq> None then [PSTAT_SM] else [])
     @ (if pl_rowneruuid pl \<noteq> None then [PSTAT_ROWNERUUID] else [])"

fun any_read_only :: "OicSecDeviceOnboardingState \<Rightarrow> PstatProperty list \<Rightarrow> bool option" where
  "any_read_only s [] = Some False"
| "any_read_only s (p # ps) =
     (case IsPropertyReadOnly p s of
        None \<Rightarrow> None
      | Some ro \<Rightarrow> map_option (\<lambda>b. ro \<or> b) (any_read_only s ps))"

text \<open>Whether a read-only property was parsed, and the parsed copy; a tag that is missing keeps the value of \<open>gPstat\<close>.\<close>

definition CBORPayloadToPstatBin ::
  "OicSecPstat \<Rightarrow> pstat_payload \<Rightarrow> OicSecDeviceOnboardingState \<Rightarrow> (bool \<times> OicSecPstat) option" where
  "CBORPayloadToPstatBin g pl stateForReadOnlyCheck =
     map_option (\<lambda>ro.
       (ro \<or> (\<exists>s b. pl_dos pl = DosMap s (Some b)),
        \<lparr>pstat_dos = parsed_dos (pl_dos pl) (pstat_dos g),
         pstat_isOp = (case pl_isop pl of None \<Rightarrow> pstat_isOp g | Some b \<Rightarrow> b),
         pstat_cm = (case pl_cm pl of None \<Rightarrow> pstat_cm g | Some i \<Rightarrow> of_int i),
         pstat_tm = (case pl_tm pl of None \<Rightarrow> pstat_tm g | Some i \<Rightarrow> of_int i),
         pstat_om = (case pl_om pl of None \<Rightarrow> pstat_om g | Some i \<Rightarrow> of_int i),
         pstat_sm = (case pl_sm pl of
             None \<Rightarrow> (case pstat_sm g of [] \<Rightarrow> [] | x # xs \<Rightarrow> x # replicate (length xs) 0)
           | Some i \<Rightarrow> [of_int i]),
         pstat_commitHash = 0,
         pstat_rownerID = (case pl_rowneruuid pl of None \<Rightarrow> pstat_rownerID g | Some u \<Rightarrow> u)\<rparr>))
     (any_read_only stateForReadOnlyCheck (parsed_properties pl))"

text \<open>The handler up to the response: its code and the state.\<close>

definition pstat_post :: "svr_state \<Rightarrow> pstat_payload option \<Rightarrow> (OCEntityHandlerResult \<times> svr_state) option" where
  "pstat_post s req =
     (case (req, gPstat s) of
        (Some pl, Some g) \<Rightarrow>
          (case CBORPayloadToPstatBin g pl (dos_state (pstat_dos g)) of
             None \<Rightarrow> None
           | Some (roParsed, pstat) \<Rightarrow>
               if roParsed then Some (OC_EH_NOT_ACCEPTABLE, s)
               else if pstat_om pstat \<notin> set (pstat_sm g) then Some (OC_EH_BAD_REQ, s)
               else
                 let s1 = s\<lparr>gPstat := Some (g\<lparr>pstat_om := pstat_om pstat, pstat_tm := pstat_tm pstat,
                       pstat_rownerID := pstat_rownerID pstat\<rparr>)\<rparr>
                 in if dos_state (pstat_dos pstat) \<noteq> dos_state (pstat_dos g) then
                      (case SetDosState s1 (dos_state (pstat_dos pstat)) of
                         (OC_STACK_OK, s2) \<Rightarrow> Some (OC_EH_OK, snd (UpdatePersistentStorage_pstat s2))
                       | (OC_STACK_FORBIDDEN_REQ, s2) \<Rightarrow> Some (OC_EH_NOT_ACCEPTABLE, s2)
                       | (_, s2) \<Rightarrow> Some (OC_EH_INTERNAL_SERVER_ERROR, s2))
                    else
                      let (stored, s2) = UpdatePersistentStorage_pstat s1
                      in Some (if stored then OC_EH_OK else OC_EH_ERROR, s2))
      | _ \<Rightarrow> Some (OC_EH_ERROR, s))"

text \<open>The code that is sent, the value that is returned (whether the response could be sent) and the state.\<close>

definition HandlePstatPostRequest ::
  "svr_state \<Rightarrow> pstat_payload option \<Rightarrow> (OCEntityHandlerResult \<times> OCEntityHandlerResult \<times> svr_state) option" where
  "HandlePstatPostRequest s req =
     map_option (\<lambda>(ehRet, s1). let (sent, s2) = next_result s1
       in (ehRet, if sent = OC_STACK_OK then OC_EH_OK else OC_EH_ERROR, s2)) (pstat_post s req)"

definition SetPstatSelfOwnership :: "svr_state \<Rightarrow> OicUuid option \<Rightarrow> OCStackResult \<times> svr_state" where
  "SetPstatSelfOwnership s newROwner =
     (case gPstat s of
        None \<Rightarrow> (OC_STACK_NO_RESOURCE, s)
      | Some p \<Rightarrow>
          (case newROwner of
             None \<Rightarrow> (OC_STACK_ERROR, s)
           | Some u \<Rightarrow>
               if \<not> pstat_isOp p \<and> TAKE_OWNER AND pstat_cm p \<noteq> 0 then
                 encode_and_write (\<lambda>s. s\<lparr>ps_pstat := gPstat s\<rparr>)
                   (s\<lparr>gPstat := Some (p\<lparr>pstat_cm := pstat_cm p AND NOT TAKE_OWNER, pstat_isOp := True,
                        pstat_rownerID := u\<rparr>)\<rparr>)
               else (OC_STACK_ERROR, s)))"

text \<open>The resource a device starts with when storage holds none.\<close>

definition gDefaultPstat :: OicSecPstat where
  "gDefaultPstat = \<lparr>pstat_dos = \<lparr>dos_state = DOS_RFOTM, dos_pending = False\<rparr>, pstat_isOp = False,
     pstat_cm = TAKE_OWNER, pstat_tm = 0, pstat_om = 4, pstat_sm = [4], pstat_commitHash = 0,
     pstat_rownerID = THE_NIL_UUID\<rparr>"

section \<open>What the entry actions do to /pstat\<close>

definition enter_pstat ::
  "bool \<Rightarrow> bool \<Rightarrow> bool \<Rightarrow> bool \<Rightarrow> bool \<Rightarrow> OicSecDeviceOnboardingState \<Rightarrow> OicSecPstat \<Rightarrow> OicSecPstat" where
  "enter_pstat isop cmR cmT tmR tmT st p = p\<lparr>
     pstat_dos := (pstat_dos p)\<lparr>dos_state := st\<rparr>, pstat_isOp := isop,
     pstat_cm := set_bit_if cmT TAKE_OWNER (set_bit_if cmR RESET (pstat_cm p)),
     pstat_tm := set_bit_if tmT TAKE_OWNER (set_bit_if tmR RESET (pstat_tm p))\<rparr>"

lemma EnterStateGeneric_eq:
  assumes "gPstat s = Some p"
  shows "EnterStateGeneric s isop a b c d st =
     (True, s\<lparr>gPstat := Some (enter_pstat isop a b c d st p)\<rparr>)"
  using assms
  by (simp add: EnterStateGeneric_def verify_then_def enter_pstat_def GetPstatCm_def GetPstatTm_def
      SetPstatIsop_def SetPstatCm_def SetPstatTm_def SetPstatDosS_def field_defs)

lemma EnterStateGeneric_None:
  "gPstat s = None \<Longrightarrow> EnterStateGeneric s isop a b c d st = (False, s)"
  by (simp add: EnterStateGeneric_def GetPstatCm_def read_field_def)

text \<open>The mode bits and flags that belong to each state.\<close>

definition dos_bits :: "OicSecPstat \<Rightarrow> bool \<times> bool \<times> bool \<times> bool \<times> bool" where
  "dos_bits p = (pstat_isOp p, pstat_cm p AND RESET \<noteq> 0, pstat_cm p AND TAKE_OWNER \<noteq> 0,
     pstat_tm p AND RESET \<noteq> 0, pstat_tm p AND TAKE_OWNER \<noteq> 0)"

fun spec_bits :: "OicSecDeviceOnboardingState \<Rightarrow> bool \<times> bool \<times> bool \<times> bool \<times> bool" where
  "spec_bits DOS_RESET = (False, True, False, False, True)"
| "spec_bits DOS_RFOTM = (False, False, True, False, False)"
| "spec_bits DOS_RFPRO = (False, False, False, False, False)"
| "spec_bits DOS_RFNOP = (True, False, False, False, False)"
| "spec_bits DOS_SRESET = (False, True, False, False, False)"
| "spec_bits DOS_STATE_COUNT = (False, False, False, False, False)"

definition dos_consistent :: "OicSecPstat \<Rightarrow> bool" where
  "dos_consistent p \<longleftrightarrow> dos_bits p = spec_bits (dos_state (pstat_dos p))"

lemma and_RESET: "v AND RESET \<noteq> 0 \<longleftrightarrow> bit v 0"
  using and_exp_eq_0_iff_not_bit [of v 0] by (simp add: RESET_def)

lemma and_TAKE_OWNER: "v AND TAKE_OWNER \<noteq> 0 \<longleftrightarrow> bit v 1"
  using and_exp_eq_0_iff_not_bit [of v 1] by (simp add: TAKE_OWNER_def)

lemma bit_flags:
  "bit RESET 0" "\<not> bit RESET (Suc 0)" "\<not> bit TAKE_OWNER 0" "bit TAKE_OWNER (Suc 0)"
  using bit_exp_iff [where 'a=u32, of 1 1] bit_exp_iff [where 'a=u32, of 1 0]
  by (auto simp: RESET_def TAKE_OWNER_def bit_1_iff)

lemma set_bit_if_bits:
  "bit (set_bit_if t TAKE_OWNER (set_bit_if r RESET v)) 0 \<longleftrightarrow> r"
  "bit (set_bit_if t TAKE_OWNER (set_bit_if r RESET v)) (Suc 0) \<longleftrightarrow> t"
  by (simp_all add: set_bit_if_def bit_and_iff bit_or_iff bit_not_iff bit_flags)

lemma dos_bits_enter_pstat:
  "dos_bits (enter_pstat isop a b c d st p) = (isop, a, b, c, d)"
  by (simp only: dos_bits_def and_RESET and_TAKE_OWNER) (simp add: enter_pstat_def set_bit_if_bits)

section \<open>RESET\<close>

text \<open>What is left of the resources when \<open>EnterRESET\<close> ran through.\<close>

definition reset_doxm :: "OicSecDoxm \<Rightarrow> OicSecDoxm" where
  "reset_doxm d = d\<lparr>doxm_owned := False, doxm_owner := THE_NIL_UUID, doxm_rownerID := THE_NIL_UUID\<rparr>"

definition reset_pstat :: "OicSecPstat \<Rightarrow> OicSecPstat" where
  "reset_pstat p = enter_pstat False True False False True DOS_RESET
     (p\<lparr>pstat_rownerID := THE_NIL_UUID, pstat_cm := 0, pstat_tm := 0\<rparr>)"

lemma verify_then_cases:
  assumes "verify_then op k = (ok, s')"
  obtains (fail) "fst op \<noteq> OC_STACK_OK" "\<not> ok" "s' = snd op"
    | (go) "fst op = OC_STACK_OK" "k (snd op) = (ok, s')"
  using assms by (auto simp: verify_then_def split: if_splits)

lemma EnableAnon_fields:
  "gPstat (snd (snd (EnableAnonCipherSuiteIfUnOwnedAndJustWorksSelected s e))) = gPstat s"
  "gDoxm (snd (snd (EnableAnonCipherSuiteIfUnOwnedAndJustWorksSelected s e))) = gDoxm s"
  "gAcl (snd (snd (EnableAnonCipherSuiteIfUnOwnedAndJustWorksSelected s e))) = gAcl s"
  "gRownerId (snd (snd (EnableAnonCipherSuiteIfUnOwnedAndJustWorksSelected s e))) = gRownerId s"
  by (auto simp: EnableAnonCipherSuiteIfUnOwnedAndJustWorksSelected_def next_result_def Let_def
      split: option.splits list.splits)

text \<open>The last three actions of \<open>EnterRESET\<close>, from the clearing of \<open>cm\<close> on, cannot fail halfway.\<close>

lemma EnterRESET_tail:
  assumes "gPstat s = Some p"
    and "verify_then (SetPstatCm s 0) (\<lambda>s. verify_then (SetPstatTm s 0) (\<lambda>s.
       let (ok, s) = EnterStateGeneric s False True False False True DOS_RESET in
       if \<not> ok then (False, s)
       else let (r, _, s) = EnableAnonCipherSuiteIfUnOwnedAndJustWorksSelected s (Some False)
         in (r = OC_STACK_OK, s))) = (ok, s')"
  shows "gPstat s' = Some (enter_pstat False True False False True DOS_RESET (p\<lparr>pstat_cm := 0, pstat_tm := 0\<rparr>))
    \<and> gDoxm s' = gDoxm s \<and> gAcl s' = gAcl s \<and> gRownerId s' = gRownerId s"
proof -
  let ?p = "p\<lparr>pstat_cm := 0, pstat_tm := 0\<rparr>"
  let ?t = "s\<lparr>gPstat := Some (enter_pstat False True False False True DOS_RESET ?p)\<rparr>"
  have "EnterStateGeneric (s\<lparr>gPstat := Some ?p\<rparr>) False True False False True DOS_RESET = (True, ?t)"
    by (subst EnterStateGeneric_eq [where p = ?p]) simp_all
  then have "s' = snd (snd (EnableAnonCipherSuiteIfUnOwnedAndJustWorksSelected ?t (Some False)))"
    using assms by (auto simp: verify_then_def SetPstatCm_def SetPstatTm_def write_field_def Let_def
        split: prod.splits)
  then show ?thesis by (simp add: EnableAnon_fields)
qed

lemma doxm_write_some:
  "gDoxm s = Some d \<Longrightarrow> SetDoxmIsOwned s b = (OC_STACK_OK, s\<lparr>gDoxm := Some (d\<lparr>doxm_owned := b\<rparr>)\<rparr>)"
  "gDoxm s = Some d \<Longrightarrow> SetDoxmDevOwnerId s (Some u) = (OC_STACK_OK, s\<lparr>gDoxm := Some (d\<lparr>doxm_owner := u\<rparr>)\<rparr>)"
  "gDoxm s = Some d \<Longrightarrow> SetDoxmRownerId s (Some u) = (OC_STACK_OK, s\<lparr>gDoxm := Some (d\<lparr>doxm_rownerID := u\<rparr>)\<rparr>)"
  by (simp_all add: SetDoxmIsOwned_def SetDoxmDevOwnerId_def SetDoxmRownerId_def write_field_def)

text \<open>
  \<open>EnterRESET\<close> stops at a failing storage write, and then /pstat is as before up to its owner id;
  or it gets through all the writes and then leaves the resources reset.
\<close>

lemma EnterRESET_cases:
  assumes p: "gPstat s = Some p" and e: "EnterRESET s = (ok, s')"
  obtains (stopped) "\<not> ok" "gPstat s' = Some p"
    | (through) d a where "gDoxm s = Some d" "gAcl s = Some a"
        "gPstat s' = Some (reset_pstat p)" "gDoxm s' = Some (reset_doxm d)"
        "gAcl s' = Some (a\<lparr>acl_rownerID := THE_NIL_UUID\<rparr>)" "gRownerId s' = THE_NIL_UUID"
proof (cases "gDoxm s")
  case None
  then have "\<not> ok" "s' = s" using e by (auto simp: EnterRESET_def verify_then_def SetDoxmIsOwned_def write_field_def)
  then show ?thesis using p stopped by simp
next
  case (Some d)
  define s1 where "s1 = s\<lparr>gDoxm := Some (d\<lparr>doxm_owned := False, doxm_owner := THE_NIL_UUID\<rparr>)\<rparr>"
  have s1: "gPstat s1 = Some p" "gDoxm s1 = Some (d\<lparr>doxm_owned := False, doxm_owner := THE_NIL_UUID\<rparr>)"
    "gAcl s1 = gAcl s" using p by (simp_all add: s1_def)
  define s2 where "s2 = snd (SetAclRownerId s1 (Some THE_NIL_UUID))"
  define s3 where "s3 = snd (SetCredRownerId s2 (Some THE_NIL_UUID))"
  define s4 where "s4 = s3\<lparr>gDoxm := Some (reset_doxm d)\<rparr>"
  define s5 where "s5 = snd (SetPstatRownerId s4 (Some THE_NIL_UUID))"
  have s2: "gPstat s2 = Some p" "gDoxm s2 = gDoxm s1" using s1 by (simp_all add: s2_def iot_simps)
  have s3: "gPstat s3 = Some p" "gDoxm s3 = gDoxm s1" "gAcl s3 = gAcl s2"
    using s2 by (simp_all add: s3_def iot_simps)
  have s4: "gPstat s4 = Some p" "SetDoxmRownerId s3 (Some THE_NIL_UUID) = (OC_STACK_OK, s4)"
    using s3 s1 by (simp_all add: s4_def doxm_write_some reset_doxm_def)
  note pr = SetPstatRownerId_some [OF s4(1), of THE_NIL_UUID]
  let ?tail = "\<lambda>s. verify_then (SetPstatCm s 0) (\<lambda>s. verify_then (SetPstatTm s 0) (\<lambda>s.
       let (ok, s) = EnterStateGeneric s False True False False True DOS_RESET in
       if \<not> ok then (False, s)
       else let (r, _, s) = EnableAnonCipherSuiteIfUnOwnedAndJustWorksSelected s (Some False)
         in (r = OC_STACK_OK, s)))"
  have e': "verify_then (SetAclRownerId s1 (Some THE_NIL_UUID)) (\<lambda>s.
     verify_then (SetCredRownerId s (Some THE_NIL_UUID)) (\<lambda>s.
     verify_then (SetDoxmRownerId s (Some THE_NIL_UUID)) (\<lambda>s.
     verify_then (SetPstatRownerId s (Some THE_NIL_UUID)) ?tail))) = (ok, s')"
    using e Some by (simp add: EnterRESET_def verify_then_def [of "(_, _)"] doxm_write_some s1_def)
  show ?thesis
    using e'
  proof (cases rule: verify_then_cases)
    case fail then show ?thesis using s2 s2_def stopped by simp
  next
    case acl: go
    show ?thesis
      using acl(2) [folded s2_def]
    proof (cases rule: verify_then_cases)
      case fail then show ?thesis using s3 s3_def stopped by simp
    next
      case cred: go
      from cred(2) [folded s3_def] s4(2)
      have "verify_then (SetPstatRownerId s4 (Some THE_NIL_UUID)) ?tail = (ok, s')"
        by (simp add: verify_then_def [of "(_, _)"])
      then show ?thesis
      proof (cases rule: verify_then_cases)
        case fail
        with pr have "gPstat s' = Some p" by (metis fst_conv)
        then show ?thesis using fail stopped by simp
      next
        case go
        from pr go(1) have s5: "gPstat s5 = Some (p\<lparr>pstat_rownerID := THE_NIL_UUID\<rparr>)"
          unfolding s5_def by (metis OCStackResult.distinct(15) fst_conv)
        obtain a where a: "gAcl s = Some a" using acl(1) s1(3)
          by (cases "gAcl s") (auto simp: SetAclRownerId_def)
        have "gAcl s2 = Some (a\<lparr>acl_rownerID := THE_NIL_UUID\<rparr>)"
          using SetAclRownerId_some [of s1 a THE_NIL_UUID] a s1(3) acl(1) by (auto simp: s2_def)
        moreover have "gRownerId s3 = THE_NIL_UUID" using SetCredRownerId_ok [OF cred(1)] by (simp add: s3_def)
        ultimately have "gDoxm s5 = Some (reset_doxm d)" "gAcl s5 = Some (a\<lparr>acl_rownerID := THE_NIL_UUID\<rparr>)"
          "gRownerId s5 = THE_NIL_UUID" using s3(3) by (simp_all add: s5_def s4_def iot_simps)
        with EnterRESET_tail [OF s5 go(2) [folded s5_def]]
        show ?thesis using through [OF Some a] by (simp add: reset_pstat_def)
      qed
    qed
  qed
qed

section \<open>The whole state change\<close>

definition set_pending :: "bool \<Rightarrow> svr_state \<Rightarrow> svr_state" where
  "set_pending b s = s\<lparr>gPstat :=
     map_option (\<lambda>p. p\<lparr>pstat_dos := (pstat_dos p)\<lparr>dos_pending := b\<rparr>\<rparr>) (gPstat s)\<rparr>"

text \<open>The entry condition of each state; RESET has none.\<close>

fun ready_to_enter :: "OicSecDeviceOnboardingState \<Rightarrow> svr_state \<Rightarrow> bool" where
  "ready_to_enter DOS_RESET s = True"
| "ready_to_enter DOS_RFOTM s = IsReadyToEnterRFOTM s"
| "ready_to_enter DOS_RFPRO s = IsReadyToEnterRFPRO s"
| "ready_to_enter DOS_RFNOP s = IsReadyToEnterRFNOP s"
| "ready_to_enter DOS_SRESET s = IsReadyToEnterSRESET s"
| "ready_to_enter DOS_STATE_COUNT s = False"

lemma ready_to_enter_pending: "ready_to_enter d (set_pending b s) = ready_to_enter d s"
proof -
  have "IsDoxmOwned (set_pending b s) = IsDoxmOwned s"
    "IsDoxmDevowneruuidTheNilUuid (set_pending b s) = IsDoxmDevowneruuidTheNilUuid s"
    "IsDoxmDeviceuuidTheNilUuid (set_pending b s) = IsDoxmDeviceuuidTheNilUuid s"
    "IsAclRowneruuidTheNilUuid (set_pending b s) = IsAclRowneruuidTheNilUuid s"
    "IsCredRowneruuidTheNilUuid (set_pending b s) = IsCredRowneruuidTheNilUuid s"
    "IsDoxmRowneruuidTheNilUuid (set_pending b s) = IsDoxmRowneruuidTheNilUuid s"
    "IsPstatRowneruuidTheNilUuid (set_pending b s) = IsPstatRowneruuidTheNilUuid s"
    "GetPstatIsop (set_pending b s) out = GetPstatIsop s out" for out
    by (auto simp: set_pending_def IsDoxmOwned_def IsDoxmDevowneruuidTheNilUuid_def
        IsDoxmDeviceuuidTheNilUuid_def IsAclRowneruuidTheNilUuid_def IsCredRowneruuidTheNilUuid_def
        IsDoxmRowneruuidTheNilUuid_def IsPstatRowneruuidTheNilUuid_def GetPstatIsop_def read_field_def
        split: option.splits)
  then show ?thesis
    by (cases d) (simp_all add: IsReadyToEnterRFOTM_def IsReadyToEnterRFPRO_def IsReadyToEnterRFNOP_def
        IsReadyToEnterSRESET_def)
qed

definition enter_spec :: "OicSecDeviceOnboardingState \<Rightarrow> OicSecPstat \<Rightarrow> OicSecPstat" where
  "enter_spec st p = (case spec_bits st of (i, a, b, c, d) \<Rightarrow> enter_pstat i a b c d st p)"

lemma enter_spec_state [simp]:
  "dos_state (pstat_dos (enter_spec st p)) = st"
  "dos_pending (pstat_dos (enter_spec st p)) = dos_pending (pstat_dos p)"
  by (cases st; simp add: enter_spec_def enter_pstat_def)+

lemma enter_spec_consistent: "dos_consistent (enter_spec st p)"
proof -
  have "dos_bits (enter_spec st p) = spec_bits st"
    by (cases st) (simp_all add: enter_spec_def dos_bits_enter_pstat)
  then show ?thesis by (simp add: dos_consistent_def)
qed

lemma enter_ok:
  assumes "gPstat s = Some p"
  shows "EnterRFNOP s = (True, s\<lparr>gPstat := Some (enter_spec DOS_RFNOP p)\<rparr>)"
    "EnterRFOTM s = (True, s\<lparr>gPstat := Some (enter_spec DOS_RFOTM p)\<rparr>)"
    "EnterRFPRO s = (True, s\<lparr>gPstat := Some (enter_spec DOS_RFPRO p)\<rparr>)"
    "EnterSRESET s = (True, s\<lparr>gPstat := Some (enter_spec DOS_SRESET p)\<rparr>)"
  using assms by (simp_all add: EnterRFNOP_def EnterRFOTM_def EnterRFPRO_def EnterSRESET_def
      EnterStateGeneric_eq enter_spec_def)

lemma reset_pstat_eq:
  "reset_pstat p = enter_spec DOS_RESET (p\<lparr>pstat_rownerID := THE_NIL_UUID, pstat_cm := 0, pstat_tm := 0\<rparr>)"
  by (simp add: reset_pstat_def enter_spec_def)

lemma DoStateChange_not_RESET:
  assumes "gPstat s = Some p" "d \<noteq> DOS_RESET" "d \<noteq> DOS_STATE_COUNT"
  shows "DoStateChange s d =
     (if ready_to_enter d s then (OC_STACK_OK, s\<lparr>gPstat := Some (enter_spec d p)\<rparr>)
      else (OC_STACK_FORBIDDEN_REQ, s))"
  using assms by (cases d) (simp_all add: DoStateChange_def guarded_enter_def enter_ok)

lemma DoStateChange_RESET:
  assumes p: "gPstat s = Some p" and r: "DoStateChange s DOS_RESET = (r, s')"
  obtains (stopped) "r = OC_STACK_INTERNAL_SERVER_ERROR" "gPstat s' = Some p \<or> gPstat s' = Some (reset_pstat p)"
    | (finished) d a where "r = OC_STACK_OK" "gDoxm s = Some d" "gAcl s = Some a"
        "gPstat s' = Some (enter_spec DOS_RFOTM (reset_pstat p))" "gDoxm s' = Some (reset_doxm d)"
        "gAcl s' = Some (a\<lparr>acl_rownerID := THE_NIL_UUID\<rparr>)" "gRownerId s' = THE_NIL_UUID"
proof -
  obtain ok t where e: "EnterRESET s = (ok, t)" by fastforce
  show ?thesis
  proof (cases rule: EnterRESET_cases [OF p e])
    case 1
    then show ?thesis using stopped r e by (simp add: DoStateChange_def)
  next
    case (2 d a)
    show ?thesis
    proof (cases ok)
      case True
      have "IsReadyToEnterRFOTM t" using 2 by (simp add: IsReadyToEnterRFOTM_def IsDoxmOwned_def
            IsDoxmDevowneruuidTheNilUuid_def reset_doxm_def IsNilUuid_def UuidCmp_def)
      then have "r = OC_STACK_OK" "s' = t\<lparr>gPstat := Some (enter_spec DOS_RFOTM (reset_pstat p))\<rparr>"
        using True r e 2 by (auto simp: DoStateChange_def guarded_enter_def enter_ok)
      then show ?thesis using 2 finished [of d a] by simp
    next
      case False
      then show ?thesis using stopped r e 2 by (simp add: DoStateChange_def)
    qed
  qed
qed

lemma DoStateChange_results:
  assumes "gPstat s = Some p"
  shows "fst (DoStateChange s d) \<in> {OC_STACK_OK, OC_STACK_FORBIDDEN_REQ, OC_STACK_INTERNAL_SERVER_ERROR}
    \<and> gPstat (snd (DoStateChange s d)) \<noteq> None"
proof -
  obtain r s' where rs: "DoStateChange s d = (r, s')" by fastforce
  consider "d = DOS_RESET" | "d = DOS_STATE_COUNT" | "d \<noteq> DOS_RESET" "d \<noteq> DOS_STATE_COUNT" by blast
  then show ?thesis
  proof cases
    case 1
    from rs [unfolded 1] show ?thesis
      by (cases rule: DoStateChange_RESET [OF assms]) (use rs in auto)
  next
    case 2
    then show ?thesis using assms by (simp add: DoStateChange_def)
  next
    case 3
    then show ?thesis using DoStateChange_not_RESET [OF assms] assms by simp
  qed
qed

lemma SetDosState_eq:
  assumes p: "gPstat s = Some p" and np: "\<not> dos_pending (pstat_dos p)"
  shows "SetDosState s d =
     (if IsValidStateTransition (dos_state (pstat_dos p)) d
      then (fst (DoStateChange (set_pending True s) d), set_pending False (snd (DoStateChange (set_pending True s) d)))
      else (OC_STACK_FORBIDDEN_REQ, s))"
proof -
  let ?s1 = "set_pending True s"
  have s1: "SetPstatDosP s True = (OC_STACK_OK, ?s1)"
    using p by (simp add: SetPstatDosP_def write_field_def set_pending_def)
  have st: "GetPstatDosS ?s1 (Some DOS_RESET) = (OC_STACK_OK, Some (dos_state (pstat_dos p)))"
    using p by (simp add: GetPstatDosS_def read_field_def set_pending_def)
  have fin: "SetPstatDosP t False = (OC_STACK_OK, set_pending False t)" if "gPstat t \<noteq> None" for t
    using that by (auto simp: SetPstatDosP_def write_field_def set_pending_def)
  have restored: "set_pending False ?s1 = s" using p np
    by (cases p) (auto simp: set_pending_def)
  have p1: "gPstat ?s1 = Some (p\<lparr>pstat_dos := (pstat_dos p)\<lparr>dos_pending := True\<rparr>\<rparr>)"
    using p by (simp add: set_pending_def)
  obtain r t where rt: "DoStateChange ?s1 d = (r, t)" by fastforce
  have rr: "r \<in> {OC_STACK_OK, OC_STACK_FORBIDDEN_REQ, OC_STACK_INTERNAL_SERVER_ERROR}" "gPstat t \<noteq> None"
    using DoStateChange_results [OF p1, of d] rt by auto
  have "GetPstatDosP s (Some False) = (OC_STACK_OK, Some False)"
    using p np by (simp add: GetPstatDosP_def read_field_def)
  then show ?thesis using s1 st fin [of t] fin [of ?s1] p1 rt rr restored
    by (auto simp: SetDosState_def)
qed

section \<open>The state machine as a whole\<close>

text \<open>
  The steps of a running device: a request for a state change, a POST to /pstat, the claim of the
  device by itself, the other writes of properties, anything the handlers of /doxm, /acl2 and /cred
  may leave in their resources and in storage, and a change of what the environment will answer. No
  other function of the sources writes /pstat while the device runs.
\<close>

datatype svr_event =
  DosRequest OicSecDeviceOnboardingState | PstatPost "pstat_payload option" | SelfOwnership "OicUuid option" | Other

inductive svr_step :: "svr_state \<Rightarrow> svr_event \<Rightarrow> svr_state \<Rightarrow> bool" where
  set_dos: "SetDosState s d = (r, s') \<Longrightarrow> svr_step s (DosRequest d) s'"
| post: "HandlePstatPostRequest s req = Some (resp, r, s') \<Longrightarrow> svr_step s (PstatPost req) s'"
| self_ownership: "SetPstatSelfOwnership s u = (r, s') \<Longrightarrow> svr_step s (SelfOwnership u) s'"
| set_owned: "SetDoxmIsOwned s b = (r, s') \<Longrightarrow> svr_step s Other s'"
| set_devowner: "SetDoxmDevOwnerId s u = (r, s') \<Longrightarrow> svr_step s Other s'"
| set_deviceid: "SetDoxmDeviceID s u = (r, s') \<Longrightarrow> svr_step s Other s'"
| set_doxm_rowner: "SetDoxmRownerId s u = (r, s') \<Longrightarrow> svr_step s Other s'"
| set_pstat_rowner: "SetPstatRownerId s u = (r, s') \<Longrightarrow> svr_step s Other s'"
| set_acl_rowner: "SetAclRownerId s u = (r, s') \<Longrightarrow> svr_step s Other s'"
| set_cred_rowner: "SetCredRownerId s u = (r, s') \<Longrightarrow> svr_step s Other s'"
| other_resources: "gPstat s' = gPstat s \<Longrightarrow> svr_step s Other s'"
| environment: "svr_step s Other (s\<lparr>env_results := rs\<rparr>)"

inductive svr_run :: "svr_state \<Rightarrow> svr_event list \<Rightarrow> svr_state \<Rightarrow> bool" where
  start: "svr_run s [] s"
| step: "svr_run s es s1 \<Longrightarrow> svr_step s1 e s2 \<Longrightarrow> svr_run s (es @ [e]) s2"

inductive_cases svr_stepE: "svr_step s e s'"

text \<open>The state a state change leaves: everything as its onboarding state prescribes, nothing pending.\<close>

definition dos_inv :: "svr_state \<Rightarrow> bool" where
  "dos_inv s \<longleftrightarrow> (\<exists>p. gPstat s = Some p \<and> dos_consistent p \<and> \<not> dos_pending (pstat_dos p)
     \<and> dos_state (pstat_dos p) \<noteq> DOS_STATE_COUNT)"

text \<open>
  What is left of it in every state between two requests, after the events \<open>E\<close>: a self-owned device
  is operational in RFOTM, and \<open>tm\<close> may be a value that a client has written.
\<close>

definition pstat_inv :: "svr_event set \<Rightarrow> OicSecPstat \<Rightarrow> bool" where
  "pstat_inv E p \<longleftrightarrow> \<not> dos_pending (pstat_dos p) \<and> dos_state (pstat_dos p) \<noteq> DOS_STATE_COUNT
     \<and> (case (dos_bits p, spec_bits (dos_state (pstat_dos p))) of
          ((isop, cmR, cmT, tmR, tmT), (i, a, b, c, d)) \<Rightarrow>
            ((isop, cmR, cmT) = (i, a, b)
             \<or> dos_state (pstat_dos p) = DOS_RFOTM \<and> (isop, cmR, cmT) = (True, False, False)
               \<and> (\<exists>u. SelfOwnership (Some u) \<in> E))
            \<and> ((tmR, tmT) = (c, d)
               \<or> (\<exists>pl v. PstatPost (Some pl) \<in> E \<and> pl_tm pl = Some v \<and> pstat_tm p = of_int v)))"

lemma dos_consistent_pending [simp]:
  "dos_consistent (p\<lparr>pstat_dos := (pstat_dos p)\<lparr>dos_pending := b\<rparr>\<rparr>) = dos_consistent p"
  by (simp add: dos_consistent_def dos_bits_def)

lemma set_pending_Some:
  "gPstat s = Some p \<Longrightarrow>
   gPstat (set_pending b s) = Some (p\<lparr>pstat_dos := (pstat_dos p)\<lparr>dos_pending := b\<rparr>\<rparr>)"
  by (simp add: set_pending_def)

text \<open>The outcome of a state change that was not already pending, in terms of /pstat.\<close>

lemma SetDosState_outcome:
  assumes p: "gPstat s = Some p" and np: "\<not> dos_pending (pstat_dos p)"
    and r: "SetDosState s d = (r, s')"
  obtains (forbidden) "r = OC_STACK_FORBIDDEN_REQ" "s' = s"
      "\<not> IsValidStateTransition (dos_state (pstat_dos p)) d \<or> \<not> ready_to_enter d s"
    | (entered) "r = OC_STACK_OK" "IsValidStateTransition (dos_state (pstat_dos p)) d" "ready_to_enter d s"
        "gPstat s' = Some (enter_spec (if d = DOS_RESET then DOS_RFOTM else d)
           (if d = DOS_RESET then reset_pstat p else p))"
    | (reset_failed) "r = OC_STACK_INTERNAL_SERVER_ERROR" "d = DOS_RESET"
        "gPstat s' = Some p \<or> gPstat s' = Some (reset_pstat p)"
proof -
  let ?s1 = "set_pending True s" and ?q = "p\<lparr>pstat_dos := (pstat_dos p)\<lparr>dos_pending := True\<rparr>\<rparr>"
  note q = set_pending_Some [OF p, of True]
  have enter_q: "(enter_spec st (f ?q))\<lparr>pstat_dos := (pstat_dos (enter_spec st (f ?q)))\<lparr>dos_pending := False\<rparr>\<rparr>
      = enter_spec st (f p)" if "f = reset_pstat \<or> f = id" for st f
    using that np by (cases p; cases st)
      (auto simp: enter_spec_def enter_pstat_def reset_pstat_def)
  have reset_q: "(reset_pstat ?q)\<lparr>pstat_dos := (pstat_dos (reset_pstat ?q))\<lparr>dos_pending := False\<rparr>\<rparr> = reset_pstat p"
    using np by (cases p) (auto simp: enter_pstat_def reset_pstat_def)
  have p_q: "?q\<lparr>pstat_dos := (pstat_dos ?q)\<lparr>dos_pending := False\<rparr>\<rparr> = p" using np by (cases p) auto
  note eq = SetDosState_eq [OF p np, of d]
  show ?thesis
  proof (cases "IsValidStateTransition (dos_state (pstat_dos p)) d")
    case False
    then show ?thesis using eq r forbidden by simp
  next
    case valid: True
    then have nc: "d \<noteq> DOS_STATE_COUNT" by (auto simp: IsValidStateTransition_def)
    obtain r1 t where rt: "DoStateChange ?s1 d = (r1, t)" by fastforce
    then have r1: "r = r1" "s' = set_pending False t" using eq r valid by auto
    show ?thesis
    proof (cases "d = DOS_RESET")
      case True
      show ?thesis
      proof (cases rule: DoStateChange_RESET [OF q rt [unfolded True]])
        case 1
        have "gPstat s' = Some p \<or> gPstat s' = Some (reset_pstat p)"
          using 1(2) set_pending_Some [of t _ False] reset_q p_q r1(2) by (elim disjE) simp_all
        then show ?thesis using reset_failed 1 r1 True by simp
      next
        case (2 dd a)
        then show ?thesis using entered r1 True valid set_pending_Some [of t _ False]
            enter_q [of reset_pstat DOS_RFOTM] by simp
      qed
    next
      case False
      note ch = DoStateChange_not_RESET [OF q False nc]
      show ?thesis
      proof (cases "ready_to_enter d s")
        case True
        with ch rt have "r1 = OC_STACK_OK" "t = ?s1\<lparr>gPstat := Some (enter_spec d ?q)\<rparr>"
          by (auto simp: ready_to_enter_pending)
        then show ?thesis using entered r1 False valid True set_pending_Some [of t _ False]
            enter_q [of id d] by simp
      next
        case False
        with ch rt have "r1 = OC_STACK_FORBIDDEN_REQ" "t = ?s1" by (auto simp: ready_to_enter_pending)
        moreover have "set_pending False ?s1 = s" using p np by (cases p) (auto simp: set_pending_def)
        ultimately show ?thesis using forbidden r1 False by simp
      qed
    qed
  qed
qed

lemma dos_inv_SetDosState:
  assumes "gPstat s = Some p" "\<not> dos_pending (pstat_dos p)" "SetDosState s d = (OC_STACK_OK, s')"
  shows "dos_inv s'"
  by (cases rule: SetDosState_outcome [OF assms])
    (use assms in \<open>auto simp: dos_inv_def enter_spec_consistent reset_pstat_eq IsValidStateTransition_def\<close>)

lemma pstat_inv_consistent:
  assumes "dos_consistent p" "\<not> dos_pending (pstat_dos p)" "dos_state (pstat_dos p) \<noteq> DOS_STATE_COUNT"
  shows "pstat_inv E p"
  using assms by (simp add: pstat_inv_def dos_consistent_def split_beta)

lemma pstat_inv_mono: "pstat_inv E p \<Longrightarrow> E \<subseteq> E' \<Longrightarrow> pstat_inv E' p"
  unfolding pstat_inv_def split_beta by blast

lemma pstat_inv_SetDosState:
  assumes p: "gPstat s = Some p" "pstat_inv E p" and r: "SetDosState s d = (r, s')"
  shows "\<exists>p'. gPstat s' = Some p' \<and> pstat_inv E p'"
proof -
  have np: "\<not> dos_pending (pstat_dos p)" using p(2) by (simp add: pstat_inv_def)
  have entered: "pstat_inv E (enter_spec st q)"
    if "\<not> dos_pending (pstat_dos q)" "st \<noteq> DOS_STATE_COUNT" for st q
    using that by (auto intro: pstat_inv_consistent simp: enter_spec_consistent)
  have rp: "\<not> dos_pending (pstat_dos (reset_pstat p))" "pstat_inv E (reset_pstat p)"
    using np by (auto simp: reset_pstat_eq intro: entered)
  show ?thesis
  proof (cases rule: SetDosState_outcome [OF p(1) np r])
    case 2
    then have "d \<noteq> DOS_STATE_COUNT" by (auto simp: IsValidStateTransition_def)
    then show ?thesis using 2 entered rp np by auto
  qed (use p rp in auto)
qed

lemma encode_and_write_pstat:
  "gPstat (snd (encode_and_write (\<lambda>s. s\<lparr>ps_pstat := gPstat s\<rparr>) s)) = gPstat s"
  "gPstat (snd (UpdatePersistentStorage_pstat s)) = gPstat s"
  "gPstat (snd (next_result s)) = gPstat s"
  by (auto simp: UpdatePersistentStorage_pstat_def encode_and_write_def next_result_def Let_def split_beta
      split: list.splits)

text \<open>The writes of a POST before the state change.\<close>

definition posted_pstat :: "pstat_payload \<Rightarrow> u32 \<Rightarrow> OicUuid \<Rightarrow> OicSecPstat \<Rightarrow> OicSecPstat" where
  "posted_pstat pl x u g = g\<lparr>pstat_om := x,
     pstat_tm := (case pl_tm pl of None \<Rightarrow> pstat_tm g | Some i \<Rightarrow> of_int i), pstat_rownerID := u\<rparr>"

lemma posted_pstat_dos [simp]: "pstat_dos (posted_pstat pl x u g) = pstat_dos g"
  by (simp add: posted_pstat_def)

lemma pstat_inv_posted:
  assumes "pstat_inv E p" "PstatPost (Some pl) \<in> E"
  shows "pstat_inv E (posted_pstat pl x u p)"
  using assms by (cases "pl_tm pl") (auto simp: pstat_inv_def dos_bits_def posted_pstat_def split_beta)

lemma pstat_post_cases:
  assumes "pstat_post s req = Some (resp, s')"
  obtains (refused) "s' = s" "resp \<noteq> OC_EH_OK"
    | (written) pl g x u where "req = Some pl" "gPstat s = Some g" "gPstat s' = Some (posted_pstat pl x u g)"
    | (changed) pl g x u d r s2 where "req = Some pl" "gPstat s = Some g"
        "SetDosState (s\<lparr>gPstat := Some (posted_pstat pl x u g)\<rparr>) d = (r, s2)" "gPstat s' = gPstat s2"
        "resp = OC_EH_OK \<longleftrightarrow> r = OC_STACK_OK"
proof (cases "\<exists>pl g. req = Some pl \<and> gPstat s = Some g")
  case False
  then have "s' = s" "resp = OC_EH_ERROR" using assms by (auto simp: pstat_post_def split: option.splits)
  then show ?thesis using refused by simp
next
  case True
  then obtain pl g where req: "req = Some pl" and g: "gPstat s = Some g" by blast
  obtain ro q where q: "CBORPayloadToPstatBin g pl (dos_state (pstat_dos g)) = Some (ro, q)"
    using assms req g by (auto simp: pstat_post_def split: option.splits)
  define g' where "g' = posted_pstat pl (pstat_om q) (pstat_rownerID q) g"
  have g': "g\<lparr>pstat_om := pstat_om q, pstat_tm := pstat_tm q, pstat_rownerID := pstat_rownerID q\<rparr> = g'"
    using q by (auto simp: CBORPayloadToPstatBin_def g'_def posted_pstat_def)
  note eq = assms [unfolded pstat_post_def req g, simplified, unfolded q, simplified, unfolded g' Let_def]
  show ?thesis
  proof (cases "ro \<or> pstat_om q \<notin> set (pstat_sm g)")
    case True
    then have "s' = s" "resp \<noteq> OC_EH_OK" using eq by (auto split: if_splits)
    then show ?thesis using refused by simp
  next
    case ok: False
    show ?thesis
    proof (cases "dos_state (pstat_dos q) = dos_state (pstat_dos g)")
      case True
      have "gPstat s' = Some g'" using eq ok True encode_and_write_pstat(2) [of "s\<lparr>gPstat := Some g'\<rparr>"]
        by (auto simp: split_beta)
      then show ?thesis using written [OF req g] g'_def by simp
    next
      case False
      obtain r s2 where rs: "SetDosState (s\<lparr>gPstat := Some g'\<rparr>) (dos_state (pstat_dos q)) = (r, s2)" by fastforce
      have "gPstat s' = gPstat s2 \<and> (resp = OC_EH_OK \<longleftrightarrow> r = OC_STACK_OK)"
        using eq ok False rs by (cases r) (auto simp: encode_and_write_pstat)
      then show ?thesis using changed [OF req g rs [unfolded g'_def]] by blast
    qed
  qed
qed

lemma HandlePstatPostRequest_post:
  assumes "HandlePstatPostRequest s req = Some (resp, r, s')"
  obtains s1 where "pstat_post s req = Some (resp, s1)" "gPstat s' = gPstat s1"
  using assms encode_and_write_pstat(3)
  by (auto simp: HandlePstatPostRequest_def Let_def split_beta)

lemma pstat_inv_post:
  assumes p: "gPstat s = Some p" "pstat_inv E p" and req: "PstatPost req \<in> E"
    and h: "HandlePstatPostRequest s req = Some (resp, r, s')"
  shows "\<exists>p'. gPstat s' = Some p' \<and> pstat_inv E p'"
proof -
  obtain s1 where s1: "pstat_post s req = Some (resp, s1)" "gPstat s' = gPstat s1"
    by (rule HandlePstatPostRequest_post [OF h])
  show ?thesis
  proof (cases rule: pstat_post_cases [OF s1(1)])
    case 1
    then show ?thesis using p s1(2) by simp
  next
    case (2 pl g x u)
    then show ?thesis using pstat_inv_posted [OF p(2), of pl x u] req p s1(2) by simp
  next
    case (3 pl g x u d r s2)
    have "pstat_inv E (posted_pstat pl x u g)"
      using pstat_inv_posted [OF p(2), of pl x u] req p 3(1,2) by simp
    then show ?thesis using pstat_inv_SetDosState [OF _ _ 3(3), of "posted_pstat pl x u g" E] 3(4) s1(2) by simp
  qed
qed

text \<open>A device claims itself only in RFOTM, where TAKE_OWNER is set.\<close>

lemma pstat_inv_self_ownership:
  assumes p: "gPstat s = Some p" "pstat_inv E p" and u: "SelfOwnership u \<in> E"
    and h: "SetPstatSelfOwnership s u = (r, s')"
  shows "\<exists>p'. gPstat s' = Some p' \<and> pstat_inv E p'"
proof (cases "\<exists>v. u = Some v \<and> \<not> pstat_isOp p \<and> TAKE_OWNER AND pstat_cm p \<noteq> 0")
  case False
  then have "s' = s" using h p by (cases u) (auto simp: SetPstatSelfOwnership_def split: if_splits)
  then show ?thesis using p by simp
next
  case True
  then obtain v where v: "u = Some v" "\<not> pstat_isOp p" "pstat_cm p AND TAKE_OWNER \<noteq> 0"
    by (auto simp: and.commute)
  let ?p = "p\<lparr>pstat_cm := pstat_cm p AND NOT TAKE_OWNER, pstat_isOp := True, pstat_rownerID := v\<rparr>"
  have "gPstat s' = Some ?p"
    using h p v encode_and_write_pstat(1) [of "s\<lparr>gPstat := Some ?p\<rparr>"]
    by (auto simp: SetPstatSelfOwnership_def and.commute)
  moreover have "pstat_inv E ?p"
  proof -
    have st: "dos_state (pstat_dos p) = DOS_RFOTM" "\<not> bit (pstat_cm p) 0"
      using p(2) v by (cases "dos_state (pstat_dos p)"; auto simp: pstat_inv_def dos_bits_def and_RESET)+
    then show ?thesis
      using p(2) v u
      by (auto simp: pstat_inv_def dos_bits_def and_RESET and_TAKE_OWNER bit_and_iff bit_not_iff bit_flags)
  qed
  ultimately show ?thesis by blast
qed

lemma pstat_inv_frame:
  "op = (r, s') \<Longrightarrow> gPstat (snd op) = gPstat s \<Longrightarrow> gPstat s = Some p \<Longrightarrow> pstat_inv E p
     \<Longrightarrow> \<exists>p'. gPstat s' = Some p' \<and> pstat_inv E p'"
  by simp

lemma pstat_inv_rowner: "pstat_inv E (p\<lparr>pstat_rownerID := u\<rparr>) = pstat_inv E p"
  by (simp add: pstat_inv_def dos_bits_def)

lemma SetDoxmDeviceID_frame: "gPstat (snd (SetDoxmDeviceID s u)) = gPstat s"
  by (auto simp: SetDoxmDeviceID_def UpdatePersistentStorage_doxm_def encode_and_write_def
      next_result_def Let_def split: option.splits list.splits)

lemma pstat_inv_step:
  assumes "svr_step s e s'" "gPstat s = Some p" "pstat_inv E p" "e \<in> E"
  shows "\<exists>p'. gPstat s' = Some p' \<and> pstat_inv E p'"
  using assms
proof (induction rule: svr_step.induct)
  case (set_dos s d r s')
  then show ?case using pstat_inv_SetDosState by blast
next
  case (post s req resp r s')
  then show ?case using pstat_inv_post by blast
next
  case (self_ownership s u r s')
  then show ?case using pstat_inv_self_ownership by blast
next
  case (set_pstat_rowner s u r s')
  show ?case
  proof (cases u)
    case None
    then show ?thesis using set_pstat_rowner by (auto simp: SetPstatRownerId_def)
  next
    case (Some v)
    then show ?thesis using set_pstat_rowner SetPstatRownerId_some [of s p v] pstat_inv_rowner by auto
  qed
next
  case (environment s rs)
  then show ?case by simp
next
  case (other_resources s' s)
  then show ?case by simp
qed (erule pstat_inv_frame; simp add: iot_simps SetDoxmDeviceID_frame)+

lemma pstat_inv_run:
  assumes "svr_run s es s'" "dos_inv s"
  shows "\<exists>p. gPstat s' = Some p \<and> pstat_inv (set es) p"
  using assms
proof (induction rule: svr_run.induct)
  case (start s)
  then show ?case by (auto simp: dos_inv_def intro: pstat_inv_consistent)
next
  case (step s es s1 e s2)
  then obtain p where "gPstat s1 = Some p" "pstat_inv (set (es @ [e])) p"
    using pstat_inv_mono [of "set es" _ "set (es @ [e])"] by auto
  from pstat_inv_step [OF step.hyps(2) this] show ?case by simp
qed

lemma any_read_only_defined: "s \<noteq> DOS_STATE_COUNT \<Longrightarrow> any_read_only s ps \<noteq> None"
proof (induction ps)
  case (Cons p ps)
  then show ?case by (cases s; cases p) (auto simp: IsPropertyReadOnly_def)
qed simp

lemma HandlePstatPostRequest_defined:
  assumes "gPstat s = Some p" "dos_state (pstat_dos p) \<noteq> DOS_STATE_COUNT"
  shows "HandlePstatPostRequest s req \<noteq> None"
proof -
  have "pstat_post s req \<noteq> None"
  proof (cases req)
    case (Some pl)
    obtain ro q where "CBORPayloadToPstatBin p pl (dos_state (pstat_dos p)) = Some (ro, q)"
      using any_read_only_defined [OF assms(2), of "parsed_properties pl"]
      by (auto simp: CBORPayloadToPstatBin_def)
    then show ?thesis using Some assms(1)
      by (auto simp: pstat_post_def Let_def split: prod.splits OCStackResult.splits)
  qed (simp add: pstat_post_def)
  then show ?thesis by (simp add: HandlePstatPostRequest_def)
qed

text \<open>A POST that is answered with success and leaves another onboarding state has made a whole state change.\<close>

lemma HandlePstatPostRequest_changes:
  assumes p: "gPstat s = Some p" "\<not> dos_pending (pstat_dos p)"
    and h: "HandlePstatPostRequest s req = Some (OC_EH_OK, r, s')"
    and ch: "gPstat s' = Some p'" "dos_state (pstat_dos p') \<noteq> dos_state (pstat_dos p)"
  shows "dos_inv s'"
proof -
  obtain s1 where s1: "pstat_post s req = Some (OC_EH_OK, s1)" "gPstat s' = gPstat s1"
    by (rule HandlePstatPostRequest_post [OF h])
  show ?thesis
  proof (cases rule: pstat_post_cases [OF s1(1)])
    case 1
    then show ?thesis by simp
  next
    case (2 pl g x u)
    then show ?thesis using ch s1(2) p posted_pstat_dos [of pl x u g] by auto
  next
    case (3 pl g x u d r s2)
    then have "dos_inv s2"
      using dos_inv_SetDosState [of "s\<lparr>gPstat := Some (posted_pstat pl x u g)\<rparr>" _ d s2] p by simp
    then show ?thesis using 3 s1(2) by (simp add: dos_inv_def)
  qed
qed

section \<open>Specification of the state machine\<close>

text \<open>The edges of the onboarding state diagram; RESET is reachable from everywhere.\<close>

definition dos_edges :: "(OicSecDeviceOnboardingState \<times> OicSecDeviceOnboardingState) set" where
  "dos_edges = {(DOS_RESET, DOS_RFOTM), (DOS_RFOTM, DOS_RFPRO), (DOS_RFPRO, DOS_RFNOP),
     (DOS_RFNOP, DOS_RFPRO), (DOS_SRESET, DOS_RFPRO), (DOS_RFNOP, DOS_SRESET), (DOS_RFPRO, DOS_SRESET)}
     \<union> UNIV \<times> {DOS_RESET}"

text \<open>The device has an owner and an identity.\<close>

definition owned_device :: "svr_state \<Rightarrow> bool" where
  "owned_device s \<longleftrightarrow> (\<exists>d. gDoxm s = Some d \<and> doxm_owned d \<and> doxm_owner d \<noteq> THE_NIL_UUID
     \<and> doxm_deviceID d \<noteq> THE_NIL_UUID)"

text \<open>Every security resource has an owner.\<close>

definition owned_resources :: "svr_state \<Rightarrow> bool" where
  "owned_resources s \<longleftrightarrow> (\<exists>d a p. gDoxm s = Some d \<and> gAcl s = Some a \<and> gPstat s = Some p
     \<and> THE_NIL_UUID \<notin> {doxm_rownerID d, acl_rownerID a, pstat_rownerID p, gRownerId s})"

text \<open>What each state demands of a device that is to enter it.\<close>

fun entry_condition :: "OicSecDeviceOnboardingState \<Rightarrow> svr_state \<Rightarrow> bool" where
  "entry_condition DOS_RESET s \<longleftrightarrow> True"
| "entry_condition DOS_RFOTM s \<longleftrightarrow>
     (\<forall>d. gDoxm s = Some d \<longrightarrow> \<not> doxm_owned d \<and> doxm_owner d = THE_NIL_UUID)"
| "entry_condition DOS_RFPRO s \<longleftrightarrow> owned_device s \<and> owned_resources s"
| "entry_condition DOS_RFNOP s \<longleftrightarrow> owned_device s \<and> owned_resources s
     \<and> (\<exists>p. gPstat s = Some p \<and> \<not> pstat_isOp p)"
| "entry_condition DOS_SRESET s \<longleftrightarrow> owned_device s"
| "entry_condition DOS_STATE_COUNT s \<longleftrightarrow> False"

lemma IsValidStateTransition_edges: "IsValidStateTransition a b \<longleftrightarrow> (a, b) \<in> dos_edges"
  by (cases a; cases b) (simp_all add: IsValidStateTransition_def dos_edges_def)

lemmas nil_uuid_defs = IsNilUuid_def UuidCmp_def IsDoxmOwned_def IsDoxmDevowneruuidTheNilUuid_def
  IsDoxmDeviceuuidTheNilUuid_def IsAclRowneruuidTheNilUuid_def IsCredRowneruuidTheNilUuid_def
  IsDoxmRowneruuidTheNilUuid_def IsPstatRowneruuidTheNilUuid_def

lemma ready_to_enter_iff:
  assumes "gPstat s = Some p"
  shows "ready_to_enter d s \<longleftrightarrow> entry_condition d s"
  using assms
  by (cases d; cases "gDoxm s"; cases "gAcl s")
    (simp_all add: IsReadyToEnterRFNOP_def IsReadyToEnterRFOTM_def IsReadyToEnterRFPRO_def
      IsReadyToEnterSRESET_def nil_uuid_defs owned_device_def owned_resources_def GetPstatIsop_def
      read_field_def eq_commute [of THE_NIL_UUID])

section \<open>Properties\<close>

text \<open>
  C1: in every state that a device reaches from a consistent one by any sequence of state-change
  requests, POST requests to /pstat, self-ownership, the other writes of properties and any behaviour
  of storage, no state change is left pending; \<open>pstat.isop\<close> and the RESET and TAKE_OWNER bits of
  \<open>pstat.cm\<close> are those the onboarding state prescribes, except that a device which has claimed itself
  is operational in RFOTM with both bits clear; and the RESET and TAKE_OWNER bits of \<open>pstat.tm\<close> are
  the prescribed ones unless \<open>tm\<close> is exactly a value that a POST has written. So the device is
  operational only in RFNOP or, self-owned, in RFOTM. Every POST is handled without leaving the access
  mode table, and every state change that succeeds, by itself or by a POST, makes the state fully
  consistent again, so the two exceptions never outlive the onboarding state they arose in.
\<close>

theorem dos_reachable_consistent:
  assumes "dos_inv s" and "svr_run s es s'"
  shows "\<exists>p. gPstat s' = Some p \<and> \<not> dos_pending (pstat_dos p)
     \<and> (case (dos_bits p, spec_bits (dos_state (pstat_dos p))) of
          ((isop, cmR, cmT, tmR, tmT), (i, a, b, c, d)) \<Rightarrow>
            ((isop, cmR, cmT) = (i, a, b)
             \<or> dos_state (pstat_dos p) = DOS_RFOTM \<and> (isop, cmR, cmT) = (True, False, False)
               \<and> (\<exists>u. SelfOwnership (Some u) \<in> set es))
            \<and> ((tmR, tmT) = (c, d)
               \<or> (\<exists>pl v. PstatPost (Some pl) \<in> set es \<and> pl_tm pl = Some v \<and> pstat_tm p = of_int v)))
     \<and> (pstat_isOp p \<longrightarrow> dos_state (pstat_dos p) \<in> {DOS_RFNOP, DOS_RFOTM})
     \<and> (dos_state (pstat_dos p) = DOS_RFNOP \<longrightarrow> pstat_isOp p)
     \<and> (\<forall>req. HandlePstatPostRequest s' req \<noteq> None)
     \<and> (\<forall>d t. SetDosState s' d = (OC_STACK_OK, t) \<longrightarrow> dos_inv t)
     \<and> (\<forall>req r t q. HandlePstatPostRequest s' req = Some (OC_EH_OK, r, t) \<and> gPstat t = Some q
          \<and> dos_state (pstat_dos q) \<noteq> dos_state (pstat_dos p) \<longrightarrow> dos_inv t)"
proof -
  obtain p where p: "gPstat s' = Some p" "pstat_inv (set es) p"
    using pstat_inv_run [OF assms(2,1)] by blast
  have np: "\<not> dos_pending (pstat_dos p)" "dos_state (pstat_dos p) \<noteq> DOS_STATE_COUNT"
    using p(2) by (simp_all add: pstat_inv_def)
  have op: "pstat_isOp p \<longrightarrow> dos_state (pstat_dos p) \<in> {DOS_RFNOP, DOS_RFOTM}"
    "dos_state (pstat_dos p) = DOS_RFNOP \<longrightarrow> pstat_isOp p"
    using p(2) by (cases "dos_state (pstat_dos p)"; auto simp: pstat_inv_def dos_bits_def)+
  have total: "\<forall>req. HandlePstatPostRequest s' req \<noteq> None"
    using HandlePstatPostRequest_defined [OF p(1) np(2)] by blast
  have change: "\<forall>d t. SetDosState s' d = (OC_STACK_OK, t) \<longrightarrow> dos_inv t"
    using dos_inv_SetDosState [OF p(1) np(1)] by blast
  have posted: "\<forall>req r t q. HandlePstatPostRequest s' req = Some (OC_EH_OK, r, t) \<and> gPstat t = Some q
      \<and> dos_state (pstat_dos q) \<noteq> dos_state (pstat_dos p) \<longrightarrow> dos_inv t"
    using HandlePstatPostRequest_changes [OF p(1) np(1)] by blast
  note bits = p(2) [unfolded pstat_inv_def, THEN conjunct2, THEN conjunct2]
  show ?thesis
    by (rule exI [of _ p]) (intro conjI p(1) np(1) bits op total change posted)
qed

lemma example_svr_inv: "dos_inv example_svr"
  by (simp add: dos_inv_def example_svr_def dos_consistent_def dos_bits_def RESET_def TAKE_OWNER_def)

lemma default_pstat_inv: "gPstat s = Some gDefaultPstat \<Longrightarrow> dos_inv s"
  by (simp add: dos_inv_def gDefaultPstat_def dos_consistent_def dos_bits_def RESET_def TAKE_OWNER_def)

theorem dos_reachable_consistent_witness:
  "\<exists>p. gPstat (snd (SetDosState example_svr DOS_RFPRO)) = Some p
     \<and> \<not> dos_pending (pstat_dos p) \<and> (pstat_isOp p \<longrightarrow> dos_state (pstat_dos p) \<in> {DOS_RFNOP, DOS_RFOTM})"
proof -
  let ?t = "snd (SetDosState example_svr DOS_RFPRO)"
  have "svr_step example_svr (DosRequest DOS_RFPRO) ?t"
    by (rule svr_step.set_dos [where r = "fst (SetDosState example_svr DOS_RFPRO)"]) simp
  then have "svr_run example_svr [DosRequest DOS_RFPRO] ?t"
    using svr_run.step [OF svr_run.start] by fastforce
  from dos_reachable_consistent [OF example_svr_inv this] show ?thesis by blast
qed

text \<open>
  Both exceptions happen: self-ownership makes a device operational while its state says that it waits
  for an owner, and a POST writes the bits of \<open>tm\<close> that belong to the state machine; when the state
  change it also asks for is refused, what it has written stays although the answer is an error.
\<close>

definition example_post :: "int \<Rightarrow> dos_tag \<Rightarrow> pstat_payload" where
  "example_post tm dos = \<lparr>pl_dos = dos, pl_isop = None, pl_cm = None, pl_tm = Some tm, pl_om = None,
     pl_sm = None, pl_rowneruuid = None\<rparr>"

lemma self_ownership_operational_in_RFOTM:
  "\<exists>t p. SetPstatSelfOwnership example_svr (Some example_uuid) = (OC_STACK_OK, t) \<and> gPstat t = Some p
     \<and> dos_state (pstat_dos p) = DOS_RFOTM \<and> dos_bits p = (True, False, False, False, False)"
  by (simp add: SetPstatSelfOwnership_def example_svr_def encode_and_write_def next_result_def dos_bits_def
      TAKE_OWNER_def RESET_def)

lemma refused_post_writes_tm:
  "\<exists>r t p. HandlePstatPostRequest example_svr (Some (example_post 3 (DosMap (Some 3) None)))
       = Some (OC_EH_NOT_ACCEPTABLE, r, t) \<and> gPstat t = Some p
     \<and> dos_state (pstat_dos p) = DOS_RFOTM \<and> dos_bits p = (False, False, True, True, True)"
proof -
  let ?pl = "example_post 3 (DosMap (Some 3) None)"
  obtain g where g: "gPstat example_svr = Some g" "dos_state (pstat_dos g) = DOS_RFOTM"
    "\<not> dos_pending (pstat_dos g)" "pstat_om g = 4" "pstat_sm g = [4]" "pstat_cm g = 2" "\<not> pstat_isOp g"
    by (simp add: example_svr_def)
  let ?g = "g\<lparr>pstat_om := 4, pstat_tm := 3, pstat_rownerID := pstat_rownerID g\<rparr>"
  have "SetDosState (example_svr\<lparr>gPstat := Some ?g\<rparr>) DOS_RFNOP
      = (OC_STACK_FORBIDDEN_REQ, example_svr\<lparr>gPstat := Some ?g\<rparr>)"
    using SetDosState_eq [of "example_svr\<lparr>gPstat := Some ?g\<rparr>" ?g DOS_RFNOP] g
    by (simp add: IsValidStateTransition_def)
  then have "pstat_post example_svr (Some ?pl) = Some (OC_EH_NOT_ACCEPTABLE, example_svr\<lparr>gPstat := Some ?g\<rparr>)"
    using g by (simp add: pstat_post_def CBORPayloadToPstatBin_def example_post_def parsed_properties_def
        IsPropertyReadOnly_def dos_of_int_def)
  then show ?thesis
    using g by (simp add: HandlePstatPostRequest_def next_result_def example_svr_def dos_bits_def
        RESET_def TAKE_OWNER_def)
qed

text \<open>
  C2: a state change succeeds only along an edge of the transition table and only when the entry
  condition of the new state held before it; it then ends in the requested state, or in RFOTM when
  RESET was requested, with nothing pending.
\<close>

theorem SetDosState_success:
  assumes "SetDosState s d = (OC_STACK_OK, s')"
  shows "\<exists>p p'. gPstat s = Some p \<and> gPstat s' = Some p'
     \<and> (dos_state (pstat_dos p), d) \<in> dos_edges \<and> entry_condition d s
     \<and> dos_state (pstat_dos p') = (if d = DOS_RESET then DOS_RFOTM else d)
     \<and> \<not> dos_pending (pstat_dos p') \<and> dos_consistent p'"
proof -
  obtain p where p: "gPstat s = Some p" using assms
    by (cases "gPstat s") (auto simp: SetDosState_def GetPstatDosP_def read_field_def)
  have np: "\<not> dos_pending (pstat_dos p)" using assms p
    by (auto simp: SetDosState_def GetPstatDosP_def read_field_def)
  show ?thesis
    by (cases rule: SetDosState_outcome [OF p np assms])
      (use p np in \<open>auto simp: enter_spec_consistent reset_pstat_eq ready_to_enter_iff
         IsValidStateTransition_edges\<close>)
qed

lemma example_uuid_not_nil: "example_uuid \<noteq> THE_NIL_UUID" "replicate 16 1 \<noteq> THE_NIL_UUID"
proof -
  have "last example_uuid \<noteq> last THE_NIL_UUID"
    by (simp add: example_uuid_def THE_NIL_UUID_def)
  then show "example_uuid \<noteq> THE_NIL_UUID" by metis
qed (simp add: THE_NIL_UUID_def)

lemma example_ready: "ready_to_enter DOS_RFPRO example_svr"
  using example_uuid_not_nil
  by (simp add: IsReadyToEnterRFPRO_def IsDoxmOwned_def IsDoxmDevowneruuidTheNilUuid_def IsNilUuid_def
      UuidCmp_def IsDoxmDeviceuuidTheNilUuid_def IsAclRowneruuidTheNilUuid_def
      IsCredRowneruuidTheNilUuid_def IsDoxmRowneruuidTheNilUuid_def IsPstatRowneruuidTheNilUuid_def
      example_svr_def)

theorem SetDosState_success_witness:
  "\<exists>s'. SetDosState example_svr DOS_RFPRO = (OC_STACK_OK, s') \<and> entry_condition DOS_RFPRO example_svr"
proof -
  obtain p where p: "gPstat example_svr = Some p" "\<not> dos_pending (pstat_dos p)"
    "dos_state (pstat_dos p) = DOS_RFOTM" by (simp add: example_svr_def)
  obtain s' where s': "SetDosState example_svr DOS_RFPRO = (OC_STACK_OK, s')"
    using SetDosState_eq [OF p(1,2), of DOS_RFPRO] p(3) example_ready
      DoStateChange_not_RESET [OF set_pending_Some [OF p(1)], of DOS_RFPRO True]
    by (simp add: IsValidStateTransition_def ready_to_enter_pending)
  from SetDosState_success [OF s'] s' show ?thesis by blast
qed

text \<open>
  C3: a request that is refused (\<open>OC_STACK_FORBIDDEN_REQ\<close>) leaves every resource as it was, and it is
  refused exactly when a change is already pending, the edge is not in the transition table or the
  entry condition does not hold.
\<close>

theorem SetDosState_forbidden:
  assumes "gPstat s = Some p"
  shows "(fst (SetDosState s d) = OC_STACK_FORBIDDEN_REQ \<longleftrightarrow>
       dos_pending (pstat_dos p) \<or> (dos_state (pstat_dos p), d) \<notin> dos_edges
       \<or> \<not> entry_condition d s)
    \<and> (fst (SetDosState s d) = OC_STACK_FORBIDDEN_REQ \<longrightarrow> snd (SetDosState s d) = s)"
proof (cases "dos_pending (pstat_dos p)")
  case True
  then show ?thesis using assms by (simp add: SetDosState_def GetPstatDosP_def read_field_def)
next
  case False
  obtain r s' where r: "SetDosState s d = (r, s')" by fastforce
  show ?thesis
    by (cases rule: SetDosState_outcome [OF assms False r])
      (use r False assms in \<open>auto simp: ready_to_enter_iff IsValidStateTransition_edges dos_edges_def\<close>)
qed

theorem SetDosState_forbidden_witness:
  "fst (SetDosState example_svr DOS_RFNOP) = OC_STACK_FORBIDDEN_REQ
   \<and> snd (SetDosState example_svr DOS_RFNOP) = example_svr"
proof -
  obtain p where p: "gPstat example_svr = Some p" "dos_state (pstat_dos p) = DOS_RFOTM"
    by (simp add: example_svr_def)
  from SetDosState_forbidden [OF p(1), of DOS_RFNOP] p(2) show ?thesis
    by (simp add: dos_edges_def)
qed

lemma reset_then_RFOTM_modes:
  "pstat_cm (enter_spec DOS_RFOTM (reset_pstat p)) = TAKE_OWNER"
  "pstat_tm (enter_spec DOS_RFOTM (reset_pstat p)) = 0"
  "pstat_rownerID (enter_spec DOS_RFOTM (reset_pstat p)) = THE_NIL_UUID"
  by (simp_all add: enter_spec_def reset_pstat_def enter_pstat_def set_bit_if_def RESET_def TAKE_OWNER_def)

lemma RESET_outcome:
  assumes "SetDosState s DOS_RESET = (OC_STACK_OK, s')"
  shows "\<exists>p d a. gPstat s' = Some p \<and> gDoxm s' = Some d \<and> gAcl s' = Some a
     \<and> dos_state (pstat_dos p) = DOS_RFOTM \<and> pstat_cm p = TAKE_OWNER \<and> pstat_tm p = 0
     \<and> \<not> doxm_owned d \<and> doxm_owner d = THE_NIL_UUID
     \<and> [pstat_rownerID p, doxm_rownerID d, acl_rownerID a, gRownerId s'] = replicate 4 THE_NIL_UUID
     \<and> map_option acl_aces (gAcl s) = Some (acl_aces a)"
proof -
  obtain p where p: "gPstat s = Some p" using assms
    by (cases "gPstat s") (auto simp: SetDosState_def GetPstatDosP_def read_field_def)
  have np: "\<not> dos_pending (pstat_dos p)" using assms p
    by (auto simp: SetDosState_def GetPstatDosP_def read_field_def)
  obtain r t where rt: "DoStateChange (set_pending True s) DOS_RESET = (r, t)" by fastforce
  have s': "r = OC_STACK_OK" "s' = set_pending False t"
    using SetDosState_eq [OF p np, of DOS_RESET] assms rt by (auto simp: IsValidStateTransition_def)
  show ?thesis
  proof (cases rule: DoStateChange_RESET [OF set_pending_Some [OF p] rt])
    case 1
    then show ?thesis using s' by simp
  next
    case (2 d a)
    then show ?thesis using s' by (simp add: set_pending_def reset_then_RFOTM_modes reset_doxm_def numeral_nat
          split: option.splits)
  qed
qed

text \<open>
  A successful RESET request leaves a device that nobody owns and that is ready for ownership
  transfer: the owner of the device and the owner ids of /acl2, /cred, /doxm and /pstat are the nil
  UUID, the current mode is exactly TAKE_OWNER and the target mode is empty.
\<close>

lemma SetDosState_RESET_clears:
  assumes "SetDosState s DOS_RESET = (OC_STACK_OK, s')"
  shows "\<exists>p d a. gPstat s' = Some p \<and> gDoxm s' = Some d \<and> gAcl s' = Some a
     \<and> dos_state (pstat_dos p) = DOS_RFOTM \<and> pstat_cm p = TAKE_OWNER \<and> pstat_tm p = 0
     \<and> \<not> doxm_owned d \<and> doxm_owner d = THE_NIL_UUID
     \<and> [pstat_rownerID p, doxm_rownerID d, acl_rownerID a, gRownerId s'] = replicate 4 THE_NIL_UUID"
  using RESET_outcome [OF assms] by blast

lemma EnterRESET_ok:
  assumes "gPstat s = Some p" "gDoxm s = Some d" "gAcl s = Some a" "env_results s = []"
  shows "fst (EnterRESET s)"
  using assms
  by (cases "gRownerId s = THE_NIL_UUID"; cases "gCred s = []")
    (simp_all add: EnterRESET_def verify_then_def doxm_write_some SetAclRownerId_def SetCredRownerId_def
      SetPstatRownerId_def encode_and_write_def next_result_def UuidCmp_def
      UpdatePersistentStorage_cred_def UpdatePersistentStorage_pstat_def SetPstatCm_def SetPstatTm_def
      write_field_def EnterStateGeneric_eq EnableAnonCipherSuiteIfUnOwnedAndJustWorksSelected_def)

lemma RESET_gets_through:
  assumes p: "gPstat s = Some p" and np: "\<not> dos_pending (pstat_dos p)"
    and d: "gDoxm s \<noteq> None" and a: "gAcl s \<noteq> None" and env: "env_results s = []"
  shows "\<exists>s'. SetDosState s DOS_RESET = (OC_STACK_OK, s')"
proof -
  let ?s = "set_pending True s"
  have "fst (EnterRESET ?s)"
    using assms by (auto intro!: EnterRESET_ok simp: set_pending_def)
  then obtain t where e: "EnterRESET ?s = (True, t)" by (cases "EnterRESET ?s") auto
  obtain r t' where rt: "DoStateChange ?s DOS_RESET = (r, t')" by fastforce
  have "r = OC_STACK_OK"
  proof (cases rule: EnterRESET_cases [OF set_pending_Some [OF p] e])
    case (2 d a)
    then have "IsReadyToEnterRFOTM t" by (simp add: IsReadyToEnterRFOTM_def IsDoxmOwned_def
          IsDoxmDevowneruuidTheNilUuid_def reset_doxm_def IsNilUuid_def UuidCmp_def)
    then show ?thesis using rt e 2 by (auto simp: DoStateChange_def guarded_enter_def enter_ok)
  qed simp
  then show ?thesis
    using SetDosState_eq [OF p np, of DOS_RESET] rt by (simp add: IsValidStateTransition_def)
qed

text \<open>
  C4: RESET always gets through: from any onboarding state, with the resources initialised, no
  change pending and storage working, the request succeeds.
\<close>

theorem SetDosState_RESET_succeeds:
  assumes "gPstat s = Some p" and "\<not> dos_pending (pstat_dos p)"
    and "gDoxm s \<noteq> None" and "gAcl s \<noteq> None" and "env_results s = []"
  shows "\<exists>s'. SetDosState s DOS_RESET = (OC_STACK_OK, s')"
  by (rule RESET_gets_through [OF assms])

theorem SetDosState_RESET_succeeds_witness:
  "\<exists>s'. SetDosState example_svr DOS_RESET = (OC_STACK_OK, s')"
proof -
  obtain p where "gPstat example_svr = Some p" "\<not> dos_pending (pstat_dos p)"
    by (simp add: example_svr_def)
  then show ?thesis by (rule SetDosState_RESET_succeeds) (simp_all add: example_svr_def)
qed

lemma SetDosState_RESET_clears_example:
  "\<exists>s' d. SetDosState example_svr DOS_RESET = (OC_STACK_OK, s') \<and> gDoxm s' = Some d
     \<and> \<not> doxm_owned d \<and> doxm_owner d = THE_NIL_UUID"
proof -
  obtain s' where s': "SetDosState example_svr DOS_RESET = (OC_STACK_OK, s')"
    using RESET_gets_through [of example_svr] by (auto simp: example_svr_def)
  from SetDosState_RESET_clears [OF s'] s' show ?thesis by blast
qed

end
