(* ===== verification/OicString.thy ===== *)
theory OicString
  imports Prelude
begin

text \<open>
  The bounded string routines of \<^verbatim>\<open>resource/c_common/oic_string/src/oic_string.c\<close> and the functions of
  \<^verbatim>\<open>string.h\<close> that the modelled code uses. A string is the list of its characters up to the
  terminating NUL. A destination is a buffer of \<open>destSize\<close> characters given by its content:
  \<^const>\<open>None\<close> while it is uninitialised. A NULL pointer is the outer \<^const>\<open>None\<close>. The result is the
  returned pointer (non-NULL or not) with the new content of the destination; reading an
  uninitialised buffer is undefined and has no result.
\<close>

section \<open>string.h\<close>

definition strchr :: "string \<Rightarrow> char \<Rightarrow> string option" where
  "strchr s c = (case dropWhile (\<lambda>x. x \<noteq> c) s of [] \<Rightarrow> None | r \<Rightarrow> Some r)"

fun strstr :: "string \<Rightarrow> string \<Rightarrow> bool" where
  "strstr [] needle = (needle = [])"
| "strstr (c # s) needle = (take (length needle) (c # s) = needle \<or> strstr s needle)"

lemma strchr_None: "strchr s c = None \<longleftrightarrow> c \<notin> set s"
  unfolding strchr_def by (induction s) auto

lemma strchr_Some:
  "strchr s c = Some r \<longleftrightarrow> (\<exists>pre rest. s = pre @ c # rest \<and> c \<notin> set pre \<and> r = c # rest)"
proof
  assume r: "strchr s c = Some r"
  then have d: "dropWhile (\<lambda>x. x \<noteq> c) s = r" "r \<noteq> []"
    by (auto simp: strchr_def split: list.splits)
  then obtain rest where "r = c # rest" using hd_dropWhile [of "\<lambda>x. x \<noteq> c" s] by (cases r) auto
  moreover have "s = takeWhile (\<lambda>x. x \<noteq> c) s @ r" using d by (metis takeWhile_dropWhile_id)
  moreover have "c \<notin> set (takeWhile (\<lambda>x. x \<noteq> c) s)" by (auto dest: set_takeWhileD)
  ultimately show "\<exists>pre rest. s = pre @ c # rest \<and> c \<notin> set pre \<and> r = c # rest" by blast
next
  assume "\<exists>pre rest. s = pre @ c # rest \<and> c \<notin> set pre \<and> r = c # rest"
  then obtain pre rest where s: "s = pre @ c # rest" "c \<notin> set pre" "r = c # rest" by blast
  then have "dropWhile (\<lambda>x. x \<noteq> c) s = r" by (induction pre arbitrary: s) auto
  then show "strchr s c = Some r" using s(3) by (simp add: strchr_def)
qed

lemma strchr_shorter: "strchr s c = Some r \<Longrightarrow> r \<noteq> [] \<and> length r \<le> length s"
  by (auto simp: strchr_Some)

section \<open>oic_string.c\<close>

definition OICStrdup :: "mem \<Rightarrow> string option \<Rightarrow> string option \<times> mem" where
  "OICStrdup m str =
     (case str of
        None \<Rightarrow> (None, m)
      | Some s \<Rightarrow>
          (case OICMalloc m (length s + 1) of
             (True, m1) \<Rightarrow> (Some s, m1)
           | (False, m1) \<Rightarrow> (None, m1)))"

fun OICStringToLower :: "string \<Rightarrow> string" where
  "OICStringToLower [] = []"
| "OICStringToLower (ch # str) =
     (if of_char ch \<ge> (65::nat) \<and> of_char ch \<le> (90::nat) then char_of (of_char ch + (32::nat)) else ch)
     # OICStringToLower str"

definition OICStrcpyPartial ::
  "string option option \<Rightarrow> nat \<Rightarrow> string option \<Rightarrow> nat \<Rightarrow> bool \<times> string option option" where
  "OICStrcpyPartial dest destSize source sourceLen =
     (case (dest, source) of
        (Some d, Some s) \<Rightarrow>
          if destSize = 0 \<or> sourceLen = 0 then (True, Some d)
          else (True, Some (Some (take (min (destSize - 1) sourceLen) s)))
      | _ \<Rightarrow> (False, dest))"

definition OICStrcpy :: "string option option \<Rightarrow> nat \<Rightarrow> string option \<Rightarrow> bool \<times> string option option" where
  "OICStrcpy dest destSize source =
     OICStrcpyPartial dest destSize source (if destSize = 0 then 0 else destSize - 1)"

definition OICStrcatPartial ::
  "string option option \<Rightarrow> nat \<Rightarrow> string option \<Rightarrow> nat \<Rightarrow> (bool \<times> string option option) option" where
  "OICStrcatPartial dest destSize source sourceLen =
     (case (dest, source) of
        (Some d, Some s) \<Rightarrow>
          if destSize = 0 \<or> sourceLen = 0 then Some (True, Some d)
          else
            (case d of
               None \<Rightarrow> None
             | Some t \<Rightarrow>
                 if length t \<ge> destSize then Some (True, Some d)
                 else Some (True, Some (Some (t @ take (min (destSize - length t - 1) sourceLen) s))))
      | _ \<Rightarrow> Some (False, dest))"

definition OICStrcat ::
  "string option option \<Rightarrow> nat \<Rightarrow> string option \<Rightarrow> (bool \<times> string option option) option" where
  "OICStrcat dest destSize source =
     OICStrcatPartial dest destSize source (if destSize = 0 then 0 else destSize - 1)"

lemma OICStringToLower_fixed:
  "OICStringToLower (OICStringToLower s) = OICStringToLower s"
  by (induction s) auto

text \<open>
  The bounded copy and concatenation never write outside the destination: a content that
  fits its buffer with the terminating NUL still fits, and what is written is the longest prefix of
  the source that has room.
\<close>

lemma OICStr_bounded:
  assumes "0 < destSize" "length t < destSize"
  shows "OICStrcpy (Some d) destSize (Some s) =
       (True, Some (if destSize = 1 then d else Some (take (destSize - 1) s)))
    \<and> (\<exists>u. OICStrcat (Some (Some t)) destSize (Some s) = Some (True, Some (Some u))
         \<and> length u < destSize \<and> u = take (destSize - 1) (t @ s))"
  using assms by (auto simp: OICStrcpy_def OICStrcpyPartial_def OICStrcat_def OICStrcatPartial_def)

lemma OICStr_bounded_example:
  "\<exists>u. OICStrcat (Some (Some ''ab'')) 4 (Some ''cd'') = Some (True, Some (Some u)) \<and> u = ''abc''"
  using OICStr_bounded [of 4 "''ab''" None "''cd''"] by (auto simp: numeral_nat)

end
