(* ===== verification/ICalendar.thy ===== *)
theory ICalendar
  imports OicString "HOL-Library.Signed_Division"
begin

text \<open>
  Validity periods of access control entries: \<^verbatim>\<open>resource/csdk/security/src/iotvticalendar.c\<close> with the
  repository's own \<open>strptime\<close> (\<^verbatim>\<open>resource/csdk/security/src/strptime.c\<close>). A \<open>struct tm\<close> is the record
  \<open>tm\<close>; its \<open>int\<close> members stay far below the range of a C \<open>int\<close> for every year of four digits. The
  current time, which the code reads with \<open>localtime(time(0))\<close>, is an argument.
\<close>

section \<open>struct tm and strptime\<close>

record tm =
  tm_sec :: int
  tm_min :: int
  tm_hour :: int
  tm_mday :: int
  tm_mon :: int
  tm_year :: int
  tm_wday :: int
  tm_yday :: int

definition tm_zero :: tm where
  "tm_zero = \<lparr>tm_sec = 0, tm_min = 0, tm_hour = 0, tm_mday = 0, tm_mon = 0, tm_year = 0,
              tm_wday = 0, tm_yday = 0\<rparr>"

definition TM_BASE_YEAR :: int where "TM_BASE_YEAR = 1900"

definition ydays :: "int list" where
  "ydays = [0, 31, 59, 90, 120, 151, 181, 212, 243, 273, 304, 334]"

definition is_leap_year :: "int \<Rightarrow> bool" where
  "is_leap_year yy =
     (let yyyy = yy + TM_BASE_YEAR in
      if yyyy smod 100 = 0 then yyyy smod 400 = 0 else yyyy smod 4 = 0)"

definition is_digit :: "char \<Rightarrow> bool" where
  "is_digit c \<longleftrightarrow> 48 \<le> (of_char c :: nat) \<and> (of_char c :: nat) \<le> 57"

definition is_space :: "char \<Rightarrow> bool" where
  "is_space c \<longleftrightarrow> (of_char c :: nat) \<in> {32, 9, 10, 11, 12, 13}"

text \<open>
  \<open>sscanf(buf, "%<w>d", &temp)\<close> with \<open>temp\<close> initially 0: white space is skipped, then a sign and
  digits of at most \<open>w\<close> characters are read; without a digit \<open>temp\<close> keeps its value.
\<close>

definition digits_value :: "string \<Rightarrow> int" where
  "digits_value ds = foldl (\<lambda>v c. 10 * v + (of_char c - 48)) 0 ds"

definition sscanf_d :: "nat \<Rightarrow> string \<Rightarrow> int" where
  "sscanf_d w buf =
     (case take w (dropWhile is_space buf) of
        [] \<Rightarrow> 0
      | c # cs \<Rightarrow>
          if c = CHR ''-'' then - digits_value (takeWhile is_digit cs)
          else if c = CHR ''+'' then digits_value (takeWhile is_digit cs)
          else digits_value (takeWhile is_digit (c # cs)))"

text \<open>
  One conversion of the loop of \<open>strptime\<close>: \<^const>\<open>None\<close> is the early \<open>return NULL\<close>. \<open>buf += n\<close> is
  \<open>drop n\<close>; a character at the end of the buffer is the terminating NUL, which no literal matches.
\<close>

definition strptime_conv :: "char \<Rightarrow> string \<Rightarrow> tm \<Rightarrow> (string \<times> tm) option" where
  "strptime_conv c buf t =
     (if c = CHR ''%'' then (case buf of b # bs \<Rightarrow> if b = c then Some (bs, t) else None | [] \<Rightarrow> None)
      else if c = CHR ''d'' then
        (let v = sscanf_d 2 buf in if v \<ge> 1 \<and> v \<le> 31 then Some (drop 2 buf, t\<lparr>tm_mday := v\<rparr>) else None)
      else if c = CHR ''H'' then
        (let v = sscanf_d 2 buf in if v \<ge> 0 \<and> v \<le> 23 then Some (drop 2 buf, t\<lparr>tm_hour := v\<rparr>) else None)
      else if c = CHR ''M'' then
        (let v = sscanf_d 2 buf in if v \<ge> 0 \<and> v \<le> 59 then Some (drop 2 buf, t\<lparr>tm_min := v\<rparr>) else None)
      else if c = CHR ''m'' then
        (let v = sscanf_d 2 buf in if v \<ge> 1 \<and> v \<le> 12 then Some (drop 2 buf, t\<lparr>tm_mon := v - 1\<rparr>) else None)
      else if c = CHR ''S'' then
        (let v = sscanf_d 2 buf in if v \<ge> 0 \<and> v \<le> 59 then Some (drop 2 buf, t\<lparr>tm_sec := v\<rparr>) else None)
      else if c = CHR ''Y'' then
        (let v = sscanf_d 4 buf in
         if v \<ge> 0 \<and> v \<le> 9999 then Some (drop 4 buf, t\<lparr>tm_year := v - TM_BASE_YEAR\<rparr>) else None)
      else None)"

fun strptime_loop :: "string \<Rightarrow> string \<Rightarrow> tm \<Rightarrow> (string \<times> tm) option" where
  "strptime_loop [] buf t = Some (buf, t)"
| "strptime_loop (c # fmt) buf t =
     (if c = CHR ''%'' then
        (case fmt of
           [] \<Rightarrow> None
         | c' # fmt' \<Rightarrow>
             (case strptime_conv c' buf t of
                None \<Rightarrow> None | Some (buf', t') \<Rightarrow> strptime_loop fmt' buf' t'))
      else
        (case buf of
           [] \<Rightarrow> None
         | b # bs \<Rightarrow> if c = b then strptime_loop fmt bs t else None))"

definition strptime_finish :: "tm \<Rightarrow> tm" where
  "strptime_finish t =
     (let yday = ydays ! nat (tm_mon t) + (if is_leap_year (tm_year t) \<and> tm_mon t \<ge> 2 then 1 else 0)
                 + tm_mday t - 1;
          wday = 365 * tm_year t + tm_year t sdiv 4 + yday + 1;
          wday' = (if is_leap_year (tm_year t) then wday - 1 else wday)
      in t\<lparr>tm_yday := yday, tm_wday := wday' smod 7\<rparr>)"

definition strptime :: "string \<Rightarrow> string \<Rightarrow> tm option" where
  "strptime buf fmt =
     (case strptime_loop fmt buf (tm_zero\<lparr>tm_mday := 1\<rparr>) of
        None \<Rightarrow> None | Some (_, t) \<Rightarrow> Some (strptime_finish t))"

section \<open>Data types of the calendar\<close>

datatype IotvtICalResult =
  IOTVTICAL_SUCCESS | IOTVTICAL_VALID_ACCESS | IOTVTICAL_INVALID_ACCESS
| IOTVTICAL_INVALID_PARAMETER | IOTVTICAL_INVALID_RRULE | IOTVTICAL_INVALID_PERIOD | IOTVTICAL_ERROR

record IotvtICalPeriod =
  startDateTime :: tm
  endDateTime :: tm

record IotvtICalRecur =
  recur_freq :: u16
  recur_until :: tm
  recur_byDay :: u32

definition dtFormat :: string where "dtFormat = ''%Y%m%dT%H%M%S''"
definition dFormat :: string where "dFormat = ''%Y%m%d''"

definition NO_WEEKDAY :: u32 where "NO_WEEKDAY = 0"

section \<open>Parsing\<close>

text \<open>The comparison at the end of \<open>ParsePeriod\<close>: the start is after the end.\<close>

definition start_after_end :: "string \<Rightarrow> tm \<Rightarrow> tm \<Rightarrow> bool" where
  "start_after_end fmt s e \<longleftrightarrow>
     tm_year s > tm_year e
   \<or> (tm_year s = tm_year e \<and> tm_mon s > tm_mon e)
   \<or> (tm_year s = tm_year e \<and> tm_mon s = tm_mon e \<and> tm_mday s > tm_mday e)
   \<or> (fmt = dtFormat \<and> tm_year s = tm_year e \<and> tm_mon s = tm_mon e \<and> tm_mday s = tm_mday e
      \<and> tm_hour s > tm_hour e)
   \<or> (fmt = dtFormat \<and> tm_year s = tm_year e \<and> tm_mon s = tm_mon e \<and> tm_mday s = tm_mday e
      \<and> tm_hour s = tm_hour e \<and> tm_min s > tm_min e)
   \<or> (fmt = dtFormat \<and> tm_year s = tm_year e \<and> tm_mon s = tm_mon e \<and> tm_mday s = tm_mday e
      \<and> tm_hour s = tm_hour e \<and> tm_min s = tm_min e \<and> tm_sec s > tm_sec e)"

text \<open>\<open>*period\<close> is returned on success; the callers do not look at it after an error.\<close>

definition ParsePeriod :: "string option \<Rightarrow> IotvtICalResult \<times> IotvtICalPeriod option" where
  "ParsePeriod periodStr =
     (case periodStr of
        None \<Rightarrow> (IOTVTICAL_INVALID_PARAMETER, None)
      | Some str \<Rightarrow>
          (case strchr str (CHR ''/'') of
             None \<Rightarrow> (IOTVTICAL_INVALID_PERIOD, None)
           | Some slash \<Rightarrow>
               (let endDTPos = drop 1 slash;
                    startDTLen = length str - length slash;
                    endDTLen = length endDTPos
                in if startDTLen = endDTLen \<and> (startDTLen = 8 \<or> startDTLen = 15) then
                     (let fmt = (if startDTLen = 8 then dFormat else dtFormat) in
                      case strptime str fmt of
                        None \<Rightarrow> (IOTVTICAL_INVALID_PERIOD, None)
                      | Some s \<Rightarrow>
                          (case strptime endDTPos fmt of
                             None \<Rightarrow> (IOTVTICAL_INVALID_PERIOD, None)
                           | Some e \<Rightarrow>
                               if start_after_end fmt s e then (IOTVTICAL_INVALID_PERIOD, None)
                               else (IOTVTICAL_SUCCESS, Some \<lparr>startDateTime = s, endDateTime = e\<rparr>)))
                   else (IOTVTICAL_INVALID_PERIOD, None))))"

definition ParseDate :: "string \<Rightarrow> IotvtICalRecur \<Rightarrow> IotvtICalResult \<times> IotvtICalRecur" where
  "ParseDate untilRule recur =
     (case strchr untilRule (CHR ''='') of
        None \<Rightarrow> (IOTVTICAL_ERROR, recur)
      | Some eq \<Rightarrow>
          (let date = drop 1 eq in
           if length date = 8 then
             (case strptime date dFormat of
                Some t \<Rightarrow> (IOTVTICAL_SUCCESS, recur\<lparr>recur_until := t\<rparr>)
              | None \<Rightarrow> (IOTVTICAL_ERROR, recur))
           else (IOTVTICAL_ERROR, recur)))"

definition weekday_codes :: "(string \<times> u32) list" where
  "weekday_codes = [(''SU'', 1), (''MO'', 2), (''TU'', 4), (''WE'', 8), (''TH'', 16), (''FR'', 32), (''SA'', 64)]"

definition ParseByDay :: "string \<Rightarrow> IotvtICalRecur \<Rightarrow> IotvtICalResult \<times> IotvtICalRecur" where
  "ParseByDay bydayRule recur =
     (let recur' = foldl (\<lambda>r (code, flag). if strstr bydayRule code
                            then r\<lparr>recur_byDay := recur_byDay r OR flag\<rparr> else r) recur weekday_codes
      in if recur_byDay recur' = NO_WEEKDAY then (IOTVTICAL_ERROR, recur') else (IOTVTICAL_SUCCESS, recur'))"

definition CalculateElementLength :: "string \<Rightarrow> string option \<Rightarrow> nat" where
  "CalculateElementLength startPosition endPosition =
     (case endPosition of Some e \<Rightarrow> length startPosition - length e | None \<Rightarrow> length startPosition)"

text \<open>
  The body of the loop of \<open>ParseRecur\<close> on the element in \<open>buf\<close>: \<^const>\<open>Inl\<close> leaves the function, with what has
  been written to \<open>*recur\<close> by then. (A \<open>strptime\<close> that fails is taken to write nothing; the callers do not look at
  \<open>*recur\<close> after an error.)
\<close>

definition parse_element ::
  "string \<Rightarrow> IotvtICalRecur \<times> bool \<Rightarrow> IotvtICalResult \<times> IotvtICalRecur + IotvtICalRecur \<times> bool" where
  "parse_element buf acc =
     (case acc of (recur, freqFlag) \<Rightarrow>
      if strstr buf ''FREQ'' then
        if strstr buf ''DAILY'' then Inr (recur\<lparr>recur_freq := 1\<rparr>, True) else Inl (IOTVTICAL_INVALID_RRULE, recur)
      else if strstr buf ''UNTIL'' then
        (case ParseDate buf recur of
           (IOTVTICAL_SUCCESS, r) \<Rightarrow> Inr (r, freqFlag) | (_, r) \<Rightarrow> Inl (IOTVTICAL_INVALID_RRULE, r))
      else if strstr buf ''BYDAY'' then
        (case ParseByDay buf recur of
           (IOTVTICAL_SUCCESS, r) \<Rightarrow> Inr (r, freqFlag) | (_, r) \<Rightarrow> Inl (IOTVTICAL_INVALID_RRULE, r))
      else Inr (recur, freqFlag))"

text \<open>
  The loop over the elements separated by semicolons. \<open>buf\<close> is the 50-byte buffer: an empty element
  does not touch it, so the previous element is processed again, and an empty first element reads
  the uninitialised buffer, which is undefined (\<^const>\<open>None\<close>).
\<close>

function ParseRecur_loop ::
  "string \<Rightarrow> string option \<Rightarrow> IotvtICalRecur \<times> bool
     \<Rightarrow> (IotvtICalResult \<times> IotvtICalRecur + IotvtICalRecur \<times> bool) option" where
  "ParseRecur_loop startPos buf acc =
     (let endPos = strchr startPos (CHR '';'');
          elementLength = CalculateElementLength startPos endPos
      in if elementLength \<ge> 50 then Some (Inl (IOTVTICAL_INVALID_RRULE, fst acc))
         else
           (case snd (OICStrcpyPartial (Some buf) 50 (Some startPos) elementLength) of
              Some (Some b) \<Rightarrow>
                (case parse_element b acc of
                   Inl r \<Rightarrow> Some (Inl r)
                 | Inr acc' \<Rightarrow>
                     (case endPos of
                        None \<Rightarrow> Some (Inr acc')
                      | Some e \<Rightarrow> ParseRecur_loop (drop 1 e) (Some b) acc'))
            | _ \<Rightarrow> None))"
  by pat_completeness auto
termination
  by (relation "measure (\<lambda>(startPos, _, _). length startPos)")
    (auto dest!: strchr_shorter [OF sym] simp flip: length_greater_0_conv)

definition ParseRecur ::
  "string option \<Rightarrow> IotvtICalRecur \<Rightarrow> (IotvtICalResult \<times> IotvtICalRecur) option" where
  "ParseRecur recurStr recur =
     (case recurStr of
        None \<Rightarrow> Some (IOTVTICAL_INVALID_PARAMETER, recur)
      | Some str \<Rightarrow>
          (case ParseRecur_loop str None (recur, False) of
             None \<Rightarrow> None
           | Some (Inl (r, recur')) \<Rightarrow> Some (r, recur')
           | Some (Inr (recur', freqFlag)) \<Rightarrow>
               Some (if freqFlag then IOTVTICAL_SUCCESS else IOTVTICAL_INVALID_RRULE, recur')))"

section \<open>Validation\<close>

text \<open>
  The loop that counts leap days, written as the code has it: the loop variable itself is moved by
  the year offset in every round.
\<close>

function leap_loop :: "int \<Rightarrow> int \<Rightarrow> int \<Rightarrow> int" where
  "leap_loop y year2 leapDays =
     (if y < year2 then
        let y' = y + 1900 in
        leap_loop (y' + 1) year2
          (if y' smod 4 = 0 \<and> (y' smod 100 \<noteq> 0 \<or> y' smod 400 = 0) then leapDays + 1 else leapDays)
      else leapDays)"
  by pat_completeness auto
termination
  by (relation "measure (\<lambda>(y, year2, _). nat (year2 - y))") auto

definition DiffDays :: "tm \<Rightarrow> tm \<Rightarrow> int" where
  "DiffDays date1 date2 =
     (let leapDays = (if tm_year date2 > tm_year date1 then leap_loop (tm_year date1) (tm_year date2) 0 else 0)
      in (365 * tm_year date2 + tm_yday date2 + leapDays) - (365 * tm_year date1 + tm_yday date1))"

definition DiffSecs :: "tm \<Rightarrow> tm \<Rightarrow> int" where
  "DiffSecs time1 time2 =
     (3600 * tm_hour time2 + 60 * tm_min time2 + tm_sec time2)
     - (3600 * tm_hour time1 + 60 * tm_min time1 + tm_sec time1)"

definition ValidatePeriod :: "IotvtICalPeriod option \<Rightarrow> tm option \<Rightarrow> IotvtICalResult" where
  "ValidatePeriod period currentTime =
     (case (period, currentTime) of
        (Some p, Some now) \<Rightarrow>
          (let todayIsStartDay = (0 = DiffDays (startDateTime p) now);
               todayIsEndDay = (0 = DiffDays now (endDateTime p));
               validStartTime = (if todayIsStartDay then 0 \<le> DiffSecs (startDateTime p) now else True);
               validEndTime = (if todayIsEndDay then 0 \<le> DiffSecs now (endDateTime p) else True);
               validDay = (0 \<le> DiffDays (startDateTime p) now \<and> 0 \<le> DiffDays now (endDateTime p))
           in if validDay \<and> validStartTime \<and> validEndTime
              then IOTVTICAL_VALID_ACCESS else IOTVTICAL_INVALID_ACCESS)
      | _ \<Rightarrow> IOTVTICAL_INVALID_PARAMETER)"

text \<open>The recurrence branch of \<open>IsRequestWithinValidTime\<close>, after the rule has been parsed.\<close>

definition recur_access :: "tm \<Rightarrow> IotvtICalPeriod \<Rightarrow> IotvtICalRecur \<Rightarrow> IotvtICalResult" where
  "recur_access now period recur =
     (if 0 \<le> DiffSecs (startDateTime period) now \<and> 0 \<le> DiffSecs now (endDateTime period)
         \<and> 0 \<le> DiffDays (startDateTime period) now
      then
        (let ret1 = (if recur_until recur \<noteq> tm_zero \<and> 0 > DiffDays now (recur_until recur)
                     then IOTVTICAL_INVALID_ACCESS else IOTVTICAL_VALID_ACCESS)
         in if recur_byDay recur \<noteq> NO_WEEKDAY
               \<and> push_bit (nat (tm_wday now)) 1 AND recur_byDay recur = 0
            then IOTVTICAL_INVALID_ACCESS else ret1)
      else IOTVTICAL_INVALID_ACCESS)"

definition IsRequestWithinValidTime ::
  "tm \<Rightarrow> string option \<Rightarrow> string option \<Rightarrow> IotvtICalResult option" where
  "IsRequestWithinValidTime now periodStr recurStr =
     (case periodStr of
        None \<Rightarrow> Some IOTVTICAL_INVALID_PARAMETER
      | Some _ \<Rightarrow>
          (case ParsePeriod periodStr of
             (IOTVTICAL_SUCCESS, Some period) \<Rightarrow>
               (case recurStr of
                  None \<Rightarrow> Some (ValidatePeriod (Some period) (Some now))
                | Some _ \<Rightarrow>
                    (case ParseRecur recurStr \<lparr>recur_freq = 0, recur_until = tm_zero, recur_byDay = 0\<rparr> of
                       None \<Rightarrow> None
                     | Some (ret, recur) \<Rightarrow>
                         if ret \<noteq> IOTVTICAL_SUCCESS then Some ret
                         else Some (recur_access now period recur)))
           | (ret, _) \<Rightarrow> Some ret))"

declare leap_loop.simps [simp del] ParseRecur_loop.simps [simp del]

section \<open>Days and moments\<close>

text \<open>A day of an existing year, and a time of day without a leap second.\<close>

definition proper_day :: "tm \<Rightarrow> bool" where
  "proper_day t \<longleftrightarrow> 0 \<le> tm_yday t \<and> tm_yday t \<le> (if is_leap_year (tm_year t) then 365 else 364)"

definition secs :: "tm \<Rightarrow> int" where
  "secs t = 3600 * tm_hour t + 60 * tm_min t + tm_sec t"

definition proper_time :: "tm \<Rightarrow> bool" where
  "proper_time t \<longleftrightarrow> 0 \<le> secs t \<and> secs t < 86400"

text \<open>Order of days and of moments, as numbers (366 slots a year).\<close>

definition day_no :: "tm \<Rightarrow> int" where
  "day_no t = 366 * tm_year t + tm_yday t"

definition moment :: "tm \<Rightarrow> int" where
  "moment t = 86400 * day_no t + secs t"

text \<open>\<open>d1\<close> is the first of January after a leap year and \<open>d2\<close> the day before.\<close>

definition new_year_gap :: "tm \<Rightarrow> tm \<Rightarrow> bool" where
  "new_year_gap d1 d2 \<longleftrightarrow> tm_year d1 = tm_year d2 + 1 \<and> tm_yday d1 = 0
     \<and> is_leap_year (tm_year d2) \<and> tm_yday d2 = 365"

lemma smod_eq_0: "x smod c = 0 \<longleftrightarrow> c dvd (x :: int)"
  by (auto simp: smod_int_alt_def sgn_0_0 dvd_eq_mod_eq_0 [symmetric])

lemma is_leap_year_iff:
  "is_leap_year y \<longleftrightarrow> (y + 1900) smod 4 = 0 \<and> ((y + 1900) smod 100 \<noteq> 0 \<or> (y + 1900) smod 400 = 0)"
proof -
  have "400 dvd x \<Longrightarrow> 4 dvd x" "100 dvd x \<Longrightarrow> 4 dvd x" for x :: int by presburger+
  then show ?thesis by (auto simp: is_leap_year_def TM_BASE_YEAR_def Let_def smod_eq_0)
qed

lemma leap_loop_step:
  "y < year2 \<Longrightarrow> leap_loop y year2 n = leap_loop (y + 1901) year2 (if is_leap_year y then n + 1 else n)"
  by (subst leap_loop.simps) (simp add: Let_def is_leap_year_iff add.assoc)

lemma leap_loop_done: "\<not> y < year2 \<Longrightarrow> leap_loop y year2 n = n"
  by (subst leap_loop.simps) simp

lemma leap_loop_ge: "leap_loop y year2 n \<ge> n"
proof (induction "nat (year2 - y)" arbitrary: y n rule: less_induct)
  case less
  show ?case
  proof (cases "y < year2")
    case True
    then have "leap_loop (y + 1901) year2 k \<ge> k" for k using less by simp
    from this [of "if is_leap_year y then n + 1 else n"] show ?thesis
      using leap_loop_step [OF True, of n] by (simp split: if_splits)
  qed (simp add: leap_loop_done)
qed

lemma leap_loop_first: "y < year2 \<Longrightarrow> is_leap_year y \<Longrightarrow> leap_loop y year2 0 \<ge> 1"
  using leap_loop_ge [of 1 "y + 1901" year2] by (simp add: leap_loop_step)

lemma DiffDays_later_year:
  assumes "proper_day d1" "proper_day d2" "tm_year d1 < tm_year d2"
  shows "0 < DiffDays d1 d2"
proof -
  have "365 * tm_year d2 - 365 * tm_year d1 \<ge> 365" using assms(3) by linarith
  moreover have "tm_yday d1 \<le> 364 + leap_loop (tm_year d1) (tm_year d2) 0"
    using assms leap_loop_first [of "tm_year d1" "tm_year d2"] leap_loop_ge [of 0 "tm_year d1" "tm_year d2"]
    by (auto simp: proper_day_def split: if_splits)
  ultimately show ?thesis using assms by (simp add: DiffDays_def proper_day_def)
qed

lemma DiffDays_earlier_year:
  assumes "proper_day d1" "proper_day d2" "tm_year d2 < tm_year d1"
  shows "DiffDays d1 d2 \<le> 0 \<and> (DiffDays d1 d2 = 0 \<longleftrightarrow> new_year_gap d1 d2)"
proof -
  have d: "DiffDays d1 d2 = tm_yday d2 - tm_yday d1 - 365 * (tm_year d1 - tm_year d2)"
    using assms by (simp add: DiffDays_def algebra_simps)
  have b: "0 \<le> tm_yday d1" "tm_yday d2 \<le> 365" "tm_yday d2 = 365 \<Longrightarrow> is_leap_year (tm_year d2)"
    using assms by (auto simp: proper_day_def split: if_splits)
  show ?thesis
  proof (cases "tm_year d1 = tm_year d2 + 1")
    case True
    then show ?thesis using b by (auto simp: d new_year_gap_def)
  next
    case False
    then have "tm_year d1 - tm_year d2 \<ge> 2" using assms(3) by linarith
    then show ?thesis using b False by (simp add: d new_year_gap_def)
  qed
qed

lemma DiffDays_sign:
  assumes "proper_day d1" "proper_day d2"
  shows "0 < DiffDays d1 d2 \<longleftrightarrow> day_no d1 < day_no d2"
    and "DiffDays d1 d2 = 0 \<longleftrightarrow> day_no d1 = day_no d2 \<or> new_year_gap d1 d2"
proof -
  have b: "0 \<le> tm_yday d1" "tm_yday d1 \<le> 365" "0 \<le> tm_yday d2" "tm_yday d2 \<le> 365"
    using assms by (auto simp: proper_day_def split: if_splits)
  consider (lt) "tm_year d1 < tm_year d2" | (eq) "tm_year d1 = tm_year d2" | (gt) "tm_year d2 < tm_year d1"
    by linarith
  then have "(0 < DiffDays d1 d2 \<longleftrightarrow> day_no d1 < day_no d2)
    \<and> (DiffDays d1 d2 = 0 \<longleftrightarrow> day_no d1 = day_no d2 \<or> new_year_gap d1 d2)"
  proof cases
    case lt
    have "day_no d1 < day_no d2" using lt b by (simp add: day_no_def)
    then show ?thesis using DiffDays_later_year [OF assms lt] lt by (auto simp: new_year_gap_def)
  next
    case eq
    then show ?thesis by (auto simp: DiffDays_def day_no_def new_year_gap_def)
  next
    case gt
    have "day_no d2 < day_no d1" using gt b by (simp add: day_no_def)
    then show ?thesis using DiffDays_earlier_year [OF assms gt] by auto
  qed
  then show "0 < DiffDays d1 d2 \<longleftrightarrow> day_no d1 < day_no d2"
    and "DiffDays d1 d2 = 0 \<longleftrightarrow> day_no d1 = day_no d2 \<or> new_year_gap d1 d2" by auto
qed

lemma moment_le:
  assumes "proper_time a" "proper_time b"
  shows "moment a \<le> moment b \<longleftrightarrow> day_no a < day_no b \<or> (day_no a = day_no b \<and> secs a \<le> secs b)"
proof -
  consider "day_no a < day_no b" | "day_no a = day_no b" | "day_no b < day_no a" by linarith
  then show ?thesis using assms by cases (auto simp: moment_def proper_time_def)
qed

section \<open>Properties of the calendar\<close>

text \<open>
  C28: without a recurrence rule, access is valid exactly from the start to the end of the period,
  both included, for every current time except two days: the first of January after a leap year
  compares as the day before it.
\<close>

theorem ValidatePeriod_correct:
  assumes "proper_day (startDateTime p)" "proper_day now" "proper_day (endDateTime p)"
    and "proper_time (startDateTime p)" "proper_time now" "proper_time (endDateTime p)"
    and "\<not> new_year_gap (startDateTime p) now" "\<not> new_year_gap now (endDateTime p)"
  shows "ValidatePeriod (Some p) (Some now) = IOTVTICAL_VALID_ACCESS \<longleftrightarrow>
     moment (startDateTime p) \<le> moment now \<and> moment now \<le> moment (endDateTime p)"
proof -
  have s: "DiffSecs a b = secs b - secs a" for a b by (simp add: DiffSecs_def secs_def)
  note m = moment_le [OF assms(4,5)] moment_le [OF assms(5,6)]
  note d = DiffDays_sign [OF assms(1,2)] DiffDays_sign [OF assms(2,3)]
  have "0 \<le> DiffDays (startDateTime p) now \<longleftrightarrow> day_no (startDateTime p) \<le> day_no now"
    "0 \<le> DiffDays now (endDateTime p) \<longleftrightarrow> day_no now \<le> day_no (endDateTime p)"
    using d assms(7,8) by (auto simp: le_less)
  then show ?thesis using d assms(7,8) by (auto simp: ValidatePeriod_def m s Let_def)
qed

definition example_tm :: "int \<Rightarrow> int \<Rightarrow> int \<Rightarrow> int \<Rightarrow> tm" where
  "example_tm year yday hour wday = tm_zero\<lparr>tm_year := year, tm_yday := yday, tm_hour := hour, tm_wday := wday\<rparr>"

theorem ValidatePeriod_correct_witness:
  "ValidatePeriod (Some \<lparr>startDateTime = example_tm 115 100 8 0, endDateTime = example_tm 117 20 9 0\<rparr>)
     (Some (example_tm 116 5 23 0)) = IOTVTICAL_VALID_ACCESS"
  using ValidatePeriod_correct [of "\<lparr>startDateTime = example_tm 115 100 8 0, endDateTime = example_tm 117 20 9 0\<rparr>"
      "example_tm 116 5 23 0"]
  by (simp add: example_tm_def tm_zero_def proper_day_def proper_time_def new_year_gap_def moment_def
      day_no_def secs_def)

text \<open>
  a period that ends on the 31st of December of a leap year is still valid on the first of
  January: at noon of 2017-01-01 an entry that was valid until 2016-12-31T23:59:59 grants access.
\<close>

lemma new_year_after_leap_year:
  "IsRequestWithinValidTime (example_tm 117 0 12 0) (Some ''20161201T000000/20161231T235959'') None
   = Some IOTVTICAL_VALID_ACCESS"
  by code_simp

section \<open>Printing and parsing dates\<close>

definition digit :: "int \<Rightarrow> char" where
  "digit n = char_of (48 + n)"

definition print2 :: "int \<Rightarrow> string" where
  "print2 n = [digit (n div 10), digit (n mod 10)]"

definition print4 :: "int \<Rightarrow> string" where
  "print4 n = [digit (n div 1000), digit (n div 100 mod 10), digit (n div 10 mod 10), digit (n mod 10)]"

text \<open>The form \<open>YYYYmmddTHHMMSS\<close>.\<close>

definition print_tm :: "tm \<Rightarrow> string" where
  "print_tm t = print4 (tm_year t + 1900) @ print2 (tm_mon t + 1) @ print2 (tm_mday t) @ ''T''
     @ print2 (tm_hour t) @ print2 (tm_min t) @ print2 (tm_sec t)"

definition valid_tm :: "tm \<Rightarrow> bool" where
  "valid_tm t \<longleftrightarrow> - 1900 \<le> tm_year t \<and> tm_year t \<le> 8099 \<and> 0 \<le> tm_mon t \<and> tm_mon t \<le> 11
     \<and> 1 \<le> tm_mday t \<and> tm_mday t \<le> 31 \<and> 0 \<le> tm_hour t \<and> tm_hour t \<le> 23
     \<and> 0 \<le> tm_min t \<and> tm_min t \<le> 59 \<and> 0 \<le> tm_sec t \<and> tm_sec t \<le> 59"

lemma of_char_digit:
  assumes "0 \<le> n" "n \<le> 9"
  shows "(of_char (digit n) :: int) = 48 + n"
  using assms by (simp add: digit_def)

lemma digit_nat:
  assumes "0 \<le> n" "n \<le> 9"
  shows "(of_char (digit n) :: nat) = 48 + nat n"
proof -
  have "int (of_char (digit n) :: nat) = of_char (digit n)" by (simp add: of_char_def)
  then show ?thesis using of_char_digit [OF assms] assms by linarith
qed

lemma digit_class:
  assumes "0 \<le> n" "n \<le> 9"
  shows "is_digit (digit n)" "\<not> is_space (digit n)" "digit n \<noteq> CHR ''-''" "digit n \<noteq> CHR ''+''"
    "digit n \<noteq> CHR ''/''"
proof -
  note d = digit_nat [OF assms]
  show "is_digit (digit n)" using d assms by (simp add: is_digit_def)
  show "\<not> is_space (digit n)" using d by (simp add: is_space_def)
  have "(of_char (digit n) :: nat) \<noteq> 45" "(of_char (digit n) :: nat) \<noteq> 43"
    "(of_char (digit n) :: nat) \<noteq> 47" using d by simp_all
  then show "digit n \<noteq> CHR ''-''" "digit n \<noteq> CHR ''+''" "digit n \<noteq> CHR ''/''" by auto
qed

lemma sscanf_digits:
  assumes "ds = map digit ns" "\<forall>n\<in>set ns. 0 \<le> n \<and> n \<le> 9" "ns \<noteq> []" "w = length ns"
  shows "sscanf_d w (ds @ rest) = foldl (\<lambda>v n. 10 * v + n) 0 ns"
proof -
  obtain n ns' where ns: "ns = n # ns'" using assms(3) by (cases ns) auto
  have "dropWhile is_space (ds @ rest) = ds @ rest"
    using assms(1,2) ns by (simp add: digit_class)
  then have t: "take w (dropWhile is_space (ds @ rest)) = ds" using assms(1,4) by simp
  have tw: "takeWhile is_digit (map digit ns') = map digit ns'"
    using assms(2) ns by (auto simp: takeWhile_eq_all_conv digit_class)
  have "foldl (\<lambda>v c. 10 * v + (of_char c - 48)) v (map digit ms) = foldl (\<lambda>v n. 10 * v + n) v ms"
    if "\<forall>m\<in>set ms. 0 \<le> m \<and> m \<le> 9" for ms and v :: int
    using that by (induction ms arbitrary: v) (auto simp: of_char_digit)
  then have "digits_value ds = foldl (\<lambda>v n. 10 * v + n) 0 ns" using assms(1,2) by (simp add: digits_value_def)
  moreover have "sscanf_d w (ds @ rest) = digits_value ds"
    unfolding sscanf_d_def t using assms(1,2) ns by (simp add: digit_class tw)
  ultimately show ?thesis by simp
qed

lemma sscanf_print2:
  assumes "0 \<le> n" "n \<le> 99"
  shows "sscanf_d 2 (print2 n @ rest) = n"
  using assms by (subst sscanf_digits [where ns = "[n div 10, n mod 10]"]) (auto simp: print2_def)

lemma sscanf_print4:
  assumes "0 \<le> n" "n \<le> 9999"
  shows "sscanf_d 4 (print4 n @ rest) = n"
proof -
  let ?ns = "[n div 1000, n div 100 mod 10, n div 10 mod 10, n mod 10]"
  have "n div 1000 \<le> 9999 div 1000" using assms(2) by (rule zdiv_mono1) simp
  moreover have "k mod 10 \<le> 9" for k :: int using pos_mod_bound [of 10 k] by linarith
  ultimately have "\<forall>k\<in>set ?ns. 0 \<le> k \<and> k \<le> 9"
    using assms(1) by (simp add: pos_imp_zdiv_nonneg_iff)
  then have "sscanf_d 4 (print4 n @ rest) = foldl (\<lambda>v n. 10 * v + n) 0 ?ns"
    by (intro sscanf_digits) (simp_all add: print4_def)
  also have "\<dots> = n"
    using zdiv_zmult2_eq [of 10 n 100] zdiv_zmult2_eq [of 10 n 10] by (simp add: mult_div_mod_eq)
  finally show ?thesis .
qed

lemma length_print [simp]: "length (print2 n) = 2" "length (print4 n) = 4"
  by (simp_all add: print2_def print4_def)

lemma strptime_print:
  assumes "valid_tm t"
  shows "strptime (print_tm t @ rest) dtFormat =
     Some (strptime_finish (t\<lparr>tm_wday := 0, tm_yday := 0\<rparr>))"
proof -
  have v: "0 \<le> tm_year t + 1900" "tm_year t + 1900 \<le> 9999" "0 \<le> tm_mon t + 1" "tm_mon t + 1 \<le> 99"
    "0 \<le> tm_mday t" "tm_mday t \<le> 99" "0 \<le> tm_hour t" "tm_hour t \<le> 99"
    "0 \<le> tm_min t" "tm_min t \<le> 99" "0 \<le> tm_sec t" "tm_sec t \<le> 99"
    using assms by (simp_all add: valid_tm_def)
  show ?thesis using assms
    by (cases t) (simp add: strptime_def dtFormat_def print_tm_def strptime_conv_def sscanf_print2 sscanf_print4 v
          valid_tm_def TM_BASE_YEAR_def tm_zero_def Let_def)
qed

lemma slash_not_in_print: "CHR ''/'' \<notin> set (print_tm t)" if "valid_tm t"
proof -
  have m: "0 \<le> n mod 10 \<and> n mod 10 \<le> 9" for n :: int using pos_mod_bound [of 10 n] by (simp; linarith)
  have p2: "CHR ''/'' \<notin> set (print2 n)" if "0 \<le> n" "n \<le> 99" for n
  proof -
    have "n div 10 \<le> 99 div 10" using that(2) by (rule zdiv_mono1) simp
    then have "CHR ''/'' \<noteq> digit (n div 10)" "CHR ''/'' \<noteq> digit (n mod 10)"
      using digit_class(5) [of "n div 10"] digit_class(5) [of "n mod 10"] m [of n] that(1)
      by (auto simp: pos_imp_zdiv_nonneg_iff)
    then show ?thesis by (simp add: print2_def)
  qed
  have "tm_year t + 1900 \<le> 9999" using that by (simp add: valid_tm_def)
  then have "(tm_year t + 1900) div 1000 \<le> 9999 div 1000" by (rule zdiv_mono1) simp
  then have "CHR ''/'' \<noteq> digit ((tm_year t + 1900) div 1000)"
    using digit_class(5) [of "(tm_year t + 1900) div 1000"] that
    by (auto simp: pos_imp_zdiv_nonneg_iff valid_tm_def)
  moreover have "CHR ''/'' \<noteq> digit (n mod 10)" for n using digit_class(5) [of "n mod 10"] m [of n] by auto
  ultimately have "CHR ''/'' \<notin> set (print4 (tm_year t + 1900))" by (simp add: print4_def)
  then show ?thesis using that by (simp add: print_tm_def p2 valid_tm_def)
qed

text \<open>
  Printing two dates in the form \<open>YYYYmmddTHHMMSS/YYYYmmddTHHMMSS\<close> and parsing them gives the
  dates back, with the day of the year and of the week computed, exactly when the first is not
  after the second; otherwise the period is refused.
\<close>

lemma ParsePeriod_print:
  assumes "valid_tm s" "valid_tm e"
  shows "ParsePeriod (Some (print_tm s @ ''/'' @ print_tm e)) =
     (if start_after_end dtFormat s e then (IOTVTICAL_INVALID_PERIOD, None)
      else (IOTVTICAL_SUCCESS, Some \<lparr>startDateTime = strptime_finish (s\<lparr>tm_wday := 0, tm_yday := 0\<rparr>),
                                    endDateTime = strptime_finish (e\<lparr>tm_wday := 0, tm_yday := 0\<rparr>)\<rparr>))"
proof -
  have c: "strchr (print_tm s @ ''/'' @ print_tm e) (CHR ''/'') = Some (''/'' @ print_tm e)"
    using slash_not_in_print [OF assms(1)] by (auto simp: strchr_Some)
  have l: "length (print_tm t) = 15" for t by (simp add: print_tm_def)
  have f: "start_after_end dtFormat (strptime_finish (s\<lparr>tm_wday := 0, tm_yday := 0\<rparr>))
      (strptime_finish (e\<lparr>tm_wday := 0, tm_yday := 0\<rparr>)) = start_after_end dtFormat s e"
    by (simp add: start_after_end_def strptime_finish_def Let_def)
  have e: "strptime (print_tm e) dtFormat = Some (strptime_finish (e\<lparr>tm_wday := 0, tm_yday := 0\<rparr>))"
    using strptime_print [OF assms(2), of "[]"] by simp
  show ?thesis
    unfolding ParsePeriod_def option.case c
    using strptime_print [OF assms(1), of "''/'' @ print_tm e"] e f l by (simp add: Let_def)
qed

lemma ParsePeriod_print_example:
  "\<exists>p. ParsePeriod (Some ''20161201T000000/20161231T235959'') = (IOTVTICAL_SUCCESS, Some p)
     \<and> tm_yday (endDateTime p) = 365"
proof -
  let ?s = "tm_zero\<lparr>tm_year := 116, tm_mon := 11, tm_mday := 1\<rparr>"
  let ?e = "tm_zero\<lparr>tm_year := 116, tm_mon := 11, tm_mday := 31, tm_hour := 23, tm_min := 59, tm_sec := 59\<rparr>"
  have v: "valid_tm ?s" "valid_tm ?e" by (simp_all add: valid_tm_def tm_zero_def)
  have p: "print_tm ?s @ ''/'' @ print_tm ?e = ''20161201T000000/20161231T235959''" by code_simp
  have "\<not> start_after_end dtFormat ?s ?e" by (simp add: start_after_end_def tm_zero_def)
  moreover have "tm_yday (strptime_finish (?e\<lparr>tm_wday := 0, tm_yday := 0\<rparr>)) = 365" by code_simp
  ultimately show ?thesis using ParsePeriod_print [OF v] unfolding p by simp
qed

section \<open>Recurrence rules\<close>

lemma copied_element:
  "snd (OICStrcpyPartial (Some buf) 50 (Some s) n) = Some (if n = 0 then buf else Some (take (min 49 n) s))"
  by (simp add: OICStrcpyPartial_def)

lemma ParseRecur_loop_defined: "ParseRecur_loop s (Some b) acc \<noteq> None"
proof (induction s "Some b" acc arbitrary: b rule: ParseRecur_loop.induct)
  case (1 s acc)
  show ?case
    by (subst ParseRecur_loop.simps)
      (use 1 in \<open>auto simp: Let_def copied_element split: sum.splits option.splits\<close>)
qed

lemma first_element_empty:
  "CalculateElementLength s (strchr s (CHR '';'')) = 0 \<longleftrightarrow> s = [] \<or> hd s = CHR '';''"
proof (cases "strchr s (CHR '';'')")
  case None
  then have "CHR '';'' \<notin> set s" by (simp add: strchr_None)
  then show ?thesis using None by (cases s) (auto simp: CalculateElementLength_def)
next
  case (Some r)
  then obtain pre rest where s: "s = pre @ CHR '';'' # rest" "CHR '';'' \<notin> set pre" "r = CHR '';'' # rest"
    by (auto simp: strchr_Some)
  then show ?thesis using Some by (cases pre) (auto simp: CalculateElementLength_def)
qed

text \<open>
  C29: the parser of recurrence rules returns on every rule except one whose first element is
  empty, for which it reads its uninitialised buffer.
\<close>

theorem ParseRecur_defined_iff:
  "(\<exists>result. ParseRecur (Some str) recur = Some result) \<longleftrightarrow> \<not> (str = [] \<or> hd str = CHR '';'')"
proof -
  have "ParseRecur_loop str None (recur, False) = None \<longleftrightarrow> str = [] \<or> hd str = CHR '';''"
    unfolding first_element_empty [symmetric]
    by (subst ParseRecur_loop.simps)
      (auto simp: Let_def copied_element ParseRecur_loop_defined [unfolded not_None_eq]
        split: sum.splits option.splits)
  then show ?thesis by (auto simp: ParseRecur_def split: option.splits sum.splits prod.splits)
qed

text \<open>
  An example of the header file: with the rule \<open>FREQ=DAILY;UNTIL=\<dots>;BYDAY=\<dots>\<close>, access is valid in the daily time window on the
  listed weekdays from the start of the period to the day given by UNTIL.
\<close>

lemma recurrence_example:
  "map (\<lambda>(yday, hour, wday). IsRequestWithinValidTime (example_tm 115 yday hour wday)
      (Some ''20150626T150000/20150626T170000'') (Some ''FREQ=DAILY; UNTIL=20150703; BYDAY=MO, WE, FR''))
     [(176, 16, 5), (177, 16, 6), (179, 16, 1), (179, 18, 1), (183, 15, 5), (186, 16, 1), (169, 16, 5)]
   = map Some [IOTVTICAL_VALID_ACCESS, IOTVTICAL_INVALID_ACCESS, IOTVTICAL_VALID_ACCESS,
       IOTVTICAL_INVALID_ACCESS, IOTVTICAL_VALID_ACCESS, IOTVTICAL_INVALID_ACCESS, IOTVTICAL_INVALID_ACCESS]"
  by code_simp

end
