(* ===== verification/PolicyEngine.thy ===== *)
theory PolicyEngine
  imports Onboarding ICalendar
begin

text \<open>
  The access decision of the security layer: \<^verbatim>\<open>resource/csdk/security/src/policyengine.c\<close> with the
  searches for access control entries of \<^verbatim>\<open>aclresource.c\<close>. A pointer to an ACE is the index of the
  entry in \<open>gAcl->aces\<close>. What the policy engine asks of other modules is the record \<open>pe_env\<close>: the
  current time, the attributes the secure transport reports for an endpoint and the roles the
  endpoint has asserted. A request whose decision would run into the undefined behaviour of the
  recurrence parser has the value \<^const>\<open>None\<close>. The build without \<open>MULTIPLE_OWNER\<close> and with DTLS is
  modelled.
\<close>

section \<open>Data types\<close>

type_synonym SRMAccessResponse = u32

definition ACCESS_GRANTED :: SRMAccessResponse where "ACCESS_GRANTED = 1"
definition ACCESS_DENIED_INVALID_PERIOD :: SRMAccessResponse where
  "ACCESS_DENIED_INVALID_PERIOD = 2 OR 64"
definition ACCESS_DENIED_INSUFFICIENT_PERMISSION :: SRMAccessResponse where
  "ACCESS_DENIED_INSUFFICIENT_PERMISSION = 2 OR 4"
definition ACCESS_DENIED_SUBJECT_NOT_FOUND :: SRMAccessResponse where
  "ACCESS_DENIED_SUBJECT_NOT_FOUND = 2 OR 8"
definition ACCESS_DENIED_RESOURCE_NOT_FOUND :: SRMAccessResponse where
  "ACCESS_DENIED_RESOURCE_NOT_FOUND = 2 OR 16"
definition ACCESS_DENIED_POLICY_ENGINE_ERROR :: SRMAccessResponse where
  "ACCESS_DENIED_POLICY_ENGINE_ERROR = 2 OR 32"

definition IsAccessGranted :: "SRMAccessResponse \<Rightarrow> bool" where
  "IsAccessGranted response = (if ACCESS_GRANTED = (response AND ACCESS_GRANTED) then True else False)"

lemmas response_defs = ACCESS_GRANTED_def ACCESS_DENIED_INVALID_PERIOD_def
  ACCESS_DENIED_INSUFFICIENT_PERMISSION_def ACCESS_DENIED_SUBJECT_NOT_FOUND_def
  ACCESS_DENIED_RESOURCE_NOT_FOUND_def ACCESS_DENIED_POLICY_ENGINE_ERROR_def

lemma IsAccessGranted_simps [simp]:
  "IsAccessGranted ACCESS_GRANTED" "\<not> IsAccessGranted ACCESS_DENIED_INVALID_PERIOD"
  "\<not> IsAccessGranted ACCESS_DENIED_INSUFFICIENT_PERMISSION"
  "\<not> IsAccessGranted ACCESS_DENIED_SUBJECT_NOT_FOUND"
  "\<not> IsAccessGranted ACCESS_DENIED_RESOURCE_NOT_FOUND"
  "\<not> IsAccessGranted ACCESS_DENIED_POLICY_ENGINE_ERROR"
  by (simp_all add: IsAccessGranted_def response_defs)

text \<open>The kinds of resources, with the values of the enumeration.\<close>

type_synonym OicSecSvrType = nat

definition OIC_RESOURCE_TYPE_ERROR :: OicSecSvrType where "OIC_RESOURCE_TYPE_ERROR = 0"
definition OIC_R_ACL_TYPE :: OicSecSvrType where "OIC_R_ACL_TYPE = 1"
definition OIC_R_AMACL_TYPE :: OicSecSvrType where "OIC_R_AMACL_TYPE = 2"
definition OIC_R_CRED_TYPE :: OicSecSvrType where "OIC_R_CRED_TYPE = 3"
definition OIC_R_CRL_TYPE :: OicSecSvrType where "OIC_R_CRL_TYPE = 4"
definition OIC_R_DOXM_TYPE :: OicSecSvrType where "OIC_R_DOXM_TYPE = 5"
definition OIC_R_PSTAT_TYPE :: OicSecSvrType where "OIC_R_PSTAT_TYPE = 8"
definition OIC_R_SACL_TYPE :: OicSecSvrType where "OIC_R_SACL_TYPE = 9"
definition OIC_R_SVC_TYPE :: OicSecSvrType where "OIC_R_SVC_TYPE = 10"
definition OIC_R_CSR_TYPE :: OicSecSvrType where "OIC_R_CSR_TYPE = 11"
definition OIC_R_ACL2_TYPE :: OicSecSvrType where "OIC_R_ACL2_TYPE = 12"
definition OIC_R_ROLES_TYPE :: OicSecSvrType where "OIC_R_ROLES_TYPE = 13"
definition OIC_SEC_SVR_TYPE_COUNT :: OicSecSvrType where "OIC_SEC_SVR_TYPE_COUNT = 14"
definition NOT_A_SVR_RESOURCE :: OicSecSvrType where "NOT_A_SVR_RESOURCE = 99"

lemmas svr_type_defs = OIC_RESOURCE_TYPE_ERROR_def OIC_R_ACL_TYPE_def OIC_R_AMACL_TYPE_def
  OIC_R_CRED_TYPE_def OIC_R_CRL_TYPE_def OIC_R_DOXM_TYPE_def OIC_R_PSTAT_TYPE_def OIC_R_SACL_TYPE_def
  OIC_R_SVC_TYPE_def OIC_R_CSR_TYPE_def OIC_R_ACL2_TYPE_def OIC_R_ROLES_TYPE_def
  OIC_SEC_SVR_TYPE_COUNT_def NOT_A_SVR_RESOURCE_def

datatype SubjectIdentityType = SUBJECT_ID_TYPE_ERROR | SUBJECT_ID_TYPE_UUID | SUBJECT_ID_TYPE_ROLE

datatype OicSecDiscoverable = DISCOVERABLE_NOT_KNOWN | DISCOVERABLE_TRUE | DISCOVERABLE_FALSE

record 'ep SRMRequestContext =
  ctx_endPoint :: "'ep option"
  ctx_resourceType :: OicSecSvrType
  ctx_resourceUri :: string
  ctx_requestedPermission :: u16
  ctx_responseVal :: SRMAccessResponse
  ctx_secureChannel :: bool
  ctx_discoverable :: OicSecDiscoverable
  ctx_subjectIdType :: SubjectIdentityType
  ctx_subjectUuid :: OicUuid

record 'ep pe_env =
  env_now :: tm
  CAGetSecureEndpointAttributes :: "'ep \<Rightarrow> u32 option"
  GetEndpointRoles :: "'ep option \<Rightarrow> OicSecRole list option"

section \<open>Requested permissions\<close>

definition PERMISSION_FULL_CONTROL :: u16 where
  "PERMISSION_FULL_CONTROL = 1 OR 2 OR 4 OR 8 OR 16"

definition GetPermissionFromCAMethod_t :: "nat \<Rightarrow> u16" where
  "GetPermissionFromCAMethod_t meth =
     (if meth = 1 then 2 else if meth = 2 then 4 else if meth = 3 then 1 else if meth = 4 then 8
      else PERMISSION_FULL_CONTROL)"

section \<open>Implicit access\<close>

definition IsRequestFromDevOwner :: "svr_state \<Rightarrow> 'ep SRMRequestContext option \<Rightarrow> bool" where
  "IsRequestFromDevOwner s context =
     (case context of
        None \<Rightarrow> False
      | Some c \<Rightarrow>
          if IsNilUuid (Some (ctx_subjectUuid c)) then False
          else (case gDoxm s of
                  Some doxm \<Rightarrow> UuidCmp (Some (doxm_owner doxm)) (Some (ctx_subjectUuid c))
                | None \<Rightarrow> False))"

definition CA_SECURE_ENDPOINT_ATTRIBUTE_ADMINISTRATOR :: u32 where
  "CA_SECURE_ENDPOINT_ATTRIBUTE_ADMINISTRATOR = 1"

definition IsRequestFromOwnershipTransferSession ::
  "'ep pe_env \<Rightarrow> 'ep SRMRequestContext option \<Rightarrow> bool" where
  "IsRequestFromOwnershipTransferSession env context =
     (case context of
        None \<Rightarrow> False
      | Some c \<Rightarrow>
          (case ctx_endPoint c of
             None \<Rightarrow> False
           | Some ep \<Rightarrow>
               (case CAGetSecureEndpointAttributes env ep of
                  None \<Rightarrow> False
                | Some attrs \<Rightarrow> attrs AND CA_SECURE_ENDPOINT_ATTRIBUTE_ADMINISTRATOR \<noteq> 0)))"

text \<open>The table of functions that read the owner of a resource, by resource type.\<close>

definition GetSvrRownerId ::
  "(svr_state \<Rightarrow> OicUuid option \<Rightarrow> OCStackResult \<times> OicUuid option) option list" where
  "GetSvrRownerId =
     [None, Some GetAclRownerId, None, Some GetCredRownerId, None, Some GetDoxmRownerId, None, None,
      Some GetPstatRownerId, None, None, None, Some GetAclRownerId, None, None]"

text \<open>
  The comparison that ends each of the four functions below; the local variable that receives the
  owner is uninitialised and is read only after a successful call.
\<close>

definition owner_is_subject :: "OCStackResult \<times> OicUuid option \<Rightarrow> OicUuid \<Rightarrow> bool" where
  "owner_is_subject res subject =
     (case res of (OC_STACK_OK, owner) \<Rightarrow> UuidCmp (Some subject) owner | _ \<Rightarrow> False)"

definition IsRequestFromResourceOwner :: "svr_state \<Rightarrow> 'ep SRMRequestContext option \<Rightarrow> bool" where
  "IsRequestFromResourceOwner s context =
     (case context of
        None \<Rightarrow> False
      | Some c \<Rightarrow>
          if ctx_subjectIdType c \<noteq> SUBJECT_ID_TYPE_UUID then False
          else if IsNilUuid (Some (ctx_subjectUuid c)) then False
          else if OIC_R_ACL_TYPE \<le> ctx_resourceType c \<and> OIC_SEC_SVR_TYPE_COUNT > ctx_resourceType c then
            (case GetSvrRownerId ! ctx_resourceType c of
               None \<Rightarrow> False
             | Some getRownerId \<Rightarrow> owner_is_subject (getRownerId s (Some [])) (ctx_subjectUuid c))
          else False)"

definition IsRequestFromDoxs :: "svr_state \<Rightarrow> 'ep SRMRequestContext option \<Rightarrow> bool" where
  "IsRequestFromDoxs s context =
     (case context of
        None \<Rightarrow> False
      | Some c \<Rightarrow>
          if ctx_subjectIdType c \<noteq> SUBJECT_ID_TYPE_UUID then False
          else if IsNilUuid (Some (ctx_subjectUuid c)) then False
          else owner_is_subject (GetDoxmRownerId s (Some [])) (ctx_subjectUuid c))"

definition IsRequestFromAms :: "svr_state \<Rightarrow> 'ep SRMRequestContext option \<Rightarrow> bool" where
  "IsRequestFromAms s context =
     (case context of
        None \<Rightarrow> False
      | Some c \<Rightarrow>
          if ctx_subjectIdType c \<noteq> SUBJECT_ID_TYPE_UUID then False
          else if IsNilUuid (Some (ctx_subjectUuid c)) then False
          else owner_is_subject (GetAclRownerId s (Some [])) (ctx_subjectUuid c))"

definition IsRequestFromCms :: "svr_state \<Rightarrow> 'ep SRMRequestContext option \<Rightarrow> bool" where
  "IsRequestFromCms s context =
     (case context of
        None \<Rightarrow> False
      | Some c \<Rightarrow>
          if ctx_subjectIdType c \<noteq> SUBJECT_ID_TYPE_UUID then False
          else if IsNilUuid (Some (ctx_subjectUuid c)) then False
          else owner_is_subject (GetCredRownerId s (Some [])) (ctx_subjectUuid c))"

section \<open>Access control entries\<close>

definition IsPermissionAllowingRequest :: "u16 \<Rightarrow> u16 \<Rightarrow> bool" where
  "IsPermissionAllowingRequest permission request = (request = (request AND permission))"

definition WILDCARD_SUBJECT_ID :: OicUuid where
  "WILDCARD_SUBJECT_ID = 42 # replicate 15 0"

definition IsWildCardSubject :: "OicUuid option \<Rightarrow> bool" where
  "IsWildCardSubject subject = (case subject of None \<Rightarrow> False | Some u \<Rightarrow> u = WILDCARD_SUBJECT_ID)"

text \<open>
  The two nested loops of \<open>IsAccessWithinValidTime\<close>. The function looks at \<open>recurrences\<close> of the first
  validity only; a NULL array with a length of 0 in a later one is an empty loop.
\<close>

fun recurrence_loop :: "tm \<Rightarrow> string option \<Rightarrow> string list \<Rightarrow> bool option" where
  "recurrence_loop now period [] = Some False"
| "recurrence_loop now period (r # rs) =
     (case IsRequestWithinValidTime now period (Some r) of
        None \<Rightarrow> None
      | Some res \<Rightarrow> if res = IOTVTICAL_VALID_ACCESS then Some True else recurrence_loop now period rs)"

fun validity_loop :: "tm \<Rightarrow> OicSecValidity list \<Rightarrow> bool option" where
  "validity_loop now [] = Some False"
| "validity_loop now (v # vs) =
     (case recurrence_loop now (val_period v)
             (case val_recurrences v of None \<Rightarrow> [] | Some rs \<Rightarrow> rs) of
        None \<Rightarrow> None
      | Some True \<Rightarrow> Some True
      | Some False \<Rightarrow> validity_loop now vs)"

definition IsAccessWithinValidTime :: "tm \<Rightarrow> OicSecAce option \<Rightarrow> bool option" where
  "IsAccessWithinValidTime now ace =
     (case ace of
        None \<Rightarrow> Some True
      | Some a \<Rightarrow>
          (case ace_validities a of
             [] \<Rightarrow> Some True
           | v # vs \<Rightarrow> if val_recurrences v = None then Some False else validity_loop now (v # vs)))"

definition WILDCARD_RESOURCE_URI :: string where "WILDCARD_RESOURCE_URI = ''*''"

fun resource_loop :: "'ep SRMRequestContext \<Rightarrow> OicSecRsrc list \<Rightarrow> bool" where
  "resource_loop c [] = False"
| "resource_loop c (rsrc # rs) =
     (case rsrc_href rsrc of
        None \<Rightarrow>
          if rsrc_wildcard rsrc \<noteq> NO_WILDCARD
             \<and> (rsrc_wildcard rsrc = ALL_RESOURCES
                \<or> (rsrc_wildcard rsrc = ALL_DISCOVERABLE \<and> ctx_discoverable c = DISCOVERABLE_TRUE)
                \<or> (rsrc_wildcard rsrc = ALL_NON_DISCOVERABLE \<and> ctx_discoverable c = DISCOVERABLE_FALSE))
          then True else resource_loop c rs
      | Some href \<Rightarrow>
          if ctx_resourceUri c = href \<or> WILDCARD_RESOURCE_URI = href then True else resource_loop c rs)"

definition IsResourceInAce :: "'ep SRMRequestContext option \<Rightarrow> OicSecAce option \<Rightarrow> bool" where
  "IsResourceInAce context ace =
     (case (context, ace) of (Some c, Some a) \<Rightarrow> resource_loop c (ace_resources a) | _ \<Rightarrow> False)"

text \<open>The new \<open>context->responseVal\<close>.\<close>

definition ProcessMatchingACE ::
  "tm \<Rightarrow> 'ep SRMRequestContext \<Rightarrow> OicSecAce \<Rightarrow> SRMAccessResponse option" where
  "ProcessMatchingACE now c currentAce =
     (if \<not> IsResourceInAce (Some c) (Some currentAce) then Some ACCESS_DENIED_RESOURCE_NOT_FOUND
      else
        (case IsAccessWithinValidTime now (Some currentAce) of
           None \<Rightarrow> None
         | Some False \<Rightarrow> Some ACCESS_DENIED_INVALID_PERIOD
         | Some True \<Rightarrow>
             if IsPermissionAllowingRequest (ace_permission currentAce) (ctx_requestedPermission c)
             then Some ACCESS_GRANTED else Some ACCESS_DENIED_INSUFFICIENT_PERMISSION))"

section \<open>Searching the list of entries\<close>

text \<open>
  \<open>begin\<close> of the three searches: the head of the list when \<open>*savePtr\<close> is NULL, else the entry after
  the one it points to (NULL, past the end, when there is none).
\<close>

definition search_begin :: "OicSecAce list \<Rightarrow> nat option \<Rightarrow> nat" where
  "search_begin aces savePtr =
     (case savePtr of
        None \<Rightarrow> 0
      | Some i \<Rightarrow> if i < length aces then Suc i else length aces)"

fun search_loop :: "(OicSecAce \<Rightarrow> bool) \<Rightarrow> OicSecAce list \<Rightarrow> nat \<Rightarrow> nat option" where
  "search_loop P [] i = None"
| "search_loop P (ace # rest) i = (if P ace then Some i else search_loop P rest (Suc i))"

text \<open>The result is the entry found, which is also the new \<open>*savePtr\<close>.\<close>

definition GetACLResourceData :: "svr_state \<Rightarrow> OicUuid option \<Rightarrow> nat option \<Rightarrow> nat option" where
  "GetACLResourceData s subjectId savePtr =
     (case (subjectId, gAcl s) of
        (Some u, Some acl) \<Rightarrow>
          (let b = search_begin (acl_aces acl) savePtr in
           search_loop (\<lambda>ace. case ace_subject ace of OicSecAceUuidSubject v \<Rightarrow> v = u | _ \<Rightarrow> False)
             (drop b (acl_aces acl)) b)
      | _ \<Rightarrow> None)"

fun role_loop :: "OicSecRole \<Rightarrow> OicSecRole list \<Rightarrow> bool" where
  "role_loop r [] = False"
| "role_loop r (x # xs) =
     (if role_id r = role_id x \<and> role_authority r = role_authority x then True else role_loop r xs)"

definition GetACLResourceDataByRoles :: "svr_state \<Rightarrow> OicSecRole list \<Rightarrow> nat option \<Rightarrow> nat option" where
  "GetACLResourceDataByRoles s roles savePtr =
     (case gAcl s of
        None \<Rightarrow> None
      | Some acl \<Rightarrow>
          if roles = [] then None
          else
            (let b = search_begin (acl_aces acl) savePtr in
             search_loop (\<lambda>ace. case ace_subject ace of OicSecAceRoleSubject r \<Rightarrow> role_loop r roles | _ \<Rightarrow> False)
               (drop b (acl_aces acl)) b))"

definition GetACLResourceDataByConntype :: "svr_state \<Rightarrow> OicSecConntype \<Rightarrow> nat option \<Rightarrow> nat option" where
  "GetACLResourceDataByConntype s conntype savePtr =
     (case gAcl s of
        None \<Rightarrow> None
      | Some acl \<Rightarrow>
          (let b = search_begin (acl_aces acl) savePtr in
           search_loop (\<lambda>ace. case ace_subject ace of OicSecAceConntypeSubject t \<Rightarrow> conntype = t | _ \<Rightarrow> False)
             (drop b (acl_aces acl)) b))"

section \<open>The decision\<close>

text \<open>
  The do-while loop that \<open>ProcessAccessRequest\<close> has three times: get the next matching entry,
  process it, and go on while there was one and access is not granted. \<open>resp\<close> is
  \<open>context->responseVal\<close>. \<^const>\<open>None\<close> stands for undefined behaviour or a loop without end.
\<close>

partial_function (option) ace_loop ::
  "(nat option \<Rightarrow> nat option) \<Rightarrow> (nat \<Rightarrow> SRMAccessResponse option) \<Rightarrow> nat option
     \<Rightarrow> SRMAccessResponse \<Rightarrow> SRMAccessResponse option" where
  "ace_loop getAce process savePtr resp =
     (case getAce savePtr of
        None \<Rightarrow> Some resp
      | Some currentAce \<Rightarrow>
          (case process currentAce of
             None \<Rightarrow> None
           | Some r \<Rightarrow> if IsAccessGranted r then Some r else ace_loop getAce process (Some currentAce) r))"

definition acl_list :: "svr_state \<Rightarrow> OicSecAce list" where
  "acl_list s = (case gAcl s of None \<Rightarrow> [] | Some acl \<Rightarrow> acl_aces acl)"

definition ProcessAccessRequest ::
  "svr_state \<Rightarrow> 'ep pe_env \<Rightarrow> 'ep SRMRequestContext \<Rightarrow> SRMAccessResponse option" where
  "ProcessAccessRequest s env c =
     (let process = (\<lambda>i. ProcessMatchingACE (env_now env) c (acl_list s ! i));
          conntype = (if ctx_secureChannel c then AUTH_CRYPT else ANON_CLEAR)
      in case ace_loop (GetACLResourceDataByConntype s conntype) process None
                ACCESS_DENIED_SUBJECT_NOT_FOUND of
           None \<Rightarrow> None
         | Some r1 \<Rightarrow>
             if IsAccessGranted r1 then Some r1
             else
               (case ace_loop (GetACLResourceData s (Some (ctx_subjectUuid c))) process None r1 of
                  None \<Rightarrow> None
                | Some r2 \<Rightarrow>
                    if IsAccessGranted r2 then Some r2
                    else
                      (case GetEndpointRoles env (ctx_endPoint c) of
                         None \<Rightarrow> Some r2
                       | Some roles \<Rightarrow> ace_loop (GetACLResourceDataByRoles s roles) process None r2)))"

definition CheckPermission ::
  "svr_state \<Rightarrow> 'ep pe_env \<Rightarrow> 'ep SRMRequestContext \<Rightarrow> 'ep SRMRequestContext option" where
  "CheckPermission s env context =
     (case GetDos s (Some \<lparr>dos_state = DOS_RESET, dos_pending = False\<rparr>) of
        (OC_STACK_OK, Some dos) \<Rightarrow>
          if IsRequestFromDevOwner s (Some context)
             \<and> (dos_state dos = DOS_RFOTM \<or> dos_state dos = DOS_SRESET)
             \<and> ctx_resourceType context \<noteq> NOT_A_SVR_RESOURCE
          then Some (context\<lparr>ctx_responseVal := ACCESS_GRANTED\<rparr>)
          else if IsRequestFromResourceOwner s (Some context)
          then Some (context\<lparr>ctx_responseVal := ACCESS_GRANTED\<rparr>)
          else if dos_state dos \<noteq> DOS_RFNOP \<and> ctx_resourceType context \<noteq> NOT_A_SVR_RESOURCE
             \<and> IsRequestFromOwnershipTransferSession env (Some context)
          then Some (context\<lparr>ctx_responseVal := ACCESS_GRANTED\<rparr>)
          else if (ctx_resourceType context = OIC_R_DOXM_TYPE \<or> ctx_resourceType context = OIC_R_PSTAT_TYPE
              \<or> ctx_resourceType context = OIC_R_CRED_TYPE \<or> ctx_resourceType context = OIC_R_ACL_TYPE)
             \<and> IsRequestFromDoxs s (Some context)
          then Some (context\<lparr>ctx_responseVal := ACCESS_GRANTED\<rparr>)
          else if ctx_resourceType context = OIC_R_PSTAT_TYPE \<and> IsRequestFromAms s (Some context)
          then Some (context\<lparr>ctx_responseVal := ACCESS_GRANTED\<rparr>)
          else if ctx_resourceType context = OIC_R_PSTAT_TYPE \<and> IsRequestFromCms s (Some context)
          then Some (context\<lparr>ctx_responseVal := ACCESS_GRANTED\<rparr>)
          else map_option (\<lambda>r. context\<lparr>ctx_responseVal := r\<rparr>)
                 (ProcessAccessRequest s env (context\<lparr>ctx_responseVal := ACCESS_DENIED_POLICY_ENGINE_ERROR\<rparr>))
      | _ \<Rightarrow> Some (context\<lparr>ctx_responseVal := ACCESS_DENIED_POLICY_ENGINE_ERROR\<rparr>))"

section \<open>Enumerating the entries of a subject\<close>

text \<open>
  The contract of the search functions: a search that starts from NULL, or from an entry it
  returned before, finds the next entry of the list that matches.
\<close>

fun process_all ::
  "('a \<Rightarrow> SRMAccessResponse option) \<Rightarrow> 'a list \<Rightarrow> SRMAccessResponse \<Rightarrow> SRMAccessResponse option" where
  "process_all f [] resp = Some resp"
| "process_all f (x # xs) resp =
     (case f x of None \<Rightarrow> None | Some r \<Rightarrow> if IsAccessGranted r then Some r else process_all f xs r)"

locale ace_iterator =
  fixes getAce :: "nat option \<Rightarrow> nat option"
    and aces :: "'a list"
    and matches :: "'a \<Rightarrow> bool"
  assumes first: "getAce None = find_index matches aces"
    and continue: "i < length aces \<Longrightarrow>
      getAce (Some i) = map_option (\<lambda>k. Suc i + k) (find_index matches (drop (Suc i) aces))"
begin

lemma filter_find_index:
  "filter matches xs = (case find_index matches xs of
     None \<Rightarrow> [] | Some k \<Rightarrow> xs ! k # filter matches (drop (Suc k) xs))"
  by (induction xs) (auto split: option.splits)

lemma loop_processes_all:
  "ace_loop getAce (\<lambda>i. f (aces ! i)) None resp = process_all f (filter matches aces) resp"
proof -
  have rest: "ace_loop getAce (\<lambda>i. f (aces ! i)) (Some i) resp
      = process_all f (filter matches (drop (Suc i) aces)) resp" if "i < length aces" for i resp
    using that
  proof (induction "length aces - i" arbitrary: i resp rule: less_induct)
    case less
    note flt = filter_find_index [of "drop (Suc i) aces"]
    show ?case
    proof (cases "find_index matches (drop (Suc i) aces)")
      case None
      then show ?thesis using flt by (subst ace_loop.simps) (simp add: continue [OF less.prems])
    next
      case (Some k)
      let ?j = "Suc i + k"
      have j: "?j < length aces" using find_index_SomeD [OF Some] by (auto simp: less_diff_conv)
      have "ace_loop getAce (\<lambda>i. f (aces ! i)) (Some ?j) r
          = process_all f (filter matches (drop (Suc ?j) aces)) r" for r
        using less j by simp
      then show ?thesis using flt Some j
        by (subst ace_loop.simps) (auto simp: continue [OF less.prems] add.commute split: option.splits)
    qed
  qed
  show ?thesis
  proof (cases "find_index matches aces")
    case None
    then show ?thesis using filter_find_index [of aces] by (subst ace_loop.simps) (simp add: first)
  next
    case (Some k)
    then show ?thesis using filter_find_index [of aces] rest [of k] find_index_SomeD [OF Some]
      by (subst ace_loop.simps) (auto simp: first split: option.splits)
  qed
qed

end

lemma search_loop_eq: "search_loop P xs b = map_option (\<lambda>k. b + k) (find_index P xs)"
proof (induction xs arbitrary: b)
  case (Cons a xs)
  then show ?case by (cases "find_index P xs") simp_all
qed simp

lemma search_from_begin:
  assumes get: "\<And>save. getAce save = (let b = search_begin xs save in search_loop P (drop b xs) b)"
  shows "ace_iterator getAce xs P"
proof unfold_locales
  show "getAce None = find_index P xs"
    by (cases "find_index P xs") (simp_all add: get search_begin_def search_loop_eq)
  show "getAce (Some i) = map_option (\<lambda>k. Suc i + k) (find_index P (drop (Suc i) xs))"
    if "i < length xs" for i
    using that by (simp add: get search_begin_def search_loop_eq del: add_Suc)
qed

text \<open>The three kinds of subjects an entry can match.\<close>

definition conn_matches :: "'ep SRMRequestContext \<Rightarrow> OicSecAce \<Rightarrow> bool" where
  "conn_matches c ace \<longleftrightarrow>
     ace_subject ace = OicSecAceConntypeSubject (if ctx_secureChannel c then AUTH_CRYPT else ANON_CLEAR)"

definition uuid_matches :: "'ep SRMRequestContext \<Rightarrow> OicSecAce \<Rightarrow> bool" where
  "uuid_matches c ace \<longleftrightarrow> ace_subject ace = OicSecAceUuidSubject (ctx_subjectUuid c)"

definition role_matches :: "OicSecRole list \<Rightarrow> OicSecAce \<Rightarrow> bool" where
  "role_matches roles ace \<longleftrightarrow> (\<exists>r\<in>set roles. ace_subject ace = OicSecAceRoleSubject r)"

lemma role_loop_iff: "role_loop r roles \<longleftrightarrow> r \<in> set roles"
  by (induction roles) (auto intro: OicSecRole.equality)

interpretation conn: ace_iterator "GetACLResourceDataByConntype s
    (if ctx_secureChannel c then AUTH_CRYPT else ANON_CLEAR)" "acl_list s" "conn_matches c"
proof (cases "gAcl s")
  case None
  then show "ace_iterator (GetACLResourceDataByConntype s (if ctx_secureChannel c then AUTH_CRYPT else ANON_CLEAR))
      (acl_list s) (conn_matches c)"
    by unfold_locales (simp_all add: acl_list_def GetACLResourceDataByConntype_def)
next
  case (Some acl)
  have "(\<lambda>ace. case ace_subject ace of OicSecAceConntypeSubject t \<Rightarrow>
      (if ctx_secureChannel c then AUTH_CRYPT else ANON_CLEAR) = t | _ \<Rightarrow> False) = conn_matches c"
    by (auto simp: fun_eq_iff conn_matches_def split: OicSecAceSubject.splits)
  then show "ace_iterator (GetACLResourceDataByConntype s (if ctx_secureChannel c then AUTH_CRYPT else ANON_CLEAR))
      (acl_list s) (conn_matches c)"
    using Some by (intro search_from_begin) (simp add: acl_list_def GetACLResourceDataByConntype_def)
qed

interpretation subj: ace_iterator "GetACLResourceData s (Some (ctx_subjectUuid c))" "acl_list s" "uuid_matches c"
proof (cases "gAcl s")
  case None
  then show "ace_iterator (GetACLResourceData s (Some (ctx_subjectUuid c))) (acl_list s) (uuid_matches c)"
    by unfold_locales (simp_all add: acl_list_def GetACLResourceData_def)
next
  case (Some acl)
  have "(\<lambda>ace. case ace_subject ace of OicSecAceUuidSubject v \<Rightarrow> v = ctx_subjectUuid c | _ \<Rightarrow> False)
      = uuid_matches c"
    by (auto simp: fun_eq_iff uuid_matches_def split: OicSecAceSubject.splits)
  then show "ace_iterator (GetACLResourceData s (Some (ctx_subjectUuid c))) (acl_list s) (uuid_matches c)"
    using Some by (intro search_from_begin) (simp add: acl_list_def GetACLResourceData_def)
qed

interpretation roles: ace_iterator "GetACLResourceDataByRoles s roles" "acl_list s" "role_matches roles"
proof (cases "gAcl s = None \<or> roles = []")
  case True
  have "find_index (role_matches []) xs = None" for xs
    by (simp add: find_index_None role_matches_def)
  then show "ace_iterator (GetACLResourceDataByRoles s roles) (acl_list s) (role_matches roles)"
    using True by unfold_locales
      (auto simp: acl_list_def GetACLResourceDataByRoles_def split: option.splits)
next
  case False
  then obtain acl where acl: "gAcl s = Some acl" by auto
  have "(\<lambda>ace. case ace_subject ace of OicSecAceRoleSubject r \<Rightarrow> role_loop r roles | _ \<Rightarrow> False)
      = role_matches roles"
    by (auto simp: fun_eq_iff role_matches_def role_loop_iff split: OicSecAceSubject.splits)
  then show "ace_iterator (GetACLResourceDataByRoles s roles) (acl_list s) (role_matches roles)"
    using acl False by (intro search_from_begin) (simp add: acl_list_def GetACLResourceDataByRoles_def)
qed

section \<open>What the decision is\<close>

text \<open>
  An entry grants a request when one of its resources covers the requested one, it is without
  validity or within one of them, and its permissions contain all requested ones.
\<close>

definition rsrc_covers :: "'ep SRMRequestContext \<Rightarrow> OicSecRsrc \<Rightarrow> bool" where
  "rsrc_covers c r \<longleftrightarrow>
     (case rsrc_href r of
        Some href \<Rightarrow> href = ctx_resourceUri c \<or> href = ''*''
      | None \<Rightarrow> rsrc_wildcard r = ALL_RESOURCES
          \<or> rsrc_wildcard r = ALL_DISCOVERABLE \<and> ctx_discoverable c = DISCOVERABLE_TRUE
          \<or> rsrc_wildcard r = ALL_NON_DISCOVERABLE \<and> ctx_discoverable c = DISCOVERABLE_FALSE)"

definition in_validity :: "tm \<Rightarrow> OicSecValidity \<Rightarrow> bool" where
  "in_validity now v \<longleftrightarrow> (\<exists>rs r. val_recurrences v = Some rs \<and> r \<in> set rs
     \<and> IsRequestWithinValidTime now (val_period v) (Some r) = Some IOTVTICAL_VALID_ACCESS)"

definition ace_grants :: "tm \<Rightarrow> 'ep SRMRequestContext \<Rightarrow> OicSecAce \<Rightarrow> bool" where
  "ace_grants now c ace \<longleftrightarrow> (\<exists>r\<in>set (ace_resources ace). rsrc_covers c r)
     \<and> (ace_validities ace = []
        \<or> val_recurrences (hd (ace_validities ace)) \<noteq> None \<and> (\<exists>v\<in>set (ace_validities ace). in_validity now v))
     \<and> {n. bit (ctx_requestedPermission c) n} \<subseteq> {n. bit (ace_permission ace) n}"

lemma resource_loop_iff: "resource_loop c rs \<longleftrightarrow> (\<exists>r\<in>set rs. rsrc_covers c r)"
proof (induction rs)
  case (Cons r rs)
  have "resource_loop c (r # rs) \<longleftrightarrow> rsrc_covers c r \<or> resource_loop c rs"
    by (cases "rsrc_href r"; cases "rsrc_wildcard r")
      (auto simp add: rsrc_covers_def WILDCARD_RESOURCE_URI_def)
  then show ?case using Cons by simp
qed simp

lemma recurrence_loop_True:
  "recurrence_loop now period rs \<noteq> None \<Longrightarrow> recurrence_loop now period rs = Some True \<longleftrightarrow>
     (\<exists>r\<in>set rs. IsRequestWithinValidTime now period (Some r) = Some IOTVTICAL_VALID_ACCESS)"
  by (induction rs) (auto split: option.splits)

lemma validity_loop_True:
  "validity_loop now vs \<noteq> None \<Longrightarrow> validity_loop now vs = Some True \<longleftrightarrow> (\<exists>v\<in>set vs. in_validity now v)"
proof (induction vs)
  case (Cons v vs)
  let ?r = "recurrence_loop now (val_period v) (case val_recurrences v of None \<Rightarrow> [] | Some rs \<Rightarrow> rs)"
  have nn: "?r \<noteq> None" using Cons.prems by (cases ?r) simp_all
  have "?r = Some True \<longleftrightarrow> in_validity now v"
    unfolding recurrence_loop_True [OF nn] by (cases "val_recurrences v") (auto simp: in_validity_def)
  then show ?case using Cons nn by (cases ?r) (auto split: bool.splits)
qed simp

lemma IsAccessWithinValidTime_True:
  assumes "IsAccessWithinValidTime now (Some ace) \<noteq> None"
  shows "IsAccessWithinValidTime now (Some ace) = Some True \<longleftrightarrow> ace_validities ace = []
    \<or> val_recurrences (hd (ace_validities ace)) \<noteq> None \<and> (\<exists>v\<in>set (ace_validities ace). in_validity now v)"
proof (cases "ace_validities ace")
  case Nil
  then show ?thesis by (simp add: IsAccessWithinValidTime_def)
next
  case (Cons v vs)
  then show ?thesis using assms validity_loop_True [of now "v # vs"]
    by (simp add: IsAccessWithinValidTime_def split: if_splits)
qed

lemma IsPermissionAllowingRequest_subset:
  "IsPermissionAllowingRequest permission request \<longleftrightarrow> {n. bit request n} \<subseteq> {n. bit permission n}"
proof -
  have "n < 16" if "bit request n" for n using bit_imp_le_length [OF that] by simp
  then show ?thesis unfolding IsPermissionAllowingRequest_def bit_eq_iff by (auto simp: bit_and_iff)
qed

definition subject_matches :: "'ep pe_env \<Rightarrow> 'ep SRMRequestContext \<Rightarrow> OicSecAce \<Rightarrow> bool" where
  "subject_matches env c ace \<longleftrightarrow> conn_matches c ace \<or> uuid_matches c ace
     \<or> (case GetEndpointRoles env (ctx_endPoint c) of
          None \<Rightarrow> False | Some roles \<Rightarrow> role_matches roles ace)"

text \<open>No validity rule of the list runs into the undefined behaviour of the rule parser.\<close>

definition times_defined :: "tm \<Rightarrow> OicSecAce list \<Rightarrow> bool" where
  "times_defined now aces \<longleftrightarrow> (\<forall>ace\<in>set aces. IsAccessWithinValidTime now (Some ace) \<noteq> None)"

lemma ProcessMatchingACE_grants:
  assumes "IsAccessWithinValidTime now (Some ace) \<noteq> None"
  shows "\<exists>r. ProcessMatchingACE now c ace = Some r \<and> (IsAccessGranted r \<longleftrightarrow> ace_grants now c ace)"
proof -
  have "ace_grants now c ace \<longleftrightarrow> IsResourceInAce (Some c) (Some ace)
      \<and> IsAccessWithinValidTime now (Some ace) = Some True
      \<and> IsPermissionAllowingRequest (ace_permission ace) (ctx_requestedPermission c)"
    unfolding ace_grants_def IsAccessWithinValidTime_True [OF assms] IsPermissionAllowingRequest_subset
    by (simp add: IsResourceInAce_def resource_loop_iff)
  then show ?thesis using assms by (auto simp: ProcessMatchingACE_def split: option.splits bool.splits)
qed

lemma process_all_grants:
  assumes "\<forall>ace\<in>set aces. IsAccessWithinValidTime now (Some ace) \<noteq> None"
  shows "\<exists>r. process_all (ProcessMatchingACE now c) aces resp = Some r
     \<and> (IsAccessGranted r \<longleftrightarrow> (\<exists>ace\<in>set aces. ace_grants now c ace) \<or> aces = [] \<and> IsAccessGranted resp)"
  using assms
proof (induction aces arbitrary: resp)
  case (Cons ace aces)
  obtain r where r: "ProcessMatchingACE now c ace = Some r" "IsAccessGranted r \<longleftrightarrow> ace_grants now c ace"
    using ProcessMatchingACE_grants [of now ace c] Cons.prems by auto
  obtain r' where "process_all (ProcessMatchingACE now c) aces r = Some r'"
    "IsAccessGranted r' \<longleftrightarrow> (\<exists>ace\<in>set aces. ace_grants now c ace) \<or> aces = [] \<and> IsAccessGranted r"
    using Cons by (metis list.set_intros(2))
  with r show ?case by auto
qed simp

lemma ProcessAccessRequest_grants:
  assumes "times_defined (env_now env) (acl_list s)"
  shows "\<exists>r. ProcessAccessRequest s env c = Some r
     \<and> (IsAccessGranted r \<longleftrightarrow> (\<exists>ace\<in>set (acl_list s). subject_matches env c ace \<and> ace_grants (env_now env) c ace))"
proof -
  let ?now = "env_now env" and ?f = "ProcessMatchingACE (env_now env) c"
  have pg: "\<exists>r. process_all ?f (filter P (acl_list s)) resp = Some r
     \<and> (IsAccessGranted r \<longleftrightarrow> (\<exists>ace\<in>set (acl_list s). P ace \<and> ace_grants ?now c ace)
          \<or> filter P (acl_list s) = [] \<and> IsAccessGranted resp)" for P resp
    using process_all_grants [of "filter P (acl_list s)" ?now c resp] assms by (auto simp: times_defined_def)
  obtain r1 where r1: "process_all ?f (filter (conn_matches c) (acl_list s)) ACCESS_DENIED_SUBJECT_NOT_FOUND = Some r1"
    "IsAccessGranted r1 \<longleftrightarrow> (\<exists>ace\<in>set (acl_list s). conn_matches c ace \<and> ace_grants ?now c ace)"
    using pg [of "conn_matches c" ACCESS_DENIED_SUBJECT_NOT_FOUND] by auto
  obtain r2 where r2: "process_all ?f (filter (uuid_matches c) (acl_list s)) r1 = Some r2"
    "\<not> IsAccessGranted r1 \<Longrightarrow>
      IsAccessGranted r2 \<longleftrightarrow> (\<exists>ace\<in>set (acl_list s). uuid_matches c ace \<and> ace_grants ?now c ace)"
    using pg [of "uuid_matches c" r1] by auto
  have r3: "\<exists>r3. process_all ?f (filter (role_matches rs) (acl_list s)) r2 = Some r3
    \<and> (\<not> IsAccessGranted r2 \<longrightarrow>
       (IsAccessGranted r3 \<longleftrightarrow> (\<exists>ace\<in>set (acl_list s). role_matches rs ace \<and> ace_grants ?now c ace)))" for rs
    using pg [of "role_matches rs" r2] by auto
  show ?thesis
  proof (cases "GetEndpointRoles env (ctx_endPoint c)")
    case None
    then show ?thesis using r1 r2
      by (auto simp: ProcessAccessRequest_def Let_def conn.loop_processes_all subj.loop_processes_all
          subject_matches_def)
  next
    case (Some rs)
    then show ?thesis using r1 r2 r3 [of rs]
      by (auto simp: ProcessAccessRequest_def Let_def conn.loop_processes_all subj.loop_processes_all
          roles.loop_processes_all subject_matches_def)
  qed
qed

section \<open>Specification of the implicit access rules\<close>

text \<open>The owner of a security resource, if it has one and is initialised.\<close>

definition rowner_of :: "svr_state \<Rightarrow> OicSecSvrType \<Rightarrow> OicUuid option" where
  "rowner_of s t =
     (if t = OIC_R_ACL_TYPE \<or> t = OIC_R_ACL2_TYPE then map_option acl_rownerID (gAcl s)
      else if t = OIC_R_CRED_TYPE then Some (gRownerId s)
      else if t = OIC_R_DOXM_TYPE then map_option doxm_rownerID (gDoxm s)
      else if t = OIC_R_PSTAT_TYPE then map_option pstat_rownerID (gPstat s)
      else None)"

text \<open>The subject is a known, non-nil UUID.\<close>

definition known_subject :: "'ep SRMRequestContext \<Rightarrow> bool" where
  "known_subject c \<longleftrightarrow> ctx_subjectIdType c = SUBJECT_ID_TYPE_UUID \<and> ctx_subjectUuid c \<noteq> THE_NIL_UUID"

definition device_owner :: "svr_state \<Rightarrow> 'ep SRMRequestContext \<Rightarrow> bool" where
  "device_owner s c \<longleftrightarrow> ctx_subjectUuid c \<noteq> THE_NIL_UUID
     \<and> (\<exists>d. gDoxm s = Some d \<and> doxm_owner d = ctx_subjectUuid c)"

text \<open>The transport reports the administrator attribute for the endpoint of the request.\<close>

definition admin_session :: "'ep pe_env \<Rightarrow> 'ep SRMRequestContext \<Rightarrow> bool" where
  "admin_session env c \<longleftrightarrow> (\<exists>ep attrs. ctx_endPoint c = Some ep
     \<and> CAGetSecureEndpointAttributes env ep = Some attrs \<and> bit attrs 0)"

definition implicit_access ::
  "svr_state \<Rightarrow> 'ep pe_env \<Rightarrow> OicSecDeviceOnboardingState \<Rightarrow> 'ep SRMRequestContext \<Rightarrow> bool" where
  "implicit_access s env st c \<longleftrightarrow>
     (device_owner s c \<and> st \<in> {DOS_RFOTM, DOS_SRESET} \<and> ctx_resourceType c \<noteq> NOT_A_SVR_RESOURCE)
   \<or> (known_subject c \<and> rowner_of s (ctx_resourceType c) = Some (ctx_subjectUuid c))
   \<or> (st \<noteq> DOS_RFNOP \<and> ctx_resourceType c \<noteq> NOT_A_SVR_RESOURCE
        \<and> admin_session env c)
   \<or> (known_subject c \<and> rowner_of s OIC_R_DOXM_TYPE = Some (ctx_subjectUuid c)
        \<and> ctx_resourceType c \<in> {OIC_R_DOXM_TYPE, OIC_R_PSTAT_TYPE, OIC_R_CRED_TYPE, OIC_R_ACL_TYPE})
   \<or> (known_subject c \<and> ctx_resourceType c = OIC_R_PSTAT_TYPE
        \<and> Some (ctx_subjectUuid c) \<in> {rowner_of s OIC_R_ACL_TYPE, rowner_of s OIC_R_CRED_TYPE})"

lemma IsRequestFromDevOwner_iff: "IsRequestFromDevOwner s (Some c) \<longleftrightarrow> device_owner s c"
  by (auto simp: IsRequestFromDevOwner_def device_owner_def IsNilUuid_def UuidCmp_def split: option.splits)

lemma IsRequestFromOwnershipTransferSession_iff:
  "IsRequestFromOwnershipTransferSession env (Some c) \<longleftrightarrow> admin_session env c"
  using and_exp_eq_0_iff_not_bit [where 'a = u32, of _ 0]
  by (auto simp: IsRequestFromOwnershipTransferSession_def admin_session_def
      CA_SECURE_ENDPOINT_ATTRIBUTE_ADMINISTRATOR_def split: option.splits)

lemma owner_is_subject_read_field:
  "owner_is_subject (read_field g f (Some [])) u \<longleftrightarrow> map_option f g = Some u"
  by (auto simp: owner_is_subject_def read_field_def UuidCmp_def split: option.splits)

lemma IsRequestFromServices_iff:
  "IsRequestFromDoxs s (Some c) \<longleftrightarrow> known_subject c \<and> rowner_of s OIC_R_DOXM_TYPE = Some (ctx_subjectUuid c)"
  "IsRequestFromAms s (Some c) \<longleftrightarrow> known_subject c \<and> rowner_of s OIC_R_ACL_TYPE = Some (ctx_subjectUuid c)"
  "IsRequestFromCms s (Some c) \<longleftrightarrow> known_subject c \<and> rowner_of s OIC_R_CRED_TYPE = Some (ctx_subjectUuid c)"
  by (auto simp: IsRequestFromDoxs_def IsRequestFromAms_def IsRequestFromCms_def known_subject_def
      rowner_of_def svr_type_defs IsNilUuid_def UuidCmp_def GetDoxmRownerId_def GetAclRownerId_def
      GetCredRownerId_def owner_is_subject_read_field owner_is_subject_def [of "(_, _)"])

lemma IsRequestFromResourceOwner_iff:
  "IsRequestFromResourceOwner s (Some c) \<longleftrightarrow>
     known_subject c \<and> rowner_of s (ctx_resourceType c) = Some (ctx_subjectUuid c)"
proof (cases "ctx_resourceType c \<in> {1..<14}")
  case True
  then have "ctx_resourceType c \<in> set [1, 2, 3, 4, 5, 6, 7, 8, 9, 10, 11, 12, 13]"
    by simp presburger
  then show ?thesis
    by (auto simp: IsRequestFromResourceOwner_def known_subject_def IsNilUuid_def UuidCmp_def
        rowner_of_def svr_type_defs GetSvrRownerId_def GetDoxmRownerId_def GetAclRownerId_def
        GetPstatRownerId_def GetCredRownerId_def owner_is_subject_read_field owner_is_subject_def [of "(_, _)"])
next
  case False
  then show ?thesis
    by (auto simp: IsRequestFromResourceOwner_def rowner_of_def svr_type_defs)
qed

lemma CheckPermission_eq:
  assumes "gPstat s = Some p"
  shows "CheckPermission s env c =
     (if implicit_access s env (dos_state (pstat_dos p)) c then Some (c\<lparr>ctx_responseVal := ACCESS_GRANTED\<rparr>)
      else map_option (\<lambda>r. c\<lparr>ctx_responseVal := r\<rparr>)
             (ProcessAccessRequest s env (c\<lparr>ctx_responseVal := ACCESS_DENIED_POLICY_ENGINE_ERROR\<rparr>)))"
proof -
  have dos: "GetDos s (Some \<lparr>dos_state = DOS_RESET, dos_pending = False\<rparr>) = (OC_STACK_OK, Some (pstat_dos p))"
    using assms by (simp add: GetDos_def GetPstatDosS_def GetPstatDosP_def read_field_def)
  have if_or: "(if a then x else if b then x else y) = (if a \<or> b then x else y)"
    for a b and x y :: "'ep SRMRequestContext option" by simp
  let ?grant = "(IsRequestFromDevOwner s (Some c)
        \<and> (dos_state (pstat_dos p) = DOS_RFOTM \<or> dos_state (pstat_dos p) = DOS_SRESET)
        \<and> ctx_resourceType c \<noteq> NOT_A_SVR_RESOURCE)
      \<or> IsRequestFromResourceOwner s (Some c)
      \<or> (dos_state (pstat_dos p) \<noteq> DOS_RFNOP \<and> ctx_resourceType c \<noteq> NOT_A_SVR_RESOURCE
          \<and> IsRequestFromOwnershipTransferSession env (Some c))
      \<or> ((ctx_resourceType c = OIC_R_DOXM_TYPE \<or> ctx_resourceType c = OIC_R_PSTAT_TYPE
          \<or> ctx_resourceType c = OIC_R_CRED_TYPE \<or> ctx_resourceType c = OIC_R_ACL_TYPE)
          \<and> IsRequestFromDoxs s (Some c))
      \<or> (ctx_resourceType c = OIC_R_PSTAT_TYPE \<and> IsRequestFromAms s (Some c))
      \<or> (ctx_resourceType c = OIC_R_PSTAT_TYPE \<and> IsRequestFromCms s (Some c))"
  have "?grant \<longleftrightarrow> implicit_access s env (dos_state (pstat_dos p)) c"
    unfolding implicit_access_def IsRequestFromDevOwner_iff IsRequestFromResourceOwner_iff
      IsRequestFromOwnershipTransferSession_iff IsRequestFromServices_iff insert_iff empty_iff eq_commute [of "Some (ctx_subjectUuid c)"] by argo
  moreover have "CheckPermission s env c = (if ?grant then Some (c\<lparr>ctx_responseVal := ACCESS_GRANTED\<rparr>)
      else map_option (\<lambda>r. c\<lparr>ctx_responseVal := r\<rparr>)
             (ProcessAccessRequest s env (c\<lparr>ctx_responseVal := ACCESS_DENIED_POLICY_ENGINE_ERROR\<rparr>)))"
    unfolding CheckPermission_def dos by (simp only: prod.case option.case OCStackResult.case if_or)
  ultimately show ?thesis by simp
qed

section \<open>Properties\<close>

lemma subject_matches_responseVal [simp]:
  "subject_matches env (c\<lparr>ctx_responseVal := r\<rparr>) ace = subject_matches env c ace"
  by (simp add: subject_matches_def conn_matches_def uuid_matches_def)

lemma ace_grants_responseVal [simp]: "ace_grants now (c\<lparr>ctx_responseVal := r\<rparr>) ace = ace_grants now c ace"
  by (simp add: ace_grants_def rsrc_covers_def cong: option.case_cong)

lemma CheckPermission_decides:
  assumes "gPstat s = Some p" and "times_defined (env_now env) (acl_list s)"
  shows "\<exists>r. CheckPermission s env c = Some (c\<lparr>ctx_responseVal := r\<rparr>)
     \<and> (IsAccessGranted r \<longleftrightarrow> implicit_access s env (dos_state (pstat_dos p)) c
          \<or> (\<exists>ace\<in>set (acl_list s). subject_matches env c ace \<and> ace_grants (env_now env) c ace))"
proof (cases "implicit_access s env (dos_state (pstat_dos p)) c")
  case True
  then show ?thesis
    by (intro exI [of _ ACCESS_GRANTED]) (simp add: CheckPermission_eq [OF assms(1)])
next
  case False
  let ?c = "c\<lparr>ctx_responseVal := ACCESS_DENIED_POLICY_ENGINE_ERROR\<rparr>"
  obtain r where "ProcessAccessRequest s env ?c = Some r"
    "IsAccessGranted r \<longleftrightarrow> (\<exists>ace\<in>set (acl_list s). subject_matches env ?c ace \<and> ace_grants (env_now env) ?c ace)"
    using ProcessAccessRequest_grants [OF assms(2), of ?c] by blast
  then show ?thesis using False
    by (intro exI [of _ r]) (simp add: CheckPermission_eq [OF assms(1)])
qed

text \<open>
  C6: the decision is complete and sound: on every request the policy engine ends with a decision,
  and it grants access exactly when one of the implicit rules applies (device owner during
  ownership transfer or soft reset, owner of the resource, ownership transfer session outside normal
  operation, the services that own /doxm, /acl2 and /cred) or some access control entry that matches
  the connection, the subject or an asserted role covers the resource, is within its validity and
  contains every requested permission.
\<close>

theorem CheckPermission_grants_iff:
  assumes "gPstat s = Some p" and "times_defined (env_now env) (acl_list s)"
  shows "\<exists>r. CheckPermission s env c = Some (c\<lparr>ctx_responseVal := r\<rparr>)
     \<and> (IsAccessGranted r \<longleftrightarrow> implicit_access s env (dos_state (pstat_dos p)) c
          \<or> (\<exists>ace\<in>set (acl_list s). subject_matches env c ace \<and> ace_grants (env_now env) c ace))"
  using assms by (rule CheckPermission_decides)

definition example_env :: "nat pe_env" where
  "example_env = \<lparr>env_now = tm_zero, CAGetSecureEndpointAttributes = (\<lambda>_. None),
     GetEndpointRoles = (\<lambda>_. Some [])\<rparr>"

definition example_ctx :: "nat SRMRequestContext" where
  "example_ctx = \<lparr>ctx_endPoint = Some 1, ctx_resourceType = NOT_A_SVR_RESOURCE, ctx_resourceUri = ''/a/light'',
     ctx_requestedPermission = 2, ctx_responseVal = 0, ctx_secureChannel = True,
     ctx_discoverable = DISCOVERABLE_TRUE, ctx_subjectIdType = SUBJECT_ID_TYPE_UUID,
     ctx_subjectUuid = example_uuid\<rparr>"

definition example_ace :: "u16 \<Rightarrow> OicSecAce" where
  "example_ace perm = \<lparr>ace_subject = OicSecAceUuidSubject example_uuid,
     ace_resources = [\<lparr>rsrc_href = Some ''/a/light'', rsrc_rel = None, rsrc_types = [], rsrc_interfaces = [],
                       rsrc_wildcard = NO_WILDCARD\<rparr>],
     ace_permission = perm, ace_validities = [], ace_aceid = 1\<rparr>"

definition example_acl_svr :: svr_state where
  "example_acl_svr = example_svr\<lparr>gAcl := Some \<lparr>acl_rownerID = example_uuid, acl_aces = [example_ace 6]\<rparr>\<rparr>"

lemma example_acl_facts:
  "acl_list example_acl_svr = [example_ace 6]" "\<exists>p. gPstat example_acl_svr = Some p"
  "times_defined now [example_ace 6]"
  by (simp_all add: acl_list_def example_acl_svr_def example_svr_def times_defined_def
      IsAccessWithinValidTime_def example_ace_def)

lemma example_ace_grants: "subject_matches example_env example_ctx (example_ace 6)"
  "ace_grants (env_now example_env) example_ctx (example_ace 6)"
proof -
  show "subject_matches example_env example_ctx (example_ace 6)"
    by (simp add: subject_matches_def uuid_matches_def example_ctx_def example_ace_def)
  have "IsPermissionAllowingRequest 6 2" by (simp add: IsPermissionAllowingRequest_def)
  then show "ace_grants (env_now example_env) example_ctx (example_ace 6)"
    unfolding ace_grants_def IsPermissionAllowingRequest_subset [symmetric]
    by (simp add: example_ctx_def example_ace_def rsrc_covers_def)
qed

theorem CheckPermission_grants_iff_witness:
  "\<exists>r. CheckPermission example_acl_svr example_env example_ctx = Some (example_ctx\<lparr>ctx_responseVal := r\<rparr>)
     \<and> IsAccessGranted r"
proof -
  obtain p where p: "gPstat example_acl_svr = Some p" using example_acl_facts(2) by blast
  have t: "times_defined (env_now example_env) (acl_list example_acl_svr)"
    by (simp add: example_acl_facts)
  from CheckPermission_grants_iff [OF p t, of example_ctx]
  show ?thesis using example_ace_grants by (auto simp: example_acl_facts)
qed

text \<open>
  A resource that is not a security resource is reachable only through an access control entry:
  no owner or onboarding state gives implicit access to it.
\<close>

lemma ordinary_resource_needs_ace:
  assumes "gPstat s = Some p" and "times_defined (env_now env) (acl_list s)"
    and "ctx_resourceType c = NOT_A_SVR_RESOURCE" and "CheckPermission s env c = Some c'"
  shows "IsAccessGranted (ctx_responseVal c') \<longleftrightarrow>
     (\<exists>ace\<in>set (acl_list s). subject_matches env c ace \<and> ace_grants (env_now env) c ace)"
proof -
  have "\<not> implicit_access s env (dos_state (pstat_dos p)) c"
    using assms(3) by (simp add: implicit_access_def rowner_of_def svr_type_defs)
  with CheckPermission_decides [OF assms(1,2), of c] assms(4) show ?thesis by auto
qed

lemma ordinary_resource_needs_ace_example:
  "\<exists>c'. CheckPermission example_acl_svr example_env example_ctx = Some c' \<and> IsAccessGranted (ctx_responseVal c')"
proof -
  obtain p where p: "gPstat example_acl_svr = Some p" using example_acl_facts(2) by blast
  have t: "times_defined (env_now example_env) (acl_list example_acl_svr)"
    by (simp add: example_acl_facts)
  obtain c' where c': "CheckPermission example_acl_svr example_env example_ctx = Some c'"
    using CheckPermission_decides [OF p t, of example_ctx] by auto
  have "ctx_resourceType example_ctx = NOT_A_SVR_RESOURCE" by (simp add: example_ctx_def)
  from ordinary_resource_needs_ace [OF p t this c'] c' show ?thesis
    using example_ace_grants by (auto simp: example_acl_facts)
qed

text \<open>
  A requester without an identity (nil UUID) that does not come from an ownership transfer
  session gets nothing implicitly: it is granted access only by an entry for its kind of connection,
  for the nil UUID or for a role.
\<close>

lemma anonymous_needs_ace:
  assumes "gPstat s = Some p" and "times_defined (env_now env) (acl_list s)"
    and "ctx_subjectUuid c = THE_NIL_UUID" and "\<not> admin_session env c"
    and "CheckPermission s env c = Some c'"
  shows "IsAccessGranted (ctx_responseVal c') \<longleftrightarrow>
     (\<exists>ace\<in>set (acl_list s). subject_matches env c ace \<and> ace_grants (env_now env) c ace)"
proof -
  have "\<not> implicit_access s env (dos_state (pstat_dos p)) c"
    using assms(3,4) by (simp add: implicit_access_def device_owner_def known_subject_def)
  with CheckPermission_decides [OF assms(1,2), of c] assms(5) show ?thesis by auto
qed

lemma anonymous_needs_ace_example:
  "\<exists>c'. CheckPermission example_svr example_env
          (example_ctx\<lparr>ctx_subjectUuid := THE_NIL_UUID, ctx_resourceType := OIC_R_DOXM_TYPE\<rparr>) = Some c'
     \<and> \<not> IsAccessGranted (ctx_responseVal c')"
proof -
  let ?c = "example_ctx\<lparr>ctx_subjectUuid := THE_NIL_UUID, ctx_resourceType := OIC_R_DOXM_TYPE\<rparr>"
  obtain p where p: "gPstat example_svr = Some p" by (simp add: example_svr_def)
  have l: "acl_list example_svr = []" by (simp add: example_svr_def acl_list_def)
  have t: "times_defined (env_now example_env) (acl_list example_svr)" by (simp add: l times_defined_def)
  obtain c' where c': "CheckPermission example_svr example_env ?c = Some c'"
    using CheckPermission_decides [OF p t, of ?c] by auto
  have "ctx_subjectUuid ?c = THE_NIL_UUID" "\<not> admin_session example_env ?c"
    by (simp_all add: example_ctx_def example_env_def admin_session_def)
  from anonymous_needs_ace [OF p t this c'] c' show ?thesis by (simp add: l)
qed

text \<open>
  the permission test is inclusion of bit sets, and for the four known methods the requested
  set has exactly one permission; any other method asks for full control.
\<close>

lemma permission_is_inclusion:
  "(IsPermissionAllowingRequest permission request \<longleftrightarrow> {n. bit request n} \<subseteq> {n. bit permission n})
   \<and> map (\<lambda>m. {n. bit (GetPermissionFromCAMethod_t m) n}) [1, 2, 3, 4] = [{1}, {2}, {0}, {3}]
   \<and> {n. bit (GetPermissionFromCAMethod_t (m + 5)) n} = {0, 1, 2, 3, 4}"
proof (intro conjI)
  show "IsPermissionAllowingRequest permission request \<longleftrightarrow> {n. bit request n} \<subseteq> {n. bit permission n}"
    by (rule IsPermissionAllowingRequest_subset)
  have b: "bit (2 ^ k :: u16) n \<longleftrightarrow> n = k" if "k < 16" for k n using that by (auto simp: bit_exp_iff)
  have e: "bit (1 :: u16) n \<longleftrightarrow> n = 0" "bit (2 :: u16) n \<longleftrightarrow> n = 1" "bit (4 :: u16) n \<longleftrightarrow> n = 2"
    "bit (8 :: u16) n \<longleftrightarrow> n = 3" "bit (16 :: u16) n \<longleftrightarrow> n = 4" for n
    using b [of 0 n] b [of 1 n] b [of 2 n] b [of 3 n] b [of 4 n] by simp_all
  show "map (\<lambda>m. {n. bit (GetPermissionFromCAMethod_t m) n}) [1, 2, 3, 4] = [{1}, {2}, {0}, {3}]"
  proof -
    have "GetPermissionFromCAMethod_t 1 = 2" "GetPermissionFromCAMethod_t 2 = 4"
      "GetPermissionFromCAMethod_t 3 = 1" "GetPermissionFromCAMethod_t 4 = 8"
      by (simp_all add: GetPermissionFromCAMethod_t_def)
    moreover have "Collect (bit (1 :: u16)) = {0}" "Collect (bit (2 :: u16)) = {1}"
      "Collect (bit (4 :: u16)) = {2}" "Collect (bit (8 :: u16)) = {3}"
      by (rule set_eqI, simp only: mem_Collect_eq e insert_iff empty_iff simp_thms)+
    ultimately show ?thesis by (simp only: list.map)
  qed
  have "GetPermissionFromCAMethod_t (m + 5) = PERMISSION_FULL_CONTROL"
    by (simp add: GetPermissionFromCAMethod_t_def)
  then show "{n. bit (GetPermissionFromCAMethod_t (m + 5)) n} = {0, 1, 2, 3, 4}"
    unfolding PERMISSION_FULL_CONTROL_def by (auto simp only: bit_or_iff e mem_Collect_eq insert_iff empty_iff)
qed

text \<open>
  the service that owns /doxm is announced as having implicit access to /acl2, but the rule
  tests for the type of the older /acl: for a request to /acl2 from a subject that owns only /doxm,
  on a device in normal operation with an empty access control list, access is denied.
\<close>

lemma doxs_denied_on_acl2:
  "map (\<lambda>t. map_option (\<lambda>c. IsAccessGranted (ctx_responseVal c))
      (CheckPermission
        (example_svr\<lparr>gPstat := map_option (\<lambda>p. p\<lparr>pstat_dos := \<lparr>dos_state = DOS_RFNOP, dos_pending = False\<rparr>\<rparr>)
             (gPstat example_svr),
           gAcl := Some \<lparr>acl_rownerID = THE_NIL_UUID, acl_aces = []\<rparr>\<rparr>)
        example_env (example_ctx\<lparr>ctx_resourceType := t\<rparr>)))
     [OIC_R_ACL_TYPE, OIC_R_ACL2_TYPE] = [Some True, Some False]"
proof -
  let ?s = "example_svr\<lparr>gPstat := map_option (\<lambda>p. p\<lparr>pstat_dos := \<lparr>dos_state = DOS_RFNOP, dos_pending = False\<rparr>\<rparr>)
             (gPstat example_svr),
           gAcl := Some \<lparr>acl_rownerID = THE_NIL_UUID, acl_aces = []\<rparr>\<rparr>"
  obtain p where p: "gPstat ?s = Some p" "dos_state (pstat_dos p) = DOS_RFNOP"
    by (simp add: example_svr_def)
  have l: "acl_list ?s = []" by (simp add: acl_list_def)
  have g: "map_option (\<lambda>c. IsAccessGranted (ctx_responseVal c)) (CheckPermission ?s example_env c)
      = Some (implicit_access ?s example_env DOS_RFNOP c)" for c
    using CheckPermission_decides [OF p(1), of example_env c] p(2) by (auto simp: l times_defined_def)
  have i: "implicit_access ?s example_env DOS_RFNOP (example_ctx\<lparr>ctx_resourceType := OIC_R_ACL_TYPE\<rparr>)"
    "\<not> implicit_access ?s example_env DOS_RFNOP (example_ctx\<lparr>ctx_resourceType := OIC_R_ACL2_TYPE\<rparr>)"
    using example_uuid_not_nil
    by (simp_all add: implicit_access_def known_subject_def rowner_of_def svr_type_defs example_ctx_def
      example_svr_def admin_session_def)
  show ?thesis unfolding list.map g using i by simp
qed

end
