(* ===== verification/CATypes.thy ===== *)
theory CATypes
  imports Prelude
begin

text \<open>
  Types of the connectivity abstraction that several components share
  (\<^verbatim>\<open>resource/csdk/connectivity/api/cacommon.h\<close>): endpoints and message types, and the accessors of the
  fixed CoAP header in \<^verbatim>\<open>connectivity/src/caprotocolmessage.c\<close>. The header is the four bytes of RFC 7252:
  version, type and token length in the first byte, the code in the second, the message id in the
  last two, which the code reads in the byte order of the host (little endian).
\<close>

record CAEndpoint =
  ep_adapter :: u32
  ep_flags :: u32
  ep_port :: u16
  ep_addr :: string
  ep_ifindex :: u32
  ep_remoteId :: string
  ep_routeData :: "u8 list"

record CAHeaderOption =
  ho_protocolID :: u32
  ho_optionID :: u16
  ho_optionLength :: u16
  ho_optionData :: "u8 list"

datatype OCMethod =
    OC_REST_NOMETHOD | OC_REST_GET | OC_REST_PUT | OC_REST_POST | OC_REST_DELETE | OC_REST_OBSERVE
  | OC_REST_OBSERVE_ALL | OC_REST_PRESENCE | OC_REST_DISCOVER

datatype OCMode = OC_CLIENT | OC_SERVER | OC_CLIENT_SERVER | OC_GATEWAY

definition CA_MAX_HEADER_OPTION_DATA_LENGTH :: nat where "CA_MAX_HEADER_OPTION_DATA_LENGTH = 1024"
definition MAX_URI_LENGTH :: nat where "MAX_URI_LENGTH = 256"
definition sizeof_CAHeaderOption :: nat where "sizeof_CAHeaderOption = 1032"
definition CA_SECURE :: u32 where "CA_SECURE = 16"
definition OC_DISCOVERABLE :: u32 where "OC_DISCOVERABLE = 1"

datatype CAMessageType = CA_MSG_CONFIRM | CA_MSG_NONCONFIRM | CA_MSG_ACKNOWLEDGE | CA_MSG_RESET

definition CA_PDU_MIN_SIZE :: nat where "CA_PDU_MIN_SIZE = 4"

definition msg_type_of :: "u8 \<Rightarrow> CAMessageType" where
  "msg_type_of b =
     (let t = drop_bit 4 b AND 3 in
      if t = 0 then CA_MSG_CONFIRM else if t = 1 then CA_MSG_NONCONFIRM
      else if t = 2 then CA_MSG_ACKNOWLEDGE else CA_MSG_RESET)"

text \<open>The PDU is given by its bytes; the \<open>size\<close> argument of the C functions is its length.\<close>

definition CAGetMessageTypeFromPduBinaryData :: "u8 list option \<Rightarrow> CAMessageType" where
  "CAGetMessageTypeFromPduBinaryData pdu =
     (case pdu of
        None \<Rightarrow> CA_MSG_NONCONFIRM
      | Some bs \<Rightarrow> if length bs < CA_PDU_MIN_SIZE then CA_MSG_NONCONFIRM else msg_type_of (bs ! 0))"

definition CAGetMessageIdFromPduBinaryData :: "u8 list option \<Rightarrow> u16" where
  "CAGetMessageIdFromPduBinaryData pdu =
     (case pdu of
        None \<Rightarrow> 0
      | Some bs \<Rightarrow> if length bs < CA_PDU_MIN_SIZE then 0
          else ucast (bs ! 2) OR push_bit 8 (ucast (bs ! 3)))"

text \<open>The code as the decimal number class times 100 plus detail; 404 is \<open>CA_NOT_FOUND\<close>, 0 is \<open>CA_EMPTY\<close>.\<close>

definition CAGetCodeFromPduBinaryData :: "u8 list option \<Rightarrow> nat" where
  "CAGetCodeFromPduBinaryData pdu =
     (case pdu of
        None \<Rightarrow> 404
      | Some bs \<Rightarrow> if length bs < CA_PDU_MIN_SIZE then 404
          else unat (drop_bit 5 (bs ! 1)) * 100 + unat ((bs ! 1) AND 31))"

text \<open>An endpoint for the examples of the development.\<close>

definition example_peer :: CAEndpoint where
  "example_peer = \<lparr>ep_adapter = 1, ep_flags = 16, ep_port = 5683, ep_addr = ''10.0.0.3'', ep_ifindex = 0,
     ep_remoteId = [], ep_routeData = replicate 66 0\<rparr>"

end
