(* ===== verification/SecureResourceManager.thy ===== *)
theory SecureResourceManager
  imports PolicyEngine CATypes
begin

text \<open>
  The entry point of the security layer, \<^verbatim>\<open>resource/csdk/security/src/secureresourcemanager.c\<close>: a request
  that arrives from the connectivity layer is put into the request context, checked by the policy
  engine and then either handed to the registered request handler or answered with an error. What
  the layer does to the outside is a trace of events; the results of \<open>CASendResponse\<close> are given by
  the environment. The resource table is asked through \<open>FindResourceByUri\<close>, a parameter that gives
  the properties of the resource with a URI.
\<close>

section \<open>Requests, endpoints and events\<close>

record SrmRequestInfo =
  req_method :: nat
  req_resourceUri :: "string option"
  req_identity :: "u8 list"

datatype CAResponseResult = CA_EMPTY | CA_UNAUTHORIZED_REQ | CA_INTERNAL_SERVER_ERROR

datatype srm_event =
  PassedToHandler CAEndpoint SrmRequestInfo
| ResponseSent CAEndpoint CAResponseResult

record srm_state =
  srm_handlers :: bool
  srm_events :: "srm_event list"
  srm_send_results :: "CAResult list"

text \<open>The members of the context that only this file uses, beside the context of the policy engine.\<close>

record srm_context =
  sc_context :: "CAEndpoint SRMRequestContext"
  sc_requestInfo :: "SrmRequestInfo option"
  sc_result :: CAResponseResult
  sc_responseSent :: bool


section \<open>URIs of the security resources\<close>

text \<open>The comparisons of \<open>GetSvrTypeFromUri\<close>, in the order of the code.\<close>

definition svr_uri_table :: "(string \<times> OicSecSvrType) list" where
  "svr_uri_table =
     [(''/oic/sec/acl'', OIC_R_ACL_TYPE), (''/oic/sec/acl2'', OIC_R_ACL2_TYPE),
      (''/oic/sec/amacl'', OIC_R_AMACL_TYPE), (''/oic/sec/cred'', OIC_R_CRED_TYPE),
      (''/oic/sec/crl'', OIC_R_CRL_TYPE), (''/oic/sec/csr'', OIC_R_CSR_TYPE),
      (''/oic/sec/doxm'', OIC_R_DOXM_TYPE), (''/oic/sec/pstat'', OIC_R_PSTAT_TYPE),
      (''/oic/sec/roles'', OIC_R_ROLES_TYPE), (''/oic/sec/svc'', OIC_R_SVC_TYPE),
      (''/oic/sec/sacl'', OIC_R_SACL_TYPE)]"

text \<open>The length of the URI without its query.\<close>

definition uri_length :: "string \<Rightarrow> nat" where
  "uri_length uri =
     (case strchr uri (CHR ''?'') of Some query \<Rightarrow> length uri - length query | None \<Rightarrow> length uri)"

fun svr_uri_loop :: "string \<Rightarrow> (string \<times> OicSecSvrType) list \<Rightarrow> OicSecSvrType" where
  "svr_uri_loop uri [] = NOT_A_SVR_RESOURCE"
| "svr_uri_loop uri ((svr, t) # rest) =
     (if uri_length uri = length svr \<and> take (length svr) uri = svr then t else svr_uri_loop uri rest)"

definition GetSvrTypeFromUri :: "string option \<Rightarrow> OicSecSvrType" where
  "GetSvrTypeFromUri uri = (case uri of None \<Rightarrow> NOT_A_SVR_RESOURCE | Some u \<Rightarrow> svr_uri_loop u svr_uri_table)"

definition security_uris :: "string list" where
  "security_uris =
     [''/oic/sec/svc'', ''/oic/sec/amacl'', ''/oic/sec/crl'', ''/oic/sec/cred'', ''/oic/sec/csr'',
      ''/oic/sec/acl'', ''/oic/sec/acl2'', ''/oic/sec/doxm'', ''/oic/sec/pstat'', ''/oic/sec/ver'',
      ''/oic/sec/roles'', ''/oic/credprov/crl'']"

fun security_uri_loop :: "string \<Rightarrow> string list \<Rightarrow> bool" where
  "security_uri_loop uri [] = False"
| "security_uri_loop uri (svr # rest) =
     (if uri_length uri = length svr \<and> take (length svr) uri = svr then True else security_uri_loop uri rest)"

definition SRMIsSecurityResourceURI :: "string option \<Rightarrow> bool" where
  "SRMIsSecurityResourceURI uri = (case uri of None \<Rightarrow> False | Some u \<Rightarrow> security_uri_loop u security_uris)"

section \<open>Filling the request context\<close>

definition ClearRequestContext :: "srm_context" where
  "ClearRequestContext = \<lparr>
     sc_context = \<lparr>ctx_endPoint = None, ctx_resourceType = OIC_RESOURCE_TYPE_ERROR, ctx_resourceUri = [],
       ctx_requestedPermission = 0, ctx_responseVal = ACCESS_DENIED_POLICY_ENGINE_ERROR,
       ctx_secureChannel = False, ctx_discoverable = DISCOVERABLE_NOT_KNOWN,
       ctx_subjectIdType = SUBJECT_ID_TYPE_ERROR, ctx_subjectUuid = THE_NIL_UUID\<rparr>,
     sc_requestInfo = None, sc_result = CA_EMPTY, sc_responseSent = False\<rparr>"

definition isRequestOverSecureChannel :: "CAEndpoint \<Rightarrow> CAEndpoint SRMRequestContext \<Rightarrow> bool" where
  "isRequestOverSecureChannel endPoint c =
     (if ep_flags endPoint AND CA_SECURE \<noteq> 0 then True
      else if ctx_subjectIdType c = SUBJECT_ID_TYPE_UUID \<and> ctx_subjectUuid c \<noteq> THE_NIL_UUID then True
      else False)"

definition SetResourceUriAndType ::
  "SrmRequestInfo option \<Rightarrow> CAEndpoint SRMRequestContext \<Rightarrow> CAEndpoint SRMRequestContext" where
  "SetResourceUriAndType requestInfo c =
     (case requestInfo of
        None \<Rightarrow> c
      | Some req \<Rightarrow>
          (case req_resourceUri req of
             None \<Rightarrow> c
           | Some uri \<Rightarrow>
               (let position = uri_length uri in
                if MAX_URI_LENGTH < position then c
                else
                  (let uri' = (case snd (OICStrcpyPartial (Some (Some (ctx_resourceUri c)))
                                    (MAX_URI_LENGTH + 1) (Some uri) position) of
                                 Some (Some u) \<Rightarrow> u | _ \<Rightarrow> ctx_resourceUri c)
                   in c\<lparr>ctx_resourceUri := uri', ctx_resourceType := GetSvrTypeFromUri (Some uri')\<rparr>))))"

definition SetDiscoverable ::
  "(string \<Rightarrow> u32 option) \<Rightarrow> CAEndpoint SRMRequestContext \<Rightarrow> CAEndpoint SRMRequestContext" where
  "SetDiscoverable FindResourceByUri c =
     (case FindResourceByUri (ctx_resourceUri c) of
        None \<Rightarrow> c\<lparr>ctx_discoverable := DISCOVERABLE_NOT_KNOWN\<rparr>
      | Some properties \<Rightarrow>
          if OC_DISCOVERABLE = properties AND OC_DISCOVERABLE
          then c\<lparr>ctx_discoverable := DISCOVERABLE_TRUE\<rparr>
          else c\<lparr>ctx_discoverable := DISCOVERABLE_FALSE\<rparr>)"

section \<open>Responses\<close>

definition next_send :: "srm_state \<Rightarrow> CAResult \<times> srm_state" where
  "next_send st = (case srm_send_results st of
     [] \<Rightarrow> (CA_STATUS_OK, st) | r # rs \<Rightarrow> (r, st\<lparr>srm_send_results := rs\<rparr>))"

definition SRMSendResponse :: "srm_state \<Rightarrow> srm_context \<Rightarrow> srm_state \<times> srm_context" where
  "SRMSendResponse st sc =
     (case (sc_requestInfo sc, ctx_endPoint (sc_context sc)) of
        (Some _, Some ep) \<Rightarrow>
          (let (r, st1) = next_send st in
           if r = CA_STATUS_OK
           then (st1\<lparr>srm_events := srm_events st1 @ [ResponseSent ep (sc_result sc)]\<rparr>, sc\<lparr>sc_responseSent := True\<rparr>)
           else (st1, sc))
      | _ \<Rightarrow> (st, sc))"

definition SRMGenerateResponse :: "srm_state \<Rightarrow> srm_context \<Rightarrow> srm_state \<times> srm_context" where
  "SRMGenerateResponse st sc =
     (if IsAccessGranted (ctx_responseVal (sc_context sc)) then
        (case (srm_handlers st, ctx_endPoint (sc_context sc), sc_requestInfo sc) of
           (True, Some ep, Some req) \<Rightarrow>
             (st\<lparr>srm_events := srm_events st @ [PassedToHandler ep req]\<rparr>, sc\<lparr>sc_responseSent := True\<rparr>)
         | _ \<Rightarrow>
             SRMSendResponse st
               (sc\<lparr>sc_context := (sc_context sc)\<lparr>ctx_responseVal := ACCESS_DENIED_POLICY_ENGINE_ERROR\<rparr>,
                   sc_result := CA_INTERNAL_SERVER_ERROR\<rparr>))
      else SRMSendResponse st (sc\<lparr>sc_result := CA_UNAUTHORIZED_REQ\<rparr>))"

section \<open>The request handler\<close>

definition build_context ::
  "(string \<Rightarrow> u32 option) \<Rightarrow> CAEndpoint \<Rightarrow> SrmRequestInfo \<Rightarrow> srm_context" where
  "build_context FindResourceByUri endPoint req =
     (let sc = ClearRequestContext;
          c1 = (sc_context sc)\<lparr>ctx_endPoint := Some endPoint,
                 ctx_requestedPermission := GetPermissionFromCAMethod_t (req_method req),
                 ctx_subjectIdType := SUBJECT_ID_TYPE_UUID,
                 ctx_subjectUuid := take 16 (req_identity req)\<rparr>;
          c2 = c1\<lparr>ctx_secureChannel := isRequestOverSecureChannel endPoint c1\<rparr>;
          c3 = SetResourceUriAndType (Some req) c2;
          c4 = SetDiscoverable FindResourceByUri c3
      in sc\<lparr>sc_context := c4, sc_requestInfo := Some req, sc_result := CA_INTERNAL_SERVER_ERROR\<rparr>)"

definition SRMRequestHandler ::
  "(string \<Rightarrow> u32 option) \<Rightarrow> svr_state \<Rightarrow> CAEndpoint pe_env \<Rightarrow> srm_state
     \<Rightarrow> CAEndpoint option \<Rightarrow> SrmRequestInfo option \<Rightarrow> (srm_state \<times> srm_context) option" where
  "SRMRequestHandler FindResourceByUri s env st endPoint requestInfo =
     (case (endPoint, requestInfo) of
        (Some ep, Some req) \<Rightarrow>
          (let sc = build_context FindResourceByUri ep req in
           case CheckPermission s env (sc_context sc) of
             None \<Rightarrow> None
           | Some c \<Rightarrow> Some (SRMGenerateResponse st (sc\<lparr>sc_context := c\<rparr>)))
      | _ \<Rightarrow> Some (st, ClearRequestContext))"

definition SRMRegisterHandler :: "srm_state \<Rightarrow> bool \<Rightarrow> bool \<Rightarrow> bool \<Rightarrow> OCStackResult \<times> srm_state" where
  "SRMRegisterHandler st reqHandler respHandler errHandler =
     (if \<not> reqHandler \<or> \<not> respHandler \<or> \<not> errHandler then (OC_STACK_INVALID_PARAM, st)
      else (OC_STACK_OK, st\<lparr>srm_handlers := True\<rparr>))"

section \<open>Properties\<close>

lemma build_context_fields [simp]:
  "ctx_endPoint (sc_context (build_context f ep req)) = Some ep"
  "sc_requestInfo (build_context f ep req) = Some req"
  "ctx_subjectUuid (sc_context (build_context f ep req)) = take 16 (req_identity req)"
  "ctx_requestedPermission (sc_context (build_context f ep req)) = GetPermissionFromCAMethod_t (req_method req)"
  by (simp_all add: build_context_def SetDiscoverable_def SetResourceUriAndType_def Let_def
      split: option.splits)

definition srm_grants ::
  "svr_state \<Rightarrow> CAEndpoint pe_env \<Rightarrow> OicSecPstat \<Rightarrow> CAEndpoint SRMRequestContext \<Rightarrow> bool" where
  "srm_grants s env p c \<longleftrightarrow> implicit_access s env (dos_state (pstat_dos p)) c
     \<or> (\<exists>ace\<in>set (acl_list s). subject_matches env c ace \<and> ace_grants (env_now env) c ace)"

lemma SRMRequestHandler_events:
  assumes "gPstat s = Some p" and "times_defined (env_now env) (acl_list s)" and "srm_handlers st"
  shows "\<exists>st' sc'. SRMRequestHandler f s env st (Some ep) (Some req) = Some (st', sc')
     \<and> srm_events st' = srm_events st @
         (if srm_grants s env p (sc_context (build_context f ep req)) then [PassedToHandler ep req]
          else if fst (next_send st) = CA_STATUS_OK then [ResponseSent ep CA_UNAUTHORIZED_REQ] else [])"
proof -
  let ?sc = "build_context f ep req" and ?c = "sc_context (build_context f ep req)"
  obtain r where r: "CheckPermission s env ?c = Some (?c\<lparr>ctx_responseVal := r\<rparr>)"
    "IsAccessGranted r \<longleftrightarrow> srm_grants s env p ?c"
    using CheckPermission_decides [OF assms(1,2), of ?c] by (auto simp: srm_grants_def)
  have ev: "srm_events (snd (next_send st)) = srm_events st"
    by (simp add: next_send_def split: list.splits)
  show ?thesis
  proof (cases "IsAccessGranted r")
    case True
    then show ?thesis using r assms(3) by (simp add: SRMRequestHandler_def SRMGenerateResponse_def Let_def)
  next
    case False
    then show ?thesis using r ev
      by (cases "next_send st")
        (simp add: SRMRequestHandler_def SRMGenerateResponse_def SRMSendResponse_def Let_def)
  qed
qed

text \<open>
  C7: complete mediation. A request reaches the request handler of the stack exactly when the
  policy grants it; a request that is denied is answered with \<open>CA_UNAUTHORIZED_REQ\<close> (if the response
  can be sent) and nothing else happens.
\<close>

theorem SRMRequestHandler_mediates:
  assumes "gPstat s = Some p" and "times_defined (env_now env) (acl_list s)" and "srm_handlers st"
  shows "\<exists>st' sc'. SRMRequestHandler f s env st (Some ep) (Some req) = Some (st', sc')
     \<and> srm_events st' = srm_events st @
         (if srm_grants s env p (sc_context (build_context f ep req)) then [PassedToHandler ep req]
          else if fst (next_send st) = CA_STATUS_OK then [ResponseSent ep CA_UNAUTHORIZED_REQ] else [])"
  using assms by (rule SRMRequestHandler_events)

definition example_req :: SrmRequestInfo where
  "example_req = \<lparr>req_method = 1, req_resourceUri = Some ''/a/light?if=x'', req_identity = example_uuid\<rparr>"

theorem SRMRequestHandler_mediates_witness:
  "\<exists>st' sc'. SRMRequestHandler (\<lambda>_. None) example_svr
       \<lparr>env_now = tm_zero, CAGetSecureEndpointAttributes = (\<lambda>_. None), GetEndpointRoles = (\<lambda>_. Some [])\<rparr>
       \<lparr>srm_handlers = True, srm_events = [], srm_send_results = []\<rparr>
       (Some example_peer) (Some example_req) = Some (st', sc') \<and> length (srm_events st') = 1"
proof -
  obtain p where p: "gPstat example_svr = Some p" by (simp add: example_svr_def)
  have t: "times_defined (env_now \<lparr>env_now = tm_zero, CAGetSecureEndpointAttributes = (\<lambda>_. None),
      GetEndpointRoles = (\<lambda>_. Some [])\<rparr>) (acl_list example_svr)"
    by (simp add: times_defined_def acl_list_def example_svr_def)
  have h: "srm_handlers \<lparr>srm_handlers = True, srm_events = [], srm_send_results = []\<rparr>" by simp
  from SRMRequestHandler_mediates [OF p t h, of "\<lambda>_. None" example_peer example_req]
  show ?thesis by (auto simp: next_send_def)
qed

lemma uri_length_query: "CHR ''?'' \<notin> set u \<Longrightarrow> uri_length (u @ ''?'' @ q) = length u"
proof -
  assume u: "CHR ''?'' \<notin> set u"
  then have "strchr (u @ ''?'' @ q) (CHR ''?'') = Some (''?'' @ q)" by (auto simp: strchr_Some)
  then show ?thesis by (simp add: uri_length_def)
qed

lemma uri_length_plain: "CHR ''?'' \<notin> set u \<Longrightarrow> uri_length u = length u"
  by (simp add: uri_length_def strchr_None [THEN iffD2])

lemma svr_uri_loop_eq:
  assumes "uri_length v = length u" "take (length u) v = u"
  shows "svr_uri_loop v tbl = (case map_of tbl u of Some t \<Rightarrow> t | None \<Rightarrow> NOT_A_SVR_RESOURCE)"
proof (induction tbl)
  case (Cons x tbl)
  obtain svr t where x: "x = (svr, t)" by fastforce
  have "length u = length svr \<and> take (length svr) v = svr \<longleftrightarrow> u = svr" using assms(2) by auto
  then show ?case using Cons assms(1) by (simp add: x)
qed simp

text \<open>
  The type of a resource is found from its path alone: a query string does not change it, and a
  path that is not literally one of the URIs of the security resources is an ordinary resource.
\<close>

lemma GetSvrTypeFromUri_path:
  assumes "CHR ''?'' \<notin> set path"
  shows "GetSvrTypeFromUri (Some (path @ ''?'' @ query)) = GetSvrTypeFromUri (Some path)
    \<and> GetSvrTypeFromUri (Some path) =
        (case map_of svr_uri_table path of Some t \<Rightarrow> t | None \<Rightarrow> NOT_A_SVR_RESOURCE)"
  using svr_uri_loop_eq [of "path @ ''?'' @ query" path] svr_uri_loop_eq [of path path]
    uri_length_query [OF assms] uri_length_plain [OF assms]
  by (simp add: GetSvrTypeFromUri_def)

lemma GetSvrTypeFromUri_path_example:
  "GetSvrTypeFromUri (Some (''/oic/sec/cred'' @ ''?'' @ ''id=1'')) = OIC_R_CRED_TYPE"
  using GetSvrTypeFromUri_path [of "''/oic/sec/cred''" "''id=1''"] by (simp add: svr_uri_table_def)

end
