(* ===== verification/ULinklist.thy ===== *)
theory ULinklist
  imports Prelude
begin

text \<open>
  The singly linked list of \<^verbatim>\<open>resource/csdk/connectivity/common/src/ulinklist.c\<close>, at the level of
  its pointers: nodes live in a heap, iterators are node addresses, and the walks of the code
  follow \<open>next\<close>. A walk over a damaged list may dereference a bad pointer or never end; both are
  \<^const>\<open>None\<close>. The theorems show that on well-formed lists every operation returns and acts as the
  obvious operation on HOL lists, which is how the routing tables see their lists.
\<close>

section \<open>State\<close>

type_synonym addr = nat

record 'a node =
  nd_data :: 'a
  nd_next :: "addr option"

type_synonym 'a heap = "addr \<Rightarrow> 'a node option"

record 'a u_linklist =
  ll_heap :: "'a heap"
  ll_list :: "addr option"
  ll_size :: u32

definition sizeof_u_linklist :: nat where
  "sizeof_u_linklist = 16"

definition sizeof_u_linklist_data :: nat where
  "sizeof_u_linklist_data = 16"

section \<open>Operations\<close>

definition u_linklist_create :: "mem \<Rightarrow> 'a u_linklist option \<times> mem" where
  "u_linklist_create m =
     (case OICMalloc m sizeof_u_linklist of
        (False, m1) \<Rightarrow> (None, m1)
      | (True, m1) \<Rightarrow> (Some \<lparr>ll_heap = (\<lambda>_. None), ll_list = None, ll_size = 0\<rparr>, m1))"

text \<open>The argument \<open>a\<close> is the address a successful allocation returns.\<close>

definition u_linklist_add_head ::
  "mem \<Rightarrow> addr \<Rightarrow> 'a u_linklist option \<Rightarrow> 'a option \<Rightarrow> CAResult \<times> 'a u_linklist option \<times> mem" where
  "u_linklist_add_head m a linklist d =
     (case linklist of
        None \<Rightarrow> (CA_STATUS_INVALID_PARAM, None, m)
      | Some l \<Rightarrow>
          (case d of
             None \<Rightarrow> (CA_STATUS_INVALID_PARAM, Some l, m)
           | Some x \<Rightarrow>
               (case OICMalloc m sizeof_u_linklist_data of
                  (False, m1) \<Rightarrow> (CA_MEMORY_ALLOC_FAILED, Some l, m1)
                | (True, m1) \<Rightarrow>
                    (CA_STATUS_OK,
                     Some (l\<lparr>ll_heap := (ll_heap l)(a \<mapsto> \<lparr>nd_data = x, nd_next = ll_list l\<rparr>),
                             ll_list := Some a, ll_size := ll_size l + 1\<rparr>), m1))))"

partial_function (option) last_node :: "'a heap \<Rightarrow> addr \<Rightarrow> addr option" where
  "last_node h p =
     (case h p of
        None \<Rightarrow> None
      | Some n \<Rightarrow> (case nd_next n of None \<Rightarrow> Some p | Some q \<Rightarrow> last_node h q))"

definition u_linklist_add ::
  "mem \<Rightarrow> addr \<Rightarrow> 'a u_linklist option \<Rightarrow> 'a option
     \<Rightarrow> (CAResult \<times> 'a u_linklist option \<times> mem) option" where
  "u_linklist_add m a linklist d =
     (case linklist of
        None \<Rightarrow> Some (CA_STATUS_INVALID_PARAM, None, m)
      | Some l \<Rightarrow>
          (case d of
             None \<Rightarrow> Some (CA_STATUS_INVALID_PARAM, Some l, m)
           | Some x \<Rightarrow>
               (case OICMalloc m sizeof_u_linklist_data of
                  (False, m1) \<Rightarrow> Some (CA_MEMORY_ALLOC_FAILED, Some l, m1)
                | (True, m1) \<Rightarrow>
                    (let h = (ll_heap l)(a \<mapsto> \<lparr>nd_data = x, nd_next = None\<rparr>) in
                     case ll_list l of
                       None \<Rightarrow>
                         Some (CA_STATUS_OK,
                               Some (l\<lparr>ll_heap := h, ll_list := Some a, ll_size := ll_size l + 1\<rparr>), m1)
                     | Some node \<Rightarrow>
                         (case last_node h node of
                            None \<Rightarrow> None
                          | Some p \<Rightarrow>
                              (case h p of
                                 None \<Rightarrow> None
                               | Some n \<Rightarrow>
                                   Some (CA_STATUS_OK,
                                         Some (l\<lparr>ll_heap := h(p \<mapsto> n\<lparr>nd_next := Some a\<rparr>),
                                                 ll_size := ll_size l + 1\<rparr>), m1)))))))"

text \<open>The loop of \<open>u_linklist_free\<close>: it counts \<open>size\<close> down and stops early on an empty chain.\<close>

fun free_loop :: "nat \<Rightarrow> 'a u_linklist \<Rightarrow> (bool \<times> 'a u_linklist) option" where
  "free_loop 0 l = Some (True, l)"
| "free_loop (Suc n) l =
     (case ll_list l of
        None \<Rightarrow> Some (False, l)
      | Some p \<Rightarrow>
          (case ll_heap l p of
             None \<Rightarrow> None
           | Some nd \<Rightarrow>
               free_loop n (l\<lparr>ll_heap := (ll_heap l)(p := None), ll_list := nd_next nd,
                              ll_size := ll_size l - 1\<rparr>)))"

definition u_linklist_free ::
  "'a u_linklist option option \<Rightarrow> (CAResult \<times> 'a u_linklist option option) option" where
  "u_linklist_free linklist =
     (case linklist of
        None \<Rightarrow> Some (CA_STATUS_INVALID_PARAM, None)
      | Some None \<Rightarrow> Some (CA_STATUS_OK, Some None)
      | Some (Some l) \<Rightarrow>
          (case free_loop (unat (ll_size l)) l of
             None \<Rightarrow> None
           | Some (False, l') \<Rightarrow> Some (CA_STATUS_FAILED, Some (Some l'))
           | Some (True, _) \<Rightarrow> Some (CA_STATUS_OK, Some None)))"

partial_function (option) find_prev :: "'a heap \<Rightarrow> addr \<Rightarrow> addr \<Rightarrow> (addr \<times> 'a node) option" where
  "find_prev h it prev =
     (case h prev of
        None \<Rightarrow> None
      | Some n \<Rightarrow>
          (case nd_next n of
             None \<Rightarrow> Some (prev, n)
           | Some q \<Rightarrow> if q = it then Some (prev, n) else find_prev h it q))"

text \<open>\<open>iter\<close> is \<open>*iter\<close>; the NULL test on \<open>iter\<close> itself is the outer option.\<close>

definition u_linklist_remove ::
  "'a u_linklist option \<Rightarrow> addr option option
     \<Rightarrow> (CAResult \<times> 'a u_linklist option \<times> addr option option) option" where
  "u_linklist_remove linklist iter =
     (case linklist of
        None \<Rightarrow> Some (CA_STATUS_INVALID_PARAM, None, iter)
      | Some l \<Rightarrow>
          (case iter of
             None \<Rightarrow> Some (CA_STATUS_INVALID_PARAM, Some l, None)
           | Some None \<Rightarrow> Some (CA_STATUS_INVALID_PARAM, Some l, Some None)
           | Some (Some it) \<Rightarrow>
               if ll_list l = Some it then
                 (case ll_heap l it of
                    None \<Rightarrow> None
                  | Some n \<Rightarrow>
                      Some (CA_STATUS_OK,
                            Some (l\<lparr>ll_heap := (ll_heap l)(it := None), ll_list := nd_next n,
                                    ll_size := ll_size l - 1\<rparr>),
                            Some (nd_next n)))
               else
                 (case ll_list l of
                    None \<Rightarrow> None
                  | Some first \<Rightarrow>
                      (case find_prev (ll_heap l) it first of
                         None \<Rightarrow> None
                       | Some (prev, pn) \<Rightarrow>
                           (case nd_next pn of
                              None \<Rightarrow> Some (CA_STATUS_FAILED, Some l, iter)
                            | Some q \<Rightarrow>
                                (case ll_heap l q of
                                   None \<Rightarrow> None
                                 | Some qn \<Rightarrow>
                                     Some (CA_STATUS_OK,
                                       Some (l\<lparr>ll_heap := ((ll_heap l)(prev \<mapsto> pn\<lparr>nd_next := nd_next qn\<rparr>))
                                                 (it := None),
                                               ll_size := ll_size l - 1\<rparr>),
                                       Some (nd_next qn))))))))"

definition u_linklist_length :: "'a u_linklist option \<Rightarrow> u32" where
  "u_linklist_length linklist = (case linklist of None \<Rightarrow> 0 | Some l \<Rightarrow> ll_size l)"

definition u_linklist_init_iterator ::
  "'a u_linklist option \<Rightarrow> addr option option \<Rightarrow> addr option option" where
  "u_linklist_init_iterator linklist iter =
     (case (linklist, iter) of (Some l, Some _) \<Rightarrow> Some (ll_list l) | _ \<Rightarrow> iter)"

text \<open>The heap stands for the memory the iterator points into.\<close>

definition u_linklist_get_data :: "'a heap \<Rightarrow> addr option \<Rightarrow> 'a option" where
  "u_linklist_get_data h iter =
     (case iter of None \<Rightarrow> None | Some p \<Rightarrow> map_option nd_data (h p))"

text \<open>
  \<open>u_linklist_get_next\<close> moves \<open>*iter\<close> and returns the data there. It checks \<open>iter\<close> only, so a
  NULL \<open>*iter\<close> is dereferenced (\<^const>\<open>None\<close>).
\<close>

definition u_linklist_get_next ::
  "'a heap \<Rightarrow> addr option option \<Rightarrow> ('a option \<times> addr option option) option" where
  "u_linklist_get_next h iter =
     (case iter of
        None \<Rightarrow> Some (None, None)
      | Some None \<Rightarrow> None
      | Some (Some p) \<Rightarrow>
          (case h p of
             None \<Rightarrow> None
           | Some n \<Rightarrow>
               (case nd_next n of
                  None \<Rightarrow> Some (None, Some None)
                | Some q \<Rightarrow> map_option (\<lambda>qn. (Some (nd_data qn), Some (Some q))) (h q))))"

section \<open>Well-formed lists and their abstraction\<close>

fun chain :: "'a heap \<Rightarrow> addr option \<Rightarrow> addr list \<Rightarrow> bool" where
  "chain h None ps = (ps = [])"
| "chain h (Some p) [] = False"
| "chain h (Some p) (q # qs) =
     (p = q \<and> (case h p of None \<Rightarrow> False | Some n \<Rightarrow> chain h (nd_next n) qs))"

definition ll_wf :: "'a u_linklist \<Rightarrow> addr list \<Rightarrow> bool" where
  "ll_wf l ps \<longleftrightarrow> chain (ll_heap l) (ll_list l) ps \<and> distinct ps
     \<and> length ps < 2 ^ 32 \<and> unat (ll_size l) = length ps"

definition ll_data :: "'a u_linklist \<Rightarrow> addr list \<Rightarrow> 'a list" where
  "ll_data l ps = map (\<lambda>p. nd_data (the (ll_heap l p))) ps"

lemma chain_dom: "chain h p ps \<Longrightarrow> q \<in> set ps \<Longrightarrow> h q \<noteq> None"
  by (induction h p ps rule: chain.induct) (auto split: option.splits)

lemma chain_ConsI: "h p = Some n \<Longrightarrow> chain h (nd_next n) qs \<Longrightarrow> chain h (Some p) (p # qs)"
  by simp

lemma chain_ConsE:
  assumes "chain h p (q # qs)"
  obtains n where "p = Some q" and "h q = Some n" and "chain h (nd_next n) qs"
  using assms by (cases p) (auto split: option.splits)

lemma chain_cong: "(\<And>q. q \<in> set ps \<Longrightarrow> h' q = h q) \<Longrightarrow> chain h' p ps = chain h p ps"
proof (induction h p ps rule: chain.induct)
  case (3 h p q qs)
  then show ?case by (cases "h q") auto
qed auto

lemma chain_update_fresh: "chain h p ps \<Longrightarrow> q \<notin> set ps \<Longrightarrow> chain (h(q := v)) p ps"
  by (subst chain_cong [of ps _ h]) auto

lemma wf_fresh: "ll_wf l ps \<Longrightarrow> ll_heap l a = None \<Longrightarrow> a \<notin> set ps"
  unfolding ll_wf_def by (metis chain_dom)

lemma ll_data_Nil [simp]: "ll_data l [] = []"
  by (simp add: ll_data_def)

lemma ll_size_add:
  "unat (s::u32) = n \<Longrightarrow> n + 1 < 2 ^ 32 \<Longrightarrow> unat (s + 1) = n + 1"
  by (simp add: unat_word_ariths)

lemma ll_size_sub: "unat (s::u32) = Suc n \<Longrightarrow> unat (s - 1) = n"
proof -
  assume *: "unat s = Suc n"
  then have "s \<noteq> 0" by auto
  with * show "unat (s - 1) = n" by (simp add: unat_minus_one)
qed

section \<open>Walks on well-formed chains\<close>

lemma last_node_chain: "chain h (Some p) (p # ps) \<Longrightarrow> last_node h p = Some (last (p # ps))"
proof (induction ps arbitrary: p)
  case Nil
  then obtain n where "h p = Some n" "nd_next n = None"
    by (auto split: option.splits elim: chain.elims)
  then show ?case by (simp add: last_node.simps)
next
  case (Cons q ps)
  then obtain n where n: "h p = Some n" "nd_next n = Some q" "chain h (Some q) (q # ps)"
    by (auto split: option.splits elim: chain.elims)
  from Cons.IH [OF n(3)] n show ?case by (simp add: last_node.simps [of h p])
qed

lemma chain_append:
  assumes "chain h p ps" and "ps \<noteq> []" and "distinct (ps @ [a])"
    and "h (last ps) = Some n" and "h a = Some na" and "nd_next na = None"
  shows "chain (h(last ps \<mapsto> n\<lparr>nd_next := Some a\<rparr>)) p (ps @ [a])"
  using assms
proof (induction ps arbitrary: p)
  case Nil
  then show ?case by simp
next
  case (Cons q qs)
  obtain nq where q: "p = Some q" "h q = Some nq" "chain h (nd_next nq) qs"
    using Cons.prems(1) by (cases p) (auto split: option.splits)
  show ?case
  proof (cases "qs = []")
    case True
    with Cons.prems q show ?thesis by (auto split: option.splits)
  next
    case False
    then have l: "last (q # qs) = last qs" "q \<noteq> last qs" using Cons.prems(3) by auto
    have tl: "chain (h(last qs \<mapsto> n\<lparr>nd_next := Some a\<rparr>)) (nd_next nq) (qs @ [a])"
      by (rule Cons.IH [OF q(3) False _ _ Cons.prems(5,6)]) (use Cons.prems l in auto)
    show ?thesis unfolding q(1) append_Cons l(1)
      by (rule chain_ConsI [OF _ tl]) (use q l in simp)
  qed
qed

lemma find_prev_chain:
  assumes "chain h (Some p) (p # ps)" and "distinct (p # ps)" and "it \<noteq> p"
  shows "it \<notin> set ps \<Longrightarrow> \<exists>q n. find_prev h it p = Some (q, n) \<and> nd_next n = None"
    and "p # ps = xs @ q # it # ys \<Longrightarrow>
      \<exists>n. find_prev h it p = Some (q, n) \<and> h q = Some n \<and> nd_next n = Some it"
  using assms
proof (induction ps arbitrary: p xs)
  case Nil
  {
    case 1
    then obtain n where "h p = Some n" "nd_next n = None"
      by (auto split: option.splits elim: chain.elims)
    then show ?case by (simp add: find_prev.simps)
  next
    case 2
    then have "length [p] = length (xs @ q # it # ys)" by (simp only:)
    then show ?case by simp
  }
next
  case (Cons r ps)
  {
    case 1
    then obtain n where n: "h p = Some n" "nd_next n = Some r" "chain h (Some r) (r # ps)"
      by (auto split: option.splits elim: chain.elims)
    from Cons.IH(1) [OF _ n(3)] 1 n show ?case by (auto simp: find_prev.simps [of h it p])
  next
    case 2
    from 2(2) obtain n where n: "h p = Some n" "nd_next n = Some r" "chain h (Some r) (r # ps)"
      by (auto split: option.splits elim: chain.elims)
    show ?case
    proof (cases xs)
      case Nil
      with 2(1) n have "p = q" "r = it" by auto
      with n show ?thesis by (simp add: find_prev.simps [of h it q])
    next
      case (Cons x xs')
      with 2 have e: "r # ps = xs' @ q # it # ys" by simp
      have "it \<noteq> r" using e 2(3) by (cases xs') auto
      moreover have "distinct (r # ps)" using 2(3) by simp
      ultimately show ?thesis using Cons.IH(2) [OF e n(3)] n
        by (auto simp: find_prev.simps [of h it p])
    qed
  }
qed

lemma chain_unlink:
  assumes "chain h p (xs @ q # it # ys)" and "distinct (xs @ q # it # ys)"
    and "h q = Some nq" and "h it = Some ni"
  shows "chain ((h(q \<mapsto> nq\<lparr>nd_next := nd_next ni\<rparr>))(it := None)) p (xs @ q # ys)"
  using assms
proof (induction xs arbitrary: p)
  case Nil
  then have p: "p = Some q" and ys: "chain h (nd_next ni) ys"
    by (auto elim!: chain_ConsE)
  moreover have "chain ((h(q \<mapsto> nq\<lparr>nd_next := nd_next ni\<rparr>))(it := None)) (nd_next ni) ys
      = chain h (nd_next ni) ys"
    by (rule chain_cong) (use Nil.prems in auto)
  ultimately have tl: "chain ((h(q \<mapsto> nq\<lparr>nd_next := nd_next ni\<rparr>))(it := None)) (nd_next ni) ys"
    by simp
  have "chain ((h(q \<mapsto> nq\<lparr>nd_next := nd_next ni\<rparr>))(it := None)) (Some q) (q # ys)"
    by (rule chain_ConsI [where n = "nq\<lparr>nd_next := nd_next ni\<rparr>"])
      (use Nil.prems tl in \<open>simp_all only: append_Nil distinct.simps fun_upd_apply node.simps list.set_intros\<close>, auto)
  then show ?case unfolding p append_Nil .
next
  case (Cons x xs)
  obtain nx where x: "p = Some x" "h x = Some nx" "chain h (nd_next nx) (xs @ q # it # ys)"
    using Cons.prems(1) by (cases p) (auto split: option.splits)
  have tl: "chain ((h(q \<mapsto> nq\<lparr>nd_next := nd_next ni\<rparr>))(it := None)) (nd_next nx) (xs @ q # ys)"
    by (rule Cons.IH [OF x(3) _ Cons.prems(3,4)]) (use Cons.prems in auto)
  show ?case unfolding x(1) append_Cons
    by (rule chain_ConsI [OF _ tl]) (use Cons.prems x in auto)
qed

section \<open>Operations on well-formed lists\<close>

lemma add_head_wf:
  assumes wf: "ll_wf l ps" and fresh: "ll_heap l a = None" and room: "length ps + 1 < 2 ^ 32"
  shows "ll_wf (l\<lparr>ll_heap := (ll_heap l)(a \<mapsto> \<lparr>nd_data = x, nd_next = ll_list l\<rparr>),
                  ll_list := Some a, ll_size := ll_size l + 1\<rparr>) (a # ps)"
    and "ll_data (l\<lparr>ll_heap := (ll_heap l)(a \<mapsto> \<lparr>nd_data = x, nd_next = ll_list l\<rparr>),
                  ll_list := Some a, ll_size := ll_size l + 1\<rparr>) (a # ps) = x # ll_data l ps"
proof -
  from wf have c: "chain (ll_heap l) (ll_list l) ps" by (simp add: ll_wf_def)
  have a: "a \<notin> set ps" using wf fresh by (rule wf_fresh)
  let ?h = "(ll_heap l)(a \<mapsto> \<lparr>nd_data = x, nd_next = ll_list l\<rparr>)"
  have "chain ?h (ll_list l) ps" using c a by (rule chain_update_fresh)
  then have "chain ?h (Some a) (a # ps)" by (intro chain_ConsI) auto
  then show "ll_wf (l\<lparr>ll_heap := ?h, ll_list := Some a, ll_size := ll_size l + 1\<rparr>) (a # ps)"
    using wf a room ll_size_add [of "ll_size l" "length ps"] by (simp add: ll_wf_def)
  show "ll_data (l\<lparr>ll_heap := ?h, ll_list := Some a, ll_size := ll_size l + 1\<rparr>) (a # ps)
      = x # ll_data l ps"
    using a by (auto simp: ll_data_def)
qed

lemma add_head_ok:
  assumes "ll_wf l ps" and "ll_heap l a = None" and "length ps + 1 < 2 ^ 32"
  shows "\<exists>r l' m'. u_linklist_add_head m a (Some l) (Some x) = (r, Some l', m')
     \<and> (if fst (OICMalloc m sizeof_u_linklist_data)
        then r = CA_STATUS_OK \<and> ll_wf l' (a # ps) \<and> ll_data l' (a # ps) = x # ll_data l ps
        else r = CA_MEMORY_ALLOC_FAILED \<and> l' = l)"
proof (cases "OICMalloc m sizeof_u_linklist_data")
  case (Pair b m1)
  then show ?thesis
    using add_head_wf [OF assms, of x] by (cases b) (simp_all add: u_linklist_add_head_def)
qed

text \<open>
  on a well-formed list \<open>u_linklist_add_head\<close> puts the new element first, and reports
  \<open>CA_MEMORY_ALLOC_FAILED\<close> with the list untouched exactly when the node cannot be allocated.
\<close>

lemma u_linklist_add_head_refines:
  assumes "ll_wf l ps" and "ll_heap l a = None" and "length ps + 1 < 2 ^ 32"
  shows "\<exists>r l' m'. u_linklist_add_head m a (Some l) (Some x) = (r, Some l', m')
     \<and> (if fst (OICMalloc m sizeof_u_linklist_data)
        then r = CA_STATUS_OK \<and> ll_wf l' (a # ps) \<and> ll_data l' (a # ps) = x # ll_data l ps
        else r = CA_MEMORY_ALLOC_FAILED \<and> l' = l)"
  using assms by (rule add_head_ok)

lemma u_linklist_add_head_refines_witness:
  "ll_wf \<lparr>ll_heap = (\<lambda>_. None), ll_list = None, ll_size = 0\<rparr> []
   \<and> (\<exists>l' m'. u_linklist_add_head [] 5 (Some \<lparr>ll_heap = (\<lambda>_. None), ll_list = None, ll_size = 0\<rparr>)
         (Some (9::nat)) = (CA_STATUS_OK, Some l', m') \<and> ll_data l' [5] = [9])"
proof -
  let ?l = "\<lparr>ll_heap = (\<lambda>_. None), ll_list = None, ll_size = 0\<rparr> :: nat u_linklist"
  have w: "ll_wf ?l []" by (simp add: ll_wf_def)
  have "fst (OICMalloc [] sizeof_u_linklist_data)"
    by (simp add: OICMalloc_def sizeof_u_linklist_data_def max_object_def)
  with u_linklist_add_head_refines [OF w, of 5 "[]" 9] show ?thesis
    by (auto simp: ll_wf_def ll_data_def)
qed

lemma add_wf_nonempty:
  fixes x :: 'a
  assumes wf: "ll_wf l ps" and ne: "ps \<noteq> []" and fresh: "ll_heap l a = None"
    and room: "length ps + 1 < 2 ^ 32" and n: "ll_heap l (last ps) = Some n"
  defines "h \<equiv> ((ll_heap l)(a \<mapsto> \<lparr>nd_data = x, nd_next = None\<rparr>))(last ps \<mapsto> n\<lparr>nd_next := Some a\<rparr>)"
  shows "ll_wf (l\<lparr>ll_heap := h, ll_size := ll_size l + 1\<rparr>) (ps @ [a])"
    and "ll_data (l\<lparr>ll_heap := h, ll_size := ll_size l + 1\<rparr>) (ps @ [a]) = ll_data l ps @ [x]"
proof -
  from wf have c: "chain (ll_heap l) (ll_list l) ps" by (simp add: ll_wf_def)
  have a: "a \<notin> set ps" using wf fresh by (rule wf_fresh)
  then have la: "last ps \<noteq> a" using ne by auto
  have c': "chain ((ll_heap l)(a \<mapsto> \<lparr>nd_data = x, nd_next = None\<rparr>)) (ll_list l) ps"
    using c a by (rule chain_update_fresh)
  have "chain h (ll_list l) (ps @ [a])" unfolding h_def
    by (rule chain_append [OF c' ne]) (use wf a la n in \<open>auto simp: ll_wf_def\<close>)
  then show "ll_wf (l\<lparr>ll_heap := h, ll_size := ll_size l + 1\<rparr>) (ps @ [a])"
    using wf a room ll_size_add [of "ll_size l" "length ps"] by (simp add: ll_wf_def)
  have "nd_data (the (h p)) = nd_data (the (ll_heap l p))" if "p \<in> set ps" for p
    using that a n la by (auto simp: h_def)
  moreover have "nd_data (the (h a)) = x" using la by (simp add: h_def)
  ultimately show "ll_data (l\<lparr>ll_heap := h, ll_size := ll_size l + 1\<rparr>) (ps @ [a]) = ll_data l ps @ [x]"
    by (simp add: ll_data_def)
qed

lemma add_last_node:
  assumes wf: "ll_wf l ps" and ne: "ps \<noteq> []" and fresh: "ll_heap l a = None"
  shows "\<exists>p n. ll_list l = Some p \<and> ll_heap l (last ps) = Some n
     \<and> last_node ((ll_heap l)(a \<mapsto> v)) p = Some (last ps) \<and> last ps \<noteq> a"
proof -
  obtain p qs where ps: "ps = p # qs" using ne by (cases ps) auto
  from wf have c: "chain (ll_heap l) (ll_list l) ps" by (simp add: ll_wf_def)
  have a: "a \<notin> set ps" using wf fresh by (rule wf_fresh)
  have p: "ll_list l = Some p" using c ps by (auto elim: chain_ConsE)
  have "chain ((ll_heap l)(a \<mapsto> v)) (Some p) (p # qs)"
    by (rule chain_update_fresh) (use c a ps p in simp_all)
  then have "last_node ((ll_heap l)(a \<mapsto> v)) p = Some (last ps)"
    unfolding ps by (rule last_node_chain)
  moreover have "ll_heap l (last ps) \<noteq> None" using chain_dom [OF c] ne by simp
  ultimately show ?thesis using p a ne by auto
qed

lemma add_ok:
  assumes wf: "ll_wf l ps" and fresh: "ll_heap l a = None" and room: "length ps + 1 < 2 ^ 32"
  shows "\<exists>r l' m'. u_linklist_add m a (Some l) (Some x) = Some (r, Some l', m')
     \<and> (if fst (OICMalloc m sizeof_u_linklist_data)
        then r = CA_STATUS_OK \<and> ll_wf l' (ps @ [a]) \<and> ll_data l' (ps @ [a]) = ll_data l ps @ [x]
        else r = CA_MEMORY_ALLOC_FAILED \<and> l' = l)"
proof (cases "OICMalloc m sizeof_u_linklist_data")
  case (Pair b m1)
  show ?thesis
  proof (cases "b \<and> ps \<noteq> []")
    case True
    let ?v = "\<lparr>nd_data = x, nd_next = None\<rparr>"
    obtain p n where pn: "ll_list l = Some p" "ll_heap l (last ps) = Some n"
      "last_node ((ll_heap l)(a \<mapsto> ?v)) p = Some (last ps)" "last ps \<noteq> a"
      using add_last_node [OF wf _ fresh] True by blast
    with Pair True add_wf_nonempty [OF wf _ fresh room pn(2), of x] show ?thesis
      by (simp add: u_linklist_add_def)
  next
    case False
    show ?thesis
    proof (cases b)
      case True
      with False have e: "ps = []" by simp
      then have "ll_list l = None" using wf by (cases "ll_list l") (auto simp: ll_wf_def)
      with Pair True add_head_wf [OF wf fresh room, of x] e show ?thesis
        by (simp add: u_linklist_add_def)
    qed (use Pair in \<open>simp add: u_linklist_add_def\<close>)
  qed
qed

text \<open>
  \<open>u_linklist_add\<close> terminates on a well-formed list (its search for the last node always
  ends) and appends the element at the end, or fails cleanly when the node cannot be allocated.
\<close>

lemma u_linklist_add_refines:
  assumes wf: "ll_wf l ps" and fresh: "ll_heap l a = None" and room: "length ps + 1 < 2 ^ 32"
  shows "\<exists>r l' m'. u_linklist_add m a (Some l) (Some x) = Some (r, Some l', m')
     \<and> (if fst (OICMalloc m sizeof_u_linklist_data)
        then r = CA_STATUS_OK \<and> ll_wf l' (ps @ [a]) \<and> ll_data l' (ps @ [a]) = ll_data l ps @ [x]
        else r = CA_MEMORY_ALLOC_FAILED \<and> l' = l)"
  using assms by (rule add_ok)

lemma u_linklist_add_refines_example:
  "ll_wf \<lparr>ll_heap = [3 \<mapsto> \<lparr>nd_data = 8::nat, nd_next = None\<rparr>], ll_list = Some 3, ll_size = 1\<rparr> [3]
   \<and> (\<exists>l' m'. u_linklist_add [] 5
        (Some \<lparr>ll_heap = [3 \<mapsto> \<lparr>nd_data = 8::nat, nd_next = None\<rparr>], ll_list = Some 3, ll_size = 1\<rparr>)
        (Some 9) = Some (CA_STATUS_OK, Some l', m') \<and> ll_data l' [3, 5] = [8, 9])"
proof -
  let ?l = "\<lparr>ll_heap = [3 \<mapsto> \<lparr>nd_data = 8::nat, nd_next = None\<rparr>], ll_list = Some 3, ll_size = 1\<rparr>"
  have w: "ll_wf ?l [3]" by (simp add: ll_wf_def)
  have "fst (OICMalloc [] sizeof_u_linklist_data)"
    by (simp add: OICMalloc_def sizeof_u_linklist_data_def max_object_def)
  with w u_linklist_add_refines [OF w, of 5 "[]" 9] show ?thesis by (auto simp: ll_data_def)
qed

lemma remove_head_wf:
  assumes wf: "ll_wf l (it # ps)" and n: "ll_heap l it = Some n"
  defines "l' \<equiv> l\<lparr>ll_heap := (ll_heap l)(it := None), ll_list := nd_next n, ll_size := ll_size l - 1\<rparr>"
  shows "ll_wf l' ps" and "ll_data l' ps = ll_data l ps"
proof -
  from wf have c: "chain (ll_heap l) (nd_next n) ps" and it: "it \<notin> set ps"
    using n by (auto simp: ll_wf_def elim!: chain_ConsE)
  have "chain ((ll_heap l)(it := None)) (nd_next n) ps"
    using c it by (rule chain_update_fresh)
  then show "ll_wf l' ps"
    using wf ll_size_sub [of "ll_size l" "length ps"] by (simp add: ll_wf_def l'_def)
  show "ll_data l' ps = ll_data l ps" using it by (auto simp: ll_data_def l'_def)
qed

lemma remove_inner_wf:
  assumes wf: "ll_wf l (xs @ q # it # ys)"
    and q: "ll_heap l q = Some nq" and it: "ll_heap l it = Some ni"
  defines "l' \<equiv> l\<lparr>ll_heap := ((ll_heap l)(q \<mapsto> nq\<lparr>nd_next := nd_next ni\<rparr>))(it := None),
                  ll_size := ll_size l - 1\<rparr>"
  shows "ll_wf l' (xs @ q # ys)" and "ll_data l' (xs @ q # ys) = ll_data l (xs @ q # ys)"
proof -
  from wf have c: "chain (ll_heap l) (ll_list l) (xs @ q # it # ys)"
    and d: "distinct (xs @ q # it # ys)" by (auto simp: ll_wf_def)
  from chain_unlink [OF c d q it] show "ll_wf l' (xs @ q # ys)"
    using wf ll_size_sub [of "ll_size l" "length (xs @ q # ys)"]
    by (simp add: ll_wf_def l'_def)
  show "ll_data l' (xs @ q # ys) = ll_data l (xs @ q # ys)"
    using d q by (auto simp: ll_data_def l'_def)
qed

lemma chain_next:
  "chain h p (xs @ it # ys) \<Longrightarrow> \<exists>n. h it = Some n \<and> nd_next n = (case ys of [] \<Rightarrow> None | y # _ \<Rightarrow> Some y)"
proof (induction xs arbitrary: p)
  case Nil
  then show ?case by (auto elim!: chain_ConsE split: list.splits elim: chain.elims)
next
  case (Cons x xs)
  then show ?case by (auto elim!: chain_ConsE)
qed

lemma remove_ok:
  assumes wf: "ll_wf l ps"
  shows "(\<forall>xs ys it. ps = xs @ it # ys \<longrightarrow>
       (\<exists>l'. u_linklist_remove (Some l) (Some (Some it)) =
            Some (CA_STATUS_OK, Some l', Some (case ys of [] \<Rightarrow> None | y # _ \<Rightarrow> Some y))
          \<and> ll_wf l' (xs @ ys) \<and> ll_data l' (xs @ ys) = ll_data l xs @ ll_data l ys
          \<and> ll_heap l' it = None))
     \<and> (\<forall>it. ps \<noteq> [] \<and> it \<notin> set ps \<longrightarrow>
       u_linklist_remove (Some l) (Some (Some it)) = Some (CA_STATUS_FAILED, Some l, Some (Some it)))"
proof (intro conjI allI impI)
  from wf have c: "chain (ll_heap l) (ll_list l) ps" and d: "distinct ps" by (auto simp: ll_wf_def)
  fix xs ys it assume ps: "ps = xs @ it # ys"
  obtain n where n: "ll_heap l it = Some n" "nd_next n = (case ys of [] \<Rightarrow> None | y # _ \<Rightarrow> Some y)"
    using chain_next c unfolding ps by blast
  show "\<exists>l'. u_linklist_remove (Some l) (Some (Some it)) =
            Some (CA_STATUS_OK, Some l', Some (case ys of [] \<Rightarrow> None | y # _ \<Rightarrow> Some y))
          \<and> ll_wf l' (xs @ ys) \<and> ll_data l' (xs @ ys) = ll_data l xs @ ll_data l ys
          \<and> ll_heap l' it = None"
  proof (cases xs rule: rev_cases)
    case Nil
    have "ll_list l = Some it" using c ps Nil by (auto elim: chain_ConsE)
    with remove_head_wf [of l it ys, OF _ n(1)] wf ps Nil n show ?thesis
      by (simp add: u_linklist_remove_def)
  next
    case (snoc xs' q)
    obtain p qs where p: "ps = p # qs" using ps by (metis Nil_is_append_conv list.distinct(1) list.exhaust)
    have fst: "ll_list l = Some p" using c p by (auto elim: chain_ConsE)
    have itp: "it \<noteq> p" using d ps snoc p by (cases xs') auto
    have split: "p # qs = xs' @ q # it # ys" using p ps snoc by simp
    obtain nq where nq: "find_prev (ll_heap l) it p = Some (q, nq)" "ll_heap l q = Some nq"
      "nd_next nq = Some it"
      using find_prev_chain(2) [OF _ _ itp split] c d fst p by auto
    have wf': "ll_wf l (xs' @ q # it # ys)" using wf ps snoc by simp
    from remove_inner_wf [OF wf' nq(2) n(1)] show ?thesis
      using fst itp nq n snoc by (simp add: u_linklist_remove_def ll_data_def)
  qed
next
  from wf have c: "chain (ll_heap l) (ll_list l) ps" and d: "distinct ps" by (auto simp: ll_wf_def)
  fix it assume it: "ps \<noteq> [] \<and> it \<notin> set ps"
  then obtain p qs where p: "ps = p # qs" by (cases ps) auto
  have fst: "ll_list l = Some p" using c p by (auto elim: chain_ConsE)
  obtain q n where "find_prev (ll_heap l) it p = Some (q, n)" "nd_next n = None"
    using find_prev_chain(1) [of "ll_heap l" p qs it] c d it p fst by auto
  then show "u_linklist_remove (Some l) (Some (Some it)) = Some (CA_STATUS_FAILED, Some l, Some (Some it))"
    using fst it p by (simp add: u_linklist_remove_def)
qed

text \<open>
  \<open>u_linklist_remove\<close> of an iterator that points into a well-formed list unlinks exactly that
  node, frees it, counts the size down and moves the iterator to the following node; an iterator
  that is not a node of the (non-empty) list is reported as \<open>CA_STATUS_FAILED\<close> and changes
  nothing. In both cases the search for the previous node ends.
\<close>

lemma u_linklist_remove_refines:
  assumes wf: "ll_wf l ps"
  shows "(\<forall>xs ys it. ps = xs @ it # ys \<longrightarrow>
       (\<exists>l'. u_linklist_remove (Some l) (Some (Some it)) =
            Some (CA_STATUS_OK, Some l', Some (case ys of [] \<Rightarrow> None | y # _ \<Rightarrow> Some y))
          \<and> ll_wf l' (xs @ ys) \<and> ll_data l' (xs @ ys) = ll_data l xs @ ll_data l ys
          \<and> ll_heap l' it = None))
     \<and> (\<forall>it. ps \<noteq> [] \<and> it \<notin> set ps \<longrightarrow>
       u_linklist_remove (Some l) (Some (Some it)) = Some (CA_STATUS_FAILED, Some l, Some (Some it)))"
  using assms by (rule remove_ok)

lemma u_linklist_remove_refines_example:
  "\<exists>l'. u_linklist_remove
       (Some \<lparr>ll_heap = [3 \<mapsto> \<lparr>nd_data = 8::nat, nd_next = Some 5\<rparr>, 5 \<mapsto> \<lparr>nd_data = 9, nd_next = None\<rparr>],
               ll_list = Some 3, ll_size = 2\<rparr>) (Some (Some 5))
     = Some (CA_STATUS_OK, Some l', Some None) \<and> ll_wf l' [3] \<and> ll_data l' [3] = [8]"
proof -
  let ?l = "\<lparr>ll_heap = [3 \<mapsto> \<lparr>nd_data = 8::nat, nd_next = Some 5\<rparr>, 5 \<mapsto> \<lparr>nd_data = 9, nd_next = None\<rparr>],
               ll_list = Some 3, ll_size = 2\<rparr>"
  have w: "ll_wf ?l [3, 5]" by (simp add: ll_wf_def)
  have "[3, 5] = [3] @ (5::addr) # []" by simp
  from u_linklist_remove_refines [OF w, THEN conjunct1, rule_format, OF this]
  show ?thesis by (auto simp: ll_data_def)
qed

lemma free_loop_wf:
  "ll_wf l ps \<Longrightarrow> \<exists>l'. free_loop (length ps) l = Some (True, l') \<and> ll_wf l' []
      \<and> (\<forall>q\<in>set ps. ll_heap l' q = None)"
proof (induction ps arbitrary: l)
  case Nil
  then show ?case by simp
next
  case (Cons p ps)
  obtain n where n: "ll_list l = Some p" "ll_heap l p = Some n"
    using Cons.prems by (auto simp: ll_wf_def elim: chain_ConsE)
  let ?l = "l\<lparr>ll_heap := (ll_heap l)(p := None), ll_list := nd_next n, ll_size := ll_size l - 1\<rparr>"
  obtain l' where l': "free_loop (length ps) ?l = Some (True, l')" "ll_wf l' []"
    "\<forall>q\<in>set ps. ll_heap l' q = None"
    using Cons.IH [OF remove_head_wf(1) [OF Cons.prems n(2)]] by blast
  have keep: "free_loop k t = Some (b, t') \<Longrightarrow> ll_heap t q = None \<Longrightarrow> ll_heap t' q = None"
    for k b q and t t' :: "'a u_linklist"
    by (induction k t rule: free_loop.induct) (auto split: option.splits if_splits)
  have "ll_heap l' p = None" by (rule keep [OF l'(1)]) simp
  with l' n show ?case by simp
qed

text \<open>
  \<open>u_linklist_free\<close> of a well-formed list succeeds and leaves a NULL list pointer; a list
  whose size field is larger than its chain of nodes makes it return \<open>CA_STATUS_FAILED\<close> without
  freeing the header.
\<close>

lemma u_linklist_free_correct:
  "(\<forall>(l::'a u_linklist) ps. ll_wf l ps \<longrightarrow> u_linklist_free (Some (Some l)) = Some (CA_STATUS_OK, Some None))
   \<and> (\<forall>l::'a u_linklist. ll_list l = None \<and> ll_size l \<noteq> 0 \<longrightarrow>
        u_linklist_free (Some (Some l)) = Some (CA_STATUS_FAILED, Some (Some l)))"
proof (intro conjI allI impI)
  fix l :: "'a u_linklist" and ps assume wf: "ll_wf l ps"
  then have "unat (ll_size l) = length ps" by (simp add: ll_wf_def)
  with free_loop_wf [OF wf] show "u_linklist_free (Some (Some l)) = Some (CA_STATUS_OK, Some None)"
    by (auto simp: u_linklist_free_def)
next
  fix l :: "'a u_linklist" assume l: "ll_list l = None \<and> ll_size l \<noteq> 0"
  then obtain n where "unat (ll_size l) = Suc n"
    by (metis not0_implies_Suc unat_eq_zero)
  with l show "u_linklist_free (Some (Some l)) = Some (CA_STATUS_FAILED, Some (Some l))"
    by (simp add: u_linklist_free_def)
qed

lemma u_linklist_free_correct_example:
  "u_linklist_free (Some (Some
     \<lparr>ll_heap = [3 \<mapsto> \<lparr>nd_data = 8::nat, nd_next = None\<rparr>], ll_list = Some 3, ll_size = 1\<rparr>))
   = Some (CA_STATUS_OK, Some None)"
  by (rule u_linklist_free_correct [THEN conjunct1, rule_format, of _ "[3]"]) (simp add: ll_wf_def)

section \<open>Iteration\<close>

text \<open>
  The loops over a table all have one shape: start at \<open>init_iterator\<close>, look at the data, go on
  with \<open>get_next\<close> until the iterator is NULL. The interface states what the three calls do; the
  lemma says that such a loop is a walk over the abstract list, so that the tables below are
  modelled by HOL lists.
\<close>

locale iterable =
  fixes init :: "'s \<Rightarrow> 'i option"
    and advance :: "'s \<Rightarrow> 'i \<Rightarrow> 'i option"
    and item :: "'s \<Rightarrow> 'i \<Rightarrow> 'a option"
    and rep :: "'s \<Rightarrow> 'i list \<Rightarrow> bool"
    and vals :: "'s \<Rightarrow> 'i list \<Rightarrow> 'a list"
  assumes init_rep: "rep s ps \<Longrightarrow> init s = (case ps of [] \<Rightarrow> None | p # _ \<Rightarrow> Some p)"
    and advance_rep: "rep s (xs @ p # ys) \<Longrightarrow> advance s p = (case ys of [] \<Rightarrow> None | y # _ \<Rightarrow> Some y)"
    and item_rep: "rep s ps \<Longrightarrow> map (item s) ps = map Some (vals s ps)"
begin

lemma walk:
  assumes rep: "rep s ps"
    and loop: "\<And>it acc. loop it acc =
       (case it of None \<Rightarrow> Inr acc
        | Some p \<Rightarrow> (case f (item s p) acc of Inl r \<Rightarrow> Inl r | Inr acc' \<Rightarrow> loop (advance s p) acc'))"
  shows "loop (init s) acc = fold_exit (\<lambda>x. f (Some x)) (vals s ps) acc"
proof -
  have "loop (case ys of [] \<Rightarrow> None | y # _ \<Rightarrow> Some y) acc = fold_exit f (map (item s) ys) acc"
    if "ps = xs @ ys" for xs ys acc
    using that
  proof (induction ys arbitrary: xs acc)
    case Nil
    then show ?case using loop [of None] by simp
  next
    case (Cons y ys)
    have adv: "advance s y = (case ys of [] \<Rightarrow> None | y # _ \<Rightarrow> Some y)"
      using advance_rep rep Cons.prems by blast
    have "loop (advance s y) acc' = fold_exit f (map (item s) ys) acc'" for acc'
      using Cons.IH [of "xs @ [y]" acc'] Cons.prems adv by simp
    then show ?case using loop [of "Some y" acc] by (simp split: sum.splits)
  qed
  from this [of "[]" ps acc]
  have "loop (init s) acc = fold_exit f (map Some (vals s ps)) acc"
    by (simp add: init_rep [OF rep] item_rep [OF rep])
  moreover have "fold_exit f (map Some vs) a = fold_exit (\<lambda>x. f (Some x)) vs a" for vs a
    by (induction vs arbitrary: a) (auto split: sum.splits)
  ultimately show ?thesis by simp
qed

end

definition ll_init :: "'a u_linklist \<Rightarrow> addr option" where
  "ll_init l = (case u_linklist_init_iterator (Some l) (Some None) of None \<Rightarrow> None | Some it \<Rightarrow> it)"

definition ll_advance :: "'a u_linklist \<Rightarrow> addr \<Rightarrow> addr option" where
  "ll_advance l p = (case u_linklist_get_next (ll_heap l) (Some (Some p)) of
     Some (_, Some it) \<Rightarrow> it | _ \<Rightarrow> None)"

definition ll_item :: "'a u_linklist \<Rightarrow> addr \<Rightarrow> 'a option" where
  "ll_item l p = u_linklist_get_data (ll_heap l) (Some p)"

lemma get_next_wf:
  assumes "ll_wf l (xs @ p # ys)"
  shows "u_linklist_get_next (ll_heap l) (Some (Some p)) =
     (case ys of [] \<Rightarrow> Some (None, Some None)
      | y # _ \<Rightarrow> Some (Some (nd_data (the (ll_heap l y))), Some (Some y)))"
proof -
  from assms have c: "chain (ll_heap l) (ll_list l) (xs @ p # ys)" by (simp add: ll_wf_def)
  obtain n where n: "ll_heap l p = Some n" "nd_next n = (case ys of [] \<Rightarrow> None | y # _ \<Rightarrow> Some y)"
    using chain_next [OF c] by blast
  have "ll_heap l y \<noteq> None" if "y \<in> set ys" for y using chain_dom [OF c, of y] that by simp
  then have "\<exists>v. ll_heap l y = Some v \<and> nd_data v = nd_data (the (ll_heap l y))" if "y \<in> set ys" for y
    using that by force
  with n show ?thesis by (auto simp: u_linklist_get_next_def split: list.splits)
qed

interpretation ll: iterable ll_init ll_advance ll_item ll_wf ll_data
proof
  fix s :: "'a u_linklist" and ps assume wf: "ll_wf s ps"
  then show "ll_init s = (case ps of [] \<Rightarrow> None | p # _ \<Rightarrow> Some p)"
    by (auto simp: ll_init_def u_linklist_init_iterator_def ll_wf_def
        split: list.splits elim: chain.elims)
  from wf have "ll_heap s p \<noteq> None" if "p \<in> set ps" for p
    using that chain_dom by (auto simp: ll_wf_def)
  then have "ll_item s p = Some (nd_data (the (ll_heap s p)))" if "p \<in> set ps" for p
    using that by (force simp: ll_item_def u_linklist_get_data_def)
  then show "map (ll_item s) ps = map Some (ll_data s ps)"
    by (simp add: ll_data_def)
next
  fix s :: "'a u_linklist" and xs p ys assume "ll_wf s (xs @ p # ys)"
  from get_next_wf [OF this] show "ll_advance s p = (case ys of [] \<Rightarrow> None | y # _ \<Rightarrow> Some y)"
    by (simp add: ll_advance_def split: list.splits)
qed

text \<open>
  The loop over the nodes of a list as the clients write it: the body gets the iterator, the data
  and the variables of the loop; it may leave the loop (\<^const>\<open>Inl\<close>), go on (\<^const>\<open>Inr\<close>), or run
  into undefined behaviour (\<^const>\<open>None\<close>).
\<close>

partial_function (option) for_nodes ::
  "'a heap \<Rightarrow> (addr \<Rightarrow> 'a option \<Rightarrow> 'b \<Rightarrow> ('r + 'b) option) \<Rightarrow> addr option \<Rightarrow> 'b \<Rightarrow> ('r + 'b) option" where
  "for_nodes h f it acc =
     (case it of
        None \<Rightarrow> Some (Inr acc)
      | Some p \<Rightarrow>
          (case f p (u_linklist_get_data h (Some p)) acc of
             None \<Rightarrow> None
           | Some (Inl r) \<Rightarrow> Some (Inl r)
           | Some (Inr acc') \<Rightarrow>
               (case u_linklist_get_next h (Some (Some p)) of
                  Some (_, Some it') \<Rightarrow> for_nodes h f it' acc'
                | _ \<Rightarrow> None)))"

definition ll_nodes :: "'a u_linklist \<Rightarrow> addr list \<Rightarrow> (addr \<times> 'a option) list" where
  "ll_nodes l ps = map (\<lambda>p. (p, Some (nd_data (the (ll_heap l p))))) ps"

lemma for_nodes_from:
  assumes wf: "ll_wf l (xs @ ys)"
  shows "for_nodes (ll_heap l) f (case ys of [] \<Rightarrow> None | y # _ \<Rightarrow> Some y) acc = fold_loop f (ll_nodes l ys) acc"
  using assms
proof (induction ys arbitrary: xs acc)
  case Nil
  then show ?case by (simp add: for_nodes.simps ll_nodes_def)
next
  case (Cons y ys)
  have "ll_heap l y \<noteq> None" using Cons.prems chain_dom by (fastforce simp: ll_wf_def)
  then have d: "u_linklist_get_data (ll_heap l) (Some y) = Some (nd_data (the (ll_heap l y)))"
    by (auto simp: u_linklist_get_data_def)
  have n: "u_linklist_get_next (ll_heap l) (Some (Some y)) =
     (case ys of [] \<Rightarrow> Some (None, Some None)
      | z # _ \<Rightarrow> Some (Some (nd_data (the (ll_heap l z))), Some (Some z)))"
    by (rule get_next_wf [OF Cons.prems])
  have ih: "for_nodes (ll_heap l) f (case ys of [] \<Rightarrow> None | y # _ \<Rightarrow> Some y) acc' = fold_loop f (ll_nodes l ys) acc'" for acc'
    using Cons.IH [of "xs @ [y]"] Cons.prems by simp
  show ?case
    by (subst for_nodes.simps, cases ys)
      (use d n ih in \<open>auto simp: ll_nodes_def split: option.splits sum.splits\<close>)
qed

lemma for_nodes_all:
  assumes "ll_wf l ps"
  shows "for_nodes (ll_heap l) f (ll_list l) acc = fold_loop f (ll_nodes l ps) acc"
proof -
  have "ll_list l = (case ps of [] \<Rightarrow> None | p # _ \<Rightarrow> Some p)"
    using assms by (auto simp: ll_wf_def split: list.splits elim: chain.elims)
  then show ?thesis using for_nodes_from [of l "[]" ps] assms by simp
qed

text \<open>
  The loop that removes nodes while it runs. The body looks at the data and either keeps the node
  (\<^const>\<open>Inr\<close>) or has it removed (\<^const>\<open>Inl\<close>), with the states to go on with when the removal fails
  and when it succeeds. The result says whether all removals succeeded; the loop ends at the first
  failure.
\<close>

partial_function (option) unlink_loop ::
  "'a u_linklist \<Rightarrow> ('a option \<Rightarrow> 's \<Rightarrow> (('s \<times> 's) + 's) option) \<Rightarrow> addr option \<Rightarrow> 's
     \<Rightarrow> (bool \<times> 'a u_linklist \<times> 's) option" where
  "unlink_loop l f it s =
     (case it of
        None \<Rightarrow> Some (True, l, s)
      | Some p \<Rightarrow>
          (case f (u_linklist_get_data (ll_heap l) (Some p)) s of
             None \<Rightarrow> None
           | Some (Inl (failed, removed)) \<Rightarrow>
               (case u_linklist_remove (Some l) (Some (Some p)) of
                  Some (r, Some l', Some it') \<Rightarrow>
                    if r = CA_STATUS_OK then unlink_loop l' f it' removed else Some (False, l', failed)
                | _ \<Rightarrow> None)
           | Some (Inr s') \<Rightarrow>
               (case u_linklist_get_next (ll_heap l) (Some (Some p)) of
                  Some (_, Some it') \<Rightarrow> unlink_loop l f it' s'
                | _ \<Rightarrow> None)))"

text \<open>On a list: the kept nodes and the final state.\<close>

fun fold_unlink :: "('a option \<Rightarrow> 's \<Rightarrow> (('s \<times> 's) + 's) option) \<Rightarrow> (addr \<times> 'a option) list \<Rightarrow> 's
     \<Rightarrow> (addr list \<times> 's) option" where
  "fold_unlink f [] s = Some ([], s)"
| "fold_unlink f ((p, x) # xs) s =
     (case f x s of
        None \<Rightarrow> None
      | Some (Inl (_, s')) \<Rightarrow> fold_unlink f xs s'
      | Some (Inr s') \<Rightarrow> map_option (\<lambda>(ks, t). (p # ks, t)) (fold_unlink f xs s'))"

lemma ll_nodes_simps [simp]:
  "ll_nodes l [] = []" "ll_nodes l (p # ps) = (p, Some (nd_data (the (ll_heap l p)))) # ll_nodes l ps"
  "ll_nodes l (ps @ qs) = ll_nodes l ps @ ll_nodes l qs"
  by (simp_all add: ll_nodes_def)

lemma ll_nodes_data: "map (the \<circ> snd) (ll_nodes l ps) = ll_data l ps" "map fst (ll_nodes l ps) = ps"
  by (simp_all add: ll_nodes_def ll_data_def comp_def)

lemma ll_nodes_eq: "ll_nodes l ps = zip ps (map Some (ll_data l ps))"
  by (induction ps) (simp_all add: ll_data_def)

lemma find_prev_live: "find_prev h it p = Some (q, n) \<Longrightarrow> h q = Some n"
proof -
  assume f: "find_prev h it p = Some (q, n)"
  have "(\<lambda>h it p r. h (fst r) = Some (snd r)) h it p (q, n)"
  proof (rule find_prev.raw_induct [OF _ f])
    fix rec :: "'a heap \<Rightarrow> addr \<Rightarrow> addr \<Rightarrow> (addr \<times> 'a node) option" and h it p r
    assume ih: "\<And>h it p r. rec h it p = Some r \<Longrightarrow> h (fst r) = Some (snd r)"
      and b: "(case h p of None \<Rightarrow> None
         | Some n \<Rightarrow> (case nd_next n of None \<Rightarrow> Some (p, n) | Some q \<Rightarrow> if q = it then Some (p, n) else rec h it q)) = Some r"
    then show "h (fst r) = Some (snd r)" by (cases "h p") (auto split: option.splits if_splits dest: ih)
  qed
  then show ?thesis by simp
qed

text \<open>A removal frees at most a node.\<close>

lemma remove_dom:
  assumes "u_linklist_remove (Some l) it = Some (r, Some l', it')" and "ll_heap l q = None"
  shows "ll_heap l' q = None"
  using assms
  by (auto simp: u_linklist_remove_def split: option.splits prod.splits if_splits dest!: find_prev_live)

lemma ll_nodes_cong: "ll_data l' ps = ll_data l ps \<Longrightarrow> ll_nodes l' ps = ll_nodes l ps"
  by (simp add: ll_nodes_eq)

lemma unlink_loop_from:
  assumes "ll_wf l (xs @ ys)"
  shows "case fold_unlink f (ll_nodes l ys) s of
      None \<Rightarrow> unlink_loop l f (case ys of [] \<Rightarrow> None | y # _ \<Rightarrow> Some y) s = None
    | Some (ks, s') \<Rightarrow> \<exists>l'. unlink_loop l f (case ys of [] \<Rightarrow> None | y # _ \<Rightarrow> Some y) s = Some (True, l', s')
        \<and> ll_wf l' (xs @ ks) \<and> ll_nodes l' (xs @ ks) = ll_nodes l (xs @ ks)
        \<and> set ks \<subseteq> set ys \<and> (\<forall>q. ll_heap l q = None \<longrightarrow> ll_heap l' q = None)
        \<and> (\<forall>q\<in>set ys - set ks. ll_heap l' q = None)"
  using assms
proof (induction ys arbitrary: l xs s)
  case Nil
  then show ?case by (simp add: unlink_loop.simps)
next
  case (Cons y ys)
  let ?hd = "\<lambda>ys. case ys of [] \<Rightarrow> None | y # _ \<Rightarrow> Some y"
  have "ll_heap l y \<noteq> None" using Cons.prems chain_dom by (fastforce simp: ll_wf_def)
  then have d: "u_linklist_get_data (ll_heap l) (Some y) = Some (nd_data (the (ll_heap l y)))"
    by (auto simp: u_linklist_get_data_def)
  obtain it n where n: "u_linklist_get_next (ll_heap l) (Some (Some y)) = Some (it, Some (?hd ys))"
    using get_next_wf [OF Cons.prems] by (cases ys) auto
  obtain l1 where r: "u_linklist_remove (Some l) (Some (Some y)) = Some (CA_STATUS_OK, Some l1, Some (?hd ys))"
    and w: "ll_wf l1 (xs @ ys)" "ll_data l1 (xs @ ys) = ll_data l xs @ ll_data l ys" "ll_heap l1 y = None"
    using remove_ok [OF Cons.prems] by blast
  have nd: "ll_nodes l1 (xs @ ys) = ll_nodes l (xs @ ys)"
    using w(2) by (intro ll_nodes_cong) (simp add: ll_data_def)
  then have "ll_nodes l1 ys = ll_nodes l ys" by (simp add: ll_nodes_def)
  have sub: "ll_nodes l1 (xs @ ks) = ll_nodes l (xs @ ks)" if "set ks \<subseteq> set ys" for ks
    using nd that by (auto simp: ll_nodes_def)
  show ?case
  proof (cases "f (Some (nd_data (the (ll_heap l y)))) s")
    case None
    then show ?thesis using d by (simp add: unlink_loop.simps)
  next
    case (Some a)
    show ?thesis
    proof (cases a)
      case (Inl b)
      obtain failed removed where b: "b = (failed, removed)" by fastforce
      have "unlink_loop l f (?hd (y # ys)) s = unlink_loop l1 f (?hd ys) removed"
        using d r Some Inl b by (subst unlink_loop.simps) simp
      then show ?thesis
        using Cons.IH [OF w(1), of removed] Some Inl b sub \<open>ll_nodes l1 ys = ll_nodes l ys\<close> remove_dom [OF r] w(3)
        by (auto split: option.splits)
    next
      case (Inr s1)
      have "unlink_loop l f (?hd (y # ys)) s = unlink_loop l f (?hd ys) s1"
        using d n Some Inr by (subst unlink_loop.simps) simp
      then show ?thesis
        using Cons.IH [of l "xs @ [y]" s1] Cons.prems Some Inr by (auto split: option.splits)
    qed
  qed
qed

lemma unlink_loop_all:
  assumes wf: "ll_wf l ps"
  shows "case fold_unlink f (ll_nodes l ps) s of
      None \<Rightarrow> unlink_loop l f (ll_list l) s = None
    | Some (ks, s') \<Rightarrow> \<exists>l'. unlink_loop l f (ll_list l) s = Some (True, l', s')
        \<and> ll_wf l' ks \<and> ll_nodes l' ks = ll_nodes l ks
        \<and> set ks \<subseteq> set ps \<and> (\<forall>q. ll_heap l q = None \<longrightarrow> ll_heap l' q = None)
        \<and> (\<forall>q\<in>set ps - set ks. ll_heap l' q = None)"
proof -
  have "ll_list l = (case ps of [] \<Rightarrow> None | p # _ \<Rightarrow> Some p)"
    using assms by (auto simp: ll_wf_def split: list.splits elim: chain.elims)
  then show ?thesis using unlink_loop_from [of l "[]" ps f s, unfolded append_Nil, OF wf] by (simp only:)
qed

text \<open>A search: the loop ends at the first element with the property.\<close>

lemma for_nodes_search:
  assumes wf: "ll_wf l ps"
    and miss: "\<And>p e. e \<in> set (ll_data l ps) \<Longrightarrow> \<not> P e \<Longrightarrow> f p (Some e) acc = Some (Inr acc)"
    and hit: "\<And>p e. find P (ll_data l ps) = Some e \<Longrightarrow> f p (Some e) acc = Some (Inl (h p))"
  shows "find P (ll_data l ps) = None \<Longrightarrow> for_nodes (ll_heap l) f (ll_list l) acc = Some (Inr acc)"
    and "find P (ll_data l ps) = Some e \<Longrightarrow> \<exists>p xs ys. ps = xs @ p # ys \<and> ll_data l ps = ll_data l xs @ e # ll_data l ys
      \<and> for_nodes (ll_heap l) f (ll_list l) acc = Some (Inl (h p))"
proof -
  let ?d = "\<lambda>p. nd_data (the (ll_heap l p))"
  have "if find P (map ?d qs) = None then fold_loop f (ll_nodes l qs) acc = Some (Inr acc)
        else \<exists>p xs ys. qs = xs @ p # ys \<and> P (?d p) \<and> (\<forall>q\<in>set xs. \<not> P (?d q))
          \<and> fold_loop f (ll_nodes l qs) acc = Some (Inl (h p))"
    if "\<And>q. q \<in> set qs \<Longrightarrow> \<not> P (?d q) \<Longrightarrow> f q (Some (?d q)) acc = Some (Inr acc)"
      and "\<And>p. find P (map ?d qs) = Some (?d p) \<Longrightarrow> f p (Some (?d p)) acc = Some (Inl (h p))" for qs
    using that
  proof (induction qs)
    case (Cons q qs)
    show ?case
    proof (cases "P (?d q)")
      case True
      then have "fold_loop f (ll_nodes l (q # qs)) acc = Some (Inl (h q))" using Cons.prems(2) [of q] by simp
      with True show ?thesis by (simp, intro exI [of _ q] exI [of _ "[]"]) auto
    next
      case False
      then have "fold_loop f (ll_nodes l (q # qs)) acc = fold_loop f (ll_nodes l qs) acc" using Cons.prems(1) by simp
      moreover have "if find P (map ?d qs) = None then fold_loop f (ll_nodes l qs) acc = Some (Inr acc)
        else \<exists>p xs ys. qs = xs @ p # ys \<and> P (?d p) \<and> (\<forall>q\<in>set xs. \<not> P (?d q))
          \<and> fold_loop f (ll_nodes l qs) acc = Some (Inl (h p))"
        using Cons.IH Cons.prems False by simp
      ultimately show ?thesis using False by (auto split: if_splits) (metis append_Cons set_ConsD)
    qed
  qed simp
  from this [of ps] miss hit
  have main: "if find P (ll_data l ps) = None then fold_loop f (ll_nodes l ps) acc = Some (Inr acc)
        else \<exists>p xs ys. ps = xs @ p # ys \<and> P (?d p) \<and> (\<forall>q\<in>set xs. \<not> P (?d q))
          \<and> fold_loop f (ll_nodes l ps) acc = Some (Inl (h p))"
    by (simp add: ll_data_def)
  then show "find P (ll_data l ps) = None \<Longrightarrow> for_nodes (ll_heap l) f (ll_list l) acc = Some (Inr acc)"
    by (simp add: for_nodes_all [OF wf])
  assume e: "find P (ll_data l ps) = Some e"
  with main obtain p xs ys where p: "ps = xs @ p # ys" "P (?d p)" "\<forall>q\<in>set xs. \<not> P (?d q)"
    "fold_loop f (ll_nodes l ps) acc = Some (Inl (h p))" by auto
  have "find P (map ?d xs @ ?d p # map ?d ys) = Some (?d p)" if "\<forall>q\<in>set xs. \<not> P (?d q)" for xs ys
    using that p(2) by (induction xs) auto
  then have "?d p = e" using e p(1,3) by (simp add: ll_data_def)
  then show "\<exists>p xs ys. ps = xs @ p # ys \<and> ll_data l ps = ll_data l xs @ e # ll_data l ys
      \<and> for_nodes (ll_heap l) f (ll_list l) acc = Some (Inl (h p))"
    using p by (intro exI [of _ p] exI [of _ xs] exI [of _ ys]) (simp add: for_nodes_all [OF wf] ll_data_def)
qed

end
