(* ===== verification/UArraylist.thy ===== *)
theory UArraylist
  imports Prelude
begin

text \<open>
  The growable pointer array of \<^verbatim>\<open>resource/csdk/connectivity/common/src/uarraylist.c\<close>: its
  record, its operations, the invariant, and the interface \<open>indexed_list\<close> that the
  retransmission module and the routing table rely on.
\<close>

section \<open>State\<close>

text \<open>
  \<open>al_data\<close> holds the slots of the block that \<open>list->data\<close> points to; its HOL length is the
  number of slots that were really allocated, which need not be \<open>al_capacity\<close>. A slot is
  \<^const>\<open>None\<close> when it holds NULL; slots whose content C leaves indeterminate are \<^const>\<open>None\<close>
  too and are never read. \<open>size_t\<close> is 64 bits wide: products of sizes are taken
  modulo \<open>2^64\<close> where the code does not bound the factors.
\<close>

record 'a u_arraylist =
  al_data :: "'a option list"
  al_length :: nat
  al_capacity :: nat

definition U_ARRAYLIST_DEFAULT_CAPACITY :: nat where
  "U_ARRAYLIST_DEFAULT_CAPACITY = 1"

definition sizeof_ptr :: nat where
  "sizeof_ptr = 8"

definition sizeof_u_arraylist :: nat where
  "sizeof_u_arraylist = 24"

definition size_t_mod :: nat where
  "size_t_mod = 2 ^ 64"

text \<open>What \<open>realloc\<close> does to the contents: a prefix is kept, new slots are indeterminate.\<close>

definition al_resize :: "nat \<Rightarrow> 'a option list \<Rightarrow> 'a option list" where
  "al_resize n xs = take n xs @ replicate (n - length xs) None"

section \<open>Operations\<close>

definition u_arraylist_create :: "mem \<Rightarrow> 'a u_arraylist option \<times> mem" where
  "u_arraylist_create m =
     (case OICCalloc m 1 sizeof_u_arraylist of
        (False, m1) \<Rightarrow> (None, m1)
      | (True, m1) \<Rightarrow>
          (case OICMalloc m1 (U_ARRAYLIST_DEFAULT_CAPACITY * sizeof_ptr) of
             (False, m2) \<Rightarrow> (None, m2)
           | (True, m2) \<Rightarrow>
               (Some \<lparr>al_data = replicate U_ARRAYLIST_DEFAULT_CAPACITY None, al_length = 0,
                      al_capacity = U_ARRAYLIST_DEFAULT_CAPACITY\<rparr>, m2)))"

text \<open>The list pointer itself is set to NULL; both blocks are released.\<close>

definition u_arraylist_free :: "'a u_arraylist option option \<Rightarrow> 'a u_arraylist option option" where
  "u_arraylist_free l =
     (case l of None \<Rightarrow> None | Some None \<Rightarrow> Some None | Some (Some _) \<Rightarrow> Some None)"

definition u_arraylist_reserve ::
  "mem \<Rightarrow> 'a u_arraylist option \<Rightarrow> nat \<Rightarrow> bool \<times> 'a u_arraylist option \<times> mem" where
  "u_arraylist_reserve m l count =
     (case l of
        None \<Rightarrow> (True, None, m)
      | Some s \<Rightarrow>
          if count > al_capacity s then
            (let bytes = (count * sizeof_ptr) mod size_t_mod in
             case OICRealloc m True bytes of
               (False, m1) \<Rightarrow> (False, Some (if bytes = 0 then s\<lparr>al_data := []\<rparr> else s), m1)
             | (True, m1) \<Rightarrow>
                 (True, Some (s\<lparr>al_data := al_resize (bytes div sizeof_ptr) (al_data s),
                                al_capacity := count\<rparr>), m1))
          else (True, Some s, m))"

definition u_arraylist_shrink_to_fit ::
  "mem \<Rightarrow> 'a u_arraylist option \<Rightarrow> 'a u_arraylist option \<times> mem" where
  "u_arraylist_shrink_to_fit m l =
     (case l of
        None \<Rightarrow> (None, m)
      | Some s \<Rightarrow>
          if al_capacity s > al_length s \<and> al_length s \<ge> U_ARRAYLIST_DEFAULT_CAPACITY then
            (case OICRealloc m True (al_length s * sizeof_ptr) of
               (False, m1) \<Rightarrow> (Some s, m1)
             | (True, m1) \<Rightarrow>
                 (Some (s\<lparr>al_data := al_resize (al_length s) (al_data s),
                          al_capacity := al_length s\<rparr>), m1))
          else (Some s, m))"

definition u_arraylist_get :: "'a u_arraylist option \<Rightarrow> nat \<Rightarrow> 'a option" where
  "u_arraylist_get l index =
     (case l of
        None \<Rightarrow> None
      | Some s \<Rightarrow> if index < al_length s then al_data s ! index else None)"

function get_index_loop :: "'a u_arraylist \<Rightarrow> 'a option \<Rightarrow> nat \<Rightarrow> nat option" where
  "get_index_loop s d i =
     (if i < al_length s then
        (if d = al_data s ! i then Some i else get_index_loop s d (Suc i))
      else None)"
  by pat_completeness auto
termination
  by (relation "measure (\<lambda>(s, d, i). al_length s - i)") auto

declare get_index_loop.simps [simp del]

text \<open>The boolean result is \<^const>\<open>None\<close> for false; \<open>*index\<close> is the value on success.\<close>

definition u_arraylist_get_index :: "'a u_arraylist option \<Rightarrow> 'a option \<Rightarrow> nat option" where
  "u_arraylist_get_index l d =
     (case (l, d) of
        (Some s, Some x) \<Rightarrow> get_index_loop s (Some x) 0
      | _ \<Rightarrow> None)"

definition u_arraylist_add ::
  "mem \<Rightarrow> 'a u_arraylist option \<Rightarrow> 'a option \<Rightarrow> bool \<times> 'a u_arraylist option \<times> mem" where
  "u_arraylist_add m l d =
     (case l of
        None \<Rightarrow> (False, None, m)
      | Some s \<Rightarrow>
          (let (ok, s1, m1) =
             (if al_capacity s \<le> al_length s then
                (let new_capacity = ((al_capacity s * 3 + 1) mod size_t_mod) div 2 in
                 case OICRealloc m True ((new_capacity * sizeof_ptr) mod size_t_mod) of
                   (False, m1) \<Rightarrow> (False, s, m1)
                 | (True, m1) \<Rightarrow>
                     (True, s\<lparr>al_data := al_resize new_capacity (al_data s),
                              al_capacity := new_capacity\<rparr>, m1))
              else (True, s, m))
           in if ok then
                (True, Some (s1\<lparr>al_data := (al_data s1)[al_length s1 := d],
                                al_length := al_length s1 + 1\<rparr>), m1)
              else (False, Some s1, m1)))"

definition u_arraylist_remove ::
  "'a u_arraylist option \<Rightarrow> nat \<Rightarrow> 'a option \<times> 'a u_arraylist option" where
  "u_arraylist_remove l index =
     (case l of
        None \<Rightarrow> (None, None)
      | Some s \<Rightarrow>
          if index \<ge> al_length s then (None, Some s)
          else
            (let removed = al_data s ! index;
                 moved = (if index < al_length s - 1
                          then take index (al_data s)
                               @ take (al_length s - index - 1) (drop (index + 1) (al_data s))
                               @ drop (al_length s - 1) (al_data s)
                          else al_data s)
             in (removed, Some (s\<lparr>al_data := moved, al_length := al_length s - 1\<rparr>))))"

definition u_arraylist_length :: "'a u_arraylist option \<Rightarrow> nat" where
  "u_arraylist_length l = (case l of None \<Rightarrow> 0 | Some s \<Rightarrow> al_length s)"

function contains_loop :: "'a u_arraylist \<Rightarrow> 'a option \<Rightarrow> nat \<Rightarrow> bool" where
  "contains_loop s d i =
     (if i < al_length s then (if d = al_data s ! i then True else contains_loop s d (Suc i))
      else False)"
  by pat_completeness auto
termination
  by (relation "measure (\<lambda>(s, d, i). al_length s - i)") auto

declare contains_loop.simps [simp del]

definition u_arraylist_contains :: "'a u_arraylist option \<Rightarrow> 'a option \<Rightarrow> bool" where
  "u_arraylist_contains l d = (case l of None \<Rightarrow> False | Some s \<Rightarrow> contains_loop s d 0)"

text \<open>\<open>u_arraylist_destroy\<close> frees every element first: the model returns the freed pointers.\<close>

definition u_arraylist_destroy :: "'a u_arraylist option \<Rightarrow> 'a option list" where
  "u_arraylist_destroy l =
     (case l of None \<Rightarrow> [] | Some s \<Rightarrow> map (\<lambda>i. al_data s ! i) [0..<al_length s])"

section \<open>Invariant and abstraction\<close>

definition al_inv :: "'a u_arraylist \<Rightarrow> bool" where
  "al_inv s \<longleftrightarrow> al_length s \<le> al_capacity s \<and> length (al_data s) = al_capacity s
     \<and> 1 \<le> al_capacity s \<and> al_capacity s * sizeof_ptr \<le> max_object"

definition al_abs :: "'a u_arraylist option \<Rightarrow> 'a option list" where
  "al_abs l = (case l of None \<Rightarrow> [] | Some s \<Rightarrow> take (al_length s) (al_data s))"

definition al_ok :: "'a u_arraylist option \<Rightarrow> bool" where
  "al_ok l = (case l of None \<Rightarrow> True | Some s \<Rightarrow> al_inv s)"

lemmas al_defs = al_inv_def al_abs_def al_ok_def sizeof_ptr_def size_t_mod_def max_object_def
  U_ARRAYLIST_DEFAULT_CAPACITY_def

lemma al_resize_length [simp]: "length (al_resize n xs) = n"
  by (simp add: al_resize_def)

lemma al_resize_take: "k \<le> n \<Longrightarrow> k \<le> length xs \<Longrightarrow> take k (al_resize n xs) = take k xs"
  by (simp add: al_resize_def min_def)

lemma al_abs_None [simp]: "al_abs None = []"
  by (simp add: al_abs_def)

lemma length_al_abs: "al_inv s \<Longrightarrow> length (al_abs (Some s)) = al_length s"
  by (simp add: al_defs)

lemma u_arraylist_create_ok:
  assumes "u_arraylist_create m = (l, m')"
  shows "al_ok l" and "al_abs l = []"
  using assms
  by (auto simp: u_arraylist_create_def al_defs split: prod.splits bool.splits)

text \<open>A growing step never overflows \<open>size_t\<close> and leaves room for one more element.\<close>

lemma al_grow_bounds:
  assumes "al_inv s"
  defines "n \<equiv> ((al_capacity s * 3 + 1) mod size_t_mod) div 2"
  shows "n = (al_capacity s * 3 + 1) div 2" and "al_capacity s < n"
    and "(n * sizeof_ptr) mod size_t_mod = n * sizeof_ptr"
proof -
  have b: "1 \<le> al_capacity s" "al_capacity s * 8 \<le> 2 ^ 63 - 1"
    using assms(1) by (auto simp: al_defs)
  then have "al_capacity s * 3 + 1 < 2 ^ 64" by simp
  then show n: "n = (al_capacity s * 3 + 1) div 2"
    by (simp add: n_def size_t_mod_def)
  show "al_capacity s < n" using n b by simp
  have "n * 8 \<le> (al_capacity s * 3 + 1) * 4" using n by simp
  also have "\<dots> < 2 ^ 64" using b by simp
  finally show "(n * sizeof_ptr) mod size_t_mod = n * sizeof_ptr"
    by (simp add: sizeof_ptr_def size_t_mod_def)
qed

lemma u_arraylist_add_ok:
  assumes inv: "al_inv s" and add: "u_arraylist_add m (Some s) d = (ok, l, m')"
  shows "al_ok l" and "al_abs l = (if ok then al_abs (Some s) @ [d] else al_abs (Some s))"
    and "l \<noteq> None"
proof -
  let ?n = "((al_capacity s * 3 + 1) mod size_t_mod) div 2"
  note g = al_grow_bounds [OF inv]
  have len: "al_length s \<le> al_capacity s" "length (al_data s) = al_capacity s"
    using inv by (auto simp: al_inv_def)
  have grown: "al_inv (s\<lparr>al_data := al_resize ?n (al_data s), al_capacity := ?n\<rparr>)"
    if "OICRealloc m True ((?n * sizeof_ptr) mod size_t_mod) = (True, m1)" for m1
    using OICRealloc_bound [OF that] g len by (simp add: al_inv_def)
  have store: "al_inv (t\<lparr>al_data := (al_data t)[al_length t := d], al_length := al_length t + 1\<rparr>)
      \<and> take (al_length t + 1) ((al_data t)[al_length t := d]) = take (al_length t) (al_data t) @ [d]"
    if "al_inv t" "al_length t < al_capacity t" for t :: "'a u_arraylist"
    using that by (auto simp: al_inv_def take_Suc_conv_app_nth)
  have kept: "take (al_length s) (al_resize ?n (al_data s)) = take (al_length s) (al_data s)"
    using g len by (intro al_resize_take) auto
  show "al_ok l" and "al_abs l = (if ok then al_abs (Some s) @ [d] else al_abs (Some s))"
    and "l \<noteq> None"
    using add inv grown store [of "s\<lparr>al_data := al_resize ?n (al_data s), al_capacity := ?n\<rparr>"]
      store [of s] kept g len
    by (auto simp: u_arraylist_add_def al_ok_def al_abs_def Let_def
        split: prod.splits bool.splits if_splits)
qed

text \<open>Without a failing allocation an array of fewer than \<open>2^58\<close> slots can always grow.\<close>

lemma u_arraylist_add_room:
  assumes inv: "al_inv s" and cap: "al_capacity s < 2 ^ 58"
    and add: "u_arraylist_add [] (Some s) d = (ok, l, m')"
  shows "ok"
proof (cases "al_capacity s \<le> al_length s")
  case True
  let ?n = "((al_capacity s * 3 + 1) mod size_t_mod) div 2"
  have "?n = (al_capacity s * 3 + 1) div 2" using cap by (simp add: size_t_mod_def)
  moreover have "0 < al_capacity s" using inv by (simp add: al_inv_def)
  ultimately have "0 < (?n * sizeof_ptr) mod size_t_mod" "(?n * sizeof_ptr) mod size_t_mod \<le> max_object"
    using cap by (simp_all add: sizeof_ptr_def size_t_mod_def max_object_def)
  then have "OICRealloc [] True ((?n * sizeof_ptr) mod size_t_mod) = (True, [])" by (simp add: OICRealloc_def)
  then show ?thesis using add True by (simp add: u_arraylist_add_def Let_def)
next
  case False
  then show ?thesis using add by (simp add: u_arraylist_add_def)
qed

lemma al_remove_prefix:
  assumes "index < k" and "k \<le> length xs"
  shows "take (k - 1) (take index xs @ take (k - index - 1) (drop (index + 1) xs) @ drop (k - 1) xs)
         = remove_nth index (take k xs)"
proof -
  have "take (k - 1) xs = take index xs" if "k - 1 \<le> index"
  proof -
    have "k - 1 = index" using that assms(1) by simp
    then show ?thesis by simp
  qed
  with assms show ?thesis by (simp add: remove_nth_def take_drop min_def)
qed

lemma u_arraylist_remove_ok:
  assumes inv: "al_inv s" and rm: "u_arraylist_remove (Some s) index = (x, l)"
  shows "al_ok l"
    and "index < al_length s \<Longrightarrow> x = al_abs (Some s) ! index"
    and "index < al_length s \<Longrightarrow> al_abs l = remove_nth index (al_abs (Some s))"
    and "al_length s \<le> index \<Longrightarrow> x = None \<and> l = Some s"
proof -
  have len: "al_length s \<le> length (al_data s)" using inv by (simp add: al_inv_def)
  have last: "take (al_length s - 1) (al_data s) = remove_nth index (take (al_length s) (al_data s))"
    if "index < al_length s" "\<not> index < al_length s - 1"
  proof -
    from that have "index = al_length s - 1" by simp
    with that(1) len show ?thesis by (simp add: remove_nth_def min_def)
  qed
  note prefix = al_remove_prefix [OF _ len]
  show "al_ok l" using rm inv
    by (auto simp: u_arraylist_remove_def al_ok_def al_inv_def Let_def split: if_splits)
  show "x = al_abs (Some s) ! index" if "index < al_length s"
    using rm that by (auto simp: u_arraylist_remove_def al_abs_def Let_def split: if_splits)
  show "al_abs l = remove_nth index (al_abs (Some s))" if "index < al_length s"
    using rm that prefix [OF that] last
    by (auto simp: u_arraylist_remove_def al_abs_def Let_def split: if_splits)
  show "x = None \<and> l = Some s" if "al_length s \<le> index"
    using rm that by (simp add: u_arraylist_remove_def)
qed

section \<open>The interface the other modules use\<close>

text \<open>
  Clients read a list through its length and \<open>get\<close>, append and delete by index. The laws say
  what each operation means on the abstract list of pointers, under the invariant.
\<close>

locale indexed_list =
  fixes len :: "'s \<Rightarrow> nat"
    and fetch :: "'s \<Rightarrow> nat \<Rightarrow> 'a option"
    and del :: "'s \<Rightarrow> nat \<Rightarrow> 'a option \<times> 's"
    and abs :: "'s \<Rightarrow> 'a option list"
    and ok :: "'s \<Rightarrow> bool"
  assumes len_abs: "ok s \<Longrightarrow> len s = length (abs s)"
    and fetch_abs: "ok s \<Longrightarrow> i < length (abs s) \<Longrightarrow> fetch s i = abs s ! i"
    and fetch_out: "ok s \<Longrightarrow> length (abs s) \<le> i \<Longrightarrow> fetch s i = None"
    and del_abs: "ok s \<Longrightarrow> i < length (abs s) \<Longrightarrow> abs (snd (del s i)) = remove_nth i (abs s)"
    and del_value: "ok s \<Longrightarrow> i < length (abs s) \<Longrightarrow> fst (del s i) = abs s ! i"
    and del_ok: "ok s \<Longrightarrow> ok (snd (del s i))"
begin

text \<open>Every forward search loop of a client computes the first matching index.\<close>

lemma search_loop:
  assumes ok: "ok s"
    and loop: "\<And>i. loop i = (if i < len s then (if P (fetch s i) then Some i else loop (Suc i)) else None)"
  shows "loop 0 = find_index P (abs s)"
proof -
  have "loop i = map_option ((+) i) (find_index P (drop i (abs s)))" if "i \<le> length (abs s)" for i
    using that
  proof (induction "length (abs s) - i" arbitrary: i)
    case 0
    then show ?case using loop [of i] by (simp add: len_abs [OF ok])
  next
    case (Suc n)
    then have i: "i < length (abs s)" by simp
    then have d: "drop i (abs s) = abs s ! i # drop (Suc i) (abs s)" by (simp add: Cons_nth_drop_Suc)
    have ih: "loop (Suc i) = map_option ((+) (Suc i)) (find_index P (drop (Suc i) (abs s)))"
      using Suc by simp
    have "loop i = (if P (abs s ! i) then Some i else loop (Suc i))"
      using loop [of i] i by (simp add: len_abs [OF ok] fetch_abs [OF ok])
    moreover have "(+) (Suc i) = (\<lambda>x. Suc (i + x))" by auto
    ultimately show ?case using ih d by (simp add: option.map_comp comp_def)
  qed
  moreover have "(+) 0 = (\<lambda>x::nat. x)" by auto
  ultimately show ?thesis by (simp add: option.map_ident)
qed

end

lemma al_ok_length: "al_ok l \<Longrightarrow> u_arraylist_length l = length (al_abs l)"
  by (auto simp: u_arraylist_length_def al_ok_def al_abs_def al_inv_def split: option.splits)

lemma al_ok_get:
  "al_ok l \<Longrightarrow> u_arraylist_get l i = (if i < length (al_abs l) then al_abs l ! i else None)"
  by (auto simp: u_arraylist_get_def al_ok_def al_abs_def al_inv_def split: option.splits)

lemma al_ok_remove:
  assumes "al_ok l"
  shows "al_ok (snd (u_arraylist_remove l i))"
    and "i < length (al_abs l) \<Longrightarrow> fst (u_arraylist_remove l i) = al_abs l ! i"
    and "i < length (al_abs l) \<Longrightarrow> al_abs (snd (u_arraylist_remove l i)) = remove_nth i (al_abs l)"
proof -
  have "al_ok (snd (u_arraylist_remove l i))
     \<and> (i < length (al_abs l) \<longrightarrow> fst (u_arraylist_remove l i) = al_abs l ! i
        \<and> al_abs (snd (u_arraylist_remove l i)) = remove_nth i (al_abs l))"
  proof (cases l)
    case None
    then show ?thesis by (simp add: u_arraylist_remove_def al_ok_def)
  next
    case (Some s)
    with assms have inv: "al_inv s" by (simp add: al_ok_def)
    obtain x l' where r: "u_arraylist_remove (Some s) i = (x, l')" by fastforce
    show ?thesis using u_arraylist_remove_ok [OF inv r] r Some length_al_abs [OF inv] by simp
  qed
  then show "al_ok (snd (u_arraylist_remove l i))"
    and "i < length (al_abs l) \<Longrightarrow> fst (u_arraylist_remove l i) = al_abs l ! i"
    and "i < length (al_abs l) \<Longrightarrow> al_abs (snd (u_arraylist_remove l i)) = remove_nth i (al_abs l)"
    by auto
qed

interpretation al: indexed_list u_arraylist_length u_arraylist_get u_arraylist_remove al_abs al_ok
  by unfold_locales (auto simp: al_ok_length al_ok_get al_ok_remove)

text \<open>The loop of a client over all slots, with a body as in the loops over linked lists.\<close>

function for_slots ::
  "'a u_arraylist option \<Rightarrow> (nat \<Rightarrow> 'a option \<Rightarrow> 'b \<Rightarrow> ('r + 'b) option) \<Rightarrow> nat \<Rightarrow> 'b \<Rightarrow> ('r + 'b) option" where
  "for_slots l f i acc =
     (if i < u_arraylist_length l then
        (case f i (u_arraylist_get l i) acc of
           None \<Rightarrow> None | Some (Inl r) \<Rightarrow> Some (Inl r) | Some (Inr acc') \<Rightarrow> for_slots l f (Suc i) acc')
      else Some (Inr acc))"
  by pat_completeness auto
termination
  by (relation "measure (\<lambda>(l, f, i, acc). u_arraylist_length l - i)") auto

declare for_slots.simps [simp del]

lemma for_slots_all:
  assumes ok: "al_ok l"
  shows "for_slots l f 0 acc = fold_loop f (enumerate 0 (al_abs l)) acc"
proof -
  have "for_slots l f i acc = fold_loop f (enumerate i (drop i (al_abs l))) acc" if "i \<le> length (al_abs l)" for i acc
    using that
  proof (induction "length (al_abs l) - i" arbitrary: i acc)
    case 0
    then show ?case by (subst for_slots.simps) (simp add: al_ok_length [OF ok])
  next
    case (Suc n)
    then have i: "i < length (al_abs l)" by simp
    have d: "drop i (al_abs l) = al_abs l ! i # drop (Suc i) (al_abs l)" using i by (simp add: Cons_nth_drop_Suc)
    have "for_slots l f (Suc i) a = fold_loop f (enumerate (Suc i) (drop (Suc i) (al_abs l))) a" for a
      using Suc by simp
    then show ?case
      by (subst for_slots.simps) (simp add: i d al_ok_length [OF ok] al_ok_get [OF ok] split: option.splits sum.splits)
  qed
  from this [of 0] show ?thesis by simp
qed

section \<open>Properties\<close>

lemma get_index_loop_eq:
  assumes "al_inv s"
  shows "get_index_loop s d 0 = find_index ((=) d) (al_abs (Some s))"
proof (rule al.search_loop)
  show "al_ok (Some s)" using assms by (simp add: al_ok_def)
  show "get_index_loop s d i =
      (if i < u_arraylist_length (Some s)
       then if d = u_arraylist_get (Some s) i then Some i else get_index_loop s d (Suc i)
       else None)" for i
    by (subst get_index_loop.simps) (simp add: u_arraylist_length_def u_arraylist_get_def)
qed

lemma contains_loop_eq:
  assumes "al_inv s"
  shows "contains_loop s d 0 \<longleftrightarrow> d \<in> set (al_abs (Some s))"
proof -
  have *: "contains_loop s d i \<longleftrightarrow> get_index_loop s d i \<noteq> None" for i
    by (induction s d i rule: contains_loop.induct)
      (subst contains_loop.simps, subst get_index_loop.simps, auto)
  show ?thesis
    unfolding * get_index_loop_eq [OF assms] by (auto simp: find_index_None)
qed

text \<open>
  Adding an element to a well-formed list either appends it at the end of the abstract list
  or, when \<open>realloc\<close> fails, leaves the list as it was; in both cases the invariant holds, so the
  write is inside the allocated block and no size computation wrapped around.
\<close>

lemma u_arraylist_add_correct:
  assumes "al_inv s" and "u_arraylist_add m (Some s) d = (ok, l, m')"
  shows "\<exists>s'. l = Some s' \<and> al_inv s'
     \<and> al_abs l = (if ok then al_abs (Some s) @ [d] else al_abs (Some s))"
  using u_arraylist_add_ok [OF assms] by (auto simp: al_ok_def)

lemma u_arraylist_add_correct_example:
  "\<exists>l. u_arraylist_add [] (Some \<lparr>al_data = [Some (7::nat)], al_length = 1, al_capacity = 1\<rparr>) (Some 9)
       = (True, l, []) \<and> al_abs l = [Some 7, Some 9]"
proof -
  have i: "al_inv \<lparr>al_data = [Some (7::nat)], al_length = 1, al_capacity = 1\<rparr>"
    by (simp add: al_defs)
  have a: "u_arraylist_add [] (Some \<lparr>al_data = [Some (7::nat)], al_length = 1, al_capacity = 1\<rparr>) (Some 9)
    = (True, Some \<lparr>al_data = [Some 7, Some 9], al_length = 2, al_capacity = 2\<rparr>, [])"
    by (simp add: u_arraylist_add_def al_defs OICRealloc_def al_resize_def Let_def)
  show ?thesis using a u_arraylist_add_correct [OF i a] by (simp add: al_abs_def)
qed

text \<open>
  Removing index \<open>i\<close> of a well-formed list returns the \<open>i\<close>-th pointer and deletes exactly
  that position, keeping the order of the others (the \<open>memmove\<close>) and the invariant; an index
  out of range changes nothing and returns NULL.
\<close>

lemma u_arraylist_remove_correct:
  assumes "al_inv s"
  shows "u_arraylist_remove (Some s) i =
      (if i < al_length s then (al_abs (Some s) ! i, snd (u_arraylist_remove (Some s) i))
       else (None, Some s))
    \<and> al_ok (snd (u_arraylist_remove (Some s) i))
    \<and> (i < al_length s \<longrightarrow>
         al_abs (snd (u_arraylist_remove (Some s) i)) = remove_nth i (al_abs (Some s)))"
proof -
  obtain x l where r: "u_arraylist_remove (Some s) i = (x, l)" by fastforce
  show ?thesis using u_arraylist_remove_ok [OF assms r] r by auto
qed

lemma u_arraylist_remove_correct_example:
  "al_inv \<lparr>al_data = [Some (1::nat), Some 2, Some 3], al_length = 3, al_capacity = 3\<rparr>
   \<and> al_abs (snd (u_arraylist_remove
        (Some \<lparr>al_data = [Some 1, Some 2, Some (3::nat)], al_length = 3, al_capacity = 3\<rparr>) 1))
     = [Some 1, Some 3]"
proof -
  have i: "al_inv \<lparr>al_data = [Some (1::nat), Some 2, Some 3], al_length = 3, al_capacity = 3\<rparr>"
    by (simp add: al_defs)
  show ?thesis using i u_arraylist_remove_correct [OF i, of 1]
    by (simp add: al_abs_def remove_nth_def)
qed

text \<open>
  The two searches agree with each other and with the abstract list: \<open>get_index\<close> returns the
  first position of the pointer, and \<open>contains\<close> is true exactly when there is one.
\<close>

lemma u_arraylist_search_correct:
  assumes "al_inv s"
  shows "u_arraylist_get_index (Some s) (Some x) = find_index ((=) (Some x)) (al_abs (Some s))
    \<and> (u_arraylist_contains (Some s) (Some x) \<longleftrightarrow> u_arraylist_get_index (Some s) (Some x) \<noteq> None)"
  using contains_loop_eq [OF assms, of "Some x"]
  by (auto simp: u_arraylist_get_index_def u_arraylist_contains_def get_index_loop_eq [OF assms]
      find_index_None)

lemma u_arraylist_reserve_ok:
  assumes inv: "al_inv s" and c: "count < 2 ^ 61"
    and r: "u_arraylist_reserve m (Some s) count = (ok, l, m')"
  shows "al_ok l \<and> al_abs l = al_abs (Some s)"
proof
  have b: "(count * sizeof_ptr) mod size_t_mod = count * 8"
    using c by (auto simp: sizeof_ptr_def size_t_mod_def)
  have bytes: "al_capacity s < count \<Longrightarrow> count * 8 \<noteq> 0" by simp
  have len: "al_length s \<le> al_capacity s" "length (al_data s) = al_capacity s"
    using inv by (auto simp: al_inv_def)
  have bound: "count * 8 \<le> max_object" if "OICRealloc m True (count * 8) = (True, m1)" for m1
    using OICRealloc_bound [OF that] by simp
  show "al_ok l" using r inv b bytes len bound
    by (auto simp: u_arraylist_reserve_def al_ok_def al_inv_def Let_def sizeof_ptr_def
        split: prod.splits bool.splits if_splits)
  show "al_abs l = al_abs (Some s)" using r inv b bytes len
    by (auto simp: u_arraylist_reserve_def al_abs_def Let_def al_resize_take sizeof_ptr_def
        split: prod.splits bool.splits if_splits)
qed

text \<open>
  \<open>u_arraylist_reserve\<close> does not check the product \<open>count * sizeof(void *)\<close> for overflow: a
  count of \<open>2^61 + 1\<close> succeeds with a block of one slot while \<open>capacity\<close> claims \<open>2^61 + 1\<close>
  slots, so the invariant is broken (\<open>u_arraylist_reserve_ok\<close>: every smaller count keeps it).
\<close>

lemma u_arraylist_reserve_overflow:
  "\<exists>s'. u_arraylist_reserve [] (Some \<lparr>al_data = [Some (7::nat)], al_length = 1, al_capacity = 1\<rparr>)
           (2 ^ 61 + 1) = (True, Some s', [])
         \<and> length (al_data s') = 1 \<and> al_capacity s' = 2 ^ 61 + 1 \<and> \<not> al_inv s'"
  by (simp add: u_arraylist_reserve_def al_defs OICRealloc_def al_resize_def)

end
