(* ===== verification/Retransmission.thy ===== *)
theory Retransmission
  imports CATypes UArraylist
begin

text \<open>
  Retransmission of confirmable messages: \<^verbatim>\<open>resource/csdk/connectivity/src/caretransmission.c\<close> of the
  multi-threaded build. The records of the messages that wait for an acknowledgement live on a heap
  of \<open>CARetransmissionData_t\<close> objects; \<open>dataList\<close> is the array list of pointers to them. Reading an
  object that was freed is undefined and has the value \<^const>\<open>None\<close>. Each public function holds the
  mutex of the context for its whole access to the list, so an execution is a sequence of whole
  calls and whole passes of the retransmission thread. The callbacks (sending, timeout) are events;
  they run under the mutex and cannot touch the list.
\<close>

section \<open>State\<close>

record CARetransmissionData =
  rd_timeStamp :: u64
  rd_timeout :: u64
  rd_triedCount :: u8
  rd_messageId :: u16
  rd_dataType :: nat
  rd_endpoint :: "CAEndpoint option"
  rd_pdu :: "u8 list option"

datatype rt_event =
  Resent "CAEndpoint option" "u8 list option" nat
| TimedOut "CAEndpoint option" "u8 list option"

record CARetransmission =
  rt_supportType :: u32
  rt_tryingCount :: u8
  rt_dataSendMethod :: bool
  rt_timeoutCallback :: bool
  rt_threadPool :: bool
  rt_isStop :: bool
  rt_dataList :: "nat u_arraylist option"
  rt_heap :: "nat \<Rightarrow> CARetransmissionData option"
  rt_events :: "rt_event list"
  rt_mem :: mem

definition DEFAULT_ACK_TIMEOUT_SEC :: u64 where "DEFAULT_ACK_TIMEOUT_SEC = 2"
definition DEFAULT_RETRANSMISSION_COUNT :: u8 where "DEFAULT_RETRANSMISSION_COUNT = 4"
definition DEFAULT_RETRANSMISSION_TYPE :: u32 where "DEFAULT_RETRANSMISSION_TYPE = 1 OR 4 OR 2"
definition MSECS_PER_SEC :: u64 where "MSECS_PER_SEC = 1000"
definition USECS_PER_MSEC :: u64 where "USECS_PER_MSEC = 1000"

definition sizeof_retdata :: nat where "sizeof_retdata = 56"
definition sizeof_endpoint :: nat where "sizeof_endpoint = 184"

section \<open>Timeouts\<close>

text \<open>The random byte is 0 when \<open>OCGetRandomBytes\<close> fails.\<close>

definition CAGetTimeoutValue :: "u8 \<Rightarrow> u64" where
  "CAGetTimeoutValue randomValue =
     (DEFAULT_ACK_TIMEOUT_SEC * MSECS_PER_SEC + drop_bit 8 (MSECS_PER_SEC * ucast randomValue)) * MSECS_PER_SEC"

text \<open>A shift of a 64-bit value by 64 or more places is undefined in C: \<^const>\<open>None\<close>.\<close>

definition CACheckTimeout :: "u64 \<Rightarrow> CARetransmissionData \<Rightarrow> bool option" where
  "CACheckTimeout currentTime retData =
     (let milliTimeoutValue = rd_timeout retData div USECS_PER_MSEC in
      if 64 \<le> unat (rd_triedCount retData) then None
      else
        let timeout = push_bit (unat (rd_triedCount retData)) milliTimeoutValue * USECS_PER_MSEC
        in Some (if currentTime \<ge> rd_timeStamp retData + timeout then True else False))"

section \<open>The pass of the retransmission thread\<close>

text \<open>
  The loop of \<open>CACheckRetransmissionList\<close>: \<open>k\<close> numbers the readings of the clock. The removal of an
  element sets \<open>len\<close> again and repeats the same index (\<open>--i\<close> before the increment of the loop).
\<close>

partial_function (option) check_loop ::
  "(nat \<Rightarrow> u64) \<Rightarrow> nat \<Rightarrow> nat \<Rightarrow> nat \<Rightarrow> CARetransmission \<Rightarrow> CARetransmission option" where
  "check_loop clock k i len c =
     (if i < len then
        (case u_arraylist_get (rt_dataList c) i of
           None \<Rightarrow> check_loop clock k (Suc i) len c
         | Some ptr \<Rightarrow>
             (case rt_heap c ptr of
                None \<Rightarrow> None
              | Some retData \<Rightarrow>
                  (let currentTime = clock k in
                   case CACheckTimeout currentTime retData of
                     None \<Rightarrow> None
                   | Some expired \<Rightarrow>
                   let retData1 = (if expired then retData\<lparr>rd_timeStamp := currentTime,
                                      rd_triedCount := rd_triedCount retData + 1\<rparr> else retData);
                       c1 = (if expired then
                               c\<lparr>rt_heap := (rt_heap c)(ptr \<mapsto> retData1),
                                 rt_events := rt_events c @
                                   (if rt_dataSendMethod c
                                    then [Resent (rd_endpoint retData) (rd_pdu retData) (rd_dataType retData)]
                                    else [])\<rparr>
                             else c)
                   in if rd_triedCount retData1 \<ge> rt_tryingCount c then
                        (case u_arraylist_remove (rt_dataList c1) i of
                           (None, dl) \<Rightarrow> Some (c1\<lparr>rt_dataList := dl\<rparr>)
                         | (Some removed, dl) \<Rightarrow>
                             let c2 = c1\<lparr>rt_dataList := dl,
                                   rt_heap := (rt_heap c1)(removed := None),
                                   rt_events := rt_events c1 @
                                     (if rt_timeoutCallback c
                                      then [TimedOut (rd_endpoint retData1) (rd_pdu retData1)] else [])\<rparr>
                             in check_loop clock (Suc k) i (u_arraylist_length dl) c2)
                      else check_loop clock (Suc k) (Suc i) len c1)))
      else Some c)"

definition CACheckRetransmissionList ::
  "(nat \<Rightarrow> u64) \<Rightarrow> CARetransmission option \<Rightarrow> CARetransmission option option" where
  "CACheckRetransmissionList clock context =
     (case context of
        None \<Rightarrow> Some None
      | Some c \<Rightarrow> map_option Some (check_loop clock 0 0 (u_arraylist_length (rt_dataList c)) c))"

text \<open>One round of the thread \<open>CARetransmissionBaseRoutine\<close>, from the end of its waiting on.\<close>

definition CARetransmissionBaseRoutine_round ::
  "(nat \<Rightarrow> u64) \<Rightarrow> CARetransmission \<Rightarrow> CARetransmission option" where
  "CARetransmissionBaseRoutine_round clock c =
     (if rt_isStop c then Some c
      else case CACheckRetransmissionList clock (Some c) of Some (Some c') \<Rightarrow> Some c' | _ \<Rightarrow> None)"

section \<open>Public operations\<close>

definition CARetransmissionStart :: "CARetransmission option \<Rightarrow> CAResult \<Rightarrow> CAResult" where
  "CARetransmissionStart context add_task_result =
     (case context of
        None \<Rightarrow> CA_STATUS_INVALID_PARAM
      | Some c \<Rightarrow> if \<not> rt_threadPool c then CA_STATUS_INVALID_PARAM else add_task_result)"

definition CARetransmissionInitialize ::
  "CARetransmission option \<Rightarrow> bool \<Rightarrow> bool \<Rightarrow> bool \<Rightarrow> (u32 \<times> u8) option
     \<Rightarrow> CAResult \<times> CARetransmission option" where
  "CARetransmissionInitialize context handle sendMethod timeoutCallback config =
     (case context of
        None \<Rightarrow> (CA_STATUS_INVALID_PARAM, None)
      | Some c \<Rightarrow>
          if \<not> handle then (CA_STATUS_INVALID_PARAM, Some c)
          else
            let cfg = (case config of
                         Some cf \<Rightarrow> cf | None \<Rightarrow> (DEFAULT_RETRANSMISSION_TYPE, DEFAULT_RETRANSMISSION_COUNT));
                (dl, m) = u_arraylist_create (rt_mem c)
            in (CA_STATUS_OK, Some (c\<lparr>rt_supportType := fst cfg, rt_tryingCount := snd cfg,
                   rt_dataSendMethod := sendMethod, rt_timeoutCallback := timeoutCallback,
                   rt_threadPool := True, rt_isStop := False, rt_dataList := dl, rt_mem := m\<rparr>)))"

text \<open>
  The search of \<open>CARetransmissionSentData\<close> and \<open>CARetransmissionReceivedData\<close> for an entry with the
  same message id on the same adapter: \<^const>\<open>None\<close> when a freed entry is read, otherwise the index
  found.
\<close>

partial_function (option) find_entry ::
  "CARetransmission \<Rightarrow> u16 \<Rightarrow> u32 \<Rightarrow> nat \<Rightarrow> nat \<Rightarrow> nat option option" where
  "find_entry c messageId adapter i len =
     (if i < len then
        (case u_arraylist_get (rt_dataList c) i of
           None \<Rightarrow> find_entry c messageId adapter (Suc i) len
         | Some ptr \<Rightarrow>
             (case rt_heap c ptr of
                None \<Rightarrow> None
              | Some currData \<Rightarrow>
                  if rd_endpoint currData \<noteq> None \<and> rd_messageId currData = messageId
                     \<and> ep_adapter (the (rd_endpoint currData)) = adapter
                  then Some (Some i)
                  else find_entry c messageId adapter (Suc i) len))
      else Some None)"

text \<open>
  \<open>a\<close> is the address of the new object, \<open>now\<close> the time and \<open>rnd\<close> the random byte. The three
  allocations come in the order of the code.
\<close>

definition CARetransmissionSentData ::
  "nat \<Rightarrow> u64 \<Rightarrow> u8 \<Rightarrow> CARetransmission option \<Rightarrow> CAEndpoint option \<Rightarrow> nat \<Rightarrow> u8 list option
     \<Rightarrow> (CAResult \<times> CARetransmission option) option" where
  "CARetransmissionSentData a now rnd context endpoint dataType pdu =
     (case (context, endpoint, pdu) of
        (Some c, Some ep, Some bytes) \<Rightarrow>
          if rt_supportType c AND ep_adapter ep = 0 then Some (CA_NOT_SUPPORTED, Some c)
          else if CAGetMessageTypeFromPduBinaryData pdu \<noteq> CA_MSG_CONFIRM then Some (CA_NOT_SUPPORTED, Some c)
          else
            (let messageId = CAGetMessageIdFromPduBinaryData pdu;
                 (ok1, m1) = OICCalloc (rt_mem c) 1 sizeof_retdata
             in if \<not> ok1 then Some (CA_MEMORY_ALLOC_FAILED, Some (c\<lparr>rt_mem := m1\<rparr>))
                else
                  let (ok2, m2) = OICMalloc m1 (length bytes) in
                  if \<not> ok2 then Some (CA_MEMORY_ALLOC_FAILED, Some (c\<lparr>rt_mem := m2\<rparr>))
                  else
                    let (ok3, m3) = OICMalloc m2 sizeof_endpoint in
                    if \<not> ok3 then Some (CA_MEMORY_ALLOC_FAILED, Some (c\<lparr>rt_mem := m3\<rparr>))
                    else
                      (case find_entry c messageId (ep_adapter ep) 0 (u_arraylist_length (rt_dataList c)) of
                         None \<Rightarrow> None
                       | Some (Some _) \<Rightarrow> Some (CA_STATUS_FAILED, Some (c\<lparr>rt_mem := m3\<rparr>))
                       | Some None \<Rightarrow>
                           let retData = \<lparr>rd_timeStamp = now, rd_timeout = CAGetTimeoutValue rnd,
                                 rd_triedCount = 0, rd_messageId = messageId, rd_dataType = dataType,
                                 rd_endpoint = Some ep, rd_pdu = Some bytes\<rparr>;
                               (_, dl, m4) = u_arraylist_add m3 (rt_dataList c) (Some a)
                           in Some (CA_STATUS_OK, Some (c\<lparr>rt_dataList := dl,
                                 rt_heap := (rt_heap c)(a \<mapsto> retData), rt_mem := m4\<rparr>))))
      | _ \<Rightarrow> Some (CA_STATUS_INVALID_PARAM, context))"

text \<open>The result has the new \<open>*retransmissionPdu\<close>, which is unchanged (\<^const>\<open>None\<close>) without a copy.\<close>

definition CARetransmissionReceivedData ::
  "CARetransmission option \<Rightarrow> CAEndpoint option \<Rightarrow> u8 list option \<Rightarrow> bool
     \<Rightarrow> (CAResult \<times> u8 list option \<times> CARetransmission option) option" where
  "CARetransmissionReceivedData context endpoint pdu retransmissionPdu =
     (case (context, endpoint, pdu, retransmissionPdu) of
        (Some c, Some ep, Some _, True) \<Rightarrow>
          if rt_supportType c AND ep_adapter ep = 0 then Some (CA_STATUS_OK, None, Some c)
          else
            (let type = CAGetMessageTypeFromPduBinaryData pdu;
                 messageId = CAGetMessageIdFromPduBinaryData pdu;
                 code = CAGetCodeFromPduBinaryData pdu
             in if (type \<noteq> CA_MSG_ACKNOWLEDGE \<and> type \<noteq> CA_MSG_RESET) \<or> (type = CA_MSG_RESET \<and> code \<noteq> 0)
                then Some (CA_STATUS_OK, None, Some c)
                else
                  (case find_entry c messageId (ep_adapter ep) 0 (u_arraylist_length (rt_dataList c)) of
                     None \<Rightarrow> None
                   | Some None \<Rightarrow> Some (CA_STATUS_OK, None, Some c)
                   | Some (Some i) \<Rightarrow>
                       (case u_arraylist_get (rt_dataList c) i of
                          None \<Rightarrow> None
                        | Some ptr \<Rightarrow>
                            (case rt_heap c ptr of
                               None \<Rightarrow> None
                             | Some retData \<Rightarrow>
                                 let finish = (\<lambda>out m.
                                       (case u_arraylist_remove (rt_dataList c) i of
                                          (None, dl) \<Rightarrow> Some (CA_STATUS_FAILED, out, Some (c\<lparr>rt_dataList := dl, rt_mem := m\<rparr>))
                                        | (Some removed, dl) \<Rightarrow>
                                            Some (CA_STATUS_OK, out, Some (c\<lparr>rt_dataList := dl,
                                              rt_heap := (rt_heap c)(removed := None), rt_mem := m\<rparr>))))
                                 in if code = 0 then
                                      (case rd_pdu retData of
                                         None \<Rightarrow> Some (CA_STATUS_FAILED, None,
                                                   Some (c\<lparr>rt_heap := (rt_heap c)(ptr := None)\<rparr>))
                                       | Some stored \<Rightarrow>
                                           (case OICCalloc (rt_mem c) 1 (length stored) of
                                              (False, m1) \<Rightarrow>
                                                Some (CA_MEMORY_ALLOC_FAILED, None,
                                                  Some (c\<lparr>rt_heap := (rt_heap c)(ptr := None), rt_mem := m1\<rparr>))
                                            | (True, m1) \<Rightarrow> finish (Some stored) m1))
                                    else finish None (rt_mem c)))))
      | _ \<Rightarrow> Some (CA_STATUS_INVALID_PARAM, None, context))"

definition CARetransmissionStop :: "CARetransmission option \<Rightarrow> CAResult \<times> CARetransmission option" where
  "CARetransmissionStop context =
     (case context of
        None \<Rightarrow> (CA_STATUS_INVALID_PARAM, None)
      | Some c \<Rightarrow> (CA_STATUS_OK, Some (c\<lparr>rt_isStop := True\<rparr>)))"

partial_function (option) destroy_loop :: "nat \<Rightarrow> nat \<Rightarrow> CARetransmission \<Rightarrow> CARetransmission option" where
  "destroy_loop i len c =
     (if i < len then
        (case u_arraylist_get (rt_dataList c) i of
           None \<Rightarrow> destroy_loop (Suc i) len c
         | Some ptr \<Rightarrow>
             (case rt_heap c ptr of
                None \<Rightarrow> None
              | Some _ \<Rightarrow> destroy_loop (Suc i) len (c\<lparr>rt_heap := (rt_heap c)(ptr := None)\<rparr>)))
      else Some c)"

definition CARetransmissionDestroy ::
  "CARetransmission option \<Rightarrow> (CAResult \<times> CARetransmission option) option" where
  "CARetransmissionDestroy context =
     (case context of
        None \<Rightarrow> Some (CA_STATUS_INVALID_PARAM, None)
      | Some c \<Rightarrow>
          (case destroy_loop 0 (u_arraylist_length (rt_dataList c)) c of
             None \<Rightarrow> None
           | Some c1 \<Rightarrow>
               Some (CA_STATUS_OK,
                 Some (c1\<lparr>rt_dataList := (case u_arraylist_free (Some (rt_dataList c1)) of
                                            Some l \<Rightarrow> l | None \<Rightarrow> None)\<rparr>))))"

section \<open>The list of entries\<close>

text \<open>
  The pointers in the list are distinct and point to live objects. At most 64 tries are configured
  (the default is four) and every entry has been tried fewer than 64 times, so that the shift of
  \<open>CACheckTimeout\<close> is defined.
\<close>

definition rt_rep :: "CARetransmission \<Rightarrow> nat list \<Rightarrow> bool" where
  "rt_rep c ps \<longleftrightarrow> rt_dataList c \<noteq> None \<and> al_ok (rt_dataList c) \<and> al_abs (rt_dataList c) = map Some ps
     \<and> distinct ps \<and> (\<forall>p\<in>set ps. rt_heap c p \<noteq> None)
     \<and> unat (rt_tryingCount c) \<le> 64 \<and> (\<forall>p\<in>set ps. unat (rd_triedCount (the (rt_heap c p))) < 64)"

definition rt_items :: "CARetransmission \<Rightarrow> nat list \<Rightarrow> CARetransmissionData list" where
  "rt_items c ps = map (\<lambda>p. the (rt_heap c p)) ps"

lemma rt_items_simps [simp]:
  "rt_items c [] = []" "rt_items c (p # ps) = the (rt_heap c p) # rt_items c ps"
  "rt_items c (ps @ qs) = rt_items c ps @ rt_items c qs"
  by (simp_all add: rt_items_def)

lemma rt_rep_length: "rt_rep c ps \<Longrightarrow> u_arraylist_length (rt_dataList c) = length ps"
  by (auto simp: rt_rep_def al.len_abs)

lemma rt_rep_get: "rt_rep c ps \<Longrightarrow> i < length ps \<Longrightarrow> u_arraylist_get (rt_dataList c) i = Some (ps ! i)"
  by (auto simp: rt_rep_def al.fetch_abs)

lemma rt_rep_remove:
  assumes "rt_rep c (xs @ p # ys)"
  obtains dl where "u_arraylist_remove (rt_dataList c) (length xs) = (Some p, dl)" "dl \<noteq> None"
    "al_ok dl" "al_abs dl = map Some (xs @ ys)"
proof -
  have ok: "al_ok (rt_dataList c)" and ab: "al_abs (rt_dataList c) = map Some (xs @ p # ys)"
    and nn: "rt_dataList c \<noteq> None" using assms by (auto simp: rt_rep_def)
  let ?r = "u_arraylist_remove (rt_dataList c) (length xs)"
  have "fst ?r = Some p" using al.del_value [OF ok, of "length xs"] ab by (simp add: nth_append)
  moreover have "al_ok (snd ?r)" by (rule al.del_ok [OF ok])
  moreover have "al_abs (snd ?r) = map Some (xs @ ys)"
    using al.del_abs [OF ok, of "length xs"] ab remove_nth_append [of "map Some xs" "Some p" "map Some ys"]
    by simp
  moreover have "snd ?r \<noteq> None" using nn by (auto simp: u_arraylist_remove_def Let_def)
  ultimately show ?thesis using that [of "snd ?r"] by (cases ?r) auto
qed

section \<open>Specification of a pass\<close>

definition entry_expired :: "u64 \<Rightarrow> CARetransmissionData \<Rightarrow> bool" where
  "entry_expired now e \<longleftrightarrow> CACheckTimeout now e = Some True"

lemma CACheckTimeout_defined:
  "unat (rd_triedCount e) < 64 \<Longrightarrow> CACheckTimeout now e = Some (entry_expired now e)"
  by (simp add: CACheckTimeout_def entry_expired_def Let_def)

definition bump :: "u64 \<Rightarrow> CARetransmissionData \<Rightarrow> CARetransmissionData" where
  "bump now e = (if entry_expired now e
     then e\<lparr>rd_timeStamp := now, rd_triedCount := rd_triedCount e + 1\<rparr> else e)"

definition entry_events :: "CARetransmission \<Rightarrow> u64 \<Rightarrow> CARetransmissionData \<Rightarrow> rt_event list" where
  "entry_events c now e =
     (if entry_expired now e \<and> rt_dataSendMethod c
      then [Resent (rd_endpoint e) (rd_pdu e) (rd_dataType e)] else [])
     @ (if rd_triedCount (bump now e) \<ge> rt_tryingCount c \<and> rt_timeoutCallback c
        then [TimedOut (rd_endpoint e) (rd_pdu e)] else [])"

text \<open>Each entry is treated on its own: sent again when its time is up, dropped after the last try.\<close>

fun check_spec ::
  "CARetransmission \<Rightarrow> (nat \<Rightarrow> u64) \<Rightarrow> nat \<Rightarrow> CARetransmissionData list
     \<Rightarrow> CARetransmissionData list \<times> rt_event list" where
  "check_spec c clock k [] = ([], [])"
| "check_spec c clock k (e # es) =
     (let (es', evs) = check_spec c clock (Suc k) es;
          e1 = bump (clock k) e
      in (if rd_triedCount e1 \<ge> rt_tryingCount c then es' else e1 # es', entry_events c (clock k) e @ evs))"

definition same_config :: "CARetransmission \<Rightarrow> CARetransmission \<Rightarrow> bool" where
  "same_config c c' \<longleftrightarrow> rt_supportType c' = rt_supportType c \<and> rt_tryingCount c' = rt_tryingCount c
     \<and> rt_dataSendMethod c' = rt_dataSendMethod c \<and> rt_timeoutCallback c' = rt_timeoutCallback c
     \<and> rt_isStop c' = rt_isStop c"

lemma check_spec_config: "same_config c c' \<Longrightarrow> check_spec c' clock k es = check_spec c clock k es"
  by (induction es arbitrary: k) (simp_all add: same_config_def entry_events_def)

text \<open>One round of the loop, on an entry that stays and on one that is dropped.\<close>

lemma check_loop_round:
  assumes rep: "rt_rep c (xs @ p # ys)" and e: "rt_heap c p = Some e"
  obtains c' where
    "check_loop clock k (length xs) (length (xs @ p # ys)) c =
       (if rd_triedCount (bump (clock k) e) \<ge> rt_tryingCount c
        then check_loop clock (Suc k) (length xs) (length (xs @ ys)) c'
        else check_loop clock (Suc k) (Suc (length xs)) (length (xs @ p # ys)) c')"
    "rt_rep c' (if rd_triedCount (bump (clock k) e) \<ge> rt_tryingCount c then xs @ ys else xs @ p # ys)"
    "same_config c c'" "rt_events c' = rt_events c @ entry_events c (clock k) e"
    "rd_triedCount (bump (clock k) e) < rt_tryingCount c \<Longrightarrow> rt_heap c' p = Some (bump (clock k) e)"
    "rt_tryingCount c \<le> rd_triedCount (bump (clock k) e) \<Longrightarrow> rt_heap c' p = None"
    "\<And>q. q \<noteq> p \<Longrightarrow> rt_heap c' q = rt_heap c q"
proof -
  let ?e1 = "bump (clock k) e" and ?x = "entry_expired (clock k) e"
  have get: "u_arraylist_get (rt_dataList c) (length xs) = Some p"
    using rt_rep_get [OF rep, of "length xs"] by simp
  define c1 where "c1 = (if ?x then c\<lparr>rt_heap := (rt_heap c)(p \<mapsto> ?e1),
      rt_events := rt_events c @ (if rt_dataSendMethod c
        then [Resent (rd_endpoint e) (rd_pdu e) (rd_dataType e)] else [])\<rparr> else c)"
  have to: "CACheckTimeout (clock k) e = Some ?x"
    using rep e CACheckTimeout_defined by (auto simp: rt_rep_def)
  have c1: "rt_heap c1 = (rt_heap c)(p \<mapsto> ?e1)" "rt_dataList c1 = rt_dataList c" "same_config c c1"
    using e by (auto simp: c1_def bump_def same_config_def)
  have keep: "rd_endpoint ?e1 = rd_endpoint e" "rd_pdu ?e1 = rd_pdu e" by (simp_all add: bump_def)
  show ?thesis
  proof (cases "rd_triedCount ?e1 \<ge> rt_tryingCount c")
    case True
    obtain dl where dl: "u_arraylist_remove (rt_dataList c) (length xs) = (Some p, dl)" "dl \<noteq> None"
      "al_ok dl" "al_abs dl = map Some (xs @ ys)" by (rule rt_rep_remove [OF rep])
    define c2 where "c2 = c1\<lparr>rt_dataList := dl, rt_heap := (rt_heap c1)(p := None),
        rt_events := rt_events c1 @ (if rt_timeoutCallback c then [TimedOut (rd_endpoint ?e1) (rd_pdu ?e1)] else [])\<rparr>"
    have len: "u_arraylist_length dl = length (xs @ ys)" using al.len_abs [OF dl(3)] dl(4) by simp
    have "check_loop clock k (length xs) (length (xs @ p # ys)) c
        = check_loop clock (Suc k) (length xs) (length (xs @ ys)) c2"
      using True e get dl(1) len c1(2) to
      by (subst check_loop.simps) (simp add: Let_def c1_def c2_def bump_def split: if_splits)
    moreover have "rt_rep c2 (xs @ ys)"
      using rep dl(2-4) c1(1,3) by (auto simp: rt_rep_def c2_def same_config_def)
    moreover have "rt_events c2 = rt_events c @ entry_events c (clock k) e"
      using True keep by (simp add: c2_def c1_def entry_events_def)
    ultimately show ?thesis using that [of c2] True c1
      by (simp add: c2_def same_config_def)
  next
    case False
    have "check_loop clock k (length xs) (length (xs @ p # ys)) c
        = check_loop clock (Suc k) (Suc (length xs)) (length (xs @ p # ys)) c1"
      using False e get to by (subst check_loop.simps) (simp add: Let_def c1_def bump_def split: if_splits)
    moreover have "unat (rd_triedCount ?e1) < 64"
      using False rep by (simp add: rt_rep_def not_le word_less_nat_alt)
    then have "rt_rep c1 (xs @ p # ys)" using rep c1 by (auto simp: rt_rep_def same_config_def)
    moreover have "rt_events c1 = rt_events c @ entry_events c (clock k) e"
      using False by (simp add: c1_def entry_events_def)
    ultimately show ?thesis using that [of c1] False c1 by simp
  qed
qed

lemma rt_items_cong: "(\<And>p. p \<in> set ps \<Longrightarrow> rt_heap c' p = rt_heap c p) \<Longrightarrow> rt_items c' ps = rt_items c ps"
  by (simp add: rt_items_def)

lemma same_config_trans: "same_config a b \<Longrightarrow> same_config b c \<Longrightarrow> same_config a c"
  by (simp add: same_config_def)

text \<open>The same pass with every entry and every event under the address of its entry.\<close>

fun pass_spec ::
  "CARetransmission \<Rightarrow> (nat \<Rightarrow> u64) \<Rightarrow> nat \<Rightarrow> (nat \<times> CARetransmissionData) list
     \<Rightarrow> (nat \<times> CARetransmissionData) list \<times> (nat \<times> rt_event) list" where
  "pass_spec c clock k [] = ([], [])"
| "pass_spec c clock k (x # xs) =
     (let (xs', evs) = pass_spec c clock (Suc k) xs;
          e1 = bump (clock k) (snd x)
      in (if rd_triedCount e1 \<ge> rt_tryingCount c then xs' else (fst x, e1) # xs',
          map (Pair (fst x)) (entry_events c (clock k) (snd x)) @ evs))"

lemma pass_spec_check:
  "map snd (fst (pass_spec c clock k xs)) = fst (check_spec c clock k (map snd xs))"
  "map snd (snd (pass_spec c clock k xs)) = snd (check_spec c clock k (map snd xs))"
  by (induction xs arbitrary: k) (simp_all add: Let_def split_def comp_def)

lemma pass_spec_config: "same_config c c' \<Longrightarrow> pass_spec c' clock k xs = pass_spec c clock k xs"
  by (induction xs arbitrary: k) (simp_all add: same_config_def entry_events_def)

definition rt_pairs :: "CARetransmission \<Rightarrow> nat list \<Rightarrow> (nat \<times> CARetransmissionData) list" where
  "rt_pairs c ps = map (\<lambda>p. (p, the (rt_heap c p))) ps"

lemma rt_pairs_simps [simp]:
  "rt_pairs c [] = []" "rt_pairs c (p # ps) = (p, the (rt_heap c p)) # rt_pairs c ps"
  "map snd (rt_pairs c ps) = rt_items c ps" "map fst (rt_pairs c ps) = ps"
  by (simp_all add: rt_pairs_def rt_items_def comp_def)

lemma check_loop_pairs:
  assumes "rt_rep c (xs @ ys)"
  shows "\<exists>c' ys'. check_loop clock k (length xs) (length (xs @ ys)) c = Some c' \<and> rt_rep c' (xs @ ys')
     \<and> rt_pairs c' ys' = fst (pass_spec c clock k (rt_pairs c ys))
     \<and> rt_events c' = rt_events c @ map snd (snd (pass_spec c clock k (rt_pairs c ys))) \<and> same_config c c'
     \<and> set ys' \<subseteq> set ys \<and> (\<forall>q. q \<notin> set ys \<longrightarrow> rt_heap c' q = rt_heap c q)
     \<and> (\<forall>q\<in>set ys - set ys'. rt_heap c' q = None)"
  using assms
proof (induction ys arbitrary: c xs k)
  case Nil
  then show ?case by (subst check_loop.simps) (simp add: same_config_def)
next
  case (Cons p ys)
  have d: "distinct (xs @ p # ys)" using Cons.prems by (simp add: rt_rep_def)
  obtain e where e: "rt_heap c p = Some e" using Cons.prems by (auto simp: rt_rep_def)
  let ?drop = "rd_triedCount (bump (clock k) e) \<ge> rt_tryingCount c"
  obtain c1 where l: "check_loop clock k (length xs) (length (xs @ p # ys)) c =
       (if ?drop then check_loop clock (Suc k) (length xs) (length (xs @ ys)) c1
        else check_loop clock (Suc k) (Suc (length xs)) (length (xs @ p # ys)) c1)"
    and r1: "rt_rep c1 (if ?drop then xs @ ys else xs @ p # ys)"
    and cf: "same_config c c1" and ev: "rt_events c1 = rt_events c @ entry_events c (clock k) e"
    and hp: "\<not> ?drop \<Longrightarrow> rt_heap c1 p = Some (bump (clock k) e)" and hd: "?drop \<Longrightarrow> rt_heap c1 p = None"
    and hq: "\<And>q. q \<noteq> p \<Longrightarrow> rt_heap c1 q = rt_heap c q"
    using check_loop_round [OF Cons.prems e, of clock k] by (auto simp: not_le)
  have it: "rt_pairs c1 ys = rt_pairs c ys"
    unfolding rt_pairs_def
  proof (rule map_cong [OF refl])
    fix q
    assume "q \<in> set ys"
    then have "q \<noteq> p" using d by auto
    then show "(q, the (rt_heap c1 q)) = (q, the (rt_heap c q))" by (simp add: hq)
  qed
  note sp = pass_spec_config [OF cf]
  show ?case
  proof (cases ?drop)
    case True
    obtain c' ys' where ih: "check_loop clock (Suc k) (length xs) (length (xs @ ys)) c1 = Some c'"
      "rt_rep c' (xs @ ys')" "rt_pairs c' ys' = fst (pass_spec c1 clock (Suc k) (rt_pairs c1 ys))"
      "rt_events c' = rt_events c1 @ map snd (snd (pass_spec c1 clock (Suc k) (rt_pairs c1 ys)))"
      "same_config c1 c'" "set ys' \<subseteq> set ys" "\<forall>q. q \<notin> set ys \<longrightarrow> rt_heap c' q = rt_heap c1 q"
      "\<forall>q\<in>set ys - set ys'. rt_heap c' q = None"
      using Cons.IH [of c1 xs "Suc k"] r1 True by auto
    have "rt_heap c' p = None" using ih(7) hd [OF True] d by simp
    then show ?thesis using ih l True it e ev sp same_config_trans [OF cf] hq
      by (intro exI [of _ c'] exI [of _ ys']) (auto simp: Let_def split_def comp_def)
  next
    case False
    obtain c' ys' where ih: "check_loop clock (Suc k) (Suc (length xs)) (length (xs @ p # ys)) c1 = Some c'"
      "rt_rep c' (xs @ p # ys')" "rt_pairs c' ys' = fst (pass_spec c1 clock (Suc k) (rt_pairs c1 ys))"
      "rt_events c' = rt_events c1 @ map snd (snd (pass_spec c1 clock (Suc k) (rt_pairs c1 ys)))"
      "same_config c1 c'" "set ys' \<subseteq> set ys" "\<forall>q. q \<notin> set ys \<longrightarrow> rt_heap c' q = rt_heap c1 q"
      "\<forall>q\<in>set ys - set ys'. rt_heap c' q = None"
      using Cons.IH [of c1 "xs @ [p]" "Suc k"] r1 False by auto
    have "rt_heap c' p = Some (bump (clock k) e)" using ih(7) hp [OF False] d by simp
    then show ?thesis using ih l False it e ev sp same_config_trans [OF cf] hq
      by (intro exI [of _ c'] exI [of _ "p # ys'"]) (auto simp: Let_def split_def comp_def)
  qed
qed

lemma check_loop_refines:
  assumes "rt_rep c ps"
  shows "\<exists>c' ps'. check_loop clock 0 0 (length ps) c = Some c' \<and> rt_rep c' ps'
     \<and> rt_items c' ps' = fst (check_spec c clock 0 (rt_items c ps))
     \<and> rt_events c' = rt_events c @ snd (check_spec c clock 0 (rt_items c ps)) \<and> same_config c c'"
proof -
  obtain c' ps' where c': "check_loop clock 0 0 (length ps) c = Some c'" "rt_rep c' ps'"
    "rt_pairs c' ps' = fst (pass_spec c clock 0 (rt_pairs c ps))"
    "rt_events c' = rt_events c @ map snd (snd (pass_spec c clock 0 (rt_pairs c ps)))" "same_config c c'"
    using check_loop_pairs [of c "[]" ps clock 0] assms by auto
  have "rt_items c' ps' = map snd (rt_pairs c' ps')" by simp
  then show ?thesis using c' by (auto simp: pass_spec_check)
qed

section \<open>Properties\<close>

text \<open>
  C8: a pass of the retransmission thread over a well-formed list always ends and treats every
  entry exactly once, in order, although the loop removes elements while it runs: an entry whose
  timeout has elapsed is sent again and counted, and dropped with a timeout notice once it has been
  tried as often as configured; all other entries stay as they were.
\<close>

theorem CACheckRetransmissionList_refines:
  assumes "rt_rep c ps"
  shows "\<exists>c' ps'. CACheckRetransmissionList clock (Some c) = Some (Some c') \<and> rt_rep c' ps'
     \<and> rt_items c' ps' = fst (check_spec c clock 0 (rt_items c ps))
     \<and> rt_events c' = rt_events c @ snd (check_spec c clock 0 (rt_items c ps))
     \<and> same_config c c'"
  using check_loop_refines [of c ps clock] assms
  by (auto simp: CACheckRetransmissionList_def rt_rep_length)

definition example_entry :: CARetransmissionData where
  "example_entry = \<lparr>rd_timeStamp = 0, rd_timeout = 2000000, rd_triedCount = 0, rd_messageId = 7,
     rd_dataType = 1, rd_endpoint = Some \<lparr>ep_adapter = 1, ep_flags = 0, ep_port = 5683, ep_addr = ''10.0.0.2'',
       ep_ifindex = 0, ep_remoteId = [], ep_routeData = []\<rparr>, rd_pdu = Some [64, 1, 7, 0]\<rparr>"

definition example_rt :: CARetransmission where
  "example_rt = \<lparr>rt_supportType = 7, rt_tryingCount = 4, rt_dataSendMethod = True, rt_timeoutCallback = True,
     rt_threadPool = True, rt_isStop = False,
     rt_dataList = Some \<lparr>al_data = [Some 5], al_length = 1, al_capacity = 1\<rparr>,
     rt_heap = [5 \<mapsto> example_entry], rt_events = [], rt_mem = []\<rparr>"

lemma example_rt_rep: "rt_rep example_rt [5]" "rt_items example_rt [5] = [example_entry]"
  by (simp_all add: rt_rep_def rt_items_def example_rt_def example_entry_def al_defs)

theorem CACheckRetransmissionList_refines_witness:
  "\<exists>c' ps'. CACheckRetransmissionList (\<lambda>_. 3000000) (Some example_rt) = Some (Some c') \<and> rt_rep c' ps'
     \<and> map rd_triedCount (rt_items c' ps') = [1] \<and> length (rt_events c') = 1"
proof -
  have "check_spec example_rt (\<lambda>_. 3000000) 0 [example_entry]
      = ([example_entry\<lparr>rd_timeStamp := 3000000, rd_triedCount := 1\<rparr>],
         [Resent (rd_endpoint example_entry) (rd_pdu example_entry) (rd_dataType example_entry)])"
    by (simp add: example_rt_def example_entry_def bump_def entry_expired_def CACheckTimeout_def USECS_PER_MSEC_def
        entry_events_def word_le_nat_alt)
  with CACheckRetransmissionList_refines [OF example_rt_rep(1), of "\<lambda>_. 3000000"]
  show ?thesis by (auto simp: example_rt_rep(2)) (auto simp: example_rt_def)
qed

text \<open>The passes of the thread over time, on the specification.\<close>

fun run_passes ::
  "CARetransmission \<Rightarrow> (nat \<Rightarrow> u64) list \<Rightarrow> CARetransmissionData list
     \<Rightarrow> CARetransmissionData list \<times> rt_event list" where
  "run_passes c [] es = (es, [])"
| "run_passes c (clock # clocks) es =
     (let (es1, evs1) = check_spec c clock 0 es; (es2, evs2) = run_passes c clocks es1 in (es2, evs1 @ evs2))"

lemma run_passes_Nil [simp]: "run_passes c clocks [] = ([], [])"
  by (induction clocks) simp_all

lemma bump_fields [simp]:
  "rd_endpoint (bump now e) = rd_endpoint e" "rd_pdu (bump now e) = rd_pdu e"
  "rd_dataType (bump now e) = rd_dataType e" "rd_messageId (bump now e) = rd_messageId e"
  "rd_timeout (bump now e) = rd_timeout e"
  by (simp_all add: bump_def)

lemma bump_tried:
  fixes n :: u8
  assumes "rd_triedCount e < n"
  shows "unat (rd_triedCount (bump now e)) = unat (rd_triedCount e) + (if entry_expired now e then 1 else 0)"
proof -
  have "unat (rd_triedCount e) < unat n" using assms by (simp add: word_less_nat_alt)
  moreover have "unat n < 256" using unsigned_less [of n] by simp
  ultimately show ?thesis by (simp add: bump_def unat_word_ariths)
qed

text \<open>The life of one entry over any number of passes.\<close>

lemma run_passes_bounded:
  assumes "rd_triedCount e < rt_tryingCount c" and "rt_dataSendMethod c" and "rt_timeoutCallback c"
  defines "again \<equiv> Resent (rd_endpoint e) (rd_pdu e) (rd_dataType e)"
  shows "(\<exists>e' n. run_passes c clocks [e] = ([e'], replicate n again)
        \<and> unat (rd_triedCount e') = unat (rd_triedCount e) + n \<and> rd_triedCount e' < rt_tryingCount c)
     \<or> run_passes c clocks [e] =
         ([], replicate (unat (rt_tryingCount c) - unat (rd_triedCount e)) again
              @ [TimedOut (rd_endpoint e) (rd_pdu e)])"
  using assms(1) unfolding again_def
proof (induction clocks arbitrary: e)
  case Nil
  then show ?case by (auto intro!: exI [of _ 0])
next
  case (Cons clock clocks)
  let ?e1 = "bump (clock 0) e"
  note t = bump_tried [OF Cons.prems, of "clock 0"]
  have lt: "unat (rd_triedCount e) < unat (rt_tryingCount c)" using Cons.prems by (simp add: word_less_nat_alt)
  show ?case
  proof (cases "rt_tryingCount c \<le> rd_triedCount ?e1")
    case True
    then have "unat (rt_tryingCount c) = unat (rd_triedCount e) + 1" "entry_expired (clock 0) e"
      using t lt by (auto simp: word_le_nat_alt split: if_splits)
    then show ?thesis using True assms(2,3) by (simp add: entry_events_def)
  next
    case False
    then have lt1: "rd_triedCount ?e1 < rt_tryingCount c" by simp
    have ev: "entry_events c (clock 0) e =
        replicate (if entry_expired (clock 0) e then 1 else 0) (Resent (rd_endpoint e) (rd_pdu e) (rd_dataType e))"
      using False assms(2) by (simp add: entry_events_def)
    have step: "run_passes c (clock # clocks) [e] =
        (fst (run_passes c clocks [?e1]), entry_events c (clock 0) e @ snd (run_passes c clocks [?e1]))"
      using False by (simp add: Let_def split_def)
    from Cons.IH [OF lt1] show ?thesis
    proof (elim disjE exE conjE)
      fix e' n
      assume "run_passes c clocks [?e1] = ([e'], replicate n (Resent (rd_endpoint ?e1) (rd_pdu ?e1) (rd_dataType ?e1)))"
        "unat (rd_triedCount e') = unat (rd_triedCount ?e1) + n" "rd_triedCount e' < rt_tryingCount c"
      then show ?thesis unfolding step ev using t
        by (intro disjI1 exI [of _ e'] exI [of _ "(if entry_expired (clock 0) e then 1 else 0) + n"])
          (simp add: replicate_add)
    next
      assume "run_passes c clocks [?e1] =
         ([], replicate (unat (rt_tryingCount c) - unat (rd_triedCount ?e1))
              (Resent (rd_endpoint ?e1) (rd_pdu ?e1) (rd_dataType ?e1)) @ [TimedOut (rd_endpoint ?e1) (rd_pdu ?e1)])"
      moreover have "unat (rt_tryingCount c) - unat (rd_triedCount e) =
          (if entry_expired (clock 0) e then 1 else 0) + (unat (rt_tryingCount c) - unat (rd_triedCount ?e1))"
        using t lt by simp
      ultimately show ?thesis unfolding step ev by (intro disjI2) (simp add: replicate_add)
    qed
  qed
qed

lemma run_passes_config: "same_config c c' \<Longrightarrow> run_passes c' clocks es = run_passes c clocks es"
  by (induction clocks arbitrary: es) (simp_all add: check_spec_config)

text \<open>The thread: a sequence of rounds, each with its own readings of the clock.\<close>

fun run_thread :: "(nat \<Rightarrow> u64) list \<Rightarrow> CARetransmission \<Rightarrow> CARetransmission option" where
  "run_thread [] c = Some c"
| "run_thread (clock # clocks) c =
     (case CARetransmissionBaseRoutine_round clock c of None \<Rightarrow> None | Some c' \<Rightarrow> run_thread clocks c')"

text \<open>The rounds over time, with every entry and event under the address of the entry.\<close>

fun run_pairs ::
  "CARetransmission \<Rightarrow> (nat \<Rightarrow> u64) list \<Rightarrow> (nat \<times> CARetransmissionData) list
     \<Rightarrow> (nat \<times> CARetransmissionData) list \<times> (nat \<times> rt_event) list" where
  "run_pairs c [] xs = (xs, [])"
| "run_pairs c (clock # clocks) xs =
     (let (xs1, evs1) = pass_spec c clock 0 xs; (xs2, evs2) = run_pairs c clocks xs1 in (xs2, evs1 @ evs2))"

lemma run_pairs_config: "same_config c c' \<Longrightarrow> run_pairs c' clocks xs = run_pairs c clocks xs"
  by (induction clocks arbitrary: xs) (simp_all add: pass_spec_config)

lemma run_thread_pairs:
  assumes "rt_rep c ps" and "\<not> rt_isStop c"
  shows "\<exists>c' ps'. run_thread clocks c = Some c' \<and> rt_rep c' ps' \<and> same_config c c'
     \<and> rt_pairs c' ps' = fst (run_pairs c clocks (rt_pairs c ps))
     \<and> rt_events c' = rt_events c @ map snd (snd (run_pairs c clocks (rt_pairs c ps)))
     \<and> set ps' \<subseteq> set ps \<and> (\<forall>q. q \<notin> set ps \<longrightarrow> rt_heap c' q = rt_heap c q)
     \<and> (\<forall>q\<in>set ps - set ps'. rt_heap c' q = None)"
  using assms
proof (induction clocks arbitrary: c ps)
  case Nil
  then show ?case by (auto simp: same_config_def)
next
  case (Cons clock clocks)
  obtain c1 ps1 where c1: "check_loop clock 0 0 (length ps) c = Some c1" "rt_rep c1 ps1"
    "rt_pairs c1 ps1 = fst (pass_spec c clock 0 (rt_pairs c ps))"
    "rt_events c1 = rt_events c @ map snd (snd (pass_spec c clock 0 (rt_pairs c ps)))" "same_config c c1"
    "set ps1 \<subseteq> set ps" "\<forall>q. q \<notin> set ps \<longrightarrow> rt_heap c1 q = rt_heap c q"
    "\<forall>q\<in>set ps - set ps1. rt_heap c1 q = None"
    using check_loop_pairs [of c "[]" ps clock 0] Cons.prems(1) by auto
  have round: "CARetransmissionBaseRoutine_round clock c = Some c1"
    using c1(1) Cons.prems
    by (simp add: CARetransmissionBaseRoutine_round_def CACheckRetransmissionList_def rt_rep_length)
  have "\<not> rt_isStop c1" using c1(5) Cons.prems(2) by (simp add: same_config_def)
  from Cons.IH [OF c1(2) this] obtain c' ps' where c': "run_thread clocks c1 = Some c'" "rt_rep c' ps'"
    "same_config c1 c'" "rt_pairs c' ps' = fst (run_pairs c1 clocks (rt_pairs c1 ps1))"
    "rt_events c' = rt_events c1 @ map snd (snd (run_pairs c1 clocks (rt_pairs c1 ps1)))"
    "set ps' \<subseteq> set ps1" "\<forall>q. q \<notin> set ps1 \<longrightarrow> rt_heap c' q = rt_heap c1 q"
    "\<forall>q\<in>set ps1 - set ps'. rt_heap c' q = None" by blast
  have freed: "rt_heap c' q = None" if "q \<in> set ps - set ps'" for q
    using that c'(7,8) c1(8) by (cases "q \<in> set ps1") auto
  have kept: "rt_heap c' q = rt_heap c q" if "q \<notin> set ps" for q
    using that c'(7) c1(6,7) by auto
  show ?case using round c' c1(3,4,6) same_config_trans [OF c1(5)] run_pairs_config [OF c1(5)] freed kept
    by (intro exI [of _ c'] exI [of _ ps']) (auto simp: Let_def split_def)
qed

lemma of_entry_pairs:
  "distinct ps \<Longrightarrow> filter (\<lambda>x. fst x = p) (rt_pairs c ps) = (if p \<in> set ps then [(p, the (rt_heap c p))] else [])"
  by (induction ps) auto

text \<open>What a pass does to one entry does not depend on the others but for the reading of the clock.\<close>

abbreviation of_entry :: "nat \<Rightarrow> (nat \<times> 'a) list \<Rightarrow> (nat \<times> 'a) list" where
  "of_entry p xs \<equiv> filter (\<lambda>x. fst x = p) xs"

lemma of_entry_Pair [simp]: "of_entry p (map (Pair q) xs) = (if p = q then map (Pair q) xs else [])"
  by (induction xs) auto

lemma pass_spec_absent:
  "p \<notin> set (map fst xs) \<Longrightarrow> of_entry p (fst (pass_spec c clock k xs)) = []
     \<and> of_entry p (snd (pass_spec c clock k xs)) = []"
  by (induction xs arbitrary: k) (auto simp: Let_def split_def)

lemma pass_spec_keys:
  "set (map fst (fst (pass_spec c clock k xs))) \<subseteq> set (map fst xs)
   \<and> (distinct (map fst xs) \<longrightarrow> distinct (map fst (fst (pass_spec c clock k xs))))
   \<and> length (fst (pass_spec c clock k xs)) \<le> length xs"
proof (induction xs arbitrary: k)
  case (Cons x xs)
  from Cons.IH [of "Suc k"] show ?case by (auto simp: Let_def split_def)
qed simp

lemma pass_spec_of_entry:
  assumes "distinct (map fst xs)" "j < length xs"
  shows "of_entry (fst (xs ! j)) (fst (pass_spec c clock k xs))
       = fst (pass_spec c (\<lambda>_. clock (k + j)) 0 [xs ! j])
     \<and> of_entry (fst (xs ! j)) (snd (pass_spec c clock k xs))
       = snd (pass_spec c (\<lambda>_. clock (k + j)) 0 [xs ! j])"
  using assms
proof (induction xs arbitrary: j k)
  case (Cons x xs)
  show ?case
  proof (cases j)
    case 0
    then show ?thesis using Cons.prems pass_spec_absent [of "fst x" xs c clock "Suc k"]
      by (simp add: Let_def split_def)
  next
    case (Suc i)
    then have "fst (xs ! i) \<in> fst ` set xs" using Cons.prems by simp
    then have "fst (xs ! i) \<noteq> fst x" using Cons.prems(1)
      by (metis distinct.simps(2) list.map(2) list.set_map)
    then show ?thesis using Suc Cons.IH [of i "Suc k"] Cons.prems
      by (simp add: Let_def split_def)
  qed
qed simp

lemma run_pairs_absent:
  "p \<notin> set (map fst xs) \<Longrightarrow> of_entry p (fst (run_pairs c clocks xs)) = []
     \<and> of_entry p (snd (run_pairs c clocks xs)) = []"
proof (induction clocks arbitrary: xs)
  case Nil
  then show ?case by (auto simp: filter_empty_conv)
next
  case (Cons clock clocks)
  then have "p \<notin> set (map fst (fst (pass_spec c clock 0 xs)))"
    using pass_spec_keys [of c clock 0 xs] by auto
  from Cons.IH [OF this] show ?case
    using pass_spec_absent [OF Cons.prems, of c clock 0] by (simp add: Let_def split_def)
qed

lemma run_pairs_one:
  "run_pairs c clocks [(p, e)] = (map (Pair p) (fst (run_passes c clocks [e])), map (Pair p) (snd (run_passes c clocks [e])))"
proof (induction clocks arbitrary: e)
  case (Cons clock clocks)
  have empty: "run_pairs c clocks [] = ([], [])" by (induction clocks) simp_all
  show ?case by (simp add: Let_def split_def Cons.IH empty)
qed simp

text \<open>Each pass reads the clock once for each entry that waits: \<open>ts\<close> are the readings for entry \<open>p\<close>.\<close>

lemma run_pairs_of_entry:
  assumes "distinct (map fst xs)" "(p, e) \<in> set xs"
  shows "\<exists>ts. length ts = length clocks \<and> (\<forall>i<length ts. \<exists>k<length xs. ts ! i = (clocks ! i) k)
     \<and> of_entry p (fst (run_pairs c clocks xs)) = map (Pair p) (fst (run_passes c (map (\<lambda>t _. t) ts) [e]))
     \<and> of_entry p (snd (run_pairs c clocks xs)) = map (Pair p) (snd (run_passes c (map (\<lambda>t _. t) ts) [e]))"
  using assms
proof (induction clocks arbitrary: xs e)
  case Nil
  then have "of_entry p xs = [(p, e)]"
  proof (induction xs)
    case (Cons x xs)
    then have "(p, e) \<in> set xs \<Longrightarrow> p \<in> fst ` set xs" by force
    then show ?case using Cons by (cases "x = (p, e)") (auto simp: filter_empty_conv)
  qed simp
  then show ?case by simp
next
  case (Cons clock clocks)
  obtain j where j: "j < length xs" "xs ! j = (p, e)" using Cons.prems(2) by (auto simp: in_set_conv_nth)
  let ?t = "clock j" and ?xs1 = "fst (pass_spec c clock 0 xs)"
  have one: "of_entry p ?xs1 = fst (pass_spec c (\<lambda>_. ?t) 0 [(p, e)])"
    "of_entry p (snd (pass_spec c clock 0 xs)) = snd (pass_spec c (\<lambda>_. ?t) 0 [(p, e)])"
    using pass_spec_of_entry [OF Cons.prems(1) j(1), of c clock 0] j(2) by simp_all
  have keys: "distinct (map fst ?xs1)" "length ?xs1 \<le> length xs"
    using pass_spec_keys [of c clock 0 xs] Cons.prems(1) by auto
  show ?case
  proof (cases "rt_tryingCount c \<le> rd_triedCount (bump ?t e)")
    case True
    then have "of_entry p ?xs1 = []" using one(1) by simp
    then have "p \<notin> set (map fst ?xs1)" by (auto simp: filter_empty_conv)
    note gone = run_pairs_absent [OF this, of c clocks]
    show ?thesis using True gone one j
      by (intro exI [of _ "?t # map (\<lambda>clk. clk j) clocks"])
        (auto simp: Let_def split_def nth_Cons' intro!: exI [of _ j])
  next
    case False
    then have "of_entry p ?xs1 = [(p, bump ?t e)]" using one(1) by simp
    then have "(p, bump ?t e) \<in> set (of_entry p ?xs1)" by simp
    then have "(p, bump ?t e) \<in> set ?xs1" by simp
    from Cons.IH [OF keys(1) this] obtain ts where ts: "length ts = length clocks"
      "\<forall>i<length ts. \<exists>k<length ?xs1. ts ! i = (clocks ! i) k"
      "of_entry p (fst (run_pairs c clocks ?xs1)) = map (Pair p) (fst (run_passes c (map (\<lambda>t _. t) ts) [bump ?t e]))"
      "of_entry p (snd (run_pairs c clocks ?xs1)) = map (Pair p) (snd (run_passes c (map (\<lambda>t _. t) ts) [bump ?t e]))"
      by blast
    have reads: "\<forall>i<length (?t # ts). \<exists>k<length xs. (?t # ts) ! i = ((clock # clocks) ! i) k"
    proof (intro allI impI)
      fix i
      assume "i < length (?t # ts)"
      then show "\<exists>k<length xs. (?t # ts) ! i = ((clock # clocks) ! i) k"
        using ts(2) keys(2) j(1) by (cases i) (auto intro: less_le_trans)
    qed
    show ?thesis using False one ts(1,3,4) reads
      by (intro exI [of _ "?t # ts"]) (simp add: Let_def split_def)
  qed
qed

text \<open>
  C9: bounded retransmission. However the clock runs and however often the thread passes over any
  list of waiting messages, every one of them is looked at exactly once in every pass until it is
  given up (\<open>ts\<close> are the readings of the clock it is compared with, one for each pass, and its life
  is that of a message alone with them); it is either still waiting, sent again as often as was
  counted and with tries left, or it has been sent again exactly as often as configured and was then
  given up with one timeout notice and freed; the eight-bit counter never wraps. The events of all
  messages, each under the address of its entry, make up the log, and no message joins the list.
\<close>

theorem retransmission_bounded:
  assumes "rt_rep c ps" and "\<not> rt_isStop c" and "rt_dataSendMethod c" and "rt_timeoutCallback c"
    and "\<forall>e\<in>set (rt_items c ps). rd_triedCount e < rt_tryingCount c"
  shows "\<exists>c' ps' log. run_thread clocks c = Some c' \<and> rt_rep c' ps' \<and> set ps' \<subseteq> set ps
     \<and> rt_events c' = rt_events c @ map snd log
     \<and> (\<forall>p e. p \<in> set ps \<and> rt_heap c p = Some e \<longrightarrow>
         (let again = Resent (rd_endpoint e) (rd_pdu e) (rd_dataType e); mine = map snd (of_entry p log) in
          (\<exists>ts. length ts = length clocks \<and> (\<forall>i<length ts. \<exists>k<length ps. ts ! i = (clocks ! i) k)
             \<and> run_passes c (map (\<lambda>t _. t) ts) [e]
               = (if p \<in> set ps' then [the (rt_heap c' p)] else [], mine))
          \<and> (if p \<in> set ps'
             then \<exists>e' n. rt_heap c' p = Some e' \<and> mine = replicate n again
               \<and> unat (rd_triedCount e') = unat (rd_triedCount e) + n \<and> rd_triedCount e' < rt_tryingCount c
             else rt_heap c' p = None
               \<and> mine = replicate (unat (rt_tryingCount c) - unat (rd_triedCount e)) again
                   @ [TimedOut (rd_endpoint e) (rd_pdu e)])))"
proof -
  obtain c' ps' where c': "run_thread clocks c = Some c'" "rt_rep c' ps'"
    "rt_pairs c' ps' = fst (run_pairs c clocks (rt_pairs c ps))"
    "rt_events c' = rt_events c @ map snd (snd (run_pairs c clocks (rt_pairs c ps)))"
    "set ps' \<subseteq> set ps" "\<forall>q\<in>set ps - set ps'. rt_heap c' q = None"
    using run_thread_pairs [OF assms(1,2), of clocks] by blast
  define log where "log = snd (run_pairs c clocks (rt_pairs c ps))"
  show ?thesis
  proof (intro exI [of _ c'] exI [of _ ps'] exI [of _ log] conjI allI impI c'(1,2,5))
    show "rt_events c' = rt_events c @ map snd log" using c'(4) by (simp add: log_def)
    fix p e
    assume p: "p \<in> set ps \<and> rt_heap c p = Some e"
    let ?again = "Resent (rd_endpoint e) (rd_pdu e) (rd_dataType e)" and ?mine = "map snd (of_entry p log)"
    have "(p, e) \<in> set (rt_pairs c ps)" "distinct (map fst (rt_pairs c ps))"
      using p assms(1) by (simp_all add: rt_rep_def) (auto simp: rt_pairs_def intro!: rev_image_eqI [of p])
    from run_pairs_of_entry [OF this(2,1), of clocks c] obtain ts where ts: "length ts = length clocks"
      "\<forall>i<length ts. \<exists>k<length ps. ts ! i = (clocks ! i) k"
      "of_entry p (rt_pairs c' ps') = map (Pair p) (fst (run_passes c (map (\<lambda>t _. t) ts) [e]))"
      "of_entry p log = map (Pair p) (snd (run_passes c (map (\<lambda>t _. t) ts) [e]))"
      using c'(3) by (auto simp: log_def rt_pairs_def)
    have kept: "of_entry p (rt_pairs c' ps') = (if p \<in> set ps' then [(p, the (rt_heap c' p))] else [])"
      using c'(2) by (intro of_entry_pairs) (simp add: rt_rep_def)
    have life: "run_passes c (map (\<lambda>t _. t) ts) [e] = (if p \<in> set ps' then [the (rt_heap c' p)] else [], ?mine)"
      using ts(3,4) kept by (auto simp: prod_eq_iff comp_def split: if_splits)
    have "rd_triedCount e < rt_tryingCount c" using assms(5) p by (force simp: rt_items_def)
    note bound = run_passes_bounded [OF this assms(3,4), of "map (\<lambda>t _. t) ts", unfolded life]
    have "rt_heap c' p = Some (the (rt_heap c' p))" if "p \<in> set ps'"
      using that c'(2) by (auto simp: rt_rep_def)
    then show "let again = ?again; mine = ?mine in
        (\<exists>ts. length ts = length clocks \<and> (\<forall>i<length ts. \<exists>k<length ps. ts ! i = (clocks ! i) k)
           \<and> run_passes c (map (\<lambda>t _. t) ts) [e] = (if p \<in> set ps' then [the (rt_heap c' p)] else [], mine))
        \<and> (if p \<in> set ps'
           then \<exists>e' n. rt_heap c' p = Some e' \<and> mine = replicate n again
             \<and> unat (rd_triedCount e') = unat (rd_triedCount e) + n \<and> rd_triedCount e' < rt_tryingCount c
           else rt_heap c' p = None
             \<and> mine = replicate (unat (rt_tryingCount c) - unat (rd_triedCount e)) again
                 @ [TimedOut (rd_endpoint e) (rd_pdu e)])"
      unfolding Let_def using ts(1,2) life bound c'(6) p by (cases "p \<in> set ps'") auto
  qed
qed

theorem retransmission_bounded_witness:
  "\<exists>c' ps'. run_thread (replicate 9 (\<lambda>k. 3000000)) example_rt = Some c' \<and> rt_rep c' ps'"
proof -
  have h: "\<not> rt_isStop example_rt" "rt_dataSendMethod example_rt" "rt_timeoutCallback example_rt"
    "\<forall>e\<in>set (rt_items example_rt [5]). rd_triedCount e < rt_tryingCount example_rt"
    unfolding example_rt_rep(2) by (simp_all add: example_entry_def example_rt_def word_less_nat_alt)
  from retransmission_bounded [OF example_rt_rep(1) h] show ?thesis by blast
qed

text \<open>The entry that a message id and an adapter name.\<close>

definition entry_matches :: "u16 \<Rightarrow> u32 \<Rightarrow> CARetransmissionData \<Rightarrow> bool" where
  "entry_matches mid ad e \<longleftrightarrow>
     (\<exists>ep. rd_endpoint e = Some ep \<and> rd_messageId e = mid \<and> ep_adapter ep = ad)"

lemma find_entry_eq:
  assumes rep: "rt_rep c ps"
  shows "find_entry c mid ad 0 (length ps) = Some (find_index (entry_matches mid ad) (rt_items c ps))"
proof -
  have "find_entry c mid ad i (length ps)
      = Some (map_option ((+) i) (find_index (entry_matches mid ad) (rt_items c (drop i ps))))"
    if "i \<le> length ps" for i
    using that
  proof (induction "length ps - i" arbitrary: i)
    case 0
    then show ?case by (subst find_entry.simps) simp
  next
    case (Suc n)
    then have i: "i < length ps" by simp
    have "rt_heap c (ps ! i) \<noteq> None" using rep nth_mem [OF i] by (simp add: rt_rep_def)
    then obtain e where e: "rt_heap c (ps ! i) = Some e" by blast
    have d: "rt_items c (drop i ps) = e # rt_items c (drop (Suc i) ps)"
      using i e by (simp add: Cons_nth_drop_Suc [symmetric])
    have m: "entry_matches mid ad e \<longleftrightarrow>
        rd_endpoint e \<noteq> None \<and> rd_messageId e = mid \<and> ep_adapter (the (rd_endpoint e)) = ad"
      by (auto simp: entry_matches_def)
    have ih: "find_entry c mid ad (Suc i) (length ps)
        = Some (map_option ((+) (Suc i)) (find_index (entry_matches mid ad) (rt_items c (drop (Suc i) ps))))"
      using Suc by simp
    show ?case
      by (subst find_entry.simps, cases "find_index (entry_matches mid ad) (rt_items c (drop (Suc i) ps))")
        (simp_all add: i rt_rep_get [OF rep] e d m ih)
  qed
  from this [of 0] show ?thesis
    by (cases "find_index (entry_matches mid ad) (rt_items c ps)") simp_all
qed

definition new_entry :: "u64 \<Rightarrow> u8 \<Rightarrow> CAEndpoint \<Rightarrow> nat \<Rightarrow> u8 list \<Rightarrow> CARetransmissionData" where
  "new_entry now rnd ep dataType bytes = \<lparr>rd_timeStamp = now, rd_timeout = CAGetTimeoutValue rnd,
     rd_triedCount = 0, rd_messageId = CAGetMessageIdFromPduBinaryData (Some bytes),
     rd_dataType = dataType, rd_endpoint = Some ep, rd_pdu = Some bytes\<rparr>"

lemma rt_rep_mem [simp]: "rt_rep (c\<lparr>rt_mem := m\<rparr>) ps = rt_rep c ps"
  "rt_items (c\<lparr>rt_mem := m\<rparr>) ps = rt_items c ps"
  by (simp_all add: rt_rep_def rt_items_def)

lemma store_entry:
  assumes rep: "rt_rep c ps" and fresh: "rt_heap c a = None" and new: "unat (rd_triedCount e) < 64"
    and add: "u_arraylist_add m (rt_dataList c) (Some a) = (ok, dl, m')"
  shows "rt_rep (c\<lparr>rt_dataList := dl, rt_heap := (rt_heap c)(a \<mapsto> e), rt_mem := m'\<rparr>) (if ok then ps @ [a] else ps)
    \<and> rt_items (c\<lparr>rt_dataList := dl, rt_heap := (rt_heap c)(a \<mapsto> e), rt_mem := m'\<rparr>) ps = rt_items c ps"
proof
  obtain l where l: "rt_dataList c = Some l" "al_inv l" using rep by (auto simp: rt_rep_def al_ok_def)
  have "al_ok dl \<and> al_abs dl = (if ok then al_abs (Some l) @ [Some a] else al_abs (Some l)) \<and> dl \<noteq> None"
    using u_arraylist_add_ok [OF l(2)] add l(1) by (auto simp: al_ok_def)
  moreover have "a \<notin> set ps" using rep fresh by (auto simp: rt_rep_def)
  ultimately show "rt_rep (c\<lparr>rt_dataList := dl, rt_heap := (rt_heap c)(a \<mapsto> e), rt_mem := m'\<rparr>)
      (if ok then ps @ [a] else ps)"
    using rep l(1) new by (auto simp: rt_rep_def)
  show "rt_items (c\<lparr>rt_dataList := dl, rt_heap := (rt_heap c)(a \<mapsto> e), rt_mem := m'\<rparr>) ps = rt_items c ps"
    using \<open>a \<notin> set ps\<close> by (auto intro!: rt_items_cong)
qed

text \<open>No allocation fails, and the message and the list are of a size that can be allocated.\<close>

definition memory_free :: "CARetransmission \<Rightarrow> u8 list \<Rightarrow> bool" where
  "memory_free c bytes \<longleftrightarrow> rt_mem c = [] \<and> length bytes \<le> max_object
     \<and> (case rt_dataList c of None \<Rightarrow> False | Some l \<Rightarrow> al_capacity l < 2 ^ 58)"

lemma sent_data_outcome:
  assumes rep: "rt_rep c ps" and fresh: "rt_heap c a = None"
    and sup: "rt_supportType c AND ep_adapter ep \<noteq> 0"
    and con: "CAGetMessageTypeFromPduBinaryData (Some bytes) = CA_MSG_CONFIRM"
  defines "mid \<equiv> CAGetMessageIdFromPduBinaryData (Some bytes)"
  defines "dup \<equiv> (\<exists>e\<in>set (rt_items c ps). entry_matches mid (ep_adapter ep) e)"
  shows "\<exists>r c' stored. CARetransmissionSentData a now rnd (Some c) (Some ep) dataType (Some bytes) = Some (r, Some c')
     \<and> rt_rep c' (if stored then ps @ [a] else ps) \<and> rt_items c' ps = rt_items c ps
     \<and> (stored \<longrightarrow> r = CA_STATUS_OK \<and> \<not> dup \<and> rt_items c' [a] = [new_entry now rnd ep dataType bytes])
     \<and> (r = CA_STATUS_OK \<longrightarrow> \<not> dup) \<and> (r = CA_STATUS_FAILED \<longrightarrow> dup)
     \<and> r \<in> {CA_STATUS_OK, CA_STATUS_FAILED, CA_MEMORY_ALLOC_FAILED}
     \<and> (memory_free c bytes \<longrightarrow> (if dup then r = CA_STATUS_FAILED else stored))
     \<and> same_config c c' \<and> rt_events c' = rt_events c"
proof -
  obtain ok1 m1 where a1: "OICCalloc (rt_mem c) 1 sizeof_retdata = (ok1, m1)" by fastforce
  obtain ok2 m2 where a2: "OICMalloc m1 (length bytes) = (ok2, m2)" by fastforce
  obtain ok3 m3 where a3: "OICMalloc m2 sizeof_endpoint = (ok3, m3)" by fastforce
  obtain ok dl m4 where add: "u_arraylist_add m3 (rt_dataList c) (Some a) = (ok, dl, m4)"
    by (metis prod_cases3)
  have dup: "dup \<longleftrightarrow> find_index (entry_matches mid (ep_adapter ep)) (rt_items c ps) \<noteq> None"
    by (auto simp: dup_def find_index_None)
  let ?e = "new_entry now rnd ep dataType bytes"
  let ?c = "c\<lparr>rt_dataList := dl, rt_heap := (rt_heap c)(a \<mapsto> ?e), rt_mem := m4\<rparr>"
  have res: "CARetransmissionSentData a now rnd (Some c) (Some ep) dataType (Some bytes) =
     (if \<not> ok1 then Some (CA_MEMORY_ALLOC_FAILED, Some (c\<lparr>rt_mem := m1\<rparr>))
      else if \<not> ok2 then Some (CA_MEMORY_ALLOC_FAILED, Some (c\<lparr>rt_mem := m2\<rparr>))
      else if \<not> ok3 then Some (CA_MEMORY_ALLOC_FAILED, Some (c\<lparr>rt_mem := m3\<rparr>))
      else if dup then Some (CA_STATUS_FAILED, Some (c\<lparr>rt_mem := m3\<rparr>)) else Some (CA_STATUS_OK, Some ?c))"
    using sup con a1 a2 a3 add
    by (cases "find_index (entry_matches mid (ep_adapter ep)) (rt_items c ps)")
      (simp_all add: CARetransmissionSentData_def rt_rep_length [OF rep] find_entry_eq [OF rep] dup
        mid_def new_entry_def Let_def)
  have cf: "same_config c (c\<lparr>rt_mem := m\<rparr>)" "same_config c ?c" for m by (simp_all add: same_config_def)
  have "bytes \<noteq> []" using con by (auto simp: CAGetMessageTypeFromPduBinaryData_def CA_PDU_MIN_SIZE_def)
  then have free: "ok1 \<and> ok2 \<and> ok3 \<and> m3 = []" if "memory_free c bytes"
    using that a1 a2 a3
    by (auto simp: memory_free_def OICCalloc_def OICMalloc_def sizeof_retdata_def sizeof_endpoint_def max_object_def)
  have room: "ok" if "memory_free c bytes"
  proof -
    obtain l where l: "rt_dataList c = Some l" "al_inv l"
      using rep by (auto simp: rt_rep_def al_ok_def)
    then have "al_capacity l < 2 ^ 58" using that by (simp add: memory_free_def)
    with l show ?thesis using u_arraylist_add_room [OF l(2)] add free [OF that] by metis
  qed
  show ?thesis
  proof (cases "ok1 \<and> ok2 \<and> ok3 \<and> \<not> dup")
    case True
    have "unat (rd_triedCount ?e) < 64" by (simp add: new_entry_def)
    with True store_entry [OF rep fresh _ add, of ?e] res cf room show ?thesis
      by (intro exI [of _ CA_STATUS_OK] exI [of _ ?c] exI [of _ ok]) auto
  next
    case False
    then show ?thesis using res rep cf free by (auto intro!: exI [of _ False])
  qed
qed

text \<open>
  Sending a confirmable message on a supported transport registers it for retransmission at the
  end of the list, with a fresh timeout and no tries, unless memory runs out; a message id that is
  already waiting on the same adapter is refused and every failure leaves the list as it was.
\<close>

lemma CARetransmissionSentData_spec:
  assumes "rt_rep c ps" and "rt_heap c a = None" and "rt_supportType c AND ep_adapter ep \<noteq> 0"
    and "CAGetMessageTypeFromPduBinaryData (Some bytes) = CA_MSG_CONFIRM"
  shows "\<exists>r c' stored. CARetransmissionSentData a now rnd (Some c) (Some ep) dataType (Some bytes) = Some (r, Some c')
     \<and> rt_rep c' (if stored then ps @ [a] else ps) \<and> rt_items c' ps = rt_items c ps
     \<and> (stored \<longrightarrow> r = CA_STATUS_OK \<and> rt_items c' [a] = [new_entry now rnd ep dataType bytes])
     \<and> (r = CA_STATUS_FAILED \<longrightarrow>
          (\<exists>e\<in>set (rt_items c ps). entry_matches (CAGetMessageIdFromPduBinaryData (Some bytes)) (ep_adapter ep) e))
     \<and> (r = CA_STATUS_OK \<longrightarrow>
          (\<forall>e\<in>set (rt_items c ps). \<not> entry_matches (CAGetMessageIdFromPduBinaryData (Some bytes)) (ep_adapter ep) e))
     \<and> (memory_free c bytes \<longrightarrow> r = CA_STATUS_FAILED \<or> stored)"
  using sent_data_outcome [OF assms, of now rnd dataType] by metis

lemma CARetransmissionSentData_spec_example:
  "\<exists>r c' stored. CARetransmissionSentData 6 9 0 (Some example_rt) (Some example_peer) 1 (Some [64, 1, 8, 0])
       = Some (r, Some c') \<and> rt_rep c' (if stored then [5] @ [6] else [5])"
proof -
  have f: "rt_heap example_rt 6 = None" by (simp add: example_rt_def)
  have s: "rt_supportType example_rt AND ep_adapter example_peer \<noteq> 0"
    by (simp add: example_rt_def example_peer_def)
  have t: "CAGetMessageTypeFromPduBinaryData (Some [64, 1, 8, 0]) = CA_MSG_CONFIRM"
    by (simp add: CAGetMessageTypeFromPduBinaryData_def CA_PDU_MIN_SIZE_def msg_type_of_def)
  from CARetransmissionSentData_spec [OF example_rt_rep(1) f s t, of 9 0 1] show ?thesis by blast
qed

text \<open>
  the result of \<open>u_arraylist_add\<close> is ignored: when the list cannot grow, sending reports success
  although the message is not registered and will never be retransmitted.
\<close>

lemma CARetransmissionSentData_lost:
  "\<exists>c'. CARetransmissionSentData 6 9 0 (Some (example_rt\<lparr>rt_mem := [True, True, True, False]\<rparr>))
       (Some example_peer) 1 (Some [64, 1, 8, 0]) = Some (CA_STATUS_OK, Some c')
     \<and> rt_dataList c' = rt_dataList example_rt"
proof -
  let ?c = "example_rt\<lparr>rt_mem := [True, True, True, False]\<rparr>"
  have rep: "rt_rep ?c [5]" by (simp add: example_rt_rep)
  have "find_entry ?c 8 1 0 1 = Some None"
    using find_entry_eq [OF rep, of 8 1] example_rt_rep(2)
    by (simp add: entry_matches_def) (simp add: example_entry_def)
  then show ?thesis
    by (simp add: CARetransmissionSentData_def example_rt_def example_peer_def CAGetMessageTypeFromPduBinaryData_def
        CAGetMessageIdFromPduBinaryData_def CA_PDU_MIN_SIZE_def msg_type_of_def OICCalloc_def OICMalloc_def
        sizeof_retdata_def sizeof_endpoint_def max_object_def u_arraylist_add_def u_arraylist_length_def
        OICRealloc_def sizeof_ptr_def size_t_mod_def Let_def)
qed

section \<open>Acknowledgements\<close>

text \<open>An ACK, or an empty RST, settles a message.\<close>

definition settles :: "u8 list \<Rightarrow> bool" where
  "settles bytes \<longleftrightarrow> CAGetMessageTypeFromPduBinaryData (Some bytes) = CA_MSG_ACKNOWLEDGE
     \<or> CAGetMessageTypeFromPduBinaryData (Some bytes) = CA_MSG_RESET \<and> CAGetCodeFromPduBinaryData (Some bytes) = 0"

lemma remove_entry:
  assumes rep: "rt_rep c ps" and i: "i < length ps"
  obtains dl where "u_arraylist_remove (rt_dataList c) i = (Some (ps ! i), dl)"
    "\<And>m. rt_rep (c\<lparr>rt_dataList := dl, rt_heap := (rt_heap c)(ps ! i := None), rt_mem := m\<rparr>) (remove_nth i ps)"
    "\<And>m. rt_items (c\<lparr>rt_dataList := dl, rt_heap := (rt_heap c)(ps ! i := None), rt_mem := m\<rparr>) (remove_nth i ps)
       = remove_nth i (rt_items c ps)"
proof -
  have ps: "ps = take i ps @ ps ! i # drop (Suc i) ps" using i by (simp add: id_take_nth_drop)
  obtain dl where dl: "u_arraylist_remove (rt_dataList c) (length (take i ps)) = (Some (ps ! i), dl)"
    "dl \<noteq> None" "al_ok dl" "al_abs dl = map Some (take i ps @ drop (Suc i) ps)"
    using rt_rep_remove [of c "take i ps" "ps ! i" "drop (Suc i) ps"] rep ps by metis
  have d: "distinct (take i ps @ ps ! i # drop (Suc i) ps)" using rep ps by (simp add: rt_rep_def)
  have h: "\<forall>p\<in>set ps. rt_heap c p \<noteq> None" "unat (rt_tryingCount c) \<le> 64"
    "\<forall>p\<in>set ps. unat (rd_triedCount (the (rt_heap c p))) < 64" using rep by (simp_all add: rt_rep_def)
  have sub: "set (take i ps) \<subseteq> set ps" "set (drop (Suc i) ps) \<subseteq> set ps"
    by (simp_all add: set_take_subset set_drop_subset)
  have r: "rt_rep (c\<lparr>rt_dataList := dl, rt_heap := (rt_heap c)(ps ! i := None), rt_mem := m\<rparr>) (remove_nth i ps)" for m
    using dl(2-4) d h sub by (auto simp: rt_rep_def remove_nth_def subset_iff)
  have it: "rt_items (c\<lparr>rt_dataList := dl, rt_heap := (rt_heap c)(ps ! i := None), rt_mem := m\<rparr>) (remove_nth i ps)
       = remove_nth i (rt_items c ps)" for m
    using d by (auto simp: rt_items_def remove_nth_def take_map drop_map)
  show ?thesis using that dl(1) i r it by simp
qed

lemma received_data_outcome:
  assumes rep: "rt_rep c ps" and pdus: "\<forall>e\<in>set (rt_items c ps). rd_pdu e \<noteq> None"
    and sup: "rt_supportType c AND ep_adapter ep \<noteq> 0" and ack: "settles bytes"
  defines "idx \<equiv> find_index (entry_matches (CAGetMessageIdFromPduBinaryData (Some bytes)) (ep_adapter ep)) (rt_items c ps)"
  shows "\<exists>r out c'. CARetransmissionReceivedData (Some c) (Some ep) (Some bytes) True = Some (r, out, Some c')
     \<and> (r = CA_STATUS_OK \<or> r = CA_MEMORY_ALLOC_FAILED) \<and> same_config c c' \<and> rt_events c' = rt_events c
     \<and> (r = CA_STATUS_OK \<longrightarrow> (case idx of
          None \<Rightarrow> c' = c \<and> out = None
        | Some i \<Rightarrow> rt_rep c' (remove_nth i ps) \<and> rt_items c' (remove_nth i ps) = remove_nth i (rt_items c ps)
            \<and> out = (if CAGetCodeFromPduBinaryData (Some bytes) = 0 then rd_pdu (rt_items c ps ! i) else None)))"
proof -
  have ty: "(CAGetMessageTypeFromPduBinaryData (Some bytes) = CA_MSG_ACKNOWLEDGE)
      \<or> (CAGetMessageTypeFromPduBinaryData (Some bytes) = CA_MSG_RESET
        \<and> CAGetCodeFromPduBinaryData (Some bytes) = 0)"
    using ack by (simp add: settles_def)
  have fe: "find_entry c (CAGetMessageIdFromPduBinaryData (Some bytes)) (ep_adapter ep) 0
      (u_arraylist_length (rt_dataList c)) = Some idx"
    using find_entry_eq [OF rep] rt_rep_length [OF rep] by (simp add: idx_def)
  note base = CARetransmissionReceivedData_def Let_def
  show ?thesis
  proof (cases idx)
    case None
    then show ?thesis using ty sup fe by (elim disjE) (auto simp: base same_config_def)
  next
    case (Some i)
    then have i: "i < length ps" using find_index_SomeD [OF Some [unfolded idx_def]] by (simp add: rt_items_def)
    have "rt_heap c (ps ! i) \<noteq> None" using rep nth_mem [OF i] by (simp add: rt_rep_def)
    then obtain e where e: "rt_heap c (ps ! i) = Some e" by blast
    have ei: "rt_items c ps ! i = e" using e i by (simp add: rt_items_def)
    then have "e \<in> set (rt_items c ps)" using i by (auto simp: rt_items_def)
    then obtain stored where st: "rd_pdu e = Some stored" using pdus by fastforce
    obtain dl where dl: "u_arraylist_remove (rt_dataList c) i = (Some (ps ! i), dl)"
      "\<And>m. rt_rep (c\<lparr>rt_dataList := dl, rt_heap := (rt_heap c)(ps ! i := None), rt_mem := m\<rparr>) (remove_nth i ps)"
      "\<And>m. rt_items (c\<lparr>rt_dataList := dl, rt_heap := (rt_heap c)(ps ! i := None), rt_mem := m\<rparr>) (remove_nth i ps)
         = remove_nth i (rt_items c ps)" by (rule remove_entry [OF rep i]) blast
    obtain ok m1 where al: "OICCalloc (rt_mem c) 1 (length stored) = (ok, m1)" by fastforce
    let ?fin = "\<lambda>m. c\<lparr>rt_dataList := dl, rt_heap := (rt_heap c)(ps ! i := None), rt_mem := m\<rparr>"
    have res: "CARetransmissionReceivedData (Some c) (Some ep) (Some bytes) True =
       (if CAGetCodeFromPduBinaryData (Some bytes) \<noteq> 0 then Some (CA_STATUS_OK, None, Some (?fin (rt_mem c)))
        else if ok then Some (CA_STATUS_OK, Some stored, Some (?fin m1))
        else Some (CA_MEMORY_ALLOC_FAILED, None, Some (c\<lparr>rt_heap := (rt_heap c)(ps ! i := None), rt_mem := m1\<rparr>)))"
      using ty sup fe Some dl(1) al e st rt_rep_get [OF rep i] by (elim disjE; cases ok) (simp_all add: base)
    show ?thesis using res dl(2,3) Some ei st by (cases ok) (simp_all add: same_config_def)
  qed
qed

text \<open>
  An acknowledgement (or an empty reset) from a peer removes exactly the message it names, hands
  back its PDU when the acknowledgement is empty, and leaves all other messages waiting; an
  acknowledgement that names no waiting message changes nothing.
\<close>

lemma CARetransmissionReceivedData_spec:
  assumes "rt_rep c ps" and "\<forall>e\<in>set (rt_items c ps). rd_pdu e \<noteq> None"
    and "rt_supportType c AND ep_adapter ep \<noteq> 0" and "settles bytes"
  shows "\<exists>r out c'. CARetransmissionReceivedData (Some c) (Some ep) (Some bytes) True = Some (r, out, Some c')
     \<and> (r = CA_STATUS_OK \<or> r = CA_MEMORY_ALLOC_FAILED)
     \<and> (r = CA_STATUS_OK \<longrightarrow>
         (case find_index (entry_matches (CAGetMessageIdFromPduBinaryData (Some bytes)) (ep_adapter ep)) (rt_items c ps) of
            None \<Rightarrow> c' = c \<and> out = None
          | Some i \<Rightarrow> rt_rep c' (remove_nth i ps) \<and> rt_items c' (remove_nth i ps) = remove_nth i (rt_items c ps)
              \<and> out = (if CAGetCodeFromPduBinaryData (Some bytes) = 0 then rd_pdu (rt_items c ps ! i) else None)))"
  using received_data_outcome [OF assms] by blast

lemma example_ack: "settles [96, 0, 7, 0]" "rt_supportType example_rt AND ep_adapter example_peer \<noteq> 0"
  "\<forall>e\<in>set (rt_items example_rt [5]). rd_pdu e \<noteq> None"
proof -
  show "settles [96, 0, 7, 0]"
    by (simp add: settles_def CAGetMessageTypeFromPduBinaryData_def CA_PDU_MIN_SIZE_def msg_type_of_def)
  show "rt_supportType example_rt AND ep_adapter example_peer \<noteq> 0" by (simp add: example_rt_def example_peer_def)
  show "\<forall>e\<in>set (rt_items example_rt [5]). rd_pdu e \<noteq> None"
    unfolding example_rt_rep(2) by (simp add: example_entry_def)
qed

lemma CARetransmissionReceivedData_spec_example:
  "\<exists>r out c'. CARetransmissionReceivedData (Some example_rt) (Some example_peer) (Some [96, 0, 7, 0]) True
     = Some (r, out, Some c') \<and> (r = CA_STATUS_OK \<or> r = CA_MEMORY_ALLOC_FAILED)"
  using CARetransmissionReceivedData_spec [OF example_rt_rep(1) example_ack(3,2,1)] by blast

text \<open>
  when the copy of the acknowledged PDU cannot be allocated, the entry is freed but stays in the
  list, and the next pass of the retransmission thread reads the freed object.
\<close>

lemma CARetransmissionReceivedData_use_after_free:
  "\<exists>c'. CARetransmissionReceivedData (Some (example_rt\<lparr>rt_mem := [False]\<rparr>)) (Some example_peer)
          (Some [96, 0, 7, 0]) True = Some (CA_MEMORY_ALLOC_FAILED, None, Some c')
     \<and> CACheckRetransmissionList clock (Some c') = None"
proof -
  let ?c = "example_rt\<lparr>rt_mem := [False]\<rparr>"
  have rep: "rt_rep ?c [5]" by (simp add: example_rt_rep)
  have "find_entry ?c 7 1 0 1 = Some (Some 0)"
    using find_entry_eq [OF rep, of 7 1] example_rt_rep(2)
    by (simp add: entry_matches_def) (simp add: example_entry_def)
  then have "CARetransmissionReceivedData (Some ?c) (Some example_peer) (Some [96, 0, 7, 0]) True
      = Some (CA_MEMORY_ALLOC_FAILED, None, Some (?c\<lparr>rt_heap := Map.empty, rt_mem := []\<rparr>))"
    by (simp add: CARetransmissionReceivedData_def example_rt_def example_peer_def example_entry_def
        CAGetMessageTypeFromPduBinaryData_def CAGetCodeFromPduBinaryData_def
        CAGetMessageIdFromPduBinaryData_def CA_PDU_MIN_SIZE_def msg_type_of_def OICCalloc_def
        u_arraylist_length_def u_arraylist_get_def Let_def)
  moreover have "check_loop clock 0 0 1 (?c\<lparr>rt_heap := Map.empty, rt_mem := []\<rparr>) = None"
    by (subst check_loop.simps) (simp add: example_rt_def u_arraylist_get_def)
  ultimately show ?thesis
    by (simp add: CACheckRetransmissionList_def) (simp add: example_rt_def u_arraylist_length_def)
qed

section \<open>Timeouts\<close>

lemma CAGetTimeoutValue_unat:
  "unat (CAGetTimeoutValue b) = (2000 + 1000 * unat b div 256) * 1000"
proof -
  have b: "unat b < 256" using unsigned_less [of b] by simp
  have m: "unat (1000 * ucast b :: u64) = 1000 * unat b"
    using b by (simp add: unat_word_ariths unsigned_ucast_eq take_bit_nat_eq_self)
  have d: "unat (drop_bit 8 (1000 * ucast b :: u64)) = 1000 * unat b div 256"
    by (simp only: unat_drop_bit_eq m drop_bit_nat_def) simp
  have "1000 * unat b div 256 < 1000" using b by simp
  then show ?thesis
    by (simp add: CAGetTimeoutValue_def DEFAULT_ACK_TIMEOUT_SEC_def MSECS_PER_SEC_def unat_word_ariths d)
qed

text \<open>
  The first timeout lies between two and three seconds (in microseconds) whatever the random
  byte; the n-th retransmission waits at least \<open>2^n\<close> times that, computed without overflow of 64
  bits, up to the truncation to milliseconds.
\<close>

lemma retransmission_backoff:
  assumes "rd_timeout e = CAGetTimeoutValue b" and "unat (rd_triedCount e) \<le> 32"
    and "unat (rd_timeStamp e) < 2 ^ 63"
  shows "2000000 \<le> unat (rd_timeout e) \<and> unat (rd_timeout e) < 3000000
     \<and> (CACheckTimeout now e = Some True \<longleftrightarrow> unat (rd_timeStamp e) + unat (rd_timeout e) * 2 ^ unat (rd_triedCount e) \<le> unat now)"
proof -
  let ?n = "unat (rd_triedCount e)" and ?m = "2000 + 1000 * unat b div 256"
  have b: "unat b < 256" using unsigned_less [of b] by simp
  then have m: "2000 \<le> ?m" "?m < 3000" by simp_all
  have t: "unat (rd_timeout e) = ?m * 1000" using assms(1) by (simp add: CAGetTimeoutValue_unat)
  have ms: "unat (rd_timeout e div 1000) = ?m" by (simp add: unat_div t)
  have pow: "(2::nat) ^ ?n \<le> 2 ^ 32" using assms(2) by (intro power_increasing) auto
  obtain x where x: "x = ?m * 2 ^ ?n" by simp
  have lt: "x < 3000 * 2 ^ 32" unfolding x using m pow by (intro mult_less_le_imp_less) auto
  have sh: "unat (push_bit ?n (rd_timeout e div 1000)) = x"
    using lt by (simp only: unsigned_push_bit_eq ms push_bit_nat_def x [symmetric]) (simp add: take_bit_nat_def)
  have to: "unat (push_bit ?n (rd_timeout e div 1000) * 1000) = x * 1000"
    using lt by (simp add: unat_word_ariths sh)
  have sum: "unat (rd_timeStamp e + push_bit ?n (rd_timeout e div 1000) * 1000) = unat (rd_timeStamp e) + x * 1000"
    using lt assms(3) by (simp only: unat_word_ariths(1) to) simp
  have "CACheckTimeout now e = Some True \<longleftrightarrow> unat (rd_timeStamp e) + x * 1000 \<le> unat now"
    using assms(2) by (simp add: CACheckTimeout_def USECS_PER_MSEC_def Let_def word_le_nat_alt sum)
  moreover have "unat (rd_timeout e) * 2 ^ ?n = x * 1000" by (simp only: t x mult_ac)
  ultimately show ?thesis using m t by simp
qed

lemma retransmission_backoff_example:
  "unat (rd_timeout example_entry) < 3000000 \<and> CACheckTimeout 2000000 example_entry = Some True
     \<and> CACheckTimeout 1999999 example_entry \<noteq> Some True"
proof -
  have h: "rd_timeout example_entry = CAGetTimeoutValue 0" "unat (rd_triedCount example_entry) \<le> 32"
    "unat (rd_timeStamp example_entry) < 2 ^ 63"
    by (simp_all add: example_entry_def CAGetTimeoutValue_def DEFAULT_ACK_TIMEOUT_SEC_def MSECS_PER_SEC_def)
  show ?thesis
    using retransmission_backoff [OF h, of 2000000] retransmission_backoff [OF h, of 1999999]
    by (simp add: example_entry_def)
qed

section \<open>Reachable states\<close>

text \<open>
  Whole calls and whole passes, in any order and with any environment, as long as no copy for an
  acknowledgement fails. A new object gets an address that is not in use.
\<close>

inductive rt_step :: "CARetransmission \<Rightarrow> CARetransmission \<Rightarrow> bool" where
  send: "CARetransmissionSentData a now rnd (Some c) ep dataType pdu = Some (r, Some c') \<Longrightarrow> rt_heap c a = None
     \<Longrightarrow> rt_step c c'"
| receive: "CARetransmissionReceivedData (Some c) ep pdu out = Some (r, copy, Some c') \<Longrightarrow> r \<noteq> CA_MEMORY_ALLOC_FAILED
     \<Longrightarrow> rt_step c c'"
| pass: "CARetransmissionBaseRoutine_round clock c = Some c' \<Longrightarrow> rt_step c c'"
| stop: "CARetransmissionStop (Some c) = (r, Some c') \<Longrightarrow> rt_step c c'"

definition rt_key :: "CARetransmissionData \<Rightarrow> u16 \<times> u32" where
  "rt_key e = (rd_messageId e, ep_adapter (the (rd_endpoint e)))"

definition entry_ok :: "CARetransmission \<Rightarrow> CARetransmissionData \<Rightarrow> bool" where
  "entry_ok c e \<longleftrightarrow> rd_pdu e \<noteq> None \<and> rd_triedCount e < rt_tryingCount c
     \<and> rd_endpoint e \<noteq> None \<and> rt_supportType c AND ep_adapter (the (rd_endpoint e)) \<noteq> 0"

definition rt_wf :: "CARetransmission \<Rightarrow> nat list \<Rightarrow> bool" where
  "rt_wf c ps \<longleftrightarrow> rt_rep c ps \<and> 0 < rt_tryingCount c \<and> (\<forall>e\<in>set (rt_items c ps). entry_ok c e)
     \<and> distinct (map rt_key (rt_items c ps))"

lemma config_facts: "same_config c c' \<Longrightarrow> rt_tryingCount c' = rt_tryingCount c"
  "same_config c c' \<Longrightarrow> entry_ok c' e = entry_ok c e"
  by (simp_all add: entry_ok_def same_config_def)

lemma rt_key_matches: "entry_ok c e \<Longrightarrow> rt_key e = (mid, ad) \<longleftrightarrow> entry_matches mid ad e"
  by (auto simp: entry_ok_def rt_key_def entry_matches_def)

lemma rt_key_bump [simp]: "rt_key (bump now e) = rt_key e"
  by (simp add: rt_key_def)

lemma check_spec_ok:
  "(\<forall>e\<in>set es. entry_ok c e) \<Longrightarrow> \<forall>e\<in>set (fst (check_spec c clock k es)). entry_ok c e"
proof (induction es arbitrary: k)
  case Nil
  then show ?case by simp
next
  case (Cons e es)
  have "entry_ok c (bump (clock k) e)" if "\<not> rt_tryingCount c \<le> rd_triedCount (bump (clock k) e)"
    using Cons.prems that by (simp add: entry_ok_def not_le)
  then show ?case using Cons.IH [of "Suc k"] Cons.prems by (auto simp: Let_def split_def)
qed

lemma check_spec_keys:
  "set (map rt_key (fst (check_spec c clock k es))) \<subseteq> set (map rt_key es)
   \<and> (distinct (map rt_key es) \<longrightarrow> distinct (map rt_key (fst (check_spec c clock k es))))"
proof (induction es arbitrary: k)
  case Nil
  then show ?case by simp
next
  case (Cons e es)
  from Cons.IH [of "Suc k"] show ?case by (auto simp: Let_def split_def)
qed

lemma pass_wf:
  assumes "rt_wf c ps" and "CARetransmissionBaseRoutine_round clock c = Some c'"
  shows "\<exists>ps'. rt_wf c' ps'"
proof (cases "rt_isStop c")
  case True
  then show ?thesis using assms by (auto simp: CARetransmissionBaseRoutine_round_def)
next
  case False
  have rep: "rt_rep c ps" using assms(1) by (simp add: rt_wf_def)
  obtain c1 ps' where c1: "check_loop clock 0 0 (length ps) c = Some c1" "rt_rep c1 ps'"
    "rt_items c1 ps' = fst (check_spec c clock 0 (rt_items c ps))" "same_config c c1"
    using check_loop_refines [of c ps clock] rep by auto
  have "c1 = c'" using assms(2) False c1(1) rep
    by (simp add: CARetransmissionBaseRoutine_round_def CACheckRetransmissionList_def rt_rep_length)
  with config_facts [OF c1(4)] show ?thesis
    using c1 assms(1) check_spec_ok [of "rt_items c ps" c clock 0] check_spec_keys [of c clock 0 "rt_items c ps"]
    by (intro exI [of _ ps']) (simp add: rt_wf_def)
qed

lemma sent_ignored:
  assumes "\<not> (\<exists>e b. ep = Some e \<and> pdu = Some b \<and> rt_supportType c AND ep_adapter e \<noteq> 0
    \<and> CAGetMessageTypeFromPduBinaryData (Some b) = CA_MSG_CONFIRM)"
  shows "\<exists>r. CARetransmissionSentData a now rnd (Some c) ep dataType pdu = Some (r, Some c)"
proof (cases "ep = None \<or> pdu = None")
  case True
  then show ?thesis by (cases ep; cases pdu) (simp_all add: CARetransmissionSentData_def)
next
  case False
  then obtain e b where "ep = Some e" "pdu = Some b" by auto
  then show ?thesis using assms
    by (cases "rt_supportType c AND ep_adapter e = 0") (simp_all add: CARetransmissionSentData_def)
qed

lemma received_ignored:
  assumes "\<not> (\<exists>e b. ep = Some e \<and> pdu = Some b \<and> out \<and> rt_supportType c AND ep_adapter e \<noteq> 0 \<and> settles b)"
  shows "\<exists>r. CARetransmissionReceivedData (Some c) ep pdu out = Some (r, None, Some c)"
proof (cases "ep = None \<or> pdu = None \<or> \<not> out")
  case True
  then show ?thesis by (cases ep; cases pdu; cases out) (simp_all add: CARetransmissionReceivedData_def)
next
  case False
  then obtain e b where eb: "ep = Some e" "pdu = Some b" "out" by auto
  show ?thesis
  proof (cases "rt_supportType c AND ep_adapter e = 0")
    case True
    then show ?thesis using eb by (simp add: CARetransmissionReceivedData_def)
  next
    case False
    then have "\<not> settles b" using assms eb by simp
    then show ?thesis using eb False
      by (cases "CAGetMessageTypeFromPduBinaryData (Some b)")
        (simp_all add: CARetransmissionReceivedData_def settles_def Let_def)
  qed
qed

lemma send_wf:
  assumes wf: "rt_wf c ps" and sent: "CARetransmissionSentData a now rnd (Some c) ep dataType pdu = Some (r, Some c')"
    and fresh: "rt_heap c a = None"
  shows "\<exists>ps'. rt_wf c' ps'"
proof (cases "\<exists>e b. ep = Some e \<and> pdu = Some b \<and> rt_supportType c AND ep_adapter e \<noteq> 0
    \<and> CAGetMessageTypeFromPduBinaryData (Some b) = CA_MSG_CONFIRM")
  case False
  then have "c' = c" using sent_ignored [of ep pdu c a now rnd dataType] sent by auto
  then show ?thesis using wf by blast
next
  case True
  then obtain e b where eb: "ep = Some e" "pdu = Some b" "rt_supportType c AND ep_adapter e \<noteq> 0"
    "CAGetMessageTypeFromPduBinaryData (Some b) = CA_MSG_CONFIRM" by blast
  have rep: "rt_rep c ps" using wf by (simp add: rt_wf_def)
  let ?n = "new_entry now rnd e dataType b"
  obtain stored where st: "rt_rep c' (if stored then ps @ [a] else ps)" "rt_items c' ps = rt_items c ps"
    "stored \<Longrightarrow> rt_items c' [a] = [?n]" "same_config c c'"
    "stored \<Longrightarrow> \<forall>x\<in>set (rt_items c ps). \<not> entry_matches (CAGetMessageIdFromPduBinaryData (Some b)) (ep_adapter e) x"
    using sent_data_outcome [OF rep fresh eb(3,4), of now rnd dataType] sent eb(1,2) by auto
  have cfg: "0 < rt_tryingCount c'" "\<And>x. entry_ok c' x = entry_ok c x"
    using config_facts [OF st(4)] wf by (simp_all add: rt_wf_def)
  show ?thesis
  proof (cases stored)
    case True
    have it: "rt_items c' (ps @ [a]) = rt_items c ps @ [?n]" using st(2,3) True by simp
    have "entry_ok c ?n" using eb(3) wf by (simp add: entry_ok_def new_entry_def rt_wf_def)
    moreover have "rt_key ?n \<notin> set (map rt_key (rt_items c ps))"
    proof -
      have "rt_key ?n = (CAGetMessageIdFromPduBinaryData (Some b), ep_adapter e)"
        by (simp add: rt_key_def new_entry_def)
      then show ?thesis using st(5) [OF True] wf rt_key_matches by (fastforce simp: rt_wf_def)
    qed
    ultimately show ?thesis using st(1) True wf cfg it by (intro exI [of _ "ps @ [a]"]) (auto simp: rt_wf_def)
  next
    case False
    then show ?thesis using st(1,2) wf cfg by (intro exI [of _ ps]) (auto simp: rt_wf_def)
  qed
qed

lemma receive_wf:
  assumes wf: "rt_wf c ps" and got: "CARetransmissionReceivedData (Some c) ep pdu out = Some (r, copy, Some c')"
    and mem: "r \<noteq> CA_MEMORY_ALLOC_FAILED"
  shows "\<exists>ps'. rt_wf c' ps'"
proof (cases "\<exists>e b. ep = Some e \<and> pdu = Some b \<and> out \<and> rt_supportType c AND ep_adapter e \<noteq> 0 \<and> settles b")
  case False
  then have "c' = c" using received_ignored [of ep pdu out c] got by auto
  then show ?thesis using wf by blast
next
  case True
  then obtain e b where eb: "ep = Some e" "pdu = Some b" "out" "rt_supportType c AND ep_adapter e \<noteq> 0" "settles b"
    by blast
  have rep: "rt_rep c ps" and pdus: "\<forall>x\<in>set (rt_items c ps). rd_pdu x \<noteq> None"
    using wf by (auto simp: rt_wf_def entry_ok_def)
  let ?idx = "find_index (entry_matches (CAGetMessageIdFromPduBinaryData (Some b)) (ep_adapter e)) (rt_items c ps)"
  have o: "r = CA_STATUS_OK" "same_config c c'" and
    idx: "case ?idx of None \<Rightarrow> c' = c
       | Some i \<Rightarrow> rt_rep c' (remove_nth i ps) \<and> rt_items c' (remove_nth i ps) = remove_nth i (rt_items c ps)"
    using received_data_outcome [OF rep pdus eb(4,5)] got eb(1-3) mem by (auto split: option.splits)
  show ?thesis
  proof (cases ?idx)
    case None
    then show ?thesis using idx wf by auto
  next
    case (Some i)
    with config_facts [OF o(2)] show ?thesis
      using idx wf set_remove_nth_subset [of i "rt_items c ps"] distinct_map_remove_nth [of rt_key "rt_items c ps" i]
      by (intro exI [of _ "remove_nth i ps"]) (simp add: rt_wf_def subset_iff)
  qed
qed

lemma stop_wf:
  assumes "rt_wf c ps" and "CARetransmissionStop (Some c) = (r, Some c')"
  shows "\<exists>ps'. rt_wf c' ps'"
  using assms by (auto simp: CARetransmissionStop_def rt_wf_def rt_rep_def rt_items_def entry_ok_def intro!: exI [of _ ps])

lemma rt_step_wf: "rt_step c c' \<Longrightarrow> rt_wf c ps \<Longrightarrow> \<exists>ps'. rt_wf c' ps'"
  by (induction rule: rt_step.induct) (blast intro: send_wf receive_wf pass_wf stop_wf)+

lemma init_wf:
  assumes "CARetransmissionInitialize (Some c0) True send_method callback config = (CA_STATUS_OK, Some c)"
    and "rt_dataList c \<noteq> None" and "0 < rt_tryingCount c" and "unat (rt_tryingCount c) \<le> 64"
  shows "rt_wf c []"
proof -
  obtain dl :: "nat u_arraylist option" and m where "u_arraylist_create (rt_mem c0) = (dl, m)" by fastforce
  moreover from this have "al_ok dl" "al_abs dl = []" by (rule u_arraylist_create_ok)+
  ultimately show ?thesis using assms
    by (auto simp: CARetransmissionInitialize_def rt_wf_def rt_rep_def Let_def split: prod.splits)
qed

text \<open>
  From the start of a context (with its list allocated and one to 64 tries configured), every
  state that any sequence of sends, receptions, passes and stops reaches is well-formed: all pointers
  of the list are live, every waiting message has its PDU, its endpoint and tries left, no two
  waiting messages have the same message id on the same adapter, and the next pass is defined.
\<close>

lemma retransmission_reachable_wf:
  assumes "CARetransmissionInitialize (Some c0) True send_method callback config = (CA_STATUS_OK, Some c)"
    and "rt_dataList c \<noteq> None" and "0 < rt_tryingCount c" and "unat (rt_tryingCount c) \<le> 64"
    and "rt_step\<^sup>*\<^sup>* c c'"
  shows "\<exists>ps. rt_wf c' ps \<and> (\<exists>c''. CACheckRetransmissionList clock (Some c') = Some (Some c''))"
proof -
  from assms(5) have "\<exists>ps. rt_wf c' ps"
    by (induction rule: rtranclp_induct) (use init_wf [OF assms(1-4)] rt_step_wf in blast)+
  then obtain ps where wf: "rt_wf c' ps" by blast
  then have "rt_rep c' ps" by (simp add: rt_wf_def)
  from check_loop_refines [OF this, of clock] this wf show ?thesis
    by (auto simp: CACheckRetransmissionList_def rt_rep_length)
qed

lemma retransmission_reachable_wf_example:
  "\<exists>c. CARetransmissionInitialize (Some (example_rt\<lparr>rt_dataList := None, rt_heap := Map.empty\<rparr>)) True True True None
       = (CA_STATUS_OK, Some c) \<and> (\<exists>ps. rt_wf c ps)"
proof -
  let ?c0 = "example_rt\<lparr>rt_dataList := None, rt_heap := Map.empty\<rparr>"
  obtain c where c: "CARetransmissionInitialize (Some ?c0) True True True None = (CA_STATUS_OK, Some c)"
    "rt_dataList c \<noteq> None" "0 < rt_tryingCount c" "unat (rt_tryingCount c) \<le> 64"
    by (simp add: CARetransmissionInitialize_def example_rt_def u_arraylist_create_def OICCalloc_def OICMalloc_def
        max_object_def DEFAULT_RETRANSMISSION_COUNT_def U_ARRAYLIST_DEFAULT_CAPACITY_def sizeof_ptr_def
        sizeof_u_arraylist_def Let_def)
  then show ?thesis using retransmission_reachable_wf [OF c rtranclp.rtrancl_refl] by blast
qed

end
