(* ===== verification/Utlist.thy ===== *)
theory Utlist
  imports ULinklist
begin

text \<open>
  The intrusive singly linked lists of \<^verbatim>\<open>resource/c_common/utlist.h\<close>, which hold the callbacks of a
  client and the observers of a resource: the macros that append, delete and iterate, at the level
  of the \<open>next\<close> pointers. The nodes live in a heap as in ULinklist; a walk over a damaged list or a
  freed node is \<^const>\<open>None\<close>.
\<close>

section \<open>The macros\<close>

definition LL_APPEND :: "'a heap \<times> addr option \<Rightarrow> addr \<Rightarrow> ('a heap \<times> addr option) option" where
  "LL_APPEND l add =
     (case l of (h, head) \<Rightarrow>
        (case h add of
           None \<Rightarrow> None
         | Some n \<Rightarrow>
             let h1 = h(add \<mapsto> n\<lparr>nd_next := None\<rparr>) in
             (case head of
                None \<Rightarrow> Some (h1, Some add)
              | Some first \<Rightarrow>
                  (case last_node h1 first of
                     None \<Rightarrow> None
                   | Some tmp \<Rightarrow>
                       (case h1 tmp of
                          None \<Rightarrow> None
                        | Some t \<Rightarrow> Some (h1(tmp \<mapsto> t\<lparr>nd_next := Some add\<rparr>), head))))))"

text \<open>The walk of \<open>LL_DELETE\<close> stops at the node before \<open>del\<close> or at the last node.\<close>

definition LL_DELETE :: "'a heap \<times> addr option \<Rightarrow> addr \<Rightarrow> ('a heap \<times> addr option) option" where
  "LL_DELETE l del =
     (case l of (h, head) \<Rightarrow>
        if head = Some del then map_option (\<lambda>n. (h, nd_next n)) (h del)
        else
          (case head of
             None \<Rightarrow> None
           | Some first \<Rightarrow>
               (case find_prev h del first of
                  None \<Rightarrow> None
                | Some (tmp, t) \<Rightarrow>
                    if nd_next t = None then Some (h, head)
                    else
                      (case h del of
                         None \<Rightarrow> None
                       | Some n \<Rightarrow> Some (h(tmp \<mapsto> t\<lparr>nd_next := nd_next n\<rparr>), head)))))"

text \<open>
  \<open>LL_FOREACH_SAFE\<close> reads the next pointer before the body runs, \<open>LL_FOREACH\<close> after it. The body
  works on a state that contains the heap; \<^const>\<open>Inl\<close> leaves the loop.
\<close>

partial_function (option) foreach_safe ::
  "('s \<Rightarrow> 'a heap) \<Rightarrow> (addr \<Rightarrow> 's \<Rightarrow> ('r + 's) option) \<Rightarrow> addr option \<Rightarrow> 's \<Rightarrow> ('r + 's) option" where
  "foreach_safe hp f el s =
     (case el of
        None \<Rightarrow> Some (Inr s)
      | Some p \<Rightarrow>
          (case hp s p of
             None \<Rightarrow> None
           | Some n \<Rightarrow>
               (case f p s of
                  None \<Rightarrow> None
                | Some (Inl r) \<Rightarrow> Some (Inl r)
                | Some (Inr s') \<Rightarrow> foreach_safe hp f (nd_next n) s')))"

partial_function (option) foreach ::
  "('s \<Rightarrow> 'a heap) \<Rightarrow> (addr \<Rightarrow> 's \<Rightarrow> ('r + 's) option) \<Rightarrow> addr option \<Rightarrow> 's \<Rightarrow> ('r + 's) option" where
  "foreach hp f el s =
     (case el of
        None \<Rightarrow> Some (Inr s)
      | Some p \<Rightarrow>
          (case f p s of
             None \<Rightarrow> None
           | Some (Inl r) \<Rightarrow> Some (Inl r)
           | Some (Inr s') \<Rightarrow> (case hp s' p of None \<Rightarrow> None | Some n \<Rightarrow> foreach hp f (nd_next n) s')))"

section \<open>Lists in the heap\<close>

text \<open>A list is the sequence of its nodes with their data.\<close>

definition ul_rep :: "'a heap \<Rightarrow> addr option \<Rightarrow> (addr \<times> 'a) list \<Rightarrow> bool" where
  "ul_rep h head xs \<longleftrightarrow> chain h head (map fst xs) \<and> distinct (map fst xs)
     \<and> (\<forall>(p, x) \<in> set xs. map_option nd_data (h p) = Some x)"

definition ul_first :: "(addr \<times> 'a) list \<Rightarrow> addr option" where
  "ul_first xs = (case xs of [] \<Rightarrow> None | x # _ \<Rightarrow> Some (fst x))"

text \<open>Heaps with the same nodes and data; only \<open>next\<close> pointers may differ.\<close>

definition same_nodes :: "'a heap \<Rightarrow> 'a heap \<Rightarrow> bool" where
  "same_nodes h h' \<longleftrightarrow> (\<forall>q. map_option nd_data (h' q) = map_option nd_data (h q))"

lemma ul_first_simps [simp]: "ul_first [] = None" "ul_first (x # xs) = Some (fst x)"
  by (simp_all add: ul_first_def)

lemma ul_rep_Nil [simp]: "ul_rep h head [] \<longleftrightarrow> head = None"
  by (cases head) (auto simp: ul_rep_def)

lemma chain_first: "chain h head (map fst xs) \<Longrightarrow> head = ul_first xs"
  by (cases xs; cases head) auto

lemma rep_first: "ul_rep h head xs \<Longrightarrow> head = ul_first xs"
  unfolding ul_rep_def using chain_first by blast

lemma chain_suffix: "chain h head (map fst (xs @ ys)) \<Longrightarrow> chain h (ul_first ys) (map fst ys)"
proof (induction xs arbitrary: head)
  case Nil
  then show ?case using chain_first [of h head ys] by simp
next
  case (Cons x xs)
  then show ?case by (auto elim!: chain_ConsE)
qed

lemma rep_node:
  assumes "ul_rep h head (xs @ (p, x) # ys)"
  obtains n where "h p = Some n" "nd_data n = x" "nd_next n = ul_first ys"
proof -
  have "chain h (Some p) (p # map fst ys)" using chain_suffix [of h head xs "(p, x) # ys"] assms by (simp add: ul_rep_def)
  then obtain n where n: "h p = Some n" "chain h (nd_next n) (map fst ys)" by (auto split: option.splits)
  moreover have "nd_data n = x" using assms n(1) by (simp add: ul_rep_def)
  ultimately show ?thesis using that chain_first [OF n(2)] by blast
qed

lemma rep_nth:
  assumes "ul_rep h head xs" and "i < length xs" and "xs ! i = (p, x)"
  obtains n where "h p = Some n" "nd_data n = x"
  using rep_node [of h head "take i xs" p x "drop (Suc i) xs"] assms id_take_nth_drop [of i xs] by metis

lemma rep_frame: "ul_rep h head xs \<Longrightarrow> (\<And>q. q \<in> fst ` set xs \<Longrightarrow> h' q = h q) \<Longrightarrow> ul_rep h' head xs"
  unfolding ul_rep_def using chain_cong [of "map fst xs" h' h head] by force

lemma rep_upd_other:
  assumes "ul_rep h head xs" and "p \<notin> fst ` set xs"
  shows "ul_rep (h(p := v)) head xs"
  by (rule rep_frame [OF assms(1)]) (use assms(2) in \<open>metis fun_upd_other\<close>)

lemma rep_data: "ul_rep h head xs \<Longrightarrow> (q, z) \<in> set xs \<Longrightarrow> map_option nd_data (h q) = Some z"
  unfolding ul_rep_def by (drule conjunct2, drule conjunct2, drule bspec, assumption) simp

lemma same_nodesD: "same_nodes h h' \<Longrightarrow> h p = Some n \<Longrightarrow> \<exists>n'. h' p = Some n' \<and> nd_data n' = nd_data n"
  "same_nodes h h' \<Longrightarrow> h p = None \<Longrightarrow> h' p = None"
  by (auto simp: same_nodes_def dest: spec [of _ p])

lemma same_nodes_upd: "h p = Some n \<Longrightarrow> nd_data n' = nd_data n \<Longrightarrow> same_nodes h (h(p \<mapsto> n'))"
  by (simp add: same_nodes_def)

lemma same_nodes_trans: "same_nodes h h1 \<Longrightarrow> same_nodes h1 h2 \<Longrightarrow> same_nodes h h2"
  by (simp add: same_nodes_def)

lemma rep_same_nodes: "same_nodes h h' \<Longrightarrow> ul_rep h head xs \<Longrightarrow> chain h' head' (map fst ys) \<Longrightarrow> set ys \<subseteq> set xs \<Longrightarrow>
    distinct (map fst ys) \<Longrightarrow> ul_rep h' head' ys"
  by (fastforce simp: ul_rep_def same_nodes_def)

section \<open>The macros on well-formed lists\<close>

text \<open>Both touch only the nodes of the list.\<close>

lemma LL_APPEND_frame:
  assumes r: "ul_rep h head xs" and a: "a \<notin> fst ` set xs" "h a = Some n"
  shows "\<exists>h' head'. LL_APPEND (h, head) a = Some (h', head') \<and> ul_rep h' head' (xs @ [(a, nd_data n)]) \<and> same_nodes h h'
    \<and> (\<forall>q. q \<noteq> a \<and> q \<notin> fst ` set xs \<longrightarrow> h' q = h q)"
proof -
  let ?h = "h(a \<mapsto> n\<lparr>nd_next := None\<rparr>)"
  have s: "same_nodes h ?h" using a(2) by (rule same_nodes_upd) simp
  have r1: "ul_rep ?h head xs" by (rule rep_upd_other [OF r a(1)])
  show ?thesis
  proof (cases xs)
    case Nil
    then have "LL_APPEND (h, head) a = Some (?h, Some a)" using r a(2) by (simp add: LL_APPEND_def)
    moreover have "ul_rep ?h (Some a) [(a, nd_data n)]" by (simp add: ul_rep_def)
    moreover have "\<forall>q. q \<noteq> a \<longrightarrow> ?h q = h q" by simp
    ultimately show ?thesis using Nil s by (intro exI [of _ ?h] exI [of _ "Some a"]) simp
  next
    case (Cons x ys)
    let ?l = "last (map fst xs)"
    have head: "head = Some (fst x)" using rep_first [OF r] Cons by simp
    have c: "chain ?h (Some (fst x)) (fst x # map fst ys)" using r1 Cons head by (simp add: ul_rep_def)
    have l: "last_node ?h (fst x) = Some ?l" using last_node_chain [OF c] Cons by simp
    have lin: "?l \<in> set (map fst xs)" using Cons by (intro last_in_set) simp
    then obtain t where t: "?h ?l = Some t" using r1 chain_dom [of ?h head "map fst xs" ?l] by (auto simp: ul_rep_def)
    let ?h' = "?h(?l \<mapsto> t\<lparr>nd_next := Some a\<rparr>)"
    have "LL_APPEND (h, head) a = Some (?h', head)" using a(2) head l t by (simp add: LL_APPEND_def del: fun_upd_apply)
    moreover have s': "same_nodes h ?h'" 
      by (rule same_nodes_trans [OF s]) (rule same_nodes_upd [where n = t]; use t in simp)
    moreover have "chain ?h' head (map fst xs @ [a])"
      by (rule chain_append [where n = t]) (use r1 Cons a t in \<open>auto simp: ul_rep_def\<close>)
    moreover have "\<forall>(p, y) \<in> set (xs @ [(a, nd_data n)]). map_option nd_data (?h' p) = Some y"
      using r a(2) s' by (auto simp: ul_rep_def same_nodes_def simp del: fun_upd_apply)
    moreover have "distinct (map fst xs @ [a])" using r a(1) by (simp add: ul_rep_def)
    moreover have "\<forall>q. q \<noteq> a \<and> q \<notin> fst ` set xs \<longrightarrow> ?h' q = h q" using lin by auto
    ultimately have "ul_rep ?h' head (xs @ [(a, nd_data n)])" by (simp add: ul_rep_def del: fun_upd_apply)
    then show ?thesis using \<open>LL_APPEND (h, head) a = Some (?h', head)\<close> s' \<open>\<forall>q. q \<noteq> a \<and> q \<notin> fst ` set xs \<longrightarrow> ?h' q = h q\<close> by blast
  qed
qed

lemma LL_APPEND_ok:
  assumes "ul_rep h head xs" and "a \<notin> fst ` set xs" "h a = Some n"
  shows "\<exists>h' head'. LL_APPEND (h, head) a = Some (h', head') \<and> ul_rep h' head' (xs @ [(a, nd_data n)]) \<and> same_nodes h h'"
  using LL_APPEND_frame [OF assms] by blast

lemma LL_DELETE_frame:
  assumes r: "ul_rep h head (xs @ (p, x) # ys)"
  shows "\<exists>h' head'. LL_DELETE (h, head) p = Some (h', head') \<and> ul_rep h' head' (xs @ ys) \<and> same_nodes h h'
    \<and> (\<forall>q. q \<notin> fst ` set (xs @ ys) \<longrightarrow> h' q = h q)"
proof -
  obtain n where n: "h p = Some n" "nd_data n = x" "nd_next n = ul_first ys" using rep_node [OF r] .
  have d: "distinct (map fst (xs @ (p, x) # ys))" and c: "chain h head (map fst (xs @ (p, x) # ys))" using r by (simp_all add: ul_rep_def)
  show ?thesis
  proof (cases xs rule: rev_cases)
    case Nil
    then have "head = Some p" using rep_first [OF r] by simp
    then have "LL_DELETE (h, head) p = Some (h, ul_first ys)" using n by (simp add: LL_DELETE_def)
    moreover have "same_nodes h h" by (simp add: same_nodes_def)
    moreover have "ul_rep h (ul_first ys) (xs @ ys)"
      by (rule rep_same_nodes [OF calculation(2) r])
        (use chain_suffix [of h head "[(p, x)]" ys] c d Nil in \<open>auto simp: ul_rep_def\<close>)
    ultimately show ?thesis by blast
  next
    case (snoc zs z)
    obtain f fs where f: "map fst (xs @ (p, x) # ys) = f # fs" "head = Some f" "p \<noteq> f"
      using rep_first [OF r] snoc d by (cases zs) auto
    have e: "f # fs = map fst zs @ fst z # p # map fst ys" using f(1) snoc by simp
    obtain t where t: "find_prev h p f = Some (fst z, t)" "h (fst z) = Some t" "nd_next t = Some p"
      using find_prev_chain(2) [OF c [unfolded f(1,2)] d [unfolded f(1)] f(3) e] by blast
    let ?h = "h(fst z \<mapsto> t\<lparr>nd_next := nd_next n\<rparr>)"
    have "LL_DELETE (h, head) p = Some (?h, head)" using t n f(2,3) by (simp add: LL_DELETE_def)
    moreover have s: "same_nodes h ?h" using t(2) by (rule same_nodes_upd) simp
    moreover have "chain ?h head (map fst (xs @ ys))"
    proof -
      have "chain (?h(p := None)) head (map fst zs @ fst z # map fst ys)"
        by (rule chain_unlink [OF _ _ t(2) n(1)]) (use c d snoc in auto)
      then have "chain (?h(p := None)) head (map fst (xs @ ys))" using snoc by simp
      moreover have "p \<notin> set (map fst (xs @ ys))" using d by auto
      ultimately show ?thesis using chain_cong [of "map fst (xs @ ys)" ?h "?h(p := None)" head] by (metis fun_upd_other)
    qed
    moreover have "distinct (map fst (xs @ ys))" using d by auto
    ultimately have "ul_rep ?h head (xs @ ys)" using rep_same_nodes [OF s r, of head "xs @ ys"] by auto
    moreover have "\<forall>q. q \<notin> fst ` set (xs @ ys) \<longrightarrow> ?h q = h q" using snoc by auto
    ultimately show ?thesis using \<open>LL_DELETE (h, head) p = Some (?h, head)\<close> s by blast
  qed
qed

lemma LL_DELETE_ok:
  assumes "ul_rep h head (xs @ (p, x) # ys)"
  shows "\<exists>h' head'. LL_DELETE (h, head) p = Some (h', head') \<and> ul_rep h' head' (xs @ ys) \<and> same_nodes h h'"
  using LL_DELETE_frame [OF assms] by blast

text \<open>New data in a node.\<close>

lemma chain_same_next:
  "(\<And>q. map_option nd_next (h' q) = map_option nd_next (h q)) \<Longrightarrow> chain h' p ps = chain h p ps"
proof (induction ps arbitrary: p)
  case Nil
  then show ?case by (cases p) simp_all
next
  case (Cons q qs)
  show ?case
  proof (cases "h q")
    case None
    then have "h' q = None" using Cons.prems [of q] by simp
    then show ?thesis using None by (cases p) auto
  next
    case (Some n)
    then obtain n' where "h' q = Some n'" "nd_next n' = nd_next n" using Cons.prems [of q] by auto
    then show ?thesis using Some Cons by (cases p) auto
  qed
qed

lemma rep_update:
  assumes r: "ul_rep h head (xs @ (p, x) # ys)" and n: "h p = Some n"
  shows "ul_rep (h(p \<mapsto> n\<lparr>nd_data := y\<rparr>)) head (xs @ (p, y) # ys)"
proof -
  let ?h = "h(p \<mapsto> n\<lparr>nd_data := y\<rparr>)"
  have "chain ?h head ps = chain h head ps" for ps using n by (intro chain_same_next) auto
  moreover have "map_option nd_data (?h q) = Some z" if "(q, z) \<in> set xs \<union> set ys" for q z
  proof -
    have "q \<in> fst ` (set xs \<union> set ys)" using that by (rule rev_image_eqI) simp
    moreover have "p \<notin> fst ` (set xs \<union> set ys)" using r by (simp add: ul_rep_def image_Un)
    ultimately have "q \<noteq> p" by metis
    moreover have "map_option nd_data (h q) = Some z" by (rule rep_data [OF r]) (use that in auto)
    ultimately show ?thesis by simp
  qed
  then have "\<forall>(q, z) \<in> set (xs @ (p, y) # ys). map_option nd_data (?h q) = Some z" by auto
  ultimately show ?thesis using r by (simp add: ul_rep_def del: fun_upd_apply)
qed

end
