(* ===== verification/UQueue.thy ===== *)
theory UQueue
  imports Utlist CATypes "HOL-Library.Monad_Syntax"
begin

text \<open>
  The queue of messages of \<^verbatim>\<open>resource/csdk/connectivity/common/src/uqueue.c\<close>: its elements are nodes in a
  heap, the messages objects that the queue points to. The interface that a queueing thread needs is
  the locale \<open>fifo\<close>, which the operations of the queue satisfy.
\<close>

section \<open>State\<close>

text \<open>The data of a message is opaque to the queue.\<close>

record u_queue_message_t =
  msg_msg :: nat
  msg_size :: u32

record u_queue_t =
  q_element :: "addr option"
  q_count :: u32

text \<open>An element of the queue is a node whose data is the pointer to the message.\<close>

record qstore =
  qe_heap :: "addr heap"
  qm_heap :: "addr \<Rightarrow> u_queue_message_t option"
  q_fresh :: addr
  q_mem :: mem

definition NO_MESSAGES :: u32 where "NO_MESSAGES = 0"
definition sizeof_u_queue_t :: nat where "sizeof_u_queue_t = 16"
definition sizeof_u_queue_element :: nat where "sizeof_u_queue_element = 16"
definition sizeof_u_queue_message_t :: nat where "sizeof_u_queue_message_t = 16"

section \<open>Operations\<close>

definition u_queue_create :: "qstore \<Rightarrow> u_queue_t option \<times> qstore" where
  "u_queue_create s =
     (case OICMalloc (q_mem s) sizeof_u_queue_t of
        (False, m) \<Rightarrow> (None, s\<lparr>q_mem := m\<rparr>)
      | (True, m) \<Rightarrow> (Some \<lparr>q_element = None, q_count = NO_MESSAGES\<rparr>, s\<lparr>q_mem := m\<rparr>))"

definition u_queue_add_element ::
  "u_queue_t option \<Rightarrow> addr option \<Rightarrow> qstore \<Rightarrow> (CAResult \<times> u_queue_t option \<times> qstore) option" where
  "u_queue_add_element queue message s =
     (case (queue, message) of
        (Some q, Some msg) \<Rightarrow>
          (case OICMalloc (q_mem s) sizeof_u_queue_element of
             (False, m) \<Rightarrow> Some (CA_MEMORY_ALLOC_FAILED, queue, s\<lparr>q_mem := m\<rparr>)
           | (True, m) \<Rightarrow>
               let element = q_fresh s;
                   h = (qe_heap s)(element \<mapsto> \<lparr>nd_data = msg, nd_next = None\<rparr>);
                   s = s\<lparr>qe_heap := h, q_fresh := Suc element, q_mem := m\<rparr> in
               (case q_element q of
                  Some p \<Rightarrow>
                    do {
                      ptr \<leftarrow> last_node h p;
                      n \<leftarrow> h ptr;
                      Some (CA_STATUS_OK, Some (q\<lparr>q_count := q_count q + 1\<rparr>),
                            s\<lparr>qe_heap := h(ptr \<mapsto> n\<lparr>nd_next := Some element\<rparr>)\<rparr>)
                    }
                | None \<Rightarrow>
                    if NO_MESSAGES \<noteq> q_count q
                    then Some (CA_STATUS_FAILED, queue, s\<lparr>qe_heap := h(element := None)\<rparr>)
                    else Some (CA_STATUS_OK, Some \<lparr>q_element = Some element, q_count = q_count q + 1\<rparr>, s)))
      | _ \<Rightarrow> Some (CA_STATUS_FAILED, queue, s))"

definition u_queue_get_element :: "u_queue_t option \<Rightarrow> qstore \<Rightarrow> (addr option \<times> u_queue_t option \<times> qstore) option" where
  "u_queue_get_element queue s =
     (case queue of
        None \<Rightarrow> Some (None, queue, s)
      | Some q \<Rightarrow>
          (case q_element q of
             None \<Rightarrow> Some (None, queue, s)
           | Some element \<Rightarrow>
               do {
                 n \<leftarrow> qe_heap s element;
                 Some (Some (nd_data n), Some \<lparr>q_element = nd_next n, q_count = q_count q - 1\<rparr>,
                       s\<lparr>qe_heap := (qe_heap s)(element := None)\<rparr>)
               }))"

text \<open>Freeing a message that is not allocated is undefined.\<close>

definition free_message :: "addr \<Rightarrow> qstore \<Rightarrow> qstore option" where
  "free_message a s = map_option (\<lambda>_. s\<lparr>qm_heap := (qm_heap s)(a := None)\<rparr>) (qm_heap s a)"

definition u_queue_remove_element :: "u_queue_t option \<Rightarrow> qstore \<Rightarrow> (CAResult \<times> u_queue_t option \<times> qstore) option" where
  "u_queue_remove_element queue s =
     (case queue of
        None \<Rightarrow> Some (CA_STATUS_FAILED, queue, s)
      | Some q \<Rightarrow>
          (case q_element q of
             None \<Rightarrow> Some (CA_STATUS_OK, queue, s)
           | Some remove \<Rightarrow>
               do {
                 n \<leftarrow> qe_heap s remove;
                 s \<leftarrow> free_message (nd_data n) s;
                 Some (CA_STATUS_OK, Some \<lparr>q_element = nd_next n, q_count = q_count q - 1\<rparr>,
                       s\<lparr>qe_heap := (qe_heap s)(remove := None)\<rparr>)
               }))"

definition u_queue_get_size :: "u_queue_t option \<Rightarrow> u32" where
  "u_queue_get_size queue = (case queue of None \<Rightarrow> NO_MESSAGES | Some q \<Rightarrow> q_count q)"

partial_function (option) reset_loop :: "u_queue_t \<Rightarrow> qstore \<Rightarrow> (u_queue_t \<times> qstore) option" where
  "reset_loop q s =
     (if q_element q = None then Some (q, s)
      else
        (case u_queue_remove_element (Some q) s of
           Some (_, Some q', s') \<Rightarrow> reset_loop q' s'
         | _ \<Rightarrow> None))"

definition u_queue_reset :: "u_queue_t option \<Rightarrow> qstore \<Rightarrow> (CAResult \<times> u_queue_t option \<times> qstore) option" where
  "u_queue_reset queue s =
     (case queue of
        None \<Rightarrow> Some (CA_STATUS_FAILED, queue, s)
      | Some q \<Rightarrow>
          if NO_MESSAGES = q_count q then Some (CA_STATUS_OK, queue, s)
          else
            do {
              (q', s') \<leftarrow> reset_loop q s;
              Some (if NO_MESSAGES \<noteq> q_count q' then CA_STATUS_FAILED else CA_STATUS_OK, Some q', s')
            })"

text \<open>The queue is gone, as \<^const>\<open>None\<close>, when it was deleted.\<close>

definition u_queue_delete :: "u_queue_t option \<Rightarrow> qstore \<Rightarrow> (CAResult \<times> u_queue_t option \<times> qstore) option" where
  "u_queue_delete queue s =
     (if queue = None then Some (CA_STATUS_FAILED, queue, s)
      else
        do {
          (error, queue, s) \<leftarrow> u_queue_reset queue s;
          if error \<noteq> CA_STATUS_OK then Some (error, queue, s) else Some (CA_STATUS_OK, None, s)
        })"

definition u_queue_get_head :: "u_queue_t option \<Rightarrow> qstore \<Rightarrow> addr option option" where
  "u_queue_get_head queue s =
     (case queue of
        None \<Rightarrow> Some None
      | Some q \<Rightarrow> (case q_element q of None \<Rightarrow> Some None | Some p \<Rightarrow> map_option (\<lambda>n. Some (nd_data n)) (qe_heap s p)))"

section \<open>First in, first out\<close>

text \<open>
  What a client relies on: elements come out in the order in which they were put in. Putting in may
  be refused; then the queue is as before.
\<close>

locale fifo =
  fixes rep :: "'s \<Rightarrow> 'm list \<Rightarrow> bool"
    and enq :: "'m \<Rightarrow> 's \<Rightarrow> (bool \<times> 's) option"
    and deq :: "'s \<Rightarrow> ('m option \<times> 's) option"
    and cap :: nat
  assumes enq_law: "rep s xs \<Longrightarrow> Suc (length xs) < cap \<Longrightarrow> \<exists>b s'. enq m s = Some (b, s') \<and> rep s' (if b then xs @ [m] else xs)"
    and deq_empty: "rep s [] \<Longrightarrow> deq s = Some (None, s)"
    and deq_first: "rep s (x # xs) \<Longrightarrow> \<exists>s'. deq s = Some (Some x, s') \<and> rep s' xs"
begin

text \<open>Putting in a list, and taking out until nothing is left.\<close>

fun put_all :: "'m list \<Rightarrow> 's \<Rightarrow> (bool list \<times> 's) option" where
  "put_all [] s = Some ([], s)"
| "put_all (m # ms) s =
     (case enq m s of
        None \<Rightarrow> None
      | Some (b, s') \<Rightarrow> map_option (\<lambda>(bs, t). (b # bs, t)) (put_all ms s'))"

fun take_all :: "nat \<Rightarrow> 's \<Rightarrow> ('m list \<times> 's) option" where
  "take_all 0 s = Some ([], s)"
| "take_all (Suc k) s =
     (case deq s of
        None \<Rightarrow> None
      | Some (None, s') \<Rightarrow> Some ([], s')
      | Some (Some x, s') \<Rightarrow> map_option (\<lambda>(xs, t). (x # xs, t)) (take_all k s'))"

lemma put_all_ok:
  "rep s xs \<Longrightarrow> length xs + length ms < cap
     \<Longrightarrow> \<exists>bs s'. put_all ms s = Some (bs, s') \<and> length bs = length ms \<and> rep s' (xs @ map fst (filter snd (zip ms bs)))"
proof (induction ms arbitrary: s xs)
  case (Cons m ms)
  obtain b s1 where e: "enq m s = Some (b, s1)" "rep s1 (if b then xs @ [m] else xs)" using enq_law [OF Cons.prems(1)] Cons.prems(2) by fastforce
  obtain bs s' where "put_all ms s1 = Some (bs, s')" "length bs = length ms"
    "rep s' ((if b then xs @ [m] else xs) @ map fst (filter snd (zip ms bs)))"
    using Cons.IH [OF e(2)] Cons.prems(2) by (cases b) auto
  then show ?case using e(1) by (intro exI [of _ "b # bs"] exI [of _ s']) (simp split: if_splits)
qed simp

lemma take_all_ok: "rep s xs \<Longrightarrow> length xs \<le> k \<Longrightarrow> \<exists>s'. take_all k s = Some (xs, s') \<and> rep s' []"
proof (induction xs arbitrary: s k)
  case Nil
  then show ?case using deq_empty by (cases k) auto
next
  case (Cons x xs)
  obtain s1 where d: "deq s = Some (Some x, s1)" "rep s1 xs" using deq_first [OF Cons.prems(1)] by blast
  obtain j where "k = Suc j" "length xs \<le> j" using Cons.prems(2) by (cases k) auto
  then show ?case using Cons.IH [OF d(2), of j] d(1) by auto
qed

text \<open>What was accepted comes out, in order.\<close>

lemma through:
  assumes "rep s []" and "length ms < cap"
  shows "\<exists>bs s' s''. put_all ms s = Some (bs, s') \<and> take_all (length ms) s' = Some (map fst (filter snd (zip ms bs)), s'') \<and> rep s'' []"
proof -
  obtain bs s' where p: "put_all ms s = Some (bs, s')" "length bs = length ms" "rep s' (map fst (filter snd (zip ms bs)))"
    using put_all_ok [OF assms(1), of ms] assms(2) by auto
  have "length (map fst (filter snd (zip ms bs))) \<le> length ms"
    using length_filter_le [of snd "zip ms bs"] by simp
  then show ?thesis using take_all_ok [OF p(3)] p(1) by blast
qed

end

section \<open>The queue as a sequence of messages\<close>

text \<open>Every element in the heap belongs to the queue, so none is lost.\<close>

definition uq_rep :: "u_queue_t \<times> qstore \<Rightarrow> addr list \<Rightarrow> bool" where
  "uq_rep c ms \<longleftrightarrow> (\<exists>xs. map snd xs = ms \<and> ul_rep (qe_heap (snd c)) (q_element (fst c)) xs \<and> dom (qe_heap (snd c)) = fst ` set xs)
     \<and> q_count (fst c) = of_nat (length ms) \<and> length ms < 2 ^ 32 \<and> (\<forall>a. q_fresh (snd c) \<le> a \<longrightarrow> qe_heap (snd c) a = None)"

definition uq_enq :: "addr \<Rightarrow> u_queue_t \<times> qstore \<Rightarrow> (bool \<times> u_queue_t \<times> qstore) option" where
  "uq_enq m c = do {
     (r, queue, s) \<leftarrow> u_queue_add_element (Some (fst c)) (Some m) (snd c);
     q \<leftarrow> queue;
     Some (r = CA_STATUS_OK, q, s)
   }"

definition uq_deq :: "u_queue_t \<times> qstore \<Rightarrow> (addr option \<times> u_queue_t \<times> qstore) option" where
  "uq_deq c = do {
     (m, queue, s) \<leftarrow> u_queue_get_element (Some (fst c)) (snd c);
     q \<leftarrow> queue;
     Some (m, q, s)
   }"

lemma uq_repE:
  assumes "uq_rep (q, s) ms"
  obtains xs where "map snd xs = ms" "ul_rep (qe_heap s) (q_element q) xs" "dom (qe_heap s) = fst ` set xs"
    "q_count q = of_nat (length ms)" "length ms < 2 ^ 32" "\<forall>a. q_fresh s \<le> a \<longrightarrow> qe_heap s a = None"
  using assms unfolding uq_rep_def by auto

lemma uq_repI:
  assumes "map snd xs = ms" and "ul_rep (qe_heap s) (q_element q) xs" and "dom (qe_heap s) = fst ` set xs"
    and "q_count q = of_nat (length ms)" and "length ms < 2 ^ 32" and "\<And>a. q_fresh s \<le> a \<Longrightarrow> qe_heap s a = None"
  shows "uq_rep (q, s) ms"
  using assms unfolding uq_rep_def by auto

lemma rep_empty:
  assumes "uq_rep (q, s) ms"
  shows "q_element q = None \<longleftrightarrow> ms = []"
proof -
  obtain xs where "map snd xs = ms" "ul_rep (qe_heap s) (q_element q) xs" by (rule uq_repE [OF assms])
  then show ?thesis using rep_first [of "qe_heap s" "q_element q" xs] by (cases xs) auto
qed

lemma count_zero: "uq_rep (q, s) ms \<Longrightarrow> q_count q = 0 \<longleftrightarrow> ms = []"
proof -
  assume r: "uq_rep (q, s) ms"
  have "q_count q = of_nat (length ms)" "length ms < 2 ^ 32" using r unfolding uq_rep_def by simp_all
  then have "unat (q_count q) = length ms" by (simp add: unat_of_nat)
  then have "q_count q = 0 \<longleftrightarrow> length ms = 0" by (simp add: word_unat_eq_iff)
  then show ?thesis by simp
qed

lemma uq_rep_mem: "uq_rep (q, s) ms \<Longrightarrow> uq_rep (q, s\<lparr>q_mem := m, qm_heap := h\<rparr>) ms"
  by (simp add: uq_rep_def)


lemma add_element_ok:
  assumes r: "uq_rep (q, s) ms" and c: "Suc (length ms) < 2 ^ 32"
  shows "\<exists>b q' s'. u_queue_add_element (Some q) (Some m) s = Some (if b then CA_STATUS_OK else CA_MEMORY_ALLOC_FAILED, Some q', s')
    \<and> uq_rep (q', s') (if b then ms @ [m] else ms) \<and> qm_heap s' = qm_heap s \<and> q_fresh s \<le> q_fresh s' \<and> (q_mem s = [] \<longrightarrow> b \<and> q_mem s' = [])"
proof -
  obtain xs where x: "map snd xs = ms" "ul_rep (qe_heap s) (q_element q) xs" "dom (qe_heap s) = fst ` set xs"
    "q_count q = of_nat (length ms)" "length ms < 2 ^ 32" "\<forall>a. q_fresh s \<le> a \<longrightarrow> qe_heap s a = None" by (rule uq_repE [OF r])
  obtain b mm where a: "OICMalloc (q_mem s) sizeof_u_queue_element = (b, mm)" by fastforce
  have mem: "q_mem s = [] \<Longrightarrow> b \<and> mm = []" using a by (auto simp: OICMalloc_def sizeof_u_queue_element_def max_object_def)
  show ?thesis
  proof (cases b)
    case False
    have "uq_rep (q, s\<lparr>q_mem := mm\<rparr>) ms" using r by (simp add: uq_rep_def)
    then show ?thesis using False a mem by (intro exI [of _ False] exI [of _ q] exI [of _ "s\<lparr>q_mem := mm\<rparr>"]) (auto simp: u_queue_add_element_def)
  next
    case True
    let ?e = "q_fresh s" and ?n = "\<lparr>nd_data = m, nd_next = None\<rparr>"
    let ?h = "(qe_heap s)(?e \<mapsto> ?n)"
    let ?s = "s\<lparr>qe_heap := ?h, q_fresh := Suc ?e, q_mem := mm\<rparr>"
    have e: "?e \<notin> fst ` set xs" using x(3,6) by (metis domIff order_refl)
    have rh: "ul_rep ?h (q_element q) xs" by (rule rep_upd_other [OF x(2) e])
    obtain h' head' where l: "LL_APPEND (?h, q_element q) ?e = Some (h', head')" "ul_rep h' head' (xs @ [(?e, m)])" "same_nodes ?h h'"
      using LL_APPEND_ok [OF rh e, of ?n] by auto
    have n0: "?h ?e = Some ?n" "?n\<lparr>nd_next := None\<rparr> = ?n" by simp_all
    have hh: "?h(?e \<mapsto> ?n) = ?h" by simp
    have d: "q_element q = None \<longleftrightarrow> NO_MESSAGES = q_count q"
      using rep_empty [OF r] count_zero [OF r] by (auto simp: NO_MESSAGES_def)
    let ?q = "\<lparr>q_element = head', q_count = q_count q + 1\<rparr>"
    have "u_queue_add_element (Some q) (Some m) s = Some (CA_STATUS_OK, Some ?q, ?s\<lparr>qe_heap := h'\<rparr>)"
    proof (cases "q_element q")
      case None
      then have "h' = ?h" "head' = Some ?e" using l(1) unfolding LL_APPEND_def by (simp_all add: Let_def)
      then show ?thesis using None d a True by (simp add: u_queue_add_element_def Let_def)
    next
      case (Some p)
      then obtain t n where t: "last_node ?h p = Some t" "?h t = Some n" "h' = ?h(t \<mapsto> n\<lparr>nd_next := Some ?e\<rparr>)" "head' = q_element q"
        using l(1) unfolding LL_APPEND_def prod.case n0(1) option.case n0(2) hh Let_def by (auto split: option.splits simp del: fun_upd_apply)
      have "?q = q\<lparr>q_count := q_count q + 1\<rparr>" using t(4) by simp
      then show ?thesis using Some a True t(1-3) unfolding u_queue_add_element_def prod.case option.case Let_def a
        by (simp del: fun_upd_apply)
    qed
    moreover have "uq_rep (?q, ?s\<lparr>qe_heap := h'\<rparr>) (ms @ [m])"
    proof (rule uq_repI)
      show "map snd (xs @ [(?e, m)]) = ms @ [m]" using x(1) by simp
      show "ul_rep (qe_heap (?s\<lparr>qe_heap := h'\<rparr>)) (q_element ?q) (xs @ [(?e, m)])" using l(2) by simp
      have "dom h' = dom ?h" using l(3) unfolding same_nodes_def dom_def by (metis map_option_is_None)
      then show "dom (qe_heap (?s\<lparr>qe_heap := h'\<rparr>)) = fst ` set (xs @ [(?e, m)])" using x(3) by simp
      show "q_count ?q = of_nat (length (ms @ [m]))" using x(4) by simp
      show "length (ms @ [m]) < 2 ^ 32" using c by simp
      show "qe_heap (?s\<lparr>qe_heap := h'\<rparr>) a = None" if "q_fresh (?s\<lparr>qe_heap := h'\<rparr>) \<le> a" for a
        using that same_nodesD(2) [OF l(3), of a] spec [OF x(6), of a] by simp
    qed
    ultimately show ?thesis using True mem by (intro exI [of _ True] exI [of _ ?q] exI [of _ "?s\<lparr>qe_heap := h'\<rparr>"]) simp
  qed
qed

lemma get_element_ok:
  assumes r: "uq_rep (q, s) (m # ms)"
  shows "\<exists>e n. q_element q = Some e \<and> qe_heap s e = Some n \<and> nd_data n = m
    \<and> uq_rep (\<lparr>q_element = nd_next n, q_count = q_count q - 1\<rparr>, s\<lparr>qe_heap := (qe_heap s)(e := None)\<rparr>) ms"
proof -
  obtain xs where x: "map snd xs = m # ms" "ul_rep (qe_heap s) (q_element q) xs" "dom (qe_heap s) = fst ` set xs"
    "q_count q = of_nat (length (m # ms))" "length (m # ms) < 2 ^ 32" "\<forall>a. q_fresh s \<le> a \<longrightarrow> qe_heap s a = None"
    by (rule uq_repE [OF r])
  obtain e ys where xs: "xs = (e, m) # ys" "map snd ys = ms" using x(1) by (cases xs) auto
  obtain n where n: "qe_heap s e = Some n" "nd_data n = m" "nd_next n = ul_first ys"
    using rep_node [of "qe_heap s" "q_element q" "[]" e m ys] x(2) xs(1) by auto
  have e: "q_element q = Some e" using rep_first [OF x(2)] xs(1) by simp
  have ne: "e \<notin> fst ` set ys" using x(2) xs(1) by (auto simp: ul_rep_def)
  have "ul_rep (qe_heap s) (nd_next n) ys"
    using x(2) chain_suffix [of "qe_heap s" "q_element q" "[(e, m)]" ys] xs(1) n(3) by (auto simp: ul_rep_def)
  then have u: "ul_rep ((qe_heap s)(e := None)) (nd_next n) ys" by (rule rep_upd_other [OF _ ne])
  have "uq_rep (\<lparr>q_element = nd_next n, q_count = q_count q - 1\<rparr>, s\<lparr>qe_heap := (qe_heap s)(e := None)\<rparr>) ms"
  proof (rule uq_repI [OF xs(2)])
    show "dom (qe_heap (s\<lparr>qe_heap := (qe_heap s)(e := None)\<rparr>)) = fst ` set ys" using x(3) xs(1) ne by auto
    show "qe_heap (s\<lparr>qe_heap := (qe_heap s)(e := None)\<rparr>) a = None" if "q_fresh (s\<lparr>qe_heap := (qe_heap s)(e := None)\<rparr>) \<le> a" for a
      using that spec [OF x(6), of a] by simp
  qed (use u x(4,5) in \<open>simp_all del: fun_upd_apply\<close>)
  then show ?thesis using e n(1,2) by blast
qed

interpretation uq: fifo uq_rep uq_enq uq_deq "2 ^ 32"
proof (unfold_locales)
  show "\<exists>b c'. uq_enq m c = Some (b, c') \<and> uq_rep c' (if b then xs @ [m] else xs)"
    if r: "uq_rep c xs" and l: "Suc (length xs) < 2 ^ 32" for c xs m
  proof -
    obtain q s where c: "c = (q, s)" by fastforce
    then obtain b q' s' where "u_queue_add_element (Some q) (Some m) s = Some (if b then CA_STATUS_OK else CA_MEMORY_ALLOC_FAILED, Some q', s')"
      "uq_rep (q', s') (if b then xs @ [m] else xs)" using add_element_ok [OF r [unfolded c] l, of m] by blast
    then show ?thesis using c by (intro exI [of _ b] exI [of _ "(q', s')"]) (simp add: uq_enq_def)
  qed
  show "uq_deq c = Some (None, c)" if "uq_rep c []" for c
    using that rep_empty [of "fst c" "snd c" "[]"] by (simp add: uq_deq_def u_queue_get_element_def)
  show "\<exists>c'. uq_deq c = Some (Some x, c') \<and> uq_rep c' xs" if "uq_rep c (x # xs)" for c x xs
    using get_element_ok [of "fst c" "snd c" x xs] that by (auto simp: uq_deq_def u_queue_get_element_def)
qed


section \<open>Emptying the queue\<close>

text \<open>The queue owns its messages when they are allocated and in it once.\<close>

definition owns_messages :: "qstore \<Rightarrow> addr list \<Rightarrow> bool" where
  "owns_messages s ms \<longleftrightarrow> distinct ms \<and> (\<forall>m\<in>set ms. qm_heap s m \<noteq> None)"

lemma remove_element_ok:
  assumes r: "uq_rep (q, s) (m # ms)" and o: "owns_messages s (m # ms)"
  shows "\<exists>q' s'. u_queue_remove_element (Some q) s = Some (CA_STATUS_OK, Some q', s') \<and> uq_rep (q', s') ms \<and> owns_messages s' ms
    \<and> qm_heap s' = (qm_heap s)(m := None) \<and> q_mem s' = q_mem s \<and> q_fresh s' = q_fresh s"
proof -
  obtain e n where e: "q_element q = Some e" "qe_heap s e = Some n" "nd_data n = m"
    "uq_rep (\<lparr>q_element = nd_next n, q_count = q_count q - 1\<rparr>, s\<lparr>qe_heap := (qe_heap s)(e := None)\<rparr>) ms"
    using get_element_ok [OF r] by blast
  let ?s = "s\<lparr>qm_heap := (qm_heap s)(m := None), qe_heap := (qe_heap s)(e := None)\<rparr>"
  have "u_queue_remove_element (Some q) s = Some (CA_STATUS_OK, Some \<lparr>q_element = nd_next n, q_count = q_count q - 1\<rparr>, ?s)"
    using e(1-3) o by (auto simp: u_queue_remove_element_def free_message_def owns_messages_def)
  moreover have "uq_rep (\<lparr>q_element = nd_next n, q_count = q_count q - 1\<rparr>, ?s) ms" using e(4) by (simp add: uq_rep_def)
  moreover have "owns_messages ?s ms" using o by (auto simp: owns_messages_def)
  ultimately show ?thesis by (intro exI [of _ "\<lparr>q_element = nd_next n, q_count = q_count q - 1\<rparr>"] exI [of _ ?s]) simp
qed

lemma reset_loop_ok:
  "uq_rep (q, s) ms \<Longrightarrow> owns_messages s ms
     \<Longrightarrow> \<exists>q' s'. reset_loop q s = Some (q', s') \<and> uq_rep (q', s') [] \<and> qm_heap s' = (\<lambda>a. if a \<in> set ms then None else qm_heap s a)"
proof (induction ms arbitrary: q s)
  case Nil
  then show ?case using rep_empty [OF Nil(1)] by (subst reset_loop.simps) simp
next
  case (Cons m ms)
  obtain q1 s1 where d: "u_queue_remove_element (Some q) s = Some (CA_STATUS_OK, Some q1, s1)" "uq_rep (q1, s1) ms" "owns_messages s1 ms"
    "qm_heap s1 = (qm_heap s)(m := None)" using remove_element_ok [OF Cons.prems] by blast
  obtain q' s' where l: "reset_loop q1 s1 = Some (q', s')" "uq_rep (q', s') []" "qm_heap s' = (\<lambda>a. if a \<in> set ms then None else qm_heap s1 a)"
    using Cons.IH [OF d(2,3)] by blast
  obtain y where "q_element q = Some y" using rep_empty [OF Cons.prems(1)] by auto
  then have "reset_loop q s = Some (q', s')" using d(1) l(1) by (subst reset_loop.simps) simp
  moreover have "qm_heap s' = (\<lambda>a. if a \<in> set (m # ms) then None else qm_heap s a)" using l(3) d(4) by auto
  ultimately show ?case using l(2) by blast
qed

lemma reset_ok:
  assumes r: "uq_rep (q, s) ms" and o: "owns_messages s ms"
  shows "\<exists>q' s'. u_queue_reset (Some q) s = Some (CA_STATUS_OK, Some q', s') \<and> uq_rep (q', s') []
    \<and> qm_heap s' = (\<lambda>a. if a \<in> set ms then None else qm_heap s a)"
proof (cases "ms = []")
  case True
  then show ?thesis using r count_zero [OF r] by (auto simp: u_queue_reset_def NO_MESSAGES_def)
next
  case False
  obtain q' s' where l: "reset_loop q s = Some (q', s')" "uq_rep (q', s') []" "qm_heap s' = (\<lambda>a. if a \<in> set ms then None else qm_heap s a)"
    using reset_loop_ok [OF assms] by blast
  then show ?thesis using False count_zero [OF r] count_zero [OF l(2)] by (auto simp: u_queue_reset_def NO_MESSAGES_def)
qed

lemma delete_queue_ok:
  assumes "uq_rep (q, s) ms" and "owns_messages s ms"
  shows "\<exists>s'. u_queue_delete (Some q) s = Some (CA_STATUS_OK, None, s') \<and> qe_heap s' = Map.empty
    \<and> qm_heap s' = (\<lambda>a. if a \<in> set ms then None else qm_heap s a)"
proof -
  obtain q' s' where "u_queue_reset (Some q) s = Some (CA_STATUS_OK, Some q', s')" "uq_rep (q', s') []"
    "qm_heap s' = (\<lambda>a. if a \<in> set ms then None else qm_heap s a)" using reset_ok [OF assms] by blast
  then show ?thesis by (auto simp: u_queue_delete_def uq_rep_def)
qed

text \<open>
  The queue is a sequence of messages, first in, first out. On a queue of fewer than \<open>2^32\<close> messages every
  operation returns: adding appends or, when memory runs out, changes nothing; the size is the
  length; the head is the first message, and getting it removes it and nothing else. Deleting the
  queue frees each of its messages once, and no element is left.
\<close>

lemma u_queue_refines:
  assumes r: "uq_rep (q, s) ms" and o: "owns_messages s ms" and c: "Suc (length ms) < 2 ^ 32"
  shows "(\<exists>b q' s'. u_queue_add_element (Some q) (Some m) s = Some (if b then CA_STATUS_OK else CA_MEMORY_ALLOC_FAILED, Some q', s')
      \<and> uq_rep (q', s') (if b then ms @ [m] else ms) \<and> (q_mem s = [] \<longrightarrow> b))
    \<and> unat (u_queue_get_size (Some q)) = length ms
    \<and> u_queue_get_head (Some q) s = Some (case ms of [] \<Rightarrow> None | m # _ \<Rightarrow> Some m)
    \<and> (\<exists>q' s'. u_queue_get_element (Some q) s = Some (case ms of [] \<Rightarrow> None | m # _ \<Rightarrow> Some m, Some q', s') \<and> uq_rep (q', s') (tl ms)
        \<and> qm_heap s' = qm_heap s)
    \<and> (\<exists>s'. u_queue_delete (Some q) s = Some (CA_STATUS_OK, None, s') \<and> qe_heap s' = Map.empty
        \<and> qm_heap s' = (\<lambda>a. if a \<in> set ms then None else qm_heap s a))"
proof -
  have "q_count q = of_nat (length ms)" "length ms < 2 ^ 32" using r unfolding uq_rep_def by simp_all
  then have a: "unat (u_queue_get_size (Some q)) = length ms" by (simp add: u_queue_get_size_def unat_of_nat)
  have b: "u_queue_get_head (Some q) s = Some (case ms of [] \<Rightarrow> None | m # _ \<Rightarrow> Some m)
    \<and> (\<exists>q' s'. u_queue_get_element (Some q) s = Some (case ms of [] \<Rightarrow> None | m # _ \<Rightarrow> Some m, Some q', s') \<and> uq_rep (q', s') (tl ms)
        \<and> qm_heap s' = qm_heap s)"
  proof (cases ms)
    case Nil
    then show ?thesis using rep_empty [OF r] r by (simp add: u_queue_get_head_def u_queue_get_element_def)
  next
    case (Cons x xs)
    then obtain e n where "q_element q = Some e" "qe_heap s e = Some n" "nd_data n = x"
      "uq_rep (\<lparr>q_element = nd_next n, q_count = q_count q - 1\<rparr>, s\<lparr>qe_heap := (qe_heap s)(e := None)\<rparr>) xs"
      using get_element_ok [of q s x xs] r by blast
    then show ?thesis using Cons by (simp add: u_queue_get_head_def u_queue_get_element_def)
  qed
  show ?thesis using add_element_ok [OF r c, of m] a b delete_queue_ok [OF r o] by blast
qed

lemma u_queue_refines_example:
  "\<exists>q' s'. u_queue_add_element (Some \<lparr>q_element = Some 0, q_count = 1\<rparr>) (Some 6)
       \<lparr>qe_heap = [0 \<mapsto> \<lparr>nd_data = 5, nd_next = None\<rparr>], qm_heap = [5 \<mapsto> \<lparr>msg_msg = 8, msg_size = 2\<rparr>], q_fresh = 1, q_mem = []\<rparr>
     = Some (CA_STATUS_OK, Some q', s') \<and> uq_rep (q', s') [5, 6]"
proof -
  let ?q = "\<lparr>q_element = Some 0, q_count = 1\<rparr>"
  let ?s = "\<lparr>qe_heap = [0 \<mapsto> \<lparr>nd_data = 5, nd_next = None\<rparr>], qm_heap = [5 \<mapsto> \<lparr>msg_msg = 8, msg_size = 2\<rparr>], q_fresh = 1, q_mem = []\<rparr>"
  have r: "uq_rep (?q, ?s) [5]" by (rule uq_repI [where xs = "[(0, 5)]"]) (simp_all add: ul_rep_def)
  have o: "owns_messages ?s [5]" by (simp add: owns_messages_def)
  show ?thesis using u_queue_refines [OF r o, of 6] by auto
qed

end
