(* ===== verification/QueueingThread.thy ===== *)
theory QueueingThread
  imports UQueue
begin

text \<open>
  The queueing thread of the connectivity layer, \<^verbatim>\<open>resource/csdk/connectivity/src/caqueueingthread.c\<close>: a
  worker takes messages from a queue and hands them to a task, other threads add messages, and one
  thread stops and destroys it. What happens between a lock and the unlock is one step; a read of
  \<open>isStop\<close> without the lock is a step of its own. The scheduler chooses which thread runs and, when
  two threads wait for the condition, which of them a signal wakes.

  The theory shows that every message is worked on once and in order, that the worker never sleeps
  while there is work, and that the worker has ended when a stop returns, unless messages are added
  during the stop, where the code fails.
\<close>

section \<open>State\<close>

text \<open>A mutex or condition that was never made, is usable, or was freed.\<close>

datatype handle = Null | Live | Freed

record CAQueueingThread_t =
  qt_threadPool :: bool
  qt_threadMutex :: handle
  qt_threadCond :: handle
  qt_destroy :: bool
  qt_isStop :: bool
  qt_dataQueue :: "u_queue_t option"

text \<open>
  Where the worker is in \<open>CAQueueingThreadBaseRoutine\<close>: before the test of \<open>isStop\<close> in the loop, before
  the lock, in the wait, woken and before the test after it, outside the lock with a message, after
  the loop.
\<close>

datatype worker = NotStarted | AtLoop | AtLock | Waiting | Woken | Working addr | Exiting | Ended

text \<open>Where the thread that stops is in \<open>CAQueueingThreadStop\<close>.\<close>

datatype stopper = Idle | AtStop | StopWaiting | StopWoken | Stopped

text \<open>How the data of a message is released: through the function of the client, or with \<open>OICFree\<close>.\<close>

datatype freed_data = Destroyed nat u32 | OICFreed nat

record qsystem =
  qs_thread :: CAQueueingThread_t
  qs_store :: qstore
  qs_worker :: worker
  qs_stopper :: stopper
  qs_tasks :: "nat list"
  qs_released :: "freed_data list"

definition isStop :: "qsystem \<Rightarrow> bool" where
  "isStop s = qt_isStop (qs_thread s)"

definition set_queue :: "u_queue_t option \<Rightarrow> qstore \<Rightarrow> qsystem \<Rightarrow> qsystem" where
  "set_queue q store s = s\<lparr>qs_thread := (qs_thread s)\<lparr>qt_dataQueue := q\<rparr>, qs_store := store\<rparr>"

definition set_stop :: "bool \<Rightarrow> qsystem \<Rightarrow> qsystem" where
  "set_stop b s = s\<lparr>qs_thread := (qs_thread s)\<lparr>qt_isStop := b\<rparr>\<rparr>"

text \<open>
  \<open>oc_cond_signal\<close> wakes one waiting thread, the worker when \<open>c\<close> or when it is the only one. On NULL it
  does nothing; on a freed condition it is undefined.
\<close>

definition oc_cond_signal :: "bool \<Rightarrow> qsystem \<Rightarrow> qsystem option" where
  "oc_cond_signal c s =
     (case qt_threadCond (qs_thread s) of
        Freed \<Rightarrow> None
      | Null \<Rightarrow> Some s
      | Live \<Rightarrow>
          Some (if qs_worker s = Waiting \<and> (c \<or> qs_stopper s \<noteq> StopWaiting) then s\<lparr>qs_worker := Woken\<rparr>
                else if qs_stopper s = StopWaiting then s\<lparr>qs_stopper := StopWoken\<rparr>
                else s))"

section \<open>The worker\<close>

definition worker_loop :: "qsystem \<Rightarrow> qsystem" where
  "worker_loop s = s\<lparr>qs_worker := (if isStop s then Exiting else AtLock)\<rparr>"

definition worker_take :: "qsystem \<Rightarrow> qsystem option" where
  "worker_take s =
     (if isStop s then Some (s\<lparr>qs_worker := AtLoop\<rparr>)
      else
        do {
          (message, queue, store) \<leftarrow> u_queue_get_element (qt_dataQueue (qs_thread s)) (qs_store s);
          Some ((set_queue queue store s)\<lparr>qs_worker := (case message of None \<Rightarrow> AtLoop | Some m \<Rightarrow> Working m)\<rparr>)
        })"

text \<open>A wait with a mutex that is NULL returns at once.\<close>

definition worker_enter :: "qsystem \<Rightarrow> qsystem option" where
  "worker_enter s =
     (if \<not> isStop s \<and> u_queue_get_size (qt_dataQueue (qs_thread s)) = 0 \<and> qt_threadMutex (qs_thread s) = Live
      then Some (s\<lparr>qs_worker := Waiting\<rparr>)
      else worker_take s)"

definition release :: "addr \<Rightarrow> qsystem \<Rightarrow> qsystem option" where
  "release m s =
     do {
       message \<leftarrow> qm_heap (qs_store s) m;
       store \<leftarrow> free_message m (qs_store s);
       Some (s\<lparr>qs_store := store,
               qs_released := qs_released s @ [if qt_destroy (qs_thread s) then Destroyed (msg_msg message) (msg_size message)
                                               else OICFreed (msg_msg message)]\<rparr>)
     }"

definition worker_process :: "addr \<Rightarrow> qsystem \<Rightarrow> qsystem option" where
  "worker_process m s =
     do {
       message \<leftarrow> qm_heap (qs_store s) m;
       s \<leftarrow> release m (s\<lparr>qs_tasks := qs_tasks s @ [msg_msg message]\<rparr>);
       Some (s\<lparr>qs_worker := AtLoop\<rparr>)
     }"

definition worker_exit :: "bool \<Rightarrow> qsystem \<Rightarrow> qsystem option" where
  "worker_exit c s = map_option (qs_worker_update (\<lambda>_. Ended)) (oc_cond_signal c s)"

definition CAQueueingThreadBaseRoutine :: "bool \<Rightarrow> qsystem \<Rightarrow> qsystem option" where
  "CAQueueingThreadBaseRoutine c s =
     (case qs_worker s of
        AtLoop \<Rightarrow> Some (worker_loop s)
      | AtLock \<Rightarrow> worker_enter s
      | Woken \<Rightarrow> worker_take s
      | Working m \<Rightarrow> worker_process m s
      | Exiting \<Rightarrow> worker_exit c s
      | _ \<Rightarrow> Some s)"

section \<open>The functions of the client\<close>

text \<open>
  A NULL pointer to the thread is \<^const>\<open>None\<close>. \<open>mutex\<close> and \<open>cond\<close> say whether the mutex and the condition
  could be made, \<open>handle\<close> whether the pool is not NULL.
\<close>

definition CAQueueingThreadInitialize ::
  "bool \<Rightarrow> bool \<Rightarrow> bool \<Rightarrow> bool \<Rightarrow> qsystem option \<Rightarrow> (CAResult \<times> qsystem option) option" where
  "CAQueueingThreadInitialize handle destroy mutex cond thread =
     (case thread of
        None \<Rightarrow> Some (CA_STATUS_INVALID_PARAM, None)
      | Some s \<Rightarrow>
          if \<not> handle then Some (CA_STATUS_INVALID_PARAM, Some s)
          else
            (case u_queue_create (qs_store s) of
               (queue, store) \<Rightarrow>
                 let t = \<lparr>qt_threadPool = True, qt_threadMutex = (if mutex then Live else Null),
                          qt_threadCond = (if cond then Live else Null), qt_destroy = destroy, qt_isStop = True, qt_dataQueue = queue\<rparr> in
                 if queue = None \<or> \<not> mutex \<or> \<not> cond then
                   do {
                     store \<leftarrow> (if queue = None then Some store else map_option (snd \<circ> snd) (u_queue_delete queue store));
                     Some (CA_MEMORY_ALLOC_FAILED,
                           Some (s\<lparr>qs_thread := t\<lparr>qt_dataQueue := None, qt_threadMutex := Null, qt_threadCond := Null\<rparr>, qs_store := store\<rparr>))
                   }
                 else Some (CA_STATUS_OK, Some (s\<lparr>qs_thread := t, qs_store := store\<rparr>))))"

text \<open>\<open>res\<close> is the answer of the thread pool; when it is OK, the worker is about to run.\<close>

definition CAQueueingThreadStart :: "CAResult \<Rightarrow> qsystem option \<Rightarrow> CAResult \<times> qsystem option" where
  "CAQueueingThreadStart res thread =
     (case thread of
        None \<Rightarrow> (CA_STATUS_INVALID_PARAM, None)
      | Some s \<Rightarrow>
          if \<not> qt_threadPool (qs_thread s) then (CA_STATUS_INVALID_PARAM, Some s)
          else if \<not> isStop s then (CA_STATUS_OK, Some s)
          else if res \<noteq> CA_STATUS_OK then (res, Some (set_stop True (set_stop False s)))
          else (res, Some ((set_stop False s)\<lparr>qs_worker := AtLoop\<rparr>)))"

definition CAQueueingThreadAddData :: "nat option \<Rightarrow> u32 \<Rightarrow> bool \<Rightarrow> qsystem option \<Rightarrow> (CAResult \<times> qsystem option) option" where
  "CAQueueingThreadAddData data sz c thread =
     (case thread of
        None \<Rightarrow> Some (CA_STATUS_INVALID_PARAM, None)
      | Some s \<Rightarrow>
          (case data of
             None \<Rightarrow> Some (CA_STATUS_INVALID_PARAM, Some s)
           | Some d \<Rightarrow>
               if sz = 0 then Some (CA_STATUS_INVALID_PARAM, Some s)
               else
                 (case OICMalloc (q_mem (qs_store s)) sizeof_u_queue_message_t of
                    (False, m) \<Rightarrow> Some (CA_MEMORY_ALLOC_FAILED, Some (s\<lparr>qs_store := (qs_store s)\<lparr>q_mem := m\<rparr>\<rparr>))
                  | (True, m) \<Rightarrow>
                      let message = q_fresh (qs_store s);
                          store = (qs_store s)\<lparr>qm_heap := (qm_heap (qs_store s))(message \<mapsto> \<lparr>msg_msg = d, msg_size = sz\<rparr>),
                                               q_fresh := Suc message, q_mem := m\<rparr> in
                      do {
                        (_, queue, store) \<leftarrow> u_queue_add_element (qt_dataQueue (qs_thread s)) (Some message) store;
                        s \<leftarrow> oc_cond_signal c (set_queue queue store s);
                        Some (CA_STATUS_OK, Some s)
                      })))"

text \<open>The loop over the data that is left.\<close>

partial_function (option) leftover_loop :: "qsystem \<Rightarrow> qsystem option" where
  "leftover_loop s =
     (if 0 < u_queue_get_size (qt_dataQueue (qs_thread s)) then
        (case u_queue_get_element (qt_dataQueue (qs_thread s)) (qs_store s) of
           None \<Rightarrow> None
         | Some (message, queue, store) \<Rightarrow>
             (case message of
                None \<Rightarrow> leftover_loop (set_queue queue store s)
              | Some m \<Rightarrow> (case release m (set_queue queue store s) of None \<Rightarrow> None | Some s' \<Rightarrow> leftover_loop s')))
      else Some s)"

definition CAQueueingThreadDestroy :: "qsystem option \<Rightarrow> (CAResult \<times> qsystem option) option" where
  "CAQueueingThreadDestroy thread =
     (case thread of
        None \<Rightarrow> Some (CA_STATUS_INVALID_PARAM, None)
      | Some s \<Rightarrow>
          do {
            s \<leftarrow> leftover_loop s;
            (_, _, store) \<leftarrow> u_queue_delete (qt_dataQueue (qs_thread s)) (qs_store s);
            Some (CA_STATUS_OK,
                  Some (s\<lparr>qs_thread := (qs_thread s)\<lparr>qt_dataQueue := None, qt_threadMutex := Null, qt_threadCond := Freed\<rparr>, qs_store := store\<rparr>))
          })"

text \<open>
  \<open>CAQueueingThreadStop\<close> of a thread that is not NULL, in steps: the test without the lock; the section that
  sets the flag, signals and goes to wait; the return after a wake-up.
\<close>

definition stop_test :: "qsystem \<Rightarrow> qsystem" where
  "stop_test s = s\<lparr>qs_stopper := (if isStop s then Stopped else AtStop)\<rparr>"

definition stop_request :: "bool \<Rightarrow> qsystem \<Rightarrow> qsystem option" where
  "stop_request c s =
     do {
       s \<leftarrow> oc_cond_signal c (set_stop True s);
       Some (s\<lparr>qs_stopper := (if qt_threadMutex (qs_thread s) = Live then StopWaiting else Stopped)\<rparr>)
     }"

definition CAQueueingThreadStop :: "bool \<Rightarrow> qsystem \<Rightarrow> qsystem option" where
  "CAQueueingThreadStop c s =
     (case qs_stopper s of
        Idle \<Rightarrow> Some (stop_test s)
      | AtStop \<Rightarrow> stop_request c s
      | StopWaiting \<Rightarrow> Some s
      | StopWoken \<Rightarrow> Some (s\<lparr>qs_stopper := Stopped\<rparr>)
      | Stopped \<Rightarrow> Some s)"

section \<open>Runs\<close>

text \<open>
  What the scheduler lets happen: a step of the worker, a call that adds data, a step of the stop, the
  destruction by the thread that has stopped, and wake-ups without a signal. A thread that waits does
  not move.
\<close>

datatype act = Worker bool | Add "nat option" u32 bool | Stop bool | Destroy | Wakeup | StopWakeup

fun exec :: "act \<Rightarrow> qsystem \<Rightarrow> qsystem option" where
  "exec (Worker c) s = CAQueueingThreadBaseRoutine c s"
| "exec (Add d n c) s = (case CAQueueingThreadAddData d n c (Some s) of Some (_, Some s') \<Rightarrow> Some s' | _ \<Rightarrow> None)"
| "exec (Stop c) s = CAQueueingThreadStop c s"
| "exec Destroy s =
     (if qs_stopper s = Stopped then (case CAQueueingThreadDestroy (Some s) of Some (_, Some s') \<Rightarrow> Some s' | _ \<Rightarrow> None)
      else Some s)"
| "exec Wakeup s = Some (if qs_worker s = Waiting then s\<lparr>qs_worker := Woken\<rparr> else s)"
| "exec StopWakeup s = Some (if qs_stopper s = StopWaiting then s\<lparr>qs_stopper := StopWoken\<rparr> else s)"

fun run_acts :: "act list \<Rightarrow> qsystem \<Rightarrow> qsystem option" where
  "run_acts [] s = Some s"
| "run_acts (a # as) s = (case exec a s of None \<Rightarrow> None | Some s' \<Rightarrow> run_acts as s')"

text \<open>The messages that the calls of a run add.\<close>

fun accepted :: "act list \<Rightarrow> u_queue_message_t list" where
  "accepted [] = []"
| "accepted (Add (Some d) n c # as) = (if n = 0 then accepted as else \<lparr>msg_msg = d, msg_size = n\<rparr> # accepted as)"
| "accepted (a # as) = accepted as"

definition release_of :: "bool \<Rightarrow> u_queue_message_t \<Rightarrow> freed_data" where
  "release_of destroy m = (if destroy then Destroyed (msg_msg m) (msg_size m) else OICFreed (msg_msg m))"


section \<open>The invariant\<close>

definition current :: "worker \<Rightarrow> addr list" where
  "current w = (case w of Working m \<Rightarrow> [m] | _ \<Rightarrow> [])"

lemma current_simps [simp]: "current (Working m) = [m]" "current NotStarted = []" "current AtLoop = []" "current AtLock = []"
  "current Waiting = []" "current Woken = []" "current Exiting = []" "current Ended = []"
  by (simp_all add: current_def)

text \<open>
  The messages \<open>dn\<close> are done, \<open>rest\<close> is with the worker and in the queue, whose messages are \<open>ms\<close>;
  every allocated message is one of these.
\<close>

definition data_inv :: "u_queue_message_t list \<Rightarrow> u_queue_message_t list \<Rightarrow> addr list \<Rightarrow> qsystem \<Rightarrow> bool" where
  "data_inv dn rest ms s \<longleftrightarrow> (\<exists>q. qt_dataQueue (qs_thread s) = Some q \<and> uq_rep (q, qs_store s) ms)
     \<and> distinct (current (qs_worker s) @ ms) \<and> map (qm_heap (qs_store s)) (current (qs_worker s) @ ms) = map Some rest
     \<and> dom (qm_heap (qs_store s)) = set (current (qs_worker s) @ ms) \<and> (\<forall>a\<in>dom (qm_heap (qs_store s)). a < q_fresh (qs_store s))
     \<and> qs_tasks s = map msg_msg dn \<and> qs_released s = map (release_of (qt_destroy (qs_thread s))) dn
     \<and> q_mem (qs_store s) = []"

definition control_inv :: "addr list \<Rightarrow> qsystem \<Rightarrow> bool" where
  "control_inv ms s \<longleftrightarrow> qt_threadMutex (qs_thread s) = Live \<and> qt_threadCond (qs_thread s) = Live
     \<and> (qs_worker s = Waiting \<longrightarrow> ms = [] \<and> \<not> isStop s)
     \<and> (if qs_stopper s \<in> {Idle, AtStop} then \<not> isStop s \<and> qs_worker s \<notin> {Exiting, Ended} else isStop s)
     \<and> qs_worker s \<noteq> NotStarted"

definition q_inv :: "u_queue_message_t list \<Rightarrow> qsystem \<Rightarrow> bool" where
  "q_inv adds s \<longleftrightarrow> (\<exists>dn rest ms. adds = dn @ rest \<and> data_inv dn rest ms s \<and> control_inv ms s)"

lemma signal_eq:
  assumes "control_inv ms s"
  shows "oc_cond_signal c s = Some (if qs_worker s = Waiting then s\<lparr>qs_worker := Woken\<rparr>
    else if qs_stopper s = StopWaiting then s\<lparr>qs_stopper := StopWoken\<rparr> else s)"
  using assms by (auto simp: oc_cond_signal_def control_inv_def isStop_def split: if_splits)

lemma set_queue_fields [simp]:
  "qs_worker (set_queue q st s) = qs_worker s" "qs_stopper (set_queue q st s) = qs_stopper s" "qs_tasks (set_queue q st s) = qs_tasks s"
  "qs_released (set_queue q st s) = qs_released s" "isStop (set_queue q st s) = isStop s" "qs_store (set_queue q st s) = st"
  "qt_dataQueue (qs_thread (set_queue q st s)) = q" "qt_destroy (qs_thread (set_queue q st s)) = qt_destroy (qs_thread s)"
  "qt_threadMutex (qs_thread (set_queue q st s)) = qt_threadMutex (qs_thread s)"
  "qt_threadCond (qs_thread (set_queue q st s)) = qt_threadCond (qs_thread s)"
  by (simp_all add: set_queue_def isStop_def)

lemma isStop_update [simp]: "isStop (s\<lparr>qs_worker := w\<rparr>) = isStop s" "isStop (s\<lparr>qs_stopper := x\<rparr>) = isStop s"
  "isStop (s\<lparr>qs_tasks := ts\<rparr>) = isStop s" "isStop (s\<lparr>qs_store := st\<rparr>) = isStop s" "isStop (s\<lparr>qs_released := rs\<rparr>) = isStop s"
  "isStop (set_stop b s) = b"
  by (simp_all add: isStop_def set_stop_def)

text \<open>Moving the worker without a message keeps the data.\<close>

lemma data_move: "data_inv dn rest ms s \<Longrightarrow> current w = current (qs_worker s) \<Longrightarrow> data_inv dn rest ms (s\<lparr>qs_worker := w\<rparr>)"
  by (simp add: data_inv_def)

lemma data_stopper: "data_inv dn rest ms (s\<lparr>qs_stopper := x\<rparr>) = data_inv dn rest ms s"
  "data_inv dn rest ms (set_stop b s) = data_inv dn rest ms s"
  by (simp_all add: data_inv_def set_stop_def)

lemma queue_empty:
  assumes "data_inv dn rest ms s"
  shows "u_queue_get_size (qt_dataQueue (qs_thread s)) = 0 \<longleftrightarrow> ms = []"
  using assms count_zero by (auto simp: data_inv_def u_queue_get_size_def)

text \<open>Taking a message: the worker holds no other.\<close>

lemma take_ok:
  assumes d: "data_inv dn rest ms s" and w: "current (qs_worker s) = []" and st: "\<not> isStop s"
  shows "\<exists>s'. worker_take s = Some s' \<and> data_inv dn rest (tl ms) s' \<and> qs_worker s' = (case ms of [] \<Rightarrow> AtLoop | m # _ \<Rightarrow> Working m)
    \<and> qs_stopper s' = qs_stopper s \<and> isStop s' = isStop s \<and> qt_threadMutex (qs_thread s') = qt_threadMutex (qs_thread s)
    \<and> qt_threadCond (qs_thread s') = qt_threadCond (qs_thread s)"
proof -
  obtain q where q: "qt_dataQueue (qs_thread s) = Some q" "uq_rep (q, qs_store s) ms" using d by (auto simp: data_inv_def)
  show ?thesis
  proof (cases ms)
    case Nil
    then have "u_queue_get_element (Some q) (qs_store s) = Some (None, Some q, qs_store s)"
      using rep_empty [OF q(2)] by (simp add: u_queue_get_element_def)
    then have "worker_take s = Some ((set_queue (Some q) (qs_store s) s)\<lparr>qs_worker := AtLoop\<rparr>)" using q(1) st by (simp add: worker_take_def)
    moreover have "data_inv dn rest [] ((set_queue (Some q) (qs_store s) s)\<lparr>qs_worker := AtLoop\<rparr>)"
      using d q Nil w by (simp add: data_inv_def)
    ultimately show ?thesis using Nil by simp
  next
    case (Cons m ms')
    obtain e n where e: "q_element q = Some e" "qe_heap (qs_store s) e = Some n" "nd_data n = m"
      "uq_rep (\<lparr>q_element = nd_next n, q_count = q_count q - 1\<rparr>, (qs_store s)\<lparr>qe_heap := (qe_heap (qs_store s))(e := None)\<rparr>) ms'"
      using get_element_ok [of q "qs_store s" m ms'] q(2) Cons by blast
    let ?q = "\<lparr>q_element = nd_next n, q_count = q_count q - 1\<rparr>"
    let ?st = "(qs_store s)\<lparr>qe_heap := (qe_heap (qs_store s))(e := None)\<rparr>"
    have t: "worker_take s = Some ((set_queue (Some ?q) ?st s)\<lparr>qs_worker := Working m\<rparr>)"
      using q(1) e(1-3) st by (simp add: worker_take_def u_queue_get_element_def)
    have "data_inv dn rest ms' ((set_queue (Some ?q) ?st s)\<lparr>qs_worker := Working m\<rparr>)"
      using d w e(4) Cons by (simp add: data_inv_def)
    then show ?thesis using t Cons by simp
  qed
qed

text \<open>Finishing a message.\<close>

lemma release_ok:
  assumes "qm_heap (qs_store s) m = Some x"
  shows "release m s = Some (s\<lparr>qs_store := (qs_store s)\<lparr>qm_heap := (qm_heap (qs_store s))(m := None)\<rparr>,
      qs_released := qs_released s @ [release_of (qt_destroy (qs_thread s)) x]\<rparr>)"
  using assms by (simp add: release_def free_message_def release_of_def)

lemma process_ok:
  assumes d: "data_inv dn rest ms s" and w: "qs_worker s = Working m"
  shows "\<exists>x rest' s'. rest = x # rest' \<and> worker_process m s = Some s' \<and> data_inv (dn @ [x]) rest' ms s' \<and> qs_worker s' = AtLoop
    \<and> qs_stopper s' = qs_stopper s \<and> isStop s' = isStop s \<and> qt_threadMutex (qs_thread s') = qt_threadMutex (qs_thread s)
    \<and> qt_threadCond (qs_thread s') = qt_threadCond (qs_thread s)"
proof -
  have r: "map (qm_heap (qs_store s)) (m # ms) = map Some rest" and dm: "distinct (m # ms)" using d w by (simp_all add: data_inv_def)
  then obtain x rest' where x: "rest = x # rest'" "qm_heap (qs_store s) m = Some x" "map (qm_heap (qs_store s)) ms = map Some rest'"
    by (cases rest) auto
  let ?st = "(qs_store s)\<lparr>qm_heap := (qm_heap (qs_store s))(m := None)\<rparr>"
  let ?s = "s\<lparr>qs_tasks := qs_tasks s @ [msg_msg x], qs_store := ?st, qs_released := qs_released s @ [release_of (qt_destroy (qs_thread s)) x],
    qs_worker := AtLoop\<rparr>"
  have p: "worker_process m s = Some ?s" using x(2) by (simp add: worker_process_def release_ok)
  obtain q where q: "qt_dataQueue (qs_thread s) = Some q" "uq_rep (q, qs_store s) ms" using d by (auto simp: data_inv_def)
  have "uq_rep (q, ?st) ms" using q(2) by (simp add: uq_rep_def)
  moreover have "map (qm_heap ?st) ms = map Some rest'" using x(3) dm by (simp add: map_fun_upd)
  moreover have "dom (qm_heap ?st) = set ms" using d w dm by (auto simp: data_inv_def)
  ultimately have "data_inv (dn @ [x]) rest' ms ?s" using d q(1) dm by (auto simp: data_inv_def)
  then show ?thesis using x(1) p by (intro exI [of _ x] exI [of _ rest'] exI [of _ ?s]) (simp add: isStop_def)
qed


section \<open>Steps keep the invariant\<close>

text \<open>How far the worker is from sleeping, with \<open>n\<close> messages to go.\<close>

definition effort :: "nat \<Rightarrow> worker \<Rightarrow> nat" where
  "effort n w = 3 * n + (case w of AtLoop \<Rightarrow> 2 | AtLock \<Rightarrow> 1 | Woken \<Rightarrow> 3 | _ \<Rightarrow> 0)"

text \<open>Where the worker goes once a stop was requested.\<close>

fun stop_next :: "worker \<Rightarrow> worker" where
  "stop_next AtLoop = Exiting"
| "stop_next Exiting = Ended"
| "stop_next Ended = Ended"
| "stop_next w = AtLoop"

definition moved :: "nat \<Rightarrow> nat \<Rightarrow> qsystem \<Rightarrow> qsystem \<Rightarrow> bool" where
  "moved n n' s s' \<longleftrightarrow> isStop s' = isStop s
     \<and> qs_stopper s' = (if qs_worker s = Exiting \<and> qs_stopper s = StopWaiting then StopWoken else qs_stopper s)
     \<and> (if isStop s then qs_worker s' = stop_next (qs_worker s)
        else if qs_worker s = Waiting then s' = s else effort n' (qs_worker s') < effort n (qs_worker s))"

lemma taken_ok:
  assumes d: "data_inv dn rest ms s" and k: "control_inv ms s" and w: "qs_worker s = AtLock \<or> qs_worker s = Woken"
    and ne: "qs_worker s = AtLock \<longrightarrow> isStop s \<or> ms \<noteq> []" and e: "CAQueueingThreadBaseRoutine c s = worker_take s"
  shows "\<exists>dn' rest' ms' s'. CAQueueingThreadBaseRoutine c s = Some s' \<and> dn @ rest = dn' @ rest' \<and> data_inv dn' rest' ms' s'
    \<and> control_inv ms' s' \<and> moved (length rest) (length rest') s s'"
proof (cases "isStop s")
  case True
  have c: "current (qs_worker s) = []" using w by auto
  have "worker_take s = Some (s\<lparr>qs_worker := AtLoop\<rparr>)" using True by (simp add: worker_take_def)
  moreover have "data_inv dn rest ms (s\<lparr>qs_worker := AtLoop\<rparr>)" by (rule data_move [OF d]) (simp add: c)
  moreover have "control_inv ms (s\<lparr>qs_worker := AtLoop\<rparr>)" using k True by (auto simp: control_inv_def split: if_splits)
  moreover have "moved (length rest) (length rest) s (s\<lparr>qs_worker := AtLoop\<rparr>)" using w True by (auto simp: moved_def)
  ultimately show ?thesis using e by (intro exI [of _ dn] exI [of _ rest] exI [of _ ms] exI [of _ "s\<lparr>qs_worker := AtLoop\<rparr>"]) simp
next
  case False
  have c: "current (qs_worker s) = []" using w by auto
  obtain s' where t: "worker_take s = Some s'" "data_inv dn rest (tl ms) s'" "qs_worker s' = (case ms of [] \<Rightarrow> AtLoop | m # _ \<Rightarrow> Working m)"
    "qs_stopper s' = qs_stopper s" "isStop s' = isStop s" "qt_threadMutex (qs_thread s') = qt_threadMutex (qs_thread s)"
    "qt_threadCond (qs_thread s') = qt_threadCond (qs_thread s)" using take_ok [OF d c False] by blast
  have "control_inv (tl ms) s'" using k t(3-7) False by (auto simp: control_inv_def split: if_splits list.splits)
  moreover have "moved (length rest) (length rest) s s'"
    using w ne False t(3-5) by (cases ms) (auto simp: moved_def effort_def)
  ultimately show ?thesis using e t(1,2) by (intro exI [of _ dn] exI [of _ rest] exI [of _ "tl ms"] exI [of _ s']) simp
qed

lemma worker_ok:
  assumes d: "data_inv dn rest ms s" and k: "control_inv ms s"
  shows "\<exists>dn' rest' ms' s'. CAQueueingThreadBaseRoutine c s = Some s' \<and> dn @ rest = dn' @ rest' \<and> data_inv dn' rest' ms' s'
    \<and> control_inv ms' s' \<and> moved (length rest) (length rest') s s'"
proof -
  have len: "length rest = length (current (qs_worker s)) + length ms"
    using d unfolding data_inv_def by (metis length_append length_map)
  note defs = CAQueueingThreadBaseRoutine_def
  show ?thesis
  proof (cases "qs_worker s")
    case NotStarted
    then show ?thesis using k by (simp add: control_inv_def)
  next
    case AtLoop
    have "data_inv dn rest ms (worker_loop s)" unfolding worker_loop_def by (rule data_move [OF d]) (simp add: AtLoop)
    moreover have "control_inv ms (worker_loop s)" using k AtLoop by (auto simp: worker_loop_def control_inv_def)
    moreover have "moved (length rest) (length rest) s (worker_loop s)" using AtLoop by (simp add: moved_def worker_loop_def effort_def)
    ultimately show ?thesis using AtLoop by (intro exI [of _ dn] exI [of _ rest] exI [of _ ms] exI [of _ "worker_loop s"]) (simp add: defs)
  next
    case Waiting
    then have "moved (length rest) (length rest) s s" using k by (simp add: moved_def control_inv_def)
    then show ?thesis using Waiting d k by (intro exI [of _ dn] exI [of _ rest] exI [of _ ms] exI [of _ s]) (simp add: defs)
  next
    case Ended
    then have "moved (length rest) (length rest) s s" using k by (auto simp: moved_def control_inv_def split: if_splits)
    then show ?thesis using Ended d k by (intro exI [of _ dn] exI [of _ rest] exI [of _ ms] exI [of _ s]) (simp add: defs)
  next
    case (Working m)
    obtain x rest' s' where p: "rest = x # rest'" "worker_process m s = Some s'" "data_inv (dn @ [x]) rest' ms s'" "qs_worker s' = AtLoop"
      "qs_stopper s' = qs_stopper s" "isStop s' = isStop s" "qt_threadMutex (qs_thread s') = qt_threadMutex (qs_thread s)"
      "qt_threadCond (qs_thread s') = qt_threadCond (qs_thread s)" using process_ok [OF d Working] by blast
    have "control_inv ms s'" using k p(4-8) by (auto simp: control_inv_def split: if_splits)
    moreover have "moved (length rest) (length rest') s s'" using p(1,4-6) Working by (simp add: moved_def effort_def)
    ultimately show ?thesis using p(1-3) Working
      by (intro exI [of _ "dn @ [x]"] exI [of _ rest'] exI [of _ ms] exI [of _ s']) (simp add: defs)
  next
    case Exiting
    have e: "CAQueueingThreadBaseRoutine c s = Some ((if qs_stopper s = StopWaiting then s\<lparr>qs_stopper := StopWoken\<rparr> else s)\<lparr>qs_worker := Ended\<rparr>)"
      using Exiting signal_eq [OF k, of c] by (simp add: defs worker_exit_def)
    let ?s = "(if qs_stopper s = StopWaiting then s\<lparr>qs_stopper := StopWoken\<rparr> else s)\<lparr>qs_worker := Ended\<rparr>"
    have st: "isStop s" using k Exiting by (auto simp: control_inv_def split: if_splits)
    have "data_inv dn rest ms ?s" using d Exiting by (auto simp: data_inv_def)
    moreover have "control_inv ms ?s" using k Exiting st by (auto simp: control_inv_def split: if_splits)
    moreover have "moved (length rest) (length rest) s ?s" using Exiting st by (simp add: moved_def)
    ultimately show ?thesis using e by (intro exI [of _ dn] exI [of _ rest] exI [of _ ms] exI [of _ ?s]) simp
  next
    case AtLock
    show ?thesis
    proof (cases "\<not> isStop s \<and> ms = []")
      case True
      then have e: "CAQueueingThreadBaseRoutine c s = Some (s\<lparr>qs_worker := Waiting\<rparr>)"
        using AtLock queue_empty [OF d] k by (simp add: defs worker_enter_def control_inv_def)
      have "data_inv dn rest ms (s\<lparr>qs_worker := Waiting\<rparr>)" by (rule data_move [OF d]) (simp add: AtLock)
      moreover have "control_inv ms (s\<lparr>qs_worker := Waiting\<rparr>)" using k True AtLock by (auto simp: control_inv_def split: if_splits)
      moreover have "moved (length rest) (length rest) s (s\<lparr>qs_worker := Waiting\<rparr>)" using AtLock True by (simp add: moved_def effort_def)
      ultimately show ?thesis using e by (intro exI [of _ dn] exI [of _ rest] exI [of _ ms] exI [of _ "s\<lparr>qs_worker := Waiting\<rparr>"]) simp
    next
      case False
      then have e: "CAQueueingThreadBaseRoutine c s = worker_take s"
        using AtLock queue_empty [OF d] by (auto simp: defs worker_enter_def)
      show ?thesis using taken_ok [OF d k _ _ e] AtLock False by simp
    qed
  next
    case Woken
    then have e: "CAQueueingThreadBaseRoutine c s = worker_take s" by (simp add: defs)
    show ?thesis using taken_ok [OF d k _ _ e] Woken by simp
  qed
qed


lemma signal_control:
  assumes d: "data_inv dn rest ms s" and k: "control_inv ms0 s" and ms: "qs_worker s = Waiting \<longrightarrow> True"
  shows "\<exists>s'. oc_cond_signal c s = Some s' \<and> data_inv dn rest ms s' \<and> control_inv ms s' \<and> isStop s' = isStop s
    \<and> (qs_stopper s' = qs_stopper s \<or> qs_stopper s = StopWaiting \<and> qs_stopper s' = StopWoken \<and> qs_worker s \<noteq> Waiting)
    \<and> (qs_worker s' = qs_worker s \<or> qs_worker s = Waiting \<and> qs_worker s' = Woken) \<and> qs_worker s' \<noteq> Waiting"
proof -
  let ?s = "if qs_worker s = Waiting then s\<lparr>qs_worker := Woken\<rparr> else if qs_stopper s = StopWaiting then s\<lparr>qs_stopper := StopWoken\<rparr> else s"
  have "data_inv dn rest ms ?s" using d data_move [OF d, of Woken] by (simp add: data_stopper)
  moreover have "control_inv ms ?s" using k by (auto simp: control_inv_def split: if_splits)
  ultimately show ?thesis using signal_eq [OF k, of c] by (intro exI [of _ ?s]) simp
qed

lemma accepted_append: "accepted (as @ bs) = accepted as @ accepted bs"
  by (induction as rule: accepted.induct) simp_all

lemma add_data_ok:
  assumes i: "q_inv adds s" and c: "Suc (length adds) < 2 ^ 32"
  shows "\<exists>s' res. CAQueueingThreadAddData dat n b (Some s) = Some (res, Some s') \<and> q_inv (adds @ accepted [Add dat n b]) s'
    \<and> res = (if dat = None \<or> n = 0 then CA_STATUS_INVALID_PARAM else CA_STATUS_OK)"
proof (cases "dat = None \<or> n = 0")
  case True
  then show ?thesis using i by (cases dat) (auto simp: CAQueueingThreadAddData_def)
next
  case False
  then obtain x where x: "dat = Some x" "n \<noteq> 0" by auto
  obtain dn rest ms where d: "adds = dn @ rest" "data_inv dn rest ms s" "control_inv ms s" using i by (auto simp: q_inv_def)
  let ?m = "q_fresh (qs_store s)" and ?x = "\<lparr>msg_msg = x, msg_size = n\<rparr>"
  let ?st = "(qs_store s)\<lparr>qm_heap := (qm_heap (qs_store s))(?m \<mapsto> ?x), q_fresh := Suc ?m, q_mem := []\<rparr>"
  have mem: "q_mem (qs_store s) = []" using d(2) by (simp add: data_inv_def)
  have a: "OICMalloc (q_mem (qs_store s)) sizeof_u_queue_message_t = (True, [])"
    using mem by (simp add: OICMalloc_def sizeof_u_queue_message_t_def max_object_def)
  obtain q where q: "qt_dataQueue (qs_thread s) = Some q" "uq_rep (q, qs_store s) ms" using d(2) by (auto simp: data_inv_def)
  have q': "uq_rep (q, ?st) ms" using q(2) by (auto simp: uq_rep_def)
  have len: "length rest = length (current (qs_worker s)) + length ms"
    using d(2) unfolding data_inv_def by (metis length_append length_map)
  then have "Suc (length ms) < 2 ^ 32" using c d(1) by simp
  from add_element_ok [OF q' this, of ?m] obtain q1 st1 where e: "u_queue_add_element (Some q) (Some ?m) ?st = Some (CA_STATUS_OK, Some q1, st1)"
    "uq_rep (q1, st1) (ms @ [?m])" "qm_heap st1 = qm_heap ?st" "Suc ?m \<le> q_fresh st1" "q_mem st1 = []" by auto
  let ?s = "set_queue (Some q1) st1 s"
  have fresh: "?m \<notin> set (current (qs_worker s) @ ms)" using d(2) by (auto simp: data_inv_def)
  have "map (qm_heap st1) (current (qs_worker s) @ ms @ [?m]) = map Some (rest @ [?x])"
    using d(2) fresh e(3) by (simp add: data_inv_def map_fun_upd)
  moreover have "dom (qm_heap st1) = set (current (qs_worker s) @ ms @ [?m])" using d(2) e(3) by (auto simp: data_inv_def)
  moreover have "\<forall>a\<in>dom (qm_heap st1). a < q_fresh st1"
  proof
    fix a assume "a \<in> dom (qm_heap st1)"
    then have "a = ?m \<or> a \<in> dom (qm_heap (qs_store s))" using e(3) by (auto split: if_splits)
    moreover have "a < ?m" if "a \<in> dom (qm_heap (qs_store s))" using d(2) that unfolding data_inv_def by blast
    ultimately show "a < q_fresh st1" using e(4) by fastforce
  qed
  ultimately have di: "data_inv dn (rest @ [?x]) (ms @ [?m]) ?s"
    using d(2) e(2,5) fresh by (simp add: data_inv_def)
  have k: "control_inv ms ?s" using d(3) by (auto simp: control_inv_def split: if_splits)
  obtain s' where g: "oc_cond_signal b ?s = Some s'" "data_inv dn (rest @ [?x]) (ms @ [?m]) s'" "control_inv (ms @ [?m]) s'"
    using signal_control [OF di k] by blast
  have "CAQueueingThreadAddData dat n b (Some s) = Some (CA_STATUS_OK, Some s')"
    using x a q(1) e(1) g(1) by (simp add: CAQueueingThreadAddData_def Let_def)
  moreover have "q_inv (adds @ accepted [Add dat n b]) s'" using g(2,3) d(1) x by (auto simp: q_inv_def)
  ultimately show ?thesis using False by auto
qed

text \<open>The stop, with what it does to the two threads.\<close>

lemma stop_ok:
  assumes d: "data_inv dn rest ms s" and k: "control_inv ms s"
  shows "\<exists>s'. CAQueueingThreadStop c s = Some s' \<and> data_inv dn rest ms s' \<and> control_inv ms s'
    \<and> (qs_worker s' = qs_worker s \<or> qs_worker s = Waiting \<and> qs_worker s' = Woken)
    \<and> qs_stopper s' = (case qs_stopper s of Idle \<Rightarrow> AtStop | AtStop \<Rightarrow> StopWaiting | StopWaiting \<Rightarrow> StopWaiting | _ \<Rightarrow> Stopped)"
proof (cases "qs_stopper s")
  case Idle
  have "stop_test s = s\<lparr>qs_stopper := AtStop\<rparr>" using k Idle by (simp add: stop_test_def control_inv_def)
  moreover have "control_inv ms (s\<lparr>qs_stopper := AtStop\<rparr>)" using k Idle by (simp add: control_inv_def)
  ultimately show ?thesis using Idle d by (simp add: CAQueueingThreadStop_def data_stopper)
next
  case AtStop
  let ?s = "set_stop True s"
  let ?t = "if qs_worker s = Waiting then ?s\<lparr>qs_worker := Woken\<rparr> else ?s"
  have g: "oc_cond_signal c ?s = Some ?t" using k AtStop by (auto simp: oc_cond_signal_def control_inv_def set_stop_def)
  have m: "qt_threadMutex (qs_thread ?t) = Live" using k by (simp add: control_inv_def set_stop_def)
  have e: "CAQueueingThreadStop c s = Some (?t\<lparr>qs_stopper := StopWaiting\<rparr>)"
    using AtStop g m by (simp add: CAQueueingThreadStop_def stop_request_def)
  have d': "data_inv dn rest ms ?s" using d by (simp add: data_stopper)
  have w: "qs_worker ?s = qs_worker s" by (simp add: set_stop_def)
  have "data_inv dn rest ms ?t"
    using d' data_move [OF d', of Woken] w by (cases "qs_worker s = Waiting") (simp_all only: if_True if_False current_simps simp_thms)
  moreover have "control_inv ms (?t\<lparr>qs_stopper := StopWaiting\<rparr>)" using k by (auto simp: control_inv_def set_stop_def isStop_def)
  ultimately show ?thesis using e AtStop by (intro exI [of _ "?t\<lparr>qs_stopper := StopWaiting\<rparr>"]) (simp add: data_stopper set_stop_def)
next
  case StopWaiting
  then show ?thesis using d k by (simp add: CAQueueingThreadStop_def)
next
  case StopWoken
  then show ?thesis using d k by (auto simp: CAQueueingThreadStop_def data_stopper control_inv_def)
next
  case Stopped
  then show ?thesis using d k by (simp add: CAQueueingThreadStop_def)
qed

lemma wakeup_ok:
  assumes "q_inv adds s"
  shows "\<exists>s'. exec Wakeup s = Some s' \<and> q_inv adds s'"
proof -
  obtain dn rest ms where d: "adds = dn @ rest" "data_inv dn rest ms s" "control_inv ms s" using assms by (auto simp: q_inv_def)
  have "data_inv dn rest ms (s\<lparr>qs_worker := Woken\<rparr>)" if "qs_worker s = Waiting" by (rule data_move [OF d(2)]) (simp add: that)
  moreover have "control_inv ms (s\<lparr>qs_worker := Woken\<rparr>)" if "qs_worker s = Waiting" using d(3) that by (auto simp: control_inv_def split: if_splits)
  ultimately show ?thesis using d unfolding q_inv_def by auto
qed

lemma exec_inv:
  assumes i: "q_inv adds s" and a: "a \<noteq> Destroy" and c: "length (adds @ accepted [a]) < 2 ^ 32"
  shows "\<exists>s'. exec a s = Some s' \<and> q_inv (adds @ accepted [a]) s'"
proof -
  obtain dn rest ms where d: "adds = dn @ rest" "data_inv dn rest ms s" "control_inv ms s" using i by (auto simp: q_inv_def)
  show ?thesis
  proof (cases a)
    case (Worker b)
    then show ?thesis using worker_ok [OF d(2,3), of b] d(1) unfolding q_inv_def by auto
  next
    case (Add dat n b)
    show ?thesis
    proof (cases "dat = None \<or> n = 0")
      case True
      then show ?thesis using Add i by (cases dat) (auto simp: CAQueueingThreadAddData_def)
    next
      case False
      then have "Suc (length adds) < 2 ^ 32" using c Add by auto
      from add_data_ok [OF i this, of dat n b] show ?thesis using Add by fastforce
    qed
  next
    case (Stop b)
    then show ?thesis using stop_ok [OF d(2,3), of b] d(1) unfolding q_inv_def by auto
  next
    case Destroy
    then show ?thesis using a by simp
  next
    case Wakeup
    then show ?thesis using wakeup_ok [OF i] by auto
  next
    case StopWakeup
    have "control_inv ms (s\<lparr>qs_stopper := StopWoken\<rparr>)" if "qs_stopper s = StopWaiting" using d(3) that by (auto simp: control_inv_def)
    then show ?thesis using StopWakeup d unfolding q_inv_def by (auto simp: data_stopper)
  qed
qed

lemma run_acts_inv:
  "q_inv adds s \<Longrightarrow> Destroy \<notin> set as \<Longrightarrow> length (adds @ accepted as) < 2 ^ 32
     \<Longrightarrow> \<exists>s'. run_acts as s = Some s' \<and> q_inv (adds @ accepted as) s'"
proof (induction as arbitrary: adds s)
  case (Cons a as)
  have acc: "accepted (a # as) = accepted [a] @ accepted as" using accepted_append [of "[a]" as] by simp
  have "length (adds @ accepted [a]) < 2 ^ 32" using Cons.prems(3) acc by simp
  then obtain s1 where e: "exec a s = Some s1" "q_inv (adds @ accepted [a]) s1" using exec_inv [OF Cons.prems(1), of a] Cons.prems(2) by auto
  obtain s' where "run_acts as s1 = Some s'" "q_inv ((adds @ accepted [a]) @ accepted as) s'"
    using Cons.IH [OF e(2)] Cons.prems(2,3) acc by auto
  then show ?case using e(1) acc by auto
qed simp


section \<open>From the start on\<close>

text \<open>Nothing is allocated yet, and the thread that will stop has not begun to.\<close>

definition blank :: "qsystem \<Rightarrow> bool" where
  "blank s \<longleftrightarrow> qe_heap (qs_store s) = Map.empty \<and> qm_heap (qs_store s) = Map.empty \<and> q_mem (qs_store s) = []
     \<and> qs_stopper s = Idle \<and> qs_tasks s = [] \<and> qs_released s = []"

definition started :: "bool \<Rightarrow> qsystem \<Rightarrow> qsystem option" where
  "started destroy s =
     (case CAQueueingThreadInitialize True destroy True True (Some s) of
        Some (CA_STATUS_OK, thread) \<Rightarrow> snd (CAQueueingThreadStart CA_STATUS_OK thread)
      | _ \<Rightarrow> None)"

lemma started_ok:
  assumes "blank s0"
  shows "\<exists>s. started d s0 = Some s \<and> q_inv [] s \<and> qs_stopper s = Idle \<and> qt_destroy (qs_thread s) = d"
proof -
  let ?t = "\<lparr>qt_threadPool = True, qt_threadMutex = Live, qt_threadCond = Live, qt_destroy = d, qt_isStop = False,
    qt_dataQueue = Some \<lparr>q_element = None, q_count = NO_MESSAGES\<rparr>\<rparr>"
  let ?s = "s0\<lparr>qs_thread := ?t, qs_store := (qs_store s0)\<lparr>q_mem := []\<rparr>, qs_worker := AtLoop\<rparr>"
  have "u_queue_create (qs_store s0) = (Some \<lparr>q_element = None, q_count = NO_MESSAGES\<rparr>, (qs_store s0)\<lparr>q_mem := []\<rparr>)"
    using assms by (simp add: blank_def u_queue_create_def OICMalloc_def sizeof_u_queue_t_def max_object_def)
  then have e: "started d s0 = Some ?s"
    by (simp add: started_def CAQueueingThreadInitialize_def CAQueueingThreadStart_def isStop_def set_stop_def Let_def)
  have "data_inv [] [] [] ?s" using assms by (simp add: data_inv_def blank_def uq_rep_def NO_MESSAGES_def)
  moreover have "control_inv [] ?s" using assms by (simp add: control_inv_def blank_def isStop_def)
  ultimately have "q_inv [] ?s" unfolding q_inv_def by (intro exI [of _ "[]"]) simp
  then show ?thesis using e assms by (simp add: blank_def)
qed

lemma exec_destroy:
  assumes "exec a s = Some s'" and "a \<noteq> Destroy"
  shows "qt_destroy (qs_thread s') = qt_destroy (qs_thread s)"
proof -
  have sig: "qt_destroy (qs_thread t') = qt_destroy (qs_thread t)" if "oc_cond_signal c t = Some t'" for c t t'
    using that by (auto simp: oc_cond_signal_def split: handle.splits if_splits)
  have rel: "qt_destroy (qs_thread t') = qt_destroy (qs_thread t)" if "release m t = Some t'" for m t t'
    using that by (auto simp: release_def split: bind_splits)
  have tk: "qt_destroy (qs_thread t') = qt_destroy (qs_thread t)" if "worker_take t = Some t'" for t t'
    using that by (auto simp: worker_take_def split: if_splits bind_splits)
  show ?thesis
  proof (cases a)
    case (Worker c)
    then show ?thesis using assms(1) sig tk rel
      by (auto simp: CAQueueingThreadBaseRoutine_def worker_loop_def worker_enter_def worker_process_def worker_exit_def
          split: worker.splits if_splits bind_splits)
  next
    case (Add d n c)
    then show ?thesis using assms(1) sig
      by (auto simp: CAQueueingThreadAddData_def Let_def split: option.splits prod.splits bool.splits if_splits bind_splits)
  next
    case (Stop c)
    then show ?thesis using assms(1) sig
      by (auto simp: CAQueueingThreadStop_def stop_test_def stop_request_def set_stop_def split: stopper.splits bind_splits)
  qed (use assms in \<open>auto split: if_splits\<close>)
qed

lemma run_destroy: "run_acts as s = Some s' \<Longrightarrow> Destroy \<notin> set as \<Longrightarrow> qt_destroy (qs_thread s') = qt_destroy (qs_thread s)"
proof (induction as arbitrary: s)
  case (Cons a as)
  obtain s1 where e: "exec a s = Some s1" "run_acts as s1 = Some s'" using Cons.prems(1) by (auto split: option.splits)
  show ?case using exec_destroy [OF e(1)] Cons.IH [OF e(2)] Cons.prems(2) by auto
qed simp

lemma from_start:
  assumes "blank s0" and "Destroy \<notin> set acts" and "length (accepted acts) < 2 ^ 32"
  obtains s s' where "started d s0 = Some s" "run_acts acts s = Some s'" "q_inv (accepted acts) s'" "qt_destroy (qs_thread s') = d"
proof -
  obtain s where s: "started d s0 = Some s" "q_inv [] s" "qt_destroy (qs_thread s) = d" using started_ok [OF assms(1)] by blast
  obtain s' where r: "run_acts acts s = Some s'" "q_inv (accepted acts) s'" using run_acts_inv [OF s(2) assms(2)] assms(3) by auto
  show ?thesis using that s r run_destroy [OF r(1) assms(2)] by blast
qed

text \<open>
  C10: In every interleaving of the worker with any number of calls that add data and with a stop, with spurious
  wake-ups of either, nothing undefined happens as long as the thread is not destroyed and memory
  does not run out: the messages that were added are handed to the task once each, in the order of the
  additions, and released once each after that; and when the worker sleeps, all of them are done and
  no stop was requested.
\<close>

theorem queueing_exactly_once:
  assumes "blank s0" and "Destroy \<notin> set acts" and "length (accepted acts) < 2 ^ 32"
  shows "\<exists>s s' n. started d s0 = Some s \<and> run_acts acts s = Some s' \<and> qs_tasks s' = map msg_msg (take n (accepted acts))
    \<and> qs_released s' = map (release_of d) (take n (accepted acts))
    \<and> (qs_worker s' = Waiting \<longrightarrow> length (accepted acts) \<le> n \<and> \<not> isStop s')"
proof -
  obtain s s' where s: "started d s0 = Some s" "run_acts acts s = Some s'" "q_inv (accepted acts) s'" "qt_destroy (qs_thread s') = d"
    by (rule from_start [OF assms])
  obtain dn rest ms where i: "accepted acts = dn @ rest" "data_inv dn rest ms s'" "control_inv ms s'" using s(3) by (auto simp: q_inv_def)
  have "rest = []" if "qs_worker s' = Waiting" using i(2,3) that by (simp add: data_inv_def control_inv_def)
  then show ?thesis using s(1,2,4) i by (intro exI [of _ s] exI [of _ s'] exI [of _ "length dn"]) (auto simp: data_inv_def control_inv_def)
qed

section \<open>Progress\<close>

lemma worker_alone:
  "data_inv dn rest ms s \<Longrightarrow> control_inv ms s \<Longrightarrow> \<not> isStop s \<Longrightarrow> effort (length rest) (qs_worker s) \<le> k
     \<Longrightarrow> \<exists>s'. run_acts (replicate k (Worker c)) s = Some s' \<and> data_inv (dn @ rest) [] [] s' \<and> qs_worker s' = Waiting"
proof (induction k arbitrary: dn rest ms s)
  case 0
  have n: "qs_worker s \<notin> {Exiting, Ended, NotStarted}" using 0(2,3) by (auto simp: control_inv_def split: if_splits)
  have "qs_worker s = Waiting"
    using 0(1,4) n by (cases "qs_worker s") (auto simp: effort_def data_inv_def)
  moreover have "rest = []" "ms = []" using 0(1,2) calculation by (simp_all add: data_inv_def control_inv_def)
  ultimately show ?case using 0(1) by simp
next
  case (Suc k)
  obtain dn' rest' ms' s1 where w: "CAQueueingThreadBaseRoutine c s = Some s1" "dn @ rest = dn' @ rest'" "data_inv dn' rest' ms' s1"
    "control_inv ms' s1" "moved (length rest) (length rest') s s1" using worker_ok [OF Suc.prems(1,2)] by blast
  have "\<not> isStop s1" using w(5) Suc.prems(3) by (simp add: moved_def)
  moreover have "effort (length rest') (qs_worker s1) \<le> k"
  proof (cases "qs_worker s = Waiting")
    case True
    then have "s1 = s" "ms = []" using w(5) Suc.prems(2,3) by (simp_all add: moved_def control_inv_def)
    moreover have "rest' = []" using w(3) calculation(1) True w(4) by (simp add: data_inv_def control_inv_def)
    ultimately show ?thesis using True by (simp add: effort_def)
  next
    case False
    then show ?thesis using w(5) Suc.prems(3,4) by (simp add: moved_def)
  qed
  ultimately obtain s' where "run_acts (replicate k (Worker c)) s1 = Some s'" "data_inv (dn' @ rest') [] [] s'" "qs_worker s' = Waiting"
    using Suc.IH [OF w(3,4)] by blast
  then show ?case using w(1,2) by auto
qed


lemma run_append: "run_acts (as @ bs) s = (case run_acts as s of None \<Rightarrow> None | Some s' \<Rightarrow> run_acts bs s')"
  by (induction as arbitrary: s) (auto split: option.splits)

text \<open>Once a stop was requested and before the worker has ended, three steps of the worker end it.\<close>

lemma worker_ends:
  assumes d: "data_inv dn rest ms s" and k: "control_inv ms s" and st: "isStop s" and w: "qs_stopper s = StopWaiting" "qs_worker s \<noteq> Ended"
  shows "\<exists>dn' rest' ms' s'. run_acts (replicate 3 (Worker c)) s = Some s' \<and> dn @ rest = dn' @ rest' \<and> data_inv dn' rest' ms' s'
    \<and> control_inv ms' s' \<and> qs_worker s' = Ended \<and> qs_stopper s' = StopWoken"
proof -
  obtain d1 r1 m1 s1 where a: "CAQueueingThreadBaseRoutine c s = Some s1" "dn @ rest = d1 @ r1" "data_inv d1 r1 m1 s1" "control_inv m1 s1"
    "moved (length rest) (length r1) s s1" using worker_ok [OF d k] by blast
  obtain d2 r2 m2 s2 where b: "CAQueueingThreadBaseRoutine c s1 = Some s2" "d1 @ r1 = d2 @ r2" "data_inv d2 r2 m2 s2" "control_inv m2 s2"
    "moved (length r1) (length r2) s1 s2" using worker_ok [OF a(3,4)] by blast
  obtain d3 r3 m3 s3 where e: "CAQueueingThreadBaseRoutine c s2 = Some s3" "d2 @ r2 = d3 @ r3" "data_inv d3 r3 m3 s3" "control_inv m3 s3"
    "moved (length r2) (length r3) s2 s3" using worker_ok [OF b(3,4)] by blast
  have nw: "qs_worker s \<noteq> Waiting" "qs_worker s \<noteq> NotStarted" using k st by (auto simp: control_inv_def)
  have run: "run_acts (replicate 3 (Worker c)) s = Some s3" using a(1) b(1) e(1) by (simp add: numeral_3_eq_3)
  have "qs_worker s3 = Ended \<and> qs_stopper s3 = StopWoken"
    using a(5) b(5) e(5) st w nw by (cases "qs_worker s") (auto simp: moved_def)
  moreover have "dn @ rest = d3 @ r3" using a(2) b(2) e(2) by simp
  ultimately show ?thesis using run e(3,4) by blast
qed

text \<open>
  C11: The worker never sleeps for ever on work. From every state that a run without a stop reaches, steps
  of the worker alone, three for each message and three more, hand all messages to the task; and a
  stop that is called there returns after three further steps of the worker at most, when no data is
  added meanwhile.
\<close>

theorem queueing_progress:
  assumes "blank s0" and "Destroy \<notin> set acts" and "length (accepted acts) < 2 ^ 32"
    and "started d s0 = Some s" and "run_acts acts s = Some s1" and "qs_stopper s1 = Idle"
  shows "(\<exists>s2. run_acts (replicate (3 * length (accepted acts) + 3) (Worker c)) s1 = Some s2
      \<and> qs_tasks s2 = map msg_msg (accepted acts) \<and> qs_released s2 = map (release_of d) (accepted acts))
    \<and> (\<exists>s2. run_acts ([Stop c, Stop c] @ replicate 3 (Worker c) @ [Stop c]) s1 = Some s2 \<and> qs_stopper s2 = Stopped \<and> qs_worker s2 = Ended)"
proof -
  obtain q: "q_inv (accepted acts) s1" and dst: "qt_destroy (qs_thread s1) = d" using from_start [OF assms(1-3)] assms(4,5) by (metis option.inject)
  obtain dn rest ms where i: "accepted acts = dn @ rest" "data_inv dn rest ms s1" "control_inv ms s1" using q by (auto simp: q_inv_def)
  have run: "\<not> isStop s1" using i(3) assms(6) by (simp add: control_inv_def)
  have eff: "effort (length rest) (qs_worker s1) \<le> 3 * length (accepted acts) + 3" using i(1) by (simp add: effort_def split: worker.splits)
  obtain s2 where w: "run_acts (replicate (3 * length (accepted acts) + 3) (Worker c)) s1 = Some s2" "data_inv (dn @ rest) [] [] s2"
    using worker_alone [OF i(2,3) run eff] by blast
  have "Destroy \<notin> set (replicate (3 * length (accepted acts) + 3) (Worker c))" by simp
  then have "qt_destroy (qs_thread s2) = d" using run_destroy [OF w(1)] dst by blast
  then have A: "qs_tasks s2 = map msg_msg (accepted acts)" "qs_released s2 = map (release_of d) (accepted acts)" using w(2) i(1) by (simp_all add: data_inv_def)
  obtain t1 where t1: "CAQueueingThreadStop c s1 = Some t1" "data_inv dn rest ms t1" "control_inv ms t1"
    "qs_worker t1 = qs_worker s1 \<or> qs_worker s1 = Waiting \<and> qs_worker t1 = Woken" "qs_stopper t1 = AtStop"
    using stop_ok [OF i(2,3), of c] assms(6) by auto
  obtain t2 where t2: "CAQueueingThreadStop c t1 = Some t2" "data_inv dn rest ms t2" "control_inv ms t2"
    "qs_worker t2 = qs_worker t1 \<or> qs_worker t1 = Waiting \<and> qs_worker t2 = Woken" "qs_stopper t2 = StopWaiting"
    using stop_ok [OF t1(2,3), of c] t1(5) by auto
  have "qs_worker t1 \<noteq> Ended" using t1(3,5) by (simp add: control_inv_def)
  then have ne: "qs_worker t2 \<noteq> Ended" using t2(4) by auto
  have st: "isStop t2" using t2(3,5) by (simp add: control_inv_def)
  obtain t3 where t3: "run_acts (replicate 3 (Worker c)) t2 = Some t3" "qs_worker t3 = Ended" "qs_stopper t3 = StopWoken"
    using worker_ends [OF t2(2,3) st t2(5) ne] by blast
  let ?s = "t3\<lparr>qs_stopper := Stopped\<rparr>"
  have "run_acts ([Stop c, Stop c] @ replicate 3 (Worker c) @ [Stop c]) s1 = Some ?s"
    using t1(1) t2(1) t3(1,3) by (simp add: run_append CAQueueingThreadStop_def)
  then show ?thesis using w(1) A t3(2) by (intro conjI exI [of _ s2] exI [of _ ?s]) simp_all
qed

section \<open>The end\<close>

lemma leftover_loop_ok:
  "qt_dataQueue (qs_thread s) = Some q \<Longrightarrow> uq_rep (q, qs_store s) ms \<Longrightarrow> distinct ms \<Longrightarrow> map (qm_heap (qs_store s)) ms = map Some rest
     \<Longrightarrow> dom (qm_heap (qs_store s)) = set ms
     \<Longrightarrow> \<exists>s' q'. leftover_loop s = Some s' \<and> qt_dataQueue (qs_thread s') = Some q' \<and> uq_rep (q', qs_store s') [] \<and> qm_heap (qs_store s') = Map.empty
        \<and> qs_released s' = qs_released s @ map (release_of (qt_destroy (qs_thread s))) rest"
proof (induction ms arbitrary: s q rest)
  case Nil
  then have "u_queue_get_size (qt_dataQueue (qs_thread s)) = 0" using count_zero by (simp add: u_queue_get_size_def)
  then have "leftover_loop s = Some s" by (subst leftover_loop.simps) simp
  then show ?case using Nil by (intro exI [of _ s] exI [of _ q]) simp
next
  case (Cons m ms)
  obtain x rest' where x: "rest = x # rest'" "qm_heap (qs_store s) m = Some x" "map (qm_heap (qs_store s)) ms = map Some rest'"
    using Cons.prems(4) by (cases rest) auto
  obtain e n where e: "q_element q = Some e" "qe_heap (qs_store s) e = Some n" "nd_data n = m"
    "uq_rep (\<lparr>q_element = nd_next n, q_count = q_count q - 1\<rparr>, (qs_store s)\<lparr>qe_heap := (qe_heap (qs_store s))(e := None)\<rparr>) ms"
    using get_element_ok [OF Cons.prems(2)] by blast
  let ?q = "\<lparr>q_element = nd_next n, q_count = q_count q - 1\<rparr>"
  let ?st = "(qs_store s)\<lparr>qe_heap := (qe_heap (qs_store s))(e := None)\<rparr>"
  let ?st1 = "?st\<lparr>qm_heap := (qm_heap (qs_store s))(m := None)\<rparr>"
  let ?s = "(set_queue (Some ?q) ?st s)\<lparr>qs_store := ?st1, qs_released := qs_released s @ [release_of (qt_destroy (qs_thread s)) x]\<rparr>"
  have r: "release m (set_queue (Some ?q) ?st s) = Some ?s" using release_ok [of "set_queue (Some ?q) ?st s" m x] x(2) by simp
  have g: "u_queue_get_element (Some q) (qs_store s) = Some (Some m, Some ?q, ?st)" using e(1-3) by (simp add: u_queue_get_element_def)
  have "0 < q_count q" using count_zero [OF Cons.prems(2)] by (simp add: word_greater_zero_iff)
  then have step: "leftover_loop s = leftover_loop ?s"
    using Cons.prems(1) g r by (subst leftover_loop.simps) (simp add: u_queue_get_size_def)
  have A: "qt_dataQueue (qs_thread ?s) = Some ?q" "qt_destroy (qs_thread ?s) = qt_destroy (qs_thread s)" by simp_all
  have B: "uq_rep (?q, qs_store ?s) ms" using e(4) by (simp add: uq_rep_def)
  have C: "map (qm_heap (qs_store ?s)) ms = map Some rest'" using x(3) Cons.prems(3) by (simp add: map_fun_upd)
  have D: "dom (qm_heap (qs_store ?s)) = set ms" using Cons.prems(3,5) by auto
  have "distinct ms" using Cons.prems(3) by simp
  from Cons.IH [OF A(1) B this C D] show ?case unfolding step A(2) x(1) by simp
qed

text \<open>Steps while a thread stops: of the worker, of the stop, and spurious wake-ups of the worker.\<close>

fun quiet :: "act \<Rightarrow> bool" where
  "quiet (Worker c) = True"
| "quiet (Stop c) = True"
| "quiet Wakeup = True"
| "quiet _ = False"

definition stopping_inv :: "qsystem \<Rightarrow> bool" where
  "stopping_inv s \<longleftrightarrow> (qs_stopper s = StopWaiting \<longrightarrow> qs_worker s \<noteq> Ended) \<and> (qs_stopper s \<in> {StopWoken, Stopped} \<longrightarrow> qs_worker s = Ended)"

lemma quiet_exec:
  assumes i: "q_inv adds s" and l: "stopping_inv s" and a: "quiet a"
  shows "\<exists>s'. exec a s = Some s' \<and> q_inv adds s' \<and> stopping_inv s'"
proof -
  obtain dn rest ms where d: "adds = dn @ rest" "data_inv dn rest ms s" "control_inv ms s" using i by (auto simp: q_inv_def)
  show ?thesis
  proof (cases a)
    case (Worker c)
    obtain dn' rest' ms' s' where w: "CAQueueingThreadBaseRoutine c s = Some s'" "dn @ rest = dn' @ rest'" "data_inv dn' rest' ms' s'"
      "control_inv ms' s'" "moved (length rest) (length rest') s s'" using worker_ok [OF d(2,3)] by blast
    have "stopping_inv s'"
    proof (cases "qs_stopper s \<in> {Idle, AtStop}")
      case True
      then have "qs_stopper s' \<in> {Idle, AtStop}" using w(5) by (auto simp: moved_def)
      then show ?thesis by (auto simp: stopping_inv_def)
    next
      case False
      then have "isStop s" using d(3) by (simp add: control_inv_def)
      then show ?thesis using w(5) l False d(3) by (cases "qs_worker s"; cases "qs_stopper s") (auto simp: moved_def stopping_inv_def)
    qed
    then show ?thesis using Worker w d(1) unfolding q_inv_def by auto
  next
    case (Stop c)
    obtain s' where t: "CAQueueingThreadStop c s = Some s'" "data_inv dn rest ms s'" "control_inv ms s'"
      "qs_worker s' = qs_worker s \<or> qs_worker s = Waiting \<and> qs_worker s' = Woken"
      "qs_stopper s' = (case qs_stopper s of Idle \<Rightarrow> AtStop | AtStop \<Rightarrow> StopWaiting | StopWaiting \<Rightarrow> StopWaiting | _ \<Rightarrow> Stopped)"
      using stop_ok [OF d(2,3)] by blast
    have "stopping_inv s'" using t(4,5) l d(3) by (cases "qs_stopper s") (auto simp: stopping_inv_def control_inv_def)
    then show ?thesis using Stop t(1-3) d(1) unfolding q_inv_def by auto
  next
    case Wakeup
    obtain s' where e: "exec Wakeup s = Some s'" "q_inv adds s'" using wakeup_ok [OF i] by blast
    then have "stopping_inv s'" using l by (auto simp: stopping_inv_def split: if_splits)
    then show ?thesis using e Wakeup by blast
  qed (use a in simp_all)
qed


lemma quiet_run:
  "q_inv adds s \<Longrightarrow> stopping_inv s \<Longrightarrow> list_all quiet bs \<Longrightarrow> \<exists>s'. run_acts bs s = Some s' \<and> q_inv adds s' \<and> stopping_inv s'"
proof (induction bs arbitrary: s)
  case (Cons b bs)
  obtain s1 where "exec b s = Some s1" "q_inv adds s1" "stopping_inv s1" using quiet_exec [OF Cons.prems(1,2)] Cons.prems(3) by auto
  then show ?case using Cons.IH [of s1] Cons.prems(3) by auto
qed simp

text \<open>
  C12: A stop that returns has ended the worker, when no data is added and no spurious wake-up of the stopping
  thread happens meanwhile. Destroying the thread then releases everything that was left: every
  message that was ever added is released exactly once, in order, and no message and no element of the
  queue remains allocated.
\<close>

theorem queueing_shutdown:
  assumes "blank s0" and "Destroy \<notin> set acts" and "length (accepted acts) < 2 ^ 32"
    and "started d s0 = Some s" and "run_acts acts s = Some s1" and "qs_stopper s1 = Idle" and "list_all quiet bs"
  shows "\<exists>s2. run_acts bs s1 = Some s2 \<and> (qs_stopper s2 = Stopped \<longrightarrow> qs_worker s2 = Ended
    \<and> (\<exists>s3. CAQueueingThreadDestroy (Some s2) = Some (CA_STATUS_OK, Some s3) \<and> qs_released s3 = map (release_of d) (accepted acts)
        \<and> qe_heap (qs_store s3) = Map.empty \<and> qm_heap (qs_store s3) = Map.empty))"
proof -
  have q: "q_inv (accepted acts) s1" and dst: "qt_destroy (qs_thread s1) = d" using from_start [OF assms(1-3)] assms(4,5) by (metis option.inject)+
  have "stopping_inv s1" using assms(6) by (simp add: stopping_inv_def)
  then obtain s2 where r: "run_acts bs s1 = Some s2" "q_inv (accepted acts) s2" "stopping_inv s2" using quiet_run [OF q _ assms(7)] by blast
  have "Destroy \<notin> set bs" using assms(7) by (auto simp: list_all_iff)
  then have dst2: "qt_destroy (qs_thread s2) = d" using run_destroy [OF r(1)] dst by blast
  have "\<exists>s3. CAQueueingThreadDestroy (Some s2) = Some (CA_STATUS_OK, Some s3) \<and> qs_released s3 = map (release_of d) (accepted acts)
        \<and> qe_heap (qs_store s3) = Map.empty \<and> qm_heap (qs_store s3) = Map.empty" if e: "qs_worker s2 = Ended"
  proof -
    obtain dn rest ms where i: "accepted acts = dn @ rest" "data_inv dn rest ms s2" using r(2) by (auto simp: q_inv_def)
    then obtain q where q: "qt_dataQueue (qs_thread s2) = Some q" "uq_rep (q, qs_store s2) ms" by (auto simp: data_inv_def)
    have h: "distinct ms" "map (qm_heap (qs_store s2)) ms = map Some rest" "dom (qm_heap (qs_store s2)) = set ms"
      "qs_released s2 = map (release_of d) dn" using i(2) e dst2 by (simp_all add: data_inv_def)
    obtain s3 q3 where l: "leftover_loop s2 = Some s3" "qt_dataQueue (qs_thread s3) = Some q3" "uq_rep (q3, qs_store s3) []"
      "qm_heap (qs_store s3) = Map.empty" "qs_released s3 = qs_released s2 @ map (release_of d) rest"
      using leftover_loop_ok [OF q h(1-3)] dst2 by blast
    obtain st where u: "u_queue_delete (Some q3) (qs_store s3) = Some (CA_STATUS_OK, None, st)" "qe_heap st = Map.empty" "qm_heap st = Map.empty"
      using delete_queue_ok [OF l(3)] l(4) by (auto simp: owns_messages_def)
    show ?thesis using l(1,2,5) u h(4) i(1) by (simp add: CAQueueingThreadDestroy_def)
  qed
  then show ?thesis using r by (auto simp: stopping_inv_def)
qed


section \<open>Examples\<close>

definition example_queueing :: qsystem where
  "example_queueing = \<lparr>qs_thread = \<lparr>qt_threadPool = False, qt_threadMutex = Null, qt_threadCond = Null, qt_destroy = False,
       qt_isStop = True, qt_dataQueue = None\<rparr>,
     qs_store = \<lparr>qe_heap = Map.empty, qm_heap = Map.empty, q_fresh = 0, q_mem = []\<rparr>, qs_worker = NotStarted, qs_stopper = Idle,
     qs_tasks = [], qs_released = []\<rparr>"

definition example_acts :: "act list" where
  "example_acts = [Add (Some 7) 1 True, Worker True, Add (Some 8) 4 True, Worker True, Worker True]"

lemma example_blank: "blank example_queueing"
  by (simp add: blank_def example_queueing_def)

lemma example_accepted: "accepted example_acts = [\<lparr>msg_msg = 7, msg_size = 1\<rparr>, \<lparr>msg_msg = 8, msg_size = 4\<rparr>]" "Destroy \<notin> set example_acts"
  by (simp_all add: example_acts_def)

definition example_started :: qsystem where
  "example_started = the (started True example_queueing)"

lemma example_started_eq: "started True example_queueing = Some example_started"
  using started_ok [OF example_blank, of True] by (auto simp: example_started_def)

lemmas queueing_defs = CAQueueingThreadBaseRoutine_def worker_loop_def worker_enter_def worker_take_def worker_process_def worker_exit_def
  release_def free_message_def CAQueueingThreadAddData_def CAQueueingThreadStop_def stop_test_def stop_request_def set_stop_def set_queue_def
  isStop_def oc_cond_signal_def u_queue_get_element_def u_queue_add_element_def u_queue_get_size_def last_node.simps Let_def NO_MESSAGES_def
  OICMalloc_def sizeof_u_queue_message_t_def sizeof_u_queue_element_def sizeof_u_queue_t_def max_object_def

lemma example_started_state:
  "example_started = \<lparr>qs_thread = \<lparr>qt_threadPool = True, qt_threadMutex = Live, qt_threadCond = Live, qt_destroy = True,
       qt_isStop = False, qt_dataQueue = Some \<lparr>q_element = None, q_count = 0\<rparr>\<rparr>,
     qs_store = \<lparr>qe_heap = Map.empty, qm_heap = Map.empty, q_fresh = 0, q_mem = []\<rparr>, qs_worker = AtLoop, qs_stopper = Idle,
     qs_tasks = [], qs_released = []\<rparr>"
  by (simp add: example_started_def started_def example_queueing_def CAQueueingThreadInitialize_def CAQueueingThreadStart_def
      u_queue_create_def queueing_defs)

lemma example_running: "\<exists>s1. run_acts example_acts example_started = Some s1 \<and> qs_stopper s1 = Idle"
  by (simp add: example_acts_def example_started_state queueing_defs)

theorem queueing_exactly_once_witness:
  "\<exists>s' n. run_acts example_acts example_started = Some s' \<and> qs_tasks s' = map msg_msg (take n (accepted example_acts))"
  using queueing_exactly_once [OF example_blank example_accepted(2), of True] example_started_eq by (auto simp: example_accepted)

theorem queueing_progress_witness:
  "\<exists>s1 s2. run_acts example_acts example_started = Some s1 \<and> run_acts (replicate 9 (Worker True)) s1 = Some s2 \<and> qs_tasks s2 = [7, 8]"
proof -
  obtain s1 where s1: "run_acts example_acts example_started = Some s1" "qs_stopper s1 = Idle" using example_running by blast
  have l: "length (accepted example_acts) < 2 ^ 32" by (simp add: example_accepted)
  have "\<exists>s2. run_acts (replicate 9 (Worker True)) s1 = Some s2 \<and> qs_tasks s2 = [7, 8]"
    using queueing_progress [OF example_blank example_accepted(2) l example_started_eq s1, of True] by (simp add: example_accepted) blast
  then show ?thesis using s1(1) by blast
qed

theorem queueing_shutdown_witness:
  "\<exists>s1 s2. run_acts example_acts example_started = Some s1
    \<and> run_acts ([Stop True, Stop True] @ replicate 3 (Worker True) @ [Stop True]) s1 = Some s2
    \<and> (qs_stopper s2 = Stopped \<longrightarrow> (\<exists>s3. CAQueueingThreadDestroy (Some s2) = Some (CA_STATUS_OK, Some s3)
        \<and> qs_released s3 = [Destroyed 7 1, Destroyed 8 4]))"
proof -
  obtain s1 where s1: "run_acts example_acts example_started = Some s1" "qs_stopper s1 = Idle" using example_running by blast
  have l: "length (accepted example_acts) < 2 ^ 32" by (simp add: example_accepted)
  have b: "list_all quiet ([Stop True, Stop True] @ replicate 3 (Worker True) @ [Stop True])" by (simp add: numeral_3_eq_3)
  obtain s2 where "run_acts ([Stop True, Stop True] @ replicate 3 (Worker True) @ [Stop True]) s1 = Some s2"
    "qs_stopper s2 = Stopped \<longrightarrow> (\<exists>s3. CAQueueingThreadDestroy (Some s2) = Some (CA_STATUS_OK, Some s3)
        \<and> qs_released s3 = map (release_of True) (accepted example_acts))"
    using queueing_shutdown [OF example_blank example_accepted(2) l example_started_eq s1 b] by blast
  then show ?thesis using s1(1) by (auto simp: example_accepted release_of_def)
qed

text \<open>
  Data that is added while a thread stops may wake the stopping thread instead of the worker: the stop
  returns although the worker is still at work, and after the destruction the worker uses the freed
  condition.
\<close>

lemma stop_interrupted:
  "\<exists>s1. run_acts [Add (Some 7) 1 True, Worker True, Worker True, Stop True, Stop True, Add (Some 8) 1 True, Stop True] example_started = Some s1
     \<and> qs_stopper s1 = Stopped \<and> qs_worker s1 = Working 0"
  "run_acts [Add (Some 7) 1 True, Worker True, Worker True, Stop True, Stop True, Add (Some 8) 1 True, Stop True, Destroy, Worker True,
     Worker True, Worker True] example_started = None"
  by (simp_all add: example_started_state CAQueueingThreadDestroy_def leftover_loop.simps u_queue_delete_def u_queue_reset_def queueing_defs)

text \<open>When the queue has no memory for an element, the call reports success, and the data is lost.\<close>

lemma added_and_lost:
  assumes "qt_dataQueue (qs_thread s) = Some q" and "q_mem (qs_store s) = [True, False]" and "qt_threadCond (qs_thread s) = Live" and "n \<noteq> 0"
  shows "\<exists>s'. CAQueueingThreadAddData (Some d) n c (Some s) = Some (CA_STATUS_OK, Some s') \<and> qt_dataQueue (qs_thread s') = Some q"
  using assms by (auto simp: queueing_defs)

end
