(* ===== verification/RouteOption.thy ===== *)
theory RouteOption
  imports CATypes "HOL-Library.Monad_Syntax"
begin

text \<open>
  The route option of the message switching layer: \<^verbatim>\<open>resource/csdk/routing/src/routingutility.c\<close> of
  the gateway build (\<open>ROUTING_GATEWAY\<close>). A gateway adds to every message a header option with the
  source and the destination address, each a 4-byte gateway id followed by an optional 2-byte
  endpoint id in the byte order of the host (little endian), and takes it off again on reception.
  An option has a fixed array of bytes; a read or write outside it is undefined and has the value
  \<^const>\<open>None\<close>.
\<close>

section \<open>Bytes\<close>

definition le16 :: "u16 \<Rightarrow> u8 list" where
  "le16 w = [ucast w, ucast (drop_bit 8 w)]"

definition le32 :: "u32 \<Rightarrow> u8 list" where
  "le32 w = [ucast w, ucast (drop_bit 8 w), ucast (drop_bit 16 w), ucast (drop_bit 24 w)]"

fun of_le16 :: "u8 list \<Rightarrow> u16" where
  "of_le16 (a # b # _) = ucast a OR push_bit 8 (ucast b)"
| "of_le16 _ = 0"

fun of_le32 :: "u8 list \<Rightarrow> u32" where
  "of_le32 (a # b # c # d # _) =
     ucast a OR push_bit 8 (ucast b) OR push_bit 16 (ucast c) OR push_bit 24 (ucast d)"
| "of_le32 _ = 0"

section \<open>State\<close>

definition GATEWAY_ID_LENGTH :: nat where "GATEWAY_ID_LENGTH = 4"
definition ENDPOINT_ID_LENGTH :: nat where "ENDPOINT_ID_LENGTH = 2"
definition DEFAULT_ROUTE_OPTION_LEN :: nat where "DEFAULT_ROUTE_OPTION_LEN = 1"
definition MIN_ROUTE_OPTION_LEN :: nat where "MIN_ROUTE_OPTION_LEN = 5"
definition ACK_MESSAGE_TYPE :: u8 where "ACK_MESSAGE_TYPE = push_bit 6 1"
definition RST_MESSAGE_TYPE :: u8 where "RST_MESSAGE_TYPE = push_bit 7 1"
definition NORMAL_MESSAGE_TYPE :: u8 where "NORMAL_MESSAGE_TYPE = push_bit 6 3"
definition RM_OPTION_MESSAGE_SWITCHING :: u16 where "RM_OPTION_MESSAGE_SWITCHING = 65524"

lemmas route_consts = GATEWAY_ID_LENGTH_def ENDPOINT_ID_LENGTH_def DEFAULT_ROUTE_OPTION_LEN_def
  MIN_ROUTE_OPTION_LEN_def CA_MAX_HEADER_OPTION_DATA_LENGTH_def

text \<open>The values of \<open>MSGType\<close>; the field of the option is a byte.\<close>

definition NOR :: u8 where "NOR = 0"
definition ACK :: u8 where "ACK = 1"
definition RST :: u8 where "RST = 2"

record RMRouteOption =
  srcGw :: u32
  destGw :: u32
  mSeqNum :: u16
  srcEp :: u16
  destEp :: u16
  msgType :: u8

text \<open>The file's and the routing manager's static variables that the functions use.\<close>

record RMState =
  g_rmStackMode :: OCMode
  g_isRMInitialized :: bool
  g_GatewayID :: u32
  g_mcastsequenceNumber :: u16
  rm_mem :: mem

text \<open>The option array of a message: a NULL pointer, a block, or a block that was freed.\<close>

datatype option_array = OptNull | OptBlock "CAHeaderOption list" | OptFreed

text \<open>The members of \<open>CARequestInfo_t\<close> and \<open>CAResponseInfo_t\<close> that routing uses.\<close>

record CAMessage =
  ci_type :: CAMessageType
  ci_result :: nat
  ci_options :: option_array
  ci_numOptions :: u8

definition CA_EMPTY :: nat where "CA_EMPTY = 0"
definition CA_CONTENT :: nat where "CA_CONTENT = 205"

section \<open>Operations\<close>

definition RMSetStackMode :: "OCMode \<Rightarrow> RMState \<Rightarrow> RMState" where
  "RMSetStackMode mode st = st\<lparr>g_rmStackMode := mode\<rparr>"

definition RMGetGatewayId :: "RMState \<Rightarrow> u32" where
  "RMGetGatewayId st = (if \<not> g_isRMInitialized st then 0 else g_GatewayID st)"

definition RMGetMcastSeqNumber :: "RMState \<Rightarrow> u16 \<times> RMState" where
  "RMGetMcastSeqNumber st =
     (if \<not> g_isRMInitialized st then (0, st)
      else let n = g_mcastsequenceNumber st + 1 in (n, st\<lparr>g_mcastsequenceNumber := n\<rparr>))"

text \<open>
  The index variable has type \<open>int8_t\<close>: an index of 128 or more becomes negative. The loop reads
  the options of the block one by one.
\<close>

definition to_int8 :: "u8 \<Rightarrow> int" where
  "to_int8 i = sint i"

function route_index_loop :: "CAHeaderOption list \<Rightarrow> nat \<Rightarrow> nat \<Rightarrow> int \<Rightarrow> int option" where
  "route_index_loop opts n i index =
     (if i < n then
        (if i < length opts then
           (if ho_optionID (opts ! i) = RM_OPTION_MESSAGE_SWITCHING then Some (to_int8 (of_nat i))
            else route_index_loop opts n (Suc i) index)
         else None)
      else Some index)"
  by pat_completeness auto
termination by (relation "measure (\<lambda>(opts, n, i, index). n - i)") auto

declare route_index_loop.simps [simp del]

definition RMGetRouteOptionIndex :: "option_array \<Rightarrow> u8 \<Rightarrow> int \<Rightarrow> int option" where
  "RMGetRouteOptionIndex options numOptions index =
     (case options of
        OptNull \<Rightarrow> Some index
      | OptFreed \<Rightarrow> if numOptions = 0 then Some index else None
      | OptBlock opts \<Rightarrow> route_index_loop opts (unat numOptions) 0 index)"

definition addr_len :: "u32 \<Rightarrow> u16 \<Rightarrow> u8" where
  "addr_len gw ep = of_nat ((if gw \<noteq> 0 then GATEWAY_ID_LENGTH else 0) + (if ep \<noteq> 0 then ENDPOINT_ID_LENGTH else 0))"

definition type_byte :: "u8 \<Rightarrow> u8" where
  "type_byte t = (if t = ACK then ACK_MESSAGE_TYPE else if t = RST then RST_MESSAGE_TYPE else NORMAL_MESSAGE_TYPE)"

text \<open>One address with its length byte in front, at the position \<open>count\<close>; returns the next position.\<close>

definition write_addr :: "u8 \<Rightarrow> u32 \<Rightarrow> u16 \<Rightarrow> nat \<Rightarrow> u8 list \<Rightarrow> (u8 list \<times> nat) option" where
  "write_addr len gw ep count buf =
     do {
       buf1 \<leftarrow> buf_write count [len] buf;
       let count1 = count + 1;
       if 0 < len then do {
         (buf2, count2) \<leftarrow> (if gw \<noteq> 0 then do { b \<leftarrow> buf_write count1 (le32 gw) buf1; Some (b, count1 + GATEWAY_ID_LENGTH) }
                            else Some (buf1, count1));
         (if ep \<noteq> 0 then do { b \<leftarrow> buf_write count2 (le16 ep) buf2; Some (b, count2 + ENDPOINT_ID_LENGTH) }
          else Some (buf2, count2))
       } else Some (buf1, count1)
     }"

definition RMCreateRouteOption ::
  "mem \<Rightarrow> RMRouteOption option \<Rightarrow> CAHeaderOption option \<Rightarrow> (OCStackResult \<times> CAHeaderOption option \<times> mem) option" where
  "RMCreateRouteOption m optValue options =
     (case (optValue, options) of
        (Some v, Some h) \<Rightarrow>
          (let dLen = addr_len (destGw v) (destEp v);
               sLen = addr_len (srcGw v) (srcEp v);
               totalLength = (if dLen = 0 \<and> sLen = 0 then DEFAULT_ROUTE_OPTION_LEN
                              else MIN_ROUTE_OPTION_LEN + unat dLen + unat sLen);
               (ok, m1) = OICCalloc m totalLength 1
           in if \<not> ok then Some (OC_STACK_NO_MEMORY, options, m1)
              else do {
                t1 \<leftarrow> buf_write 0 (replicate DEFAULT_ROUTE_OPTION_LEN (type_byte (msgType v))) (replicate totalLength 0);
                tempData \<leftarrow>
                  (if dLen = 0 \<and> sLen = 0 then Some t1
                   else do {
                     (t2, c2) \<leftarrow> write_addr dLen (destGw v) (destEp v) DEFAULT_ROUTE_OPTION_LEN t1;
                     (t3, c3) \<leftarrow> write_addr sLen (srcGw v) (srcEp v) c2 t2;
                     buf_write c3 (le16 (mSeqNum v)) t3
                   });
                bytes \<leftarrow> buf_read 0 totalLength tempData;
                d \<leftarrow> buf_write 0 bytes (ho_optionData h);
                Some (OC_STACK_OK,
                  Some (h\<lparr>ho_optionData := d, ho_optionID := RM_OPTION_MESSAGE_SWITCHING,
                          ho_optionLength := of_nat totalLength\<rparr>), m1)
              })
      | _ \<Rightarrow> Some (OC_STACK_INVALID_PARAM, options, m))"

text \<open>One address of the parser: its length byte, then the parts that the length announces.\<close>

definition read_addr :: "u8 list \<Rightarrow> nat \<Rightarrow> u32 \<Rightarrow> u16 \<Rightarrow> (u32 \<times> u16 \<times> nat) option" where
  "read_addr buf count gw ep =
     do {
       lb \<leftarrow> buf_read count 1 buf;
       let len = lb ! 0;
       let count1 = count + 1;
       if 0 < len then do {
         g \<leftarrow> buf_read count1 GATEWAY_ID_LENGTH buf;
         let count2 = count1 + GATEWAY_ID_LENGTH;
         if GATEWAY_ID_LENGTH < unat len then do {
           e \<leftarrow> buf_read count2 ENDPOINT_ID_LENGTH buf;
           Some (of_le32 g, of_le16 e, count2 + ENDPOINT_ID_LENGTH)
         } else Some (of_le32 g, ep, count2)
       } else Some (gw, ep, count1)
     }"

definition set_msgType :: "u8 \<Rightarrow> RMRouteOption \<Rightarrow> RMRouteOption" where
  "set_msgType mType v =
     (if mType = ACK_MESSAGE_TYPE then v\<lparr>msgType := ACK\<rparr>
      else if mType = RST_MESSAGE_TYPE then v\<lparr>msgType := RST\<rparr>
      else if mType = NORMAL_MESSAGE_TYPE then v\<lparr>msgType := NOR\<rparr> else v)"

definition RMParseRouteOption ::
  "CAHeaderOption option \<Rightarrow> RMRouteOption option \<Rightarrow> (OCStackResult \<times> RMRouteOption option) option" where
  "RMParseRouteOption options optValue =
     (case (options, optValue) of
        (Some h, Some v) \<Rightarrow>
          if ho_optionLength h = 0 then Some (OC_STACK_ERROR, optValue)
          else do {
            tb \<leftarrow> buf_read 0 1 (ho_optionData h);
            let mType = tb ! 0;
            let v1 = set_msgType mType v;
            if unat (ho_optionLength h) = DEFAULT_ROUTE_OPTION_LEN then Some (OC_STACK_OK, Some v1)
            else do {
              (dg, de, c1) \<leftarrow> read_addr (ho_optionData h) DEFAULT_ROUTE_OPTION_LEN (destGw v1) (destEp v1);
              (sg, se, c2) \<leftarrow> read_addr (ho_optionData h) c1 (srcGw v1) (srcEp v1);
              q \<leftarrow> buf_read c2 2 (ho_optionData h);
              Some (OC_STACK_OK, Some (v1\<lparr>destGw := dg, destEp := de, srcGw := sg, srcEp := se, mSeqNum := of_le16 q\<rparr>))
            }
          }
      | _ \<Rightarrow> Some (OC_STACK_INVALID_PARAM, optValue))"

text \<open>The shift of the options behind the removed one, one element at a time.\<close>

function shift_loop :: "CAHeaderOption list \<Rightarrow> nat \<Rightarrow> nat \<Rightarrow> CAHeaderOption list option" where
  "shift_loop opts n i =
     (if i < n - 1 then
        (if Suc i < length opts then shift_loop (opts[i := opts ! Suc i]) n (Suc i) else None)
      else Some opts)"
  by pat_completeness auto
termination by (relation "measure (\<lambda>(opts, n, i). n - i)") auto

declare shift_loop.simps [simp del]

text \<open>The source address of the route option, copied to the route data of the endpoint.\<close>

definition copy_source :: "CAHeaderOption \<Rightarrow> CAEndpoint \<Rightarrow> CAEndpoint option" where
  "copy_source h ep =
     (if DEFAULT_ROUTE_OPTION_LEN < unat (ho_optionLength h) then do {
        dl \<leftarrow> buf_read DEFAULT_ROUTE_OPTION_LEN 1 (ho_optionData h);
        let count = 1 + DEFAULT_ROUTE_OPTION_LEN + unat (dl ! 0);
        sl \<leftarrow> buf_read count 1 (ho_optionData h);
        let sLen = sl ! 0;
        let count1 = count + 1;
        if 0 < sLen then do {
          g \<leftarrow> buf_read count1 GATEWAY_ID_LENGTH (ho_optionData h);
          r1 \<leftarrow> buf_write 0 g (ep_routeData ep);
          if GATEWAY_ID_LENGTH < unat sLen then do {
            e \<leftarrow> buf_read (count1 + GATEWAY_ID_LENGTH) ENDPOINT_ID_LENGTH (ho_optionData h);
            r2 \<leftarrow> buf_write GATEWAY_ID_LENGTH e r1;
            Some (ep\<lparr>ep_routeData := r2\<rparr>)
          } else Some (ep\<lparr>ep_routeData := r1\<rparr>)
        } else Some ep
      } else Some ep)"

text \<open>The addresses of \<open>*options\<close> and \<open>*numOptions\<close> are never NULL: the callers pass members of a message.\<close>

definition RMUpdateInfo ::
  "option_array \<Rightarrow> u8 \<Rightarrow> CAEndpoint option \<Rightarrow> (OCStackResult \<times> option_array \<times> u8 \<times> CAEndpoint option) option" where
  "RMUpdateInfo options numOptions endpoint =
     (case (options, endpoint) of
        (OptNull, _) \<Rightarrow> Some (OC_STACK_INVALID_PARAM, options, numOptions, endpoint)
      | (_, None) \<Rightarrow> Some (OC_STACK_INVALID_PARAM, options, numOptions, endpoint)
      | (_, Some ep) \<Rightarrow>
          if numOptions = 0 then Some (OC_STACK_ERROR, options, numOptions, endpoint)
          else do {
            routeIndex \<leftarrow> RMGetRouteOptionIndex options numOptions (-1);
            if routeIndex \<le> -1 then Some (OC_STACK_OK, options, numOptions, endpoint)
            else (case options of
              OptBlock opts \<Rightarrow> do {
                ep1 \<leftarrow> copy_source (opts ! nat routeIndex) ep;
                opts1 \<leftarrow> shift_loop opts (unat numOptions) (nat routeIndex);
                let n1 = numOptions - 1;
                Some (OC_STACK_OK, if n1 = 0 then OptNull else OptBlock opts1, n1, Some ep1)
              }
            | _ \<Rightarrow> None)
          })"

text \<open>
  \<open>RMAddInfo\<close> in its steps: the choice of the array (with the route option, or a copy with one more
  option), the treatment of empty acknowledgements and resets, and the final option.
\<close>

definition zero_option :: CAHeaderOption where
  "zero_option = \<lparr>ho_protocolID = 0, ho_optionID = 0, ho_optionLength = 0,
     ho_optionData = replicate CA_MAX_HEADER_OPTION_DATA_LENGTH 0\<rparr>"

definition no_route :: RMRouteOption where
  "no_route = \<lparr>srcGw = 0, destGw = 0, mSeqNum = 0, srcEp = 0, destEp = 0, msgType = 0\<rparr>"

definition copy_options :: "option_array \<Rightarrow> nat \<Rightarrow> CAHeaderOption list option" where
  "copy_options options n =
     (if n = 0 then Some []
      else case options of OptBlock opts \<Rightarrow> if n \<le> length opts then Some (take n opts) else None | _ \<Rightarrow> None)"

definition empty_response :: "OCMode \<Rightarrow> CAMessage \<Rightarrow> RMRouteOption \<Rightarrow> bool option \<Rightarrow> CAMessage \<times> RMRouteOption \<times> bool option" where
  "empty_response mode msg r doPost =
     (if ci_result msg = CA_EMPTY \<and> ci_type msg = CA_MSG_ACKNOWLEDGE then
        (if mode = OC_SERVER
         then (msg\<lparr>ci_type := CA_MSG_NONCONFIRM, ci_result := CA_CONTENT\<rparr>, r\<lparr>msgType := ACK\<rparr>, doPost)
         else (msg, r\<lparr>msgType := ACK\<rparr>, map_option (\<lambda>_. True) doPost))
      else if ci_result msg = CA_EMPTY \<and> ci_type msg = CA_MSG_RESET then
        (msg\<lparr>ci_type := CA_MSG_NONCONFIRM, ci_result := CA_CONTENT\<rparr>, r\<lparr>msgType := RST\<rparr>, doPost)
      else (msg, r, doPost))"

definition set_addresses :: "RMState \<Rightarrow> u8 list option \<Rightarrow> RMRouteOption \<Rightarrow> (RMRouteOption \<times> RMState) option" where
  "set_addresses st destination r =
     do {
       r1 \<leftarrow> (case destination of
                None \<Rightarrow> Some r
              | Some d \<Rightarrow> do {
                  g \<leftarrow> buf_read 0 GATEWAY_ID_LENGTH d;
                  e \<leftarrow> buf_read GATEWAY_ID_LENGTH ENDPOINT_ID_LENGTH d;
                  Some (r\<lparr>destGw := of_le32 g, destEp := of_le16 e\<rparr>) });
       let gatewayId = RMGetGatewayId st;
       let r2 = (if gatewayId \<noteq> 0 then r1\<lparr>srcGw := gatewayId\<rparr> else r1);
       Some (if destGw r2 = 0 then (let (q, st1) = RMGetMcastSeqNumber st in (r2\<lparr>mSeqNum := q\<rparr>, st1)) else (r2, st))
     }"

definition RMAddInfo ::
  "RMState \<Rightarrow> u8 list option \<Rightarrow> CAMessage option \<Rightarrow> bool \<Rightarrow> bool option
     \<Rightarrow> (OCStackResult \<times> CAMessage option \<times> bool option \<times> RMState) option" where
  "RMAddInfo st destination message isRequest doPost =
     (case message of
        None \<Rightarrow> Some (OC_STACK_INVALID_PARAM, None, doPost, st)
      | Some msg \<Rightarrow> do {
          skip \<leftarrow> (if isRequest then Some False
                   else (case destination of
                           Some (b # _) \<Rightarrow> Some (b = 0 \<and> ci_result msg = CA_EMPTY)
                         | _ \<Rightarrow> None));
          if skip then Some (OC_STACK_OK, message, doPost, st)
          else do {
            found \<leftarrow> RMGetRouteOptionIndex (ci_options msg) (ci_numOptions msg) (-1);
            let n = unat (ci_numOptions msg);
            let index = (if -1 < found then found else to_int8 (ci_numOptions msg));
            let (ok, m1) = (if -1 < found then (True, rm_mem st)
                            else OICCalloc (rm_mem st) (n + 1) sizeof_CAHeaderOption);
            let st1 = st\<lparr>rm_mem := m1\<rparr>;
            if \<not> ok then Some (OC_STACK_NO_MEMORY, message, doPost, st1)
            else do {
              optionPtr \<leftarrow> (if -1 < found then (case ci_options msg of OptBlock opts \<Rightarrow> Some opts | _ \<Rightarrow> None)
                            else map_option (\<lambda>os. os @ [zero_option]) (copy_options (ci_options msg) n));
              if index < 0 \<or> int (length optionPtr) \<le> index then None
              else do {
                (res, parsed) \<leftarrow> (if int n \<noteq> index
                                  then RMParseRouteOption (Some (optionPtr ! nat index)) (Some no_route)
                                  else Some (OC_STACK_OK, Some no_route));
                if res \<noteq> OC_STACK_OK then Some (OC_STACK_ERROR, message, doPost, st1)
                else do {
                  r0 \<leftarrow> parsed;
                  let (msg1, r1, doPost1) = (if isRequest then (msg, r0, doPost)
                                             else empty_response (g_rmStackMode st) msg r0 doPost);
                  (r2, st2) \<leftarrow> set_addresses st1 destination r1;
                  (res2, opt, m2) \<leftarrow> RMCreateRouteOption (rm_mem st2) (Some r2) (Some (optionPtr ! nat index));
                  let st3 = st2\<lparr>rm_mem := m2\<rparr>;
                  if res2 \<noteq> OC_STACK_OK
                  then Some (res2, Some (if -1 < found then msg1\<lparr>ci_options := OptFreed\<rparr> else msg1), doPost1, st3)
                  else do {
                    h \<leftarrow> opt;
                    Some (OC_STACK_OK,
                      Some (msg1\<lparr>ci_options := OptBlock (optionPtr[nat index := h]),
                                 ci_numOptions := (if int n = index then ci_numOptions msg + 1 else ci_numOptions msg)\<rparr>),
                      doPost1, st3)
                  }
                }
              }
            }
          }
        })"

section \<open>Reading and writing buffers\<close>

lemma length_le [simp]: "length (le16 w) = 2" "length (le32 g) = 4"
  by (simp_all add: le16_def le32_def)

lemma of_le16_le16 [simp]: "of_le16 (le16 w) = w"
  unfolding le16_def of_le16.simps
  by (rule bit_word_eqI) (auto simp: bit_or_iff bit_push_bit_iff bit_unsigned_iff bit_drop_bit_eq)

lemma of_le32_le32 [simp]: "of_le32 (le32 w) = w"
proof (rule bit_word_eqI)
  fix n assume n: "n < LENGTH(32)"
  then consider "n < 8" | "8 \<le> n \<and> n < 16" | "16 \<le> n \<and> n < 24" | "24 \<le> n \<and> n < 32" by fastforce
  then show "bit (of_le32 (le32 w)) n \<longleftrightarrow> bit w n"
    by cases (auto simp: le32_def bit_or_iff bit_push_bit_iff bit_unsigned_iff bit_drop_bit_eq)
qed

lemma buf_write_zeros:
  "length bs \<le> k \<Longrightarrow>
   buf_write (length pre) bs (pre @ replicate k 0) = Some (pre @ bs @ replicate (k - length bs) 0)"
  by (simp add: buf_write_def)

lemma buf_write_front: "length bs = n \<Longrightarrow> n \<le> length buf \<Longrightarrow> buf_write 0 bs buf = Some (bs @ drop n buf)"
  by (auto simp: buf_write_def)

lemma buf_read_at: "buf_read (length pre) (length bs) (pre @ bs @ rest) = Some bs"
  by (simp add: buf_read_def)

lemma buf_read_bound: "off + n \<le> length buf \<Longrightarrow> \<exists>bs. buf_read off n buf = Some bs \<and> length bs = n"
  by (simp add: buf_read_def)

section \<open>The layout of the option\<close>

definition addr_bytes :: "u32 \<Rightarrow> u16 \<Rightarrow> u8 list" where
  "addr_bytes gw ep = (if gw \<noteq> 0 then le32 gw else []) @ (if ep \<noteq> 0 then le16 ep else [])"

definition route_bytes :: "RMRouteOption \<Rightarrow> u8 list" where
  "route_bytes v =
     (let d = addr_bytes (destGw v) (destEp v); s = addr_bytes (srcGw v) (srcEp v) in
      type_byte (msgType v) #
        (if d = [] \<and> s = [] then []
         else of_nat (length d) # d @ of_nat (length s) # s @ le16 (mSeqNum v)))"

text \<open>An endpoint id comes with the id of its gateway.\<close>

definition route_ok :: "RMRouteOption \<Rightarrow> bool" where
  "route_ok v \<longleftrightarrow> (destGw v = 0 \<longrightarrow> destEp v = 0) \<and> (srcGw v = 0 \<longrightarrow> srcEp v = 0)
     \<and> msgType v \<in> {NOR, ACK, RST}"

lemma addr_len_eq: "addr_len gw ep = of_nat (length (addr_bytes gw ep))"
  by (simp add: addr_len_def addr_bytes_def GATEWAY_ID_LENGTH_def ENDPOINT_ID_LENGTH_def)

lemma addr_bytes_le: "length (addr_bytes gw ep) \<le> 6"
  by (simp add: addr_bytes_def)

lemma unat_addr_len: "unat (of_nat (length (addr_bytes gw ep)) :: u8) = length (addr_bytes gw ep)"
  using addr_bytes_le [of gw ep] by (simp add: unat_of_nat)

lemma addr_len_0: "(of_nat (length (addr_bytes gw ep)) :: u8) = 0 \<longleftrightarrow> addr_bytes gw ep = []"
  by (simp only: unat_eq_0 [symmetric] unat_addr_len length_0_conv)

lemma write_addr_eq:
  assumes "Suc (length (addr_bytes gw ep)) \<le> k"
  shows "write_addr (addr_len gw ep) gw ep (length pre) (pre @ replicate k 0) =
     Some (pre @ addr_len gw ep # addr_bytes gw ep @ replicate (k - Suc (length (addr_bytes gw ep))) 0,
           length pre + Suc (length (addr_bytes gw ep)))"
proof -
  let ?l = "addr_len gw ep"
  have k: "0 < k" using assms by simp
  have w1: "buf_write (length pre) [?l] (pre @ replicate k 0) = Some ((pre @ [?l]) @ replicate (k - 1) 0)"
    using buf_write_zeros [of "[?l]" k pre] k by simp
  have wg: "gw \<noteq> 0 \<Longrightarrow> buf_write (Suc (length pre)) (le32 gw) ((pre @ [?l]) @ replicate (k - 1) 0)
      = Some ((pre @ ?l # le32 gw) @ replicate (k - 5) 0)"
    using buf_write_zeros [of "le32 gw" "k - 1" "pre @ [?l]"] assms by (simp add: addr_bytes_def)
  have we: "gw = 0 \<Longrightarrow> ep \<noteq> 0 \<Longrightarrow> buf_write (Suc (length pre)) (le16 ep) ((pre @ [?l]) @ replicate (k - 1) 0)
      = Some (pre @ ?l # le16 ep @ replicate (k - 3) 0)"
    using buf_write_zeros [of "le16 ep" "k - 1" "pre @ [?l]"] assms by (simp add: addr_bytes_def)
  have wge: "gw \<noteq> 0 \<Longrightarrow> ep \<noteq> 0 \<Longrightarrow> buf_write (Suc (length pre) + 4) (le16 ep) ((pre @ ?l # le32 gw) @ replicate (k - 5) 0)
      = Some (pre @ ?l # le32 gw @ le16 ep @ replicate (k - 7) 0)"
    using buf_write_zeros [of "le16 ep" "k - 5" "pre @ ?l # le32 gw"] assms by (simp add: addr_bytes_def add.commute)
  have z: "0 < ?l \<longleftrightarrow> gw \<noteq> 0 \<or> ep \<noteq> 0"
    by (simp add: addr_len_def word_gt_0 GATEWAY_ID_LENGTH_def ENDPOINT_ID_LENGTH_def)
  show ?thesis
    using w1 z wg we wge
    by (cases "gw = 0"; cases "ep = 0")
      (simp_all add: write_addr_def addr_bytes_def GATEWAY_ID_LENGTH_def ENDPOINT_ID_LENGTH_def Let_def)
qed

lemma read_addr_eq:
  assumes "gw = 0 \<longrightarrow> ep = 0"
  shows "read_addr (pre @ addr_len gw ep # addr_bytes gw ep @ rest) (length pre) 0 0
     = Some (gw, ep, length pre + Suc (length (addr_bytes gw ep)))"
proof -
  let ?l = "addr_len gw ep" and ?buf = "pre @ addr_len gw ep # addr_bytes gw ep @ rest"
  have r1: "buf_read (length pre) 1 ?buf = Some [?l]" using buf_read_at [of pre "[?l]"] by simp
  have rg: "gw \<noteq> 0 \<Longrightarrow> buf_read (Suc (length pre)) 4 ?buf = Some (le32 gw)"
    using buf_read_at [of "pre @ [?l]" "le32 gw"] by (simp add: addr_bytes_def)
  have re: "gw \<noteq> 0 \<Longrightarrow> ep \<noteq> 0 \<Longrightarrow> buf_read (Suc (length pre) + 4) 2 ?buf = Some (le16 ep)"
    using buf_read_at [of "pre @ ?l # le32 gw" "le16 ep"] by (simp add: addr_bytes_def add.commute)
  show ?thesis
    using assms r1 rg re
    by (cases "gw = 0"; cases "ep = 0")
      (simp_all add: read_addr_def addr_len_def addr_bytes_def GATEWAY_ID_LENGTH_def ENDPOINT_ID_LENGTH_def Let_def)
qed

lemma length_route_bytes: "length (route_bytes v) \<le> 17" "route_bytes v \<noteq> []"
  using addr_bytes_le [of "destGw v" "destEp v"] addr_bytes_le [of "srcGw v" "srcEp v"]
  by (simp_all add: route_bytes_def Let_def)

definition put_route :: "RMRouteOption \<Rightarrow> CAHeaderOption \<Rightarrow> CAHeaderOption" where
  "put_route v h = h\<lparr>ho_optionData := route_bytes v @ drop (length (route_bytes v)) (ho_optionData h),
     ho_optionID := RM_OPTION_MESSAGE_SWITCHING, ho_optionLength := of_nat (length (route_bytes v))\<rparr>"

lemma create_eq:
  assumes len: "17 \<le> length (ho_optionData h)" and al: "OICCalloc m (length (route_bytes v)) 1 = (ok, m1)"
  shows "RMCreateRouteOption m (Some v) (Some h) =
     Some (if ok then (OC_STACK_OK, Some (put_route v h), m1) else (OC_STACK_NO_MEMORY, Some h, m1))"
proof -
  let ?d = "addr_bytes (destGw v) (destEp v)" and ?s = "addr_bytes (srcGw v) (srcEp v)"
  let ?t = "type_byte (msgType v)" and ?n = "length (route_bytes v)"
  let ?none = "?d = [] \<and> ?s = []"
  have z: "addr_len (destGw v) (destEp v) = 0 \<longleftrightarrow> ?d = []" "addr_len (srcGw v) (srcEp v) = 0 \<longleftrightarrow> ?s = []"
    by (simp_all add: addr_len_eq addr_len_0)
  have n: "?n = (if ?none then 1 else 5 + length ?d + length ?s)" by (simp add: route_bytes_def Let_def)
  then have n5: "\<not> ?none \<Longrightarrow> ?n = 5 + length ?d + length ?s" by (simp only: if_False)
  have tot: "(if ?none then DEFAULT_ROUTE_OPTION_LEN else MIN_ROUTE_OPTION_LEN
        + unat (addr_len (destGw v) (destEp v)) + unat (addr_len (srcGw v) (srcEp v))) = ?n"
    by (simp add: n route_consts addr_len_eq unat_addr_len)
  have t1: "buf_write 0 (replicate DEFAULT_ROUTE_OPTION_LEN ?t) (replicate ?n 0) = Some ([?t] @ replicate (?n - 1) 0)"
    using buf_write_zeros [of "[?t]" ?n "[]"] n by (simp add: route_consts)
  let ?p = "?t # addr_len (destGw v) (destEp v) # ?d"
  have w1: "write_addr (addr_len (destGw v) (destEp v)) (destGw v) (destEp v) DEFAULT_ROUTE_OPTION_LEN ([?t] @ replicate (?n - 1) 0)
      = Some (?p @ replicate (3 + length ?s) 0, length ?p)" if "\<not> ?none"
    using write_addr_eq [of "destGw v" "destEp v" "?n - 1" "[?t]"] n5 [OF that] by (simp add: DEFAULT_ROUTE_OPTION_LEN_def)
  have w2: "write_addr (addr_len (srcGw v) (srcEp v)) (srcGw v) (srcEp v) (length ?p) (?p @ replicate (3 + length ?s) 0)
      = Some ((?p @ addr_len (srcGw v) (srcEp v) # ?s) @ replicate 2 0, length (?p @ addr_len (srcGw v) (srcEp v) # ?s))"
    using write_addr_eq [of "srcGw v" "srcEp v" "3 + length ?s" ?p] by simp
  have w3: "buf_write (length (?p @ addr_len (srcGw v) (srcEp v) # ?s)) (le16 (mSeqNum v))
        ((?p @ addr_len (srcGw v) (srcEp v) # ?s) @ replicate 2 0) = Some (route_bytes v)" if "\<not> ?none"
    using buf_write_zeros [of "le16 (mSeqNum v)" 2 "?p @ addr_len (srcGw v) (srcEp v) # ?s"] that
    by (simp add: route_bytes_def addr_len_eq Let_def)
  have t: "(if ?none then Some ([?t] @ replicate (?n - 1) 0)
        else write_addr (addr_len (destGw v) (destEp v)) (destGw v) (destEp v) DEFAULT_ROUTE_OPTION_LEN ([?t] @ replicate (?n - 1) 0) \<bind>
          (\<lambda>(t2, c2). write_addr (addr_len (srcGw v) (srcEp v)) (srcGw v) (srcEp v) c2 t2 \<bind>
            (\<lambda>(t3, c3). buf_write c3 (le16 (mSeqNum v)) t3))) = Some (route_bytes v)"
  proof (cases ?none)
    case True
    then show ?thesis by (simp add: n) (simp add: route_bytes_def)
  next
    case False
    then show ?thesis by (simp only: w1 w2 w3 if_False bind.bind_lunit prod.case simp_thms)
  qed
  have rd: "buf_read 0 ?n (route_bytes v) = Some (route_bytes v)" by (simp add: buf_read_def)
  have wr: "buf_write 0 (route_bytes v) (ho_optionData h) = Some (ho_optionData (put_route v h))"
    using len length_route_bytes(1) [of v] by (simp add: buf_write_def put_route_def)
  show ?thesis
    unfolding RMCreateRouteOption_def option.case prod.case Let_def z tot al t1 bind.bind_lunit t rd wr
    by (simp add: put_route_def)
qed

lemma parse_eq:
  assumes ok: "route_ok v" and data: "ho_optionData h = route_bytes v @ rest"
    and len: "ho_optionLength h = of_nat (length (route_bytes v))"
  shows "RMParseRouteOption (Some h) (Some no_route) =
     Some (OC_STACK_OK, Some (v\<lparr>mSeqNum := (if length (route_bytes v) = 1 then 0 else mSeqNum v)\<rparr>))"
proof -
  let ?d = "addr_bytes (destGw v) (destEp v)" and ?s = "addr_bytes (srcGw v) (srcEp v)"
  let ?t = "type_byte (msgType v)" and ?none = "addr_bytes (destGw v) (destEp v) = [] \<and> addr_bytes (srcGw v) (srcEp v) = []"
  have ul: "unat (ho_optionLength h) = length (route_bytes v)"
    using length_route_bytes(1) [of v] by (simp add: len unat_of_nat)
  have l0: "ho_optionLength h \<noteq> 0" using ul length_route_bytes(2) [of v] by auto
  have n: "length (route_bytes v) = 1 \<longleftrightarrow> ?none" by (simp add: route_bytes_def Let_def)
  have rt: "buf_read 0 1 (ho_optionData h) = Some [?t]"
    using buf_read_at [of "[]" "[?t]"] by (simp add: data route_bytes_def Let_def)
  have ty: "set_msgType ?t no_route = no_route\<lparr>msgType := msgType v\<rparr>"
    using ok by (auto simp: route_ok_def set_msgType_def type_byte_def ACK_MESSAGE_TYPE_def RST_MESSAGE_TYPE_def
        NORMAL_MESSAGE_TYPE_def NOR_def ACK_def RST_def)
  show ?thesis
  proof (cases ?none)
    case True
    then have "v\<lparr>mSeqNum := 0\<rparr> = no_route\<lparr>msgType := msgType v\<rparr>"
      by (simp add: no_route_def addr_bytes_def le32_def le16_def split: if_splits)
    with True show ?thesis using l0 rt ty n ul
      by (simp add: RMParseRouteOption_def DEFAULT_ROUTE_OPTION_LEN_def)
  next
    case False
    let ?p = "?t # addr_len (destGw v) (destEp v) # ?d"
    let ?q = "?p @ addr_len (srcGw v) (srcEp v) # ?s"
    have b: "ho_optionData h = ?q @ le16 (mSeqNum v) @ rest"
      using False by (simp add: data route_bytes_def addr_len_eq Let_def)
    have r1: "read_addr (ho_optionData h) 1 0 0 = Some (destGw v, destEp v, length ?p)"
      using read_addr_eq [of "destGw v" "destEp v" "[?t]"] ok by (simp add: b route_ok_def)
    have r2: "read_addr (ho_optionData h) (length ?p) 0 0 = Some (srcGw v, srcEp v, length ?q)"
      using read_addr_eq [of "srcGw v" "srcEp v" ?p] ok by (simp add: b route_ok_def)
    have r3: "buf_read (length ?q) 2 (ho_optionData h) = Some (le16 (mSeqNum v))"
      using buf_read_at [of ?q "le16 (mSeqNum v)" rest] by (simp add: b)
    have "v = no_route\<lparr>msgType := msgType v, destGw := destGw v, destEp := destEp v, srcGw := srcGw v,
        srcEp := srcEp v, mSeqNum := mSeqNum v\<rparr>" by (simp add: no_route_def)
    moreover have "unat (ho_optionLength h) \<noteq> 1" using False n ul by simp
    moreover have "destGw no_route = 0" "destEp no_route = 0" "srcGw no_route = 0" "srcEp no_route = 0"
      by (simp_all add: no_route_def)
    ultimately show ?thesis using l0 rt ty n ul r1 r2 r3
      by (simp add: RMParseRouteOption_def DEFAULT_ROUTE_OPTION_LEN_def)
  qed
qed

section \<open>Messages\<close>

definition is_route :: "CAHeaderOption \<Rightarrow> bool" where
  "is_route h \<longleftrightarrow> ho_optionID h = RM_OPTION_MESSAGE_SWITCHING"

lemma route_index_loop_eq:
  assumes "n \<le> length opts" and "i \<le> n"
  shows "route_index_loop opts n i index =
     Some (case find_index is_route (drop i (take n opts)) of None \<Rightarrow> index | Some k \<Rightarrow> to_int8 (of_nat (i + k)))"
  using assms
proof (induction opts n i index rule: route_index_loop.induct)
  case (1 opts n i index)
  show ?case
  proof (cases "i < n")
    case True
    then have d: "drop i (take n opts) = opts ! i # drop (Suc i) (take n opts)"
      using 1(2) by (simp add: Cons_nth_drop_Suc [symmetric])
    show ?thesis
    proof (cases "is_route (opts ! i)")
      case r: True
      then show ?thesis using True 1(2) d by (subst route_index_loop.simps) (simp add: is_route_def)
    next
      case False
      then have "route_index_loop opts n i index = route_index_loop opts n (Suc i) index"
        using True 1(2) by (subst route_index_loop.simps) (simp add: is_route_def)
      then show ?thesis using 1 True False d by (simp add: is_route_def add_ac split: option.splits)
    qed
  next
    case False
    then show ?thesis using 1(3) by (subst route_index_loop.simps) simp
  qed
qed

lemma to_int8_small: "k < 128 \<Longrightarrow> to_int8 (of_nat k) = int k"
proof -
  assume k: "k < 128"
  have "sint (of_nat k :: u8) = signed_take_bit 7 (int k)" by (simp add: signed_of_nat)
  then show ?thesis using k by (simp add: to_int8_def signed_take_bit_int_eq_self)
qed

lemma remove_nth_shift: "Suc i < length ys \<Longrightarrow> remove_nth (Suc i) (ys[i := ys ! Suc i]) = remove_nth i ys"
proof (induction ys arbitrary: i)
  case Nil
  then show ?case by simp
next
  case (Cons y ys)
  show ?case
  proof (cases i)
    case 0
    then show ?thesis using Cons.prems by (cases ys) simp_all
  next
    case (Suc k)
    then show ?thesis using Cons.prems Cons.IH [of k] by simp
  qed
qed

lemma shift_loop_eq:
  assumes "n \<le> length opts" and "i < n"
  shows "\<exists>opts'. shift_loop opts n i = Some opts' \<and> length opts' = length opts
     \<and> take (n - 1) opts' = remove_nth i (take n opts)"
  using assms
proof (induction opts n i rule: shift_loop.induct)
  case (1 opts n i)
  show ?case
  proof (cases "i < n - 1")
    case True
    let ?o = "opts[i := opts ! Suc i]"
    have l: "Suc i < length opts" and m: "Suc i < n" using True 1(2) by simp_all
    obtain opts' where o: "shift_loop ?o n (Suc i) = Some opts'" "length opts' = length opts"
      "take (n - 1) opts' = remove_nth (Suc i) (take n ?o)"
      using 1(1) [OF True l] 1(2) m by auto
    have "remove_nth (Suc i) (take n ?o) = remove_nth i (take n opts)"
      using remove_nth_shift [of i "take n opts"] m 1(2) by (simp add: take_update_swap)
    with o True l show ?thesis by (subst shift_loop.simps) simp
  next
    case False
    then have "i = n - 1" using 1(3) by simp
    then show ?thesis using False 1(2,3) by (subst shift_loop.simps) (simp add: remove_nth_def)
  qed
qed

text \<open>Whatever the length bytes of an option are, the reads stay inside its array.\<close>

definition option_wf :: "CAHeaderOption \<Rightarrow> bool" where
  "option_wf h \<longleftrightarrow> length (ho_optionData h) = CA_MAX_HEADER_OPTION_DATA_LENGTH"

lemma buf_read_lt: "off + n \<le> length buf \<Longrightarrow> buf_read off n buf = Some (take n (drop off buf))"
  by (simp add: buf_read_def)

lemma read_addr_bound:
  assumes "count + 7 \<le> length buf"
  shows "\<exists>g e c. read_addr buf count gw ep = Some (g, e, c) \<and> c \<le> count + 7"
  using assms
  by (auto simp: read_addr_def buf_read_lt GATEWAY_ID_LENGTH_def ENDPOINT_ID_LENGTH_def Let_def)

lemma parse_defined:
  assumes "option_wf h"
  shows "\<exists>res v'. RMParseRouteOption (Some h) (Some v) = Some (res, Some v')
     \<and> (res = OC_STACK_OK \<longleftrightarrow> ho_optionLength h \<noteq> 0)"
proof -
  let ?b = "ho_optionData h" and ?v = "set_msgType (ho_optionData h ! 0) v"
  have l: "length ?b = 1024" using assms by (simp add: option_wf_def CA_MAX_HEADER_OPTION_DATA_LENGTH_def)
  then have r0: "buf_read 0 1 ?b = Some [?b ! 0]" by (cases ?b) (simp_all add: buf_read_def)
  obtain g e c where r1: "read_addr ?b 1 (destGw ?v) (destEp ?v) = Some (g, e, c)" "c \<le> 8"
    using read_addr_bound [of 1 ?b] l by fastforce
  obtain g' e' c' where r2: "read_addr ?b c (srcGw ?v) (srcEp ?v) = Some (g', e', c')" "c' \<le> 15"
    using read_addr_bound [of c ?b "srcGw ?v" "srcEp ?v"] l r1(2) by fastforce
  have r3: "buf_read c' 2 ?b = Some (take 2 (drop c' ?b))" using r2(2) l by (simp add: buf_read_def)
  show ?thesis
    using r0 r1(1) r2(1) r3
    by (simp add: RMParseRouteOption_def DEFAULT_ROUTE_OPTION_LEN_def Let_def)
qed

lemma copy_source_defined:
  assumes "option_wf h" and "6 \<le> length (ep_routeData ep)"
  shows "\<exists>r. copy_source h ep = Some (ep\<lparr>ep_routeData := r\<rparr>)"
proof -
  let ?b = "ho_optionData h"
  have l: "length ?b = 1024" using assms by (simp add: option_wf_def CA_MAX_HEADER_OPTION_DATA_LENGTH_def)
  have u: "unat w < 256" for w :: u8 using unsigned_less [of w] by simp
  let ?c = "2 + unat (?b ! 1)"
  have c: "?c + 7 \<le> length ?b" using l u [of "?b ! 1"] by simp
  have r1: "buf_read 1 1 ?b = Some [?b ! 1]"
    using l by (simp add: buf_read_def take_Suc_conv_app_nth nth_append)
  have r2: "buf_read k n ?b = Some (take n (drop k ?b))" if "k + n \<le> ?c + 7" for k n
    using c that by (simp add: buf_read_def)
  have w: "buf_write 0 (take 4 (drop k ?b)) (ep_routeData ep) = Some (take 4 (drop k ?b) @ drop 4 (ep_routeData ep))"
    if "k + 4 \<le> length ?b" for k
    using buf_write_front [of "take 4 (drop k ?b)" 4] assms(2) that by simp
  have self: "\<exists>r. ep = ep\<lparr>ep_routeData := r\<rparr>" by (rule exI [of _ "ep_routeData ep"]) simp
  show ?thesis
    using c assms(2) self
    by (auto simp: copy_source_def r1 r2 w buf_write_def DEFAULT_ROUTE_OPTION_LEN_def GATEWAY_ID_LENGTH_def
        ENDPOINT_ID_LENGTH_def Let_def)
qed

lemma update_info_eq:
  assumes n: "n = unat numOptions" "0 < n" "n \<le> 128" "n \<le> length opts"
    and wf: "\<forall>h\<in>set opts. option_wf h" and ep: "6 \<le> length (ep_routeData ep)"
  shows "case find_index is_route (take n opts) of
      None \<Rightarrow> RMUpdateInfo (OptBlock opts) numOptions (Some ep)
        = Some (OC_STACK_OK, OptBlock opts, numOptions, Some ep)
    | Some i \<Rightarrow> \<exists>opts' ep'. copy_source (opts ! i) ep = Some ep' \<and> take (n - 1) opts' = remove_nth i (take n opts)
        \<and> RMUpdateInfo (OptBlock opts) numOptions (Some ep)
          = Some (OC_STACK_OK, if n = 1 then OptNull else OptBlock opts', numOptions - 1, Some ep')"
proof -
  have idx: "RMGetRouteOptionIndex (OptBlock opts) numOptions (-1) =
      Some (case find_index is_route (take n opts) of None \<Rightarrow> -1 | Some k \<Rightarrow> to_int8 (of_nat k))"
    using route_index_loop_eq [of n opts 0] n by (simp add: RMGetRouteOptionIndex_def split: option.splits)
  have nz: "numOptions \<noteq> 0" using n(1,2) by auto
  show ?thesis
  proof (cases "find_index is_route (take n opts)")
    case None
    then show ?thesis using nz idx by (simp add: RMUpdateInfo_def)
  next
    case (Some i)
    then have i: "i < n" using find_index_SomeD [OF Some] by simp
    then have ti: "to_int8 (of_nat i) = int i" using n(3) by (intro to_int8_small) simp
    obtain opts' where o: "shift_loop opts n i = Some opts'" "take (n - 1) opts' = remove_nth i (take n opts)"
      using shift_loop_eq [OF n(4) i] by blast
    have "opts ! i \<in> set opts" using i n(4) by simp
    then obtain r where cs: "copy_source (opts ! i) ep = Some (ep\<lparr>ep_routeData := r\<rparr>)"
      using copy_source_defined [OF _ ep] wf by blast
    have one: "numOptions - 1 = 0 \<longleftrightarrow> n = 1" 
      using word_unat_eq_iff [of numOptions 1] n(1) by simp
    have "RMUpdateInfo (OptBlock opts) numOptions (Some ep)
        = Some (OC_STACK_OK, if n = 1 then OptNull else OptBlock opts', numOptions - 1, Some (ep\<lparr>ep_routeData := r\<rparr>))"
      using nz idx Some ti o(1) cs n(1) one by (simp add: RMUpdateInfo_def Let_def)
    with o(2) cs Some show ?thesis by auto
  qed
qed

lemma is_route_put [simp]: "is_route (put_route v h)"
  by (simp add: is_route_def put_route_def)

lemma option_wf_put: "option_wf h \<Longrightarrow> option_wf (put_route v h)"
  using length_route_bytes(1) [of v] by (simp add: option_wf_def put_route_def CA_MAX_HEADER_OPTION_DATA_LENGTH_def)

lemma option_wf_zero: "option_wf zero_option"
  by (simp add: option_wf_def zero_option_def)

lemma find_index_snoc: "find_index P xs = None \<Longrightarrow> P y \<Longrightarrow> find_index P (xs @ [y]) = Some (length xs)"
  by (induction xs) (auto split: if_splits)

text \<open>The source of a route option that a gateway made.\<close>

lemma copy_source_put:
  assumes "srcGw v \<noteq> 0" and "srcEp v = 0" and "option_wf h" and "6 \<le> length (ep_routeData ep)"
  shows "copy_source (put_route v h) ep
     = Some (ep\<lparr>ep_routeData := le32 (srcGw v) @ drop 4 (ep_routeData ep)\<rparr>)"
proof -
  let ?d = "addr_bytes (destGw v) (destEp v)" and ?t = "type_byte (msgType v)"
  let ?p = "?t # of_nat (length ?d) # ?d"
  let ?b = "ho_optionData (put_route v h)"
  have s: "addr_bytes (srcGw v) (srcEp v) = le32 (srcGw v)" using assms(1,2) by (simp add: addr_bytes_def)
  then have ne: "addr_bytes (srcGw v) (srcEp v) \<noteq> []" by (metis length_le(2) length_0_conv zero_neq_numeral)
  have b: "?b = ?p @ 4 # le32 (srcGw v) @ le16 (mSeqNum v) @ drop (length (route_bytes v)) (ho_optionData h)"
    using ne s by (simp add: put_route_def route_bytes_def Let_def)
  have len: "1 < unat (ho_optionLength (put_route v h))"
  proof -
    have "1 < length (route_bytes v)" using ne by (simp add: route_bytes_def Let_def)
    then show ?thesis using length_route_bytes(1) [of v] by (simp add: put_route_def unat_of_nat)
  qed
  have r1: "buf_read 1 1 ?b = Some [of_nat (length ?d)]"
    using buf_read_at [of "[?t]" "[of_nat (length ?d)]"] by (simp add: b)
  have r2: "buf_read (length ?p) 1 ?b = Some [4]" using buf_read_at [of ?p "[4]"] by (simp add: b)
  have r3: "buf_read (Suc (length ?p)) 4 ?b = Some (le32 (srcGw v))"
    using buf_read_at [of "?p @ [4]" "le32 (srcGw v)"] by (simp add: b)
  have w: "buf_write 0 (le32 (srcGw v)) (ep_routeData ep) = Some (le32 (srcGw v) @ drop 4 (ep_routeData ep))"
    using buf_write_front [of "le32 (srcGw v)" 4] assms(4) by simp
  show ?thesis
    using len r1 r2 r3 w
    by (simp add: copy_source_def DEFAULT_ROUTE_OPTION_LEN_def GATEWAY_ID_LENGTH_def unat_addr_len Let_def)
qed

text \<open>What \<open>RMAddInfo\<close> writes for a message to the destination \<open>d\<close>.\<close>

definition gateway_route :: "RMState \<Rightarrow> u8 list \<Rightarrow> RMRouteOption" where
  "gateway_route st d =
     (let gw = of_le32 (take 4 d) in
      no_route\<lparr>destGw := gw, destEp := of_le16 (take 2 (drop 4 d)), srcGw := g_GatewayID st,
               mSeqNum := (if gw = 0 then g_mcastsequenceNumber st + 1 else 0)\<rparr>)"

lemma gateway_route_mem [simp]: "gateway_route (st\<lparr>rm_mem := m\<rparr>) d = gateway_route st d"
  by (simp add: gateway_route_def Let_def)

lemma set_addresses_eq:
  assumes "g_isRMInitialized st" and "g_GatewayID st \<noteq> 0" and "6 \<le> length d"
  shows "\<exists>st'. set_addresses st (Some d) no_route = Some (gateway_route st d, st') \<and> rm_mem st' = rm_mem st"
  using assms
  by (simp add: set_addresses_def gateway_route_def buf_read_def RMGetGatewayId_def RMGetMcastSeqNumber_def
      GATEWAY_ID_LENGTH_def ENDPOINT_ID_LENGTH_def no_route_def Let_def)

lemma add_info_eq:
  assumes st: "g_isRMInitialized st" "g_GatewayID st \<noteq> 0" "rm_mem st = []"
    and n: "n = unat (ci_numOptions msg)" "n < 128" and os: "copy_options (ci_options msg) n = Some os"
    and fresh: "\<forall>h\<in>set os. \<not> is_route h" and d: "6 \<le> length d"
    and normal: "isRequest \<or> ci_result msg \<noteq> CA_EMPTY"
  shows "\<exists>st'. RMAddInfo st (Some d) (Some msg) isRequest doPost =
     Some (OC_STACK_OK, Some (msg\<lparr>ci_options := OptBlock (os @ [put_route (gateway_route st d) zero_option]),
       ci_numOptions := ci_numOptions msg + 1\<rparr>), doPost, st')"
proof -
  have idx: "RMGetRouteOptionIndex (ci_options msg) (ci_numOptions msg) (-1) = Some (-1)"
  proof (cases "n = 0")
    case True
    then have "ci_numOptions msg = 0" using n(1) by (simp add: unat_eq_0)
    then show ?thesis
      by (cases "ci_options msg") (simp_all add: RMGetRouteOptionIndex_def route_index_loop.simps)
  next
    case False
    then obtain opts where o: "ci_options msg = OptBlock opts" "n \<le> length opts" "os = take n opts"
      using os by (auto simp: copy_options_def split: option_array.splits if_splits)
    then have "find_index is_route (take n opts) = None" using fresh by (simp add: find_index_None)
    then show ?thesis using route_index_loop_eq [of n opts 0 "-1"] o n(1) by (simp add: RMGetRouteOptionIndex_def)
  qed
  have los: "length os = n"
    using os by (auto simp: copy_options_def split: option_array.splits if_splits)
  have i8: "to_int8 (ci_numOptions msg) = int n" using to_int8_small [of n] n by simp
  have al: "OICCalloc [] (n + 1) sizeof_CAHeaderOption = (True, [])"
    using n(2) by (simp add: OICCalloc_def sizeof_CAHeaderOption_def max_object_def)
  obtain st' where sa: "set_addresses (st\<lparr>rm_mem := []\<rparr>) (Some d) no_route = Some (gateway_route st d, st')" "rm_mem st' = []"
    using set_addresses_eq [of "st\<lparr>rm_mem := []\<rparr>" d] st d by auto
  let ?v = "gateway_route st d"
  have "OICCalloc [] (length (route_bytes ?v)) 1 = (True, [])"
    using length_route_bytes [of ?v] by (simp add: OICCalloc_def max_object_def)
  then have cr: "RMCreateRouteOption [] (Some ?v) (Some zero_option) = Some (OC_STACK_OK, Some (put_route ?v zero_option), [])"
    using create_eq [of zero_option "[]" ?v True "[]"]
    by (simp add: zero_option_def CA_MAX_HEADER_OPTION_DATA_LENGTH_def)
  have er: "empty_response (g_rmStackMode st) msg no_route doPost = (msg, no_route, doPost)" if "\<not> isRequest"
    using normal that by (simp add: empty_response_def)
  have skip: "(case d of [] \<Rightarrow> None | b # _ \<Rightarrow> Some (b = 0 \<and> ci_result msg = CA_EMPTY)) = Some False" if "\<not> isRequest"
    using normal d that by (cases d) auto
  have rest: "(os @ [zero_option]) ! n = zero_option" "(os @ [zero_option])[n := h] = os @ [h]" for h
    using los by (auto simp: nth_append list_update_append)
  show ?thesis
    using idx n los st(3) i8 al sa cr er os rest skip
    by (cases isRequest) (simp_all add: RMAddInfo_def Let_def)
qed

section \<open>Properties\<close>

text \<open>
  The route option is decoded to exactly what was encoded: for every route whose endpoint ids
  come with a gateway id, and every option array of full size, encoding succeeds (or reports that
  no memory is left), uses at most 17 bytes and decoding the result gives the route back; only the
  multicast sequence number is lost when there is no address at all.
\<close>

lemma route_option_roundtrip:
  assumes "route_ok v" and "option_wf h"
  shows "\<exists>res h' m'. RMCreateRouteOption m (Some v) (Some h) = Some (res, Some h', m')
     \<and> res \<in> {OC_STACK_OK, OC_STACK_NO_MEMORY} \<and> (m = [] \<longrightarrow> res = OC_STACK_OK)
     \<and> (res = OC_STACK_OK \<longrightarrow> unat (ho_optionLength h') \<le> 17
         \<and> RMParseRouteOption (Some h') (Some no_route)
           = Some (OC_STACK_OK, Some (v\<lparr>mSeqNum := (if destGw v = 0 \<and> srcGw v = 0 then 0 else mSeqNum v)\<rparr>)))"
proof -
  obtain ok m1 where al: "OICCalloc m (length (route_bytes v)) 1 = (ok, m1)" by fastforce
  have free: "ok" if "m = []"
    using al that length_route_bytes [of v] by (auto simp: OICCalloc_def max_object_def)
  have len: "17 \<le> length (ho_optionData h)" using assms(2) by (simp add: option_wf_def route_consts)
  have one: "length (route_bytes v) = 1 \<longleftrightarrow> destGw v = 0 \<and> srcGw v = 0"
    using assms(1) by (auto simp: route_ok_def route_bytes_def addr_bytes_def le32_def le16_def Let_def)
  have p: "RMParseRouteOption (Some (put_route v h)) (Some no_route)
      = Some (OC_STACK_OK, Some (v\<lparr>mSeqNum := (if destGw v = 0 \<and> srcGw v = 0 then 0 else mSeqNum v)\<rparr>))"
    unfolding one [symmetric] by (rule parse_eq [OF assms(1)]) (simp_all add: put_route_def)
  have "unat (ho_optionLength (put_route v h)) \<le> 17"
    using length_route_bytes(1) [of v] by (simp add: put_route_def unat_of_nat)
  with p free show ?thesis by (cases ok) (auto simp: create_eq [OF len al])
qed

definition example_route :: RMRouteOption where
  "example_route = \<lparr>srcGw = 258, destGw = 772, mSeqNum = 0, srcEp = 0, destEp = 9, msgType = ACK\<rparr>"

lemma route_option_roundtrip_example:
  "\<exists>h'. RMCreateRouteOption [] (Some example_route) (Some zero_option) = Some (OC_STACK_OK, Some h', [])
     \<and> RMParseRouteOption (Some h') (Some no_route) = Some (OC_STACK_OK, Some example_route)"
proof -
  have ok: "route_ok example_route" by (simp add: route_ok_def example_route_def)
  have al: "OICCalloc [] (length (route_bytes example_route)) 1 = (True, [])"
    using length_route_bytes [of example_route] by (simp add: OICCalloc_def max_object_def)
  have len: "17 \<le> length (ho_optionData zero_option)" using option_wf_zero by (simp add: option_wf_def route_consts)
  have "example_route\<lparr>mSeqNum := 0\<rparr> = example_route" by (simp add: example_route_def)
  then show ?thesis
    using route_option_roundtrip [OF ok option_wf_zero, of "[]"] create_eq [OF len al]
    by (auto simp: example_route_def)
qed

text \<open>
  C22: end to end. When a gateway adds its route option to a message that has none, and the receiver
  removes it again, the receiver has the original options in their order and number, and its
  endpoint carries the id of the sending gateway.
\<close>

theorem route_info_end_to_end:
  assumes "g_isRMInitialized st" and "g_GatewayID st \<noteq> 0" and "rm_mem st = []"
    and "unat (ci_numOptions msg) < 128" and "copy_options (ci_options msg) (unat (ci_numOptions msg)) = Some os"
    and "\<forall>h\<in>set os. option_wf h \<and> \<not> is_route h" and "6 \<le> length d"
    and "isRequest \<or> ci_result msg \<noteq> CA_EMPTY" and "6 \<le> length (ep_routeData ep)"
  shows "\<exists>msg' st' opts' num' ep'. RMAddInfo st (Some d) (Some msg) isRequest doPost = Some (OC_STACK_OK, Some msg', doPost, st')
     \<and> RMUpdateInfo (ci_options msg') (ci_numOptions msg') (Some ep) = Some (OC_STACK_OK, opts', num', Some ep')
     \<and> num' = ci_numOptions msg \<and> copy_options opts' (unat num') = Some os
     \<and> take GATEWAY_ID_LENGTH (ep_routeData ep') = le32 (g_GatewayID st)"
proof -
  let ?n = "unat (ci_numOptions msg)" and ?r = "put_route (gateway_route st d) zero_option"
  let ?m = "msg\<lparr>ci_options := OptBlock (os @ [?r]), ci_numOptions := ci_numOptions msg + 1\<rparr>"
  obtain st' where add: "RMAddInfo st (Some d) (Some msg) isRequest doPost = Some (OC_STACK_OK, Some ?m, doPost, st')"
    using add_info_eq [OF assms(1-3) refl assms(4,5) _ assms(7,8)] assms(6) by blast
  have los: "length os = ?n"
    using assms(5) by (auto simp: copy_options_def split: option_array.splits if_splits)
  have n1: "Suc ?n = unat (ci_numOptions msg + 1)" using assms(4) by (simp add: unat_word_ariths)
  have f: "find_index is_route (take (Suc ?n) (os @ [?r])) = Some ?n"
    using find_index_snoc [of is_route os ?r] assms(6) los by (simp add: find_index_None)
  have src: "copy_source ?r ep = Some (ep\<lparr>ep_routeData := le32 (g_GatewayID st) @ drop 4 (ep_routeData ep)\<rparr>)"
    using copy_source_put [of "gateway_route st d" zero_option ep] assms(2,9) option_wf_zero
    by (simp add: gateway_route_def no_route_def Let_def)
  have wf: "\<forall>h\<in>set (os @ [?r]). option_wf h" using assms(6) option_wf_put [OF option_wf_zero] by auto
  obtain opts' where o: "take ?n opts' = os"
    "RMUpdateInfo (OptBlock (os @ [?r])) (ci_numOptions msg + 1) (Some ep) =
       Some (OC_STACK_OK, if ?n = 0 then OptNull else OptBlock opts', ci_numOptions msg,
         Some (ep\<lparr>ep_routeData := le32 (g_GatewayID st) @ drop 4 (ep_routeData ep)\<rparr>))"
    using update_info_eq [OF n1 _ _ _ wf assms(9)] assms(4) los f src
    by (auto simp: nth_append remove_nth_def)
  have "copy_options (if ?n = 0 then OptNull else OptBlock opts') ?n = Some os"
    using o(1) los by (auto simp: copy_options_def)
  with add o(2) show ?thesis by (auto simp: GATEWAY_ID_LENGTH_def)
qed

definition example_gw :: RMState where
  "example_gw = \<lparr>g_rmStackMode = OC_GATEWAY, g_isRMInitialized = True, g_GatewayID = 258,
     g_mcastsequenceNumber = 1, rm_mem = []\<rparr>"

definition example_msg :: CAMessage where
  "example_msg = \<lparr>ci_type = CA_MSG_CONFIRM, ci_result = 0, ci_options = OptBlock [zero_option], ci_numOptions = 1\<rparr>"

theorem route_info_end_to_end_witness:
  "\<exists>msg' st'. RMAddInfo example_gw (Some [4, 3, 0, 0, 0, 0]) (Some example_msg) True None
     = Some (OC_STACK_OK, Some msg', None, st')"
proof -
  have h: "g_isRMInitialized example_gw" "g_GatewayID example_gw \<noteq> 0" "rm_mem example_gw = []"
    by (simp_all add: example_gw_def)
  have n: "unat (ci_numOptions example_msg) < 128" by (simp add: example_msg_def)
  have o: "copy_options (ci_options example_msg) (unat (ci_numOptions example_msg)) = Some [zero_option]"
    by (simp add: example_msg_def copy_options_def)
  have w: "\<forall>h\<in>set [zero_option]. option_wf h \<and> \<not> is_route h"
    using option_wf_zero by (simp add: is_route_def zero_option_def RM_OPTION_MESSAGE_SWITCHING_def)
  have l: "6 \<le> length [4, 3, 0, 0, 0, 0 :: u8]" "True \<or> ci_result example_msg \<noteq> CA_EMPTY"
    "6 \<le> length (ep_routeData example_peer)" by (simp_all add: example_peer_def)
  from route_info_end_to_end [OF h n o w l, of None] show ?thesis by blast
qed

text \<open>
  Whatever a peer puts into its options, removing the route option is memory safe and exact:
  with at most 128 well-formed options nothing is read outside an option array, the first route
  option is taken out, all others keep their order, and a message without one is left alone.
\<close>

lemma RMUpdateInfo_removes_route:
  assumes "0 < unat numOptions" and "unat numOptions \<le> 128" and "unat numOptions \<le> length opts"
    and "\<forall>h\<in>set opts. option_wf h" and "6 \<le> length (ep_routeData ep)"
  shows "\<exists>o' num' ep'. RMUpdateInfo (OptBlock opts) numOptions (Some ep) = Some (OC_STACK_OK, o', num', Some ep')
     \<and> (case find_index is_route (take (unat numOptions) opts) of
          None \<Rightarrow> o' = OptBlock opts \<and> num' = numOptions \<and> ep' = ep
        | Some i \<Rightarrow> num' = numOptions - 1
            \<and> copy_options o' (unat num') = Some (remove_nth i (take (unat numOptions) opts)))"
proof (cases "find_index is_route (take (unat numOptions) opts)")
  case None
  then show ?thesis using update_info_eq [OF refl assms] by simp
next
  case (Some i)
  let ?n = "unat numOptions"
  have i: "i < ?n" using find_index_SomeD [OF Some] by simp
  obtain opts' ep' where o: "take (?n - 1) opts' = remove_nth i (take ?n opts)"
    "RMUpdateInfo (OptBlock opts) numOptions (Some ep)
       = Some (OC_STACK_OK, if ?n = 1 then OptNull else OptBlock opts', numOptions - 1, Some ep')"
    using update_info_eq [OF refl assms] Some by auto
  have n1: "unat (numOptions - 1) = ?n - 1" using assms(1) by (simp add: unat_minus_one word_neq_0_conv unat_gt_0)
  have "length (take (?n - 1) opts') = ?n - 1" using o(1) i assms(3) by simp
  then have "copy_options (if ?n = 1 then OptNull else OptBlock opts') (?n - 1) = Some (take (?n - 1) opts')"
    using assms(1) by (auto simp: copy_options_def)
  then show ?thesis using o n1 Some by auto
qed

lemma RMUpdateInfo_removes_route_example:
  "\<exists>o' ep'. RMUpdateInfo (OptBlock [put_route example_route zero_option, zero_option]) 2 (Some example_peer)
     = Some (OC_STACK_OK, o', 1, Some ep') \<and> copy_options o' 1 = Some [zero_option]"
proof -
  let ?os = "[put_route example_route zero_option, zero_option]"
  have h: "0 < unat (2 :: u8)" "unat (2 :: u8) \<le> 128" "unat (2 :: u8) \<le> length ?os"
    "\<forall>h\<in>set ?os. option_wf h" "6 \<le> length (ep_routeData example_peer)"
    using option_wf_zero option_wf_put [OF option_wf_zero] by (simp_all add: example_peer_def)
  from RMUpdateInfo_removes_route [OF h] show ?thesis by (simp add: remove_nth_def)
qed

text \<open>A message that already has a route option, with no memory left: its options are freed but still referenced.\<close>

lemma RMAddInfo_dangling_options:
  "\<exists>msg' st'. RMAddInfo (example_gw\<lparr>rm_mem := [False]\<rparr>) (Some [4, 3, 0, 0, 0, 0])
       (Some (example_msg\<lparr>ci_options := OptBlock [put_route example_route zero_option]\<rparr>)) True None
     = Some (OC_STACK_NO_MEMORY, Some msg', None, st') \<and> ci_options msg' = OptFreed \<and> ci_numOptions msg' = 1"
proof -
  let ?r = "put_route example_route zero_option"
  let ?v = "example_route\<lparr>destGw := 772, destEp := 0\<rparr>"
  have idx: "RMGetRouteOptionIndex (OptBlock [?r]) 1 (-1) = Some 0"
    using route_index_loop_eq [of 1 "[?r]" 0 "-1"] to_int8_small [of 0] by (simp add: RMGetRouteOptionIndex_def)
  have ok: "route_ok example_route" by (simp add: route_ok_def example_route_def)
  have "length (route_bytes example_route) \<noteq> 1"
    by (simp add: route_bytes_def addr_bytes_def example_route_def le32_def)
  then have pa: "RMParseRouteOption (Some ?r) (Some no_route) = Some (OC_STACK_OK, Some example_route)"
    using parse_eq [OF ok, of ?r] by (simp add: put_route_def)
  have al: "OICCalloc [False] (length (route_bytes ?v)) 1 = (False, [])"
    using length_route_bytes(2) [of ?v] by (simp add: OICCalloc_def)
  have len: "17 \<le> length (ho_optionData ?r)"
    using option_wf_put [OF option_wf_zero] by (simp add: option_wf_def route_consts)
  have sa: "set_addresses (example_gw\<lparr>rm_mem := [False]\<rparr>) (Some [4, 3, 0, 0, 0, 0]) example_route
      = Some (?v, example_gw\<lparr>rm_mem := [False]\<rparr>)"
    by (simp add: set_addresses_def buf_read_def RMGetGatewayId_def example_gw_def example_route_def
        GATEWAY_ID_LENGTH_def ENDPOINT_ID_LENGTH_def)
  show ?thesis
    using idx pa sa create_eq [OF len al] by (simp add: RMAddInfo_def example_msg_def Let_def)
qed

text \<open>A message with 128 options: the index does not fit \<open>int8_t\<close> and the array is read below its start.\<close>

lemma RMAddInfo_index_overflow:
  "RMAddInfo example_gw (Some [4, 3, 0, 0, 0, 0])
     (Some (example_msg\<lparr>ci_options := OptBlock (replicate 128 zero_option), ci_numOptions := 128\<rparr>)) True None = None"
proof -
  have "find_index is_route (replicate 128 zero_option) = None"
    by (simp add: find_index_None is_route_def zero_option_def RM_OPTION_MESSAGE_SWITCHING_def)
  then have idx: "RMGetRouteOptionIndex (OptBlock (replicate 128 zero_option)) 128 (-1) = Some (-1)"
    using route_index_loop_eq [of 128 "replicate 128 zero_option" 0 "-1"] by (simp add: RMGetRouteOptionIndex_def)
  have i8: "to_int8 128 = -128" by (simp add: to_int8_def)
  have al: "OICCalloc [] 129 sizeof_CAHeaderOption = (True, [])"
    by (simp add: OICCalloc_def sizeof_CAHeaderOption_def max_object_def)
  show ?thesis
    using idx i8 al by (simp add: RMAddInfo_def example_msg_def example_gw_def copy_options_def)
qed

text \<open>An endpoint id without a gateway id is written but read back as part of a gateway id.\<close>

lemma route_option_lone_endpoint:
  "\<exists>h v. RMCreateRouteOption [] (Some (no_route\<lparr>destEp := 9, srcGw := 258\<rparr>)) (Some zero_option) = Some (OC_STACK_OK, Some h, [])
     \<and> RMParseRouteOption (Some h) (Some no_route) = Some (OC_STACK_OK, Some v) \<and> destGw v \<noteq> 0"
proof -
  let ?v = "no_route\<lparr>destEp := 9, srcGw := 258\<rparr>"
  have al: "OICCalloc [] (length (route_bytes ?v)) 1 = (True, [])"
    using length_route_bytes [of ?v] by (simp add: OICCalloc_def max_object_def)
  have len: "17 \<le> length (ho_optionData zero_option)" using option_wf_zero by (simp add: option_wf_def route_consts)
  have b: "route_bytes ?v = [192, 2, 9, 0, 4, 2, 1, 0, 0, 0, 0]"
    by (simp add: route_bytes_def addr_bytes_def no_route_def le32_def le16_def type_byte_def ACK_def RST_def
        NORMAL_MESSAGE_TYPE_def)
  let ?h = "put_route ?v zero_option" and ?buf = "[192, 2, 9, 0, 4, 2, 1, 0, 0, 0, 0] @ replicate 1013 (0 :: u8)"
  have h: "ho_optionData ?h = ?buf" "ho_optionLength ?h = 11"
    unfolding put_route_def b by (simp_all add: zero_option_def route_consts)
  have "read_addr ?buf 1 g e = Some (of_le32 [9, 0, 4, 2], e, 6)" for g e
    by (simp add: read_addr_def buf_read_def route_consts)
  moreover have "read_addr ?buf 6 g e = Some (of_le32 [0, 0, 0, 0], e, 11)" for g e
    by (simp add: read_addr_def buf_read_def route_consts)
  moreover have "buf_read 0 1 ?buf = Some [192]" "buf_read 11 2 ?buf = Some [0, 0]"
    by (simp_all add: buf_read_def numeral_2_eq_2)
  ultimately have "\<exists>v. RMParseRouteOption (Some ?h) (Some no_route) = Some (OC_STACK_OK, Some v) \<and> destGw v \<noteq> 0"
    unfolding RMParseRouteOption_def option.case prod.case h DEFAULT_ROUTE_OPTION_LEN_def by simp
  then show ?thesis using create_eq [OF len al] by simp
qed

end
