(* ===== verification/RoutingTable.thy ===== *)
theory RoutingTable
  imports CATypes UArraylist ULinklist "HOL-Library.Monad_Syntax"
begin

text \<open>
  The routing tables of a gateway: \<^verbatim>\<open>resource/csdk/routing/src/routingtablemanager.c\<close>. A table is a
  linked list of pointers to entries; the entries, the gateway ids they point to (shared: the next
  hop of one entry is the destination of another) and the interface addresses of a gateway live in
  stores of their own, and a read of a freed object is undefined (\<^const>\<open>None\<close>). A pointer to a list
  variable is an option (\<^const>\<open>None\<close> for NULL) of the list pointer. The clock has the resolution of a
  second and is read once per call.
\<close>

section \<open>State\<close>

record RTMDestIntfInfo =
  di_observerId :: u32
  di_destIntfAddr :: CAEndpoint
  di_timeElapsed :: u32
  di_isValid :: bool

record RTMEndpointEntry =
  ee_endpointId :: u16
  ee_destIntfAddr :: CAEndpoint

record RTMGatewayId =
  gi_gatewayId :: u32
  gi_destIntfAddr :: "nat u_arraylist option"

record RTMGatewayEntry =
  ge_destination :: "nat option"
  ge_nextHop :: "nat option"
  ge_routeCost :: u32
  ge_mcastMessageSeqNum :: u16
  ge_seqNum :: u32

record rtm =
  rtm_entries :: "nat \<Rightarrow> RTMGatewayEntry option"
  rtm_gwids :: "nat \<Rightarrow> RTMGatewayId option"
  rtm_intfs :: "nat \<Rightarrow> RTMDestIntfInfo option"
  rtm_endpoints :: "nat \<Rightarrow> RTMEndpointEntry option"
  rtm_fresh :: nat
  rtm_mem :: mem

type_synonym table = "nat u_linklist"

definition GATEWAY_ALIVE_TIMEOUT :: u64 where "GATEWAY_ALIVE_TIMEOUT = 30"

definition sizeof_DestIntfInfo :: nat where "sizeof_DestIntfInfo = 196"
definition sizeof_EndpointEntry :: nat where "sizeof_EndpointEntry = 188"
definition sizeof_GatewayId :: nat where "sizeof_GatewayId = 16"
definition sizeof_GatewayEntry :: nat where "sizeof_GatewayEntry = 32"

text \<open>\<open>OICCalloc(1, sz)\<close> for an object; a new object has an address that was never used before.\<close>

definition new_object :: "nat \<Rightarrow> rtm \<Rightarrow> nat option \<times> rtm" where
  "new_object sz st =
     (case OICCalloc (rtm_mem st) 1 sz of
        (ok, m) \<Rightarrow> (if ok then Some (rtm_fresh st) else None, st\<lparr>rtm_mem := m, rtm_fresh := Suc (rtm_fresh st)\<rparr>))"

definition list_create :: "rtm \<Rightarrow> table option \<times> rtm" where
  "list_create st = (case u_linklist_create (rtm_mem st) of (l, m) \<Rightarrow> (l, st\<lparr>rtm_mem := m\<rparr>))"

definition list_add :: "rtm \<Rightarrow> table \<Rightarrow> nat \<Rightarrow> (CAResult \<times> table \<times> rtm) option" where
  "list_add st l x =
     (case u_linklist_add (rtm_mem st) (rtm_fresh st) (Some l) (Some x) of
        Some (r, Some l', m) \<Rightarrow> Some (r, l', st\<lparr>rtm_mem := m, rtm_fresh := Suc (rtm_fresh st)\<rparr>)
      | _ \<Rightarrow> None)"

definition list_add_head :: "rtm \<Rightarrow> table \<Rightarrow> nat \<Rightarrow> (CAResult \<times> table \<times> rtm) option" where
  "list_add_head st l x =
     (case u_linklist_add_head (rtm_mem st) (rtm_fresh st) (Some l) (Some x) of
        (r, Some l', m) \<Rightarrow> Some (r, l', st\<lparr>rtm_mem := m, rtm_fresh := Suc (rtm_fresh st)\<rparr>)
      | _ \<Rightarrow> None)"

text \<open>\<open>memcmp(a->addr, b->addr, strlen(b->addr)) == 0 && b->port == a->port\<close>\<close>

definition same_addr :: "CAEndpoint \<Rightarrow> CAEndpoint \<Rightarrow> bool" where
  "same_addr a b \<longleftrightarrow> take (length (ep_addr b)) (ep_addr a) = ep_addr b \<and> ep_port b = ep_port a"

text \<open>\<open>NULL != entry->destination && id == entry->destination->gatewayId\<close>\<close>

definition dest_is :: "rtm \<Rightarrow> nat option \<Rightarrow> u32 \<Rightarrow> bool option" where
  "dest_is st g gid =
     (case g of None \<Rightarrow> Some False | Some a \<Rightarrow> map_option (\<lambda>x. gi_gatewayId x = gid) (rtm_gwids st a))"

section \<open>Freeing\<close>

definition free_intf :: "nat option \<Rightarrow> rtm \<Rightarrow> rtm option" where
  "free_intf q st =
     (case q of
        None \<Rightarrow> Some st
      | Some a \<Rightarrow> if rtm_intfs st a = None then None else Some (st\<lparr>rtm_intfs := (rtm_intfs st)(a := None)\<rparr>))"

text \<open>\<open>while (u_arraylist_length(arr) > 0) { data = u_arraylist_remove(arr, 0); OICFree(data); }\<close>\<close>

partial_function (option) free_intfs :: "nat u_arraylist option \<Rightarrow> rtm \<Rightarrow> (nat u_arraylist option \<times> rtm) option" where
  "free_intfs arr st =
     (if 0 < u_arraylist_length arr then
        (case u_arraylist_remove arr 0 of
           (q, arr') \<Rightarrow> (case free_intf q st of None \<Rightarrow> None | Some st1 \<Rightarrow> free_intfs arr' st1))
      else Some (arr, st))"

text \<open>A gateway id with its addresses.\<close>

definition free_gwid :: "nat \<Rightarrow> rtm \<Rightarrow> rtm option" where
  "free_gwid d st =
     (case rtm_gwids st d of
        None \<Rightarrow> None
      | Some g \<Rightarrow>
          (case free_intfs (gi_destIntfAddr g) st of
             None \<Rightarrow> None
           | Some (_, st1) \<Rightarrow> Some (st1\<lparr>rtm_gwids := (rtm_gwids st1)(d := None)\<rparr>)))"

definition free_gateway_node :: "nat option \<Rightarrow> rtm \<Rightarrow> ((rtm \<times> rtm) + rtm) option" where
  "free_gateway_node hop st =
     (case hop of
        None \<Rightarrow> Some (Inl (st, st))
      | Some e \<Rightarrow>
          (case rtm_entries st e of
             None \<Rightarrow> None
           | Some entry \<Rightarrow>
               (case ge_destination entry of
                  None \<Rightarrow> Some (Inl (st, st))
                | Some d \<Rightarrow>
                    (case free_gwid d st of
                       None \<Rightarrow> None
                     | Some st1 \<Rightarrow>
                         (let st2 = st1\<lparr>rtm_entries := (rtm_entries st1)(e := None)\<rparr> in Some (Inl (st2, st2)))))))"

definition list_free :: "table \<Rightarrow> table option option" where
  "list_free l = (case u_linklist_free (Some (Some l)) of Some (_, Some l') \<Rightarrow> Some l' | _ \<Rightarrow> None)"

definition RTMFreeGatewayRouteTable ::
  "table option option \<Rightarrow> rtm \<Rightarrow> (OCStackResult \<times> table option option \<times> rtm) option" where
  "RTMFreeGatewayRouteTable gatewayTable st =
     (case gatewayTable of
        Some (Some l) \<Rightarrow>
          (case unlink_loop l free_gateway_node (ll_list l) st of
             None \<Rightarrow> None
           | Some (False, l1, st1) \<Rightarrow> Some (OC_STACK_ERROR, Some (Some l1), st1)
           | Some (True, l1, st1) \<Rightarrow> map_option (\<lambda>t. (OC_STACK_OK, Some t, st1)) (list_free l1))
      | _ \<Rightarrow> Some (OC_STACK_OK, gatewayTable, st))"

definition free_endpoint_node :: "nat option \<Rightarrow> rtm \<Rightarrow> ((rtm \<times> rtm) + rtm) option" where
  "free_endpoint_node hop st =
     (case hop of
        None \<Rightarrow> Some (Inl (st, st))
      | Some e \<Rightarrow>
          if rtm_endpoints st e = None then None
          else let st1 = st\<lparr>rtm_endpoints := (rtm_endpoints st)(e := None)\<rparr> in Some (Inl (st1, st1)))"

definition RTMFreeEndpointRouteTable ::
  "table option option \<Rightarrow> rtm \<Rightarrow> (OCStackResult \<times> table option option \<times> rtm) option" where
  "RTMFreeEndpointRouteTable endpointTable st =
     (case endpointTable of
        Some (Some l) \<Rightarrow>
          (case unlink_loop l free_endpoint_node (ll_list l) st of
             None \<Rightarrow> None
           | Some (False, l1, st1) \<Rightarrow> Some (OC_STACK_ERROR, Some (Some l1), st1)
           | Some (True, l1, st1) \<Rightarrow> map_option (\<lambda>t. (OC_STACK_OK, Some t, st1)) (list_free l1))
      | _ \<Rightarrow> Some (OC_STACK_OK, endpointTable, st))"

text \<open>The list itself is not freed by \<open>RTMFreeGatewayIdList\<close>.\<close>

definition free_gwid_node :: "nat option \<Rightarrow> rtm \<Rightarrow> ((rtm \<times> rtm) + rtm) option" where
  "free_gwid_node hop st =
     (case hop of
        None \<Rightarrow> Some (Inl (st, st))
      | Some d \<Rightarrow> (case free_gwid d st of None \<Rightarrow> None | Some st1 \<Rightarrow> Some (Inl (st1, st1))))"

definition RTMFreeGatewayIdList ::
  "table option option \<Rightarrow> rtm \<Rightarrow> (OCStackResult \<times> table option option \<times> rtm) option" where
  "RTMFreeGatewayIdList gatewayIdTable st =
     (case gatewayIdTable of
        Some (Some l) \<Rightarrow>
          (case unlink_loop l free_gwid_node (ll_list l) st of
             None \<Rightarrow> None
           | Some (ok, l1, st1) \<Rightarrow> Some (if ok then OC_STACK_OK else OC_STACK_ERROR, Some (Some l1), st1))
      | _ \<Rightarrow> Some (OC_STACK_OK, gatewayIdTable, st))"

text \<open>\<open>RTMTerminate\<close> dereferences both of its arguments.\<close>

definition RTMTerminate ::
  "table option option \<Rightarrow> table option option \<Rightarrow> rtm
     \<Rightarrow> (OCStackResult \<times> table option option \<times> table option option \<times> rtm) option" where
  "RTMTerminate gatewayTable endpointTable st =
     do {
       (_, _, st1) \<leftarrow> RTMFreeGatewayRouteTable gatewayTable st;
       _ \<leftarrow> gatewayTable;
       (_, _, st2) \<leftarrow> RTMFreeEndpointRouteTable endpointTable st1;
       _ \<leftarrow> endpointTable;
       Some (OC_STACK_OK, Some None, Some None, st2)
     }"

definition RTMInitialize ::
  "table option option \<Rightarrow> table option option \<Rightarrow> rtm
     \<Rightarrow> (OCStackResult \<times> table option option \<times> table option option \<times> rtm) option" where
  "RTMInitialize gatewayTable endpointTable st =
     (case (gatewayTable, endpointTable) of
        (Some g, Some e) \<Rightarrow>
          (let (g1, st1) = (case g of Some l \<Rightarrow> (Some l, st) | None \<Rightarrow> list_create st) in
           if g1 = None then
             map_option (\<lambda>(_, rest). (OC_STACK_ERROR, rest)) (RTMTerminate (Some g1) (Some e) st1)
           else
             let (e1, st2) = (case e of Some l \<Rightarrow> (Some l, st1) | None \<Rightarrow> list_create st1) in
             if e1 = None then
               map_option (\<lambda>(_, rest). (OC_STACK_ERROR, rest)) (RTMTerminate (Some g1) (Some e1) st2)
             else Some (OC_STACK_OK, Some g1, Some e1, st2))
      | _ \<Rightarrow> Some (OC_STACK_INVALID_PARAM, gatewayTable, endpointTable, st))"

definition RTMFreeGateway :: "nat option \<Rightarrow> table option option \<Rightarrow> rtm \<Rightarrow> rtm option" where
  "RTMFreeGateway gateway gatewayTable st =
     (case (gateway, gatewayTable) of
        (Some d, Some (Some _)) \<Rightarrow> free_gwid d st
      | _ \<Rightarrow> Some st)"

definition RTMRemoveGateways ::
  "table option option \<Rightarrow> rtm \<Rightarrow> (OCStackResult \<times> table option option \<times> rtm) option" where
  "RTMRemoveGateways gatewayTable st =
     (case gatewayTable of
        Some (Some _) \<Rightarrow> RTMFreeGatewayRouteTable gatewayTable st
      | _ \<Rightarrow> Some (OC_STACK_OK, gatewayTable, st))"

definition RTMRemoveEndpoints ::
  "table option option \<Rightarrow> rtm \<Rightarrow> (OCStackResult \<times> table option option \<times> rtm) option" where
  "RTMRemoveEndpoints endpointTable st =
     (case endpointTable of
        Some (Some _) \<Rightarrow>
          map_option (\<lambda>(r, rest). (if r \<noteq> OC_STACK_OK then OC_STACK_ERROR else OC_STACK_OK, rest))
            (RTMFreeEndpointRouteTable endpointTable st)
      | _ \<Rightarrow> Some (OC_STACK_OK, endpointTable, st))"

section \<open>Interface addresses\<close>

text \<open>The search for an address in the slots of a gateway; \<open>hit\<close> says what to do at the first match.\<close>

definition addr_slot ::
  "CAEndpoint \<Rightarrow> (nat \<Rightarrow> nat \<Rightarrow> RTMDestIntfInfo \<Rightarrow> 'b \<Rightarrow> ('r + 'b) option) \<Rightarrow> ('b \<Rightarrow> rtm)
     \<Rightarrow> nat \<Rightarrow> nat option \<Rightarrow> 'b \<Rightarrow> ('r + 'b) option" where
  "addr_slot adr hit state i slot acc =
     (case slot of
        None \<Rightarrow> Some (Inr acc)
      | Some q \<Rightarrow>
          (case rtm_intfs (state acc) q of
             None \<Rightarrow> None
           | Some di \<Rightarrow> if same_addr (di_destIntfAddr di) adr then hit i q di acc else Some (Inr acc)))"

definition set_intf :: "nat \<Rightarrow> RTMDestIntfInfo \<Rightarrow> rtm \<Rightarrow> rtm" where
  "set_intf q di st = st\<lparr>rtm_intfs := (rtm_intfs st)(q \<mapsto> di)\<rparr>"

definition set_gwid :: "nat \<Rightarrow> RTMGatewayId \<Rightarrow> rtm \<Rightarrow> rtm" where
  "set_gwid d g st = st\<lparr>rtm_gwids := (rtm_gwids st)(d \<mapsto> g)\<rparr>"

definition set_entry :: "nat \<Rightarrow> RTMGatewayEntry \<Rightarrow> rtm \<Rightarrow> rtm" where
  "set_entry e v st = st\<lparr>rtm_entries := (rtm_entries st)(e \<mapsto> v)\<rparr>"

text \<open>A new address object in an array: the array, or \<^const>\<open>None\<close> when memory runs out.\<close>

definition add_intf ::
  "u64 \<Rightarrow> RTMDestIntfInfo \<Rightarrow> nat u_arraylist option \<Rightarrow> rtm \<Rightarrow> bool \<times> nat u_arraylist option \<times> rtm" where
  "add_intf now di arr st =
     (case new_object sizeof_DestIntfInfo st of
        (None, st1) \<Rightarrow> (False, arr, st1)
      | (Some q, st1) \<Rightarrow>
          (case u_arraylist_add (rtm_mem st1) arr (Some q) of
             (ok, arr1, m) \<Rightarrow>
               (let st2 = st1\<lparr>rtm_mem := m\<rparr> in
                if ok then (True, arr1, set_intf q (di\<lparr>di_timeElapsed := ucast now, di_isValid := True\<rparr>) st2)
                else (False, arr1, st2))))"

definition update_intf_body ::
  "u64 \<Rightarrow> u32 \<Rightarrow> RTMDestIntfInfo \<Rightarrow> bool \<Rightarrow> addr \<Rightarrow> nat option \<Rightarrow> rtm \<Rightarrow> ((OCStackResult \<times> rtm) + rtm) option" where
  "update_intf_body now gatewayId di addAdr p e st =
     (case e of
        None \<Rightarrow> Some (Inr st)
      | Some a \<Rightarrow> do {
          entry \<leftarrow> rtm_entries st a;
          found \<leftarrow> dest_is st (ge_destination entry) gatewayId;
          if \<not> found then Some (Inr st)
          else do {
            d \<leftarrow> ge_destination entry;
            g \<leftarrow> rtm_gwids st d;
            if addAdr then do {
              known \<leftarrow> for_slots (gi_destIntfAddr g)
                (addr_slot (di_destIntfAddr di)
                   (\<lambda>i q old t. Some (Inl (set_intf q (old\<lparr>di_timeElapsed := ucast now, di_isValid := True\<rparr>) t))) id) 0 st;
              (case known of
                 Inl st1 \<Rightarrow> Some (Inl (OC_STACK_ERROR, st1))
               | Inr st1 \<Rightarrow>
                   (case add_intf now di (gi_destIntfAddr g) st1 of
                      (ok, arr, st2) \<Rightarrow>
                        Some (Inl (if ok then OC_STACK_DUPLICATE_REQUEST else OC_STACK_ERROR,
                               set_gwid d (g\<lparr>gi_destIntfAddr := arr\<rparr>) st2))))
            }
            else do {
              hit \<leftarrow> for_slots (gi_destIntfAddr g)
                (addr_slot (di_destIntfAddr di) (\<lambda>i q old t. Some (Inl i)) id) 0 st;
              (case hit of
                 Inr st1 \<Rightarrow> Some (Inr st1)
               | Inl i \<Rightarrow>
                   (case u_arraylist_remove (gi_destIntfAddr g) i of
                      (q, arr) \<Rightarrow> do {
                        st1 \<leftarrow> free_intf q st;
                        Some (Inr (set_gwid d (g\<lparr>gi_destIntfAddr := arr\<rparr>) st1))
                      }))
            }
          }
        })"

definition RTMUpdateDestinationIntfAdr ::
  "u64 \<Rightarrow> u32 \<Rightarrow> RTMDestIntfInfo \<Rightarrow> bool \<Rightarrow> table option option \<Rightarrow> rtm \<Rightarrow> (OCStackResult \<times> rtm) option" where
  "RTMUpdateDestinationIntfAdr now gatewayId destInterfaces addAdr gatewayTable st =
     (case gatewayTable of
        Some (Some l) \<Rightarrow>
          map_option (\<lambda>r. case r of Inl x \<Rightarrow> x | Inr st1 \<Rightarrow> (OC_STACK_OK, st1))
            (for_nodes (ll_heap l) (update_intf_body now gatewayId destInterfaces addAdr) (ll_list l) st)
      | _ \<Rightarrow> Some (OC_STACK_INVALID_PARAM, st))"

section \<open>Adding gateways\<close>

text \<open>The search for the node of the gateway (\<open>destNode\<close>) and for the gateway id of the next hop.\<close>

definition find_body ::
  "rtm \<Rightarrow> u32 \<Rightarrow> u32 \<Rightarrow> addr \<Rightarrow> nat option \<Rightarrow> addr option \<times> nat option
     \<Rightarrow> ((addr option \<times> nat option) + (addr option \<times> nat option)) option" where
  "find_body st gatewayId nextHop p e acc =
     (case e of
        None \<Rightarrow> Some (Inl acc)
      | Some a \<Rightarrow> do {
          entry \<leftarrow> rtm_entries st a;
          here \<leftarrow> (if fst acc = None then dest_is st (ge_destination entry) gatewayId else Some False);
          hop \<leftarrow> (if nextHop \<noteq> 0 then dest_is st (ge_destination entry) nextHop else Some False);
          let destNode = (if here then Some p else fst acc);
          let gatewayNodeMap = (if hop then ge_destination entry else snd acc);
          Some (if destNode \<noteq> None \<and> gatewayNodeMap \<noteq> None then Inl (destNode, gatewayNodeMap)
                else Inr (destNode, gatewayNodeMap))
        })"

definition find_nodes :: "rtm \<Rightarrow> u32 \<Rightarrow> u32 \<Rightarrow> table \<Rightarrow> (addr option \<times> nat option) option" where
  "find_nodes st gatewayId nextHop l =
     map_option (\<lambda>r. case r of Inl x \<Rightarrow> x | Inr x \<Rightarrow> x)
       (for_nodes (ll_heap l) (find_body st gatewayId nextHop) (ll_list l) (None, None))"

text \<open>
  The update of an existing entry whose cost is not lower than the new one: the error to return, or
  the state to go on with.
\<close>

definition reroute ::
  "u64 \<Rightarrow> u32 \<Rightarrow> u32 \<Rightarrow> u32 \<Rightarrow> RTMDestIntfInfo option \<Rightarrow> nat \<Rightarrow> RTMGatewayEntry \<Rightarrow> nat option \<Rightarrow> rtm
     \<Rightarrow> ((OCStackResult \<times> rtm) + rtm) option" where
  "reroute now gatewayId nextHop routeCost destInterfaces e entry gatewayNodeMap st =
     do {
       same \<leftarrow> (if ge_routeCost entry = routeCost \<and> ge_nextHop entry \<noteq> None
                then dest_is st (ge_nextHop entry) nextHop else Some False);
       if same then Some (Inl (OC_STACK_DUPLICATE_REQUEST, st))
       else (case gatewayNodeMap of
         Some n \<Rightarrow> do {
           d \<leftarrow> ge_destination entry;
           g \<leftarrow> rtm_gwids st d;
           Some (Inr (set_entry e (entry\<lparr>ge_nextHop := Some n, ge_routeCost := routeCost\<rparr>)
                       (set_gwid d (g\<lparr>gi_gatewayId := gatewayId, gi_destIntfAddr := None\<rparr>) st)))
         }
       | None \<Rightarrow>
           if nextHop = 0 then do {
             d \<leftarrow> ge_destination entry;
             g \<leftarrow> rtm_gwids st d;
             let st1 = set_entry e (entry\<lparr>ge_routeCost := 1, ge_nextHop := None\<rparr>) st;
             (case u_arraylist_create (rtm_mem st1) of
                (None, m) \<Rightarrow> Some (Inl (OC_STACK_ERROR, set_gwid d (g\<lparr>gi_destIntfAddr := None\<rparr>) (st1\<lparr>rtm_mem := m\<rparr>)))
              | (Some arr, m) \<Rightarrow>
                  (let st2 = set_gwid d (g\<lparr>gi_destIntfAddr := Some arr\<rparr>) (st1\<lparr>rtm_mem := m\<rparr>) in
                   case destInterfaces of
                     None \<Rightarrow> (case new_object sizeof_DestIntfInfo st2 of
                                (None, st3) \<Rightarrow> Some (Inl (OC_STACK_ERROR, st3)) | (Some _, _) \<Rightarrow> None)
                   | Some di \<Rightarrow>
                       (case add_intf now di (Some arr) st2 of
                          (ok, arr1, st3) \<Rightarrow>
                            (let st4 = set_gwid d (g\<lparr>gi_destIntfAddr := arr1\<rparr>) st3 in
                             Some (if ok then Inr st4 else Inl (OC_STACK_ERROR, st4))))))
           }
           else Some (Inl (OC_STACK_ERROR, st)))
     }"

definition update_gateway ::
  "u64 \<Rightarrow> u32 \<Rightarrow> u32 \<Rightarrow> u32 \<Rightarrow> RTMDestIntfInfo option \<Rightarrow> addr \<Rightarrow> nat option \<Rightarrow> table \<Rightarrow> rtm
     \<Rightarrow> (OCStackResult \<times> table \<times> rtm) option" where
  "update_gateway now gatewayId nextHop routeCost destInterfaces destNode gatewayNodeMap l st =
     (case u_linklist_get_data (ll_heap l) (Some destNode) of
        None \<Rightarrow> Some (OC_STACK_OK, l, st)
      | Some e \<Rightarrow> do {
          entry \<leftarrow> rtm_entries st e;
          if ge_routeCost entry = 1 \<and> nextHop = 0 then
            (case destInterfaces of
               None \<Rightarrow> Some (OC_STACK_ERROR, l, st)
             | Some di \<Rightarrow> map_option (\<lambda>(r, st1). (r, l, st1))
                            (RTMUpdateDestinationIntfAdr now gatewayId di True (Some (Some l)) st))
          else if ge_routeCost entry < routeCost then Some (OC_STACK_ERROR, l, st)
          else do {
            r \<leftarrow> reroute now gatewayId nextHop routeCost destInterfaces e entry gatewayNodeMap st;
            (case r of
               Inl (err, st1) \<Rightarrow> Some (err, l, st1)
             | Inr st1 \<Rightarrow>
                 if routeCost = 1 then
                   (case u_linklist_remove (Some l) (Some (Some destNode)) of
                      Some (res, Some l1, _) \<Rightarrow>
                        if res \<noteq> CA_STATUS_OK then Some (OC_STACK_OK, l1, st1)
                        else map_option (\<lambda>(_, l2, st2). (OC_STACK_OK, l2, st2)) (list_add_head st1 l1 e)
                    | _ \<Rightarrow> None)
                 else Some (OC_STACK_OK, l, st1))
          }
        })"

text \<open>The new entry with its gateway id and, when an address is given, its first interface address.\<close>

definition new_intfs ::
  "u64 \<Rightarrow> RTMDestIntfInfo option \<Rightarrow> rtm \<Rightarrow> (bool \<times> nat u_arraylist option \<times> rtm)" where
  "new_intfs now destInterfaces st =
     (case destInterfaces of
        None \<Rightarrow> (True, None, st)
      | Some di \<Rightarrow>
          if length (ep_addr (di_destIntfAddr di)) > 0 then
            (case u_arraylist_create (rtm_mem st) of
               (arr, m) \<Rightarrow>
                 (case new_object sizeof_DestIntfInfo (st\<lparr>rtm_mem := m\<rparr>) of
                    (None, st1) \<Rightarrow> (False, None, st1)
                  | (Some q, st1) \<Rightarrow>
                      (case u_arraylist_add (rtm_mem st1) arr (Some q) of
                         (_, arr1, m1) \<Rightarrow>
                           (True, arr1, set_intf q (di\<lparr>di_timeElapsed := ucast now, di_isValid := True\<rparr>)
                                          (st1\<lparr>rtm_mem := m1\<rparr>)))))
          else (True, None, st))"

definition insert_gateway ::
  "u64 \<Rightarrow> u32 \<Rightarrow> u32 \<Rightarrow> RTMDestIntfInfo option \<Rightarrow> nat option \<Rightarrow> table \<Rightarrow> rtm
     \<Rightarrow> (OCStackResult \<times> table \<times> rtm) option" where
  "insert_gateway now gatewayId routeCost destInterfaces gatewayNodeMap l st =
     (case new_object sizeof_GatewayEntry st of
        (None, st1) \<Rightarrow> Some (OC_STACK_ERROR, l, st1)
      | (Some e, st1) \<Rightarrow>
          (case new_object sizeof_GatewayId st1 of
             (None, st2) \<Rightarrow> Some (OC_STACK_ERROR, l, st2)
           | (Some d, st2) \<Rightarrow>
               (case new_intfs now destInterfaces st2 of
                  (False, _, st3) \<Rightarrow> Some (OC_STACK_ERROR, l, st3)
                | (True, arr, st3) \<Rightarrow>
                    if gatewayNodeMap = None \<and> routeCost \<noteq> 1 then
                      map_option (\<lambda>(_, st4). (OC_STACK_ERROR, l, st4)) (free_intfs arr st3)
                    else
                      (let hopEntry = \<lparr>ge_destination = Some d, ge_nextHop = gatewayNodeMap,
                                       ge_routeCost = routeCost, ge_mcastMessageSeqNum = 0, ge_seqNum = 0\<rparr>
                       in case (if routeCost = 1 then list_add_head st3 l e else list_add st3 l e) of
                            None \<Rightarrow> None
                          | Some (ret, l1, st4) \<Rightarrow>
                              if ret \<noteq> CA_STATUS_OK then
                                map_option (\<lambda>(_, st5). (OC_STACK_ERROR, l1, st5)) (free_intfs arr st4)
                              else
                                Some (OC_STACK_OK, l1,
                                  set_entry e hopEntry
                                    (set_gwid d \<lparr>gi_gatewayId = gatewayId, gi_destIntfAddr = arr\<rparr> st4))))))"

definition RTMAddGatewayEntry ::
  "u64 \<Rightarrow> u32 \<Rightarrow> u32 \<Rightarrow> u32 \<Rightarrow> RTMDestIntfInfo option \<Rightarrow> table option option \<Rightarrow> rtm
     \<Rightarrow> (OCStackResult \<times> table option option \<times> rtm) option" where
  "RTMAddGatewayEntry now gatewayId nextHop routeCost destInterfaces gatewayTable st =
     (case gatewayTable of
        None \<Rightarrow> Some (OC_STACK_INVALID_PARAM, None, st)
      | Some t \<Rightarrow>
          (case (case t of Some l \<Rightarrow> (Some l, st) | None \<Rightarrow> list_create st) of
             (None, st1) \<Rightarrow> Some (OC_STACK_NO_MEMORY, Some None, st1)
           | (Some l, st1) \<Rightarrow>
               if routeCost = 1 \<and> nextHop \<noteq> 0 then Some (OC_STACK_ERROR, Some (Some l), st1)
               else if routeCost = 0 then Some (OC_STACK_ERROR, Some (Some l), st1)
               else do {
                 (destNode, gatewayNodeMap) \<leftarrow> find_nodes st1 gatewayId nextHop l;
                 if 1 < routeCost \<and> gatewayNodeMap = None then Some (OC_STACK_ERROR, Some (Some l), st1)
                 else
                   map_option (\<lambda>(r, l1, st2). (r, Some (Some l1), st2))
                     (case destNode of
                        Some p \<Rightarrow> update_gateway now gatewayId nextHop routeCost destInterfaces p gatewayNodeMap l st1
                      | None \<Rightarrow> insert_gateway now gatewayId routeCost destInterfaces gatewayNodeMap l st1)
               }))"

section \<open>Endpoints\<close>

text \<open>
  \<open>endpointId\<close> is an in-out parameter: on a duplicate the caller gets the id the address already has.
\<close>

definition find_endpoint_body ::
  "rtm \<Rightarrow> CAEndpoint \<Rightarrow> addr \<Rightarrow> nat option \<Rightarrow> unit \<Rightarrow> (u16 + unit) option" where
  "find_endpoint_body st destAddr p e u =
     (case e of
        None \<Rightarrow> Some (Inr ())
      | Some a \<Rightarrow> do {
          entry \<leftarrow> rtm_endpoints st a;
          Some (if same_addr destAddr (ee_destIntfAddr entry) then Inl (ee_endpointId entry) else Inr ())
        })"

definition RTMAddEndpointEntry ::
  "u16 option \<Rightarrow> CAEndpoint option \<Rightarrow> table option option \<Rightarrow> rtm
     \<Rightarrow> (OCStackResult \<times> u16 option \<times> table option option \<times> rtm) option" where
  "RTMAddEndpointEntry endpointId destAddr endpointTable st =
     (case (endpointId, destAddr, endpointTable) of
        (Some eid, Some adr, Some t) \<Rightarrow>
          (case (case t of Some l \<Rightarrow> (Some l, st) | None \<Rightarrow> list_create st) of
             (None, st1) \<Rightarrow> Some (OC_STACK_NO_MEMORY, Some eid, Some None, st1)
           | (Some l, st1) \<Rightarrow> do {
               r \<leftarrow> for_nodes (ll_heap l) (find_endpoint_body st1 adr) (ll_list l) ();
               (case r of
                  Inl known \<Rightarrow> Some (OC_STACK_DUPLICATE_REQUEST, Some known, Some (Some l), st1)
                | Inr _ \<Rightarrow>
                    (case new_object sizeof_EndpointEntry st1 of
                       (None, st2) \<Rightarrow> Some (OC_STACK_ERROR, Some eid, Some (Some l), st2)
                     | (Some e, st2) \<Rightarrow> do {
                         (ret, l1, st3) \<leftarrow> list_add st2 l e;
                         if ret \<noteq> CA_STATUS_OK then Some (OC_STACK_ERROR, Some eid, Some (Some l1), st3)
                         else Some (OC_STACK_OK, Some eid, Some (Some l1),
                                st3\<lparr>rtm_endpoints := (rtm_endpoints st3)
                                       (e \<mapsto> \<lparr>ee_endpointId = eid, ee_destIntfAddr = adr\<rparr>)\<rparr>)
                       }))
             })
      | _ \<Rightarrow> Some (OC_STACK_INVALID_PARAM, endpointId, endpointTable, st))"

text \<open>Every entry with the id is removed.\<close>

definition remove_endpoint_node :: "u16 \<Rightarrow> nat option \<Rightarrow> rtm \<Rightarrow> ((rtm \<times> rtm) + rtm) option" where
  "remove_endpoint_node endpointId hop st =
     (case hop of
        None \<Rightarrow> Some (Inr st)
      | Some e \<Rightarrow> do {
          entry \<leftarrow> rtm_endpoints st e;
          Some (if ee_endpointId entry = endpointId
                then Inl (st, st\<lparr>rtm_endpoints := (rtm_endpoints st)(e := None)\<rparr>) else Inr st)
        })"

definition RTMRemoveEndpointEntry ::
  "u16 \<Rightarrow> table option option \<Rightarrow> rtm \<Rightarrow> (OCStackResult \<times> table option option \<times> rtm) option" where
  "RTMRemoveEndpointEntry endpointId endpointTable st =
     (case endpointTable of
        Some (Some l) \<Rightarrow>
          map_option (\<lambda>(ok, l1, st1). (if ok then OC_STACK_OK else OC_STACK_ERROR, Some (Some l1), st1))
            (unlink_loop l (remove_endpoint_node endpointId) (ll_list l) st)
      | _ \<Rightarrow> Some (OC_STACK_INVALID_PARAM, endpointTable, st))"

definition RTMGetEndpointEntry :: "u16 \<Rightarrow> table option \<Rightarrow> rtm \<Rightarrow> CAEndpoint option option" where
  "RTMGetEndpointEntry endpointId endpointTable st =
     (case endpointTable of
        None \<Rightarrow> Some None
      | Some l \<Rightarrow>
          map_option (\<lambda>r. case r of Inl a \<Rightarrow> Some a | Inr _ \<Rightarrow> None)
            (for_nodes (ll_heap l)
               (\<lambda>p e u. case e of
                  None \<Rightarrow> Some (Inr ())
                | Some a \<Rightarrow> do {
                    entry \<leftarrow> rtm_endpoints st a;
                    Some (if ee_endpointId entry = endpointId then Inl (ee_destIntfAddr entry) else Inr ())
                  }) (ll_list l) ()))"

section \<open>Observers\<close>

text \<open>The entry and its gateway id, as the code reads them without a test for NULL.\<close>

definition deref_gwid :: "rtm \<Rightarrow> nat option \<Rightarrow> (RTMGatewayEntry \<times> nat \<times> RTMGatewayId) option" where
  "deref_gwid st e =
     do { a \<leftarrow> e; entry \<leftarrow> rtm_entries st a; d \<leftarrow> ge_destination entry; g \<leftarrow> rtm_gwids st d; Some (entry, d, g) }"

definition RTMAddObserver ::
  "u32 \<Rightarrow> CAEndpoint \<Rightarrow> table option option \<Rightarrow> rtm \<Rightarrow> (OCStackResult \<times> rtm) option" where
  "RTMAddObserver obsID devAddr gatewayTable st =
     (case gatewayTable of
        Some (Some l) \<Rightarrow>
          map_option (\<lambda>r. case r of Inl st1 \<Rightarrow> (OC_STACK_OK, st1) | Inr _ \<Rightarrow> (OC_STACK_ERROR, st))
            (for_nodes (ll_heap l)
               (\<lambda>p e u. do {
                  (entry, d, g) \<leftarrow> deref_gwid st e;
                  for_slots (gi_destIntfAddr g)
                    (addr_slot devAddr (\<lambda>i q di t. Some (Inl (set_intf q (di\<lparr>di_observerId := obsID\<rparr>) st))) (\<lambda>_. st)) 0 ()
                }) (ll_list l) ())
      | _ \<Rightarrow> Some (OC_STACK_INVALID_PARAM, st))"

text \<open>The result is the returned flag and the id written through \<open>obsID\<close>, an \<open>OCObservationId\<close> of 8 bits.\<close>

definition RTMIsObserverPresent ::
  "CAEndpoint \<Rightarrow> u8 option \<Rightarrow> table option \<Rightarrow> rtm \<Rightarrow> (bool \<times> u8 option) option" where
  "RTMIsObserverPresent devAddr obsID gatewayTable st =
     (case (obsID, gatewayTable) of
        (Some _, Some l) \<Rightarrow>
          map_option (\<lambda>r. case r of Inl (Some x) \<Rightarrow> (True, Some x) | _ \<Rightarrow> (False, obsID))
            (for_nodes (ll_heap l)
               (\<lambda>p e u. case e of
                  None \<Rightarrow> Some (Inl None)
                | Some a \<Rightarrow> do {
                    entry \<leftarrow> rtm_entries st a;
                    (case ge_destination entry of
                       None \<Rightarrow> Some (Inl None)
                     | Some d \<Rightarrow> do {
                         g \<leftarrow> rtm_gwids st d;
                         for_slots (gi_destIntfAddr g)
                           (addr_slot devAddr
                              (\<lambda>i q di t. Some (if di_observerId di \<noteq> 0 then Inl (Some (ucast (di_observerId di))) else Inr t))
                              (\<lambda>_. st)) 0 ()
                       })
                  }) (ll_list l) ())
      | _ \<Rightarrow> Some (False, obsID))"

definition sizeof_OCObservationId :: nat where "sizeof_OCObservationId = 1"

text \<open>
  The outputs are \<open>*obsList\<close> (the new array) and \<open>*obsListLen\<close>, which is not written when a slot of
  an address list is NULL. A store behind the array is undefined.
\<close>

definition observer_body ::
  "rtm \<Rightarrow> addr \<Rightarrow> nat option \<Rightarrow> u8 list \<times> u32 \<Rightarrow> (u8 list + (u8 list \<times> u32)) option" where
  "observer_body st p e acc =
     do {
       (entry, d, g) \<leftarrow> deref_gwid st e;
       if 0 < u_arraylist_length (gi_destIntfAddr g) then
         (case u_arraylist_get (gi_destIntfAddr g) 0 of
            None \<Rightarrow> Some (Inl (fst acc))
          | Some q \<Rightarrow> do {
              di \<leftarrow> rtm_intfs st q;
              if di_observerId di = 0 then Some (Inr acc)
              else if unat (snd acc) < length (fst acc)
                then Some (Inr ((fst acc)[unat (snd acc) := ucast (di_observerId di)], snd acc + 1))
                else None
            })
       else Some (Inr acc)
     }"

definition RTMGetObserverList ::
  "u8 list option option \<Rightarrow> u32 option \<Rightarrow> table option \<Rightarrow> rtm
     \<Rightarrow> (u8 list option option \<times> u32 option \<times> rtm) option" where
  "RTMGetObserverList obsList obsListLen gatewayTable st =
     (case (gatewayTable, obsList) of
        (Some l, Some _) \<Rightarrow>
          (let n = unat (u_linklist_length (Some l)) in
           case OICCalloc (rtm_mem st) n sizeof_OCObservationId of
             (False, m) \<Rightarrow> map_option (\<lambda>_. (Some None, Some 0, st\<lparr>rtm_mem := m\<rparr>)) obsListLen
           | (True, m) \<Rightarrow> do {
               r \<leftarrow> for_nodes (ll_heap l) (observer_body st) (ll_list l) (replicate n 0, 0);
               (case r of
                  Inl obs \<Rightarrow> Some (Some (Some obs), obsListLen, st\<lparr>rtm_mem := m\<rparr>)
                | Inr (obs, len) \<Rightarrow>
                    map_option (\<lambda>_. (Some (Some obs), Some len, st\<lparr>rtm_mem := m\<rparr>)) obsListLen)
             })
      | _ \<Rightarrow> Some (obsList, obsListLen, st))"

section \<open>Removing gateways\<close>

text \<open>
  A gateway goes together with the routes over it; the entries move to the list \<open>removedGatewayNodes\<close>,
  or are lost when that list cannot grow. The state of the loop is the stores and that list; the
  append is undefined only on a damaged list of removed entries.
\<close>

definition remove_gateway_node ::
  "u32 \<Rightarrow> nat option \<Rightarrow> rtm \<times> table \<Rightarrow> (((rtm \<times> table) \<times> (rtm \<times> table)) + (rtm \<times> table)) option" where
  "remove_gateway_node gatewayId hop s =
     (case hop of
        None \<Rightarrow> Some (Inr s)
      | Some e \<Rightarrow> do {
          entry \<leftarrow> rtm_entries (fst s) e;
          if ge_destination entry = None then Some (Inr s)
          else do {
            here \<leftarrow> dest_is (fst s) (ge_destination entry) gatewayId;
            via \<leftarrow> (if here then Some True else dest_is (fst s) (ge_nextHop entry) gatewayId);
            if via then do {
              (_, removed, st1) \<leftarrow> list_add (fst s) (snd s) e;
              Some (Inl (s, (st1, removed)))
            }
            else Some (Inr s)
          }
        })"

definition RTMRemoveGatewayEntry ::
  "u32 \<Rightarrow> table option \<Rightarrow> table option option \<Rightarrow> rtm
     \<Rightarrow> (OCStackResult \<times> table option \<times> table option option \<times> rtm) option" where
  "RTMRemoveGatewayEntry gatewayId removedGatewayNodes gatewayTable st =
     (case gatewayTable of
        Some (Some l) \<Rightarrow>
          (case (case removedGatewayNodes of Some r \<Rightarrow> (Some r, st) | None \<Rightarrow> list_create st) of
             (None, st1) \<Rightarrow> Some (OC_STACK_NO_MEMORY, None, gatewayTable, st1)
           | (Some r, st1) \<Rightarrow>
               map_option (\<lambda>(ok, l1, st2, r1).
                   (if ok then OC_STACK_OK else OC_STACK_ERROR, Some r1, Some (Some l1), st2))
                 (unlink_loop l (remove_gateway_node gatewayId) (ll_list l) (st1, r)))
      | _ \<Rightarrow> Some (OC_STACK_INVALID_PARAM, removedGatewayNodes, gatewayTable, st))"

text \<open>
  \<open>RTMRemoveGatewayDestEntry\<close>: the loop ends at the entry of the gateway, with its node when the
  entry is to be removed and without when it only is reported through \<open>existEntry\<close>.
\<close>

definition touch_intf :: "u64 \<Rightarrow> CAEndpoint \<Rightarrow> nat u_arraylist option \<Rightarrow> rtm \<Rightarrow> rtm option" where
  "touch_intf now adr arr st =
     map_option (\<lambda>r. case r of Inl st1 \<Rightarrow> st1 | Inr st1 \<Rightarrow> st1)
       (for_slots arr (addr_slot adr (\<lambda>i q di t. Some (Inl (set_intf q (di\<lparr>di_timeElapsed := ucast now\<rparr>) t))) id) 0 st)"

definition remove_dest_body ::
  "u64 \<Rightarrow> u32 \<Rightarrow> u32 \<Rightarrow> CAEndpoint \<Rightarrow> addr \<Rightarrow> nat option \<Rightarrow> rtm \<Rightarrow> ((addr option \<times> nat \<times> rtm) + rtm) option" where
  "remove_dest_body now gatewayId nextHop adr p e st =
     (case e of
        None \<Rightarrow> Some (Inr st)
      | Some a \<Rightarrow> do {
          entry \<leftarrow> rtm_entries st a;
          hop \<leftarrow> dest_is st (ge_destination entry) nextHop;
          st1 \<leftarrow> (if hop then do { (_, d, g) \<leftarrow> deref_gwid st e; touch_intf now adr (gi_destIntfAddr g) st }
                  else Some st);
          here \<leftarrow> dest_is st1 (ge_destination entry) gatewayId;
          if here then do {
            via \<leftarrow> dest_is st1 (ge_nextHop entry) nextHop;
            Some (Inl (if via then Some p else None, a, st1))
          }
          else Some (Inr st1)
        })"

definition RTMRemoveGatewayDestEntry ::
  "u64 \<Rightarrow> u32 \<Rightarrow> u32 \<Rightarrow> RTMDestIntfInfo option \<Rightarrow> nat option option \<Rightarrow> table option option \<Rightarrow> rtm
     \<Rightarrow> (OCStackResult \<times> nat option option \<times> table option option \<times> rtm) option" where
  "RTMRemoveGatewayDestEntry now gatewayId nextHop destInfAdr existEntry gatewayTable st =
     (case (gatewayTable, destInfAdr) of
        (Some (Some l), Some di) \<Rightarrow> do {
          r \<leftarrow> for_nodes (ll_heap l) (remove_dest_body now gatewayId nextHop (di_destIntfAddr di)) (ll_list l) st;
          (case r of
             Inr st1 \<Rightarrow> Some (OC_STACK_ERROR, existEntry, gatewayTable, st1)
           | Inl (None, e, st1) \<Rightarrow> map_option (\<lambda>_. (OC_STACK_ERROR, Some (Some e), gatewayTable, st1)) existEntry
           | Inl (Some p, e, st1) \<Rightarrow>
               (case u_linklist_remove (Some l) (Some (Some p)) of
                  Some (ret, Some l1, _) \<Rightarrow>
                    if ret \<noteq> CA_STATUS_OK then Some (OC_STACK_ERROR, existEntry, Some (Some l1), st1)
                    else Some (OC_STACK_OK, existEntry, Some (Some l1),
                           st1\<lparr>rtm_entries := (rtm_entries st1)(e := None)\<rparr>)
                | _ \<Rightarrow> None))
        }
      | _ \<Rightarrow> Some (OC_STACK_INVALID_PARAM, existEntry, gatewayTable, st))"

section \<open>Looking up routes\<close>

definition neighbour_body ::
  "addr \<Rightarrow> nat option \<Rightarrow> table \<times> rtm \<Rightarrow> ((table \<times> rtm) + (table \<times> rtm)) option" where
  "neighbour_body p e acc =
     (case e of
        None \<Rightarrow> Some (Inr acc)
      | Some a \<Rightarrow> do {
          entry \<leftarrow> rtm_entries (snd acc) a;
          if ge_routeCost entry = 1 then do {
            (_, l1, st1) \<leftarrow> list_add (snd acc) (fst acc) a;
            Some (Inr (l1, st1))
          }
          else if 1 < ge_routeCost entry then Some (Inl acc)
          else Some (Inr acc)
        })"

definition RTMGetNeighbours ::
  "table option option \<Rightarrow> table option \<Rightarrow> rtm \<Rightarrow> (table option option \<times> rtm) option" where
  "RTMGetNeighbours neighbourNodes gatewayTable st =
     (case (neighbourNodes, gatewayTable) of
        (Some _, Some l) \<Rightarrow>
          (case list_create st of
             (None, st1) \<Rightarrow> Some (Some None, st1)
           | (Some n, st1) \<Rightarrow>
               map_option (\<lambda>r. case r of Inl (n1, st2) \<Rightarrow> (Some (Some n1), st2) | Inr (n1, st2) \<Rightarrow> (Some (Some n1), st2))
                 (for_nodes (ll_heap l) neighbour_body (ll_list l) (n, st1)))
      | _ \<Rightarrow> Some (neighbourNodes, st))"

text \<open>The pointer \<open>entry->destination\<close> is read without a test for NULL.\<close>

definition next_hop_body ::
  "rtm \<Rightarrow> u32 \<Rightarrow> addr \<Rightarrow> nat option \<Rightarrow> unit \<Rightarrow> (nat option + unit) option" where
  "next_hop_body st gatewayId p e u =
     (case e of
        None \<Rightarrow> Some (Inr ())
      | Some a \<Rightarrow> do {
          (entry, d, g) \<leftarrow> deref_gwid st e;
          Some (if gi_gatewayId g = gatewayId
                then Inl (if ge_routeCost entry = 1 then Some d else ge_nextHop entry) else Inr ())
        })"

definition RTMGetNextHop :: "u32 \<Rightarrow> table option \<Rightarrow> rtm \<Rightarrow> nat option option" where
  "RTMGetNextHop gatewayId gatewayTable st =
     (if gatewayId = 0 then Some None
      else
        case gatewayTable of
          None \<Rightarrow> Some None
        | Some l \<Rightarrow>
            map_option (\<lambda>r. case r of Inl d \<Rightarrow> d | Inr _ \<Rightarrow> None)
              (for_nodes (ll_heap l) (next_hop_body st gatewayId) (ll_list l) ()))"

section \<open>Sequence numbers and validity\<close>

definition mcast_body ::
  "u32 \<Rightarrow> u16 \<Rightarrow> addr \<Rightarrow> nat option \<Rightarrow> rtm \<Rightarrow> ((OCStackResult \<times> rtm) + rtm) option" where
  "mcast_body gatewayId seqNum p e st =
     (case e of
        None \<Rightarrow> Some (Inr st)
      | Some a \<Rightarrow> do {
          entry \<leftarrow> rtm_entries st a;
          here \<leftarrow> dest_is st (ge_destination entry) gatewayId;
          Some (if \<not> here then Inr st
                else if ge_mcastMessageSeqNum entry = 0 \<or> ge_mcastMessageSeqNum entry < seqNum
                  then Inl (OC_STACK_OK, set_entry a (entry\<lparr>ge_mcastMessageSeqNum := seqNum\<rparr>) st)
                else if ge_mcastMessageSeqNum entry = seqNum then Inl (OC_STACK_DUPLICATE_REQUEST, st)
                else Inl (OC_STACK_COMM_ERROR, st))
        })"

definition RTMUpdateMcastSeqNumber ::
  "u32 \<Rightarrow> u16 \<Rightarrow> table option option \<Rightarrow> rtm \<Rightarrow> (OCStackResult \<times> rtm) option" where
  "RTMUpdateMcastSeqNumber gatewayId seqNum gatewayTable st =
     (case gatewayTable of
        Some (Some l) \<Rightarrow>
          map_option (\<lambda>r. case r of Inl x \<Rightarrow> x | Inr st1 \<Rightarrow> (OC_STACK_OK, st1))
            (for_nodes (ll_heap l) (mcast_body gatewayId seqNum) (ll_list l) st)
      | _ \<Rightarrow> Some (OC_STACK_INVALID_PARAM, st))"

text \<open>
  An address of a neighbour is invalid when it was not heard of for \<open>GATEWAY_ALIVE_TIMEOUT\<close> seconds.
  The subtraction is on 64 bits while the stored time has 32.
\<close>

definition expired :: "u64 \<Rightarrow> RTMDestIntfInfo \<Rightarrow> bool" where
  "expired now di \<longleftrightarrow> GATEWAY_ALIVE_TIMEOUT < now - ucast (di_timeElapsed di)"

definition validity_slot ::
  "u64 \<Rightarrow> nat \<Rightarrow> nat option \<Rightarrow> table \<times> rtm \<Rightarrow> (unit + (table \<times> rtm)) option" where
  "validity_slot now i slot acc =
     (case slot of
        None \<Rightarrow> Some (Inr acc)
      | Some q \<Rightarrow> do {
          di \<leftarrow> rtm_intfs (snd acc) q;
          if expired now di then do {
            (_, invl, st1) \<leftarrow> list_add (set_intf q (di\<lparr>di_isValid := False\<rparr>) (snd acc)) (fst acc) q;
            Some (Inr (invl, st1))
          }
          else Some (Inr acc)
        })"

definition validity_body ::
  "u64 \<Rightarrow> addr \<Rightarrow> nat option \<Rightarrow> table \<times> rtm \<Rightarrow> ((table \<times> rtm) + (table \<times> rtm)) option" where
  "validity_body now p e acc =
     (case e of
        None \<Rightarrow> Some (Inr acc)
      | Some a \<Rightarrow> do {
          entry \<leftarrow> rtm_entries (snd acc) a;
          if ge_routeCost entry = 1 then do {
            (_, d, g) \<leftarrow> deref_gwid (snd acc) e;
            r \<leftarrow> for_slots (gi_destIntfAddr g) (validity_slot now) 0 acc;
            Some (Inr (case r of Inl _ \<Rightarrow> acc | Inr acc1 \<Rightarrow> acc1))
          }
          else if 1 < ge_routeCost entry then Some (Inl acc)
          else Some (Inr acc)
        })"

definition RTMUpdateDestAddrValidity ::
  "u64 \<Rightarrow> table option option \<Rightarrow> table option option \<Rightarrow> rtm
     \<Rightarrow> (OCStackResult \<times> table option option \<times> rtm) option" where
  "RTMUpdateDestAddrValidity presentTime invalidTable gatewayTable st =
     (case (invalidTable, gatewayTable) of
        (Some _, Some (Some l)) \<Rightarrow>
          (case list_create st of
             (None, st1) \<Rightarrow> Some (OC_STACK_NO_MEMORY, Some None, st1)
           | (Some invl, st1) \<Rightarrow>
               map_option (\<lambda>r. case (case r of Inl x \<Rightarrow> x | Inr x \<Rightarrow> x) of
                                 (invl1, st2) \<Rightarrow> (OC_STACK_OK, Some (Some invl1), st2))
                 (for_nodes (ll_heap l) (validity_body presentTime) (ll_list l) (invl, st1)))
      | _ \<Rightarrow> Some (OC_STACK_INVALID_PARAM, invalidTable, st))"

text \<open>
  \<open>RTMRemoveInvalidGateways\<close>. The test \<open>!destCheck && !destCheck->isValid\<close> dereferences a NULL slot
  and never finds an address to remove; after the removal of a gateway the loop reads the next
  pointer of the current node, which the removal has freed.
\<close>

definition invalid_slot :: "nat \<Rightarrow> nat option \<Rightarrow> unit \<Rightarrow> (unit + unit) option" where
  "invalid_slot i destCheck u = (case destCheck of None \<Rightarrow> None | Some _ \<Rightarrow> Some (Inr ()))"

partial_function (option) invalid_loop ::
  "table option \<Rightarrow> table \<Rightarrow> addr option \<Rightarrow> rtm \<Rightarrow> (OCStackResult \<times> table option \<times> table \<times> rtm) option" where
  "invalid_loop invl l it st =
     (case it of
        None \<Rightarrow> Some (OC_STACK_OK, invl, l, st)
      | Some p \<Rightarrow>
          (case u_linklist_get_data (ll_heap l) (Some p) of
             None \<Rightarrow>
               (case u_linklist_get_next (ll_heap l) (Some (Some p)) of
                  Some (_, Some it1) \<Rightarrow> invalid_loop invl l it1 st | _ \<Rightarrow> None)
           | Some e \<Rightarrow>
               (case rtm_entries st e of
                  None \<Rightarrow> None
                | Some entry \<Rightarrow>
                    if ge_destination entry \<noteq> None \<and> ge_routeCost entry = 1 then
                      (case deref_gwid st (Some e) of
                         None \<Rightarrow> None
                       | Some (_, d, g) \<Rightarrow>
                           (case for_slots (gi_destIntfAddr g) invalid_slot 0 () of
                              None \<Rightarrow> None
                            | Some _ \<Rightarrow>
                                if u_arraylist_length (gi_destIntfAddr g) = 0 then
                                  (case RTMRemoveGatewayEntry (gi_gatewayId g) invl (Some (Some l))
                                          (set_gwid d (g\<lparr>gi_destIntfAddr := None\<rparr>) st) of
                                     Some (res, invl1, Some (Some l1), st1) \<Rightarrow>
                                       if res \<noteq> OC_STACK_OK then Some (OC_STACK_ERROR, invl1, l1, st1)
                                       else (case u_linklist_get_next (ll_heap l1) (Some (Some p)) of
                                               Some (_, Some it1) \<Rightarrow> invalid_loop invl1 l1 it1 st1 | _ \<Rightarrow> None)
                                   | _ \<Rightarrow> None)
                                else
                                  (case u_linklist_get_next (ll_heap l) (Some (Some p)) of
                                     Some (_, Some it1) \<Rightarrow> invalid_loop invl l it1 st | _ \<Rightarrow> None)))
                    else if 1 < ge_routeCost entry then Some (OC_STACK_OK, invl, l, st)
                    else (case u_linklist_get_next (ll_heap l) (Some (Some p)) of
                            Some (_, Some it1) \<Rightarrow> invalid_loop invl l it1 st | _ \<Rightarrow> None))))"

definition RTMRemoveInvalidGateways ::
  "table option option \<Rightarrow> table option option \<Rightarrow> rtm
     \<Rightarrow> (OCStackResult \<times> table option option \<times> table option option \<times> rtm) option" where
  "RTMRemoveInvalidGateways invalidTable gatewayTable st =
     (case (invalidTable, gatewayTable) of
        (Some _, Some (Some l)) \<Rightarrow>
          (case list_create st of
             (None, st1) \<Rightarrow> Some (OC_STACK_NO_MEMORY, Some None, gatewayTable, st1)
           | (Some invl, st1) \<Rightarrow>
               map_option (\<lambda>(r, invl1, l1, st2). (r, Some invl1, Some (Some l1), st2))
                 (invalid_loop (Some invl) l (ll_list l) st1))
      | _ \<Rightarrow> Some (OC_STACK_INVALID_PARAM, invalidTable, gatewayTable, st))"

text \<open>Every matching address is refreshed, then the sequence number of the route is checked.\<close>

definition params_body ::
  "u64 \<Rightarrow> u32 \<Rightarrow> u32 \<Rightarrow> CAEndpoint \<Rightarrow> bool \<Rightarrow> addr \<Rightarrow> nat option \<Rightarrow> rtm \<Rightarrow> ((OCStackResult \<times> rtm) + rtm) option" where
  "params_body now gatewayId seqNum adr forceUpdate p e st =
     (case e of
        None \<Rightarrow> Some (Inr st)
      | Some a \<Rightarrow> do {
          entry \<leftarrow> rtm_entries st a;
          here \<leftarrow> dest_is st (ge_destination entry) gatewayId;
          if \<not> here then Some (Inr st)
          else do {
            (_, d, g) \<leftarrow> deref_gwid st e;
            r \<leftarrow> for_slots (gi_destIntfAddr g)
              (addr_slot adr (\<lambda>i q di t. Some (Inr (set_intf q (di\<lparr>di_timeElapsed := ucast now, di_isValid := True\<rparr>) t))) id) 0 st;
            let st1 = (case r of Inl t \<Rightarrow> t | Inr t \<Rightarrow> t);
            Some (if ge_seqNum entry \<noteq> 0 \<and> seqNum = ge_seqNum entry then Inl (OC_STACK_DUPLICATE_REQUEST, st1)
                  else if ge_seqNum entry \<noteq> 0 \<and> seqNum \<noteq> ge_seqNum entry + 1 \<and> \<not> forceUpdate
                    then Inl (OC_STACK_COMM_ERROR, st1)
                  else Inl (OC_STACK_OK, set_entry a (entry\<lparr>ge_seqNum := seqNum\<rparr>) st1))
          }
        })"

definition RTMUpdateEntryParameters ::
  "u64 \<Rightarrow> u32 \<Rightarrow> u32 \<Rightarrow> RTMDestIntfInfo option \<Rightarrow> table option option \<Rightarrow> bool \<Rightarrow> rtm \<Rightarrow> (OCStackResult \<times> rtm) option" where
  "RTMUpdateEntryParameters now gatewayId seqNum destAdr gatewayTable forceUpdate st =
     (case (gatewayTable, destAdr) of
        (Some (Some l), Some di) \<Rightarrow>
          map_option (\<lambda>r. case r of Inl x \<Rightarrow> x | Inr st1 \<Rightarrow> (OC_STACK_OK, st1))
            (for_nodes (ll_heap l) (params_body now gatewayId seqNum (di_destIntfAddr di) forceUpdate) (ll_list l) st)
      | _ \<Rightarrow> Some (OC_STACK_INVALID_PARAM, st))"

end
