(* ===== verification/Routes.thy ===== *)
theory Routes
  imports RoutingTable
begin

text \<open>
  What the routing tables mean and how the operations of RoutingTable act on that: the gateway table
  is a list of routes (destination, next hop, cost), the endpoint table a list of ids with addresses.
  The invariant says that every pointer of a table is live, that destinations are unique, that
  neighbours come first and that every next hop is a neighbour.
\<close>

section \<open>Routes\<close>

text \<open>
  What the table means: a list of routes, each a destination, the gateway to send to (\<^const>\<open>None\<close> for
  a neighbour) and the cost. Neighbours come first, and every next hop is a neighbour.
\<close>

type_synonym route = "u32 \<times> u32 option \<times> u32"

definition is_neighbour :: "route \<Rightarrow> bool" where "is_neighbour r \<longleftrightarrow> snd (snd r) = 1"

definition route_valid :: "route list \<Rightarrow> route \<Rightarrow> bool" where
  "route_valid rs r = (case r of (g, h, c) \<Rightarrow> (case h of None \<Rightarrow> c = 1 | Some k \<Rightarrow> 1 < c \<and> (k, None, 1) \<in> set rs))"

definition routes_ok :: "route list \<Rightarrow> bool" where
  "routes_ok rs \<longleftrightarrow> distinct (map fst rs) \<and> (\<forall>r\<in>set rs. route_valid rs r)
     \<and> sorted_wrt (\<lambda>r q. is_neighbour q \<longrightarrow> is_neighbour r) rs"

text \<open>
  The contract of \<open>RTMAddGatewayEntry\<close> when no allocation fails. A neighbour goes to the head, a
  remote gateway to the end; a known route is replaced by a cheaper one, or by one of the same cost
  over another gateway, and stays in place unless it becomes a neighbour. For a known neighbour only
  the address matters (\<open>known\<close>: it is one of its addresses).
\<close>

fun replace_route :: "u32 \<Rightarrow> route \<Rightarrow> route list \<Rightarrow> route list" where
  "replace_route g r [] = []"
| "replace_route g r (q # rs) = (if fst q = g then r # rs else q # replace_route g r rs)"

definition add_route ::
  "bool \<Rightarrow> u32 \<Rightarrow> u32 \<Rightarrow> u32 \<Rightarrow> route list \<Rightarrow> OCStackResult \<times> route list" where
  "add_route known g n c rs =
     (if c = 0 \<or> (c = 1) \<noteq> (n = 0) \<or> (n \<noteq> 0 \<and> n \<notin> fst ` set rs) then (OC_STACK_ERROR, rs)
      else
        case find (\<lambda>r. fst r = g) rs of
          None \<Rightarrow> (OC_STACK_OK, if c = 1 then (g, None, 1) # rs else rs @ [(g, Some n, c)])
        | Some (_, h, k) \<Rightarrow>
            if k = 1 \<and> n = 0 then (if known then OC_STACK_ERROR else OC_STACK_DUPLICATE_REQUEST, rs)
            else if k < c then (OC_STACK_ERROR, rs)
            else if k = c \<and> h = Some n then (OC_STACK_DUPLICATE_REQUEST, rs)
            else if n \<noteq> 0 then (OC_STACK_OK, replace_route g (g, Some n, c) rs)
            else (OC_STACK_OK, (g, None, 1) # filter (\<lambda>r. fst r \<noteq> g) rs))"

definition goes_over :: "u32 \<Rightarrow> route \<Rightarrow> bool" where
  "goes_over g r \<longleftrightarrow> fst r = g \<or> fst (snd r) = Some g"

lemma find_SomeD: "find P xs = Some x \<Longrightarrow> x \<in> set xs \<and> P x"
  by (induction xs) (auto split: if_splits)

lemma routes_ok_unique:
  "routes_ok rs \<Longrightarrow> r \<in> set rs \<Longrightarrow> q \<in> set rs \<Longrightarrow> fst r = fst q \<Longrightarrow> r = q"
  by (auto simp: routes_ok_def dest: map_of_is_SomeI) (metis distinct_map inj_onD prod.collapse fst_conv)

lemma sorted_insert_neighbour:
  "is_neighbour r \<Longrightarrow> sorted_wrt (\<lambda>r q. is_neighbour q \<longrightarrow> is_neighbour r) rs
     \<Longrightarrow> sorted_wrt (\<lambda>r q. is_neighbour q \<longrightarrow> is_neighbour r) (r # rs)"
  by simp

lemma replace_route_set:
  assumes "fst r = g" "distinct (map fst rs)"
  shows "set (replace_route g r rs) =
    (if g \<in> fst ` set rs then insert r {q \<in> set rs. fst q \<noteq> g} else set rs)"
  using assms
proof (induction rs)
  case (Cons q rs)
  have "set rs = {p \<in> set rs. fst p \<noteq> g}" if "fst q = g" using that Cons.prems by (auto simp: image_iff)
  with Cons show ?case by (cases "fst q = g") auto
qed simp

lemma word_gt_one: "c \<noteq> 0 \<Longrightarrow> c \<noteq> 1 \<Longrightarrow> 1 < (c :: u32)"
proof -
  assume "c \<noteq> 0" "c \<noteq> 1"
  then have "unat c \<noteq> 0" "unat c \<noteq> 1" by (metis unat_eq_zero, metis unat_1 unsigned_word_eqI)
  then show ?thesis by (simp add: word_less_nat_alt)
qed

lemma replace_route_fst: "fst r = g \<Longrightarrow> map fst (replace_route g r rs) = map fst rs"
  by (induction rs) auto

lemma replace_route_sorted:
  assumes "sorted_wrt (\<lambda>r q. is_neighbour q \<longrightarrow> is_neighbour r) rs" "\<not> is_neighbour r"
    and "\<And>q. q \<in> set rs \<Longrightarrow> fst q = g \<Longrightarrow> \<not> is_neighbour q"
  shows "sorted_wrt (\<lambda>r q. is_neighbour q \<longrightarrow> is_neighbour r) (replace_route g r rs)"
proof -
  have mem: "q \<in> set (replace_route g r rs) \<Longrightarrow> q = r \<or> q \<in> set rs" for q rs
    by (induction rs) (auto split: if_splits)
  from assms show ?thesis by (induction rs) (auto dest: mem)
qed

text \<open>The two operations on routes keep the invariant.\<close>

lemma routes_ok_cons:
  assumes ok: "routes_ok rs" and new: "g \<notin> fst ` set rs"
  shows "routes_ok ((g, None, 1) # rs)"
  using assms by (auto simp: routes_ok_def route_valid_def is_neighbour_def image_iff split: option.splits)

lemma routes_ok_snoc:
  assumes ok: "routes_ok rs" and new: "g \<notin> fst ` set rs" and c: "1 < c" and n: "(n, None, 1) \<in> set rs"
  shows "routes_ok (rs @ [(g, Some n, c)])"
  using assms
  by (auto simp: routes_ok_def route_valid_def is_neighbour_def image_iff sorted_wrt_append split: option.splits)

lemma route_valid_sub:
  "route_valid rs r \<Longrightarrow> (\<And>k. fst (snd r) = Some k \<Longrightarrow> (k, None, 1) \<in> set rs \<Longrightarrow> (k, None, 1) \<in> set rs') \<Longrightarrow> route_valid rs' r"
  by (auto simp: route_valid_def split: option.splits prod.splits)

lemma routes_ok_replace:
  assumes ok: "routes_ok rs" and old: "(g, h, k) \<in> set rs" "k \<noteq> 1" and c: "1 < c" and n: "(n, None, 1) \<in> set rs"
  shows "routes_ok (replace_route g (g, Some n, c) rs)"
proof -
  let ?rs = "replace_route g (g, Some n, c) rs"
  have d: "distinct (map fst rs)" using ok by (simp add: routes_ok_def)
  have s: "set ?rs = insert (g, Some n, c) {q \<in> set rs. fst q \<noteq> g}"
    using replace_route_set [OF _ d, of "(g, Some n, c)" g] old by (force simp: image_iff)
  have g: "q = (g, h, k)" if "q \<in> set rs" "fst q = g" for q
    using routes_ok_unique [OF ok that(1) old(1)] that by simp
  have keep: "(j, None, 1) \<in> set ?rs" if "(j, None, 1) \<in> set rs" for j
    using that g [OF that] old by (auto simp: s)
  have "route_valid ?rs q" if "q \<in> set ?rs" for q
  proof (cases "q = (g, Some n, c)")
    case True
    then show ?thesis using c keep [OF n] by (simp add: route_valid_def)
  next
    case False
    then have "route_valid rs q" using that ok by (auto simp: s routes_ok_def)
    then show ?thesis by (rule route_valid_sub) (rule keep)
  qed
  moreover have "sorted_wrt (\<lambda>r q. is_neighbour q \<longrightarrow> is_neighbour r) ?rs"
    using ok c old g by (intro replace_route_sorted) (auto simp: routes_ok_def is_neighbour_def)
  ultimately show ?thesis using d by (simp add: routes_ok_def replace_route_fst)
qed

lemma routes_ok_filter:
  assumes ok: "routes_ok rs"
    and keep: "\<And>r k. r \<in> set rs \<Longrightarrow> P r \<Longrightarrow> fst (snd r) = Some k \<Longrightarrow> (k, None, 1) \<in> set rs \<Longrightarrow> P (k, None, 1)"
  shows "routes_ok (filter P rs)"
proof -
  have "route_valid (filter P rs) r" if "r \<in> set rs" "P r" for r
  proof (rule route_valid_sub)
    show "route_valid rs r" using ok that by (simp add: routes_ok_def)
  qed (use keep that in auto)
  then show ?thesis
    using ok by (auto simp: routes_ok_def distinct_map_filter sorted_wrt_filter)
qed

lemma routes_ok_promote:
  assumes ok: "routes_ok rs" and old: "(g, h, k) \<in> set rs" "k \<noteq> 1"
  shows "routes_ok ((g, None, 1) # filter (\<lambda>r. fst r \<noteq> g) rs)"
proof (rule routes_ok_cons)
  show "routes_ok (filter (\<lambda>r. fst r \<noteq> g) rs)"
  proof (rule routes_ok_filter [OF ok])
    fix r j assume "(j, None, 1) \<in> set rs"
    with routes_ok_unique [OF ok this old(1)] old show "fst (j, None, 1) \<noteq> g" by auto
  qed
qed auto

text \<open>Every next hop is meant to be a neighbour: the sender of the route.\<close>

definition hop_contract :: "u32 \<Rightarrow> route list \<Rightarrow> bool" where
  "hop_contract n rs \<longleftrightarrow> (\<forall>r\<in>set rs. fst r = n \<longrightarrow> is_neighbour r)"

lemma hop_contract_mem:
  "routes_ok rs \<Longrightarrow> hop_contract n rs \<Longrightarrow> n \<in> fst ` set rs \<Longrightarrow> (n, None, 1) \<in> set rs"
  by (force simp: routes_ok_def hop_contract_def route_valid_def is_neighbour_def split: option.splits)

lemma add_route_ok:
  assumes ok: "routes_ok rs" and hop: "n \<noteq> 0 \<Longrightarrow> hop_contract n rs"
  shows "routes_ok (snd (add_route known g n c rs))"
proof (cases "c = 0 \<or> (c = 1) \<noteq> (n = 0) \<or> (n \<noteq> 0 \<and> n \<notin> fst ` set rs)")
  case True
  then show ?thesis using ok by (simp add: add_route_def)
next
  case False
  have c: "n \<noteq> 0 \<Longrightarrow> 1 < c" using False word_gt_one by auto
  have n: "n \<noteq> 0 \<Longrightarrow> (n, None, 1) \<in> set rs" using hop_contract_mem [OF ok hop] False by simp
  show ?thesis
  proof (cases "find (\<lambda>r. fst r = g) rs")
    case None
    then have "g \<notin> fst ` set rs" by (auto simp: find_None_iff)
    with None False c n ok show ?thesis by (auto simp: add_route_def routes_ok_cons routes_ok_snoc)
  next
    case (Some r)
    then obtain h k where r: "r = (g, h, k)" "(g, h, k) \<in> set rs" using find_SomeD [OF Some] by (cases r) auto
    have "routes_ok (replace_route g (g, Some n, c) rs)" if "k \<noteq> 1" "n \<noteq> 0"
      using routes_ok_replace [OF ok r(2) that(1) c n] that by simp
    moreover have "k \<noteq> 1" if "n \<noteq> 0" "\<not> k < c" using c that by auto
    ultimately show ?thesis
      using Some r False ok routes_ok_promote [OF ok r(2)] by (auto simp: add_route_def)
  qed
qed

lemma remove_routes_ok:
  assumes ok: "routes_ok rs"
  shows "routes_ok (filter (\<lambda>r. \<not> goes_over g r) rs)"
  by (rule routes_ok_filter [OF ok]) (auto simp: goes_over_def)

section \<open>The table as a list of routes\<close>

definition dest_ptr :: "rtm \<Rightarrow> nat \<Rightarrow> nat" where
  "dest_ptr st e = the (ge_destination (the (rtm_entries st e)))"

definition gw_id :: "rtm \<Rightarrow> nat \<Rightarrow> u32" where
  "gw_id st d = gi_gatewayId (the (rtm_gwids st d))"

definition route_of :: "rtm \<Rightarrow> nat \<Rightarrow> route" where
  "route_of st e = (let x = the (rtm_entries st e) in
     (gw_id st (dest_ptr st e), map_option (gw_id st) (ge_nextHop x), ge_routeCost x))"

definition routes :: "rtm \<Rightarrow> table \<Rightarrow> addr list \<Rightarrow> route list" where
  "routes st l ps = map (route_of st) (ll_data l ps)"

definition intfs_live :: "rtm \<Rightarrow> nat u_arraylist option \<Rightarrow> bool" where
  "intfs_live st arr \<longleftrightarrow> al_ok arr \<and> (\<forall>x\<in>set (al_abs arr). x \<noteq> None \<and> rtm_intfs st (the x) \<noteq> None)"

definition gwid_live :: "rtm \<Rightarrow> nat \<Rightarrow> bool" where
  "gwid_live st d = (case rtm_gwids st d of None \<Rightarrow> False | Some g \<Rightarrow> intfs_live st (gi_destIntfAddr g))"

text \<open>An entry owns its gateway id; its next hop is the id of an entry of the table.\<close>

definition entry_live :: "rtm \<Rightarrow> nat set \<Rightarrow> nat \<Rightarrow> bool" where
  "entry_live st ds e =
     (case rtm_entries st e of
        None \<Rightarrow> False
      | Some x \<Rightarrow> (case ge_destination x of None \<Rightarrow> False | Some d \<Rightarrow> gwid_live st d)
                \<and> (case ge_nextHop x of None \<Rightarrow> True | Some n \<Rightarrow> n \<in> ds))"

definition entries_live :: "rtm \<Rightarrow> nat list \<Rightarrow> bool" where
  "entries_live st es \<longleftrightarrow> (\<forall>e\<in>set es. entry_live st (dest_ptr st ` set es) e)"

definition unused :: "rtm \<Rightarrow> table \<Rightarrow> bool" where
  "unused st l \<longleftrightarrow> (\<forall>a\<ge>rtm_fresh st. rtm_entries st a = None \<and> rtm_gwids st a = None \<and> rtm_intfs st a = None
     \<and> ll_heap l a = None)"

definition rt_inv :: "rtm \<Rightarrow> table \<Rightarrow> addr list \<Rightarrow> bool" where
  "rt_inv st l ps \<longleftrightarrow> ll_wf l ps \<and> entries_live st (ll_data l ps) \<and> routes_ok (routes st l ps) \<and> unused st l"

lemma entry_live_iff:
  "entry_live st ds e \<longleftrightarrow> (\<exists>x d g. rtm_entries st e = Some x \<and> ge_destination x = Some d \<and> rtm_gwids st d = Some g
     \<and> intfs_live st (gi_destIntfAddr g) \<and> (\<forall>n. ge_nextHop x = Some n \<longrightarrow> n \<in> ds))"
  by (cases "rtm_entries st e") (auto simp: entry_live_def gwid_live_def split: option.splits)

lemma entry_liveE:
  assumes "entries_live st es" and "e \<in> set es"
  obtains x d g where "rtm_entries st e = Some x" "ge_destination x = Some d" "rtm_gwids st d = Some g"
    "intfs_live st (gi_destIntfAddr g)" "dest_ptr st e = d" "gw_id st d = gi_gatewayId g"
    "route_of st e = (gi_gatewayId g, map_option (gw_id st) (ge_nextHop x), ge_routeCost x)"
    "\<And>n. ge_nextHop x = Some n \<Longrightarrow> n \<in> dest_ptr st ` set es"
proof -
  from assms have "entry_live st (dest_ptr st ` set es) e" by (simp add: entries_live_def)
  then obtain x d g where x: "rtm_entries st e = Some x" "ge_destination x = Some d" "rtm_gwids st d = Some g"
    "intfs_live st (gi_destIntfAddr g)" and hop: "\<forall>n. ge_nextHop x = Some n \<longrightarrow> n \<in> dest_ptr st ` set es"
    unfolding entry_live_iff by blast
  have p: "dest_ptr st e = d" "gw_id st d = gi_gatewayId g" by (simp_all add: dest_ptr_def gw_id_def x)
  then have "route_of st e = (gi_gatewayId g, map_option (gw_id st) (ge_nextHop x), ge_routeCost x)"
    by (simp add: route_of_def x)
  with x p hop show thesis by (intro that) blast+
qed

text \<open>A change that keeps the entries and the gateway ids that exist, with live addresses, keeps the routes.\<close>

definition keeps :: "rtm \<Rightarrow> rtm \<Rightarrow> bool" where
  "keeps st st' \<longleftrightarrow> (\<forall>e x. rtm_entries st e = Some x \<longrightarrow> rtm_entries st' e = Some x)
     \<and> (\<forall>d g. rtm_gwids st d = Some g \<longrightarrow> (\<exists>g'. rtm_gwids st' d = Some g' \<and> gi_gatewayId g' = gi_gatewayId g
          \<and> (intfs_live st (gi_destIntfAddr g) \<longrightarrow> intfs_live st' (gi_destIntfAddr g'))))"

lemma keeps_refl [simp]: "keeps st st"
  by (simp add: keeps_def)

lemma keeps_trans: "keeps st st' \<Longrightarrow> keeps st' st'' \<Longrightarrow> keeps st st''"
  unfolding keeps_def by metis

lemma keeps_entry:
  assumes live: "entries_live st es" and k: "keeps st st'" and e: "e \<in> set es"
  shows "dest_ptr st' e = dest_ptr st e" and "route_of st' e = route_of st e" and "gwid_live st' (dest_ptr st e)"
    and "rtm_entries st' e = rtm_entries st e"
proof -
  obtain x d g where x: "rtm_entries st e = Some x" "ge_destination x = Some d" "rtm_gwids st d = Some g"
    "intfs_live st (gi_destIntfAddr g)" "dest_ptr st e = d"
    "route_of st e = (gi_gatewayId g, map_option (gw_id st) (ge_nextHop x), ge_routeCost x)"
    and hop: "\<And>n. ge_nextHop x = Some n \<Longrightarrow> n \<in> dest_ptr st ` set es"
    using entry_liveE [OF live e] by metis
  have e': "rtm_entries st' e = Some x" using k x by (simp add: keeps_def)
  obtain g' where g': "rtm_gwids st' d = Some g'" "gi_gatewayId g' = gi_gatewayId g" "intfs_live st' (gi_destIntfAddr g')"
    using k x(3,4) unfolding keeps_def by meson
  have "gw_id st' n = gw_id st n" if n: "ge_nextHop x = Some n" for n
  proof -
    obtain e1 where "e1 \<in> set es" "n = dest_ptr st e1" using hop [OF n] by auto
    then obtain gn where "rtm_gwids st n = Some gn" using entry_liveE [OF live] by metis
    moreover from this obtain g' where "rtm_gwids st' n = Some g'" "gi_gatewayId g' = gi_gatewayId gn"
      using k unfolding keeps_def by meson
    ultimately show ?thesis by (simp add: gw_id_def)
  qed
  with x e' g' show "dest_ptr st' e = dest_ptr st e" "route_of st' e = route_of st e" "gwid_live st' (dest_ptr st e)"
    "rtm_entries st' e = rtm_entries st e"
    by (auto simp: dest_ptr_def route_of_def Let_def gw_id_def gwid_live_def map_option_case split: option.splits)
qed

lemma keeps_live:
  assumes live: "entries_live st es" and k: "keeps st st'"
  shows "entries_live st' es" and "map (route_of st') es = map (route_of st) es"
    and "dest_ptr st' ` set es = dest_ptr st ` set es"
proof -
  show ds: "dest_ptr st' ` set es = dest_ptr st ` set es"
    by (rule image_cong) (auto simp: keeps_entry(1) [OF live k])
  show "map (route_of st') es = map (route_of st) es" by (simp add: keeps_entry(2) [OF live k])
  have "entry_live st' (dest_ptr st ` set es) e" if e: "e \<in> set es" for e
  proof -
    obtain x d where x: "rtm_entries st e = Some x" "ge_destination x = Some d" "dest_ptr st e = d"
      and hop: "\<And>n. ge_nextHop x = Some n \<Longrightarrow> n \<in> dest_ptr st ` set es"
      using entry_liveE [OF live e] by metis
    with keeps_entry(3,4) [OF live k e] show ?thesis
      by (auto simp: entry_live_iff gwid_live_def split: option.splits)
  qed
  then show "entries_live st' es" unfolding entries_live_def ds by blast
qed

text \<open>The lists and objects when no allocation fails.\<close>

lemma mem_update [simp]: "rtm_mem st = m \<Longrightarrow> st\<lparr>rtm_mem := m\<rparr> = st"
  by (cases st) simp

lemma alloc_ok [simp]:
  "OICMalloc [] sizeof_u_linklist_data = (True, [])" "OICMalloc [] sizeof_u_linklist = (True, [])"
  "OICCalloc [] (Suc 0) sizeof_GatewayEntry = (True, [])" "OICCalloc [] (Suc 0) sizeof_GatewayId = (True, [])"
  "OICCalloc [] (Suc 0) sizeof_DestIntfInfo = (True, [])" "OICCalloc [] (Suc 0) sizeof_EndpointEntry = (True, [])"
  by (simp_all add: OICMalloc_def OICCalloc_def max_object_def sizeof_u_linklist_data_def sizeof_u_linklist_def
      sizeof_GatewayEntry_def sizeof_GatewayId_def sizeof_DestIntfInfo_def sizeof_EndpointEntry_def)

lemma new_object_ok [simp]:
  assumes "rtm_mem st = []"
  shows "new_object sizeof_GatewayEntry st = (Some (rtm_fresh st), st\<lparr>rtm_fresh := Suc (rtm_fresh st)\<rparr>)"
    and "new_object sizeof_GatewayId st = (Some (rtm_fresh st), st\<lparr>rtm_fresh := Suc (rtm_fresh st)\<rparr>)"
    and "new_object sizeof_DestIntfInfo st = (Some (rtm_fresh st), st\<lparr>rtm_fresh := Suc (rtm_fresh st)\<rparr>)"
    and "new_object sizeof_EndpointEntry st = (Some (rtm_fresh st), st\<lparr>rtm_fresh := Suc (rtm_fresh st)\<rparr>)"
  using assms by (simp_all add: new_object_def)

lemma list_create_ok:
  "rtm_mem st = [] \<Longrightarrow> list_create st = (Some \<lparr>ll_heap = (\<lambda>_. None), ll_list = None, ll_size = 0\<rparr>, st)"
  by (simp add: list_create_def u_linklist_create_def)

lemma add_dom:
  assumes "u_linklist_add m a (Some l) (Some x) = Some (r, Some l', m')" and "ll_heap l q = None" and "q \<noteq> a"
  shows "ll_heap l' q = None"
  using assms by (auto simp: u_linklist_add_def Let_def split: prod.splits bool.splits option.splits if_splits)

lemma list_add_ok:
  assumes wf: "ll_wf l ps" and fresh: "\<forall>a\<ge>rtm_fresh st. ll_heap l a = None" and room: "length ps + 1 < 2 ^ 32"
    and mem: "rtm_mem st = []"
  obtains l' where "list_add st l x = Some (CA_STATUS_OK, l', st\<lparr>rtm_fresh := Suc (rtm_fresh st)\<rparr>)"
    "ll_wf l' (ps @ [rtm_fresh st])" "ll_data l' (ps @ [rtm_fresh st]) = ll_data l ps @ [x]"
    "\<forall>a\<ge>Suc (rtm_fresh st). ll_heap l' a = None"
proof -
  have f: "ll_heap l (rtm_fresh st) = None" using fresh by simp
  obtain r l' m' where l': "u_linklist_add [] (rtm_fresh st) (Some l) (Some x) = Some (r, Some l', m')"
    "r = CA_STATUS_OK" "ll_wf l' (ps @ [rtm_fresh st])" "ll_data l' (ps @ [rtm_fresh st]) = ll_data l ps @ [x]"
    using add_ok [OF wf f room, of "[]" x] by auto
  have m': "m' = []" using l'(1) by (auto simp: u_linklist_add_def Let_def split: option.splits)
  have "ll_heap l' a = None" if "Suc (rtm_fresh st) \<le> a" for a
    using add_dom [OF l'(1)] fresh that by auto
  with l' m' mem show thesis by (intro that) (auto simp: list_add_def)
qed

lemma list_add_head_ok:
  assumes wf: "ll_wf l ps" and fresh: "\<forall>a\<ge>rtm_fresh st. ll_heap l a = None" and room: "length ps + 1 < 2 ^ 32"
    and mem: "rtm_mem st = []"
  obtains l' where "list_add_head st l x = Some (CA_STATUS_OK, l', st\<lparr>rtm_fresh := Suc (rtm_fresh st)\<rparr>)"
    "ll_wf l' (rtm_fresh st # ps)" "ll_data l' (rtm_fresh st # ps) = x # ll_data l ps"
    "\<forall>a\<ge>Suc (rtm_fresh st). ll_heap l' a = None"
proof -
  have f: "ll_heap l (rtm_fresh st) = None" using fresh by simp
  obtain r l' m' where l': "u_linklist_add_head [] (rtm_fresh st) (Some l) (Some x) = (r, Some l', m')"
    "r = CA_STATUS_OK" "ll_wf l' (rtm_fresh st # ps)" "ll_data l' (rtm_fresh st # ps) = x # ll_data l ps"
    using add_head_ok [OF wf f room, of "[]" x] by auto
  have "m' = []" "\<And>a. Suc (rtm_fresh st) \<le> a \<Longrightarrow> ll_heap l' a = None"
    using l'(1) fresh by (auto simp: u_linklist_add_head_def)
  with l' mem show thesis by (intro that) (auto simp: list_add_head_def)
qed

lemma find_map: "find P (map f xs) = map_option f (find (\<lambda>x. P (f x)) xs)"
  by (induction xs) auto

lemma nodes_find:
  "map_option (the \<circ> snd) (find (\<lambda>(p, x). P (the x)) (ll_nodes l ps)) = find P (ll_data l ps)"
  by (induction ps) (auto simp: ll_data_def)

lemma nodes_find_Some:
  assumes "find (\<lambda>(p, x). P (the x)) (ll_nodes l ps) = Some (p, x)"
  obtains xs ys e where "ps = xs @ p # ys" "x = Some e" "nd_data (the (ll_heap l p)) = e" "P e"
    "ll_data l ps = ll_data l xs @ e # ll_data l ys" "find P (ll_data l ps) = Some e"
proof -
  from find_SomeD [OF assms] have p: "p \<in> set ps" "x = Some (nd_data (the (ll_heap l p)))" "P (the x)"
    by (auto simp: ll_nodes_def)
  obtain xs ys where "ps = xs @ p # ys" using p(1) by (auto dest: split_list)
  with p nodes_find [of P l ps] assms show thesis by (intro that [of xs ys]) (auto simp: ll_data_def)
qed

text \<open>Both searches of \<open>RTMAddGatewayEntry\<close> at once.\<close>

abbreviation id_of :: "rtm \<Rightarrow> nat \<Rightarrow> u32" where
  "id_of st e \<equiv> fst (route_of st e)"

lemma id_of_ptr: "id_of st e = gw_id st (dest_ptr st e)"
  by (simp add: route_of_def Let_def)

lemma dest_is_live:
  assumes "entries_live st es" and "e \<in> set es"
  obtains x where "rtm_entries st e = Some x" "\<And>g. dest_is st (ge_destination x) g = Some (id_of st e = g)"
    "ge_destination x = Some (dest_ptr st e)"
  by (rule entry_liveE [OF assms]) (auto simp: dest_is_def)

lemma find_body_fold:
  assumes "\<And>p x. (p, x) \<in> set xs \<Longrightarrow> \<exists>e. x = Some e \<and> e \<in> set es" and live: "entries_live st es"
    and "distinct (map (\<lambda>(p, x). id_of st (the x)) xs)"
    and "a = None \<or> b = None" and "b \<noteq> None \<Longrightarrow> \<forall>(p, x)\<in>set xs. id_of st (the x) \<noteq> n"
  shows "map_option (\<lambda>r. case r of Inl x \<Rightarrow> x | Inr x \<Rightarrow> x) (fold_loop (find_body st g n) xs (a, b)) =
    Some (if a \<noteq> None then a else map_option fst (find (\<lambda>(p, x). id_of st (the x) = g) xs),
      if n = 0 then b else case find (\<lambda>(p, x). id_of st (the x) = n) xs of
        None \<Rightarrow> b | Some (p, x) \<Rightarrow> Some (dest_ptr st (the x)))"
  using assms(1,3-)
proof (induction xs arbitrary: a b)
  case (Cons y ys)
  obtain p e where y: "y = (p, Some e)" and e: "e \<in> set es" using Cons.prems(1) by (cases y) force
  obtain x where x: "rtm_entries st e = Some x" "\<And>g. dest_is st (ge_destination x) g = Some (id_of st e = g)"
    "ge_destination x = Some (dest_ptr st e)"
    using dest_is_live [OF live e] by blast
  let ?a = "if a = None \<and> id_of st e = g then Some p else a"
  let ?b = "if n \<noteq> 0 \<and> id_of st e = n then Some (dest_ptr st e) else b"
  have step: "find_body st g n p (Some e) (a, b) =
      Some (if ?a \<noteq> None \<and> ?b \<noteq> None then Inl (?a, ?b) else Inr (?a, ?b))"
    using x by (auto simp: find_body_def)
  have nf: "find (\<lambda>(p, x). id_of st (the x) = n) ys = None" if "?b \<noteq> None"
  proof -
    have "(q, x) \<notin> set ys \<or> id_of st (the x) \<noteq> n" for q x
    proof (cases "b = None")
      case True
      then have "id_of st e = n" using that by (auto split: if_splits)
      then show ?thesis using Cons.prems(2) y by (force simp: image_iff)
    next
      case False
      then show ?thesis using Cons.prems(4) by auto
    qed
    then show ?thesis unfolding find_None_iff by auto
  qed
  show ?case
  proof (cases "?a \<noteq> None \<and> ?b \<noteq> None")
    case True
    then show ?thesis using step nf Cons.prems(3) y by (auto split: if_splits)
  next
    case False
    have "map_option (\<lambda>r. case r of Inl x \<Rightarrow> x | Inr x \<Rightarrow> x) (fold_loop (find_body st g n) ys (?a, ?b)) =
      Some (if ?a \<noteq> None then ?a else map_option fst (find (\<lambda>(p, x). id_of st (the x) = g) ys),
        if n = 0 then ?b else case find (\<lambda>(p, x). id_of st (the x) = n) ys of
          None \<Rightarrow> ?b | Some (p, x) \<Rightarrow> Some (dest_ptr st (the x)))"
    proof (rule Cons.IH)
      show "?a = None \<or> ?b = None" using False by blast
      show "\<forall>(p, x)\<in>set ys. id_of st (the x) \<noteq> n" if "?b \<noteq> None"
        using nf [OF that] by (auto simp: find_None_iff)
    qed (use Cons.prems in auto)
    with False step y Cons.prems(3) nf show ?thesis by (auto split: if_splits option.splits)
  qed
qed auto

lemma find_nodes_eq:
  assumes "rt_inv st l ps"
  shows "find_nodes st g n l = Some (map_option fst (find (\<lambda>(p, x). id_of st (the x) = g) (ll_nodes l ps)),
    if n = 0 then None else map_option (dest_ptr st) (find (\<lambda>e. id_of st e = n) (ll_data l ps)))"
proof -
  from assms have wf: "ll_wf l ps" and live: "entries_live st (ll_data l ps)" and ok: "routes_ok (routes st l ps)"
    by (auto simp: rt_inv_def)
  have "map (\<lambda>(p, x). id_of st (the x)) (ll_nodes l ps) = map fst (routes st l ps)"
    by (simp add: ll_nodes_def routes_def ll_data_def)
  then have "distinct (map (\<lambda>(p, x). id_of st (the x)) (ll_nodes l ps))" using ok by (simp add: routes_ok_def)
  moreover have mem: "\<exists>e. x = Some e \<and> e \<in> set (ll_data l ps)" if "(p, x) \<in> set (ll_nodes l ps)" for p x
    using that by (auto simp: ll_nodes_def ll_data_def)
  ultimately have "find_nodes st g n l = Some (map_option fst (find (\<lambda>(p, x). id_of st (the x) = g) (ll_nodes l ps)),
    if n = 0 then None else case find (\<lambda>(p, x). id_of st (the x) = n) (ll_nodes l ps) of
        None \<Rightarrow> None | Some (p, x) \<Rightarrow> Some (dest_ptr st (the x)))"
    using find_body_fold [where xs = "ll_nodes l ps" and a = None and b = None and n = n and g = g, OF mem live]
    by (simp add: find_nodes_def for_nodes_all [OF wf])
  then show ?thesis unfolding nodes_find [of "\<lambda>e. id_of st e = n" l ps, symmetric]
    by (auto simp: option.map_comp comp_def split: option.splits)
qed

lemma routes_distinct:
  assumes "routes_ok (map (route_of st) es)"
  shows "distinct (map (id_of st) es)" and "distinct es"
  using assms by (simp_all add: routes_ok_def comp_def) (metis distinct_map)

text \<open>Changes of one entry.\<close>

lemma set_entry_simps [simp]:
  "rtm_entries (set_entry e x st) = (rtm_entries st)(e \<mapsto> x)" "rtm_gwids (set_entry e x st) = rtm_gwids st"
  "rtm_intfs (set_entry e x st) = rtm_intfs st" "rtm_fresh (set_entry e x st) = rtm_fresh st"
  "rtm_mem (set_entry e x st) = rtm_mem st" "intfs_live (set_entry e x st) = intfs_live st"
  "gw_id (set_entry e x st) = gw_id st"
  by (simp_all add: set_entry_def intfs_live_def gw_id_def fun_eq_iff)

lemma set_gwid_simps [simp]:
  "rtm_entries (set_gwid d g st) = rtm_entries st" "rtm_gwids (set_gwid d g st) = (rtm_gwids st)(d \<mapsto> g)"
  "rtm_intfs (set_gwid d g st) = rtm_intfs st" "rtm_fresh (set_gwid d g st) = rtm_fresh st"
  "rtm_mem (set_gwid d g st) = rtm_mem st" "intfs_live (set_gwid d g st) = intfs_live st"
  by (simp_all add: set_gwid_def intfs_live_def fun_eq_iff)

lemma set_intf_simps [simp]:
  "rtm_entries (set_intf q x st) = rtm_entries st" "rtm_gwids (set_intf q x st) = rtm_gwids st"
  "rtm_intfs (set_intf q x st) = (rtm_intfs st)(q \<mapsto> x)" "rtm_fresh (set_intf q x st) = rtm_fresh st"
  "rtm_mem (set_intf q x st) = rtm_mem st" "intfs_live st arr \<Longrightarrow> intfs_live (set_intf q x st) arr"
  by (auto simp: set_intf_def intfs_live_def)

lemma keeps_set_gwid:
  assumes "rtm_gwids st d = Some g" "gi_gatewayId g' = gi_gatewayId g" "intfs_live st (gi_destIntfAddr g')"
  shows "keeps st (set_gwid d g' st)"
  using assms by (auto simp: keeps_def)

lemma keeps_set_intf: "keeps st (set_intf q x st)"
  by (auto simp: keeps_def)

lemma keeps_fresh: "keeps st (st\<lparr>rtm_fresh := n\<rparr>)" "keeps st (st\<lparr>rtm_mem := m\<rparr>)"
  by (auto simp: keeps_def intfs_live_def)

lemma set_entry_live:
  assumes live: "entries_live st es" and e: "e \<in> set es" and d: "ge_destination x' = Some (dest_ptr st e)"
    and hop: "\<And>n. ge_nextHop x' = Some n \<Longrightarrow> n \<in> dest_ptr st ` set es"
  shows "entries_live (set_entry e x' st) es" and "dest_ptr (set_entry e x' st) = dest_ptr st"
    and "a \<noteq> e \<Longrightarrow> route_of (set_entry e x' st) a = route_of st a"
    and "route_of (set_entry e x' st) e =
      (id_of st e, map_option (gw_id st) (ge_nextHop x'), ge_routeCost x')"
proof -
  show ptr: "dest_ptr (set_entry e x' st) = dest_ptr st" using d by (auto simp: dest_ptr_def fun_eq_iff)
  show "a \<noteq> e \<Longrightarrow> route_of (set_entry e x' st) a = route_of st a"
    "route_of (set_entry e x' st) e = (id_of st e, map_option (gw_id st) (ge_nextHop x'), ge_routeCost x')"
    by (simp_all add: route_of_def ptr Let_def)
  have "entry_live (set_entry e x' st) (dest_ptr st ` set es) a" if a: "a \<in> set es" for a
  proof -
    have "entry_live st (dest_ptr st ` set es) a" using live a by (simp add: entries_live_def)
    moreover obtain g where "rtm_gwids st (dest_ptr st e) = Some g" "intfs_live st (gi_destIntfAddr g)"
      using entry_liveE [OF live e] by metis
    ultimately show ?thesis using d hop by (auto simp: entry_live_iff)
  qed
  then show "entries_live (set_entry e x' st) es" unfolding entries_live_def ptr by blast
qed

lemma map_replace_route:
  assumes "distinct (map (id_of st) es)" and "e \<in> set es"
    and "\<And>a. a \<noteq> e \<Longrightarrow> route_of st' a = route_of st a" and "id_of st e = g"
  shows "map (route_of st') es = replace_route g (route_of st' e) (map (route_of st) es)"
  using assms(1,2)
proof (induction es)
  case (Cons a es)
  show ?case
  proof (cases "a = e")
    case True
    then have "e \<notin> set es" using Cons.prems by (auto simp: image_iff)
    then have "map (route_of st') es = map (route_of st) es" using assms(3) by (metis map_cong)
    then show ?thesis using True assms(4) by simp
  next
    case False
    then have "id_of st a \<noteq> g" using Cons.prems assms(4) by (auto simp: image_iff)
    with False Cons assms(3) show ?thesis by simp
  qed
qed simp

text \<open>The addresses of a gateway.\<close>

definition addr_hit :: "rtm \<Rightarrow> CAEndpoint \<Rightarrow> nat option \<Rightarrow> bool" where
  "addr_hit st adr slot =
     (case slot of None \<Rightarrow> False
      | Some q \<Rightarrow> (case rtm_intfs st q of None \<Rightarrow> False | Some di \<Rightarrow> same_addr (di_destIntfAddr di) adr))"

lemma addr_slot_live:
  assumes "\<And>q. slot = Some q \<Longrightarrow> rtm_intfs (state acc) q \<noteq> None"
  shows "addr_slot adr hit state i slot acc =
    (if addr_hit (state acc) adr slot then hit i (the slot) (the (rtm_intfs (state acc) (the slot))) acc
     else Some (Inr acc))"
  using assms by (auto simp: addr_slot_def addr_hit_def split: option.splits)

lemma for_slots_addr:
  assumes live: "intfs_live st arr" and st: "state acc = st"
    and hit: "\<And>i q di. hit i q di acc = Some (Inl (h i q di))"
  shows "for_slots arr (addr_slot adr hit state) 0 acc =
    Some (case find (\<lambda>(i, x). addr_hit st adr x) (enumerate 0 (al_abs arr)) of
      None \<Rightarrow> Inr acc | Some (i, x) \<Rightarrow> Inl (h i (the x) (the (rtm_intfs st (the x)))))"
proof -
  have slot: "addr_slot adr hit state i x acc =
      Some (if addr_hit st adr x then Inl (h i (the x) (the (rtm_intfs st (the x)))) else Inr acc)"
    if "(i, x) \<in> set (enumerate 0 (al_abs arr))" for i x
  proof -
    have "x \<in> set (al_abs arr)" using that by (auto simp: in_set_enumerate_eq)
    then have "rtm_intfs (state acc) q \<noteq> None" if "x = Some q" for q
      using live that st by (auto simp: intfs_live_def)
    then show ?thesis using hit st by (simp add: addr_slot_live)
  qed
  have "al_ok arr" using live by (simp add: intfs_live_def)
  moreover have "fold_loop (addr_slot adr hit state) (enumerate 0 (al_abs arr)) acc =
    Some (case find (\<lambda>(i, x). addr_hit st adr x) (enumerate 0 (al_abs arr)) of
      None \<Rightarrow> Inr acc | Some (i, x) \<Rightarrow> Inl (h i (the x) (the (rtm_intfs st (the x)))))"
    by (rule fold_loop_find) (rule slot)
  ultimately show ?thesis by (simp add: for_slots_all)
qed

lemma arraylist_add_mem: "u_arraylist_add [] arr x = (ok, arr', m) \<Longrightarrow> m = []"
  by (auto simp: u_arraylist_add_def OICRealloc_def OICMalloc_def Let_def split: option.splits prod.splits bool.splits if_splits)

lemma add_intf_spec:
  assumes live: "intfs_live st arr" and mem: "rtm_mem st = []" and un: "rtm_intfs st (rtm_fresh st) = None"
    and add: "add_intf now di arr st = (ok, arr', st')"
  shows "intfs_live st' arr'" and "keeps st st'" and "rtm_mem st' = []" and "rtm_fresh st' = Suc (rtm_fresh st)"
    and "rtm_entries st' = rtm_entries st" and "rtm_gwids st' = rtm_gwids st"
    and "\<And>a. a \<noteq> rtm_fresh st \<Longrightarrow> rtm_intfs st' a = rtm_intfs st a"
proof -
  let ?q = "rtm_fresh st" and ?st1 = "st\<lparr>rtm_fresh := Suc (rtm_fresh st)\<rparr>"
  obtain m where u: "u_arraylist_add [] arr (Some ?q) = (ok, arr', m)"
    using add mem by (auto simp: add_intf_def Let_def split: prod.splits if_splits)
  then have m: "m = []" by (rule arraylist_add_mem)
  define new where "new = di\<lparr>di_timeElapsed := ucast now, di_isValid := True\<rparr>"
  have st': "st' = (if ok then set_intf ?q new ?st1 else ?st1)"
    using add mem u m by (auto simp: add_intf_def Let_def new_def split: if_splits)
  have ok: "al_ok arr' \<and> set (al_abs arr') \<subseteq> (if ok then insert (Some ?q) (set (al_abs arr)) else set (al_abs arr))"
  proof (cases arr)
    case None
    then show ?thesis
      using u by (auto simp: u_arraylist_add_def al_ok_def)
  next
    case (Some s)
    then have "al_inv s" using live by (simp add: intfs_live_def al_ok_def)
    from u_arraylist_add_ok [OF this] u Some
    show ?thesis
      by auto
  qed
  have "x \<noteq> None \<and> rtm_intfs st' (the x) \<noteq> None" if "x \<in> set (al_abs arr')" for x
  proof -
    have "ok \<and> x = Some ?q \<or> x \<in> set (al_abs arr)" using ok that by (auto split: if_splits)
    then show ?thesis using live st' by (auto simp: intfs_live_def)
  qed
  with ok show "intfs_live st' arr'" by (simp add: intfs_live_def)
  show "keeps st st'" unfolding st'
    by (cases ok) (auto intro: keeps_fresh keeps_trans [OF keeps_fresh(1) keeps_set_intf])
  show "rtm_mem st' = []" "rtm_fresh st' = Suc (rtm_fresh st)" "rtm_entries st' = rtm_entries st"
    "rtm_gwids st' = rtm_gwids st" "\<And>a. a \<noteq> ?q \<Longrightarrow> rtm_intfs st' a = rtm_intfs st a"
    using st' mem by auto
qed

text \<open>A new address of a known neighbour changes nothing else.\<close>

lemma update_intf_ok:
  assumes rt: "rt_inv st l ps" and mem: "rtm_mem st = []" and g: "find (\<lambda>e. id_of st e = g) (ll_data l ps) = Some e"
  obtains r st' where "RTMUpdateDestinationIntfAdr now g di True (Some (Some l)) st = Some (r, st')"
    "r = OC_STACK_ERROR \<or> r = OC_STACK_DUPLICATE_REQUEST" "keeps st st'" "unused st' l"
proof -
  from rt have wf: "ll_wf l ps" and live: "entries_live st (ll_data l ps)" and un: "unused st l"
    by (auto simp: rt_inv_def)
  have e: "e \<in> set (ll_data l ps)" "id_of st e = g" using find_SomeD [OF g] by auto
  obtain x d gr where x: "rtm_entries st e = Some x" "ge_destination x = Some d" "rtm_gwids st d = Some gr"
    "intfs_live st (gi_destIntfAddr gr)" "gi_gatewayId gr = g"
    using entry_liveE [OF live e(1)] e(2) by (metis fst_conv)
  let ?body = "update_intf_body now g di True" and ?arr = "gi_destIntfAddr gr"
  let ?new = "\<lambda>old. old\<lparr>di_timeElapsed := ucast now, di_isValid := True\<rparr>"
  have slots: "for_slots ?arr (addr_slot (di_destIntfAddr di) (\<lambda>i q old t. Some (Inl (set_intf q (?new old) t))) id) 0 st =
      Some (case find (\<lambda>(i, x). addr_hit st (di_destIntfAddr di) x) (enumerate 0 (al_abs ?arr)) of
        None \<Rightarrow> Inr st | Some (i, x) \<Rightarrow> Inl (set_intf (the x) (?new (the (rtm_intfs st (the x)))) st))"
    by (rule for_slots_addr [OF x(4)]) simp_all
  have body: "\<exists>r st'. ?body p (Some e) st = Some (Inl (r, st')) \<and> (r = OC_STACK_ERROR \<or> r = OC_STACK_DUPLICATE_REQUEST)
      \<and> keeps st st' \<and> unused st' l" for p
  proof (cases "find (\<lambda>(i, x). addr_hit st (di_destIntfAddr di) x) (enumerate 0 (al_abs ?arr))")
    case None
    obtain ok arr st2 where add: "add_intf now di ?arr st = (ok, arr, st2)" by (metis prod_cases3)
    have "rtm_intfs st (rtm_fresh st) = None" using un by (simp add: unused_def)
    note a = add_intf_spec [OF x(4) mem this add]
    have "keeps st (set_gwid d (gr\<lparr>gi_destIntfAddr := arr\<rparr>) st2)"
      by (rule keeps_trans [OF a(2) keeps_set_gwid [of _ d gr]]) (use x a in simp_all)
    moreover have "unused (set_gwid d (gr\<lparr>gi_destIntfAddr := arr\<rparr>) st2) l"
      using un a x by (auto simp: unused_def)
    ultimately show ?thesis
      using None x add slots by (simp add: update_intf_body_def dest_is_def)
  next
    case (Some y)
    obtain i z where y: "y = (i, z)" by fastforce
    then have "rtm_intfs st (the z) \<noteq> None" using find_SomeD [OF Some] by (auto simp: addr_hit_def split: option.splits)
    then have "unused (set_intf (the z) v st) l" for v using un by (auto simp: unused_def)
    then show ?thesis using Some y x slots by (simp add: update_intf_body_def dest_is_def keeps_set_intf)
  qed
  obtain r st' where b: "?body 0 (Some e) st = Some (Inl (r, st'))" "r = OC_STACK_ERROR \<or> r = OC_STACK_DUPLICATE_REQUEST"
    "keeps st st'" "unused st' l" using body [of 0] by blast
  have "?body p (Some e) st = Some (Inl (r, st'))" for p using b(1) by (simp add: update_intf_body_def)
  moreover have "?body p (Some e') st = Some (Inr st)" if "e' \<in> set (ll_data l ps)" "id_of st e' \<noteq> g" for p e'
    using that by (auto simp: update_intf_body_def elim!: dest_is_live [OF live])
  ultimately have "for_nodes (ll_heap l) ?body (ll_list l) st = Some (Inl (r, st'))"
    using for_nodes_search(2) [OF wf, of "\<lambda>e. id_of st e = g" ?body st "\<lambda>_. (r, st')" e] g by auto
  then show thesis using b by (intro that) (simp_all add: RTMUpdateDestinationIntfAdr_def)
qed

text \<open>Changing the route of a known gateway.\<close>

lemma hop_test:
  assumes live: "entries_live st es" and e: "e \<in> set es" and x: "rtm_entries st e = Some x"
  shows "(if ge_routeCost x = c \<and> ge_nextHop x \<noteq> None then dest_is st (ge_nextHop x) n else Some False)
    = Some (snd (snd (route_of st e)) = c \<and> fst (snd (route_of st e)) = Some n)"
proof -
  obtain x' where r: "snd (route_of st e) = (map_option (gw_id st) (ge_nextHop x'), ge_routeCost x')" "x' = x"
    and hop: "\<And>m. ge_nextHop x' = Some m \<Longrightarrow> m \<in> dest_ptr st ` set es"
    by (rule entry_liveE [OF live e]) (use x in auto)
  have "\<exists>gm. rtm_gwids st m = Some gm" if m: "ge_nextHop x = Some m" for m
  proof -
    obtain e' where "e' \<in> set es" "m = dest_ptr st e'" using hop [of m] m r(2) by blast
    then show ?thesis by (auto elim: entry_liveE [OF live])
  qed
  then show ?thesis by (cases "ge_nextHop x") (auto simp: r dest_is_def gw_id_def)
qed

lemma reroute_remote:
  assumes live: "entries_live st es" and ok: "routes_ok (map (route_of st) es)"
    and e: "e \<in> set es" "rtm_entries st e = Some x" and en: "en \<in> set es"
    and new: "\<not> (snd (snd (route_of st e)) = c \<and> fst (snd (route_of st e)) = Some n)"
  obtains st' where "reroute now (id_of st e) n c di e x (Some (dest_ptr st en)) st = Some (Inr st')"
    "entries_live st' es"
    "map (route_of st') es = replace_route (id_of st e) (id_of st e, Some (id_of st en), c) (map (route_of st) es)"
    "rtm_mem st' = rtm_mem st" "rtm_fresh st' = rtm_fresh st" "unused st l \<Longrightarrow> unused st' l"
proof -
  obtain d g where d: "ge_destination x = Some d" "rtm_gwids st d = Some g" "dest_ptr st e = d" "gi_gatewayId g = id_of st e"
    using entry_liveE [OF live e(1)] e(2) by (metis fst_conv option.inject)
  let ?st1 = "set_gwid d (g\<lparr>gi_gatewayId := id_of st e, gi_destIntfAddr := None\<rparr>) st"
  let ?x = "x\<lparr>ge_nextHop := Some (dest_ptr st en), ge_routeCost := c\<rparr>"
  have k: "keeps st ?st1" by (rule keeps_set_gwid [OF d(2)]) (simp_all add: d intfs_live_def al_ok_def al_abs_def)
  note kl = keeps_live [OF live k] and ke = keeps_entry [OF live k]
  have "ge_destination ?x = Some (dest_ptr ?st1 e)" using ke(1) [OF e(1)] d by simp
  moreover have "m \<in> dest_ptr ?st1 ` set es" if "ge_nextHop ?x = Some m" for m using that en kl(3) by auto
  ultimately have s: "entries_live (set_entry e ?x ?st1) es"
    "\<And>a. a \<noteq> e \<Longrightarrow> route_of (set_entry e ?x ?st1) a = route_of ?st1 a"
    "route_of (set_entry e ?x ?st1) e = (id_of ?st1 e, Some (gw_id ?st1 (dest_ptr st en)), c)"
    using set_entry_live [OF kl(1) e(1), of ?x] by simp_all
  have "gw_id ?st1 (dest_ptr ?st1 en) = id_of ?st1 en" by (rule id_of_ptr [symmetric])
  then have r: "route_of (set_entry e ?x ?st1) e = (id_of st e, Some (id_of st en), c)"
    using s(3) ke(1,2) [OF e(1)] ke(1,2) [OF en] by simp
  have "map (route_of (set_entry e ?x ?st1)) es =
      replace_route (id_of st e) (id_of st e, Some (id_of st en), c) (map (route_of ?st1) es)"
    unfolding r [symmetric]
  proof (rule map_replace_route)
    have "routes_ok (map (route_of ?st1) es)" using ok by (simp only: kl(2))
    then show "distinct (map (id_of ?st1) es)" by (rule routes_distinct)
  qed (use e ke(2) s(2) in simp_all)
  moreover have "reroute now (id_of st e) n c di e x (Some (dest_ptr st en)) st = Some (Inr (set_entry e ?x ?st1))"
    using hop_test [OF live e, of c n] new d by (simp add: reroute_def)
  moreover have "unused (set_entry e ?x ?st1) l" if "unused st l" using that e d by (auto simp: unused_def)
  ultimately show thesis using s(1) kl(2) by (intro that) simp_all
qed

lemma create_ok:
  "\<exists>s. u_arraylist_create [] = (Some s, []) \<and> al_inv s \<and> al_capacity s < 2 ^ 58 \<and> al_abs (Some s) = []"
  by (simp add: u_arraylist_create_def OICCalloc_def OICMalloc_def al_defs sizeof_u_arraylist_def)

lemma entries_live_set: "set es = set es' \<Longrightarrow> entries_live st es = entries_live st es'"
  by (simp add: entries_live_def)

lemma reroute_neighbour:
  assumes live: "entries_live st es" and ok: "routes_ok (map (route_of st) es)" and mem: "rtm_mem st = []"
    and un: "unused st l" and e: "e \<in> set es" "rtm_entries st e = Some x" and far: "ge_routeCost x \<noteq> 1"
  obtains st' where "reroute now (id_of st e) 0 1 (Some di) e x None st = Some (Inr st')"
    "entries_live st' es" "\<And>a. a \<in> set es \<Longrightarrow> a \<noteq> e \<Longrightarrow> route_of st' a = route_of st a"
    "route_of st' e = (id_of st e, None, 1)" "rtm_mem st' = []" "unused st' l"
proof -
  obtain d g where d: "ge_destination x = Some d" "rtm_gwids st d = Some g" "dest_ptr st e = d"
    by (rule entry_liveE [OF live e(1)]) (use e(2) in auto)
  let ?x = "x\<lparr>ge_routeCost := 1, ge_nextHop := None\<rparr>"
  let ?st1 = "set_entry e ?x st"
  have s: "entries_live ?st1 es" "dest_ptr ?st1 = dest_ptr st" "\<And>a. a \<noteq> e \<Longrightarrow> route_of ?st1 a = route_of st a"
    "route_of ?st1 e = (id_of st e, None, 1)"
    using set_entry_live [OF live e(1), of ?x] d by simp_all
  obtain t :: "nat u_arraylist" where t: "u_arraylist_create [] = (Some t, [])" "al_inv t" "al_capacity t < 2 ^ 58" "al_abs (Some t) = []"
    using create_ok by metis
  let ?st2 = "set_gwid d (g\<lparr>gi_destIntfAddr := Some t\<rparr>) ?st1"
  have lt: "intfs_live st' (Some t)" for st' using t by (simp add: intfs_live_def al_ok_def)
  have k1: "keeps ?st1 ?st2" by (rule keeps_set_gwid [of _ d g]) (use d lt in simp_all)
  obtain b arr st3 where add: "add_intf now di (Some t) ?st2 = (b, arr, st3)" by (metis prod_cases3)
  have "rtm_intfs ?st2 (rtm_fresh ?st2) = None" using un by (simp add: unused_def)
  note a = add_intf_spec [OF lt _ this add, simplified, OF mem]
  have b: "b"
  proof -
    obtain b1 arr1 m1 where u: "u_arraylist_add [] (Some t) (Some (rtm_fresh st)) = (b1, arr1, m1)" by (metis prod_cases3)
    with u_arraylist_add_room [OF t(2,3) u] add mem show ?thesis
      by (auto simp: add_intf_def Let_def)
  qed
  let ?st4 = "set_gwid d (g\<lparr>gi_destIntfAddr := arr\<rparr>) st3"
  have k2: "keeps st3 ?st4" by (rule keeps_set_gwid [of _ d "g\<lparr>gi_destIntfAddr := Some t\<rparr>"]) (use a in simp_all)
  note k = keeps_trans [OF keeps_trans [OF k1 a(2)] k2]
  have "reroute now (id_of st e) 0 1 (Some di) e x None st = Some (Inr ?st4)"
    using far d mem t(1) add b by (simp add: reroute_def)
  moreover have "unused ?st4 l" using un a d(2) e(2) by (auto simp: unused_def)
  ultimately show thesis
    using keeps_live [OF s(1) k] keeps_entry(2) [OF s(1) k] s e(1) a(3) by (intro that) auto
qed

text \<open>What an addition of a route has to do, in terms of the abstract table.\<close>

definition adds_route ::
  "u32 \<Rightarrow> u32 \<Rightarrow> u32 \<Rightarrow> route list \<Rightarrow> (OCStackResult \<times> table \<times> rtm) option \<Rightarrow> bool" where
  "adds_route g n c rs res \<longleftrightarrow> (\<exists>r l' st' ps' known. res = Some (r, l', st') \<and> ll_wf l' ps'
     \<and> entries_live st' (ll_data l' ps') \<and> unused st' l' \<and> (r, routes st' l' ps') = add_route known g n c rs)"

lemma adds_routeI:
  "res = Some (r, l', st') \<Longrightarrow> ll_wf l' ps' \<Longrightarrow> entries_live st' (ll_data l' ps') \<Longrightarrow> unused st' l'
     \<Longrightarrow> add_route known g n c rs = (r, routes st' l' ps') \<Longrightarrow> adds_route g n c rs res"
  unfolding adds_route_def by metis

lemma filter_split:
  "distinct (map fst (A @ r # B)) \<Longrightarrow> filter (\<lambda>q. fst q \<noteq> fst r) (A @ r # B) = A @ B"
  by (auto simp: image_iff) (metis (mono_tags, lifting) filter_True)+

lemma promote_ok:
  assumes rt: "rt_inv st l ps" and ps: "ps = xs @ p # ys" and data: "ll_data l ps = ll_data l xs @ e # ll_data l ys"
    and live: "entries_live st' (ll_data l ps)" and un: "unused st' l" and mem: "rtm_mem st' = []"
    and same: "\<And>a. a \<in> set (ll_data l ps) \<Longrightarrow> a \<noteq> e \<Longrightarrow> route_of st' a = route_of st a"
    and new: "route_of st' e = (id_of st e, None, 1)" and room: "length ps + 1 < 2 ^ 32"
  obtains l1 l2 ps' st2 it where "u_linklist_remove (Some l) (Some (Some p)) = Some (CA_STATUS_OK, Some l1, it)"
    "list_add_head st' l1 e = Some (CA_STATUS_OK, l2, st2)" "ll_wf l2 ps'" "entries_live st2 (ll_data l2 ps')"
    "unused st2 l2" "routes st2 l2 ps' = (id_of st e, None, 1) # filter (\<lambda>r. fst r \<noteq> id_of st e) (routes st l ps)"
proof -
  from rt have wf: "ll_wf l ps" and ok: "routes_ok (map (route_of st) (ll_data l ps))"
    by (auto simp: rt_inv_def routes_def)
  obtain l1 it where l1: "u_linklist_remove (Some l) (Some (Some p)) = Some (CA_STATUS_OK, Some l1, it)"
    "ll_wf l1 (xs @ ys)" "ll_data l1 (xs @ ys) = ll_data l xs @ ll_data l ys"
    using remove_ok [OF wf] ps by blast
  have "\<forall>a\<ge>rtm_fresh st'. ll_heap l1 a = None" using remove_dom [OF l1(1)] un by (simp add: unused_def)
  moreover have "length (xs @ ys) + 1 < 2 ^ 32" using room ps by simp
  ultimately obtain l2 where l2:
    "list_add_head st' l1 e = Some (CA_STATUS_OK, l2, st'\<lparr>rtm_fresh := Suc (rtm_fresh st')\<rparr>)"
    "ll_wf l2 (rtm_fresh st' # xs @ ys)" "ll_data l2 (rtm_fresh st' # xs @ ys) = e # ll_data l xs @ ll_data l ys"
    "\<forall>a\<ge>Suc (rtm_fresh st'). ll_heap l2 a = None"
    using list_add_head_ok [OF l1(2) _ _ mem, of e] l1(3) by metis
  let ?st2 = "st'\<lparr>rtm_fresh := Suc (rtm_fresh st')\<rparr>" and ?es = "e # ll_data l xs @ ll_data l ys"
  have live': "entries_live st' ?es" using live entries_live_set [of ?es "ll_data l ps"] data by auto
  note k = keeps_live [OF live' keeps_fresh(1)]
  have d: "distinct (ll_data l ps)" "distinct (map fst (map (route_of st) (ll_data l ps)))"
    using routes_distinct [OF ok] by (simp_all add: comp_def)
  have "a \<noteq> e" if "a \<in> set (ll_data l xs @ ll_data l ys)" for a using d(1) that data by auto
  then have "map (route_of st') (ll_data l xs @ ll_data l ys) = map (route_of st) (ll_data l xs @ ll_data l ys)"
    using same data by auto
  also have "\<dots> = filter (\<lambda>r. fst r \<noteq> id_of st e) (routes st l ps)"
    using filter_split [of "map (route_of st) (ll_data l xs)" "route_of st e" "map (route_of st) (ll_data l ys)"] d(2)
    by (simp add: routes_def data)
  finally have "map (route_of ?st2) ?es = (id_of st e, None, 1) # filter (\<lambda>r. fst r \<noteq> id_of st e) (routes st l ps)"
    using new by (simp add: k(2) del: list.map) (simp add: new)
  moreover have "unused ?st2 l2" using un l2(4) by (simp add: unused_def)
  ultimately show thesis using k(1)
    by (intro that [OF l1(1) l2(1,2)]) (simp_all add: routes_def l2(3) del: list.map)
qed

lemma rt_invD:
  assumes "rt_inv st l ps"
  shows "ll_wf l ps" "entries_live st (ll_data l ps)" "routes_ok (map (route_of st) (ll_data l ps))" "unused st l"
  using assms by (auto simp: rt_inv_def routes_def)

lemma update_gateway_ok:
  assumes rt: "rt_inv st l ps" and mem: "rtm_mem st = []" and room: "length ps + 1 < 2 ^ 32"
    and p: "ps = xs @ p # ys" "ll_data l ps = ll_data l xs @ e # ll_data l ys"
    and g: "find (\<lambda>a. id_of st a = g) (ll_data l ps) = Some e" and c: "c \<noteq> 0" "c = 1 \<longleftrightarrow> n = 0"
    and hop: "if n = 0 then nm = None else \<exists>en\<in>set (ll_data l ps). id_of st en = n \<and> nm = Some (dest_ptr st en)"
    and di: "n = 0 \<Longrightarrow> di \<noteq> None"
  shows "adds_route g n c (routes st l ps) (update_gateway now g n c di p nm l st)"
proof -
  note inv = rt_invD [OF rt]
  have e: "e \<in> set (ll_data l ps)" "id_of st e = g" using find_SomeD [OF g] by auto
  have "ll_heap l p \<noteq> None" using inv(1) p(1) chain_dom by (fastforce simp: ll_wf_def)
  then have data: "u_linklist_get_data (ll_heap l) (Some p) = Some e"
    using p by (auto simp: u_linklist_get_data_def ll_data_def)
  obtain x where x: "rtm_entries st e = Some x" "snd (snd (route_of st e)) = ge_routeCost x"
    by (rule entry_liveE [OF inv(2) e(1)]) auto
  obtain h where r: "route_of st e = (g, h, ge_routeCost x)" using e(2) x(2) by (cases "route_of st e") auto
  have nohop: "\<not> (n \<noteq> 0 \<and> n \<notin> fst ` set (routes st l ps))" using hop by (force simp: routes_def)
  have f: "find (\<lambda>r. fst r = g) (routes st l ps) = Some (g, h, ge_routeCost x)"
    using g r by (simp add: routes_def find_map)
  note spec = add_route_def f nohop
  show ?thesis
  proof (cases "ge_routeCost x = 1 \<and> n = 0")
    case True
    then obtain i where i: "di = Some i" using di by auto
    obtain r1 st1 where u: "RTMUpdateDestinationIntfAdr now g i True (Some (Some l)) st = Some (r1, st1)"
      "r1 = OC_STACK_ERROR \<or> r1 = OC_STACK_DUPLICATE_REQUEST" "keeps st st1" "unused st1 l"
      using update_intf_ok [OF rt mem g] by metis
    note k = keeps_live [OF inv(2) u(3)]
    have same: "routes st1 l ps = routes st l ps" by (simp only: routes_def k(2))
    have "update_gateway now g n c di p nm l st = Some (r1, l, st1)"
      using True data x i u(1) by (simp add: update_gateway_def)
    then show ?thesis
    proof (rule adds_routeI [where known = "r1 = OC_STACK_ERROR"])
      show "add_route (r1 = OC_STACK_ERROR) g n c (routes st l ps) = (r1, routes st1 l ps)"
        using True u(2) c by (auto simp: spec same)
    qed (use inv k u in simp_all)
  next
    case far: False
    show ?thesis
    proof (cases "ge_routeCost x < c \<or> (ge_routeCost x = c \<and> h = Some n)")
      case True
      let ?r = "if ge_routeCost x < c then OC_STACK_ERROR else OC_STACK_DUPLICATE_REQUEST"
      have "update_gateway now g n c di p nm l st = Some (?r, l, st)"
        using True far data x hop_test [OF inv(2) e(1) x(1), of c n] r
        by (auto simp: update_gateway_def reroute_def)
      then show ?thesis
        by (rule adds_routeI [where known = False and ps' = ps]) (use inv far True c in \<open>auto simp: spec\<close>)
    next
      case False
      show ?thesis
      proof (cases "n = 0")
        case True
        then obtain i where i: "di = Some i" "nm = None" "c = 1" using di hop c by auto
        obtain st1 where st1: "reroute now g 0 1 (Some i) e x None st = Some (Inr st1)"
          "entries_live st1 (ll_data l ps)" "\<And>a. a \<in> set (ll_data l ps) \<Longrightarrow> a \<noteq> e \<Longrightarrow> route_of st1 a = route_of st a"
          "route_of st1 e = (id_of st e, None, 1)" "rtm_mem st1 = []" "unused st1 l"
          using reroute_neighbour [OF inv(2,3) mem inv(4) e(1) x(1)] far True e(2) by metis
        obtain l1 l2 ps' st2 it where l2: "u_linklist_remove (Some l) (Some (Some p)) = Some (CA_STATUS_OK, Some l1, it)"
          "list_add_head st1 l1 e = Some (CA_STATUS_OK, l2, st2)" "ll_wf l2 ps'" "entries_live st2 (ll_data l2 ps')"
          "unused st2 l2" "routes st2 l2 ps' = (id_of st e, None, 1) # filter (\<lambda>r. fst r \<noteq> id_of st e) (routes st l ps)"
          by (rule promote_ok [OF rt p st1(2,6,5,3,4) room])
        have "update_gateway now g n c di p nm l st = Some (OC_STACK_OK, l2, st2)"
          using True False far data x i st1(1) l2(1,2) by (simp add: update_gateway_def)
        then show ?thesis
          by (rule adds_routeI [where known = False and ps' = ps']) (use l2 True False far e(2) i in \<open>simp_all add: spec\<close>)
      next
        case True': False
        then obtain en where en: "en \<in> set (ll_data l ps)" "id_of st en = n" "nm = Some (dest_ptr st en)" using hop by auto
        obtain st1 where st1: "reroute now g n c di e x nm st = Some (Inr st1)" "entries_live st1 (ll_data l ps)"
          "map (route_of st1) (ll_data l ps) = replace_route g (g, Some n, c) (map (route_of st) (ll_data l ps))" "unused st1 l"
          using reroute_remote [OF inv(2,3) e(1) x(1) en(1), of c n now di] r False en e(2) inv(4) by auto
        have rs: "routes st1 l ps = replace_route g (g, Some n, c) (routes st l ps)" using st1(3) by (simp add: routes_def)
        have "update_gateway now g n c di p nm l st = Some (OC_STACK_OK, l, st1)"
          using True' False far data x st1(1) c by (simp add: update_gateway_def)
        then show ?thesis
          by (rule adds_routeI [where known = False and ps' = ps]) (use inv(1) st1 True' False c nohop in \<open>simp_all add: add_route_def f rs\<close>)
      qed
    qed
  qed
qed

text \<open>Adding an unknown gateway.\<close>

lemma new_intfs_ok:
  assumes mem: "rtm_mem st = []" and un: "\<forall>a\<ge>rtm_fresh st. rtm_intfs st a = None"
  obtains arr st' where "new_intfs now di st = (True, arr, st')" "intfs_live st' arr" "rtm_mem st' = []"
    "rtm_entries st' = rtm_entries st" "rtm_gwids st' = rtm_gwids st" "rtm_fresh st \<le> rtm_fresh st'" "keeps st st'"
    "\<forall>a\<ge>rtm_fresh st'. rtm_intfs st' a = None"
proof (cases "\<exists>i. di = Some i \<and> length (ep_addr (di_destIntfAddr i)) > 0")
  case True
  then obtain i where i: "di = Some i" "length (ep_addr (di_destIntfAddr i)) > 0" by blast
  obtain t :: "nat u_arraylist" where t: "u_arraylist_create [] = (Some t, [])" "al_inv t" "al_capacity t < 2 ^ 58"
    "al_abs (Some t) = []" using create_ok by metis
  obtain ok arr m where u: "u_arraylist_add [] (Some t) (Some (rtm_fresh st)) = (ok, arr, m)" by (metis prod_cases3)
  have m: "m = []" using u by (rule arraylist_add_mem)
  note a = u_arraylist_add_ok [OF t(2) u] and ok = u_arraylist_add_room [OF t(2,3) u]
  let ?st = "set_intf (rtm_fresh st) (i\<lparr>di_timeElapsed := ucast now, di_isValid := True\<rparr>)
    (st\<lparr>rtm_fresh := Suc (rtm_fresh st)\<rparr>)"
  have n: "new_intfs now di st = (True, arr, ?st)"
    using i mem t(1) u m by (simp add: new_intfs_def)
  have "intfs_live ?st arr" using a ok t(4) by (simp add: intfs_live_def)
  moreover have "keeps st ?st" by (rule keeps_trans [OF keeps_fresh(1) keeps_set_intf])
  ultimately show thesis by (intro that [OF n]) (use mem un in simp_all)
next
  case False
  then have "new_intfs now di st = (True, None, st)" by (cases di) (auto simp: new_intfs_def)
  then show thesis by (rule that) (use mem un in \<open>auto simp: intfs_live_def al_ok_def al_abs_def\<close>)
qed

lemma entry_live_mono: "entry_live st ds e \<Longrightarrow> ds \<subseteq> ds' \<Longrightarrow> entry_live st ds' e"
  by (auto simp: entry_live_def split: option.splits)

lemma insert_live:
  assumes live: "entries_live st es" and e: "rtm_entries st e = Some x" "ge_destination x = Some d" "gwid_live st d"
    and hop: "\<And>n. ge_nextHop x = Some n \<Longrightarrow> n \<in> dest_ptr st ` set es" and es: "set es' = insert e (set es)"
  shows "entries_live st es'"
proof -
  have sub: "dest_ptr st ` set es \<subseteq> dest_ptr st ` set es'" using es by auto
  have "entry_live st (dest_ptr st ` set es') a" if "a \<in> set es" for a
    using live that sub by (intro entry_live_mono [OF _ sub]) (simp add: entries_live_def)
  moreover have "entry_live st (dest_ptr st ` set es') e"
    using e hop sub by (auto simp: entry_live_iff gwid_live_def split: option.splits)
  ultimately show ?thesis using es by (auto simp: entries_live_def)
qed

lemma insert_gateway_ok:
  assumes rt: "rt_inv st l ps" and mem: "rtm_mem st = []" and room: "length ps + 1 < 2 ^ 32"
    and g: "find (\<lambda>a. id_of st a = g) (ll_data l ps) = None" and c: "c \<noteq> 0" "c = 1 \<longleftrightarrow> n = 0"
    and hop: "if n = 0 then nm = None else \<exists>en\<in>set (ll_data l ps). id_of st en = n \<and> nm = Some (dest_ptr st en)"
  shows "adds_route g n c (routes st l ps) (insert_gateway now g c di nm l st)"
proof -
  note inv = rt_invD [OF rt]
  let ?es = "ll_data l ps" and ?e = "rtm_fresh st" and ?d = "Suc (rtm_fresh st)"
  let ?st2 = "st\<lparr>rtm_fresh := Suc (Suc (rtm_fresh st))\<rparr>"
  have un2: "\<forall>a\<ge>rtm_fresh ?st2. rtm_intfs ?st2 a = None" using inv(4) by (simp add: unused_def)
  obtain arr st3 where n: "new_intfs now di ?st2 = (True, arr, st3)" and s3: "intfs_live st3 arr" "rtm_mem st3 = []"
    "rtm_entries st3 = rtm_entries st" "rtm_gwids st3 = rtm_gwids st" "Suc (Suc (rtm_fresh st)) \<le> rtm_fresh st3"
    "keeps ?st2 st3" "\<forall>a\<ge>rtm_fresh st3. rtm_intfs st3 a = None"
    by (rule new_intfs_ok [OF _ un2, of now di]) (use mem in simp_all)
  let ?st4 = "st3\<lparr>rtm_fresh := Suc (rtm_fresh st3)\<rparr>"
  let ?gr = "\<lparr>gi_gatewayId = g, gi_destIntfAddr = arr\<rparr>"
  let ?x = "\<lparr>ge_destination = Some ?d, ge_nextHop = nm, ge_routeCost = c, ge_mcastMessageSeqNum = 0, ge_seqNum = 0\<rparr>"
  let ?st5 = "set_entry ?e ?x (set_gwid ?d ?gr ?st4)"
  have fresh: "rtm_entries st ?e = None" "rtm_gwids st ?d = None" "\<forall>a\<ge>rtm_fresh st3. ll_heap l a = None"
    using inv(4) s3(5) by (auto simp: unused_def)
  have "keeps st ?st4" by (rule keeps_trans [OF keeps_trans [OF keeps_fresh(1) s3(6)] keeps_fresh(1)])
  moreover have "keeps ?st4 ?st5" using fresh s3(3,4) by (auto simp: keeps_def)
  ultimately have k: "keeps st ?st5" by (rule keeps_trans)
  note kl = keeps_live [OF inv(2) k]
  have ptr: "dest_ptr ?st5 ?e = ?d" "gw_id ?st5 ?d = g" by (simp_all add: dest_ptr_def gw_id_def)
  have nm: "map_option (gw_id ?st5) nm = (if n = 0 then None else Some n)"
  proof (cases "n = 0")
    case False
    then obtain en where en: "en \<in> set ?es" "id_of st en = n" "nm = Some (dest_ptr st en)" using hop by auto
    have "gw_id ?st5 (dest_ptr ?st5 en) = n" using keeps_entry(2) [OF inv(2) k en(1)] en(2) unfolding id_of_ptr [symmetric] by (simp only:)
    then show ?thesis using False en keeps_entry(1) [OF inv(2) k en(1)] by simp
  qed (use hop in simp)
  then have r: "route_of ?st5 ?e = (g, if n = 0 then None else Some n, c)"
    using ptr by (simp add: route_of_def)
  have "gwid_live ?st5 ?d" using s3(1) by (simp add: gwid_live_def intfs_live_def)
  then have live: "entries_live ?st5 es'" if "set es' = insert ?e (set ?es)" for es'
    using insert_live [OF kl(1), of ?e ?x ?d es'] that hop kl(3) by (auto split: if_splits)
  have un5: "unused ?st5 l'" if "\<forall>a\<ge>Suc (rtm_fresh st3). ll_heap l' a = None" for l'
    using that inv(4) s3 by (auto simp: unused_def)
  have nohop: "\<not> (n \<noteq> 0 \<and> n \<notin> fst ` set (routes st l ps))" using hop by (force simp: routes_def)
  have f: "find (\<lambda>r. fst r = g) (routes st l ps) = None" using g by (simp add: routes_def find_map)
  have nmc: "\<not> (nm = None \<and> c \<noteq> 1)" using hop c by (auto split: if_splits)
  show ?thesis
  proof (cases "c = 1")
    case True
    obtain l' where l': "list_add_head st3 l ?e = Some (CA_STATUS_OK, l', ?st4)" "ll_wf l' (rtm_fresh st3 # ps)"
      "ll_data l' (rtm_fresh st3 # ps) = ?e # ?es" "\<forall>a\<ge>Suc (rtm_fresh st3). ll_heap l' a = None"
      using list_add_head_ok [OF inv(1) fresh(3) room s3(2)] by metis
    have "insert_gateway now g c di nm l st = Some (OC_STACK_OK, l', ?st5)"
      using mem n nmc True l'(1) by (simp add: insert_gateway_def)
    then show ?thesis
      by (rule adds_routeI [where known = False and ps' = "rtm_fresh st3 # ps"])
        (use l' live un5 True c r kl(2) in \<open>simp_all add: add_route_def f routes_def [of ?st5]\<close>, simp add: routes_def)
  next
    case False
    obtain l' where l': "list_add st3 l ?e = Some (CA_STATUS_OK, l', ?st4)" "ll_wf l' (ps @ [rtm_fresh st3])"
      "ll_data l' (ps @ [rtm_fresh st3]) = ?es @ [?e]" "\<forall>a\<ge>Suc (rtm_fresh st3). ll_heap l' a = None"
      using list_add_ok [OF inv(1) fresh(3) room s3(2)] by metis
    have "insert_gateway now g c di nm l st = Some (OC_STACK_OK, l', ?st5)"
      using mem n nmc False l'(1) by (simp add: insert_gateway_def)
    then show ?thesis
      by (rule adds_routeI [where known = False and ps' = "ps @ [rtm_fresh st3]"])
        (use l' live un5 False c r kl(2) nohop in \<open>simp_all add: add_route_def f routes_def [of ?st5]\<close>, simp add: routes_def)
  qed
qed

lemma add_gateway_ok:
  assumes rt: "rt_inv st l ps" and mem: "rtm_mem st = []" and room: "length ps + 1 < 2 ^ 32"
    and hop: "n \<noteq> 0 \<Longrightarrow> hop_contract n (routes st l ps)" and di: "n = 0 \<Longrightarrow> di \<noteq> None"
  obtains r l' st' ps' known where "RTMAddGatewayEntry now g n c di (Some (Some l)) st = Some (r, Some (Some l'), st')"
    "rt_inv st' l' ps'" "(r, routes st' l' ps') = add_route known g n c (routes st l ps)"
proof -
  note inv = rt_invD [OF rt]
  let ?rs = "routes st l ps" and ?res = "RTMAddGatewayEntry now g n c di (Some (Some l)) st"
  let ?fin = "map_option (\<lambda>(r, l1, st2). (r, Some (Some l1), st2))"
  have ids: "find (\<lambda>a. id_of st a = n) (ll_data l ps) = None \<longleftrightarrow> n \<notin> fst ` set ?rs"
    by (auto simp: routes_def find_None_iff image_iff)
  have "\<exists>res. ?res = ?fin res \<and> adds_route g n c ?rs res"
  proof (cases "c = 0 \<or> (c = 1) \<noteq> (n = 0) \<or> (n \<noteq> 0 \<and> n \<notin> fst ` set ?rs)")
    case True
    have "1 < c" if "c \<noteq> 0" "c \<noteq> 1" using word_gt_one that by blast
    with True ids have "?res = ?fin (Some (OC_STACK_ERROR, l, st))"
      by (auto simp: RTMAddGatewayEntry_def find_nodes_eq [OF rt])
    moreover have "adds_route g n c ?rs (Some (OC_STACK_ERROR, l, st))"
      by (rule adds_routeI [where ps' = ps and known = False]) (use inv True in \<open>auto simp: add_route_def\<close>)
    ultimately show ?thesis by blast
  next
    case False
    then have c: "c \<noteq> 0" "c = 1 \<longleftrightarrow> n = 0" and n: "n \<noteq> 0 \<Longrightarrow> n \<in> fst ` set ?rs" by auto
    let ?nm = "if n = 0 then None else map_option (dest_ptr st) (find (\<lambda>a. id_of st a = n) (ll_data l ps))"
    have nm: "if n = 0 then ?nm = None else \<exists>en\<in>set (ll_data l ps). id_of st en = n \<and> ?nm = Some (dest_ptr st en)"
      using n ids find_SomeD [of "\<lambda>a. id_of st a = n" "ll_data l ps"]
      by (cases "find (\<lambda>a. id_of st a = n) (ll_data l ps)") auto
    then have nmc: "\<not> (1 < c \<and> ?nm = None)" using c by auto
    let ?dn = "map_option fst (find (\<lambda>(p, x). id_of st (the x) = g) (ll_nodes l ps))"
    have res: "?res = ?fin (case ?dn of
        Some p \<Rightarrow> update_gateway now g n c di p ?nm l st | None \<Rightarrow> insert_gateway now g c di ?nm l st)"
      using c nmc by (auto simp: RTMAddGatewayEntry_def find_nodes_eq [OF rt])
    show ?thesis
    proof (cases "find (\<lambda>(p, x). id_of st (the x) = g) (ll_nodes l ps)")
      case None
      then have "find (\<lambda>a. id_of st a = g) (ll_data l ps) = None"
        using nodes_find [of "\<lambda>a. id_of st a = g" l ps] by simp
      from insert_gateway_ok [OF rt mem room this c nm] res None show ?thesis by auto
    next
      case (Some y)
      then obtain p x where y: "find (\<lambda>(p, x). id_of st (the x) = g) (ll_nodes l ps) = Some (p, x)" by (cases y) auto
      obtain xs ys e where e: "ps = xs @ p # ys" "ll_data l ps = ll_data l xs @ e # ll_data l ys"
        "find (\<lambda>a. id_of st a = g) (ll_data l ps) = Some e"
        using nodes_find_Some [OF y] by metis
      from update_gateway_ok [OF rt mem room e c nm di] res y show ?thesis by auto
    qed
  qed
  then obtain r l' st' ps' known where r: "?res = Some (r, Some (Some l'), st')" "ll_wf l' ps'"
    "entries_live st' (ll_data l' ps')" "unused st' l'" "(r, routes st' l' ps') = add_route known g n c ?rs"
    unfolding adds_route_def by auto
  have "routes_ok (snd (add_route known g n c ?rs))"
    using inv(3) hop by (intro add_route_ok) (simp_all add: routes_def)
  then have "routes_ok (routes st' l' ps')" by (simp flip: r(5))
  with r show thesis by (intro that) (auto simp: rt_inv_def)
qed

section \<open>Removal of a gateway\<close>

lemma live_fresh:
  "entries_live (st\<lparr>rtm_fresh := f\<rparr>) es = entries_live st es" "route_of (st\<lparr>rtm_fresh := f\<rparr>) = route_of st"
  "dest_is (st\<lparr>rtm_fresh := f\<rparr>) = dest_is st"
proof -
  have ptr: "dest_ptr (st\<lparr>rtm_fresh := f\<rparr>) = dest_ptr st" "gw_id (st\<lparr>rtm_fresh := f\<rparr>) = gw_id st"
    by (simp_all add: dest_ptr_def gw_id_def fun_eq_iff)
  show "route_of (st\<lparr>rtm_fresh := f\<rparr>) = route_of st" by (simp add: route_of_def ptr fun_eq_iff)
  show "dest_is (st\<lparr>rtm_fresh := f\<rparr>) = dest_is st" by (simp add: dest_is_def fun_eq_iff split: option.splits)
  show "entries_live (st\<lparr>rtm_fresh := f\<rparr>) es = entries_live st es"
    unfolding entries_live_def entry_live_iff intfs_live_def ptr by simp
qed

lemma remove_node_eq:
  assumes live: "entries_live st es" and e: "e \<in> set es"
  shows "remove_gateway_node g (Some e) (st\<lparr>rtm_fresh := f\<rparr>, r) =
    (if goes_over g (route_of st e)
     then map_option (\<lambda>(_, r1, st1). Inl ((st\<lparr>rtm_fresh := f\<rparr>, r), (st1, r1))) (list_add (st\<lparr>rtm_fresh := f\<rparr>) r e)
     else Some (Inr (st\<lparr>rtm_fresh := f\<rparr>, r)))"
proof -
  obtain x d gr where x: "rtm_entries st e = Some x" "ge_destination x = Some d" "rtm_gwids st d = Some gr"
    "route_of st e = (gi_gatewayId gr, map_option (gw_id st) (ge_nextHop x), ge_routeCost x)"
    and hop: "\<And>m. ge_nextHop x = Some m \<Longrightarrow> m \<in> dest_ptr st ` set es"
    by (rule entry_liveE [OF live e]) blast
  have "\<exists>gm. rtm_gwids st m = Some gm" if m: "ge_nextHop x = Some m" for m
  proof -
    obtain e' where "e' \<in> set es" "m = dest_ptr st e'" using hop [OF m] by blast
    then show ?thesis by (auto elim: entry_liveE [OF live])
  qed
  then have via: "dest_is st (ge_nextHop x) g = Some (fst (snd (route_of st e)) = Some g)"
    using x(4) by (cases "ge_nextHop x") (auto simp: dest_is_def gw_id_def)
  have here: "dest_is st (ge_destination x) g = Some (id_of st e = g)" using x by (simp add: dest_is_def)
  show ?thesis
    using x via here
    by (auto simp: remove_gateway_node_def live_fresh goes_over_def map_option_case split: option.splits)
qed

lemma fold_remove:
  assumes live: "entries_live st es" and mem: "rtm_mem st = []"
    and "\<And>q. q \<in> set qs \<Longrightarrow> nd_data (the (ll_heap l q)) \<in> set es"
    and "ll_wf r rps" and "\<forall>a\<ge>f. ll_heap r a = None" and "length rps + length qs < 2 ^ 32"
  shows "\<exists>f' r' rps'. fold_unlink (remove_gateway_node g) (ll_nodes l qs) (st\<lparr>rtm_fresh := f\<rparr>, r) =
      Some (filter (\<lambda>q. \<not> goes_over g (route_of st (nd_data (the (ll_heap l q))))) qs, (st\<lparr>rtm_fresh := f'\<rparr>, r'))
    \<and> f \<le> f' \<and> ll_wf r' rps' \<and> ll_data r' rps' = ll_data r rps @ filter (\<lambda>e. goes_over g (route_of st e)) (ll_data l qs)
    \<and> (\<forall>a\<ge>f'. ll_heap r' a = None)"
  using assms(3-)
proof (induction qs arbitrary: r rps f)
  case Nil
  then show ?case by (auto simp: ll_data_def)
next
  case (Cons q qs)
  let ?e = "nd_data (the (ll_heap l q))" and ?st = "st\<lparr>rtm_fresh := f\<rparr>"
  have e: "?e \<in> set es" using Cons.prems(1) by simp
  show ?case
  proof (cases "goes_over g (route_of st ?e)")
    case True
    obtain r1 where r1: "list_add ?st r ?e = Some (CA_STATUS_OK, r1, st\<lparr>rtm_fresh := Suc f\<rparr>)"
      "ll_wf r1 (rps @ [f])" "ll_data r1 (rps @ [f]) = ll_data r rps @ [?e]" "\<forall>a\<ge>Suc f. ll_heap r1 a = None"
      by (rule list_add_ok [OF Cons.prems(2), of ?st ?e]) (use Cons.prems mem in auto)
    have step: "fold_unlink (remove_gateway_node g) (ll_nodes l (q # qs)) (?st, r) =
        fold_unlink (remove_gateway_node g) (ll_nodes l qs) (st\<lparr>rtm_fresh := Suc f\<rparr>, r1)"
      using r1(1) True by (simp add: remove_node_eq [OF live e])
    have "length (rps @ [f]) + length qs < 2 ^ 32" using Cons.prems(4) by simp
    from Cons.IH [OF Cons.prems(1) r1(2,4) this] obtain f' r' rps' where
      "fold_unlink (remove_gateway_node g) (ll_nodes l qs) (st\<lparr>rtm_fresh := Suc f\<rparr>, r1) =
        Some (filter (\<lambda>q. \<not> goes_over g (route_of st (nd_data (the (ll_heap l q))))) qs, (st\<lparr>rtm_fresh := f'\<rparr>, r'))"
      "Suc f \<le> f'" "ll_wf r' rps'"
      "ll_data r' rps' = ll_data r1 (rps @ [f]) @ filter (\<lambda>e. goes_over g (route_of st e)) (ll_data l qs)"
      "\<forall>a\<ge>f'. ll_heap r' a = None" by auto
    with True r1(3) show ?thesis unfolding step
      by (intro exI [of _ f'] exI [of _ r'] exI [of _ rps']) (simp add: ll_data_def)
  next
    case False
    from Cons.IH [OF Cons.prems(1-3)] Cons.prems(4) False show ?thesis
      by (auto simp: remove_node_eq [OF live e] ll_data_def)
  qed
qed

text \<open>The routes that stay have all their next hops.\<close>

lemma kept_live:
  assumes live: "entries_live st es" and ok: "routes_ok (map (route_of st) es)"
  shows "entries_live st (filter (\<lambda>e. \<not> goes_over g (route_of st e)) es)"
proof -
  let ?ks = "filter (\<lambda>e. \<not> goes_over g (route_of st e)) es"
  have "entry_live st (dest_ptr st ` set ?ks) e" if e: "e \<in> set es" "\<not> goes_over g (route_of st e)" for e
  proof -
    obtain x d gr where x: "rtm_entries st e = Some x" "ge_destination x = Some d" "rtm_gwids st d = Some gr"
      "intfs_live st (gi_destIntfAddr gr)" 
      "route_of st e = (gi_gatewayId gr, map_option (gw_id st) (ge_nextHop x), ge_routeCost x)"
      and hop: "\<And>m. ge_nextHop x = Some m \<Longrightarrow> m \<in> dest_ptr st ` set es"
      by (rule entry_liveE [OF live e(1)]) blast
    have "m \<in> dest_ptr st ` set ?ks" if m: "ge_nextHop x = Some m" for m
    proof -
      obtain e' where e': "e' \<in> set es" "m = dest_ptr st e'" using hop [OF m] by blast
      have "route_valid (map (route_of st) es) (route_of st e)" using ok e(1) by (auto simp: routes_ok_def)
      then have "(gw_id st m, None, 1) \<in> set (map (route_of st) es)" using x(5) m by (simp add: route_valid_def)
      then have "route_of st e' = (gw_id st m, None, 1)"
        by (rule routes_ok_unique [OF ok, rotated]) (use e' in \<open>auto simp: id_of_ptr\<close>)
      moreover have "gw_id st m \<noteq> g" using e(2) x(5) m by (simp add: goes_over_def)
      ultimately show ?thesis using e' by (auto simp: goes_over_def)
    qed
    with x show ?thesis by (auto simp: entry_live_iff)
  qed
  then show ?thesis by (auto simp: entries_live_def)
qed

text \<open>The list of removed entries before the call: no list yet, or a well-formed one.\<close>

definition removed_ok :: "rtm \<Rightarrow> table option \<Rightarrow> addr list \<Rightarrow> bool" where
  "removed_ok st removed rps =
     (case removed of None \<Rightarrow> rps = []
      | Some r \<Rightarrow> ll_wf r rps \<and> (\<forall>a\<ge>rtm_fresh st. ll_heap r a = None))"

definition removed_data :: "table option \<Rightarrow> addr list \<Rightarrow> nat list" where
  "removed_data removed rps = (case removed of None \<Rightarrow> [] | Some r \<Rightarrow> ll_data r rps)"

lemma remove_gateway_ok:
  assumes rt: "rt_inv st l ps" and mem: "rtm_mem st = []" and rem: "removed_ok st removed rps"
    and room: "length rps + length ps < 2 ^ 32"
  obtains r' l' st' ps' rps' where
    "RTMRemoveGatewayEntry g removed (Some (Some l)) st = Some (OC_STACK_OK, Some r', Some (Some l'), st')"
    "rt_inv st' l' ps'" "routes st' l' ps' = filter (\<lambda>q. \<not> goes_over g q) (routes st l ps)"
    "ll_wf r' rps'" "ll_data r' rps' = removed_data removed rps @ filter (\<lambda>e. goes_over g (route_of st e)) (ll_data l ps)"
    "\<And>e. rtm_entries st' e = rtm_entries st e" "set ps' \<subseteq> set ps" "\<And>q. ll_heap l q = None \<Longrightarrow> ll_heap l' q = None"
    "ps' = filter (\<lambda>q. \<not> goes_over g (route_of st (nd_data (the (ll_heap l q))))) ps"
    "\<forall>q\<in>set ps - set ps'. ll_heap l' q = None"
proof -
  note inv = rt_invD [OF rt]
  obtain r where r: "(case removed of Some r \<Rightarrow> (Some r, st) | None \<Rightarrow> list_create st) = (Some r, st)"
    "ll_wf r rps" "ll_data r rps = removed_data removed rps" "\<forall>a\<ge>rtm_fresh st. ll_heap r a = None"
    using rem list_create_ok [OF mem] by (cases removed) (auto simp: removed_ok_def removed_data_def ll_wf_def ll_data_def)
  let ?f = "remove_gateway_node g" and ?ks = "filter (\<lambda>q. \<not> goes_over g (route_of st (nd_data (the (ll_heap l q))))) ps"
  have "nd_data (the (ll_heap l q)) \<in> set (ll_data l ps)" if "q \<in> set ps" for q
    using that by (auto simp: ll_data_def)
  then obtain f' r' rps' where u: "fold_unlink ?f (ll_nodes l ps) (st, r) = Some (?ks, (st\<lparr>rtm_fresh := f'\<rparr>, r'))"
    "rtm_fresh st \<le> f'" "ll_wf r' rps'"
    "ll_data r' rps' = ll_data r rps @ filter (\<lambda>e. goes_over g (route_of st e)) (ll_data l ps)"
    using fold_remove [OF inv(2) mem _ r(2,4) room, of l g] by auto
  obtain l' where l': "unlink_loop l ?f (ll_list l) (st, r) = Some (True, l', (st\<lparr>rtm_fresh := f'\<rparr>, r'))"
    "ll_wf l' ?ks" "ll_nodes l' ?ks = ll_nodes l ?ks" "\<forall>q. ll_heap l q = None \<longrightarrow> ll_heap l' q = None"
    "\<forall>q\<in>set ps - set ?ks. ll_heap l' q = None"
    using unlink_loop_all [OF inv(1), of ?f "(st, r)"] u(1) by auto
  have data: "ll_data l' ?ks = filter (\<lambda>e. \<not> goes_over g (route_of st e)) (ll_data l ps)"
    using l'(3) unfolding ll_nodes_data(1) [symmetric] by (simp add: ll_nodes_data(1)) (simp add: ll_data_def filter_map comp_def)
  have rs: "routes (st\<lparr>rtm_fresh := f'\<rparr>) l' ?ks = filter (\<lambda>q. \<not> goes_over g q) (routes st l ps)"
    by (simp add: routes_def data live_fresh filter_map comp_def)
  have "rt_inv (st\<lparr>rtm_fresh := f'\<rparr>) l' ?ks"
    using l'(2,4) kept_live [OF inv(2,3)] remove_routes_ok [OF inv(3), of g] inv(4) u(2)
    by (auto simp: rt_inv_def data live_fresh rs unused_def) (simp add: routes_def)
  moreover have "RTMRemoveGatewayEntry g removed (Some (Some l)) st =
      Some (OC_STACK_OK, Some r', Some (Some l'), st\<lparr>rtm_fresh := f'\<rparr>)"
    using r(1) l'(1) by (simp add: RTMRemoveGatewayEntry_def)
  ultimately show thesis using that u rs r(3) l'(4,5) by auto
qed

section \<open>Lookups\<close>

text \<open>The gateway a packet for \<open>g\<close> is sent to.\<close>

definition route_to :: "u32 \<Rightarrow> route list \<Rightarrow> u32 option" where
  "route_to g rs =
     (if g = 0 then None
      else case find (\<lambda>r. fst r = g) rs of
        None \<Rightarrow> None | Some (_, h, c) \<Rightarrow> if c = 1 then Some g else h)"

lemma next_hop_ok:
  assumes rt: "rt_inv st l ps"
  obtains d where "RTMGetNextHop g (Some l) st = Some d" "map_option (gw_id st) d = route_to g (routes st l ps)"
proof (cases "g = 0")
  case True
  then show thesis using that [of None] by (simp add: RTMGetNextHop_def route_to_def)
next
  case g: False
  note inv = rt_invD [OF rt]
  let ?P = "\<lambda>e. id_of st e = g"
  define hop where "hop e = (let x = the (rtm_entries st e) in if ge_routeCost x = 1 then Some (dest_ptr st e) else ge_nextHop x)" for e
  have body: "next_hop_body st g p (Some e) () = Some (if ?P e then Inl (hop e) else Inr ())"
    if "e \<in> set (ll_data l ps)" for p e
    by (rule entry_liveE [OF inv(2) that]) (simp add: next_hop_body_def deref_gwid_def hop_def)
  have f: "find (\<lambda>r. fst r = g) (routes st l ps) = map_option (route_of st) (find ?P (ll_data l ps))"
    by (simp add: routes_def find_map)
  show thesis
  proof (cases "find ?P (ll_data l ps)")
    case None
    then have "for_nodes (ll_heap l) (next_hop_body st g) (ll_list l) () = Some (Inr ())"
      by (intro for_nodes_search(1) [OF inv(1), of ?P]) (auto simp: body)
    then show thesis using that [of None] g None f by (simp add: RTMGetNextHop_def route_to_def)
  next
    case (Some e)
    then have e: "e \<in> set (ll_data l ps)" "?P e" using find_SomeD by force+
    have "for_nodes (ll_heap l) (next_hop_body st g) (ll_list l) () = Some (Inl (hop e))"
      using for_nodes_search(2) [OF inv(1), of ?P "next_hop_body st g" "()" "\<lambda>_. hop e" e] Some e by (auto simp: body)
    moreover have "map_option (gw_id st) (hop e) = route_to g (routes st l ps)"
      by (rule entry_liveE [OF inv(2) e(1)]) (use f Some g e(2) in \<open>auto simp: route_to_def hop_def Let_def\<close>)
    ultimately show thesis using that [of "hop e"] g by (simp add: RTMGetNextHop_def)
  qed
qed

lemma next_hop_eq:
  assumes "rt_inv st l ps"
  shows "map_option (map_option (gw_id st)) (RTMGetNextHop g (Some l) st) = Some (route_to g (routes st l ps))"
  by (rule next_hop_ok [OF assms, of g]) auto

lemma find_filter: "find P (filter Q xs) = find (\<lambda>x. P x \<and> Q x) xs"
  by (induction xs) auto

lemma find_replace:
  "fst r = g \<Longrightarrow> find (\<lambda>q. fst q = k) (replace_route g r rs) =
     (if k = g \<and> find (\<lambda>q. fst q = k) rs \<noteq> None then Some r else find (\<lambda>q. fst q = k) rs)"
  by (induction rs) auto

lemma find_append: "find P (xs @ ys) = (case find P xs of None \<Rightarrow> find P ys | Some x \<Rightarrow> Some x)"
  by (induction xs) auto

lemma find_cong_pred: "(\<And>x. x \<in> set xs \<Longrightarrow> P x = Q x) \<Longrightarrow> find P xs = find Q xs"
  by (induction xs) auto

lemma add_route_lookup:
  assumes "(OC_STACK_OK, rs') = add_route known g n c rs"
  shows "g \<noteq> 0 \<Longrightarrow> route_to g rs' = Some (if n = 0 then g else n)" and "k \<noteq> g \<Longrightarrow> route_to k rs' = route_to k rs"
proof -
  have "find (\<lambda>r. fst r = k) (filter (\<lambda>r. fst r \<noteq> g) rs) = find (\<lambda>r. fst r = k) rs" if "k \<noteq> g"
    unfolding find_filter by (rule find_cong_pred) (use that in auto)
  with assms show "g \<noteq> 0 \<Longrightarrow> route_to g rs' = Some (if n = 0 then g else n)" "k \<noteq> g \<Longrightarrow> route_to k rs' = route_to k rs"
    by (auto simp: add_route_def route_to_def find_append find_replace split: if_splits option.splits prod.splits)
qed

lemma remove_route_lookup:
  assumes ok: "routes_ok rs"
  shows "route_to k (filter (\<lambda>r. \<not> goes_over g r) rs) = (if k = g \<or> route_to k rs = Some g then None else route_to k rs)"
proof (cases "find (\<lambda>r. fst r = k) rs")
  case None
  then have "find (\<lambda>r. fst r = k) (filter (\<lambda>r. \<not> goes_over g r) rs) = None"
    by (auto simp: find_None_iff)
  with None show ?thesis by (auto simp: route_to_def)
next
  case (Some r)
  then obtain h c where r: "r = (k, h, c)" "(k, h, c) \<in> set rs" using find_SomeD [OF Some] by (cases r) auto
  have one: "c = 1 \<longleftrightarrow> h = None" using ok r(2) by (auto simp: routes_ok_def route_valid_def split: option.splits)
  have "find (\<lambda>r. fst r = k) (filter (\<lambda>r. \<not> goes_over g r) rs) = (if goes_over g r then None else Some r)"
  proof -
    have "(fst q = k \<and> \<not> goes_over g q) = (fst q = k \<and> \<not> goes_over g r)" if "q \<in> set rs" for q
      using routes_ok_unique [OF ok that r(2)] r(1) by auto
    then have "find (\<lambda>q. fst q = k \<and> \<not> goes_over g q) rs = find (\<lambda>q. fst q = k \<and> \<not> goes_over g r) rs"
      by (rule find_cong_pred)
    then show ?thesis using Some by (cases "goes_over g r") (auto simp: find_filter find_None_iff)
  qed
  with Some r one show ?thesis by (cases "goes_over g r") (auto simp: route_to_def goes_over_def)
qed

text \<open>The neighbours are a prefix of the table.\<close>

lemma ll_data_Cons: "ll_data l (q # qs) = nd_data (the (ll_heap l q)) # ll_data l qs"
  by (simp add: ll_data_def)

lemma fold_neighbours:
  assumes mem: "rtm_mem st = []"
    and "\<And>q. q \<in> set qs \<Longrightarrow> \<exists>x. rtm_entries st (nd_data (the (ll_heap l q))) = Some x \<and> ge_routeCost x \<noteq> 0"
    and "ll_wf n nps" and "\<forall>a\<ge>f. ll_heap n a = None" and "length nps + length qs < 2 ^ 32"
  shows "\<exists>res n' nps' f'. fold_loop neighbour_body (ll_nodes l qs) (n, st\<lparr>rtm_fresh := f\<rparr>) = Some res
    \<and> (case res of Inl y \<Rightarrow> y | Inr y \<Rightarrow> y) = (n', st\<lparr>rtm_fresh := f'\<rparr>) \<and> ll_wf n' nps'
    \<and> ll_data n' nps' = ll_data n nps @ takeWhile (\<lambda>e. ge_routeCost (the (rtm_entries st e)) = 1) (ll_data l qs)"
  using assms(2-)
proof (induction qs arbitrary: n nps f)
  case Nil
  then show ?case by (auto simp: ll_data_def)
next
  case (Cons q qs)
  let ?e = "nd_data (the (ll_heap l q))" and ?st = "st\<lparr>rtm_fresh := f\<rparr>"
  obtain x where x: "rtm_entries st ?e = Some x" "ge_routeCost x \<noteq> 0" using Cons.prems(1) by force
  show ?case
  proof (cases "ge_routeCost x = 1")
    case True
    obtain n1 where n1: "list_add ?st n ?e = Some (CA_STATUS_OK, n1, st\<lparr>rtm_fresh := Suc f\<rparr>)"
      "ll_wf n1 (nps @ [f])" "ll_data n1 (nps @ [f]) = ll_data n nps @ [?e]" "\<forall>a\<ge>Suc f. ll_heap n1 a = None"
      by (rule list_add_ok [OF Cons.prems(2), of ?st ?e]) (use Cons.prems mem in auto)
    have step: "fold_loop neighbour_body (ll_nodes l (q # qs)) (n, ?st) =
        fold_loop neighbour_body (ll_nodes l qs) (n1, st\<lparr>rtm_fresh := Suc f\<rparr>)"
      using x True n1(1) by (simp add: neighbour_body_def)
    have len: "length (nps @ [f]) + length qs < 2 ^ 32" using Cons.prems(4) by simp
    have "\<exists>x. rtm_entries st (nd_data (the (ll_heap l p))) = Some x \<and> ge_routeCost x \<noteq> 0" if "p \<in> set qs" for p
      using Cons.prems(1) that by simp
    from Cons.IH [OF this n1(2,4) len] n1(3) x True show ?thesis
      unfolding step by (simp add: ll_data_Cons)
  next
    case False
    then have "1 < ge_routeCost x" using x word_gt_one by blast
    then have "fold_loop neighbour_body (ll_nodes l (q # qs)) (n, ?st) = Some (Inl (n, ?st))"
      using x False by (simp add: neighbour_body_def)
    with False x Cons.prems(2) show ?thesis by (auto simp: ll_data_def)
  qed
qed

lemma takeWhile_sorted:
  "sorted_wrt (\<lambda>r q. P q \<longrightarrow> P r) xs \<Longrightarrow> takeWhile P xs = filter P xs"
  by (induction xs) (auto simp: filter_empty_conv)

lemma neighbours_ok:
  assumes rt: "rt_inv st l ps" and mem: "rtm_mem st = []" and room: "length ps < 2 ^ 32"
  obtains n nps st' where "RTMGetNeighbours (Some old) (Some l) st = Some (Some (Some n), st')" "ll_wf n nps"
    "ll_data n nps = filter (\<lambda>e. is_neighbour (route_of st e)) (ll_data l ps)"
proof -
  note inv = rt_invD [OF rt]
  have cost: "\<exists>x. rtm_entries st e = Some x \<and> ge_routeCost x \<noteq> 0 \<and> is_neighbour (route_of st e) = (ge_routeCost (the (rtm_entries st e)) = 1)"
    if e: "e \<in> set (ll_data l ps)" for e
  proof -
    obtain x g h where x: "rtm_entries st e = Some x" "route_of st e = (g, h, ge_routeCost x)"
      by (rule entry_liveE [OF inv(2) e]) blast
    have "route_valid (map (route_of st) (ll_data l ps)) (route_of st e)" using inv(3) e by (auto simp: routes_ok_def)
    with x show ?thesis by (auto simp: route_valid_def is_neighbour_def split: option.splits)
  qed
  have c: "\<exists>x. rtm_entries st (nd_data (the (ll_heap l q))) = Some x \<and> ge_routeCost x \<noteq> 0" if "q \<in> set ps" for q
    using cost that by (force simp: ll_data_def)
  let ?n = "\<lparr>ll_heap = (\<lambda>_. None), ll_list = None, ll_size = 0\<rparr> :: table"
  let ?P = "\<lambda>e. ge_routeCost (the (rtm_entries st e)) = 1"
  have e: "ll_wf ?n []" "\<forall>a\<ge>rtm_fresh st. ll_heap ?n a = None" "length [] + length ps < 2 ^ 32"
    using room by (simp_all add: ll_wf_def)
  obtain res n' nps' f' where n': "fold_loop neighbour_body (ll_nodes l ps) (?n, st) = Some res"
    "(case res of Inl y \<Rightarrow> y | Inr y \<Rightarrow> y) = (n', st\<lparr>rtm_fresh := f'\<rparr>)" "ll_wf n' nps'"
    "ll_data n' nps' = takeWhile ?P (ll_data l ps)"
    using fold_neighbours [OF mem c e] by (auto simp: ll_data_def)
  have "sorted_wrt (\<lambda>r q. ?P q \<longrightarrow> ?P r) (ll_data l ps)"
    using inv(3) cost by (auto simp: routes_ok_def sorted_wrt_map elim!: sorted_wrt_mono_rel [rotated])
  note takeWhile_sorted = takeWhile_sorted [OF this]
  have "takeWhile ?P (ll_data l ps) = filter (\<lambda>e. is_neighbour (route_of st e)) (ll_data l ps)"
    unfolding takeWhile_sorted by (rule filter_cong [OF refl]) (use cost in blast)
  moreover have "RTMGetNeighbours (Some old) (Some l) st = Some (Some (Some n'), st\<lparr>rtm_fresh := f'\<rparr>)"
    using n'(1,2) by (cases res) (simp_all add: RTMGetNeighbours_def list_create_ok [OF mem] for_nodes_all [OF inv(1)])
  ultimately show thesis using n' that by metis
qed

section \<open>Multicast sequence numbers\<close>

definition mcast_seq :: "rtm \<Rightarrow> nat \<Rightarrow> u16" where
  "mcast_seq st e = ge_mcastMessageSeqNum (the (rtm_entries st e))"

definition mcast_verdict :: "u16 \<Rightarrow> u16 \<Rightarrow> OCStackResult" where
  "mcast_verdict prev s =
     (if prev = 0 \<or> prev < s then OC_STACK_OK else if prev = s then OC_STACK_DUPLICATE_REQUEST else OC_STACK_COMM_ERROR)"

lemma mcast_ok:
  assumes rt: "rt_inv st l ps" and g: "find (\<lambda>e. id_of st e = g) (ll_data l ps) = Some e"
  obtains st' where "RTMUpdateMcastSeqNumber g s (Some (Some l)) st = Some (mcast_verdict (mcast_seq st e) s, st')"
    "rt_inv st' l ps" "route_of st' = route_of st"
    "mcast_seq st' e = (if mcast_verdict (mcast_seq st e) s = OC_STACK_OK then s else mcast_seq st e)"
proof -
  note inv = rt_invD [OF rt]
  have e: "e \<in> set (ll_data l ps)" "id_of st e = g" using find_SomeD [OF g] by auto
  obtain x where x: "rtm_entries st e = Some x" "\<And>g. dest_is st (ge_destination x) g = Some (id_of st e = g)"
    "ge_destination x = Some (dest_ptr st e)" using dest_is_live [OF inv(2) e(1)] by blast
  let ?x = "x\<lparr>ge_mcastMessageSeqNum := s\<rparr>" and ?v = "mcast_verdict (mcast_seq st e) s"
  define st' where "st' = (if ?v = OC_STACK_OK then set_entry e ?x st else st)"
  have hit: "mcast_body g s p (Some e) st = Some (Inl (?v, st'))" for p
    using x e(2) by (auto simp: mcast_body_def mcast_verdict_def mcast_seq_def st'_def)
  have miss: "mcast_body g s p (Some e') st = Some (Inr st)" if "e' \<in> set (ll_data l ps)" "id_of st e' \<noteq> g" for p e'
    using that by (auto simp: mcast_body_def elim!: dest_is_live [OF inv(2)])
  have "for_nodes (ll_heap l) (mcast_body g s) (ll_list l) st = Some (Inl (?v, st'))"
    using for_nodes_search(2) [OF inv(1), of "\<lambda>e. id_of st e = g" "mcast_body g s" st "\<lambda>_. (?v, st')" e] g hit miss by auto
  then have res: "RTMUpdateMcastSeqNumber g s (Some (Some l)) st = Some (?v, st')" by (simp add: RTMUpdateMcastSeqNumber_def)
  have hop: "\<And>m. ge_nextHop ?x = Some m \<Longrightarrow> m \<in> dest_ptr st ` set (ll_data l ps)"
    by (rule entry_liveE [OF inv(2) e(1)]) (use x(1) in auto)
  note se = set_entry_live [OF inv(2) e(1), of ?x, OF _ hop]
  have same: "route_of (set_entry e ?x st) = route_of st"
  proof
    fix a
    have "dest_ptr (set_entry e ?x st) = dest_ptr st" using se(2) x(3) by simp
    then show "route_of (set_entry e ?x st) a = route_of st a" using x(1) by (simp add: route_of_def)
  qed
  then have ro: "route_of st' = route_of st" by (simp add: st'_def)
  have "entries_live st' (ll_data l ps)" using inv(2) se(1) x(3) by (simp add: st'_def)
  moreover have "unused st' l" using inv(4) x(1) by (auto simp: st'_def unused_def)
  ultimately have "rt_inv st' l ps" using inv ro by (simp add: rt_inv_def routes_def)
  moreover have "mcast_seq st' e = (if ?v = OC_STACK_OK then s else mcast_seq st e)"
    by (simp add: st'_def mcast_seq_def)
  ultimately show thesis using that res ro by blast
qed

text \<open>A gateway sends a sequence of multicast packets: the sequence numbers of those that are let through.\<close>

fun mcast_run :: "u32 \<Rightarrow> table \<Rightarrow> u16 list \<Rightarrow> rtm \<Rightarrow> u16 list option" where
  "mcast_run g l [] st = Some []"
| "mcast_run g l (s # ss) st =
     (case RTMUpdateMcastSeqNumber g s (Some (Some l)) st of
        None \<Rightarrow> None
      | Some (r, st') \<Rightarrow> map_option (\<lambda>as. if r = OC_STACK_OK then s # as else as) (mcast_run g l ss st'))"

lemma mcast_run_ok:
  assumes "rt_inv st l ps" and "find (\<lambda>e. id_of st e = g) (ll_data l ps) = Some e" and "\<forall>s\<in>set ss. s \<noteq> 0"
  shows "\<exists>as. mcast_run g l ss st = Some as \<and> sorted_wrt (<) as \<and> (\<forall>a\<in>set as. mcast_seq st e < a) \<and> set as \<subseteq> set ss"
  using assms
proof (induction ss arbitrary: st)
  case (Cons s ss)
  obtain st' where st': "RTMUpdateMcastSeqNumber g s (Some (Some l)) st = Some (mcast_verdict (mcast_seq st e) s, st')"
    "rt_inv st' l ps" "route_of st' = route_of st"
    "mcast_seq st' e = (if mcast_verdict (mcast_seq st e) s = OC_STACK_OK then s else mcast_seq st e)"
    using mcast_ok [OF Cons.prems(1,2)] by metis
  have "find (\<lambda>e. id_of st' e = g) (ll_data l ps) = Some e" using Cons.prems(2) st'(3) by simp
  from Cons.IH [OF st'(2) this] Cons.prems(3) obtain as where
    as: "mcast_run g l ss st' = Some as" "sorted_wrt (<) as" "\<forall>a\<in>set as. mcast_seq st' e < a" "set as \<subseteq> set ss" by auto
  have "mcast_seq st e < s" if "mcast_verdict (mcast_seq st e) s = OC_STACK_OK"
    using that Cons.prems(3) by (auto simp: mcast_verdict_def word_neq_0_conv split: if_splits)
  then show ?case using as st' by (auto split: if_splits)
qed simp

section \<open>Invalid gateways\<close>

definition addressless :: "rtm \<Rightarrow> nat \<Rightarrow> bool" where
  "addressless st e \<longleftrightarrow> is_neighbour (route_of st e)
     \<and> al_abs (gi_destIntfAddr (the (rtm_gwids st (dest_ptr st e)))) = []"

lemma invalid_slots:
  assumes "intfs_live st arr"
  shows "for_slots arr invalid_slot 0 () = Some (Inr ())"
proof -
  have "fold_loop invalid_slot (enumerate k xs) () = Some (Inr ())" if "\<forall>x\<in>set xs. x \<noteq> None" for k xs
    using that by (induction xs arbitrary: k) (auto simp: invalid_slot_def)
  with assms show ?thesis by (simp add: intfs_live_def for_slots_all)
qed

text \<open>The gateway is removed from the table together with the node the loop stands on.\<close>

lemma invalid_removal:
  assumes rt: "rt_inv st l ps" and mem: "rtm_mem st = []" and rem: "removed_ok st (Some r) rps"
    and room: "length rps + length ps < 2 ^ 32" and q: "q \<in> set ps"
    and e: "nd_data (the (ll_heap l q)) = e" "rtm_gwids st (dest_ptr st e) = Some g"
  obtains r' l' st' where
    "RTMRemoveGatewayEntry (gi_gatewayId g) (Some r) (Some (Some l)) (set_gwid (dest_ptr st e) (g\<lparr>gi_destIntfAddr := None\<rparr>) st)
      = Some (OC_STACK_OK, Some r', Some (Some l'), st')" "u_linklist_get_next (ll_heap l') (Some (Some q)) = None"
proof -
  note inv = rt_invD [OF rt]
  let ?st = "set_gwid (dest_ptr st e) (g\<lparr>gi_destIntfAddr := None\<rparr>) st"
  have k: "keeps st ?st" by (rule keeps_set_gwid [OF e(2)]) (simp_all add: intfs_live_def al_ok_def al_abs_def)
  have es: "e \<in> set (ll_data l ps)" using q e(1) by (auto simp: ll_data_def)
  have rs: "routes ?st l ps = routes st l ps" by (simp only: routes_def keeps_live(2) [OF inv(2) k])
  have rt': "rt_inv ?st l ps"
    using rt keeps_live(1) [OF inv(2) k] e(2) by (auto simp: rt_inv_def rs unused_def)
  have rem': "removed_ok ?st (Some r) rps" using rem by (simp add: removed_ok_def)
  have "goes_over (gi_gatewayId g) (route_of ?st e)"
    using keeps_entry(2) [OF inv(2) k es] e(2) by (simp add: goes_over_def id_of_ptr gw_id_def)
  moreover obtain r' l' st' ps' where
    "RTMRemoveGatewayEntry (gi_gatewayId g) (Some r) (Some (Some l)) ?st = Some (OC_STACK_OK, Some r', Some (Some l'), st')"
    "ps' = filter (\<lambda>q. \<not> goes_over (gi_gatewayId g) (route_of ?st (nd_data (the (ll_heap l q))))) ps"
    "\<forall>q\<in>set ps - set ps'. ll_heap l' q = None"
    by (rule remove_gateway_ok [OF rt' _ rem' room, of "gi_gatewayId g"]) (use mem in auto)
  ultimately show thesis using q e(1) by (intro that) (auto simp: u_linklist_get_next_def)
qed

lemma invalid_loop_eq:
  assumes rt: "rt_inv st l ps" and mem: "rtm_mem st = []" and rem: "removed_ok st (Some r) rps"
    and room: "length rps + length ps < 2 ^ 32" and "ps = xs @ ys"
  shows "invalid_loop (Some r) l (case ys of [] \<Rightarrow> None | y # _ \<Rightarrow> Some y) st =
    (if \<exists>y\<in>set ys. addressless st (nd_data (the (ll_heap l y))) then None else Some (OC_STACK_OK, Some r, l, st))"
  using assms(5)
proof (induction ys arbitrary: xs)
  case Nil
  then show ?case by (simp add: invalid_loop.simps)
next
  case (Cons y ys)
  note inv = rt_invD [OF rt]
  let ?e = "nd_data (the (ll_heap l y))" and ?hd = "\<lambda>ys. case ys of [] \<Rightarrow> None | y # _ \<Rightarrow> Some y"
  have wf: "ll_wf l (xs @ y # ys)" using inv(1) Cons.prems by simp
  have "ll_heap l y \<noteq> None" using wf chain_dom by (fastforce simp: ll_wf_def)
  then have d: "u_linklist_get_data (ll_heap l) (Some y) = Some ?e" by (auto simp: u_linklist_get_data_def)
  obtain v where n: "u_linklist_get_next (ll_heap l) (Some (Some y)) = Some (v, Some (?hd ys))"
    using get_next_wf [OF wf] by (cases ys) auto
  have e: "?e \<in> set (ll_data l ps)" using Cons.prems by (auto simp: ll_data_def)
  obtain x g h where x: "rtm_entries st ?e = Some x" "ge_destination x = Some (dest_ptr st ?e)"
    "rtm_gwids st (dest_ptr st ?e) = Some g" "intfs_live st (gi_destIntfAddr g)"
    "route_of st ?e = (gi_gatewayId g, h, ge_routeCost x)"
    by (rule entry_liveE [OF inv(2) e]) auto
  have "route_valid (map (route_of st) (ll_data l ps)) (route_of st ?e)" using inv(3) e by (auto simp: routes_ok_def)
  then have far: "1 < ge_routeCost x" if "ge_routeCost x \<noteq> 1" using that x(5) by (auto simp: route_valid_def split: option.splits)
  have ih: "invalid_loop (Some r) l (?hd ys) st =
    (if \<exists>y\<in>set ys. addressless st (nd_data (the (ll_heap l y))) then None else Some (OC_STACK_OK, Some r, l, st))"
    using Cons.IH [of "xs @ [y]"] Cons.prems by simp
  have len: "u_arraylist_length (gi_destIntfAddr g) = length (al_abs (gi_destIntfAddr g))"
    using x(4) by (simp add: intfs_live_def al_ok_length)
  have de: "deref_gwid st (Some ?e) = Some (x, dest_ptr st ?e, g)" using x by (simp add: deref_gwid_def)
  consider "ge_routeCost x \<noteq> 1" | "addressless st ?e" | "ge_routeCost x = 1" "\<not> addressless st ?e" by blast
  then show ?case
  proof cases
    case 1
    have "\<not> is_neighbour (route_of st (nd_data (the (ll_heap l z))))" if "z \<in> set ys" for z
    proof -
      have "sorted_wrt (\<lambda>r q. is_neighbour q \<longrightarrow> is_neighbour r) (map (\<lambda>p. route_of st (nd_data (the (ll_heap l p)))) (xs @ y # ys))"
        using inv(3) Cons.prems by (simp add: routes_ok_def ll_data_def comp_def)
      then show ?thesis using that 1 x(5) by (auto simp: sorted_wrt_append is_neighbour_def)
    qed
    then have "\<not> (\<exists>z\<in>set (y # ys). addressless st (nd_data (the (ll_heap l z))))"
      using 1 x(5) by (auto simp: addressless_def is_neighbour_def)
    moreover have "invalid_loop (Some r) l (?hd (y # ys)) st = Some (OC_STACK_OK, Some r, l, st)"
      by (subst invalid_loop.simps) (use 1 d x(1,2) far in simp)
    ultimately show ?thesis by simp
  next
    case 2
    obtain r' l' st' where rg: "RTMRemoveGatewayEntry (gi_gatewayId g) (Some r) (Some (Some l))
        (set_gwid (dest_ptr st ?e) (g\<lparr>gi_destIntfAddr := None\<rparr>) st) = Some (OC_STACK_OK, Some r', Some (Some l'), st')"
      "u_linklist_get_next (ll_heap l') (Some (Some y)) = None"
      by (rule invalid_removal [OF rt mem rem room _ refl x(3)]) (use Cons.prems in auto)
    have one: "ge_routeCost x = 1" "al_abs (gi_destIntfAddr g) = []"
      using 2 x by (auto simp: addressless_def is_neighbour_def)
    have "invalid_loop (Some r) l (?hd (y # ys)) st = None"
      by (subst invalid_loop.simps) (use one d x(1,2) de len rg invalid_slots [OF x(4)] in simp)
    with 2 show ?thesis by simp
  next
    case 3
    then have ne: "al_abs (gi_destIntfAddr g) \<noteq> []" using x by (auto simp: addressless_def is_neighbour_def)
    have "invalid_loop (Some r) l (?hd (y # ys)) st = invalid_loop (Some r) l (?hd ys) st"
      by (subst invalid_loop.simps) (use 3 ne d n x(1,2) de len invalid_slots [OF x(4)] in simp)
    with 3 ih show ?thesis by simp
  qed
qed

section \<open>The endpoint table\<close>

definition ep_inv :: "rtm \<Rightarrow> table \<Rightarrow> addr list \<Rightarrow> bool" where
  "ep_inv st l ps \<longleftrightarrow> ll_wf l ps \<and> distinct (ll_data l ps) \<and> (\<forall>e\<in>set (ll_data l ps). rtm_endpoints st e \<noteq> None)
     \<and> (\<forall>a\<ge>rtm_fresh st. rtm_endpoints st a = None \<and> ll_heap l a = None)"

definition endpoints :: "rtm \<Rightarrow> table \<Rightarrow> addr list \<Rightarrow> RTMEndpointEntry list" where
  "endpoints st l ps = map (\<lambda>e. the (rtm_endpoints st e)) (ll_data l ps)"

definition endpoint_of :: "u16 \<Rightarrow> RTMEndpointEntry list \<Rightarrow> CAEndpoint option" where
  "endpoint_of k xs = map_option ee_destIntfAddr (find (\<lambda>x. ee_endpointId x = k) xs)"

lemma get_endpoint_ok:
  assumes ep: "ep_inv st l ps"
  shows "RTMGetEndpointEntry k (Some l) st = Some (endpoint_of k (endpoints st l ps))"
proof -
  from ep have wf: "ll_wf l ps" and live: "\<And>e. e \<in> set (ll_data l ps) \<Longrightarrow> \<exists>x. rtm_endpoints st e = Some x"
    by (auto simp: ep_inv_def)
  let ?P = "\<lambda>e. ee_endpointId (the (rtm_endpoints st e)) = k"
  let ?f = "\<lambda>(p :: addr) e u. case e of None \<Rightarrow> Some (Inr ())
    | Some a \<Rightarrow> do { entry \<leftarrow> rtm_endpoints st a;
        Some (if ee_endpointId entry = k then Inl (ee_destIntfAddr entry) else Inr ()) }"
  have body: "?f p (Some e) () = Some (if ?P e then Inl (ee_destIntfAddr (the (rtm_endpoints st e))) else Inr ())"
    if "e \<in> set (ll_data l ps)" for p e using live [OF that] by auto
  have f: "find (\<lambda>x. ee_endpointId x = k) (endpoints st l ps) = map_option (\<lambda>e. the (rtm_endpoints st e)) (find ?P (ll_data l ps))"
    by (simp add: endpoints_def find_map)
  show ?thesis
  proof (cases "find ?P (ll_data l ps)")
    case None
    then have "for_nodes (ll_heap l) ?f (ll_list l) () = Some (Inr ())"
      by (intro for_nodes_search(1) [OF wf, of ?P]) (use body in auto)
    then show ?thesis using None f by (simp add: RTMGetEndpointEntry_def endpoint_of_def)
  next
    case (Some e)
    then have "for_nodes (ll_heap l) ?f (ll_list l) () = Some (Inl (ee_destIntfAddr (the (rtm_endpoints st e))))"
      using for_nodes_search(2) [OF wf, of ?P ?f "()" "\<lambda>_. ee_destIntfAddr (the (rtm_endpoints st e))" e] body find_SomeD [OF Some]
      by auto
    then show ?thesis using Some f by (simp add: RTMGetEndpointEntry_def endpoint_of_def)
  qed
qed

lemma find_endpoint_ok:
  assumes ep: "ep_inv st l ps"
  shows "for_nodes (ll_heap l) (find_endpoint_body st adr) (ll_list l) () =
    Some (case find (\<lambda>x. same_addr adr (ee_destIntfAddr x)) (endpoints st l ps) of
      None \<Rightarrow> Inr () | Some x \<Rightarrow> Inl (ee_endpointId x))"
proof -
  from ep have wf: "ll_wf l ps" and live: "\<And>e. e \<in> set (ll_data l ps) \<Longrightarrow> \<exists>x. rtm_endpoints st e = Some x"
    by (auto simp: ep_inv_def)
  let ?P = "\<lambda>e. same_addr adr (ee_destIntfAddr (the (rtm_endpoints st e)))"
  have body: "find_endpoint_body st adr p (Some e) () =
      Some (if ?P e then Inl (ee_endpointId (the (rtm_endpoints st e))) else Inr ())"
    if "e \<in> set (ll_data l ps)" for p e using live [OF that] by (auto simp: find_endpoint_body_def)
  show ?thesis
  proof (cases "find ?P (ll_data l ps)")
    case None
    then have "for_nodes (ll_heap l) (find_endpoint_body st adr) (ll_list l) () = Some (Inr ())"
      by (intro for_nodes_search(1) [OF wf, of ?P]) (use body in auto)
    with None show ?thesis by (simp add: endpoints_def find_map)
  next
    case (Some e)
    then show ?thesis
      using for_nodes_search(2) [OF wf, of ?P "find_endpoint_body st adr" "()" "\<lambda>_. ee_endpointId (the (rtm_endpoints st e))" e]
        body find_SomeD [OF Some]
      by (auto simp: endpoints_def find_map)
  qed
qed

lemma add_endpoint_ok:
  assumes ep: "ep_inv st l ps" and mem: "rtm_mem st = []" and room: "length ps + 1 < 2 ^ 32"
    and new: "find (\<lambda>x. same_addr adr (ee_destIntfAddr x)) (endpoints st l ps) = None"
  obtains l' ps' st' where "RTMAddEndpointEntry (Some k) (Some adr) (Some (Some l)) st =
      Some (OC_STACK_OK, Some k, Some (Some l'), st')"
    "ep_inv st' l' ps'" "endpoints st' l' ps' = endpoints st l ps @ [\<lparr>ee_endpointId = k, ee_destIntfAddr = adr\<rparr>]"
proof -
  let ?e = "rtm_fresh st" and ?st = "st\<lparr>rtm_fresh := Suc (rtm_fresh st)\<rparr>"
  from ep have wf: "ll_wf l ps" and fresh: "\<forall>a\<ge>rtm_fresh ?st. ll_heap l a = None" "rtm_endpoints st ?e = None"
    by (auto simp: ep_inv_def)
  obtain l' where l': "list_add ?st l ?e = Some (CA_STATUS_OK, l', ?st\<lparr>rtm_fresh := Suc (Suc ?e)\<rparr>)"
    "ll_wf l' (ps @ [Suc ?e])" "ll_data l' (ps @ [Suc ?e]) = ll_data l ps @ [?e]" "\<forall>a\<ge>Suc (Suc ?e). ll_heap l' a = None"
    by (rule list_add_ok [OF wf fresh(1) room, of ?e]) (use mem in auto)
  have out: "?e \<notin> set (ll_data l ps)" using ep fresh by (auto simp: ep_inv_def)
  let ?st' = "st\<lparr>rtm_fresh := Suc (Suc ?e), rtm_endpoints := (rtm_endpoints st)(?e \<mapsto> \<lparr>ee_endpointId = k, ee_destIntfAddr = adr\<rparr>)\<rparr>"
  have "RTMAddEndpointEntry (Some k) (Some adr) (Some (Some l)) st = Some (OC_STACK_OK, Some k, Some (Some l'), ?st')"
    using l'(1) mem by (simp add: RTMAddEndpointEntry_def find_endpoint_ok [OF ep] new)
  moreover have "ep_inv ?st' l' (ps @ [Suc ?e])" using ep l' out by (auto simp: ep_inv_def)
  moreover have "endpoints ?st' l' (ps @ [Suc ?e]) = endpoints st l ps @ [\<lparr>ee_endpointId = k, ee_destIntfAddr = adr\<rparr>]"
    using l'(3) out by (auto simp: endpoints_def)
  ultimately show thesis by (rule that)
qed

text \<open>A removal frees exactly the entries with the id.\<close>

lemma fold_remove_endpoints:
  assumes "\<And>q. q \<in> set qs \<Longrightarrow> rtm_endpoints st (nd_data (the (ll_heap l q))) \<noteq> None" and "distinct (ll_data l qs)"
  shows "fold_unlink (remove_endpoint_node k) (ll_nodes l qs) st =
    Some (filter (\<lambda>q. ee_endpointId (the (rtm_endpoints st (nd_data (the (ll_heap l q))))) \<noteq> k) qs,
      st\<lparr>rtm_endpoints := (\<lambda>a. if a \<in> set (ll_data l qs) \<and> ee_endpointId (the (rtm_endpoints st a)) = k then None
                             else rtm_endpoints st a)\<rparr>)"
  using assms
proof (induction qs arbitrary: st)
  case Nil
  then show ?case by (simp add: ll_data_def)
next
  case (Cons q qs)
  let ?e = "nd_data (the (ll_heap l q))"
  obtain x where x: "rtm_endpoints st ?e = Some x" using Cons.prems(1) by force
  let ?st = "if ee_endpointId x = k then st\<lparr>rtm_endpoints := (rtm_endpoints st)(?e := None)\<rparr> else st"
  have out: "?e \<notin> set (ll_data l qs)" "distinct (ll_data l qs)" using Cons.prems(2) by (auto simp: ll_data_Cons)
  have mem: "nd_data (the (ll_heap l p)) \<in> set (ll_data l qs)" if "p \<in> set qs" for p
    using that by (auto simp: ll_data_def)
  have ne: "nd_data (the (ll_heap l p)) \<noteq> ?e" if "p \<in> set qs" for p using mem [OF that] out(1) by metis
  have "rtm_endpoints ?st (nd_data (the (ll_heap l p))) \<noteq> None" if "p \<in> set qs" for p
    using Cons.prems(1) [of p] that ne [OF that] by auto
  note ih = Cons.IH [OF this out(2)]
  have f: "filter (\<lambda>p. ee_endpointId (the (rtm_endpoints ?st (nd_data (the (ll_heap l p))))) \<noteq> k) qs =
      filter (\<lambda>p. ee_endpointId (the (rtm_endpoints st (nd_data (the (ll_heap l p))))) \<noteq> k) qs"
    by (rule filter_cong [OF refl]) (use ne in auto)
  let ?H = "\<lambda>st qs a. if a \<in> set (ll_data l qs) \<and> ee_endpointId (the (rtm_endpoints st a)) = k then None
                             else rtm_endpoints st a"
  have H: "?H ?st qs = ?H st (q # qs)" by (rule ext) (use out x in \<open>auto simp: ll_data_Cons\<close>)
  have "?st\<lparr>rtm_endpoints := ?H ?st qs\<rparr> = st\<lparr>rtm_endpoints := ?H st (q # qs)\<rparr>" unfolding H by simp
  note ih = ih [unfolded this f]
  show ?case
  proof (cases "ee_endpointId x = k")
    case True
    then have "fold_unlink (remove_endpoint_node k) (ll_nodes l (q # qs)) st = fold_unlink (remove_endpoint_node k) (ll_nodes l qs) ?st"
      using x by (simp add: remove_endpoint_node_def)
    then show ?thesis using ih True x by simp
  next
    case False
    then show ?thesis using ih x by (simp add: remove_endpoint_node_def)
  qed
qed

lemma remove_endpoint_ok:
  assumes ep: "ep_inv st l ps"
  obtains l' ps' st' where "RTMRemoveEndpointEntry k (Some (Some l)) st = Some (OC_STACK_OK, Some (Some l'), st')"
    "ep_inv st' l' ps'" "endpoints st' l' ps' = filter (\<lambda>x. ee_endpointId x \<noteq> k) (endpoints st l ps)"
proof -
  from ep have wf: "ll_wf l ps" and d: "distinct (ll_data l ps)"
    and live: "\<And>q. q \<in> set ps \<Longrightarrow> rtm_endpoints st (nd_data (the (ll_heap l q))) \<noteq> None"
    by (auto simp: ep_inv_def ll_data_def)
  let ?ks = "filter (\<lambda>q. ee_endpointId (the (rtm_endpoints st (nd_data (the (ll_heap l q))))) \<noteq> k) ps"
  let ?st = "st\<lparr>rtm_endpoints := (\<lambda>a. if a \<in> set (ll_data l ps) \<and> ee_endpointId (the (rtm_endpoints st a)) = k then None
                             else rtm_endpoints st a)\<rparr>"
  obtain l' where l': "unlink_loop l (remove_endpoint_node k) (ll_list l) st = Some (True, l', ?st)" "ll_wf l' ?ks"
    "ll_nodes l' ?ks = ll_nodes l ?ks" "\<forall>q. ll_heap l q = None \<longrightarrow> ll_heap l' q = None"
    using unlink_loop_all [OF wf, of "remove_endpoint_node k" st] fold_remove_endpoints [OF live d, of k] by auto
  have data: "ll_data l' ?ks = filter (\<lambda>e. ee_endpointId (the (rtm_endpoints st e)) \<noteq> k) (ll_data l ps)"
    using l'(3) unfolding ll_nodes_data(1) [symmetric] by (simp add: ll_nodes_data(1)) (simp add: ll_data_def filter_map comp_def)
  have "RTMRemoveEndpointEntry k (Some (Some l)) st = Some (OC_STACK_OK, Some (Some l'), ?st)"
    using l'(1) by (simp add: RTMRemoveEndpointEntry_def)
  moreover have "ep_inv ?st l' ?ks" using ep l' data by (auto simp: ep_inv_def)
  moreover have "endpoints ?st l' ?ks = filter (\<lambda>x. ee_endpointId x \<noteq> k) (endpoints st l ps)"
    by (auto simp: endpoints_def data filter_map comp_def)
  ultimately show thesis by (rule that)
qed

section \<open>Properties\<close>

text \<open>
  A gateway with a neighbour (gateway 100) and a route over it (to gateway 200), and an endpoint
  table with one endpoint, for the examples.
\<close>

definition example_rtm :: rtm where
  "example_rtm = \<lparr>
     rtm_entries = [0 \<mapsto> \<lparr>ge_destination = Some 1, ge_nextHop = None, ge_routeCost = 1, ge_mcastMessageSeqNum = 0, ge_seqNum = 0\<rparr>,
                    2 \<mapsto> \<lparr>ge_destination = Some 3, ge_nextHop = Some 1, ge_routeCost = 2, ge_mcastMessageSeqNum = 0, ge_seqNum = 0\<rparr>],
     rtm_gwids = [1 \<mapsto> \<lparr>gi_gatewayId = 100, gi_destIntfAddr = None\<rparr>, 3 \<mapsto> \<lparr>gi_gatewayId = 200, gi_destIntfAddr = None\<rparr>],
     rtm_intfs = Map.empty, rtm_endpoints = [6 \<mapsto> \<lparr>ee_endpointId = 7, ee_destIntfAddr = example_peer\<rparr>],
     rtm_fresh = 9, rtm_mem = []\<rparr>"

definition example_table :: table where
  "example_table = \<lparr>ll_heap = [4 \<mapsto> \<lparr>nd_data = 0, nd_next = Some 5\<rparr>, 5 \<mapsto> \<lparr>nd_data = 2, nd_next = None\<rparr>],
     ll_list = Some 4, ll_size = 2\<rparr>"

definition example_endpoints :: table where
  "example_endpoints = \<lparr>ll_heap = [8 \<mapsto> \<lparr>nd_data = 6, nd_next = None\<rparr>], ll_list = Some 8, ll_size = 1\<rparr>"

lemma example_routes: "routes example_rtm example_table [4, 5] = [(100, None, 1), (200, Some 100, 2)]"
  by (simp add: routes_def ll_data_def example_table_def example_rtm_def route_of_def dest_ptr_def gw_id_def)

lemma example_inv: "rt_inv example_rtm example_table [4, 5]"
proof -
  have "routes_ok (routes example_rtm example_table [4, 5])"
    by (simp add: example_routes routes_ok_def route_valid_def is_neighbour_def)
  moreover have "entries_live example_rtm (ll_data example_table [4, 5])"
    by (simp add: entries_live_def entry_live_def ll_data_def example_table_def example_rtm_def gwid_live_def
        intfs_live_def al_ok_def al_abs_def dest_ptr_def)
  ultimately show ?thesis
    by (simp add: rt_inv_def unused_def) (simp add: ll_wf_def example_table_def example_rtm_def)
qed

lemma example_ep_inv: "ep_inv example_rtm example_endpoints [8]"
  by (simp add: ep_inv_def ll_wf_def ll_data_def example_endpoints_def example_rtm_def)

lemma example_mem [simp]: "rtm_mem example_rtm = []"
  by (simp add: example_rtm_def)

text \<open>
  C23: \<open>RTMAddGatewayEntry\<close> refines \<^const>\<open>add_route\<close>. On a table that satisfies the invariant, when no
  allocation fails, the next hop (if any) is meant to be a neighbour and an address is given for a
  neighbour, the call returns, its result code and the new list of routes are those of the abstract
  operation, and the invariant holds again: no pointer of the table dangles, destinations stay
  unique, neighbours stay at the head and every next hop is a neighbour.
\<close>

theorem RTMAddGatewayEntry_refines:
  assumes "rt_inv st l ps" and "rtm_mem st = []" and "length ps + 1 < 2 ^ 32"
    and "nextHop \<noteq> 0 \<Longrightarrow> hop_contract nextHop (routes st l ps)" and "nextHop = 0 \<Longrightarrow> destInterfaces \<noteq> None"
  shows "\<exists>r l' st' ps' known.
     RTMAddGatewayEntry now gatewayId nextHop routeCost destInterfaces (Some (Some l)) st = Some (r, Some (Some l'), st')
     \<and> rt_inv st' l' ps' \<and> (r, routes st' l' ps') = add_route known gatewayId nextHop routeCost (routes st l ps)"
  by (rule add_gateway_ok [OF assms, of now gatewayId routeCost]) blast+

theorem RTMAddGatewayEntry_refines_witness:
  "\<exists>l' st' ps'. RTMAddGatewayEntry 5 300 100 2 None (Some (Some example_table)) example_rtm
       = Some (OC_STACK_OK, Some (Some l'), st')
     \<and> routes st' l' ps' = [(100, None, 1), (200, Some 100, 2), (300, Some 100, 2)]"
proof -
  have "hop_contract 100 (routes example_rtm example_table [4, 5])"
    by (simp add: example_routes hop_contract_def is_neighbour_def)
  then show ?thesis
    using RTMAddGatewayEntry_refines [OF example_inv, of 100 None 5 300 2]
    by (auto simp: example_routes add_route_def)
qed

text \<open>
  C24: \<open>RTMRemoveGatewayEntry\<close> removes exactly the routes to a gateway and over it, keeps the order of
  the others, and appends the removed entries to the caller's list (created on demand). The invariant
  holds again; in particular no remaining route points to a removed gateway, so the caller can free
  the removed entries.
\<close>

theorem RTMRemoveGatewayEntry_refines:
  assumes "rt_inv st l ps" and "rtm_mem st = []" and "removed_ok st removed rps" and "length rps + length ps < 2 ^ 32"
  shows "\<exists>r' l' st' ps' rps'.
     RTMRemoveGatewayEntry gatewayId removed (Some (Some l)) st = Some (OC_STACK_OK, Some r', Some (Some l'), st')
     \<and> rt_inv st' l' ps' \<and> routes st' l' ps' = filter (\<lambda>q. \<not> goes_over gatewayId q) (routes st l ps)
     \<and> ll_wf r' rps' \<and> ll_data r' rps' =
         removed_data removed rps @ filter (\<lambda>e. goes_over gatewayId (route_of st e)) (ll_data l ps)"
  by (rule remove_gateway_ok [OF assms, of gatewayId]) blast

theorem RTMRemoveGatewayEntry_refines_witness:
  "\<exists>r' l' st' rps'. RTMRemoveGatewayEntry 100 None (Some (Some example_table)) example_rtm
       = Some (OC_STACK_OK, Some r', Some (Some l'), st') \<and> ll_data r' rps' = [0, 2]"
proof -
  have "removed_ok example_rtm None []" by (simp add: removed_ok_def)
  moreover have "filter (\<lambda>e. goes_over 100 (route_of example_rtm e)) (ll_data example_table [4, 5]) = [0, 2]"
    by (simp add: ll_data_def example_table_def goes_over_def route_of_def example_rtm_def dest_ptr_def gw_id_def)
  ultimately show ?thesis
    using RTMRemoveGatewayEntry_refines [OF example_inv, of None "[]" 100] by (auto simp: removed_data_def)
qed

text \<open>
  \<open>RTMGetNextHop\<close> looks up the route: after a successful addition packets for the gateway go to
  its next hop (to the gateway itself when it is a neighbour), and no other destination is affected;
  after a removal nothing is sent to the removed gateway, neither as destination nor as next hop, and
  the routes over other gateways are unchanged.
\<close>

lemma RTMGetNextHop_lookup:
  assumes rt: "rt_inv st l ps" and mem: "rtm_mem st = []" and room: "length ps + 1 < 2 ^ 32"
    and hop: "n \<noteq> 0 \<Longrightarrow> hop_contract n (routes st l ps)" and di: "n = 0 \<Longrightarrow> di \<noteq> None"
    and g: "g \<noteq> 0"
  shows "(\<forall>l' st'. RTMAddGatewayEntry now g n c di (Some (Some l)) st = Some (OC_STACK_OK, Some (Some l'), st') \<longrightarrow>
        (\<exists>d. RTMGetNextHop g (Some l') st' = Some (Some d) \<and> gw_id st' d = (if n = 0 then g else n))
      \<and> (\<forall>k. k \<noteq> g \<longrightarrow> map_option (map_option (gw_id st')) (RTMGetNextHop k (Some l') st')
                        = map_option (map_option (gw_id st)) (RTMGetNextHop k (Some l) st)))
     \<and> (\<exists>r' l' st'. RTMRemoveGatewayEntry g None (Some (Some l)) st = Some (OC_STACK_OK, Some r', Some (Some l'), st')
      \<and> (\<forall>k. map_option (map_option (gw_id st')) (RTMGetNextHop k (Some l') st') =
              Some (if k = g \<or> route_to k (routes st l ps) = Some g then None else route_to k (routes st l ps))))"
proof (intro conjI allI impI)
  fix l' st' assume add: "RTMAddGatewayEntry now g n c di (Some (Some l)) st = Some (OC_STACK_OK, Some (Some l'), st')"
  obtain ps' known where l': "rt_inv st' l' ps'" "(OC_STACK_OK, routes st' l' ps') = add_route known g n c (routes st l ps)"
    by (rule add_gateway_ok [OF rt mem room hop di, of now g c]) (use add in auto)
  show "\<exists>d. RTMGetNextHop g (Some l') st' = Some (Some d) \<and> gw_id st' d = (if n = 0 then g else n)"
    using next_hop_eq [OF l'(1), of g] add_route_lookup(1) [OF l'(2) g] by auto
  show "map_option (map_option (gw_id st')) (RTMGetNextHop k (Some l') st')
      = map_option (map_option (gw_id st)) (RTMGetNextHop k (Some l) st)" if "k \<noteq> g" for k
    unfolding next_hop_eq [OF l'(1)] next_hop_eq [OF rt] using add_route_lookup(2) [OF l'(2) that] by simp
next
  have ok: "routes_ok (routes st l ps)" using rt by (simp add: rt_inv_def)
  have "removed_ok st None []" by (simp add: removed_ok_def)
  then obtain r' l' st' ps' where
    r: "RTMRemoveGatewayEntry g None (Some (Some l)) st = Some (OC_STACK_OK, Some r', Some (Some l'), st')"
    "rt_inv st' l' ps'" "routes st' l' ps' = filter (\<lambda>q. \<not> goes_over g q) (routes st l ps)"
    by (rule remove_gateway_ok [OF rt mem, of None "[]" g]) (use room in auto)
  have "map_option (map_option (gw_id st')) (RTMGetNextHop k (Some l') st') =
      Some (if k = g \<or> route_to k (routes st l ps) = Some g then None else route_to k (routes st l ps))" for k
    unfolding next_hop_eq [OF r(2)] r(3) remove_route_lookup [OF ok] ..
  with r(1) show "\<exists>r' l' st'. RTMRemoveGatewayEntry g None (Some (Some l)) st = Some (OC_STACK_OK, Some r', Some (Some l'), st')
      \<and> (\<forall>k. map_option (map_option (gw_id st')) (RTMGetNextHop k (Some l') st') =
              Some (if k = g \<or> route_to k (routes st l ps) = Some g then None else route_to k (routes st l ps)))"
    by blast
qed

lemma RTMGetNextHop_lookup_example:
  "\<exists>r' l' st'. RTMRemoveGatewayEntry 100 None (Some (Some example_table)) example_rtm
       = Some (OC_STACK_OK, Some r', Some (Some l'), st')
     \<and> map_option (map_option (gw_id st')) (RTMGetNextHop 200 (Some l') st') = Some None"
proof -
  have h: "hop_contract 100 (routes example_rtm example_table [4, 5])"
    by (simp add: example_routes hop_contract_def is_neighbour_def)
  have "route_to 200 (routes example_rtm example_table [4, 5]) = Some 100" by (simp add: example_routes route_to_def)
  then show ?thesis
    using RTMGetNextHop_lookup [OF example_inv, of 100 None 100 5 2, THEN conjunct2] h by fastforce
qed

text \<open>
  \<open>RTMGetNeighbours\<close> returns exactly the neighbours of the table, in order, although it stops at
  the first entry that is none: the invariant keeps the neighbours in front.
\<close>

lemma RTMGetNeighbours_correct:
  assumes "rt_inv st l ps" and "rtm_mem st = []" and "length ps < 2 ^ 32"
  shows "\<exists>n nps st'. RTMGetNeighbours (Some old) (Some l) st = Some (Some (Some n), st') \<and> ll_wf n nps
     \<and> ll_data n nps = filter (\<lambda>e. is_neighbour (route_of st e)) (ll_data l ps)"
  by (rule neighbours_ok [OF assms]) blast

lemma RTMGetNeighbours_example:
  "\<exists>n nps st'. RTMGetNeighbours (Some None) (Some example_table) example_rtm = Some (Some (Some n), st')
     \<and> ll_data n nps = [0]"
proof -
  have "filter (\<lambda>e. is_neighbour (route_of example_rtm e)) (ll_data example_table [4, 5]) = [0]"
    by (simp add: ll_data_def example_table_def is_neighbour_def route_of_def example_rtm_def Let_def)
  then show ?thesis using RTMGetNeighbours_correct [OF example_inv, of None] by auto
qed

text \<open>
  C25: The multicast packets of a known gateway that are let through have strictly increasing sequence
  numbers (they are non-zero), so that no packet is forwarded twice however the network duplicates
  and reorders them.
\<close>

theorem mcast_no_duplicates:
  assumes "rt_inv st l ps" and "find (\<lambda>e. id_of st e = g) (ll_data l ps) = Some e" and "\<forall>s\<in>set ss. s \<noteq> 0"
  shows "\<exists>as. mcast_run g l ss st = Some as \<and> sorted_wrt (<) as \<and> (\<forall>a\<in>set as. mcast_seq st e < a) \<and> set as \<subseteq> set ss"
  by (rule mcast_run_ok [OF assms])

theorem mcast_no_duplicates_witness:
  "\<exists>as. mcast_run 200 example_table [3, 3, 5, 4] example_rtm = Some as \<and> sorted_wrt (<) as \<and> set as \<subseteq> {3, 4, 5}"
proof -
  have f: "find (\<lambda>e. id_of example_rtm e = 200) (ll_data example_table [4, 5]) = Some 2"
    by (simp add: ll_data_def example_table_def route_of_def example_rtm_def dest_ptr_def gw_id_def)
  have "\<forall>s\<in>set [3, 3, 5, 4 :: u16]. s \<noteq> 0" by simp
  from mcast_no_duplicates [OF example_inv f this] show ?thesis by auto
qed

text \<open>After the largest sequence number every packet of the gateway is refused: the number does not wrap around.\<close>

lemma mcast_wrap_around:
  assumes "rt_inv st l ps" and "find (\<lambda>e. id_of st e = g) (ll_data l ps) = Some e" and "mcast_seq st e = 65535" and "s \<noteq> 65535"
  shows "\<exists>st'. RTMUpdateMcastSeqNumber g s (Some (Some l)) st = Some (OC_STACK_COMM_ERROR, st')"
proof -
  have "\<not> (65535 :: u16) < s"
  proof
    assume "(65535 :: u16) < s"
    then have "unat (65535 :: u16) < unat s" by (simp add: word_less_nat_alt)
    moreover have "unat s < 2 ^ 16" using unsigned_less [of s] by simp
    ultimately show False by simp
  qed
  with assms(3,4) have "mcast_verdict (mcast_seq st e) s = OC_STACK_COMM_ERROR" by (simp add: mcast_verdict_def)
  then show ?thesis using mcast_ok [OF assms(1,2), of s] by metis
qed

text \<open>
  \<open>RTMRemoveInvalidGateways\<close> never removes anything. When every neighbour still has an address in
  its list (valid or not) the call returns with an empty list of removed gateways and the table
  unchanged; when some neighbour has none, the call reads the freed node it stands on. The condition
  that should find the addresses marked invalid is \<open>!destCheck && !destCheck->isValid\<close>.
\<close>

lemma RTMRemoveInvalidGateways_outcome:
  assumes "rt_inv st l ps" and "rtm_mem st = []" and "length ps < 2 ^ 32"
  shows "RTMRemoveInvalidGateways (Some old) (Some (Some l)) st =
    (if \<exists>e\<in>set (ll_data l ps). addressless st e then None
     else Some (OC_STACK_OK, Some (Some \<lparr>ll_heap = (\<lambda>_. None), ll_list = None, ll_size = 0\<rparr>), Some (Some l), st))"
proof -
  let ?r = "\<lparr>ll_heap = (\<lambda>_. None), ll_list = None, ll_size = 0\<rparr> :: table"
  have hd: "ll_list l = (case ps of [] \<Rightarrow> None | p # _ \<Rightarrow> Some p)"
    using rt_invD(1) [OF assms(1)] by (auto simp: ll_wf_def split: list.splits elim: chain.elims)
  have "removed_ok st (Some ?r) []" by (simp add: removed_ok_def ll_wf_def)
  from invalid_loop_eq [OF assms(1,2) this _ append_Nil [symmetric]] assms(3)
  have "invalid_loop (Some ?r) l (ll_list l) st =
      (if \<exists>e\<in>set (ll_data l ps). addressless st e then None else Some (OC_STACK_OK, Some ?r, l, st))"
    unfolding hd by (simp add: ll_data_def)
  then show ?thesis
    by (simp add: RTMRemoveInvalidGateways_def list_create_ok [OF assms(2)])
qed

lemma RTMRemoveInvalidGateways_outcome_example:
  "RTMRemoveInvalidGateways (Some None) (Some (Some example_table)) example_rtm = None"
proof -
  have "addressless example_rtm 0"
    by (simp add: addressless_def is_neighbour_def route_of_def example_rtm_def dest_ptr_def Let_def al_abs_def)
  then have "\<exists>e\<in>set (ll_data example_table [4, 5]). addressless example_rtm e" by (simp add: ll_data_def example_table_def)
  with RTMRemoveInvalidGateways_outcome [OF example_inv, of None] show ?thesis by simp
qed

text \<open>
  The endpoint table. \<open>RTMAddEndpointEntry\<close> answers a known address with its id and leaves the table
  alone, and appends an unknown one under the given id; \<open>RTMRemoveEndpointEntry\<close> removes and frees all
  entries with an id; \<open>RTMGetEndpointEntry\<close> returns the address of the first entry with an id, in
  particular the one just added when the id is new, and none after the id is removed.
\<close>

lemma endpoint_table_correct:
  assumes ep: "ep_inv st l ps" and mem: "rtm_mem st = []" and room: "length ps + 1 < 2 ^ 32"
  shows "(case find (\<lambda>x. same_addr adr (ee_destIntfAddr x)) (endpoints st l ps) of
        Some x \<Rightarrow> RTMAddEndpointEntry (Some k) (Some adr) (Some (Some l)) st =
          Some (OC_STACK_DUPLICATE_REQUEST, Some (ee_endpointId x), Some (Some l), st)
      | None \<Rightarrow> (\<exists>l' ps' st'. RTMAddEndpointEntry (Some k) (Some adr) (Some (Some l)) st =
            Some (OC_STACK_OK, Some k, Some (Some l'), st') \<and> ep_inv st' l' ps'
          \<and> endpoints st' l' ps' = endpoints st l ps @ [\<lparr>ee_endpointId = k, ee_destIntfAddr = adr\<rparr>]
          \<and> (k \<notin> ee_endpointId ` set (endpoints st l ps) \<longrightarrow> RTMGetEndpointEntry k (Some l') st' = Some (Some adr))))
     \<and> (\<exists>l' ps' st'. RTMRemoveEndpointEntry k (Some (Some l)) st = Some (OC_STACK_OK, Some (Some l'), st')
          \<and> ep_inv st' l' ps' \<and> endpoints st' l' ps' = filter (\<lambda>x. ee_endpointId x \<noteq> k) (endpoints st l ps)
          \<and> RTMGetEndpointEntry k (Some l') st' = Some None)"
proof (intro conjI)
  show "case find (\<lambda>x. same_addr adr (ee_destIntfAddr x)) (endpoints st l ps) of
        Some x \<Rightarrow> RTMAddEndpointEntry (Some k) (Some adr) (Some (Some l)) st =
          Some (OC_STACK_DUPLICATE_REQUEST, Some (ee_endpointId x), Some (Some l), st)
      | None \<Rightarrow> (\<exists>l' ps' st'. RTMAddEndpointEntry (Some k) (Some adr) (Some (Some l)) st =
            Some (OC_STACK_OK, Some k, Some (Some l'), st') \<and> ep_inv st' l' ps'
          \<and> endpoints st' l' ps' = endpoints st l ps @ [\<lparr>ee_endpointId = k, ee_destIntfAddr = adr\<rparr>]
          \<and> (k \<notin> ee_endpointId ` set (endpoints st l ps) \<longrightarrow> RTMGetEndpointEntry k (Some l') st' = Some (Some adr)))"
  proof (cases "find (\<lambda>x. same_addr adr (ee_destIntfAddr x)) (endpoints st l ps)")
    case None
    obtain l' ps' st' where l': "RTMAddEndpointEntry (Some k) (Some adr) (Some (Some l)) st =
        Some (OC_STACK_OK, Some k, Some (Some l'), st')" "ep_inv st' l' ps'"
      "endpoints st' l' ps' = endpoints st l ps @ [\<lparr>ee_endpointId = k, ee_destIntfAddr = adr\<rparr>]"
      by (rule add_endpoint_ok [OF ep mem room None])
    have "endpoint_of k (endpoints st' l' ps') = Some adr" if "k \<notin> ee_endpointId ` set (endpoints st l ps)"
      using that l'(3) by (auto simp: endpoint_of_def find_append find_None_iff split: option.splits dest: find_SomeD)
    then show ?thesis using None l' get_endpoint_ok [OF l'(2), of k] by auto
  next
    case (Some x)
    then show ?thesis by (simp add: RTMAddEndpointEntry_def find_endpoint_ok [OF ep])
  qed
  obtain l' ps' st' where l': "RTMRemoveEndpointEntry k (Some (Some l)) st = Some (OC_STACK_OK, Some (Some l'), st')"
    "ep_inv st' l' ps'" "endpoints st' l' ps' = filter (\<lambda>x. ee_endpointId x \<noteq> k) (endpoints st l ps)"
    by (rule remove_endpoint_ok [OF ep])
  have "endpoint_of k (endpoints st' l' ps') = None" using l'(3) by (simp add: endpoint_of_def find_None_iff)
  with l' get_endpoint_ok [OF l'(2), of k]
  show "\<exists>l' ps' st'. RTMRemoveEndpointEntry k (Some (Some l)) st = Some (OC_STACK_OK, Some (Some l'), st')
          \<and> ep_inv st' l' ps' \<and> endpoints st' l' ps' = filter (\<lambda>x. ee_endpointId x \<noteq> k) (endpoints st l ps)
          \<and> RTMGetEndpointEntry k (Some l') st' = Some None" by auto
qed

lemma example_endpoint_list: "endpoints example_rtm example_endpoints [8] = [\<lparr>ee_endpointId = 7, ee_destIntfAddr = example_peer\<rparr>]"
  by (simp add: endpoints_def ll_data_def example_endpoints_def example_rtm_def)

lemma endpoint_table_correct_example:
  "\<exists>l' st'. RTMRemoveEndpointEntry 7 (Some (Some example_endpoints)) example_rtm = Some (OC_STACK_OK, Some (Some l'), st')
     \<and> RTMGetEndpointEntry 7 (Some l') st' = Some None"
  using endpoint_table_correct [OF example_ep_inv, of 7 example_peer, THEN conjunct2] by auto

text \<open>
  Addresses are compared up to the length of the stored one: an endpoint at 10.0.0.33 is taken for the
  known one at 10.0.0.3 (same port) and gets its id.
\<close>

lemma address_prefix_clash:
  "RTMAddEndpointEntry (Some 9) (Some (example_peer\<lparr>ep_addr := ''10.0.0.33''\<rparr>)) (Some (Some example_endpoints)) example_rtm
     = Some (OC_STACK_DUPLICATE_REQUEST, Some 7, Some (Some example_endpoints), example_rtm)"
proof -
  have "same_addr (example_peer\<lparr>ep_addr := ''10.0.0.33''\<rparr>) example_peer" by (simp add: same_addr_def example_peer_def)
  then show ?thesis
    by (simp add: RTMAddEndpointEntry_def find_endpoint_ok [OF example_ep_inv] example_endpoint_list)
qed

end
