(* ===== verification/Base64.thy ===== *)
theory Base64
  imports Prelude "HOL-Library.Monad_Syntax"
begin

text \<open>
  The Base64 codec of \<^verbatim>\<open>resource/csdk/security/src/base64.c\<close>, which encodes the binary credentials and
  keys of the security resources. Pointers that may be NULL are options; a pointer into an array is
  the array with an offset, and an access outside an array is undefined. Lengths are \<open>size_t\<close>, with
  the wrap-around written out where the code multiplies.
\<close>

section \<open>Encoding\<close>

datatype B64Result = B64_OK | B64_INVALID_PARAM | B64_OUTPUT_BUFFER_TOO_SMALL | B64_ERROR

definition g_b64TransTbl :: string where
  "g_b64TransTbl = ''ABCDEFGHIJKLMNOPQRSTUVWXYZabcdefghijklmnopqrstuvwxyz0123456789+/''"

definition b64EncodeBlk ::
  "u8 list option \<Rightarrow> nat \<Rightarrow> string option \<Rightarrow> nat \<Rightarrow> nat \<Rightarrow> (B64Result \<times> string option) option" where
  "b64EncodeBlk inp i out j len =
     (case (inp, out) of
        (Some ib, Some ob) \<Rightarrow>
          if len = 0 then Some (B64_INVALID_PARAM, out)
          else do {
            a \<leftarrow> cell_read i ib;
            c0 \<leftarrow> cell_read (drop_bit 2 (unat a)) g_b64TransTbl;
            ob \<leftarrow> cell_write j c0 ob;
            c1 \<leftarrow> (if len = 1 then cell_read (push_bit 4 (unat a AND 0x03)) g_b64TransTbl
                   else do {
                     b \<leftarrow> cell_read (i + 1) ib;
                     cell_read (push_bit 4 (unat a AND 0x03) OR drop_bit 4 (unat b AND 0xf0)) g_b64TransTbl
                   });
            ob \<leftarrow> cell_write (j + 1) c1 ob;
            c2 \<leftarrow> (if len = 2 then do {
                     b \<leftarrow> cell_read (i + 1) ib;
                     cell_read (push_bit 2 (unat b AND 0x0f)) g_b64TransTbl
                   }
                   else if 1 < len then do {
                     b \<leftarrow> cell_read (i + 1) ib;
                     c \<leftarrow> cell_read (i + 2) ib;
                     cell_read (push_bit 2 (unat b AND 0x0f) OR drop_bit 6 (unat c AND 0xc0)) g_b64TransTbl
                   }
                   else Some (CHR ''=''));
            ob \<leftarrow> cell_write (j + 2) c2 ob;
            c3 \<leftarrow> (if 2 < len then do {
                     c \<leftarrow> cell_read (i + 2) ib;
                     cell_read (unat c AND 0x3f) g_b64TransTbl
                   }
                   else Some (CHR ''=''));
            ob \<leftarrow> cell_write (j + 3) c3 ob;
            Some (B64_OK, Some ob)
          }
      | _ \<Rightarrow> Some (B64_INVALID_PARAM, out))"

text \<open>\<open>for (i = 0; i < inLen / 3; i++)\<close>\<close>

function encode_loop ::
  "u8 list option \<Rightarrow> string option \<Rightarrow> nat \<Rightarrow> nat \<Rightarrow> (B64Result \<times> string option) option" where
  "encode_loop inp out i n =
     (if i < n then
        (case b64EncodeBlk inp (i * 3) out (i * 4) 3 of
           None \<Rightarrow> None
         | Some (r, out1) \<Rightarrow> if r \<noteq> B64_OK then Some (B64_INVALID_PARAM, out1) else encode_loop inp out1 (Suc i) n)
      else Some (B64_OK, out))"
  by pat_completeness auto
termination
  by (relation "measure (\<lambda>(inp, out, i, n). n - i)") auto

declare encode_loop.simps [simp del]

text \<open>The results are the return code, the output buffer and \<open>*outLen\<close>.\<close>

definition b64Encode ::
  "u8 list option \<Rightarrow> nat \<Rightarrow> string option \<Rightarrow> nat \<Rightarrow> nat option \<Rightarrow> (B64Result \<times> string option \<times> nat option) option" where
  "b64Encode inp inLen outBuf outBufSize outLen =
     (if inp = None \<or> outBuf = None \<or> outLen = None then Some (B64_INVALID_PARAM, outBuf, outLen)
      else
        let len = (if inLen div 3 * 3 = inLen then inLen div 3 * 4 else (inLen div 3 + 1) * 4) mod 2 ^ 64;
            minBufSize = (len + 1) mod 2 ^ 64
        in if outBufSize < minBufSize then Some (B64_OUTPUT_BUFFER_TOO_SMALL, outBuf, Some len)
           else do {
             (r, out1) \<leftarrow> encode_loop inp outBuf 0 (inLen div 3);
             if r \<noteq> B64_OK then Some (r, out1, Some len)
             else do {
               (r, out2) \<leftarrow> (if inLen div 3 * 3 \<noteq> inLen
                  then b64EncodeBlk inp (inLen div 3 * 3) out1 (inLen div 3 * 4) (inLen - inLen div 3 * 3)
                  else Some (B64_OK, out1));
               if r \<noteq> B64_OK then Some (B64_INVALID_PARAM, out2, Some len)
               else do {
                 ob \<leftarrow> out2;
                 ob \<leftarrow> cell_write len (CHR 0x00) ob;
                 Some (B64_OK, Some ob, Some len)
               }
             }
           })"

section \<open>Decoding\<close>

definition b64GetVal :: "char \<Rightarrow> u32" where
  "b64GetVal ch =
     (let c = of_char ch :: nat in
      if 65 \<le> c \<and> c \<le> 90 then of_nat (c - 65)
      else if 97 \<le> c \<and> c \<le> 122 then of_nat (c - 97 + 26)
      else if 48 \<le> c \<and> c \<le> 57 then of_nat (c - 48 + 52)
      else if ch = CHR ''+'' then 62
      else if ch = CHR ''/'' then 63
      else 0)"

definition is_b64_char :: "char \<Rightarrow> bool" where
  "is_b64_char ch =
     (let c = of_char ch :: nat in
      65 \<le> c \<and> c \<le> 90 \<or> 97 \<le> c \<and> c \<le> 122 \<or> 48 \<le> c \<and> c \<le> 57
      \<or> ch = CHR ''+'' \<or> ch = CHR ''/'' \<or> ch = CHR ''='')"

function valid_loop :: "string \<Rightarrow> nat \<Rightarrow> nat \<Rightarrow> B64Result option" where
  "valid_loop s inLen i =
     (if i < inLen then do {
        c \<leftarrow> cell_read i s;
        if \<not> is_b64_char c then Some B64_ERROR
        else if c = CHR ''='' \<and> i < inLen - 2 then Some B64_ERROR
        else do {
          bad \<leftarrow> (if c = CHR ''='' \<and> i = inLen - 2 then map_option (\<lambda>d. d \<noteq> CHR ''='') (cell_read (i + 1) s)
                  else Some False);
          if bad then Some B64_ERROR else valid_loop s inLen (Suc i)
        }
      }
      else Some B64_OK)"
  by pat_completeness auto
termination
  by (relation "measure (\<lambda>(s, inLen, i). inLen - i)") auto

declare valid_loop.simps [simp del]

definition isValidB64EncodedString :: "string \<Rightarrow> nat \<Rightarrow> B64Result option" where
  "isValidB64EncodedString s inLen = (if inLen mod 4 \<noteq> 0 then Some B64_ERROR else valid_loop s inLen 0)"

definition b64DecodeBlk ::
  "string option \<Rightarrow> nat \<Rightarrow> u8 list option \<Rightarrow> nat \<Rightarrow> (B64Result \<times> u8 list option) option" where
  "b64DecodeBlk inp i out j =
     (case (inp, out) of
        (Some s, Some ob) \<Rightarrow> do {
          c0 \<leftarrow> cell_read i s;
          c1 \<leftarrow> cell_read (i + 1) s;
          c2 \<leftarrow> cell_read (i + 2) s;
          c3 \<leftarrow> cell_read (i + 3) s;
          let val = push_bit 18 (b64GetVal c0) OR push_bit 12 (b64GetVal c1) OR push_bit 6 (b64GetVal c2) OR b64GetVal c3;
          ob \<leftarrow> cell_write j (ucast (drop_bit 16 val AND 0xff)) ob;
          ob \<leftarrow> (if c2 \<noteq> CHR ''='' then cell_write (j + 1) (ucast (drop_bit 8 val AND 0xff)) ob else Some ob);
          ob \<leftarrow> (if c3 \<noteq> CHR ''='' then cell_write (j + 2) (ucast (val AND 0xff)) ob else Some ob);
          Some (B64_OK, Some ob)
        }
      | _ \<Rightarrow> Some (B64_INVALID_PARAM, out))"

function decode_loop ::
  "string option \<Rightarrow> u8 list option \<Rightarrow> nat \<Rightarrow> nat \<Rightarrow> (B64Result \<times> u8 list option) option" where
  "decode_loop inp out i n =
     (if i < n then
        (case b64DecodeBlk inp (i * 4) out (i * 3) of
           None \<Rightarrow> None
         | Some (r, out1) \<Rightarrow> if r \<noteq> B64_OK then Some (B64_INVALID_PARAM, out1) else decode_loop inp out1 (Suc i) n)
      else Some (B64_OK, out))"
  by pat_completeness auto
termination
  by (relation "measure (\<lambda>(inp, out, i, n). n - i)") auto

declare decode_loop.simps [simp del]

definition b64Decode ::
  "string option \<Rightarrow> nat \<Rightarrow> u8 list option \<Rightarrow> nat \<Rightarrow> nat option \<Rightarrow> (B64Result \<times> u8 list option \<times> nat option) option" where
  "b64Decode inp inLen outBuf outBufSize outLen =
     (if inp = None \<or> outBuf = None \<or> outLen = None then Some (B64_INVALID_PARAM, outBuf, outLen)
      else do {
        s \<leftarrow> inp;
        v \<leftarrow> isValidB64EncodedString s inLen;
        if v \<noteq> B64_OK then Some (B64_INVALID_PARAM, outBuf, outLen)
        else do {
          pads \<leftarrow> (if inLen \<noteq> 0 then do {
                     c \<leftarrow> cell_read (inLen - 1) s;
                     d \<leftarrow> cell_read (inLen - 2) s;
                     Some ((if c = CHR ''='' then 1 else 0) + (if d = CHR ''='' then 1 else 0))
                   }
                   else Some 0);
          let minBufSize = inLen div 4 * 3 - pads;
          if outBufSize < minBufSize then Some (B64_OUTPUT_BUFFER_TOO_SMALL, outBuf, Some minBufSize)
          else do {
            (r, out1) \<leftarrow> decode_loop inp outBuf 0 (inLen div 4);
            Some (r, out1, Some minBufSize)
          }
        }
      })"

section \<open>The encoding of RFC 4648\<close>

text \<open>
  Three octets are one number of 24 bits, which is written with four digits of the alphabet; a last
  group of one or two octets is filled with zero bits, and the digits that carry no input are
  replaced by the padding character.
\<close>

definition group24 :: "u8 list \<Rightarrow> nat" where
  "group24 bs = (let b = map unat bs @ [0, 0] in b ! 0 * 65536 + b ! 1 * 256 + b ! 2)"

definition sextets :: "nat \<Rightarrow> nat list" where
  "sextets n = [n div 262144, n div 4096 mod 64, n div 64 mod 64, n mod 64]"

text \<open>Table 1 of RFC 4648: the upper case letters, the lower case letters, the digits, plus and slash.\<close>

definition rfc_alphabet :: string where
  "rfc_alphabet = map char_of ([65..<91] @ [97..<123] @ [48..<58] @ [43 :: nat, 47])"

definition rfc_group :: "u8 list \<Rightarrow> string" where
  "rfc_group bs = map ((!) rfc_alphabet) (take (length bs + 1) (sextets (group24 bs))) @ replicate (3 - length bs) (CHR ''='')"

fun rfc4648 :: "u8 list \<Rightarrow> string" where
  "rfc4648 [] = []"
| "rfc4648 (a # b # c # xs) = rfc_group [a, b, c] @ rfc4648 xs"
| "rfc4648 bs = rfc_group bs"

lemma alphabet_table: "rfc_alphabet = g_b64TransTbl"
  by code_simp

lemma rfc_group_table:
  "rfc_group bs = map ((!) g_b64TransTbl) (take (length bs + 1) (sextets (group24 bs))) @ replicate (3 - length bs) (CHR ''='')"
  by (simp add: rfc_group_def alphabet_table)

section \<open>Bits and digits\<close>

lemma or_push: "y < 2 ^ k \<Longrightarrow> push_bit k x OR y = push_bit k x + (y :: nat)"
proof -
  assume "y < 2 ^ k"
  then have t: "take_bit k y = y" by (simp add: take_bit_nat_eq_self)
  have "push_bit k x AND take_bit k y = 0" by (rule bit_eqI) (simp add: bit_simps)
  with t show ?thesis by (simp add: disjunctive_add_eq_or)
qed

lemma and_masks: "(a :: nat) AND 3 = a mod 4" "a AND 15 = a mod 16" "a AND 63 = a mod 64" "a AND 255 = a mod 256"
  using take_bit_eq_mask [of 2 a] take_bit_eq_mask [of 4 a] take_bit_eq_mask [of 6 a] take_bit_eq_mask [of 8 a]
  by (simp_all add: mask_eq_exp_minus_1 take_bit_eq_mod)

lemma high_bits:
  "b < 256 \<Longrightarrow> drop_bit 4 (b AND 240) = b div (16 :: nat)" "b < 256 \<Longrightarrow> drop_bit 6 (b AND 192) = b div (64 :: nat)"
  unfolding drop_bit_and by (simp_all add: drop_bit_eq_div and_masks)

lemma table_vals: "map b64GetVal g_b64TransTbl = map of_nat [0..<64]"
  by (simp add: g_b64TransTbl_def b64GetVal_def upt_conv_Cons)

lemma table_chars: "list_all (\<lambda>c. is_b64_char c \<and> c \<noteq> CHR ''='') g_b64TransTbl"
  by (simp add: g_b64TransTbl_def is_b64_char_def)

lemma table_length [simp]: "length g_b64TransTbl = 64"
  by (simp add: g_b64TransTbl_def)

lemma table_nth:
  assumes "n < 64"
  shows "b64GetVal (g_b64TransTbl ! n) = of_nat n" "is_b64_char (g_b64TransTbl ! n)" "g_b64TransTbl ! n \<noteq> CHR ''=''"
proof -
  have "map b64GetVal g_b64TransTbl ! n = map of_nat [0..<64] ! n" by (simp only: table_vals)
  then show "b64GetVal (g_b64TransTbl ! n) = of_nat n" using assms by simp
  show "is_b64_char (g_b64TransTbl ! n)" "g_b64TransTbl ! n \<noteq> CHR ''=''"
    using table_chars assms by (simp_all add: list_all_length)
qed

lemma byte_lt [simp]: "unat (b :: u8) < 256"
  using unsigned_less [of b] by simp

lemma sextets_eq:
  assumes "B < 256" and "C < 256"
  shows "sextets (A * 65536 + B * 256 + C) = [A div 4, A mod 4 * 16 + B div 16, B mod 16 * 4 + C div 64, C mod 64]"
proof -
  obtain a1 a0 b1 b0 c1 c0 where A: "A = 4 * a1 + a0" "a0 < 4" and B: "B = 16 * b1 + b0" "b0 < 16"
    and C: "C = 64 * c1 + c0" "c0 < 64"
    by (metis mod_less_divisor mult_div_mod_eq zero_less_numeral)
  have bc: "b1 < 16" "c1 < 4" using assms B C by auto
  let ?n = "A * 65536 + B * 256 + C"
  have "?n div 262144 = a1" by (rule div_nat_eqI) (use A B C bc in simp_all)
  moreover have "?n div 4096 = 64 * a1 + (a0 * 16 + b1)" by (rule div_nat_eqI) (use A B C bc in simp_all)
  moreover have "?n div 64 mod 64 = b0 * 4 + c1"
  proof -
    have "?n div 64 = 64 * (64 * a1 + a0 * 16 + b1) + (b0 * 4 + c1)" by (rule div_nat_eqI) (use A B C bc in simp_all)
    moreover have "b0 * 4 + c1 < 64" using B(2) bc by linarith
    ultimately show ?thesis by (simp only: mod_mult_self4 mod_less)
  qed
  moreover have "?n mod 64 = c0"
  proof -
    have "?n = 64 * (64 * (64 * a1 + a0 * 16 + b1) + (b0 * 4 + c1)) + c0" using A B C by simp
    then show ?thesis using C(2) by (simp only: mod_mult_self4 mod_less)
  qed
  ultimately show ?thesis using A B C bc by (simp add: sextets_def)
qed

lemma sextets_sum: "n < 16777216 \<Longrightarrow> sextets n = [d0, d1, d2, d3] \<Longrightarrow>
    d0 * 262144 + d1 * 4096 + d2 * 64 + d3 = n \<and> d0 < 64 \<and> d1 < 64 \<and> d2 < 64 \<and> d3 < 64"
proof -
  assume n: "n < 16777216" and "sextets n = [d0, d1, d2, d3]"
  then have d: "d0 = n div 262144" "d1 = n div 4096 mod 64" "d2 = n div 64 mod 64" "d3 = n mod 64" by (auto simp: sextets_def)
  have e: "n div 4096 = n div 64 div 64" "n div 262144 = n div 4096 div 64"
    using div_mult2_eq [of n 64 64] div_mult2_eq [of n 4096 64] by simp_all
  have "n div 64 = 64 * (n div 4096) + d2" "n div 4096 = 64 * d0 + d1" "n = 64 * (n div 64) + d3"
    unfolding d e by (simp_all only: mult_div_mod_eq)
  then have "d0 * 262144 + d1 * 4096 + d2 * 64 + d3 = n" by linarith
  moreover have "d0 < 64" unfolding d by (rule less_mult_imp_div_less) (use n in simp)
  moreover have "d1 < 64" "d2 < 64" "d3 < 64" unfolding d by simp_all
  ultimately show ?thesis by blast
qed

lemma group_cases:
  assumes "length bs \<in> {1, 2, 3}"
  obtains a where "bs = [a]" | a b where "bs = [a, b]" | a b c where "bs = [a, b, c]"
  using assms by (auto simp: length_Suc_conv numeral_eq_Suc)

lemma group24_simps [simp]:
  "group24 [a] = unat a * 65536" "group24 [a, b] = unat a * 65536 + unat b * 256"
  "group24 [a, b, c] = unat a * 65536 + unat b * 256 + unat c"
  by (simp_all add: group24_def)

lemma group24_lt: "length bs \<in> {1, 2, 3} \<Longrightarrow> group24 bs < 16777216"
proof -
  have lt: "unat x * 65536 + unat y * 256 + unat z < 16777216" for x y z :: u8
    using byte_lt [of x] byte_lt [of y] byte_lt [of z] by linarith
  assume "length bs \<in> {1, 2, 3}"
  then show ?thesis
    by (cases rule: group_cases) (use lt [of _ 0 0] lt [of _ _ 0] lt in simp_all)
qed

lemma rfc_group_length [simp]: "length bs \<in> {1, 2, 3} \<Longrightarrow> length (rfc_group bs) = 4"
  by (auto simp: rfc_group_table sextets_def)

section \<open>Blocks\<close>

text \<open>The block encoder writes the group in the four cells of the output.\<close>

lemma block_sextets:
  "sextets (unat a * 65536 + unat b * 256 + unat c) =
     [drop_bit 2 (unat a), push_bit 4 (unat a AND 3) OR drop_bit 4 (unat b AND 240),
      push_bit 2 (unat b AND 15) OR drop_bit 6 (unat c AND 192), unat c AND 63]" for a b c :: u8
proof -
  have "unat b div 16 < 2 ^ 4" "unat c div 64 < 2 ^ 2" using byte_lt [of b] byte_lt [of c] by (simp_all add: less_mult_imp_div_less)
  then show ?thesis
    by (simp add: sextets_eq high_bits or_push and_masks) (simp add: push_bit_eq_mult drop_bit_eq_div)
qed

lemma cell_tab: "k < 64 \<Longrightarrow> cell_read k g_b64TransTbl = Some (g_b64TransTbl ! k)"
  by (simp add: cell_read_def)

lemma encode_blk:
  assumes len: "length bs \<in> {1, 2, 3}" and old: "length old = 4"
  shows "b64EncodeBlk (Some (u @ bs @ v)) (length u) (Some (p @ old @ q)) (length p) (length bs)
    = Some (B64_OK, Some (p @ rfc_group bs @ q))"
proof -
  obtain w x y z where o: "old = [w, x, y, z]" using old by (auto simp: length_Suc_conv numeral_eq_Suc)
  have ws: "cell_write (length p) e0 (p @ w # x # y # z # q) = Some (p @ e0 # x # y # z # q)"
    "cell_write (Suc (length p)) e1 (p @ e0 # x # y # z # q) = Some (p @ e0 # e1 # y # z # q)"
    "cell_write (Suc (Suc (length p))) e2 (p @ e0 # e1 # y # z # q) = Some (p @ e0 # e1 # e2 # z # q)"
    "cell_write (length p + 3) e3 (p @ e0 # e1 # e2 # z # q) = Some (p @ e0 # e1 # e2 # e3 # q)" for e0 e1 e2 e3
    by (simp_all add: cell_write_def list_update_append numeral_eq_Suc)
  have rs: "cell_read (length u) (u @ a # r) = Some a" "cell_read (Suc (length u)) (u @ a # b # r) = Some b"
    "cell_read (Suc (Suc (length u))) (u @ a # b # c # r) = Some c" for a b c and r :: "u8 list"
    by (simp_all add: cell_read_def nth_append)
  have lt: "d0 < 64" "d1 < 64" "d2 < 64" "d3 < 64" if "sextets (unat a * 65536 + unat b * 256 + unat c) = [d0, d1, d2, d3]"
    for d0 d1 d2 d3 and a b c :: u8
    using sextets_sum [OF _ that] group24_lt [of "[a, b, c]"] by simp_all
  from len show ?thesis
  proof (cases rule: group_cases)
    case (1 a)
    note s = block_sextets [of a 0 0] and l = lt [OF block_sextets [of a 0 0]]
    show ?thesis using 1 o s l by (simp add: b64EncodeBlk_def ws rs cell_tab rfc_group_table numeral_2_eq_2)
  next
    case (2 a b)
    note s = block_sextets [of a b 0] and l = lt [OF block_sextets [of a b 0]]
    show ?thesis using 2 o s l by (simp add: b64EncodeBlk_def ws rs cell_tab rfc_group_table numeral_2_eq_2)
  next
    case (3 a b c)
    note s = block_sextets [of a b c] and l = lt [OF block_sextets [of a b c]]
    show ?thesis using 3 o s l by (simp add: b64EncodeBlk_def ws rs cell_tab rfc_group_table numeral_2_eq_2)
  qed
qed

section \<open>The encoder\<close>

lemma div3: "(n + 2) div 3 = (if n div 3 * 3 = n then n div 3 else n div 3 + (1 :: nat))"
  by presburger

lemma rfc4648_length: "length (rfc4648 xs) = (length xs + 2) div 3 * 4"
proof (induction xs rule: rfc4648.induct)
  case (2 a b c xs)
  have "(length xs + 3 + 2) div 3 = (length xs + 2) div 3 + 1" by presburger
  with 2 show ?case by simp
qed auto

lemma rfc4648_group: "length bs \<in> {1, 2, 3} \<Longrightarrow> rfc4648 bs = rfc_group bs"
  by (auto simp: length_Suc_conv numeral_eq_Suc)

lemma rfc4648_append: "length xs = 3 * n \<Longrightarrow> rfc4648 (xs @ ys) = rfc4648 xs @ rfc4648 ys"
proof (induction xs arbitrary: n rule: rfc4648.induct, goal_cases)
  case (2 a b c xs n)
  then show ?case by (cases n) auto
next
  case (4 v vb n)
  then show ?case by (simp, presburger)
qed auto

lemma encode_loop_ok:
  assumes "length xs = 3 * m" and "length old = 4 * m" and "length u = 3 * i" and "length p = 4 * i"
  shows "encode_loop (Some (u @ xs @ v)) (Some (p @ old @ q)) i (i + m) = Some (B64_OK, Some (p @ rfc4648 xs @ q))"
  using assms
proof (induction m arbitrary: xs old u p i)
  case 0
  then show ?case by (simp add: encode_loop.simps)
next
  case (Suc m)
  let ?bs = "take 3 xs" and ?ys = "drop 3 xs"
  have l: "length ?bs = 3" "length (take 4 old) = 4" using Suc.prems by auto
  have xs: "rfc4648 xs = rfc_group ?bs @ rfc4648 ?ys"
    using rfc4648_append [of ?bs 1 ?ys] l(1) rfc4648_group [of ?bs] by simp
  have "b64EncodeBlk (Some (u @ ?bs @ ?ys @ v)) (length u) (Some (p @ take 4 old @ drop 4 old @ q)) (length p) (length ?bs)
      = Some (B64_OK, Some (p @ rfc_group ?bs @ drop 4 old @ q))"
    by (rule encode_blk) (use l in auto)
  then have blk: "b64EncodeBlk (Some (u @ xs @ v)) (i * 3) (Some (p @ old @ q)) (i * 4) 3
      = Some (B64_OK, Some (p @ rfc_group ?bs @ drop 4 old @ q))"
    using Suc.prems l(1) by (simp add: mult.commute append_assoc [symmetric] del: append_assoc)
  have "encode_loop (Some ((u @ ?bs) @ ?ys @ v)) (Some ((p @ rfc_group ?bs) @ drop 4 old @ q)) (Suc i) (Suc i + m)
      = Some (B64_OK, Some ((p @ rfc_group ?bs) @ rfc4648 ?ys @ q))"
    by (rule Suc.IH) (use Suc.prems l in auto)
  moreover have "?bs @ ?ys @ v = xs @ v" by (metis append.assoc append_take_drop_id)
  ultimately have "encode_loop (Some (u @ xs @ v)) (Some (p @ rfc_group ?bs @ drop 4 old @ q)) (Suc i) (i + Suc m)
      = Some (B64_OK, Some (p @ rfc4648 xs @ q))"
    unfolding xs by simp
  then show ?case using blk by (subst encode_loop.simps) simp
qed

lemma nul_write:
  "n < length ob \<Longrightarrow> length a = n \<Longrightarrow> (a @ drop n ob)[n := z] = a @ z # drop (Suc n) ob"
  by (simp add: list_update_append Cons_nth_drop_Suc [symmetric])

lemma b64Encode_ok:
  assumes max: "length xs \<le> max_object" and room: "length (rfc4648 xs) < length ob"
  shows "b64Encode (Some xs) (length xs) (Some ob) (length ob) (Some n)
    = Some (B64_OK, Some (rfc4648 xs @ CHR 0x00 # drop (length (rfc4648 xs) + 1) ob), Some (length (rfc4648 xs)))"
proof -
  let ?m = "length xs div 3" and ?L = "length (rfc4648 xs)"
  let ?full = "take (3 * ?m) xs" and ?rest = "drop (3 * ?m) xs"
  have full: "length ?full = 3 * ?m" by simp
  have split: "rfc4648 xs = rfc4648 ?full @ rfc4648 ?rest" using rfc4648_append [OF full, of ?rest] by simp
  have fl: "length (rfc4648 ?full) = 4 * ?m" by (simp add: rfc4648_length)
  have L: "?L = (if ?m * 3 = length xs then ?m * 4 else (?m + 1) * 4)"
    unfolding rfc4648_length div3 by simp
  have bound: "?L + 1 < 2 ^ 64" using max unfolding rfc4648_length max_object_def by simp
  have fit: "4 * ?m \<le> length ob" using room L by (auto split: if_splits)
  have loop: "encode_loop (Some xs) (Some ob) 0 ?m = Some (B64_OK, Some (rfc4648 ?full @ drop (4 * ?m) ob))"
    using encode_loop_ok [OF full, of "take (4 * ?m) ob" "[]" 0 "[]" ?rest "drop (4 * ?m) ob"] fit by (simp add: min_def)
  show ?thesis
  proof (cases "?m * 3 = length xs")
    case True
    then have e: "rfc4648 ?full = rfc4648 xs" "4 * ?m = ?L" using L by (simp_all add: mult.commute)
    show ?thesis using loop True L bound room unfolding e
      by (simp add: b64Encode_def cell_write_def Let_def nul_write)
  next
    case False
    let ?r = "length xs - ?m * 3" and ?ob = "drop (4 * ?m) ob"
    have "?r < 3" by presburger
    with False have r: "length ?rest \<in> {1, 2, 3}" "length ?rest = ?r" by (auto simp: mult.commute)
    have L4: "?L = 4 * ?m + 4" using L False by simp
    then have o4: "length (take 4 ?ob) = 4" using room by simp
    have blk: "b64EncodeBlk (Some xs) (length ?full) (Some (rfc4648 ?full @ ?ob)) (length (rfc4648 ?full)) (length ?rest)
        = Some (B64_OK, Some (rfc4648 ?full @ rfc_group ?rest @ drop 4 ?ob))"
      using encode_blk [OF r(1) o4, of ?full "[]" "rfc4648 ?full" "drop 4 ?ob"] by (simp only: append_Nil2 append_take_drop_id)
    have "rfc4648 xs @ drop ?L ob = (rfc4648 ?full @ rfc_group ?rest) @ drop (4 * ?m + 4) ob"
      by (simp only: L4, simp only: split rfc4648_group [OF r(1)])
    with blk have "b64EncodeBlk (Some xs) (?m * 3) (Some (rfc4648 ?full @ ?ob)) (?m * 4) ?r
        = Some (B64_OK, Some (rfc4648 xs @ drop ?L ob))"
      using r(2) full fl by (simp add: mult.commute add.commute del: length_take)
    then show ?thesis using loop False L bound room
      by (simp add: b64Encode_def cell_write_def Let_def nul_write)
  qed
qed

section \<open>The decoder\<close>

lemma decoded_val:
  assumes d: "d0 < 64" "d1 < 64" "d2 < 64" "d3 < 64"
  shows "unat (push_bit 18 (of_nat d0) OR push_bit 12 (of_nat d1) OR push_bit 6 (of_nat d2) OR of_nat d3 :: u32)
    = d0 * 262144 + d1 * 4096 + d2 * 64 + d3"
proof -
  have u: "unat (of_nat d :: u32) = d" if "d < 64" for d
    using that by (simp add: unat_of_nat)
  have p: "unat (push_bit k (of_nat d) :: u32) = push_bit k d" if "d < 64" "k \<le> 18" for k d
  proof -
    have "(2 :: nat) ^ k \<le> 2 ^ 18" using that(2) by (rule power_increasing) simp
    then have "d * 2 ^ k < 64 * 2 ^ 18" using that(1) by (intro mult_less_le_imp_less) simp_all
    then show ?thesis using that(1) by (simp only: unsigned_push_bit_eq u) (simp add: take_bit_nat_eq_self push_bit_eq_mult)
  qed
  have "push_bit 6 d2 OR d3 = d2 * 64 + d3" using or_push [of d3 6 d2] d by (simp add: push_bit_eq_mult)
  moreover have "push_bit 12 d1 OR (d2 * 64 + d3) = d1 * 4096 + (d2 * 64 + d3)"
    using or_push [of "d2 * 64 + d3" 12 d1] d by (simp add: push_bit_eq_mult)
  moreover have "push_bit 18 d0 OR (d1 * 4096 + (d2 * 64 + d3)) = d0 * 262144 + (d1 * 4096 + (d2 * 64 + d3))"
    using or_push [of "d1 * 4096 + (d2 * 64 + d3)" 18 d0] d by (simp add: push_bit_eq_mult)
  ultimately show ?thesis using d by (simp add: unsigned_or_eq p u or.assoc)
qed

lemma decoded_byte:
  "ucast (drop_bit k (v :: u32) AND 0xff) = (of_nat (unat v div 2 ^ k) :: u8)"
proof (rule bit_eqI)
  fix n
  assume "possible_bit TYPE(u8) n"
  then have n: "n < 8" by simp
  have m: "bit (0xff :: u32) n" using n by (auto simp: numeral_eq_Suc less_Suc_eq)
  have "bit (of_nat (unat v div 2 ^ k) :: u8) n = bit (unat v div 2 ^ k) n"
    using n by (simp add: bit_of_nat_iff)
  also have "\<dots> = bit v (k + n)" by (simp add: drop_bit_eq_div [symmetric] bit_simps add.commute)
  finally show "bit (ucast (drop_bit k v AND 0xff) :: u8) n = bit (of_nat (unat v div 2 ^ k) :: u8) n"
    using n m by (simp add: bit_ucast_iff bit_and_iff bit_drop_bit_eq)
qed

text \<open>The digits of a group, and what the padding characters stand for.\<close>

lemma group_chars:
  assumes len: "length bs \<in> {1, 2, 3}"
  obtains d0 d1 d2 d3 c2 c3 where "rfc_group bs = [g_b64TransTbl ! d0, g_b64TransTbl ! d1, c2, c3]"
    "d0 < 64" "d1 < 64" "d2 < 64" "d3 < 64" "d0 * 262144 + d1 * 4096 + d2 * 64 + d3 = group24 bs"
    "b64GetVal c2 = of_nat d2" "b64GetVal c3 = of_nat d3"
    "c2 = (if length bs < 2 then CHR ''='' else g_b64TransTbl ! d2)"
    "c3 = (if length bs < 3 then CHR ''='' else g_b64TransTbl ! d3)"
proof -
  obtain d0 d1 d2 d3 where d: "sextets (group24 bs) = [d0, d1, d2, d3]" by (simp add: sextets_def)
  note sum = sextets_sum [OF group24_lt [OF len] d]
  let ?c2 = "if length bs < 2 then CHR ''='' else g_b64TransTbl ! d2"
  let ?c3 = "if length bs < 3 then CHR ''='' else g_b64TransTbl ! d3"
  have pad: "b64GetVal (CHR ''='') = 0" by (simp add: b64GetVal_def)
  have "sextets (unat a * 65536) = [unat a div 4, unat a mod 4 * 16, 0, 0]"
    "sextets (unat a * 65536 + unat b * 256) = [unat a div 4, unat a mod 4 * 16 + unat b div 16, unat b mod 16 * 4, 0]" for a b :: u8
    using sextets_eq [of 0 0 "unat a"] sextets_eq [of "unat b" 0 "unat a"] by simp_all
  with len d have "length bs < 2 \<Longrightarrow> d2 = 0" "length bs < 3 \<Longrightarrow> d3 = 0"
    by (cases rule: group_cases; auto)+
  then have "b64GetVal ?c2 = of_nat d2" "b64GetVal ?c3 = of_nat d3" using sum pad table_nth(1) by auto
  moreover have "rfc_group bs = [g_b64TransTbl ! d0, g_b64TransTbl ! d1, ?c2, ?c3]"
    using len d by (cases rule: group_cases) (auto simp: rfc_group_table numeral_2_eq_2)
  ultimately show thesis using sum by (intro that [of d0 d1 ?c2 ?c3 d2 d3]) auto
qed

lemma group_bytes:
  "of_nat (group24 [a] div 65536) = a"
  "of_nat (group24 [a, b] div 65536) = a" "of_nat (group24 [a, b] div 256) = b"
  "of_nat (group24 [a, b, c] div 65536) = a" "of_nat (group24 [a, b, c] div 256) = b" "of_nat (group24 [a, b, c]) = c"
  for a b c :: u8
proof -
  have hi: "(unat a * 65536 + unat b * 256 + unat c) div 65536 = unat a" for a b c :: u8
  proof -
    have "unat b * 256 + unat c < 65536" using byte_lt [of b] byte_lt [of c] by linarith
    then show ?thesis by (intro div_nat_eqI) simp_all
  qed
  have mid: "(unat a * 65536 + unat b * 256 + unat c) div 256 = unat a * 256 + unat b" for a b c :: u8
    by (rule div_nat_eqI) (use byte_lt [of c] in simp_all)
  have z: "(of_nat (x * 256) :: u8) = 0" "(of_nat (x * 65536) :: u8) = 0" for x by (simp_all add: word_of_nat_eq_0_iff del: of_nat_mult)
  show "of_nat (group24 [a] div 65536) = a" using hi [of a 0 0] by simp
  show "of_nat (group24 [a, b] div 65536) = a" using hi [of a b 0] by simp
  show "of_nat (group24 [a, b] div 256) = b" using mid [of a b 0] z(1) [of "unat a"] by (simp add: mult.commute del: of_nat_mult)
  show "of_nat (group24 [a, b, c] div 65536) = a" using hi [of a b c] by simp
  show "of_nat (group24 [a, b, c] div 256) = b" using mid [of a b c] z(1) [of "unat a"] by (simp del: of_nat_mult)
  show "of_nat (group24 [a, b, c]) = c" using z(1) [of "unat b"] z(2) [of "unat a"] by (simp del: of_nat_mult)
qed

lemma decode_blk:
  assumes len: "length bs \<in> {1, 2, 3}" and old: "length old = length bs"
  shows "b64DecodeBlk (Some (u @ rfc_group bs @ v)) (length u) (Some (p @ old @ q)) (length p)
    = Some (B64_OK, Some (p @ bs @ q))"
proof -
  obtain d0 d1 d2 d3 c2 c3 where c: "rfc_group bs = [g_b64TransTbl ! d0, g_b64TransTbl ! d1, c2, c3]"
    and d: "d0 < 64" "d1 < 64" "d2 < 64" "d3 < 64" and sum: "d0 * 262144 + d1 * 4096 + d2 * 64 + d3 = group24 bs"
    and val: "b64GetVal c2 = of_nat d2" "b64GetVal c3 = of_nat d3"
    and c23: "c2 = (if length bs < 2 then CHR ''='' else g_b64TransTbl ! d2)"
      "c3 = (if length bs < 3 then CHR ''='' else g_b64TransTbl ! d3)"
    by (rule group_chars [OF len])
  let ?v = "push_bit 18 (of_nat d0) OR push_bit 12 (of_nat d1) OR push_bit 6 (of_nat d2) OR of_nat d3 :: u32"
  have v: "unat ?v = group24 bs" using decoded_val [OF d] sum by simp
  have bytes: "ucast (drop_bit 16 ?v AND 0xff) = (of_nat (group24 bs div 65536) :: u8)"
    "ucast (drop_bit 8 ?v AND 0xff) = (of_nat (group24 bs div 256) :: u8)" "ucast (?v AND 0xff) = (of_nat (group24 bs) :: u8)"
    using decoded_byte [of 16 ?v] decoded_byte [of 8 ?v] decoded_byte [of 0 ?v] unfolding v by simp_all
  have rs: "cell_read (length u) (u @ w # r) = Some w" "cell_read (Suc (length u)) (u @ w # x # r) = Some x"
    "cell_read (Suc (Suc (length u))) (u @ w # x # y # r) = Some y" "cell_read (length u + 3) (u @ w # x # y # z # r) = Some z"
    for w x y z and r :: string
    by (simp_all add: cell_read_def nth_append)
  have ws: "cell_write (length p) e (p @ w # r) = Some (p @ e # r)"
    "cell_write (Suc (length p)) e (p @ w # x # r) = Some (p @ w # e # r)"
    "cell_write (Suc (Suc (length p))) e (p @ w # x # y # r) = Some (p @ w # x # e # r)" for w x y e and r :: "u8 list"
    by (simp_all add: cell_write_def list_update_append)
  note tab = table_nth(1) [OF d(1)] table_nth(1) [OF d(2)] table_nth(3) [OF d(3)] table_nth(3) [OF d(4)]
  show ?thesis
    using len
  proof (cases rule: group_cases)
    case (1 a)
    then obtain w where "old = [w]" using old by (auto simp: length_Suc_conv)
    with 1 c c23 val bytes show ?thesis
      by (simp add: b64DecodeBlk_def rs ws tab group_bytes del: group24_simps drop_bit_or)
  next
    case (2 a b)
    then obtain w x where "old = [w, x]" using old by (auto simp: length_Suc_conv)
    with 2 c c23 val bytes show ?thesis
      by (simp add: b64DecodeBlk_def rs ws tab group_bytes del: group24_simps drop_bit_or)
  next
    case (3 a b c)
    then obtain w x y where "old = [w, x, y]" using old by (auto simp: length_Suc_conv numeral_eq_Suc)
    with 3 c c23 val bytes show ?thesis
      by (simp add: b64DecodeBlk_def rs ws tab group_bytes del: group24_simps drop_bit_or)
  qed
qed

text \<open>Valid strings: whole groups of the alphabet, padded at most in the last two characters.\<close>

definition char_ok :: "string \<Rightarrow> nat \<Rightarrow> bool" where
  "char_ok s k \<longleftrightarrow> is_b64_char (s ! k) \<and>
     (s ! k = CHR ''='' \<longrightarrow> length s - 2 \<le> k \<and> (k = length s - 2 \<longrightarrow> s ! (k + 1) = CHR ''=''))"

definition b64_valid :: "string \<Rightarrow> bool" where
  "b64_valid s \<longleftrightarrow> length s mod 4 = 0 \<and> (\<forall>k<length s. char_ok s k)"

definition pads :: "string \<Rightarrow> nat" where
  "pads s = (if s = [] then 0
     else (if s ! (length s - 1) = CHR ''='' then 1 else 0) + (if s ! (length s - 2) = CHR ''='' then 1 else 0))"

lemma valid_loop_eq:
  assumes "length s mod 4 = 0"
  shows "valid_loop s (length s) i = Some (if \<forall>k<length s. i \<le> k \<longrightarrow> char_ok s k then B64_OK else B64_ERROR)"
proof (induction "length s - i" arbitrary: i)
  case 0
  then show ?case by (subst valid_loop.simps) simp
next
  case (Suc m)
  then have i: "i < length s" and ih: "valid_loop s (length s) (Suc i) =
      Some (if \<forall>k<length s. Suc i \<le> k \<longrightarrow> char_ok s k then B64_OK else B64_ERROR)" by simp_all
  have "4 \<le> length s" using i assms by (intro dvd_imp_le) auto
  then have "i = length s - 2 \<Longrightarrow> i + 1 < length s" by linarith
  then have "valid_loop s (length s) i = (if char_ok s i then valid_loop s (length s) (Suc i) else Some B64_ERROR)"
    using i by (subst valid_loop.simps) (auto simp: cell_read_def char_ok_def)
  moreover have "(\<forall>k<length s. i \<le> k \<longrightarrow> char_ok s k) \<longleftrightarrow> char_ok s i \<and> (\<forall>k<length s. Suc i \<le> k \<longrightarrow> char_ok s k)"
    using i by (metis Suc_leI le_eq_less_or_eq Suc_leD order_refl)
  ultimately show ?case using ih by simp
qed

lemma isValid_eq: "isValidB64EncodedString s (length s) = Some (if b64_valid s then B64_OK else B64_ERROR)"
  by (auto simp: isValidB64EncodedString_def b64_valid_def valid_loop_eq)

lemma b64Decode_eq:
  "b64Decode (Some s) (length s) (Some ob) k (Some n) =
     (if \<not> b64_valid s then Some (B64_INVALID_PARAM, Some ob, Some n)
      else if k < length s div 4 * 3 - pads s
        then Some (B64_OUTPUT_BUFFER_TOO_SMALL, Some ob, Some (length s div 4 * 3 - pads s))
      else map_option (\<lambda>(r, out1). (r, out1, Some (length s div 4 * 3 - pads s)))
             (decode_loop (Some s) (Some ob) 0 (length s div 4)))"
proof (cases "s = []")
  case True
  then show ?thesis
    by (cases "decode_loop (Some []) (Some ob) 0 0") (auto simp: b64Decode_def isValid_eq [of "[]", simplified] pads_def)
next
  case False
  then show ?thesis
    by (cases "decode_loop (Some s) (Some ob) 0 (length s div 4)")
      (auto simp: b64Decode_def isValid_eq pads_def cell_read_def Let_def)
qed

text \<open>A block of a valid string stays inside the output buffer.\<close>

lemma decode_blk_defined:
  assumes "i + 3 < length s" and "j < length ob" and "s ! (i + 2) \<noteq> CHR ''='' \<Longrightarrow> j + 1 < length ob"
    and "s ! (i + 3) \<noteq> CHR ''='' \<Longrightarrow> j + 2 < length ob"
  shows "\<exists>ob1. b64DecodeBlk (Some s) i (Some ob) j = Some (B64_OK, Some ob1) \<and> length ob1 = length ob"
  using assms
  by (cases "s ! (i + 2) = CHR ''=''"; cases "s ! (i + 3) = CHR ''=''")
    (simp_all add: b64DecodeBlk_def cell_read_def cell_write_def Let_def del: drop_bit_or)

lemma decode_total:
  assumes v: "b64_valid s" and fit: "length s div 4 * 3 - pads s \<le> length ob"
  shows "\<exists>ob'. decode_loop (Some s) (Some ob) i (length s div 4) = Some (B64_OK, Some ob') \<and> length ob' = length ob"
  using fit
proof (induction "length s div 4 - i" arbitrary: i ob)
  case 0
  then show ?case by (subst decode_loop.simps) simp
next
  case (Suc m)
  let ?n = "length s div 4"
  have L: "length s = 4 * ?n" using v by (auto simp: b64_valid_def)
  have i: "i < ?n" using Suc.hyps(2) by simp
  have p2: "pads s \<le> 2" by (simp add: pads_def)
  have ok: "\<And>k. k < length s \<Longrightarrow> char_ok s k" using v by (simp add: b64_valid_def)
  have w: "i * 3 < length ob" "s ! (i * 4 + 2) \<noteq> CHR ''='' \<Longrightarrow> i * 3 + 1 < length ob"
    "s ! (i * 4 + 3) \<noteq> CHR ''='' \<Longrightarrow> i * 3 + 2 < length ob"
  proof -
    consider "Suc i < ?n" | "Suc i = ?n" using i by linarith
    then have "i * 3 < length ob \<and> (s ! (i * 4 + 2) \<noteq> CHR ''='' \<longrightarrow> i * 3 + 1 < length ob)
        \<and> (s ! (i * 4 + 3) \<noteq> CHR ''='' \<longrightarrow> i * 3 + 2 < length ob)"
    proof cases
      case 1
      then show ?thesis using p2 Suc.prems by linarith
    next
      case 2
      then have e: "length s - 2 = i * 4 + 2" "length s - 1 = i * 4 + 3" "length s \<noteq> 0" using L by linarith+
      have "pads s = (if s ! (i * 4 + 3) = CHR ''='' then 1 else 0) + (if s ! (i * 4 + 2) = CHR ''='' then 1 else 0)"
        using e by (simp add: pads_def)
      moreover have "s ! (i * 4 + 2) = CHR ''='' \<Longrightarrow> s ! (i * 4 + 3) = CHR ''=''"
        using ok [of "i * 4 + 2"] e by (simp add: char_ok_def numeral_eq_Suc)
      moreover have "?n * 3 = i * 3 + 3" using 2 by linarith
      ultimately show ?thesis using Suc.prems by (auto split: if_splits)
    qed
    then show "i * 3 < length ob" "s ! (i * 4 + 2) \<noteq> CHR ''='' \<Longrightarrow> i * 3 + 1 < length ob"
      "s ! (i * 4 + 3) \<noteq> CHR ''='' \<Longrightarrow> i * 3 + 2 < length ob" by blast+
  qed
  have r: "i * 4 + 3 < length s" using L i by linarith
  then obtain ob1 where "b64DecodeBlk (Some s) (i * 4) (Some ob) (i * 3) = Some (B64_OK, Some ob1)" "length ob1 = length ob"
    using decode_blk_defined [OF _ w] by blast
  with Suc.hyps(1) [of "Suc i" ob1] Suc.hyps(2) Suc.prems i show ?case
    by (subst decode_loop.simps) simp
qed

text \<open>Encoded strings are valid, with the padding that the length of the input asks for.\<close>

lemma full_group: "length bs = 3 \<Longrightarrow> \<forall>c\<in>set (rfc_group bs). is_b64_char c \<and> c \<noteq> CHR ''=''"
  by (rule group_chars [of bs]) (auto simp: table_nth)

lemma valid_append:
  assumes g: "length g = 4" "\<forall>c\<in>set g. is_b64_char c \<and> c \<noteq> CHR ''=''" and s: "b64_valid s"
  shows "b64_valid (g @ s)" and "pads (g @ s) = pads s"
proof -
  have len: "s \<noteq> [] \<Longrightarrow> 4 \<le> length s" using s by (auto simp: b64_valid_def intro: dvd_imp_le)
  have "char_ok (g @ s) k" if k: "k < length (g @ s)" for k
  proof (cases "k < 4")
    case True
    then have "(g @ s) ! k \<in> set g" using g(1) by (simp add: nth_append)
    then show ?thesis using g(2) by (auto simp: char_ok_def)
  next
    case False
    then obtain j where j: "k = j + 4" "j < length s" using k g(1) by (metis add.commute le_Suc_ex length_append linorder_not_less nat_add_left_cancel_less)
    have "char_ok s j" using s j(2) by (simp add: b64_valid_def)
    then have c: "is_b64_char (s ! j)" "s ! j = CHR ''='' \<Longrightarrow> length s - 2 \<le> j"
      "s ! j = CHR ''='' \<Longrightarrow> j = length s - 2 \<Longrightarrow> s ! (j + 1) = CHR ''=''" by (auto simp: char_ok_def)
    have l: "length (g @ s) - 2 = length s - 2 + 4" using j len g(1) by fastforce
    have n: "(g @ s) ! k = s ! j" "(g @ s) ! (k + 1) = s ! (j + 1)" using j g(1) by (simp_all add: nth_append)
    show ?thesis unfolding char_ok_def l n using c j by auto
  qed
  then show "b64_valid (g @ s)" using s g(1) by (auto simp: b64_valid_def)
  show "pads (g @ s) = pads s"
  proof (cases "s = []")
    case True
    have "g ! 3 \<in> set g" "g ! 2 \<in> set g" using g(1) by simp_all
    then show ?thesis using True g by (auto simp: pads_def)
  next
    case False
    then show ?thesis using len g(1) by (auto simp: pads_def nth_append)
  qed
qed

lemma valid_group:
  assumes "length bs \<in> {1, 2}"
  shows "b64_valid (rfc_group bs)" and "pads (rfc_group bs) = 3 - length bs"
proof -
  have len: "length bs \<in> {1, 2, 3}" using assms by auto
  obtain d0 d1 d2 d3 c2 c3 where c: "rfc_group bs = [g_b64TransTbl ! d0, g_b64TransTbl ! d1, c2, c3]"
    and d: "d0 < 64" "d1 < 64" "d2 < 64" "d3 < 64"
    and c23: "c2 = (if length bs < 2 then CHR ''='' else g_b64TransTbl ! d2)"
      "c3 = (if length bs < 3 then CHR ''='' else g_b64TransTbl ! d3)"
    by (rule group_chars [OF len])
  note t = table_nth(2,3) [OF d(1)] table_nth(2,3) [OF d(2)] table_nth(2,3) [OF d(3)]
  have eq: "is_b64_char (CHR ''='')" by (simp add: is_b64_char_def)
  show "b64_valid (rfc_group bs)" using c c23 t eq assms
    by (auto simp: b64_valid_def char_ok_def less_Suc_eq numeral_eq_Suc)
  show "pads (rfc_group bs) = 3 - length bs" using c c23 t assms by (auto simp: pads_def)
qed

lemma rfc4648_valid: "b64_valid (rfc4648 xs) \<and> length (rfc4648 xs) div 4 * 3 - pads (rfc4648 xs) = length xs \<and> pads (rfc4648 xs) \<le> length (rfc4648 xs) div 4 * 3"
proof (induction xs rule: rfc4648.induct)
  case 1
  then show ?case by (simp add: b64_valid_def pads_def)
next
  case (2 a b c xs)
  have "(4 + length (rfc4648 xs)) div 4 = Suc (length (rfc4648 xs) div 4)" by simp
  with valid_append [OF _ full_group, of "[a, b, c]" "rfc4648 xs"] 2 show ?case by (simp, linarith)
qed (auto simp: valid_group)

lemma decode_last:
  assumes "length xs \<in> {1, 2}" and "length old = length xs" and "length u = 4 * i" and "length p = 3 * i"
  shows "decode_loop (Some (u @ rfc4648 xs)) (Some (p @ old @ q)) i (i + (length xs + 2) div 3) = Some (B64_OK, Some (p @ xs @ q))"
proof -
  have l: "length xs \<in> {1, 2, 3}" "i + (length xs + 2) div 3 = Suc i" using assms(1) by auto
  have "b64DecodeBlk (Some (u @ rfc_group xs @ [])) (length u) (Some (p @ old @ q)) (length p) = Some (B64_OK, Some (p @ xs @ q))"
    by (rule decode_blk [OF l(1) assms(2)])
  then have "b64DecodeBlk (Some (u @ rfc4648 xs)) (i * 4) (Some (p @ old @ q)) (i * 3) = Some (B64_OK, Some (p @ xs @ q))"
    using assms(3,4) by (simp add: rfc4648_group [OF l(1)] mult.commute)
  moreover have "decode_loop (Some (u @ rfc4648 xs)) (Some (p @ xs @ q)) (Suc i) (Suc i) = Some (B64_OK, Some (p @ xs @ q))"
    by (subst decode_loop.simps) simp
  ultimately show ?thesis unfolding l(2) by (subst decode_loop.simps) simp
qed

lemma decode_loop_ok:
  assumes "length old = length xs" and "length u = 4 * i" and "length p = 3 * i"
  shows "decode_loop (Some (u @ rfc4648 xs)) (Some (p @ old @ q)) i (i + (length xs + 2) div 3) = Some (B64_OK, Some (p @ xs @ q))"
  using assms
proof (induction xs arbitrary: u p old i rule: rfc4648.induct, goal_cases)
  case (1 u p old i)
  then show ?case by (subst decode_loop.simps) simp
next
  case (2 a b c xs u p old i)
  have o: "length (take 3 old) = length [a, b, c]" "old = take 3 old @ drop 3 old" using 2(2) by simp_all
  have n: "(length (a # b # c # xs) + 2) div 3 = Suc ((length xs + 2) div 3)" by simp
  have "b64DecodeBlk (Some (u @ rfc_group [a, b, c] @ rfc4648 xs)) (length u) (Some (p @ take 3 old @ drop 3 old @ q)) (length p)
      = Some (B64_OK, Some (p @ [a, b, c] @ drop 3 old @ q))"
    by (rule decode_blk) (use o(1) in auto)
  then have blk: "b64DecodeBlk (Some (u @ rfc_group [a, b, c] @ rfc4648 xs)) (i * 4) (Some (p @ old @ q)) (i * 3)
      = Some (B64_OK, Some ((p @ [a, b, c]) @ drop 3 old @ q))"
    using 2(3,4) o(2) by (metis append.assoc mult.commute)
  have "decode_loop (Some ((u @ rfc_group [a, b, c]) @ rfc4648 xs)) (Some ((p @ [a, b, c]) @ drop 3 old @ q)) (Suc i)
      (Suc i + (length xs + 2) div 3) = Some (B64_OK, Some ((p @ [a, b, c]) @ xs @ q))"
    by (rule 2(1)) (use 2(2-4) in simp_all)
  then show ?case using blk unfolding n by (subst decode_loop.simps) simp
next
  case (3 a u p old i)
  then show ?case by (intro decode_last) auto
next
  case (4 a b u p old i)
  then show ?case by (intro decode_last) auto
qed

section \<open>Properties\<close>

lemma b64Decode_ok:
  assumes room: "length xs \<le> length ob"
  shows "b64Decode (Some (rfc4648 xs)) (length (rfc4648 xs)) (Some ob) (length ob) (Some n)
    = Some (B64_OK, Some (xs @ drop (length xs) ob), Some (length xs))"
proof -
  let ?s = "rfc4648 xs"
  have v: "b64_valid ?s" "length ?s div 4 * 3 - pads ?s = length xs" "length ?s mod 4 = 0"
    using rfc4648_valid [of xs] by (auto simp: b64_valid_def)
  have n: "length ?s div 4 = 0 + (length xs + 2) div 3" by (simp add: rfc4648_length)
  have "decode_loop (Some ([] @ ?s)) (Some ([] @ take (length xs) ob @ drop (length xs) ob)) 0 (0 + (length xs + 2) div 3)
      = Some (B64_OK, Some ([] @ xs @ drop (length xs) ob))"
    by (rule decode_loop_ok) (use room in simp_all)
  then have l: "decode_loop (Some ?s) (Some ob) 0 (length ?s div 4) = Some (B64_OK, Some (xs @ drop (length xs) ob))"
    unfolding n by simp
  show ?thesis using v(1,2) l room by (simp add: b64Decode_eq)
qed

text \<open>
  C30: \<open>b64Encode\<close> computes the encoding of RFC 4648: given an input and an output buffer with room for
  the text and its terminator, it writes the encoding at the front of the buffer, terminates it with
  a NUL, leaves the rest of the buffer alone and reports the length of the text.
\<close>

theorem b64Encode_is_rfc4648:
  assumes "length xs \<le> max_object" and "length (rfc4648 xs) < length ob"
  shows "b64Encode (Some xs) (length xs) (Some ob) (length ob) (Some n)
    = Some (B64_OK, Some (rfc4648 xs @ CHR 0x00 # drop (length (rfc4648 xs) + 1) ob), Some (length (rfc4648 xs)))"
  using assms by (rule b64Encode_ok)

theorem b64Encode_is_rfc4648_witness:
  "b64Encode (Some [77, 97]) 2 (Some (replicate 6 (CHR ''x''))) 6 (Some 0)
    = Some (B64_OK, Some (''TWE='' @ [CHR 0x00, CHR ''x'']), Some 4)"
proof -
  have e: "rfc_group [77, 97] = ''TWE=''"
    by (simp add: rfc_group_table sextets_def g_b64TransTbl_def)
  have "length [77, 97 :: u8] \<le> max_object" by (simp add: max_object_def)
  from b64Encode_is_rfc4648 [OF this, of "replicate 6 (CHR ''x'')" 0] show ?thesis
    by (simp add: e numeral_eq_Suc)
qed

text \<open>
  C31: Decoding undoes encoding: the text that \<open>b64Encode\<close> produces is accepted by \<open>b64Decode\<close>, a
  buffer of exactly the original length is enough, and the bytes and the length come back.
\<close>

theorem b64_roundtrip:
  assumes "length xs \<le> max_object" and "length (rfc4648 xs) < length ob" and "length xs \<le> length db"
  shows "\<exists>ob' k db'. b64Encode (Some xs) (length xs) (Some ob) (length ob) (Some n) = Some (B64_OK, Some ob', Some k)
     \<and> b64Decode (Some (take k ob')) k (Some db) (length db) (Some m) = Some (B64_OK, Some db', Some (length xs))
     \<and> take (length xs) db' = xs"
  using b64Encode_ok [OF assms(1,2), of n] b64Decode_ok [OF assms(3), of m] by simp

theorem b64_roundtrip_witness:
  "\<exists>ob' k db'. b64Encode (Some [77, 97]) 2 (Some (replicate 6 (CHR ''x''))) 6 (Some 0) = Some (B64_OK, Some ob', Some k)
     \<and> b64Decode (Some (take k ob')) k (Some [0, 0]) 2 (Some 0) = Some (B64_OK, Some db', Some 2)
     \<and> take 2 db' = [77, 97]"
proof -
  have "length [77, 97 :: u8] \<le> max_object" by (simp add: max_object_def)
  from b64_roundtrip [OF this, of "replicate 6 (CHR ''x'')" "[0, 0]" 0 0] show ?thesis
    by (simp add: rfc4648_length numeral_2_eq_2)
qed

text \<open>
  C32: \<open>b64Decode\<close> is safe on every string and every buffer whose sizes are passed correctly: it reads
  and writes only inside them, refuses exactly the strings that are not whole groups of the alphabet
  with at most two padding characters at the end, and reports when the buffer is too small.
\<close>

theorem b64Decode_total:
  "if b64_valid s then
     (let need = length s div 4 * 3 - pads s in
      if length ob < need
      then b64Decode (Some s) (length s) (Some ob) (length ob) (Some n) = Some (B64_OUTPUT_BUFFER_TOO_SMALL, Some ob, Some need)
      else \<exists>ob'. b64Decode (Some s) (length s) (Some ob) (length ob) (Some n) = Some (B64_OK, Some ob', Some need)
             \<and> length ob' = length ob)
   else b64Decode (Some s) (length s) (Some ob) (length ob) (Some n) = Some (B64_INVALID_PARAM, Some ob, Some n)"
  using decode_total [of s ob 0] by (auto simp: b64Decode_eq Let_def)

text \<open>
  C40: The text that \<open>b64Encode\<close> writes is well formed: its length is a multiple of four, its characters
  belong to the alphabet, and padding occurs only in the last two places, as many characters as the
  last group lacks octets.
\<close>

theorem b64Encode_wellformed:
  assumes "length xs \<le> max_object" and "length ob = (length xs + 2) div 3 * 4 + 1"
  shows "\<exists>ob' k. b64Encode (Some xs) (length xs) (Some ob) (length ob) (Some n) = Some (B64_OK, Some ob', Some k)
     \<and> k = (length xs + 2) div 3 * 4 \<and> b64_valid (take k ob') \<and> pads (take k ob') = k div 4 * 3 - length xs"
proof -
  have room: "length (rfc4648 xs) < length ob" using assms(2) by (simp add: rfc4648_length)
  from rfc4648_valid [of xs] have "b64_valid (rfc4648 xs)" "pads (rfc4648 xs) = length (rfc4648 xs) div 4 * 3 - length xs" by auto
  then show ?thesis using b64Encode_ok [OF assms(1) room, of n] by (simp add: rfc4648_length)
qed

theorem b64Encode_wellformed_witness:
  "\<exists>ob' k. b64Encode (Some [1, 2, 3, 4]) 4 (Some (replicate 9 (CHR ''x''))) 9 (Some 0) = Some (B64_OK, Some ob', Some k)
     \<and> k = 8 \<and> pads (take k ob') = 2"
proof -
  have l: "length [1, 2, 3, 4 :: u8] = 4" by simp
  have "length [1, 2, 3, 4 :: u8] \<le> max_object" by (simp add: max_object_def)
  from b64Encode_wellformed [OF this, of "replicate 9 (CHR ''x'')" 0] show ?thesis unfolding l by auto
qed

end
