(* ===== verification/Fragmentation.thy ===== *)
theory Fragmentation
  imports Prelude "HOL-Library.Monad_Syntax"
begin

text \<open>
  The packet format of the Bluetooth LE adapter, \<^verbatim>\<open>connectivity/src/adapter_util/cafragmentation.c\<close>: a
  header of two bytes (start flag and source port, secure flag and destination port), four bytes of
  length in a start packet, and the payload. Arithmetic has the types of the code: \<open>unsigned\<close> and
  \<open>uint32_t\<close> are words of 32 bits, \<open>size_t\<close> is a natural number with its wrap-around written out.
  Arrays are the lists of their cells, and an access outside of them is undefined (\<^const>\<open>None\<close>).
\<close>

section \<open>Constants and enumerations\<close>

definition CA_SUPPORTED_BLE_MAX_PORT :: u8 where "CA_SUPPORTED_BLE_MAX_PORT = 127"
definition CA_SUPPORTED_BLE_MIN_PORT :: u8 where "CA_SUPPORTED_BLE_MIN_PORT = 1"
definition CA_BLE_MULTICAST_PORT :: u16 where "CA_BLE_MULTICAST_PORT = 0"
definition CA_BLE_HEADER_SIZE :: nat where "CA_BLE_HEADER_SIZE = 2"
definition CA_BLE_LENGTH_HEADER_SIZE :: nat where "CA_BLE_LENGTH_HEADER_SIZE = 4"

lemmas ble_sizes = CA_SUPPORTED_BLE_MAX_PORT_def CA_SUPPORTED_BLE_MIN_PORT_def CA_BLE_MULTICAST_PORT_def
  CA_BLE_HEADER_SIZE_def CA_BLE_LENGTH_HEADER_SIZE_def

datatype CABLEPacketStart = CA_BLE_PACKET_NOT_START | CA_BLE_PACKET_START
datatype CABLEPacketSecure = CA_BLE_PACKET_NON_SECURE | CA_BLE_PACKET_SECURE

text \<open>The values of the enumerators, and the enumerator of a value.\<close>

definition start_value :: "CABLEPacketStart \<Rightarrow> u32" where
  "start_value s = (case s of CA_BLE_PACKET_NOT_START \<Rightarrow> 0 | CA_BLE_PACKET_START \<Rightarrow> 1)"
definition secure_value :: "CABLEPacketSecure \<Rightarrow> u32" where
  "secure_value s = (case s of CA_BLE_PACKET_NON_SECURE \<Rightarrow> 0 | CA_BLE_PACKET_SECURE \<Rightarrow> 1)"
definition start_of :: "u8 \<Rightarrow> CABLEPacketStart" where
  "start_of b = (if b = 0 then CA_BLE_PACKET_NOT_START else CA_BLE_PACKET_START)"
definition secure_of :: "u8 \<Rightarrow> CABLEPacketSecure" where
  "secure_of b = (if b = 0 then CA_BLE_PACKET_NON_SECURE else CA_BLE_PACKET_SECURE)"

section \<open>Bit fields\<close>

definition CASetBits :: "u8 \<Rightarrow> u32 \<Rightarrow> u32 \<Rightarrow> u32 \<Rightarrow> u8" where
  "CASetBits x p n v =
     (if p + 1 < n then x
      else if NOT (push_bit (unat n) (NOT 0)) < v then x
      else ucast ((ucast x AND NOT (push_bit (unat (p - n + 1)) (NOT 0)))
             OR (ucast x AND push_bit (unat (p + 1)) (NOT 0))
             OR push_bit (unat (p - n + 1)) (v AND NOT (push_bit (unat n) (NOT 0 :: u32)))))"

definition CAGetBits :: "u8 \<Rightarrow> u32 \<Rightarrow> u32 \<Rightarrow> u8" where
  "CAGetBits x p n = ucast (drop_bit (unat (p + 1 - n)) (ucast x) AND NOT (push_bit (unat n) (NOT 0 :: u32)))"

section \<open>Lengths\<close>

text \<open>The number of full packets after the first, the length of the last one and the total length.\<close>

definition CAGenerateVariableForFragmentation :: "nat \<Rightarrow> u16 \<Rightarrow> CAResult + (u32 \<times> nat \<times> nat)" where
  "CAGenerateVariableForFragmentation dataLength mtuSize =
     (let dataOnlyLen = nat ((int (unat mtuSize) - int (CA_BLE_HEADER_SIZE + CA_BLE_LENGTH_HEADER_SIZE)) mod 2 ^ 64);
          remainDataSize = (if dataLength < dataOnlyLen then 0 else dataLength - dataOnlyLen)
      in if unat mtuSize \<le> CA_BLE_HEADER_SIZE then Inl CA_STATUS_FAILED
         else
           let size = of_nat (unat mtuSize - CA_BLE_HEADER_SIZE) :: u32;
               midPacketCount = of_nat remainDataSize div size;
               remainingLen = unat (of_nat remainDataSize mod size);
               remainHeaderSize = of_nat CA_BLE_HEADER_SIZE * (midPacketCount + (if remainingLen = 0 then 0 else 1));
               totalLength = (dataLength + (CA_BLE_HEADER_SIZE + CA_BLE_LENGTH_HEADER_SIZE) + unat remainHeaderSize) mod 2 ^ 64
           in Inr (midPacketCount, remainingLen, totalLength))"

section \<open>Headers\<close>

definition set_bits_at :: "nat \<Rightarrow> u32 \<Rightarrow> u32 \<Rightarrow> u32 \<Rightarrow> u8 list \<Rightarrow> u8 list option" where
  "set_bits_at i p n v h = do { x \<leftarrow> cell_read i h; cell_write i (CASetBits x p n v) h }"

definition CAGenerateHeader ::
  "u8 list option \<Rightarrow> CABLEPacketStart \<Rightarrow> u8 \<Rightarrow> CABLEPacketSecure \<Rightarrow> u8 \<Rightarrow> (CAResult \<times> u8 list option) option" where
  "CAGenerateHeader header type sourcePort secure destPort =
     (case header of
        None \<Rightarrow> Some (CA_STATUS_INVALID_PARAM, None)
      | Some h \<Rightarrow>
          if sourcePort > CA_SUPPORTED_BLE_MAX_PORT \<or> sourcePort < CA_SUPPORTED_BLE_MIN_PORT
             \<or> destPort > CA_SUPPORTED_BLE_MAX_PORT
          then Some (CA_STATUS_FAILED, header)
          else do {
            h \<leftarrow> set_bits_at 0 7 1 (start_value type) h;
            h \<leftarrow> set_bits_at 0 6 7 (ucast sourcePort) h;
            h \<leftarrow> set_bits_at 1 7 1 (secure_value secure) h;
            h \<leftarrow> set_bits_at 1 6 7 (ucast destPort) h;
            Some (CA_STATUS_OK, Some h)
          })"

text \<open>The length is written in network byte order, from the last byte to the first.\<close>

function write_length_loop :: "nat \<Rightarrow> nat \<Rightarrow> u8 list \<Rightarrow> (nat \<times> u8 list) option" where
  "write_length_loop idx dataLength header =
     (if idx < CA_BLE_LENGTH_HEADER_SIZE then do {
        header \<leftarrow> cell_write (CA_BLE_LENGTH_HEADER_SIZE - idx) (of_nat (dataLength AND 0xff)) header;
        write_length_loop (Suc idx) (drop_bit 8 dataLength) header
      }
      else Some (dataLength, header))"
  by pat_completeness auto
termination
  by (relation "measure (\<lambda>(idx, n, h). CA_BLE_LENGTH_HEADER_SIZE - idx)") auto

declare write_length_loop.simps [simp del]

definition CAGenerateHeaderPayloadLength :: "u8 list option \<Rightarrow> nat \<Rightarrow> nat \<Rightarrow> (CAResult \<times> u8 list option) option" where
  "CAGenerateHeaderPayloadLength header headerLength dataLength =
     (case header of
        None \<Rightarrow> Some (CA_STATUS_INVALID_PARAM, None)
      | Some h \<Rightarrow>
          if headerLength \<noteq> CA_BLE_LENGTH_HEADER_SIZE then Some (CA_STATUS_FAILED, header)
          else do {
            (rest, h) \<leftarrow> write_length_loop 1 dataLength h;
            h \<leftarrow> cell_write 0 (of_nat (rest AND 0xff)) h;
            Some (CA_STATUS_OK, Some h)
          })"

definition CAParseHeader ::
  "u8 list option \<Rightarrow> (CAResult + (CABLEPacketStart \<times> u16 \<times> CABLEPacketSecure \<times> u16)) option" where
  "CAParseHeader header =
     (case header of
        None \<Rightarrow> Some (Inl CA_STATUS_INVALID_PARAM)
      | Some h \<Rightarrow> do {
          h0 \<leftarrow> cell_read 0 h;
          h1 \<leftarrow> cell_read 1 h;
          Some (Inr (start_of (CAGetBits h0 7 1), ucast (CAGetBits h0 6 7),
                     secure_of (CAGetBits h1 7 1), ucast (CAGetBits h1 6 7)))
        })"

text \<open>The length of a start packet follows its header. The loop shifts into what \<open>*dataLength\<close> held before.\<close>

function read_length_loop :: "u8 list \<Rightarrow> nat \<Rightarrow> nat \<Rightarrow> u32 \<Rightarrow> u32 option" where
  "read_length_loop header headerLength idx dataLength =
     (if idx < headerLength then do {
        b \<leftarrow> cell_read (CA_BLE_HEADER_SIZE + idx) header;
        read_length_loop header headerLength (Suc idx) (push_bit 8 dataLength OR ucast b)
      }
      else Some dataLength)"
  by pat_completeness auto
termination
  by (relation "measure (\<lambda>(h, n, idx, l). n - idx)") auto

declare read_length_loop.simps [simp del]

definition CAParseHeaderPayloadLength :: "u8 list option \<Rightarrow> nat \<Rightarrow> u32 \<Rightarrow> (CAResult \<times> u32) option" where
  "CAParseHeaderPayloadLength header headerLength dataLength =
     (case header of
        None \<Rightarrow> Some (CA_STATUS_INVALID_PARAM, dataLength)
      | Some h \<Rightarrow>
          if headerLength \<noteq> CA_BLE_LENGTH_HEADER_SIZE then Some (CA_STATUS_FAILED, dataLength)
          else map_option (Pair CA_STATUS_OK) (read_length_loop h headerLength 0 dataLength))"

section \<open>Segments\<close>

text \<open>\<open>memcpy(dst + off, src + from, n)\<close>; a NULL source may only be read for zero bytes.\<close>

definition copy_into :: "nat \<Rightarrow> u8 list \<Rightarrow> u8 list option \<Rightarrow> nat \<Rightarrow> nat \<Rightarrow> u8 list option" where
  "copy_into off dst srcb from n =
     (case srcb of
        None \<Rightarrow> if n = 0 then Some dst else None
      | Some s \<Rightarrow> do { bs \<leftarrow> buf_read from n s; buf_write off bs dst })"

definition CAMakeFirstDataSegment ::
  "u8 list option \<Rightarrow> u8 list option \<Rightarrow> u32 \<Rightarrow> u8 list option \<Rightarrow> u8 list option \<Rightarrow> (CAResult \<times> u8 list option) option" where
  "CAMakeFirstDataSegment dataSegment data dataLength dataHeader lengthHeader =
     (case dataSegment of
        None \<Rightarrow> Some (CA_STATUS_INVALID_PARAM, None)
      | Some seg \<Rightarrow>
          if dataHeader = None \<or> lengthHeader = None then Some (CA_STATUS_INVALID_PARAM, dataSegment)
          else do {
            seg \<leftarrow> copy_into 0 seg dataHeader 0 CA_BLE_HEADER_SIZE;
            seg \<leftarrow> copy_into CA_BLE_HEADER_SIZE seg lengthHeader 0 CA_BLE_LENGTH_HEADER_SIZE;
            seg \<leftarrow> copy_into (CA_BLE_HEADER_SIZE + CA_BLE_LENGTH_HEADER_SIZE) seg data 0 (unat dataLength);
            Some (CA_STATUS_OK, Some seg)
          })"

definition CAMakeRemainDataSegment ::
  "u8 list option \<Rightarrow> u32 \<Rightarrow> u8 list option \<Rightarrow> u32 \<Rightarrow> u32 \<Rightarrow> u8 list option \<Rightarrow> u16 \<Rightarrow> (CAResult \<times> u8 list option) option" where
  "CAMakeRemainDataSegment dataSegment segmentPayloadLength sourceData sourceDataLength segmentNum dataHeader mtuSize =
     (case dataSegment of
        None \<Rightarrow> Some (CA_STATUS_INVALID_PARAM, None)
      | Some seg \<Rightarrow>
          if dataHeader = None then Some (CA_STATUS_INVALID_PARAM, dataSegment)
          else
            let mtu = ucast mtuSize :: u32;
                index = (mtu - of_nat CA_BLE_HEADER_SIZE - of_nat CA_BLE_LENGTH_HEADER_SIZE)
                  + segmentNum * (mtu - of_nat CA_BLE_HEADER_SIZE)
            in if sourceDataLength < index + segmentPayloadLength then Some (CA_STATUS_FAILED, dataSegment)
               else do {
                 seg \<leftarrow> copy_into 0 seg dataHeader 0 CA_BLE_HEADER_SIZE;
                 seg \<leftarrow> copy_into CA_BLE_HEADER_SIZE seg sourceData (unat index) (unat segmentPayloadLength);
                 Some (CA_STATUS_OK, Some seg)
               })"

section \<open>Bit fields of the header\<close>

lemma ones: "push_bit k (NOT 0 :: u32) = NOT (mask k)"
  by (simp add: push_bit_minus_one)

lemma bit8_cases: "n < LENGTH(8) \<Longrightarrow> n = 0 \<or> n = 1 \<or> n = 2 \<or> n = 3 \<or> n = 4 \<or> n = 5 \<or> n = 6 \<or> n = 7"
  by (simp add: numeral_eq_Suc) presburger

lemma set_flag: "CASetBits x 7 1 (of_bool b) = (x AND 0x7f) OR (if b then 0x80 else 0)"
proof (rule bit_word_eqI)
  fix n assume "n < LENGTH(8)"
  from bit8_cases [OF this] show "bit (CASetBits x 7 1 (of_bool b)) n = bit ((x AND 0x7f) OR (if b then 0x80 else 0)) n"
    by (cases b) (auto simp: CASetBits_def ones bit_simps)
qed

lemma small_port_bit7: "v \<le> 127 \<Longrightarrow> \<not> bit (v :: u8) 7"
proof -
  assume "v \<le> 127"
  then have "unat v \<le> unat (127::u8)" by (simp only: word_le_nat_alt)
  then have "unat v div 2 ^ 7 = 0" by simp
  then have "\<not> bit (unat v) 7" by (simp only: bit_iff_odd) simp
  then show ?thesis by (simp add: bit_unsigned_iff)
qed

lemma set_port:
  assumes "v \<le> 127" shows "CASetBits x 6 7 (ucast v) = (x AND 0x80) OR v"
proof (rule bit_word_eqI)
  fix n assume n: "n < LENGTH(8)"
  have "unat (ucast v :: u32) \<le> 127" using assms by (simp add: word_le_nat_alt unsigned_ucast_eq order_trans [OF take_bit_nat_less_eq_self])
  then have "\<not> mask 7 < (ucast v :: u32)" by (simp add: mask_eq_decr_exp not_less word_le_nat_alt)
  with bit8_cases [OF n] show "bit (CASetBits x 6 7 (ucast v)) n = bit ((x AND 0x80) OR v) n"
    using small_port_bit7 [OF assms]
    by (auto simp: CASetBits_def ones bit_simps)
qed

lemma get_flag: "CAGetBits x 7 1 = (if bit x 7 then 1 else 0)"
proof (rule bit_word_eqI)
  fix n assume n: "n < LENGTH(8)"
  from bit8_cases [OF n] show "bit (CAGetBits x 7 1) n = bit (if bit x 7 then 1 else (0::u8)) n"
    by (auto simp: CAGetBits_def ones bit_simps)
qed

lemma get_port: "CAGetBits x 6 7 = x AND 0x7f"
proof (rule bit_word_eqI)
  fix n assume n: "n < LENGTH(8)"
  from bit8_cases [OF n] show "bit (CAGetBits x 6 7) n = bit (x AND 0x7f) n"
    by (auto simp: CAGetBits_def ones bit_simps)
qed

section \<open>What the headers look like\<close>

text \<open>The two bytes of a header, the four bytes of a length, and the ports that are accepted.\<close>

definition ble_header :: "CABLEPacketStart \<Rightarrow> u8 \<Rightarrow> CABLEPacketSecure \<Rightarrow> u8 \<Rightarrow> u8 list" where
  "ble_header ty sp sec dp =
     [(if ty = CA_BLE_PACKET_START then 0x80 else 0) OR sp, (if sec = CA_BLE_PACKET_SECURE then 0x80 else 0) OR dp]"

lemma length_ble_header [simp]: "length (ble_header ty sp sec dp) = 2"
  by (simp add: ble_header_def)

definition valid_ports :: "u8 \<Rightarrow> u8 \<Rightarrow> bool" where
  "valid_ports sp dp \<longleftrightarrow> 1 \<le> sp \<and> sp \<le> 127 \<and> dp \<le> 127"

lemma flag_values:
  "start_value ty = of_bool (ty = CA_BLE_PACKET_START)" "secure_value sec = of_bool (sec = CA_BLE_PACKET_SECURE)"
  by (cases ty; simp add: start_value_def) (cases sec; simp add: secure_value_def)

lemma flag_port_bits: "((x AND 0x7f) OR (if b then 0x80 else 0)) AND 0x80 = (if b then 0x80 else (0 :: u8))"
proof (rule bit_word_eqI)
  fix n assume "n < LENGTH(8)"
  from bit8_cases [OF this] show "bit (((x AND 0x7f) OR (if b then 0x80 else 0)) AND 0x80) n = bit (if b then 0x80 else (0 :: u8)) n"
    by (cases b) (auto simp: bit_simps)
qed

lemma flag_port_split:
  assumes "p \<le> (127 :: u8)"
  shows "((if b then 0x80 else 0) OR p) AND 0x7f = p" and "bit ((if b then 0x80 else 0) OR p) 7 = b"
proof -
  show "((if b then 0x80 else 0) OR p) AND 0x7f = p"
  proof (rule bit_word_eqI)
    fix n assume "n < LENGTH(8)"
    from bit8_cases [OF this] show "bit (((if b then 0x80 else 0) OR p) AND 0x7f) n = bit p n"
      using small_port_bit7 [OF assms] by (cases b) (auto simp: bit_simps)
  qed
  show "bit ((if b then 0x80 else 0) OR p) 7 = b" using small_port_bit7 [OF assms] by (cases b) (auto simp: bit_simps)
qed

lemma generate_header:
  assumes "length h = 2" and "valid_ports sp dp"
  shows "CAGenerateHeader (Some h) ty sp sec dp = Some (CA_STATUS_OK, Some (ble_header ty sp sec dp))"
proof -
  obtain a b where h: "h = [a, b]" using assms(1) by (auto simp: length_Suc_conv numeral_2_eq_2)
  have "\<not> 127 < sp" "\<not> sp < 1" "\<not> 127 < dp" "sp \<le> 127" "dp \<le> 127" using assms(2) by (auto simp: valid_ports_def)
  then show ?thesis
    by (simp add: CAGenerateHeader_def ble_sizes h set_bits_at_def cell_read_def cell_write_def flag_values set_flag set_port
        flag_port_bits ble_header_def)
qed

lemma generate_header_refused:
  "\<not> valid_ports sp dp \<Longrightarrow> CAGenerateHeader (Some h) ty sp sec dp = Some (CA_STATUS_FAILED, Some h)"
  by (simp add: CAGenerateHeader_def valid_ports_def ble_sizes not_le de_Morgan_conj disj_commute disj_left_commute)

lemma parse_header:
  assumes "valid_ports sp dp"
  shows "CAParseHeader (Some (ble_header ty sp sec dp @ rest)) = Some (Inr (ty, ucast sp, sec, ucast dp))"
proof -
  have p: "sp \<le> 127" "dp \<le> 127" using assms by (auto simp: valid_ports_def)
  show ?thesis
    by (cases ty; cases sec)
      (simp_all add: CAParseHeader_def ble_header_def cell_read_def get_flag get_port start_of_def secure_of_def
        flag_port_split [OF p(1), of True, simplified] flag_port_split [OF p(1), of False, simplified]
        flag_port_split [OF p(2), of True, simplified] flag_port_split [OF p(2), of False, simplified])
qed

definition len_bytes :: "nat \<Rightarrow> u8 list" where
  "len_bytes n = [of_nat (n div 16777216), of_nat (n div 65536), of_nat (n div 256), of_nat n]"

lemma length_len_bytes [simp]: "length (len_bytes n) = 4"
  by (simp add: len_bytes_def)

lemma low_byte: "of_nat (n AND 0xff) = (of_nat n :: u8)"
proof -
  have "n AND 0xff = take_bit 8 n" by (simp add: take_bit_eq_mask mask_eq_exp_minus_1)
  then show ?thesis by (simp add: word_of_nat_eq_iff)
qed

lemma write_length_step:
  "idx < 4 \<Longrightarrow> write_length_loop idx n h =
     do { h \<leftarrow> cell_write (4 - idx) (of_nat n) h; write_length_loop (Suc idx) (n div 256) h }"
  "write_length_loop (Suc (Suc (Suc (Suc 0)))) n h = Some (n, h)"
  by (simp_all add: write_length_loop.simps [of idx] write_length_loop.simps [of "Suc (Suc (Suc (Suc 0)))"] ble_sizes low_byte drop_bit_eq_div)

lemma generate_length:
  assumes "length h = 4"
  shows "CAGenerateHeaderPayloadLength (Some h) 4 n = Some (CA_STATUS_OK, Some (len_bytes n))"
proof -
  obtain a b c d where h: "h = [a, b, c, d]" using assms by (auto simp: length_Suc_conv numeral_eq_Suc)
  have "Suc 1 = 2" "Suc 2 = 3" "Suc 3 = (4 :: nat)" by simp_all
  then have "write_length_loop 1 n h = Some (n div 16777216, [a, of_nat (n div 65536), of_nat (n div 256), of_nat n])"
    by (simp add: write_length_step h cell_write_def div_mult2_eq [symmetric] numeral_2_eq_2 numeral_3_eq_3)
  then show ?thesis
    by (simp add: CAGenerateHeaderPayloadLength_def ble_sizes h cell_write_def low_byte len_bytes_def)
qed

lemma read_length_step:
  "read_length_loop h 4 (Suc (Suc (Suc (Suc 0)))) l = Some l"
  "i < 4 \<Longrightarrow> read_length_loop h 4 i l = do { b \<leftarrow> cell_read (2 + i) h; read_length_loop h 4 (Suc i) (push_bit 8 l OR ucast b) }"
  by (simp_all add: read_length_loop.simps [of h 4] ble_sizes)

lemma read_length_bytes:
  "read_length_loop (a # b # w # x # y # z # rest) 4 0 l =
     Some (push_bit 8 (push_bit 8 (push_bit 8 (push_bit 8 l OR ucast w) OR ucast x) OR ucast y) OR ucast z)"
  by (simp add: read_length_step cell_read_def)

lemma push_byte: "push_bit 8 (of_nat (n div 256)) OR ucast (of_nat n :: u8) = (of_nat n :: u32)"
proof -
  have "bit (ucast (of_nat n :: u8) :: u32) k \<Longrightarrow> k < 8" for k by (auto simp: bit_simps dest: bit_imp_le_length)
  then have "push_bit 8 (of_nat (n div 256)) OR ucast (of_nat n :: u8) = push_bit 8 (of_nat (n div 256)) + (ucast (of_nat n :: u8) :: u32)"
    by (intro disjunctive_add [symmetric]) (auto simp: bit_simps)
  also have "\<dots> = of_nat (n div 256 * 256) + (of_nat (n mod 256) :: u32)"
    by (simp add: push_bit_eq_mult unsigned_of_nat take_bit_eq_mod)
  also have "\<dots> = of_nat n" by (metis of_nat_add div_mult_mod_eq)
  finally show ?thesis .
qed

lemma parse_length:
  assumes "n < 2 ^ 32" and "length pre = 2"
  shows "CAParseHeaderPayloadLength (Some (pre @ len_bytes n @ rest)) 4 0 = Some (CA_STATUS_OK, of_nat n)"
proof -
  obtain a b where h: "pre = [a, b]" using assms(2) by (auto simp: length_Suc_conv numeral_2_eq_2)
  have q: "n div 16777216 div 256 = 0" "n div 65536 div 256 = n div 16777216" "n div 256 div 256 = n div 65536"
    using assms(1) by (simp_all add: div_mult2_eq [symmetric])
  have "push_bit 8 0 OR ucast (of_nat (n div 16777216) :: u8) = (of_nat (n div 16777216) :: u32)"
    using push_byte [of "n div 16777216"] unfolding q by simp
  then show ?thesis
    using push_byte [of "n div 65536", unfolded q] push_byte [of "n div 256", unfolded q] push_byte [of n]
    by (simp add: CAParseHeaderPayloadLength_def ble_sizes h read_length_bytes len_bytes_def)
qed

section \<open>What the segments look like\<close>

lemma buf_read_all: "off + n \<le> length bs \<Longrightarrow> buf_read off n bs = Some (take n (drop off bs))"
  by (simp add: buf_read_def)

lemma copy_into_ok:
  "off + n \<le> length dst \<Longrightarrow> from + n \<le> length s \<Longrightarrow>
   copy_into off dst (Some s) from n = Some (take off dst @ take n (drop from s) @ drop (off + n) dst)"
  by (simp add: copy_into_def buf_read_def buf_write_def)

lemma unat_of_nat32: "n < 2 ^ 32 \<Longrightarrow> unat (of_nat n :: u32) = n"
  by (simp add: unsigned_of_nat take_bit_nat_eq_self)

lemma make_first:
  assumes "length hdr = 2" "length lh = 4" "unat n \<le> length data" "6 + unat n \<le> length seg"
  shows "CAMakeFirstDataSegment (Some seg) (Some data) n (Some hdr) (Some lh)
    = Some (CA_STATUS_OK, Some (hdr @ lh @ take (unat n) data @ drop (6 + unat n) seg))"
  using assms by (simp add: CAMakeFirstDataSegment_def ble_sizes copy_into_ok add.commute)

lemma segment_index:
  fixes mtu :: u16
  assumes "6 \<le> unat mtu" and "unat mtu - 6 + unat k * (unat mtu - 2) < 2 ^ 32"
  shows "unat ((ucast mtu - 2 - 4) + k * (ucast mtu - 2) :: u32) = unat mtu - 6 + unat k * (unat mtu - 2)"
proof -
  have "(ucast mtu :: u32) = of_nat (unat mtu)" by simp
  then have "(ucast mtu - 2 - 4) + k * (ucast mtu - 2) = (of_nat (unat mtu - 6) + of_nat (unat k) * of_nat (unat mtu - 2) :: u32)"
    using assms(1) by (simp add: of_nat_diff)
  also have "\<dots> = of_nat (unat mtu - 6 + unat k * (unat mtu - 2))" by (simp only: of_nat_add of_nat_mult)
  finally show ?thesis using unat_of_nat32 [OF assms(2)] by (simp only:)
qed

lemma make_remain:
  fixes mtu :: u16
    and k :: u32
  defines "i \<equiv> unat mtu - 6 + unat k * (unat mtu - 2)"
  assumes "length hdr = 2" "6 \<le> unat mtu" "i + unat n \<le> unat len" "unat len \<le> length data" "2 + unat n \<le> length seg"
  shows "CAMakeRemainDataSegment (Some seg) n (Some data) len k (Some hdr) mtu
    = Some (CA_STATUS_OK, Some (hdr @ take (unat n) (drop (i) data) @ drop (2 + unat n) seg))"
proof -
  let ?w = "(ucast mtu - 2 - 4) + k * (ucast mtu - 2) :: u32"
  have "unat len < 2 ^ 32" using unsigned_less [of len, where ?'a = nat] by simp
  with assms have b: "i < 2 ^ 32" "i + unat n < 2 ^ 32" by linarith+
  then have w: "unat ?w = i" using segment_index [OF assms(3), of k] by (simp add: i_def)
  have "unat (?w + n) = i + unat n" using b(2) w by (simp add: unat_word_ariths)
  then have "\<not> len < ?w + n" using assms(4) by (simp add: word_less_nat_alt)
  then show ?thesis using w assms by (simp add: CAMakeRemainDataSegment_def ble_sizes copy_into_ok)
qed

lemma word_div_mod_nat:
  assumes "a < 2 ^ 32" "b < 2 ^ 32"
  shows "of_nat a div of_nat b = (of_nat (a div b) :: u32)" "unat (of_nat a mod of_nat b :: u32) = a mod b"
proof -
  have u: "unat (of_nat a :: u32) = a" "unat (of_nat b :: u32) = b" using assms by (simp_all add: unat_of_nat32)
  have "a div b < 2 ^ 32" using assms(1) div_le_dividend le_less_trans by blast
  then show "of_nat a div of_nat b = (of_nat (a div b) :: u32)" by (simp add: word_unat_eq_iff unat_div u unat_of_nat32)
  show "unat (of_nat a mod of_nat b :: u32) = a mod b" by (simp add: unat_mod u)
qed

lemma fragmentation_variables:
  fixes mtu :: u16
  assumes "6 \<le> unat mtu" and "n < 2 ^ 32"
  defines "r \<equiv> n - (unat mtu - 6)" and "s \<equiv> unat mtu - 2"
  shows "CAGenerateVariableForFragmentation n mtu
     = Inr (of_nat (r div s), r mod s, n + 6 + 2 * (r div s + (if r mod s = 0 then 0 else 1)))"
proof -
  have m: "unat mtu < 2 ^ 16" using unsigned_less [of mtu, where ?'a = nat] by simp
  have s: "s < 2 ^ 32" "4 \<le> s" and r: "r < 2 ^ 32" using assms m by (simp_all add: s_def r_def)
  have "int (unat mtu) - 6 = int (unat mtu - 6)" using assms(1) by simp
  then have d: "nat ((int (unat mtu) - 6) mod 2 ^ 64) = unat mtu - 6"
    using m by (simp only: nat_mod_distrib flip: zmod_int) (simp add: nat_mod_as_int)
  have q: "r div s \<le> r div 4" using s by (simp add: div_le_mono2)
  have "r div s + 1 < 2 ^ 31" using q r by simp
  then have "unat (2 * (of_nat (r div s) + (if r mod s = 0 then 0 else 1)) :: u32) = 2 * (r div s + (if r mod s = 0 then 0 else 1))"
    using unat_of_nat32 [of "2 * (r div s + (if r mod s = 0 then 0 else 1))"] by (auto split: if_splits)
  moreover have "n + 6 + 2 * (r div s + (if r mod s = 0 then 0 else 1)) < 2 ^ 64"
    using assms(2) \<open>r div s + 1 < 2 ^ 31\<close> by (simp split: if_splits)
  moreover have "n < unat mtu - 6 \<Longrightarrow> r = 0" by (simp add: r_def)
  ultimately show ?thesis
    using assms(1) d by (cases "n < unat mtu - 6") (simp_all add: CAGenerateVariableForFragmentation_def ble_sizes Let_def word_div_mod_nat [OF r s(1)] r_def [symmetric] s_def [symmetric])
qed

section \<open>Cutting a message\<close>

function chunks :: "nat \<Rightarrow> 'a list \<Rightarrow> 'a list list" where
  "chunks k xs = (if xs = [] \<or> k = 0 then [] else take k xs # chunks k (drop k xs))"
  by pat_completeness auto
termination
  by (relation "measure (\<lambda>(k, xs). length xs)") auto

declare chunks.simps [simp del]

lemma chunks_simps [simp]: "chunks k [] = []" "0 < k \<Longrightarrow> xs \<noteq> [] \<Longrightarrow> chunks k xs = take k xs # chunks k (drop k xs)"
  by (simp_all add: chunks.simps)

lemma concat_chunks: "0 < k \<Longrightarrow> concat (chunks k xs) = xs"
proof (induction k xs rule: chunks.induct)
  case (1 k xs)
  then show ?case by (cases "xs = []") simp_all
qed

lemma chunks_nth:
  assumes "0 < k"
  shows "chunks k xs = map (\<lambda>i. take k (drop (i * k) xs)) [0..<length xs div k]
     @ (if length xs mod k = 0 then [] else [drop (length xs div k * k) xs])"
  using assms
proof (induction k xs rule: chunks.induct)
  case (1 k xs)
  show ?case
  proof (cases "k \<le> length xs")
    case True
    then have ne: "xs \<noteq> []" using 1(2) by auto
    have q: "length xs div k = Suc ((length xs - k) div k)" "length xs mod k = (length xs - k) mod k"
      using True 1(2) by (simp_all add: le_div_geq le_mod_geq)
    have "map (\<lambda>i. take k (drop (i * k) xs)) [0..<Suc ((length xs - k) div k)]
      = take k xs # map (\<lambda>i. take k (drop (i * k) (drop k xs))) [0..<(length xs - k) div k]"
      by (simp add: upt_conv_Cons map_Suc_upt [symmetric] add.commute del: upt_Suc)
    then show ?thesis using 1 ne unfolding q by (simp add: add.commute)
  next
    case False
    then show ?thesis by (cases "xs = []") (use 1(2) in simp_all)
  qed
qed

lemma chunks_parts: "c \<in> set (chunks k xs) \<Longrightarrow> c \<noteq> [] \<and> length c \<le> k"
proof (induction k xs rule: chunks.induct)
  case (1 k xs)
  then show ?case by (cases "xs = [] \<or> k = 0") (auto simp: chunks.simps [of k xs])
qed

end
