(* ===== verification/BleAdapter.thy ===== *)
theory BleAdapter
  imports CATypes Fragmentation UArraylist
begin

text \<open>
  The data path of the Bluetooth LE adapter, \<^verbatim>\<open>connectivity/src/bt_le_adapter/caleadapter.c\<close>, as it is
  built on Linux (threads, \<^verbatim>\<open>__WITH_DTLS__\<close>): the threads that cut a message into packets, and the
  handler that puts the packets of many senders together again. The transport below
  (\<open>CAUpdateCharacteristicsToGattClient\<close> and \<open>\<dots>ToGattServer\<close>) is the environment: it answers each
  packet with a result. The callbacks above are recorded as lists of what they are called with.
\<close>

section \<open>Messages\<close>

definition CA_DEFAULT_FLAGS :: u32 where "CA_DEFAULT_FLAGS = 0"
definition CA_ADAPTER_GATT_BTLE :: u32 where "CA_ADAPTER_GATT_BTLE = 2"
definition CA_SUPPORTED_BLE_MTU_SIZE :: nat where "CA_SUPPORTED_BLE_MTU_SIZE = 517"
definition MAX_ADDR_STR_SIZE_CA :: nat where "MAX_ADDR_STR_SIZE_CA = 66"

definition sizeof_CAEndpoint :: nat where "sizeof_CAEndpoint = 184"
definition sizeof_CALEData :: nat where "sizeof_CALEData = 32"
definition sizeof_CABLESenderInfo :: nat where "sizeof_CABLESenderInfo = 24"

text \<open>
  A message in one of the queues. \<open>ld_data\<close> is the whole allocated block; \<open>ld_senderInfo\<close> says whether
  the pointer to the list of senders is non-NULL.
\<close>

record CALEData =
  ld_remoteEndpoint :: "CAEndpoint option"
  ld_data :: "u8 list"
  ld_dataLen :: u32
  ld_senderInfo :: bool

definition CACloneEndpoint :: "mem \<Rightarrow> CAEndpoint option \<Rightarrow> CAEndpoint option \<times> mem" where
  "CACloneEndpoint m rep =
     (case rep of
        None \<Rightarrow> (None, m)
      | Some ep \<Rightarrow> (case OICMalloc m sizeof_CAEndpoint of (ok, m1) \<Rightarrow> (if ok then Some ep else None, m1)))"

text \<open>The block has one byte more than the data; the size is computed with 32 bits.\<close>

definition CACreateLEData ::
  "mem \<Rightarrow> CAEndpoint option \<Rightarrow> u8 list \<Rightarrow> u32 \<Rightarrow> bool \<Rightarrow> (CALEData option \<times> mem) option" where
  "CACreateLEData m remoteEndpoint data dataLength senderInfo =
     (case OICMalloc m sizeof_CALEData of
        (False, m1) \<Rightarrow> Some (None, m1)
      | (True, m1) \<Rightarrow>
          (case CACloneEndpoint m1 remoteEndpoint of
             (ep, m2) \<Rightarrow>
               (case OICCalloc m2 (unat (dataLength + 1)) 1 of
                  (False, m3) \<Rightarrow> Some (None, m3)
                | (True, m3) \<Rightarrow>
                    do {
                      block \<leftarrow> copy_into 0 (replicate (unat (dataLength + 1)) 0) (Some data) 0 (unat dataLength);
                      Some (Some \<lparr>ld_remoteEndpoint = ep, ld_data = block, ld_dataLen = dataLength,
                                  ld_senderInfo = senderInfo\<rparr>, m3)
                    })))"

section \<open>Sending\<close>

text \<open>The two calls of the transport that send a packet to one peer.\<close>

datatype gatt_call = CAUpdateCharacteristicsToGattClient | CAUpdateCharacteristicsToGattServer

text \<open>
  \<open>tx_results\<close> are the results of the next calls of the transport (an exhausted list means that the
  remaining ones succeed), \<open>tx_sent\<close> the packets it took, \<open>tx_errors\<close> the calls of \<open>g_errorHandler\<close>.
\<close>

record le_tx =
  tx_results :: "CAResult list"
  tx_sent :: "(gatt_call \<times> string \<times> u8 list) list"
  tx_errors :: "(CAEndpoint \<times> u8 list \<times> u32 \<times> CAResult) list"

definition gatt_send :: "gatt_call \<Rightarrow> string \<Rightarrow> u8 list option \<Rightarrow> nat \<Rightarrow> le_tx \<Rightarrow> (CAResult \<times> le_tx) option" where
  "gatt_send call addr segment len t =
     do {
       seg \<leftarrow> segment;
       packet \<leftarrow> buf_read 0 len seg;
       case tx_results t of
         [] \<Rightarrow> Some (CA_STATUS_OK, t\<lparr>tx_sent := tx_sent t @ [(call, addr, packet)]\<rparr>)
       | r # rs \<Rightarrow>
           Some (r, t\<lparr>tx_results := rs,
                      tx_sent := (if r = CA_STATUS_OK then tx_sent t @ [(call, addr, packet)] else tx_sent t)\<rparr>)
     }"

text \<open>\<open>if (CA_STATUS_OK != result) { ... return; }\<close>: a failure leaves the thread with the result.\<close>

definition on_ok ::
  "(CAResult \<times> 'a) option \<Rightarrow> ('a \<Rightarrow> le_tx) \<Rightarrow> ('a \<Rightarrow> ((CAResult \<times> le_tx) + 'b) option)
     \<Rightarrow> ((CAResult \<times> le_tx) + 'b) option" where
  "on_ok c st k =
     (case c of
        None \<Rightarrow> None
      | Some (r, x) \<Rightarrow> if r \<noteq> CA_STATUS_OK then Some (Inl (r, st x)) else k x)"

text \<open>
  The first packet: its headers, as much data as fits, and the header of the packets that follow. The
  port of the endpoint is passed as \<open>uint8_t\<close>.
\<close>

definition send_first ::
  "gatt_call \<Rightarrow> u16 \<Rightarrow> u8 \<Rightarrow> CALEData \<Rightarrow> CAEndpoint \<Rightarrow> le_tx
     \<Rightarrow> ((CAResult \<times> le_tx) + (u8 list option \<times> u8 list option \<times> u32 \<times> nat \<times> nat \<times> le_tx)) option" where
  "send_first call mtu localPort d ep t =
     (case CAGenerateVariableForFragmentation (unat (ld_dataLen d)) mtu of
        Inl r \<Rightarrow> Some (Inl (r, t))
      | Inr (midPacketCount, remainingLen, totalLength) \<Rightarrow>
          let secureFlag = (if ep_flags ep AND CA_SECURE \<noteq> 0 then CA_BLE_PACKET_SECURE else CA_BLE_PACKET_NON_SECURE);
              dataSegment = Some (replicate CA_SUPPORTED_BLE_MTU_SIZE 0);
              (len, dataLen) =
                (if unat mtu > totalLength then (of_nat totalLength :: u32, ld_dataLen d)
                 else (ucast mtu, ucast mtu - of_nat CA_BLE_HEADER_SIZE - of_nat CA_BLE_LENGTH_HEADER_SIZE))
          in on_ok (CAGenerateHeader (Some (replicate CA_BLE_HEADER_SIZE 0)) CA_BLE_PACKET_START localPort secureFlag
                      (ucast (ep_port ep))) (\<lambda>_. t) (\<lambda>dataHeader.
             on_ok (CAGenerateHeaderPayloadLength (Some (replicate CA_BLE_LENGTH_HEADER_SIZE 0))
                      CA_BLE_LENGTH_HEADER_SIZE (unat (ld_dataLen d))) (\<lambda>_. t) (\<lambda>lengthHeader.
             on_ok (CAMakeFirstDataSegment dataSegment (Some (ld_data d)) dataLen dataHeader lengthHeader)
                      (\<lambda>_. t) (\<lambda>dataSegment.
             on_ok (gatt_send call (ep_addr ep) dataSegment (unat len) t) (\<lambda>t1. t1) (\<lambda>t1.
             on_ok (CAGenerateHeader dataHeader CA_BLE_PACKET_NOT_START localPort secureFlag (ucast (ep_port ep)))
                      (\<lambda>_. t1) (\<lambda>dataHeader.
             Some (Inr (dataHeader, dataSegment, midPacketCount, remainingLen, totalLength, t1))))))))"

lemma word_next:
  assumes "i < (n :: u32)"
  shows "unat (i + 1) = Suc (unat i)"
proof -
  have "Suc (unat i) < 2 ^ 32" using assms unsigned_less [of n, where ?'a = nat] by (simp add: word_less_nat_alt)
  then show ?thesis by (simp add: unat_word_ariths)
qed

text \<open>The packets of full size: \<open>for (index = 0; index < iter; index++)\<close>.\<close>

function send_mid ::
  "gatt_call \<Rightarrow> u16 \<Rightarrow> CALEData \<Rightarrow> CAEndpoint \<Rightarrow> u8 list option \<Rightarrow> u32 \<Rightarrow> u32 \<Rightarrow> u8 list option \<Rightarrow> le_tx
     \<Rightarrow> ((CAResult \<times> le_tx) + (u8 list option \<times> le_tx)) option" where
  "send_mid call mtu d ep dataHeader index iter dataSegment t =
     (if index < iter then
        (case CAMakeRemainDataSegment dataSegment (ucast mtu - of_nat CA_BLE_HEADER_SIZE) (Some (ld_data d))
                (ld_dataLen d) index dataHeader mtu of
           None \<Rightarrow> None
         | Some (r, segment) \<Rightarrow>
             if r \<noteq> CA_STATUS_OK then Some (Inl (r, t))
             else
               (case gatt_send call (ep_addr ep) segment (unat mtu) t of
                  None \<Rightarrow> None
                | Some (r, t1) \<Rightarrow>
                    if r \<noteq> CA_STATUS_OK then Some (Inl (r, t1))
                    else send_mid call mtu d ep dataHeader (index + 1) iter segment t1))
      else Some (Inr (dataSegment, t)))"
  by pat_completeness auto
termination
  by (relation "measure (\<lambda>(call, mtu, d, ep, h, index, iter, seg, t). unat iter - unat index)")
    (auto simp: word_next word_less_nat_alt diff_less_mono2)

declare send_mid.simps [simp del]

text \<open>The last packet, with what remains.\<close>

definition send_last ::
  "gatt_call \<Rightarrow> u16 \<Rightarrow> CALEData \<Rightarrow> CAEndpoint \<Rightarrow> u8 list option \<Rightarrow> u32 \<Rightarrow> u8 list option \<Rightarrow> nat \<Rightarrow> nat \<Rightarrow> le_tx
     \<Rightarrow> ((CAResult \<times> le_tx) + le_tx) option" where
  "send_last call mtu d ep dataHeader index dataSegment remainingLen totalLength t =
     (if remainingLen \<noteq> 0 \<and> totalLength > unat mtu then
        on_ok (CAMakeRemainDataSegment dataSegment (of_nat remainingLen) (Some (ld_data d)) (ld_dataLen d) index
                 dataHeader mtu) (\<lambda>_. t) (\<lambda>segment.
        on_ok (gatt_send call (ep_addr ep) segment (remainingLen + CA_BLE_HEADER_SIZE) t) (\<lambda>t1. t1) (\<lambda>t1. Some (Inr t1)))
      else Some (Inr t))"

definition send_packets :: "gatt_call \<Rightarrow> u16 \<Rightarrow> u8 \<Rightarrow> CALEData \<Rightarrow> CAEndpoint \<Rightarrow> le_tx \<Rightarrow> ((CAResult \<times> le_tx) + le_tx) option" where
  "send_packets call mtu localPort d ep t =
     (case send_first call mtu localPort d ep t of
        None \<Rightarrow> None
      | Some (Inl e) \<Rightarrow> Some (Inl e)
      | Some (Inr (dataHeader, dataSegment, midPacketCount, remainingLen, totalLength, t1)) \<Rightarrow>
          (case send_mid call mtu d ep dataHeader 0 midPacketCount dataSegment t1 of
             None \<Rightarrow> None
           | Some (Inl e) \<Rightarrow> Some (Inl e)
           | Some (Inr (dataSegment, t2)) \<Rightarrow>
               send_last call mtu d ep dataHeader midPacketCount dataSegment remainingLen totalLength t2))"

text \<open>
  The two threads differ in the call of the transport only. Without an endpoint they return at once,
  so that the branch for multicast is never taken.
\<close>

definition send_thread :: "gatt_call \<Rightarrow> u16 \<Rightarrow> u8 \<Rightarrow> bool \<Rightarrow> CALEData option \<Rightarrow> le_tx \<Rightarrow> le_tx option" where
  "send_thread call mtu localPort g_errorHandler threadData t =
     (case threadData of
        None \<Rightarrow> Some t
      | Some d \<Rightarrow>
          (case ld_remoteEndpoint d of
             None \<Rightarrow> Some t
           | Some ep \<Rightarrow>
               (case send_packets call mtu localPort d ep t of
                  None \<Rightarrow> None
                | Some (Inr t1) \<Rightarrow> Some t1
                | Some (Inl (r, t1)) \<Rightarrow>
                    Some (if g_errorHandler then t1\<lparr>tx_errors := tx_errors t1 @ [(ep, ld_data d, ld_dataLen d, r)]\<rparr> else t1))))"

definition CALEServerSendDataThread :: "u16 \<Rightarrow> u8 \<Rightarrow> bool \<Rightarrow> CALEData option \<Rightarrow> le_tx \<Rightarrow> le_tx option" where
  "CALEServerSendDataThread = send_thread CAUpdateCharacteristicsToGattClient"

definition CALEClientSendDataThread :: "u16 \<Rightarrow> u8 \<Rightarrow> bool \<Rightarrow> CALEData option \<Rightarrow> le_tx \<Rightarrow> le_tx option" where
  "CALEClientSendDataThread = send_thread CAUpdateCharacteristicsToGattServer"

section \<open>Receiving\<close>

text \<open>
  What the handler keeps of a sender whose message is not complete. The lists of senders hold pointers
  to these objects; objects, buffers and endpoints live in stores of their own, and the use of a freed
  one is undefined. One state is the state of one role: the server and the client have separate lists.
\<close>

datatype CADataType = CA_REQUEST_DATA | CA_RESPONSE_DATA | CA_ERROR_DATA | CA_RESPONSE_FOR_RES
datatype CABLEAdapter = ADAPTER_EMPTY | ADAPTER_BOTH_CLIENT_SERVER | ADAPTER_CLIENT | ADAPTER_SERVER

record CABLESenderInfo =
  si_recvDataLen :: u32
  si_totalDataLen :: u32
  si_defragData :: "nat option"
  si_remoteEndpoint :: "nat option"

text \<open>
  \<open>ble_up\<close> are the calls of \<open>g_networkPacketReceivedCallback\<close>, \<open>ble_ssl\<close> those of \<open>CAdecryptSsl\<close>, whose
  result is only logged.
\<close>

record ble =
  ble_list :: "nat u_arraylist option"
  ble_senders :: "nat \<Rightarrow> CABLESenderInfo option"
  ble_bufs :: "nat \<Rightarrow> u8 list option"
  ble_eps :: "nat \<Rightarrow> CAEndpoint option"
  ble_fresh :: nat
  ble_mem :: mem
  ble_up :: "(CAEndpoint \<times> u8 list) list"
  ble_ssl :: "(CAEndpoint \<times> u8 list) list"
  ble_dataType :: CADataType

text \<open>The configuration: the port of this application, the stop condition, whether a callback is set.\<close>

record le_config =
  g_localBLESourcePort :: u8
  g_dataBleReceiverHandlerState :: bool
  g_networkPacketReceivedCallback :: bool

definition free_sender :: "nat \<Rightarrow> ble \<Rightarrow> ble option" where
  "free_sender p st = (if ble_senders st p = None then None else Some (st\<lparr>ble_senders := (ble_senders st)(p := None)\<rparr>))"

definition free_buf :: "nat option \<Rightarrow> ble \<Rightarrow> ble option" where
  "free_buf b st =
     (case b of
        None \<Rightarrow> Some st
      | Some a \<Rightarrow> if ble_bufs st a = None then None else Some (st\<lparr>ble_bufs := (ble_bufs st)(a := None)\<rparr>))"

definition CAFreeEndpoint :: "nat option \<Rightarrow> ble \<Rightarrow> ble option" where
  "CAFreeEndpoint e st =
     (case e of
        None \<Rightarrow> Some st
      | Some a \<Rightarrow> if ble_eps st a = None then None else Some (st\<lparr>ble_eps := (ble_eps st)(a := None)\<rparr>))"

text \<open>The outcome of an allocation and the address of the new object, which was never used before.\<close>

definition le_alloc :: "(mem \<Rightarrow> bool \<times> mem) \<Rightarrow> ble \<Rightarrow> nat option \<times> ble" where
  "le_alloc f st =
     (case f (ble_mem st) of
        (ok, m) \<Rightarrow> (if ok then Some (ble_fresh st) else None, st\<lparr>ble_mem := m, ble_fresh := Suc (ble_fresh st)\<rparr>))"

definition CACreateEndpointObject :: "u32 \<Rightarrow> u32 \<Rightarrow> string option \<Rightarrow> u16 \<Rightarrow> ble \<Rightarrow> nat option \<times> ble" where
  "CACreateEndpointObject flags adapter address port st =
     (case le_alloc (\<lambda>m. OICCalloc m 1 sizeof_CAEndpoint) st of
        (None, st1) \<Rightarrow> (None, st1)
      | (Some e, st1) \<Rightarrow>
          (Some e, st1\<lparr>ble_eps := (ble_eps st1)(e \<mapsto>
             \<lparr>ep_adapter = adapter, ep_flags = flags, ep_port = port,
              ep_addr = (case address of None \<Rightarrow> [] | Some a \<Rightarrow> take (MAX_ADDR_STR_SIZE_CA - 1) a),
              ep_ifindex = 0, ep_remoteId = [], ep_routeData = replicate MAX_ADDR_STR_SIZE_CA 0\<rparr>)\<rparr>))"

text \<open>
  The search for a sender. \<open>strncmp\<close> compares as many characters as the address looked for has. On
  success the index and the pointer are written through \<open>senderIndex\<close> and \<open>senderInfo\<close>.
\<close>

definition sender_slot :: "string \<Rightarrow> u16 \<Rightarrow> ble \<Rightarrow> nat \<Rightarrow> nat option \<Rightarrow> unit \<Rightarrow> ((nat \<times> nat) + unit) option" where
  "sender_slot addr port st i slot u =
     (case slot of
        None \<Rightarrow> Some (Inr ())
      | Some p \<Rightarrow>
          do {
            info \<leftarrow> ble_senders st p;
            case si_remoteEndpoint info of
              None \<Rightarrow> Some (Inr ())
            | Some e \<Rightarrow>
                do {
                  ep \<leftarrow> ble_eps st e;
                  if take (length addr) (ep_addr ep) = addr \<and> ep_port ep = port then Some (Inl (i, p)) else Some (Inr ())
                }
          })"

definition CALEGetSenderInfo :: "string option \<Rightarrow> u16 \<Rightarrow> ble \<Rightarrow> (CAResult + (nat \<times> nat)) option" where
  "CALEGetSenderInfo leAddress port st =
     (case leAddress of
        None \<Rightarrow> Some (Inl CA_STATUS_INVALID_PARAM)
      | Some addr \<Rightarrow>
          (case for_slots (ble_list st) (sender_slot addr port st) 0 () of
             None \<Rightarrow> None
           | Some (Inl hit) \<Rightarrow> Some (Inr hit)
           | Some (Inr _) \<Rightarrow> Some (Inl CA_STATUS_FAILED)))"

definition list_remove :: "nat \<Rightarrow> ble \<Rightarrow> ble" where
  "list_remove i st = st\<lparr>ble_list := snd (u_arraylist_remove (ble_list st) i)\<rparr>"

definition list_append :: "nat \<Rightarrow> ble \<Rightarrow> ble" where
  "list_append p st =
     (case u_arraylist_add (ble_mem st) (ble_list st) (Some p) of (_, l, m) \<Rightarrow> st\<lparr>ble_list := l, ble_mem := m\<rparr>)"

text \<open>
  \<open>memcpy(defragData + recvDataLen, data + off, n); recvDataLen += n;\<close>
\<close>

definition take_payload :: "nat \<Rightarrow> u8 list \<Rightarrow> nat \<Rightarrow> nat \<Rightarrow> ble \<Rightarrow> ble option" where
  "take_payload p data off n st =
     do {
       info \<leftarrow> ble_senders st p;
       b \<leftarrow> si_defragData info;
       buf \<leftarrow> ble_bufs st b;
       buf \<leftarrow> copy_into (unat (si_recvDataLen info)) buf (Some data) off n;
       Some (st\<lparr>ble_bufs := (ble_bufs st)(b \<mapsto> buf),
                ble_senders := (ble_senders st)(p \<mapsto> info\<lparr>si_recvDataLen := si_recvDataLen info + of_nat n\<rparr>)\<rparr>)
     }"

text \<open>
  A start packet: a new sender is set up and its first bytes are stored. The result is the index and
  the pointer of the sender, or nothing when the handler returns. \<open>dataOnlyLen\<close> is computed with 32
  bits and wraps around for a packet shorter than its headers.
\<close>

definition new_sender ::
  "u8 list \<Rightarrow> u32 \<Rightarrow> CABLEPacketSecure \<Rightarrow> string \<Rightarrow> u16 \<Rightarrow> u32 \<Rightarrow> ble \<Rightarrow> ((nat \<times> nat) option \<times> ble) option" where
  "new_sender data dataLen secureFlag addr port totalLength st =
     (case le_alloc (\<lambda>m. OICMalloc m sizeof_CABLESenderInfo) st of
        (None, st1) \<Rightarrow> Some (None, st1)
      | (Some p, st1) \<Rightarrow>
          if totalLength = 0 then Some (None, st1)
          else
            (let dataOnlyLen = unat (dataLen - of_nat (CA_BLE_HEADER_SIZE + CA_BLE_LENGTH_HEADER_SIZE)) in
             case le_alloc (\<lambda>m. OICCalloc m (unat (totalLength + 1)) 1) st1 of
               (None, st2) \<Rightarrow> Some (None, st2)
             | (Some b, st2) \<Rightarrow>
                 (let st3 = st2\<lparr>ble_bufs := (ble_bufs st2)(b \<mapsto> replicate (unat (totalLength + 1)) 0)\<rparr>;
                      flags = (if secureFlag = CA_BLE_PACKET_SECURE then CA_DEFAULT_FLAGS OR CA_SECURE else CA_DEFAULT_FLAGS)
                  in case CACreateEndpointObject flags CA_ADAPTER_GATT_BTLE (Some addr) port st3 of
                       (None, st4) \<Rightarrow> do { st5 \<leftarrow> free_buf (Some b) st4; Some (None, st5) }
                     | (Some e, st4) \<Rightarrow>
                         if dataOnlyLen > unat totalLength then
                           do { st5 \<leftarrow> free_buf (Some b) st4; st6 \<leftarrow> CAFreeEndpoint (Some e) st5; Some (None, st6) }
                         else
                           do {
                             let info = \<lparr>si_recvDataLen = 0, si_totalDataLen = totalLength, si_defragData = Some b,
                                         si_remoteEndpoint = Some e\<rparr>;
                             let st5 = st4\<lparr>ble_senders := (ble_senders st4)(p \<mapsto> info)\<rparr>;
                             st6 \<leftarrow> take_payload p data (CA_BLE_HEADER_SIZE + CA_BLE_LENGTH_HEADER_SIZE) dataOnlyLen st5;
                             let st7 = list_append p st6;
                             ep \<leftarrow> ble_eps st7 e;
                             found \<leftarrow> CALEGetSenderInfo (Some (ep_addr ep)) (ep_port ep) st7;
                             case found of
                               Inr (i, _) \<Rightarrow> Some (Some (i, p), st7)
                             | Inl _ \<Rightarrow>
                                 do {
                                   st8 \<leftarrow> free_buf (Some b) st7;
                                   st9 \<leftarrow> CAFreeEndpoint (Some e) st8;
                                   st10 \<leftarrow> free_sender p st9;
                                   Some (None, st10)
                                 }
                           })))"

text \<open>A packet that continues the message of a known sender.\<close>

definition more_data :: "u8 list \<Rightarrow> u32 \<Rightarrow> nat \<Rightarrow> nat \<Rightarrow> ble \<Rightarrow> ((nat \<times> nat) option \<times> ble) option" where
  "more_data data dataLen i p st =
     do {
       info \<leftarrow> ble_senders st p;
       let dataOnlyLen = unat (dataLen - of_nat CA_BLE_HEADER_SIZE);
       if unat (si_recvDataLen info) + dataOnlyLen > unat (si_totalDataLen info) then
         do {
           st2 \<leftarrow> free_buf (si_defragData info) (list_remove i st);
           st3 \<leftarrow> free_sender p st2;
           Some (None, st3)
         }
       else do { st1 \<leftarrow> take_payload p data CA_BLE_HEADER_SIZE dataOnlyLen st; Some (Some (i, p), st1) }
     }"

text \<open>A complete message goes up, to the callback or to the DTLS adapter, and the sender is forgotten.\<close>

definition deliver :: "le_config \<Rightarrow> CADataType \<Rightarrow> nat \<Rightarrow> nat \<Rightarrow> ble \<Rightarrow> ble option" where
  "deliver cfg dataType i p st =
     do {
       info \<leftarrow> ble_senders st p;
       if si_totalDataLen info \<noteq> si_recvDataLen info then Some st
       else if \<not> g_networkPacketReceivedCallback cfg then
         do { st2 \<leftarrow> free_buf (si_defragData info) (list_remove i st); free_sender p st2 }
       else
         do {
           e \<leftarrow> si_remoteEndpoint info;
           tmp \<leftarrow> ble_eps st e;
           b \<leftarrow> si_defragData info;
           buf \<leftarrow> ble_bufs st b;
           msg \<leftarrow> buf_read 0 (unat (si_recvDataLen info)) buf;
           st1 \<leftarrow> (if CA_SECURE AND ep_flags tmp \<noteq> 0
                   then free_buf (Some b) (st\<lparr>ble_dataType := dataType, ble_ssl := ble_ssl st @ [(tmp, msg)]\<rparr>)
                   else Some (st\<lparr>ble_up := ble_up st @ [(tmp, msg)]\<rparr>));
           free_sender p (list_remove i st1)
         }
     }"

definition CALEDataReceiverHandler :: "le_config \<Rightarrow> CABLEAdapter \<Rightarrow> CALEData option \<Rightarrow> ble \<Rightarrow> ble option" where
  "CALEDataReceiverHandler cfg receiverType threadData st =
     (if receiverType \<noteq> ADAPTER_CLIENT \<and> receiverType \<noteq> ADAPTER_SERVER then Some st
      else if \<not> g_dataBleReceiverHandlerState cfg then Some st
      else
        let dataType = (if receiverType = ADAPTER_CLIENT then CA_REQUEST_DATA else CA_RESPONSE_DATA) in
        case threadData of
          None \<Rightarrow> Some st
        | Some d \<Rightarrow>
            if \<not> ld_senderInfo d then Some st
            else
              (case ld_remoteEndpoint d of
                 None \<Rightarrow> Some st
               | Some remote \<Rightarrow>
                   do {
                     parsed \<leftarrow> CAParseHeader (Some (ld_data d));
                     (case parsed of
                        Inl _ \<Rightarrow> Some st
                      | Inr (startFlag, sourcePort, secureFlag, destPort) \<Rightarrow>
                          if destPort \<noteq> ucast (g_localBLESourcePort cfg) \<and> destPort \<noteq> CA_BLE_MULTICAST_PORT then Some st
                          else
                            do {
                              found \<leftarrow> CALEGetSenderInfo (Some (ep_addr remote)) sourcePort st;
                              (known, st1) \<leftarrow>
                                (case found of
                                   Inl _ \<Rightarrow> Some (None, st)
                                 | Inr (i, p) \<Rightarrow>
                                     if startFlag = CA_BLE_PACKET_START then
                                       do {
                                         let st1 = list_remove i st;
                                         info \<leftarrow> ble_senders st1 p;
                                         st2 \<leftarrow> free_buf (si_defragData info) st1;
                                         st3 \<leftarrow> free_sender p st2;
                                         Some (None, st3)
                                       }
                                     else Some (Some (i, p), st));
                              (next, st2) \<leftarrow>
                                (case known of
                                   None \<Rightarrow>
                                     if startFlag = CA_BLE_PACKET_START then
                                       do {
                                         (_, totalLength) \<leftarrow>
                                           CAParseHeaderPayloadLength (Some (ld_data d)) CA_BLE_LENGTH_HEADER_SIZE 0;
                                         new_sender (ld_data d) (ld_dataLen d) secureFlag (ep_addr remote) sourcePort totalLength st1
                                       }
                                     else Some (None, st1)
                                 | Some (i, p) \<Rightarrow> more_data (ld_data d) (ld_dataLen d) i p st1);
                              (case next of None \<Rightarrow> Some st2 | Some (i, p) \<Rightarrow> deliver cfg dataType i p st2)
                            })
                   }))"

definition CALEServerDataReceiverHandler :: "le_config \<Rightarrow> CALEData option \<Rightarrow> ble \<Rightarrow> ble option" where
  "CALEServerDataReceiverHandler cfg threadData st = CALEDataReceiverHandler cfg ADAPTER_SERVER threadData st"

definition CALEClientDataReceiverHandler :: "le_config \<Rightarrow> CALEData option \<Rightarrow> ble \<Rightarrow> ble option" where
  "CALEClientDataReceiverHandler cfg threadData st = CALEDataReceiverHandler cfg ADAPTER_CLIENT threadData st"

section \<open>Disconnection and shutdown\<close>

text \<open>The ports of all senders with an address; the array holds pointers to copies of the numbers.\<close>

definition port_slot ::
  "string \<Rightarrow> ble \<Rightarrow> nat \<Rightarrow> nat option \<Rightarrow> u16 u_arraylist option \<times> mem \<Rightarrow> ((u16 u_arraylist option \<times> mem) + (u16 u_arraylist option \<times> mem)) option" where
  "port_slot addr st i slot acc =
     (case (slot, acc) of
        (None, _) \<Rightarrow> Some (Inr acc)
      | (Some p, (ports, m)) \<Rightarrow>
          do {
            info \<leftarrow> ble_senders st p;
            case si_remoteEndpoint info of
              None \<Rightarrow> Some (Inr acc)
            | Some e \<Rightarrow>
                do {
                  ep \<leftarrow> ble_eps st e;
                  if take (length addr) (ep_addr ep) = addr then
                    (case OICMalloc m 2 of
                       (False, m1) \<Rightarrow> Some (Inl (ports, m1))
                     | (True, m1) \<Rightarrow> (case u_arraylist_add m1 ports (Some (ep_port ep)) of (_, ports1, m2) \<Rightarrow> Some (Inr (ports1, m2))))
                  else Some (Inr acc)
                }
          })"

definition CALEGetPortsFromSenderInfo ::
  "string option \<Rightarrow> ble \<Rightarrow> u16 u_arraylist option \<Rightarrow> (CAResult \<times> u16 u_arraylist option \<times> ble) option" where
  "CALEGetPortsFromSenderInfo leAddress st portList =
     (case leAddress of
        None \<Rightarrow> Some (CA_STATUS_INVALID_PARAM, portList, st)
      | Some addr \<Rightarrow>
          (case for_slots (ble_list st) (port_slot addr st) 0 (portList, ble_mem st) of
             None \<Rightarrow> None
           | Some (Inl (ports, m)) \<Rightarrow> Some (CA_MEMORY_ALLOC_FAILED, ports, st\<lparr>ble_mem := m\<rparr>)
           | Some (Inr (ports, m)) \<Rightarrow>
               Some (if u_arraylist_length ports \<noteq> 0 then CA_STATUS_OK else CA_STATUS_FAILED, ports, st\<lparr>ble_mem := m\<rparr>)))"

definition drop_port :: "string \<Rightarrow> nat \<Rightarrow> u16 option \<Rightarrow> ble \<Rightarrow> (ble + ble) option" where
  "drop_port addr i port st =
     (case port of
        None \<Rightarrow> Some (Inl st)
      | Some prt \<Rightarrow>
          do {
            found \<leftarrow> CALEGetSenderInfo (Some addr) prt st;
            case found of
              Inl _ \<Rightarrow> Some (Inr st)
            | Inr (k, p) \<Rightarrow>
                do {
                  let st1 = list_remove k st;
                  info \<leftarrow> ble_senders st1 p;
                  st2 \<leftarrow> free_buf (si_defragData info) st1;
                  st3 \<leftarrow> CAFreeEndpoint (si_remoteEndpoint info) st2;
                  st4 \<leftarrow> free_sender p st3;
                  Some (Inr st4)
                }
          })"

definition CALERemoveReceiveQueueData :: "string option \<Rightarrow> ble \<Rightarrow> ble option" where
  "CALERemoveReceiveQueueData address st =
     (if ble_list st = None then Some st
      else
        case address of
          None \<Rightarrow> Some st
        | Some addr \<Rightarrow>
            (case u_arraylist_create (ble_mem st) of
               (portList, m) \<Rightarrow>
                 do {
                   (r, portList, st1) \<leftarrow> CALEGetPortsFromSenderInfo (Some addr) (st\<lparr>ble_mem := m\<rparr>) portList;
                   if r = CA_STATUS_OK then
                     do {
                       out \<leftarrow> for_slots portList (drop_port addr) 0 st1;
                       Some (case out of Inl st2 \<Rightarrow> st2 | Inr st2 \<Rightarrow> st2)
                     }
                   else Some st1
                 }))"

definition clear_slot :: "nat \<Rightarrow> nat option \<Rightarrow> ble \<Rightarrow> (ble + ble) option" where
  "clear_slot i slot st =
     (case slot of
        None \<Rightarrow> Some (Inr st)
      | Some p \<Rightarrow>
          do {
            info \<leftarrow> ble_senders st p;
            st1 \<leftarrow> free_buf (si_defragData info) st;
            st2 \<leftarrow> CAFreeEndpoint (si_remoteEndpoint info) st1;
            st3 \<leftarrow> free_sender p st2;
            Some (Inr st3)
          })"

definition CALEClearSenderInfoImpl :: "ble \<Rightarrow> ble option" where
  "CALEClearSenderInfoImpl st =
     do {
       out \<leftarrow> for_slots (ble_list st) clear_slot 0 st;
       let st1 = (case out of Inl s \<Rightarrow> s | Inr s \<Rightarrow> s);
       l \<leftarrow> u_arraylist_free (Some (ble_list st1));
       Some (st1\<lparr>ble_list := l\<rparr>)
     }"

end
