(* ===== verification/BleTransfer.thy ===== *)
theory BleTransfer
  imports BleAdapter
begin

text \<open>
  Correctness of the data path of the Bluetooth LE adapter: what the sending threads put on the air,
  and how the receiving handler puts it together again.
\<close>

section \<open>The packets of a message\<close>

text \<open>
  A message is cut into a start packet, which carries its length and the first \<open>mtu - 6\<close> bytes, and
  packets with at most \<open>mtu - 2\<close> bytes each.
\<close>

definition fragments :: "nat \<Rightarrow> u8 \<Rightarrow> CABLEPacketSecure \<Rightarrow> u8 \<Rightarrow> u8 list \<Rightarrow> u8 list list" where
  "fragments m sp sec dp msg =
     (ble_header CA_BLE_PACKET_START sp sec dp @ len_bytes (length msg) @ take (m - 6) msg)
     # map (\<lambda>c. ble_header CA_BLE_PACKET_NOT_START sp sec dp @ c) (chunks (m - 2) (drop (m - 6) msg))"

text \<open>The transport takes packets in order until it refuses one.\<close>

fun transmit :: "gatt_call \<Rightarrow> string \<Rightarrow> u8 list list \<Rightarrow> le_tx \<Rightarrow> (CAResult \<times> le_tx) + le_tx" where
  "transmit call addr [] t = Inr t"
| "transmit call addr (p # ps) t =
     (case tx_results t of
        [] \<Rightarrow> transmit call addr ps (t\<lparr>tx_sent := tx_sent t @ [(call, addr, p)]\<rparr>)
      | r # rs \<Rightarrow>
          if r = CA_STATUS_OK then transmit call addr ps (t\<lparr>tx_results := rs, tx_sent := tx_sent t @ [(call, addr, p)]\<rparr>)
          else Inl (r, t\<lparr>tx_results := rs\<rparr>))"

lemma transmit_append:
  "transmit call addr (ps @ qs) t = (case transmit call addr ps t of Inl e \<Rightarrow> Inl e | Inr t1 \<Rightarrow> transmit call addr qs t1)"
  by (induction ps arbitrary: t) (auto split: list.splits)

lemma transmit_free:
  "tx_results t = [] \<Longrightarrow> transmit call addr ps t = Inr (t\<lparr>tx_sent := tx_sent t @ map (\<lambda>p. (call, addr, p)) ps\<rparr>)"
  by (induction ps arbitrary: t) simp_all

lemma gatt_send_eq:
  assumes "take n seg = p" and "n \<le> length seg"
  shows "gatt_send call addr (Some seg) n t =
    Some (case transmit call addr [p] t of Inl (r, t1) \<Rightarrow> (r, t1) | Inr t1 \<Rightarrow> (CA_STATUS_OK, t1))"
  using assms by (auto simp: gatt_send_def buf_read_def split: list.splits)

lemma transmit_refused: "transmit call addr ps t = Inl (r, t1) \<Longrightarrow> r \<noteq> CA_STATUS_OK"
  by (induction ps arbitrary: t) (auto split: list.splits if_splits)

text \<open>A call of the transport inside a thread.\<close>

lemma on_ok_send:
  assumes "take n seg = p" and "n \<le> length seg"
  shows "on_ok (gatt_send call addr (Some seg) n t) (\<lambda>t1. t1) k =
    (case transmit call addr [p] t of Inl e \<Rightarrow> Some (Inl e) | Inr t1 \<Rightarrow> k t1)"
proof (cases "transmit call addr [p] t")
  case (Inl e)
  then obtain r t1 where e: "e = (r, t1)" by fastforce
  with Inl have "r \<noteq> CA_STATUS_OK" using transmit_refused by blast
  with Inl e show ?thesis by (simp add: gatt_send_eq [OF assms] on_ok_def del: transmit.simps)
next
  case (Inr t1)
  then show ?thesis by (simp add: gatt_send_eq [OF assms] on_ok_def del: transmit.simps)
qed

section \<open>What the threads send\<close>

text \<open>The message of a queue entry, its secure flag, and when the adapter can send it.\<close>

definition le_message :: "CALEData \<Rightarrow> u8 list" where
  "le_message d = take (unat (ld_dataLen d)) (ld_data d)"

definition secure_flag :: "CAEndpoint \<Rightarrow> CABLEPacketSecure" where
  "secure_flag ep = (if ep_flags ep AND CA_SECURE \<noteq> 0 then CA_BLE_PACKET_SECURE else CA_BLE_PACKET_NON_SECURE)"

definition sendable :: "u16 \<Rightarrow> u8 \<Rightarrow> CALEData \<Rightarrow> CAEndpoint \<Rightarrow> bool" where
  "sendable mtu localPort d ep \<longleftrightarrow> 6 \<le> unat mtu \<and> unat mtu \<le> CA_SUPPORTED_BLE_MTU_SIZE
     \<and> valid_ports localPort (ucast (ep_port ep)) \<and> unat (ld_dataLen d) \<le> length (ld_data d)"

lemma sendableD:
  assumes "sendable mtu localPort d ep"
  shows "6 \<le> unat mtu" "unat mtu \<le> 517" "valid_ports localPort (ucast (ep_port ep))"
    "unat (ld_dataLen d) \<le> length (ld_data d)" "length (le_message d) = unat (ld_dataLen d)"
  using assms by (auto simp: sendable_def le_message_def CA_SUPPORTED_BLE_MTU_SIZE_def)

lemma on_ok_OK [simp]: "on_ok (Some (CA_STATUS_OK, x)) f k = k x"
  by (simp add: on_ok_def)

lemma if_pair: "(if c then (a, b) else (x, y)) = (if c then a else x, if c then b else y)"
  by simp

text \<open>The first packet, and what it leaves for the others.\<close>

lemma send_first_eq:
  fixes mtu localPort d ep
  defines "n \<equiv> unat (ld_dataLen d)" and "hdr ty \<equiv> ble_header ty localPort (secure_flag ep) (ucast (ep_port ep))"
  defines "r \<equiv> n - (unat mtu - 6)" and "s \<equiv> unat mtu - 2"
  assumes s: "sendable mtu localPort d ep"
  shows "\<exists>seg. length seg = 517 \<and>
    send_first call mtu localPort d ep t =
      Some (case transmit call (ep_addr ep) [hdr CA_BLE_PACKET_START @ len_bytes n @ take (unat mtu - 6) (le_message d)] t of
              Inl e \<Rightarrow> Inl e
            | Inr t1 \<Rightarrow> Inr (Some (hdr CA_BLE_PACKET_NOT_START), Some seg, of_nat (r div s), r mod s,
                            n + 6 + 2 * (r div s + (if r mod s = 0 then 0 else 1)), t1))"
proof -
  note b = sendableD [OF s]
  obtain len0 where len0: "n + 6 + 2 * (r div s + (if r mod s = 0 then 0 else 1)) = len0" by blast
  let ?k = "min n (unat mtu - 6)"
  have n: "n < 2 ^ 32" using unsigned_less [of "ld_dataLen d", where ?'a = nat] by (simp add: n_def)
  have vars: "CAGenerateVariableForFragmentation n mtu = Inr (of_nat (r div s), r mod s, len0)"
    unfolding len0 [symmetric] r_def s_def by (rule fragmentation_variables [OF b(1) n])
  let ?len = "if unat mtu > len0 then of_nat len0 else (ucast mtu :: u32)"
  let ?dl = "if unat mtu > len0 then ld_dataLen d else (ucast mtu - 6 :: u32)"
  have small: "unat mtu > len0 \<longleftrightarrow> n < unat mtu - 6"
  proof (cases "n < unat mtu - 6")
    case True
    then have "r = 0" by (simp add: r_def)
    with True show ?thesis unfolding len0 [symmetric] by simp
  next
    case False
    then show ?thesis unfolding len0 [symmetric] by simp
  qed
  have m6: "unat (ucast mtu - 6 :: u32) = unat mtu - 6" 
  proof -
    have "unat mtu - 6 + unat (0 :: u32) * (unat mtu - 2) < 2 ^ 32" using b(2) by simp
    from segment_index [OF b(1) this] show ?thesis by simp
  qed
  have dl: "unat ?dl = ?k" unfolding small by (simp add: m6 n_def)
  have len: "unat ?len = 6 + ?k"
  proof (cases "n < unat mtu - 6")
    case True
    then have "r = 0" by (simp add: r_def)
    then show ?thesis using True unfolding small unfolding len0 [symmetric] using unat_of_nat32 [of "n + 6"] n b(2) by simp
  next
    case False
    then show ?thesis using b(1,2) unfolding small by (simp add: unsigned_ucast_eq take_bit_nat_eq_self)
  qed
  define seg where "seg = hdr CA_BLE_PACKET_START @ len_bytes n @ take ?k (ld_data d) @ drop (6 + ?k) (replicate 517 (0::u8))"
  have k: "?k \<le> length (ld_data d)" "6 + ?k \<le> 517" using b(1,2,4) by (auto simp: n_def)
  have l: "length seg = 517" using k by (simp add: seg_def hdr_def)
  have first: "CAMakeFirstDataSegment (Some (replicate 517 0)) (Some (ld_data d)) ?dl (Some (hdr CA_BLE_PACKET_START)) (Some (len_bytes n))
      = Some (CA_STATUS_OK, Some seg)"
    using make_first [of "hdr CA_BLE_PACKET_START" "len_bytes n" ?dl "ld_data d" "replicate 517 0"] k unfolding dl
    by (simp add: seg_def hdr_def)
  have pk: "take (unat ?len) seg = hdr CA_BLE_PACKET_START @ len_bytes n @ take (unat mtu - 6) (le_message d)"
    unfolding len using k by (simp add: seg_def hdr_def le_message_def n_def min.commute)
  have pl: "unat ?len \<le> length seg" unfolding len l using k by simp
  have w: "ucast mtu - of_nat CA_BLE_HEADER_SIZE - of_nat CA_BLE_LENGTH_HEADER_SIZE = (ucast mtu - 6 :: u32)"
    by (simp add: ble_sizes)
  show ?thesis unfolding len0
  proof (intro exI conjI)
    show "length seg = 517" by (rule l)
    show "send_first call mtu localPort d ep t =
      Some (case transmit call (ep_addr ep) [hdr CA_BLE_PACKET_START @ len_bytes n @ take (unat mtu - 6) (le_message d)] t of
              Inl e \<Rightarrow> Inl e
            | Inr t1 \<Rightarrow> Inr (Some (hdr CA_BLE_PACKET_NOT_START), Some seg, of_nat (r div s), r mod s, len0, t1))"
      unfolding send_first_def n_def [symmetric] vars w
      by (simp add: if_pair ble_sizes CA_SUPPORTED_BLE_MTU_SIZE_def generate_header [OF _ b(3)] generate_length
          hdr_def [symmetric] first on_ok_send [OF pk pl] flip: secure_flag_def del: transmit.simps split del: if_split split: sum.splits)
  qed
qed

lemma take_prefix: "length p = n \<Longrightarrow> take n (p @ q) = p"
  by simp

lemma transmit_Cons:
  "transmit call addr (p # ps) t = (case transmit call addr [p] t of Inl e \<Rightarrow> Inl e | Inr t1 \<Rightarrow> transmit call addr ps t1)"
  using transmit_append [of call addr "[p]" ps t] by simp

text \<open>The packets of full size.\<close>

lemma send_mid_eq:
  assumes s: "sendable mtu localPort d ep" and hdr: "length hdr = 2"
    and iter: "iter \<noteq> 0 \<Longrightarrow> unat mtu - 6 + unat iter * (unat mtu - 2) \<le> unat (ld_dataLen d)"
    and "length seg = 517" and "index \<le> iter"
  shows "\<exists>seg'. length seg' = 517 \<and> send_mid call mtu d ep (Some hdr) index iter (Some seg) t =
    Some (case transmit call (ep_addr ep)
            (map (\<lambda>i. hdr @ take (unat mtu - 2) (drop (i * (unat mtu - 2)) (drop (unat mtu - 6) (le_message d)))) [unat index..<unat iter]) t of
            Inl e \<Rightarrow> Inl e | Inr t1 \<Rightarrow> Inr (Some seg', t1))"
  using assms(4,5)
proof (induction "unat iter - unat index" arbitrary: index seg t)
  case 0
  then have "\<not> index < iter" by (simp add: word_less_nat_alt)
  then show ?case using 0 by (auto simp: send_mid.simps [of call mtu d ep _ index] word_less_nat_alt)
next
  case (Suc x)
  note b = sendableD [OF s]
  let ?s = "unat mtu - 2"
  have lt: "index < iter" using Suc(2) by (simp add: word_less_nat_alt)
  have nx: "unat (index + 1) = Suc (unat index)" by (rule word_next [OF lt])
  have le: "index + 1 \<le> iter" using lt nx by (simp add: word_le_nat_alt word_less_nat_alt)
  have sz: "unat (ucast mtu - of_nat CA_BLE_HEADER_SIZE :: u32) = ?s"
  proof -
    have "(ucast mtu :: u32) = of_nat (unat mtu)" by simp
    then have "(ucast mtu - of_nat CA_BLE_HEADER_SIZE :: u32) = of_nat ?s" using b(1) by (simp add: ble_sizes of_nat_diff)
    then show ?thesis using b(2) by (simp add: unat_of_nat32)
  qed
  have "Suc (unat index) * ?s \<le> unat iter * ?s" using lt by (intro mult_le_mono1) (simp add: word_less_nat_alt)
  then have fits: "unat mtu - 6 + unat index * ?s + ?s \<le> unat (ld_dataLen d)"
  proof -
    have "iter \<noteq> 0" using lt by auto
    with iter \<open>Suc (unat index) * ?s \<le> unat iter * ?s\<close> show ?thesis by simp
  qed
  let ?p = "hdr @ take ?s (drop (unat mtu - 6 + unat index * ?s) (ld_data d))"
  define seg1 where "seg1 = ?p @ drop (2 + ?s) seg"
  have lp: "length ?p = unat mtu" using fits b(1,4) hdr by simp
  have l1: "length seg1 = 517" using lp b(1,2) Suc(3) by (simp add: seg1_def)
  have mk: "CAMakeRemainDataSegment (Some seg) (ucast mtu - of_nat CA_BLE_HEADER_SIZE) (Some (ld_data d)) (ld_dataLen d) index
        (Some hdr) mtu = Some (CA_STATUS_OK, Some seg1)"
    using make_remain [OF hdr b(1), of index "ucast mtu - of_nat CA_BLE_HEADER_SIZE" "ld_dataLen d" "ld_data d" seg] fits b(2,4) Suc(3)
    unfolding sz by (simp add: seg1_def)
  have msg: "?p = hdr @ take ?s (drop (unat index * ?s) (drop (unat mtu - 6) (le_message d)))"
    using fits by (simp add: le_message_def take_drop add.commute min_def)
  have sent: "gatt_send call (ep_addr ep) (Some seg1) (unat mtu) t =
      Some (case transmit call (ep_addr ep) [?p] t of Inl (r, t1) \<Rightarrow> (r, t1) | Inr t1 \<Rightarrow> (CA_STATUS_OK, t1))"
  proof (rule gatt_send_eq)
    show "take (unat mtu) seg1 = ?p" unfolding seg1_def by (rule take_prefix [OF lp])
    show "unat mtu \<le> length seg1" using l1 b(2) by simp
  qed
  let ?f = "\<lambda>i. hdr @ take ?s (drop (i * ?s) (drop (unat mtu - 6) (le_message d)))"
  have up: "[unat index..<unat iter] = unat index # [unat (index + 1)..<unat iter]"
    using lt nx by (simp add: upt_conv_Cons word_less_nat_alt)
  have step: "transmit call (ep_addr ep) (map ?f [unat index..<unat iter]) t =
      (case transmit call (ep_addr ep) [?p] t of
         Inl e \<Rightarrow> Inl e | Inr t1 \<Rightarrow> transmit call (ep_addr ep) (map ?f [unat (index + 1)..<unat iter]) t1)"
    unfolding up list.map(2) msg by (rule transmit_Cons)
  show ?case
  proof (cases "transmit call (ep_addr ep) [?p] t")
    case (Inl e)
    then obtain r t1 where e: "e = (r, t1)" "r \<noteq> CA_STATUS_OK" using transmit_refused by (metis surj_pair)
    then show ?thesis
      using Inl sent Suc(3) lt mk unfolding step
      by (intro exI [of _ seg]) (simp add: send_mid.simps [of call mtu d ep _ index] del: transmit.simps)
  next
    case (Inr t1)
    have "x = unat iter - unat (index + 1)" using Suc(2) nx by simp
    from Suc(1) [OF this l1 le, of t1] show ?thesis
      using Inr sent lt mk unfolding step
      by (simp add: send_mid.simps [of call mtu d ep _ index] del: transmit.simps)
  qed
qed

text \<open>The last packet.\<close>

lemma send_last_eq:
  assumes s: "sendable mtu localPort d ep" and hdr: "length hdr = 2" and "length seg = 517"
    and rest: "unat mtu - 6 + unat k * (unat mtu - 2) + rem = unat (ld_dataLen d)" "rem < unat mtu - 2"
    and total: "rem \<noteq> 0 \<Longrightarrow> unat mtu < len"
  shows "send_last call mtu d ep (Some hdr) k (Some seg) rem len t =
    Some (transmit call (ep_addr ep)
      (if rem = 0 then [] else [hdr @ drop (unat k * (unat mtu - 2)) (drop (unat mtu - 6) (le_message d))]) t)"
proof (cases "rem = 0")
  case True
  then show ?thesis by (simp add: send_last_def)
next
  case False
  note b = sendableD [OF s]
  let ?i = "unat mtu - 6 + unat k * (unat mtu - 2)"
  have r32: "unat (of_nat rem :: u32) = rem" using rest(2) b(2) by (simp add: unat_of_nat32)
  let ?p = "hdr @ take rem (drop ?i (ld_data d))"
  have lp: "length ?p = rem + CA_BLE_HEADER_SIZE" using rest(1) b(4) hdr by (simp add: ble_sizes)
  have mk: "CAMakeRemainDataSegment (Some seg) (of_nat rem) (Some (ld_data d)) (ld_dataLen d) k (Some hdr) mtu
      = Some (CA_STATUS_OK, Some (?p @ drop (2 + rem) seg))"
    using make_remain [OF hdr b(1), of k "of_nat rem" "ld_dataLen d" "ld_data d" seg] rest b(2,4) assms(3) unfolding r32 by simp
  have msg: "?p = hdr @ drop (unat k * (unat mtu - 2)) (drop (unat mtu - 6) (le_message d))"
  proof -
    have "rem = unat (ld_dataLen d) - ?i" using rest(1) by linarith
    then show ?thesis by (simp add: le_message_def drop_take add.commute)
  qed
  have tk: "take (rem + CA_BLE_HEADER_SIZE) (?p @ drop (2 + rem) seg) = ?p" by (rule take_prefix [OF lp])
  have "rem + CA_BLE_HEADER_SIZE \<le> length (?p @ drop (2 + rem) seg)" using lp by simp
  from on_ok_send [OF tk this, of call "ep_addr ep" t "\<lambda>t1. Some (Inr t1)"] show ?thesis
    using False total mk unfolding send_last_def msg [symmetric]
    by (auto simp del: transmit.simps split: sum.splits)
qed

text \<open>Together: the packets of the message, until the transport refuses one.\<close>

lemma send_packets_eq:
  assumes s: "sendable mtu localPort d ep"
  shows "send_packets call mtu localPort d ep t = Some (transmit call (ep_addr ep)
    (fragments (unat mtu) localPort (secure_flag ep) (ucast (ep_port ep)) (le_message d)) t)"
proof -
  note b = sendableD [OF s]
  let ?n = "unat (ld_dataLen d)" let ?m = "unat mtu" let ?s = "unat mtu - 2" let ?r = "?n - (?m - 6)"
  let ?hdr = "\<lambda>ty. ble_header ty localPort (secure_flag ep) (ucast (ep_port ep))"
  let ?rest = "drop (?m - 6) (le_message d)"
  have n: "?n < 2 ^ 32" using unsigned_less [of "ld_dataLen d", where ?'a = nat] by simp
  have "?r div ?s < 2 ^ 32" using n by (meson div_le_dividend diff_le_self le_less_trans)
  then have k: "unat (of_nat (?r div ?s) :: u32) = ?r div ?s" by (simp add: unat_of_nat32)
  have qr: "?r div ?s * ?s + ?r mod ?s = ?r" by (rule div_mult_mod_eq)
  have mid: "of_nat (?r div ?s) \<noteq> (0 :: u32) \<Longrightarrow> ?m - 6 + unat (of_nat (?r div ?s) :: u32) * ?s \<le> ?n"
  proof -
    assume "of_nat (?r div ?s) \<noteq> (0 :: u32)"
    then have "?r \<noteq> 0" by (intro notI) simp
    then show ?thesis unfolding k using qr by linarith
  qed
  obtain seg where seg: "length seg = 517" and first: "send_first call mtu localPort d ep t =
      Some (case transmit call (ep_addr ep) [?hdr CA_BLE_PACKET_START @ len_bytes ?n @ take (?m - 6) (le_message d)] t of
              Inl e \<Rightarrow> Inl e
            | Inr t1 \<Rightarrow> Inr (Some (?hdr CA_BLE_PACKET_NOT_START), Some seg, of_nat (?r div ?s), ?r mod ?s,
                            ?n + 6 + 2 * (?r div ?s + (if ?r mod ?s = 0 then 0 else 1)), t1))"
    using send_first_eq [OF s, of call t] by (elim exE conjE) (rule that)
  let ?mids = "map (\<lambda>i. ?hdr CA_BLE_PACKET_NOT_START @ take ?s (drop (i * ?s) ?rest)) [unat (0 :: u32)..<unat (of_nat (?r div ?s) :: u32)]"
  let ?last = "if ?r mod ?s = 0 then [] else [?hdr CA_BLE_PACKET_NOT_START @ drop (unat (of_nat (?r div ?s) :: u32) * ?s) ?rest]"
  have frag: "fragments ?m localPort (secure_flag ep) (ucast (ep_port ep)) (le_message d)
      = [?hdr CA_BLE_PACKET_START @ len_bytes ?n @ take (?m - 6) (le_message d)] @ ?mids @ ?last"
    using b(1) unfolding fragments_def k by (subst chunks_nth) (simp_all add: b(5))
  have last_ok: "send_last call mtu d ep (Some (?hdr CA_BLE_PACKET_NOT_START)) (of_nat (?r div ?s)) (Some seg2) (?r mod ?s)
      (?n + 6 + 2 * (?r div ?s + (if ?r mod ?s = 0 then 0 else 1))) t2 = Some (transmit call (ep_addr ep) ?last t2)"
    if "length seg2 = 517" for seg2 t2
  proof (cases "?r mod ?s = 0")
    case True
    then show ?thesis by (simp add: send_last_def)
  next
    case False
    then have "?r \<noteq> 0" by (intro notI) simp
    with qr have sum: "?m - 6 + unat (of_nat (?r div ?s) :: u32) * ?s + ?r mod ?s = ?n" unfolding k by linarith
    show ?thesis
    proof (rule send_last_eq [OF s length_ble_header that sum])
      show "?r mod ?s < ?s" using b(1) by simp
      show "?m < ?n + 6 + 2 * (?r div ?s + (if ?r mod ?s = 0 then 0 else 1))" using \<open>?r \<noteq> 0\<close> by simp
    qed
  qed
  show ?thesis
  proof (cases "transmit call (ep_addr ep) [?hdr CA_BLE_PACKET_START @ len_bytes ?n @ take (?m - 6) (le_message d)] t")
    case (Inl e)
    then show ?thesis using first unfolding send_packets_def frag transmit_append by (simp del: transmit.simps)
  next
    case (Inr t1)
    obtain seg2 where seg2: "length seg2 = 517" and m: "send_mid call mtu d ep (Some (?hdr CA_BLE_PACKET_NOT_START)) 0 (of_nat (?r div ?s)) (Some seg) t1
        = Some (case transmit call (ep_addr ep) ?mids t1 of Inl e \<Rightarrow> Inl e | Inr t2 \<Rightarrow> Inr (Some seg2, t2))"
      using send_mid_eq [OF s _ mid seg, of "?hdr CA_BLE_PACKET_NOT_START" 0 call t1] by auto
    show ?thesis using first Inr m last_ok [OF seg2] unfolding send_packets_def frag transmit_append
      by (simp del: transmit.simps split del: if_split split: sum.splits)
  qed
qed

lemma transmit_single:
  obtains (fine) t1 where "transmit call addr [p] t = Inr t1" "tx_sent t1 = tx_sent t @ [(call, addr, p)]" "tx_errors t1 = tx_errors t"
    | (refused) r t1 where "transmit call addr [p] t = Inl (r, t1)" "r \<noteq> CA_STATUS_OK" "tx_sent t1 = tx_sent t" "tx_errors t1 = tx_errors t"
proof (cases "tx_results t")
  case Nil
  then show ?thesis using fine by simp
next
  case (Cons r rs)
  then show ?thesis using fine refused by (cases "r = CA_STATUS_OK") simp_all
qed

text \<open>A transfer reaches a prefix of the packets, and only a refusal stops it early.\<close>

lemma transmit_prefix:
  "case transmit call addr ps t of
     Inr t1 \<Rightarrow> tx_sent t1 = tx_sent t @ map (\<lambda>p. (call, addr, p)) ps \<and> tx_errors t1 = tx_errors t
   | Inl (r, t1) \<Rightarrow> r \<noteq> CA_STATUS_OK \<and> tx_errors t1 = tx_errors t
       \<and> (\<exists>k<length ps. tx_sent t1 = tx_sent t @ map (\<lambda>p. (call, addr, p)) (take k ps))"
proof (induction ps arbitrary: t)
  case (Cons p ps)
  show ?case
  proof (rule transmit_single [of call addr p t])
    fix t1
    assume fine: "transmit call addr [p] t = Inr t1" "tx_sent t1 = tx_sent t @ [(call, addr, p)]" "tx_errors t1 = tx_errors t"
    note ih = Cons [of t1]
    show ?thesis
    proof (cases "transmit call addr ps t1")
      case (Inl e)
      obtain r t2 where e: "e = (r, t2)" by fastforce
      with ih Inl obtain k where k: "k < length ps" "tx_sent t2 = tx_sent t1 @ map (\<lambda>p. (call, addr, p)) (take k ps)"
        "r \<noteq> CA_STATUS_OK" "tx_errors t2 = tx_errors t1" by auto
      have "tx_sent t2 = tx_sent t @ map (\<lambda>p. (call, addr, p)) (take (Suc k) (p # ps))" using k(2) fine(2) by simp
      then show ?thesis using k fine Inl e unfolding transmit_Cons [of _ _ p ps] by (auto simp del: transmit.simps)
    next
      case (Inr t2)
      then show ?thesis using ih fine unfolding transmit_Cons [of _ _ p ps] by (simp del: transmit.simps)
    qed
  next
    fix r t1
    assume refused: "transmit call addr [p] t = Inl (r, t1)" "r \<noteq> CA_STATUS_OK" "tx_sent t1 = tx_sent t" "tx_errors t1 = tx_errors t"
    have "tx_sent t1 = tx_sent t @ map (\<lambda>p. (call, addr, p)) (take 0 (p # ps))" using refused(3) by simp
    then show ?thesis using refused unfolding transmit_Cons [of _ _ p ps] by (simp del: transmit.simps)
  qed
qed simp

lemma fragments_size:
  assumes "6 \<le> m" and "p \<in> set (fragments m sp sec dp msg)"
  shows "length p \<le> m"
  using assms by (auto simp: fragments_def dest!: chunks_parts)

text \<open>A message of thirty bytes for the peer of the examples; its second packet is refused.\<close>

definition example_data :: CALEData where
  "example_data = \<lparr>ld_remoteEndpoint = Some example_peer, ld_data = replicate 31 7, ld_dataLen = 30, ld_senderInfo = False\<rparr>"

text \<open>
  Both sending threads put exactly the packets of the message on the air, in order and none longer
  than the MTU, until the transport refuses one; every access stays inside the segment and the data.
  When a packet is refused nothing more is sent and the error handler, if there is one, is told once,
  with the result of the transport.
\<close>

lemma send_threads_correct:
  assumes "(call, thread) \<in> {(CAUpdateCharacteristicsToGattClient, CALEServerSendDataThread),
                               (CAUpdateCharacteristicsToGattServer, CALEClientSendDataThread)}"
    and "sendable mtu localPort d ep" and "ld_remoteEndpoint d = Some ep"
    and "frags = fragments (unat mtu) localPort (secure_flag ep) (ucast (ep_port ep)) (le_message d)"
  shows "\<exists>t' k r. thread mtu localPort eh (Some d) t = Some t' \<and> k \<le> length frags
    \<and> tx_sent t' = tx_sent t @ map (\<lambda>p. (call, ep_addr ep, p)) (take k frags)
    \<and> (\<forall>p\<in>set frags. length p \<le> unat mtu)
    \<and> (if k = length frags then tx_errors t' = tx_errors t
       else r \<noteq> CA_STATUS_OK \<and> tx_errors t' = tx_errors t @ (if eh then [(ep, ld_data d, ld_dataLen d, r)] else []))"
proof -
  have th: "thread = send_thread call" using assms(1) by (auto simp: CALEServerSendDataThread_def CALEClientSendDataThread_def)
  have sz: "\<forall>p\<in>set frags. length p \<le> unat mtu" using fragments_size [OF sendableD(1) [OF assms(2)]] assms(4) by blast
  show ?thesis
  proof (cases "transmit call (ep_addr ep) frags t")
    case (Inl e)
    obtain r t1 where e: "e = (r, t1)" by fastforce
    from transmit_prefix [where call = call and addr = "ep_addr ep" and ps = frags and t = t] Inl e obtain k where
      k: "k < length frags" "tx_sent t1 = tx_sent t @ map (\<lambda>p. (call, ep_addr ep, p)) (take k frags)" "r \<noteq> CA_STATUS_OK" "tx_errors t1 = tx_errors t"
      by auto
    let ?t' = "if eh then t1\<lparr>tx_errors := tx_errors t1 @ [(ep, ld_data d, ld_dataLen d, r)]\<rparr> else t1"
    have "send_thread call mtu localPort eh (Some d) t = Some ?t'"
      using Inl e by (simp add: send_thread_def assms(3) send_packets_eq [OF assms(2)] assms(4) [symmetric])
    then show ?thesis using k sz unfolding th by (intro exI [of _ ?t'] exI [of _ k] exI [of _ r]) simp
  next
    case (Inr t1)
    have "send_thread call mtu localPort eh (Some d) t = Some t1"
      using Inr by (simp add: send_thread_def assms(3) send_packets_eq [OF assms(2)] assms(4) [symmetric])
    then show ?thesis using transmit_prefix [where call = call and addr = "ep_addr ep" and ps = frags and t = t] Inr sz unfolding th
      by (intro exI [of _ t1] exI [of _ "length frags"]) simp
  qed
qed

lemma send_threads_correct_example:
  "\<exists>t' k. CALEServerSendDataThread 20 1 True (Some example_data) \<lparr>tx_results = [CA_STATUS_OK, CA_SEND_FAILED], tx_sent = [], tx_errors = []\<rparr>
     = Some t' \<and> length (tx_sent t') = k \<and> k \<le> 2"
proof -
  have s: "sendable 20 1 example_data example_peer"
    by (simp add: sendable_def example_data_def example_peer_def valid_ports_def CA_SUPPORTED_BLE_MTU_SIZE_def)
  have e: "ld_remoteEndpoint example_data = Some example_peer" by (simp add: example_data_def)
  have l: "length (fragments (unat (20 :: u16)) 1 (secure_flag example_peer) (ucast (ep_port example_peer)) (le_message example_data)) = 2"
    by (simp add: fragments_def le_message_def example_data_def)
  show ?thesis
    using send_threads_correct [OF _ s e refl, of CAUpdateCharacteristicsToGattClient CALEServerSendDataThread True
        "\<lparr>tx_results = [CA_STATUS_OK, CA_SEND_FAILED], tx_sent = [], tx_errors = []\<rparr>"] l by auto
qed

end
