(* ===== verification/BleReassembly.thy ===== *)
theory BleReassembly
  imports BleTransfer
begin

text \<open>
  The receiving side of the Bluetooth LE adapter: the abstract view of the senders whose messages are
  not complete, the invariant of the concrete state, and that the handler acts on the abstract view as
  the operation \<open>reassemble\<close>, for packets of any content and any outcome of the allocations.
\<close>

section \<open>The abstract view\<close>

text \<open>A sender is known by address and port; of its message the length and a prefix are known.\<close>

type_synonym sender_key = "string \<times> u16"
type_synonym session = "CAEndpoint \<times> nat \<times> u8 list"
type_synonym sessions = "sender_key \<Rightarrow> session option"

text \<open>Storing more bytes: the message is complete, still incomplete, or too long and dropped.\<close>

definition add_bytes :: "sender_key \<Rightarrow> session \<Rightarrow> u8 list \<Rightarrow> sessions \<Rightarrow> (CAEndpoint \<times> u8 list) option \<times> sessions" where
  "add_bytes k v payload m =
     (case v of (ep, n, bs) \<Rightarrow>
        if n < length bs + length payload then (None, m(k := None))
        else if length bs + length payload = n then (Some (ep, bs @ payload), m(k := None))
        else (None, m(k \<mapsto> (ep, n, bs @ payload))))"

definition reassemble ::
  "bool \<Rightarrow> CAEndpoint \<Rightarrow> nat \<Rightarrow> u8 list \<Rightarrow> sessions \<Rightarrow> (CAEndpoint \<times> u8 list) option \<times> sessions" where
  "reassemble start ep n payload m =
     (let k = (ep_addr ep, ep_port ep) in
      if start then
        (if n = 0 \<or> 2 ^ 32 \<le> n + 1 then (None, m(k := None)) else add_bytes k (ep, n, []) payload (m(k := None)))
      else (case m k of None \<Rightarrow> (None, m) | Some v \<Rightarrow> add_bytes k v payload m))"

section \<open>The invariant\<close>

text \<open>A sender with the addresses of its objects and what they hold.\<close>

record sess =
  s_p :: nat
  s_b :: nat
  s_e :: nat
  s_ep :: CAEndpoint
  s_total :: nat
  s_bytes :: "u8 list"

definition s_key :: "sess \<Rightarrow> sender_key" where
  "s_key c = (ep_addr (s_ep c), ep_port (s_ep c))"

definition s_info :: "sess \<Rightarrow> CABLESenderInfo" where
  "s_info c = \<lparr>si_recvDataLen = of_nat (length (s_bytes c)), si_totalDataLen = of_nat (s_total c),
     si_defragData = Some (s_b c), si_remoteEndpoint = Some (s_e c)\<rparr>"

definition ADDR_LEN :: nat where "ADDR_LEN = 17"

definition holds :: "ble \<Rightarrow> sess \<Rightarrow> bool" where
  "holds st c \<longleftrightarrow> ble_senders st (s_p c) = Some (s_info c) \<and> ble_eps st (s_e c) = Some (s_ep c)
     \<and> (\<exists>buf. ble_bufs st (s_b c) = Some buf \<and> length buf = Suc (s_total c) \<and> take (length (s_bytes c)) buf = s_bytes c)
     \<and> length (s_bytes c) \<le> s_total c \<and> s_total c + 1 < 2 ^ 32 \<and> length (ep_addr (s_ep c)) = ADDR_LEN"

definition ble_wf :: "ble \<Rightarrow> sess list \<Rightarrow> bool" where
  "ble_wf st cs \<longleftrightarrow> al_ok (ble_list st) \<and> ble_list st \<noteq> None \<and> al_abs (ble_list st) = map (\<lambda>c. Some (s_p c)) cs
     \<and> distinct (map s_p cs) \<and> distinct (map s_b cs) \<and> distinct (map s_e cs) \<and> distinct (map s_key cs)
     \<and> (\<forall>c\<in>set cs. holds st c)
     \<and> (\<forall>a. ble_fresh st \<le> a \<longrightarrow> ble_senders st a = None \<and> ble_bufs st a = None \<and> ble_eps st a = None)"

definition sessions_of :: "sess list \<Rightarrow> sessions" where
  "sessions_of cs = map_of (map (\<lambda>c. (s_key c, (s_ep c, s_total c, s_bytes c))) cs)"

text \<open>Between two packets no message is complete.\<close>

definition ble_inv :: "ble \<Rightarrow> sess list \<Rightarrow> bool" where
  "ble_inv st cs \<longleftrightarrow> ble_wf st cs \<and> (\<forall>c\<in>set cs. length (s_bytes c) < s_total c)"

lemma sessions_of_None: "sessions_of cs k = None \<longleftrightarrow> k \<notin> s_key ` set cs"
  by (force simp: sessions_of_def map_of_eq_None_iff)

lemma sessions_of_nth:
  "distinct (map s_key cs) \<Longrightarrow> i < length cs \<Longrightarrow>
   sessions_of cs (s_key (cs ! i)) = Some (s_ep (cs ! i), s_total (cs ! i), s_bytes (cs ! i))"
  unfolding sessions_of_def by (rule map_of_is_SomeI) (auto simp: comp_def)

lemma remove_nth_split:
  assumes "i < length cs"
  shows "cs = take i cs @ cs ! i # drop (Suc i) cs" "remove_nth i cs = take i cs @ drop (Suc i) cs"
  using assms by (simp_all add: id_take_nth_drop remove_nth_def)

lemma sessions_of_remove:
  assumes "distinct (map s_key cs)" and "i < length cs"
  shows "sessions_of (remove_nth i cs) = (sessions_of cs)(s_key (cs ! i) := None)"
proof -
  let ?f = "\<lambda>c. (s_key c, (s_ep c, s_total c, s_bytes c))"
  have d: "distinct (map s_key (take i cs @ cs ! i # drop (Suc i) cs))"
    using assms by (simp only: remove_nth_split(1) [OF assms(2), symmetric])
  have n: "map_of (map ?f (take i cs)) (s_key (cs ! i)) = None" "map_of (map ?f (drop (Suc i) cs)) (s_key (cs ! i)) = None"
    using d by (auto simp: map_of_eq_None_iff image_iff)
  have "sessions_of cs = map_of (map ?f (take i cs @ cs ! i # drop (Suc i) cs))"
    unfolding sessions_of_def by (simp only: remove_nth_split(1) [OF assms(2), symmetric])
  then show ?thesis
    using n unfolding sessions_of_def remove_nth_split(2) [OF assms(2)] by (auto simp: map_add_def fun_eq_iff split: option.splits)
qed

lemma ble_wfD:
  assumes "ble_wf st cs"
  shows "al_ok (ble_list st)" "al_abs (ble_list st) = map (\<lambda>c. Some (s_p c)) cs" "distinct (map s_p cs)"
    "distinct (map s_b cs)" "distinct (map s_e cs)" "distinct (map s_key cs)"
    "c \<in> set cs \<Longrightarrow> holds st c" "ble_list st \<noteq> None"
    "ble_fresh st \<le> a \<Longrightarrow> ble_senders st a = None \<and> ble_bufs st a = None \<and> ble_eps st a = None"
  using assms by (auto simp: ble_wf_def)

section \<open>The search for a sender\<close>

lemma find_enumerate:
  "find (\<lambda>(i, x). P x) (enumerate n xs) = map_option (\<lambda>i. (n + i, xs ! i)) (find_index P xs)"
proof (induction xs arbitrary: n)
  case (Cons x xs)
  then show ?case by (cases "find_index P xs") auto
qed simp

lemma sender_slot_eq:
  assumes "holds st c" and "length a = ADDR_LEN"
  shows "sender_slot a pt st i (Some (s_p c)) () = Some (if s_key c = (a, pt) then Inl (i, s_p c) else Inr ())"
  using assms by (auto simp: sender_slot_def holds_def s_info_def s_key_def)

lemma lookup_eq:
  assumes wf: "ble_wf st cs" and a: "length a = ADDR_LEN"
  shows "CALEGetSenderInfo (Some a) pt st =
    Some (case find_index (\<lambda>c. s_key c = (a, pt)) cs of None \<Rightarrow> Inl CA_STATUS_FAILED | Some i \<Rightarrow> Inr (i, s_p (cs ! i)))"
proof -
  let ?P = "\<lambda>slot. \<exists>c\<in>set cs. slot = Some (s_p c) \<and> s_key c = (a, pt)"
  note d = ble_wfD [OF wf]
  have body: "sender_slot a pt st i x () = Some (if ?P x then Inl (i, the x) else Inr ())"
    if x: "(i, x) \<in> set (enumerate 0 (map (\<lambda>c. Some (s_p c)) cs))" for i x
  proof -
    from imageI [OF x, of snd] have "x \<in> set (map snd (enumerate 0 (map (\<lambda>c. Some (s_p c)) cs)))"
      by (simp only: set_map snd_conv)
    then obtain c where c: "c \<in> set cs" "x = Some (s_p c)" unfolding map_snd_enumerate by auto
    have "?P x \<longleftrightarrow> s_key c = (a, pt)" using c d(3) by (auto simp: distinct_map inj_on_def)
    then show ?thesis using sender_slot_eq [OF d(7) [OF c(1)] a, of pt i] c(2) by simp
  qed
  have idx: "find_index ?P (map (\<lambda>c. Some (s_p c)) cs) = find_index (\<lambda>c. s_key c = (a, pt)) cs"
  proof -
    have "find_index ?P (map (\<lambda>c. Some (s_p c)) ds) = find_index (\<lambda>c. s_key c = (a, pt)) ds" if "set ds \<subseteq> set cs" for ds
      using that d(3) by (induction ds) (auto simp: distinct_map inj_on_def)
    then show ?thesis by simp
  qed
  have "for_slots (ble_list st) (sender_slot a pt st) 0 () =
     Some (case find (\<lambda>(i, x). ?P x) (enumerate 0 (map (\<lambda>c. Some (s_p c)) cs)) of
             None \<Rightarrow> Inr () | Some (i, x) \<Rightarrow> Inl (i, the x))"
    unfolding for_slots_all [OF d(1)] d(2) by (rule fold_loop_find) (rule body)
  then show ?thesis
    unfolding find_enumerate idx
    by (auto simp: CALEGetSenderInfo_def dest: find_index_SomeD split: option.splits)
qed

lemma lookup_found:
  assumes "ble_wf st cs" and "length a = ADDR_LEN" and "i < length cs" and "s_key (cs ! i) = (a, pt)"
  shows "CALEGetSenderInfo (Some a) pt st = Some (Inr (i, s_p (cs ! i)))"
proof -
  have "find_index (\<lambda>c. s_key c = (a, pt)) cs = Some i"
  proof (cases "find_index (\<lambda>c. s_key c = (a, pt)) cs")
    case None
    then show ?thesis using assms(3,4) by (auto simp: find_index_None)
  next
    case (Some j)
    then have j: "j < length cs" "s_key (cs ! j) = (a, pt)" by (auto dest: find_index_SomeD)
    then have "j = i" using assms(3,4) ble_wfD(6) [OF assms(1)] by (metis length_map nth_eq_iff_index_eq nth_map)
    then show ?thesis using Some by simp
  qed
  then show ?thesis by (simp add: lookup_eq [OF assms(1,2)])
qed

lemma lookup_unknown:
  assumes "ble_wf st cs" and "length a = ADDR_LEN" and "sessions_of cs (a, pt) = None"
  shows "CALEGetSenderInfo (Some a) pt st = Some (Inl CA_STATUS_FAILED)"
proof -
  have "find_index (\<lambda>c. s_key c = (a, pt)) cs = None" using assms(3) by (force simp: find_index_None sessions_of_None)
  then show ?thesis by (simp add: lookup_eq [OF assms(1,2)])
qed

lemma sessions_of_Some:
  assumes "sessions_of cs k = Some v"
  obtains i where "i < length cs" "s_key (cs ! i) = k" "v = (s_ep (cs ! i), s_total (cs ! i), s_bytes (cs ! i))"
  using map_of_SomeD [OF assms [unfolded sessions_of_def]] by (auto simp: in_set_conv_nth)

section \<open>Changing the state\<close>

lemma remove_nth_other:
  assumes "distinct (map f cs)" and "i < length cs" and "c \<in> set (remove_nth i cs)"
  shows "f c \<noteq> f (cs ! i)"
proof -
  have "distinct (map f (take i cs @ cs ! i # drop (Suc i) cs))"
    using assms(1,2) by (simp only: remove_nth_split(1) [OF assms(2), symmetric])
  then have "f (cs ! i) \<notin> f ` set (take i cs)" "f (cs ! i) \<notin> f ` set (drop (Suc i) cs)" by simp_all
  moreover have "f c \<in> f ` set (take i cs) \<or> f c \<in> f ` set (drop (Suc i) cs)"
    using assms(3) unfolding remove_nth_split(2) [OF assms(2)] by auto
  ultimately show ?thesis by metis
qed

text \<open>What forgetting a sender must leave alone; its endpoint may stay allocated.\<close>

lemma forget_wf:
  assumes wf: "ble_wf st cs" and i: "i < length cs"
    and st': "ble_list st' = snd (u_arraylist_remove (ble_list st) i)"
    "ble_senders st' = (ble_senders st)(s_p (cs ! i) := None)"
    "ble_bufs st' = ble_bufs st \<or> ble_bufs st' = (ble_bufs st)(s_b (cs ! i) := None)"
    "ble_eps st' = ble_eps st \<or> ble_eps st' = (ble_eps st)(s_e (cs ! i) := None)"
    "ble_fresh st' = ble_fresh st"
  shows "ble_wf st' (remove_nth i cs)"
proof -
  note d = ble_wfD [OF wf]
  have other: "s_p c \<noteq> s_p (cs ! i) \<and> s_b c \<noteq> s_b (cs ! i) \<and> s_e c \<noteq> s_e (cs ! i)" "c \<in> set cs"
    if "c \<in> set (remove_nth i cs)" for c
    using remove_nth_other [OF d(3) i that] remove_nth_other [OF d(4) i that] remove_nth_other [OF d(5) i that]
      set_remove_nth_subset [of i cs] that by auto
  have "holds st' c" if "c \<in> set (remove_nth i cs)" for c
    using d(7) [OF other(2) [OF that]] other(1) [OF that] st' by (auto simp: holds_def)
  moreover have "al_ok (ble_list st')" "al_abs (ble_list st') = map (\<lambda>c. Some (s_p c)) (remove_nth i cs)"
    using al_ok_remove [OF d(1), of i] st'(1) i d(2) by (simp_all add: remove_nth_def take_map drop_map)
  moreover have "ble_list st' \<noteq> None" using st'(1) d(8) by (auto simp: u_arraylist_remove_def Let_def split: if_splits)
  moreover have "ble_senders st' a = None \<and> ble_bufs st' a = None \<and> ble_eps st' a = None" if "ble_fresh st' \<le> a" for a
    using d(9) [of a] that st' by auto
  ultimately show ?thesis using d(3-6) by (simp add: ble_wf_def distinct_map_remove_nth)
qed

text \<open>Forgetting the sender at an index: its object and its buffer are freed, its endpoint is not.\<close>

definition gone :: "nat \<Rightarrow> sess \<Rightarrow> ble \<Rightarrow> ble" where
  "gone i c st = st\<lparr>ble_list := snd (u_arraylist_remove (ble_list st) i),
     ble_senders := (ble_senders st)(s_p c := None), ble_bufs := (ble_bufs st)(s_b c := None)\<rparr>"

lemma nth_holds: "ble_wf st cs \<Longrightarrow> i < length cs \<Longrightarrow> holds st (cs ! i)"
  by (simp add: ble_wfD(7))

lemma discard_eq:
  assumes "holds st c"
  shows "free_buf (Some (s_b c)) (list_remove i st) \<bind> (\<lambda>st2. free_sender (s_p c) st2) = Some (gone i c st)"
  using assms by (auto simp: holds_def free_buf_def free_sender_def list_remove_def gone_def)

lemma gone_wf: "ble_wf st cs \<Longrightarrow> i < length cs \<Longrightarrow> ble_wf (gone i (cs ! i) st) (remove_nth i cs)"
  by (rule forget_wf) (auto simp: gone_def)

text \<open>Storing bytes.\<close>

lemma take_payload_ok:
  assumes wf: "ble_wf st cs" and i: "i < length cs" and n: "length (s_bytes (cs ! i)) + n \<le> s_total (cs ! i)" "off + n \<le> length data"
  obtains st' where "take_payload (s_p (cs ! i)) data off n st = Some st'"
    "ble_wf st' (cs[i := (cs ! i)\<lparr>s_bytes := s_bytes (cs ! i) @ take n (drop off data)\<rparr>])"
    "ble_list st' = ble_list st" "ble_mem st' = ble_mem st" "ble_up st' = ble_up st" "ble_ssl st' = ble_ssl st"
    "ble_eps st' = ble_eps st"
proof -
  note d = ble_wfD [OF wf]
  let ?c = "cs ! i"
  let ?c' = "?c\<lparr>s_bytes := s_bytes ?c @ take n (drop off data)\<rparr>"
  from nth_holds [OF wf i] obtain buf where
    h: "ble_senders st (s_p ?c) = Some (s_info ?c)" "ble_eps st (s_e ?c) = Some (s_ep ?c)" "ble_bufs st (s_b ?c) = Some buf"
      "length buf = Suc (s_total ?c)" "take (length (s_bytes ?c)) buf = s_bytes ?c" "s_total ?c + 1 < 2 ^ 32"
      "length (ep_addr (s_ep ?c)) = ADDR_LEN"
    by (auto simp: holds_def)
  have r: "unat (si_recvDataLen (s_info ?c)) = length (s_bytes ?c)" using n(1) h(6) by (simp add: s_info_def unat_of_nat32)
  let ?buf = "take (length (s_bytes ?c)) buf @ take n (drop off data) @ drop (length (s_bytes ?c) + n) buf"
  have cp: "copy_into (length (s_bytes ?c)) buf (Some data) off n = Some ?buf"
    by (rule copy_into_ok) (use n h(4) in simp_all)
  let ?st = "st\<lparr>ble_bufs := (ble_bufs st)(s_b ?c \<mapsto> ?buf), ble_senders := (ble_senders st)(s_p ?c \<mapsto> s_info ?c')\<rparr>"
  have ln: "length (take n (drop off data)) = n" using n(2) by simp
  have info: "(s_info ?c)\<lparr>si_recvDataLen := si_recvDataLen (s_info ?c) + of_nat n\<rparr> = s_info ?c'"
    using n(2) by (simp add: s_info_def ln)
  have run: "take_payload (s_p ?c) data off n st = Some ?st"
  proof -
    have "si_defragData (s_info ?c) = Some (s_b ?c)" by (simp add: s_info_def)
    then show ?thesis unfolding take_payload_def h(1) bind.bind_lunit by (simp add: h(3) r cp info)
  qed
  have upd: "map f (cs[i := ?c']) = map f cs" if "f ?c' = f ?c" for f :: "sess \<Rightarrow> 'a"
    using i by (simp only: map_update that list_update_same_conv length_map nth_map)
  have new: "holds ?st ?c'" using h n ln by (simp add: holds_def)
  have old: "holds ?st c" if "c \<in> set (remove_nth i cs)" for c
  proof -
    have "s_p c \<noteq> s_p ?c" "s_b c \<noteq> s_b ?c" using remove_nth_other [OF d(3) i that] remove_nth_other [OF d(4) i that] by auto
    then show ?thesis using d(7) [of c] set_remove_nth_subset [of i cs] that by (auto simp: holds_def)
  qed
  have "set (cs[i := ?c']) \<subseteq> insert ?c' (set (remove_nth i cs))"
    using i by (auto simp: upd_conv_take_nth_drop remove_nth_def)
  then have all: "\<forall>c\<in>set (cs[i := ?c']). holds ?st c" using new old by blast
  have fr: "ble_senders ?st a = None \<and> ble_bufs ?st a = None \<and> ble_eps ?st a = None" if "ble_fresh ?st \<le> a" for a
    using d(9) [of a] that h(1,3) by auto
  have "ble_wf ?st (cs[i := ?c'])"
    using d(1-6,8) all fr upd [of s_p] upd [of s_b] upd [of s_e] upd [of s_key] upd [of "\<lambda>c. Some (s_p c)"]
    by (simp add: ble_wf_def s_key_def)
  then show ?thesis using that [OF run] by simp
qed

section \<open>Delivery\<close>

text \<open>Where a complete message goes: secure ones to the DTLS adapter, the others to the callback.\<close>

definition to_callback :: "le_config \<Rightarrow> (CAEndpoint \<times> u8 list) option \<Rightarrow> (CAEndpoint \<times> u8 list) list" where
  "to_callback cfg out =
     (case out of
        None \<Rightarrow> []
      | Some (ep, msg) \<Rightarrow> if g_networkPacketReceivedCallback cfg \<and> CA_SECURE AND ep_flags ep = 0 then [(ep, msg)] else [])"

definition to_dtls :: "le_config \<Rightarrow> (CAEndpoint \<times> u8 list) option \<Rightarrow> (CAEndpoint \<times> u8 list) list" where
  "to_dtls cfg out =
     (case out of
        None \<Rightarrow> []
      | Some (ep, msg) \<Rightarrow> if g_networkPacketReceivedCallback cfg \<and> CA_SECURE AND ep_flags ep \<noteq> 0 then [(ep, msg)] else [])"

text \<open>The state after a packet: what went up and what is left of the room of the list of senders.\<close>

definition capacity :: "ble \<Rightarrow> nat" where
  "capacity st = (case ble_list st of None \<Rightarrow> 0 | Some s \<Rightarrow> al_capacity s)"

definition after :: "le_config \<Rightarrow> ble \<Rightarrow> (CAEndpoint \<times> u8 list) option \<Rightarrow> ble \<Rightarrow> bool" where
  "after cfg st out st' \<longleftrightarrow> ble_up st' = ble_up st @ to_callback cfg out \<and> ble_ssl st' = ble_ssl st @ to_dtls cfg out
     \<and> ble_mem st' = ble_mem st \<and> capacity st' = capacity st"

lemma capacity_remove: "ble_list st' = snd (u_arraylist_remove (ble_list st) i) \<Longrightarrow> capacity st' = capacity st"
  by (auto simp: capacity_def u_arraylist_remove_def Let_def split: option.splits if_splits)

lemma after_none: "after cfg st None st' \<longleftrightarrow> ble_up st' = ble_up st \<and> ble_ssl st' = ble_ssl st \<and> ble_mem st' = ble_mem st
    \<and> capacity st' = capacity st"
  by (simp add: after_def to_callback_def to_dtls_def)

lemma deliver_ok:
  assumes wf: "ble_wf st cs" and i: "i < length cs" and full: "length (s_bytes (cs ! i)) = s_total (cs ! i)"
  obtains st' where "deliver cfg dt i (s_p (cs ! i)) st = Some st'" "ble_wf st' (remove_nth i cs)"
    "after cfg st (Some (s_ep (cs ! i), s_bytes (cs ! i))) st'"
proof -
  let ?c = "cs ! i"
  from nth_holds [OF wf i] obtain buf where
    h: "ble_senders st (s_p ?c) = Some (s_info ?c)" "ble_eps st (s_e ?c) = Some (s_ep ?c)" "ble_bufs st (s_b ?c) = Some buf"
      "length buf = Suc (s_total ?c)" "take (length (s_bytes ?c)) buf = s_bytes ?c" "s_total ?c + 1 < 2 ^ 32"
    by (auto simp: holds_def)
  have r: "unat (si_recvDataLen (s_info ?c)) = length (s_bytes ?c)" "si_totalDataLen (s_info ?c) = si_recvDataLen (s_info ?c)"
    "si_defragData (s_info ?c) = Some (s_b ?c)" "si_remoteEndpoint (s_info ?c) = Some (s_e ?c)"
    using full h(6) by (simp_all add: s_info_def unat_of_nat32)
  have msg: "buf_read 0 (length (s_bytes ?c)) buf = Some (s_bytes ?c)" using h(4,5) full by (simp add: buf_read_def)
  let ?un = "st\<lparr>ble_list := snd (u_arraylist_remove (ble_list st) i), ble_senders := (ble_senders st)(s_p ?c := None),
      ble_up := ble_up st @ [(s_ep ?c, s_bytes ?c)]\<rparr>"
  let ?se = "gone i ?c (st\<lparr>ble_dataType := dt, ble_ssl := ble_ssl st @ [(s_ep ?c, s_bytes ?c)]\<rparr>)"
  have run: "deliver cfg dt i (s_p ?c) st =
      Some (if \<not> g_networkPacketReceivedCallback cfg then gone i ?c st
            else if CA_SECURE AND ep_flags (s_ep ?c) \<noteq> 0 then ?se else ?un)"
    unfolding deliver_def h(1) bind.bind_lunit
    using h(1-3) discard_eq [OF nth_holds [OF wf i], of i]
    by (simp add: r msg) (auto simp: free_buf_def free_sender_def list_remove_def gone_def)
  let ?out = "Some (s_ep ?c, s_bytes ?c)"
  consider (null) "\<not> g_networkPacketReceivedCallback cfg"
    | (dtls) "g_networkPacketReceivedCallback cfg" "CA_SECURE AND ep_flags (s_ep ?c) \<noteq> 0"
    | (plain) "g_networkPacketReceivedCallback cfg" "CA_SECURE AND ep_flags (s_ep ?c) = 0" by blast
  then show ?thesis
  proof cases
    case null
    have "after cfg st ?out (gone i ?c st)"
      using null capacity_remove [of "gone i ?c st"] by (auto simp: after_def to_callback_def to_dtls_def gone_def)
    then show ?thesis using that [OF run] null gone_wf [OF wf i] by simp
  next
    case dtls
    have "after cfg st ?out ?se"
      using dtls capacity_remove [of ?se st i] by (auto simp: after_def to_callback_def to_dtls_def gone_def)
    moreover have "ble_wf ?se (remove_nth i cs)" by (rule forget_wf [OF wf i]) (auto simp: gone_def)
    ultimately show ?thesis using that [OF run] dtls by simp
  next
    case plain
    have "after cfg st ?out ?un"
      using plain capacity_remove [of ?un st i] by (auto simp: after_def to_callback_def to_dtls_def)
    moreover have "ble_wf ?un (remove_nth i cs)" by (rule forget_wf [OF wf i]) auto
    ultimately show ?thesis using that [OF run] plain by simp
  qed
qed

section \<open>Packets\<close>

lemma sessions_of_update:
  assumes "distinct (map s_key cs)" and "i < length cs" and "s_key c' = s_key (cs ! i)"
  shows "sessions_of (cs[i := c']) = (sessions_of cs)(s_key (cs ! i) \<mapsto> (s_ep c', s_total c', s_bytes c'))"
proof -
  let ?f = "\<lambda>c. (s_key c, (s_ep c, s_total c, s_bytes c))"
  have d: "distinct (map s_key (take i cs @ cs ! i # drop (Suc i) cs))"
    using assms by (simp only: remove_nth_split(1) [OF assms(2), symmetric])
  have n: "map_of (map ?f (take i cs)) (s_key (cs ! i)) = None" "map_of (map ?f (drop (Suc i) cs)) (s_key (cs ! i)) = None"
    using d by (auto simp: map_of_eq_None_iff image_iff)
  have "sessions_of cs = map_of (map ?f (take i cs @ cs ! i # drop (Suc i) cs))"
    unfolding sessions_of_def by (simp only: remove_nth_split(1) [OF assms(2), symmetric])
  moreover have "cs[i := c'] = take i cs @ c' # drop (Suc i) cs" using assms(2) by (simp add: upd_conv_take_nth_drop)
  ultimately show ?thesis
    using n assms(3) by (auto simp: sessions_of_def map_add_def fun_eq_iff split: option.splits)
qed

lemma remove_nth_update [simp]: "remove_nth i (xs[i := x]) = remove_nth i xs"
  by (simp add: remove_nth_def)

text \<open>The sender at an index has stored its bytes: the handler delivers or waits.\<close>

lemma settle_ok:
  assumes wf: "ble_wf st cs" and i: "i < length cs"
    and others: "\<forall>c\<in>set (remove_nth i cs). length (s_bytes c) < s_total c"
    and c: "cs ! i = c" and old: "bs @ payload = s_bytes c"
  shows "\<exists>st' cs' out. deliver cfg dt i (s_p c) st = Some st' \<and> ble_inv st' cs' \<and> after cfg st out st'
    \<and> (s_key c \<notin> s_key ` set (remove_nth i cs)) \<and>
    (out, sessions_of cs') = add_bytes (s_key c) (s_ep c, s_total c, bs) payload ((sessions_of cs)(s_key c := v))"
proof -
  note d = ble_wfD [OF wf]
  have le: "length (s_bytes c) \<le> s_total c" using nth_holds [OF wf i] c by (simp add: holds_def)
  have len: "length bs + length payload = length (s_bytes c)" using old by (metis length_append)
  have nk: "s_key c \<notin> s_key ` set (remove_nth i cs)" using remove_nth_other [OF d(6) i] c by (metis imageE)
  show ?thesis
  proof (cases "length (s_bytes c) = s_total c")
    case True
    obtain st' where st': "deliver cfg dt i (s_p c) st = Some st'" "ble_wf st' (remove_nth i cs)" "after cfg st (Some (s_ep c, s_bytes c)) st'"
      using deliver_ok [OF wf i, of cfg dt] True c by metis
    have "sessions_of (remove_nth i cs) = (sessions_of cs)(s_key c := None)" using sessions_of_remove [OF d(6) i] c by simp
    then have "(Some (s_ep c, s_bytes c), sessions_of (remove_nth i cs))
        = add_bytes (s_key c) (s_ep c, s_total c, bs) payload ((sessions_of cs)(s_key c := v))"
      using True len old by (simp add: add_bytes_def)
    then show ?thesis using st' others nk unfolding ble_inv_def by blast
  next
    case False
    have "unat (of_nat (s_total c) :: u32) = s_total c" "unat (of_nat (length (s_bytes c)) :: u32) = length (s_bytes c)"
      using nth_holds [OF wf i] c le by (simp_all add: holds_def unat_of_nat32)
    then have "(of_nat (s_total c) :: u32) \<noteq> of_nat (length (s_bytes c))" using False by metis
    then have "deliver cfg dt i (s_p c) st = Some st"
      using nth_holds [OF wf i] c by (simp add: deliver_def holds_def s_info_def)
    moreover have "ble_inv st cs"
    proof -
      have "set cs \<subseteq> insert c (set (remove_nth i cs))" using i c remove_nth_split(1) [OF i] by (auto simp: remove_nth_split(2) [OF i] dest: arg_cong [of _ _ set])
      then show ?thesis using wf others False le by (auto simp: ble_inv_def)
    qed
    moreover have "sessions_of cs (s_key c) = Some (s_ep c, s_total c, s_bytes c)" using sessions_of_nth [OF d(6) i] c by simp
    then have "(None, sessions_of cs) = add_bytes (s_key c) (s_ep c, s_total c, bs) payload ((sessions_of cs)(s_key c := v))"
      using False le len old by (auto simp: add_bytes_def)
    ultimately show ?thesis using nk after_none [of cfg st st] by blast
  qed
qed

text \<open>A packet that continues a message.\<close>

lemma more_data_ok:
  assumes inv: "ble_inv st cs" and i: "i < length cs" and len: "2 \<le> unat dataLen" "unat dataLen \<le> length data"
  defines "payload \<equiv> take (unat dataLen - 2) (drop 2 data)"
  shows "\<exists>st' cs' out. (more_data data dataLen i (s_p (cs ! i)) st \<bind>
      (\<lambda>(next, st2). case next of None \<Rightarrow> Some st2 | Some (i, p) \<Rightarrow> deliver cfg dt i p st2)) = Some st'
    \<and> ble_inv st' cs' \<and> after cfg st out st' \<and>
    (out, sessions_of cs') = add_bytes (s_key (cs ! i)) (s_ep (cs ! i), s_total (cs ! i), s_bytes (cs ! i)) payload (sessions_of cs)"
proof -
  let ?c = "cs ! i"
  have wf: "ble_wf st cs" and inc: "\<forall>c\<in>set cs. length (s_bytes c) < s_total c" using inv by (auto simp: ble_inv_def)
  note d = ble_wfD [OF wf]
  from nth_holds [OF wf i] have h: "ble_senders st (s_p ?c) = Some (s_info ?c)" "s_total ?c + 1 < 2 ^ 32" "length (s_bytes ?c) \<le> s_total ?c"
    by (auto simp: holds_def)
  have u: "unat (si_recvDataLen (s_info ?c)) = length (s_bytes ?c)" "unat (si_totalDataLen (s_info ?c)) = s_total ?c"
    "si_defragData (s_info ?c) = Some (s_b ?c)"
    using h(2,3) by (simp_all add: s_info_def unat_of_nat32)
  have n: "unat (dataLen - of_nat CA_BLE_HEADER_SIZE) = unat dataLen - 2"
    using len(1) by (simp add: ble_sizes unat_sub_if_size word_le_nat_alt)
  have lp: "length payload = unat dataLen - 2" using len by (simp add: payload_def)
  have others: "\<forall>c\<in>set (remove_nth i cs). length (s_bytes c) < s_total c" using inc set_remove_nth_subset [of i cs] by auto
  show ?thesis
  proof (cases "s_total ?c < length (s_bytes ?c) + length payload")
    case True
    have "more_data data dataLen i (s_p ?c) st = Some (None, gone i ?c st)"
      using discard_eq [OF nth_holds [OF wf i], of i] True lp
      by (auto simp: more_data_def h(1) u n bind_eq_Some_conv)
    moreover have "ble_inv (gone i ?c st) (remove_nth i cs)" using gone_wf [OF wf i] others by (simp add: ble_inv_def)
    moreover have "after cfg st None (gone i ?c st)" using capacity_remove [of "gone i ?c st" st i] by (simp add: after_none gone_def)
    moreover have "(None, sessions_of (remove_nth i cs)) =
        add_bytes (s_key ?c) (s_ep ?c, s_total ?c, s_bytes ?c) payload (sessions_of cs)"
      using True sessions_of_remove [OF d(6) i] by (simp add: add_bytes_def)
    ultimately show ?thesis by force
  next
    case False
    have fits: "length (s_bytes ?c) + (unat dataLen - 2) \<le> s_total ?c" "2 + (unat dataLen - 2) \<le> length data" using False lp len by auto
    let ?c' = "?c\<lparr>s_bytes := s_bytes ?c @ payload\<rparr>"
    obtain st1 where st1: "take_payload (s_p ?c) data 2 (unat dataLen - 2) st = Some st1" "ble_wf st1 (cs[i := ?c'])"
      "ble_list st1 = ble_list st" "ble_mem st1 = ble_mem st" "ble_up st1 = ble_up st" "ble_ssl st1 = ble_ssl st"
      using take_payload_ok [OF wf i fits] unfolding payload_def by metis
    have run: "more_data data dataLen i (s_p ?c) st = Some (Some (i, s_p ?c), st1)"
      using st1(1) False lp n by (simp add: more_data_def h(1) u ble_sizes Let_def)
    have i': "i < length (cs[i := ?c'])" and ci: "cs[i := ?c'] ! i = ?c'" using i by simp_all
    have oth: "\<forall>c\<in>set (remove_nth i (cs[i := ?c'])). length (s_bytes c) < s_total c" using others by simp
    obtain st' cs' out where fin: "deliver cfg dt i (s_p ?c') st1 = Some st'" "ble_inv st' cs'" "after cfg st1 out st'"
      "(out, sessions_of cs') = add_bytes (s_key ?c') (s_ep ?c', s_total ?c', s_bytes ?c) payload
         ((sessions_of (cs[i := ?c']))(s_key ?c' := sessions_of cs (s_key ?c)))"
      using settle_ok [OF st1(2) i' oth ci, of "s_bytes ?c" payload cfg dt "sessions_of cs (s_key ?c)"] by auto
    have k: "s_key ?c' = s_key ?c" by (simp add: s_key_def)
    have "(sessions_of (cs[i := ?c']))(s_key ?c := sessions_of cs (s_key ?c)) = sessions_of cs"
      using sessions_of_update [OF d(6) i k] by simp
    moreover have "after cfg st out st'" using fin(3) st1 by (simp add: after_def capacity_def)
    ultimately show ?thesis using fin run k by auto
  qed
qed

section \<open>Start packets\<close>

definition start_ep :: "CABLEPacketSecure \<Rightarrow> string \<Rightarrow> u16 \<Rightarrow> CAEndpoint" where
  "start_ep sec a pt =
     \<lparr>ep_adapter = CA_ADAPTER_GATT_BTLE,
      ep_flags = (if sec = CA_BLE_PACKET_SECURE then CA_DEFAULT_FLAGS OR CA_SECURE else CA_DEFAULT_FLAGS), ep_port = pt,
      ep_addr = a, ep_ifindex = 0, ep_remoteId = [], ep_routeData = replicate MAX_ADDR_STR_SIZE_CA 0\<rparr>"

lemma append_room:
  assumes "al_inv s" and "u_arraylist_add m (Some s) d = (ok, l, m')"
  shows "(case l of None \<Rightarrow> 0 | Some t \<Rightarrow> al_capacity t) \<le> max (al_capacity s) (2 * length (al_abs (Some s)))"
    and "m = [] \<Longrightarrow> m' = []"
proof -
  have "1 \<le> al_capacity s" using assms(1) by (simp add: al_inv_def)
  moreover have "((al_capacity s * 3 + 1) mod size_t_mod) div 2 \<le> (al_capacity s * 3 + 1) div 2" by (simp add: div_le_mono)
  ultimately have g: "((al_capacity s * 3 + 1) mod size_t_mod) div 2 \<le> 2 * al_capacity s" by linarith
  show "(case l of None \<Rightarrow> 0 | Some t \<Rightarrow> al_capacity t) \<le> max (al_capacity s) (2 * length (al_abs (Some s)))"
    using assms(2) g unfolding length_al_abs [OF assms(1)]
    by (auto simp: u_arraylist_add_def Let_def split: if_splits prod.splits bool.splits)
  show "m' = []" if "m = []"
    using assms(2) that by (auto simp: u_arraylist_add_def Let_def OICRealloc_def split: if_splits prod.splits bool.splits)
qed

text \<open>An allocation that fails leaves the state as it was, but for the allocator.\<close>

lemma frame_wf:
  assumes "ble_wf st cs" and "ble_list st' = ble_list st" and "ble_senders st' = ble_senders st" and "ble_bufs st' = ble_bufs st"
    and "ble_eps st' = ble_eps st" and "ble_fresh st \<le> ble_fresh st'"
  shows "ble_wf st' cs"
  using assms by (auto simp: ble_wf_def holds_def)

lemma live_addresses:
  assumes wf: "ble_wf st cs" and c: "c \<in> set cs"
  shows "s_p c < ble_fresh st" "s_b c < ble_fresh st" "s_e c < ble_fresh st"
  using ble_wfD(7) [OF wf c] ble_wfD(9) [OF wf, of "s_p c"] ble_wfD(9) [OF wf, of "s_b c"] ble_wfD(9) [OF wf, of "s_e c"]
  by (auto simp: holds_def not_less [symmetric]) blast

text \<open>New objects that are not in the list do not matter.\<close>

lemma unlisted_wf:
  assumes wf: "ble_wf st cs" and fresh: "ble_fresh st \<le> p" "ble_fresh st \<le> b" "ble_fresh st \<le> e"
    and st': "ble_senders st' = (ble_senders st)(p \<mapsto> x)" "ble_bufs st' = (ble_bufs st)(b \<mapsto> y)"
      "ble_eps st' = (ble_eps st)(e \<mapsto> z)" "p < ble_fresh st'" "b < ble_fresh st'" "e < ble_fresh st'"
      "ble_fresh st \<le> ble_fresh st'" "ble_list st' = ble_list st"
  shows "ble_wf st' cs"
proof -
  note d = ble_wfD [OF wf]
  have "holds st' c" if "c \<in> set cs" for c
    using d(7) [OF that] live_addresses [OF wf that] fresh st'(1-3) by (auto simp: holds_def)
  moreover have "ble_senders st' a = None \<and> ble_bufs st' a = None \<and> ble_eps st' a = None" if "ble_fresh st' \<le> a" for a
    using d(9) [of a] that st'(1-7) by auto
  ultimately show ?thesis using d(1-6,8) st'(8) by (simp add: ble_wf_def)
qed

lemma extend_wf:
  assumes wf: "ble_wf st cs" and new: "sessions_of cs (s_key c) = None" "holds st' c"
    and fresh: "ble_fresh st \<le> s_p c" "ble_fresh st \<le> s_b c" "ble_fresh st \<le> s_e c"
    and st': "ble_senders st' = (ble_senders st)(s_p c \<mapsto> x)" "ble_bufs st' = (ble_bufs st)(s_b c \<mapsto> y)"
      "ble_eps st' = (ble_eps st)(s_e c \<mapsto> z)" "s_p c < ble_fresh st'" "s_b c < ble_fresh st'" "s_e c < ble_fresh st'"
      "ble_fresh st \<le> ble_fresh st'" "al_ok (ble_list st')" "ble_list st' \<noteq> None"
      "al_abs (ble_list st') = al_abs (ble_list st) @ [Some (s_p c)]"
  shows "ble_wf st' (cs @ [c])"
proof -
  note d = ble_wfD [OF wf]
  note live = live_addresses [OF wf]
  have "holds st' c'" if "c' \<in> set cs" for c'
    using d(7) [OF that] live [OF that] fresh st'(1-3) by (auto simp: holds_def)
  moreover have "s_p c \<notin> s_p ` set cs" "s_b c \<notin> s_b ` set cs" "s_e c \<notin> s_e ` set cs"
    using live fresh by (force simp: not_less [symmetric])+
  moreover have "s_key c \<notin> s_key ` set cs" using new(1) by (simp add: sessions_of_None)
  moreover have "ble_senders st' a = None \<and> ble_bufs st' a = None \<and> ble_eps st' a = None" if "ble_fresh st' \<le> a" for a
    using d(9) [of a] that st'(1-7) by auto
  ultimately show ?thesis using d(2-6) new(2) st'(8-10) by (simp add: ble_wf_def)
qed

lemma create_endpoint:
  assumes "OICCalloc (ble_mem st) 1 sizeof_CAEndpoint = (ok, m)" and "length a = ADDR_LEN"
  shows "CACreateEndpointObject (if sec = CA_BLE_PACKET_SECURE then CA_DEFAULT_FLAGS OR CA_SECURE else CA_DEFAULT_FLAGS)
      CA_ADAPTER_GATT_BTLE (Some a) pt st =
    (if ok then (Some (ble_fresh st), st\<lparr>ble_mem := m, ble_fresh := Suc (ble_fresh st), ble_eps := (ble_eps st)(ble_fresh st \<mapsto> start_ep sec a pt)\<rparr>)
     else (None, st\<lparr>ble_mem := m, ble_fresh := Suc (ble_fresh st)\<rparr>))"
proof -
  have "take (MAX_ADDR_STR_SIZE_CA - 1) a = a" using assms(2) by (simp add: MAX_ADDR_STR_SIZE_CA_def ADDR_LEN_def)
  then show ?thesis using assms(1) by (simp add: CACreateEndpointObject_def le_alloc_def start_ep_def)
qed

text \<open>The handler sets up a new sender, or refuses the packet and forgets what it allocated.\<close>

lemma new_sender_ok:
  fixes totalLength :: u32
  assumes wf: "ble_wf st cs" and a: "length a = ADDR_LEN" and new: "sessions_of cs (a, pt) = None"
    and len: "6 \<le> unat dataLen" "unat dataLen \<le> length data"
  defines "payload \<equiv> take (unat dataLen - 6) (drop 6 data)" and "n \<equiv> unat totalLength"
  shows "\<exists>r st'. new_sender data dataLen sec a pt totalLength st = Some (r, st')
    \<and> ble_up st' = ble_up st \<and> ble_ssl st' = ble_ssl st \<and> (ble_mem st = [] \<longrightarrow> ble_mem st' = [])
    \<and> capacity st' \<le> max (capacity st) (2 * length cs)
    \<and> (case r of
         None \<Rightarrow> ble_wf st' cs
           \<and> (ble_mem st = [] \<longrightarrow> capacity st < 2 ^ 58 \<longrightarrow> n = 0 \<or> 2 ^ 32 \<le> n + 1 \<or> n < length payload)
       | Some (i, p) \<Rightarrow> i = length cs \<and> n \<noteq> 0 \<and> n + 1 < 2 ^ 32 \<and> length payload \<le> n
           \<and> (\<exists>c. ble_wf st' (cs @ [c]) \<and> s_p c = p \<and> s_ep c = start_ep sec a pt \<and> s_total c = n \<and> s_bytes c = payload))"
    (is "\<exists>r st'. _ = Some (r, st') \<and> ?Q r st'")
proof -
  note d = ble_wfD [OF wf]
  let ?f = "ble_fresh st"
  obtain s where s: "ble_list st = Some s" "al_inv s" using d(1,8) by (auto simp: al_ok_def)
  obtain ok1 m1 where m1: "OICMalloc (ble_mem st) sizeof_CABLESenderInfo = (ok1, m1)" by fastforce
  obtain ok2 m2 where m2: "OICCalloc m1 (unat (totalLength + 1)) 1 = (ok2, m2)" by fastforce
  obtain ok3 m3 where m3: "OICCalloc m2 1 sizeof_CAEndpoint = (ok3, m3)" by fastforce
  obtain ok4 l4 m4 where m4: "u_arraylist_add m3 (Some s) (Some ?f) = (ok4, l4, m4)" using prod_cases3 by blast
  have n32: "n < 2 ^ 32" using unsigned_less [of totalLength, where ?'a = nat] by (simp add: n_def)
  have n1: "unat (totalLength + 1) = (if 2 ^ 32 \<le> n + 1 then 0 else n + 1)"
  proof (cases "2 ^ 32 \<le> n + 1")
    case True
    then have "n + 1 = 2 ^ 32" using n32 by simp
    then show ?thesis using True by (simp add: unat_word_ariths n_def [symmetric])
  next
    case False
    then show ?thesis by (simp add: unat_word_ariths n_def [symmetric])
  qed
  have dl: "unat (dataLen - 6) = unat dataLen - 6" using len(1) by (simp add: unat_sub_if_size word_le_nat_alt)
  have six: "CA_BLE_HEADER_SIZE + CA_BLE_LENGTH_HEADER_SIZE = 6" by (simp add: ble_sizes)
  have lp: "length payload = unat dataLen - 6" using len by (simp add: payload_def)
  have nil1: "ok1 \<and> m1 = []" if "ble_mem st = []" using m1 that by (auto simp: OICMalloc_def sizeof_CABLESenderInfo_def max_object_def)
  have nil2: "m2 = [] \<and> (ok2 \<or> 2 ^ 32 \<le> n + 1)" if "ble_mem st = []"
    using m2 nil1 [OF that] n1 by (auto simp: OICCalloc_def max_object_def split: if_splits)
  have nil3: "m3 = [] \<and> ok3" if "ble_mem st = []"
    using m3 nil2 [OF that] by (auto simp: OICCalloc_def max_object_def sizeof_CAEndpoint_def split: if_splits)
  have z: "totalLength = 0 \<longleftrightarrow> n = 0" by (simp add: n_def unat_eq_zero)
  have refuse: "?Q None st'"
    if "ble_list st' = ble_list st" "ble_senders st' = ble_senders st" "ble_bufs st' = ble_bufs st" "ble_eps st' = ble_eps st"
      "?f \<le> ble_fresh st'" "ble_up st' = ble_up st" "ble_ssl st' = ble_ssl st" "ble_mem st = [] \<longrightarrow> ble_mem st' = []"
      "ble_mem st = [] \<longrightarrow> capacity st < 2 ^ 58 \<longrightarrow> n = 0 \<or> 2 ^ 32 \<le> n + 1 \<or> n < length payload" for st'
    using frame_wf [OF wf that(1-5)] that by (simp add: capacity_def)
  have free: "ble_bufs st (Suc ?f) = None" "ble_eps st (Suc (Suc ?f)) = None" "ble_senders st ?f = None"
    using d(9) [of "Suc ?f"] d(9) [of "Suc (Suc ?f)"] d(9) [of ?f] by simp_all
  show ?thesis
  proof (cases "ok1 \<and> n \<noteq> 0")
    case False
    have "new_sender data dataLen sec a pt totalLength st = Some (None, st\<lparr>ble_mem := m1, ble_fresh := Suc ?f\<rparr>)"
      using False z m1 by (auto simp: new_sender_def le_alloc_def)
    moreover have "?Q None (st\<lparr>ble_mem := m1, ble_fresh := Suc ?f\<rparr>)" by (rule refuse) (use nil1 False in auto)
    ultimately show ?thesis by blast
  next
    case True
    note t1 = True
    let ?st2 = "st\<lparr>ble_mem := m2, ble_fresh := Suc (Suc ?f)\<rparr>"
    show ?thesis
    proof (cases ok2)
      case False
      have "new_sender data dataLen sec a pt totalLength st = Some (None, ?st2)"
        using t1 z m1 m2 False by (simp add: new_sender_def le_alloc_def)
      moreover have "?Q None ?st2" by (rule refuse) (use nil2 False in auto)
      ultimately show ?thesis by blast
    next
      case True
      note t2 = True
      then have n2: "n + 1 < 2 ^ 32" using m2 n1 by (auto simp: OICCalloc_def split: if_splits)
      let ?st3 = "?st2\<lparr>ble_bufs := (ble_bufs ?st2)(Suc ?f \<mapsto> replicate (unat (totalLength + 1)) 0)\<rparr>"
      let ?st4 = "st\<lparr>ble_mem := m3, ble_fresh := Suc (Suc (Suc ?f))\<rparr>"
      show ?thesis
      proof (cases "ok3 \<and> length payload \<le> n")
        case False
        have "new_sender data dataLen sec a pt totalLength st = Some (None, ?st4)"
        proof (cases ok3)
          case True
          then have "n < unat dataLen - 6" using False lp by simp
          then show ?thesis
            using t1 z m1 m2 t2 True free create_endpoint [OF _ a, of ?st3 ok3 m3 sec pt] m3
            unfolding new_sender_def
            by (simp add: le_alloc_def free_buf_def CAFreeEndpoint_def Let_def six dl n_def [symmetric] fun_upd_idem)
        next
          case False
          then show ?thesis
            using t1 z m1 m2 t2 free create_endpoint [OF _ a, of ?st3 ok3 m3 sec pt] m3
            unfolding new_sender_def
            by (simp add: le_alloc_def free_buf_def CAFreeEndpoint_def Let_def fun_upd_idem)
        qed
        moreover have "?Q None ?st4" by (rule refuse) (use nil3 False in auto)
        ultimately show ?thesis by blast
      next
        case True
        let ?ep = "start_ep sec a pt"
        define c where "c = \<lparr>s_p = ?f, s_b = Suc ?f, s_e = Suc (Suc ?f), s_ep = ?ep, s_total = n, s_bytes = payload\<rparr>"
        let ?buf = "payload @ drop (length payload) (replicate (Suc n) 0)"
        define st6 where "st6 = st\<lparr>ble_bufs := (ble_bufs st)(Suc ?f \<mapsto> ?buf), ble_mem := m3, ble_fresh := Suc (Suc (Suc ?f)),
            ble_eps := (ble_eps st)(Suc (Suc ?f) \<mapsto> ?ep), ble_senders := (ble_senders st)(?f \<mapsto> s_info c)\<rparr>"
        define st7 where "st7 = st6\<lparr>ble_list := l4, ble_mem := m4\<rparr>"
        have cp: "copy_into 0 (replicate (Suc n) 0) (Some data) 6 (length payload) = Some ?buf"
          using True len lp by (subst copy_into_ok) (simp_all add: payload_def)
        have key: "s_key c = (a, pt)" by (simp add: c_def s_key_def start_ep_def)
        have stored: "take_payload ?f data 6 (length payload) (st\<lparr>ble_bufs := (ble_bufs st)(Suc ?f \<mapsto> replicate (unat (totalLength + 1)) 0),
            ble_mem := m3, ble_fresh := Suc (Suc (Suc ?f)), ble_eps := (ble_eps st)(Suc (Suc ?f) \<mapsto> ?ep),
            ble_senders := (ble_senders st)(?f \<mapsto> \<lparr>si_recvDataLen = 0, si_totalDataLen = totalLength, si_defragData = Some (Suc ?f),
              si_remoteEndpoint = Some (Suc (Suc ?f))\<rparr>)\<rparr>) = Some st6"
          using cp n1 n2 by (simp add: take_payload_def s_info_def c_def n_def st6_def)
        have app: "list_append ?f st6 = st7" using m4 s by (simp add: list_append_def st6_def st7_def)
        have eps: "ble_eps st7 (Suc (Suc ?f)) = Some ?ep" by (simp add: st7_def st6_def)
        have run: "new_sender data dataLen sec a pt totalLength st =
            CALEGetSenderInfo (Some a) pt st7 \<bind> (\<lambda>found. case found of
               Inr (i, _) \<Rightarrow> Some (Some (i, ?f), st7)
             | Inl _ \<Rightarrow> free_buf (Some (Suc ?f)) st7 \<bind> (\<lambda>st8. CAFreeEndpoint (Some (Suc (Suc ?f))) st8 \<bind>
                 (\<lambda>st9. free_sender ?f st9 \<bind> (\<lambda>st10. Some (None, st10)))))"
        proof -
          have "\<not> n < unat dataLen - 6" using True lp by simp
          moreover have "ep_addr ?ep = a" "ep_port ?ep = pt" by (simp_all add: start_ep_def)
          ultimately show ?thesis
            using t1 z m1 m2 t2 True create_endpoint [OF _ a, of ?st3 ok3 m3 sec pt] m3 stored
            unfolding new_sender_def
            by (simp add: le_alloc_def Let_def six dl n_def [symmetric] lp app eps)
        qed
        have up: "ble_up st7 = ble_up st" "ble_ssl st7 = ble_ssl st" "ble_mem st7 = m4" by (simp_all add: st7_def st6_def)
        have nil4: "ble_mem st = [] \<longrightarrow> m4 = []" using append_room(2) [OF s(2) m4] nil3 by simp
        have cap: "capacity st7 \<le> max (capacity st) (2 * length cs)"
          using append_room(1) [OF s(2) m4] d(2) s(1) by (simp add: capacity_def st7_def)
        show ?thesis
        proof (cases ok4)
          case True
          have hc: "holds st7 c"
            using \<open>ok3 \<and> length payload \<le> n\<close> n2 a by (simp add: holds_def st7_def st6_def c_def start_ep_def)
          have "ble_wf st7 (cs @ [c])"
            by (rule extend_wf [OF wf, where x = "s_info c" and y = ?buf and z = ?ep])
              (use u_arraylist_add_ok [OF s(2) m4] True new key hc s in \<open>simp_all add: st7_def st6_def c_def\<close>)
          moreover from lookup_found [OF this a, of "length cs" pt] key
          have "new_sender data dataLen sec a pt totalLength st = Some (Some (length cs, ?f), st7)"
            unfolding run by (simp add: c_def)
          ultimately show ?thesis
            using up nil4 cap t1 n2 \<open>ok3 \<and> length payload \<le> n\<close>
            by (intro exI [of _ "Some (length cs, ?f)"] exI [of _ st7]) (auto simp: c_def)
        next
          case False
          have l4: "l4 = Some s" using m4 False by (auto simp: u_arraylist_add_def Let_def split: if_splits prod.splits bool.splits)
          have "ble_wf st7 cs"
            by (rule unlisted_wf [OF wf, where p = ?f and b = "Suc ?f" and e = "Suc (Suc ?f)" and x = "s_info c" and y = ?buf and z = ?ep])
              (use l4 s in \<open>simp_all add: st7_def st6_def\<close>)
          from lookup_unknown [OF this a new]
          have "new_sender data dataLen sec a pt totalLength st = Some (None, st\<lparr>ble_mem := m4, ble_fresh := Suc (Suc (Suc ?f))\<rparr>)"
            unfolding run using free l4 s
            by (simp add: free_buf_def CAFreeEndpoint_def free_sender_def st7_def st6_def fun_upd_idem)
          moreover have "?Q None (st\<lparr>ble_mem := m4, ble_fresh := Suc (Suc (Suc ?f))\<rparr>)"
          proof (rule refuse)
            show "ble_mem st = [] \<longrightarrow> capacity st < 2 ^ 58 \<longrightarrow> n = 0 \<or> 2 ^ 32 \<le> n + 1 \<or> n < length payload"
              using False nil3 u_arraylist_add_room [OF s(2), of "Some ?f"] m4 s(1) by (auto simp: capacity_def)
          qed (use nil4 in simp_all)
          ultimately show ?thesis by blast
        qed
      qed
    qed
  qed
qed

section \<open>The handler\<close>

text \<open>How a packet is read, whatever its bytes are.\<close>

definition is_start :: "u8 list \<Rightarrow> bool" where "is_start bs = bit (bs ! 0) 7"
definition source_port :: "u8 list \<Rightarrow> u16" where "source_port bs = ucast (bs ! 0 AND 0x7f)"
definition dest_port :: "u8 list \<Rightarrow> u16" where "dest_port bs = ucast (bs ! 1 AND 0x7f)"
definition secure_of_packet :: "u8 list \<Rightarrow> CABLEPacketSecure" where
  "secure_of_packet bs = (if bit (bs ! 1) 7 then CA_BLE_PACKET_SECURE else CA_BLE_PACKET_NON_SECURE)"
definition announced :: "u8 list \<Rightarrow> u32" where
  "announced bs = foldl (\<lambda>l b. push_bit 8 l OR ucast b) 0 (take 4 (drop 2 bs))"
definition payload_of :: "u8 list \<Rightarrow> u8 list" where
  "payload_of bs = drop (if is_start bs then 6 else 2) bs"

text \<open>A packet that is long enough for its headers.\<close>

definition long_enough :: "u8 list \<Rightarrow> bool" where
  "long_enough bs \<longleftrightarrow> 2 \<le> length bs \<and> (is_start bs \<longrightarrow> 6 \<le> length bs)"

lemma parse_any:
  assumes "2 \<le> length bs"
  shows "CAParseHeader (Some (bs @ rest)) =
    Some (Inr (if is_start bs then CA_BLE_PACKET_START else CA_BLE_PACKET_NOT_START, source_port bs, secure_of_packet bs, dest_port bs))"
proof -
  obtain a b r where "bs = a # b # r" using assms by (metis Suc_le_length_iff numeral_2_eq_2)
  then show ?thesis
    by (simp add: CAParseHeader_def cell_read_def get_flag get_port start_of_def secure_of_def is_start_def source_port_def
        dest_port_def secure_of_packet_def)
qed

lemma parse_length_any:
  assumes "6 \<le> length bs"
  shows "CAParseHeaderPayloadLength (Some (bs @ rest)) CA_BLE_LENGTH_HEADER_SIZE 0 = Some (CA_STATUS_OK, announced bs)"
proof -
  have six: "\<exists>a b w x y z. t = [a, b, w, x, y, z]" if "length t = 6" for t :: "u8 list"
    using that by (auto simp: length_Suc_conv numeral_eq_Suc)
  have "length (take 6 bs) = 6" using assms by simp
  from six [OF this] obtain a b w x y z where "take 6 bs = [a, b, w, x, y, z]" by blast
  then have "bs = a # b # w # x # y # z # drop 6 bs" by (metis append_take_drop_id append_Cons append_Nil)
  then obtain r where "bs = a # b # w # x # y # z # r" by blast
  then show ?thesis by (simp add: CAParseHeaderPayloadLength_def ble_sizes read_length_bytes announced_def)
qed

text \<open>An entry of the queue as \<open>CACreateLEData\<close> makes it.\<close>

definition queued :: "CAEndpoint \<Rightarrow> u8 list \<Rightarrow> CALEData" where
  "queued remote bs = \<lparr>ld_remoteEndpoint = Some remote, ld_data = bs @ [0], ld_dataLen = of_nat (length bs), ld_senderInfo = True\<rparr>"

definition listening :: "le_config \<Rightarrow> CABLEAdapter \<Rightarrow> bool" where
  "listening cfg ty \<longleftrightarrow> g_dataBleReceiverHandlerState cfg \<and> (ty = ADAPTER_CLIENT \<or> ty = ADAPTER_SERVER)"

definition for_us :: "le_config \<Rightarrow> u8 list \<Rightarrow> bool" where
  "for_us cfg bs \<longleftrightarrow> dest_port bs = ucast (g_localBLESourcePort cfg) \<or> dest_port bs = CA_BLE_MULTICAST_PORT"

lemma handler_not_for_us:
  assumes "listening cfg ty" and "long_enough bs" and "\<not> for_us cfg bs"
  shows "CALEDataReceiverHandler cfg ty (Some (queued remote bs)) st = Some st"
  using assms parse_any [of bs "[0]"]
  by (auto simp: CALEDataReceiverHandler_def listening_def long_enough_def for_us_def queued_def)

lemma handler_continue:
  assumes inv: "ble_inv st cs" and l: "listening cfg ty" "for_us cfg bs" and b: "2 \<le> length bs" "\<not> is_start bs" "length bs < 2 ^ 32"
    and a: "length (ep_addr remote) = ADDR_LEN"
  defines "ep \<equiv> start_ep (secure_of_packet bs) (ep_addr remote) (source_port bs)"
  shows "\<exists>st' cs' out. CALEDataReceiverHandler cfg ty (Some (queued remote bs)) st = Some st' \<and> ble_inv st' cs' \<and> after cfg st out st'
    \<and> (out, sessions_of cs') = reassemble False ep n (drop 2 bs) (sessions_of cs)"
proof -
  have wf: "ble_wf st cs" using inv by (simp add: ble_inv_def)
  let ?k = "(ep_addr remote, source_port bs)"
  have k: "(ep_addr ep, ep_port ep) = ?k" by (simp add: ep_def start_ep_def)
  show ?thesis
  proof (cases "sessions_of cs ?k")
    case None
    have "CALEDataReceiverHandler cfg ty (Some (queued remote bs)) st = Some st"
      using l b parse_any [of bs "[0]"] lookup_unknown [OF wf a None]
      by (auto simp: CALEDataReceiverHandler_def listening_def for_us_def queued_def)
    moreover have "(None, sessions_of cs) = reassemble False ep n (drop 2 bs) (sessions_of cs)"
      using None k by (simp add: reassemble_def)
    ultimately show ?thesis using inv after_none [of cfg st st] by blast
  next
    case (Some v)
    obtain i where i: "i < length cs" "s_key (cs ! i) = ?k" "v = (s_ep (cs ! i), s_total (cs ! i), s_bytes (cs ! i))"
      using sessions_of_Some [OF Some] by metis
    have len: "2 \<le> unat (of_nat (length bs) :: u32)" "unat (of_nat (length bs) :: u32) \<le> length (bs @ [0])"
      using b by (simp_all add: unat_of_nat32)
    let ?dt = "if ty = ADAPTER_CLIENT then CA_REQUEST_DATA else CA_RESPONSE_DATA"
    have run: "CALEDataReceiverHandler cfg ty (Some (queued remote bs)) st =
        (more_data (bs @ [0]) (of_nat (length bs)) i (s_p (cs ! i)) st \<bind>
          (\<lambda>(next, st2). case next of None \<Rightarrow> Some st2 | Some (i, p) \<Rightarrow> deliver cfg ?dt i p st2))"
      using l b parse_any [of bs "[0]"] lookup_found [OF wf a i(1,2)]
      by (auto simp: CALEDataReceiverHandler_def listening_def for_us_def queued_def Let_def)
    have "take (length bs - 2) (drop 2 (bs @ [0])) = drop 2 bs" using b(1) by simp
    then have p: "take (unat (of_nat (length bs) :: u32) - 2) (drop 2 (bs @ [0])) = drop 2 bs" using b(3) by (simp add: unat_of_nat32)
    have "reassemble False ep n (drop 2 bs) (sessions_of cs) =
        add_bytes (s_key (cs ! i)) (s_ep (cs ! i), s_total (cs ! i), s_bytes (cs ! i)) (drop 2 bs) (sessions_of cs)"
      using Some i k by (simp add: reassemble_def)
    then show ?thesis using more_data_ok [OF inv i(1) len, of cfg ?dt] unfolding run p by simp
  qed
qed

lemma length_sessions:
  assumes "ble_wf st cs"
  shows "card (dom (sessions_of cs)) = length cs"
proof -
  have "dom (sessions_of cs) = set (map s_key cs)" by (auto simp: dom_def sessions_of_None)
  then show ?thesis using distinct_card [OF ble_wfD(6) [OF assms]] by simp
qed

lemma sessions_of_snoc:
  "sessions_of cs (s_key c) = None \<Longrightarrow> (sessions_of (cs @ [c]))(s_key c := None) = sessions_of cs"
  by (auto simp: sessions_of_def map_add_def fun_eq_iff split: option.splits)

text \<open>What a start packet may do: act as \<open>reassemble\<close> says, or be dropped for lack of memory.\<close>

definition enough_memory :: "ble \<Rightarrow> bool" where
  "enough_memory st \<longleftrightarrow> ble_mem st = [] \<and> capacity st < 2 ^ 58"

definition went_up :: "le_config \<Rightarrow> ble \<Rightarrow> (CAEndpoint \<times> u8 list) option \<Rightarrow> ble \<Rightarrow> bool" where
  "went_up cfg st out st' \<longleftrightarrow> ble_up st' = ble_up st @ to_callback cfg out \<and> ble_ssl st' = ble_ssl st @ to_dtls cfg out
     \<and> (ble_mem st = [] \<longrightarrow> ble_mem st' = [])"

lemma went_up_after: "after cfg st out st' \<Longrightarrow> went_up cfg st out st'"
  by (simp add: after_def went_up_def)

text \<open>A start packet first forgets what was known of the sender.\<close>

lemma start_run:
  assumes wf: "ble_wf st cs" and l: "listening cfg ty" "for_us cfg bs" and b: "6 \<le> length bs" "is_start bs"
    and a: "length (ep_addr remote) = ADDR_LEN"
  defines "k \<equiv> (ep_addr remote, source_port bs)"
  obtains st1 cs1 where
    "CALEDataReceiverHandler cfg ty (Some (queued remote bs)) st =
      (new_sender (bs @ [0]) (of_nat (length bs)) (secure_of_packet bs) (ep_addr remote) (source_port bs) (announced bs) st1 \<bind>
        (\<lambda>(next, st2). case next of None \<Rightarrow> Some st2
          | Some (i, p) \<Rightarrow> deliver cfg (if ty = ADAPTER_CLIENT then CA_REQUEST_DATA else CA_RESPONSE_DATA) i p st2))"
    "ble_wf st1 cs1" "set cs1 \<subseteq> set cs" "length cs1 \<le> length cs" "sessions_of cs1 = (sessions_of cs)(k := None)"
    "ble_up st1 = ble_up st" "ble_ssl st1 = ble_ssl st" "ble_mem st1 = ble_mem st" "capacity st1 = capacity st"
proof (cases "sessions_of cs k")
  case None
  note u = lookup_unknown [OF wf a None [unfolded k_def]]
  have run: "CALEDataReceiverHandler cfg ty (Some (queued remote bs)) st =
      (new_sender (bs @ [0]) (of_nat (length bs)) (secure_of_packet bs) (ep_addr remote) (source_port bs) (announced bs) st \<bind>
        (\<lambda>(next, st2). case next of None \<Rightarrow> Some st2
          | Some (i, p) \<Rightarrow> deliver cfg (if ty = ADAPTER_CLIENT then CA_REQUEST_DATA else CA_RESPONSE_DATA) i p st2))"
    using l b parse_any [of bs "[0]"] parse_length_any [OF b(1), of "[0]"]
    by (auto simp: CALEDataReceiverHandler_def listening_def for_us_def queued_def Let_def u)
  show ?thesis by (rule that [OF run wf]) (use None in \<open>simp_all add: fun_upd_idem\<close>)
next
  case (Some v)
  obtain i where i: "i < length cs" "s_key (cs ! i) = k" using sessions_of_Some [OF Some] by metis
  let ?c = "cs ! i"
  from nth_holds [OF wf i(1)] have h: "ble_senders (list_remove i st) (s_p ?c) = Some (s_info ?c)"
    by (simp add: holds_def list_remove_def)
  have d: "si_defragData (s_info ?c) = Some (s_b ?c)" by (simp add: s_info_def)
  obtain st2 where f: "free_buf (Some (s_b ?c)) (list_remove i st) = Some st2" "free_sender (s_p ?c) st2 = Some (gone i ?c st)"
    using discard_eq [OF nth_holds [OF wf i(1)], of i] by (auto simp: bind_eq_Some_conv)
  have run: "CALEDataReceiverHandler cfg ty (Some (queued remote bs)) st =
      (new_sender (bs @ [0]) (of_nat (length bs)) (secure_of_packet bs) (ep_addr remote) (source_port bs) (announced bs) (gone i ?c st) \<bind>
        (\<lambda>(next, st2). case next of None \<Rightarrow> Some st2
          | Some (i, p) \<Rightarrow> deliver cfg (if ty = ADAPTER_CLIENT then CA_REQUEST_DATA else CA_RESPONSE_DATA) i p st2))"
    using l b parse_any [of bs "[0]"] parse_length_any [OF b(1), of "[0]"] lookup_found [OF wf a i [unfolded k_def]]
    by (auto simp: CALEDataReceiverHandler_def listening_def for_us_def queued_def Let_def h d f)
  show ?thesis
    by (rule that [OF run gone_wf [OF wf i(1)]])
      (use set_remove_nth_subset [of i cs] i sessions_of_remove [OF ble_wfD(6) [OF wf] i(1)] capacity_remove [of "gone i ?c st" st i]
        in \<open>simp_all add: gone_def\<close>)
qed

lemma handler_start:
  assumes inv: "ble_inv st cs" and l: "listening cfg ty" "for_us cfg bs" and b: "6 \<le> length bs" "is_start bs" "length bs < 2 ^ 32"
    and a: "length (ep_addr remote) = ADDR_LEN"
  defines "ep \<equiv> start_ep (secure_of_packet bs) (ep_addr remote) (source_port bs)" and "n \<equiv> unat (announced bs)"
  shows "\<exists>st' cs' out. CALEDataReceiverHandler cfg ty (Some (queued remote bs)) st = Some st' \<and> ble_inv st' cs' \<and> went_up cfg st out st'
    \<and> capacity st' \<le> max (capacity st) (2 * length cs)
    \<and> ((out, sessions_of cs') = reassemble True ep n (drop 6 bs) (sessions_of cs)
       \<or> \<not> enough_memory st \<and> out = None \<and> sessions_of cs' = (sessions_of cs)((ep_addr ep, ep_port ep) := None))"
proof -
  have wf: "ble_wf st cs" and inc: "\<forall>c\<in>set cs. length (s_bytes c) < s_total c" using inv by (auto simp: ble_inv_def)
  let ?pt = "source_port bs" let ?a = "ep_addr remote" let ?sec = "secure_of_packet bs"
  let ?dt = "if ty = ADAPTER_CLIENT then CA_REQUEST_DATA else CA_RESPONSE_DATA"
  have k: "ep_addr ep = ?a" "ep_port ep = ?pt" by (simp_all add: ep_def start_ep_def)
  obtain st1 cs1 where run: "CALEDataReceiverHandler cfg ty (Some (queued remote bs)) st =
      (new_sender (bs @ [0]) (of_nat (length bs)) ?sec ?a ?pt (announced bs) st1 \<bind>
        (\<lambda>(next, st2). case next of None \<Rightarrow> Some st2 | Some (i, p) \<Rightarrow> deliver cfg ?dt i p st2))"
    and wf1: "ble_wf st1 cs1" and sub: "set cs1 \<subseteq> set cs" "length cs1 \<le> length cs" and ss: "sessions_of cs1 = (sessions_of cs)((?a, ?pt) := None)"
    and same: "ble_up st1 = ble_up st" "ble_ssl st1 = ble_ssl st" "ble_mem st1 = ble_mem st" "capacity st1 = capacity st"
    by (rule start_run [OF wf l b(1,2) a])
  have inc1: "\<forall>c\<in>set cs1. length (s_bytes c) < s_total c" using inc sub by blast
  have u: "unat (of_nat (length bs) :: u32) = length bs" using b(3) by (rule unat_of_nat32)
  have len: "6 \<le> unat (of_nat (length bs) :: u32)" "unat (of_nat (length bs) :: u32) \<le> length (bs @ [0])" using b by (simp_all add: u)
  have new: "sessions_of cs1 (?a, ?pt) = None" using ss by simp
  have pay: "take (unat (of_nat (length bs) :: u32) - 6) (drop 6 (bs @ [0])) = drop 6 bs" using b(1) by (simp add: u)
  obtain r st2 where ns: "new_sender (bs @ [0]) (of_nat (length bs)) ?sec ?a ?pt (announced bs) st1 = Some (r, st2)"
    and eff: "ble_up st2 = ble_up st1" "ble_ssl st2 = ble_ssl st1" "ble_mem st1 = [] \<longrightarrow> ble_mem st2 = []"
      "capacity st2 \<le> max (capacity st1) (2 * length cs1)"
    and res: "case r of
         None \<Rightarrow> ble_wf st2 cs1
           \<and> (ble_mem st1 = [] \<longrightarrow> capacity st1 < 2 ^ 58 \<longrightarrow> n = 0 \<or> 2 ^ 32 \<le> n + 1 \<or> n < length (drop 6 bs))
       | Some (i, p) \<Rightarrow> i = length cs1 \<and> n \<noteq> 0 \<and> n + 1 < 2 ^ 32 \<and> length (drop 6 bs) \<le> n
           \<and> (\<exists>c. ble_wf st2 (cs1 @ [c]) \<and> s_p c = p \<and> s_ep c = start_ep ?sec ?a ?pt \<and> s_total c = n \<and> s_bytes c = drop 6 bs)"
    using new_sender_ok [OF wf1 a new len, of ?sec "announced bs"] unfolding pay n_def by blast
  have cap: "capacity st2 \<le> max (capacity st) (2 * length cs)" using eff(4) same(4) sub(2) by linarith
  show ?thesis
  proof (cases r)
    case None
    have "CALEDataReceiverHandler cfg ty (Some (queued remote bs)) st = Some st2" using run ns None by simp
    moreover have "ble_inv st2 cs1" using res None inc1 by (simp add: ble_inv_def)
    moreover have "went_up cfg st None st2" using eff same by (simp add: went_up_def to_callback_def to_dtls_def)
    moreover have "(None, sessions_of cs1) = reassemble True ep n (drop 6 bs) (sessions_of cs)
       \<or> \<not> enough_memory st \<and> sessions_of cs1 = (sessions_of cs)((ep_addr ep, ep_port ep) := None)"
      using res None same ss k by (auto simp: reassemble_def add_bytes_def enough_memory_def Let_def)
    ultimately show ?thesis using cap by blast
  next
    case (Some ip)
    obtain c where r: "r = Some (length cs1, s_p c)" and n: "n \<noteq> 0" "n + 1 < 2 ^ 32" and wf2: "ble_wf st2 (cs1 @ [c])"
      and c: "s_ep c = ep" "s_total c = n" "s_bytes c = drop 6 bs"
      using res Some by (auto simp: ep_def split: prod.splits)
    have rm: "remove_nth (length cs1) (cs1 @ [c]) = cs1" by (simp add: remove_nth_def)
    have key: "s_key c = (?a, ?pt)" using c k by (simp add: s_key_def)
    obtain st' cs' out where fin: "deliver cfg ?dt (length cs1) (s_p c) st2 = Some st'" "ble_inv st' cs'" "after cfg st2 out st'"
      "(out, sessions_of cs') = add_bytes (s_key c) (s_ep c, s_total c, []) (drop 6 bs) ((sessions_of (cs1 @ [c]))(s_key c := None))"
      using settle_ok [OF wf2, of "length cs1" c "[]" "drop 6 bs" cfg ?dt None] inc1 c(3) unfolding rm by auto
    have "CALEDataReceiverHandler cfg ty (Some (queued remote bs)) st = Some st'" using run ns r fin(1) by simp
    moreover have "went_up cfg st out st'" using fin(3) eff same by (simp add: went_up_def after_def)
    moreover have "capacity st' \<le> max (capacity st) (2 * length cs)" using fin(3) cap by (simp add: after_def)
    moreover have "(sessions_of (cs1 @ [c]))(s_key c := None) = (sessions_of cs)((?a, ?pt) := None)"
      using sessions_of_snoc [of cs1 c] new key ss by simp
    then have "(out, sessions_of cs') = reassemble True ep n (drop 6 bs) (sessions_of cs)"
      using fin(4) n key c k by (simp add: reassemble_def Let_def)
    ultimately show ?thesis using fin(2) by blast
  qed
qed

lemma handler_any:
  assumes inv: "ble_inv st cs" and l: "listening cfg ty" and b: "long_enough bs" "length bs < 2 ^ 32"
    and a: "length (ep_addr remote) = ADDR_LEN"
  defines "ep \<equiv> start_ep (secure_of_packet bs) (ep_addr remote) (source_port bs)"
  shows "\<exists>st' cs' out. CALEDataReceiverHandler cfg ty (Some (queued remote bs)) st = Some st' \<and> ble_inv st' cs' \<and> went_up cfg st out st'
    \<and> capacity st' \<le> max (capacity st) (2 * card (dom (sessions_of cs)))
    \<and> ((out, sessions_of cs') =
          (if for_us cfg bs then reassemble (is_start bs) ep (unat (announced bs)) (payload_of bs) (sessions_of cs) else (None, sessions_of cs))
       \<or> \<not> enough_memory st \<and> out = None \<and> sessions_of cs' = (sessions_of cs)((ep_addr ep, ep_port ep) := None))"
proof -
  have wf: "ble_wf st cs" using inv by (simp add: ble_inv_def)
  consider (other) "\<not> for_us cfg bs" | (start) "for_us cfg bs" "is_start bs" | (more) "for_us cfg bs" "\<not> is_start bs" by blast
  then show ?thesis
  proof cases
    case other
    have "went_up cfg st None st" by (simp add: went_up_def to_callback_def to_dtls_def)
    then show ?thesis using handler_not_for_us [OF l b(1) other, of remote st] inv other
      by (intro exI [of _ st] exI [of _ cs] exI [of _ None]) simp
  next
    case start
    then show ?thesis
      using handler_start [OF inv l start(1) _ start(2) b(2) a] b(1) unfolding length_sessions [OF wf] ep_def
      by (simp add: long_enough_def payload_of_def)
  next
    case more
    obtain st' cs' out where h: "CALEDataReceiverHandler cfg ty (Some (queued remote bs)) st = Some st'" "ble_inv st' cs'" "after cfg st out st'"
      "(out, sessions_of cs') = reassemble False ep (unat (announced bs)) (drop 2 bs) (sessions_of cs)"
      using handler_continue [OF inv l more(1) _ more(2) b(2) a, of "unat (announced bs)"] b(1) unfolding ep_def
      by (auto simp: long_enough_def)
    then show ?thesis using went_up_after [OF h(3)] more
      by (intro exI [of _ st'] exI [of _ cs'] exI [of _ out]) (simp add: payload_of_def after_def)
  qed
qed

section \<open>A whole message\<close>

fun receive_all :: "le_config \<Rightarrow> CABLEAdapter \<Rightarrow> CAEndpoint \<Rightarrow> u8 list list \<Rightarrow> ble \<Rightarrow> ble option" where
  "receive_all cfg ty remote [] st = Some st"
| "receive_all cfg ty remote (p # ps) st =
     CALEDataReceiverHandler cfg ty (Some (queued remote p)) st \<bind> receive_all cfg ty remote ps"

lemma header_fields:
  assumes "valid_ports sp dp"
  shows "is_start (ble_header ty sp sec dp @ rest) \<longleftrightarrow> ty = CA_BLE_PACKET_START"
    "source_port (ble_header ty sp sec dp @ rest) = ucast sp" "dest_port (ble_header ty sp sec dp @ rest) = ucast dp"
    "secure_of_packet (ble_header ty sp sec dp @ rest) = sec"
  using parse_header [OF assms, of ty sec "rest @ []"] parse_any [of "ble_header ty sp sec dp @ rest" "[]"]
  by (auto split: if_splits)

lemma announced_length:
  assumes "n < 2 ^ 32" and "length h = 2"
  shows "announced (h @ len_bytes n @ rest) = of_nat n"
  using parse_length [OF assms, of "rest @ []"] parse_length_any [of "h @ len_bytes n @ rest" "[]"] assms(2)
  by (simp add: ble_sizes)

text \<open>The packets after the first: the message grows until it is complete.\<close>

lemma receive_rest:
  assumes "ble_inv st cs" and l: "listening cfg ty" and a: "length (ep_addr remote) = ADDR_LEN" and p: "valid_ports sp dp"
    and us: "g_localBLESourcePort cfg = dp \<or> dp = 0" and m: "ble_mem st = []"
    and s: "sessions_of cs (ep_addr remote, ucast sp) = Some (ep, n, bs)"
    and parts: "parts \<noteq> []" "\<forall>c\<in>set parts. c \<noteq> [] \<and> length c + 2 < 2 ^ 32" "length bs + length (concat parts) = n"
  shows "\<exists>st' cs'. receive_all cfg ty remote (map (\<lambda>c. ble_header CA_BLE_PACKET_NOT_START sp sec dp @ c) parts) st = Some st'
    \<and> ble_inv st' cs' \<and> sessions_of cs' = (sessions_of cs)((ep_addr remote, ucast sp) := None)
    \<and> went_up cfg st (Some (ep, bs @ concat parts)) st'"
  using assms(1) m s parts
proof (induction parts arbitrary: st cs bs)
  case Nil
  then show ?case by simp
next
  case (Cons c parts)
  let ?p = "ble_header CA_BLE_PACKET_NOT_START sp sec dp @ c" let ?k = "(ep_addr remote, ucast sp) :: sender_key"
  note f = header_fields [OF p, of CA_BLE_PACKET_NOT_START sec c]
  have fu: "for_us cfg ?p" using us f(3) by (auto simp: for_us_def ble_sizes)
  have lp: "2 \<le> length ?p" "\<not> is_start ?p" "length ?p < 2 ^ 32" using f(1) Cons.prems(5) by auto
  obtain st1 cs1 out where h: "CALEDataReceiverHandler cfg ty (Some (queued remote ?p)) st = Some st1" "ble_inv st1 cs1" "after cfg st out st1"
    "(out, sessions_of cs1) = reassemble False (start_ep sec (ep_addr remote) (ucast sp)) 0 (drop 2 ?p) (sessions_of cs)"
    using handler_continue [OF Cons.prems(1) l fu lp a, of 0] unfolding f by blast
  have step: "(out, sessions_of cs1) = add_bytes ?k (ep, n, bs) c (sessions_of cs)"
    using h(4) Cons.prems(3) by (simp add: reassemble_def start_ep_def)
  show ?case
  proof (cases "parts = []")
    case True
    then have "out = Some (ep, bs @ c)" "sessions_of cs1 = (sessions_of cs)(?k := None)"
      using step Cons.prems(6) by (simp_all add: add_bytes_def)
    then show ?thesis using h True went_up_after [OF h(3)] by (intro exI [of _ st1] exI [of _ cs1]) simp
  next
    case False
    have "0 < length (concat parts)" using False Cons.prems(5) by (cases parts) auto
    moreover have "length bs + (length c + length (concat parts)) = n" using Cons.prems(6) by simp
    ultimately have "length bs + length c < n" by linarith
    then have out: "out = None" "sessions_of cs1 = (sessions_of cs)(?k \<mapsto> (ep, n, bs @ c))"
      using step by (simp_all add: add_bytes_def)
    have m1: "ble_mem st1 = []" using h(3) Cons.prems(2) by (simp add: after_def)
    have pr: "sessions_of cs1 ?k = Some (ep, n, bs @ c)" "\<forall>c\<in>set parts. c \<noteq> [] \<and> length c + 2 < 2 ^ 32"
      "length (bs @ c) + length (concat parts) = n"
      using out(2) Cons.prems(5,6) by simp_all
    obtain st' cs' where rec: "receive_all cfg ty remote (map (\<lambda>c. ble_header CA_BLE_PACKET_NOT_START sp sec dp @ c) parts) st1 = Some st'"
      "ble_inv st' cs'" "sessions_of cs' = (sessions_of cs1)(?k := None)" "went_up cfg st1 (Some (ep, (bs @ c) @ concat parts)) st'"
      using Cons.IH [OF h(2) m1 pr(1) False pr(2,3)] by blast
    have "went_up cfg st (Some (ep, bs @ concat (c # parts))) st'"
      using rec(4) h(3) out(1) by (simp add: went_up_def after_none)
    then show ?thesis using rec h(1) out(2) by (intro exI [of _ st'] exI [of _ cs']) simp
  qed
qed

lemma start_ep_fields [simp]: "ep_addr (start_ep sec a pt) = a" "ep_port (start_ep sec a pt) = pt"
  by (simp_all add: start_ep_def)

text \<open>The packets of a message, received in order from one sender, give the message back.\<close>

lemma receive_message:
  assumes inv: "ble_inv st cs" and l: "listening cfg ty" and a: "length (ep_addr remote) = ADDR_LEN" and p: "valid_ports sp dp"
    and us: "g_localBLESourcePort cfg = dp \<or> dp = 0" and mem: "enough_memory st"
    and m: "6 \<le> m" "m \<le> 517" and msg: "0 < length msg" "length msg + 1 < 2 ^ 32"
  shows "\<exists>st' cs'. receive_all cfg ty remote (fragments m sp sec dp msg) st = Some st' \<and> ble_inv st' cs'
    \<and> sessions_of cs' = (sessions_of cs)((ep_addr remote, ucast sp) := None)
    \<and> went_up cfg st (Some (start_ep sec (ep_addr remote) (ucast sp), msg)) st'"
proof -
  let ?n = "length msg" let ?k = "(ep_addr remote, ucast sp) :: sender_key" let ?ep = "start_ep sec (ep_addr remote) (ucast sp)"
  let ?h = "ble_header CA_BLE_PACKET_START sp sec dp" let ?pay = "take (m - 6) msg"
  let ?p = "?h @ len_bytes ?n @ ?pay"
  note f = header_fields [OF p, of CA_BLE_PACKET_START sec "len_bytes ?n @ ?pay"]
  have fu: "for_us cfg ?p" using us f(3) by (auto simp: for_us_def ble_sizes)
  have lp: "6 \<le> length ?p" "is_start ?p" "length ?p < 2 ^ 32" using f(1) m by auto
  have an: "unat (announced ?p) = ?n" using announced_length [of ?n ?h ?pay] msg(2) by (simp add: unat_of_nat32)
  have dr: "drop 6 ?p = ?pay" by simp
  obtain st1 cs1 out where h: "CALEDataReceiverHandler cfg ty (Some (queued remote ?p)) st = Some st1" "ble_inv st1 cs1" "went_up cfg st out st1"
    "(out, sessions_of cs1) = reassemble True ?ep ?n ?pay (sessions_of cs)"
    using handler_start [OF inv l fu lp a] mem unfolding f an dr by blast
  have m1: "ble_mem st1 = []" using h(3) mem by (simp add: went_up_def enough_memory_def)
  have step: "(out, sessions_of cs1) = add_bytes ?k (?ep, ?n, []) ?pay ((sessions_of cs)(?k := None))"
    using h(4) msg by (simp add: reassemble_def Let_def)
  show ?thesis
  proof (cases "?n \<le> m - 6")
    case True
    then have "out = Some (?ep, msg)" "sessions_of cs1 = (sessions_of cs)(?k := None)" "fragments m sp sec dp msg = [?p]"
      using step by (simp_all add: add_bytes_def fragments_def)
    then show ?thesis using h by (intro exI [of _ st1] exI [of _ cs1]) simp
  next
    case False
    have "length ?pay = m - 6" using False by simp
    then have out: "out = None" "sessions_of cs1 = (sessions_of cs)(?k \<mapsto> (?ep, ?n, ?pay))"
      using step False by (simp_all add: add_bytes_def)
    let ?parts = "chunks (m - 2) (drop (m - 6) msg)"
    have cc: "concat ?parts = drop (m - 6) msg" using m(1) by (simp add: concat_chunks)
    have ne: "?parts \<noteq> []" using cc False by auto
    have sz: "\<forall>c\<in>set ?parts. c \<noteq> [] \<and> length c + 2 < 2 ^ 32" using chunks_parts m by fastforce
    have ln: "length ?pay + length (concat ?parts) = ?n" unfolding cc using False by simp
    have s1: "sessions_of cs1 ?k = Some (?ep, ?n, ?pay)" using out(2) by simp
    obtain st' cs' where rec: "receive_all cfg ty remote (map (\<lambda>c. ble_header CA_BLE_PACKET_NOT_START sp sec dp @ c) ?parts) st1 = Some st'"
      "ble_inv st' cs'" "sessions_of cs' = (sessions_of cs1)(?k := None)" "went_up cfg st1 (Some (?ep, ?pay @ concat ?parts)) st'"
      using receive_rest [OF h(2) l a p us m1 s1 ne sz ln] by blast
    have "went_up cfg st (Some (?ep, msg)) st'"
      using rec(4) h(3) out(1) unfolding cc by (simp add: went_up_def to_callback_def to_dtls_def)
    then show ?thesis using rec h(1) out(2) unfolding fragments_def by (intro exI [of _ st'] exI [of _ cs']) simp
  qed
qed

section \<open>Properties\<close>

text \<open>The state after \<open>CAInitLEServerReceiverQueue\<close>, and a configuration with a callback.\<close>

definition example_ble :: ble where
  "example_ble = \<lparr>ble_list = Some \<lparr>al_data = [None], al_length = 0, al_capacity = 1\<rparr>, ble_senders = (\<lambda>_. None), ble_bufs = (\<lambda>_. None),
     ble_eps = (\<lambda>_. None), ble_fresh = 0, ble_mem = [], ble_up = [], ble_ssl = [], ble_dataType = CA_REQUEST_DATA\<rparr>"

definition example_config :: le_config where
  "example_config = \<lparr>g_localBLESourcePort = 51, g_dataBleReceiverHandlerState = True, g_networkPacketReceivedCallback = True\<rparr>"

definition example_remote :: CAEndpoint where
  "example_remote = start_ep CA_BLE_PACKET_NON_SECURE ''AA:BB:CC:DD:EE:FF'' 0"

lemma example_ble_inv: "ble_inv example_ble []" "enough_memory example_ble"
  by (simp_all add: ble_inv_def ble_wf_def example_ble_def al_ok_def al_inv_def al_abs_def sizeof_ptr_def max_object_def
      enough_memory_def capacity_def)

lemma example_listening:
  "listening example_config ADAPTER_CLIENT" "length (ep_addr example_remote) = ADDR_LEN"
  by (simp_all add: listening_def example_config_def example_remote_def ADDR_LEN_def)

text \<open>
  C27: The receiving handler acts on the senders, seen as a map from address and port to the received
  part of a message, as \<open>reassemble\<close> says, for a packet with any content: the invariant is kept, so that
  no freed object is used and no buffer is overrun, and a complete message goes up at once, to the
  callback or to the DTLS adapter. Without memory a start packet is dropped and nothing else changes.
\<close>

theorem CALEDataReceiverHandler_refines:
  assumes "ble_inv st cs" and "listening cfg ty" and "long_enough bs" and "length bs < 2 ^ 32"
    and "length (ep_addr remote) = ADDR_LEN" and "ep = start_ep (secure_of_packet bs) (ep_addr remote) (source_port bs)"
  shows "\<exists>st' cs' out. CALEDataReceiverHandler cfg ty (Some (queued remote bs)) st = Some st' \<and> ble_inv st' cs'
    \<and> ble_up st' = ble_up st @ to_callback cfg out \<and> ble_ssl st' = ble_ssl st @ to_dtls cfg out
    \<and> ((out, sessions_of cs') =
          (if for_us cfg bs then reassemble (is_start bs) ep (unat (announced bs)) (payload_of bs) (sessions_of cs) else (None, sessions_of cs))
       \<or> \<not> enough_memory st \<and> out = None \<and> sessions_of cs' = (sessions_of cs)((ep_addr ep, ep_port ep) := None))"
  using handler_any [OF assms(1-5)] unfolding assms(6) went_up_def by blast

theorem CALEDataReceiverHandler_refines_witness:
  "\<exists>st' cs'. CALEDataReceiverHandler example_config ADAPTER_CLIENT (Some (queued example_remote [0x81, 51, 0, 0, 0, 2, 7, 8])) example_ble = Some st'
     \<and> ble_inv st' cs' \<and> ble_up st' = [(start_ep CA_BLE_PACKET_NON_SECURE ''AA:BB:CC:DD:EE:FF'' 1, [7, 8])]"
proof -
  let ?bs = "[0x81, 51, 0, 0, 0, 2, 7, 8] :: u8 list"
  have b: "is_start ?bs" "source_port ?bs = 1" "dest_port ?bs = 51" "secure_of_packet ?bs = CA_BLE_PACKET_NON_SECURE"
    "announced ?bs = 2" "payload_of ?bs = [7, 8]"
    by (simp_all add: is_start_def source_port_def dest_port_def secure_of_packet_def announced_def payload_of_def)
  have l: "long_enough ?bs" "for_us example_config ?bs" "length ?bs < 2 ^ 32"
    by (simp_all add: long_enough_def for_us_def b example_config_def)
  let ?ep = "start_ep CA_BLE_PACKET_NON_SECURE ''AA:BB:CC:DD:EE:FF'' 1"
  have e: "?ep = start_ep (secure_of_packet ?bs) (ep_addr example_remote) (source_port ?bs)"
    by (simp add: b example_remote_def)
  have r: "reassemble True ?ep (unat (2 :: u32)) [7, 8] (sessions_of []) = (Some (?ep, [7, 8]), sessions_of [])"
    by (simp add: reassemble_def add_bytes_def sessions_of_def fun_eq_iff)
  have u: "to_callback example_config (Some (?ep, [7, 8])) = [(?ep, [7, 8])]"
    by (simp add: to_callback_def example_config_def start_ep_def CA_SECURE_def CA_DEFAULT_FLAGS_def)
  have i: "is_start ?bs = True" using b(1) by simp
  obtain st' cs' out where h: "CALEDataReceiverHandler example_config ADAPTER_CLIENT (Some (queued example_remote ?bs)) example_ble = Some st'"
    "ble_inv st' cs'" "ble_up st' = ble_up example_ble @ to_callback example_config out"
    "(out, sessions_of cs') = reassemble (is_start ?bs) ?ep (unat (announced ?bs)) (payload_of ?bs) (sessions_of [])"
    using CALEDataReceiverHandler_refines [OF example_ble_inv(1) example_listening(1) l(1,3) example_listening(2) e, unfolded if_P [OF l(2)]] example_ble_inv(2)
    by blast
  have "out = Some (?ep, [7, 8])" using h(4) unfolding i b r by blast
  then have "ble_up st' = [(?ep, [7, 8])]" using h(3) u by (simp add: example_ble_def)
  then show ?thesis using h(1,2) by blast
qed

text \<open>
  C26: A message that one of the sending threads cuts into packets arrives as it was sent: the other
  side hands exactly this message up, once, with the address and port of the sender, and forgets the
  sender; the messages of all other senders stay as they were.
\<close>

theorem ble_end_to_end:
  assumes "(call, thread) \<in> {(CAUpdateCharacteristicsToGattClient, CALEServerSendDataThread),
                               (CAUpdateCharacteristicsToGattServer, CALEClientSendDataThread)}"
    and s: "sendable mtu localPort d ep" "ld_remoteEndpoint d = Some ep" "tx_results t = []"
    and msg: "0 < ld_dataLen d" "unat (ld_dataLen d) + 1 < 2 ^ 32"
    and r: "ble_inv st cs" "enough_memory st" "listening cfg ty" "length (ep_addr remote) = ADDR_LEN"
      "g_localBLESourcePort cfg = ucast (ep_port ep)"
  shows "\<exists>t' st' cs' packets. thread mtu localPort eh (Some d) t = Some t'
    \<and> tx_sent t' = tx_sent t @ map (\<lambda>p. (call, ep_addr ep, p)) packets
    \<and> receive_all cfg ty remote packets st = Some st' \<and> ble_inv st' cs'
    \<and> sessions_of cs' = (sessions_of cs)((ep_addr remote, ucast localPort) := None)
    \<and> (let up = Some (start_ep (secure_flag ep) (ep_addr remote) (ucast localPort), le_message d) in
       ble_up st' = ble_up st @ to_callback cfg up \<and> ble_ssl st' = ble_ssl st @ to_dtls cfg up)"
proof -
  let ?packets = "fragments (unat mtu) localPort (secure_flag ep) (ucast (ep_port ep)) (le_message d)"
  note b = sendableD [OF s(1)]
  have th: "thread = send_thread call" using assms(1) by (auto simp: CALEServerSendDataThread_def CALEClientSendDataThread_def)
  have "thread mtu localPort eh (Some d) t = Some (t\<lparr>tx_sent := tx_sent t @ map (\<lambda>p. (call, ep_addr ep, p)) ?packets\<rparr>)"
    unfolding th by (simp add: send_thread_def s(2) send_packets_eq [OF s(1)] transmit_free [OF s(3)])
  moreover have "0 < length (le_message d)" "length (le_message d) + 1 < 2 ^ 32"
    using msg b(5) by (simp_all add: word_less_nat_alt)
  from receive_message [OF r(1,3,4) b(3) _ r(2) b(1,2) this] r(5)
  obtain st' cs' where "receive_all cfg ty remote ?packets st = Some st'" "ble_inv st' cs'"
    "sessions_of cs' = (sessions_of cs)((ep_addr remote, ucast localPort) := None)"
    "went_up cfg st (Some (start_ep (secure_flag ep) (ep_addr remote) (ucast localPort), le_message d)) st'"
    by blast
  ultimately show ?thesis unfolding went_up_def Let_def
    by (intro exI [of _ "t\<lparr>tx_sent := tx_sent t @ map (\<lambda>p. (call, ep_addr ep, p)) ?packets\<rparr>"] exI [of _ st'] exI [of _ cs'] exI [of _ ?packets]) simp
qed

theorem ble_end_to_end_witness:
  "\<exists>t' st' packets. CALEServerSendDataThread 20 1 False (Some example_data) \<lparr>tx_results = [], tx_sent = [], tx_errors = []\<rparr> = Some t'
     \<and> map (\<lambda>(_, _, p). p) (tx_sent t') = packets
     \<and> receive_all example_config ADAPTER_CLIENT example_remote packets example_ble = Some st'
     \<and> ble_up st' @ ble_ssl st' = [(start_ep (secure_flag example_peer) ''AA:BB:CC:DD:EE:FF'' 1, replicate 30 7)]"
proof -
  have s: "sendable 20 1 example_data example_peer" "ld_remoteEndpoint example_data = Some example_peer"
    by (simp_all add: sendable_def example_data_def example_peer_def valid_ports_def CA_SUPPORTED_BLE_MTU_SIZE_def)
  have m: "0 < ld_dataLen example_data" "unat (ld_dataLen example_data) + 1 < 2 ^ 32" "le_message example_data = replicate 30 7"
    by (simp_all add: example_data_def le_message_def)
  have p: "g_localBLESourcePort example_config = ucast (ep_port example_peer)"
    by (simp add: example_config_def example_peer_def)
  let ?t = "\<lparr>tx_results = [], tx_sent = [], tx_errors = []\<rparr>"
  have t: "tx_results ?t = []" "tx_sent ?t = []" by simp_all
  let ?up = "Some (start_ep (secure_flag example_peer) ''AA:BB:CC:DD:EE:FF'' 1, replicate 30 7)"
  have u: "to_callback example_config ?up @ to_dtls example_config ?up = [the ?up]" "ble_up example_ble = []" "ble_ssl example_ble = []"
    by (auto simp: to_callback_def to_dtls_def example_config_def example_ble_def)
  have a: "ep_addr example_remote = ''AA:BB:CC:DD:EE:FF''" by (simp add: example_remote_def)
  show ?thesis
    using ble_end_to_end [OF _ s t(1) m(1,2) example_ble_inv example_listening p, of CAUpdateCharacteristicsToGattClient CALEServerSendDataThread False] u t
    by (auto simp: m(3) a Let_def comp_def)
qed

section \<open>What is not safe\<close>

text \<open>
  A start packet of four bytes: the block has one byte more than the packet, but the length of the
  message is read from the bytes up to the sixth.
\<close>

lemma short_start_packet_overread:
  assumes "ble_wf st cs" and "listening cfg ty" and "length (ep_addr remote) = ADDR_LEN" and "sessions_of cs (ep_addr remote, 1) = None"
  shows "CALEDataReceiverHandler cfg ty (Some (queued remote [0x81, 0, 0, 0])) st = None"
proof -
  have p: "CAParseHeader (Some ([0x81, 0, 0, 0] @ [0])) = Some (Inr (CA_BLE_PACKET_START, 1, CA_BLE_PACKET_NON_SECURE, 0))"
    by (subst parse_any) (simp_all add: is_start_def source_port_def dest_port_def secure_of_packet_def)
  have "CAParseHeaderPayloadLength (Some ([0x81, 0, 0, 0] @ [0])) CA_BLE_LENGTH_HEADER_SIZE 0 = None"
    by (simp add: CAParseHeaderPayloadLength_def ble_sizes read_length_step cell_read_def)
  then show ?thesis
    using p assms(2) lookup_unknown [OF assms(1,3,4)]
    by (auto simp: CALEDataReceiverHandler_def listening_def queued_def ble_sizes)
qed

text \<open>A message that was handed up: its buffer and its endpoint stay allocated, although nothing refers to them.\<close>

lemma delivered_message_leaks:
  assumes "ble_wf st cs" and "i < length cs" and "length (s_bytes (cs ! i)) = s_total (cs ! i)"
    and "g_networkPacketReceivedCallback cfg" and "CA_SECURE AND ep_flags (s_ep (cs ! i)) = 0"
    and "deliver cfg dt i (s_p (cs ! i)) st = Some st'"
  shows "ble_wf st' (remove_nth i cs) \<and> ble_bufs st' (s_b (cs ! i)) \<noteq> None \<and> ble_eps st' (s_e (cs ! i)) \<noteq> None"
proof -
  have "ble_wf st' (remove_nth i cs)" using deliver_ok [OF assms(1-3), of cfg dt] assms(6) by (metis option.inject)
  moreover have "ble_bufs st' = ble_bufs st" "ble_eps st' = ble_eps st"
    using assms(4-6) nth_holds [OF assms(1,2)] assms(3)
    by (auto simp: deliver_def holds_def s_info_def free_sender_def list_remove_def bind_eq_Some_conv split: if_splits)
  ultimately show ?thesis using nth_holds [OF assms(1,2)] by (auto simp: holds_def)
qed

end
