(* ===== verification/BleCleanup.thy ===== *)
theory BleCleanup
  imports BleReassembly
begin

text \<open>
  The end of a connection in the Bluetooth LE adapter: all senders of an address are forgotten when
  the device disconnects, and all senders when the adapter stops. Nothing is freed twice, whatever
  the outcome of the allocations that collect the ports.
\<close>

section \<open>Forgetting one sender\<close>

text \<open>With a unique key, removing the element at an index is filtering its key out.\<close>

lemma remove_nth_filter:
  assumes "distinct (map f cs)" and "i < length cs"
  shows "remove_nth i cs = filter (\<lambda>c. f c \<noteq> f (cs ! i)) cs"
proof -
  let ?g = "\<lambda>c. f c \<noteq> f (cs ! i)"
  have "distinct (map f (take i cs @ cs ! i # drop (Suc i) cs))"
    using assms by (simp only: remove_nth_split(1) [OF assms(2), symmetric])
  then have "filter ?g (take i cs) = take i cs" "filter ?g (drop (Suc i) cs) = drop (Suc i) cs"
    by (simp_all add: filter_id_conv) (metis imageI)+
  moreover have "filter ?g cs = filter ?g (take i cs @ cs ! i # drop (Suc i) cs)"
    by (simp only: remove_nth_split(1) [OF assms(2), symmetric])
  ultimately show ?thesis by (simp add: remove_nth_split(2) [OF assms(2)])
qed

lemma filter_unknown: "sessions_of cs k = None \<Longrightarrow> filter (\<lambda>c. s_key c \<noteq> k) cs = cs"
  by (auto simp: filter_id_conv sessions_of_None)

lemma drop_port_ok:
  assumes wf: "ble_wf st cs" and a: "length a = ADDR_LEN"
  shows "\<exists>st'. drop_port a i (Some pt) st = Some (Inr st') \<and> ble_wf st' (filter (\<lambda>c. s_key c \<noteq> (a, pt)) cs)
    \<and> ble_up st' = ble_up st \<and> ble_ssl st' = ble_ssl st"
proof (cases "sessions_of cs (a, pt)")
  case None
  then show ?thesis using wf by (simp add: drop_port_def lookup_unknown [OF wf a] filter_unknown)
next
  case (Some v)
  then obtain k where k: "k < length cs" "s_key (cs ! k) = (a, pt)" by (elim sessions_of_Some)
  let ?c = "cs ! k"
  let ?st = "(gone k ?c st)\<lparr>ble_eps := (ble_eps st)(s_e ?c := None)\<rparr>"
  have "drop_port a i (Some pt) st = Some (Inr ?st)"
    using nth_holds [OF wf k(1)]
    by (auto simp: drop_port_def lookup_found [OF wf a k] holds_def list_remove_def s_info_def free_buf_def CAFreeEndpoint_def
        free_sender_def gone_def)
  moreover have "ble_wf ?st (remove_nth k cs)" by (rule forget_wf [OF wf k(1)]) (auto simp: gone_def)
  ultimately show ?thesis using remove_nth_filter [OF ble_wfD(6) [OF wf] k(1)] k(2) by (auto simp: gone_def)
qed

lemma drop_ports_ok:
  assumes "ble_wf st cs" and "length a = ADDR_LEN"
  shows "\<exists>st'. fold_loop (drop_port a) (enumerate n (map Some pts)) st = Some (Inr st')
    \<and> ble_wf st' (filter (\<lambda>c. s_key c \<notin> Pair a ` set pts) cs) \<and> ble_up st' = ble_up st \<and> ble_ssl st' = ble_ssl st"
  using assms(1)
proof (induction pts arbitrary: n st cs)
  case (Cons pt pts)
  obtain st1 where st1: "drop_port a n (Some pt) st = Some (Inr st1)" "ble_wf st1 (filter (\<lambda>c. s_key c \<noteq> (a, pt)) cs)"
    "ble_up st1 = ble_up st" "ble_ssl st1 = ble_ssl st"
    using drop_port_ok [OF Cons.prems assms(2)] by blast
  have "filter (\<lambda>c. s_key c \<notin> Pair a ` set pts) (filter (\<lambda>c. s_key c \<noteq> (a, pt)) cs) = filter (\<lambda>c. s_key c \<notin> Pair a ` set (pt # pts)) cs"
    by (auto intro: filter_cong)
  then show ?case using Cons.IH [OF st1(2), of "Suc n"] st1 by auto
qed simp

section \<open>The ports of an address\<close>

definition ports_of :: "string \<Rightarrow> sess list \<Rightarrow> u16 list" where
  "ports_of a cs = map (\<lambda>c. ep_port (s_ep c)) (filter (\<lambda>c. ep_addr (s_ep c) = a) cs)"

definition al_cap :: "'a u_arraylist option \<Rightarrow> nat" where
  "al_cap l = (case l of None \<Rightarrow> 0 | Some s \<Rightarrow> al_capacity s)"

lemma add_slot:
  assumes "al_ok l" and "u_arraylist_add m l d = (ok, l', m')"
  shows "al_ok l'" "al_abs l' = (if ok then al_abs l @ [d] else al_abs l)"
    "al_cap l' \<le> max (al_cap l) (2 * length (al_abs l))"
    "m = [] \<Longrightarrow> m' = []" "m = [] \<Longrightarrow> l \<noteq> None \<Longrightarrow> al_cap l < 2 ^ 58 \<Longrightarrow> ok" "l \<noteq> None \<Longrightarrow> l' \<noteq> None"
proof -
  have "al_ok l' \<and> al_abs l' = (if ok then al_abs l @ [d] else al_abs l) \<and> al_cap l' \<le> max (al_cap l) (2 * length (al_abs l))
    \<and> (m = [] \<longrightarrow> m' = []) \<and> (m = [] \<longrightarrow> l \<noteq> None \<longrightarrow> al_cap l < 2 ^ 58 \<longrightarrow> ok) \<and> (l \<noteq> None \<longrightarrow> l' \<noteq> None)"
  proof (cases l)
    case None
    then show ?thesis using assms by (auto simp: u_arraylist_add_def al_ok_def al_cap_def)
  next
    case (Some s)
    then have i: "al_inv s" using assms(1) by (simp add: al_ok_def)
    note add = assms(2) [unfolded Some]
    show ?thesis
      using u_arraylist_add_ok [OF i add] append_room [OF i add] u_arraylist_add_room [OF i, of d ok l' m'] add
      unfolding Some by (auto simp: al_cap_def)
  qed
  then show "al_ok l'" "al_abs l' = (if ok then al_abs l @ [d] else al_abs l)"
    "al_cap l' \<le> max (al_cap l) (2 * length (al_abs l))"
    "m = [] \<Longrightarrow> m' = []" "m = [] \<Longrightarrow> l \<noteq> None \<Longrightarrow> al_cap l < 2 ^ 58 \<Longrightarrow> ok" "l \<noteq> None \<Longrightarrow> l' \<noteq> None"
    by simp_all
qed

lemma port_slot_eq:
  assumes "holds st c" and "length a = ADDR_LEN"
  shows "port_slot a st i (Some (s_p c)) (ports, m) =
    (if ep_addr (s_ep c) = a then
       (case OICMalloc m 2 of
          (False, m1) \<Rightarrow> Some (Inl (ports, m1))
        | (True, m1) \<Rightarrow> (case u_arraylist_add m1 ports (Some (ep_port (s_ep c))) of (_, ports1, m2) \<Rightarrow> Some (Inr (ports1, m2))))
     else Some (Inr (ports, m)))"
  using assms by (auto simp: port_slot_def holds_def s_info_def)

text \<open>The list of ports that is collected; all of them when the allocations succeed.\<close>

lemma port_loop:
  assumes "\<forall>c\<in>set ds. holds st c" and "length a = ADDR_LEN" and "al_ok ports"
  shows "\<exists>r ports' m' pts. fold_loop (port_slot a st) (enumerate n (map (\<lambda>c. Some (s_p c)) ds)) (ports, m) = Some r
    \<and> r \<in> {Inl (ports', m'), Inr (ports', m')} \<and> al_ok ports' \<and> al_abs ports' = al_abs ports @ map Some pts \<and> set pts \<subseteq> set (ports_of a ds)
    \<and> (m = [] \<and> ports \<noteq> None \<and> al_cap ports < 2 ^ 58 \<and> length (al_abs ports) + length ds < 2 ^ 57 \<longrightarrow>
        r = Inr (ports', m') \<and> pts = ports_of a ds)"
  using assms(1,3)
proof (induction ds arbitrary: n ports m)
  case Nil
  show ?case using Nil(2) by (intro exI [of _ "Inr (ports, m)"] exI [of _ ports] exI [of _ m] exI [of _ "[]"]) (simp add: ports_of_def)
next
  case (Cons c ds)
  note slot = port_slot_eq [OF _ assms(2), of st c n ports m]
  have h: "holds st c" "\<forall>c\<in>set ds. holds st c" using Cons.prems(1) by simp_all
  show ?case
  proof (cases "ep_addr (s_ep c) = a")
    case False
    then show ?thesis using Cons.IH [OF h(2) Cons.prems(2), of "Suc n" m] slot [OF h(1)] by (auto simp: ports_of_def)
  next
    case True
    obtain ok m1 where m1: "OICMalloc m 2 = (ok, m1)" by fastforce
    obtain ok2 l m2 where add: "u_arraylist_add m1 ports (Some (ep_port (s_ep c))) = (ok2, l, m2)" by (metis prod_cases3)
    note l = add_slot [OF Cons.prems(2) add]
    have ok: "ok \<and> m1 = []" if "m = []" using m1 that by (auto simp: OICMalloc_def max_object_def split: if_splits)
    show ?thesis
    proof (cases ok)
      case False
      then show ?thesis using ok slot [OF h(1)] True m1 Cons.prems(2)
        by (intro exI [of _ "Inl (ports, m1)"] exI [of _ ports] exI [of _ m1] exI [of _ "[]"]) auto
    next
      case ok': True
      obtain r ports' m' pts where ih: "fold_loop (port_slot a st) (enumerate (Suc n) (map (\<lambda>c. Some (s_p c)) ds)) (l, m2) = Some r"
        "r \<in> {Inl (ports', m'), Inr (ports', m')}" "al_ok ports'" "al_abs ports' = al_abs l @ map Some pts" "set pts \<subseteq> set (ports_of a ds)"
        "m2 = [] \<and> l \<noteq> None \<and> al_cap l < 2 ^ 58 \<and> length (al_abs l) + length ds < 2 ^ 57 \<longrightarrow> r = Inr (ports', m') \<and> pts = ports_of a ds"
        using Cons.IH [OF h(2) l(1), of "Suc n" m2] by blast
      let ?pts = "(if ok2 then [ep_port (s_ep c)] else []) @ pts"
      have "fold_loop (port_slot a st) (enumerate n (map (\<lambda>c. Some (s_p c)) (c # ds))) (ports, m) = Some r"
        using ih(1) slot [OF h(1)] True m1 ok' add by simp
      moreover have "al_abs ports' = al_abs ports @ map Some ?pts" "set ?pts \<subseteq> set (ports_of a (c # ds))"
        using ih(4,5) l(2) True by (auto simp: ports_of_def)
      moreover have "r = Inr (ports', m') \<and> ?pts = ports_of a (c # ds)"
        if "m = [] \<and> ports \<noteq> None \<and> al_cap ports < 2 ^ 58 \<and> length (al_abs ports) + length (c # ds) < 2 ^ 57"
      proof -
        have "ok2" "m2 = []" "l \<noteq> None" using that ok l(4-6) by auto
        moreover have "al_cap l < 2 ^ 58" using l(3) that by (auto simp: max_def split: if_splits)
        moreover have "length (al_abs l) + length ds < 2 ^ 57" using l(2) that by simp
        ultimately show ?thesis using ih(6) True by (simp add: ports_of_def)
      qed
      ultimately show ?thesis using ih(2,3) by blast
    qed
  qed
qed

section \<open>Disconnection\<close>

lemma sessions_of_filter:
  "sessions_of (filter (\<lambda>c. Q (s_key c)) cs) = (\<lambda>k. if Q k then sessions_of cs k else None)"
  by (induction cs) (auto simp: sessions_of_def fun_eq_iff)

lemma ble_inv_filter: "ble_inv st cs \<Longrightarrow> ble_wf st' (filter Q cs) \<Longrightarrow> ble_inv st' (filter Q cs)"
  by (auto simp: ble_inv_def)

lemma collect_ports:
  assumes wf: "ble_wf st cs" and a: "length a = ADDR_LEN" and new: "u_arraylist_create (ble_mem st) = (l, m)"
  shows "\<exists>r ports m' pts. CALEGetPortsFromSenderInfo (Some a) (st\<lparr>ble_mem := m\<rparr>) l = Some (r, ports, st\<lparr>ble_mem := m'\<rparr>)
    \<and> al_ok ports \<and> al_abs ports = map Some pts \<and> set pts \<subseteq> set (ports_of a cs)
    \<and> (ble_mem st = [] \<and> length cs < 2 ^ 57 \<longrightarrow> pts = ports_of a cs \<and> r = (if pts = [] then CA_STATUS_FAILED else CA_STATUS_OK))"
proof -
  note l = u_arraylist_create_ok [OF new]
  let ?st = "st\<lparr>ble_mem := m\<rparr>"
  have h: "\<forall>c\<in>set cs. holds ?st c" using ble_wfD(7) [OF wf] by (auto simp: holds_def)
  have room: "m = [] \<and> l \<noteq> None \<and> al_cap l < 2 ^ 58" if "ble_mem st = []"
    using new that
    by (auto simp: u_arraylist_create_def al_cap_def OICMalloc_def OICCalloc_def max_object_def U_ARRAYLIST_DEFAULT_CAPACITY_def sizeof_ptr_def sizeof_u_arraylist_def
        split: prod.splits bool.splits if_splits)
  obtain r ports m' pts where p: "fold_loop (port_slot a ?st) (enumerate 0 (map (\<lambda>c. Some (s_p c)) cs)) (l, m) = Some r"
    "r \<in> {Inl (ports, m'), Inr (ports, m')}" "al_ok ports" "al_abs ports = map Some pts" "set pts \<subseteq> set (ports_of a cs)"
    "m = [] \<and> l \<noteq> None \<and> al_cap l < 2 ^ 58 \<and> length cs < 2 ^ 57 \<longrightarrow> r = Inr (ports, m') \<and> pts = ports_of a cs"
    using port_loop [OF h a l(1), of 0 m, unfolded l(2) append_Nil list.size add_0] by blast
  have slots: "for_slots (ble_list ?st) (port_slot a ?st) 0 (l, m) = Some r"
    using p(1) ble_wfD(1,2) [OF wf] by (simp add: for_slots_all)
  have n: "u_arraylist_length ports = length pts" using al_ok_length [OF p(3)] p(4) by simp
  define code where "code = (case r of Inl _ \<Rightarrow> CA_MEMORY_ALLOC_FAILED | Inr _ \<Rightarrow> if pts = [] then CA_STATUS_FAILED else CA_STATUS_OK)"
  have "CALEGetPortsFromSenderInfo (Some a) ?st l = Some (code, ports, st\<lparr>ble_mem := m'\<rparr>)"
    using p(2) slots n by (auto simp: CALEGetPortsFromSenderInfo_def code_def)
  moreover have "ble_mem st = [] \<and> length cs < 2 ^ 57 \<longrightarrow> pts = ports_of a cs \<and> code = (if pts = [] then CA_STATUS_FAILED else CA_STATUS_OK)"
    using p(6) room by (auto simp: code_def)
  ultimately show ?thesis using p(3-5) by blast
qed

text \<open>
  When a device disconnects, \<open>CALERemoveReceiveQueueData\<close> runs to its end with no object used or
  freed after it was freed, keeps the invariant, hands nothing up and leaves the senders of all other
  addresses as they were; unless an allocation fails, no sender of the address is left.
\<close>

lemma CALERemoveReceiveQueueData_correct:
  assumes inv: "ble_inv st cs" and a: "length a = ADDR_LEN"
  shows "\<exists>st' cs'. CALERemoveReceiveQueueData (Some a) st = Some st' \<and> ble_inv st' cs'
    \<and> ble_up st' = ble_up st \<and> ble_ssl st' = ble_ssl st
    \<and> (\<forall>b pt. sessions_of cs' (b, pt) = sessions_of cs (b, pt) \<or> b = a \<and> sessions_of cs' (b, pt) = None)
    \<and> (ble_mem st = [] \<and> length cs < 2 ^ 57 \<longrightarrow> (\<forall>pt. sessions_of cs' (a, pt) = None))"
proof -
  have wf: "ble_wf st cs" using inv by (simp add: ble_inv_def)
  obtain l :: "u16 u_arraylist option" and m where new: "u_arraylist_create (ble_mem st) = (l, m)" by fastforce
  obtain r ports m' pts where p: "CALEGetPortsFromSenderInfo (Some a) (st\<lparr>ble_mem := m\<rparr>) l = Some (r, ports, st\<lparr>ble_mem := m'\<rparr>)"
    "al_ok ports" "al_abs ports = map Some pts" "set pts \<subseteq> set (ports_of a cs)"
    "ble_mem st = [] \<and> length cs < 2 ^ 57 \<longrightarrow> pts = ports_of a cs \<and> r = (if pts = [] then CA_STATUS_FAILED else CA_STATUS_OK)"
    using collect_ports [OF wf a new] by blast
  let ?st = "st\<lparr>ble_mem := m'\<rparr>"
  have wf': "ble_wf ?st cs" by (rule frame_wf [OF wf]) simp_all
  define used where "used = (if r = CA_STATUS_OK then pts else [])"
  obtain st' where st': "CALERemoveReceiveQueueData (Some a) st = Some st'"
    "ble_wf st' (filter (\<lambda>c. s_key c \<notin> Pair a ` set used) cs)" "ble_up st' = ble_up st" "ble_ssl st' = ble_ssl st"
    using drop_ports_ok [OF wf' a, of 0 pts] p(1,2,3) wf' ble_wfD(8) [OF wf] new
    by (cases "r = CA_STATUS_OK") (auto simp: CALERemoveReceiveQueueData_def used_def for_slots_all)
  let ?cs = "filter (\<lambda>c. s_key c \<notin> Pair a ` set used) cs"
  note view = sessions_of_filter [of "\<lambda>k. k \<notin> Pair a ` set used" cs]
  have "sessions_of ?cs (b, pt) = sessions_of cs (b, pt) \<or> b = a \<and> sessions_of ?cs (b, pt) = None" for b pt
    unfolding view by auto
  moreover have "sessions_of ?cs (a, pt) = None" if "ble_mem st = [] \<and> length cs < 2 ^ 57" for pt
  proof -
    have "used = ports_of a cs" using p(5) that by (auto simp: used_def)
    then show ?thesis unfolding view by (force simp: sessions_of_None ports_of_def s_key_def)
  qed
  ultimately show ?thesis using st'(1,3,4) ble_inv_filter [OF inv st'(2)] by blast
qed

lemma CALERemoveReceiveQueueData_correct_example:
  "\<exists>st' cs'. CALERemoveReceiveQueueData (Some ''AA:BB:CC:DD:EE:FF'') example_ble = Some st' \<and> ble_inv st' cs'
     \<and> (\<forall>pt. sessions_of cs' (''AA:BB:CC:DD:EE:FF'', pt) = None)"
proof -
  have "length ''AA:BB:CC:DD:EE:FF'' = ADDR_LEN" by (simp add: ADDR_LEN_def)
  moreover have "ble_mem example_ble = [] \<and> length ([] :: sess list) < 2 ^ 57" by (simp add: example_ble_def)
  ultimately show ?thesis using CALERemoveReceiveQueueData_correct [OF example_ble_inv(1)] by blast
qed

section \<open>The end of the adapter\<close>

lemma erase_more:
  "(\<lambda>a. if a \<in> A then None else if a = x then None else f a) = (\<lambda>a. if a = x \<or> a \<in> A then None else f a)"
  by auto

lemma clear_loop:
  assumes "\<forall>c\<in>set ds. holds st c" and "distinct (map s_p ds)" and "distinct (map s_b ds)" and "distinct (map s_e ds)"
  shows "fold_loop clear_slot (enumerate n (map (\<lambda>c. Some (s_p c)) ds)) st =
    Some (Inr (st\<lparr>ble_senders := (\<lambda>a. if a \<in> s_p ` set ds then None else ble_senders st a),
                   ble_bufs := (\<lambda>a. if a \<in> s_b ` set ds then None else ble_bufs st a),
                   ble_eps := (\<lambda>a. if a \<in> s_e ` set ds then None else ble_eps st a)\<rparr>))"
  using assms
proof (induction ds arbitrary: n st)
  case (Cons c ds)
  let ?st = "st\<lparr>ble_senders := (ble_senders st)(s_p c := None), ble_bufs := (ble_bufs st)(s_b c := None),
     ble_eps := (ble_eps st)(s_e c := None)\<rparr>"
  have "clear_slot n (Some (s_p c)) st = Some (Inr ?st)"
    using Cons.prems(1) by (auto simp: clear_slot_def holds_def s_info_def free_buf_def CAFreeEndpoint_def free_sender_def)
  moreover have "holds ?st d" if "d \<in> set ds" for d
  proof -
    have "s_p d \<noteq> s_p c" "s_b d \<noteq> s_b c" "s_e d \<noteq> s_e c" using Cons.prems(2-4) that by (simp_all) (metis imageI)+
    then show ?thesis using Cons.prems(1) that by (auto simp: holds_def)
  qed
  ultimately show ?case using Cons.IH [of ?st "Suc n"] Cons.prems(2-4) by (simp add: erase_more cong: if_cong)
qed simp

text \<open>Stopping the adapter frees each sender, buffer and endpoint once, and the list of senders with them.\<close>

lemma CALEClearSenderInfoImpl_frees_all:
  assumes "ble_wf st cs"
  shows "CALEClearSenderInfoImpl st =
    Some (st\<lparr>ble_list := None,
             ble_senders := (\<lambda>a. if a \<in> s_p ` set cs then None else ble_senders st a),
             ble_bufs := (\<lambda>a. if a \<in> s_b ` set cs then None else ble_bufs st a),
             ble_eps := (\<lambda>a. if a \<in> s_e ` set cs then None else ble_eps st a)\<rparr>)"
  using ble_wfD [OF assms]
  by (auto simp: CALEClearSenderInfoImpl_def for_slots_all clear_loop u_arraylist_free_def split: option.splits)

end
