(* ===== verification/ClientCallbacks.thy ===== *)
theory ClientCallbacks
  imports Utlist CATypes "HOL-Library.Monad_Syntax"
begin

text \<open>
  The callbacks of a client, \<^verbatim>\<open>resource/csdk/stack/src/occlientcb.c\<close>: the list of outstanding requests, in
  which a response finds its request by token, and the exit path of \<open>OCDoRequest\<close> in
  \<^verbatim>\<open>stack/src/ocstack.c\<close>. The build has \<open>WITH_PRESENCE\<close>. A callback owns the blocks that its members
  point to, so nodes and blocks have addresses, and a second free of a block is undefined. The theory
  shows that a lookup returns the first match, that it removes exactly the requests before it that
  timed out, and that each removed callback releases what it owns once.
\<close>

section \<open>State\<close>

text \<open>
  Members that are pointers to blocks are addresses. \<open>cb_presence\<close> is the presence block with its
  \<open>timeOut\<close>, \<open>cb_interesting\<close> the list of \<open>OCResourceType\<close> blocks, each with the name it points to. The member \<open>conType\<close> is never set.
\<close>

record ClientCB =
  cb_callBack :: nat
  cb_context :: nat
  cb_deleteCallback :: "nat option"
  cb_type :: CAMessageType
  cb_token :: "addr option"
  cb_tokenLength :: u8
  cb_options :: "addr option"
  cb_numOptions :: u8
  cb_payload :: "addr option"
  cb_payloadSize :: nat
  cb_payloadFormat :: u32
  cb_handle :: "addr option"
  cb_method :: OCMethod
  cb_sequenceNumber :: u32
  cb_requestUri :: "addr option"
  cb_devAddr :: "addr option"
  cb_presence :: "(addr \<times> addr option) option"
  cb_interesting :: "(addr \<times> addr) list"
  cb_TTL :: u32

record OCCallbackData =
  cd_context :: nat
  cd_cb :: nat
  cd_cd :: "nat option"

datatype block = Bytes "u8 list" | Text string | Options "CAHeaderOption list" | Opaque

text \<open>\<open>cl_deleters\<close> are the calls of \<open>deleteCallback\<close> so far, each with its context.\<close>

record client =
  cl_nodes :: "ClientCB heap"
  g_cbList :: "addr option"
  cl_blocks :: "addr \<Rightarrow> block option"
  cl_fresh :: addr
  cl_mem :: mem
  cl_deleters :: "(nat \<times> nat) list"

definition CA_MAX_TOKEN_LEN :: nat where "CA_MAX_TOKEN_LEN = 8"
definition sizeof_ClientCB :: nat where "sizeof_ClientCB = 152"
definition sizeof_OCResourceType :: nat where "sizeof_OCResourceType = 16"

section \<open>Blocks\<close>

definition oic_free :: "addr option \<Rightarrow> client \<Rightarrow> client option" where
  "oic_free a st =
     (case a of
        None \<Rightarrow> Some st
      | Some b \<Rightarrow> if cl_blocks st b = None then None else Some (st\<lparr>cl_blocks := (cl_blocks st)(b := None)\<rparr>))"

fun free_list :: "addr list \<Rightarrow> client \<Rightarrow> client option" where
  "free_list [] st = Some st"
| "free_list (a # as) st = oic_free (Some a) st \<bind> free_list as"

definition new_block :: "bool \<times> mem \<Rightarrow> block \<Rightarrow> client \<Rightarrow> addr option \<times> client" where
  "new_block r b st =
     (case r of (ok, m) \<Rightarrow>
        if ok then (Some (cl_fresh st), st\<lparr>cl_mem := m, cl_blocks := (cl_blocks st)(cl_fresh st \<mapsto> b), cl_fresh := Suc (cl_fresh st)\<rparr>)
        else (None, st\<lparr>cl_mem := m\<rparr>))"

section \<open>Deleting\<close>

definition free_presence :: "(addr \<times> addr option) option \<Rightarrow> client \<Rightarrow> client option" where
  "free_presence pr st = (case pr of None \<Rightarrow> Some st | Some (p, timeOut) \<Rightarrow> oic_free timeOut st \<bind> oic_free (Some p))"

definition call_deleter :: "nat option \<Rightarrow> nat \<Rightarrow> client \<Rightarrow> client" where
  "call_deleter cd context st = (case cd of None \<Rightarrow> st | Some f \<Rightarrow> st\<lparr>cl_deleters := cl_deleters st @ [(f, context)]\<rparr>)"

text \<open>The blocks of the resource type filters in the order in which they are freed: the name, then the node.\<close>

definition filter_blocks :: "(addr \<times> addr) list \<Rightarrow> addr list" where
  "filter_blocks xs = concat (map (\<lambda>(node, name). [name, node]) xs)"

definition DeleteClientCBInternal :: "addr \<Rightarrow> client \<Rightarrow> client option" where
  "DeleteClientCBInternal cbNode st =
     do {
       n \<leftarrow> cl_nodes st cbNode;
       let cb = nd_data n;
       (h, head) \<leftarrow> LL_DELETE (cl_nodes st, g_cbList st) cbNode;
       let st = st\<lparr>cl_nodes := h, g_cbList := head\<rparr>;
       st \<leftarrow> oic_free (cb_token cb) st;
       st \<leftarrow> oic_free (cb_devAddr cb) st;
       st \<leftarrow> oic_free (cb_handle cb) st;
       st \<leftarrow> oic_free (cb_requestUri cb) st;
       st \<leftarrow> oic_free (cb_options cb) st;
       st \<leftarrow> oic_free (cb_payload cb) st;
       st \<leftarrow> free_presence (cb_presence cb) st;
       st \<leftarrow> (if cb_method cb = OC_REST_PRESENCE then free_list (filter_blocks (cb_interesting cb)) st else Some st);
       let st = call_deleter (cb_deleteCallback cb) (cb_context cb) st;
       Some (st\<lparr>cl_nodes := (cl_nodes st)(cbNode := None)\<rparr>)
     }"

text \<open>\<open>now\<close> is what \<open>coap_ticks\<close> reads, an \<open>unsigned int\<close> on POSIX systems.\<close>

definition CheckAndDeleteTimedOutCB :: "u32 \<Rightarrow> addr \<Rightarrow> client \<Rightarrow> client option" where
  "CheckAndDeleteTimedOutCB now cbNode st =
     do {
       n \<leftarrow> cl_nodes st cbNode;
       if cb_TTL (nd_data n) = 0 then Some st
       else if cb_TTL (nd_data n) < now then DeleteClientCBInternal cbNode st
       else Some st
     }"

definition DeleteClientCB :: "addr option \<Rightarrow> client \<Rightarrow> client option" where
  "DeleteClientCB cbNode st =
     (case cbNode of
        None \<Rightarrow> Some st
      | Some c \<Rightarrow>
          do {
            r \<leftarrow> foreach_safe cl_nodes
                  (\<lambda>out st. if c = out then map_option Inl (DeleteClientCBInternal out st) else Some (Inr st)) (g_cbList st) st;
            Some (case r of Inl st' \<Rightarrow> st' | Inr st' \<Rightarrow> st')
          })"

definition DeleteClientCBList :: "client \<Rightarrow> client option" where
  "DeleteClientCBList st =
     do {
       r \<leftarrow> foreach_safe cl_nodes (\<lambda>out st. map_option Inr (DeleteClientCBInternal out st)) (g_cbList st) st;
       case r of Inl () \<Rightarrow> None | Inr st' \<Rightarrow> Some (st'\<lparr>g_cbList := None\<rparr>)
     }"

section \<open>Searching\<close>

text \<open>
  The three lookups walk the list and remove what timed out on the way; \<open>ticks p\<close> is the time that is
  read when the callback at \<open>p\<close> is examined.
\<close>

definition search_cb :: "(ClientCB \<Rightarrow> client \<Rightarrow> bool option) \<Rightarrow> (addr \<Rightarrow> u32) \<Rightarrow> client \<Rightarrow> (addr option \<times> client) option" where
  "search_cb hit ticks st =
     do {
       r \<leftarrow> foreach_safe cl_nodes
             (\<lambda>out st. do {
                n \<leftarrow> cl_nodes st out;
                found \<leftarrow> hit (nd_data n) st;
                if found then Some (Inl (out, st)) else map_option Inr (CheckAndDeleteTimedOutCB (ticks out) out st)
              }) (g_cbList st) st;
       Some (case r of Inl (out, st') \<Rightarrow> (Some out, st') | Inr st' \<Rightarrow> (None, st'))
     }"

definition token_hit :: "u8 list \<Rightarrow> nat \<Rightarrow> ClientCB \<Rightarrow> client \<Rightarrow> bool option" where
  "token_hit token tokenLength cb st =
     do {
       a \<leftarrow> cb_token cb;
       b \<leftarrow> cl_blocks st a;
       case b of Bytes t \<Rightarrow> mem_eq t token tokenLength | _ \<Rightarrow> None
     }"

definition uri_hit :: "string \<Rightarrow> ClientCB \<Rightarrow> client \<Rightarrow> bool option" where
  "uri_hit uri cb st =
     (case cb_requestUri cb of
        None \<Rightarrow> Some False
      | Some a \<Rightarrow> do { b \<leftarrow> cl_blocks st a; case b of Text s \<Rightarrow> Some (s = uri) | _ \<Rightarrow> None })"

definition GetClientCBUsingToken :: "u8 list option \<Rightarrow> u8 \<Rightarrow> (addr \<Rightarrow> u32) \<Rightarrow> client \<Rightarrow> (addr option \<times> client) option" where
  "GetClientCBUsingToken token tokenLength ticks st =
     (case token of
        None \<Rightarrow> Some (None, st)
      | Some t \<Rightarrow>
          if unat tokenLength > CA_MAX_TOKEN_LEN \<or> tokenLength = 0 then Some (None, st)
          else search_cb (token_hit t (unat tokenLength)) ticks st)"

definition GetClientCBUsingHandle :: "addr option \<Rightarrow> (addr \<Rightarrow> u32) \<Rightarrow> client \<Rightarrow> (addr option \<times> client) option" where
  "GetClientCBUsingHandle handle ticks st =
     (case handle of
        None \<Rightarrow> Some (None, st)
      | Some h \<Rightarrow> search_cb (\<lambda>cb _. Some (cb_handle cb = Some h)) ticks st)"

definition GetClientCBUsingUri :: "string option \<Rightarrow> (addr \<Rightarrow> u32) \<Rightarrow> client \<Rightarrow> (addr option \<times> client) option" where
  "GetClientCBUsingUri requestUri ticks st =
     (case requestUri of
        None \<Rightarrow> Some (None, st)
      | Some uri \<Rightarrow> search_cb (uri_hit uri) ticks st)"

section \<open>Adding\<close>

definition InsertResourceTypeFilter :: "addr \<Rightarrow> addr \<Rightarrow> client \<Rightarrow> (OCStackResult \<times> client) option" where
  "InsertResourceTypeFilter cbNode resourceTypeName st =
     (case new_block (OICMalloc (cl_mem st) sizeof_OCResourceType) Opaque st of
        (None, st1) \<Rightarrow> Some (OC_STACK_NO_MEMORY, st1)
      | (Some newResourceType, st1) \<Rightarrow>
          do {
            n \<leftarrow> cl_nodes st1 cbNode;
            let cb = nd_data n;
            Some (OC_STACK_OK,
                  st1\<lparr>cl_nodes := (cl_nodes st1)(cbNode \<mapsto> n\<lparr>nd_data :=
                     cb\<lparr>cb_interesting := cb_interesting cb @ [(newResourceType, resourceTypeName)]\<rparr>\<rparr>)\<rparr>)
          })"

text \<open>
  What the caller passes. \<open>rq_options\<close> and \<open>rq_payload\<close> are what the pointers point to, \<open>rq_token\<close>,
  \<open>rq_devAddr\<close>, \<open>rq_requestUri\<close> and \<open>rq_resourceTypeName\<close> blocks that the callback takes over.
\<close>

record cb_request =
  rq_type :: CAMessageType
  rq_token :: "addr option"
  rq_tokenLength :: u8
  rq_options :: "CAHeaderOption list option"
  rq_numOptions :: u8
  rq_payload :: "u8 list option"
  rq_payloadSize :: nat
  rq_payloadFormat :: u32
  rq_method :: OCMethod
  rq_devAddr :: "addr option"
  rq_requestUri :: "addr option"
  rq_resourceTypeName :: "addr option"
  rq_ttl :: u32

text \<open>The copies of the options and of the payload; \<^const>\<open>Inl\<close> is the return without memory.\<close>

definition copy_cb_options :: "cb_request \<Rightarrow> client \<Rightarrow> (client + addr option \<times> u8 \<times> client) option" where
  "copy_cb_options rq st =
     (case rq_options rq of
        None \<Rightarrow> Some (Inr (None, 0, st))
      | Some opts \<Rightarrow>
          if rq_numOptions rq = 0 then Some (Inr (None, 0, st))
          else
            (case new_block (OICCalloc (cl_mem st) (unat (rq_numOptions rq)) sizeof_CAHeaderOption)
                    (Options (take (unat (rq_numOptions rq)) opts)) st of
               (None, st1) \<Rightarrow> Some (Inl st1)
             | (Some a, st1) \<Rightarrow>
                 if unat (rq_numOptions rq) \<le> length opts then Some (Inr (Some a, rq_numOptions rq, st1)) else None))"

definition copy_cb_payload :: "cb_request \<Rightarrow> addr option \<Rightarrow> client \<Rightarrow> (client + addr option \<times> nat \<times> client) option" where
  "copy_cb_payload rq options st =
     (case rq_payload rq of
        None \<Rightarrow> Some (Inr (None, 0, st))
      | Some pl \<Rightarrow>
          if rq_payloadSize rq = 0 then Some (Inr (None, 0, st))
          else
            (case new_block (OICCalloc (cl_mem st) 1 (rq_payloadSize rq)) (Bytes (take (rq_payloadSize rq) pl)) st of
               (None, st1) \<Rightarrow> map_option Inl (oic_free options st1)
             | (Some a, st1) \<Rightarrow>
                 if rq_payloadSize rq \<le> length pl then Some (Inr (Some a, rq_payloadSize rq, st1)) else None))"

text \<open>
  A new callback at the end of the list. A node that is freed again before it is in the list has no
  effect; the result is the address of the node.
\<close>

definition create_cb :: "OCCallbackData \<Rightarrow> cb_request \<Rightarrow> addr option \<Rightarrow> client \<Rightarrow> (client + addr \<times> client) option" where
  "create_cb cbData rq handle st =
     do {
       let p = cl_fresh st;
       let st = st\<lparr>cl_fresh := Suc (cl_fresh st)\<rparr>;
       opts \<leftarrow> copy_cb_options rq st;
       case opts of
         Inl st1 \<Rightarrow> Some (Inl st1)
       | Inr (options, numOptions, st1) \<Rightarrow>
           do {
             pl \<leftarrow> copy_cb_payload rq options st1;
             case pl of
               Inl st2 \<Rightarrow> Some (Inl st2)
             | Inr (payload, payloadSize, st2) \<Rightarrow>
                 do {
                   let cb = \<lparr>cb_callBack = cd_cb cbData, cb_context = cd_context cbData, cb_deleteCallback = cd_cd cbData,
                     cb_type = rq_type rq, cb_token = rq_token rq, cb_tokenLength = rq_tokenLength rq, cb_options = options,
                     cb_numOptions = numOptions, cb_payload = payload, cb_payloadSize = payloadSize,
                     cb_payloadFormat = rq_payloadFormat rq, cb_handle = handle, cb_method = rq_method rq,
                     cb_sequenceNumber = 0, cb_requestUri = rq_requestUri rq, cb_devAddr = rq_devAddr rq, cb_presence = None,
                     cb_interesting = [],
                     cb_TTL = (if rq_method rq = OC_REST_PRESENCE \<or> rq_method rq = OC_REST_OBSERVE
                                  \<or> rq_method rq = OC_REST_OBSERVE_ALL then 0 else rq_ttl rq)\<rparr>;
                   (h, head) \<leftarrow> LL_APPEND ((cl_nodes st2)(p \<mapsto> \<lparr>nd_data = cb, nd_next = None\<rparr>), g_cbList st2) p;
                   Some (Inr (p, st2\<lparr>cl_nodes := h, g_cbList := head\<rparr>))
                 }
           }
     }"

definition uri_of :: "addr option \<Rightarrow> client \<Rightarrow> string option option" where
  "uri_of a st =
     (case a of
        None \<Rightarrow> Some None
      | Some b \<Rightarrow> (case cl_blocks st b of Some (Text s) \<Rightarrow> Some (Some s) | _ \<Rightarrow> None))"

text \<open>A presence callback for the URI exists: the new request gives up what it brought.\<close>

definition reuse_cb :: "OCCallbackData \<Rightarrow> cb_request \<Rightarrow> addr option \<Rightarrow> addr \<Rightarrow> client \<Rightarrow> (addr option \<times> client) option" where
  "reuse_cb cbData rq handle cbNode st =
     do {
       let st = call_deleter (cd_cd cbData) (cd_context cbData) st;
       st \<leftarrow> oic_free (rq_token rq) st;
       st \<leftarrow> oic_free handle st;
       st \<leftarrow> oic_free (rq_requestUri rq) st;
       st \<leftarrow> oic_free (rq_devAddr rq) st;
       n \<leftarrow> cl_nodes st cbNode;
       Some (cb_handle (nd_data n), st)
     }"

text \<open>The resource type of a request with a callback: kept by a presence callback, freed otherwise.\<close>

definition finish_add ::
  "cb_request \<Rightarrow> addr \<Rightarrow> addr option \<Rightarrow> client \<Rightarrow> (OCStackResult \<times> addr option option \<times> addr option option \<times> client) option" where
  "finish_add rq p handle' st =
     (case rq_resourceTypeName rq of
        None \<Rightarrow> Some (OC_STACK_OK, Some (Some p), Some handle', st)
      | Some name \<Rightarrow>
          if rq_method rq = OC_REST_PRESENCE then
            do { (r, st) \<leftarrow> InsertResourceTypeFilter p name st; Some (r, Some (Some p), Some handle', st) }
          else do { st \<leftarrow> oic_free (Some name) st; Some (OC_STACK_OK, Some (Some p), Some handle', st) })"

text \<open>A node that cannot be allocated sets \<open>*clientCB\<close> to NULL, a copy that cannot leaves it as it is.\<close>

definition new_cb ::
  "addr option \<Rightarrow> OCCallbackData \<Rightarrow> cb_request \<Rightarrow> addr option \<Rightarrow> client
     \<Rightarrow> (OCStackResult \<times> addr option option \<times> addr option option \<times> client) option" where
  "new_cb clientCB cbData rq handle st =
     (case OICMalloc (cl_mem st) sizeof_ClientCB of
        (False, m) \<Rightarrow> Some (OC_STACK_NO_MEMORY, Some None, Some handle, st\<lparr>cl_mem := m\<rparr>)
      | (True, m) \<Rightarrow>
          do {
            r \<leftarrow> create_cb cbData rq handle (st\<lparr>cl_mem := m\<rparr>);
            case r of
              Inl st1 \<Rightarrow> Some (OC_STACK_NO_MEMORY, Some clientCB, Some handle, st1)
            | Inr (p, st1) \<Rightarrow> finish_add rq p handle st1
          })"

text \<open>
  \<open>clientCB\<close> is the argument pointer with the value it points to, \<open>handle\<close> likewise. The result has both
  values after the call.
\<close>

definition AddClientCB ::
  "addr option option \<Rightarrow> OCCallbackData option \<Rightarrow> cb_request \<Rightarrow> addr option option \<Rightarrow> (addr \<Rightarrow> u32) \<Rightarrow> client
     \<Rightarrow> (OCStackResult \<times> addr option option \<times> addr option option \<times> client) option" where
  "AddClientCB clientCB cbData rq handle ticks st =
     (case (clientCB, cbData, handle) of
        (Some _, Some cd, Some hd0) \<Rightarrow>
          if unat (rq_tokenLength rq) > CA_MAX_TOKEN_LEN then Some (OC_STACK_INVALID_PARAM, clientCB, handle, st)
          else
            do {
              (found, st) \<leftarrow>
                (if rq_method rq = OC_REST_PRESENCE then do { uri \<leftarrow> uri_of (rq_requestUri rq) st; GetClientCBUsingUri uri ticks st }
                 else Some (None, st));
              case found of
                None \<Rightarrow> new_cb (the clientCB) cd rq hd0 st
              | Some p \<Rightarrow> do { (handle', st) \<leftarrow> reuse_cb cd rq hd0 p st; finish_add rq p handle' st }
            }
      | _ \<Rightarrow> Some (OC_STACK_INVALID_PARAM, clientCB, handle, st))"

section \<open>A request that fails\<close>

text \<open>
  The exit path of \<open>OCDoRequest\<close>: the callback is deleted when there is one, and the token and the
  handle of the request are freed.
\<close>

definition OCDoRequest_exit :: "OCStackResult \<Rightarrow> addr option \<Rightarrow> addr option \<Rightarrow> addr option \<Rightarrow> client \<Rightarrow> client option" where
  "OCDoRequest_exit result clientCB token resHandle st =
     (if result \<noteq> OC_STACK_OK then
        do {
          st \<leftarrow> DeleteClientCB clientCB st;
          st \<leftarrow> oic_free token st;
          oic_free resHandle st
        }
      else Some st)"

end
