(* ===== verification/CallbackList.thy ===== *)
theory CallbackList
  imports ClientCallbacks "HOL-Library.Multiset"
begin

text \<open>
  What the list of callbacks of a client means: a sequence of requests, each the owner of its blocks.
  The operations of ClientCallbacks keep the ownership and act on the sequence as expected.
\<close>

section \<open>Ownership\<close>

definition opt_list :: "'a option \<Rightarrow> 'a list" where
  "opt_list x = (case x of None \<Rightarrow> [] | Some a \<Rightarrow> [a])"

lemma opt_list_simps [simp]: "opt_list None = []" "opt_list (Some a) = [a]"
  by (simp_all add: opt_list_def)

text \<open>The blocks that go with a callback, in the order in which they are freed.\<close>

definition owns :: "ClientCB \<Rightarrow> addr list" where
  "owns cb = opt_list (cb_token cb) @ opt_list (cb_devAddr cb) @ opt_list (cb_handle cb) @ opt_list (cb_requestUri cb)
     @ opt_list (cb_options cb) @ opt_list (cb_payload cb)
     @ (case cb_presence cb of None \<Rightarrow> [] | Some (p, t) \<Rightarrow> opt_list t @ [p])
     @ (if cb_method cb = OC_REST_PRESENCE then filter_blocks (cb_interesting cb) else [])"

lemma filter_blocks_simps [simp]: "filter_blocks [] = []" "filter_blocks (xs @ ys) = filter_blocks xs @ filter_blocks ys"
  "filter_blocks ((n, a) # xs) = a # n # filter_blocks xs"
  by (simp_all add: filter_blocks_def)

text \<open>
  A callback with its token and URI: the token has the length that is stored with it, and callbacks of
  presence and of observations never time out.
\<close>

definition cb_ok :: "client \<Rightarrow> ClientCB \<Rightarrow> bool" where
  "cb_ok st cb \<longleftrightarrow>
     (\<exists>a t. cb_token cb = Some a \<and> cl_blocks st a = Some (Bytes t) \<and> length t = unat (cb_tokenLength cb))
     \<and> (\<forall>a. cb_requestUri cb = Some a \<longrightarrow> (\<exists>s. cl_blocks st a = Some (Text s)))
     \<and> (cb_method cb \<in> {OC_REST_PRESENCE, OC_REST_OBSERVE, OC_REST_OBSERVE_ALL} \<longrightarrow> cb_TTL cb = 0)"

type_synonym cbs = "(addr \<times> ClientCB) list"

definition owned :: "cbs \<Rightarrow> addr list" where
  "owned cs = concat (map (\<lambda>(_, cb). owns cb) cs)"

definition cl_wf :: "client \<Rightarrow> cbs \<Rightarrow> bool" where
  "cl_wf st cs \<longleftrightarrow> ul_rep (cl_nodes st) (g_cbList st) cs \<and> distinct (owned cs)
     \<and> (\<forall>a\<in>set (owned cs). cl_blocks st a \<noteq> None) \<and> (\<forall>(_, cb)\<in>set cs. cb_ok st cb)
     \<and> (\<forall>a. cl_fresh st \<le> a \<longrightarrow> cl_nodes st a = None \<and> cl_blocks st a = None)"

text \<open>No node has been lost: every live one is in the list.\<close>

definition tight :: "client \<Rightarrow> cbs \<Rightarrow> bool" where
  "tight st cs \<longleftrightarrow> dom (cl_nodes st) \<subseteq> fst ` set cs"

definition erased :: "addr list \<Rightarrow> (addr \<Rightarrow> 'b option) \<Rightarrow> addr \<Rightarrow> 'b option" where
  "erased as f = (\<lambda>a. if a \<in> set as then None else f a)"

lemma erased_simps [simp]: "erased [] f = f" "erased (a # as) f = erased as (f(a := None))"
  "erased as (erased bs f) = erased (bs @ as) f"
  by (auto simp: erased_def fun_eq_iff)

lemma owned_simps [simp]: "owned [] = []" "owned ((p, cb) # cs) = owns cb @ owned cs" "owned (xs @ ys) = owned xs @ owned ys"
  by (simp_all add: owned_def)

lemma free_list_append: "free_list (as @ bs) st = free_list as st \<bind> free_list bs"
proof (induction as arbitrary: st)
  case (Cons a as)
  then show ?case by (cases "oic_free (Some a) st") auto
qed simp

lemma free_single: "free_list [a] = oic_free (Some a)"
  by (auto simp: fun_eq_iff oic_free_def)

lemma free_opt: "oic_free x = free_list (opt_list x)"
  by (cases x) (simp_all only: opt_list_simps free_single, simp add: oic_free_def fun_eq_iff)

lemma free_presence_eq: "free_presence pr st = free_list (case pr of None \<Rightarrow> [] | Some (p, t) \<Rightarrow> opt_list t @ [p]) st"
  by (auto simp: free_presence_def free_list_append free_single free_opt [symmetric] split: option.splits prod.splits)

lemma free_list_ok:
  "distinct as \<Longrightarrow> \<forall>a\<in>set as. cl_blocks st a \<noteq> None \<Longrightarrow>
   free_list as st = Some (st\<lparr>cl_blocks := erased as (cl_blocks st)\<rparr>)"
proof (induction as arbitrary: st)
  case (Cons a as)
  let ?st = "st\<lparr>cl_blocks := (cl_blocks st)(a := None)\<rparr>"
  have "oic_free (Some a) st = Some ?st" using Cons.prems by (simp add: oic_free_def)
  moreover have "\<forall>b\<in>set as. cl_blocks ?st b \<noteq> None" using Cons.prems by auto
  ultimately show ?case using Cons.IH [of ?st] Cons.prems(1) by (simp del: fun_upd_apply)
qed simp

lemma cl_wfD:
  assumes "cl_wf st cs"
  shows "ul_rep (cl_nodes st) (g_cbList st) cs" "distinct (owned cs)" "a \<in> set (owned cs) \<Longrightarrow> cl_blocks st a \<noteq> None"
    "(p, cb) \<in> set cs \<Longrightarrow> cb_ok st cb" "cl_fresh st \<le> b \<Longrightarrow> cl_nodes st b = None \<and> cl_blocks st b = None"
  using assms by (auto simp: cl_wf_def)

section \<open>Deleting\<close>

text \<open>Tokens and URIs are owned, so that freeing the blocks of one callback leaves the others alone.\<close>

lemma cb_ok_frame:
  assumes "cb_ok st cb" and "\<And>a. a \<in> set (owns cb) \<Longrightarrow> cl_blocks st' a = cl_blocks st a"
  shows "cb_ok st' cb"
  using assms by (force simp: cb_ok_def owns_def)

lemma owns_owned: "(p, cb) \<in> set cs \<Longrightarrow> set (owns cb) \<subseteq> set (owned cs)"
  by (auto simp: owned_def)

definition notice :: "ClientCB \<Rightarrow> (nat \<times> nat) list" where
  "notice cb = map (\<lambda>f. (f, cb_context cb)) (opt_list (cb_deleteCallback cb))"

text \<open>What a client is after some of its callbacks were deleted.\<close>

definition released :: "client \<Rightarrow> ClientCB list \<Rightarrow> client \<Rightarrow> bool" where
  "released st gone st' \<longleftrightarrow> cl_blocks st' = erased (concat (map owns gone)) (cl_blocks st)
     \<and> cl_deleters st' = cl_deleters st @ concat (map notice gone) \<and> cl_mem st' = cl_mem st \<and> cl_fresh st' = cl_fresh st"

lemma released_refl [simp]: "released st [] st"
  by (simp add: released_def)

lemma released_trans: "released st xs st1 \<Longrightarrow> released st1 ys st2 \<Longrightarrow> released st (xs @ ys) st2"
  by (simp add: released_def)

lemma delete_ok:
  assumes wf: "cl_wf st (xs @ (p, cb) # ys)"
  shows "\<exists>st'. DeleteClientCBInternal p st = Some st' \<and> cl_wf st' (xs @ ys) \<and> released st [cb] st'
    \<and> (tight st (xs @ (p, cb) # ys) \<longrightarrow> tight st' (xs @ ys))"
proof -
  note d = cl_wfD [OF wf]
  obtain n where n: "cl_nodes st p = Some n" "nd_data n = cb" using rep_node [OF d(1)] by metis
  obtain h head where del: "LL_DELETE (cl_nodes st, g_cbList st) p = Some (h, head)" "ul_rep h head (xs @ ys)"
    "same_nodes (cl_nodes st) h"
    using LL_DELETE_ok [OF d(1)] by metis
  let ?st = "st\<lparr>cl_nodes := h, g_cbList := head\<rparr>"
  let ?st1 = "?st\<lparr>cl_blocks := erased (owns cb) (cl_blocks st)\<rparr>"
  define st' where "st' = (call_deleter (cb_deleteCallback cb) (cb_context cb) ?st1)\<lparr>cl_nodes := h(p := None)\<rparr>"
  have ok: "cb_ok st cb" using d(4) [of p cb] by simp
  have fr: "free_list (owns cb) ?st = Some ?st1"
    using d(2,3) by (subst free_list_ok) auto
  have "DeleteClientCBInternal p st = free_list (owns cb) ?st \<bind>
      (\<lambda>st. let st = call_deleter (cb_deleteCallback cb) (cb_context cb) st in Some (st\<lparr>cl_nodes := (cl_nodes st)(p := None)\<rparr>))"
    using ok
    by (cases "cb_method cb = OC_REST_PRESENCE")
      (simp_all add: DeleteClientCBInternal_def n del(1) free_presence_eq free_opt owns_def free_list_append cb_ok_def Let_def
        del: free_list.simps(2))
  then have run: "DeleteClientCBInternal p st = Some st'"
    by (simp add: fr call_deleter_def st'_def split: option.splits)
  have f: "cl_blocks st' = erased (owns cb) (cl_blocks st)" "cl_nodes st' = h(p := None)" "g_cbList st' = head"
    "cl_deleters st' = cl_deleters st @ notice cb" "cl_mem st' = cl_mem st" "cl_fresh st' = cl_fresh st"
    by (auto simp: call_deleter_def notice_def st'_def split: option.splits)
  have "p \<notin> fst ` set (xs @ ys)" using d(1) by (auto simp: ul_rep_def)
  then have r: "ul_rep (cl_nodes st') (g_cbList st') (xs @ ys)" unfolding f by (rule rep_upd_other [OF del(2)])
  have dj: "set (owns cb) \<inter> set (owned (xs @ ys)) = {}" using d(2) by auto
  have keep: "cb_ok st' c" if "(q, c) \<in> set (xs @ ys)" for q c
    by (rule cb_ok_frame [of st])
      (use d(4) [of q c] that owns_owned [OF that] dj in \<open>auto simp: f(1) erased_def\<close>)
  have "cl_nodes st' a = None \<and> cl_blocks st' a = None" if "cl_fresh st' \<le> a" for a
    using d(5) [of a] that same_nodesD(2) [OF del(3), of a] by (simp add: f erased_def)
  then have "cl_wf st' (xs @ ys)"
    using r keep d(2,3) dj unfolding cl_wf_def f(1) by (auto simp: erased_def)
  moreover have "tight st' (xs @ ys)" if "tight st (xs @ (p, cb) # ys)"
    unfolding tight_def
  proof
    fix a
    assume "a \<in> dom (cl_nodes st')"
    then have "a \<noteq> p" "cl_nodes st a \<noteq> None" using same_nodesD(2) [OF del(3), of a] by (cases "cl_nodes st a"; auto simp: f(2) split: if_splits)+
    then show "a \<in> fst ` set (xs @ ys)" using that by (auto simp: tight_def)
  qed
  ultimately show ?thesis using run f by (auto simp: released_def)
qed

section \<open>Searching\<close>

definition timed_out :: "(addr \<Rightarrow> u32) \<Rightarrow> addr \<times> ClientCB \<Rightarrow> bool" where
  "timed_out ticks x \<longleftrightarrow> cb_TTL (snd x) \<noteq> 0 \<and> cb_TTL (snd x) < ticks (fst x)"

text \<open>
  A search stops at the first callback with a property. Of the callbacks before it those that timed
  out are removed.
\<close>

definition search_keeps :: "(ClientCB \<Rightarrow> bool) \<Rightarrow> (addr \<Rightarrow> u32) \<Rightarrow> cbs \<Rightarrow> cbs" where
  "search_keeps P ticks cs =
     filter (\<lambda>x. \<not> timed_out ticks x) (takeWhile (\<lambda>x. \<not> P (snd x)) cs) @ dropWhile (\<lambda>x. \<not> P (snd x)) cs"

definition search_drops :: "(ClientCB \<Rightarrow> bool) \<Rightarrow> (addr \<Rightarrow> u32) \<Rightarrow> cbs \<Rightarrow> ClientCB list" where
  "search_drops P ticks cs = map snd (filter (timed_out ticks) (takeWhile (\<lambda>x. \<not> P (snd x)) cs))"

definition search_finds :: "(ClientCB \<Rightarrow> bool) \<Rightarrow> cbs \<Rightarrow> addr option" where
  "search_finds P cs = map_option fst (find (\<lambda>x. P (snd x)) cs)"

lemmas search_defs = search_keeps_def search_drops_def search_finds_def

text \<open>The test of a search looks at the blocks of the callback only.\<close>

definition tests :: "(ClientCB \<Rightarrow> client \<Rightarrow> bool option) \<Rightarrow> (ClientCB \<Rightarrow> bool) \<Rightarrow> client \<Rightarrow> cbs \<Rightarrow> bool" where
  "tests hit P st cs \<longleftrightarrow>
     (\<forall>(p, cb)\<in>set cs. \<forall>s. (\<forall>a\<in>set (owns cb). cl_blocks s a = cl_blocks st a) \<longrightarrow> hit cb s = Some (P cb))"

lemma check_timed_out:
  assumes "cl_wf st (xs @ (p, cb) # ys)"
  shows "\<exists>st'. CheckAndDeleteTimedOutCB (ticks p) p st = Some st'
    \<and> cl_wf st' (xs @ (if timed_out ticks (p, cb) then ys else (p, cb) # ys))
    \<and> released st (if timed_out ticks (p, cb) then [cb] else []) st'
    \<and> (tight st (xs @ (p, cb) # ys) \<longrightarrow> tight st' (xs @ (if timed_out ticks (p, cb) then ys else (p, cb) # ys)))"
proof -
  obtain n where "cl_nodes st p = Some n" "nd_data n = cb" using rep_node [OF cl_wfD(1) [OF assms]] by metis
  then show ?thesis using delete_ok [OF assms] assms by (auto simp: CheckAndDeleteTimedOutCB_def timed_out_def)
qed

lemma released_blocks:
  assumes "released st gone st'" and "a \<notin> set (concat (map owns gone))"
  shows "cl_blocks st' a = cl_blocks st a"
  using assms by (simp add: released_def erased_def)

lemma cb_search_loop:
  assumes "cl_wf st (kept @ rest)" and "tests hit P st rest"
  shows "\<exists>st'. foreach_safe cl_nodes
      (\<lambda>out st. do {
         n \<leftarrow> cl_nodes st out;
         found \<leftarrow> hit (nd_data n) st;
         if found then Some (Inl (out, st)) else map_option Inr (CheckAndDeleteTimedOutCB (ticks out) out st)
       }) (ul_first rest) st = Some (case search_finds P rest of None \<Rightarrow> Inr st' | Some p \<Rightarrow> Inl (p, st'))
     \<and> cl_wf st' (kept @ search_keeps P ticks rest) \<and> released st (search_drops P ticks rest) st'
     \<and> (tight st (kept @ rest) \<longrightarrow> tight st' (kept @ search_keeps P ticks rest))"
  using assms
proof (induction rest arbitrary: kept st)
  case Nil
  then show ?case by (intro exI [of _ st]) (simp add: search_defs foreach_safe.simps)
next
  case (Cons x rest)
  obtain p cb where x: "x = (p, cb)" by fastforce
  note wf = Cons.prems(1) [unfolded x]
  obtain n where n: "cl_nodes st p = Some n" "nd_data n = cb" "nd_next n = ul_first rest"
    using rep_node [OF cl_wfD(1) [OF wf]] by metis
  have hit: "hit cb st = Some (P cb)" using Cons.prems(2) by (simp add: tests_def x)
  show ?case
  proof (cases "P cb")
    case True
    then show ?thesis using n hit Cons.prems(1)
      by (intro exI [of _ st]) (simp add: search_defs x foreach_safe.simps [of _ _ "Some p"])
  next
    case False
    obtain st1 where st1: "CheckAndDeleteTimedOutCB (ticks p) p st = Some st1"
      "cl_wf st1 (kept @ (if timed_out ticks (p, cb) then rest else (p, cb) # rest))"
      "released st (if timed_out ticks (p, cb) then [cb] else []) st1"
      "tight st (kept @ (p, cb) # rest) \<longrightarrow> tight st1 (kept @ (if timed_out ticks (p, cb) then rest else (p, cb) # rest))"
      using check_timed_out [OF wf, of ticks] by blast
    define kept' where "kept' = kept @ (if timed_out ticks (p, cb) then [] else [(p, cb)])"
    have wf1: "cl_wf st1 (kept' @ rest)" using st1(2) by (simp add: kept'_def split: if_splits)
    have "cl_blocks st1 a = cl_blocks st a" if "(q, c) \<in> set rest" "a \<in> set (owns c)" for q c a
    proof (rule released_blocks [OF st1(3)])
      have "a \<in> set (owned rest)" using owns_owned [OF that(1)] that(2) by blast
      then show "a \<notin> set (concat (map owns (if timed_out ticks (p, cb) then [cb] else [])))" using cl_wfD(2) [OF wf] by auto
    qed
    then have "tests hit P st1 rest" using Cons.prems(2) by (fastforce simp: tests_def)
    from Cons.IH [OF wf1 this] obtain st' where st': "foreach_safe cl_nodes
      (\<lambda>out st. do {
         n \<leftarrow> cl_nodes st out;
         found \<leftarrow> hit (nd_data n) st;
         if found then Some (Inl (out, st)) else map_option Inr (CheckAndDeleteTimedOutCB (ticks out) out st)
       }) (ul_first rest) st1 = Some (case search_finds P rest of None \<Rightarrow> Inr st' | Some p \<Rightarrow> Inl (p, st'))"
      "cl_wf st' (kept' @ search_keeps P ticks rest)" "released st1 (search_drops P ticks rest) st'"
      "tight st1 (kept' @ rest) \<longrightarrow> tight st' (kept' @ search_keeps P ticks rest)"
      by blast
    have "released st ((if timed_out ticks (p, cb) then [cb] else []) @ search_drops P ticks rest) st'"
      by (rule released_trans [OF st1(3) st'(3)])
    moreover have "tight st' (kept' @ search_keeps P ticks rest)" if "tight st (kept @ (p, cb) # rest)"
      using st'(4) st1(4) that by (simp add: kept'_def split: if_splits)
    ultimately show ?thesis using st'(1,2) n hit False st1(1)
      by (intro exI [of _ st']) (auto simp: search_defs x kept'_def foreach_safe.simps [of _ _ "Some p"])
  qed
qed

lemma search_ok:
  assumes "cl_wf st cs" and "tests hit P st cs"
  shows "\<exists>st'. search_cb hit ticks st = Some (search_finds P cs, st')
     \<and> cl_wf st' (search_keeps P ticks cs) \<and> released st (search_drops P ticks cs) st'
     \<and> (tight st cs \<longrightarrow> tight st' (search_keeps P ticks cs))"
  using cb_search_loop [of st "[]" cs hit P ticks] assms rep_first [OF cl_wfD(1) [OF assms(1)]]
  by (auto simp: search_cb_def split: option.splits)

text \<open>The three tests.\<close>

definition token_bytes :: "client \<Rightarrow> ClientCB \<Rightarrow> u8 list" where
  "token_bytes st cb = (case cb_token cb of None \<Rightarrow> [] | Some a \<Rightarrow> (case cl_blocks st a of Some (Bytes t) \<Rightarrow> t | _ \<Rightarrow> []))"

definition uri_text :: "client \<Rightarrow> ClientCB \<Rightarrow> string option" where
  "uri_text st cb = (case cb_requestUri cb of None \<Rightarrow> None | Some a \<Rightarrow> (case cl_blocks st a of Some (Text s) \<Rightarrow> Some s | _ \<Rightarrow> None))"

lemma token_tests:
  assumes "cl_wf st cs" and "n \<le> length t" and "\<forall>(_, cb)\<in>set cs. n \<le> unat (cb_tokenLength cb)"
  shows "tests (token_hit t n) (\<lambda>cb. take n (token_bytes st cb) = take n t) st cs"
  unfolding tests_def
proof (clarify)
  fix p cb and s :: client assume c: "(p, cb) \<in> set cs" and s: "\<forall>a\<in>set (owns cb). cl_blocks s a = cl_blocks st a"
  obtain a u where "cb_token cb = Some a" "cl_blocks st a = Some (Bytes u)" "length u = unat (cb_tokenLength cb)"
    using cl_wfD(4) [OF assms(1) c] by (auto simp: cb_ok_def)
  moreover have "n \<le> unat (cb_tokenLength cb)" using assms(3) c by auto
  moreover have "a \<in> set (owns cb)" using calculation(1) by (simp add: owns_def)
  ultimately show "token_hit t n cb s = Some (take n (token_bytes st cb) = take n t)"
    using s assms(2) by (simp add: token_hit_def token_bytes_def mem_eq_def)
qed

lemma handle_tests: "tests (\<lambda>cb _. Some (cb_handle cb = Some h)) (\<lambda>cb. cb_handle cb = Some h) st cs"
  by (simp add: tests_def)

lemma uri_tests:
  assumes "cl_wf st cs"
  shows "tests (uri_hit uri) (\<lambda>cb. uri_text st cb = Some uri) st cs"
  unfolding tests_def
proof (clarify)
  fix p cb and s :: client assume c: "(p, cb) \<in> set cs" and s: "\<forall>a\<in>set (owns cb). cl_blocks s a = cl_blocks st a"
  show "uri_hit uri cb s = Some (uri_text st cb = Some uri)"
  proof (cases "cb_requestUri cb")
    case (Some a)
    then obtain v where "cl_blocks st a = Some (Text v)" using cl_wfD(4) [OF assms c] by (auto simp: cb_ok_def)
    moreover have "a \<in> set (owns cb)" using Some by (simp add: owns_def)
    ultimately show ?thesis using s Some by (simp add: uri_hit_def uri_text_def)
  qed (simp add: uri_hit_def uri_text_def)
qed

text \<open>A callback of presence or of an observation is never removed by a search.\<close>

lemma search_keeps_permanent:
  assumes "(p, cb) \<in> set cs" and "cb_TTL cb = 0"
  shows "(p, cb) \<in> set (search_keeps P ticks cs)"
proof -
  have "(p, cb) \<in> set (takeWhile (\<lambda>x. \<not> P (snd x)) cs @ dropWhile (\<lambda>x. \<not> P (snd x)) cs)" using assms(1) by simp
  then show ?thesis using assms(2) by (auto simp: search_keeps_def timed_out_def simp del: takeWhile_dropWhile_id)
qed

section \<open>Deleting from the list\<close>

lemma delete_list_loop:
  assumes "cl_wf st cs"
  shows "\<exists>st'. foreach_safe cl_nodes (\<lambda>out st. map_option Inr (DeleteClientCBInternal out st)) (ul_first cs) st = Some (Inr st' :: 'r + client)
     \<and> cl_wf st' [] \<and> released st (map snd cs) st' \<and> (tight st cs \<longrightarrow> tight st' [])"
  using assms
proof (induction cs arbitrary: st)
  case Nil
  then show ?case by (simp add: foreach_safe.simps)
next
  case (Cons x cs)
  obtain p cb where x: "x = (p, cb)" by fastforce
  have wf: "cl_wf st ([] @ (p, cb) # cs)" using Cons.prems x by simp
  obtain n where n: "cl_nodes st p = Some n" "nd_next n = ul_first cs"
    using rep_node [OF cl_wfD(1) [OF wf]] by metis
  obtain st1 where st1: "DeleteClientCBInternal p st = Some st1" "cl_wf st1 cs" "released st [cb] st1"
    "tight st (x # cs) \<longrightarrow> tight st1 cs"
    using delete_ok [OF wf] x by auto
  from Cons.IH [OF st1(2)] obtain st' where "foreach_safe cl_nodes (\<lambda>out st. map_option Inr (DeleteClientCBInternal out st)) (ul_first cs) st1
      = Some (Inr st' :: 'r + client)" "cl_wf st' []" "released st1 (map snd cs) st'"
    "tight st1 cs \<longrightarrow> tight st' []" by blast
  then show ?case using released_trans [OF st1(3)] n st1(1,4)
    by (intro exI [of _ st']) (auto simp: x foreach_safe.simps [of _ _ "Some p"])
qed

lemma DeleteClientCBList_ok:
  assumes "cl_wf st cs"
  shows "\<exists>st'. DeleteClientCBList st = Some st' \<and> cl_wf st' [] \<and> released st (map snd cs) st'
    \<and> (tight st cs \<longrightarrow> tight st' [])"
proof -
  obtain st' where st': "foreach_safe cl_nodes (\<lambda>out st. map_option Inr (DeleteClientCBInternal out st)) (ul_first cs) st
      = Some (Inr st' :: unit + client)" "cl_wf st' []" "released st (map snd cs) st'" "tight st cs \<longrightarrow> tight st' []"
    using delete_list_loop [OF assms, where ?'r = unit] by blast
  have "st'\<lparr>g_cbList := None\<rparr> = st'" using st'(2) by (simp add: cl_wf_def)
  then show ?thesis using st' rep_first [OF cl_wfD(1) [OF assms]] by (simp add: DeleteClientCBList_def)
qed

lemma delete_one_loop:
  assumes "cl_wf st (kept @ rest)"
  shows "\<exists>st'. foreach_safe cl_nodes
      (\<lambda>out st. if c = out then map_option Inl (DeleteClientCBInternal out st) else Some (Inr st)) (ul_first rest) st =
        Some (if c \<in> fst ` set rest then Inl st' else Inr st')
     \<and> cl_wf st' (kept @ filter (\<lambda>x. fst x \<noteq> c) rest) \<and> released st (map snd (filter (\<lambda>x. fst x = c) rest)) st'
     \<and> (tight st (kept @ rest) \<longrightarrow> tight st' (kept @ filter (\<lambda>x. fst x \<noteq> c) rest))"
  using assms
proof (induction rest arbitrary: kept)
  case Nil
  then show ?case by (intro exI [of _ st]) (simp add: foreach_safe.simps)
next
  case (Cons x rest)
  obtain p cb where x: "x = (p, cb)" by fastforce
  note wf = Cons.prems(1) [unfolded x]
  obtain n where n: "cl_nodes st p = Some n" "nd_next n = ul_first rest"
    using rep_node [OF cl_wfD(1) [OF wf]] by metis
  show ?case
  proof (cases "c = p")
    case True
    have "c \<notin> fst ` set rest" using cl_wfD(1) [OF wf] True by (auto simp: ul_rep_def)
    then have f: "filter (\<lambda>x. fst x \<noteq> c) rest = rest" "filter (\<lambda>x. fst x = c) rest = []"
      by (auto simp: filter_id_conv filter_empty_conv)
    then show ?thesis using delete_ok [OF wf] True n by (auto simp: x foreach_safe.simps [of _ _ "Some p"])
  next
    case False
    have "cl_wf st ((kept @ [(p, cb)]) @ rest)" using wf by simp
    from Cons.IH [OF this] show ?thesis using False n by (auto simp: x foreach_safe.simps [of _ _ "Some p"])
  qed
qed

lemma DeleteClientCB_ok:
  assumes "cl_wf st cs"
  shows "\<exists>st'. DeleteClientCB (Some c) st = Some st' \<and> cl_wf st' (filter (\<lambda>x. fst x \<noteq> c) cs)
    \<and> released st (map snd (filter (\<lambda>x. fst x = c) cs)) st'
    \<and> (tight st cs \<longrightarrow> tight st' (filter (\<lambda>x. fst x \<noteq> c) cs))"
  using delete_one_loop [of st "[]" cs c] assms rep_first [OF cl_wfD(1) [OF assms]]
  by (auto simp: DeleteClientCB_def split: if_splits)

section \<open>Adding\<close>

text \<open>New blocks and a moving allocator do not disturb the callbacks.\<close>

definition grows :: "client \<Rightarrow> client \<Rightarrow> bool" where
  "grows st st' \<longleftrightarrow> cl_nodes st' = cl_nodes st \<and> g_cbList st' = g_cbList st \<and> cl_deleters st' = cl_deleters st
     \<and> cl_fresh st \<le> cl_fresh st' \<and> (\<forall>a < cl_fresh st. cl_blocks st' a = cl_blocks st a)
     \<and> (\<forall>a \<ge> cl_fresh st'. cl_blocks st' a = None)"

lemma grows_trans: "grows st st1 \<Longrightarrow> grows st1 st2 \<Longrightarrow> grows st st2"
  by (auto simp: grows_def)

lemma owned_fresh: "cl_wf st cs \<Longrightarrow> a \<in> set (owned cs) \<Longrightarrow> a < cl_fresh st"
  using cl_wfD(3,5) by (metis not_le)

lemma grows_wf:
  assumes wf: "cl_wf st cs" and g: "grows st st'"
  shows "cl_wf st' cs"
proof -
  have same: "cl_blocks st' a = cl_blocks st a" if "a \<in> set (owned cs)" for a
    using owned_fresh [OF wf that] g by (simp add: grows_def)
  have "cb_ok st' cb" if "(p, cb) \<in> set cs" for p cb
    by (rule cb_ok_frame [OF cl_wfD(4) [OF wf that]]) (use same owns_owned [OF that] in blast)
  then show ?thesis using cl_wfD [OF wf] same g by (auto simp: cl_wf_def grows_def)
qed

text \<open>An allocation, as it is used for the options and for the payload.\<close>

lemma new_block_ok:
  assumes wf: "\<forall>a \<ge> cl_fresh st. cl_blocks st a = None" and run: "new_block (ok, m) b st = (r, st')"
  shows "grows st st'" "r = (if ok then Some (cl_fresh st) else None)" "cl_mem st' = m"
    "ok \<Longrightarrow> cl_blocks st' = (cl_blocks st)(cl_fresh st \<mapsto> b) \<and> cl_fresh st' = Suc (cl_fresh st)" "\<not> ok \<Longrightarrow> cl_blocks st' = cl_blocks st"
  using assms by (auto simp: new_block_def grows_def split: if_splits)

lemma append_wf:
  assumes wf: "cl_wf st cs" and p: "cl_nodes st p = None" "p < cl_fresh st" and cb: "cb_ok st cb"
    and own: "distinct (owns cb)" "set (owns cb) \<inter> set (owned cs) = {}" "\<forall>a\<in>set (owns cb). cl_blocks st a \<noteq> None"
  shows "\<exists>h head. LL_APPEND ((cl_nodes st)(p \<mapsto> \<lparr>nd_data = cb, nd_next = None\<rparr>), g_cbList st) p = Some (h, head)
    \<and> cl_wf (st\<lparr>cl_nodes := h, g_cbList := head\<rparr>) (cs @ [(p, cb)]) \<and> dom h = insert p (dom (cl_nodes st))"
proof -
  note d = cl_wfD [OF wf]
  let ?h = "(cl_nodes st)(p \<mapsto> \<lparr>nd_data = cb, nd_next = None\<rparr>)"
  have np: "p \<notin> fst ` set cs" using rep_data [OF d(1)] p(1) by fastforce
  obtain h head where h: "LL_APPEND (?h, g_cbList st) p = Some (h, head)" "ul_rep h head (cs @ [(p, cb)])" "same_nodes ?h h"
    using LL_APPEND_ok [OF rep_upd_other [OF d(1) np, of "Some \<lparr>nd_data = cb, nd_next = None\<rparr>"] np] by auto
  have "cb_ok (st\<lparr>cl_nodes := h, g_cbList := head\<rparr>) c" if "cb_ok st c" for c using that by (simp add: cb_ok_def)
  moreover have "h a = None" if "cl_fresh st \<le> a" for a
    using d(5) [OF that] p(2) that by (intro same_nodesD(2) [OF h(3)]) simp
  ultimately have "cl_wf (st\<lparr>cl_nodes := h, g_cbList := head\<rparr>) (cs @ [(p, cb)])"
    using h(2) d cb own by (auto simp: cl_wf_def)
  moreover have "dom h = dom ?h" using h(3) unfolding same_nodes_def dom_def by (metis map_option_is_None)
  ultimately show ?thesis using h(1) by auto
qed

text \<open>What the caller brings: live blocks that no callback owns, and arrays as long as announced.\<close>

definition brings :: "cb_request \<Rightarrow> addr option \<Rightarrow> addr list" where
  "brings rq handle = opt_list (rq_token rq) @ opt_list (rq_devAddr rq) @ opt_list handle @ opt_list (rq_requestUri rq)"

definition request_ok :: "client \<Rightarrow> cbs \<Rightarrow> cb_request \<Rightarrow> addr option \<Rightarrow> bool" where
  "request_ok st cs rq handle \<longleftrightarrow>
     (\<exists>a t. rq_token rq = Some a \<and> cl_blocks st a = Some (Bytes t) \<and> length t = unat (rq_tokenLength rq))
     \<and> unat (rq_tokenLength rq) \<le> CA_MAX_TOKEN_LEN
     \<and> (\<forall>a. rq_requestUri rq = Some a \<longrightarrow> (\<exists>s. cl_blocks st a = Some (Text s)))
     \<and> distinct (brings rq handle @ opt_list (rq_resourceTypeName rq))
     \<and> set (brings rq handle @ opt_list (rq_resourceTypeName rq)) \<inter> set (owned cs) = {}
     \<and> (\<forall>a\<in>set (brings rq handle @ opt_list (rq_resourceTypeName rq)). cl_blocks st a \<noteq> None)
     \<and> (\<forall>opts. rq_options rq = Some opts \<longrightarrow> unat (rq_numOptions rq) \<le> length opts)
     \<and> (\<forall>pl. rq_payload rq = Some pl \<longrightarrow> rq_payloadSize rq \<le> length pl)"

text \<open>The callback of a request.\<close>

definition made_from :: "OCCallbackData \<Rightarrow> cb_request \<Rightarrow> addr option \<Rightarrow> client \<Rightarrow> ClientCB \<Rightarrow> bool" where
  "made_from cd rq handle st cb \<longleftrightarrow>
     cb_callBack cb = cd_cb cd \<and> cb_context cb = cd_context cd \<and> cb_deleteCallback cb = cd_cd cd \<and> cb_token cb = rq_token rq
     \<and> cb_tokenLength cb = rq_tokenLength rq \<and> cb_handle cb = handle \<and> cb_method cb = rq_method rq
     \<and> cb_requestUri cb = rq_requestUri rq \<and> cb_devAddr cb = rq_devAddr rq
     \<and> cb_TTL cb = (if rq_method rq \<in> {OC_REST_PRESENCE, OC_REST_OBSERVE, OC_REST_OBSERVE_ALL} then 0 else rq_ttl rq)
     \<and> (cb_options cb = None \<and> (rq_options rq = None \<or> rq_numOptions rq = 0) \<or> (\<exists>a opts. cb_options cb = Some a \<and> rq_options rq = Some opts
          \<and> cl_blocks st a = Some (Options (take (unat (rq_numOptions rq)) opts))))
     \<and> (cb_payload cb = None \<and> (rq_payload rq = None \<or> rq_payloadSize rq = 0) \<or> (\<exists>a pl. cb_payload cb = Some a \<and> rq_payload rq = Some pl
          \<and> cl_blocks st a = Some (Bytes (take (rq_payloadSize rq) pl))))"

lemma copy_options_ok:
  assumes f: "\<forall>a \<ge> cl_fresh st. cl_blocks st a = None"
    and len: "\<forall>opts. rq_options rq = Some opts \<longrightarrow> unat (rq_numOptions rq) \<le> length opts"
  obtains (fail) st1 where "copy_cb_options rq st = Some (Inl st1)" "grows st st1" "cl_blocks st1 = cl_blocks st" "cl_mem st \<noteq> []"
  | (none) "copy_cb_options rq st = Some (Inr (None, 0, st))" "rq_options rq = None \<or> rq_numOptions rq = 0"
  | (copy) opts st1 where "copy_cb_options rq st = Some (Inr (Some (cl_fresh st), rq_numOptions rq, st1))" "grows st st1"
      "rq_options rq = Some opts" "cl_blocks st1 = (cl_blocks st)(cl_fresh st \<mapsto> Options (take (unat (rq_numOptions rq)) opts))"
      "cl_fresh st1 = Suc (cl_fresh st)" "cl_mem st = [] \<Longrightarrow> cl_mem st1 = []"
proof (cases "rq_options rq = None \<or> rq_numOptions rq = 0")
  case True
  then have "copy_cb_options rq st = Some (Inr (None, 0, st))" by (auto simp: copy_cb_options_def split: option.splits)
  then show ?thesis using none True by blast
next
  case False
  then obtain opts where o: "rq_options rq = Some opts" "rq_numOptions rq \<noteq> 0" by auto
  let ?n = "unat (rq_numOptions rq)"
  have "?n < 256" using unsigned_less [of "rq_numOptions rq", where ?'a = nat] by simp
  moreover have "0 < ?n" using o(2) by (simp add: unat_gt_0)
  ultimately have size: "?n * sizeof_CAHeaderOption \<le> max_object" "0 < ?n"
    by (simp_all add: sizeof_CAHeaderOption_def max_object_def)
  obtain ok m where m: "OICCalloc (cl_mem st) ?n sizeof_CAHeaderOption = (ok, m)" by fastforce
  have mem: "cl_mem st = [] \<Longrightarrow> ok \<and> m = []" using m size by (auto simp: OICCalloc_def sizeof_CAHeaderOption_def split: if_splits)
  obtain r st1 where nb: "new_block (ok, m) (Options (take ?n opts)) st = (r, st1)" by fastforce
  note b = new_block_ok [OF f nb]
  show ?thesis
  proof (cases ok)
    case True
    then show ?thesis using copy [of st1 opts] b o m nb mem len by (simp add: copy_cb_options_def)
  next
    case False
    then have "cl_mem st \<noteq> []" using mem by blast
    then show ?thesis using fail [of st1] False b o m nb by (simp add: copy_cb_options_def)
  qed
qed

lemma copy_payload_ok:
  assumes f: "\<forall>a \<ge> cl_fresh st. cl_blocks st a = None"
    and len: "\<forall>pl. rq_payload rq = Some pl \<longrightarrow> rq_payloadSize rq \<le> length pl"
    and o: "options = None \<or> (\<exists>a. options = Some a \<and> a < cl_fresh st \<and> cl_blocks st a \<noteq> None)"
  obtains (fail) st1 st2 where "copy_cb_payload rq options st = Some (Inl st2)" "grows st st1" "cl_blocks st1 = cl_blocks st"
      "st2 = st1\<lparr>cl_blocks := erased (opt_list options) (cl_blocks st1)\<rparr>"
      "cl_mem st \<noteq> [] \<or> max_object < rq_payloadSize rq"
  | (none) "copy_cb_payload rq options st = Some (Inr (None, 0, st))" "rq_payload rq = None \<or> rq_payloadSize rq = 0"
  | (copy) pl st1 where "copy_cb_payload rq options st = Some (Inr (Some (cl_fresh st), rq_payloadSize rq, st1))" "grows st st1"
      "rq_payload rq = Some pl" "cl_blocks st1 = (cl_blocks st)(cl_fresh st \<mapsto> Bytes (take (rq_payloadSize rq) pl))"
      "cl_fresh st1 = Suc (cl_fresh st)" "cl_mem st = [] \<Longrightarrow> cl_mem st1 = []"
proof (cases "rq_payload rq = None \<or> rq_payloadSize rq = 0")
  case True
  then have "copy_cb_payload rq options st = Some (Inr (None, 0, st))" by (auto simp: copy_cb_payload_def split: option.splits)
  then show ?thesis using none True by blast
next
  case False
  then obtain pl where p: "rq_payload rq = Some pl" "rq_payloadSize rq \<noteq> 0" by auto
  let ?n = "rq_payloadSize rq"
  obtain ok m where m: "OICCalloc (cl_mem st) 1 ?n = (ok, m)" by fastforce
  have mem: "cl_mem st = [] \<Longrightarrow> ok = (?n \<le> max_object) \<and> m = []" using m p(2) by (auto simp: OICCalloc_def split: if_splits)
  obtain r st1 where nb: "new_block (ok, m) (Bytes (take ?n pl)) st = (r, st1)" by fastforce
  note b = new_block_ok [OF f nb]
  show ?thesis
  proof (cases ok)
    case True
    then show ?thesis using copy [of st1 pl] b p m nb mem len by (simp add: copy_cb_payload_def)
  next
    case False
    have "oic_free options st1 = Some (st1\<lparr>cl_blocks := erased (opt_list options) (cl_blocks st1)\<rparr>)"
      unfolding free_opt by (rule free_list_ok) (use o b(5) [OF False] in auto)
    moreover have "cl_mem st \<noteq> [] \<or> max_object < rq_payloadSize rq" using mem False by (meson linorder_not_le)
    ultimately show ?thesis using fail [of _ st1] False b p m nb by (simp add: copy_cb_payload_def)
  qed
qed

lemma request_fresh: "cl_wf st cs \<Longrightarrow> request_ok st cs rq handle \<Longrightarrow> a \<in> set (brings rq handle @ opt_list (rq_resourceTypeName rq)) \<Longrightarrow> a < cl_fresh st"
  unfolding request_ok_def using cl_wfD(5) by (metis not_le)

text \<open>The new callback at the end of the list, given the copies of the options and of the payload.\<close>

lemma create_node:
  assumes wf: "cl_wf st cs" and rq: "request_ok st cs rq handle" and g: "grows (st\<lparr>cl_fresh := Suc (cl_fresh st)\<rparr>) st2"
    and o: "options = None \<and> (rq_options rq = None \<or> rq_numOptions rq = 0)
      \<or> (\<exists>a opts. options = Some a \<and> rq_options rq = Some opts \<and> cl_fresh st < a
            \<and> cl_blocks st2 a = Some (Options (take (unat (rq_numOptions rq)) opts)))"
    and pl: "payload = None \<and> (rq_payload rq = None \<or> rq_payloadSize rq = 0)
      \<or> (\<exists>a d. payload = Some a \<and> rq_payload rq = Some d \<and> cl_fresh st < a \<and> cl_blocks st2 a = Some (Bytes (take (rq_payloadSize rq) d)))"
    and cb: "cb = \<lparr>cb_callBack = cd_cb cd, cb_context = cd_context cd, cb_deleteCallback = cd_cd cd,
       cb_type = rq_type rq, cb_token = rq_token rq, cb_tokenLength = rq_tokenLength rq, cb_options = options,
       cb_numOptions = no, cb_payload = payload, cb_payloadSize = np,
       cb_payloadFormat = rq_payloadFormat rq, cb_handle = handle, cb_method = rq_method rq,
       cb_sequenceNumber = 0, cb_requestUri = rq_requestUri rq, cb_devAddr = rq_devAddr rq, cb_presence = None,
       cb_interesting = [],
       cb_TTL = (if rq_method rq = OC_REST_PRESENCE \<or> rq_method rq = OC_REST_OBSERVE
                    \<or> rq_method rq = OC_REST_OBSERVE_ALL then 0 else rq_ttl rq)\<rparr>"
  shows "\<exists>h head. LL_APPEND ((cl_nodes st2)(cl_fresh st \<mapsto> \<lparr>nd_data = cb, nd_next = None\<rparr>), g_cbList st2) (cl_fresh st) = Some (h, head)
    \<and> cl_wf (st2\<lparr>cl_nodes := h, g_cbList := head\<rparr>) (cs @ [(cl_fresh st, cb)])
    \<and> made_from cd rq handle (st2\<lparr>cl_nodes := h, g_cbList := head\<rparr>) cb \<and> dom h = insert (cl_fresh st) (dom (cl_nodes st2))"
proof -
  let ?new = "opt_list options @ opt_list payload"
  have g0: "grows st (st\<lparr>cl_fresh := Suc (cl_fresh st)\<rparr>)" using cl_wfD(5) [OF wf] by (simp add: grows_def)
  have gr: "grows st st2" by (rule grows_trans [OF g0 g])
  have wf2: "cl_wf st2 cs" by (rule grows_wf [OF wf gr])
  have own: "owns cb = brings rq handle @ ?new" by (simp add: owns_def brings_def cb)
  have old: "a < cl_fresh st" "cl_blocks st2 a = cl_blocks st a" if "a \<in> set (brings rq handle)" for a
    using request_fresh [OF wf rq, of a] that gr by (auto simp: grows_def)
  have new: "cl_fresh st < a" "cl_blocks st2 a \<noteq> None" if "a \<in> set ?new" for a using that o pl by auto
  have r: "distinct (brings rq handle)" "set (brings rq handle) \<inter> set (owned cs) = {}" "\<forall>a\<in>set (brings rq handle). cl_blocks st a \<noteq> None"
    using rq by (auto simp: request_ok_def)
  have n: "distinct ?new" using o pl by auto
  have "set (brings rq handle) \<inter> set ?new = {}" using old(1) new(1) by (meson disjoint_iff less_asym)
  then have b1: "distinct (owns cb)" unfolding own using r(1) n by (simp only: distinct_append)
  have "set ?new \<inter> set (owned cs) = {}" using owned_fresh [OF wf] new(1) by (meson disjoint_iff less_asym)
  then have b2: "set (owns cb) \<inter> set (owned cs) = {}" unfolding own using r(2) by (simp only: set_append Int_Un_distrib2 Un_empty_left)
  have b3: "\<forall>a\<in>set (owns cb). cl_blocks st2 a \<noteq> None"
    unfolding own using old(2) new(2) r(3) by (metis Un_iff set_append)
  have "cb_ok st2 cb"
  proof -
    have "rq_token rq = Some a \<or> rq_requestUri rq = Some a \<Longrightarrow> cl_blocks st2 a = cl_blocks st a" for a
      using old(2) [of a] by (auto simp: brings_def)
    then show ?thesis using rq by (fastforce simp: cb_ok_def cb request_ok_def)
  qed
  moreover have "cl_nodes st2 (cl_fresh st) = None" "cl_fresh st < cl_fresh st2" using g cl_wfD(5) [OF wf, of "cl_fresh st"] by (auto simp: grows_def)
  ultimately obtain h head where h: "LL_APPEND ((cl_nodes st2)(cl_fresh st \<mapsto> \<lparr>nd_data = cb, nd_next = None\<rparr>), g_cbList st2) (cl_fresh st) = Some (h, head)"
    "cl_wf (st2\<lparr>cl_nodes := h, g_cbList := head\<rparr>) (cs @ [(cl_fresh st, cb)])" "dom h = insert (cl_fresh st) (dom (cl_nodes st2))"
    using append_wf [OF wf2 _ _ _ b1 b2 b3] by blast
  moreover have "made_from cd rq handle (st2\<lparr>cl_nodes := h, g_cbList := head\<rparr>) cb"
    using o pl by (auto simp: made_from_def cb)
  ultimately show ?thesis by blast
qed

lemma create_cb_ok:
  assumes wf: "cl_wf st cs" and rq: "request_ok st cs rq handle"
  obtains (fail) st1 where "create_cb cd rq handle st = Some (Inl st1)" "grows st st1" "cl_blocks st1 = cl_blocks st"
      "cl_mem st \<noteq> [] \<or> max_object < rq_payloadSize rq"
  | (made) cb st1 where "create_cb cd rq handle st = Some (Inr (cl_fresh st, st1))" "cl_wf st1 (cs @ [(cl_fresh st, cb)])"
      "made_from cd rq handle st1 cb" "cl_deleters st1 = cl_deleters st" "\<forall>a < cl_fresh st. cl_blocks st1 a = cl_blocks st a"
      "cl_mem st = [] \<Longrightarrow> cl_mem st1 = []" "cb_interesting cb = []" "\<forall>a\<in>set (owns cb). a \<in> set (brings rq handle) \<or> cl_fresh st < a"
      "dom (cl_blocks st1) = dom (cl_blocks st) \<union> set (owns cb)" "dom (cl_nodes st1) = insert (cl_fresh st) (dom (cl_nodes st))"
proof -
  let ?st0 = "st\<lparr>cl_fresh := Suc (cl_fresh st)\<rparr>"
  have g0: "grows st ?st0" using cl_wfD(5) [OF wf] by (simp add: grows_def)
  have f0: "\<forall>a \<ge> cl_fresh ?st0. cl_blocks ?st0 a = None" using cl_wfD(5) [OF wf] by auto
  have lens: "\<forall>opts. rq_options rq = Some opts \<longrightarrow> unat (rq_numOptions rq) \<le> length opts"
    "\<forall>pl. rq_payload rq = Some pl \<longrightarrow> rq_payloadSize rq \<le> length pl"
    using rq by (simp_all add: request_ok_def)
  have live0: "set (brings rq handle) \<subseteq> dom (cl_blocks st)" using rq by (auto simp: request_ok_def)
  have made': thesis
    if o: "copy_cb_options rq ?st0 = Some (Inr (options, no, st1))" "grows ?st0 st1"
      "options = None \<and> (rq_options rq = None \<or> rq_numOptions rq = 0)
        \<or> (\<exists>a opts. options = Some a \<and> rq_options rq = Some opts \<and> cl_fresh st < a
            \<and> cl_blocks st1 a = Some (Options (take (unat (rq_numOptions rq)) opts)))"
      and m1: "cl_mem st = [] \<Longrightarrow> cl_mem st1 = []" and b1: "erased (opt_list options) (cl_blocks st1) = cl_blocks st"
        "dom (cl_blocks st1) = dom (cl_blocks st) \<union> set (opt_list options)"
    for options no st1
  proof -
    have f1: "\<forall>a \<ge> cl_fresh st1. cl_blocks st1 a = None" using o(2) by (simp add: grows_def)
    have live: "options = None \<or> (\<exists>a. options = Some a \<and> a < cl_fresh st1 \<and> cl_blocks st1 a \<noteq> None)"
      using o(3) f1 by (metis not_le option.distinct(1))
    have above: "cl_fresh st < cl_fresh st1" using o(2) by (simp add: grows_def)
    note node = create_node [OF wf rq, where cd = cd and no = no]
    show thesis
    proof (cases rule: copy_payload_ok [OF f1 lens(2) live])
      case (1 st2 st3)
      have "grows st1 st2" by (rule 1(2))
      then have "grows st st3"
        using grows_trans [OF g0 o(2)] o(3) 1(3,4) f1 above
        by (auto simp: grows_def erased_def opt_list_def split: option.splits)
      moreover have "cl_blocks st3 = cl_blocks st" using 1(3,4) b1(1) by simp
      ultimately show thesis using fail [of st3] o(1) 1 m1 by (auto simp: create_cb_def)
    next
      case 2
      obtain h head cb where n: "create_cb cd rq handle st = Some (Inr (cl_fresh st, st1\<lparr>cl_nodes := h, g_cbList := head\<rparr>))"
        "cl_wf (st1\<lparr>cl_nodes := h, g_cbList := head\<rparr>) (cs @ [(cl_fresh st, cb)])"
        "made_from cd rq handle (st1\<lparr>cl_nodes := h, g_cbList := head\<rparr>) cb"
        "cb_interesting cb = []" "owns cb = brings rq handle @ opt_list options" "dom h = insert (cl_fresh st) (dom (cl_nodes st1))"
        using node [OF o(2,3), of None, OF _ refl, of 0] 2 o(1) by (auto simp: create_cb_def owns_def brings_def)
      have dm: "dom (cl_blocks st1) = dom (cl_blocks st) \<union> set (owns cb)" "cl_nodes st1 = cl_nodes st"
        using b1(2) live0 n(5) o(2) by (auto simp: grows_def)
      have new: "\<forall>a\<in>set (owns cb). a \<in> set (brings rq handle) \<or> cl_fresh st < a" using n(5) o(3) by auto
      show thesis by (rule made [OF n(1-3) _ _ _ n(4) new])
        (use o(2) m1 dm n(6) in \<open>simp_all add: grows_def\<close>)
    next
      case (3 pl st2)
      have g2: "grows ?st0 st2" by (rule grows_trans [OF o(2) 3(2)])
      have o2: "options = None \<and> (rq_options rq = None \<or> rq_numOptions rq = 0)
        \<or> (\<exists>a opts. options = Some a \<and> rq_options rq = Some opts \<and> cl_fresh st < a
            \<and> cl_blocks st2 a = Some (Options (take (unat (rq_numOptions rq)) opts)))"
        using o(3) live 3(2) by (auto simp: grows_def)
      obtain h head cb where n: "create_cb cd rq handle st = Some (Inr (cl_fresh st, st2\<lparr>cl_nodes := h, g_cbList := head\<rparr>))"
        "cl_wf (st2\<lparr>cl_nodes := h, g_cbList := head\<rparr>) (cs @ [(cl_fresh st, cb)])"
        "made_from cd rq handle (st2\<lparr>cl_nodes := h, g_cbList := head\<rparr>) cb"
        "cb_interesting cb = []" "owns cb = brings rq handle @ opt_list options @ [cl_fresh st1]" "dom h = insert (cl_fresh st) (dom (cl_nodes st2))"
        using node [OF g2 o2, of "Some (cl_fresh st1)", OF _ refl, of "rq_payloadSize rq"] 3 o(1) above
        by (auto simp: create_cb_def owns_def brings_def)
      have dm: "dom (cl_blocks st2) = dom (cl_blocks st) \<union> set (owns cb)" "cl_nodes st2 = cl_nodes st"
        using b1(2) live0 g2 by (auto simp: grows_def n(5) 3(4))
      have new: "\<forall>a\<in>set (owns cb). a \<in> set (brings rq handle) \<or> cl_fresh st < a" using n(5) o(3) above by auto
      show thesis by (rule made [OF n(1-3) _ _ _ n(4) new])
        (use g2 m1 3(6) dm n(6) in \<open>simp_all add: grows_def\<close>)
    qed
  qed
  show thesis
  proof (cases rule: copy_options_ok [OF f0 lens(1)])
    case (1 st1)
    then show thesis using fail [of st1] grows_trans [OF g0] by (auto simp: create_cb_def)
  next
    case 2
    then show thesis using made' [of None 0 ?st0] f0 by (auto simp: grows_def)
  next
    case (3 opts st1)
    then have "erased (opt_list (Some (cl_fresh ?st0))) (cl_blocks st1) = cl_blocks st"
      using f0 by (auto simp: erased_def fun_eq_iff)
    then show thesis using made' [of "Some (cl_fresh ?st0)" "rq_numOptions rq" st1] 3 by (auto simp: insert_commute)
  qed
qed

text \<open>
  Nothing is lost: every live block belongs to a callback of the list or to the set \<open>held\<close> of those
  that the rest of the stack still holds, never to both, and every live node is in the list.
\<close>

definition accounted :: "addr set \<Rightarrow> client \<Rightarrow> cbs \<Rightarrow> bool" where
  "accounted held st cs \<longleftrightarrow> dom (cl_blocks st) = set (owned cs) \<union> held \<and> set (owned cs) \<inter> held = {} \<and> tight st cs"

lemma accounted_cong:
  "cl_nodes st' = cl_nodes st \<Longrightarrow> cl_blocks st' = cl_blocks st \<Longrightarrow> accounted held st' cs = accounted held st cs"
  by (simp add: accounted_def tight_def)

lemma released_accounted:
  assumes acc: "accounted held st cs" and rel: "released st gone st'" and d: "distinct (owned cs)"
    and parts: "mset (owned cs) = mset (owned cs') + mset (concat (map owns gone))" and t: "tight st cs \<longrightarrow> tight st' cs'"
  shows "accounted held st' cs'"
proof -
  let ?g = "concat (map owns gone)"
  have "mset (owned cs) = mset (owned cs' @ ?g)" using parts by simp
  then have s: "set (owned cs) = set (owned cs') \<union> set ?g" and "distinct (owned cs' @ ?g)"
    using d mset_eq_setD mset_eq_imp_distinct_iff by (metis set_append, metis)
  then have dj: "set (owned cs') \<inter> set ?g = {}" by simp
  have b: "cl_blocks st' = erased ?g (cl_blocks st)" using rel by (simp add: released_def)
  have e: "dom (cl_blocks st') = dom (cl_blocks st) - set ?g" unfolding b by (auto simp: erased_def split: if_splits)
  have a: "dom (cl_blocks st) = set (owned cs) \<union> held" "set (owned cs) \<inter> held = {}" "tight st cs"
    using acc by (simp_all add: accounted_def)
  have "dom (cl_blocks st') = set (owned cs') \<union> held" using a(1,2) dj unfolding e s by blast
  moreover have "set (owned cs') \<inter> held = {}" using a(2) unfolding s by blast
  ultimately show ?thesis using a(3) t by (simp add: accounted_def)
qed

text \<open>Blocks that the stack holds are freed by it.\<close>

lemma erased_accounted:
  assumes "accounted held st cs" "set as \<subseteq> held"
  shows "accounted (held - set as) (st\<lparr>cl_blocks := erased as (cl_blocks st)\<rparr>) cs"
proof -
  have "dom (erased as (cl_blocks st)) = dom (cl_blocks st) - set as" by (auto simp: erased_def split: if_splits)
  then show ?thesis using assms unfolding accounted_def tight_def by auto
qed

lemma accounted_live: "accounted held st cs \<Longrightarrow> a \<in> held \<Longrightarrow> cl_blocks st a \<noteq> None \<and> a \<notin> set (owned cs)"
  by (auto simp: accounted_def)

lemma search_owned:
  "mset (owned cs) = mset (owned (search_keeps P ticks cs)) + mset (concat (map owns (search_drops P ticks cs)))"
proof (induction cs)
  case (Cons x cs)
  then show ?case by (cases x) (auto simp: search_keeps_def search_drops_def ac_simps)
qed (simp add: search_keeps_def search_drops_def)

lemma delete_owned:
  "mset (owned cs) = mset (owned (filter (\<lambda>x. fst x \<noteq> c) cs)) + mset (concat (map owns (map snd (filter (\<lambda>x. fst x = c) cs))))"
  by (induction cs) (auto simp: owned_def ac_simps)

text \<open>The callbacks that still have to tell their contexts.\<close>

definition pending :: "cbs \<Rightarrow> (nat \<times> nat) list" where
  "pending cs = concat (map (notice \<circ> snd) cs)"

definition cd_notice :: "OCCallbackData \<Rightarrow> (nat \<times> nat) list" where
  "cd_notice cd = map (\<lambda>f. (f, cd_context cd)) (opt_list (cd_cd cd))"

lemma pending_simps [simp]: "pending [] = []" "pending (x # cs) = notice (snd x) @ pending cs" "pending (xs @ ys) = pending xs @ pending ys"
  by (simp_all add: pending_def)

lemma made_notice: "made_from cd rq handle st cb \<Longrightarrow> notice cb = cd_notice cd"
  by (simp add: made_from_def notice_def cd_notice_def)

lemma search_balance: "mset (pending (search_keeps P ticks cs)) + mset (concat (map notice (search_drops P ticks cs))) = mset (pending cs)"
proof (induction cs)
  case (Cons x cs)
  then show ?case by (auto simp: search_keeps_def search_drops_def ac_simps)
qed (simp add: search_keeps_def search_drops_def)

text \<open>Freeing blocks that no callback owns.\<close>

lemma free_unowned:
  assumes wf: "cl_wf st cs" and as: "distinct as" "set as \<inter> set (owned cs) = {}" "\<forall>a\<in>set as. cl_blocks st a \<noteq> None"
  shows "free_list as st = Some (st\<lparr>cl_blocks := erased as (cl_blocks st)\<rparr>)" "cl_wf (st\<lparr>cl_blocks := erased as (cl_blocks st)\<rparr>) cs"
proof -
  let ?st = "st\<lparr>cl_blocks := erased as (cl_blocks st)\<rparr>"
  have same: "cl_blocks ?st a = cl_blocks st a" if "a \<in> set (owned cs)" for a using as(2) that by (auto simp: erased_def)
  have "cb_ok ?st cb" if "(p, cb) \<in> set cs" for p cb
    by (rule cb_ok_frame [OF cl_wfD(4) [OF wf that]]) (use same owns_owned [OF that] in blast)
  then show "cl_wf ?st cs" using cl_wfD [OF wf] same unfolding cl_wf_def by (auto simp: erased_def)
  show "free_list as st = Some ?st" by (rule free_list_ok [OF as(1,3)])
qed

text \<open>A resource type that is added to a presence callback.\<close>

lemma insert_filter_ok:
  assumes wf: "cl_wf st (xs @ (p, cb) # ys)" and name: "cl_blocks st name \<noteq> None" "name \<notin> set (owned (xs @ (p, cb) # ys))"
  obtains (fail) st' where "InsertResourceTypeFilter p name st = Some (OC_STACK_NO_MEMORY, st')" "cl_wf st' (xs @ (p, cb) # ys)"
      "cl_deleters st' = cl_deleters st" "cl_mem st \<noteq> []" "cl_nodes st' = cl_nodes st" "cl_blocks st' = cl_blocks st"
  | (ok) a cb' st' where "InsertResourceTypeFilter p name st = Some (OC_STACK_OK, st')" "cl_blocks st a = None"
      "cb' = cb\<lparr>cb_interesting := cb_interesting cb @ [(a, name)]\<rparr>"
      "cl_wf st' (xs @ (p, cb') # ys)" "cl_deleters st' = cl_deleters st"
      "dom (cl_nodes st') = dom (cl_nodes st)" "dom (cl_blocks st') = insert a (dom (cl_blocks st))"
proof -
  note d = cl_wfD [OF wf]
  obtain n where n: "cl_nodes st p = Some n" "nd_data n = cb" using rep_node [OF d(1)] by metis
  obtain k mm where k: "OICMalloc (cl_mem st) sizeof_OCResourceType = (k, mm)" by fastforce
  obtain r st1 where nb: "new_block (k, mm) Opaque st = (r, st1)" by fastforce
  have fr: "\<forall>a \<ge> cl_fresh st. cl_blocks st a = None" using d(5) by blast
  note b = new_block_ok [OF fr nb]
  have wf1: "cl_wf st1 (xs @ (p, cb) # ys)" by (rule grows_wf [OF wf b(1)])
  have gr: "cl_nodes st1 = cl_nodes st" "g_cbList st1 = g_cbList st" "cl_deleters st1 = cl_deleters st"
    using b(1) by (simp_all add: grows_def)
  note d1 = cl_wfD [OF wf1]
  show ?thesis
  proof (cases k)
    case False
    have "cl_mem st \<noteq> []" using k False by (auto simp: OICMalloc_def sizeof_OCResourceType_def max_object_def)
    then show ?thesis using fail [of st1] k nb b False gr wf1 by (simp add: InsertResourceTypeFilter_def)
  next
    case True
    let ?a = "cl_fresh st"
    define cb' where "cb' = cb\<lparr>cb_interesting := cb_interesting cb @ [(?a, name)]\<rparr>"
    define st' where "st' = st1\<lparr>cl_nodes := (cl_nodes st1)(p \<mapsto> n\<lparr>nd_data := cb'\<rparr>)\<rparr>"
    have f: "cl_blocks st' = (cl_blocks st)(?a \<mapsto> Opaque)" "cl_fresh st' = Suc ?a" "g_cbList st' = g_cbList st"
      "cl_nodes st' = (cl_nodes st)(p \<mapsto> n\<lparr>nd_data := cb'\<rparr>)" "cl_deleters st' = cl_deleters st"
      using b(4) True gr by (simp_all add: st'_def)
    have run: "InsertResourceTypeFilter p name st = Some (OC_STACK_OK, st')"
      using k True nb b(2) n gr by (simp add: InsertResourceTypeFilter_def st'_def cb'_def Let_def)
    have a: "cl_blocks st ?a = None" "?a \<notin> set (owned (xs @ (p, cb) # ys))" "name \<noteq> ?a"
      using fr d(3) [of ?a] name(1) by (auto simp del: owned_simps)
    have o: "owns cb' = owns cb @ (if cb_method cb = OC_REST_PRESENCE then [name, ?a] else [])" by (simp add: owns_def cb'_def)
    have "ul_rep (cl_nodes st') (g_cbList st') (xs @ (p, cb') # ys)" unfolding f by (rule rep_update [OF d(1) n(1)])
    moreover have ok': "cb_ok st' c" if "cb_ok st1 c" for c using that by (simp add: cb_ok_def st'_def)
    have "cb_ok st' cb'" using ok' [of cb] d1(4) [of p cb] by (simp add: cb_ok_def cb'_def)
    then have "\<forall>(_, c)\<in>set (xs @ (p, cb') # ys). cb_ok st' c" using d1(4) ok' by auto
    moreover have "distinct (owned (xs @ (p, cb') # ys))" using d(2) name(2) a by (auto simp: o)
    moreover have "set (owned (xs @ (p, cb') # ys)) \<subseteq> {name, ?a} \<union> set (owned (xs @ (p, cb) # ys))" by (auto simp: o split: if_splits)
    then have "\<forall>c\<in>set (owned (xs @ (p, cb') # ys)). cl_blocks st' c \<noteq> None" using d(3) name(1) unfolding f(1) by fastforce
    moreover have "p < ?a" using d(5) [of p] n(1) by (metis not_le option.distinct(1))
    then have "\<forall>c. cl_fresh st' \<le> c \<longrightarrow> cl_nodes st' c = None \<and> cl_blocks st' c = None" using d(5) unfolding f by auto
    ultimately have "cl_wf st' (xs @ (p, cb') # ys)" unfolding cl_wf_def by blast
    then show ?thesis using ok [OF run a(1) cb'_def] f n(1) by auto
  qed
qed

definition balance :: "client \<Rightarrow> cbs \<Rightarrow> (nat \<times> nat) multiset" where
  "balance st cs = mset (cl_deleters st) + mset (pending cs)"

lemma released_balance:
  assumes "released st (search_drops P ticks cs) st'"
  shows "balance st' (search_keeps P ticks cs) = balance st cs"
  using assms search_balance [of P ticks cs] by (simp add: balance_def released_def ac_simps)

lemma set_search_keeps: "set (search_keeps P ticks cs) \<subseteq> set cs"
  by (auto simp: search_keeps_def dest: set_takeWhileD set_dropWhileD)

lemma owned_drops: "set (concat (map owns (search_drops P ticks cs))) \<subseteq> set (owned cs)"
  by (force simp: search_drops_def owned_def dest: set_takeWhileD)

lemma owned_mono: "set cs' \<subseteq> set cs \<Longrightarrow> set (owned cs') \<subseteq> set (owned cs)"
  by (auto simp: owned_def)

lemma request_search:
  assumes rq: "request_ok st cs rq handle" and r: "released st (search_drops P ticks cs) st'"
  shows "request_ok st' (search_keeps P ticks cs) rq handle"
proof -
  have same: "cl_blocks st' a = cl_blocks st a" if "a \<in> set (brings rq handle @ opt_list (rq_resourceTypeName rq))" for a
    using released_blocks [OF r, of a] owned_drops [of P ticks cs] rq that by (auto simp: request_ok_def)
  have "rq_token rq = Some a \<or> rq_requestUri rq = Some a \<Longrightarrow> cl_blocks st' a = cl_blocks st a" for a
    using same [of a] by (auto simp: brings_def)
  then show ?thesis
    using rq same owned_mono [OF set_search_keeps [of P ticks cs]] unfolding request_ok_def by fastforce
qed

text \<open>
  The search for a presence request looks at URIs only. The filter is freed with a callback of presence
  alone, so the callbacks with the URI of a presence request have to be such ones (the stack makes
  their URIs with \<open>OCPreparePresence\<close>).
\<close>

definition presence_only :: "client \<Rightarrow> cbs \<Rightarrow> cb_request \<Rightarrow> bool" where
  "presence_only st cs rq \<longleftrightarrow>
     (\<forall>a s p cb. rq_method rq = OC_REST_PRESENCE \<and> rq_requestUri rq = Some a \<and> cl_blocks st a = Some (Text s)
        \<and> (p, cb) \<in> set cs \<and> uri_text st cb = Some s \<longrightarrow> cb_method cb = OC_REST_PRESENCE)"

lemma find_presence:
  assumes wf: "cl_wf st cs" and rq: "request_ok st cs rq handle"
  obtains found st1 cs1 where
    "(if rq_method rq = OC_REST_PRESENCE then do { uri \<leftarrow> uri_of (rq_requestUri rq) st; GetClientCBUsingUri uri ticks st }
      else Some (None, st)) = Some (found, st1)"
    "cl_wf st1 cs1" "request_ok st1 cs1 rq handle" "balance st1 cs1 = balance st cs" "cl_mem st1 = cl_mem st"
    "rq_method rq \<noteq> OC_REST_PRESENCE \<longrightarrow> st1 = st \<and> cs1 = cs \<and> found = None" "\<forall>p. found = Some p \<longrightarrow> p \<in> fst ` set cs1"
    "\<forall>held. accounted held st cs \<longrightarrow> accounted held st1 cs1"
    "\<forall>p cb. found = Some p \<longrightarrow> presence_only st cs rq \<longrightarrow> (p, cb) \<in> set cs1 \<longrightarrow> cb_method cb = rq_method rq"
proof (cases "rq_method rq = OC_REST_PRESENCE \<and> rq_requestUri rq \<noteq> None")
  case True
  then obtain a s where s: "rq_requestUri rq = Some a" "cl_blocks st a = Some (Text s)" using rq by (auto simp: request_ok_def)
  let ?P = "\<lambda>cb. uri_text st cb = Some s"
  obtain st1 where st1: "search_cb (uri_hit s) ticks st = Some (search_finds ?P cs, st1)"
    "cl_wf st1 (search_keeps ?P ticks cs)" "released st (search_drops ?P ticks cs) st1"
    "tight st cs \<longrightarrow> tight st1 (search_keeps ?P ticks cs)"
    using search_ok [OF wf uri_tests [OF wf]] by blast
  note acc = released_accounted [OF _ st1(3) cl_wfD(2) [OF wf] search_owned st1(4)]
  have pres: "cb_method cb = rq_method rq"
    if f: "search_finds ?P cs = Some p" "presence_only st cs rq" "(p, cb) \<in> set (search_keeps ?P ticks cs)" for p cb
  proof -
    obtain x where x: "find (\<lambda>x. ?P (snd x)) cs = Some x" "fst x = p" using f(1) by (auto simp: search_finds_def)
    then have "x \<in> set cs" "?P (snd x)" by (auto simp: find_Some_iff)
    moreover have "(p, cb) \<in> set cs" using f(3) set_search_keeps by blast
    then have "cb = snd x"
      using cl_wfD(1) [OF wf] x(2) calculation(1) unfolding ul_rep_def by (metis eq_key_imp_eq_value prod.collapse)
    ultimately show ?thesis using f(2) s True unfolding presence_only_def by (metis prod.collapse)
  qed
  have "p \<in> fst ` set (search_keeps ?P ticks cs)" if f: "search_finds ?P cs = Some p" for p
  proof -
    obtain x where "find (\<lambda>x. ?P (snd x)) cs = Some x" "fst x = p" using f by (auto simp: search_finds_def)
    then have "x \<in> set (dropWhile (\<lambda>x. \<not> ?P (snd x)) cs)" by (induction cs) (auto split: if_splits)
    then show ?thesis using \<open>fst x = p\<close> by (force simp: search_keeps_def)
  qed
  then show ?thesis
    using that [of "search_finds ?P cs" st1 "search_keeps ?P ticks cs"] True s st1(1,2,3) request_search [OF rq st1(3)] released_balance [OF st1(3)] acc pres
    by (auto simp: uri_of_def GetClientCBUsingUri_def released_def)
next
  case False
  then show ?thesis using that [of None st cs] wf rq by (auto simp: uri_of_def GetClientCBUsingUri_def)
qed

lemma finish_add_ok:
  assumes wf: "cl_wf st cs" and p: "p \<in> fst ` set cs"
    and name: "\<And>a. rq_resourceTypeName rq = Some a \<Longrightarrow> cl_blocks st a \<noteq> None \<and> a \<notin> set (owned cs)"
  shows "\<exists>r st' cs'. finish_add rq p handle' st = Some (r, Some (Some p), Some handle', st') \<and> r \<in> {OC_STACK_OK, OC_STACK_NO_MEMORY}
    \<and> cl_wf st' cs' \<and> map fst cs' = map fst cs \<and> balance st' cs' = balance st cs
    \<and> (cl_mem st = [] \<longrightarrow> r = OC_STACK_OK)
    \<and> (rq_method rq \<noteq> OC_REST_PRESENCE \<longrightarrow> cs' = cs \<and> r = OC_STACK_OK
         \<and> (\<forall>a. a \<notin> set (opt_list (rq_resourceTypeName rq)) \<longrightarrow> cl_blocks st' a = cl_blocks st a))
    \<and> (\<forall>held. accounted held st cs \<and> set (opt_list (rq_resourceTypeName rq)) \<subseteq> held
         \<and> (\<forall>cb. (p, cb) \<in> set cs \<longrightarrow> cb_method cb = rq_method rq) \<longrightarrow>
         accounted (held - (if r = OC_STACK_OK then set (opt_list (rq_resourceTypeName rq)) else {})) st' cs')"
proof (cases "rq_resourceTypeName rq")
  case None
  then show ?thesis using wf by (auto simp: finish_add_def)
next
  case (Some name)
  note n = name [OF Some]
  show ?thesis
  proof (cases "rq_method rq = OC_REST_PRESENCE")
    case False
    have "free_list [name] st = Some (st\<lparr>cl_blocks := erased [name] (cl_blocks st)\<rparr>)"
      "cl_wf (st\<lparr>cl_blocks := erased [name] (cl_blocks st)\<rparr>) cs"
      using free_unowned [OF wf, of "[name]"] n by simp_all
    then show ?thesis using False Some erased_accounted [of _ st cs "[name]"]
      by (simp add: finish_add_def free_single balance_def)
  next
    case True
    obtain xs cb ys where cs: "cs = xs @ (p, cb) # ys" using p by (auto dest!: split_list)
    have "name \<notin> set (owned (xs @ (p, cb) # ys))" using n cs by simp
    from insert_filter_ok [OF wf [unfolded cs] conjunct1 [OF n] this] show ?thesis
    proof cases
      case (1 st')
      then show ?thesis using True Some cs by (intro exI [of _ OC_STACK_NO_MEMORY] exI [of _ st'] exI [of _ cs])
          (use accounted_cong [OF 1(5,6)] in \<open>simp add: finish_add_def balance_def\<close>)
    next
      case (2 a cb' st')
      have ins: "accounted (held - {name}) st' (xs @ (p, cb') # ys)"
        if h: "accounted held st cs" "name \<in> held" and m: "cb_method cb = OC_REST_PRESENCE" for held
      proof -
        have o: "set (owned (xs @ (p, cb') # ys)) = {name, a} \<union> set (owned cs)" using m by (auto simp: 2(3) owns_def cs)
        have f: "fst ` set (xs @ (p, cb') # ys) = fst ` set cs" by (simp add: cs)
        have ac: "dom (cl_blocks st) = set (owned cs) \<union> held" "set (owned cs) \<inter> held = {}" "dom (cl_nodes st) \<subseteq> fst ` set cs"
          using h(1) by (simp_all add: accounted_def tight_def)
        have "a \<notin> held" using ac(1) 2(2) by auto
        then have "({name, a} \<union> set (owned cs)) \<inter> (held - {name}) = {}" using ac(2) by auto
        moreover have "insert a (dom (cl_blocks st)) = {name, a} \<union> set (owned cs) \<union> (held - {name})" using ac(1) h(2) by auto
        ultimately show ?thesis using ac(3) unfolding accounted_def tight_def o f 2(6,7) by simp
      qed
      have acc: "accounted (held - set (opt_list (rq_resourceTypeName rq))) st' (xs @ (p, cb') # ys)"
        if h: "accounted held st cs \<and> set (opt_list (rq_resourceTypeName rq)) \<subseteq> held
         \<and> (\<forall>cb. (p, cb) \<in> set cs \<longrightarrow> cb_method cb = rq_method rq)" for held
      proof -
        have "(p, cb) \<in> set cs" by (simp add: cs)
        then have "cb_method cb = OC_REST_PRESENCE" using h True by metis
        moreover have "name \<in> held" using h Some by simp
        ultimately show ?thesis using ins [of held] h Some by simp
      qed
      have "notice cb' = notice cb" by (simp add: notice_def 2(3))
      then have "balance st' (xs @ (p, cb') # ys) = balance st cs" using cs 2(5) by (simp add: balance_def)
      moreover have "finish_add rq p handle' st = Some (OC_STACK_OK, Some (Some p), Some handle', st')"
        using True Some 2(1) by (simp add: finish_add_def)
      moreover have "map fst (xs @ (p, cb') # ys) = map fst cs" by (simp add: cs)
      ultimately show ?thesis using True 2(4) acc
        by (intro exI [of _ OC_STACK_OK] exI [of _ st'] exI [of _ "xs @ (p, cb') # ys"]) simp
    qed
  qed
qed

lemma call_deleter_fields [simp]:
  "cl_nodes (call_deleter f c st) = cl_nodes st" "g_cbList (call_deleter f c st) = g_cbList st"
  "cl_blocks (call_deleter f c st) = cl_blocks st" "cl_fresh (call_deleter f c st) = cl_fresh st"
  "cl_mem (call_deleter f c st) = cl_mem st"
  by (auto simp: call_deleter_def split: option.splits)

lemma call_deleter_log: "cl_deleters (call_deleter (cd_cd cd) (cd_context cd) st) = cl_deleters st @ cd_notice cd"
  by (auto simp: call_deleter_def cd_notice_def split: option.splits)

lemma wf_cong: "cl_wf st cs \<Longrightarrow> cl_nodes st' = cl_nodes st \<Longrightarrow> g_cbList st' = g_cbList st \<Longrightarrow> cl_blocks st' = cl_blocks st \<Longrightarrow>
    cl_fresh st' = cl_fresh st \<Longrightarrow> cl_wf st' cs"
  by (simp add: cl_wf_def cb_ok_def)

lemma request_cong: "request_ok st cs rq handle \<Longrightarrow> cl_blocks st' = cl_blocks st \<Longrightarrow> request_ok st' cs rq handle"
  by (simp add: request_ok_def)

lemma reuse_ok:
  assumes wf: "cl_wf st cs" and rq: "request_ok st cs rq handle" and p: "p \<in> fst ` set cs"
  shows "\<exists>h' st'. reuse_cb cd rq handle p st = Some (h', st') \<and> cl_wf st' cs
    \<and> balance st' cs = balance st cs + mset (cd_notice cd) \<and> cl_mem st' = cl_mem st
    \<and> (\<forall>a. rq_resourceTypeName rq = Some a \<longrightarrow> cl_blocks st' a \<noteq> None \<and> a \<notin> set (owned cs))
    \<and> (\<forall>held. accounted held st cs \<and> set (brings rq handle) \<subseteq> held \<longrightarrow> accounted (held - set (brings rq handle)) st' cs)"
proof -
  let ?st = "call_deleter (cd_cd cd) (cd_context cd) st"
  let ?as = "opt_list (rq_token rq) @ opt_list handle @ opt_list (rq_requestUri rq) @ opt_list (rq_devAddr rq)"
  have wf1: "cl_wf ?st cs" by (rule wf_cong [OF wf]) simp_all
  have eq: "mset ?as = mset (brings rq handle)" by (simp add: brings_def ac_simps)
  have se: "set ?as = set (brings rq handle)" using eq by (rule mset_eq_setD)
  have di: "distinct ?as" using rq mset_eq_imp_distinct_iff [OF eq] by (simp add: request_ok_def)
  have as: "set ?as \<inter> set (owned cs) = {}" "\<forall>a\<in>set ?as. cl_blocks ?st a \<noteq> None"
    unfolding se using rq by (auto simp: request_ok_def)
  note f = free_unowned [OF wf1 di as]
  let ?st' = "?st\<lparr>cl_blocks := erased ?as (cl_blocks ?st)\<rparr>"
  obtain n where n: "cl_nodes st p = Some n" using rep_data [OF cl_wfD(1) [OF wf]] p by fastforce
  have "reuse_cb cd rq handle p st = free_list ?as ?st \<bind> (\<lambda>st. cl_nodes st p \<bind> (\<lambda>n. Some (cb_handle (nd_data n), st)))"
    by (simp add: reuse_cb_def free_opt free_list_append Let_def del: free_list.simps(2))
  then have run: "reuse_cb cd rq handle p st = Some (cb_handle (nd_data n), ?st')" unfolding f(1) by (simp add: n)
  have "cl_blocks ?st' a \<noteq> None \<and> a \<notin> set (owned cs)" if "rq_resourceTypeName rq = Some a" for a
  proof -
    have "a \<notin> set ?as" unfolding se using rq that by (auto simp: request_ok_def)
    then show ?thesis using rq that by (auto simp: request_ok_def erased_def)
  qed
  moreover have "balance ?st' cs = balance st cs + mset (cd_notice cd)" by (simp add: balance_def call_deleter_log ac_simps)
  moreover have "accounted (held - set (brings rq handle)) ?st' cs"
    if "accounted held st cs" "set (brings rq handle) \<subseteq> held" for held
  proof -
    have "accounted held ?st cs" using accounted_cong [of ?st st held cs] that(1) by simp
    from erased_accounted [OF this, of ?as] that(2) show ?thesis unfolding se by blast
  qed
  ultimately show ?thesis using run f(2) by (intro exI [of _ "cb_handle (nd_data n)"] exI [of _ ?st']) simp
qed

text \<open>
  A request that owns its blocks. The context is taken over exactly when the pointer to the callback
  is set, and then it is in the list or was told at once.
\<close>

definition takes :: "cb_request \<Rightarrow> addr option \<Rightarrow> OCStackResult \<Rightarrow> addr set" where
  "takes rq handle r = set (brings rq handle) \<union> (if r = OC_STACK_OK then set (opt_list (rq_resourceTypeName rq)) else {})"

definition added :: "bool \<Rightarrow> OCCallbackData \<Rightarrow> cb_request \<Rightarrow> addr option \<Rightarrow> client \<Rightarrow> cbs \<Rightarrow> addr option \<Rightarrow> OCStackResult \<Rightarrow> addr option
    \<Rightarrow> client \<Rightarrow> cbs \<Rightarrow> bool" where
  "added safe cd rq handle st cs c r c' st' cs' \<longleftrightarrow> r \<in> {OC_STACK_OK, OC_STACK_NO_MEMORY} \<and> cl_wf st' cs'
     \<and> (balance st' cs' = balance st cs + mset (cd_notice cd) \<and> c' \<in> Some ` fst ` set cs'
          \<and> (\<forall>held. accounted held st cs \<and> set (brings rq handle @ opt_list (rq_resourceTypeName rq)) \<subseteq> held
               \<and> safe \<longrightarrow> accounted (held - takes rq handle r) st' cs')
        \<or> balance st' cs' = balance st cs \<and> r = OC_STACK_NO_MEMORY \<and> c' \<in> {None, c}
          \<and> (\<forall>held. accounted held st cs \<longrightarrow> accounted held st' cs'))"

lemma accounted_takes:
  assumes "accounted held st cs \<Longrightarrow> accounted (held - set (brings rq handle)) st1 cs1"
    and "\<forall>held. accounted held st1 cs1 \<and> set (opt_list (rq_resourceTypeName rq)) \<subseteq> held
         \<and> (\<forall>cb. (p, cb) \<in> set cs1 \<longrightarrow> cb_method cb = rq_method rq) \<longrightarrow>
         accounted (held - (if r = OC_STACK_OK then set (opt_list (rq_resourceTypeName rq)) else {})) st' cs'"
    and "request_ok st0 cs0 rq handle" "\<And>cb. (p, cb) \<in> set cs1 \<Longrightarrow> cb_method cb = rq_method rq"
    and "accounted held st cs" "set (brings rq handle @ opt_list (rq_resourceTypeName rq)) \<subseteq> held"
  shows "accounted (held - takes rq handle r) st' cs'"
proof -
  let ?h = "held - set (brings rq handle)"
  have "set (opt_list (rq_resourceTypeName rq)) \<inter> set (brings rq handle) = {}" using assms(3) by (auto simp: request_ok_def)
  then have "set (opt_list (rq_resourceTypeName rq)) \<subseteq> ?h" using assms(6) by auto
  then have "accounted (?h - (if r = OC_STACK_OK then set (opt_list (rq_resourceTypeName rq)) else {})) st' cs'"
    using assms(1,2,4,5) by blast
  then show ?thesis by (simp add: takes_def Diff_eq Int_assoc)
qed

text \<open>A request other than for presence: a callback at the end of the list, or nothing.\<close>

definition appended :: "OCCallbackData \<Rightarrow> cb_request \<Rightarrow> addr option \<Rightarrow> client \<Rightarrow> cbs \<Rightarrow> OCStackResult \<Rightarrow> addr option \<Rightarrow> addr option \<Rightarrow> client \<Rightarrow> cbs \<Rightarrow> bool" where
  "appended cd rq handle st cs r c' h' st' cs' \<longleftrightarrow>
     r = OC_STACK_NO_MEMORY \<and> cs' = cs
     \<or> r = OC_STACK_OK \<and> h' = handle \<and> (\<exists>p cb. c' = Some p \<and> p \<notin> fst ` set cs \<and> cs' = cs @ [(p, cb)] \<and> made_from cd rq handle st' cb
          \<and> (\<forall>a \<in> set (brings rq handle @ owned cs). cl_blocks st' a = cl_blocks st a))"

lemma made_added:
  assumes wf: "cl_wf st cs" and rq: "request_ok st cs rq handle"
    and made: "cl_wf st1 (cs @ [(cl_fresh st, cb)])" "made_from cd rq handle st1 cb" "cl_deleters st1 = cl_deleters st"
      "\<forall>a < cl_fresh st. cl_blocks st1 a = cl_blocks st a" "\<forall>a\<in>set (owns cb). a \<in> set (brings rq handle) \<or> cl_fresh st < a"
      "dom (cl_blocks st1) = dom (cl_blocks st) \<union> set (owns cb)" "dom (cl_nodes st1) = insert (cl_fresh st) (dom (cl_nodes st))"
  shows "\<exists>r st' cs'. finish_add rq (cl_fresh st) handle st1 = Some (r, Some (Some (cl_fresh st)), Some handle, st')
    \<and> added True cd rq handle st cs c r (Some (cl_fresh st)) st' cs' \<and> (cl_mem st1 = [] \<longrightarrow> r = OC_STACK_OK)
    \<and> (rq_method rq \<noteq> OC_REST_PRESENCE \<longrightarrow> appended cd rq handle st cs r (Some (cl_fresh st)) handle st' cs')"
proof -
  let ?p = "cl_fresh st"
  let ?cs = "cs @ [(?p, cb)]"
  have np: "?p \<notin> fst ` set cs" using cl_wfD(1) [OF made(1)] by (auto simp: ul_rep_def)
  have name: "cl_blocks st1 a \<noteq> None \<and> a \<notin> set (owned ?cs)" if "rq_resourceTypeName rq = Some a" for a
  proof -
    have "a < ?p" using request_fresh [OF wf rq, of a] that by simp
    moreover have "a \<notin> set (brings rq handle)" "cl_blocks st a \<noteq> None" "a \<notin> set (owned cs)" using rq that by (auto simp: request_ok_def)
    ultimately show ?thesis using made(4,5) by auto
  qed
  obtain r st' cs' where f: "finish_add rq ?p handle st1 = Some (r, Some (Some ?p), Some handle, st')" "r \<in> {OC_STACK_OK, OC_STACK_NO_MEMORY}"
    "cl_wf st' cs'" "map fst cs' = map fst ?cs" "balance st' cs' = balance st1 ?cs" "cl_mem st1 = [] \<longrightarrow> r = OC_STACK_OK"
    "rq_method rq \<noteq> OC_REST_PRESENCE \<longrightarrow> cs' = ?cs \<and> r = OC_STACK_OK
       \<and> (\<forall>a. a \<notin> set (opt_list (rq_resourceTypeName rq)) \<longrightarrow> cl_blocks st' a = cl_blocks st1 a)"
    "\<forall>held. accounted held st1 ?cs \<and> set (opt_list (rq_resourceTypeName rq)) \<subseteq> held
       \<and> (\<forall>cb. (?p, cb) \<in> set ?cs \<longrightarrow> cb_method cb = rq_method rq) \<longrightarrow>
       accounted (held - (if r = OC_STACK_OK then set (opt_list (rq_resourceTypeName rq)) else {})) st' cs'"
    using finish_add_ok [OF made(1) _ name, of ?p rq handle] by auto
  have acc: "accounted (held - takes rq handle r) st' cs'"
    if h: "accounted held st cs" "set (brings rq handle @ opt_list (rq_resourceTypeName rq)) \<subseteq> held" for held
  proof (rule accounted_takes [OF _ f(8) rq _ h])
    have "set (brings rq handle) \<subseteq> set (owns cb)" using made(2) by (auto simp: made_from_def brings_def owns_def)
    moreover have "a < ?p" if "a \<in> held" for a using accounted_live [OF h(1) that] cl_wfD(5) [OF wf, of a] by (meson not_le)
    then have "set (owns cb) \<inter> (held - set (brings rq handle)) = {}" using made(5) by (meson Diff_iff disjoint_iff less_asym)
    moreover have ac: "dom (cl_blocks st) = set (owned cs) \<union> held" "set (owned cs) \<inter> held = {}" "dom (cl_nodes st) \<subseteq> fst ` set cs"
      using h(1) by (simp_all add: accounted_def tight_def)
    ultimately have "set (owned cs) \<union> held \<union> set (owns cb) = set (owned cs) \<union> set (owns cb) \<union> (held - set (brings rq handle))"
      "(set (owned cs) \<union> set (owns cb)) \<inter> (held - set (brings rq handle)) = {}" by blast+
    then show "accounted (held - set (brings rq handle)) st1 ?cs"
      using ac(1,3) made(6,7) unfolding accounted_def tight_def by auto
    show "cb_method c = rq_method rq" if "(?p, c) \<in> set ?cs" for c
      using that np made(2) by (force simp: made_from_def)
  qed
  have "balance st1 ?cs = balance st cs + mset (cd_notice cd)" using made_notice [OF made(2)] made(3) by (simp add: balance_def)
  moreover have "?p \<in> fst ` set cs'" using f(4) by (metis list.set_map in_set_conv_decomp map_append list.simps(8,9) fst_conv)
  ultimately have a: "added True cd rq handle st cs c r (Some ?p) st' cs'" using f(2,3,5) acc by (simp add: added_def)
  have "appended cd rq handle st cs r (Some ?p) handle st' cs'" if m: "rq_method rq \<noteq> OC_REST_PRESENCE"
  proof -
    have old: "cl_blocks st' a = cl_blocks st a" if "a \<in> set (brings rq handle @ owned cs)" for a
      using f(7) m that made(4) request_fresh [OF wf rq, of a] owned_fresh [OF wf, of a] rq by (auto simp: request_ok_def)
    have "cl_blocks st' a = cl_blocks st1 a" if "a \<in> set (owns cb)" for a
    proof -
      have "rq_resourceTypeName rq \<noteq> Some a" using name [of a] that by auto
      then show ?thesis using f(7) m by (auto simp: opt_list_def split: option.splits)
    qed
    then have "made_from cd rq handle st' cb" using made(2) by (auto simp: made_from_def owns_def)
    then show ?thesis using f(7) m np old by (auto simp: appended_def)
  qed
  then show ?thesis using f(1,6) a by blast
qed

lemma new_cb_ok:
  assumes wf: "cl_wf st cs" and rq: "request_ok st cs rq handle"
  shows "\<exists>r c' st' cs'. new_cb c cd rq handle st = Some (r, Some c', Some handle, st') \<and> added True cd rq handle st cs c r c' st' cs'
    \<and> (cl_mem st = [] \<and> rq_payloadSize rq \<le> max_object \<longrightarrow> r = OC_STACK_OK)
    \<and> (rq_method rq \<noteq> OC_REST_PRESENCE \<longrightarrow> appended cd rq handle st cs r c' handle st' cs')"
proof -
  obtain k m where k: "OICMalloc (cl_mem st) sizeof_ClientCB = (k, m)" by fastforce
  have mem: "cl_mem st = [] \<Longrightarrow> k \<and> m = []" using k by (auto simp: OICMalloc_def sizeof_ClientCB_def max_object_def split: if_splits)
  let ?st = "st\<lparr>cl_mem := m\<rparr>"
  have wf1: "cl_wf ?st cs" by (rule wf_cong [OF wf]) simp_all
  have rq1: "request_ok ?st cs rq handle" by (rule request_cong [OF rq]) simp
  have ac: "accounted held ?st cs = accounted held st cs" for held by (rule accounted_cong) simp_all
  have same: "added True cd rq handle ?st cs = added True cd rq handle st cs" "appended cd rq handle ?st cs = appended cd rq handle st cs"
    by (simp_all add: added_def appended_def balance_def fun_eq_iff ac)
  have refused: ?thesis if "new_cb c cd rq handle st = Some (OC_STACK_NO_MEMORY, Some c', Some handle, st')" "c' \<in> {None, c}" "grows ?st st'"
    "cl_mem st \<noteq> [] \<or> max_object < rq_payloadSize rq" "cl_blocks st' = cl_blocks st" for c' st'
  proof -
    have "accounted held st' cs = accounted held st cs" for held
      using that(3,5) by (intro accounted_cong) (simp_all add: grows_def)
    then show ?thesis using that grows_wf [OF wf1 that(3)]
      by (intro exI [of _ OC_STACK_NO_MEMORY] exI [of _ c'] exI [of _ st'] exI [of _ cs]) (auto simp: added_def appended_def balance_def grows_def)
  qed
  show ?thesis
  proof (cases k)
    case False
    then show ?thesis using refused [of None ?st] k mem cl_wfD(5) [OF wf] by (auto simp: new_cb_def grows_def)
  next
    case True
    from create_cb_ok [OF wf1 rq1, of cd] show ?thesis
    proof cases
      case (1 st1)
      then show ?thesis using refused [of c st1] k True mem by (auto simp: new_cb_def)
    next
      case (2 cb st1)
      obtain r st' cs' where f: "finish_add rq (cl_fresh ?st) handle st1 = Some (r, Some (Some (cl_fresh ?st)), Some handle, st')"
        "added True cd rq handle ?st cs c r (Some (cl_fresh ?st)) st' cs'" "cl_mem st1 = [] \<longrightarrow> r = OC_STACK_OK"
        "rq_method rq \<noteq> OC_REST_PRESENCE \<longrightarrow> appended cd rq handle ?st cs r (Some (cl_fresh ?st)) handle st' cs'"
        using made_added [OF wf1 rq1 2(2-5,8-10)] by blast
      then show ?thesis using 2(1,6) k True mem unfolding same
        by (intro exI [of _ r] exI [of _ "Some (cl_fresh st)"] exI [of _ st'] exI [of _ cs']) (auto simp: new_cb_def)
    qed
  qed
qed

lemma add_cb_ok:
  assumes wf: "cl_wf st cs" and rq: "request_ok st cs rq handle"
  shows "\<exists>r c' h' st' cs'. AddClientCB (Some c) (Some cd) rq (Some handle) ticks st = Some (r, Some c', Some h', st')
    \<and> added (presence_only st cs rq) cd rq handle st cs c r c' st' cs' \<and> (cl_mem st = [] \<and> rq_payloadSize rq \<le> max_object \<longrightarrow> r = OC_STACK_OK)
    \<and> (rq_method rq \<noteq> OC_REST_PRESENCE \<longrightarrow> appended cd rq handle st cs r c' h' st' cs')"
proof -
  have tl: "\<not> CA_MAX_TOKEN_LEN < unat (rq_tokenLength rq)" using rq by (simp add: request_ok_def)
  obtain found st1 cs1 where s1: "(if rq_method rq = OC_REST_PRESENCE then do { uri \<leftarrow> uri_of (rq_requestUri rq) st; GetClientCBUsingUri uri ticks st }
      else Some (None, st)) = Some (found, st1)"
    "cl_wf st1 cs1" "request_ok st1 cs1 rq handle" "balance st1 cs1 = balance st cs" "cl_mem st1 = cl_mem st"
    "rq_method rq \<noteq> OC_REST_PRESENCE \<longrightarrow> st1 = st \<and> cs1 = cs \<and> found = None" "\<forall>p. found = Some p \<longrightarrow> p \<in> fst ` set cs1"
    "\<forall>held. accounted held st cs \<longrightarrow> accounted held st1 cs1"
    "\<forall>p cb. found = Some p \<longrightarrow> presence_only st cs rq \<longrightarrow> (p, cb) \<in> set cs1 \<longrightarrow> cb_method cb = rq_method rq"
    using find_presence [OF wf rq, of ticks] by blast
  show ?thesis
  proof (cases found)
    case None
    obtain r c' st' cs' where n: "new_cb c cd rq handle st1 = Some (r, Some c', Some handle, st')" "added True cd rq handle st1 cs1 c r c' st' cs'"
      "cl_mem st1 = [] \<and> rq_payloadSize rq \<le> max_object \<longrightarrow> r = OC_STACK_OK"
      "rq_method rq \<noteq> OC_REST_PRESENCE \<longrightarrow> appended cd rq handle st1 cs1 r c' handle st' cs'"
      using new_cb_ok [OF s1(2,3)] by blast
    have "AddClientCB (Some c) (Some cd) rq (Some handle) ticks st = Some (r, Some c', Some handle, st')"
      using tl s1(1) None n(1) by (simp add: AddClientCB_def)
    moreover have "added (presence_only st cs rq) cd rq handle st cs c r c' st' cs'"
      using n(2) s1(4,8) unfolding added_def by auto
    ultimately show ?thesis using n(3,4) s1(5,6) by (metis (no_types, lifting))
  next
    case (Some p)
    note p = s1(7) [rule_format, OF Some]
    obtain h' st2 where r: "reuse_cb cd rq handle p st1 = Some (h', st2)" "cl_wf st2 cs1"
      "balance st2 cs1 = balance st1 cs1 + mset (cd_notice cd)" "cl_mem st2 = cl_mem st1"
      "\<forall>a. rq_resourceTypeName rq = Some a \<longrightarrow> cl_blocks st2 a \<noteq> None \<and> a \<notin> set (owned cs1)"
      "\<forall>held. accounted held st1 cs1 \<and> set (brings rq handle) \<subseteq> held \<longrightarrow> accounted (held - set (brings rq handle)) st2 cs1"
      using reuse_ok [OF s1(2,3) p, of cd] by blast
    obtain res st' cs' where f: "finish_add rq p h' st2 = Some (res, Some (Some p), Some h', st')" "res \<in> {OC_STACK_OK, OC_STACK_NO_MEMORY}"
      "cl_wf st' cs'" "map fst cs' = map fst cs1" "balance st' cs' = balance st2 cs1" "cl_mem st2 = [] \<longrightarrow> res = OC_STACK_OK"
      "\<forall>held. accounted held st2 cs1 \<and> set (opt_list (rq_resourceTypeName rq)) \<subseteq> held
         \<and> (\<forall>cb. (p, cb) \<in> set cs1 \<longrightarrow> cb_method cb = rq_method rq) \<longrightarrow>
         accounted (held - (if res = OC_STACK_OK then set (opt_list (rq_resourceTypeName rq)) else {})) st' cs'"
      using finish_add_ok [OF r(2) p, of rq h'] r(5) by blast
    have acc: "accounted (held - takes rq handle res) st' cs'"
      if h: "accounted held st cs" "set (brings rq handle @ opt_list (rq_resourceTypeName rq)) \<subseteq> held" "presence_only st cs rq" for held
    proof (rule accounted_takes [OF _ f(7) rq _ h(1,2)])
      show "accounted (held - set (brings rq handle)) st2 cs1" using r(6) s1(8) [rule_format, OF h(1)] h(2) by simp
      show "cb_method cb = rq_method rq" if "(p, cb) \<in> set cs1" for cb by (rule s1(9) [rule_format, OF Some h(3) that])
    qed
    have "AddClientCB (Some c) (Some cd) rq (Some handle) ticks st = Some (res, Some (Some p), Some h', st')"
      using tl s1(1) Some r(1) f(1) by (simp add: AddClientCB_def)
    moreover have "p \<in> fst ` set cs'" using p f(4) by (metis list.set_map)
    then have "added (presence_only st cs rq) cd rq handle st cs c res (Some p) st' cs'"
      using f(2,3,5) r(3) s1(4) acc by (simp add: added_def)
    ultimately show ?thesis using f(6) r(4) s1(5,6) Some by (metis (no_types, lifting) option.distinct(1))
  qed
qed

section \<open>Runs\<close>

text \<open>
  The operations that the stack performs on the callbacks of a client: it allocates a block or frees
  one it holds, adds a callback, deletes one or all, looks one up, or takes the exit path of a request
  that failed. \<open>held\<close> are the blocks that the stack holds outside the callbacks. An operation yields the
  contexts it took over, the blocks held after it and the state.
\<close>

datatype cb_op =
  CbAllocate "bool \<times> mem" block
| CbFree addr
| CbAdd OCCallbackData cb_request "addr option" "addr \<Rightarrow> u32"
| CbDelete "addr option"
| CbDeleteAll
| CbByToken "u8 list" u8 "addr \<Rightarrow> u32"
| CbByHandle "addr option" "addr \<Rightarrow> u32"
| CbByUri "string option" "addr \<Rightarrow> u32"
| CbExit OCStackResult "addr option" "addr option" "addr option"

fun cb_exec :: "cb_op \<Rightarrow> addr set \<Rightarrow> client \<Rightarrow> ((nat \<times> nat) list \<times> addr set \<times> client) option" where
  "cb_exec (CbAllocate r b) held st = (let (a, st') = new_block r b st in Some ([], held \<union> set (opt_list a), st'))"
| "cb_exec (CbFree a) held st = map_option (\<lambda>st'. ([], held - {a}, st')) (oic_free (Some a) st)"
| "cb_exec (CbAdd cd rq handle ticks) held st =
     map_option (\<lambda>(r, c', h', st').
         if c' = Some None then ([], held, st') else (cd_notice cd, held - takes rq handle r, st'))
       (AddClientCB (Some None) (Some cd) rq (Some handle) ticks st)"
| "cb_exec (CbDelete c) held st = map_option (\<lambda>st'. ([], held, st')) (DeleteClientCB c st)"
| "cb_exec CbDeleteAll held st = map_option (\<lambda>st'. ([], held, st')) (DeleteClientCBList st)"
| "cb_exec (CbByToken t n ticks) held st =
     map_option (\<lambda>(r, st'). ([], held, st')) (GetClientCBUsingToken (Some t) n ticks st)"
| "cb_exec (CbByHandle h ticks) held st = map_option (\<lambda>(r, st'). ([], held, st')) (GetClientCBUsingHandle h ticks st)"
| "cb_exec (CbByUri uri ticks) held st = map_option (\<lambda>(r, st'). ([], held, st')) (GetClientCBUsingUri uri ticks st)"
| "cb_exec (CbExit r c token handle) held st =
     map_option (\<lambda>st'. ([], if r = OC_STACK_OK then held else held - set (opt_list token @ opt_list handle), st'))
       (OCDoRequest_exit r c token handle st)"

text \<open>
  What the stack has to observe: it frees and hands over only blocks that it holds, each once; the
  token of a request has its length and the arrays of a request are as long as announced; a response
  is not looked up by a token longer than one of those stored; and the URI of a presence request is
  not that of another request.
\<close>

definition request_legal :: "addr set \<Rightarrow> client \<Rightarrow> cb_request \<Rightarrow> addr option \<Rightarrow> bool" where
  "request_legal held st rq handle \<longleftrightarrow>
     (\<exists>a t. rq_token rq = Some a \<and> cl_blocks st a = Some (Bytes t) \<and> length t = unat (rq_tokenLength rq))
     \<and> unat (rq_tokenLength rq) \<le> CA_MAX_TOKEN_LEN
     \<and> (\<forall>a. rq_requestUri rq = Some a \<longrightarrow> (\<exists>s. cl_blocks st a = Some (Text s)))
     \<and> distinct (brings rq handle @ opt_list (rq_resourceTypeName rq))
     \<and> set (brings rq handle @ opt_list (rq_resourceTypeName rq)) \<subseteq> held
     \<and> (\<forall>opts. rq_options rq = Some opts \<longrightarrow> unat (rq_numOptions rq) \<le> length opts)
     \<and> (\<forall>pl. rq_payload rq = Some pl \<longrightarrow> rq_payloadSize rq \<le> length pl)
     \<and> (\<forall>a s p n. rq_method rq = OC_REST_PRESENCE \<and> rq_requestUri rq = Some a \<and> cl_blocks st a = Some (Text s)
          \<and> cl_nodes st p = Some n \<and> uri_text st (nd_data n) = Some s \<longrightarrow> cb_method (nd_data n) = OC_REST_PRESENCE)"

fun cb_legal :: "cb_op \<Rightarrow> addr set \<Rightarrow> client \<Rightarrow> bool" where
  "cb_legal (CbFree a) held st = (a \<in> held)"
| "cb_legal (CbAdd cd rq handle ticks) held st = request_legal held st rq handle"
| "cb_legal (CbByToken t n ticks) held st \<longleftrightarrow>
     unat n \<le> length t \<and> (\<forall>p x. cl_nodes st p = Some x \<longrightarrow> unat n \<le> unat (cb_tokenLength (nd_data x)))"
| "cb_legal (CbExit r c token handle) held st \<longleftrightarrow>
     r = OC_STACK_OK \<or> distinct (opt_list token @ opt_list handle) \<and> set (opt_list token @ opt_list handle) \<subseteq> held"
| "cb_legal op held st = True"

fun cb_run :: "cb_op list \<Rightarrow> addr set \<Rightarrow> client \<Rightarrow> ((nat \<times> nat) list \<times> addr set \<times> client) option" where
  "cb_run [] held st = Some ([], held, st)"
| "cb_run (op # ops) held st =
     do {
       (given, held1, st1) \<leftarrow> cb_exec op held st;
       (log, held2, st2) \<leftarrow> cb_run ops held1 st1;
       Some (given @ log, held2, st2)
     }"

fun cb_legal_run :: "cb_op list \<Rightarrow> addr set \<Rightarrow> client \<Rightarrow> bool" where
  "cb_legal_run [] held st = True"
| "cb_legal_run (op # ops) held st \<longleftrightarrow> cb_legal op held st
     \<and> (\<forall>given held1 st1. cb_exec op held st = Some (given, held1, st1) \<longrightarrow> cb_legal_run ops held1 st1)"

lemma rep_nodes: "cl_wf st cs \<Longrightarrow> (p, cb) \<in> set cs \<Longrightarrow> \<exists>n. cl_nodes st p = Some n \<and> nd_data n = cb"
  using rep_data [OF cl_wfD(1)] by fastforce

lemma legal_request:
  assumes "cl_wf st cs" "accounted held st cs" "request_legal held st rq handle"
  shows "request_ok st cs rq handle" "presence_only st cs rq"
proof -
  show "request_ok st cs rq handle"
    using assms(3) accounted_live [OF assms(2)] unfolding request_legal_def request_ok_def by blast
  show "presence_only st cs rq"
    using assms(3) rep_nodes [OF assms(1)] unfolding request_legal_def presence_only_def by blast
qed

lemma search_step:
  assumes "cl_wf st cs" and "tests hit P st cs" and "accounted held st cs"
  shows "\<exists>r st' cs'. search_cb hit ticks st = Some (r, st') \<and> cl_wf st' cs' \<and> accounted held st' cs' \<and> balance st' cs' = balance st cs"
proof -
  obtain st' where s: "search_cb hit ticks st = Some (search_finds P cs, st')" "cl_wf st' (search_keeps P ticks cs)"
    "released st (search_drops P ticks cs) st'" "tight st cs \<longrightarrow> tight st' (search_keeps P ticks cs)"
    using search_ok [OF assms(1,2), of ticks] by blast
  from s released_balance [OF s(3)] released_accounted [OF assms(3) s(3) cl_wfD(2) [OF assms(1)] search_owned s(4)]
  show ?thesis by blast
qed

lemma delete_balance:
  assumes "released st (map snd (filter (\<lambda>x. fst x = c) cs)) st'"
  shows "balance st' (filter (\<lambda>x. fst x \<noteq> c) cs) = balance st cs"
proof -
  have "mset (pending (filter (\<lambda>x. fst x \<noteq> c) cs)) + mset (concat (map (notice \<circ> snd) (filter (\<lambda>x. fst x = c) cs))) = mset (pending cs)"
    by (induction cs) (auto simp: ac_simps)
  then show ?thesis using assms by (simp add: balance_def released_def ac_simps)
qed

lemma delete_step:
  assumes wf: "cl_wf st cs" and acc: "accounted held st cs"
  shows "\<exists>st' cs'. DeleteClientCB c st = Some st' \<and> cl_wf st' cs' \<and> accounted held st' cs' \<and> balance st' cs' = balance st cs"
proof (cases c)
  case None
  then show ?thesis using assms by (auto simp: DeleteClientCB_def)
next
  case (Some a)
  obtain st' where s: "DeleteClientCB (Some a) st = Some st'" "cl_wf st' (filter (\<lambda>x. fst x \<noteq> a) cs)"
    "released st (map snd (filter (\<lambda>x. fst x = a) cs)) st'" "tight st cs \<longrightarrow> tight st' (filter (\<lambda>x. fst x \<noteq> a) cs)"
    using DeleteClientCB_ok [OF wf] by blast
  from s Some delete_balance [OF s(3)] released_accounted [OF acc s(3) cl_wfD(2) [OF wf] delete_owned s(4)]
  show ?thesis by blast
qed

lemma delete_all_step:
  assumes wf: "cl_wf st cs" and acc: "accounted held st cs"
  shows "\<exists>st'. DeleteClientCBList st = Some st' \<and> cl_wf st' [] \<and> accounted held st' [] \<and> balance st' [] = balance st cs"
proof -
  obtain st' where s: "DeleteClientCBList st = Some st'" "cl_wf st' []" "released st (map snd cs) st'" "tight st cs \<longrightarrow> tight st' []"
    using DeleteClientCBList_ok [OF wf] by blast
  have "mset (owned cs) = mset (owned []) + mset (concat (map owns (map snd cs)))" by (simp add: owned_def split_def comp_def)
  from released_accounted [OF acc s(3) cl_wfD(2) [OF wf] this s(4)] s
  show ?thesis by (auto simp: balance_def released_def pending_def)
qed

text \<open>Freeing what the stack holds.\<close>

lemma free_step:
  assumes wf: "cl_wf st cs" and acc: "accounted held st cs" and as: "distinct as" "set as \<subseteq> held"
  shows "\<exists>st'. free_list as st = Some st' \<and> cl_wf st' cs \<and> accounted (held - set as) st' cs \<and> balance st' cs = balance st cs"
proof -
  have "set as \<inter> set (owned cs) = {}" "\<forall>a\<in>set as. cl_blocks st a \<noteq> None" using accounted_live [OF acc] as(2) by blast+
  from free_unowned [OF wf as(1) this] erased_accounted [OF acc as(2)] show ?thesis by (simp add: balance_def)
qed

lemma alloc_step:
  assumes wf: "cl_wf st cs" and acc: "accounted held st cs" and nb: "new_block r b st = (a, st')"
  shows "cl_wf st' cs \<and> accounted (held \<union> set (opt_list a)) st' cs \<and> balance st' cs = balance st cs"
proof -
  obtain ok m where r: "r = (ok, m)" by fastforce
  have fr: "\<forall>a \<ge> cl_fresh st. cl_blocks st a = None" using cl_wfD(5) [OF wf] by blast
  note n = new_block_ok [OF fr nb [unfolded r]]
  have g: "cl_wf st' cs" "cl_nodes st' = cl_nodes st" "cl_deleters st' = cl_deleters st"
    using grows_wf [OF wf n(1)] n(1) by (simp_all add: grows_def)
  have "cl_fresh st \<notin> set (owned cs)" using owned_fresh [OF wf] by blast
  then have "accounted (held \<union> set (opt_list a)) st' cs"
    using acc n(2,4,5) g(2) by (cases ok) (auto simp: accounted_def tight_def)
  then show ?thesis using g by (simp add: balance_def)
qed

lemma exit_step:
  assumes wf: "cl_wf st cs" and acc: "accounted held st cs"
    and as: "distinct (opt_list token @ opt_list handle)" "set (opt_list token @ opt_list handle) \<subseteq> held" and r: "r \<noteq> OC_STACK_OK"
  shows "\<exists>st' cs'. OCDoRequest_exit r c token handle st = Some st' \<and> cl_wf st' cs'
    \<and> accounted (held - set (opt_list token @ opt_list handle)) st' cs' \<and> balance st' cs' = balance st cs"
proof -
  obtain st1 cs1 where d: "DeleteClientCB c st = Some st1" "cl_wf st1 cs1" "accounted held st1 cs1" "balance st1 cs1 = balance st cs"
    using delete_step [OF wf acc] by blast
  have "OCDoRequest_exit r c token handle st = free_list (opt_list token @ opt_list handle) st1"
    using r d(1) by (simp add: OCDoRequest_exit_def free_opt free_list_append)
  then show ?thesis using free_step [OF d(2,3) as] d(4) by force
qed

text \<open>Every operation that the stack may perform returns, and nothing is lost or freed twice.\<close>

lemma cb_exec_ok:
  assumes wf: "cl_wf st cs" and acc: "accounted held st cs" and legal: "cb_legal op held st"
  shows "\<exists>given held' st' cs'. cb_exec op held st = Some (given, held', st') \<and> cl_wf st' cs' \<and> accounted held' st' cs'
    \<and> balance st' cs' = balance st cs + mset given"
proof (cases op)
  case (CbAllocate r b)
  obtain a st' where "new_block r b st = (a, st')" by fastforce
  then show ?thesis using alloc_step [OF wf acc] CbAllocate by fastforce
next
  case (CbFree a)
  then show ?thesis using free_step [OF wf acc, of "[a]"] legal by (fastforce simp: free_single)
next
  case (CbAdd cd rq handle ticks)
  have rq: "request_ok st cs rq handle" "presence_only st cs rq"
    and held: "set (brings rq handle @ opt_list (rq_resourceTypeName rq)) \<subseteq> held"
    using legal_request [OF wf acc] legal CbAdd by (auto simp: request_legal_def)
  obtain r c' h' st' cs' where a: "AddClientCB (Some None) (Some cd) rq (Some handle) ticks st = Some (r, Some c', Some h', st')"
    "added (presence_only st cs rq) cd rq handle st cs None r c' st' cs'"
    using add_cb_ok [OF wf rq(1), of None cd ticks] by blast
  have wf': "cl_wf st' cs'" using a(2) by (simp add: added_def)
  show ?thesis
  proof (cases "c' = None")
    case True
    then have "balance st' cs' = balance st cs" "accounted held st' cs'" using a(2) acc unfolding added_def by auto
    then show ?thesis using a(1) CbAdd True wf' by auto
  next
    case False
    then have "balance st' cs' = balance st cs + mset (cd_notice cd)" "accounted (held - takes rq handle r) st' cs'"
      using a(2) acc rq(2) held unfolding added_def by auto
    then show ?thesis using a(1) CbAdd False wf' by auto
  qed
next
  case (CbDelete c)
  then show ?thesis using delete_step [OF wf acc] by fastforce
next
  case CbDeleteAll
  then show ?thesis using delete_all_step [OF wf acc] by fastforce
next
  case (CbByToken t n ticks)
  have "\<forall>(_, cb)\<in>set cs. unat n \<le> unat (cb_tokenLength cb)" using legal CbByToken rep_nodes [OF wf] by fastforce
  then have "\<exists>r st' cs'. search_cb (token_hit t (unat n)) ticks st = Some (r, st') \<and> cl_wf st' cs' \<and> accounted held st' cs'
      \<and> balance st' cs' = balance st cs"
    using search_step [OF wf token_tests [OF wf] acc] legal CbByToken by simp
  then show ?thesis using CbByToken wf acc by (auto simp: GetClientCBUsingToken_def)
next
  case (CbByHandle h ticks)
  then show ?thesis using search_step [OF wf handle_tests acc] wf acc by (fastforce simp: GetClientCBUsingHandle_def split: option.splits)
next
  case (CbByUri uri ticks)
  then show ?thesis using search_step [OF wf uri_tests [OF wf] acc] wf acc by (fastforce simp: GetClientCBUsingUri_def split: option.splits)
next
  case (CbExit r c token handle)
  then show ?thesis
    using exit_step [OF wf acc, of token handle r c] legal wf acc
    by (cases "r = OC_STACK_OK") (fastforce simp: OCDoRequest_exit_def)+
qed

lemma cb_run_ok:
  assumes "cl_wf st cs" "accounted held st cs" "cb_legal_run ops held st"
  shows "\<exists>log held' st' cs'. cb_run ops held st = Some (log, held', st') \<and> cl_wf st' cs' \<and> accounted held' st' cs'
    \<and> balance st' cs' = balance st cs + mset log"
  using assms
proof (induction ops arbitrary: held st cs)
  case Nil
  then show ?case by auto
next
  case (Cons op ops)
  obtain given held1 st1 cs1 where s: "cb_exec op held st = Some (given, held1, st1)" "cl_wf st1 cs1" "accounted held1 st1 cs1"
    "balance st1 cs1 = balance st cs + mset given"
    using cb_exec_ok [OF Cons.prems(1,2), of op] Cons.prems(3) by auto
  obtain log held' st' cs' where "cb_run ops held1 st1 = Some (log, held', st')" "cl_wf st' cs'" "accounted held' st' cs'"
    "balance st' cs' = balance st1 cs1 + mset log"
    using Cons.IH [OF s(2,3)] Cons.prems(3) s(1) by auto
  then show ?case using s(1,4) by (intro exI [of _ "given @ log"] exI [of _ held'] exI [of _ st'] exI [of _ cs']) simp
qed

section \<open>Properties\<close>

text \<open>A client without callbacks, and one that has allocated the blocks of a request.\<close>

definition example_client :: client where
  "example_client = \<lparr>cl_nodes = (\<lambda>_. None), g_cbList = None, cl_blocks = (\<lambda>_. None), cl_fresh = 0, cl_mem = [], cl_deleters = []\<rparr>"

definition example_busy :: client where
  "example_busy = example_client\<lparr>cl_blocks := [0 \<mapsto> Bytes [1, 2], 1 \<mapsto> Opaque, 2 \<mapsto> Text ''/light'', 3 \<mapsto> Opaque], cl_fresh := 4\<rparr>"

definition example_request :: cb_request where
  "example_request = \<lparr>rq_type = CA_MSG_CONFIRM, rq_token = Some 0, rq_tokenLength = 2, rq_options = None, rq_numOptions = 0,
     rq_payload = None, rq_payloadSize = 0, rq_payloadFormat = 0, rq_method = OC_REST_GET, rq_devAddr = Some 1, rq_requestUri = Some 2,
     rq_resourceTypeName = None, rq_ttl = 100\<rparr>"

definition example_cd :: OCCallbackData where
  "example_cd = \<lparr>cd_context = 7, cd_cb = 8, cd_cd = Some 9\<rparr>"

lemma example_client_wf: "cl_wf example_client []" "cl_wf example_busy []"
  by (auto simp: cl_wf_def example_client_def example_busy_def)

text \<open>Two requests that wait for a response, at addresses 10 and 11.\<close>

definition example_cb :: "addr \<Rightarrow> nat \<Rightarrow> u32 \<Rightarrow> ClientCB" where
  "example_cb a ctx ttl = \<lparr>cb_callBack = 8, cb_context = ctx, cb_deleteCallback = Some 9, cb_type = CA_MSG_CONFIRM, cb_token = Some a,
     cb_tokenLength = 2, cb_options = None, cb_numOptions = 0, cb_payload = None, cb_payloadSize = 0, cb_payloadFormat = 0,
     cb_handle = None, cb_method = OC_REST_GET, cb_sequenceNumber = 0, cb_requestUri = None, cb_devAddr = None,
     cb_presence = None, cb_interesting = [], cb_TTL = ttl\<rparr>"

definition example_waiting :: client where
  "example_waiting = \<lparr>cl_nodes = [10 \<mapsto> \<lparr>nd_data = example_cb 0 9 50, nd_next = Some 11\<rparr>, 11 \<mapsto> \<lparr>nd_data = example_cb 1 10 0, nd_next = None\<rparr>],
     g_cbList = Some 10, cl_blocks = [0 \<mapsto> Bytes [5, 6], 1 \<mapsto> Bytes [1, 2]], cl_fresh = 12, cl_mem = [], cl_deleters = []\<rparr>"

lemma example_waiting_wf: "cl_wf example_waiting [(10, example_cb 0 9 50), (11, example_cb 1 10 0)]"
  by (auto simp: cl_wf_def ul_rep_def example_waiting_def owned_def owns_def cb_ok_def example_cb_def)

lemma example_request_ok: "request_ok example_busy [] example_request (Some 3)"
  by (auto simp: request_ok_def example_busy_def example_request_def brings_def CA_MAX_TOKEN_LEN_def)

text \<open>
  C13: A response finds the callback of its request. The search by token returns the first callback
  whose token begins with the bytes of the response, and only the callbacks before it that timed out
  are deleted: their blocks are freed once and their contexts told; callbacks of observations and of
  presence, which have no time limit, stay.
\<close>

theorem GetClientCBUsingToken_spec:
  assumes "cl_wf st cs" and "0 < n" and "unat n \<le> CA_MAX_TOKEN_LEN" and "unat n \<le> length t"
    and "\<forall>(_, cb)\<in>set cs. unat n \<le> unat (cb_tokenLength cb)"
    and "P = (\<lambda>cb. take (unat n) (token_bytes st cb) = take (unat n) t)"
  shows "\<exists>st'. GetClientCBUsingToken (Some t) n ticks st = Some (map_option fst (find (P \<circ> snd) cs), st')
    \<and> cl_wf st' (filter (\<lambda>x. \<not> timed_out ticks x) (takeWhile (\<lambda>x. \<not> P (snd x)) cs) @ dropWhile (\<lambda>x. \<not> P (snd x)) cs)
    \<and> released st (map snd (filter (timed_out ticks) (takeWhile (\<lambda>x. \<not> P (snd x)) cs))) st'
    \<and> (\<forall>x\<in>set cs. cb_method (snd x) \<in> {OC_REST_OBSERVE, OC_REST_OBSERVE_ALL, OC_REST_PRESENCE} \<longrightarrow> \<not> timed_out ticks x)"
proof -
  have t: "tests (token_hit t (unat n)) P st cs" using token_tests [OF assms(1,4,5)] assms(6) by simp
  have g: "GetClientCBUsingToken (Some t) n ticks st = search_cb (token_hit t (unat n)) ticks st"
    using assms(2,3) by (simp add: GetClientCBUsingToken_def word_gt_0)
  have "\<not> timed_out ticks x"
    if "x \<in> set cs" "cb_method (snd x) \<in> {OC_REST_OBSERVE, OC_REST_OBSERVE_ALL, OC_REST_PRESENCE}" for x
    using cl_wfD(4) [OF assms(1), of "fst x" "snd x"] that by (auto simp: cb_ok_def timed_out_def)
  then have k: "\<forall>x\<in>set cs. cb_method (snd x) \<in> {OC_REST_OBSERVE, OC_REST_OBSERVE_ALL, OC_REST_PRESENCE} \<longrightarrow> \<not> timed_out ticks x"
    by blast
  show ?thesis using search_ok [OF assms(1) t, of ticks] k unfolding g search_defs comp_def by blast
qed

theorem GetClientCBUsingToken_spec_witness:
  "\<exists>st'. GetClientCBUsingToken (Some [1, 2]) 2 (\<lambda>_. 100) example_waiting = Some (Some 11, st')
     \<and> cl_wf st' [(11, example_cb 1 10 0)] \<and> released example_waiting [example_cb 0 9 50] st'"
proof -
  let ?cs = "[(10, example_cb 0 9 50), (11, example_cb 1 10 0)]"
  let ?P = "\<lambda>cb. take (unat (2 :: u8)) (token_bytes example_waiting cb) = take (unat (2 :: u8)) [1, 2]"
  have h: "0 < (2 :: u8)" "unat (2 :: u8) \<le> CA_MAX_TOKEN_LEN" "unat (2 :: u8) \<le> length [1, 2 :: u8]"
    "\<forall>(_, cb)\<in>set ?cs. unat (2 :: u8) \<le> unat (cb_tokenLength cb)"
    by (simp_all add: CA_MAX_TOKEN_LEN_def example_cb_def)
  have P: "\<not> ?P (example_cb 0 9 50)" "?P (example_cb 1 10 0)"
    by (simp_all add: token_bytes_def example_waiting_def example_cb_def)
  have t: "timed_out (\<lambda>_. 100) (10, example_cb 0 9 50)" by (simp add: timed_out_def example_cb_def)
  from GetClientCBUsingToken_spec [OF example_waiting_wf h refl, of "\<lambda>_. 100"] P t show ?thesis by auto
qed

text \<open>
  C14: What is added is found. After \<open>AddClientCB\<close> for a request other than for presence, with a token
  that no earlier callback has, a response with this token finds the new callback, with the callback
  function and the context of the request, whatever times out meanwhile.
\<close>

theorem response_finds_request:
  assumes wf: "cl_wf st cs" and rq: "request_ok st cs rq handle" and m: "rq_method rq \<noteq> OC_REST_PRESENCE"
    and add: "AddClientCB (Some c) (Some cd) rq (Some handle) ticks st = Some (OC_STACK_OK, c', h', st')"
    and tok: "rq_token rq = Some a" "cl_blocks st a = Some (Bytes t)" "0 < rq_tokenLength rq"
    and new: "\<forall>(_, cb)\<in>set cs. rq_tokenLength rq \<le> cb_tokenLength cb \<and> take (length t) (token_bytes st cb) \<noteq> t"
  shows "\<exists>p st'' n. c' = Some (Some p) \<and> GetClientCBUsingToken (Some t) (rq_tokenLength rq) ticks' st' = Some (Some p, st'')
    \<and> cl_nodes st'' p = Some n \<and> cb_callBack (nd_data n) = cd_cb cd \<and> cb_context (nd_data n) = cd_context cd"
proof -
  let ?n = "unat (rq_tokenLength rq)"
  have len: "length t = ?n" "?n \<le> CA_MAX_TOKEN_LEN" using rq tok by (auto simp: request_ok_def)
  obtain cs' p cb where a: "cl_wf st' cs'" "c' = Some (Some p)" "cs' = cs @ [(p, cb)]" "made_from cd rq handle st' cb"
    "\<forall>a \<in> set (brings rq handle @ owned cs). cl_blocks st' a = cl_blocks st a"
    using add_cb_ok [OF wf rq, of c cd ticks] add m by (auto simp: appended_def added_def)
  let ?P = "\<lambda>cb. take ?n (token_bytes st' cb) = take ?n t"
  have old: "\<not> ?P (snd x)" if x: "x \<in> set cs" for x
  proof -
    obtain b u where b: "cb_token (snd x) = Some b" "cl_blocks st b = Some (Bytes u)"
      using cl_wfD(4) [OF wf, of "fst x" "snd x"] x by (auto simp: cb_ok_def)
    have "b \<in> set (owned cs)" using owns_owned [of "fst x" "snd x" cs] x b(1) by (auto simp: owns_def)
    then have "token_bytes st' (snd x) = token_bytes st (snd x)" using a(5) b by (simp add: token_bytes_def)
    then show ?thesis using new x len by auto
  qed
  have "a \<in> set (brings rq handle)" using tok(1) by (simp add: brings_def)
  then have hit: "?P cb" using a(4,5) tok by (simp add: token_bytes_def made_from_def)
  have lens: "\<forall>(_, cb)\<in>set cs'. ?n \<le> unat (cb_tokenLength cb)" using new a(3,4) by (auto simp: word_le_nat_alt made_from_def)
  have tests: "tests (token_hit t ?n) ?P st' cs'" by (rule token_tests [OF a(1) _ lens]) (simp add: len)
  obtain st'' where s: "search_cb (token_hit t ?n) ticks' st' = Some (search_finds ?P cs', st'')" "cl_wf st'' (search_keeps ?P ticks' cs')"
    using search_ok [OF a(1) tests] by blast
  have "find (\<lambda>x. ?P (snd x)) cs = None" using old unfolding find_None_iff by blast
  then have f: "search_finds ?P cs' = Some p" using hit unfolding a(3) search_finds_def by (induction cs) (auto split: if_splits)
  have "dropWhile (\<lambda>x. \<not> ?P (snd x)) cs' = dropWhile (\<lambda>x. \<not> ?P (snd x)) [(p, cb)]"
    unfolding a(3) by (rule dropWhile_append2) (use old in blast)
  then have "(p, cb) \<in> set (search_keeps ?P ticks' cs')" using hit by (simp add: search_keeps_def)
  from rep_data [OF cl_wfD(1) [OF s(2)] this] obtain n where "cl_nodes st'' p = Some n" "nd_data n = cb" by auto
  then show ?thesis using a(2,4) s(1) f tok(3) len(2) by (auto simp: GetClientCBUsingToken_def made_from_def)
qed

theorem response_finds_request_witness:
  "\<exists>c' h' st' p st''. AddClientCB (Some None) (Some example_cd) example_request (Some (Some 3)) (\<lambda>_. 0) example_busy = Some (OC_STACK_OK, c', h', st')
     \<and> c' = Some (Some p) \<and> GetClientCBUsingToken (Some [1, 2]) (rq_tokenLength example_request) (\<lambda>_. 1000) st' = Some (Some p, st'')"
proof -
  have m: "rq_method example_request \<noteq> OC_REST_PRESENCE" "rq_token example_request = Some 0" "cl_blocks example_busy 0 = Some (Bytes [1, 2])"
    "0 < rq_tokenLength example_request"
    by (simp_all add: example_request_def example_busy_def)
  have e: "cl_mem example_busy = [] \<and> rq_payloadSize example_request \<le> max_object"
    by (simp add: example_busy_def example_client_def example_request_def)
  obtain c' h' st' where a: "AddClientCB (Some None) (Some example_cd) example_request (Some (Some 3)) (\<lambda>_. 0) example_busy = Some (OC_STACK_OK, c', h', st')"
    using add_cb_ok [OF example_client_wf(2) example_request_ok, of None example_cd "\<lambda>_. 0"] e by blast
  from response_finds_request [OF example_client_wf(2) example_request_ok m(1) a m(2-4), of "\<lambda>_. 1000"] a show ?thesis by auto
qed

text \<open>
  C15: However the stack uses the callbacks of a client, every operation returns: none of them frees a
  block twice or reads a freed one. At any time the contexts told so far and those of the callbacks in
  the list are together the contexts that were taken over; every live block is owned by one callback of
  the list or still held by the stack, and never both, and every live node is in the list, so that
  nothing is lost. Deleting all callbacks then tells each remaining context once and leaves exactly the
  blocks that the stack holds. The operations may come in any order and with any failures of memory; the
  stack has to hand over and free only what it holds (\<open>cb_legal\<close>), which the exit path of \<open>OCDoRequest\<close>
  does when no callback was added, but not after one was added: then it frees its token twice, as
  \<open>failed_request_double_free\<close> shows.
\<close>

theorem contexts_told_once:
  assumes "cl_wf st []" and "cl_deleters st = []" and "dom (cl_blocks st) = held" and "dom (cl_nodes st) = {}"
    and "cb_legal_run ops held st"
  shows "\<exists>log held' st' cs. cb_run ops held st = Some (log, held', st') \<and> cl_wf st' cs
    \<and> mset (cl_deleters st') + mset (pending cs) = mset log
    \<and> dom (cl_blocks st') = set (owned cs) \<union> held' \<and> set (owned cs) \<inter> held' = {} \<and> dom (cl_nodes st') = fst ` set cs
    \<and> (\<exists>st''. DeleteClientCBList st' = Some st'' \<and> mset (cl_deleters st'') = mset log
         \<and> dom (cl_blocks st'') = held' \<and> dom (cl_nodes st'') = {})"
proof -
  have "accounted held st []" using assms(3,4) by (simp add: accounted_def tight_def)
  from cb_run_ok [OF assms(1) this assms(5)] obtain log held' st' cs where
    r: "cb_run ops held st = Some (log, held', st')" "cl_wf st' cs" "accounted held' st' cs" "balance st' cs = mset log"
    using assms(2) by (auto simp: balance_def)
  have "fst ` set cs \<subseteq> dom (cl_nodes st')" using rep_nodes [OF r(2)] by force
  then have acc: "dom (cl_blocks st') = set (owned cs) \<union> held'" "set (owned cs) \<inter> held' = {}" "dom (cl_nodes st') = fst ` set cs"
    using r(3) by (auto simp: accounted_def tight_def)
  obtain st'' where d: "DeleteClientCBList st' = Some st''" "accounted held' st'' []" "balance st'' [] = balance st' cs"
    using delete_all_step [OF r(2,3)] by blast
  then have "mset (cl_deleters st'') = mset log" "dom (cl_blocks st'') = held'" "dom (cl_nodes st'') = {}"
    using r(4) by (simp_all add: balance_def accounted_def tight_def)
  with d(1) r acc show ?thesis by (auto simp: balance_def)
qed

theorem contexts_told_once_witness:
  "\<exists>log held' st' st''. cb_run [CbAdd example_cd example_request (Some 3) (\<lambda>_. 0), CbByHandle (Some 3) (\<lambda>_. 0)] {0, 1, 2, 3} example_busy
       = Some (log, held', st') \<and> DeleteClientCBList st' = Some st'' \<and> mset (cl_deleters st'') = mset log \<and> dom (cl_blocks st'') = held'"
proof -
  have h: "cl_deleters example_busy = []" "dom (cl_blocks example_busy) = {0, 1, 2, 3}" "dom (cl_nodes example_busy) = {}"
    by (auto simp: example_busy_def example_client_def)
  have "request_legal {0, 1, 2, 3} example_busy example_request (Some 3)"
    by (auto simp: request_legal_def example_busy_def example_request_def brings_def CA_MAX_TOKEN_LEN_def)
  then have l: "cb_legal_run [CbAdd example_cd example_request (Some 3) (\<lambda>_. 0), CbByHandle (Some 3) (\<lambda>_. 0)] {0, 1, 2, 3} example_busy"
    by simp
  from contexts_told_once [OF example_client_wf(2) h l] show ?thesis by blast
qed

section \<open>What is not safe\<close>

text \<open>
  A request whose callback was added but which could not be sent: \<open>OCDoRequest\<close> deletes the callback,
  which frees the token, and then frees the token again.
\<close>

lemma failed_request_double_free:
  assumes wf: "cl_wf st cs" and rq: "request_ok st cs rq handle" and m: "rq_method rq \<noteq> OC_REST_PRESENCE"
    and add: "AddClientCB (Some c) (Some cd) rq (Some handle) ticks st = Some (OC_STACK_OK, Some c', h', st')" and "r \<noteq> OC_STACK_OK"
  shows "OCDoRequest_exit r c' (rq_token rq) handle st' = None"
proof -
  obtain cs' p cb where a: "cl_wf st' cs'" "c' = Some p" "p \<notin> fst ` set cs" "cs' = cs @ [(p, cb)]" "made_from cd rq handle st' cb"
    using add_cb_ok [OF wf rq, of c cd ticks] add m by (auto simp: appended_def added_def)
  obtain st'' where d: "DeleteClientCB (Some p) st' = Some st''" "released st' (map snd (filter (\<lambda>x. fst x = p) cs')) st''"
    using DeleteClientCB_ok [OF a(1)] by blast
  have f: "map snd (filter (\<lambda>x. fst x = p) cs') = [cb]" using a(3,4) by (auto simp: filter_empty_conv)
  obtain b where b: "rq_token rq = Some b" using rq by (auto simp: request_ok_def)
  then have "b \<in> set (owns cb)" using a(5) by (simp add: owns_def made_from_def)
  then have "oic_free (rq_token rq) st'' = None" using d(2) b unfolding f by (simp add: released_def erased_def oic_free_def)
  then show ?thesis using assms(5) a(2) d(1) by (simp add: OCDoRequest_exit_def)
qed

text \<open>A request that never got a callback gives its token and its handle back.\<close>

lemma refused_request_released:
  assumes wf: "cl_wf st cs" and rq: "request_ok st cs rq handle" and m: "rq_method rq \<noteq> OC_REST_PRESENCE"
  shows "\<exists>st'. OCDoRequest_exit OC_STACK_NO_MEMORY None (rq_token rq) handle st = Some st' \<and> cl_wf st' cs"
proof -
  let ?as = "opt_list (rq_token rq) @ opt_list handle"
  have "distinct ?as" "set ?as \<inter> set (owned cs) = {}" "\<forall>a\<in>set ?as. cl_blocks st a \<noteq> None"
    using rq by (auto simp: request_ok_def brings_def)
  from free_unowned [OF wf this] show ?thesis
    by (simp add: OCDoRequest_exit_def DeleteClientCB_def free_opt free_list_append del: free_list.simps(2))
qed

end
