(* ===== verification/Observers.thy ===== *)
theory Observers
  imports Utlist CATypes OicString "HOL-Library.Monad_Syntax"
begin

text \<open>
  The observers of the resources of a server, \<^verbatim>\<open>resource/csdk/stack/src/ocobserve.c\<close>, with the functions
  around it: the feedback about observers and the notifications that an application starts
  (\<^verbatim>\<open>stack/src/ocstack.c\<close>), the searches over all resources (\<^verbatim>\<open>stack/src/ocresource.c\<close>) and the requests
  that a notification is made of (\<^verbatim>\<open>stack/src/ocserverrequest.c\<close>). The build has \<open>WITH_PRESENCE\<close>.

  Observers are nodes of Utlist lists in one heap, one list per resource; a resource is named by its
  position in the list of resources, which these functions do not change. The environment decides
  about allocations, the time that each call of \<open>coap_ticks\<close> reads, random numbers, and what
  \<open>DetermineResourceHandling\<close>, \<open>ProcessRequest\<close> and \<open>OCDoResponse\<close> answer; what they are asked to do is
  recorded. Entity handlers do not change the lists of observers themselves.
\<close>

section \<open>State\<close>

datatype OCQualityOfService = OC_LOW_QOS | OC_MEDIUM_QOS | OC_HIGH_QOS | OC_NA_QOS
datatype OCPayloadFormat = OC_FORMAT_CBOR | OC_FORMAT_VND_OCF_CBOR | OC_FORMAT_JSON | OC_FORMAT_UNDEFINED | OC_FORMAT_UNSUPPORTED
datatype OCPresenceTrigger = OC_PRESENCE_TRIGGER_CREATE | OC_PRESENCE_TRIGGER_CHANGE | OC_PRESENCE_TRIGGER_DELETE

text \<open>An address has the members of an endpoint, a header option of the stack those of the connectivity layer.\<close>

type_synonym OCDevAddr = CAEndpoint
type_synonym OCHeaderOption = CAHeaderOption

record ResourceObserver =
  ob_observeId :: u8
  ob_resUri :: string
  ob_query :: "string option"
  ob_token :: "u8 list option"
  ob_tokenLength :: u8
  ob_devAddr :: OCDevAddr
  ob_qos :: OCQualityOfService
  ob_failedCommCount :: u8
  ob_lowQosCount :: u8
  ob_forceHighQos :: u8
  ob_TTL :: u32
  ob_acceptFormat :: OCPayloadFormat
  ob_acceptVersion :: u16

text \<open>The members of a resource that matter here.\<close>

record OCResource =
  rs_uri :: string
  rs_entityHandler :: "nat option"
  rs_resourceProperties :: u32
  rs_observersHead :: "addr option"
  rs_sequenceNum :: u32

text \<open>A request without the members that link it to other requests.\<close>

record OCServerRequest =
  sr_method :: OCMethod
  sr_acceptFormat :: OCPayloadFormat
  sr_acceptVersion :: u16
  sr_resourceUrl :: string
  sr_query :: string
  sr_qos :: OCQualityOfService
  sr_observationOption :: u32
  sr_observeResult :: OCStackResult
  sr_numResponses :: u8
  sr_devAddr :: OCDevAddr
  sr_requestToken :: "u8 list option"
  sr_tokenLength :: u8
  sr_coapID :: u16
  sr_delayedResNeeded :: u8
  sr_numOptions :: u8
  sr_options :: "OCHeaderOption list"
  sr_requestComplete :: u8
  sr_notificationFlag :: u8
  sr_payloadFormat :: OCPayloadFormat
  sr_payload :: "u8 list"

record OCPresencePayload =
  pp_sequenceNumber :: u32
  pp_maxAge :: u32
  pp_trigger :: OCPresenceTrigger
  pp_resourceType :: "string option"

text \<open>
  What leaves this component: a request for the entity handler of the resource, a presence response
  with the URI it names, a response with a representation of the application.
\<close>

datatype sent = Processed OCServerRequest | Presence OCServerRequest OCPresencePayload string | Represented OCServerRequest nat

text \<open>
  \<open>sv_told\<close> are the calls of entity handlers about observers that leave: the handler and the
  observation id.
\<close>

record server =
  sv_resources :: "OCResource list"
  sv_presence :: "nat option"
  sv_mode :: OCMode
  sv_nodes :: "ResourceObserver heap"
  sv_fresh :: addr
  sv_mem :: mem
  sv_clock :: "nat \<Rightarrow> u32"
  sv_reads :: nat
  sv_answer :: "nat \<Rightarrow> OCStackResult"
  sv_calls :: nat
  sv_random :: "nat \<Rightarrow> u8 option"
  sv_draws :: nat
  sv_sent :: "sent list"
  sv_told :: "(nat \<times> u8) list"

definition MAX_OBSERVER_FAILED_COMM :: u8 where "MAX_OBSERVER_FAILED_COMM = 2"
definition MAX_OBSERVER_NON_COUNT :: u8 where "MAX_OBSERVER_NON_COUNT = 3"
definition MAX_OBSERVER_TTL_SECONDS :: u32 where "MAX_OBSERVER_TTL_SECONDS = 60 * 60 * 24"
definition MILLISECONDS_PER_SECOND :: u32 where "MILLISECONDS_PER_SECOND = 1000"
definition COAP_TICKS_PER_SECOND :: u32 where "COAP_TICKS_PER_SECOND = 1024"
definition MAX_SEQUENCE_NUMBER :: u32 where "MAX_SEQUENCE_NUMBER = 0xFFFFFF"
definition OC_OFFSET_SEQUENCE_NUMBER :: u32 where "OC_OFFSET_SEQUENCE_NUMBER = 0"
definition MAX_OBSERVE_AGE :: u32 where "MAX_OBSERVE_AGE = 0x2FFFF"
definition OC_OBSERVE_REGISTER :: u32 where "OC_OBSERVE_REGISTER = 0"
definition OC_OBSERVE_DEREGISTER :: u32 where "OC_OBSERVE_DEREGISTER = 1"
definition OC_OBSERVABLE :: u32 where "OC_OBSERVABLE = 2"
definition OC_OBSERVER_NOT_INTERESTED :: u8 where "OC_OBSERVER_NOT_INTERESTED = 0"
definition OC_OBSERVER_STILL_INTERESTED :: u8 where "OC_OBSERVER_STILL_INTERESTED = 1"
definition OC_OBSERVER_FAILED_COMM :: u8 where "OC_OBSERVER_FAILED_COMM = 2"
definition CA_COAP_ID :: u32 where "CA_COAP_ID = 2"
definition COAP_OPTION_OBSERVE :: u16 where "COAP_OPTION_OBSERVE = 6"
definition MAX_HEADER_OPTIONS :: nat where "MAX_HEADER_OPTIONS = 50"
definition MAX_QUERY_LENGTH :: nat where "MAX_QUERY_LENGTH = 256"
definition OC_RSRVD_WELL_KNOWN_URI :: string where "OC_RSRVD_WELL_KNOWN_URI = ''/oic/res''"
definition OC_RSRVD_PRESENCE_URI :: string where "OC_RSRVD_PRESENCE_URI = ''/oic/ad''"
definition sizeof_ResourceObserver :: nat where "sizeof_ResourceObserver = 248"
definition sizeof_OCServerRequest :: nat where "sizeof_OCServerRequest = 52440"
definition sizeof_OCPresencePayload :: nat where "sizeof_OCPresencePayload = 24"
definition sizeof_OCRepPayload :: nat where "sizeof_OCRepPayload = 48"

section \<open>Environment\<close>

definition coap_ticks :: "server \<Rightarrow> u32 \<times> server" where
  "coap_ticks st = (sv_clock st (sv_reads st), st\<lparr>sv_reads := Suc (sv_reads st)\<rparr>)"

definition ask :: "server \<Rightarrow> OCStackResult \<times> server" where
  "ask st = (sv_answer st (sv_calls st), st\<lparr>sv_calls := Suc (sv_calls st)\<rparr>)"

definition send :: "sent \<Rightarrow> server \<Rightarrow> OCStackResult \<times> server" where
  "send m st = ask (st\<lparr>sv_sent := sv_sent st @ [m]\<rparr>)"

text \<open>All arithmetic of \<open>GetTicks\<close> is in 32 bits.\<close>

definition ticks_after :: "u32 \<Rightarrow> u32 \<Rightarrow> u32" where
  "ticks_after now milliSeconds =
     (if milliSeconds \<le> ((- 1 - now) * MILLISECONDS_PER_SECOND) div COAP_TICKS_PER_SECOND
      then now + (milliSeconds * COAP_TICKS_PER_SECOND) div MILLISECONDS_PER_SECOND
      else - 1)"

definition GetTicks :: "u32 \<Rightarrow> server \<Rightarrow> u32 \<times> server" where
  "GetTicks milliSeconds st = (case coap_ticks st of (now, st1) \<Rightarrow> (ticks_after now milliSeconds, st1))"

definition get_obs :: "addr \<Rightarrow> server \<Rightarrow> ResourceObserver option" where
  "get_obs p st = map_option nd_data (sv_nodes st p)"

definition put_obs :: "addr \<Rightarrow> ResourceObserver \<Rightarrow> server \<Rightarrow> server option" where
  "put_obs p ob st =
     map_option (\<lambda>n. st\<lparr>sv_nodes := (sv_nodes st)(p \<mapsto> n\<lparr>nd_data := ob\<rparr>)\<rparr>) (sv_nodes st p)"

definition set_head :: "nat \<Rightarrow> addr option \<Rightarrow> server \<Rightarrow> server" where
  "set_head r head st = st\<lparr>sv_resources := (sv_resources st)[r := (sv_resources st ! r)\<lparr>rs_observersHead := head\<rparr>]\<rparr>"

section \<open>Requests\<close>

text \<open>A string in a zeroed array of the given size.\<close>

definition copied :: "nat \<Rightarrow> string option \<Rightarrow> string" where
  "copied destSize source = (case OICStrcpy (Some (Some [])) destSize source of (_, Some (Some s)) \<Rightarrow> s | _ \<Rightarrow> [])"

definition memcpy_from :: "'a list option \<Rightarrow> nat \<Rightarrow> 'a list option" where
  "memcpy_from src n = (case src of None \<Rightarrow> None | Some bs \<Rightarrow> buf_read 0 n bs)"

definition request_token :: "u8 list option \<Rightarrow> u8 \<Rightarrow> server \<Rightarrow> (server + u8 list option \<times> server) option" where
  "request_token requestToken tokenLength st =
     (if requestToken = None \<or> tokenLength = 0 then Some (Inr (None, st))
      else
        (case OICMalloc (sv_mem st) (unat tokenLength) of
           (False, m) \<Rightarrow> Some (Inl (st\<lparr>sv_mem := m\<rparr>))
         | (True, m) \<Rightarrow> map_option (\<lambda>t. Inr (Some t, st\<lparr>sv_mem := m\<rparr>)) (memcpy_from requestToken (unat tokenLength))))"

definition AddServerRequest ::
  "u16 \<Rightarrow> u8 \<Rightarrow> u8 \<Rightarrow> OCMethod \<Rightarrow> u8 \<Rightarrow> u32 \<Rightarrow> OCQualityOfService \<Rightarrow> string option \<Rightarrow> OCHeaderOption list option
     \<Rightarrow> OCPayloadFormat \<Rightarrow> u8 list option \<Rightarrow> u8 list option \<Rightarrow> u8 \<Rightarrow> string option \<Rightarrow> nat \<Rightarrow> OCPayloadFormat \<Rightarrow> u16
     \<Rightarrow> OCDevAddr \<Rightarrow> server \<Rightarrow> (OCStackResult \<times> OCServerRequest option \<times> server) option" where
  "AddServerRequest coapMessageID delayedResNeeded notificationFlag method numOptions observationOption qos query options
     payloadFormat payload requestToken tokenLength resourceUrl payloadSize acceptFormat acceptVersion devAddr st =
     (case OICCalloc (sv_mem st) 1 (sizeof_OCServerRequest + (if payloadSize = 0 then 1 else payloadSize) - 1) of
        (False, m) \<Rightarrow> Some (OC_STACK_NO_MEMORY, None, st\<lparr>sv_mem := m\<rparr>)
      | (True, m) \<Rightarrow>
          do {
            opts \<leftarrow> (if options = None then Some [] else memcpy_from options MAX_HEADER_OPTIONS);
            let copy = payload \<noteq> None \<and> payloadSize \<noteq> 0;
            pl \<leftarrow> (if copy then memcpy_from payload payloadSize else Some []);
            tok \<leftarrow> request_token requestToken tokenLength (st\<lparr>sv_mem := m\<rparr>);
            Some (case tok of
                Inl st1 \<Rightarrow> (OC_STACK_NO_MEMORY, None, st1)
              | Inr (token, st1) \<Rightarrow>
                  (OC_STACK_OK,
                   Some \<lparr>sr_method = method, sr_acceptFormat = acceptFormat, sr_acceptVersion = acceptVersion,
                     sr_resourceUrl = copied MAX_URI_LENGTH resourceUrl, sr_query = copied MAX_QUERY_LENGTH query, sr_qos = qos,
                     sr_observationOption = observationOption, sr_observeResult = OC_STACK_ERROR, sr_numResponses = 1,
                     sr_devAddr = devAddr, sr_requestToken = token, sr_tokenLength = tokenLength, sr_coapID = coapMessageID,
                     sr_delayedResNeeded = delayedResNeeded, sr_numOptions = numOptions, sr_options = opts,
                     sr_requestComplete = 0, sr_notificationFlag = notificationFlag,
                     sr_payloadFormat = (if copy then payloadFormat else OC_FORMAT_CBOR), sr_payload = pl\<rparr>,
                   st1))
          })"

text \<open>The request that each notification is made of.\<close>

definition notify_request ::
  "ResourceObserver \<Rightarrow> u32 \<Rightarrow> OCQualityOfService \<Rightarrow> server \<Rightarrow> (OCStackResult \<times> OCServerRequest option \<times> server) option" where
  "notify_request ob sequenceNum qos st =
     AddServerRequest 0 0 1 OC_REST_GET 0 sequenceNum qos (ob_query ob) None OC_FORMAT_UNDEFINED None (ob_token ob)
       (ob_tokenLength ob) (Some (ob_resUri ob)) 0 (ob_acceptFormat ob) (ob_acceptVersion ob) (ob_devAddr ob) st"

section \<open>Notifications\<close>

text \<open>Both callers pass an observer.\<close>

definition DetermineObserverQoS ::
  "OCMethod \<Rightarrow> ResourceObserver \<Rightarrow> OCQualityOfService \<Rightarrow> OCQualityOfService \<times> ResourceObserver" where
  "DetermineObserverQoS method ob appQoS =
     (let decidedQoS = (if appQoS = OC_NA_QOS then ob_qos ob else appQoS) in
      if appQoS \<noteq> OC_HIGH_QOS then
        (if (ob_forceHighQos ob \<noteq> 0 \<or> MAX_OBSERVER_NON_COUNT \<le> ob_lowQosCount ob) \<and> method \<noteq> OC_REST_PRESENCE
         then (OC_HIGH_QOS, ob\<lparr>ob_lowQosCount := 0\<rparr>)
         else (decidedQoS, ob\<lparr>ob_lowQosCount := ob_lowQosCount ob + 1\<rparr>))
      else (decidedQoS, ob))"

definition reset_ttl :: "addr \<Rightarrow> server \<Rightarrow> server option" where
  "reset_ttl p st =
     (case GetTicks (MAX_OBSERVER_TTL_SECONDS * MILLISECONDS_PER_SECOND) st of
        (ttl, st1) \<Rightarrow> do { ob \<leftarrow> get_obs p st1; put_obs p (ob\<lparr>ob_TTL := ttl\<rparr>) st1 })"

text \<open>The first answer is that of \<open>DetermineResourceHandling\<close>, the second that of \<open>ProcessRequest\<close>.\<close>

definition SendObserveNotification :: "addr \<Rightarrow> u32 \<Rightarrow> OCQualityOfService \<Rightarrow> server \<Rightarrow> (OCStackResult \<times> server) option" where
  "SendObserveNotification p sequenceNum qos st =
     do {
       ob \<leftarrow> get_obs p st;
       (result, request, st) \<leftarrow> notify_request ob sequenceNum qos st;
       case request of
         None \<Rightarrow> Some (result, st)
       | Some rq \<Rightarrow>
           if result \<noteq> OC_STACK_OK then Some (result, st)
           else
             (case ask st of (result, st) \<Rightarrow>
                if result \<noteq> OC_STACK_OK then Some (result, st)
                else
                  (case send (Processed (rq\<lparr>sr_observeResult := OC_STACK_OK\<rparr>)) st of
                     (result, st) \<Rightarrow> map_option (Pair result) (reset_ttl p st)))
     }"

definition OCPresencePayloadCreate ::
  "u32 \<Rightarrow> u32 \<Rightarrow> OCPresenceTrigger \<Rightarrow> string option \<Rightarrow> mem \<Rightarrow> OCPresencePayload option \<times> mem" where
  "OCPresencePayloadCreate seqNum maxAge trigger resourceType m =
     (case OICCalloc m 1 sizeof_OCPresencePayload of
        (False, m) \<Rightarrow> (None, m)
      | (True, m) \<Rightarrow>
          (case OICStrdup m resourceType of
             (rt, m) \<Rightarrow> (Some \<lparr>pp_sequenceNumber = seqNum, pp_maxAge = maxAge, pp_trigger = trigger, pp_resourceType = rt\<rparr>, m)))"

text \<open>The presence response for one observer; \<^const>\<open>Inl\<close> leaves the loop over the observers.\<close>

definition send_presence ::
  "addr \<Rightarrow> u32 \<Rightarrow> u32 \<Rightarrow> OCPresenceTrigger \<Rightarrow> string option \<Rightarrow> OCQualityOfService \<Rightarrow> server
     \<Rightarrow> (OCStackResult \<times> server + OCStackResult \<times> server) option" where
  "send_presence p sequenceNum maxAge trigger resourceType qos st =
     do {
       ob \<leftarrow> get_obs p st;
       (result, request, st) \<leftarrow> notify_request ob sequenceNum qos st;
       case request of
         None \<Rightarrow> Some (Inr (result, st))
       | Some rq \<Rightarrow>
           (case OCPresencePayloadCreate sequenceNum maxAge trigger resourceType (sv_mem st) of
              (None, m) \<Rightarrow> Some (Inl (OC_STACK_NO_MEMORY, st\<lparr>sv_mem := m\<rparr>))
            | (Some pl, m) \<Rightarrow> Some (Inr (send (Presence rq pl (copied MAX_URI_LENGTH (Some (ob_resUri ob)))) (st\<lparr>sv_mem := m\<rparr>))))
     }"

text \<open>The body of the loop. Its state is \<open>qos\<close>, \<open>observeErrorFlag\<close>, \<open>result\<close> and the server.\<close>

type_synonym notifying = "OCQualityOfService \<times> bool \<times> OCStackResult \<times> server"

definition notify_one ::
  "OCMethod \<Rightarrow> u32 \<Rightarrow> u32 \<Rightarrow> OCPresenceTrigger \<Rightarrow> string option \<Rightarrow> addr \<Rightarrow> notifying \<Rightarrow> (OCStackResult \<times> server + notifying) option" where
  "notify_one method sequenceNum maxAge trigger resourceType p s =
     (case s of (qos, flag, _, st) \<Rightarrow>
        if method \<noteq> OC_REST_PRESENCE then
          do {
            ob \<leftarrow> get_obs p st;
            let (qos, ob) = DetermineObserverQoS method ob qos;
            st \<leftarrow> put_obs p ob st;
            (result, st) \<leftarrow> SendObserveNotification p sequenceNum qos st;
            Some (Inr (qos, flag \<or> result \<noteq> OC_STACK_OK, result, st))
          }
        else
          do {
            x \<leftarrow> send_presence p sequenceNum maxAge trigger resourceType qos st;
            Some (case x of
                Inl e \<Rightarrow> Inl e
              | Inr (result, st) \<Rightarrow> Inr (qos, flag \<or> result \<noteq> OC_STACK_OK, result, st))
          })"

definition SendAllObserverNotification ::
  "OCMethod \<Rightarrow> nat option \<Rightarrow> u32 \<Rightarrow> OCPresenceTrigger \<Rightarrow> string option \<Rightarrow> OCQualityOfService \<Rightarrow> server
     \<Rightarrow> (OCStackResult \<times> server) option" where
  "SendAllObserverNotification method resPtr maxAge trigger resourceType qos st =
     (case resPtr of
        None \<Rightarrow> Some (OC_STACK_INVALID_PARAM, st)
      | Some r \<Rightarrow>
          do {
            res \<leftarrow> cell_read r (sv_resources st);
            if rs_observersHead res = None then Some (OC_STACK_NO_OBSERVERS, st)
            else
              do {
                x \<leftarrow> foreach (\<lambda>(_, _, _, st). sv_nodes st) (notify_one method (rs_sequenceNum res) maxAge trigger resourceType)
                       (rs_observersHead res) (qos, False, OC_STACK_ERROR, st);
                Some (case x of
                    Inl e \<Rightarrow> e
                  | Inr (_, flag, result, st) \<Rightarrow> (if flag then OC_STACK_ERROR else result, st))
              }
          })"

section \<open>Searching\<close>

definition CheckTimedOutObserver :: "addr \<Rightarrow> nat \<Rightarrow> server \<Rightarrow> server option" where
  "CheckTimedOutObserver p r st =
     do {
       ob \<leftarrow> get_obs p st;
       if ob_TTL ob = 0 then Some st
       else
         (case coap_ticks st of (now, st) \<Rightarrow>
            if ob_TTL ob < now then
              do {
                res \<leftarrow> cell_read r (sv_resources st);
                map_option snd (SendObserveNotification p (rs_sequenceNum res) OC_HIGH_QOS st)
              }
            else Some st)
     }"

text \<open>The loop of the two searches; \<^const>\<open>Inl\<close> is a hit.\<close>

definition search_step ::
  "(ResourceObserver \<Rightarrow> bool option) \<Rightarrow> nat \<Rightarrow> addr \<Rightarrow> server \<Rightarrow> (addr \<times> server + server) option" where
  "search_step hit r out st =
     do {
       ob \<leftarrow> get_obs out st;
       found \<leftarrow> hit ob;
       if found then Some (Inl (out, st)) else map_option Inr (CheckTimedOutObserver out r st)
     }"

definition search_obs :: "(ResourceObserver \<Rightarrow> bool option) \<Rightarrow> nat \<Rightarrow> server \<Rightarrow> (addr option \<times> server) option" where
  "search_obs hit r st =
     do {
       res \<leftarrow> cell_read r (sv_resources st);
       x \<leftarrow> foreach sv_nodes (search_step hit r) (rs_observersHead res) st;
       Some (case x of Inl (out, st) \<Rightarrow> (Some out, st) | Inr st \<Rightarrow> (None, st))
     }"

definition GetObserverUsingId :: "nat \<Rightarrow> u8 \<Rightarrow> server \<Rightarrow> (addr option \<times> server) option" where
  "GetObserverUsingId r observeId = search_obs (\<lambda>ob. Some (ob_observeId ob = observeId)) r"

definition token_match :: "u8 list \<Rightarrow> u8 \<Rightarrow> ResourceObserver \<Rightarrow> bool option" where
  "token_match token tokenLength ob = (case ob_token ob of None \<Rightarrow> None | Some t \<Rightarrow> mem_eq t token (unat tokenLength))"

definition GetObserverUsingToken :: "nat \<Rightarrow> u8 list option \<Rightarrow> u8 \<Rightarrow> server \<Rightarrow> (addr option \<times> server) option" where
  "GetObserverUsingToken r token tokenLength st =
     (case token of None \<Rightarrow> Some (None, st) | Some t \<Rightarrow> search_obs (token_match t tokenLength) r st)"

text \<open>Loops over the resources from position \<open>r\<close> on.\<close>

fun exists_from :: "nat \<Rightarrow> nat \<Rightarrow> u8 \<Rightarrow> server \<Rightarrow> (bool \<times> server) option" where
  "exists_from 0 r observationId st = Some (False, st)"
| "exists_from (Suc k) r observationId st =
     do {
       (p, st) \<leftarrow> GetObserverUsingId r observationId st;
       if p \<noteq> None then Some (True, st) else exists_from k (Suc r) observationId st
     }"

definition IsObservationIdExisting :: "u8 \<Rightarrow> server \<Rightarrow> (bool \<times> server) option" where
  "IsObservationIdExisting observationId st = exists_from (length (sv_resources st)) 0 observationId st"

fun token_from :: "nat \<Rightarrow> nat \<Rightarrow> u8 list option \<Rightarrow> u8 \<Rightarrow> server \<Rightarrow> ((nat \<times> addr) option \<times> server) option" where
  "token_from 0 r token tokenLength st = Some (None, st)"
| "token_from (Suc k) r token tokenLength st =
     do {
       (p, st) \<leftarrow> GetObserverUsingToken r token tokenLength st;
       case p of Some a \<Rightarrow> Some (Some (r, a), st) | None \<Rightarrow> token_from k (Suc r) token tokenLength st
     }"

definition GetObserverFromResourceList :: "u8 list option \<Rightarrow> u8 \<Rightarrow> server \<Rightarrow> ((nat \<times> addr) option \<times> server) option" where
  "GetObserverFromResourceList token tokenLength st = token_from (length (sv_resources st)) 0 token tokenLength st"

definition FindResourceByUri :: "string \<Rightarrow> server \<Rightarrow> nat option" where
  "FindResourceByUri resourceUri st = find_index (\<lambda>res. resourceUri = rs_uri res) (sv_resources st)"

section \<open>Notifying a list of observers\<close>

text \<open>
  One round of the loop of \<open>SendListObserverNotification\<close> for an id. The result says whether the loop
  goes on to the next id: it does not when the payload cannot be allocated. The counter and the flag
  are those of the loop.
\<close>

type_synonym notifying_list = "OCQualityOfService \<times> u8 \<times> bool \<times> server"

definition represent :: "addr \<Rightarrow> OCServerRequest \<Rightarrow> nat \<Rightarrow> notifying_list \<Rightarrow> (bool \<times> notifying_list) option" where
  "represent p rq payload s =
     (case s of (qos, numSent, flag, st) \<Rightarrow>
        (case OICCalloc (sv_mem st) 1 sizeof_OCRepPayload of
           (False, m) \<Rightarrow> Some (False, qos, numSent, flag, st\<lparr>sv_mem := m\<rparr>)
         | (True, m) \<Rightarrow>
             (case send (Represented (rq\<lparr>sr_observeResult := OC_STACK_OK\<rparr>) payload) (st\<lparr>sv_mem := m\<rparr>) of
                (result, st) \<Rightarrow>
                  map_option (\<lambda>st. (True, qos, if result = OC_STACK_OK then numSent + 1 else numSent, flag \<or> result \<noteq> OC_STACK_OK, st))
                    (reset_ttl p st))))"

definition list_round :: "nat \<Rightarrow> u8 \<Rightarrow> nat \<Rightarrow> notifying_list \<Rightarrow> (bool \<times> notifying_list) option" where
  "list_round r obsId payload s =
     (case s of (qos, numSent, flag, st) \<Rightarrow>
        do {
          res \<leftarrow> cell_read r (sv_resources st);
          (observer, st) \<leftarrow> GetObserverUsingId r obsId st;
          case observer of
            None \<Rightarrow> Some (True, qos, numSent, flag, st)
          | Some p \<Rightarrow>
              do {
                ob \<leftarrow> get_obs p st;
                let (qos, ob) = DetermineObserverQoS OC_REST_GET ob qos;
                st \<leftarrow> put_obs p ob st;
                (result, request, st) \<leftarrow> notify_request ob (rs_sequenceNum res) qos st;
                case request of
                  Some rq \<Rightarrow>
                    if result = OC_STACK_OK then represent p rq payload (qos, numSent, flag, st)
                    else Some (True, qos, numSent, True, st)
                | None \<Rightarrow> Some (True, qos, numSent, flag \<or> result \<noteq> OC_STACK_OK, st)
              }
        })"

text \<open>\<open>ids\<close> is what \<open>obsIdList\<close> points to.\<close>

partial_function (option) list_loop :: "nat \<Rightarrow> nat \<Rightarrow> u8 \<Rightarrow> u8 list \<Rightarrow> notifying_list \<Rightarrow> notifying_list option" where
  "list_loop r payload numIds ids s =
     (if numIds = 0 then Some s
      else
        (case ids of
           [] \<Rightarrow> None
         | obsId # ids' \<Rightarrow>
             (case list_round r obsId payload s of
                None \<Rightarrow> None
              | Some (go_on, s') \<Rightarrow> if go_on then list_loop r payload (numIds - 1) ids' s' else list_loop r payload numIds ids s')))"

definition SendListObserverNotification ::
  "nat option \<Rightarrow> u8 list option \<Rightarrow> u8 \<Rightarrow> nat option \<Rightarrow> OCQualityOfService \<Rightarrow> server \<Rightarrow> (OCStackResult \<times> server) option" where
  "SendListObserverNotification resource obsIdList numberOfIds payload qos st =
     (case (resource, obsIdList, payload) of
        (Some r, Some ids, Some pl) \<Rightarrow>
          do {
            res \<leftarrow> cell_read r (sv_resources st);
            if rs_observersHead res = None then Some (OC_STACK_NO_OBSERVERS, st)
            else
              do {
                (_, numSent, flag, st) \<leftarrow> list_loop r pl numberOfIds ids (qos, 0, False, st);
                Some (if numSent = numberOfIds \<and> \<not> flag then OC_STACK_OK else OC_STACK_ERROR, st)
              }
          }
      | _ \<Rightarrow> Some (OC_STACK_INVALID_PARAM, st))"

section \<open>Registering\<close>

text \<open>The random number generator gives a byte or fails. The caller passes a variable for the id.\<close>

partial_function (option) GenerateObserverId :: "server \<Rightarrow> (OCStackResult \<times> u8 option \<times> server) option" where
  "GenerateObserverId st =
     (case sv_random st (sv_draws st) of
        None \<Rightarrow> Some (OC_STACK_ERROR, None, st\<lparr>sv_draws := Suc (sv_draws st)\<rparr>)
      | Some obsId \<Rightarrow>
          (case IsObservationIdExisting obsId (st\<lparr>sv_draws := Suc (sv_draws st)\<rparr>) of
             None \<Rightarrow> None
           | Some (known, st) \<Rightarrow> if known then GenerateObserverId st else Some (OC_STACK_OK, Some obsId, st)))"

text \<open>The copies that a new observer owns; \<^const>\<open>Inl\<close> is the return without memory.\<close>

definition copy_query :: "string option \<Rightarrow> mem \<Rightarrow> mem + string option \<times> mem" where
  "copy_query query m =
     (case query of
        None \<Rightarrow> Inr (None, m)
      | Some _ \<Rightarrow> (case OICStrdup m query of (None, m) \<Rightarrow> Inl m | (Some q, m) \<Rightarrow> Inr (Some q, m)))"

definition copy_token :: "u8 list \<Rightarrow> u8 \<Rightarrow> mem \<Rightarrow> (mem + u8 list option \<times> mem) option" where
  "copy_token token tokenLength m =
     (if tokenLength = 0 then Some (Inr (None, m))
      else
        (case OICMalloc m (unat tokenLength) of
           (False, m) \<Rightarrow> Some (Inl m)
         | (True, m) \<Rightarrow> map_option (\<lambda>t. Inr (Some t, m)) (buf_read 0 (unat tokenLength) token)))"

definition copies :: "string \<Rightarrow> string option \<Rightarrow> u8 list \<Rightarrow> u8 \<Rightarrow> mem \<Rightarrow> (mem + string \<times> string option \<times> u8 list option \<times> mem) option" where
  "copies resUri query token tokenLength m =
     (case OICStrdup m (Some resUri) of
        (None, m) \<Rightarrow> Some (Inl m)
      | (Some uri, m) \<Rightarrow>
          (case copy_query query m of
             Inl m \<Rightarrow> Some (Inl m)
           | Inr (q, m) \<Rightarrow>
               do {
                 tok \<leftarrow> copy_token token tokenLength m;
                 Some (case tok of Inl m \<Rightarrow> Inl m | Inr (t, m) \<Rightarrow> Inr (uri, q, t, m))
               }))"

definition link_observer :: "nat \<Rightarrow> ResourceObserver \<Rightarrow> server \<Rightarrow> server option" where
  "link_observer r ob st =
     do {
       res \<leftarrow> cell_read r (sv_resources st);
       let p = sv_fresh st;
       (h, head) \<leftarrow> LL_APPEND ((sv_nodes st)(p \<mapsto> \<lparr>nd_data = ob, nd_next = None\<rparr>), rs_observersHead res) p;
       Some (set_head r head (st\<lparr>sv_nodes := h, sv_fresh := Suc p\<rparr>))
     }"

definition AddObserver ::
  "string option \<Rightarrow> string option \<Rightarrow> u8 \<Rightarrow> u8 list option \<Rightarrow> u8 \<Rightarrow> nat option \<Rightarrow> OCQualityOfService \<Rightarrow> OCPayloadFormat
     \<Rightarrow> u16 \<Rightarrow> OCDevAddr \<Rightarrow> server \<Rightarrow> (OCStackResult \<times> server) option" where
  "AddObserver resUri query obsId token tokenLength resHandle qos acceptFormat acceptVersion devAddr st =
     (case resHandle of
        None \<Rightarrow> Some (OC_STACK_INVALID_PARAM, st)
      | Some r \<Rightarrow>
          do {
            res \<leftarrow> cell_read r (sv_resources st);
            if rs_resourceProperties res AND OC_OBSERVABLE = 0 then Some (OC_STACK_RESOURCE_ERROR, st)
            else
              (case (resUri, token) of
                 (Some uri, Some tok) \<Rightarrow>
                   (case OICCalloc (sv_mem st) 1 sizeof_ResourceObserver of
                      (False, m) \<Rightarrow> Some (OC_STACK_NO_MEMORY, st\<lparr>sv_mem := m\<rparr>)
                    | (True, m) \<Rightarrow>
                        do {
                          c \<leftarrow> copies uri query tok tokenLength m;
                          case c of
                            Inl m \<Rightarrow> Some (OC_STACK_NO_MEMORY, st\<lparr>sv_mem := m\<rparr>)
                          | Inr (uri', query', token', m) \<Rightarrow>
                              do {
                                let st = st\<lparr>sv_mem := m\<rparr>;
                                let (ttl, st) = (if uri = OC_RSRVD_PRESENCE_URI then (0, st)
                                                 else GetTicks (MAX_OBSERVER_TTL_SECONDS * MILLISECONDS_PER_SECOND) st);
                                st \<leftarrow> link_observer r \<lparr>ob_observeId = obsId, ob_resUri = uri', ob_query = query', ob_token = token',
                                       ob_tokenLength = tokenLength, ob_devAddr = devAddr, ob_qos = qos, ob_failedCommCount = 0,
                                       ob_lowQosCount = 0, ob_forceHighQos = 0, ob_TTL = ttl, ob_acceptFormat = acceptFormat,
                                       ob_acceptVersion = acceptVersion\<rparr> st;
                                Some (OC_STACK_OK, st)
                              }
                        })
               | _ \<Rightarrow> Some (OC_STACK_INVALID_PARAM, st))
          })"

section \<open>Deregistering\<close>

definition unlink_observer :: "nat \<Rightarrow> addr \<Rightarrow> server \<Rightarrow> server option" where
  "unlink_observer r p st =
     do {
       res \<leftarrow> cell_read r (sv_resources st);
       (h, head) \<leftarrow> LL_DELETE (sv_nodes st, rs_observersHead res) p;
       Some (set_head r head (st\<lparr>sv_nodes := h(p := None)\<rparr>))
     }"

definition DeleteObserverUsingToken :: "nat \<Rightarrow> u8 list option \<Rightarrow> u8 \<Rightarrow> server \<Rightarrow> (OCStackResult \<times> server) option" where
  "DeleteObserverUsingToken r token tokenLength st =
     (if token = None then Some (OC_STACK_INVALID_PARAM, st)
      else
        do {
          (obsNode, st) \<leftarrow> GetObserverUsingToken r token tokenLength st;
          case obsNode of
            None \<Rightarrow> Some (OC_STACK_OK, st)
          | Some p \<Rightarrow> do { st \<leftarrow> unlink_observer r p st; Some (OC_STACK_OK, st) }
        })"

definition delete_step :: "nat \<Rightarrow> addr \<Rightarrow> server \<Rightarrow> (unit + server) option" where
  "delete_step r out st =
     do {
       ob \<leftarrow> get_obs out st;
       (_, st) \<leftarrow> DeleteObserverUsingToken r (ob_token ob) (ob_tokenLength ob) st;
       Some (Inr st)
     }"

definition DeleteObserverList :: "nat \<Rightarrow> server \<Rightarrow> server option" where
  "DeleteObserverList r st =
     do {
       res \<leftarrow> cell_read r (sv_resources st);
       x \<leftarrow> foreach_safe sv_nodes (delete_step r) (rs_observersHead res) st;
       case x of Inl () \<Rightarrow> None | Inr st \<Rightarrow> Some (set_head r None st)
     }"

section \<open>Feedback\<close>

definition tell_handler :: "nat \<Rightarrow> u8 \<Rightarrow> server \<Rightarrow> server option" where
  "tell_handler r obsId st =
     do {
       res \<leftarrow> cell_read r (sv_resources st);
       Some (case rs_entityHandler res of None \<Rightarrow> st | Some eh \<Rightarrow> st\<lparr>sv_told := sv_told st @ [(eh, obsId)]\<rparr>)
     }"

text \<open>\<open>FormOCEntityHandlerRequest\<close> succeeds here: it has no payload to parse.\<close>

definition OCStackFeedBack :: "u8 list option \<Rightarrow> u8 \<Rightarrow> u8 \<Rightarrow> server \<Rightarrow> (OCStackResult \<times> server) option" where
  "OCStackFeedBack token tokenLength status st =
     do {
       (x, st) \<leftarrow> GetObserverFromResourceList token tokenLength st;
       case x of
         None \<Rightarrow> Some (OC_STACK_OBSERVER_NOT_FOUND, st)
       | Some (r, p) \<Rightarrow>
           do {
             ob \<leftarrow> get_obs p st;
             if status = OC_OBSERVER_NOT_INTERESTED
                \<or> (status = OC_OBSERVER_FAILED_COMM \<and> MAX_OBSERVER_FAILED_COMM \<le> ob_failedCommCount ob) then
               do {
                 st \<leftarrow> tell_handler r (ob_observeId ob) st;
                 (_, st) \<leftarrow> DeleteObserverUsingToken r token tokenLength st;
                 Some (OC_STACK_OK, st)
               }
             else if status = OC_OBSERVER_STILL_INTERESTED then
               map_option (Pair OC_STACK_OK) (put_obs p (ob\<lparr>ob_forceHighQos := 0, ob_failedCommCount := 0\<rparr>) st)
             else if status = OC_OBSERVER_FAILED_COMM then
               map_option (Pair OC_STACK_CONTINUE)
                 (put_obs p (ob\<lparr>ob_failedCommCount := ob_failedCommCount ob + 1, ob_forceHighQos := 1\<rparr>) st)
             else Some (OC_STACK_ERROR, st)
           }
     }"

text \<open>The loops over the resources and their observers when a device is gone.\<close>

definition gone_step :: "OCDevAddr \<Rightarrow> addr \<Rightarrow> server \<Rightarrow> (unit + server) option" where
  "gone_step devAddr observer st =
     do {
       ob \<leftarrow> get_obs observer st;
       if ep_addr (ob_devAddr ob) = ep_addr devAddr \<and> ep_port (ob_devAddr ob) = ep_port devAddr then
         do {
           (_, st) \<leftarrow> OCStackFeedBack (ob_token ob) (ob_tokenLength ob) OC_OBSERVER_NOT_INTERESTED st;
           Some (Inr st)
         }
       else Some (Inr st)
     }"

fun gone_from :: "nat \<Rightarrow> nat \<Rightarrow> OCDevAddr \<Rightarrow> server \<Rightarrow> server option" where
  "gone_from 0 r devAddr st = Some st"
| "gone_from (Suc k) r devAddr st =
     do {
       res \<leftarrow> cell_read r (sv_resources st);
       x \<leftarrow> foreach_safe sv_nodes (gone_step devAddr) (rs_observersHead res) st;
       case x of Inl () \<Rightarrow> None | Inr st \<Rightarrow> gone_from k (Suc r) devAddr st
     }"

definition GiveStackFeedBackObserverNotInterested :: "OCDevAddr option \<Rightarrow> server \<Rightarrow> server option" where
  "GiveStackFeedBackObserverNotInterested devAddr st =
     (case devAddr of None \<Rightarrow> Some st | Some a \<Rightarrow> gone_from (length (sv_resources st)) 0 a st)"

section \<open>Notifications by the application\<close>

definition next_sequence :: "u32 \<Rightarrow> u32" where
  "next_sequence n = (if n + 1 = MAX_SEQUENCE_NUMBER then OC_OFFSET_SEQUENCE_NUMBER + 1 else n + 1)"

definition incrementSequenceNumber :: "nat \<Rightarrow> server \<Rightarrow> server" where
  "incrementSequenceNumber r st =
     st\<lparr>sv_resources := (sv_resources st)[r := (sv_resources st ! r)\<lparr>rs_sequenceNum := next_sequence (rs_sequenceNum (sv_resources st ! r))\<rparr>]\<rparr>"

definition findResource :: "nat \<Rightarrow> server \<Rightarrow> nat option" where
  "findResource r st = (if r < length (sv_resources st) then Some r else None)"

definition OCNotifyAllObservers :: "nat option \<Rightarrow> OCQualityOfService \<Rightarrow> server \<Rightarrow> (OCStackResult \<times> server) option" where
  "OCNotifyAllObservers handle qos st =
     (if handle = sv_presence st then Some (OC_STACK_OK, st)
      else
        (case handle of
           None \<Rightarrow> Some (OC_STACK_ERROR, st)
         | Some h \<Rightarrow>
             (case findResource h st of
                None \<Rightarrow> Some (OC_STACK_NO_RESOURCE, st)
              | Some r \<Rightarrow>
                  SendAllObserverNotification OC_REST_OBSERVE (Some r) MAX_OBSERVE_AGE OC_PRESENCE_TRIGGER_DELETE None qos
                    (incrementSequenceNumber r st))))"

definition OCNotifyListOfObservers ::
  "nat option \<Rightarrow> u8 list option \<Rightarrow> u8 \<Rightarrow> nat option \<Rightarrow> OCQualityOfService \<Rightarrow> server \<Rightarrow> (OCStackResult \<times> server) option" where
  "OCNotifyListOfObservers handle obsIdList numberOfIds payload qos st =
     (case (handle, obsIdList, payload) of
        (Some h, Some ids, Some pl) \<Rightarrow>
          (if findResource h st = None \<or> sv_mode st = OC_CLIENT then Some (OC_STACK_NO_RESOURCE, st)
           else SendListObserverNotification (Some h) (Some ids) numberOfIds (Some pl) qos (incrementSequenceNumber h st))
      | _ \<Rightarrow> Some (OC_STACK_ERROR, st))"

text \<open>How a client tells that a notification is older than the last one it handed up.\<close>

definition stale_notification :: "OCMethod \<Rightarrow> u32 \<Rightarrow> u32 \<Rightarrow> bool" where
  "stale_notification cbMethod cbSequence sequenceNumber \<longleftrightarrow>
     cbMethod = OC_REST_OBSERVE \<and> OC_OFFSET_SEQUENCE_NUMBER < sequenceNumber \<and> cbSequence \<le> MAX_SEQUENCE_NUMBER
     \<and> sequenceNumber \<le> cbSequence"

section \<open>The observe option\<close>

text \<open>\<open>caHdrOpt\<close> and \<open>observationOption\<close> are not NULL in any caller.\<close>

definition CreateObserveHeaderOption ::
  "OCHeaderOption list option \<Rightarrow> u8 \<Rightarrow> u8 \<Rightarrow> mem \<Rightarrow> (OCStackResult \<times> CAHeaderOption list option \<times> mem) option" where
  "CreateObserveHeaderOption ocHdrOpt numOptions observeFlag m =
     (if numOptions > 0 \<and> ocHdrOpt = None then Some (OC_STACK_INVALID_PARAM, None, m)
      else
        (case OICCalloc m (unat numOptions + 1) sizeof_CAHeaderOption of
           (False, m) \<Rightarrow> Some (OC_STACK_NO_MEMORY, None, m)
         | (True, m) \<Rightarrow>
             do {
               copied \<leftarrow> (if numOptions = 0 then Some [] else memcpy_from ocHdrOpt (unat numOptions));
               Some (OC_STACK_OK,
                     Some (\<lparr>ho_protocolID = CA_COAP_ID, ho_optionID = COAP_OPTION_OBSERVE, ho_optionLength = 1,
                            ho_optionData = observeFlag # replicate (CA_MAX_HEADER_OPTION_DATA_LENGTH - 1) 0\<rparr> # copied), m)
             }))"

text \<open>The inner loop with counter \<open>c\<close> assigns \<open>options[i]\<close> in every round.\<close>

fun overwrite_loop :: "nat \<Rightarrow> nat \<Rightarrow> CAHeaderOption list \<Rightarrow> CAHeaderOption list option" where
  "overwrite_loop 0 i options = Some options"
| "overwrite_loop (Suc k) i options =
     do {
       x \<leftarrow> cell_read (Suc i) options;
       options \<leftarrow> cell_write i x options;
       overwrite_loop k i options
     }"

fun observe_loop :: "nat \<Rightarrow> nat \<Rightarrow> u8 \<Rightarrow> CAHeaderOption list \<Rightarrow> (u8 option \<times> CAHeaderOption list \<times> u8) option" where
  "observe_loop 0 i numOptions options = Some (None, options, numOptions)"
| "observe_loop (Suc k) i numOptions options =
     do {
       opt \<leftarrow> cell_read i options;
       if ho_protocolID opt = CA_COAP_ID \<and> ho_optionID opt = COAP_OPTION_OBSERVE then
         do {
           b \<leftarrow> cell_read 0 (ho_optionData opt);
           options' \<leftarrow> overwrite_loop (unat numOptions - 1 - i) i options;
           Some (Some b, options', numOptions - 1)
         }
       else observe_loop k (Suc i) numOptions options
     }"

text \<open>The result has the new value of \<open>*observationOption\<close>, the options and \<open>*numOptions\<close>.\<close>

definition GetObserveHeaderOption ::
  "u32 \<Rightarrow> CAHeaderOption list option \<Rightarrow> u8 option \<Rightarrow> (OCStackResult \<times> u32 \<times> CAHeaderOption list option \<times> u8 option) option" where
  "GetObserveHeaderOption observationOption options numOptions =
     (case (options, numOptions) of
        (Some opts, Some n) \<Rightarrow>
          do {
            (x, opts', n') \<leftarrow> observe_loop (unat n) 0 n opts;
            Some (OC_STACK_OK, (case x of None \<Rightarrow> observationOption | Some b \<Rightarrow> ucast b), Some opts', Some n')
          }
      | _ \<Rightarrow> Some (OC_STACK_OK, observationOption, options, numOptions))"

section \<open>Observing the list of resources\<close>

definition register_observer :: "nat \<Rightarrow> OCServerRequest \<Rightarrow> server \<Rightarrow> (OCStackResult \<times> server) option" where
  "register_observer r rq st =
     do {
       (result, obsId, st) \<leftarrow> GenerateObserverId st;
       case obsId of
         None \<Rightarrow> Some (result, st)
       | Some i \<Rightarrow>
           AddObserver (Some (sr_resourceUrl rq)) (Some (sr_query rq)) i (sr_requestToken rq) (sr_tokenLength rq) (Some r)
             (sr_qos rq) (sr_acceptFormat rq) (sr_acceptVersion rq) (sr_devAddr rq) st
     }"

text \<open>\<open>GetTypeOfVirtualURI\<close> returns \<open>OC_WELL_KNOWN_URI\<close> for \<open>/oic/res\<close> only.\<close>

definition HandleVirtualObserveRequest :: "OCServerRequest \<Rightarrow> server \<Rightarrow> (OCStackResult \<times> OCServerRequest \<times> server) option" where
  "HandleVirtualObserveRequest rq st =
     (if sr_notificationFlag rq \<noteq> 0 \<or> sr_resourceUrl rq \<noteq> OC_RSRVD_WELL_KNOWN_URI then Some (OC_STACK_OK, rq, st)
      else
        (case FindResourceByUri OC_RSRVD_WELL_KNOWN_URI st of
           None \<Rightarrow> Some (OC_STACK_ERROR, rq, st)
         | Some r \<Rightarrow>
             if sr_observationOption rq = OC_OBSERVE_REGISTER then
               do {
                 (obs, st) \<leftarrow> GetObserverUsingToken r (sr_requestToken rq) (sr_tokenLength rq) st;
                 if obs \<noteq> None then Some (OC_STACK_DUPLICATE_REQUEST, rq, st)
                 else
                   do {
                     (result, st) \<leftarrow> register_observer r rq st;
                     Some (OC_STACK_OK, rq\<lparr>sr_observeResult := (if result = OC_STACK_OK then OC_STACK_OK else OC_STACK_ERROR)\<rparr>, st)
                   }
               }
             else if sr_observationOption rq = OC_OBSERVE_DEREGISTER then
               do {
                 (result, st) \<leftarrow> DeleteObserverUsingToken r (sr_requestToken rq) (sr_tokenLength rq) st;
                 Some (OC_STACK_OK,
                       if result = OC_STACK_OK
                       then rq\<lparr>sr_observeResult := OC_STACK_OK, sr_observationOption := MAX_SEQUENCE_NUMBER + 1\<rparr>
                       else rq\<lparr>sr_observeResult := OC_STACK_ERROR\<rparr>, st)
               }
             else Some (OC_STACK_OK, rq, st)))"

end
