(* ===== verification/ObserverList.thy ===== *)
theory ObserverList
  imports Observers "HOL-Library.Sublist"
begin

text \<open>
  What the observers of a server mean: a sequence of observers for each resource. The operations of
  Observers act on the sequences, keep the bounds of the counters, and notify as the sequences say.
\<close>

section \<open>Well-formed servers\<close>

type_synonym obs = "(addr \<times> ResourceObserver) list"

text \<open>Tokens have the length \<open>L\<close>: the comparisons of tokens do not look at the lengths.\<close>

definition obs_ok :: "nat \<Rightarrow> ResourceObserver \<Rightarrow> bool" where
  "obs_ok L ob \<longleftrightarrow> (\<exists>t. ob_token ob = Some t \<and> length t = L) \<and> unat (ob_tokenLength ob) = L \<and> 0 < L
     \<and> ob_lowQosCount ob \<le> MAX_OBSERVER_NON_COUNT \<and> ob_failedCommCount ob \<le> MAX_OBSERVER_FAILED_COMM"

definition head_of :: "server \<Rightarrow> nat \<Rightarrow> addr option" where
  "head_of st r = rs_observersHead (sv_resources st ! r)"

definition sv_wf :: "nat \<Rightarrow> server \<Rightarrow> obs list \<Rightarrow> bool" where
  "sv_wf L st oss \<longleftrightarrow> length oss = length (sv_resources st)
     \<and> (\<forall>r<length oss. ul_rep (sv_nodes st) (head_of st r) (oss ! r))
     \<and> distinct (map fst (concat oss)) \<and> (\<forall>os\<in>set oss. \<forall>x\<in>set os. obs_ok L (snd x))
     \<and> (\<forall>a. sv_fresh st \<le> a \<longrightarrow> sv_nodes st a = None)"

lemma sv_wfD:
  assumes "sv_wf L st oss"
  shows "length oss = length (sv_resources st)" "r < length oss \<Longrightarrow> ul_rep (sv_nodes st) (head_of st r) (oss ! r)"
    "distinct (map fst (concat oss))" "r < length oss \<Longrightarrow> (p, ob) \<in> set (oss ! r) \<Longrightarrow> obs_ok L ob"
    "sv_fresh st \<le> a \<Longrightarrow> sv_nodes st a = None"
proof -
  show "length oss = length (sv_resources st)" "r < length oss \<Longrightarrow> ul_rep (sv_nodes st) (head_of st r) (oss ! r)"
    "distinct (map fst (concat oss))" "sv_fresh st \<le> a \<Longrightarrow> sv_nodes st a = None"
    using assms unfolding sv_wf_def by blast+
  show "obs_ok L ob" if "r < length oss" "(p, ob) \<in> set (oss ! r)"
  proof -
    have "\<forall>os\<in>set oss. \<forall>x\<in>set os. obs_ok L (snd x)" using assms unfolding sv_wf_def by (elim conjE)
    from this [THEN bspec, OF nth_mem [OF that(1)], THEN bspec, OF that(2)] show ?thesis by simp
  qed
qed

text \<open>The addresses of two lists of a well-formed server are apart.\<close>

lemma distinct_concat_apart:
  assumes "distinct (map fst (concat oss))" and "r < length oss" and "s < length oss" and "r \<noteq> s"
  shows "fst ` set (oss ! r) \<inter> fst ` set (oss ! s) = {}"
  using assms
proof (induction oss arbitrary: r s)
  case (Cons xs oss)
  have d: "fst ` set xs \<inter> fst ` set (oss ! k) = {}" if "k < length oss" for k
  proof -
    have "set (oss ! k) \<subseteq> set (concat oss)" unfolding set_concat by (rule UN_upper [OF nth_mem [OF that]])
    then have "fst ` set (oss ! k) \<subseteq> set (map fst (concat oss))" by (simp only: set_map image_mono)
    moreover have "set (map fst xs) \<inter> set (map fst (concat oss)) = {}" using Cons.prems(1) by (simp only: concat.simps map_append distinct_append)
    ultimately show ?thesis by (simp only: set_map) blast
  qed
  show ?case
  proof (cases r)
    case 0
    then show ?thesis using Cons.prems d by (cases s) simp_all
  next
    case (Suc r')
    then show ?thesis using Cons.prems d Cons.IH [of r'] by (cases s) (simp_all add: Int_commute)
  qed
qed simp

lemma concat_update: "r < length oss \<Longrightarrow> concat (oss[r := zs]) = concat (take r oss) @ zs @ concat (drop (Suc r) oss)"
  by (simp add: upd_conv_take_nth_drop)

lemma concat_nth: "r < length oss \<Longrightarrow> concat oss = concat (take r oss) @ oss ! r @ concat (drop (Suc r) oss)"
  using id_take_nth_drop [of r oss] by (metis concat.simps(2) concat_append)

text \<open>Replacing one list by one with the same or fewer nodes.\<close>

lemma sv_wf_update:
  assumes wf: "sv_wf L st oss" and r: "r < length oss"
    and len: "length (sv_resources st') = length (sv_resources st)"
    and heads: "\<And>s. s < length oss \<Longrightarrow> s \<noteq> r \<Longrightarrow> head_of st' s = head_of st s"
    and rep: "ul_rep (sv_nodes st') (head_of st' r) zs"
    and frame: "\<And>s q x. s < length oss \<Longrightarrow> s \<noteq> r \<Longrightarrow> (q, x) \<in> set (oss ! s) \<Longrightarrow> sv_nodes st' q = sv_nodes st q"
    and ok: "\<forall>x\<in>set zs. obs_ok L (snd x)"
    and sub: "distinct (map fst zs)" "fst ` set zs \<inter> fst ` set (concat (take r oss) @ concat (drop (Suc r) oss)) = {}"
    and fresh: "\<And>a. sv_fresh st' \<le> a \<Longrightarrow> sv_nodes st' a = None"
  shows "sv_wf L st' (oss[r := zs])"
proof -
  note d = sv_wfD [OF wf]
  have reps: "ul_rep (sv_nodes st') (head_of st' s) (oss[r := zs] ! s)" if "s < length oss" for s
  proof (cases "s = r")
    case True
    then show ?thesis using rep r by simp
  next
    case False
    have "ul_rep (sv_nodes st') (head_of st s) (oss ! s)"
      by (rule rep_frame [OF d(2)]) (use that False frame in force)+
    then show ?thesis using False that heads by simp
  qed
  have "distinct (map fst (concat (take r oss) @ oss ! r @ concat (drop (Suc r) oss)))"
    using d(3) concat_nth [OF r] by simp
  then have dist: "distinct (map fst (concat (oss[r := zs])))"
    using sub unfolding concat_update [OF r] by (simp add: image_Un Int_Un_distrib Int_Un_distrib2 Int_commute)
  have "\<forall>os\<in>set (oss[r := zs]). \<forall>x\<in>set os. obs_ok L (snd x)"
    using wf ok set_update_subset_insert [of oss r zs] unfolding sv_wf_def by blast
  then show ?thesis using d(1) len reps dist fresh unfolding sv_wf_def by simp
qed

lemma sv_wf_cong:
  "sv_wf L st oss \<Longrightarrow> sv_nodes st' = sv_nodes st \<Longrightarrow> sv_resources st' = sv_resources st \<Longrightarrow> sv_fresh st' = sv_fresh st
     \<Longrightarrow> sv_wf L st' oss"
  unfolding sv_wf_def head_of_def by simp

text \<open>New values in one observer.\<close>

lemma wf_heads:
  assumes "sv_wf L st oss" and "r < length oss"
  shows "cell_read r (sv_resources st) = Some (sv_resources st ! r)" "rs_observersHead (sv_resources st ! r) = ul_first (oss ! r)"
  using sv_wfD(1) [OF assms(1)] assms(2) rep_first [OF sv_wfD(2) [OF assms]] by (simp_all add: cell_read_def head_of_def)

lemma wf_apart:
  assumes "sv_wf L st oss" and "r < length oss" and "fst ` set zs \<subseteq> fst ` set (oss ! r)"
  shows "fst ` set zs \<inter> fst ` set (concat (take r oss) @ concat (drop (Suc r) oss)) = {}"
proof -
  have "distinct (map fst (concat (take r oss) @ oss ! r @ concat (drop (Suc r) oss)))"
    using sv_wfD(3) [OF assms(1)] concat_nth [OF assms(2)] by simp
  then have "fst ` set (oss ! r) \<inter> fst ` set (concat (take r oss) @ concat (drop (Suc r) oss)) = {}"
    by (simp add: image_Un Int_Un_distrib Int_commute)
  then show ?thesis using assms(3) by blast
qed

lemma wf_all: "sv_wf L st oss \<Longrightarrow> r < length oss \<Longrightarrow> \<forall>x\<in>set (oss ! r). obs_ok L (snd x)"
  unfolding sv_wf_def by (elim conjE) (erule bspec, rule nth_mem)

lemma wf_distinct: "sv_wf L st oss \<Longrightarrow> r < length oss \<Longrightarrow> distinct (map fst (oss ! r))"
  using sv_wfD(2) by (auto simp: ul_rep_def)

lemma other_list:
  assumes "sv_wf L st oss" and "r < length oss" and "s < length oss" and "s \<noteq> r"
    and "(q, x) \<in> set (oss ! s)" and "(p, y) \<in> set (oss ! r)"
  shows "q \<noteq> p"
proof -
  have "fst ` set (oss ! s) \<inter> fst ` set (oss ! r) = {}"
    by (rule distinct_concat_apart [OF sv_wfD(3) [OF assms(1)] assms(3,2,4)])
  moreover have "q \<in> fst ` set (oss ! s)" using assms(5) by (rule rev_image_eqI) simp
  moreover have "p \<in> fst ` set (oss ! r)" using assms(6) by (rule rev_image_eqI) simp
  ultimately show ?thesis by blast
qed

lemma get_ok:
  assumes "sv_wf L st oss" and "r < length oss" and "oss ! r = xs @ (p, x) # ys"
  shows "get_obs p st = Some x" "obs_ok L x"
proof -
  show "get_obs p st = Some x"
    unfolding get_obs_def by (rule rep_data [OF sv_wfD(2) [OF assms(1,2)]]) (simp add: assms(3))
  show "obs_ok L x" by (rule sv_wfD(4) [OF assms(1,2), of p]) (simp add: assms(3))
qed

lemma put_ok:
  assumes wf: "sv_wf L st oss" and r: "r < length oss" and s: "oss ! r = xs @ (p, x) # ys" and ok: "obs_ok L ob"
  shows "\<exists>h. put_obs p ob st = Some (st\<lparr>sv_nodes := h\<rparr>) \<and> sv_wf L (st\<lparr>sv_nodes := h\<rparr>) (oss[r := xs @ (p, ob) # ys])"
proof -
  note d = sv_wfD [OF wf]
  have rep: "ul_rep (sv_nodes st) (head_of st r) (xs @ (p, x) # ys)" using d(2) [OF r] s by simp
  obtain n where n: "sv_nodes st p = Some n" using rep_node [OF rep] by metis
  let ?h = "(sv_nodes st)(p \<mapsto> n\<lparr>nd_data := ob\<rparr>)"
  have "put_obs p ob st = Some (st\<lparr>sv_nodes := ?h\<rparr>)" using n by (simp add: put_obs_def)
  moreover have "sv_wf L (st\<lparr>sv_nodes := ?h\<rparr>) (oss[r := xs @ (p, ob) # ys])"
  proof (rule sv_wf_update [OF wf r])
    show "ul_rep (sv_nodes (st\<lparr>sv_nodes := ?h\<rparr>)) (head_of (st\<lparr>sv_nodes := ?h\<rparr>) r) (xs @ (p, ob) # ys)"
      using rep_update [OF rep n] by (simp add: head_of_def)
    show "sv_nodes (st\<lparr>sv_nodes := ?h\<rparr>) q = sv_nodes st q" if "t < length oss" "t \<noteq> r" "(q, y) \<in> set (oss ! t)" for t q y
      using other_list [OF wf r that, of p x] s by simp
    show "\<forall>y\<in>set (xs @ (p, ob) # ys). obs_ok L (snd y)"
      using wf_all [OF wf r, unfolded s] ok by (simp add: ball_Un)
    show "distinct (map fst (xs @ (p, ob) # ys))" using wf_distinct [OF wf r] s by simp
    show "fst ` set (xs @ (p, ob) # ys) \<inter> fst ` set (concat (take r oss) @ concat (drop (Suc r) oss)) = {}"
      by (rule wf_apart [OF wf r]) (simp add: s)
    show "sv_nodes (st\<lparr>sv_nodes := ?h\<rparr>) a = None" if "sv_fresh (st\<lparr>sv_nodes := ?h\<rparr>) \<le> a" for a
      using that n d(5) [of a] by auto
  qed (simp_all add: head_of_def)
  ultimately show ?thesis by blast
qed

section \<open>Sending to one observer\<close>

text \<open>The request of a notification.\<close>

definition notification :: "ResourceObserver \<Rightarrow> u32 \<Rightarrow> OCQualityOfService \<Rightarrow> OCServerRequest" where
  "notification ob seq qos = \<lparr>sr_method = OC_REST_GET, sr_acceptFormat = ob_acceptFormat ob, sr_acceptVersion = ob_acceptVersion ob,
     sr_resourceUrl = take (MAX_URI_LENGTH - 1) (ob_resUri ob),
     sr_query = (case ob_query ob of None \<Rightarrow> [] | Some q \<Rightarrow> take (MAX_QUERY_LENGTH - 1) q), sr_qos = qos,
     sr_observationOption = seq, sr_observeResult = OC_STACK_OK, sr_numResponses = 1, sr_devAddr = ob_devAddr ob,
     sr_requestToken = ob_token ob, sr_tokenLength = ob_tokenLength ob, sr_coapID = 0, sr_delayedResNeeded = 0,
     sr_numOptions = 0, sr_options = [], sr_requestComplete = 0, sr_notificationFlag = 1, sr_payloadFormat = OC_FORMAT_CBOR,
     sr_payload = []\<rparr>"

lemma notification_TTL [simp]: "notification (ob\<lparr>ob_TTL := t\<rparr>) seq qos = notification ob seq qos"
  "notification (ob\<lparr>ob_lowQosCount := c\<rparr>) seq qos = notification ob seq qos"
  by (simp_all add: notification_def)

lemma copied_eq: "copied n (Some s) = take (n - 1) s" "copied n None = []"
  by (simp_all add: copied_def OICStrcpy_def OICStrcpyPartial_def)

lemma libc_alloc_cases:
  obtains b m where "libc_alloc mem n = (b, m)" "length m \<le> length mem" "mem = [] \<and> n \<le> max_object \<longrightarrow> b \<and> m = []"
    "\<not> b \<and> n \<le> max_object \<longrightarrow> length m < length mem"
  by (cases mem) auto

lemma notify_request_ok:
  assumes "obs_ok L ob"
  shows "\<exists>b m. notify_request ob seq qos st =
      Some (if b then (OC_STACK_OK, Some ((notification ob seq qos)\<lparr>sr_observeResult := OC_STACK_ERROR\<rparr>), st\<lparr>sv_mem := m\<rparr>)
            else (OC_STACK_NO_MEMORY, None, st\<lparr>sv_mem := m\<rparr>))
    \<and> length m \<le> length (sv_mem st) \<and> (sv_mem st = [] \<longrightarrow> b \<and> m = [])"
proof -
  obtain t where t: "ob_token ob = Some t" "length t = L" "unat (ob_tokenLength ob) = L" "0 < L" using assms by (auto simp: obs_ok_def)
  have L: "L \<le> max_object" using t(3) unsigned_less [where ?'a = nat, of "ob_tokenLength ob"] by (simp add: max_object_def)
  have nz: "ob_tokenLength ob \<noteq> 0" using t(3,4) by auto
  obtain b1 m1 where a1: "libc_alloc (sv_mem st) sizeof_OCServerRequest = (b1, m1)" "length m1 \<le> length (sv_mem st)"
    "sv_mem st = [] \<and> sizeof_OCServerRequest \<le> max_object \<longrightarrow> b1 \<and> m1 = []" by (rule libc_alloc_cases)
  obtain b2 m2 where a2: "libc_alloc m1 L = (b2, m2)" "length m2 \<le> length m1" "m1 = [] \<and> L \<le> max_object \<longrightarrow> b2 \<and> m2 = []"
    by (rule libc_alloc_cases)
  have c: "OICCalloc (sv_mem st) 1 sizeof_OCServerRequest = (b1, m1)" using a1(1) by (simp add: OICCalloc_def sizeof_OCServerRequest_def)
  have m: "OICMalloc m1 L = (b2, m2)" using a2(1) t(4) by (simp add: OICMalloc_def)
  have r: "notify_request ob seq qos st =
      Some (if b1 \<and> b2 then (OC_STACK_OK, Some ((notification ob seq qos)\<lparr>sr_observeResult := OC_STACK_ERROR\<rparr>), st\<lparr>sv_mem := m2\<rparr>)
            else (OC_STACK_NO_MEMORY, None, st\<lparr>sv_mem := if b1 then m2 else m1\<rparr>))"
    using t nz c m unfolding notify_request_def AddServerRequest_def
    by (cases b1; cases b2; cases "ob_query ob")
      (simp_all add: request_token_def memcpy_from_def buf_read_def copied_eq notification_def)
  show ?thesis
  proof (cases "b1 \<and> b2")
    case True
    then show ?thesis using r a1 a2 L by (intro exI [of _ True] exI [of _ m2]) auto
  next
    case False
    moreover have "sv_mem st \<noteq> []" using False a1 a2 L by (auto simp: sizeof_OCServerRequest_def max_object_def)
    ultimately show ?thesis using r a1 a2 by (intro exI [of _ False] exI [of _ "if b1 then m2 else m1"]) auto
  qed
qed

text \<open>What sending may change besides the observers.\<close>

definition same_stack :: "server \<Rightarrow> server \<Rightarrow> bool" where
  "same_stack st st' \<longleftrightarrow> sv_resources st' = sv_resources st \<and> sv_presence st' = sv_presence st \<and> sv_mode st' = sv_mode st
     \<and> sv_fresh st' = sv_fresh st \<and> sv_clock st' = sv_clock st \<and> sv_answer st' = sv_answer st \<and> sv_random st' = sv_random st
     \<and> sv_draws st' = sv_draws st \<and> sv_told st' = sv_told st \<and> length (sv_mem st') \<le> length (sv_mem st)"

lemma same_stack_refl [simp]: "same_stack st st"
  by (simp add: same_stack_def)

lemma same_stack_trans: "same_stack st st1 \<Longrightarrow> same_stack st1 st2 \<Longrightarrow> same_stack st st2"
  by (simp add: same_stack_def)

text \<open>Nothing fails.\<close>

definition reliable :: "server \<Rightarrow> bool" where
  "reliable st \<longleftrightarrow> sv_mem st = [] \<and> (\<forall>k. sv_answer st k = OC_STACK_OK)"

definition attempt :: "server \<Rightarrow> sent \<Rightarrow> OCStackResult \<Rightarrow> server \<Rightarrow> bool" where
  "attempt st m result st' \<longleftrightarrow> same_stack st st'
     \<and> (sv_sent st' = sv_sent st @ [m] \<or> result \<noteq> OC_STACK_OK \<and> sv_sent st' = sv_sent st)
     \<and> (reliable st \<longrightarrow> result = OC_STACK_OK \<and> reliable st')"

lemma reset_ttl_ok:
  assumes wf: "sv_wf L st oss" and r: "r < length oss" and s: "oss ! r = xs @ (p, ob) # ys"
  shows "\<exists>ttl h. reset_ttl p st = Some (st\<lparr>sv_reads := Suc (sv_reads st), sv_nodes := h\<rparr>)
    \<and> sv_wf L (st\<lparr>sv_reads := Suc (sv_reads st), sv_nodes := h\<rparr>) (oss[r := xs @ (p, ob\<lparr>ob_TTL := ttl\<rparr>) # ys])"
proof -
  let ?st = "st\<lparr>sv_reads := Suc (sv_reads st)\<rparr>"
  let ?ttl = "ticks_after (sv_clock st (sv_reads st)) (MAX_OBSERVER_TTL_SECONDS * MILLISECONDS_PER_SECOND)"
  have wf': "sv_wf L ?st oss" by (rule sv_wf_cong [OF wf]) simp_all
  have "obs_ok L (ob\<lparr>ob_TTL := ?ttl\<rparr>)" using get_ok(2) [OF wf r s] by (simp add: obs_ok_def)
  from put_ok [OF wf' r s this] get_ok(1) [OF wf' r s] show ?thesis
    by (auto simp: reset_ttl_def GetTicks_def coap_ticks_def)
qed

lemma send_ok:
  assumes wf: "sv_wf L st oss" and r: "r < length oss" and s: "oss ! r = xs @ (p, ob) # ys"
  shows "\<exists>result ttl st'. SendObserveNotification p seq qos st = Some (result, st')
    \<and> sv_wf L st' (oss[r := xs @ (p, ob\<lparr>ob_TTL := ttl\<rparr>) # ys]) \<and> attempt st (Processed (notification ob seq qos)) result st'"
proof -
  note g = get_ok [OF wf r s]
  have same: "oss[r := xs @ (p, ob\<lparr>ob_TTL := ob_TTL ob\<rparr>) # ys] = oss" using s by (metis ResourceObserver.surjective ResourceObserver.update_convs(11) list_update_id)
  obtain b m where n: "notify_request ob seq qos st =
      Some (if b then (OC_STACK_OK, Some ((notification ob seq qos)\<lparr>sr_observeResult := OC_STACK_ERROR\<rparr>), st\<lparr>sv_mem := m\<rparr>)
            else (OC_STACK_NO_MEMORY, None, st\<lparr>sv_mem := m\<rparr>))"
    "length m \<le> length (sv_mem st)" "sv_mem st = [] \<longrightarrow> b \<and> m = []"
    using notify_request_ok [OF g(2)] by blast
  let ?m = "Processed (notification ob seq qos)"
  let ?a = "st\<lparr>sv_mem := m, sv_calls := Suc (sv_calls st)\<rparr>"
  let ?b = "st\<lparr>sv_mem := m, sv_sent := sv_sent st @ [?m], sv_calls := Suc (Suc (sv_calls st))\<rparr>"
  consider "\<not> b" | "b" "sv_answer st (sv_calls st) \<noteq> OC_STACK_OK" | "b" "sv_answer st (sv_calls st) = OC_STACK_OK" by blast
  then show ?thesis
  proof cases
    case 1
    then have "SendObserveNotification p seq qos st = Some (OC_STACK_NO_MEMORY, st\<lparr>sv_mem := m\<rparr>)"
      using g n by (simp add: SendObserveNotification_def)
    moreover have "sv_wf L (st\<lparr>sv_mem := m\<rparr>) oss" by (rule sv_wf_cong [OF wf]) simp_all
    moreover have "attempt st ?m OC_STACK_NO_MEMORY (st\<lparr>sv_mem := m\<rparr>)" using n 1 by (auto simp: attempt_def same_stack_def reliable_def)
    ultimately show ?thesis using same by metis
  next
    case 2
    then have "SendObserveNotification p seq qos st = Some (sv_answer st (sv_calls st), ?a)"
      using g n by (simp add: SendObserveNotification_def ask_def)
    moreover have "sv_wf L ?a oss" by (rule sv_wf_cong [OF wf]) simp_all
    moreover have "attempt st ?m (sv_answer st (sv_calls st)) ?a" using n 2 by (auto simp: attempt_def same_stack_def reliable_def)
    ultimately show ?thesis using same by metis
  next
    case 3
    have wf': "sv_wf L ?b oss" by (rule sv_wf_cong [OF wf]) simp_all
    obtain ttl h where t: "reset_ttl p ?b = Some (?b\<lparr>sv_reads := Suc (sv_reads ?b), sv_nodes := h\<rparr>)"
      "sv_wf L (?b\<lparr>sv_reads := Suc (sv_reads ?b), sv_nodes := h\<rparr>) (oss[r := xs @ (p, ob\<lparr>ob_TTL := ttl\<rparr>) # ys])"
      using reset_ttl_ok [OF wf' r s] by blast
    let ?c = "?b\<lparr>sv_reads := Suc (sv_reads ?b), sv_nodes := h\<rparr>"
    have "(notification ob seq qos)\<lparr>sr_observeResult := OC_STACK_OK\<rparr> = notification ob seq qos" by (simp add: notification_def)
    then have "SendObserveNotification p seq qos st = Some (sv_answer st (Suc (sv_calls st)), ?c)"
      using g n 3 t(1) by (simp add: SendObserveNotification_def ask_def send_def)
    moreover have "attempt st ?m (sv_answer st (Suc (sv_calls st))) ?c" using n 3 by (auto simp: attempt_def same_stack_def reliable_def)
    ultimately show ?thesis using t(2) by blast
  qed
qed


section \<open>Notifying all observers\<close>

text \<open>What a round of notifications decides for each observer, in order: the quality of service carries over.\<close>

fun plan :: "OCMethod \<Rightarrow> OCQualityOfService \<Rightarrow> obs \<Rightarrow> (OCQualityOfService \<times> addr \<times> ResourceObserver) list" where
  "plan m qos [] = []"
| "plan m qos ((p, ob) # os) = (case DetermineObserverQoS m ob qos of (q, ob') \<Rightarrow> (q, p, ob') # plan m q os)"

definition messages :: "u32 \<Rightarrow> (OCQualityOfService \<times> addr \<times> ResourceObserver) list \<Rightarrow> sent list" where
  "messages seq pl = map (\<lambda>(q, _, ob). Processed (notification ob seq q)) pl"

text \<open>Observers that differ in their time to live only.\<close>

definition upto_ttl :: "obs \<Rightarrow> obs \<Rightarrow> bool" where
  "upto_ttl = list_all2 (\<lambda>(p, a) (q, b). q = p \<and> (\<exists>t. b = a\<lparr>ob_TTL := t\<rparr>))"

lemma upto_ttl_simps [simp]: "upto_ttl [] ys \<longleftrightarrow> ys = []"
  "upto_ttl ((p, a) # xs) ys \<longleftrightarrow> (\<exists>t ys'. ys = (p, a\<lparr>ob_TTL := t\<rparr>) # ys' \<and> upto_ttl xs ys')"
  by (auto simp: upto_ttl_def list_all2_Cons1)

lemma ttl_same [simp]: "ob\<lparr>ob_TTL := ob_TTL ob\<rparr> = ob"
  by simp

lemma upto_ttl_refl [simp]: "upto_ttl os os"
proof (induction os)
  case (Cons x os)
  then show ?case by (cases x) (auto intro: exI [of _ "ob_TTL (snd x)"])
qed simp

lemma upto_ttl_trans: "upto_ttl xs ys \<Longrightarrow> upto_ttl ys zs \<Longrightarrow> upto_ttl xs zs"
proof (induction xs arbitrary: ys zs)
  case (Cons x xs)
  then show ?case by (cases x) fastforce
qed simp

lemma determine_ok:
  assumes "obs_ok L ob" and "m \<noteq> OC_REST_PRESENCE" and "DetermineObserverQoS m ob qos = (q, ob')"
  shows "obs_ok L ob'"
proof -
  have "ob_lowQosCount ob + 1 \<le> MAX_OBSERVER_NON_COUNT" if "\<not> MAX_OBSERVER_NON_COUNT \<le> ob_lowQosCount ob"
    using that by (simp add: inc_le)
  then show ?thesis using assms by (auto simp: DetermineObserverQoS_def obs_ok_def Let_def MAX_OBSERVER_NON_COUNT_def split: if_splits)
qed

lemma next_node:
  assumes "sv_wf L st oss" and "r < length oss" and "oss ! r = xs @ (p, x) # ys"
  obtains n where "sv_nodes st p = Some n" "nd_next n = ul_first ys"
  using rep_node [of "sv_nodes st" "head_of st r" xs p x ys] sv_wfD(2) [OF assms(1,2)] assms(3) by metis

lemma notify_one_ok:
  assumes wf: "sv_wf L st oss" and r: "r < length oss" and s: "oss ! r = xs @ (p, ob) # ys" and m: "m \<noteq> OC_REST_PRESENCE"
    and d: "DetermineObserverQoS m ob qos = (q, ob')"
  shows "\<exists>result ttl st'. notify_one m seq maxAge trigger rt p (qos, flag, res, st) = Some (Inr (q, flag \<or> result \<noteq> OC_STACK_OK, result, st'))
    \<and> sv_wf L st' (oss[r := xs @ (p, ob'\<lparr>ob_TTL := ttl\<rparr>) # ys]) \<and> attempt st (Processed (notification ob' seq q)) result st'"
proof -
  note g = get_ok [OF wf r s]
  obtain h where h: "put_obs p ob' st = Some (st\<lparr>sv_nodes := h\<rparr>)" "sv_wf L (st\<lparr>sv_nodes := h\<rparr>) (oss[r := xs @ (p, ob') # ys])"
    using put_ok [OF wf r s determine_ok [OF g(2) m d]] by blast
  have r': "r < length (oss[r := xs @ (p, ob') # ys])" and s': "oss[r := xs @ (p, ob') # ys] ! r = xs @ (p, ob') # ys" using r by simp_all
  obtain result ttl st' where w: "SendObserveNotification p seq q (st\<lparr>sv_nodes := h\<rparr>) = Some (result, st')"
    "sv_wf L st' (oss[r := xs @ (p, ob'\<lparr>ob_TTL := ttl\<rparr>) # ys])" "attempt (st\<lparr>sv_nodes := h\<rparr>) (Processed (notification ob' seq q)) result st'"
    using send_ok [OF h(2) r' s', of seq q] by auto
  have "notify_one m seq maxAge trigger rt p (qos, flag, res, st) = Some (Inr (q, flag \<or> result \<noteq> OC_STACK_OK, result, st'))"
    using m g(1) d h(1) w(1) by (simp add: notify_one_def)
  moreover have "attempt st (Processed (notification ob' seq q)) result st'" using w(3) by (simp add: attempt_def same_stack_def reliable_def)
  ultimately show ?thesis using w(2) by blast
qed

abbreviation loop_heap :: "notifying \<Rightarrow> ResourceObserver heap" where
  "loop_heap \<equiv> (\<lambda>(_, _, _, st). sv_nodes st)"

lemma notify_loop:
  assumes "sv_wf L st oss" and "r < length oss" and "oss ! r = xs @ os" and m: "m \<noteq> OC_REST_PRESENCE"
  shows "\<exists>q flag' res' st' os' ms. foreach loop_heap (notify_one m seq maxAge trigger rt) (ul_first os) (qos, flag, res, st)
      = Some (Inr (q, flag', res', st')) \<and> sv_wf L st' (oss[r := xs @ os']) \<and> upto_ttl (map snd (plan m qos os)) os'
    \<and> same_stack st st' \<and> sv_sent st' = sv_sent st @ ms \<and> subseq ms (messages seq (plan m qos os))
    \<and> (\<not> flag' \<longrightarrow> \<not> flag \<and> ms = messages seq (plan m qos os) \<and> res' = (if os = [] then res else OC_STACK_OK))
    \<and> (reliable st \<longrightarrow> flag' = flag \<and> reliable st')"
  using assms
proof (induction os arbitrary: st oss xs qos flag res)
  case Nil
  then show ?case
    by (subst foreach.simps) (auto simp: messages_def)
next
  case (Cons x os)
  obtain p ob where x: "x = (p, ob)" by fastforce
  obtain q ob' where d: "DetermineObserverQoS m ob qos = (q, ob')" by fastforce
  have s: "oss ! r = xs @ (p, ob) # os" using Cons.prems(3) x by simp
  obtain result ttl st1 where o: "notify_one m seq maxAge trigger rt p (qos, flag, res, st) = Some (Inr (q, flag \<or> result \<noteq> OC_STACK_OK, result, st1))"
    "sv_wf L st1 (oss[r := xs @ (p, ob'\<lparr>ob_TTL := ttl\<rparr>) # os])" "attempt st (Processed (notification ob' seq q)) result st1"
    using notify_one_ok [OF Cons.prems(1,2) s m d] by blast
  let ?oss = "oss[r := xs @ (p, ob'\<lparr>ob_TTL := ttl\<rparr>) # os]"
  have r': "r < length ?oss" and s': "?oss ! r = (xs @ [(p, ob'\<lparr>ob_TTL := ttl\<rparr>)]) @ os" using Cons.prems(2) by simp_all
  obtain n where n: "sv_nodes st1 p = Some n" "nd_next n = ul_first os"
    using next_node [OF o(2) r', of xs p "ob'\<lparr>ob_TTL := ttl\<rparr>" os] s' by auto
  obtain q2 flag2 res2 st2 os2 ms where l: "foreach loop_heap (notify_one m seq maxAge trigger rt) (ul_first os)
      (q, flag \<or> result \<noteq> OC_STACK_OK, result, st1) = Some (Inr (q2, flag2, res2, st2))"
    "sv_wf L st2 (?oss[r := (xs @ [(p, ob'\<lparr>ob_TTL := ttl\<rparr>)]) @ os2])" "upto_ttl (map snd (plan m q os)) os2"
    "same_stack st1 st2" "sv_sent st2 = sv_sent st1 @ ms" "subseq ms (messages seq (plan m q os))"
    "\<not> flag2 \<longrightarrow> \<not> (flag \<or> result \<noteq> OC_STACK_OK) \<and> ms = messages seq (plan m q os) \<and> res2 = (if os = [] then result else OC_STACK_OK)"
    "reliable st1 \<longrightarrow> flag2 = (flag \<or> result \<noteq> OC_STACK_OK) \<and> reliable st2"
    using Cons.IH [OF o(2) r' s' m, of q "flag \<or> result \<noteq> OC_STACK_OK" result] by blast
  let ?m = "Processed (notification ob' seq q)"
  have run: "foreach loop_heap (notify_one m seq maxAge trigger rt) (ul_first (x # os)) (qos, flag, res, st) = Some (Inr (q2, flag2, res2, st2))"
    by (subst foreach.simps) (simp add: x o(1) n l(1))
  have pl: "plan m qos (x # os) = (q, p, ob') # plan m q os" by (simp add: x d)
  have sent: "sv_sent st2 = sv_sent st @ (if sv_sent st1 = sv_sent st then ms else ?m # ms)"
    using o(3) l(5) by (auto simp: attempt_def)
  have "subseq (if sv_sent st1 = sv_sent st then ms else ?m # ms) (messages seq (plan m qos (x # os)))"
    using l(6) by (auto simp: pl messages_def)
  moreover have "\<not> flag2 \<longrightarrow> \<not> flag \<and> (if sv_sent st1 = sv_sent st then ms else ?m # ms) = messages seq (plan m qos (x # os))
      \<and> res2 = (if x # os = [] then res else OC_STACK_OK)"
    using l(7) o(3) by (auto simp: pl messages_def attempt_def)
  moreover have "reliable st \<longrightarrow> flag2 = flag \<and> reliable st2" using o(3) l(8) by (auto simp: attempt_def)
  moreover have "same_stack st st2" using o(3) l(4) same_stack_trans by (auto simp: attempt_def)
  moreover have "sv_wf L st2 (oss[r := xs @ (p, ob'\<lparr>ob_TTL := ttl\<rparr>) # os2])" using l(2) by simp
  moreover have "upto_ttl (map snd (plan m qos (x # os))) ((p, ob'\<lparr>ob_TTL := ttl\<rparr>) # os2)" using l(3) by (auto simp: pl)
  ultimately show ?case using run sent by blast
qed

lemma send_all_ok:
  assumes wf: "sv_wf L st oss" and r: "r < length oss" and ne: "oss ! r \<noteq> []" and m: "m \<noteq> OC_REST_PRESENCE"
  shows "\<exists>res st' os' ms. SendAllObserverNotification m (Some r) maxAge trigger rt qos st = Some (res, st')
    \<and> sv_wf L st' (oss[r := os']) \<and> upto_ttl (map snd (plan m qos (oss ! r))) os' \<and> same_stack st st'
    \<and> sv_sent st' = sv_sent st @ ms \<and> subseq ms (messages (rs_sequenceNum (sv_resources st ! r)) (plan m qos (oss ! r)))
    \<and> (res = OC_STACK_OK \<and> ms = messages (rs_sequenceNum (sv_resources st ! r)) (plan m qos (oss ! r)) \<or> res = OC_STACK_ERROR)
    \<and> (reliable st \<longrightarrow> res = OC_STACK_OK \<and> reliable st')"
proof -
  let ?seq = "rs_sequenceNum (sv_resources st ! r)"
  obtain q flag res st' os' ms where l: "foreach loop_heap (notify_one m ?seq maxAge trigger rt) (ul_first (oss ! r)) (qos, False, OC_STACK_ERROR, st)
      = Some (Inr (q, flag, res, st'))" "sv_wf L st' (oss[r := [] @ os'])" "upto_ttl (map snd (plan m qos (oss ! r))) os'"
    "same_stack st st'" "sv_sent st' = sv_sent st @ ms" "subseq ms (messages ?seq (plan m qos (oss ! r)))"
    "\<not> flag \<longrightarrow> \<not> False \<and> ms = messages ?seq (plan m qos (oss ! r)) \<and> res = (if oss ! r = [] then OC_STACK_ERROR else OC_STACK_OK)"
    "reliable st \<longrightarrow> flag = False \<and> reliable st'"
    using notify_loop [OF wf r append_Nil [symmetric] m, of ?seq maxAge trigger rt qos False OC_STACK_ERROR] by blast
  obtain a where "ul_first (oss ! r) = Some a" using ne by (cases "oss ! r") auto
  then have "SendAllObserverNotification m (Some r) maxAge trigger rt qos st = Some (if flag then OC_STACK_ERROR else res, st')"
    using wf_heads [OF wf r] l(1) by (simp add: SendAllObserverNotification_def case_prod_beta)
  then show ?thesis using l ne by (cases flag) auto
qed


section \<open>Searching\<close>

text \<open>
  A search returns the first hit; to the observers before it that timed out it sends a confirmable
  notification, and their time to live may change.
\<close>

definition reminded :: "server \<Rightarrow> server \<Rightarrow> bool" where
  "reminded st st' \<longleftrightarrow> same_stack st st' \<and> (reliable st \<longrightarrow> reliable st')
     \<and> (\<exists>ms. sv_sent st' = sv_sent st @ ms \<and> (\<forall>m\<in>set ms. \<exists>rq. m = Processed rq \<and> sr_qos rq = OC_HIGH_QOS))"

lemma reminded_refl [simp]: "reminded st st"
  by (simp add: reminded_def)

lemma reminded_trans: "reminded st st1 \<Longrightarrow> reminded st1 st2 \<Longrightarrow> reminded st st2"
  by (fastforce simp: reminded_def same_stack_def)

lemma check_timed_out_ok:
  assumes wf: "sv_wf L st oss" and r: "r < length oss" and s: "oss ! r = xs @ (p, ob) # ys"
  shows "\<exists>ttl st'. CheckTimedOutObserver p r st = Some st' \<and> sv_wf L st' (oss[r := xs @ (p, ob\<lparr>ob_TTL := ttl\<rparr>) # ys])
    \<and> reminded st st'"
proof -
  note g = get_ok [OF wf r s]
  have same: "oss[r := xs @ (p, ob\<lparr>ob_TTL := ob_TTL ob\<rparr>) # ys] = oss"
    using s by (metis ResourceObserver.surjective ResourceObserver.update_convs(11) list_update_id)
  let ?st = "st\<lparr>sv_reads := Suc (sv_reads st)\<rparr>"
  have wf': "sv_wf L ?st oss" by (rule sv_wf_cong [OF wf]) simp_all
  have stay: "reminded st ?st" by (simp add: reminded_def same_stack_def reliable_def)
  consider "ob_TTL ob = 0" | "ob_TTL ob \<noteq> 0" "\<not> ob_TTL ob < sv_clock st (sv_reads st)" | "ob_TTL ob \<noteq> 0" "ob_TTL ob < sv_clock st (sv_reads st)" by blast
  then show ?thesis
  proof cases
    case 1
    then have "CheckTimedOutObserver p r st = Some st" using g by (simp add: CheckTimedOutObserver_def)
    then show ?thesis using wf same by (metis reminded_refl)
  next
    case 2
    then have "CheckTimedOutObserver p r st = Some ?st" using g by (simp add: CheckTimedOutObserver_def coap_ticks_def)
    then show ?thesis using wf' same stay by metis
  next
    case 3
    obtain result ttl st' where w: "SendObserveNotification p (rs_sequenceNum (sv_resources st ! r)) OC_HIGH_QOS ?st = Some (result, st')"
      "sv_wf L st' (oss[r := xs @ (p, ob\<lparr>ob_TTL := ttl\<rparr>) # ys])"
      "attempt ?st (Processed (notification ob (rs_sequenceNum (sv_resources st ! r)) OC_HIGH_QOS)) result st'"
      using send_ok [OF wf' r s] by blast
    have "CheckTimedOutObserver p r st = Some st'"
      using g 3 w(1) wf_heads(1) [OF wf r] by (simp add: CheckTimedOutObserver_def coap_ticks_def)
    moreover have "reminded ?st st'" using w(3) by (auto simp: attempt_def reminded_def notification_def)
    ultimately show ?thesis using w(2) reminded_trans [OF stay] by blast
  qed
qed

text \<open>A test of an observer that does not look at its time to live.\<close>

definition tests_obs :: "(ResourceObserver \<Rightarrow> bool option) \<Rightarrow> (ResourceObserver \<Rightarrow> bool) \<Rightarrow> obs \<Rightarrow> bool" where
  "tests_obs hit P os \<longleftrightarrow> (\<forall>x\<in>set os. hit (snd x) = Some (P (snd x)))"

lemma obs_search_loop:
  assumes "sv_wf L st oss" and "r < length oss" and "oss ! r = xs @ os" and "tests_obs hit P os"
  shows "\<exists>st' os'. foreach sv_nodes (search_step hit r) (ul_first os) st
      = Some (case find (P \<circ> snd) os of None \<Rightarrow> Inr st' | Some x \<Rightarrow> Inl (fst x, st'))
    \<and> sv_wf L st' (oss[r := xs @ os']) \<and> upto_ttl os os' \<and> reminded st st'"
  using assms
proof (induction os arbitrary: st oss xs)
  case Nil
  then show ?case by (subst foreach.simps) auto
next
  case (Cons x os)
  obtain p ob where x: "x = (p, ob)" by fastforce
  have s: "oss ! r = xs @ (p, ob) # os" using Cons.prems(3) x by simp
  note g = get_ok [OF Cons.prems(1,2) s]
  have h: "hit ob = Some (P ob)" "tests_obs hit P os" using Cons.prems(4) x by (simp_all add: tests_obs_def)
  obtain n where n: "sv_nodes st p = Some n" using next_node [OF Cons.prems(1,2) s] by metis
  show ?case
  proof (cases "P ob")
    case True
    have "foreach sv_nodes (search_step hit r) (ul_first (x # os)) st = Some (Inl (p, st))"
      by (subst foreach.simps) (simp add: x search_step_def g(1) h(1) True)
    moreover have "upto_ttl (x # os) (x # os)" by (rule upto_ttl_refl)
    moreover have "sv_wf L st (oss[r := xs @ x # os])" using Cons.prems(1,3) by (metis list_update_id)
    ultimately show ?thesis using True x by (intro exI [of _ st] exI [of _ "x # os"]) simp
  next
    case False
    obtain ttl st1 where c: "CheckTimedOutObserver p r st = Some st1" "sv_wf L st1 (oss[r := xs @ (p, ob\<lparr>ob_TTL := ttl\<rparr>) # os])" "reminded st st1"
      using check_timed_out_ok [OF Cons.prems(1,2) s] by blast
    let ?oss = "oss[r := xs @ (p, ob\<lparr>ob_TTL := ttl\<rparr>) # os]"
    have r': "r < length ?oss" and s': "?oss ! r = (xs @ [(p, ob\<lparr>ob_TTL := ttl\<rparr>)]) @ os" using Cons.prems(2) by simp_all
    obtain n1 where n1: "sv_nodes st1 p = Some n1" "nd_next n1 = ul_first os"
      using next_node [OF c(2) r', of xs p "ob\<lparr>ob_TTL := ttl\<rparr>" os] s' by auto
    obtain st' os' where l: "foreach sv_nodes (search_step hit r) (ul_first os) st1
        = Some (case find (P \<circ> snd) os of None \<Rightarrow> Inr st' | Some x \<Rightarrow> Inl (fst x, st'))"
      "sv_wf L st' (?oss[r := (xs @ [(p, ob\<lparr>ob_TTL := ttl\<rparr>)]) @ os'])" "upto_ttl os os'" "reminded st1 st'"
      using Cons.IH [OF c(2) r' s' h(2)] by blast
    have "foreach sv_nodes (search_step hit r) (ul_first (x # os)) st
        = Some (case find (P \<circ> snd) os of None \<Rightarrow> Inr st' | Some x \<Rightarrow> Inl (fst x, st'))"
      by (subst foreach.simps) (simp add: x search_step_def g(1) h(1) False c(1) n1 l(1))
    moreover have "sv_wf L st' (oss[r := xs @ (p, ob\<lparr>ob_TTL := ttl\<rparr>) # os'])" using l(2) by simp
    moreover have "upto_ttl (x # os) ((p, ob\<lparr>ob_TTL := ttl\<rparr>) # os')" using l(3) x by auto
    moreover have "find (P \<circ> snd) (x # os) = find (P \<circ> snd) os" using False x by simp
    ultimately show ?thesis using reminded_trans [OF c(3) l(4)] by metis
  qed
qed

lemma search_obs_ok:
  assumes wf: "sv_wf L st oss" and r: "r < length oss" and t: "tests_obs hit P (oss ! r)"
  shows "\<exists>st' os'. search_obs hit r st = Some (map_option fst (find (P \<circ> snd) (oss ! r)), st')
    \<and> sv_wf L st' (oss[r := os']) \<and> upto_ttl (oss ! r) os' \<and> reminded st st'"
proof -
  obtain st' os' where l: "foreach sv_nodes (search_step hit r) (ul_first (oss ! r)) st
      = Some (case find (P \<circ> snd) (oss ! r) of None \<Rightarrow> Inr st' | Some x \<Rightarrow> Inl (fst x, st'))"
    "sv_wf L st' (oss[r := [] @ os'])" "upto_ttl (oss ! r) os'" "reminded st st'"
    using obs_search_loop [OF wf r append_Nil [symmetric] t] by blast
  have "search_obs hit r st = Some (map_option fst (find (P \<circ> snd) (oss ! r)), st')"
    using wf_heads [OF wf r] l(1) by (simp add: search_obs_def split: option.splits)
  then show ?thesis using l by auto
qed

lemma id_search_ok:
  assumes "sv_wf L st oss" and "r < length oss"
  shows "\<exists>st' os'. GetObserverUsingId r i st = Some (map_option fst (find (\<lambda>x. ob_observeId (snd x) = i) (oss ! r)), st')
    \<and> sv_wf L st' (oss[r := os']) \<and> upto_ttl (oss ! r) os' \<and> reminded st st'"
  using search_obs_ok [OF assms, of "\<lambda>ob. Some (ob_observeId ob = i)" "\<lambda>ob. ob_observeId ob = i"]
  by (simp add: GetObserverUsingId_def tests_obs_def comp_def)

lemma token_search_ok:
  assumes "sv_wf L st oss" and "r < length oss" and "unat n = L" and "length t = L"
  shows "\<exists>st' os'. GetObserverUsingToken r (Some t) n st = Some (map_option fst (find (\<lambda>x. ob_token (snd x) = Some t) (oss ! r)), st')
    \<and> sv_wf L st' (oss[r := os']) \<and> upto_ttl (oss ! r) os' \<and> reminded st st'"
proof -
  have "token_match t n (snd x) = Some (ob_token (snd x) = Some t)" if x: "x \<in> set (oss ! r)" for x
  proof -
    obtain u where "ob_token (snd x) = Some u" "length u = L"
      using bspec [OF wf_all [OF assms(1,2)] x] by (auto simp: obs_ok_def)
    then show ?thesis using assms(3,4) by (simp add: token_match_def mem_eq_def)
  qed
  then have "tests_obs (token_match t n) (\<lambda>ob. ob_token ob = Some t) (oss ! r)" by (simp add: tests_obs_def)
  from search_obs_ok [OF assms(1,2) this] show ?thesis by (simp add: GetObserverUsingToken_def comp_def)
qed

end
