(* ===== verification/ObserverRegistry.thy ===== *)
theory ObserverRegistry
  imports ObserverList
begin

text \<open>
  Registering and deregistering observers and the feedback about them, on the sequences of observers
  of ObserverList.
\<close>

section \<open>Adding and removing\<close>

lemma set_head_fields [simp]:
  "sv_nodes (set_head r h st) = sv_nodes st" "sv_fresh (set_head r h st) = sv_fresh st" "sv_sent (set_head r h st) = sv_sent st"
  "sv_told (set_head r h st) = sv_told st" "sv_mem (set_head r h st) = sv_mem st" "sv_answer (set_head r h st) = sv_answer st"
  "length (sv_resources (set_head r h st)) = length (sv_resources st)"
  by (simp_all add: set_head_def)

lemma head_of_set [simp]:
  "r < length (sv_resources st) \<Longrightarrow> head_of (set_head r h st) r = h" "s \<noteq> r \<Longrightarrow> head_of (set_head r h st) s = head_of st s"
  by (simp_all add: head_of_def set_head_def)

lemma head_of_nodes [simp]:
  "head_of (st\<lparr>sv_nodes := h\<rparr>) r = head_of st r" "head_of (st\<lparr>sv_nodes := h, sv_fresh := f\<rparr>) r = head_of st r"
  by (simp_all add: head_of_def)

text \<open>Operations on the observers leave the resources alone, apart from the lists.\<close>

definition same_res :: "server \<Rightarrow> server \<Rightarrow> bool" where
  "same_res st st' \<longleftrightarrow> map (rs_observersHead_update Map.empty) (sv_resources st') = map (rs_observersHead_update Map.empty) (sv_resources st)
     \<and> sv_clock st' = sv_clock st \<and> sv_answer st' = sv_answer st \<and> sv_random st' = sv_random st"

lemma same_res_refl [simp]: "same_res st st"
  by (simp add: same_res_def)

lemma same_res_trans: "same_res st st1 \<Longrightarrow> same_res st1 st2 \<Longrightarrow> same_res st st2"
  by (simp add: same_res_def)

lemma same_stack_res: "same_stack st st' \<Longrightarrow> same_res st st'"
  by (simp add: same_res_def same_stack_def)

lemma reminded_res: "reminded st st' \<Longrightarrow> same_res st st'"
  by (simp add: reminded_def same_stack_res)

lemma same_res_head: "r < length (sv_resources st) \<Longrightarrow> same_res st (set_head r h st)"
  by (simp add: same_res_def set_head_def map_update list_update_same_conv)

lemma same_res_nth:
  assumes "same_res st st'"
  shows "length (sv_resources st') = length (sv_resources st)"
    "r < length (sv_resources st) \<Longrightarrow> rs_uri (sv_resources st' ! r) = rs_uri (sv_resources st ! r)
       \<and> rs_resourceProperties (sv_resources st' ! r) = rs_resourceProperties (sv_resources st ! r)
       \<and> rs_entityHandler (sv_resources st' ! r) = rs_entityHandler (sv_resources st ! r)
       \<and> rs_sequenceNum (sv_resources st' ! r) = rs_sequenceNum (sv_resources st ! r)"
proof -
  let ?f = "rs_observersHead_update Map.empty"
  have m: "map ?f (sv_resources st') = map ?f (sv_resources st)" using assms by (simp add: same_res_def)
  then show len: "length (sv_resources st') = length (sv_resources st)" by (rule map_eq_imp_length_eq)
  assume r: "r < length (sv_resources st)"
  then have "?f (sv_resources st' ! r) = ?f (sv_resources st ! r)" using m len by (metis nth_map)
  then show "rs_uri (sv_resources st' ! r) = rs_uri (sv_resources st ! r)
       \<and> rs_resourceProperties (sv_resources st' ! r) = rs_resourceProperties (sv_resources st ! r)
       \<and> rs_entityHandler (sv_resources st' ! r) = rs_entityHandler (sv_resources st ! r)
       \<and> rs_sequenceNum (sv_resources st' ! r) = rs_sequenceNum (sv_resources st ! r)"
    by (metis OCResource.select_convs(1,2,3,5) OCResource.surjective OCResource.update_convs(4))
qed

lemma unlink_ok:
  assumes wf: "sv_wf L st oss" and r: "r < length oss" and s: "oss ! r = xs @ (p, ob) # ys"
  shows "\<exists>h head. unlink_observer r p st = Some (set_head r head (st\<lparr>sv_nodes := h\<rparr>))
    \<and> sv_wf L (set_head r head (st\<lparr>sv_nodes := h\<rparr>)) (oss[r := xs @ ys])"
proof -
  note d = sv_wfD [OF wf]
  have rep: "ul_rep (sv_nodes st) (head_of st r) (xs @ (p, ob) # ys)" using d(2) [OF r] s by simp
  have r': "r < length (sv_resources st)" using d(1) r by simp
  obtain h head where del: "LL_DELETE (sv_nodes st, head_of st r) p = Some (h, head)" "ul_rep h head (xs @ ys)" "same_nodes (sv_nodes st) h"
    "\<forall>q. q \<notin> fst ` set (xs @ ys) \<longrightarrow> h q = sv_nodes st q"
    using LL_DELETE_frame [OF rep] by blast
  let ?st = "set_head r head (st\<lparr>sv_nodes := h(p := None)\<rparr>)"
  have run: "unlink_observer r p st = Some ?st"
    using wf_heads(1) [OF wf r] del(1) by (simp add: unlink_observer_def head_of_def)
  have dist: "distinct (map fst (xs @ (p, ob) # ys))" using wf_distinct [OF wf r] s by simp
  have np: "p \<notin> fst ` set (xs @ ys)" using dist by auto
  have "sv_wf L ?st (oss[r := xs @ ys])"
  proof (rule sv_wf_update [OF wf r])
    show "ul_rep (sv_nodes ?st) (head_of ?st r) (xs @ ys)"
      using rep_upd_other [OF del(2) np] r' by simp
    show "\<forall>y\<in>set (xs @ ys). obs_ok L (snd y)" using wf_all [OF wf r, unfolded s] by (simp add: ball_Un)
    show "distinct (map fst (xs @ ys))" using dist by simp
    show "fst ` set (xs @ ys) \<inter> fst ` set (concat (take r oss) @ concat (drop (Suc r) oss)) = {}"
      by (rule wf_apart [OF wf r]) (auto simp: s)
    show "sv_nodes ?st a = None" if "sv_fresh ?st \<le> a" for a
      using that d(5) [of a] same_nodesD(2) [OF del(3), of a] by simp
    show "sv_nodes ?st q = sv_nodes st q" if "t < length oss" "t \<noteq> r" "(q, y) \<in> set (oss ! t)" for t q y
    proof -
      have "q \<in> fst ` set (oss ! t)" using that(3) by (rule rev_image_eqI) simp
      then have "q \<notin> fst ` set (oss ! r)" using distinct_concat_apart [OF d(3) that(1) r that(2)] by blast
      then show ?thesis using del(4) s by simp
    qed
  qed (use r' in simp_all)
  then show ?thesis using run by blast
qed

lemma link_ok:
  assumes wf: "sv_wf L st oss" and r: "r < length oss" and ok: "obs_ok L ob"
  shows "\<exists>h head. link_observer r ob st = Some (set_head r head (st\<lparr>sv_nodes := h, sv_fresh := Suc (sv_fresh st)\<rparr>))
    \<and> sv_wf L (set_head r head (st\<lparr>sv_nodes := h, sv_fresh := Suc (sv_fresh st)\<rparr>)) (oss[r := oss ! r @ [(sv_fresh st, ob)]])"
proof -
  note d = sv_wfD [OF wf]
  let ?p = "sv_fresh st"
  let ?h0 = "(sv_nodes st)(?p \<mapsto> \<lparr>nd_data = ob, nd_next = None\<rparr>)"
  have r': "r < length (sv_resources st)" using d(1) r by simp
  have new: "?p \<notin> fst ` set (oss ! t)" if t: "t < length oss" for t
  proof
    assume "?p \<in> fst ` set (oss ! t)"
    then obtain y where "(?p, y) \<in> set (oss ! t)" by force
    then have "sv_nodes st ?p \<noteq> None" using rep_data [OF d(2) [OF t]] by force
    then show False using d(5) [of ?p] by simp
  qed
  have rep: "ul_rep ?h0 (head_of st r) (oss ! r)" by (rule rep_upd_other [OF d(2) [OF r] new [OF r]])
  obtain h head where app: "LL_APPEND (?h0, head_of st r) ?p = Some (h, head)" "ul_rep h head (oss ! r @ [(?p, ob)])"
    "same_nodes ?h0 h" "\<forall>q. q \<noteq> ?p \<and> q \<notin> fst ` set (oss ! r) \<longrightarrow> h q = ?h0 q"
    using LL_APPEND_frame [OF rep new [OF r], of "\<lparr>nd_data = ob, nd_next = None\<rparr>"] by auto
  let ?st = "set_head r head (st\<lparr>sv_nodes := h, sv_fresh := Suc ?p\<rparr>)"
  have run: "link_observer r ob st = Some ?st"
    using wf_heads(1) [OF wf r] app(1) by (simp add: link_observer_def head_of_def Let_def)
  have "sv_wf L ?st (oss[r := oss ! r @ [(?p, ob)]])"
  proof (rule sv_wf_update [OF wf r])
    show "ul_rep (sv_nodes ?st) (head_of ?st r) (oss ! r @ [(?p, ob)])" using app(2) r' by simp
    show "\<forall>y\<in>set (oss ! r @ [(?p, ob)]). obs_ok L (snd y)" using wf_all [OF wf r] ok by (simp add: ball_Un)
    show "distinct (map fst (oss ! r @ [(?p, ob)]))" using wf_distinct [OF wf r] new [OF r] by simp
    have "?p \<notin> fst ` set (concat oss)"
      using new by (metis (no_types, lifting) UN_E image_iff in_set_conv_nth set_concat)
    then have "?p \<notin> fst ` set (concat (take r oss) @ concat (drop (Suc r) oss))" using concat_nth [OF r] by (metis Un_iff image_Un set_append)
    then show "fst ` set (oss ! r @ [(?p, ob)]) \<inter> fst ` set (concat (take r oss) @ concat (drop (Suc r) oss)) = {}"
      using wf_apart [OF wf r, of "oss ! r"] by auto
    show "sv_nodes ?st a = None" if "sv_fresh ?st \<le> a" for a
      using that d(5) [of a] same_nodesD(2) [OF app(3), of a] by simp
    show "sv_nodes ?st q = sv_nodes st q" if "t < length oss" "t \<noteq> r" "(q, y) \<in> set (oss ! t)" for t q y
    proof -
      have "q \<in> fst ` set (oss ! t)" using that(3) by (rule rev_image_eqI) simp
      then have "q \<noteq> ?p" "q \<notin> fst ` set (oss ! r)"
        using new [OF that(1)] distinct_concat_apart [OF d(3) that(1) r that(2)] by blast+
      then show ?thesis using app(4) by simp
    qed
  qed (use r' in simp_all)
  then show ?thesis using run by blast
qed


section \<open>Removing by token\<close>

fun drop_first :: "('a \<Rightarrow> bool) \<Rightarrow> 'a list \<Rightarrow> 'a list" where
  "drop_first P [] = []"
| "drop_first P (x # xs) = (if P x then xs else x # drop_first P xs)"

lemma find_split:
  assumes "find P xs = Some x"
  obtains ys zs where "xs = ys @ x # zs" "P x" "drop_first P xs = ys @ zs"
proof -
  have "\<exists>ys zs. xs = ys @ x # zs \<and> P x \<and> drop_first P xs = ys @ zs" using assms
  proof (induction xs)
    case (Cons y xs)
    show ?case
    proof (cases "P y")
      case True
      then show ?thesis using Cons.prems by (intro exI [of _ "[]"] exI [of _ xs]) auto
    next
      case False
      then obtain ys zs where "xs = ys @ x # zs \<and> P x \<and> drop_first P xs = ys @ zs" using Cons by auto
      then have "y # xs = (y # ys) @ x # zs \<and> P x \<and> drop_first P (y # xs) = (y # ys) @ zs" using False by auto
      then show ?thesis by blast
    qed
  qed simp
  then show ?thesis using that by blast
qed

lemma drop_first_none: "find P xs = None \<Longrightarrow> drop_first P xs = xs"
  by (induction xs) (auto split: if_splits)

lemma upto_ttl_split:
  assumes "upto_ttl (xs @ (p, ob) # ys) zs"
  obtains xs' t ys' where "zs = xs' @ (p, ob\<lparr>ob_TTL := t\<rparr>) # ys'" "upto_ttl (xs @ ys) (xs' @ ys')"
proof -
  have "\<exists>xs' t ys'. zs = xs' @ (p, ob\<lparr>ob_TTL := t\<rparr>) # ys' \<and> upto_ttl (xs @ ys) (xs' @ ys')" using assms
  proof (induction xs arbitrary: zs)
    case Nil
    then show ?case by (intro exI [of _ "[]"]) auto
  next
    case (Cons x xs)
    obtain q a where x: "x = (q, a)" by fastforce
    obtain t zs' where z: "zs = (q, a\<lparr>ob_TTL := t\<rparr>) # zs'" "upto_ttl (xs @ (p, ob) # ys) zs'" using Cons.prems x by auto
    from Cons.IH [OF z(2)] obtain xs' t' ys' where "zs' = xs' @ (p, ob\<lparr>ob_TTL := t'\<rparr>) # ys'" "upto_ttl (xs @ ys) (xs' @ ys')" by blast
    then show ?case using z(1) x by (intro exI [of _ "(q, a\<lparr>ob_TTL := t\<rparr>) # xs'"] exI [of _ t'] exI [of _ ys']) auto
  qed
  then show ?thesis using that by blast
qed

definition has_token :: "u8 list \<Rightarrow> addr \<times> ResourceObserver \<Rightarrow> bool" where
  "has_token t x \<longleftrightarrow> ob_token (snd x) = Some t"

text \<open>Sending only, at most to observers that timed out.\<close>

definition only_reminders :: "server \<Rightarrow> server \<Rightarrow> bool" where
  "only_reminders st st' \<longleftrightarrow> same_res st st' \<and> (reliable st \<longrightarrow> reliable st')
     \<and> (\<exists>ms. sv_sent st' = sv_sent st @ ms \<and> (\<forall>m\<in>set ms. \<exists>rq. m = Processed rq \<and> sr_qos rq = OC_HIGH_QOS))"

lemma reminded_only: "reminded st st' \<Longrightarrow> only_reminders st st'"
  by (simp add: only_reminders_def reminded_def same_stack_res)

lemma only_refl [simp]: "only_reminders st st"
  by (simp add: only_reminders_def)

lemma only_trans: "only_reminders st st1 \<Longrightarrow> only_reminders st1 st2 \<Longrightarrow> only_reminders st st2"
  by (fastforce simp: only_reminders_def intro: same_res_trans)

lemma delete_token_ok:
  assumes wf: "sv_wf L st oss" and r: "r < length oss" and t: "unat n = L" "length t = L"
  shows "\<exists>st' os'. DeleteObserverUsingToken r (Some t) n st = Some (OC_STACK_OK, st') \<and> sv_wf L st' (oss[r := os'])
    \<and> upto_ttl (drop_first (has_token t) (oss ! r)) os' \<and> only_reminders st st' \<and> sv_told st' = sv_told st"
proof -
  obtain st1 os1 where g: "GetObserverUsingToken r (Some t) n st = Some (map_option fst (find (has_token t) (oss ! r)), st1)"
    "sv_wf L st1 (oss[r := os1])" "upto_ttl (oss ! r) os1" "reminded st st1"
    using token_search_ok [OF wf r t] by (auto simp: has_token_def [abs_def])
  show ?thesis
  proof (cases "find (has_token t) (oss ! r)")
    case None
    then have "DeleteObserverUsingToken r (Some t) n st = Some (OC_STACK_OK, st1)" using g(1) by (simp add: DeleteObserverUsingToken_def)
    then show ?thesis using g reminded_only drop_first_none [OF None] by (auto simp: reminded_def same_stack_def)
  next
    case (Some x)
    obtain p ob where x: "x = (p, ob)" by fastforce
    obtain ys zs where sp: "oss ! r = ys @ (p, ob) # zs" "drop_first (has_token t) (oss ! r) = ys @ zs"
      using find_split [OF Some] x by metis
    obtain ys' ttl zs' where sp': "os1 = ys' @ (p, ob\<lparr>ob_TTL := ttl\<rparr>) # zs'" "upto_ttl (ys @ zs) (ys' @ zs')"
      using upto_ttl_split [of ys p ob zs os1] g(3) sp(1) by metis
    have r1: "r < length (oss[r := os1])" and s1: "oss[r := os1] ! r = ys' @ (p, ob\<lparr>ob_TTL := ttl\<rparr>) # zs'" using r sp'(1) by simp_all
    obtain h head where u: "unlink_observer r p st1 = Some (set_head r head (st1\<lparr>sv_nodes := h\<rparr>))"
      "sv_wf L (set_head r head (st1\<lparr>sv_nodes := h\<rparr>)) (oss[r := ys' @ zs'])"
      using unlink_ok [OF g(2) r1 s1] by auto
    let ?st = "set_head r head (st1\<lparr>sv_nodes := h\<rparr>)"
    have "DeleteObserverUsingToken r (Some t) n st = Some (OC_STACK_OK, ?st)"
      using g(1) Some x u(1) by (simp add: DeleteObserverUsingToken_def)
    moreover have "only_reminders st1 ?st"
      using sv_wfD(1) [OF g(2)] r
      by (auto simp: only_reminders_def reliable_def same_res_def set_head_def map_update list_update_same_conv)
    moreover have "sv_told ?st = sv_told st" using g(4) by (simp add: reminded_def same_stack_def)
    ultimately show ?thesis using u(2) sp(2) sp'(2) only_trans [OF reminded_only [OF g(4)]] by metis
  qed
qed


section \<open>Adding\<close>

definition new_observer ::
  "string \<Rightarrow> string option \<Rightarrow> u8 \<Rightarrow> u8 list \<Rightarrow> u8 \<Rightarrow> OCQualityOfService \<Rightarrow> OCPayloadFormat \<Rightarrow> u16 \<Rightarrow> OCDevAddr \<Rightarrow> u32 \<Rightarrow> ResourceObserver" where
  "new_observer uri query i t n qos af av dev ttl = \<lparr>ob_observeId = i, ob_resUri = uri, ob_query = query, ob_token = Some t,
     ob_tokenLength = n, ob_devAddr = dev, ob_qos = qos, ob_failedCommCount = 0, ob_lowQosCount = 0, ob_forceHighQos = 0,
     ob_TTL = ttl, ob_acceptFormat = af, ob_acceptVersion = av\<rparr>"

definition short :: "string \<Rightarrow> bool" where
  "short s \<longleftrightarrow> length s < max_object"

lemma strdup_ok:
  "\<exists>m'. OICStrdup m (Some s) = (Some s, m') \<and> (m = [] \<longrightarrow> m' = []) \<or> OICStrdup m (Some s) = (None, m') \<and> \<not> (m = [] \<and> short s)"
proof (cases "OICMalloc m (length s + 1)")
  case (Pair b m')
  then have "OICStrdup m (Some s) = (if b then Some s else None, m')" by (simp add: OICStrdup_def split: bool.splits)
  moreover have "m = [] \<longrightarrow> m' = [] \<and> (short s \<longrightarrow> b)" using Pair by (auto simp: OICMalloc_def short_def)
  ultimately show ?thesis by (cases b) auto
qed

lemma copies_ok:
  assumes "unat n = length t" and "0 < length t"
  shows "\<exists>m'. copies uri query t n m = Some (Inr (uri, query, Some t, m')) \<and> (m = [] \<longrightarrow> m' = [])
    \<or> copies uri query t n m = Some (Inl m') \<and> \<not> (m = [] \<and> short uri \<and> (\<forall>q. query = Some q \<longrightarrow> short q))"
proof -
  have tok: "\<exists>m'. copy_token t n m = Some (Inr (Some t, m')) \<and> (m = [] \<longrightarrow> m' = []) \<or> copy_token t n m = Some (Inl m') \<and> m \<noteq> []" for m
  proof -
    have n: "n \<noteq> 0" using assms by auto
    have "length t \<le> max_object" using assms(1) unsigned_less [where ?'a = nat, of n] by (simp add: max_object_def)
    obtain b m' where a: "OICMalloc m (length t) = (b, m')" by fastforce
    then have "m = [] \<longrightarrow> b \<and> m' = []" using assms(2) \<open>length t \<le> max_object\<close> by (auto simp: OICMalloc_def)
    then show ?thesis using a n assms(1) by (cases b) (auto simp: copy_token_def buf_read_def)
  qed
  have qry: "\<exists>m'. copy_query query m = Inr (query, m') \<and> (m = [] \<longrightarrow> m' = [])
      \<or> copy_query query m = Inl m' \<and> \<not> (m = [] \<and> (\<forall>q. query = Some q \<longrightarrow> short q))" for m
  proof (cases query)
    case (Some q)
    then show ?thesis using strdup_ok [of m q] by (auto simp: copy_query_def)
  qed (simp add: copy_query_def)
  consider m1 where "OICStrdup m (Some uri) = (Some uri, m1)" "m = [] \<longrightarrow> m1 = []"
    | m1 where "OICStrdup m (Some uri) = (None, m1)" "\<not> (m = [] \<and> short uri)"
    using strdup_ok [of m uri] by blast
  then show ?thesis
  proof cases
    case (1 m1)
    show ?thesis
    proof (cases "copy_query query m1")
      case (Inl m2)
      then show ?thesis using 1 qry [of m1] by (auto simp: copies_def)
    next
      case (Inr x)
      then obtain m2 where m2: "copy_query query m1 = Inr (query, m2)" "m1 = [] \<longrightarrow> m2 = []" using qry [of m1] by auto
      then show ?thesis using 1 tok [of m2] by (auto simp: copies_def)
    qed
  next
    case (2 m1)
    then show ?thesis by (auto simp: copies_def)
  qed
qed

lemma add_observer_ok:
  assumes wf: "sv_wf L st oss" and r: "r < length oss" and t: "unat n = L" "length t = L" "0 < L"
    and p: "rs_resourceProperties (sv_resources st ! r) AND OC_OBSERVABLE \<noteq> 0"
  shows "\<exists>result st'. AddObserver (Some uri) query i (Some t) n (Some r) qos af av dev st = Some (result, st') \<and> same_res st st'
    \<and> sv_sent st' = sv_sent st \<and> sv_told st' = sv_told st
    \<and> (result = OC_STACK_OK \<and> (\<exists>ttl. sv_wf L st' (oss[r := oss ! r @ [(sv_fresh st, new_observer uri query i t n qos af av dev ttl)]]))
         \<and> (reliable st \<longrightarrow> reliable st')
       \<or> result = OC_STACK_NO_MEMORY \<and> sv_wf L st' oss \<and> \<not> (reliable st \<and> short uri \<and> (\<forall>q. query = Some q \<longrightarrow> short q)))"
proof -
  obtain b m where c: "OICCalloc (sv_mem st) 1 sizeof_ResourceObserver = (b, m)" by fastforce
  then have c': "sv_mem st = [] \<longrightarrow> b \<and> m = []" by (auto simp: OICCalloc_def sizeof_ResourceObserver_def max_object_def)
  have res: "cell_read r (sv_resources st) = Some (sv_resources st ! r)" by (rule wf_heads(1) [OF wf r])
  show ?thesis
  proof (cases b)
    case False
    then have "AddObserver (Some uri) query i (Some t) n (Some r) qos af av dev st = Some (OC_STACK_NO_MEMORY, st\<lparr>sv_mem := m\<rparr>)"
      using c res p by (simp add: AddObserver_def)
    moreover have "sv_wf L (st\<lparr>sv_mem := m\<rparr>) oss" by (rule sv_wf_cong [OF wf]) simp_all
    ultimately show ?thesis using False c' by (auto simp: same_res_def reliable_def)
  next
    case True
    consider (ok) m' where "copies uri query t n m = Some (Inr (uri, query, Some t, m'))" "m = [] \<longrightarrow> m' = []"
      | (fail) m' where "copies uri query t n m = Some (Inl m')" "\<not> (m = [] \<and> short uri \<and> (\<forall>q. query = Some q \<longrightarrow> short q))"
      using copies_ok [of n t uri query m] t by auto
    then show ?thesis
    proof cases
      case fail
      then have "AddObserver (Some uri) query i (Some t) n (Some r) qos af av dev st = Some (OC_STACK_NO_MEMORY, st\<lparr>sv_mem := m'\<rparr>)"
        using c True res p by (simp add: AddObserver_def)
      moreover have "sv_wf L (st\<lparr>sv_mem := m'\<rparr>) oss" by (rule sv_wf_cong [OF wf]) simp_all
      ultimately show ?thesis using fail(2) c' True by (auto simp: same_res_def reliable_def)
    next
      case ok
      let ?g = "if uri = OC_RSRVD_PRESENCE_URI then (0, st\<lparr>sv_mem := m'\<rparr>)
                else GetTicks (MAX_OBSERVER_TTL_SECONDS * MILLISECONDS_PER_SECOND) (st\<lparr>sv_mem := m'\<rparr>)"
      obtain ttl st1 where g: "?g = (ttl, st1)" by fastforce
      then have st1: "st1 = st\<lparr>sv_mem := m', sv_reads := sv_reads st1\<rparr>" by (auto simp: GetTicks_def coap_ticks_def split: if_splits)
      have wf1: "sv_wf L st1 oss" by (rule sv_wf_cong [OF wf]) (subst st1, simp)+
      have fr: "sv_fresh st1 = sv_fresh st" by (subst st1) simp
      let ?ob = "new_observer uri query i t n qos af av dev ttl"
      have "obs_ok L ?ob" using t by (simp add: obs_ok_def new_observer_def)
      then obtain h head where l: "link_observer r ?ob st1 = Some (set_head r head (st1\<lparr>sv_nodes := h, sv_fresh := Suc (sv_fresh st)\<rparr>))"
        "sv_wf L (set_head r head (st1\<lparr>sv_nodes := h, sv_fresh := Suc (sv_fresh st)\<rparr>)) (oss[r := oss ! r @ [(sv_fresh st, ?ob)]])"
        using link_ok [OF wf1 r] fr by metis
      let ?st = "set_head r head (st1\<lparr>sv_nodes := h, sv_fresh := Suc (sv_fresh st)\<rparr>)"
      have "AddObserver (Some uri) query i (Some t) n (Some r) qos af av dev st = Some (OC_STACK_OK, ?st)"
        using c True res p ok(1) g l(1) by (simp add: AddObserver_def new_observer_def Let_def)
      moreover have "same_res st ?st"
      proof -
        have "same_res st (st1\<lparr>sv_nodes := h, sv_fresh := Suc (sv_fresh st)\<rparr>)" by (subst st1) (simp add: same_res_def)
        moreover have "r < length (sv_resources (st1\<lparr>sv_nodes := h, sv_fresh := Suc (sv_fresh st)\<rparr>))" using sv_wfD(1) [OF wf1] r by simp
        ultimately show ?thesis using same_res_head same_res_trans by blast
      qed
      moreover have "sv_sent ?st = sv_sent st" "sv_told ?st = sv_told st" by (subst st1, simp)+
      moreover have "reliable st \<longrightarrow> reliable ?st"
      proof
        assume "reliable st"
        then have "sv_mem st = []" "\<forall>k. sv_answer st k = OC_STACK_OK" by (simp_all add: reliable_def)
        moreover have "sv_mem ?st = m'" "sv_answer ?st = sv_answer st" by (subst st1, simp)+
        ultimately show "reliable ?st" using ok(2) c' by (simp add: reliable_def)
      qed
      ultimately show ?thesis using l(2) by blast
    qed
  qed
qed

section \<open>Fresh observation ids\<close>

definition obs_id :: "addr \<times> ResourceObserver \<Rightarrow> u8" where
  "obs_id x = ob_observeId (snd x)"

definition ids :: "obs list \<Rightarrow> u8 set" where
  "ids oss = (\<Union>os\<in>set oss. obs_id ` set os)"

definition all_upto_ttl :: "obs list \<Rightarrow> obs list \<Rightarrow> bool" where
  "all_upto_ttl = list_all2 upto_ttl"

lemma upto_ids: "upto_ttl xs ys \<Longrightarrow> map obs_id ys = map obs_id xs"
proof (induction xs arbitrary: ys)
  case (Cons x xs)
  obtain p a where x: "x = (p, a)" by fastforce
  obtain t zs where "ys = (p, a\<lparr>ob_TTL := t\<rparr>) # zs" "upto_ttl xs zs" using Cons.prems x by auto
  then show ?case using Cons.IH [of zs] x by (simp add: obs_id_def)
qed simp

lemma ids_upto: "all_upto_ttl oss oss' \<Longrightarrow> ids oss' = ids oss"
proof -
  assume a: "all_upto_ttl oss oss'"
  then have "map (map obs_id) oss' = map (map obs_id) oss"
    unfolding all_upto_ttl_def by (induction rule: list_all2_induct) (simp_all add: upto_ids)
  then have "set (concat (map (map obs_id) oss')) = set (concat (map (map obs_id) oss))" by simp
  then show ?thesis by (simp add: ids_def)
qed

lemma all_upto_refl [simp]: "all_upto_ttl oss oss"
  by (simp add: all_upto_ttl_def list_all2_refl)

lemma all_upto_trans: "all_upto_ttl xs ys \<Longrightarrow> all_upto_ttl ys zs \<Longrightarrow> all_upto_ttl xs zs"
  unfolding all_upto_ttl_def by (rule list_all2_trans [of upto_ttl upto_ttl upto_ttl]) (auto intro: upto_ttl_trans)

lemma all_upto_update: "r < length oss \<Longrightarrow> upto_ttl (oss ! r) os \<Longrightarrow> all_upto_ttl oss (oss[r := os])"
  by (auto simp: all_upto_ttl_def list_all2_conv_all_nth nth_list_update)

lemma exists_from_ok:
  assumes "sv_wf L st oss" and "k + r = length oss"
  shows "\<exists>st' oss'. exists_from k r i st = Some (\<exists>s. r \<le> s \<and> s < length oss \<and> i \<in> obs_id ` set (oss ! s), st')
    \<and> sv_wf L st' oss' \<and> all_upto_ttl oss oss' \<and> reminded st st'"
  using assms
proof (induction k arbitrary: r st oss)
  case 0
  then show ?case by (intro exI [of _ st] exI [of _ oss]) auto
next
  case (Suc k)
  then have r: "r < length oss" by simp
  obtain st1 os1 where g: "GetObserverUsingId r i st = Some (map_option fst (find (\<lambda>x. obs_id x = i) (oss ! r)), st1)"
    "sv_wf L st1 (oss[r := os1])" "upto_ttl (oss ! r) os1" "reminded st st1"
    using id_search_ok [OF Suc.prems(1) r] unfolding obs_id_def by blast
  have u: "all_upto_ttl oss (oss[r := os1])" by (rule all_upto_update [OF r g(3)])
  show ?case
  proof (cases "i \<in> obs_id ` set (oss ! r)")
    case True
    then have "find (\<lambda>x. obs_id x = i) (oss ! r) \<noteq> None" unfolding find_None_iff by blast
    then obtain x where "find (\<lambda>x. obs_id x = i) (oss ! r) = Some x" by blast
    then have "exists_from (Suc k) r i st = Some (True, st1)" using g(1) by simp
    then show ?thesis using g(2,4) u True r by (intro exI [of _ st1] exI [of _ "oss[r := os1]"]) auto
  next
    case False
    then have "find (\<lambda>x. obs_id x = i) (oss ! r) = None" unfolding find_None_iff by blast
    then have e: "exists_from (Suc k) r i st = exists_from k (Suc r) i st1" using g(1) by simp
    obtain st' oss' where x: "exists_from k (Suc r) i st1
        = Some (\<exists>s. Suc r \<le> s \<and> s < length (oss[r := os1]) \<and> i \<in> obs_id ` set (oss[r := os1] ! s), st')"
      "sv_wf L st' oss'" "all_upto_ttl (oss[r := os1]) oss'" "reminded st1 st'"
      using Suc.IH [OF g(2), of "Suc r"] Suc.prems(2) by auto
    have "(\<exists>s. Suc r \<le> s \<and> s < length (oss[r := os1]) \<and> i \<in> obs_id ` set (oss[r := os1] ! s))
        \<longleftrightarrow> (\<exists>s. r \<le> s \<and> s < length oss \<and> i \<in> obs_id ` set (oss ! s))"
    proof -
      have "oss[r := os1] ! s = oss ! s" if "Suc r \<le> s" for s using that by simp
      then show ?thesis using False by (metis Suc_le_eq le_eq_less_or_eq length_list_update)
    qed
    then show ?thesis using e x all_upto_trans [OF u x(3)] reminded_trans [OF g(4) x(4)] by (intro exI [of _ st'] exI [of _ oss']) simp
  qed
qed

lemma id_exists_ok:
  assumes wf: "sv_wf L st oss"
  shows "\<exists>st' oss'. IsObservationIdExisting i st = Some (i \<in> ids oss, st') \<and> sv_wf L st' oss' \<and> all_upto_ttl oss oss' \<and> reminded st st'"
proof -
  have "(\<exists>s. 0 \<le> s \<and> s < length oss \<and> i \<in> obs_id ` set (oss ! s)) \<longleftrightarrow> i \<in> ids oss"
    by (simp add: ids_def) (metis in_set_conv_nth)
  then show ?thesis using exists_from_ok [OF wf, of "length oss" 0 i] sv_wfD(1) [OF wf] by (simp add: IsObservationIdExisting_def)
qed


lemma reminded_draws: "reminded st st' \<Longrightarrow> sv_draws st' = sv_draws st \<and> sv_random st' = sv_random st \<and> sv_told st' = sv_told st
    \<and> sv_fresh st' = sv_fresh st"
  by (simp add: reminded_def same_stack_def)

lemma draw_reminder: "only_reminders st (st\<lparr>sv_draws := d\<rparr>)"
  by (simp add: only_reminders_def same_res_def reliable_def)

lemma id_exists_drawn:
  assumes wf: "sv_wf L st oss"
  obtains st1 oss1 where "IsObservationIdExisting i (st\<lparr>sv_draws := d\<rparr>) = Some (i \<in> ids oss, st1)" "sv_wf L st1 oss1"
    "all_upto_ttl oss oss1" "only_reminders st st1" "sv_draws st1 = d" "sv_random st1 = sv_random st" "sv_told st1 = sv_told st"
proof -
  have wf': "sv_wf L (st\<lparr>sv_draws := d\<rparr>) oss" by (rule sv_wf_cong [OF wf]) simp_all
  obtain st1 oss1 where e: "IsObservationIdExisting i (st\<lparr>sv_draws := d\<rparr>) = Some (i \<in> ids oss, st1)" "sv_wf L st1 oss1"
    "all_upto_ttl oss oss1" "reminded (st\<lparr>sv_draws := d\<rparr>) st1"
    using id_exists_ok [OF wf'] by blast
  show ?thesis
    using that e(1-3) only_trans [OF draw_reminder reminded_only [OF e(4)]] reminded_draws [OF e(4)] by simp
qed

text \<open>What the generator may return.\<close>

definition generated :: "obs list \<Rightarrow> server \<Rightarrow> OCStackResult \<Rightarrow> u8 option \<Rightarrow> bool" where
  "generated oss st result x \<longleftrightarrow> (result = OC_STACK_OK \<and> (\<exists>i. x = Some i \<and> i \<notin> ids oss))
     \<or> (result = OC_STACK_ERROR \<and> x = None \<and> (\<exists>k. sv_random st k = None))"

lemma generate_sound:
  assumes "GenerateObserverId st = Some (result, x, st')" and "sv_wf L st oss"
  shows "\<exists>oss'. sv_wf L st' oss' \<and> all_upto_ttl oss oss' \<and> only_reminders st st' \<and> sv_told st' = sv_told st \<and> generated oss st result x"
proof -
  have "\<forall>oss. sv_wf L st oss \<longrightarrow> (case y of (result, x, st') \<Rightarrow>
      \<exists>oss'. sv_wf L st' oss' \<and> all_upto_ttl oss oss' \<and> only_reminders st st' \<and> sv_told st' = sv_told st \<and> generated oss st result x)"
    if "GenerateObserverId st = Some y" for y
    using that
  proof (induction rule: GenerateObserverId.raw_induct [rotated, consumes 1, case_names 1])
    case (1 gen st y)
    show ?case
    proof (intro allI impI)
      fix oss assume wf: "sv_wf L st oss"
      show "case y of (result, x, st') \<Rightarrow>
        \<exists>oss'. sv_wf L st' oss' \<and> all_upto_ttl oss oss' \<and> only_reminders st st' \<and> sv_told st' = sv_told st \<and> generated oss st result x"
      proof (cases "sv_random st (sv_draws st)")
        case None
        then have "y = (OC_STACK_ERROR, None, st\<lparr>sv_draws := Suc (sv_draws st)\<rparr>)" using 1(2) by simp
        moreover have "sv_wf L (st\<lparr>sv_draws := Suc (sv_draws st)\<rparr>) oss" by (rule sv_wf_cong [OF wf]) simp_all
        ultimately show ?thesis using None draw_reminder all_upto_refl by (auto simp: generated_def)
      next
        case (Some i)
        obtain st1 oss1 where e: "IsObservationIdExisting i (st\<lparr>sv_draws := Suc (sv_draws st)\<rparr>) = Some (i \<in> ids oss, st1)" "sv_wf L st1 oss1"
          "all_upto_ttl oss oss1" "only_reminders st st1" "sv_random st1 = sv_random st" "sv_told st1 = sv_told st"
          using id_exists_drawn [OF wf] by metis
        show ?thesis
        proof (cases "i \<in> ids oss")
          case False
          then have "y = (OC_STACK_OK, Some i, st1)" using 1(2) Some e(1) by simp
          then show ?thesis using e False by (auto simp: generated_def)
        next
          case True
          then have "gen st1 = Some y" using 1(2) Some e(1) by simp
          then have ih: "case y of (result, x, st') \<Rightarrow>
              \<exists>oss'. sv_wf L st' oss' \<and> all_upto_ttl oss1 oss' \<and> only_reminders st1 st' \<and> sv_told st' = sv_told st1 \<and> generated oss1 st1 result x"
            using 1(1) e(2) by blast
          obtain result x st' where y: "y = (result, x, st')" by (cases y)
          then obtain oss' where o: "sv_wf L st' oss'" "all_upto_ttl oss1 oss'" "only_reminders st1 st'" "sv_told st' = sv_told st1"
            "generated oss1 st1 result x" using ih by auto
          have "generated oss st result x" using o(5) ids_upto [OF e(3)] e(5) by (simp add: generated_def)
          then show ?thesis using y o(1,4) all_upto_trans [OF e(3) o(2)] only_trans [OF e(4) o(3)] e(6) by auto
        qed
      qed
    qed
  qed
  then show ?thesis using assms by force
qed

text \<open>It returns as soon as a draw fails or is a free id, and never when there is none.\<close>

lemma generate_total:
  assumes "sv_wf L st oss" and "case sv_random st (sv_draws st + k) of None \<Rightarrow> True | Some i \<Rightarrow> i \<notin> ids oss"
  shows "\<exists>y. GenerateObserverId st = Some y"
  using assms
proof (induction k arbitrary: st oss)
  case 0
  show ?case
  proof (cases "sv_random st (sv_draws st)")
    case None
    then show ?thesis by (subst GenerateObserverId.simps) simp
  next
    case (Some i)
    then have "i \<notin> ids oss" using 0(2) by simp
    moreover obtain st1 where "IsObservationIdExisting i (st\<lparr>sv_draws := Suc (sv_draws st)\<rparr>) = Some (i \<in> ids oss, st1)"
      using id_exists_drawn [OF 0(1)] by metis
    ultimately show ?thesis using Some by (subst GenerateObserverId.simps) simp
  qed
next
  case (Suc k)
  show ?case
  proof (cases "sv_random st (sv_draws st)")
    case None
    then show ?thesis by (subst GenerateObserverId.simps) simp
  next
    case (Some i)
    obtain st1 oss1 where e: "IsObservationIdExisting i (st\<lparr>sv_draws := Suc (sv_draws st)\<rparr>) = Some (i \<in> ids oss, st1)" "sv_wf L st1 oss1"
      "all_upto_ttl oss oss1" "sv_draws st1 = Suc (sv_draws st)" "sv_random st1 = sv_random st"
      using id_exists_drawn [OF Suc.prems(1)] by metis
    have "\<exists>y. GenerateObserverId st1 = Some y"
      by (rule Suc.IH [OF e(2)]) (use Suc.prems(2) in \<open>unfold e(4,5) ids_upto [OF e(3)], simp\<close>)
    then show ?thesis using Some e(1) by (subst GenerateObserverId.simps) simp
  qed
qed

lemma generate_diverges:
  assumes "sv_wf L st oss" and "ids oss = UNIV" and "\<And>k. sv_random st k \<noteq> None"
  shows "GenerateObserverId st = None"
proof (cases "GenerateObserverId st")
  case (Some y)
  then show ?thesis using generate_sound [of st "fst y" "fst (snd y)" "snd (snd y)", OF _ assms(1)] assms(2,3) by (auto simp: generated_def)
qed

section \<open>Locating an observer\<close>

fun locate :: "u8 list \<Rightarrow> nat \<Rightarrow> obs list \<Rightarrow> (nat \<times> addr) option" where
  "locate t s [] = None"
| "locate t s (os # oss) = (case find (has_token t) os of Some x \<Rightarrow> Some (s, fst x) | None \<Rightarrow> locate t (Suc s) oss)"

lemma upto_find: "upto_ttl xs ys \<Longrightarrow> map_option fst (find (has_token t) ys) = map_option fst (find (has_token t) xs)"
proof (induction xs arbitrary: ys)
  case (Cons x xs)
  obtain p a where x: "x = (p, a)" by fastforce
  obtain u zs where "ys = (p, a\<lparr>ob_TTL := u\<rparr>) # zs" "upto_ttl xs zs" using Cons.prems x by auto
  then show ?case using Cons.IH [of zs] x by (simp add: has_token_def)
qed simp

lemma locate_ok:
  assumes "sv_wf L st oss" and "s \<le> length oss" and "unat n = L" and "length t = L"
  shows "\<exists>st' oss'. token_from (length oss - s) s (Some t) n st = Some (locate t s (drop s oss), st') \<and> sv_wf L st' oss'
    \<and> all_upto_ttl oss oss' \<and> reminded st st'"
  using assms
proof (induction "length oss - s" arbitrary: s st oss)
  case 0
  then show ?case by (intro exI [of _ st] exI [of _ oss]) simp
next
  case (Suc k)
  then have s: "s < length oss" by simp
  have k: "length oss - s = Suc k" using Suc(2) by simp
  obtain st1 os1 where g: "GetObserverUsingToken s (Some t) n st = Some (map_option fst (find (has_token t) (oss ! s)), st1)"
    "sv_wf L st1 (oss[s := os1])" "upto_ttl (oss ! s) os1" "reminded st st1"
    using token_search_ok [OF Suc.prems(1) s Suc.prems(3,4)] by (auto simp: has_token_def [abs_def])
  have u: "all_upto_ttl oss (oss[s := os1])" by (rule all_upto_update [OF s g(3)])
  have d: "drop s oss = oss ! s # drop (Suc s) oss" using s by (simp add: Cons_nth_drop_Suc)
  show ?case
  proof (cases "find (has_token t) (oss ! s)")
    case (Some x)
    then show ?thesis using g u by (intro exI [of _ st1] exI [of _ "oss[s := os1]"]) (simp add: k d)
  next
    case None
    have l: "k = length (oss[s := os1]) - Suc s" using k by simp
    obtain st' oss' where "token_from (length (oss[s := os1]) - Suc s) (Suc s) (Some t) n st1 = Some (locate t (Suc s) (drop (Suc s) (oss[s := os1])), st')"
      "sv_wf L st' oss'" "all_upto_ttl (oss[s := os1]) oss'" "reminded st1 st'"
      using Suc(1) [OF l g(2) _ Suc.prems(3,4)] s by auto
    then show ?thesis using g(1) None all_upto_trans [OF u] reminded_trans [OF g(4)] l
      by (intro exI [of _ st'] exI [of _ oss']) (simp add: k d)
  qed
qed

lemma locate_found:
  "locate t s oss = Some (r, p) \<Longrightarrow> \<exists>k xs ob ys. r = s + k \<and> k < length oss \<and> oss ! k = xs @ (p, ob) # ys \<and> ob_token ob = Some t
     \<and> drop_first (has_token t) (oss ! k) = xs @ ys"
proof (induction oss arbitrary: s)
  case (Cons os oss)
  show ?case
  proof (cases "find (has_token t) os")
    case None
    then obtain k xs ob ys where "r = Suc s + k \<and> k < length oss \<and> oss ! k = xs @ (p, ob) # ys \<and> ob_token ob = Some t
      \<and> drop_first (has_token t) (oss ! k) = xs @ ys" using Cons.IH [of "Suc s"] Cons.prems by auto
    then have "r = s + Suc k \<and> Suc k < length (os # oss) \<and> (os # oss) ! Suc k = xs @ (p, ob) # ys \<and> ob_token ob = Some t
      \<and> drop_first (has_token t) ((os # oss) ! Suc k) = xs @ ys" by auto
    then show ?thesis by blast
  next
    case (Some x)
    obtain q ob where x: "x = (q, ob)" by fastforce
    obtain ys zs where "os = ys @ x # zs" "has_token t x" "drop_first (has_token t) os = ys @ zs" using find_split [OF Some] by metis
    then have "r = s + 0 \<and> 0 < length (os # oss) \<and> (os # oss) ! 0 = ys @ (p, ob) # zs \<and> ob_token ob = Some t
      \<and> drop_first (has_token t) ((os # oss) ! 0) = ys @ zs" using Cons.prems Some x has_token_def [of t x] by auto
    then show ?thesis by blast
  qed
qed simp


section \<open>Feedback\<close>

text \<open>What a report about the observer \<open>ob\<close> does: its new value, or \<^const>\<open>None\<close> when it is removed.\<close>

definition feedback :: "u8 \<Rightarrow> ResourceObserver \<Rightarrow> OCStackResult \<times> ResourceObserver option" where
  "feedback status ob =
     (if status = OC_OBSERVER_NOT_INTERESTED then (OC_STACK_OK, None)
      else if status = OC_OBSERVER_STILL_INTERESTED then (OC_STACK_OK, Some (ob\<lparr>ob_forceHighQos := 0, ob_failedCommCount := 0\<rparr>))
      else if status = OC_OBSERVER_FAILED_COMM then
        (if ob_failedCommCount ob = MAX_OBSERVER_FAILED_COMM then (OC_STACK_OK, None)
         else (OC_STACK_CONTINUE, Some (ob\<lparr>ob_failedCommCount := ob_failedCommCount ob + 1, ob_forceHighQos := 1\<rparr>)))
      else (OC_STACK_ERROR, Some ob))"

definition told :: "server \<Rightarrow> nat \<Rightarrow> u8 \<Rightarrow> (nat \<times> u8) list" where
  "told st r i = (case rs_entityHandler (sv_resources st ! r) of None \<Rightarrow> [] | Some eh \<Rightarrow> [(eh, i)])"

lemma tell_ok:
  assumes "sv_wf L st oss" and "r < length oss"
  shows "tell_handler r i st = Some (st\<lparr>sv_told := sv_told st @ told st r i\<rparr>)"
  using wf_heads(1) [OF assms] by (simp add: tell_handler_def told_def split: option.splits)

lemma feedback_obs_ok:
  assumes "obs_ok L ob" and "feedback status ob = (result, Some ob')"
  shows "obs_ok L ob'"
proof -
  have "ob_failedCommCount ob + 1 \<le> MAX_OBSERVER_FAILED_COMM"
    if "ob_failedCommCount ob \<le> MAX_OBSERVER_FAILED_COMM" "ob_failedCommCount ob \<noteq> MAX_OBSERVER_FAILED_COMM"
    using that by (intro inc_le) simp
  then show ?thesis using assms by (auto simp: feedback_def obs_ok_def MAX_OBSERVER_FAILED_COMM_def split: if_splits)
qed

lemma all_upto_nth:
  assumes "all_upto_ttl oss oss'" and "r < length oss"
  shows "length oss' = length oss" "upto_ttl (oss ! r) (oss' ! r)"
  using assms by (auto simp: all_upto_ttl_def list_all2_conv_all_nth)

lemma all_upto_other:
  assumes "all_upto_ttl oss oss'" and "upto_ttl xs ys"
  shows "all_upto_ttl (oss[r := xs]) (oss'[r := ys])"
  using assms unfolding all_upto_ttl_def by (rule list_all2_update_cong)

lemma upto_drop: "upto_ttl xs ys \<Longrightarrow> upto_ttl (drop_first (has_token t) xs) (drop_first (has_token t) ys)"
proof (induction xs arbitrary: ys)
  case (Cons x xs)
  obtain p a where x: "x = (p, a)" by fastforce
  obtain u zs where "ys = (p, a\<lparr>ob_TTL := u\<rparr>) # zs" "upto_ttl xs zs" using Cons.prems x by auto
  then show ?case using Cons.IH [of zs] x by (auto simp: has_token_def)
qed simp

lemma upto_ttl_append: "upto_ttl xs xs' \<Longrightarrow> upto_ttl (xs @ ys) (xs' @ ys') \<longleftrightarrow> upto_ttl ys ys'"
  unfolding upto_ttl_def using list_all2_append [OF list_all2_lengthD] by blast

lemma upto_ttl_parts:
  assumes "upto_ttl (xs @ (p, ob) # ys) zs"
  obtains xs' u ys' where "zs = xs' @ (p, ob\<lparr>ob_TTL := u\<rparr>) # ys'" "upto_ttl xs xs'" "upto_ttl ys ys'"
  using assms unfolding upto_ttl_def list_all2_append1 list_all2_Cons1 by (auto simp: upto_ttl_def)

text \<open>The list of the observer after the report.\<close>

definition settle :: "addr \<Rightarrow> ResourceObserver option \<Rightarrow> obs \<Rightarrow> obs \<Rightarrow> obs" where
  "settle p x xs ys = (case x of None \<Rightarrow> xs @ ys | Some ob \<Rightarrow> xs @ (p, ob) # ys)"

lemma feedback_not_found:
  assumes "sv_wf L st oss" and "unat n = L" and "length t = L" and "locate t 0 oss = None"
  shows "\<exists>st' oss'. OCStackFeedBack (Some t) n status st = Some (OC_STACK_OBSERVER_NOT_FOUND, st') \<and> sv_wf L st' oss'
    \<and> all_upto_ttl oss oss' \<and> only_reminders st st' \<and> sv_told st' = sv_told st"
proof -
  obtain st' oss' where "GetObserverFromResourceList (Some t) n st = Some (None, st')" "sv_wf L st' oss'" "all_upto_ttl oss oss'" "reminded st st'"
    using locate_ok [OF assms(1) _ assms(2,3), of 0] assms(4) sv_wfD(1) [OF assms(1)] by (auto simp: GetObserverFromResourceList_def)
  then show ?thesis using reminded_only [of st st'] reminded_draws [of st st']
    by (intro exI [of _ st'] exI [of _ oss']) (simp add: OCStackFeedBack_def)
qed

lemma feedback_ttl: "feedback status ob = (result, x) \<Longrightarrow>
    feedback status (ob\<lparr>ob_TTL := u\<rparr>) = (result, map_option (\<lambda>o'. o'\<lparr>ob_TTL := u\<rparr>) x)"
  by (auto simp: feedback_def split: if_splits)

lemma put_same: "get_obs p st = Some ob \<Longrightarrow> put_obs p ob st = Some st"
  by (cases "sv_nodes st p") (auto simp: get_obs_def put_obs_def fun_upd_idem)

lemma feedback_keeps:
  assumes "GetObserverFromResourceList (Some t) n st = Some (Some (r, p), st1)" and "get_obs p st1 = Some ob"
    and "feedback status ob = (result, Some ob')" and "ob_failedCommCount ob \<le> MAX_OBSERVER_FAILED_COMM"
  shows "OCStackFeedBack (Some t) n status st = map_option (Pair result) (put_obs p ob' st1)"
  using assms put_same [OF assms(2)]
  by (auto simp: OCStackFeedBack_def feedback_def OC_OBSERVER_NOT_INTERESTED_def OC_OBSERVER_STILL_INTERESTED_def
      OC_OBSERVER_FAILED_COMM_def split: if_splits)

lemma split_unique:
  "xs @ (p, a) # ys = us @ (p, b) # vs \<Longrightarrow> distinct (map fst (xs @ (p, a) # ys)) \<Longrightarrow> xs = us \<and> a = b \<and> ys = vs"
proof (induction xs arbitrary: us)
  case Nil
  then show ?case by (cases us) auto
next
  case (Cons x xs)
  then show ?case
  proof (cases us)
    case Nil
    then show ?thesis using Cons.prems by auto
  next
    case (Cons u us')
    then show ?thesis using Cons.IH [of us'] Cons.prems by simp
  qed
qed

lemma feedback_ok:
  assumes wf: "sv_wf L st oss" and t: "unat n = L" "length t = L" and l: "locate t 0 oss = Some (r, p)"
    and s: "oss ! r = xs @ (p, ob) # ys" and f: "feedback status ob = (result, x)"
  shows "\<exists>st' oss'. OCStackFeedBack (Some t) n status st = Some (result, st') \<and> sv_wf L st' oss'
    \<and> all_upto_ttl (oss[r := settle p x xs ys]) oss' \<and> only_reminders st st'
    \<and> sv_told st' = sv_told st @ (if x = None then told st r (ob_observeId ob) else [])"
proof -
  obtain xs0 ob0 ys0 where r: "r < length oss" and s0: "oss ! r = xs0 @ (p, ob0) # ys0" "ob_token ob0 = Some t"
    "drop_first (has_token t) (oss ! r) = xs0 @ ys0" using locate_found [OF l] by auto
  have dist: "distinct (map fst (oss ! r))" by (rule wf_distinct [OF wf r])
  have "xs0 = xs \<and> ob0 = ob \<and> ys0 = ys"
    using split_unique [OF trans [OF s [symmetric] s0(1)]] dist unfolding s by simp
  then have e: "xs0 = xs" "ob0 = ob" "ys0 = ys" by auto
  obtain st1 oss1 where g: "GetObserverFromResourceList (Some t) n st = Some (Some (r, p), st1)" "sv_wf L st1 oss1"
    "all_upto_ttl oss oss1" "reminded st st1"
    using locate_ok [OF wf _ t, of 0] l sv_wfD(1) [OF wf] by (auto simp: GetObserverFromResourceList_def)
  have r1: "r < length oss1" using all_upto_nth(1) [OF g(3) r] r by simp
  obtain xs1 ttl ys1 where s1: "oss1 ! r = xs1 @ (p, ob\<lparr>ob_TTL := ttl\<rparr>) # ys1" "upto_ttl xs xs1" "upto_ttl ys ys1"
    using upto_ttl_parts [of xs p ob ys "oss1 ! r"] all_upto_nth(2) [OF g(3) r] s by metis
  have g1: "get_obs p st1 = Some (ob\<lparr>ob_TTL := ttl\<rparr>)" "obs_ok L (ob\<lparr>ob_TTL := ttl\<rparr>)" using get_ok [OF g(2) r1 s1(1)] by auto
  have le: "ob_failedCommCount ob \<le> MAX_OBSERVER_FAILED_COMM" using g1(2) by (simp add: obs_ok_def)
  have u: "all_upto_ttl oss (oss1[r := oss1 ! r])" using g(3) by simp
  show ?thesis
  proof (cases x)
    case None
    then have c: "status = OC_OBSERVER_NOT_INTERESTED \<or> status = OC_OBSERVER_FAILED_COMM \<and> MAX_OBSERVER_FAILED_COMM \<le> ob_failedCommCount ob"
      "result = OC_STACK_OK" using f le by (auto simp: feedback_def split: if_splits)
    let ?st = "st1\<lparr>sv_told := sv_told st1 @ told st1 r (ob_observeId ob)\<rparr>"
    have wf2: "sv_wf L ?st oss1" by (rule sv_wf_cong [OF g(2)]) simp_all
    obtain st' os' where d: "DeleteObserverUsingToken r (Some t) n ?st = Some (OC_STACK_OK, st')" "sv_wf L st' (oss1[r := os'])"
      "upto_ttl (drop_first (has_token t) (oss1 ! r)) os'" "only_reminders ?st st'" "sv_told st' = sv_told ?st"
      using delete_token_ok [OF wf2 r1 t] by blast
    have "OCStackFeedBack (Some t) n status st = Some (OC_STACK_OK, st')"
      using g(1) g1(1) c(1) tell_ok [OF g(2) r1] d(1) by (simp add: OCStackFeedBack_def)
    moreover have "upto_ttl (xs @ ys) os'"
      using upto_ttl_trans [OF upto_drop [OF all_upto_nth(2) [OF g(3) r], of t] d(3)] s0(3) e by simp
    moreover have "only_reminders st ?st"
      using reminded_only [OF g(4)] by (simp add: only_reminders_def same_res_def reliable_def)
    moreover have "told st1 r i = told st r i" for i
      using same_res_nth(2) [OF reminded_res [OF g(4)], of r] r sv_wfD(1) [OF wf] by (simp add: told_def)
    ultimately show ?thesis
      using d(2,5) only_trans [OF _ d(4)] all_upto_other [OF g(3)] reminded_draws [OF g(4)] c(2) None by (auto simp: settle_def)
  next
    case (Some ob')
    have f': "feedback status (ob\<lparr>ob_TTL := ttl\<rparr>) = (result, Some (ob'\<lparr>ob_TTL := ttl\<rparr>))" using feedback_ttl [OF f] Some by simp
    obtain h where h: "put_obs p (ob'\<lparr>ob_TTL := ttl\<rparr>) st1 = Some (st1\<lparr>sv_nodes := h\<rparr>)"
      "sv_wf L (st1\<lparr>sv_nodes := h\<rparr>) (oss1[r := xs1 @ (p, ob'\<lparr>ob_TTL := ttl\<rparr>) # ys1])"
      using put_ok [OF g(2) r1 s1(1) feedback_obs_ok [OF g1(2) f']] by blast
    have "OCStackFeedBack (Some t) n status st = Some (result, st1\<lparr>sv_nodes := h\<rparr>)"
      using feedback_keeps [OF g(1) g1(1) f'] le h(1) by simp
    moreover have "upto_ttl (xs @ (p, ob') # ys) (xs1 @ (p, ob'\<lparr>ob_TTL := ttl\<rparr>) # ys1)"
      using s1(2,3) by (simp add: upto_ttl_append) blast
    ultimately show ?thesis
      using h(2) all_upto_other [OF g(3)] reminded_draws [OF g(4)] reminded_only [OF g(4)] Some
      by (auto simp: settle_def only_reminders_def same_res_def reliable_def)
  qed
qed

end
