(* ===== verification/ObserverRuns.thy ===== *)
theory ObserverRuns
  imports ObserverRegistry
begin

text \<open>
  Loops over all observers (removing all of them, the observers of a device that is gone, notifying a
  list of observers) and the requests that register and deregister an observer.
\<close>

section \<open>Removing all observers\<close>

lemma delete_obs_loop:
  assumes "sv_wf L st oss" and "r < length oss" and "oss ! r = os"
  shows "\<exists>st'. foreach_safe sv_nodes (delete_step r) (ul_first os) st = Some (Inr st') \<and> sv_wf L st' (oss[r := []]) \<and> only_reminders st st' \<and> sv_told st' = sv_told st"
  (is "\<exists>st'. ?P os st oss st'")
  using assms
proof (induction "length os" arbitrary: os st oss)
  case 0
  then have "oss[r := []] = oss" "os = []" using list_update_id [of oss r] by auto
  then show ?case using 0 by (subst foreach_safe.simps) simp
next
  case (Suc k)
  then obtain p ob os1 where os: "os = (p, ob) # os1" by (cases os) auto
  have s: "oss ! r = [] @ (p, ob) # os1" using Suc.prems(3) os by simp
  note g = get_ok [OF Suc.prems(1,2) s]
  obtain t where t: "ob_token ob = Some t" "length t = L" "unat (ob_tokenLength ob) = L" using g(2) by (auto simp: obs_ok_def)
  obtain n where n: "sv_nodes st p = Some n" "nd_next n = ul_first os1" using next_node [OF Suc.prems(1,2) s] by metis
  obtain st1 os2 where d: "DeleteObserverUsingToken r (Some t) (ob_tokenLength ob) st = Some (OC_STACK_OK, st1)" "sv_wf L st1 (oss[r := os2])"
    "upto_ttl (drop_first (has_token t) (oss ! r)) os2" "only_reminders st st1" "sv_told st1 = sv_told st"
    using delete_token_ok [OF Suc.prems(1,2) t(3,2)] by blast
  have u: "upto_ttl os1 os2" using d(3) s t(1) by (simp add: has_token_def)
  then have f: "ul_first os2 = ul_first os1" "length os2 = length os1"
    by (cases os1; auto simp: upto_ttl_def list_all2_Cons1 dest: list_all2_lengthD)+
  have k: "k = length os2" using Suc(2) os f(2) by simp
  obtain st' where l: "?P os2 st1 (oss[r := os2]) st'" using Suc(1) [OF k d(2)] Suc.prems(2) by auto
  have "delete_step r p st = Some (Inr st1)" using g(1) t(1) d(1) by (simp add: delete_step_def)
  then have "?P os st oss st'"
    using l only_trans [OF d(4)] d(5) by (subst foreach_safe.simps) (simp add: os n f(1))
  then show ?case by blast
qed

lemma delete_list_ok:
  assumes wf: "sv_wf L st oss" and r: "r < length oss"
  shows "\<exists>st'. DeleteObserverList r st = Some st' \<and> sv_wf L st' (oss[r := []]) \<and> only_reminders st st' \<and> sv_told st' = sv_told st"
proof -
  obtain st1 where l: "foreach_safe sv_nodes (delete_step r) (ul_first (oss ! r)) st = Some (Inr st1)" "sv_wf L st1 (oss[r := []])" "only_reminders st st1" "sv_told st1 = sv_told st"
    using delete_obs_loop [OF wf r refl] by blast
  have "head_of st1 r = None" using rep_first [OF sv_wfD(2) [OF l(2), of r]] r by simp
  then have "(sv_resources st1 ! r)\<lparr>rs_observersHead := None\<rparr> = sv_resources st1 ! r" by (simp add: head_of_def)
  then have "set_head r None st1 = st1" unfolding set_head_def by (simp only: list_update_id) simp
  then show ?thesis using l wf_heads [OF wf r] by (simp add: DeleteObserverList_def)
qed


section \<open>Shrinking lists\<close>

text \<open>Operations other than registration keep the ids, or drop some.\<close>

definition shrinks :: "obs list \<Rightarrow> obs list \<Rightarrow> bool" where
  "shrinks = list_all2 (\<lambda>xs ys. subseq (map obs_id ys) (map obs_id xs))"

lemma shrinks_refl [simp]: "shrinks oss oss"
  by (simp add: shrinks_def list_all2_refl)

lemma shrinks_trans: "shrinks xs ys \<Longrightarrow> shrinks ys zs \<Longrightarrow> shrinks xs zs"
  unfolding shrinks_def by (rule list_all2_trans) (auto intro: subseq_order.trans)

lemma shrinks_length: "shrinks xs ys \<Longrightarrow> length ys = length xs"
  unfolding shrinks_def by (rule list_all2_lengthD [symmetric])

lemma shrinks_upto: "all_upto_ttl oss oss' \<Longrightarrow> shrinks oss oss'"
  unfolding shrinks_def all_upto_ttl_def
proof (erule list_all2_mono)
  fix xs ys assume "upto_ttl xs ys"
  then show "subseq (map obs_id ys) (map obs_id xs)" by (simp add: upto_ids [of xs ys])
qed

lemma shrinks_update: "r < length oss \<Longrightarrow> subseq (map obs_id xs) (map obs_id (oss ! r)) \<Longrightarrow> shrinks oss (oss[r := xs])"
  using list_all2_update_cong [of "\<lambda>xs ys. subseq (map obs_id ys) (map obs_id xs)" oss oss "oss ! r" xs r]
  by (simp add: shrinks_def list_all2_refl)

definition unique_ids :: "obs list \<Rightarrow> bool" where
  "unique_ids oss \<longleftrightarrow> distinct (map obs_id (concat oss))"

lemma shrinks_concat: "shrinks xs ys \<Longrightarrow> subseq (map obs_id (concat ys)) (map obs_id (concat xs))"
  unfolding shrinks_def by (induction rule: list_all2_induct) (auto intro: list_emb_append_mono)

lemma subseq_distinct_ids: "subseq xs ys \<Longrightarrow> distinct ys \<Longrightarrow> distinct xs"
  by (induction rule: list_emb.induct) (auto dest: list_emb_set)

lemma shrinks_unique: "shrinks xs ys \<Longrightarrow> unique_ids xs \<Longrightarrow> unique_ids ys"
  unfolding unique_ids_def using shrinks_concat subseq_distinct_ids by blast

lemma subseq_drop_first: "subseq (map f (drop_first P xs)) (map f xs)"
  by (induction xs) auto

lemma shrinks_drop:
  assumes "r < length oss" and "upto_ttl (drop_first P (oss ! r)) os"
  shows "shrinks oss (oss[r := os])"
  by (rule shrinks_update [OF assms(1)]) (simp add: upto_ids [OF assms(2)] subseq_drop_first)

lemma plan_ids: "map obs_id (map snd (plan m qos os)) = map obs_id os"
proof (induction os arbitrary: qos)
  case (Cons x os)
  obtain p ob where x: "x = (p, ob)" by fastforce
  obtain q ob' where d: "DetermineObserverQoS m ob qos = (q, ob')" by fastforce
  then have "ob_observeId ob' = ob_observeId ob" by (auto simp: DetermineObserverQoS_def Let_def split: if_splits)
  then show ?case using Cons x d by (simp add: obs_id_def)
qed simp

section \<open>A device that is gone\<close>

lemma drop_first_before: "P x \<Longrightarrow> \<exists>ys. drop_first P (xs @ x # os) = ys @ os"
proof (induction xs)
  case (Cons y xs)
  then obtain ys where "drop_first P (xs @ x # os) = ys @ os" by blast
  then have "drop_first P ((y # xs) @ x # os) = (if P y then xs @ [x] else y # ys) @ os" by simp
  then show ?case by blast
qed simp

lemma locate_some:
  "\<exists>k<length oss. \<exists>x\<in>set (oss ! k). has_token t x \<Longrightarrow> \<exists>y. locate t s oss = Some y"
proof (induction oss arbitrary: s)
  case (Cons os oss)
  show ?case
  proof (cases "find (has_token t) os")
    case None
    then have "\<forall>x\<in>set os. \<not> has_token t x" unfolding find_None_iff by blast
    moreover obtain k x where k: "k < length (os # oss)" "x \<in> set ((os # oss) ! k)" "has_token t x" using Cons.prems by blast
    ultimately have "\<exists>k<length oss. \<exists>x\<in>set (oss ! k). has_token t x" by (cases k) auto
    then show ?thesis using Cons.IH None by simp
  qed simp
qed simp

lemma upto_suffix:
  assumes "upto_ttl (xs @ os) zs"
  obtains xs' os' where "zs = xs' @ os'" "upto_ttl os os'"
  using assms unfolding upto_ttl_def list_all2_append1 by auto

lemma gone_feedback:
  assumes wf: "sv_wf L st oss" and r: "r < length oss" and s: "oss ! r = xs @ (p, ob) # os"
  shows "\<exists>res st' oss' xs' os'. OCStackFeedBack (ob_token ob) (ob_tokenLength ob) OC_OBSERVER_NOT_INTERESTED st = Some (res, st')
    \<and> sv_wf L st' oss' \<and> oss' ! r = xs' @ os' \<and> upto_ttl os os' \<and> shrinks oss oss' \<and> same_res st st'"
proof -
  obtain t where t: "ob_token ob = Some t" "length t = L" "unat (ob_tokenLength ob) = L"
    using get_ok(2) [OF wf r s] by (auto simp: obs_ok_def)
  have h: "has_token t (p, ob)" using t(1) by (simp add: has_token_def)
  obtain r0 p0 where l: "locate t 0 oss = Some (r0, p0)" using locate_some [of oss t 0] r s h by fastforce
  obtain us ob0 vs where k: "r0 < length oss" "oss ! r0 = us @ (p0, ob0) # vs" "drop_first (has_token t) (oss ! r0) = us @ vs"
    using locate_found [OF l] by auto
  have f: "feedback OC_OBSERVER_NOT_INTERESTED ob0 = (OC_STACK_OK, None)" by (simp add: feedback_def)
  obtain st' oss' where w: "OCStackFeedBack (Some t) (ob_tokenLength ob) OC_OBSERVER_NOT_INTERESTED st = Some (OC_STACK_OK, st')" "sv_wf L st' oss'"
    "all_upto_ttl (oss[r0 := us @ vs]) oss'" "only_reminders st st'"
    using feedback_ok [OF wf t(3,2) l k(2) f] by (auto simp: settle_def)
  have "shrinks oss oss'"
    using shrinks_trans [OF shrinks_drop [OF k(1)] shrinks_upto [OF w(3)]] k(3) by (metis upto_ttl_refl)
  moreover obtain ys where ys: "oss[r0 := us @ vs] ! r = ys @ os"
  proof (cases "r0 = r")
    case True
    then show ?thesis using that drop_first_before [of "has_token t" "(p, ob)" xs os] h s k(3) r by auto
  next
    case False
    then have "oss[r0 := us @ vs] ! r = (xs @ [(p, ob)]) @ os" using s by simp
    then show ?thesis by (rule that)
  qed
  moreover have "upto_ttl (ys @ os) (oss' ! r)" using all_upto_nth(2) [OF w(3), of r] r ys by simp
  ultimately show ?thesis using w(1,2,4) t(1) upto_suffix [of ys os "oss' ! r"] unfolding only_reminders_def by metis
qed

lemma gone_loop:
  assumes "sv_wf L st oss" and "r < length oss" and "oss ! r = xs @ os"
  shows "\<exists>st' oss'. foreach_safe sv_nodes (gone_step dev) (ul_first os) st = Some (Inr st') \<and> sv_wf L st' oss' \<and> shrinks oss oss' \<and> same_res st st'"
  using assms
proof (induction "length os" arbitrary: os xs st oss)
  case 0
  then show ?case by (subst foreach_safe.simps) (use shrinks_refl in auto)
next
  case (Suc k)
  then obtain p ob os1 where os: "os = (p, ob) # os1" by (cases os) auto
  have s: "oss ! r = xs @ (p, ob) # os1" using Suc.prems(3) os by simp
  note g = get_ok(1) [OF Suc.prems(1,2) s]
  obtain n where n: "sv_nodes st p = Some n" "nd_next n = ul_first os1" using next_node [OF Suc.prems(1,2) s] by metis
  obtain st1 oss1 xs1 os2 where w: "gone_step dev p st = Some (Inr st1)" "sv_wf L st1 oss1" "oss1 ! r = xs1 @ os2" "upto_ttl os1 os2"
    "shrinks oss oss1" "same_res st st1"
  proof (cases "ep_addr (ob_devAddr ob) = ep_addr dev \<and> ep_port (ob_devAddr ob) = ep_port dev")
    case True
    obtain res st' oss' xs' os' where "OCStackFeedBack (ob_token ob) (ob_tokenLength ob) OC_OBSERVER_NOT_INTERESTED st = Some (res, st')"
      "sv_wf L st' oss'" "oss' ! r = xs' @ os'" "upto_ttl os1 os'" "shrinks oss oss'" "same_res st st'"
      using gone_feedback [OF Suc.prems(1,2) s] by blast
    then show ?thesis using that True g by (simp add: gone_step_def)
  next
    case False
    then have "gone_step dev p st = Some (Inr st)" using g by (auto simp: gone_step_def)
    moreover have "oss ! r = (xs @ [(p, ob)]) @ os1" using s by simp
    ultimately show ?thesis using that [of st oss "xs @ [(p, ob)]" os1] Suc.prems(1) by simp
  qed
  have f: "ul_first os2 = ul_first os1" "length os2 = length os1"
    using w(4) by (cases os1; auto simp: upto_ttl_def list_all2_Cons1 dest: list_all2_lengthD)+
  have k: "k = length os2" using Suc(2) os f(2) by simp
  have r1: "r < length oss1" using shrinks_length [OF w(5)] Suc.prems(2) by simp
  obtain st' oss' where l: "foreach_safe sv_nodes (gone_step dev) (ul_first os2) st1 = Some (Inr st')" "sv_wf L st' oss'" "shrinks oss1 oss'" "same_res st1 st'"
    using Suc(1) [OF k w(2) r1 w(3)] by blast
  have "foreach_safe sv_nodes (gone_step dev) (ul_first os) st = Some (Inr st')"
    using l(1) f(1) by (subst foreach_safe.simps) (simp add: os n w(1))
  then show ?case using l shrinks_trans [OF w(5)] same_res_trans [OF w(6)] by blast
qed

lemma gone_from_ok:
  assumes "sv_wf L st oss" and "k + r = length oss"
  shows "\<exists>st' oss'. gone_from k r dev st = Some st' \<and> sv_wf L st' oss' \<and> shrinks oss oss' \<and> same_res st st'"
  using assms
proof (induction k arbitrary: r st oss)
  case 0
  then show ?case using shrinks_refl by auto
next
  case (Suc k)
  then have r: "r < length oss" by simp
  obtain st1 oss1 where l: "foreach_safe sv_nodes (gone_step dev) (ul_first (oss ! r)) st = Some (Inr st1)" "sv_wf L st1 oss1" "shrinks oss oss1" "same_res st st1"
    using gone_loop [OF Suc.prems(1) r append_Nil [symmetric]] by blast
  obtain st' oss' where "gone_from k (Suc r) dev st1 = Some st'" "sv_wf L st' oss'" "shrinks oss1 oss'" "same_res st1 st'"
    using Suc.IH [OF l(2), of "Suc r"] Suc.prems(2) shrinks_length [OF l(3)] by auto
  then show ?case using l(1) wf_heads [OF Suc.prems(1) r] shrinks_trans [OF l(3)] same_res_trans [OF l(4)] by auto
qed


section \<open>Notifying a list of observers\<close>

lemma find_id_split:
  assumes "find (\<lambda>x. obs_id x = i) os = Some x"
  obtains xs p ob ys where "x = (p, ob)" "os = xs @ (p, ob) # ys" "ob_observeId ob = i"
proof -
  obtain p ob where x: "x = (p, ob)" by fastforce
  obtain ys zs where "os = ys @ x # zs" "obs_id x = i" using find_split [OF assms] by metis
  then show ?thesis using that x by (simp add: obs_id_def)
qed

lemma upto_split_all:
  assumes "upto_ttl (xs @ (p, ob) # ys) zs"
  obtains xs' u ys' where "zs = xs' @ (p, ob\<lparr>ob_TTL := u\<rparr>) # ys'"
  using upto_ttl_parts [OF assms] by metis

text \<open>A round keeps the server well-formed; it goes on, or an allocation has failed.\<close>

lemma list_round_ok:
  assumes wf: "sv_wf L st oss" and r: "r < length oss"
  shows "\<exists>g q k f st' oss'. list_round r i pl (qos, num, flag, st) = Some (g, q, k, f, st') \<and> sv_wf L st' oss' \<and> shrinks oss oss'
    \<and> same_res st st' \<and> length (sv_mem st') \<le> length (sv_mem st) \<and> (\<not> g \<longrightarrow> length (sv_mem st') < length (sv_mem st))"
proof -
  obtain st1 os1 where w: "GetObserverUsingId r i st = Some (map_option fst (find (\<lambda>x. obs_id x = i) (oss ! r)), st1)" "sv_wf L st1 (oss[r := os1])"
    "upto_ttl (oss ! r) os1" "reminded st st1"
    using id_search_ok [OF wf r] unfolding obs_id_def by blast
  have m1: "length (sv_mem st1) \<le> length (sv_mem st)" using w(4) by (simp add: reminded_def same_stack_def)
  have sh: "shrinks oss (oss[r := os1])" by (rule shrinks_upto [OF all_upto_update [OF r w(3)]])
  have res: "cell_read r (sv_resources st) = Some (sv_resources st ! r)" by (rule wf_heads(1) [OF wf r])
  note same1 = reminded_res [OF w(4)]
  show ?thesis
  proof (cases "find (\<lambda>x. obs_id x = i) (oss ! r)")
    case None
    then have "list_round r i pl (qos, num, flag, st) = Some (True, qos, num, flag, st1)" using w(1) res by (simp add: list_round_def)
    then show ?thesis using w(2) sh same1 m1 by blast
  next
    case (Some x)
    obtain xs p ob ys where x: "x = (p, ob)" "oss ! r = xs @ (p, ob) # ys" using find_id_split [OF Some] by metis
    obtain xs1 ttl ys1 where s1: "os1 = xs1 @ (p, ob\<lparr>ob_TTL := ttl\<rparr>) # ys1" using upto_split_all w(3) x(2) by metis
    let ?ob = "ob\<lparr>ob_TTL := ttl\<rparr>"
    have r1: "r < length (oss[r := os1])" and e1: "oss[r := os1] ! r = xs1 @ (p, ?ob) # ys1" using r s1 by simp_all
    note g = get_ok [OF w(2) r1 e1]
    obtain q ob2 where d: "DetermineObserverQoS OC_REST_GET ?ob qos = (q, ob2)" by fastforce
    have ok2: "obs_ok L ob2" by (rule determine_ok [OF g(2) _ d]) simp
    have id2: "ob_observeId ob2 = ob_observeId ?ob" using d by (auto simp: DetermineObserverQoS_def Let_def split: if_splits)
    obtain h where h: "put_obs p ob2 st1 = Some (st1\<lparr>sv_nodes := h\<rparr>)" "sv_wf L (st1\<lparr>sv_nodes := h\<rparr>) (oss[r := os1, r := xs1 @ (p, ob2) # ys1])"
      using put_ok [OF w(2) r1 e1 ok2] by blast
    let ?os2 = "xs1 @ (p, ob2) # ys1"
    have wf2: "sv_wf L (st1\<lparr>sv_nodes := h\<rparr>) (oss[r := ?os2])" using h(2) by simp
    have "map obs_id ?os2 = map obs_id os1" using s1 id2 by (simp add: obs_id_def)
    then have sh2: "shrinks oss (oss[r := ?os2])" using upto_ids [OF w(3)] by (intro shrinks_update [OF r]) simp
    obtain b m where n: "notify_request ob2 (rs_sequenceNum (sv_resources st ! r)) q (st1\<lparr>sv_nodes := h\<rparr>) =
        Some (if b then (OC_STACK_OK, Some ((notification ob2 (rs_sequenceNum (sv_resources st ! r)) q)\<lparr>sr_observeResult := OC_STACK_ERROR\<rparr>),
                st1\<lparr>sv_nodes := h, sv_mem := m\<rparr>)
              else (OC_STACK_NO_MEMORY, None, st1\<lparr>sv_nodes := h, sv_mem := m\<rparr>))" "length m \<le> length (sv_mem st1)"
      using notify_request_ok [OF ok2, of "rs_sequenceNum (sv_resources st ! r)" q "st1\<lparr>sv_nodes := h\<rparr>"] by auto
    let ?st2 = "st1\<lparr>sv_nodes := h, sv_mem := m\<rparr>"
    have wf3: "sv_wf L (?st2\<lparr>sv_mem := m'\<rparr>) (oss[r := ?os2])" for m' by (rule sv_wf_cong [OF wf2]) simp_all
    have same3: "same_res st (?st2\<lparr>sv_mem := m'\<rparr>)" for m' by (rule same_res_trans [OF same1]) (simp add: same_res_def)
    have run: "list_round r i pl (qos, num, flag, st) =
        (if b then represent p ((notification ob2 (rs_sequenceNum (sv_resources st ! r)) q)\<lparr>sr_observeResult := OC_STACK_ERROR\<rparr>) pl (q, num, flag, ?st2)
         else Some (True, q, num, True, ?st2))"
      using w(1) Some x(1) res g(1) d h(1) n(1) by (simp add: list_round_def)
    show ?thesis
    proof (cases b)
      case False
      then show ?thesis using run wf3 [of m] same3 [of m] sh2 m1 n(2) by auto
    next
      case True
      obtain b' m' where a: "libc_alloc m sizeof_OCRepPayload = (b', m')" "length m' \<le> length m"
        "\<not> b' \<and> sizeof_OCRepPayload \<le> max_object \<longrightarrow> length m' < length m" by (rule libc_alloc_cases)
      then have c: "OICCalloc m 1 sizeof_OCRepPayload = (b', m')" by (simp add: OICCalloc_def sizeof_OCRepPayload_def)
      show ?thesis
      proof (cases b')
        case False
        then have "list_round r i pl (qos, num, flag, st) = Some (False, q, num, flag, ?st2\<lparr>sv_mem := m'\<rparr>)"
          using run True c by (simp add: represent_def)
        moreover have "length m' < length m" using a(3) False by (simp add: sizeof_OCRepPayload_def max_object_def)
        ultimately show ?thesis using wf3 [of m'] same3 [of m'] sh2 m1 n(2) by fastforce
      next
        case True': True
        let ?msg = "Represented ((notification ob2 (rs_sequenceNum (sv_resources st ! r)) q)\<lparr>sr_observeResult := OC_STACK_OK\<rparr>) pl"
        let ?st3 = "?st2\<lparr>sv_mem := m', sv_sent := sv_sent st1 @ [?msg], sv_calls := Suc (sv_calls st1)\<rparr>"
        have wf4: "sv_wf L ?st3 (oss[r := ?os2])" by (rule sv_wf_cong [OF wf2]) simp_all
        have r4: "r < length (oss[r := ?os2])" and e4: "oss[r := ?os2] ! r = xs1 @ (p, ob2) # ys1" using r by simp_all
        obtain u h' where t: "reset_ttl p ?st3 = Some (?st3\<lparr>sv_reads := Suc (sv_reads ?st3), sv_nodes := h'\<rparr>)"
          "sv_wf L (?st3\<lparr>sv_reads := Suc (sv_reads ?st3), sv_nodes := h'\<rparr>) (oss[r := ?os2, r := xs1 @ (p, ob2\<lparr>ob_TTL := u\<rparr>) # ys1])"
          using reset_ttl_ok [OF wf4 r4 e4] by blast
        let ?st4 = "?st3\<lparr>sv_reads := Suc (sv_reads ?st3), sv_nodes := h'\<rparr>"
        obtain k f where "list_round r i pl (qos, num, flag, st) = Some (True, q, k, f, ?st4)"
          using run True True' c t(1) by (simp add: represent_def send_def ask_def)
        moreover have "sv_wf L ?st4 (oss[r := xs1 @ (p, ob2\<lparr>ob_TTL := u\<rparr>) # ys1])" using t(2) by simp
        moreover have "shrinks oss (oss[r := xs1 @ (p, ob2\<lparr>ob_TTL := u\<rparr>) # ys1])"
          using shrinks_length [OF sh2] \<open>map obs_id ?os2 = map obs_id os1\<close> upto_ids [OF w(3)]
          by (intro shrinks_update [OF r]) (simp add: obs_id_def)
        moreover have "same_res st ?st4" by (rule same_res_trans [OF same1]) (simp add: same_res_def)
        moreover have "length (sv_mem ?st4) \<le> length (sv_mem st)" using a(2) n(2) m1 by simp
        ultimately show ?thesis by blast
      qed
    qed
  qed
qed

text \<open>
  So the loop ends: every round either takes an id or one of the remaining failures of the allocator.
\<close>

lemma list_loop_ok:
  assumes "sv_wf L st oss" and "r < length oss" and "unat numIds \<le> length is"
  shows "\<exists>q k f st' oss'. list_loop r pl numIds is (qos, num, flag, st) = Some (q, k, f, st') \<and> sv_wf L st' oss' \<and> shrinks oss oss'
    \<and> same_res st st'"
  using assms
proof (induction "unat numIds + length (sv_mem st)" arbitrary: numIds "is" qos num flag st oss rule: less_induct)
  case less
  show ?case
  proof (cases "numIds = 0")
    case True
    then show ?thesis using less.prems(1) by (subst list_loop.simps) (use shrinks_refl in auto)
  next
    case False
    then have n: "unat (numIds - 1) = unat numIds - 1" "0 < unat numIds" by (simp_all add: unat_minus_one unat_gt_0)
    then obtain i js where i: "is = i # js" using less.prems(3) by (cases "is") auto
    obtain g q k f st1 oss1 where w: "list_round r i pl (qos, num, flag, st) = Some (g, q, k, f, st1)" "sv_wf L st1 oss1" "shrinks oss oss1"
      "same_res st st1" "length (sv_mem st1) \<le> length (sv_mem st)" "\<not> g \<longrightarrow> length (sv_mem st1) < length (sv_mem st)"
      using list_round_ok [OF less.prems(1,2)] by blast
    have r1: "r < length oss1" using shrinks_length [OF w(3)] less.prems(2) by simp
    define numIds' ids' where "numIds' = (if g then numIds - 1 else numIds)" and "ids' = (if g then js else is)"
    have "unat numIds' + length (sv_mem st1) < unat numIds + length (sv_mem st)" using n w(5,6) by (cases g) (simp_all add: numIds'_def)
    moreover have "unat numIds' \<le> length ids'" using n less.prems(3) i by (cases g) (simp_all add: numIds'_def ids'_def)
    ultimately obtain q2 k2 f2 st2 oss2 where l: "list_loop r pl numIds' ids' (q, k, f, st1) = Some (q2, k2, f2, st2)" "sv_wf L st2 oss2"
      "shrinks oss1 oss2" "same_res st1 st2"
      using less.hyps [OF _ w(2) r1] by blast
    have "list_loop r pl numIds is (qos, num, flag, st) = Some (q2, k2, f2, st2)"
      using False w(1) i l(1) by (subst list_loop.simps) (auto simp: numIds'_def ids'_def)
    then show ?thesis using l(2) shrinks_trans [OF w(3) l(3)] same_res_trans [OF w(4) l(4)] by blast
  qed
qed

lemma send_list_ok:
  assumes "sv_wf L st oss" and "r < length oss" and "unat n \<le> length is"
  shows "\<exists>res st' oss'. SendListObserverNotification (Some r) (Some is) n (Some pl) qos st = Some (res, st') \<and> sv_wf L st' oss'
    \<and> shrinks oss oss' \<and> same_res st st' \<and> res \<in> {OC_STACK_OK, OC_STACK_ERROR, OC_STACK_NO_OBSERVERS}"
proof (cases "oss ! r")
  case Nil
  then show ?thesis using wf_heads [OF assms(1,2)] assms(1) shrinks_refl by (auto simp: SendListObserverNotification_def)
next
  case (Cons x os)
  obtain q k f st' oss' where "list_loop r pl n is (qos, 0, False, st) = Some (q, k, f, st')" "sv_wf L st' oss'" "shrinks oss oss'" "same_res st st'"
    using list_loop_ok [OF assms] by blast
  then show ?thesis using wf_heads [OF assms(1,2)] Cons by (auto simp: SendListObserverNotification_def)
qed


section \<open>Registering\<close>

lemma set_ids: "set (map obs_id (concat oss)) = ids oss"
  by (auto simp: ids_def)

lemma unique_snoc:
  assumes "unique_ids oss" and "r < length oss" and "obs_id x \<notin> ids oss"
  shows "unique_ids (oss[r := oss ! r @ [x]])"
proof -
  have c: "map obs_id (concat oss) = map obs_id (concat (take r oss)) @ map obs_id (oss ! r) @ map obs_id (concat (drop (Suc r) oss))"
    using concat_nth [OF assms(2)] by simp
  then have "obs_id x \<notin> set (map obs_id (concat (take r oss)) @ map obs_id (oss ! r) @ map obs_id (concat (drop (Suc r) oss)))"
    using assms(3) set_ids [of oss] by simp
  then show ?thesis using assms(1) unfolding unique_ids_def concat_update [OF assms(2)] c by auto
qed

definition observer_of :: "OCServerRequest \<Rightarrow> u8 \<Rightarrow> u8 list \<Rightarrow> u32 \<Rightarrow> ResourceObserver" where
  "observer_of rq i t ttl = new_observer (sr_resourceUrl rq) (Some (sr_query rq)) i t (sr_tokenLength rq) (sr_qos rq)
     (sr_acceptFormat rq) (sr_acceptVersion rq) (sr_devAddr rq) ttl"

definition registered :: "nat \<Rightarrow> server \<Rightarrow> obs list \<Rightarrow> nat \<Rightarrow> OCServerRequest \<Rightarrow> u8 list \<Rightarrow> server \<Rightarrow> obs list \<Rightarrow> bool" where
  "registered L st oss r rq t st' oss' \<longleftrightarrow> sv_wf L st' oss'
     \<and> (\<exists>oss1 p i ttl. all_upto_ttl oss oss1 \<and> i \<notin> ids oss \<and> oss' = oss1[r := oss1 ! r @ [(p, observer_of rq i t ttl)]])"

lemma register_ok:
  assumes run: "register_observer r rq st = Some (result, st')" and wf: "sv_wf L st oss" and r: "r < length oss"
    and t: "sr_requestToken rq = Some t" "unat (sr_tokenLength rq) = L" "length t = L" "0 < L"
  shows "\<exists>oss'. (result = OC_STACK_OK \<and> registered L st oss r rq t st' oss' \<or> result \<noteq> OC_STACK_OK \<and> sv_wf L st' oss' \<and> all_upto_ttl oss oss')
    \<and> same_res st st' \<and> sv_told st' = sv_told st
    \<and> (reliable st \<and> (\<forall>k. sv_random st k \<noteq> None) \<and> short (sr_resourceUrl rq) \<and> short (sr_query rq)
        \<and> rs_resourceProperties (sv_resources st ! r) AND OC_OBSERVABLE \<noteq> 0 \<longrightarrow> result = OC_STACK_OK \<and> reliable st')"
proof -
  obtain res x st1 where g: "GenerateObserverId st = Some (res, x, st1)"
    using run by (cases "GenerateObserverId st") (auto simp: register_observer_def)
  obtain oss1 where o: "sv_wf L st1 oss1" "all_upto_ttl oss oss1" "only_reminders st st1" "sv_told st1 = sv_told st" "generated oss st res x"
    using generate_sound [OF g wf] by blast
  show ?thesis
  proof (cases x)
    case None
    then have "st' = st1" "result = res" using run g by (auto simp: register_observer_def)
    then show ?thesis using o None by (auto simp: generated_def only_reminders_def)
  next
    case (Some i)
    then have i: "i \<notin> ids oss" using o(5) by (auto simp: generated_def)
    have r1: "r < length oss1" using all_upto_nth(1) [OF o(2) r] r by simp
    have props: "rs_resourceProperties (sv_resources st1 ! r) = rs_resourceProperties (sv_resources st ! r)"
      using same_res_nth(2) [of st st1 r] o(3) r sv_wfD(1) [OF wf] by (simp add: only_reminders_def)
    have add: "AddObserver (Some (sr_resourceUrl rq)) (Some (sr_query rq)) i (Some t) (sr_tokenLength rq) (Some r)
        (sr_qos rq) (sr_acceptFormat rq) (sr_acceptVersion rq) (sr_devAddr rq) st1 = Some (result, st')"
      using run g Some t(1) by (simp add: register_observer_def)
    show ?thesis
    proof (cases "rs_resourceProperties (sv_resources st1 ! r) AND OC_OBSERVABLE = 0")
      case True
      then have "st' = st1" "result = OC_STACK_RESOURCE_ERROR" using add wf_heads(1) [OF o(1) r1] by (simp_all add: AddObserver_def)
      then show ?thesis using o True props by (auto simp: only_reminders_def)
    next
      case False
      obtain result' st2 where a: "AddObserver (Some (sr_resourceUrl rq)) (Some (sr_query rq)) i (Some t) (sr_tokenLength rq) (Some r)
          (sr_qos rq) (sr_acceptFormat rq) (sr_acceptVersion rq) (sr_devAddr rq) st1 = Some (result', st2)" "same_res st1 st2" "sv_told st2 = sv_told st1"
        "result' = OC_STACK_OK \<and> (\<exists>ttl. sv_wf L st2 (oss1[r := oss1 ! r @ [(sv_fresh st1, observer_of rq i t ttl)]])) \<and> (reliable st1 \<longrightarrow> reliable st2)
         \<or> result' = OC_STACK_NO_MEMORY \<and> sv_wf L st2 oss1 \<and> \<not> (reliable st1 \<and> short (sr_resourceUrl rq) \<and> short (sr_query rq))"
        using add_observer_ok [OF o(1) r1 t(2-4) False, of "sr_resourceUrl rq" "Some (sr_query rq)" i "sr_qos rq" "sr_acceptFormat rq" "sr_acceptVersion rq" "sr_devAddr rq"]
        unfolding observer_of_def by auto
      then have e: "result' = result" "st2 = st'" using add by simp_all
      have "same_res st st'" using a(2) o(3) same_res_trans unfolding e only_reminders_def by blast
      moreover have "sv_told st' = sv_told st" using a(3) o(4) e by simp
      ultimately show ?thesis using a(4) o(1-3) i unfolding e registered_def only_reminders_def by blast
    qed
  qed
qed

section \<open>Requests to observe /oic/res\<close>

text \<open>A request with a token of the right length for the observable list of resources.\<close>

definition observe_request :: "nat \<Rightarrow> server \<Rightarrow> nat \<Rightarrow> OCServerRequest \<Rightarrow> u8 list \<Rightarrow> bool" where
  "observe_request L st r rq t \<longleftrightarrow> sr_notificationFlag rq = 0 \<and> sr_resourceUrl rq = OC_RSRVD_WELL_KNOWN_URI
     \<and> FindResourceByUri OC_RSRVD_WELL_KNOWN_URI st = Some r \<and> sr_requestToken rq = Some t
     \<and> unat (sr_tokenLength rq) = L \<and> length t = L \<and> 0 < L"

lemma find_resource_same:
  assumes "same_res st st'"
  shows "FindResourceByUri u st' = FindResourceByUri u st"
proof -
  have f: "find_index (\<lambda>res. u = rs_uri res) xs = find_index (\<lambda>v. u = v) (map rs_uri xs)" for xs
    by (induction xs) auto
  have m: "map rs_uri (sv_resources st') = map rs_uri (sv_resources st)"
    using same_res_nth [OF assms] by (intro nth_equalityI) simp_all
  show ?thesis unfolding FindResourceByUri_def f m ..
qed

lemma found_resource: "FindResourceByUri u st = Some r \<Longrightarrow> r < length (sv_resources st)"
  by (simp add: FindResourceByUri_def find_index_SomeD)

lemma observe_request_same: "same_res st st' \<Longrightarrow> observe_request L st' r rq t = observe_request L st r rq t"
  by (simp add: observe_request_def find_resource_same)

lemma deregister_ok:
  assumes wf: "sv_wf L st oss" and rq: "observe_request L st r rq t" and o: "sr_observationOption rq = OC_OBSERVE_DEREGISTER"
  shows "\<exists>st' os'. HandleVirtualObserveRequest rq st
      = Some (OC_STACK_OK, rq\<lparr>sr_observeResult := OC_STACK_OK, sr_observationOption := MAX_SEQUENCE_NUMBER + 1\<rparr>, st')
    \<and> sv_wf L st' (oss[r := os']) \<and> upto_ttl (drop_first (has_token t) (oss ! r)) os' \<and> only_reminders st st' \<and> sv_told st' = sv_told st"
proof -
  have r: "r < length oss" using rq found_resource sv_wfD(1) [OF wf] by (auto simp: observe_request_def)
  have t: "unat (sr_tokenLength rq) = L" "length t = L" using rq by (simp_all add: observe_request_def)
  obtain st' os' where d: "DeleteObserverUsingToken r (Some t) (sr_tokenLength rq) st = Some (OC_STACK_OK, st')" "sv_wf L st' (oss[r := os'])"
    "upto_ttl (drop_first (has_token t) (oss ! r)) os'" "only_reminders st st'" "sv_told st' = sv_told st"
    using delete_token_ok [OF wf r t] by blast
  then show ?thesis using rq o
    by (intro exI [of _ st'] exI [of _ os']) (simp add: HandleVirtualObserveRequest_def observe_request_def OC_OBSERVE_REGISTER_def OC_OBSERVE_DEREGISTER_def)
qed

lemma duplicate_ok:
  assumes wf: "sv_wf L st oss" and rq: "observe_request L st r rq t" and o: "sr_observationOption rq = OC_OBSERVE_REGISTER"
    and d: "\<exists>x\<in>set (oss ! r). has_token t x"
  shows "\<exists>st' os'. HandleVirtualObserveRequest rq st = Some (OC_STACK_DUPLICATE_REQUEST, rq, st')
    \<and> sv_wf L st' (oss[r := os']) \<and> upto_ttl (oss ! r) os' \<and> only_reminders st st' \<and> sv_told st' = sv_told st"
proof -
  have r: "r < length oss" using rq found_resource sv_wfD(1) [OF wf] by (auto simp: observe_request_def)
  have t: "unat (sr_tokenLength rq) = L" "length t = L" using rq by (simp_all add: observe_request_def)
  obtain st' os' where g: "GetObserverUsingToken r (Some t) (sr_tokenLength rq) st = Some (map_option fst (find (has_token t) (oss ! r)), st')"
    "sv_wf L st' (oss[r := os'])" "upto_ttl (oss ! r) os'" "reminded st st'"
    using token_search_ok [OF wf r t] by (auto simp: has_token_def [abs_def])
  have "find (has_token t) (oss ! r) \<noteq> None" using d unfolding find_None_iff by blast
  then have "HandleVirtualObserveRequest rq st = Some (OC_STACK_DUPLICATE_REQUEST, rq, st')"
    using rq o g(1) by (auto simp: HandleVirtualObserveRequest_def observe_request_def)
  then show ?thesis using g(2,3) reminded_only [OF g(4)] reminded_draws [OF g(4)] by blast
qed

lemma virtual_register:
  assumes wf: "sv_wf L st oss" and rq: "observe_request L st r rq t" and o: "sr_observationOption rq = OC_OBSERVE_REGISTER"
    and new: "\<not> (\<exists>x\<in>set (oss ! r). has_token t x)"
  obtains st1 os1 where "sv_wf L st1 (oss[r := os1])" "upto_ttl (oss ! r) os1" "only_reminders st st1" "sv_told st1 = sv_told st"
    "sv_draws st1 = sv_draws st" "sv_random st1 = sv_random st"
    "HandleVirtualObserveRequest rq st = map_option (\<lambda>(result, st'). (OC_STACK_OK,
       rq\<lparr>sr_observeResult := (if result = OC_STACK_OK then OC_STACK_OK else OC_STACK_ERROR)\<rparr>, st')) (register_observer r rq st1)"
proof -
  have r: "r < length oss" using rq found_resource sv_wfD(1) [OF wf] by (auto simp: observe_request_def)
  have t: "unat (sr_tokenLength rq) = L" "length t = L" using rq by (simp_all add: observe_request_def)
  obtain st1 os1 where g: "GetObserverUsingToken r (Some t) (sr_tokenLength rq) st = Some (map_option fst (find (has_token t) (oss ! r)), st1)"
    "sv_wf L st1 (oss[r := os1])" "upto_ttl (oss ! r) os1" "reminded st st1"
    using token_search_ok [OF wf r t] by (auto simp: has_token_def [abs_def])
  have "find (has_token t) (oss ! r) = None" using new unfolding find_None_iff by blast
  then have "HandleVirtualObserveRequest rq st = map_option (\<lambda>(result, st'). (OC_STACK_OK,
       rq\<lparr>sr_observeResult := (if result = OC_STACK_OK then OC_STACK_OK else OC_STACK_ERROR)\<rparr>, st')) (register_observer r rq st1)"
    using rq o g(1) by (cases "register_observer r rq st1") (auto simp: HandleVirtualObserveRequest_def observe_request_def)
  then show ?thesis using that g(2,3) reminded_only [OF g(4)] reminded_draws [OF g(4)] by blast
qed

end
