(* ===== verification/ObserverSystem.thy ===== *)
theory ObserverSystem
  imports ObserverRuns
begin

text \<open>
  The operations on observers as steps of a server, with the invariant that every step keeps, and the
  property that registering and deregistering are inverse.
\<close>

section \<open>Steps\<close>

definition obs_inv :: "nat \<Rightarrow> server \<Rightarrow> obs list \<Rightarrow> bool" where
  "obs_inv L st oss \<longleftrightarrow> sv_wf L st oss \<and> unique_ids oss
     \<and> (\<forall>r<length oss. rs_sequenceNum (sv_resources st ! r) < MAX_SEQUENCE_NUMBER)"

inductive obs_step :: "nat \<Rightarrow> server \<Rightarrow> server \<Rightarrow> bool" for L where
  step_notify: "OCNotifyAllObservers h qos st = Some (res, st') \<Longrightarrow> obs_step L st st'"
| step_notify_list: "OCNotifyListOfObservers h (Some is) n pl qos st = Some (res, st') \<Longrightarrow> unat n \<le> length is \<Longrightarrow> obs_step L st st'"
| step_request: "HandleVirtualObserveRequest rq st = Some (res, rq', st') \<Longrightarrow> sr_requestToken rq = Some t
    \<Longrightarrow> unat (sr_tokenLength rq) = L \<Longrightarrow> length t = L \<Longrightarrow> obs_step L st st'"
| step_feedback: "OCStackFeedBack (Some t) n status st = Some (res, st') \<Longrightarrow> unat n = L \<Longrightarrow> length t = L \<Longrightarrow> obs_step L st st'"
| step_gone: "GiveStackFeedBackObserverNotInterested dev st = Some st' \<Longrightarrow> obs_step L st st'"
| step_clear: "DeleteObserverList r st = Some st' \<Longrightarrow> obs_step L st st'"

inductive obs_run :: "nat \<Rightarrow> server \<Rightarrow> server \<Rightarrow> bool" for L where
  obs_start: "obs_run L st st"
| obs_more: "obs_run L st st1 \<Longrightarrow> obs_step L st1 st' \<Longrightarrow> obs_run L st st'"

lemma next_sequence_bound: "n < MAX_SEQUENCE_NUMBER \<Longrightarrow> 0 < next_sequence n \<and> next_sequence n < MAX_SEQUENCE_NUMBER"
proof -
  assume "n < MAX_SEQUENCE_NUMBER"
  then have "unat n < 0xFFFFFF" by (simp add: MAX_SEQUENCE_NUMBER_def word_less_nat_alt)
  then have "unat (n + 1) = unat n + 1" by (subst unat_plus_simple [THEN iffD1]) (simp_all add: word_le_nat_alt unat_word_ariths)
  then show ?thesis using \<open>unat n < 0xFFFFFF\<close>
    by (auto simp: next_sequence_def MAX_SEQUENCE_NUMBER_def OC_OFFSET_SEQUENCE_NUMBER_def word_less_nat_alt word_unat_eq_iff)
qed

lemma increment_wf:
  assumes "sv_wf L st oss" and "r < length oss"
  shows "sv_wf L (incrementSequenceNumber r st) oss"
    "sv_resources (incrementSequenceNumber r st) ! r = (sv_resources st ! r)\<lparr>rs_sequenceNum := next_sequence (rs_sequenceNum (sv_resources st ! r))\<rparr>"
    "s \<noteq> r \<Longrightarrow> sv_resources (incrementSequenceNumber r st) ! s = sv_resources st ! s"
proof -
  have r: "r < length (sv_resources st)" using sv_wfD(1) [OF assms(1)] assms(2) by simp
  then show n: "sv_resources (incrementSequenceNumber r st) ! r = (sv_resources st ! r)\<lparr>rs_sequenceNum := next_sequence (rs_sequenceNum (sv_resources st ! r))\<rparr>"
    by (simp add: incrementSequenceNumber_def)
  show o: "sv_resources (incrementSequenceNumber r st) ! s = sv_resources st ! s" if "s \<noteq> r" for s
    using that by (simp add: incrementSequenceNumber_def)
  have "head_of (incrementSequenceNumber r st) s = head_of st s" for s
    using n o by (cases "s = r") (simp_all add: head_of_def)
  then show "sv_wf L (incrementSequenceNumber r st) oss" using assms(1) by (simp add: sv_wf_def incrementSequenceNumber_def)
qed

lemma increment_inv:
  assumes "obs_inv L st oss" and "r < length oss"
  shows "obs_inv L (incrementSequenceNumber r st) oss"
proof -
  have wf: "sv_wf L st oss" using assms(1) by (simp add: obs_inv_def)
  have "rs_sequenceNum (sv_resources (incrementSequenceNumber r st) ! s) < MAX_SEQUENCE_NUMBER" if "s < length oss" for s
    using increment_wf(2,3) [OF wf assms(2)] next_sequence_bound assms that by (cases "s = r") (simp_all add: obs_inv_def)
  then show ?thesis using increment_wf(1) [OF wf assms(2)] assms(1) by (simp add: obs_inv_def)
qed

lemma inv_keeps:
  assumes "obs_inv L st oss" and "sv_wf L st' oss'" and "unique_ids oss'" and "length oss' = length oss" and "same_res st st'"
  shows "obs_inv L st' oss'"
  using assms same_res_nth(2) [OF assms(5)] sv_wfD(1) [of L st oss] by (simp add: obs_inv_def)

lemma inv_shrinks: "obs_inv L st oss \<Longrightarrow> sv_wf L st' oss' \<Longrightarrow> shrinks oss oss' \<Longrightarrow> same_res st st' \<Longrightarrow> obs_inv L st' oss'"
  by (rule inv_keeps) (auto simp: obs_inv_def shrinks_length intro: shrinks_unique)

lemma only_same: "only_reminders st st' \<Longrightarrow> same_res st st'"
  by (simp add: only_reminders_def)

section \<open>The operations on the invariant\<close>

text \<open>Every operation but the search for a fresh id returns.\<close>

lemma notify_shrinks:
  assumes "r < length oss" and "upto_ttl (map snd (plan m qos (oss ! r))) os"
  shows "shrinks oss (oss[r := os])"
  by (rule shrinks_update [OF assms(1)]) (simp only: upto_ids [OF assms(2)] plan_ids subseq_order.refl)

lemma notify_inv:
  assumes inv: "obs_inv L st oss"
  shows "\<exists>res st' oss'. OCNotifyAllObservers h qos st = Some (res, st') \<and> obs_inv L st' oss'"
proof (cases "h = sv_presence st \<or> h = None \<or> \<not> the h < length (sv_resources st)")
  case True
  then show ?thesis using inv by (cases h) (auto simp: OCNotifyAllObservers_def findResource_def)
next
  case False
  then obtain r where h: "h = Some r" "h \<noteq> sv_presence st" "r < length (sv_resources st)" by auto
  have r: "r < length oss" using inv h(3) sv_wfD(1) [of L st oss] by (simp add: obs_inv_def)
  let ?st = "incrementSequenceNumber r st"
  have inv1: "obs_inv L ?st oss" by (rule increment_inv [OF inv r])
  then have wf1: "sv_wf L ?st oss" by (simp add: obs_inv_def)
  have e: "OCNotifyAllObservers h qos st = SendAllObserverNotification OC_REST_OBSERVE (Some r) MAX_OBSERVE_AGE OC_PRESENCE_TRIGGER_DELETE None qos ?st"
    using h by (simp add: OCNotifyAllObservers_def findResource_def)
  show ?thesis
  proof (cases "oss ! r")
    case Nil
    then have "OCNotifyAllObservers h qos st = Some (OC_STACK_NO_OBSERVERS, ?st)"
      using e wf_heads [OF wf1 r] by (simp add: SendAllObserverNotification_def)
    then show ?thesis using inv1 by blast
  next
    case (Cons x os)
    then obtain res st' os' where "SendAllObserverNotification OC_REST_OBSERVE (Some r) MAX_OBSERVE_AGE OC_PRESENCE_TRIGGER_DELETE None qos ?st = Some (res, st')"
      "sv_wf L st' (oss[r := os'])" "upto_ttl (map snd (plan OC_REST_OBSERVE qos (oss ! r))) os'" "same_stack ?st st'"
      using send_all_ok [OF wf1 r, of OC_REST_OBSERVE MAX_OBSERVE_AGE OC_PRESENCE_TRIGGER_DELETE None qos] by auto
    then show ?thesis using e inv_shrinks [OF inv1 _ notify_shrinks [OF r] same_stack_res] by metis
  qed
qed

lemma notify_list_inv:
  assumes inv: "obs_inv L st oss" and n: "unat n \<le> length is"
  shows "\<exists>res st' oss'. OCNotifyListOfObservers h (Some is) n pl qos st = Some (res, st') \<and> obs_inv L st' oss'"
proof (cases "h = None \<or> pl = None \<or> findResource (the h) st = None \<or> sv_mode st = OC_CLIENT")
  case True
  then show ?thesis using inv by (cases h; cases pl) (auto simp: OCNotifyListOfObservers_def)
next
  case False
  then obtain r p where h: "h = Some r" "pl = Some p" "r < length (sv_resources st)" "sv_mode st \<noteq> OC_CLIENT"
    by (auto simp: findResource_def split: if_splits)
  have r: "r < length oss" using inv h(3) sv_wfD(1) [of L st oss] by (simp add: obs_inv_def)
  let ?st = "incrementSequenceNumber r st"
  have inv1: "obs_inv L ?st oss" by (rule increment_inv [OF inv r])
  then have wf1: "sv_wf L ?st oss" by (simp add: obs_inv_def)
  obtain res st' oss' where "SendListObserverNotification (Some r) (Some is) n (Some p) qos ?st = Some (res, st')" "sv_wf L st' oss'"
    "shrinks oss oss'" "same_res ?st st'"
    using send_list_ok [OF wf1 r n] by blast
  then show ?thesis using h inv_shrinks [OF inv1] by (auto simp: OCNotifyListOfObservers_def findResource_def)
qed

lemma feedback_inv:
  assumes inv: "obs_inv L st oss" and t: "unat n = L" "length t = L"
  shows "\<exists>res st' oss'. OCStackFeedBack (Some t) n status st = Some (res, st') \<and> obs_inv L st' oss'"
proof (cases "locate t 0 oss")
  case None
  then show ?thesis
    using feedback_not_found [of L st oss n t status] inv t inv_shrinks [OF inv _ shrinks_upto only_same] by (metis obs_inv_def)
next
  case (Some y)
  obtain r p where l: "locate t 0 oss = Some (r, p)" using Some by (cases y) simp
  have wf: "sv_wf L st oss" using inv by (simp add: obs_inv_def)
  obtain xs ob ys where k: "r < length oss" "oss ! r = xs @ (p, ob) # ys" using locate_found [OF l] by auto
  obtain result x where f: "feedback status ob = (result, x)" by fastforce
  obtain st' oss' where w: "OCStackFeedBack (Some t) n status st = Some (result, st')" "sv_wf L st' oss'"
    "all_upto_ttl (oss[r := settle p x xs ys]) oss'" "only_reminders st st'"
    using feedback_ok [OF wf t l k(2) f] by blast
  have "ob_observeId y = ob_observeId ob" if "x = Some y" for y using f that by (auto simp: feedback_def split: if_splits)
  then have "subseq (map obs_id (settle p x xs ys)) (map obs_id (oss ! r))"
    by (cases x) (auto simp: settle_def k(2) obs_id_def intro: list_emb_append_mono)
  then have "shrinks oss oss'" using shrinks_trans [OF shrinks_update [OF k(1)] shrinks_upto [OF w(3)]] by blast
  then show ?thesis using w(1) inv_shrinks [OF inv w(2) _ only_same [OF w(4)]] by blast
qed

lemma gone_inv:
  assumes inv: "obs_inv L st oss"
  shows "\<exists>st' oss'. GiveStackFeedBackObserverNotInterested dev st = Some st' \<and> obs_inv L st' oss'"
proof (cases dev)
  case None
  then show ?thesis using inv by (auto simp: GiveStackFeedBackObserverNotInterested_def)
next
  case (Some d)
  have wf: "sv_wf L st oss" using inv by (simp add: obs_inv_def)
  obtain st' oss' where "gone_from (length oss) 0 d st = Some st'" "sv_wf L st' oss'" "shrinks oss oss'" "same_res st st'"
    using gone_from_ok [OF wf, of "length oss" 0 d] by auto
  then show ?thesis using Some sv_wfD(1) [OF wf] inv_shrinks [OF inv] by (auto simp: GiveStackFeedBackObserverNotInterested_def)
qed

lemma clear_inv:
  assumes inv: "obs_inv L st oss" and r: "r < length oss"
  shows "\<exists>st'. DeleteObserverList r st = Some st' \<and> obs_inv L st' (oss[r := []])"
proof -
  have wf: "sv_wf L st oss" using inv by (simp add: obs_inv_def)
  obtain st' where "DeleteObserverList r st = Some st'" "sv_wf L st' (oss[r := []])" "only_reminders st st'"
    using delete_list_ok [OF wf r] by blast
  then show ?thesis using inv_shrinks [OF inv _ shrinks_update [OF r] only_same] by auto
qed

lemma request_inv:
  assumes inv: "obs_inv L st oss" and run: "HandleVirtualObserveRequest rq st = Some (res, rq', st')"
    and t: "sr_requestToken rq = Some t" "unat (sr_tokenLength rq) = L" "length t = L" "0 < L"
  shows "\<exists>oss'. obs_inv L st' oss'"
proof -
  have wf: "sv_wf L st oss" using inv by (simp add: obs_inv_def)
  show ?thesis
  proof (cases "\<exists>r. observe_request L st r rq t")
    case False
    then have "st' = st" using run t by (auto simp: HandleVirtualObserveRequest_def observe_request_def split: if_splits option.splits)
    then show ?thesis using inv by blast
  next
    case True
    then obtain r where rq: "observe_request L st r rq t" by blast
    then have r: "r < length oss" using found_resource sv_wfD(1) [OF wf] by (auto simp: observe_request_def)
    consider (reg) "sr_observationOption rq = OC_OBSERVE_REGISTER" "\<not> (\<exists>x\<in>set (oss ! r). has_token t x)"
      | (dup) "sr_observationOption rq = OC_OBSERVE_REGISTER" "\<exists>x\<in>set (oss ! r). has_token t x"
      | (dereg) "sr_observationOption rq = OC_OBSERVE_DEREGISTER" "sr_observationOption rq \<noteq> OC_OBSERVE_REGISTER"
      | (other) "sr_observationOption rq \<noteq> OC_OBSERVE_REGISTER" "sr_observationOption rq \<noteq> OC_OBSERVE_DEREGISTER" by blast
    then show ?thesis
    proof cases
      case dup
      then show ?thesis using duplicate_ok [OF wf rq dup] run inv_shrinks [OF inv _ shrinks_upto [OF all_upto_update [OF r]] only_same] by fastforce
    next
      case dereg
      then show ?thesis using deregister_ok [OF wf rq dereg(1)] run inv_shrinks [OF inv _ shrinks_drop [OF r] only_same] by fastforce
    next
      case other
      then have "st' = st" using rq run by (auto simp: HandleVirtualObserveRequest_def observe_request_def)
      then show ?thesis using inv by blast
    next
      case reg
      obtain st1 os1 where v: "sv_wf L st1 (oss[r := os1])" "upto_ttl (oss ! r) os1" "only_reminders st st1"
        "HandleVirtualObserveRequest rq st = map_option (\<lambda>(result, st'). (OC_STACK_OK,
           rq\<lparr>sr_observeResult := (if result = OC_STACK_OK then OC_STACK_OK else OC_STACK_ERROR)\<rparr>, st')) (register_observer r rq st1)"
        using virtual_register [OF wf rq reg] by metis
      then obtain result where g: "register_observer r rq st1 = Some (result, st')"
        using run by (cases "register_observer r rq st1") auto
      have inv1: "obs_inv L st1 (oss[r := os1])"
        by (rule inv_shrinks [OF inv v(1) shrinks_upto [OF all_upto_update [OF r v(2)]] only_same [OF v(3)]])
      have r1: "r < length (oss[r := os1])" using r by simp
      obtain oss' where o: "result = OC_STACK_OK \<and> registered L st1 (oss[r := os1]) r rq t st' oss'
          \<or> result \<noteq> OC_STACK_OK \<and> sv_wf L st' oss' \<and> all_upto_ttl (oss[r := os1]) oss'" "same_res st1 st'"
        using register_ok [OF g v(1) r1 t] by blast
      then show ?thesis
      proof (elim disjE conjE)
        assume "registered L st1 (oss[r := os1]) r rq t st' oss'"
        then obtain oss2 p i ttl where e: "sv_wf L st' oss'" "all_upto_ttl (oss[r := os1]) oss2" "i \<notin> ids (oss[r := os1])"
          "oss' = oss2[r := oss2 ! r @ [(p, observer_of rq i t ttl)]]" unfolding registered_def by blast
        have u: "unique_ids oss2" using shrinks_unique [OF shrinks_upto [OF e(2)]] inv1 by (simp add: obs_inv_def)
        have len: "length oss2 = length (oss[r := os1])" using shrinks_length [OF shrinks_upto [OF e(2)]] .
        have "unique_ids oss'"
          unfolding e(4) by (rule unique_snoc [OF u]) (use len r e(3) ids_upto [OF e(2)] in \<open>simp_all add: obs_id_def observer_of_def new_observer_def\<close>)
        then show ?thesis using inv_keeps [OF inv1 e(1) _ _ o(2)] len e(4) by auto
      qed (use inv_shrinks [OF inv1 _ shrinks_upto o(2)] in blast)
    qed
  qed
qed

text \<open>
  A request returns: the search for an id ends when the random source fails or draws an id that is free.
\<close>

lemma register_returns:
  assumes wf: "sv_wf L st oss" and r: "r < length oss"
    and t: "sr_requestToken rq = Some t" "unat (sr_tokenLength rq) = L" "length t = L" "0 < L"
    and draw: "case sv_random st (sv_draws st + k) of None \<Rightarrow> True | Some i \<Rightarrow> i \<notin> ids oss"
  shows "register_observer r rq st \<noteq> None"
proof -
  obtain res x st2 where g: "GenerateObserverId st = Some (res, x, st2)"
    using generate_total [OF wf draw] by auto
  then obtain oss2 where o2: "sv_wf L st2 oss2" "all_upto_ttl oss oss2" using generate_sound [OF g wf] by blast
  have r2: "r < length oss2" using all_upto_nth(1) [OF o2(2) r] r by simp
  show ?thesis
  proof (cases x)
    case None
    then show ?thesis using g by (simp add: register_observer_def)
  next
    case (Some j)
    show ?thesis
    proof (cases "rs_resourceProperties (sv_resources st2 ! r) AND OC_OBSERVABLE = 0")
      case True
      then show ?thesis using g Some wf_heads(1) [OF o2(1) r2] by (simp add: register_observer_def AddObserver_def)
    next
      case False
      then show ?thesis
        using add_observer_ok [OF o2(1) r2 t(2-4), of "sr_resourceUrl rq" "Some (sr_query rq)" j "sr_qos rq" "sr_acceptFormat rq"
            "sr_acceptVersion rq" "sr_devAddr rq"] g Some t(1) by (auto simp: register_observer_def)
    qed
  qed
qed

lemma request_returns:
  assumes wf: "sv_wf L st oss" and t: "sr_requestToken rq = Some t" "unat (sr_tokenLength rq) = L" "length t = L" "0 < L"
    and draw: "sr_observationOption rq = OC_OBSERVE_REGISTER \<longrightarrow>
      (\<exists>k. case sv_random st (sv_draws st + k) of None \<Rightarrow> True | Some i \<Rightarrow> i \<notin> ids oss)"
  shows "HandleVirtualObserveRequest rq st \<noteq> None"
proof (cases "\<exists>r. observe_request L st r rq t")
  case False
  then show ?thesis using t by (auto simp: HandleVirtualObserveRequest_def observe_request_def split: option.splits)
next
  case True
  then obtain r where rq: "observe_request L st r rq t" by blast
  then have r: "r < length oss" using found_resource sv_wfD(1) [OF wf] by (auto simp: observe_request_def)
  consider (reg) "sr_observationOption rq = OC_OBSERVE_REGISTER" "\<not> (\<exists>x\<in>set (oss ! r). has_token t x)"
    | (dup) "sr_observationOption rq = OC_OBSERVE_REGISTER" "\<exists>x\<in>set (oss ! r). has_token t x"
    | (dereg) "sr_observationOption rq = OC_OBSERVE_DEREGISTER"
    | (other) "sr_observationOption rq \<noteq> OC_OBSERVE_REGISTER" "sr_observationOption rq \<noteq> OC_OBSERVE_DEREGISTER" by blast
  then show ?thesis
  proof cases
    case reg
    obtain st1 os1 where v: "sv_wf L st1 (oss[r := os1])" "upto_ttl (oss ! r) os1" "sv_draws st1 = sv_draws st" "sv_random st1 = sv_random st"
      "HandleVirtualObserveRequest rq st = map_option (\<lambda>(result, st'). (OC_STACK_OK,
         rq\<lparr>sr_observeResult := (if result = OC_STACK_OK then OC_STACK_OK else OC_STACK_ERROR)\<rparr>, st')) (register_observer r rq st1)"
      using virtual_register [OF wf rq reg] by metis
    obtain k where k: "case sv_random st (sv_draws st + k) of None \<Rightarrow> True | Some i \<Rightarrow> i \<notin> ids oss"
      using draw reg(1) by blast
    have fresh: "case sv_random st1 (sv_draws st1 + k) of None \<Rightarrow> True | Some i \<Rightarrow> i \<notin> ids (oss[r := os1])"
      unfolding v(3,4) ids_upto [OF all_upto_update [OF r v(2)]] by (rule k)
    have "r < length (oss[r := os1])" using r by simp
    from register_returns [OF v(1) this t fresh] v(5) show ?thesis by auto
  next
    case dup
    then show ?thesis using duplicate_ok [OF wf rq dup] by auto
  next
    case dereg
    then show ?thesis using deregister_ok [OF wf rq dereg] by auto
  next
    case other
    then show ?thesis using rq by (simp add: HandleVirtualObserveRequest_def observe_request_def)
  qed
qed

lemma run_inv: "obs_run L st st' \<Longrightarrow> 0 < L \<Longrightarrow> obs_inv L st oss \<Longrightarrow> \<exists>oss'. obs_inv L st' oss'"
proof (induction rule: obs_run.induct)
  case (obs_more st st1 st')
  then obtain oss1 where inv: "obs_inv L st1 oss1" by blast
  from obs_more.hyps(2) show ?case
  proof (cases rule: obs_step.cases)
    case (step_clear r)
    then have "r < length oss1"
      using inv sv_wfD(1) [of L st1 oss1] by (auto simp: DeleteObserverList_def cell_read_def obs_inv_def split: if_splits)
    then obtain st2 where "DeleteObserverList r st1 = Some st2" "obs_inv L st2 (oss1[r := []])" using clear_inv [OF inv] by blast
    then show ?thesis using step_clear by auto
  next
    case (step_request rq res rq' t)
    then show ?thesis using request_inv [OF inv] obs_more.prems(1) by blast
  next
    case (step_notify h qos res)
    then show ?thesis using notify_inv [OF inv, of h qos] by auto
  next
    case (step_notify_list h "is" n pl qos res)
    then show ?thesis using notify_list_inv [OF inv, of n "is" h pl qos] by auto
  next
    case (step_feedback t n status res)
    then show ?thesis using feedback_inv [OF inv, of n t status] by auto
  next
    case (step_gone dev)
    then show ?thesis using gone_inv [OF inv, of dev] by auto
  qed
qed blast

lemma few_observers:
  assumes "unique_ids oss"
  shows "length (concat oss) \<le> 256"
proof -
  have "length (map obs_id (concat oss)) = card (set (map obs_id (concat oss)))"
    using assms unfolding unique_ids_def by (rule distinct_card [symmetric])
  also have "\<dots> \<le> card (UNIV :: u8 set)" by (rule card_mono) simp_all
  also have "\<dots> = 256" by (simp add: card_word)
  finally show ?thesis by simp
qed

text \<open>With fewer observers than ids there is a free one.\<close>

lemma free_id:
  assumes "length (concat oss) < 256"
  shows "\<exists>i. i \<notin> ids oss"
proof -
  have "ids oss = set (map obs_id (concat oss))" by (auto simp: ids_def obs_id_def)
  then have "card (ids oss) \<le> length (concat oss)" using card_length [of "map obs_id (concat oss)"] by simp
  moreover have "card (UNIV :: u8 set) = 256" by (simp add: card_word)
  ultimately have "ids oss \<noteq> UNIV" using assms by auto
  then show ?thesis by auto
qed

section \<open>Registering and deregistering\<close>

lemma drop_first_snoc: "\<forall>y\<in>set os. \<not> P y \<Longrightarrow> P x \<Longrightarrow> drop_first P (os @ [x]) = os"
  by (induction os) auto

lemma upto_token: "upto_ttl xs ys \<Longrightarrow> (\<exists>x\<in>set ys. has_token t x) = (\<exists>x\<in>set xs. has_token t x)"
proof (induction xs arbitrary: ys)
  case (Cons x xs)
  obtain p a where x: "x = (p, a)" by fastforce
  obtain u zs where "ys = (p, a\<lparr>ob_TTL := u\<rparr>) # zs" "upto_ttl xs zs" using Cons.prems x by auto
  then show ?case using Cons.IH [of zs] x by (simp add: has_token_def)
qed simp

lemma observe_request_option [simp]:
  "observe_request L st r (rq\<lparr>sr_observationOption := v\<rparr>) t = observe_request L st r rq t"
  by (simp add: observe_request_def)

lemma register_request:
  assumes wf: "sv_wf L st oss" and rq: "observe_request L st r rq t" and o: "sr_observationOption rq = OC_OBSERVE_REGISTER"
    and new: "\<not> (\<exists>x\<in>set (oss ! r). has_token t x)"
    and obs: "rs_resourceProperties (sv_resources st ! r) AND OC_OBSERVABLE \<noteq> 0"
    and env: "reliable st" "short (sr_query rq)" "\<forall>k. sv_random st k \<noteq> None" "\<exists>k i. sv_random st (sv_draws st + k) = Some i \<and> i \<notin> ids oss"
  shows "\<exists>st1 oss1 p i ttl. HandleVirtualObserveRequest rq st = Some (OC_STACK_OK, rq\<lparr>sr_observeResult := OC_STACK_OK\<rparr>, st1)
    \<and> all_upto_ttl oss oss1 \<and> i \<notin> ids oss \<and> sv_wf L st1 (oss1[r := oss1 ! r @ [(p, observer_of rq i t ttl)]]) \<and> same_res st st1"
proof -
  have r: "r < length oss" using rq found_resource sv_wfD(1) [OF wf] by (auto simp: observe_request_def)
  have t: "sr_requestToken rq = Some t" "unat (sr_tokenLength rq) = L" "length t = L" "0 < L" using rq by (simp_all add: observe_request_def)
  obtain st1 os1 where v: "sv_wf L st1 (oss[r := os1])" "upto_ttl (oss ! r) os1" "only_reminders st st1"
    "sv_draws st1 = sv_draws st" "sv_random st1 = sv_random st"
    "HandleVirtualObserveRequest rq st = map_option (\<lambda>(result, st'). (OC_STACK_OK,
       rq\<lparr>sr_observeResult := (if result = OC_STACK_OK then OC_STACK_OK else OC_STACK_ERROR)\<rparr>, st')) (register_observer r rq st1)"
    using virtual_register [OF wf rq o new] by metis
  have u: "all_upto_ttl oss (oss[r := os1])" by (rule all_upto_update [OF r v(2)])
  have r1: "r < length (oss[r := os1])" using r by simp
  have e: "reliable st1" "short (sr_resourceUrl rq)" "rs_resourceProperties (sv_resources st1 ! r) AND OC_OBSERVABLE \<noteq> 0"
    using v(3) env(1) obs rq same_res_nth(2) [OF only_same [OF v(3)], of r] r sv_wfD(1) [OF wf]
    by (simp_all add: only_reminders_def observe_request_def OC_RSRVD_WELL_KNOWN_URI_def short_def max_object_def)
  obtain k i where k: "sv_random st (sv_draws st + k) = Some i" "i \<notin> ids oss" using env(4) by blast
  obtain y where "GenerateObserverId st1 = Some y"
    using generate_total [OF v(1), of k] k ids_upto [OF u] v(4,5) by auto
  moreover obtain res x st2 where y: "y = (res, x, st2)" by (cases y)
  ultimately have g: "GenerateObserverId st1 = Some (res, x, st2)" by simp
  then obtain oss2 where o2: "sv_wf L st2 oss2" "all_upto_ttl (oss[r := os1]) oss2" "only_reminders st1 st2" "generated (oss[r := os1]) st1 res x"
    using generate_sound [OF g v(1)] by blast
  then obtain j where j: "x = Some j" using env(3) v(5) by (auto simp: generated_def)
  have r2: "r < length oss2" using all_upto_nth(1) [OF o2(2) r1] r by simp
  have "rs_resourceProperties (sv_resources st2 ! r) AND OC_OBSERVABLE \<noteq> 0"
    using e(3) same_res_nth(2) [OF only_same [OF o2(3)], of r] r1 sv_wfD(1) [OF v(1)] by simp
  then obtain result st3 where "register_observer r rq st1 = Some (result, st3)"
    using add_observer_ok [OF o2(1) r2 t(2-4), of "sr_resourceUrl rq" "Some (sr_query rq)" j "sr_qos rq" "sr_acceptFormat rq" "sr_acceptVersion rq" "sr_devAddr rq"]
      g j t(1) by (auto simp: register_observer_def)
  note reg = this register_ok [OF this v(1) r1 t]
  have ok: "result = OC_STACK_OK" using reg(2) e env(2,3) v(5) by auto
  then obtain oss3 where c: "registered L st1 (oss[r := os1]) r rq t st3 oss3" "same_res st1 st3" using reg(2) by auto
  then obtain oss1 p i' ttl where d: "all_upto_ttl (oss[r := os1]) oss1" "i' \<notin> ids (oss[r := os1])"
    "sv_wf L st3 (oss1[r := oss1 ! r @ [(p, observer_of rq i' t ttl)]])"
    unfolding registered_def by blast
  have "HandleVirtualObserveRequest rq st = Some (OC_STACK_OK, rq\<lparr>sr_observeResult := OC_STACK_OK\<rparr>, st3)" using v(6) reg(1) ok by simp
  then show ?thesis
    using d(2,3) ids_upto [OF u] all_upto_trans [OF u d(1)] same_res_trans [OF only_same [OF v(3)] c(2)] by metis
qed

text \<open>
  C16: A client that asks to observe the list of resources with a token that is not in use is added
  as the last observer, with its token, address, quality of service and an id that no observer has.
  The same request again is recognised as a duplicate and adds nobody. The request to stop with the
  same token removes exactly this observer and marks the response as one without observe option:
  apart from the time to live, the observers are again those of before.
\<close>

theorem observe_register_deregister:
  assumes wf: "sv_wf L st oss" and rq: "observe_request L st r rq t" and o: "sr_observationOption rq = OC_OBSERVE_REGISTER"
    and new: "\<not> (\<exists>x\<in>set (oss ! r). has_token t x)"
    and obs: "rs_resourceProperties (sv_resources st ! r) AND OC_OBSERVABLE \<noteq> 0"
    and env: "reliable st" "short (sr_query rq)" "\<forall>k. sv_random st k \<noteq> None" "\<exists>k i. sv_random st (sv_draws st + k) = Some i \<and> i \<notin> ids oss"
  shows "\<exists>st1 oss1 p i ttl st2 st3 oss3. HandleVirtualObserveRequest rq st = Some (OC_STACK_OK, rq\<lparr>sr_observeResult := OC_STACK_OK\<rparr>, st1)
    \<and> all_upto_ttl oss oss1 \<and> i \<notin> ids oss \<and> sv_wf L st1 (oss1[r := oss1 ! r @ [(p, observer_of rq i t ttl)]])
    \<and> HandleVirtualObserveRequest rq st1 = Some (OC_STACK_DUPLICATE_REQUEST, rq, st2)
    \<and> HandleVirtualObserveRequest (rq\<lparr>sr_observationOption := OC_OBSERVE_DEREGISTER\<rparr>) st1
        = Some (OC_STACK_OK, rq\<lparr>sr_observeResult := OC_STACK_OK, sr_observationOption := MAX_SEQUENCE_NUMBER + 1\<rparr>, st3)
    \<and> sv_wf L st3 oss3 \<and> all_upto_ttl oss oss3"
proof -
  obtain st1 oss1 p i ttl where a: "HandleVirtualObserveRequest rq st = Some (OC_STACK_OK, rq\<lparr>sr_observeResult := OC_STACK_OK\<rparr>, st1)"
    "all_upto_ttl oss oss1" "i \<notin> ids oss" "sv_wf L st1 (oss1[r := oss1 ! r @ [(p, observer_of rq i t ttl)]])" "same_res st st1"
    using register_request [OF assms] by blast
  let ?x = "(p, observer_of rq i t ttl)"
  let ?oss = "oss1[r := oss1 ! r @ [?x]]"
  have r: "r < length oss" using rq found_resource sv_wfD(1) [OF wf] by (auto simp: observe_request_def)
  have r1: "r < length oss1" using all_upto_nth(1) [OF a(2) r] r by simp
  have rq1: "observe_request L st1 r rq t" using rq observe_request_same [OF a(5)] by simp
  have x: "has_token t ?x" by (simp add: has_token_def observer_of_def new_observer_def)
  have n: "\<forall>y\<in>set (oss1 ! r). \<not> has_token t y" using new upto_token [OF all_upto_nth(2) [OF a(2) r]] by blast
  obtain st2 where d: "HandleVirtualObserveRequest rq st1 = Some (OC_STACK_DUPLICATE_REQUEST, rq, st2)"
    using duplicate_ok [OF a(4) rq1 o] x r1 by auto
  let ?rq = "rq\<lparr>sr_observationOption := OC_OBSERVE_DEREGISTER\<rparr>"
  have rq': "observe_request L st1 r ?rq t" using rq1 by simp
  obtain st3 os3 where e: "HandleVirtualObserveRequest ?rq st1
      = Some (OC_STACK_OK, ?rq\<lparr>sr_observeResult := OC_STACK_OK, sr_observationOption := MAX_SEQUENCE_NUMBER + 1\<rparr>, st3)"
    "sv_wf L st3 (?oss[r := os3])" "upto_ttl (drop_first (has_token t) (?oss ! r)) os3"
    using deregister_ok [OF a(4) rq'] by auto
  have "drop_first (has_token t) (?oss ! r) = oss1 ! r" using drop_first_snoc [of "oss1 ! r" "has_token t" ?x] n x r1 by simp
  then have "all_upto_ttl oss (?oss[r := os3])" using all_upto_trans [OF a(2) all_upto_update [OF r1]] e(3) by simp
  moreover have "?rq\<lparr>sr_observeResult := OC_STACK_OK, sr_observationOption := MAX_SEQUENCE_NUMBER + 1\<rparr>
      = rq\<lparr>sr_observeResult := OC_STACK_OK, sr_observationOption := MAX_SEQUENCE_NUMBER + 1\<rparr>" by simp
  ultimately show ?thesis using a d e(1,2) by metis
qed

end
