(* ===== verification/ObserverProps.thy ===== *)
theory ObserverProps
  imports ObserverSystem
begin

text \<open>
  What clients and applications may rely on: the notifications that an application starts, how often
  they are confirmable, observers that no longer answer, the invariant of all runs, the observe
  option, and an example server on which the hypotheses of these properties hold.
\<close>

section \<open>Observers that do not answer\<close>

definition obs_key :: "addr \<times> ResourceObserver \<Rightarrow> addr \<times> u8 list option" where
  "obs_key x = (fst x, ob_token (snd x))"

lemma find_obs_keys: "map obs_key xs = map obs_key ys \<Longrightarrow> map_option fst (find (has_token t) ys) = map_option fst (find (has_token t) xs)"
proof (induction xs arbitrary: ys)
  case (Cons x xs)
  then obtain y zs where y: "ys = y # zs" "obs_key x = obs_key y" "map obs_key xs = map obs_key zs" by (cases ys) auto
  show ?case using Cons.IH [OF y(3)] y(1,2) by (simp add: obs_key_def has_token_def)
qed simp

lemma locate_keys: "map (map obs_key) oss = map (map obs_key) oss' \<Longrightarrow> locate t s oss' = locate t s oss"
proof (induction oss arbitrary: s oss')
  case (Cons os oss)
  then obtain os' oss1 where o: "oss' = os' # oss1" "map obs_key os = map obs_key os'" "map (map obs_key) oss = map (map obs_key) oss1"
    by (cases oss') auto
  show ?case using find_obs_keys [OF o(2), of t] Cons.IH [OF o(3), of "Suc s"] o(1)
    by (cases "find (has_token t) os"; cases "find (has_token t) os'") simp_all
qed simp

lemma upto_keys: "upto_ttl xs ys \<Longrightarrow> map obs_key ys = map obs_key xs"
proof (induction xs arbitrary: ys)
  case (Cons x xs)
  obtain p a where x: "x = (p, a)" by fastforce
  obtain u zs where z: "ys = (p, a\<lparr>ob_TTL := u\<rparr>) # zs" "upto_ttl xs zs" using Cons.prems x by auto
  then show ?case using Cons.IH [OF z(2)] x by (simp add: obs_key_def)
qed simp

lemma all_upto_keys: "all_upto_ttl oss oss' \<Longrightarrow> map (map obs_key) oss' = map (map obs_key) oss"
  unfolding all_upto_ttl_def by (induction rule: list_all2_induct) (simp_all add: upto_keys)

text \<open>A report of a failed transmission that leaves the observer.\<close>

lemma failed_report:
  assumes wf: "sv_wf L st oss" and t: "unat n = L" "length t = L" and l: "locate t 0 oss = Some (r, p)"
    and s: "oss ! r = xs @ (p, ob) # ys" and c: "ob_failedCommCount ob \<noteq> MAX_OBSERVER_FAILED_COMM"
  shows "\<exists>st' oss' xs' ob' ys'. OCStackFeedBack (Some t) n OC_OBSERVER_FAILED_COMM st = Some (OC_STACK_CONTINUE, st') \<and> sv_wf L st' oss'
    \<and> locate t 0 oss' = Some (r, p) \<and> oss' ! r = xs' @ (p, ob') # ys' \<and> ob_failedCommCount ob' = ob_failedCommCount ob + 1
    \<and> ob_observeId ob' = ob_observeId ob \<and> all_upto_ttl (oss[r := xs @ ys]) (oss'[r := xs' @ ys'])
    \<and> same_res st st' \<and> sv_told st' = sv_told st"
proof -
  let ?ob = "ob\<lparr>ob_failedCommCount := ob_failedCommCount ob + 1, ob_forceHighQos := 1\<rparr>"
  let ?oss = "oss[r := xs @ (p, ?ob) # ys]"
  have f: "feedback OC_OBSERVER_FAILED_COMM ob = (OC_STACK_CONTINUE, Some ?ob)"
    using c by (simp add: feedback_def OC_OBSERVER_FAILED_COMM_def OC_OBSERVER_NOT_INTERESTED_def OC_OBSERVER_STILL_INTERESTED_def)
  obtain st' oss' where k: "OCStackFeedBack (Some t) n OC_OBSERVER_FAILED_COMM st = Some (OC_STACK_CONTINUE, st')" "sv_wf L st' oss'"
    "all_upto_ttl ?oss oss'" "only_reminders st st'" "sv_told st' = sv_told st"
    using feedback_ok [OF wf t l s f] by (auto simp: settle_def)
  obtain r: "r < length oss" using locate_found [OF l] by auto
  then have r': "r < length ?oss" by simp
  have "map (map obs_key) ?oss = map (map obs_key) oss"
    using arg_cong [OF s, of "map obs_key"] r by (simp add: map_update obs_key_def list_update_same_conv)
  then have "locate t 0 oss' = Some (r, p)" using locate_keys [of oss oss' t 0] all_upto_keys [OF k(3)] l by simp
  moreover obtain xs' u ys' where u: "oss' ! r = xs' @ (p, ?ob\<lparr>ob_TTL := u\<rparr>) # ys'" "upto_ttl xs xs'" "upto_ttl ys ys'"
    using upto_ttl_parts [of xs p ?ob ys "oss' ! r"] all_upto_nth(2) [OF k(3) r'] r by auto
  moreover have "upto_ttl (xs @ ys) (xs' @ ys')" using u(2,3) by (simp add: upto_ttl_append)
  then have "all_upto_ttl (oss[r := xs @ ys]) (oss'[r := xs' @ ys'])" using all_upto_other [OF k(3), of "xs @ ys" "xs' @ ys'" r] by simp
  ultimately show ?thesis using k only_same [OF k(4)] by fastforce
qed


lemma last_report:
  assumes wf: "sv_wf L st oss" and t: "unat n = L" "length t = L" and l: "locate t 0 oss = Some (r, p)"
    and s: "oss ! r = xs @ (p, ob) # ys" and c: "ob_failedCommCount ob = MAX_OBSERVER_FAILED_COMM"
  shows "\<exists>st' oss'. OCStackFeedBack (Some t) n OC_OBSERVER_FAILED_COMM st = Some (OC_STACK_OK, st') \<and> sv_wf L st' oss'
    \<and> all_upto_ttl (oss[r := xs @ ys]) oss' \<and> sv_told st' = sv_told st @ told st r (ob_observeId ob)"
proof -
  have f: "feedback OC_OBSERVER_FAILED_COMM ob = (OC_STACK_OK, None)"
    using c by (simp add: feedback_def OC_OBSERVER_FAILED_COMM_def OC_OBSERVER_NOT_INTERESTED_def OC_OBSERVER_STILL_INTERESTED_def)
  show ?thesis using feedback_ok [OF wf t l s f] by (auto simp: settle_def)
qed

lemma told_same: "same_res st st' \<Longrightarrow> r < length (sv_resources st) \<Longrightarrow> told st' r i = told st r i"
  by (simp add: told_def same_res_nth(2))

text \<open>
  C19: When three transmissions to an observer fail in a row, and it had no failure before, the first two reports
  ask the caller to go on, the third removes this observer and no other, and tells the entity handler of the
  resource its id. Nobody else is told.
\<close>

theorem unreachable_observer_removed:
  assumes wf: "sv_wf L st oss" and t: "unat n = L" "length t = L" and l: "locate t 0 oss = Some (r, p)"
    and s: "oss ! r = xs @ (p, ob) # ys" and c: "ob_failedCommCount ob = 0"
  shows "\<exists>st1 st2 st3 oss3. OCStackFeedBack (Some t) n OC_OBSERVER_FAILED_COMM st = Some (OC_STACK_CONTINUE, st1)
    \<and> OCStackFeedBack (Some t) n OC_OBSERVER_FAILED_COMM st1 = Some (OC_STACK_CONTINUE, st2)
    \<and> OCStackFeedBack (Some t) n OC_OBSERVER_FAILED_COMM st2 = Some (OC_STACK_OK, st3)
    \<and> sv_wf L st3 oss3 \<and> all_upto_ttl (oss[r := xs @ ys]) oss3 \<and> sv_told st3 = sv_told st @ told st r (ob_observeId ob)"
proof -
  have r: "r < length oss" using locate_found [OF l] by auto
  have m: "(0::u8) \<noteq> MAX_OBSERVER_FAILED_COMM" "(1::u8) \<noteq> MAX_OBSERVER_FAILED_COMM" "(1::u8) + 1 = MAX_OBSERVER_FAILED_COMM"
    by (simp_all add: MAX_OBSERVER_FAILED_COMM_def)
  obtain st1 oss1 xs1 ob1 ys1 where a: "OCStackFeedBack (Some t) n OC_OBSERVER_FAILED_COMM st = Some (OC_STACK_CONTINUE, st1)" "sv_wf L st1 oss1"
    "locate t 0 oss1 = Some (r, p)" "oss1 ! r = xs1 @ (p, ob1) # ys1" "ob_failedCommCount ob1 = ob_failedCommCount ob + 1"
    "ob_observeId ob1 = ob_observeId ob" "all_upto_ttl (oss[r := xs @ ys]) (oss1[r := xs1 @ ys1])" "same_res st st1" "sv_told st1 = sv_told st"
    using failed_report [OF wf t l s] c m(1) by metis
  have n1: "ob_failedCommCount ob1 \<noteq> MAX_OBSERVER_FAILED_COMM" using a(5) c m(2) by simp
  obtain st2 oss2 xs2 ob2 ys2 where b: "OCStackFeedBack (Some t) n OC_OBSERVER_FAILED_COMM st1 = Some (OC_STACK_CONTINUE, st2)" "sv_wf L st2 oss2"
    "locate t 0 oss2 = Some (r, p)" "oss2 ! r = xs2 @ (p, ob2) # ys2" "ob_failedCommCount ob2 = ob_failedCommCount ob1 + 1"
    "ob_observeId ob2 = ob_observeId ob1" "all_upto_ttl (oss1[r := xs1 @ ys1]) (oss2[r := xs2 @ ys2])" "same_res st1 st2" "sv_told st2 = sv_told st1"
    using failed_report [OF a(2) t a(3,4) n1] by metis
  have n2: "ob_failedCommCount ob2 = MAX_OBSERVER_FAILED_COMM" using a(5) b(5) c m(3) by simp
  obtain st3 oss3 where d: "OCStackFeedBack (Some t) n OC_OBSERVER_FAILED_COMM st2 = Some (OC_STACK_OK, st3)" "sv_wf L st3 oss3"
    "all_upto_ttl (oss2[r := xs2 @ ys2]) oss3" "sv_told st3 = sv_told st2 @ told st2 r (ob_observeId ob2)"
    using last_report [OF b(2) t b(3,4) n2] by blast
  have "told st2 r (ob_observeId ob2) = told st r (ob_observeId ob)"
    using told_same [OF same_res_trans [OF a(8) b(8)]] r sv_wfD(1) [OF wf] a(6) b(6) by simp
  then show ?thesis using a(1,9) b(1,9) d(1,2,4) all_upto_trans [OF all_upto_trans [OF a(7) b(7)] d(3)] by auto
qed

section \<open>Confirmable notifications\<close>

text \<open>The qualities of service that are decided for an observer in a row of notifications.\<close>

fun decisions :: "OCMethod \<Rightarrow> OCQualityOfService list \<Rightarrow> ResourceObserver \<Rightarrow> OCQualityOfService list" where
  "decisions m [] ob = []"
| "decisions m (q # qs) ob = (case DetermineObserverQoS m ob q of (d, ob') \<Rightarrow> d # decisions m qs ob')"

lemma decisions_nth:
  "k < length qs \<Longrightarrow> \<exists>ob'. drop k (decisions m qs ob) = decisions m (drop k qs) ob'"
proof (induction qs arbitrary: k ob)
  case (Cons q qs)
  show ?case
  proof (cases k)
    case 0
    then show ?thesis by (intro exI [of _ ob]) simp
  next
    case (Suc j)
    then show ?thesis using Cons by (simp split: prod.split)
  qed
qed simp

lemma not_high:
  assumes "DetermineObserverQoS m ob q = (d, ob')" and "m \<noteq> OC_REST_PRESENCE" and "d \<noteq> OC_HIGH_QOS"
  shows "\<not> MAX_OBSERVER_NON_COUNT \<le> ob_lowQosCount ob" "ob_lowQosCount ob' = ob_lowQosCount ob + 1"
  using assms by (auto simp: DetermineObserverQoS_def Let_def split: if_splits)

lemma high_within:
  assumes "m \<noteq> OC_REST_PRESENCE" and "length qs = 4"
  shows "OC_HIGH_QOS \<in> set (decisions m qs ob)"
proof (rule ccontr)
  assume no: "OC_HIGH_QOS \<notin> set (decisions m qs ob)"
  obtain a b c e where qs: "qs = [a, b, c, e]"
    using assms(2) by (auto simp: numeral_eq_Suc length_Suc_conv)
  obtain d1 o1 where 1: "DetermineObserverQoS m ob a = (d1, o1)" by fastforce
  obtain d2 o2 where 2: "DetermineObserverQoS m o1 b = (d2, o2)" by fastforce
  obtain d3 o3 where 3: "DetermineObserverQoS m o2 c = (d3, o3)" by fastforce
  obtain d4 o4 where 4: "DetermineObserverQoS m o3 e = (d4, o4)" by fastforce
  have n: "d1 \<noteq> OC_HIGH_QOS" "d2 \<noteq> OC_HIGH_QOS" "d3 \<noteq> OC_HIGH_QOS" "d4 \<noteq> OC_HIGH_QOS"
    using no qs 1 2 3 4 by auto
  note x1 = not_high [OF 1 assms(1) n(1)] and x2 = not_high [OF 2 assms(1) n(2)]
    and x3 = not_high [OF 3 assms(1) n(3)] and x4 = not_high [OF 4 assms(1) n(4)]
  let ?c = "ob_lowQosCount ob"
  have lt: "?c < 3" "?c + 1 < 3" "?c + 1 + 1 < 3" "?c + 1 + 1 + 1 < 3"
    using x1 x2 x3 x4 by (simp_all add: MAX_OBSERVER_NON_COUNT_def)
  have "?c \<in> {0, 1, 2}" using lt(1) by (auto simp: word_less_nat_alt word_unat_eq_iff)
  then show False using lt by auto
qed

text \<open>
  C20: Whatever quality of service the application asks for, of four notifications in a row to one observer at
  least one is confirmable: of the decisions for a sequence of requests, each four neighbours contain high
  quality of service.
\<close>

theorem confirmable_every_fourth:
  assumes "m \<noteq> OC_REST_PRESENCE" and "k + 4 \<le> length qs"
  shows "OC_HIGH_QOS \<in> set (take 4 (drop k (decisions m qs ob)))"
proof -
  obtain ob' where d: "drop k (decisions m qs ob) = decisions m (drop k qs) ob'" using decisions_nth [of k qs m ob] assms(2) by auto
  have t: "take j (decisions m xs o1) = decisions m (take j xs) o1" for j xs o1
    by (induction xs arbitrary: j o1) (auto simp: take_Cons split: nat.splits prod.splits)
  show ?thesis unfolding d t by (rule high_within [OF assms(1)]) (use assms(2) in simp)
qed


section \<open>Notifying all observers\<close>

text \<open>
  C18: Notifying the observers of a resource, which is not the presence resource and has observers,
  gives the resource its next sequence number and sends one notification with it to each observer,
  in the order in which they registered and with the quality of service that is decided for it. When the
  result is OK all were sent, which is the case when nothing fails; otherwise it is an error and those
  that were sent are still in order. The observers stay, with their counters as planned.
\<close>

theorem notify_all_observers:
  assumes wf: "sv_wf L st oss" and r: "r < length oss" and ne: "oss ! r \<noteq> []" and p: "sv_presence st \<noteq> Some r"
  shows "\<exists>res st' os' ms. OCNotifyAllObservers (Some r) qos st = Some (res, st') \<and> sv_wf L st' (oss[r := os'])
    \<and> upto_ttl (map snd (plan OC_REST_OBSERVE qos (oss ! r))) os'
    \<and> rs_sequenceNum (sv_resources st' ! r) = next_sequence (rs_sequenceNum (sv_resources st ! r))
    \<and> sv_sent st' = sv_sent st @ ms
    \<and> subseq ms (messages (next_sequence (rs_sequenceNum (sv_resources st ! r))) (plan OC_REST_OBSERVE qos (oss ! r)))
    \<and> (res = OC_STACK_OK \<and> ms = messages (next_sequence (rs_sequenceNum (sv_resources st ! r))) (plan OC_REST_OBSERVE qos (oss ! r))
       \<or> res = OC_STACK_ERROR)
    \<and> (reliable st \<longrightarrow> res = OC_STACK_OK)"
proof -
  let ?st = "incrementSequenceNumber r st"
  note inc = increment_wf [OF wf r]
  have seq: "rs_sequenceNum (sv_resources ?st ! r) = next_sequence (rs_sequenceNum (sv_resources st ! r))" using inc(2) by simp
  obtain res st' os' ms where w: "SendAllObserverNotification OC_REST_OBSERVE (Some r) MAX_OBSERVE_AGE OC_PRESENCE_TRIGGER_DELETE None qos ?st = Some (res, st')"
    "sv_wf L st' (oss[r := os'])" "upto_ttl (map snd (plan OC_REST_OBSERVE qos (oss ! r))) os'" "same_stack ?st st'"
    "sv_sent st' = sv_sent ?st @ ms" "subseq ms (messages (rs_sequenceNum (sv_resources ?st ! r)) (plan OC_REST_OBSERVE qos (oss ! r)))"
    "res = OC_STACK_OK \<and> ms = messages (rs_sequenceNum (sv_resources ?st ! r)) (plan OC_REST_OBSERVE qos (oss ! r)) \<or> res = OC_STACK_ERROR"
    "reliable ?st \<longrightarrow> res = OC_STACK_OK"
    using send_all_ok [OF inc(1) r ne, of OC_REST_OBSERVE MAX_OBSERVE_AGE OC_PRESENCE_TRIGGER_DELETE None qos] by auto
  have e: "OCNotifyAllObservers (Some r) qos st = Some (res, st')"
    using w(1) p r sv_wfD(1) [OF wf] by (auto simp: OCNotifyAllObservers_def findResource_def)
  have s: "sv_sent ?st = sv_sent st" "reliable ?st = reliable st" by (simp_all add: incrementSequenceNumber_def reliable_def)
  have "rs_sequenceNum (sv_resources st' ! r) = next_sequence (rs_sequenceNum (sv_resources st ! r))"
    using w(4) same_stack_res [OF w(4)] seq by (simp add: same_stack_def)
  then show ?thesis
    using e w(2,3,5-8) s unfolding seq by (intro exI [of _ res] exI [of _ st'] exI [of _ os'] exI [of _ ms]) auto
qed

section \<open>All runs\<close>



section \<open>The observe option\<close>

lemma overwrite_same:
  "Suc i < length opts \<Longrightarrow> overwrite_loop k i opts = Some (if k = 0 then opts else opts[i := opts ! Suc i])"
  by (induction k arbitrary: opts) (auto simp: cell_read_def cell_write_def)

text \<open>
  C21: The observe flag of a request arrives: for a list of fewer than 255 options, what a client builds from them and a
  flag is read back by a server as this flag and as many options as before. The options themselves
  arrive unchanged when there is at most one; of more, the first arrives twice and the last is lost.
\<close>

theorem observe_option_roundtrip:
  assumes "length opts < 255"
  shows "\<exists>built rest. CreateObserveHeaderOption (Some opts) (of_nat (length opts)) flag [] = Some (OC_STACK_OK, Some built, [])
    \<and> GetObserveHeaderOption old (Some built) (Some (of_nat (length opts) + 1))
        = Some (OC_STACK_OK, ucast flag, Some rest, Some (of_nat (length opts)))
    \<and> take (length opts) rest = (if opts = [] then [] else hd opts # butlast opts)"
proof -
  let ?o = "\<lparr>ho_protocolID = CA_COAP_ID, ho_optionID = COAP_OPTION_OBSERVE, ho_optionLength = 1,
                            ho_optionData = flag # replicate (CA_MAX_HEADER_OPTION_DATA_LENGTH - 1) 0\<rparr>"
  let ?n = "of_nat (length opts) :: u8"
  have n: "unat ?n = length opts" using assms by (simp add: unat_of_nat)
  have n1: "unat (?n + 1) = Suc (length opts)" using assms by (subst unat_plus_simple [THEN iffD1]) (simp_all add: n word_le_nat_alt unat_word_ariths)
  have "OICCalloc [] (unat ?n + 1) sizeof_CAHeaderOption = (True, [])"
    using assms by (simp add: OICCalloc_def sizeof_CAHeaderOption_def max_object_def n)
  then have c: "CreateObserveHeaderOption (Some opts) ?n flag [] = Some (OC_STACK_OK, Some (?o # opts), [])"
    using n by (auto simp: CreateObserveHeaderOption_def memcpy_from_def buf_read_def)
  let ?rest = "case opts of [] \<Rightarrow> [?o] | x # _ \<Rightarrow> x # opts"
  have "overwrite_loop (length opts) 0 (?o # opts) = Some ?rest"
    using overwrite_same [of 0 "?o # opts" "length opts"] by (cases opts) simp_all
  then have g: "GetObserveHeaderOption old (Some (?o # opts)) (Some (?n + 1)) = Some (OC_STACK_OK, ucast flag, Some ?rest, Some ?n)"
    using n1 by (simp add: GetObserveHeaderOption_def cell_read_def)
  have "take (length opts) ?rest = (if opts = [] then [] else hd opts # butlast opts)"
    by (cases opts) (simp_all add: butlast_conv_take)
  then show ?thesis using c g by blast
qed

section \<open>What the code gets wrong\<close>

text \<open>
  The observers of a whole server cannot be more than 256, and with all ids taken the search for a
  new one never ends (\<open>generate_diverges\<close>). The time to live of an observer, meant to be a day, is
  the largest number at any time, because the guard of \<open>GetTicks\<close> overflows itself: no observer is
  ever found to have timed out.
\<close>

lemma observers_never_time_out:
  "ticks_after now (MAX_OBSERVER_TTL_SECONDS * MILLISECONDS_PER_SECOND) = - 1" "\<not> (- 1 :: u32) < now"
proof -
  have "unat ((- 1 - now) * MILLISECONDS_PER_SECOND div 1024) \<le> 4194303"
    using unsigned_less [where ?'a = nat, of "(- 1 - now) * MILLISECONDS_PER_SECOND"] by (simp add: unat_div)
  then show "ticks_after now (MAX_OBSERVER_TTL_SECONDS * MILLISECONDS_PER_SECOND) = - 1"
    by (simp add: ticks_after_def MAX_OBSERVER_TTL_SECONDS_def MILLISECONDS_PER_SECOND_def COAP_TICKS_PER_SECOND_def word_le_nat_alt)
  show "\<not> (- 1 :: u32) < now" by simp
qed

text \<open>
  The server starts its sequence numbers again after the limit; a client that has seen the last
  number before takes every number of the new round for an old one.
\<close>

lemma deaf_after_wrap:
  "next_sequence (MAX_SEQUENCE_NUMBER - 1) = 1"
  "0 < s \<Longrightarrow> s < MAX_SEQUENCE_NUMBER \<Longrightarrow> stale_notification OC_REST_OBSERVE (MAX_SEQUENCE_NUMBER - 1) s"
  by (simp add: next_sequence_def MAX_SEQUENCE_NUMBER_def OC_OFFSET_SEQUENCE_NUMBER_def)
    (simp add: stale_notification_def MAX_SEQUENCE_NUMBER_def OC_OFFSET_SEQUENCE_NUMBER_def word_less_nat_alt word_le_nat_alt)

text \<open>
  A decision for high quality of service is that of all later observers of the same notification,
  because the loop overwrites the quality of service that the application asked for.
\<close>

lemma high_spreads: "plan m OC_HIGH_QOS os = map (\<lambda>(p, ob). (OC_HIGH_QOS, p, ob)) os"
  by (induction os) (auto simp: DetermineObserverQoS_def)


section \<open>An example server\<close>

text \<open>A server with the list of resources only, without and with one observer.\<close>

definition example_endpoint :: CAEndpoint where
  "example_endpoint = \<lparr>ep_adapter = 1, ep_flags = 0, ep_port = 5683, ep_addr = ''10.0.0.2'', ep_ifindex = 0, ep_remoteId = [], ep_routeData = []\<rparr>"

definition example_resource :: OCResource where
  "example_resource = \<lparr>rs_uri = ''/oic/res'', rs_entityHandler = Some 4, rs_resourceProperties = 3, rs_observersHead = None, rs_sequenceNum = 0\<rparr>"

definition example_server :: server where
  "example_server = \<lparr>sv_resources = [example_resource], sv_presence = None, sv_mode = OC_SERVER, sv_nodes = Map.empty, sv_fresh = 1,
     sv_mem = [], sv_clock = (\<lambda>_. 0), sv_reads = 0, sv_answer = (\<lambda>_. OC_STACK_OK), sv_calls = 0, sv_random = (\<lambda>_. Some 7), sv_draws = 0,
     sv_sent = [], sv_told = []\<rparr>"

definition example_observer :: ResourceObserver where
  "example_observer = \<lparr>ob_observeId = 9, ob_resUri = ''/oic/res'', ob_query = Some [], ob_token = Some [1, 2], ob_tokenLength = 2,
     ob_devAddr = example_endpoint, ob_qos = OC_LOW_QOS, ob_failedCommCount = 0, ob_lowQosCount = 0, ob_forceHighQos = 0, ob_TTL = 0,
     ob_acceptFormat = OC_FORMAT_CBOR, ob_acceptVersion = 0\<rparr>"

definition observed_server :: server where
  "observed_server = example_server\<lparr>sv_resources := [example_resource\<lparr>rs_observersHead := Some 0\<rparr>],
     sv_nodes := [0 \<mapsto> \<lparr>nd_data = example_observer, nd_next = None\<rparr>]\<rparr>"

definition observe_example :: OCServerRequest where
  "observe_example = \<lparr>sr_method = OC_REST_GET, sr_acceptFormat = OC_FORMAT_CBOR, sr_acceptVersion = 0, sr_resourceUrl = ''/oic/res'',
     sr_query = [], sr_qos = OC_LOW_QOS, sr_observationOption = OC_OBSERVE_REGISTER, sr_observeResult = OC_STACK_ERROR, sr_numResponses = 1,
     sr_devAddr = example_endpoint, sr_requestToken = Some [1, 2], sr_tokenLength = 2, sr_coapID = 5, sr_delayedResNeeded = 0,
     sr_numOptions = 0, sr_options = [], sr_requestComplete = 0, sr_notificationFlag = 0, sr_payloadFormat = OC_FORMAT_CBOR, sr_payload = []\<rparr>"

lemma example_wf: "sv_wf 2 example_server [[]]"
  by (simp add: sv_wf_def example_server_def example_resource_def head_of_def)

lemma observed_wf: "sv_wf 2 observed_server [[(0, example_observer)]]"
  by (simp add: sv_wf_def observed_server_def example_server_def example_resource_def head_of_def ul_rep_def obs_ok_def
      example_observer_def MAX_OBSERVER_NON_COUNT_def MAX_OBSERVER_FAILED_COMM_def)


lemma observe_example_ok: "observe_request 2 example_server 0 observe_example [1, 2]"
  by (simp add: observe_request_def observe_example_def OC_RSRVD_WELL_KNOWN_URI_def FindResourceByUri_def example_server_def
      example_resource_def)

theorem observe_register_deregister_witness:
  "\<exists>st1 st2 st3. HandleVirtualObserveRequest observe_example example_server
      = Some (OC_STACK_OK, observe_example\<lparr>sr_observeResult := OC_STACK_OK\<rparr>, st1)
    \<and> HandleVirtualObserveRequest observe_example st1 = Some (OC_STACK_DUPLICATE_REQUEST, observe_example, st2)
    \<and> HandleVirtualObserveRequest (observe_example\<lparr>sr_observationOption := OC_OBSERVE_DEREGISTER\<rparr>) st1
        = Some (OC_STACK_OK, observe_example\<lparr>sr_observeResult := OC_STACK_OK, sr_observationOption := MAX_SEQUENCE_NUMBER + 1\<rparr>, st3)
    \<and> sv_wf 2 st3 [[]]"
proof -
  have h: "sr_observationOption observe_example = OC_OBSERVE_REGISTER" "\<not> (\<exists>x\<in>set ([[]] ! 0). has_token [1, 2] x)"
    "rs_resourceProperties (sv_resources example_server ! 0) AND OC_OBSERVABLE \<noteq> 0" "reliable example_server"
    "short (sr_query observe_example)" "\<forall>k. sv_random example_server k \<noteq> None"
    "\<exists>k i. sv_random example_server (sv_draws example_server + k) = Some i \<and> i \<notin> ids [[]]"
    by (simp_all add: observe_example_def example_server_def example_resource_def OC_OBSERVABLE_def reliable_def short_def
        max_object_def ids_def)
  show ?thesis
    using observe_register_deregister [OF example_wf observe_example_ok h]
    by (auto simp: all_upto_ttl_def list_all2_Cons1)
qed

theorem notify_all_observers_witness:
  "\<exists>st' os'. OCNotifyAllObservers (Some 0) OC_LOW_QOS observed_server = Some (OC_STACK_OK, st') \<and> sv_wf 2 st' [os']
    \<and> rs_sequenceNum (sv_resources st' ! 0) = 1"
proof -
  have h: "0 < length [[(0::nat, example_observer)]]" "[[(0, example_observer)]] ! 0 \<noteq> []" "sv_presence observed_server \<noteq> Some 0"
    "reliable observed_server" "next_sequence (rs_sequenceNum (sv_resources observed_server ! 0)) = 1"
    by (simp_all add: observed_server_def example_server_def reliable_def example_resource_def next_sequence_def MAX_SEQUENCE_NUMBER_def)
  show ?thesis using notify_all_observers [OF observed_wf h(1-3), of OC_LOW_QOS] h(4,5) by auto
qed

theorem unreachable_observer_removed_witness:
  "\<exists>st1 st2 st3. OCStackFeedBack (Some [1, 2]) 2 OC_OBSERVER_FAILED_COMM observed_server = Some (OC_STACK_CONTINUE, st1)
    \<and> OCStackFeedBack (Some [1, 2]) 2 OC_OBSERVER_FAILED_COMM st1 = Some (OC_STACK_CONTINUE, st2)
    \<and> OCStackFeedBack (Some [1, 2]) 2 OC_OBSERVER_FAILED_COMM st2 = Some (OC_STACK_OK, st3) \<and> sv_wf 2 st3 [[]] \<and> sv_told st3 = [(4, 9)]"
proof -
  have h: "unat (2 :: u8) = 2" "length [1 :: u8, 2] = 2" "locate [1, 2] 0 [[(0, example_observer)]] = Some (0, 0)"
    "[[(0, example_observer)]] ! 0 = [] @ (0, example_observer) # []" "ob_failedCommCount example_observer = 0"
    "sv_told observed_server @ told observed_server 0 (ob_observeId example_observer) = [(4, 9)]"
    by (simp_all add: example_observer_def has_token_def told_def observed_server_def example_server_def example_resource_def)
  show ?thesis
    using unreachable_observer_removed [OF observed_wf h(1-5)] h(6) by (auto simp: all_upto_ttl_def list_all2_Cons1)
qed

theorem confirmable_every_fourth_witness:
  "OC_HIGH_QOS \<in> set (take 4 (drop 1 (decisions OC_REST_OBSERVE (replicate 6 OC_LOW_QOS) example_observer)))"
  by (rule confirmable_every_fourth) simp_all

theorem observe_option_roundtrip_witness:
  "\<exists>built rest. CreateObserveHeaderOption (Some []) 0 1 [] = Some (OC_STACK_OK, Some built, [])
    \<and> GetObserveHeaderOption 9 (Some built) (Some 1) = Some (OC_STACK_OK, 1, Some rest, Some 0)"
  using observe_option_roundtrip [of "[]" 1 9] by auto


end
