(* ===== verification/RepPayload.thy ===== *)
theory RepPayload
  imports OicString "HOL-Library.Monad_Syntax"
begin

text \<open>
  The representations that requests and responses carry, \<^verbatim>\<open>resource/csdk/stack/src/ocpayload.c\<close> with the
  types of \<^verbatim>\<open>resource/csdk/include/octypes.h\<close>: named properties of several types, among them objects and
  arrays of objects; setting, getting and cloning them; and lists of strings. A payload owns its parts, so it
  is a tree; the functions that take over a value move it. Freeing gives nothing back, but walks through what it
  frees: freeing the elements of an array that is NULL, or that were never written, has no result (\<^const>\<open>None\<close>),
  like a comparison with a NULL name, a copy from NULL or from beyond the end of a buffer, and a read of a
  string that was never written.
  Values of type \<open>double\<close> are only copied; how an integer becomes one is a parameter.
\<close>

section \<open>Types\<close>

type_synonym i64 = "64 word"

record OCByteString =
  bs_bytes :: "u8 list option"
  bs_len :: nat

text \<open>
  A list of strings is the list of their pointers. A cell of an array of integers or of strings may
  never have been written; that is an outer \<^const>\<open>None\<close>.
\<close>

datatype 'd OCRepPayload =
    RepPayload (rp_uri: "string option") (rp_types: "string option list") (rp_interfaces: "string option list")
      (rp_values: "'d OCRepPayloadValue list") (rp_next: "'d OCRepPayload option")
and 'd OCRepPayloadValue = RepValue (rv_name: "string option") (rv_prop: "'d OCRepProp")
and 'd OCRepProp =
    OCREP_PROP_NULL | OCREP_PROP_INT i64 | OCREP_PROP_DOUBLE 'd | OCREP_PROP_BOOL bool | OCREP_PROP_STRING "string option"
  | OCREP_PROP_BYTE_STRING OCByteString | OCREP_PROP_OBJECT "'d OCRepPayload option" | OCREP_PROP_ARRAY "nat list" "'d OCRepArray"
and 'd OCRepArray =
    iArray "i64 option list option" | dArray "'d list option" | bArray "bool list option" | strArray "string option option list option"
  | ocByteStrArray "OCByteString list option" | objArray "'d OCRepPayload option list option"

definition MAX_REP_ARRAY_DEPTH :: nat where "MAX_REP_ARRAY_DEPTH = 3"
definition CSV_SEPARATOR :: char where "CSV_SEPARATOR = CHR '',''"
definition sizeof_RepPayload :: nat where "sizeof_RepPayload = 48"
definition sizeof_RepValue :: nat where "sizeof_RepValue = 56"
definition sizeof_OCStringLL :: nat where "sizeof_OCStringLL = 16"
definition sizeof_OCByteString :: nat where "sizeof_OCByteString = 16"
definition size_t_range :: nat where "size_t_range = 2 ^ 64"

definition with_values :: "'d OCRepPayloadValue list \<Rightarrow> 'd OCRepPayload \<Rightarrow> 'd OCRepPayload" where
  "with_values vs p = RepPayload (rp_uri p) (rp_types p) (rp_interfaces p) vs (rp_next p)"

text \<open>Copies from a pointer that may be NULL.\<close>

definition copy_from :: "nat \<Rightarrow> 'a list option \<Rightarrow> 'a list option" where
  "copy_from n src = (if n = 0 then Some [] else case src of None \<Rightarrow> None | Some bs \<Rightarrow> buf_read 0 n bs)"

text \<open>The bytes of an array of \<open>n\<close> elements, computed in \<open>size_t\<close>, and the elements that fit in them.\<close>

definition array_bytes :: "nat \<Rightarrow> nat \<Rightarrow> nat" where
  "array_bytes n sz = (n * sz) mod size_t_range"

definition array_cells :: "nat \<Rightarrow> nat \<Rightarrow> nat" where
  "array_cells n sz = array_bytes n sz div sz"

fun dim_loop :: "nat list \<Rightarrow> nat \<Rightarrow> nat" where
  "dim_loop [] t = t"
| "dim_loop (d # ds) t = (if d = 0 then t else dim_loop ds ((t * d) mod size_t_range))"

definition calcDimTotal :: "nat list \<Rightarrow> nat" where
  "calcDimTotal dimensions = (if dimensions ! 0 = 0 then 0 else dim_loop (take MAX_REP_ARRAY_DEPTH dimensions) 1)"

section \<open>Lists of strings\<close>

text \<open>The loop of a clone; \<^const>\<open>None\<close> when a node cannot be allocated.\<close>

fun clone_ll :: "string option list \<Rightarrow> mem \<Rightarrow> string option list option \<times> mem" where
  "clone_ll [] m = (Some [], m)"
| "clone_ll (v # vs) m =
     (case OICCalloc m 1 sizeof_OCStringLL of
        (False, m) \<Rightarrow> (None, m)
      | (True, m) \<Rightarrow>
          (case OICStrdup m v of
             (d, m) \<Rightarrow> (case clone_ll vs m of (ds, m) \<Rightarrow> (map_option (Cons d) ds, m))))"

definition CloneOCStringLL :: "string option list \<Rightarrow> mem \<Rightarrow> string option list \<times> mem" where
  "CloneOCStringLL ll m = (case clone_ll ll m of (None, m) \<Rightarrow> ([], m) | (Some ds, m) \<Rightarrow> (ds, m))"

text \<open>\<open>strtok_r\<close> with one separator: the maximal parts without it.\<close>

fun strtok :: "char \<Rightarrow> string \<Rightarrow> string \<Rightarrow> string list" where
  "strtok d cur [] = (if cur = [] then [] else [rev cur])"
| "strtok d cur (c # cs) = (if c = d then (if cur = [] then strtok d [] cs else rev cur # strtok d [] cs) else strtok d (c # cur) cs)"

fun create_ll :: "string list \<Rightarrow> mem \<Rightarrow> string option list option \<times> mem" where
  "create_ll [] m = (Some [], m)"
| "create_ll (t # ts) m =
     (case OICCalloc m 1 sizeof_OCStringLL of
        (False, m) \<Rightarrow> (None, m)
      | (True, m) \<Rightarrow>
          (case OICStrdup m (Some t) of
             (None, m) \<Rightarrow> (None, m)
           | (Some s, m) \<Rightarrow> (case create_ll ts m of (ds, m) \<Rightarrow> (map_option (Cons (Some s)) ds, m))))"

definition OCCreateOCStringLL :: "string option \<Rightarrow> mem \<Rightarrow> string option list \<times> mem" where
  "OCCreateOCStringLL text m =
     (case OICStrdup m text of
        (None, m) \<Rightarrow> ([], m)
      | (Some backup, m) \<Rightarrow>
          (case create_ll (strtok CSV_SEPARATOR [] backup) m of (None, m) \<Rightarrow> ([], m) | (Some ds, m) \<Rightarrow> (ds, m)))"

text \<open>
  \<open>strlen\<close> of NULL is undefined. Every \<open>snprintf\<close> has room for its value, since the length was summed up
  before.
\<close>

fun join_ll :: "string option list \<Rightarrow> string option" where
  "join_ll [] = Some []"
| "join_ll [v] = v"
| "join_ll (v # vs) = do { s \<leftarrow> v; t \<leftarrow> join_ll vs; Some (s @ CSV_SEPARATOR # t) }"

definition OCCreateString :: "string option list \<Rightarrow> mem \<Rightarrow> (string option \<times> mem) option" where
  "OCCreateString ll m =
     (if ll = [] then Some (None, m)
      else
        do {
          str \<leftarrow> join_ll ll;
          Some (case OICMalloc m (length str + 1) of (False, m) \<Rightarrow> (None, m) | (True, m) \<Rightarrow> (Some str, m))
        })"

section \<open>Byte strings\<close>

text \<open>
  The destination of every caller is empty. When there is no memory it stays empty.
\<close>

definition OCByteStringCopy :: "OCByteString option \<Rightarrow> mem \<Rightarrow> (bool \<times> OCByteString \<times> mem) option" where
  "OCByteStringCopy source m =
     (case source of
        None \<Rightarrow> Some (False, \<lparr>bs_bytes = None, bs_len = 0\<rparr>, m)
      | Some src \<Rightarrow>
          if bs_len src = 0 then Some (True, \<lparr>bs_bytes = None, bs_len = 0\<rparr>, m)
          else
            (case OICMalloc m (bs_len src) of
               (False, m) \<Rightarrow> Some (False, \<lparr>bs_bytes = None, bs_len = 0\<rparr>, m)
             | (True, m) \<Rightarrow> map_option (\<lambda>bs. (True, \<lparr>bs_bytes = Some bs, bs_len = bs_len src\<rparr>, m)) (copy_from (bs_len src) (bs_bytes src))))"

section \<open>Freeing\<close>

text \<open>
  The loops over the elements of an array read each cell: the array of an array value may be NULL after a failed
  copy, and a cell of an array of strings may never have been written. \<open>OICFree\<close> of NULL does nothing.
\<close>

fun free_strs :: "nat \<Rightarrow> string option option list \<Rightarrow> unit option" where
  "free_strs 0 ss = Some ()"
| "free_strs (Suc k) (Some s # ss) = free_strs k ss"
| "free_strs (Suc k) ss = None"

fun free_byte_strs :: "nat \<Rightarrow> OCByteString list \<Rightarrow> unit option" where
  "free_byte_strs 0 bs = Some ()"
| "free_byte_strs (Suc k) (b # bs) = free_byte_strs k bs"
| "free_byte_strs (Suc k) [] = None"

text \<open>\<open>OCFreeRepPayloadValue\<close> follows the list of values, \<open>OCRepPayloadDestroy\<close> the payloads after the first.\<close>

fun OCFreeRepPayloadValue :: "'d OCRepPayloadValue list \<Rightarrow> unit option"
  and OCFreeRepPayloadValueContents :: "'d OCRepProp \<Rightarrow> unit option"
  and free_array :: "nat \<Rightarrow> 'd OCRepArray \<Rightarrow> unit option"
  and free_objs :: "nat \<Rightarrow> 'd OCRepPayload option list \<Rightarrow> unit option"
  and OCRepPayloadDestroy :: "'d OCRepPayload option \<Rightarrow> unit option" where
  "OCFreeRepPayloadValue [] = Some ()"
| "OCFreeRepPayloadValue (RepValue nm v # vals) = do { OCFreeRepPayloadValueContents v; OCFreeRepPayloadValue vals }"
| "OCFreeRepPayloadValueContents (OCREP_PROP_OBJECT p) = OCRepPayloadDestroy p"
| "OCFreeRepPayloadValueContents (OCREP_PROP_ARRAY dims arr) = free_array (calcDimTotal dims) arr"
| "OCFreeRepPayloadValueContents v = Some ()"
| "free_array n (strArray xs) = free_strs n (case xs of None \<Rightarrow> [] | Some ss \<Rightarrow> ss)"
| "free_array n (ocByteStrArray xs) = free_byte_strs n (case xs of None \<Rightarrow> [] | Some bs \<Rightarrow> bs)"
| "free_array n (objArray None) = (if n = 0 then Some () else None)"
| "free_array n (objArray (Some ps)) = free_objs n ps"
| "free_array n a = Some ()"
| "free_objs 0 ps = Some ()"
| "free_objs (Suc k) (p # ps) = do { OCRepPayloadDestroy p; free_objs k ps }"
| "free_objs (Suc k) [] = None"
| "OCRepPayloadDestroy None = Some ()"
| "OCRepPayloadDestroy (Some (RepPayload u ts is vs n)) = do { OCFreeRepPayloadValue vs; OCRepPayloadDestroy n }"

section \<open>Payloads\<close>

definition OCRepPayloadCreate :: "mem \<Rightarrow> 'd OCRepPayload option \<times> mem" where
  "OCRepPayloadCreate m =
     (case OICCalloc m 1 sizeof_RepPayload of (False, m) \<Rightarrow> (None, m) | (True, m) \<Rightarrow> (Some (RepPayload None [] [] [] None), m))"

fun append_next :: "'d OCRepPayload \<Rightarrow> 'd OCRepPayload \<Rightarrow> 'd OCRepPayload" where
  "append_next (RepPayload u ts is vs n) child =
     RepPayload u ts is vs (Some (case n of
        None \<Rightarrow> RepPayload (rp_uri child) (rp_types child) (rp_interfaces child) (rp_values child) None
      | Some p \<Rightarrow> append_next p child))"

text \<open>A NULL child of a parent that is not NULL is dereferenced.\<close>

definition OCRepPayloadAppend :: "'d OCRepPayload option \<Rightarrow> 'd OCRepPayload option \<Rightarrow> 'd OCRepPayload option option" where
  "OCRepPayloadAppend parent child =
     (case parent of
        None \<Rightarrow> Some None
      | Some p \<Rightarrow> (case child of None \<Rightarrow> None | Some c \<Rightarrow> Some (Some (append_next p c))))"

fun find_value :: "string \<Rightarrow> 'd OCRepPayloadValue list \<Rightarrow> 'd OCRepPayloadValue option option" where
  "find_value name [] = Some None"
| "find_value name (val # vals) = do { s \<leftarrow> rv_name val; if s = name then Some (Some val) else find_value name vals }"

definition OCRepPayloadFindValue :: "'d OCRepPayload option \<Rightarrow> string option \<Rightarrow> 'd OCRepPayloadValue option option" where
  "OCRepPayloadFindValue payload name =
     (case (payload, name) of (Some p, Some n) \<Rightarrow> find_value n (rp_values p) | _ \<Rightarrow> Some None)"

text \<open>
  Setting a property: \<open>v\<close> is what the caller stores in the value that \<open>OCRepPayloadFindAndSetValue\<close> has
  found, with its contents freed, or appended. The inner \<^const>\<open>None\<close> says that there was no memory for a new value.
\<close>

fun find_and_set :: "string \<Rightarrow> 'd OCRepProp \<Rightarrow> 'd OCRepPayloadValue list \<Rightarrow> mem \<Rightarrow> ('d OCRepPayloadValue list option \<times> mem) option" where
  "find_and_set name v [] m =
     Some (case OICCalloc m 1 sizeof_RepValue of
        (False, m) \<Rightarrow> (None, m)
      | (True, m) \<Rightarrow> (case OICStrdup m (Some name) of (None, m) \<Rightarrow> (None, m) | (Some s, m) \<Rightarrow> (Some [RepValue (Some s) v], m)))"
| "find_and_set name v (val # vals) m =
     do {
       s \<leftarrow> rv_name val;
       if s = name then do { OCFreeRepPayloadValueContents (rv_prop val); Some (Some (RepValue (Some s) v # vals), m) }
       else do { (r, m) \<leftarrow> find_and_set name v vals m; Some (map_option (Cons val) r, m) }
     }"

type_synonym 'd set_result = "(bool \<times> 'd OCRepPayload option \<times> mem) option"

definition OCRepPayloadFindAndSetValue :: "'d OCRepPayload option \<Rightarrow> string option \<Rightarrow> 'd OCRepProp \<Rightarrow> mem \<Rightarrow> 'd set_result" where
  "OCRepPayloadFindAndSetValue payload name v m =
     (case (payload, name) of
        (Some p, Some n) \<Rightarrow>
          do {
            (r, m) \<leftarrow> find_and_set n v (rp_values p) m;
            Some (case r of None \<Rightarrow> (False, Some p, m) | Some vs \<Rightarrow> (True, Some (with_values vs p), m))
          }
      | _ \<Rightarrow> Some (False, payload, m))"

text \<open>
  A string property that is NULL is stored, but reported as a failure. A property of type array is a failure as
  well; the code then only writes the type, the model the whole value. No caller passes this type: the setters of
  arrays call \<open>OCRepPayloadFindAndSetValue\<close> themselves.
\<close>

definition is_array_prop :: "'d OCRepProp \<Rightarrow> bool" where
  "is_array_prop v = (case v of OCREP_PROP_ARRAY dims a \<Rightarrow> True | _ \<Rightarrow> False)"

definition OCRepPayloadSetProp :: "'d OCRepPayload option \<Rightarrow> string option \<Rightarrow> 'd OCRepProp \<Rightarrow> mem \<Rightarrow> 'd set_result" where
  "OCRepPayloadSetProp payload name v m =
     do {
       (ok, p, m) \<leftarrow> OCRepPayloadFindAndSetValue payload name v m;
       Some (ok \<and> v \<noteq> OCREP_PROP_STRING None \<and> \<not> is_array_prop v, p, m)
     }"


section \<open>Cloning\<close>

text \<open>
  The strings of an array are written one after the other; when one cannot be copied, or is NULL, the
  copy stops there, with the rest of the array as it came from \<open>malloc\<close>.
\<close>

fun copy_strs :: "nat \<Rightarrow> string option option list \<Rightarrow> mem \<Rightarrow> (string option option list \<times> mem) option" where
  "copy_strs 0 ss m = Some ([], m)"
| "copy_strs (Suc k) (Some s # ss) m =
     (case OICStrdup m s of
        (None, m) \<Rightarrow> Some (Some None # replicate k None, m)
      | (Some t, m) \<Rightarrow> do { (ts, m) \<leftarrow> copy_strs k ss m; Some (Some (Some t) # ts, m) })"
| "copy_strs (Suc k) ss m = None"

text \<open>The copy of byte strings stops at one without bytes; the rest of the array is zero.\<close>

fun copy_byte_strs :: "nat \<Rightarrow> OCByteString list \<Rightarrow> mem \<Rightarrow> (OCByteString list \<times> mem) option" where
  "copy_byte_strs 0 bs m = Some ([], m)"
| "copy_byte_strs (Suc k) (b # bs) m =
     do {
       (_, c, m) \<leftarrow> OCByteStringCopy (Some b) m;
       if bs_bytes c = None then Some (c # replicate k \<lparr>bs_bytes = None, bs_len = 0\<rparr>, m)
       else do { (cs, m) \<leftarrow> copy_byte_strs k bs m; Some (c # cs, m) }
     }"
| "copy_byte_strs (Suc k) [] m = None"

text \<open>An array of \<open>n\<close> elements of the given size that is copied with \<open>memcpy\<close>.\<close>

definition copy_flat :: "nat \<Rightarrow> nat \<Rightarrow> 'a list option \<Rightarrow> mem \<Rightarrow> ('a list option \<times> mem) option" where
  "copy_flat n sz src m =
     (case OICMalloc m (array_bytes n sz) of
        (False, m) \<Rightarrow> Some (None, m)
      | (True, m) \<Rightarrow> map_option (\<lambda>xs. (Some xs, m)) (copy_from (array_cells n sz) src))"

text \<open>
  \<open>OCRepPayloadClone\<close>, \<open>OCRepPayloadValueClone\<close>, \<open>OCCopyPropertyValue\<close> and \<open>OCCopyPropertyValueArray\<close>.
  The first argument of \<open>clone_values\<close> is the list that \<open>headOfClone\<close> points to. When a further value cannot be allocated, it
  is freed and the clone of the list is NULL, the inner \<^const>\<open>None\<close>.
\<close>

fun clone_payload :: "'d OCRepPayload \<Rightarrow> mem \<Rightarrow> ('d OCRepPayload option \<times> mem) option"
  and clone_values :: "'d OCRepPayloadValue list \<Rightarrow> 'd OCRepPayloadValue list \<Rightarrow> mem \<Rightarrow> ('d OCRepPayloadValue list option \<times> mem) option"
  and copy_prop :: "'d OCRepProp \<Rightarrow> mem \<Rightarrow> ('d OCRepProp \<times> mem) option"
  and copy_array :: "nat \<Rightarrow> 'd OCRepArray \<Rightarrow> mem \<Rightarrow> ('d OCRepArray \<times> mem) option"
  and copy_objs :: "nat \<Rightarrow> 'd OCRepPayload option list \<Rightarrow> mem \<Rightarrow> ('d OCRepPayload option list \<times> mem) option" where
  "clone_payload (RepPayload u ts is vs n) m =
     (case OICCalloc m 1 sizeof_RepPayload of
        (False, m) \<Rightarrow> Some (None, m)
      | (True, m) \<Rightarrow>
          (case OICStrdup m u of (u', m) \<Rightarrow>
           (case CloneOCStringLL ts m of (ts', m) \<Rightarrow>
            (case CloneOCStringLL is m of (is', m) \<Rightarrow>
               do { (vs', m) \<leftarrow> clone_values [] vs m; Some (Some (RepPayload u' ts' is' (case vs' of None \<Rightarrow> [] | Some ws \<Rightarrow> ws) None), m) }))))"
| "clone_values headOfClone [] m = Some (Some headOfClone, m)"
| "clone_values headOfClone (RepValue nm v # vals) m =
     (case OICCalloc m 1 sizeof_RepValue of
        (False, m) \<Rightarrow> do { OCFreeRepPayloadValue headOfClone; Some (None, m) }
      | (True, m) \<Rightarrow>
          (case OICStrdup m nm of (nm', m) \<Rightarrow>
             do {
               (v', m) \<leftarrow> copy_prop v m;
               clone_values (headOfClone @ [RepValue nm' v']) vals m
             }))"
| "copy_prop (OCREP_PROP_STRING s) m = (case OICStrdup m s of (t, m) \<Rightarrow> Some (OCREP_PROP_STRING t, m))"
| "copy_prop (OCREP_PROP_BYTE_STRING b) m =
     (case OICMalloc m (bs_len b) of
        (False, m) \<Rightarrow> Some (OCREP_PROP_BYTE_STRING (b\<lparr>bs_bytes := None\<rparr>), m)
      | (True, m) \<Rightarrow> map_option (\<lambda>bs. (OCREP_PROP_BYTE_STRING (b\<lparr>bs_bytes := Some bs\<rparr>), m)) (copy_from (bs_len b) (bs_bytes b)))"
| "copy_prop (OCREP_PROP_OBJECT None) m = Some (OCREP_PROP_OBJECT None, m)"
| "copy_prop (OCREP_PROP_OBJECT (Some p)) m = do { (q, m) \<leftarrow> clone_payload p m; Some (OCREP_PROP_OBJECT q, m) }"
| "copy_prop (OCREP_PROP_ARRAY dims arr) m = do { (a, m) \<leftarrow> copy_array (calcDimTotal dims) arr m; Some (OCREP_PROP_ARRAY dims a, m) }"
| "copy_prop v m = Some (v, m)"
| "copy_array n (iArray xs) m = do { (ys, m) \<leftarrow> copy_flat n 8 xs m; Some (iArray ys, m) }"
| "copy_array n (dArray xs) m = do { (ys, m) \<leftarrow> copy_flat n 8 xs m; Some (dArray ys, m) }"
| "copy_array n (bArray xs) m = do { (ys, m) \<leftarrow> copy_flat n 1 xs m; Some (bArray ys, m) }"
| "copy_array n (strArray xs) m =
     (case OICMalloc m (array_bytes n 8) of
        (False, m) \<Rightarrow> Some (strArray None, m)
      | (True, m) \<Rightarrow>
          if array_cells n 8 < n then None
          else do { (ys, m) \<leftarrow> copy_strs n (case xs of None \<Rightarrow> [] | Some ss \<Rightarrow> ss) m; Some (strArray (Some ys), m) })"
| "copy_array n (ocByteStrArray xs) m =
     (case OICCalloc m n sizeof_OCByteString of
        (False, m) \<Rightarrow> Some (ocByteStrArray None, m)
      | (True, m) \<Rightarrow> do { (ys, m) \<leftarrow> copy_byte_strs n (case xs of None \<Rightarrow> [] | Some bs \<Rightarrow> bs) m; Some (ocByteStrArray (Some ys), m) })"
| "copy_array n (objArray None) m =
     (case OICMalloc m (array_bytes n 8) of (False, m) \<Rightarrow> Some (objArray None, m) | (True, m) \<Rightarrow> None)"
| "copy_array n (objArray (Some ps)) m =
     (case OICMalloc m (array_bytes n 8) of
        (False, m) \<Rightarrow> Some (objArray None, m)
      | (True, m) \<Rightarrow> if array_cells n 8 < n then None else do { (qs, m) \<leftarrow> copy_objs n ps m; Some (objArray (Some qs), m) })"
| "copy_objs 0 ps m = Some ([], m)"
| "copy_objs (Suc k) (None # ps) m = do { (qs, m) \<leftarrow> copy_objs k ps m; Some (None # qs, m) }"
| "copy_objs (Suc k) (Some p # ps) m = do { (q, m) \<leftarrow> clone_payload p m; (qs, m) \<leftarrow> copy_objs k ps m; Some (q # qs, m) }"
| "copy_objs (Suc k) [] m = None"

definition OCRepPayloadClone :: "'d OCRepPayload option \<Rightarrow> mem \<Rightarrow> ('d OCRepPayload option \<times> mem) option" where
  "OCRepPayloadClone payload m = (case payload of None \<Rightarrow> Some (None, m) | Some p \<Rightarrow> clone_payload p m)"

section \<open>Resource types, interfaces and the URI\<close>

definition append_ll :: "string option list \<Rightarrow> string option \<Rightarrow> mem \<Rightarrow> string option list option \<times> mem" where
  "append_ll ll v m = (case OICCalloc m 1 sizeof_OCStringLL of (False, m) \<Rightarrow> (None, m) | (True, m) \<Rightarrow> (Some (ll @ [v]), m))"

definition OCRepPayloadAddResourceTypeAsOwner :: "'d OCRepPayload option \<Rightarrow> string option \<Rightarrow> mem \<Rightarrow> bool \<times> 'd OCRepPayload option \<times> mem" where
  "OCRepPayloadAddResourceTypeAsOwner payload resourceType m =
     (case (payload, resourceType) of
        (Some (RepPayload u ts is vs n), Some rt) \<Rightarrow>
          (case append_ll ts (Some rt) m of
             (None, m) \<Rightarrow> (False, payload, m)
           | (Some ts', m) \<Rightarrow> (True, Some (RepPayload u ts' is vs n), m))
      | _ \<Rightarrow> (False, payload, m))"

definition OCRepPayloadAddResourceType :: "'d OCRepPayload option \<Rightarrow> string option \<Rightarrow> mem \<Rightarrow> bool \<times> 'd OCRepPayload option \<times> mem" where
  "OCRepPayloadAddResourceType payload resourceType m =
     (case OICStrdup m resourceType of (s, m) \<Rightarrow> OCRepPayloadAddResourceTypeAsOwner payload s m)"

definition OCRepPayloadAddInterfaceAsOwner :: "'d OCRepPayload option \<Rightarrow> string option \<Rightarrow> mem \<Rightarrow> bool \<times> 'd OCRepPayload option \<times> mem" where
  "OCRepPayloadAddInterfaceAsOwner payload iface m =
     (case (payload, iface) of
        (Some (RepPayload u ts is vs n), Some i) \<Rightarrow>
          (case append_ll is (Some i) m of
             (None, m) \<Rightarrow> (False, payload, m)
           | (Some is', m) \<Rightarrow> (True, Some (RepPayload u ts is' vs n), m))
      | _ \<Rightarrow> (False, payload, m))"

definition OCRepPayloadAddInterface :: "'d OCRepPayload option \<Rightarrow> string option \<Rightarrow> mem \<Rightarrow> bool \<times> 'd OCRepPayload option \<times> mem" where
  "OCRepPayloadAddInterface payload iface m =
     (case OICStrdup m iface of (s, m) \<Rightarrow> OCRepPayloadAddInterfaceAsOwner payload s m)"

definition OCRepPayloadSetUri :: "'d OCRepPayload option \<Rightarrow> string option \<Rightarrow> mem \<Rightarrow> bool \<times> 'd OCRepPayload option \<times> mem" where
  "OCRepPayloadSetUri payload uri m =
     (case payload of
        None \<Rightarrow> (False, None, m)
      | Some (RepPayload u ts is vs n) \<Rightarrow> (case OICStrdup m uri of (s, m) \<Rightarrow> (s \<noteq> None, Some (RepPayload s ts is vs n), m)))"

section \<open>Single values\<close>

text \<open>
  A getter returns whether it succeeds and what it writes; \<^const>\<open>None\<close> when it writes nothing or NULL. The
  pointers to the results are not NULL.
\<close>

definition OCRepPayloadIsNull :: "'d OCRepPayload option \<Rightarrow> string option \<Rightarrow> bool option" where
  "OCRepPayloadIsNull payload name =
     map_option (\<lambda>val. case val of None \<Rightarrow> True | Some v \<Rightarrow> rv_prop v = OCREP_PROP_NULL) (OCRepPayloadFindValue payload name)"

definition OCRepPayloadSetNull :: "'d OCRepPayload option \<Rightarrow> string option \<Rightarrow> mem \<Rightarrow> 'd set_result" where
  "OCRepPayloadSetNull payload name m = OCRepPayloadSetProp payload name OCREP_PROP_NULL m"

definition OCRepPayloadSetPropInt :: "'d OCRepPayload option \<Rightarrow> string option \<Rightarrow> i64 \<Rightarrow> mem \<Rightarrow> 'd set_result" where
  "OCRepPayloadSetPropInt payload name v m = OCRepPayloadSetProp payload name (OCREP_PROP_INT v) m"

definition OCRepPayloadSetPropDouble :: "'d OCRepPayload option \<Rightarrow> string option \<Rightarrow> 'd \<Rightarrow> mem \<Rightarrow> 'd set_result" where
  "OCRepPayloadSetPropDouble payload name v m = OCRepPayloadSetProp payload name (OCREP_PROP_DOUBLE v) m"

definition OCRepPayloadSetPropBool :: "'d OCRepPayload option \<Rightarrow> string option \<Rightarrow> bool \<Rightarrow> mem \<Rightarrow> 'd set_result" where
  "OCRepPayloadSetPropBool payload name v m = OCRepPayloadSetProp payload name (OCREP_PROP_BOOL v) m"

definition OCRepPayloadSetPropStringAsOwner :: "'d OCRepPayload option \<Rightarrow> string option \<Rightarrow> string option \<Rightarrow> mem \<Rightarrow> 'd set_result" where
  "OCRepPayloadSetPropStringAsOwner payload name v m = OCRepPayloadSetProp payload name (OCREP_PROP_STRING v) m"

definition OCRepPayloadSetPropString :: "'d OCRepPayload option \<Rightarrow> string option \<Rightarrow> string option \<Rightarrow> mem \<Rightarrow> 'd set_result" where
  "OCRepPayloadSetPropString payload name v m =
     (case OICStrdup m v of (temp, m) \<Rightarrow> OCRepPayloadSetPropStringAsOwner payload name temp m)"

definition OCRepPayloadSetPropByteStringAsOwner :: "'d OCRepPayload option \<Rightarrow> string option \<Rightarrow> OCByteString \<Rightarrow> mem \<Rightarrow> 'd set_result" where
  "OCRepPayloadSetPropByteStringAsOwner payload name v m = OCRepPayloadSetProp payload name (OCREP_PROP_BYTE_STRING v) m"

definition OCRepPayloadSetPropByteString :: "'d OCRepPayload option \<Rightarrow> string option \<Rightarrow> OCByteString \<Rightarrow> mem \<Rightarrow> 'd set_result" where
  "OCRepPayloadSetPropByteString payload name v m =
     do {
       (b, ocByteStr, m) \<leftarrow> OCByteStringCopy (Some v) m;
       if b then OCRepPayloadSetPropByteStringAsOwner payload name ocByteStr m else Some (False, payload, m)
     }"

definition OCRepPayloadSetPropObjectAsOwner :: "'d OCRepPayload option \<Rightarrow> string option \<Rightarrow> 'd OCRepPayload option \<Rightarrow> mem \<Rightarrow> 'd set_result" where
  "OCRepPayloadSetPropObjectAsOwner payload name v m = OCRepPayloadSetProp payload name (OCREP_PROP_OBJECT v) m"

definition OCRepPayloadSetPropObject :: "'d OCRepPayload option \<Rightarrow> string option \<Rightarrow> 'd OCRepPayload option \<Rightarrow> mem \<Rightarrow> 'd set_result" where
  "OCRepPayloadSetPropObject payload name v m =
     do {
       (temp, m) \<leftarrow> OCRepPayloadClone v m;
       (b, p, m) \<leftarrow> OCRepPayloadSetPropObjectAsOwner payload name temp m;
       if b then Some (b, p, m) else do { OCRepPayloadDestroy temp; Some (b, p, m) }
     }"

definition get_prop :: "'d OCRepPayload option \<Rightarrow> string option \<Rightarrow> 'd OCRepProp option option" where
  "get_prop payload name = map_option (map_option rv_prop) (OCRepPayloadFindValue payload name)"

definition OCRepPayloadGetPropInt :: "'d OCRepPayload option \<Rightarrow> string option \<Rightarrow> i64 option option" where
  "OCRepPayloadGetPropInt payload name =
     map_option (\<lambda>v. case v of Some (OCREP_PROP_INT i) \<Rightarrow> Some i | _ \<Rightarrow> None) (get_prop payload name)"

definition OCRepPayloadGetPropDouble :: "(i64 \<Rightarrow> 'd) \<Rightarrow> 'd OCRepPayload option \<Rightarrow> string option \<Rightarrow> 'd option option" where
  "OCRepPayloadGetPropDouble to_double payload name =
     map_option (\<lambda>v. case v of Some (OCREP_PROP_DOUBLE d) \<Rightarrow> Some d | Some (OCREP_PROP_INT i) \<Rightarrow> Some (to_double i) | _ \<Rightarrow> None)
       (get_prop payload name)"

definition OCRepPayloadGetPropBool :: "'d OCRepPayload option \<Rightarrow> string option \<Rightarrow> bool option option" where
  "OCRepPayloadGetPropBool payload name =
     map_option (\<lambda>v. case v of Some (OCREP_PROP_BOOL b) \<Rightarrow> Some b | _ \<Rightarrow> None) (get_prop payload name)"

definition OCRepPayloadGetPropString :: "'d OCRepPayload option \<Rightarrow> string option \<Rightarrow> mem \<Rightarrow> (bool \<times> string option \<times> mem) option" where
  "OCRepPayloadGetPropString payload name m =
     map_option (\<lambda>v. case v of Some (OCREP_PROP_STRING s) \<Rightarrow> (case OICStrdup m s of (t, m) \<Rightarrow> (t \<noteq> None, t, m)) | _ \<Rightarrow> (False, None, m))
       (get_prop payload name)"

text \<open>The result is NULL when the call fails.\<close>

definition OCRepPayloadGetPropByteString ::
  "'d OCRepPayload option \<Rightarrow> string option \<Rightarrow> bool \<Rightarrow> mem \<Rightarrow> (bool \<times> OCByteString option \<times> mem) option" where
  "OCRepPayloadGetPropByteString payload name value_nonnull m =
     do {
       v \<leftarrow> get_prop payload name;
       case v of
         Some (OCREP_PROP_BYTE_STRING b) \<Rightarrow>
           if \<not> value_nonnull then Some (False, None, m)
           else if bs_len b = 0 then Some (True, Some \<lparr>bs_bytes = None, bs_len = 0\<rparr>, m)
           else
             (case OICMalloc m (bs_len b) of
                (False, m) \<Rightarrow> Some (False, None, m)
              | (True, m) \<Rightarrow> map_option (\<lambda>bs. (True, Some \<lparr>bs_bytes = Some bs, bs_len = bs_len b\<rparr>, m)) (copy_from (bs_len b) (bs_bytes b)))
       | _ \<Rightarrow> Some (False, None, m)
     }"

definition OCRepPayloadGetPropObject :: "'d OCRepPayload option \<Rightarrow> string option \<Rightarrow> mem \<Rightarrow> (bool \<times> 'd OCRepPayload option \<times> mem) option" where
  "OCRepPayloadGetPropObject payload name m =
     do {
       v \<leftarrow> get_prop payload name;
       case v of
         Some (OCREP_PROP_OBJECT p) \<Rightarrow> do { (q, m) \<leftarrow> OCRepPayloadClone p m; Some (q \<noteq> None, q, m) }
       | _ \<Rightarrow> Some (False, None, m)
     }"

section \<open>Arrays\<close>

definition set_array :: "'d OCRepPayload option \<Rightarrow> string option \<Rightarrow> 'd OCRepArray \<Rightarrow> nat list \<Rightarrow> mem \<Rightarrow> 'd set_result" where
  "set_array payload name a dimensions m =
     OCRepPayloadFindAndSetValue payload name (OCREP_PROP_ARRAY (take MAX_REP_ARRAY_DEPTH dimensions) a) m"

definition OCRepPayloadSetIntArrayAsOwner where
  "OCRepPayloadSetIntArrayAsOwner payload name xs dimensions m = set_array payload name (iArray xs) dimensions m"
definition OCRepPayloadSetDoubleArrayAsOwner where
  "OCRepPayloadSetDoubleArrayAsOwner payload name xs dimensions m = set_array payload name (dArray xs) dimensions m"
definition OCRepPayloadSetBoolArrayAsOwner where
  "OCRepPayloadSetBoolArrayAsOwner payload name xs dimensions m = set_array payload name (bArray xs) dimensions m"
definition OCRepPayloadSetStringArrayAsOwner where
  "OCRepPayloadSetStringArrayAsOwner payload name xs dimensions m = set_array payload name (strArray xs) dimensions m"
definition OCRepPayloadSetByteStringArrayAsOwner where
  "OCRepPayloadSetByteStringArrayAsOwner payload name xs dimensions m = set_array payload name (ocByteStrArray xs) dimensions m"
definition OCRepPayloadSetPropObjectArrayAsOwner where
  "OCRepPayloadSetPropObjectArrayAsOwner payload name xs dimensions m = set_array payload name (objArray xs) dimensions m"

text \<open>An array of integers may be NULL; what is stored then was never written.\<close>

definition OCRepPayloadSetIntArray ::
  "'d OCRepPayload option \<Rightarrow> string option \<Rightarrow> i64 list option \<Rightarrow> nat list \<Rightarrow> mem \<Rightarrow> 'd set_result" where
  "OCRepPayloadSetIntArray payload name xs dimensions m =
     (let dimTotal = calcDimTotal dimensions in
      case OICMalloc m (array_bytes dimTotal 8) of
        (False, m) \<Rightarrow> OCRepPayloadSetIntArrayAsOwner payload name None dimensions m
      | (True, m) \<Rightarrow>
          do {
            ys \<leftarrow> (case xs of None \<Rightarrow> Some (replicate (array_cells dimTotal 8) None)
                  | Some _ \<Rightarrow> map_option (map Some) (copy_from (array_cells dimTotal 8) xs));
            OCRepPayloadSetIntArrayAsOwner payload name (Some ys) dimensions m
          })"

definition set_flat_array ::
  "('a list option \<Rightarrow> nat list \<Rightarrow> mem \<Rightarrow> 'd set_result) \<Rightarrow> 'd OCRepPayload option \<Rightarrow> nat \<Rightarrow> 'a list option \<Rightarrow> nat list \<Rightarrow> mem \<Rightarrow> 'd set_result" where
  "set_flat_array as_owner payload sz xs dimensions m =
     (if calcDimTotal dimensions = 0 then Some (False, payload, m)
      else
        do {
          (ys, m) \<leftarrow> copy_flat (calcDimTotal dimensions) sz xs m;
          case ys of None \<Rightarrow> Some (False, payload, m) | Some _ \<Rightarrow> as_owner ys dimensions m
        })"

definition OCRepPayloadSetDoubleArray where
  "OCRepPayloadSetDoubleArray payload name xs dimensions m =
     set_flat_array (OCRepPayloadSetDoubleArrayAsOwner payload name) payload 8 xs dimensions m"

definition OCRepPayloadSetBoolArray where
  "OCRepPayloadSetBoolArray payload name xs dimensions m =
     set_flat_array (OCRepPayloadSetBoolArrayAsOwner payload name) payload 1 xs dimensions m"

text \<open>A string that cannot be copied is stored as NULL.\<close>

fun dup_strs :: "nat \<Rightarrow> string option list \<Rightarrow> mem \<Rightarrow> (string option list \<times> mem) option" where
  "dup_strs 0 ss m = Some ([], m)"
| "dup_strs (Suc k) (s # ss) m = (case OICStrdup m s of (t, m) \<Rightarrow> do { (ts, m) \<leftarrow> dup_strs k ss m; Some (t # ts, m) })"
| "dup_strs (Suc k) [] m = None"

definition OCRepPayloadSetStringArray ::
  "'d OCRepPayload option \<Rightarrow> string option \<Rightarrow> string option list \<Rightarrow> nat list \<Rightarrow> mem \<Rightarrow> 'd set_result" where
  "OCRepPayloadSetStringArray payload name xs dimensions m =
     (let dimTotal = calcDimTotal dimensions in
      if dimTotal = 0 then Some (False, payload, m)
      else
        (case OICMalloc m (array_bytes dimTotal 8) of
           (False, m) \<Rightarrow> Some (False, payload, m)
         | (True, m) \<Rightarrow>
             if array_cells dimTotal 8 < dimTotal then None
             else
               do {
                 (ys, m) \<leftarrow> dup_strs dimTotal xs m;
                 OCRepPayloadSetStringArrayAsOwner payload name (Some (map Some ys)) dimensions m
               }))"

text \<open>The byte strings of an array; the inner \<^const>\<open>None\<close> says that there was no memory for one of them.\<close>

fun dup_byte_strs :: "nat \<Rightarrow> OCByteString list \<Rightarrow> mem \<Rightarrow> (OCByteString list option \<times> mem) option" where
  "dup_byte_strs 0 bs m = Some (Some [], m)"
| "dup_byte_strs (Suc k) (b # bs) m =
     (if bs_len b = 0 then do { (r, m) \<leftarrow> dup_byte_strs k bs m; Some (map_option (Cons \<lparr>bs_bytes = None, bs_len = 0\<rparr>) r, m) }
      else
        (case OICMalloc m (bs_len b) of
           (False, m) \<Rightarrow> Some (None, m)
         | (True, m) \<Rightarrow>
             do {
               xs \<leftarrow> copy_from (bs_len b) (bs_bytes b);
               (r, m) \<leftarrow> dup_byte_strs k bs m;
               Some (map_option (Cons \<lparr>bs_bytes = Some xs, bs_len = bs_len b\<rparr>) r, m)
             }))"
| "dup_byte_strs (Suc k) [] m = None"

definition OCRepPayloadSetByteStringArray ::
  "'d OCRepPayload option \<Rightarrow> string option \<Rightarrow> OCByteString list option \<Rightarrow> nat list \<Rightarrow> mem \<Rightarrow> 'd set_result" where
  "OCRepPayloadSetByteStringArray payload name xs dimensions m =
     (case xs of
        None \<Rightarrow> Some (False, payload, m)
      | Some bs \<Rightarrow>
          let dimTotal = calcDimTotal dimensions in
          if dimTotal = 0 then Some (False, payload, m)
          else
            (case OICCalloc m dimTotal sizeof_OCByteString of
               (False, m) \<Rightarrow> Some (False, payload, m)
             | (True, m) \<Rightarrow>
                 do {
                   (r, m) \<leftarrow> dup_byte_strs dimTotal bs m;
                   case r of
                     None \<Rightarrow> Some (False, payload, m)
                   | Some ys \<Rightarrow> OCRepPayloadSetByteStringArrayAsOwner payload name (Some ys) dimensions m
                 }))"

definition OCRepPayloadSetPropObjectArray ::
  "'d OCRepPayload option \<Rightarrow> string option \<Rightarrow> 'd OCRepPayload option list \<Rightarrow> nat list \<Rightarrow> mem \<Rightarrow> 'd set_result" where
  "OCRepPayloadSetPropObjectArray payload name ps dimensions m =
     (let dimTotal = calcDimTotal dimensions in
      if dimTotal = 0 then Some (False, payload, m)
      else
        (case OICMalloc m (array_bytes dimTotal 8) of
           (False, m) \<Rightarrow> Some (False, payload, m)
         | (True, m) \<Rightarrow>
             if array_cells dimTotal 8 < dimTotal then None
             else
               do {
                 (qs, m) \<leftarrow> copy_objs dimTotal ps m;
                 (b, p, m) \<leftarrow> OCRepPayloadSetPropObjectArrayAsOwner payload name (Some qs) dimensions m;
                 if b then Some (b, p, m) else do { free_objs dimTotal qs; Some (b, p, m) }
               }))"

text \<open>The getters write the array and its dimensions.\<close>

type_synonym 'a array_result = "(bool \<times> ('a list \<times> nat list) option \<times> mem) option"

definition get_flat_array :: "nat \<Rightarrow> 'a list option \<Rightarrow> nat list \<Rightarrow> mem \<Rightarrow> 'a array_result" where
  "get_flat_array sz xs dimensions m =
     (if xs = None \<or> calcDimTotal dimensions = 0 then Some (False, None, m)
      else
        do {
          (ys, m) \<leftarrow> copy_flat (calcDimTotal dimensions) sz xs m;
          Some (ys \<noteq> None, map_option (\<lambda>zs. (zs, dimensions)) ys, m)
        })"

definition OCRepPayloadGetIntArray :: "'d OCRepPayload option \<Rightarrow> string option \<Rightarrow> mem \<Rightarrow> i64 option array_result" where
  "OCRepPayloadGetIntArray payload name m =
     do {
       v \<leftarrow> get_prop payload name;
       case v of Some (OCREP_PROP_ARRAY dims (iArray xs)) \<Rightarrow> get_flat_array 8 xs dims m | _ \<Rightarrow> Some (False, None, m)
     }"

text \<open>An array of integers is converted; reading a cell that was never written is undefined.\<close>

definition OCRepPayloadGetDoubleArray :: "(i64 \<Rightarrow> 'd) \<Rightarrow> 'd OCRepPayload option \<Rightarrow> string option \<Rightarrow> mem \<Rightarrow> 'd array_result" where
  "OCRepPayloadGetDoubleArray to_double payload name m =
     do {
       v \<leftarrow> get_prop payload name;
       case v of
         Some (OCREP_PROP_ARRAY dims (dArray xs)) \<Rightarrow> get_flat_array 8 xs dims m
       | Some (OCREP_PROP_ARRAY dims (iArray xs)) \<Rightarrow>
           do {
             (ok, r, m) \<leftarrow> get_flat_array 8 xs dims m;
             case r of
               None \<Rightarrow> Some (ok, None, m)
             | Some (ys, d) \<Rightarrow>
                 if None \<in> set ys \<or> length ys < calcDimTotal dims then None
                 else Some (ok, Some (map (to_double \<circ> the) ys, d), m)
           }
       | _ \<Rightarrow> Some (False, None, m)
     }"

definition OCRepPayloadGetBoolArray :: "'d OCRepPayload option \<Rightarrow> string option \<Rightarrow> mem \<Rightarrow> bool array_result" where
  "OCRepPayloadGetBoolArray payload name m =
     do {
       v \<leftarrow> get_prop payload name;
       case v of Some (OCREP_PROP_ARRAY dims (bArray xs)) \<Rightarrow> get_flat_array 1 xs dims m | _ \<Rightarrow> Some (False, None, m)
     }"

definition OCRepPayloadGetStringArray :: "'d OCRepPayload option \<Rightarrow> string option \<Rightarrow> mem \<Rightarrow> string option array_result" where
  "OCRepPayloadGetStringArray payload name m =
     do {
       v \<leftarrow> get_prop payload name;
       case v of
         Some (OCREP_PROP_ARRAY dims (strArray (Some xs))) \<Rightarrow>
           let dimTotal = calcDimTotal dims in
           if dimTotal = 0 then Some (False, None, m)
           else
             (case OICMalloc m (array_bytes dimTotal 8) of
                (False, m) \<Rightarrow> Some (False, None, m)
              | (True, m) \<Rightarrow>
                  if array_cells dimTotal 8 < dimTotal \<or> None \<in> set (take dimTotal xs) then None
                  else do { (ys, m) \<leftarrow> dup_strs dimTotal (map the xs) m; Some (True, Some (ys, dims), m) })
       | _ \<Rightarrow> Some (False, None, m)
     }"

definition OCRepPayloadGetByteStringArray :: "'d OCRepPayload option \<Rightarrow> string option \<Rightarrow> mem \<Rightarrow> OCByteString array_result" where
  "OCRepPayloadGetByteStringArray payload name m =
     do {
       v \<leftarrow> get_prop payload name;
       case v of
         Some (OCREP_PROP_ARRAY dims (ocByteStrArray (Some xs))) \<Rightarrow>
           let dimTotal = calcDimTotal dims in
           if dimTotal = 0 then Some (False, None, m)
           else
             (case OICCalloc m dimTotal sizeof_OCByteString of
                (False, m) \<Rightarrow> Some (False, None, m)
              | (True, m) \<Rightarrow>
                  do {
                    (r, m) \<leftarrow> dup_byte_strs dimTotal xs m;
                    Some (r \<noteq> None, map_option (\<lambda>ys. (ys, dims)) r, m)
                  })
       | _ \<Rightarrow> Some (False, None, m)
     }"

definition OCRepPayloadGetPropObjectArray :: "'d OCRepPayload option \<Rightarrow> string option \<Rightarrow> mem \<Rightarrow> 'd OCRepPayload option array_result" where
  "OCRepPayloadGetPropObjectArray payload name m =
     do {
       v \<leftarrow> get_prop payload name;
       case v of
         Some (OCREP_PROP_ARRAY dims (objArray (Some ps))) \<Rightarrow>
           let dimTotal = calcDimTotal dims in
           if dimTotal = 0 then Some (False, None, m)
           else
             (case OICMalloc m (array_bytes dimTotal 8) of
                (False, m) \<Rightarrow> Some (False, None, m)
              | (True, m) \<Rightarrow>
                  if array_cells dimTotal 8 < dimTotal then None
                  else do { (qs, m) \<leftarrow> copy_objs dimTotal ps m; Some (True, Some (qs, dims), m) })
       | _ \<Rightarrow> Some (False, None, m)
     }"

section \<open>Batch\<close>

definition OC_RSRVD_REPRESENTATION :: string where "OC_RSRVD_REPRESENTATION = ''rep''"

text \<open>The payload is not NULL. The result of setting the property is ignored; without memory the clone is lost.\<close>

definition OCRepPayloadBatchClone :: "'d OCRepPayload \<Rightarrow> mem \<Rightarrow> ('d OCRepPayload option \<times> mem) option" where
  "OCRepPayloadBatchClone p m =
     (case OCRepPayloadCreate m of
        (None, m) \<Rightarrow> Some (None, m)
      | (Some new, m) \<Rightarrow>
          (case OICStrdup m (rp_uri p) of (u, m) \<Rightarrow>
             case (OCRepPayloadCreate m :: 'd OCRepPayload option \<times> mem) of
               (None, m) \<Rightarrow> Some (None, m)
             | (Some _, m) \<Rightarrow>
                 (case CloneOCStringLL (rp_types p) m of (ts, m) \<Rightarrow>
                  case CloneOCStringLL (rp_interfaces p) m of (is, m) \<Rightarrow>
                    do {
                      (vs, m) \<leftarrow> clone_values [] (rp_values p) m;
                      let clone = RepPayload None ts is (case vs of None \<Rightarrow> [] | Some ws \<Rightarrow> ws) None;
                      (_, r, m) \<leftarrow> OCRepPayloadSetPropObjectAsOwner
                        (Some (RepPayload u (rp_types new) (rp_interfaces new) (rp_values new) (rp_next new)))
                        (Some OC_RSRVD_REPRESENTATION) (Some clone) m;
                      Some (r, m)
                    })))"

end
