(* ===== verification/RepPayloadProps.thy ===== *)
theory RepPayloadProps
  imports RepPayload
begin

text \<open>
  The properties of representations. Setting and getting by name is the interface that the rest of the stack
  uses; its contract is the locale \<open>property_store\<close>, interpreted on the functions of the code. With enough
  memory (an empty \<open>mem\<close>) setting and getting are inverse, and a clone is the same tree; for every memory
  what a clone has lost is a relation, \<open>partial_copy\<close>, and the clone is defined when the payload has no arrays of strings, byte
  strings or objects. The last section shows what goes wrong with such arrays, with byte strings without bytes and
  with arrays that are NULL.
\<close>

section \<open>The contract of a store of properties\<close>

fun set_all :: "('s \<Rightarrow> 'k \<Rightarrow> 'v \<Rightarrow> mem \<Rightarrow> (bool \<times> 's \<times> mem) option) \<Rightarrow> 's \<Rightarrow> ('k \<times> 'v) list \<Rightarrow> mem \<Rightarrow> (bool \<times> 's \<times> mem) option" where
  "set_all put s [] m = Some (True, s, m)"
| "set_all put s ((k, v) # kvs) m = do { (ok, t, m) \<leftarrow> put s k v m; if ok then set_all put t kvs m else Some (False, t, m) }"

locale property_store =
  fixes inv :: "'s \<Rightarrow> bool"
    and storable :: "'v \<Rightarrow> bool"
    and abs :: "'s \<Rightarrow> 'k \<rightharpoonup> 'v"
    and put :: "'s \<Rightarrow> 'k \<Rightarrow> 'v \<Rightarrow> mem \<Rightarrow> (bool \<times> 's \<times> mem) option"
    and get :: "'s \<Rightarrow> 'k \<Rightarrow> 'v option option"
  assumes put: "inv s \<Longrightarrow> storable v \<Longrightarrow> \<exists>ok t m'. put s k v m = Some (ok, t, m') \<and> inv t \<and> (if ok then abs t = (abs s)(k \<mapsto> v) else t = s)"
    and get: "inv s \<Longrightarrow> get s k = Some (abs s k)"
begin

lemma get_put: "inv s \<Longrightarrow> storable v \<Longrightarrow> put s k v m = Some (True, t, m') \<Longrightarrow> get t j = (if j = k then Some (Some v) else get s j)"
  using put [of s v k m] get [of s j] get [of t j] by auto

lemma set_all: "inv s \<Longrightarrow> list_all (storable \<circ> snd) kvs \<Longrightarrow> \<exists>ok t m'. set_all put s kvs m = Some (ok, t, m') \<and> inv t
    \<and> (ok \<longrightarrow> abs t = abs s ++ map_of (rev kvs))"
proof (induction kvs arbitrary: s m)
  case (Cons kv kvs)
  obtain k v where kv: "kv = (k, v)" by fastforce
  obtain ok t m1 where t: "put s k v m = Some (ok, t, m1)" "inv t" "if ok then abs t = (abs s)(k \<mapsto> v) else t = s"
    using put [OF Cons.prems(1), of v k m] Cons.prems(2) kv by auto
  show ?case
  proof (cases ok)
    case True
    obtain ok' u m2 where u: "set_all put t kvs m1 = Some (ok', u, m2)" "inv u" "ok' \<longrightarrow> abs u = abs t ++ map_of (rev kvs)"
      using Cons.IH [OF t(2), of m1] Cons.prems(2) by auto
    have "set_all put s (kv # kvs) m = Some (ok', u, m2)" using True t(1) kv u(1) by simp
    moreover have "abs t ++ map_of (rev kvs) = abs s ++ map_of (rev (kv # kvs))"
      using True t(3) kv by (simp add: fun_eq_iff map_add_def map_of_append split: option.splits)
    ultimately show ?thesis using u(2,3) by simp
  qed (use t kv in auto)
qed auto

lemma get_last: "inv s \<Longrightarrow> list_all (storable \<circ> snd) kvs \<Longrightarrow> set_all put s kvs m = Some (True, t, m') \<Longrightarrow> distinct (map fst kvs) \<Longrightarrow> (k, v) \<in> set kvs
    \<Longrightarrow> get t k = Some (Some v)"
  using set_all [of s kvs m] get [of t k] map_of_is_SomeI [of "rev kvs" k v] by (auto simp: rev_map [symmetric])

end

section \<open>Properties by name\<close>

definition value_map :: "'d OCRepPayloadValue list \<Rightarrow> string \<rightharpoonup> 'd OCRepProp" where
  "value_map vs = map_of (map (\<lambda>v. (the (rv_name v), rv_prop v)) vs)"

definition rep_map :: "'d OCRepPayload \<Rightarrow> string \<rightharpoonup> 'd OCRepProp" where
  "rep_map p = value_map (rp_values p)"

lemma value_map_simps [simp]:
  "value_map [] = Map.empty" "value_map (v # vs) = (value_map vs)(the (rv_name v) \<mapsto> rv_prop v)"
  by (simp_all add: value_map_def)

definition named :: "'d OCRepPayload \<Rightarrow> bool" where
  "named p \<longleftrightarrow> (\<forall>v \<in> set (rp_values p). rv_name v \<noteq> None) \<and> distinct (map rv_name (rp_values p))"

text \<open>Replacing a value frees its contents, which is defined for these values and payloads.\<close>

definition freeable_prop :: "'d OCRepProp \<Rightarrow> bool" where
  "freeable_prop v \<longleftrightarrow> OCFreeRepPayloadValueContents v = Some ()"

definition freeable :: "'d OCRepPayload \<Rightarrow> bool" where
  "freeable p \<longleftrightarrow> OCFreeRepPayloadValue (rp_values p) = Some ()"

lemma bind_unit: "(do { x; y }) = Some () \<longleftrightarrow> x = Some () \<and> y = Some ()"
  by (cases x) auto

lemma freeable_values: "OCFreeRepPayloadValue vs = Some () \<longleftrightarrow> list_all (\<lambda>v. freeable_prop (rv_prop v)) vs"
proof (induction vs)
  case (Cons v vs)
  then show ?case by (cases v) (simp add: freeable_prop_def bind_unit)
qed simp

text \<open>There is memory for a value of a new name.\<close>

definition room_for :: "string \<Rightarrow> mem \<Rightarrow> bool" where
  "room_for n m = (case OICCalloc m 1 sizeof_RepValue of (False, _) \<Rightarrow> False | (True, m) \<Rightarrow> fst (OICStrdup m (Some n)) \<noteq> None)"

definition same_but_values :: "'d OCRepPayload \<Rightarrow> 'd OCRepPayload \<Rightarrow> bool" where
  "same_but_values p q \<longleftrightarrow>
     rp_uri q = rp_uri p \<and> rp_types q = rp_types p \<and> rp_interfaces q = rp_interfaces p \<and> rp_next q = rp_next p"

definition fits :: "string option \<Rightarrow> bool" where
  "fits s = (case s of None \<Rightarrow> True | Some x \<Rightarrow> length x < max_object)"

lemma fits_simps [simp]: "fits None" "fits (Some x) \<longleftrightarrow> length x < max_object"
  by (simp_all add: fits_def)

lemma with_values_simps [simp]:
  "rp_values (with_values vs p) = vs" "same_but_values p (with_values vs p)" "same_but_values p p"
  by (simp_all add: with_values_def same_but_values_def)

lemma OICCalloc_nil [simp]: "OICCalloc [] a b = (a \<noteq> 0 \<and> b \<noteq> 0 \<and> a * b \<le> max_object, [])"
  by (auto simp: OICCalloc_def)

lemma OICMalloc_nil [simp]: "OICMalloc [] a = (a \<noteq> 0 \<and> a \<le> max_object, [])"
  by (auto simp: OICMalloc_def)

lemma sizes_fit [simp]:
  "sizeof_RepValue \<noteq> 0" "sizeof_RepPayload \<noteq> 0" "sizeof_OCStringLL \<noteq> 0" "sizeof_OCByteString \<noteq> 0"
  "sizeof_RepValue \<le> max_object" "sizeof_RepPayload \<le> max_object" "sizeof_OCStringLL \<le> max_object"
  by (simp_all add: sizeof_RepValue_def sizeof_RepPayload_def sizeof_OCStringLL_def sizeof_OCByteString_def max_object_def)

lemma OICStrdup_nil [simp]: "fits s \<Longrightarrow> OICStrdup [] s = (s, [])"
  by (auto simp: OICStrdup_def fits_def split: option.splits)

lemma OICStrdup_empty: "OICStrdup [] s = (t, m') \<Longrightarrow> m' = []"
  by (auto simp: OICStrdup_def split: option.splits prod.splits bool.splits)

lemma OICStrdup_result: "OICStrdup m s = (t, m') \<Longrightarrow> t = s \<or> t = None"
  by (auto simp: OICStrdup_def split: option.splits prod.splits bool.splits)

lemma find_value_map_of:
  assumes "\<forall>v \<in> set vs. rv_name v \<noteq> None"
  shows "map_option (map_option rv_prop) (find_value n vs) = Some (value_map vs n)"
  using assms by (induction vs) auto

lemma get_prop_map: "named p \<Longrightarrow> get_prop (Some p) (Some n) = Some (rep_map p n)"
  unfolding named_def get_prop_def OCRepPayloadFindValue_def rep_map_def by (simp add: find_value_map_of)

lemma find_and_set_spec:
  assumes "\<forall>v \<in> set vs. rv_name v \<noteq> None" "distinct (map rv_name vs)" "list_all (\<lambda>v. freeable_prop (rv_prop v)) vs"
  shows "\<exists>r m'. find_and_set n v vs m = Some (r, m')
    \<and> (\<forall>ws. r = Some ws \<longrightarrow> (\<forall>w \<in> set ws. rv_name w \<noteq> None) \<and> distinct (map rv_name ws)
         \<and> set (map rv_name ws) = insert (Some n) (set (map rv_name vs))
         \<and> value_map ws = (value_map vs)(n \<mapsto> v)
         \<and> (freeable_prop v \<longrightarrow> list_all (\<lambda>v. freeable_prop (rv_prop v)) ws))
    \<and> (r \<noteq> None \<longleftrightarrow> Some n \<in> set (map rv_name vs) \<or> room_for n m)
    \<and> (Some n \<in> set (map rv_name vs) \<longrightarrow> m' = m)
    \<and> (m = [] \<longrightarrow> m' = [])"
  using assms
proof (induction vs)
  case Nil
  obtain b m1 where a: "OICCalloc m 1 sizeof_RepValue = (b, m1)" by fastforce
  obtain t m2 where s: "OICStrdup m1 (Some n) = (t, m2)" by fastforce
  have e: "m = [] \<Longrightarrow> m1 = [] \<and> m2 = []" using a s OICStrdup_empty [of "Some n" t m2] by auto
  show ?case
  proof (cases b)
    case False
    then show ?thesis using a e by (auto simp: room_for_def)
  next
    case True
    then show ?thesis using a s e OICStrdup_result [OF s] by (cases t) (auto simp: room_for_def)
  qed
next
  case (Cons val vals)
  obtain s where s: "rv_name val = Some s" using Cons.prems by auto
  have f: "OCFreeRepPayloadValueContents (rv_prop val) = Some ()" using Cons.prems(3) by (simp add: freeable_prop_def)
  show ?case
  proof (cases "s = n")
    case True
    then show ?thesis using Cons.prems s f by auto
  next
    case False
    have vals: "\<forall>v \<in> set vals. rv_name v \<noteq> None" "distinct (map rv_name vals)" "list_all (\<lambda>v. freeable_prop (rv_prop v)) vals"
      using Cons.prems by simp_all
    obtain r m' where r: "find_and_set n v vals m = Some (r, m')"
      using Cons.IH [OF vals] by (elim exE conjE)
    note ih = Cons.IH [OF vals, unfolded r]
    show ?thesis
    proof (cases r)
      case None
      have "find_and_set n v (val # vals) m = Some (None, m')" using s False r None by simp
      moreover have "Some n \<notin> set (map rv_name vals)" "\<not> room_for n m" "m = [] \<longrightarrow> m' = []" using ih None by simp_all
      ultimately show ?thesis using s False by simp
    next
      case (Some ws)
      have *: "(\<forall>w \<in> set ws. rv_name w \<noteq> None)" "distinct (map rv_name ws)"
        "set (map rv_name ws) = insert (Some n) (set (map rv_name vals))"
        "value_map ws = (value_map vals)(n \<mapsto> v)"
        "Some n \<in> set (map rv_name vals) \<longrightarrow> m' = m" "m = [] \<longrightarrow> m' = []" "Some n \<in> set (map rv_name vals) \<or> room_for n m"
        "freeable_prop v \<longrightarrow> list_all (\<lambda>v. freeable_prop (rv_prop v)) ws"
        using ih Some by (simp_all add: fun_upd_def)
      have d: "distinct (map rv_name (val # ws))" using * Cons.prems s False by auto
      have m: "value_map (val # ws) = (value_map (val # vals))(n \<mapsto> v)"
        using *(4) s False by (simp add: fun_upd_twist)
      have i: "set (map rv_name (val # ws)) = insert (Some n) (set (map rv_name (val # vals)))" using *(3) s by auto
      have f: "find_and_set n v (val # vals) m = Some (Some (val # ws), m')" using s False r Some by simp
      have n: "\<forall>w \<in> set (val # ws). rv_name w \<noteq> None" using *(1) s by simp
      have q: "freeable_prop v \<longrightarrow> list_all (\<lambda>v. freeable_prop (rv_prop v)) (val # ws)" using *(8) Cons.prems(3) by simp
      have o: "Some n \<in> set (map rv_name (val # vals)) \<or> room_for n m" using *(7) by auto
      have "Some n \<in> set (map rv_name (val # vals)) \<longrightarrow> m' = m" using *(5) s False by simp
      then show ?thesis using f n d m i q o *(6)
        by (intro exI [of _ "Some (val # ws)"] exI [of _ m']) (simp only: option.inject simp_thms option.distinct)
    qed
  qed
qed

lemma room_for_plenty: "length n < max_object \<Longrightarrow> room_for n []"
  by (simp add: room_for_def)

lemma value_map_names: "\<forall>v \<in> set vs. rv_name v \<noteq> None \<Longrightarrow> n \<in> dom (value_map vs) \<longleftrightarrow> Some n \<in> set (map rv_name vs)"
proof (induction vs)
  case (Cons v vs)
  then obtain s where "rv_name v = Some s" by auto
  then show ?case using Cons by auto
qed simp

lemma OCRepPayloadFindAndSetValue_refines:
  assumes "named p" "freeable p"
  shows "\<exists>ok q m'. OCRepPayloadFindAndSetValue (Some p) (Some n) v m = Some (ok, Some q, m')
    \<and> named q \<and> same_but_values p q \<and> (freeable_prop v \<longrightarrow> freeable q)
    \<and> (if ok then rep_map q = (rep_map p)(n \<mapsto> v) else q = p)
    \<and> (ok \<longleftrightarrow> n \<in> dom (rep_map p) \<or> room_for n m)
    \<and> (n \<in> dom (rep_map p) \<longrightarrow> m' = m)
    \<and> (m = [] \<longrightarrow> m' = [])"
proof -
  have p: "\<forall>v \<in> set (rp_values p). rv_name v \<noteq> None" "distinct (map rv_name (rp_values p))"
    "list_all (\<lambda>v. freeable_prop (rv_prop v)) (rp_values p)"
    using assms by (auto simp: named_def freeable_def freeable_values)
  have dom: "n \<in> dom (rep_map p) \<longleftrightarrow> Some n \<in> set (map rv_name (rp_values p))"
    using value_map_names [OF p(1)] by (simp only: rep_map_def)
  obtain r m' where r: "find_and_set n v (rp_values p) m = Some (r, m')"
    using find_and_set_spec [OF p, of n v m] by (elim exE conjE)
  note s = find_and_set_spec [OF p, of n v m, unfolded r]
  show ?thesis
  proof (cases r)
    case None
    have "OCRepPayloadFindAndSetValue (Some p) (Some n) v m = Some (False, Some p, m')"
      using r None by (simp add: OCRepPayloadFindAndSetValue_def)
    moreover have "n \<notin> dom (rep_map p)" "\<not> room_for n m" "m = [] \<longrightarrow> m' = []" using s None unfolding dom by simp_all
    ultimately show ?thesis using assms by (intro exI [of _ False] exI [of _ p] exI [of _ m']) simp
  next
    case (Some ws)
    then have "OCRepPayloadFindAndSetValue (Some p) (Some n) v m = Some (True, Some (with_values ws p), m')"
      using r by (simp add: OCRepPayloadFindAndSetValue_def)
    moreover have "named (with_values ws p)" "rep_map (with_values ws p) = (rep_map p)(n \<mapsto> v)"
      "freeable_prop v \<longrightarrow> freeable (with_values ws p)"
      using s Some by (auto simp: named_def rep_map_def freeable_def freeable_values)
    moreover have "n \<in> dom (rep_map p) \<or> room_for n m" "n \<in> dom (rep_map p) \<longrightarrow> m' = m" "m = [] \<longrightarrow> m' = []"
      using s Some unfolding dom by simp_all
    ultimately show ?thesis by (intro exI [of _ True] exI [of _ "with_values ws p"] exI [of _ m']) simp
  qed
qed


text \<open>The functions of the code satisfy the contract.\<close>

definition put_value :: "'d OCRepPayload \<Rightarrow> string \<Rightarrow> 'd OCRepProp \<Rightarrow> mem \<Rightarrow> (bool \<times> 'd OCRepPayload \<times> mem) option" where
  "put_value p n v m = do { (ok, q, m) \<leftarrow> OCRepPayloadFindAndSetValue (Some p) (Some n) v m; r \<leftarrow> q; Some (ok, r, m) }"

interpretation rep: property_store "\<lambda>p :: 'd OCRepPayload. named p \<and> freeable p" "freeable_prop :: 'd OCRepProp \<Rightarrow> bool" rep_map put_value "\<lambda>p n. get_prop (Some p) (Some n)"
proof unfold_locales
  fix p :: "'d OCRepPayload" and n m and v :: "'d OCRepProp"
  assume p: "named p \<and> freeable p" and v: "freeable_prop v"
  obtain ok q m' where q: "OCRepPayloadFindAndSetValue (Some p) (Some n) v m = Some (ok, Some q, m')" "named q" "freeable q"
      "if ok then rep_map q = (rep_map p)(n \<mapsto> v) else q = p"
    using OCRepPayloadFindAndSetValue_refines [of p n v m] p v by blast
  have "put_value p n v m = Some (ok, q, m')" using q(1) by (simp add: put_value_def)
  then show "\<exists>ok t m'. put_value p n v m = Some (ok, t, m') \<and> (named t \<and> freeable t)
      \<and> (if ok then rep_map t = (rep_map p)(n \<mapsto> v) else t = p)"
    using q(2-4) by blast
qed (simp add: get_prop_map)

lemma put_value: "OCRepPayloadFindAndSetValue (Some p) (Some n) v m = Some (ok, Some q, m') \<Longrightarrow> put_value p n v m = Some (ok, q, m')"
  by (simp add: put_value_def)

text \<open>A representation that is built by setting distinct names has what was set.\<close>

lemma payload_built:
  assumes "set_all put_value (RepPayload None [] [] [] None) nvs m = Some (True, p, m')" "distinct (map fst nvs)"
    and "\<forall>(n, v) \<in> set nvs. freeable_prop v"
  shows "\<forall>(n, v) \<in> set nvs. get_prop (Some p) (Some n) = Some (Some v)"
proof -
  have "list_all (freeable_prop \<circ> snd) nvs" using assms(3) by (auto simp: list_all_iff)
  from rep.get_last [OF _ this assms(1,2)] show ?thesis by (auto simp: named_def freeable_def)
qed

section \<open>Typed access\<close>

lemma is_array_prop_simps [simp]:
  "\<not> is_array_prop OCREP_PROP_NULL" "\<not> is_array_prop (OCREP_PROP_INT i)" "\<not> is_array_prop (OCREP_PROP_DOUBLE d)"
  "\<not> is_array_prop (OCREP_PROP_BOOL c)" "\<not> is_array_prop (OCREP_PROP_STRING s)" "\<not> is_array_prop (OCREP_PROP_BYTE_STRING b)"
  "\<not> is_array_prop (OCREP_PROP_OBJECT o1)" "is_array_prop (OCREP_PROP_ARRAY dims a)"
  by (simp_all add: is_array_prop_def)

lemma SetProp_plenty:
  assumes "named p" "freeable p" "length n < max_object"
  shows "\<exists>q. OCRepPayloadSetProp (Some p) (Some n) v [] = Some (v \<noteq> OCREP_PROP_STRING None \<and> \<not> is_array_prop v, Some q, [])
    \<and> named q \<and> same_but_values p q \<and> rep_map q = (rep_map p)(n \<mapsto> v)"
  using OCRepPayloadFindAndSetValue_refines [OF assms(1,2), of n v "[]"] room_for_plenty [OF assms(3)]
  by (auto simp: OCRepPayloadSetProp_def)

lemma get_prop_of_map: "named q \<Longrightarrow> rep_map q = (rep_map p)(n \<mapsto> v) \<Longrightarrow> get_prop (Some q) (Some n) = Some (Some v)"
  by (simp add: get_prop_map)

definition exact_bytes :: "OCByteString \<Rightarrow> bool" where
  "exact_bytes b = (case bs_bytes b of None \<Rightarrow> bs_len b = 0 | Some xs \<Rightarrow> xs \<noteq> [] \<and> length xs = bs_len b \<and> bs_len b \<le> max_object)"

lemma exact_bytes_zero: "exact_bytes b \<Longrightarrow> bs_len b = 0 \<Longrightarrow> b = \<lparr>bs_bytes = None, bs_len = 0\<rparr>"
  by (cases b) (auto simp: exact_bytes_def split: option.splits)

lemma copy_from_exact [simp]: "copy_from (length xs) (Some xs) = Some xs"
  by (simp add: copy_from_def buf_read_def)

lemma OCByteStringCopy_exact: "exact_bytes b \<Longrightarrow> OCByteStringCopy (Some b) [] = Some (True, b, [])"
  by (cases b) (auto simp: OCByteStringCopy_def exact_bytes_def split: option.splits)

lemma payload_set_get:
  assumes "named p" "freeable p" "length n < max_object" "length s < max_object" "exact_bytes b"
  shows "(\<exists>q. OCRepPayloadSetPropInt (Some p) (Some n) i [] = Some (True, Some q, []) \<and> named q
           \<and> rep_map q = (rep_map p)(n \<mapsto> OCREP_PROP_INT i)
           \<and> OCRepPayloadGetPropInt (Some q) (Some n) = Some (Some i)
           \<and> OCRepPayloadGetPropDouble conv (Some q) (Some n) = Some (Some (conv i)))
    \<and> (\<exists>q. OCRepPayloadSetPropDouble (Some p) (Some n) d [] = Some (True, Some q, []) \<and> named q
           \<and> rep_map q = (rep_map p)(n \<mapsto> OCREP_PROP_DOUBLE d)
           \<and> OCRepPayloadGetPropDouble conv (Some q) (Some n) = Some (Some d))
    \<and> (\<exists>q. OCRepPayloadSetPropBool (Some p) (Some n) c [] = Some (True, Some q, []) \<and> named q
           \<and> rep_map q = (rep_map p)(n \<mapsto> OCREP_PROP_BOOL c)
           \<and> OCRepPayloadGetPropBool (Some q) (Some n) = Some (Some c))
    \<and> (\<exists>q. OCRepPayloadSetNull (Some p) (Some n) [] = Some (True, Some q, []) \<and> named q
           \<and> rep_map q = (rep_map p)(n \<mapsto> OCREP_PROP_NULL) \<and> OCRepPayloadIsNull (Some q) (Some n) = Some True)
    \<and> (\<exists>q. OCRepPayloadSetPropString (Some p) (Some n) (Some s) [] = Some (True, Some q, []) \<and> named q
           \<and> rep_map q = (rep_map p)(n \<mapsto> OCREP_PROP_STRING (Some s))
           \<and> OCRepPayloadGetPropString (Some q) (Some n) [] = Some (True, Some s, []))
    \<and> (\<exists>q. OCRepPayloadSetPropByteString (Some p) (Some n) b [] = Some (True, Some q, []) \<and> named q
           \<and> rep_map q = (rep_map p)(n \<mapsto> OCREP_PROP_BYTE_STRING b)
           \<and> OCRepPayloadGetPropByteString (Some q) (Some n) True [] = Some (True, Some b, []))"
proof -
  note set = SetProp_plenty [OF assms(1-3)]
  have isnull: "OCRepPayloadIsNull (Some q) (Some n) = Some True" if "get_prop (Some q) (Some n) = Some (Some OCREP_PROP_NULL)" for q :: "'a OCRepPayload"
    using that by (auto simp: OCRepPayloadIsNull_def get_prop_def split: option.splits)
  have bytes: "OCRepPayloadGetPropByteString (Some q) (Some n) True [] = Some (True, Some b, [])"
    if "get_prop (Some q) (Some n) = Some (Some (OCREP_PROP_BYTE_STRING b))" for q :: "'a OCRepPayload"
    using that assms(5) exact_bytes_zero [OF assms(5)]
    by (cases b) (auto simp: OCRepPayloadGetPropByteString_def exact_bytes_def split: option.splits)
  show ?thesis
    using set [of "OCREP_PROP_INT i"] set [of "OCREP_PROP_DOUBLE d"] set [of "OCREP_PROP_BOOL c"] set [of OCREP_PROP_NULL]
      set [of "OCREP_PROP_STRING (Some s)"] set [of "OCREP_PROP_BYTE_STRING b"]
    apply (intro conjI)
         apply (auto simp: OCRepPayloadSetPropInt_def OCRepPayloadGetPropInt_def OCRepPayloadGetPropDouble_def get_prop_map) [1]
        apply (auto simp: OCRepPayloadSetPropDouble_def OCRepPayloadGetPropDouble_def get_prop_map) [1]
       apply (auto simp: OCRepPayloadSetPropBool_def OCRepPayloadGetPropBool_def get_prop_map) [1]
      apply (auto simp: OCRepPayloadSetNull_def isnull get_prop_map) [1]
     apply (insert assms(4)) [1]
     apply (auto simp: OCRepPayloadSetPropString_def OCRepPayloadSetPropStringAsOwner_def OCRepPayloadGetPropString_def get_prop_map) [1]
    apply (auto simp: OCRepPayloadSetPropByteString_def OCRepPayloadSetPropByteStringAsOwner_def OCByteStringCopy_exact assms(5) bytes get_prop_map) [1]
    done
qed


section \<open>Copies\<close>

text \<open>
  What the code may copy, and, when \<open>strict\<close>, what it copies in full when memory suffices: arrays have as many
  elements as their dimensions say, and no string in an array is NULL and no byte string in an array empty.
\<close>

definition wf_bytes :: "bool \<Rightarrow> OCByteString \<Rightarrow> bool" where
  "wf_bytes strict b = (if strict then exact_bytes b else bs_len b \<le> (case bs_bytes b of None \<Rightarrow> 0 | Some xs \<Rightarrow> length xs))"

definition wf_cells :: "bool \<Rightarrow> nat \<Rightarrow> nat \<Rightarrow> 'a list option \<Rightarrow> bool" where
  "wf_cells strict n sz xs =
     (case xs of None \<Rightarrow> n = 0
      | Some ys \<Rightarrow> n * sz \<le> max_object \<and> (if strict then n \<noteq> 0 \<and> length ys = n else n \<le> length ys))"

definition written :: "bool \<Rightarrow> string option option \<Rightarrow> bool" where
  "written strict c = (case c of None \<Rightarrow> False | Some t \<Rightarrow> strict \<longrightarrow> t \<noteq> None \<and> fits t)"

lemma wf_cells_simps [simp]:
  "wf_cells s n sz None \<longleftrightarrow> n = 0"
  "wf_cells True n sz (Some ys) \<longleftrightarrow> n * sz \<le> max_object \<and> n \<noteq> 0 \<and> length ys = n"
  "wf_cells False n sz (Some ys) \<longleftrightarrow> n * sz \<le> max_object \<and> n \<le> length ys"
  by (simp_all add: wf_cells_def)

fun wf_payload :: "bool \<Rightarrow> 'd OCRepPayload \<Rightarrow> bool"
  and wf_value :: "bool \<Rightarrow> 'd OCRepPayloadValue \<Rightarrow> bool"
  and wf_prop :: "bool \<Rightarrow> 'd OCRepProp \<Rightarrow> bool"
  and wf_array :: "bool \<Rightarrow> nat \<Rightarrow> 'd OCRepArray \<Rightarrow> bool" where
  "wf_payload s (RepPayload u ts is vs n) =
     ((s \<longrightarrow> fits u \<and> list_all fits ts \<and> list_all fits is) \<and> list_all (wf_value s) vs)"
| "wf_value s (RepValue nm v) = ((s \<longrightarrow> fits nm) \<and> wf_prop s v)"
| "wf_prop s (OCREP_PROP_STRING x) = (s \<longrightarrow> fits x)"
| "wf_prop s (OCREP_PROP_BYTE_STRING b) = wf_bytes s b"
| "wf_prop s (OCREP_PROP_OBJECT p) = (case p of None \<Rightarrow> True | Some q \<Rightarrow> wf_payload s q)"
| "wf_prop s (OCREP_PROP_ARRAY dims a) = wf_array s (calcDimTotal dims) a"
| "wf_prop s v = True"
| "wf_array s n (iArray xs) = wf_cells s n 8 xs"
| "wf_array s n (dArray xs) = wf_cells s n 8 xs"
| "wf_array s n (bArray xs) = wf_cells s n 1 xs"
| "wf_array s n (strArray xs) =
     (wf_cells s n 8 xs \<and> (case xs of None \<Rightarrow> True
        | Some ys \<Rightarrow> list_all (written s) ys))"
| "wf_array s n (ocByteStrArray xs) =
     (wf_cells s n 16 xs \<and> (case xs of None \<Rightarrow> True | Some ys \<Rightarrow> list_all (\<lambda>b. wf_bytes s b \<and> (s \<longrightarrow> bs_len b \<noteq> 0)) ys))"
| "wf_array s n (objArray xs) =
     (wf_cells s n 8 xs \<and> (case xs of None \<Rightarrow> True
        | Some ps \<Rightarrow> list_all (\<lambda>p. case p of None \<Rightarrow> True | Some q \<Rightarrow> wf_payload s q) ps))"

text \<open>A payload without the payloads that follow it, at every level.\<close>

fun alone :: "'d OCRepPayload \<Rightarrow> 'd OCRepPayload"
  and alone_value :: "'d OCRepPayloadValue \<Rightarrow> 'd OCRepPayloadValue"
  and alone_prop :: "'d OCRepProp \<Rightarrow> 'd OCRepProp"
  and alone_array :: "'d OCRepArray \<Rightarrow> 'd OCRepArray" where
  "alone (RepPayload u ts is vs n) = RepPayload u ts is (map alone_value vs) None"
| "alone_value (RepValue nm v) = RepValue nm (alone_prop v)"
| "alone_prop (OCREP_PROP_OBJECT p) = OCREP_PROP_OBJECT (map_option alone p)"
| "alone_prop (OCREP_PROP_ARRAY dims a) = OCREP_PROP_ARRAY dims (alone_array a)"
| "alone_prop v = v"
| "alone_array (objArray ps) = objArray (map_option (map (map_option alone)) ps)"
| "alone_array a = a"

lemma clone_ll_nil: "list_all fits ll \<Longrightarrow> clone_ll ll [] = (Some ll, [])"
  by (induction ll) auto

lemma CloneOCStringLL_nil [simp]: "list_all fits ll \<Longrightarrow> CloneOCStringLL ll [] = (ll, [])"
  by (simp add: CloneOCStringLL_def clone_ll_nil)

lemma cells_exact: "n * sz \<le> max_object \<Longrightarrow> 0 < sz \<Longrightarrow> array_bytes n sz = n * sz \<and> array_cells n sz = n"
  by (simp add: array_bytes_def array_cells_def size_t_range_def max_object_def)

lemma array_bytes_zero [simp]: "array_bytes 0 sz = 0"
  by (simp add: array_bytes_def)

lemma copy_flat_nil: "wf_cells True n sz xs \<Longrightarrow> 0 < sz \<Longrightarrow> copy_flat n sz xs [] = Some (xs, [])"
  by (cases xs) (auto simp: copy_flat_def wf_cells_def cells_exact)

lemma copy_flat_defined: "wf_cells False n sz xs \<Longrightarrow> 0 < sz \<Longrightarrow> \<exists>ys m'. copy_flat n sz xs m = Some (ys, m')"
  by (cases xs; cases "OICMalloc m (array_bytes n sz)"; cases "fst (OICMalloc m (array_bytes n sz))")
    (auto simp: copy_flat_def wf_cells_def cells_exact copy_from_def buf_read_def OICMalloc_def)

lemma copy_strs_nil:
  "list_all (written True) ss \<Longrightarrow> copy_strs (length ss) ss [] = Some (ss, [])"
  by (induction ss) (auto simp: written_def split: option.splits)

lemma copy_strs_defined:
  "n \<le> length ss \<Longrightarrow> list_all (written False) ss \<Longrightarrow> \<exists>ts m'. copy_strs n ss m = Some (ts, m')"
proof (induction n ss m rule: copy_strs.induct)
  case (2 k s ss m)
  obtain t m1 where "OICStrdup m s = (t, m1)" by fastforce
  then show ?case using 2 by (cases t) fastforce+
qed (auto simp: written_def)

lemma copy_byte_strs_nil:
  "list_all (\<lambda>b. exact_bytes b \<and> bs_len b \<noteq> 0) bs \<Longrightarrow> copy_byte_strs (length bs) bs [] = Some (bs, [])"
  by (induction bs) (auto simp: OCByteStringCopy_exact exact_bytes_def split: option.splits)

lemma OCByteStringCopy_defined: "wf_bytes False b \<Longrightarrow> \<exists>ok c m'. OCByteStringCopy (Some b) m = Some (ok, c, m')"
  by (cases "OICMalloc m (bs_len b)"; cases "fst (OICMalloc m (bs_len b))")
    (auto simp: OCByteStringCopy_def wf_bytes_def copy_from_def buf_read_def split: option.splits)

lemma copy_byte_strs_defined:
  "n \<le> length bs \<Longrightarrow> list_all (wf_bytes False) bs \<Longrightarrow> \<exists>cs m'. copy_byte_strs n bs m = Some (cs, m')"
proof (induction n bs m rule: copy_byte_strs.induct)
  case (2 k b bs m)
  obtain ok c m1 where "OCByteStringCopy (Some b) m = Some (ok, c, m1)"
    using OCByteStringCopy_defined 2 by fastforce
  then show ?case using 2 by (cases "bs_bytes c") fastforce+
qed auto

lemmas clone_induct = clone_payload_clone_values_copy_prop_copy_array_copy_objs.induct


lemma clone_exact:
  fixes p :: "'d OCRepPayload" and hd vs :: "'d OCRepPayloadValue list" and v :: "'d OCRepProp" and a :: "'d OCRepArray"
    and ps :: "'d OCRepPayload option list"
  shows "wf_payload True p \<Longrightarrow> m = [] \<Longrightarrow> clone_payload p m = Some (Some (alone p), [])"
    and "list_all (wf_value True) vs \<Longrightarrow> m = [] \<Longrightarrow> clone_values hd vs m = Some (Some (hd @ map alone_value vs), [])"
    and "wf_prop True v \<Longrightarrow> m = [] \<Longrightarrow> copy_prop v m = Some (alone_prop v, [])"
    and "wf_array True n a \<Longrightarrow> m = [] \<Longrightarrow> copy_array n a m = Some (alone_array a, [])"
    and "list_all (\<lambda>p. case p of None \<Rightarrow> True | Some q \<Rightarrow> wf_payload True q) ps \<Longrightarrow> length ps = n \<Longrightarrow> m = []
      \<Longrightarrow> copy_objs n ps m = Some (map (map_option alone) ps, [])"
proof (induction p m and hd vs m and v m and n a m and n ps m rule: clone_induct)
  case (5 b m)
  then show ?case by (cases b) (auto simp: wf_bytes_def exact_bytes_def split: option.splits)
next
  case (13 n xs m)
  then show ?case by (cases xs) (auto simp: cells_exact copy_strs_nil)
next
  case (14 n xs m)
  then show ?case by (cases xs) (auto simp: wf_bytes_def sizeof_OCByteString_def copy_byte_strs_nil)
next
  case (16 n ps m)
  then show ?case by (auto simp: cells_exact)
qed (auto simp: copy_flat_nil)

lemma OICMalloc_exact: "n * 8 \<le> max_object \<Longrightarrow> OICMalloc m (array_bytes n 8) = (True, m') \<Longrightarrow> \<not> array_cells n 8 < n"
  by (simp add: cells_exact)

lemma OICMalloc_zero [simp]: "OICMalloc m 0 = (False, m)"
  by (simp add: OICMalloc_def)

lemma OICCalloc_zero [simp]: "OICCalloc m 0 sz = (False, m)"
  by (simp add: OICCalloc_def)

text \<open>Payloads without arrays of strings, byte strings or objects, at every level.\<close>

fun plain_payload :: "'d OCRepPayload \<Rightarrow> bool"
  and plain_value :: "'d OCRepPayloadValue \<Rightarrow> bool"
  and plain_prop :: "'d OCRepProp \<Rightarrow> bool"
  and plain_array :: "'d OCRepArray \<Rightarrow> bool" where
  "plain_payload (RepPayload u ts is vs n) = list_all plain_value vs"
| "plain_value (RepValue nm v) = plain_prop v"
| "plain_prop (OCREP_PROP_OBJECT p) = (case p of None \<Rightarrow> True | Some q \<Rightarrow> plain_payload q)"
| "plain_prop (OCREP_PROP_ARRAY dims a) = plain_array a"
| "plain_prop v = True"
| "plain_array (iArray xs) = True"
| "plain_array (dArray xs) = True"
| "plain_array (bArray xs) = True"
| "plain_array a = False"

lemma clone_defined:
  fixes p :: "'d OCRepPayload" and hd vs :: "'d OCRepPayloadValue list" and v :: "'d OCRepProp" and a :: "'d OCRepArray"
    and ps :: "'d OCRepPayload option list"
  shows "wf_payload False p \<Longrightarrow> plain_payload p \<Longrightarrow> \<exists>q m'. clone_payload p m = Some (q, m') \<and> OCRepPayloadDestroy q = Some ()"
    and "list_all (wf_value False) vs \<Longrightarrow> list_all plain_value vs \<Longrightarrow> OCFreeRepPayloadValue hd = Some ()
      \<Longrightarrow> \<exists>r m'. clone_values hd vs m = Some (r, m') \<and> (\<forall>ws. r = Some ws \<longrightarrow> OCFreeRepPayloadValue ws = Some ())"
    and "wf_prop False v \<Longrightarrow> plain_prop v \<Longrightarrow> \<exists>w m'. copy_prop v m = Some (w, m') \<and> OCFreeRepPayloadValueContents w = Some ()"
    and "wf_array False n a \<Longrightarrow> plain_array a \<Longrightarrow> \<exists>b m'. copy_array n a m = Some (b, m') \<and> free_array n b = Some ()"
    and True
proof (induction p m and hd vs m and v m and n a m and n ps m rule: clone_induct)
  case (1 u ts ifs vs n m)
  obtain b m1 where b: "OICCalloc m 1 sizeof_RepPayload = (b, m1)" by fastforce
  obtain u' m2 where u: "OICStrdup m1 u = (u', m2)" by fastforce
  obtain ts' m3 where ts: "CloneOCStringLL ts m2 = (ts', m3)" by fastforce
  obtain is' m4 where i: "CloneOCStringLL ifs m3 = (is', m4)" by fastforce
  show ?case
  proof (cases b)
    case True
    have "list_all (wf_value False) vs" "list_all plain_value vs" using "1.prems" by auto
    then obtain r m5 where "clone_values [] vs m4 = Some (r, m5)" "\<forall>ws. r = Some ws \<longrightarrow> OCFreeRepPayloadValue ws = Some ()"
      using "1.IH" [OF b [symmetric] eqTrueI [OF True] u [symmetric] ts [symmetric] i [symmetric]] by auto
    then show ?thesis using True b u ts i by (cases r) simp_all
  qed (use b in simp)
next
  case (3 hd nm v vals m)
  obtain b m1 where b: "OICCalloc m 1 sizeof_RepValue = (b, m1)" by fastforce
  obtain nm' m2 where u: "OICStrdup m1 nm = (nm', m2)" by fastforce
  show ?case
  proof (cases b)
    case True
    obtain w m3 where w: "copy_prop v m2 = Some (w, m3)" "OCFreeRepPayloadValueContents w = Some ()"
      using "3.IH"(1) [OF b [symmetric] eqTrueI [OF True] u [symmetric]] "3.prems" by auto
    have "OCFreeRepPayloadValue (hd @ [RepValue nm' w]) = Some ()"
      using "3.prems"(3) w(2) by (simp add: freeable_values freeable_prop_def)
    then obtain r m4 where "clone_values (hd @ [RepValue nm' w]) vals m3 = Some (r, m4)"
        "\<forall>ws. r = Some ws \<longrightarrow> OCFreeRepPayloadValue ws = Some ()"
      using "3.IH"(2) [OF b [symmetric] eqTrueI [OF True] u [symmetric] w(1) refl] "3.prems" by auto
    then show ?thesis using True b u w by simp
  qed (use b "3.prems" in simp)
next
  case (4 s m)
  then show ?case by (auto split: prod.splits)
next
  case (5 b m)
  then show ?case
    by (auto simp: wf_bytes_def copy_from_def buf_read_def OICMalloc_def split: prod.splits bool.splits option.splits)
next
  case (7 p m)
  then show ?case by fastforce
next
  case (8 dims arr m)
  then show ?case by fastforce
next
  case (10 n xs m)
  then show ?case using copy_flat_defined [of n 8 xs m] by auto
next
  case (11 n xs m)
  then show ?case using copy_flat_defined [of n 8 xs m] by auto
next
  case (12 n xs m)
  then show ?case using copy_flat_defined [of n 1 xs m] by auto
qed auto

lemma alone_alone:
  fixes p :: "'d OCRepPayload" and v :: "'d OCRepPayloadValue" and w :: "'d OCRepProp" and a :: "'d OCRepArray"
  shows "alone (alone p) = alone p" and "alone_value (alone_value v) = alone_value v"
    and "alone_prop (alone_prop w) = alone_prop w" and "alone_array (alone_array a) = alone_array a"
proof (induction p and v and w and a rule: alone_alone_value_alone_prop_alone_array.induct)
  case (3 p)
  then show ?case by (cases p) auto
next
  case (6 ps)
  then show ?case by (cases ps) (auto simp: option.map_comp intro!: option.map_cong0)
qed auto

lemma wf_alone:
  fixes p :: "'d OCRepPayload" and v :: "'d OCRepPayloadValue" and w :: "'d OCRepProp" and a :: "'d OCRepArray"
  shows "wf_payload s p \<Longrightarrow> wf_payload s (alone p)" and "wf_value s v \<Longrightarrow> wf_value s (alone_value v)"
    and "wf_prop s w \<Longrightarrow> wf_prop s (alone_prop w)" and "wf_array s n a \<Longrightarrow> wf_array s n (alone_array a)"
proof (induction s p and s v and s w and s n a rule: wf_payload_wf_value_wf_prop_wf_array.induct)
  case (1 s u ts ifs vs n)
  then show ?case by (auto simp: list_all_iff)
next
  case (5 s p)
  then show ?case by (cases p) auto
next
  case (13 s n ps)
  then show ?case by (cases ps; cases s) (auto simp: list_all_iff split: option.splits)
qed auto

text \<open>What a copy that ran out of memory may have lost.\<close>

definition kept :: "string option \<Rightarrow> string option \<Rightarrow> bool" where
  "kept s t \<longleftrightarrow> t = s \<or> t = None"

lemma CloneOCStringLL_kept: "CloneOCStringLL ll m = (ds, m') \<Longrightarrow> ds = [] \<or> list_all2 kept ll ds"
proof -
  have "clone_ll ll m = (Some ds, m') \<Longrightarrow> list_all2 kept ll ds" for ds m m'
  proof (induction ll arbitrary: ds m m')
    case (Cons v vs)
    then show ?case
      by (auto simp: kept_def dest: OICStrdup_result split: prod.splits bool.splits)
  qed simp
  then show "CloneOCStringLL ll m = (ds, m') \<Longrightarrow> ds = [] \<or> list_all2 kept ll ds"
    by (auto simp: CloneOCStringLL_def split: prod.splits option.splits)
qed

text \<open>
  What a copy without enough memory is: names, strings and lists of strings may be missing, as may all values of a
  payload; a byte string may lack its bytes; an object or an array may be NULL. An array of strings may be copied up to some
  string, then has NULL and cells that were never written; an array of byte strings is zero after some byte string.
\<close>

definition whole_bytes :: "OCByteString \<Rightarrow> OCByteString" where
  "whole_bytes b = b\<lparr>bs_bytes := map_option (take (bs_len b)) (bs_bytes b)\<rparr>"

inductive partial_array :: "nat \<Rightarrow> 'd OCRepArray \<Rightarrow> 'd OCRepArray \<Rightarrow> bool"
  and partial_object :: "'d OCRepPayload option \<Rightarrow> 'd OCRepPayload option \<Rightarrow> bool"
  and partial_prop :: "'d OCRepProp \<Rightarrow> 'd OCRepProp \<Rightarrow> bool"
  and partial_copy :: "'d OCRepPayload \<Rightarrow> 'd OCRepPayload \<Rightarrow> bool" where
  part_ints: "ys = None \<or> ys = map_option (take n) xs \<Longrightarrow> partial_array n (iArray xs) (iArray ys)"
| part_doubles: "ds = None \<or> ds = map_option (take n) es \<Longrightarrow> partial_array n (dArray es) (dArray ds)"
| part_bools: "cs = None \<or> cs = map_option (take n) bs \<Longrightarrow> partial_array n (bArray bs) (bArray cs)"
| part_no_strs: "partial_array n (strArray xs) (strArray None)"
| part_strs: "partial_array n (strArray (Some ss)) (strArray (Some (take n ss)))"
| part_some_strs: "k < n \<Longrightarrow> partial_array n (strArray (Some ss)) (strArray (Some (take k ss @ Some None # replicate (n - Suc k) None)))"
| part_no_byte_strs: "partial_array n (ocByteStrArray zs) (ocByteStrArray None)"
| part_byte_strs: "k \<le> n \<Longrightarrow> partial_array n (ocByteStrArray (Some us))
    (ocByteStrArray (Some (map whole_bytes (take k us) @ replicate (n - k) \<lparr>bs_bytes = None, bs_len = 0\<rparr>)))"
| part_no_objs: "partial_array n (objArray os) (objArray None)"
| part_objs: "list_all2 partial_object (take n ps) qs \<Longrightarrow> partial_array n (objArray (Some ps)) (objArray (Some qs))"
| part_no_object: "partial_object p None"
| part_object: "partial_copy p q \<Longrightarrow> partial_object (Some p) (Some q)"
| part_null: "partial_prop OCREP_PROP_NULL OCREP_PROP_NULL"
| part_int: "partial_prop (OCREP_PROP_INT i) (OCREP_PROP_INT i)"
| part_double: "partial_prop (OCREP_PROP_DOUBLE d) (OCREP_PROP_DOUBLE d)"
| part_bool: "partial_prop (OCREP_PROP_BOOL c) (OCREP_PROP_BOOL c)"
| part_string: "kept s t \<Longrightarrow> partial_prop (OCREP_PROP_STRING s) (OCREP_PROP_STRING t)"
| part_no_bytes: "partial_prop (OCREP_PROP_BYTE_STRING b) (OCREP_PROP_BYTE_STRING (b\<lparr>bs_bytes := None\<rparr>))"
| part_bytes: "partial_prop (OCREP_PROP_BYTE_STRING b) (OCREP_PROP_BYTE_STRING (whole_bytes b))"
| part_obj: "partial_object p q \<Longrightarrow> partial_prop (OCREP_PROP_OBJECT p) (OCREP_PROP_OBJECT q)"
| part_array: "partial_array (calcDimTotal dims) x y \<Longrightarrow> partial_prop (OCREP_PROP_ARRAY dims x) (OCREP_PROP_ARRAY dims y)"
| part_payload: "kept u u' \<Longrightarrow> ts' = [] \<or> list_all2 kept ts ts' \<Longrightarrow> ifs' = [] \<or> list_all2 kept ifs ifs'
    \<Longrightarrow> vs' = [] \<or> list_all2 (\<lambda>v w. kept (rv_name v) (rv_name w) \<and> partial_prop (rv_prop v) (rv_prop w)) vs vs'
    \<Longrightarrow> partial_copy (RepPayload u ts ifs vs n) (RepPayload u' ts' ifs' vs' None)"

lemma copy_from_take: "copy_from n src = Some xs \<Longrightarrow> n \<noteq> 0 \<Longrightarrow> \<exists>ys. src = Some ys \<and> xs = take n ys"
  by (auto simp: copy_from_def buf_read_def split: option.splits if_splits)

lemma copy_flat_partial:
  "wf_cells False n sz xs \<Longrightarrow> 0 < sz \<Longrightarrow> copy_flat n sz xs m = Some (ys, m') \<Longrightarrow> ys = None \<or> ys = map_option (take n) xs"
  by (cases xs; cases "n = 0")
    (auto simp: copy_flat_def OICMalloc_def cells_exact dest!: copy_from_take split: prod.splits bool.splits if_splits)

lemma copy_strs_partial:
  "copy_strs n ss m = Some (ts, m') \<Longrightarrow> ts = take n ss \<or> (\<exists>k<n. ts = take k ss @ Some None # replicate (n - Suc k) None)"
proof (induction n ss m arbitrary: ts m' rule: copy_strs.induct)
  case (2 k s ss m)
  obtain t m1 where t: "OICStrdup m s = (t, m1)" by fastforce
  show ?case
  proof (cases t)
    case None
    then show ?thesis using 2 t by (intro disjI2 exI [of _ 0]) auto
  next
    case (Some x)
    then obtain us where u: "copy_strs k ss m1 = Some (us, m')" "ts = Some (Some x) # us" using 2 t by (auto simp: bind_eq_Some_conv)
    have s: "s = Some x" using OICStrdup_result [OF t] Some by simp
    from "2.IH" [OF t [symmetric] Some u(1)] show ?thesis
    proof (elim disjE exE conjE)
      fix j assume "j < k" "us = take j ss @ Some None # replicate (k - Suc j) None"
      then show ?thesis using u(2) s by (intro disjI2 exI [of _ "Suc j"]) simp
    qed (use u(2) s in simp)
  qed
qed auto

lemma OCByteStringCopy_whole: "OCByteStringCopy (Some b) m = Some (ok, c, m') \<Longrightarrow> bs_bytes c \<noteq> None \<Longrightarrow> c = whole_bytes b"
  by (cases b) (auto simp: OCByteStringCopy_def whole_bytes_def dest!: copy_from_take split: if_splits prod.splits bool.splits)

lemma OCByteStringCopy_empty: "OCByteStringCopy (Some b) m = Some (ok, c, m') \<Longrightarrow> bs_bytes c = None \<Longrightarrow> c = \<lparr>bs_bytes = None, bs_len = 0\<rparr>"
  by (auto simp: OCByteStringCopy_def split: if_splits prod.splits bool.splits)

lemma copy_byte_strs_partial:
  "copy_byte_strs n bs m = Some (cs, m')
    \<Longrightarrow> \<exists>k\<le>n. cs = map whole_bytes (take k bs) @ replicate (n - k) \<lparr>bs_bytes = None, bs_len = 0\<rparr>"
proof (induction n bs m arbitrary: cs m' rule: copy_byte_strs.induct)
  case (2 k b bs m)
  obtain ok c m1 where c: "OCByteStringCopy (Some b) m = Some (ok, c, m1)" using "2.prems" by (cases "OCByteStringCopy (Some b) m") auto
  show ?case
  proof (cases "bs_bytes c = None")
    case True
    then show ?thesis using 2 c OCByteStringCopy_empty [OF c] by (intro exI [of _ 0]) simp
  next
    case False
    then obtain ds where d: "copy_byte_strs k bs m1 = Some (ds, m')" "cs = c # ds" using "2.prems" c by (auto simp: bind_eq_Some_conv)
    obtain j where "j \<le> k" "ds = map whole_bytes (take j bs) @ replicate (k - j) \<lparr>bs_bytes = None, bs_len = 0\<rparr>"
      using "2.IH" [OF c refl refl False d(1)] by blast
    then show ?thesis using d(2) OCByteStringCopy_whole [OF c False] by (intro exI [of _ "Suc j"]) simp
  qed
qed auto

lemma copy_bytes_partial:
  fixes b :: OCByteString and w :: "'d OCRepProp"
  assumes "copy_prop (OCREP_PROP_BYTE_STRING b) m = Some (w, m')"
  shows "partial_prop (OCREP_PROP_BYTE_STRING b) w"
proof -
  obtain c m1 where c: "OICMalloc m (bs_len b) = (c, m1)" by fastforce
  show ?thesis
  proof (cases c)
    case True
    then have n: "bs_len b \<noteq> 0" using c by (cases "bs_len b = 0") simp_all
    obtain xs where x: "copy_from (bs_len b) (bs_bytes b) = Some xs" "w = OCREP_PROP_BYTE_STRING (b\<lparr>bs_bytes := Some xs\<rparr>)"
      using assms c True by auto
    then have "w = OCREP_PROP_BYTE_STRING (whole_bytes b)" using copy_from_take [OF x(1) n] by (auto simp: whole_bytes_def)
    then show ?thesis by (simp add: part_bytes)
  qed (use assms c in \<open>auto intro: part_no_bytes\<close>)
qed

lemma copy_str_array_partial:
  fixes b :: "'d OCRepArray"
  assumes "copy_array n (strArray xs) m = Some (b, m')" "wf_array False n (strArray xs :: 'd OCRepArray)"
  shows "partial_array n (strArray xs) b"
proof -
  obtain c m1 where c: "OICMalloc m (array_bytes n 8) = (c, m1)" by fastforce
  show ?thesis
  proof (cases "c \<and> xs \<noteq> None")
    case True
    then obtain ss where ss: "xs = Some ss" by auto
    obtain ys where y: "copy_strs n ss m1 = Some (ys, m')" "b = strArray (Some ys)"
      using assms(1) c True ss by (auto simp: bind_eq_Some_conv split: if_splits)
    then show ?thesis using copy_strs_partial [OF y(1)] ss by (auto intro: part_strs part_some_strs)
  next
    case False
    then show ?thesis using assms c by (cases c) (auto intro: part_no_strs simp: OICMalloc_def)
  qed
qed

lemma copy_byte_str_array_partial:
  fixes b :: "'d OCRepArray"
  assumes "copy_array n (ocByteStrArray xs) m = Some (b, m')" "wf_array False n (ocByteStrArray xs :: 'd OCRepArray)"
  shows "partial_array n (ocByteStrArray xs) b"
proof -
  obtain c m1 where c: "OICCalloc m n sizeof_OCByteString = (c, m1)" by fastforce
  show ?thesis
  proof (cases "c \<and> xs \<noteq> None")
    case True
    then obtain us where us: "xs = Some us" by auto
    obtain ys where y: "copy_byte_strs n us m1 = Some (ys, m')" "b = ocByteStrArray (Some ys)"
      using assms(1) c True us by (auto simp: bind_eq_Some_conv)
    then show ?thesis using copy_byte_strs_partial [OF y(1)] us by (auto intro: part_byte_strs)
  next
    case False
    then show ?thesis using assms c by (cases c) (auto intro: part_no_byte_strs simp: OICCalloc_def)
  qed
qed

lemma clone_partial:
  fixes p :: "'d OCRepPayload" and hd vs :: "'d OCRepPayloadValue list" and v :: "'d OCRepProp" and a :: "'d OCRepArray"
    and ps :: "'d OCRepPayload option list"
  shows "clone_payload p m = Some (r, m') \<Longrightarrow> wf_payload False p \<Longrightarrow> partial_object (Some p) r"
    and "clone_values hd vs m = Some (Some ws, m') \<Longrightarrow> list_all (wf_value False) vs
      \<Longrightarrow> \<exists>us. ws = hd @ us \<and> list_all2 (\<lambda>v w. kept (rv_name v) (rv_name w) \<and> partial_prop (rv_prop v) (rv_prop w)) vs us"
    and "copy_prop v m = Some (w, m') \<Longrightarrow> wf_prop False v \<Longrightarrow> partial_prop v w"
    and "copy_array n a m = Some (b, m') \<Longrightarrow> wf_array False n a \<Longrightarrow> partial_array n a b"
    and "copy_objs n ps m = Some (qs, m') \<Longrightarrow> list_all (\<lambda>p. case p of None \<Rightarrow> True | Some q \<Rightarrow> wf_payload False q) ps
      \<Longrightarrow> list_all2 partial_object (take n ps) qs"
proof (induction p m and hd vs m and v m and n a m and n ps m arbitrary: r m' and ws m' and w m' and b m' and qs m' rule: clone_induct)
  case (1 u ts ifs vs n m)
  obtain c m1 where c: "OICCalloc m 1 sizeof_RepPayload = (c, m1)" by fastforce
  obtain u' m2 where u: "OICStrdup m1 u = (u', m2)" by fastforce
  obtain ts' m3 where ts: "CloneOCStringLL ts m2 = (ts', m3)" by fastforce
  obtain ifs' m4 where i: "CloneOCStringLL ifs m3 = (ifs', m4)" by fastforce
  show ?case
  proof (cases c)
    case True
    then obtain x m5 where w: "clone_values [] vs m4 = Some (x, m5)"
      and r: "r = Some (RepPayload u' ts' ifs' (case x of None \<Rightarrow> [] | Some ws \<Rightarrow> ws) None)"
      using "1.prems"(1) c u ts i by (auto simp: bind_eq_Some_conv)
    have "kept u u'" using OICStrdup_result [OF u] by (simp add: kept_def)
    moreover have "(case x of None \<Rightarrow> [] | Some ws \<Rightarrow> ws) = [] \<or> list_all2 (\<lambda>v w. kept (rv_name v) (rv_name w) \<and> partial_prop (rv_prop v) (rv_prop w)) vs (case x of None \<Rightarrow> [] | Some ws \<Rightarrow> ws)"
      using "1.IH" [OF c [symmetric] eqTrueI [OF True] u [symmetric] ts [symmetric] i [symmetric]] w "1.prems"(2) by (cases x) auto
    ultimately show ?thesis
      unfolding r by (intro part_object part_payload CloneOCStringLL_kept [OF ts] CloneOCStringLL_kept [OF i])
  qed (use "1.prems"(1) c in \<open>auto intro: part_no_object\<close>)
next
  case (3 hd nm v vals m)
  obtain c m1 where c: "OICCalloc m 1 sizeof_RepValue = (c, m1)" by fastforce
  obtain nm' m2 where u: "OICStrdup m1 nm = (nm', m2)" by fastforce
  have c': c using "3.prems"(1) c by (cases c) (auto simp: bind_eq_Some_conv)
  then obtain w m3 where w: "copy_prop v m2 = Some (w, m3)" "clone_values (hd @ [RepValue nm' w]) vals m3 = Some (Some ws, m')"
    using "3.prems"(1) c u by (auto simp: bind_eq_Some_conv)
  have p: "partial_prop v w"
    using "3.IH"(1) [OF c [symmetric] eqTrueI [OF c'] u [symmetric] w(1)] "3.prems"(2) by simp
  obtain us where us: "ws = (hd @ [RepValue nm' w]) @ us" "list_all2 (\<lambda>v w. kept (rv_name v) (rv_name w) \<and> partial_prop (rv_prop v) (rv_prop w)) vals us"
    using "3.IH"(2) [OF c [symmetric] eqTrueI [OF c'] u [symmetric] w(1) refl w(2)] "3.prems"(2) by auto
  then show ?case
    using p OICStrdup_result [OF u] by (intro exI [of _ "RepValue nm' w # us"]) (simp add: kept_def)
next
  case (4 s m)
  then show ?case by (auto simp: kept_def intro!: part_string dest: OICStrdup_result split: prod.splits)
next
  case (5 b m)
  then show ?case by (intro copy_bytes_partial)
next
  case (6 m)
  then show ?case by (auto intro!: part_obj part_no_object)
next
  case (7 p m)
  then show ?case by (auto simp: bind_eq_Some_conv intro!: part_obj)
next
  case (8 dims arr m)
  then show ?case by (auto simp: bind_eq_Some_conv intro!: part_array)
next
  case (10 n xs m)
  then show ?case using copy_flat_partial [of n 8 xs m] by (auto simp: bind_eq_Some_conv intro!: part_ints)
next
  case (11 n xs m)
  then show ?case using copy_flat_partial [of n 8 xs m] by (auto simp: bind_eq_Some_conv intro!: part_doubles)
next
  case (12 n xs m)
  then show ?case using copy_flat_partial [of n 1 xs m] by (auto simp: bind_eq_Some_conv intro!: part_bools)
next
  case (13 n xs m)
  then show ?case by (intro copy_str_array_partial)
next
  case (14 n xs m)
  then show ?case by (intro copy_byte_str_array_partial)
next
  case (15 n m)
  then show ?case by (auto intro: part_no_objs split: prod.splits bool.splits)
next
  case (16 n ps m)
  obtain c m1 where c: "OICMalloc m (array_bytes n 8) = (c, m1)" by fastforce
  show ?case
  proof (cases c)
    case True
    then obtain qs where q: "\<not> array_cells n 8 < n" "copy_objs n ps m1 = Some (qs, m')" "b = objArray (Some qs)"
      using "16.prems"(1) c by (auto simp: bind_eq_Some_conv split: if_splits)
    have "list_all2 partial_object (take n ps) qs"
      using "16.IH" [OF c [symmetric] eqTrueI [OF True] q(1,2)] "16.prems"(2) by simp
    then show ?thesis unfolding q(3) by (rule part_objs)
  qed (use "16.prems"(1) c in \<open>auto intro: part_no_objs\<close>)
next
  case (18 k ps m)
  then show ?case by (auto simp: bind_eq_Some_conv intro: part_no_object)
next
  case (19 k p ps m)
  then show ?case by (auto simp: bind_eq_Some_conv)
qed (auto intro: part_null part_int part_double part_bool)

lemma clone_NULL: "wf_payload False p \<Longrightarrow> clone_payload p m = Some (r, m') \<Longrightarrow> r = None \<longleftrightarrow> \<not> fst (OICCalloc m 1 sizeof_RepPayload)"
  by (cases p; cases "OICCalloc m 1 sizeof_RepPayload"; cases "fst (OICCalloc m 1 sizeof_RepPayload)")
    (auto simp: bind_eq_Some_conv split: prod.splits)

text \<open>Appending puts a payload without its successors at the end of a chain.\<close>

fun payload_chain :: "'d OCRepPayload \<Rightarrow> 'd OCRepPayload list" where
  "payload_chain (RepPayload u ts is vs n) = RepPayload u ts is vs None # (case n of None \<Rightarrow> [] | Some p \<Rightarrow> payload_chain p)"

lemma payload_chain_append: "payload_chain (append_next p c) = payload_chain p @ [hd (payload_chain c)]"
proof (induction p c rule: append_next.induct)
  case (1 u ts ifs vs n child)
  then show ?case by (cases child) (auto split: option.splits)
qed

text \<open>The number of cells of an array is the product of its dimensions up to the first zero.\<close>

lemma calcDimTotal_product:
  assumes "a < size_t_range" "a * b < size_t_range" "a * b * c < size_t_range" "0 < a"
  shows "calcDimTotal [a, b, c] = (if b = 0 then a else if c = 0 then a * b else a * b * c)"
  using assms by (simp add: calcDimTotal_def MAX_REP_ARRAY_DEPTH_def numeral_3_eq_3)

section \<open>Lists of strings as text\<close>

lemma strtok_part:
  "d \<notin> set xs \<Longrightarrow> strtok d cur (xs @ d # ys) = (if cur = [] \<and> xs = [] then strtok d [] ys else (rev cur @ xs) # strtok d [] ys)"
  by (induction xs arbitrary: cur) auto

lemma strtok_last: "d \<notin> set xs \<Longrightarrow> strtok d cur xs = (if cur = [] \<and> xs = [] then [] else [rev cur @ xs])"
  by (induction xs arbitrary: cur) auto

lemma strtok_parts: "d \<notin> set cur \<Longrightarrow> t \<in> set (strtok d cur s) \<Longrightarrow> t \<noteq> [] \<and> d \<notin> set t"
  by (induction d cur s rule: strtok.induct) (auto split: if_splits)

lemma strtok_length: "t \<in> set (strtok d cur s) \<Longrightarrow> length t \<le> length cur + length s"
  by (induction d cur s rule: strtok.induct) (auto split: if_splits)

definition plain_parts :: "string list \<Rightarrow> bool" where
  "plain_parts ts \<longleftrightarrow> (\<forall>t \<in> set ts. t \<noteq> [] \<and> CSV_SEPARATOR \<notin> set t)"

lemma join_plain:
  "ts \<noteq> [] \<Longrightarrow> plain_parts ts \<Longrightarrow> \<exists>s. join_ll (map Some ts) = Some s \<and> strtok CSV_SEPARATOR [] s = ts \<and> s \<noteq> []"
proof (induction ts)
  case (Cons t ts)
  then have t: "t \<noteq> []" "CSV_SEPARATOR \<notin> set t" and p: "plain_parts ts" by (auto simp: plain_parts_def)
  show ?case
  proof (cases ts)
    case Nil
    then show ?thesis using t by (simp add: strtok_last)
  next
    case (Cons u us)
    then obtain s where s: "join_ll (map Some ts) = Some s" "strtok CSV_SEPARATOR [] s = ts"
      using Cons.IH p by blast
    then have "join_ll (map Some (t # ts)) = Some (t @ CSV_SEPARATOR # s)" using Cons by simp
    then show ?thesis using s t by (simp add: strtok_part)
  qed
qed simp

lemma join_length:
  "ts \<noteq> [] \<Longrightarrow> join_ll (map Some ts) = Some s \<Longrightarrow> length s + 1 = sum_list (map (\<lambda>t. length t + 1) ts)"
proof (induction ts arbitrary: s)
  case (Cons t ts)
  then show ?case by (cases ts) (auto simp: bind_eq_Some_conv)
qed simp

lemma create_ll_nil: "\<forall>t \<in> set ts. length t < max_object \<Longrightarrow> create_ll ts [] = (Some (map Some ts), [])"
  by (induction ts) auto


lemma create_text: "length s < max_object \<Longrightarrow> OCCreateOCStringLL (Some s) [] = (map Some (strtok CSV_SEPARATOR [] s), [])"
proof -
  assume l: "length s < max_object"
  have "\<forall>t \<in> set (strtok CSV_SEPARATOR [] s). length t < max_object"
    using strtok_length [of _ CSV_SEPARATOR "[]" s] l by fastforce
  then show ?thesis using l by (simp add: OCCreateOCStringLL_def create_ll_nil)
qed

lemma create_join:
  assumes ts: "ts \<noteq> []" "plain_parts ts" "sum_list (map (\<lambda>t. length t + 1) ts) \<le> max_object"
  shows "\<exists>s. OCCreateString (map Some ts) [] = Some (Some s, []) \<and> OCCreateOCStringLL (Some s) [] = (map Some ts, [])"
proof -
  obtain s where s: "join_ll (map Some ts) = Some s" "strtok CSV_SEPARATOR [] s = ts"
    using join_plain [OF ts(1,2)] by blast
  moreover have "length s + 1 \<le> max_object" using join_length [OF ts(1) s(1)] ts(3) by simp
  ultimately show ?thesis using ts(1) create_text [of s] by (simp add: OCCreateString_def)
qed

text \<open>
  The list of a text are its nonempty parts between commas; joining a list of such parts and splitting
  the text again gives the list.
\<close>

lemma string_list_roundtrip:
  assumes "length csv < max_object" "ts \<noteq> []" "plain_parts ts" "sum_list (map (\<lambda>t. length t + 1) ts) \<le> max_object"
  shows "(\<exists>us. plain_parts us \<and> OCCreateOCStringLL (Some csv) [] = (map Some us, []))
    \<and> (\<exists>s. OCCreateString (map Some ts) [] = Some (Some s, []) \<and> OCCreateOCStringLL (Some s) [] = (map Some ts, []))"
  using create_text [OF assms(1)] create_join [OF assms(2-4)] strtok_parts [of CSV_SEPARATOR "[]" _ csv]
  by (auto simp: plain_parts_def)

lemma string_list_example:
  "(\<exists>us. plain_parts us \<and> OCCreateOCStringLL (Some '',a,,b'') [] = (map Some us, []))
    \<and> (\<exists>s. OCCreateString [Some ''oic.if.a'', Some ''oic.if.b''] [] = Some (Some s, [])
        \<and> OCCreateOCStringLL (Some s) [] = ([Some ''oic.if.a'', Some ''oic.if.b''], []))"
  using string_list_roundtrip [of "'',a,,b''" "[''oic.if.a'', ''oic.if.b'']"]
  by (simp add: max_object_def plain_parts_def CSV_SEPARATOR_def)

section \<open>Round trips of arrays and objects\<close>

lemma set_array_plenty:
  assumes "named p" "freeable p" "length n < max_object" "length dims = 3"
  shows "\<exists>q. set_array (Some p) (Some n) a dims [] = Some (True, Some q, []) \<and> named q \<and> same_but_values p q
    \<and> rep_map q = (rep_map p)(n \<mapsto> OCREP_PROP_ARRAY dims a)"
  using OCRepPayloadFindAndSetValue_refines [OF assms(1,2), of n "OCREP_PROP_ARRAY dims a" "[]"] room_for_plenty [OF assms(3)] assms(4)
  by (auto simp: set_array_def MAX_REP_ARRAY_DEPTH_def)

lemma dup_strs_nil: "list_all fits ss \<Longrightarrow> dup_strs (length ss) ss [] = Some (ss, [])"
  by (induction ss) auto

lemma dup_byte_strs_nil: "list_all exact_bytes bs \<Longrightarrow> dup_byte_strs (length bs) bs [] = Some (Some bs, [])"
proof (induction bs)
  case (Cons b bs)
  then show ?case by (cases b) (auto simp: exact_bytes_def split: option.splits)
qed simp

lemma map_alone_idem: "map (map_option alone) (map (map_option alone) ps) = map (map_option alone) ps"
  by (auto simp: option.map_comp alone_alone intro!: option.map_cong0)

lemma wf_alone_objs:
  "list_all (\<lambda>p. case p of None \<Rightarrow> True | Some q \<Rightarrow> wf_payload True q) ps
    \<Longrightarrow> list_all (\<lambda>p. case p of None \<Rightarrow> True | Some q \<Rightarrow> wf_payload True q) (map (map_option alone) ps)"
  by (auto simp: list_all_iff wf_alone split: option.splits)

lemma flat_roundtrip:
  "length xs = calcDimTotal dims \<Longrightarrow> xs \<noteq> [] \<Longrightarrow> length xs * sz \<le> max_object \<Longrightarrow> 0 < sz
    \<Longrightarrow> copy_flat (calcDimTotal dims) sz (Some xs) [] = Some (Some xs, []) \<and> get_flat_array sz (Some xs) dims [] = Some (True, Some (xs, dims), [])"
  by (cases xs) (auto simp: get_flat_array_def copy_flat_nil)

text \<open>
  C33: A representation acts as a map from names to typed values. Setting a name to a value that is no array updates the map
  when the representation has the name or there is memory for a new one; otherwise the representation is
  unchanged. Nothing else of it changes, and the names stay distinct. The caller is told that it succeeded
  exactly when the map is updated, except that a string that is NULL is stored and yet reported as a failure. The
  contents of the values can be freed (\<open>freeable\<close>), since a value that is replaced is freed.
\<close>

theorem payload_set_refines:
  assumes "named p" "freeable p" "\<not> is_array_prop v"
  shows "\<exists>ok q m'. OCRepPayloadSetProp (Some p) (Some n) v m = Some (ok, Some q, m') \<and> named q \<and> same_but_values p q
    \<and> (if n \<in> dom (rep_map p) \<or> room_for n m then rep_map q = (rep_map p)(n \<mapsto> v) \<and> (ok \<longleftrightarrow> v \<noteq> OCREP_PROP_STRING None)
       else q = p \<and> \<not> ok)
    \<and> (ok \<longrightarrow> get_prop (Some q) (Some n) = Some (Some v))
    \<and> (\<forall>k. k \<noteq> n \<longrightarrow> get_prop (Some q) (Some k) = get_prop (Some p) (Some k))
    \<and> (freeable_prop v \<longrightarrow> freeable q)"
proof -
  obtain ok q m' where q: "OCRepPayloadFindAndSetValue (Some p) (Some n) v m = Some (ok, Some q, m')" "named q" "same_but_values p q"
      "if ok then rep_map q = (rep_map p)(n \<mapsto> v) else q = p" "ok \<longleftrightarrow> n \<in> dom (rep_map p) \<or> room_for n m"
      "freeable_prop v \<longrightarrow> freeable q"
    using OCRepPayloadFindAndSetValue_refines [OF assms(1,2), of n v m] by blast
  define ok' where "ok' = (ok \<and> v \<noteq> OCREP_PROP_STRING None)"
  have "OCRepPayloadSetProp (Some p) (Some n) v m = Some (ok', Some q, m')"
    using q(1) assms(3) by (simp add: OCRepPayloadSetProp_def ok'_def)
  moreover have "if n \<in> dom (rep_map p) \<or> room_for n m then rep_map q = (rep_map p)(n \<mapsto> v) \<and> (ok' \<longleftrightarrow> v \<noteq> OCREP_PROP_STRING None)
      else q = p \<and> \<not> ok'"
    using q(4) unfolding ok'_def q(5) [symmetric] by (cases ok) simp_all
  moreover have "ok' \<longrightarrow> get_prop (Some q) (Some n) = Some (Some v)"
    using q(4) get_prop_map [OF q(2)] unfolding ok'_def by simp
  moreover have "\<forall>k. k \<noteq> n \<longrightarrow> get_prop (Some q) (Some k) = get_prop (Some p) (Some k)"
    using q(4) get_prop_map [OF q(2)] get_prop_map [OF assms(1)] by (cases ok) simp_all
  ultimately show ?thesis using q(2,3,6) by blast
qed

text \<open>
  C34: With enough memory, the clone of a well-formed payload is the same payload, alone, at every level. With any
  memory, the clone of a payload without arrays of strings, byte strings or objects is defined: nothing is read outside of
  the payload or of its partial clone, which is freed when memory runs out. Whenever a clone of a well-formed payload
  returns, it is NULL exactly when there is no memory for the payload itself, and otherwise it is the payload with at most the losses
  of \<open>partial_copy\<close>. (Freeing the partial clone of an array of strings, byte strings or objects may be undefined, see \<open>clone_frees_NULL\<close>.)
\<close>

theorem payload_clone:
  assumes "wf_payload False p"
  shows "(wf_payload True p \<longrightarrow> OCRepPayloadClone (Some p) [] = Some (Some (alone p), []) \<and> wf_payload True (alone p))
    \<and> (plain_payload p \<longrightarrow> OCRepPayloadClone (Some p) m \<noteq> None)
    \<and> (\<forall>r m'. OCRepPayloadClone (Some p) m = Some (r, m') \<longrightarrow>
         (case r of None \<Rightarrow> \<not> fst (OICCalloc m 1 sizeof_RepPayload)
          | Some q \<Rightarrow> fst (OICCalloc m 1 sizeof_RepPayload) \<and> partial_copy p q))"
proof -
  have c: "OCRepPayloadClone (Some p) m = clone_payload p m" for m by (simp add: OCRepPayloadClone_def)
  have "wf_payload True p \<longrightarrow> OCRepPayloadClone (Some p) [] = Some (Some (alone p), []) \<and> wf_payload True (alone p)"
    using clone_exact(1) [of p "[]"] wf_alone(1) [of True p] by (simp add: c)
  moreover have "plain_payload p \<longrightarrow> OCRepPayloadClone (Some p) m \<noteq> None"
    using clone_defined(1) [OF assms, of m] by (auto simp: c)
  moreover have "case r of None \<Rightarrow> \<not> fst (OICCalloc m 1 sizeof_RepPayload)
      | Some q \<Rightarrow> fst (OICCalloc m 1 sizeof_RepPayload) \<and> partial_copy p q"
    if r: "OCRepPayloadClone (Some p) m = Some (r, m')" for r m'
  proof -
    have "partial_object (Some p) r" "r = None \<longleftrightarrow> \<not> fst (OICCalloc m 1 sizeof_RepPayload)"
      using clone_partial(1) [OF r [unfolded c] assms] clone_NULL [OF assms r [unfolded c]] .
    then show ?thesis by (cases r) (auto elim: partial_object.cases)
  qed
  ultimately show ?thesis by blast
qed

definition sample_payload :: "int OCRepPayload" where
  "sample_payload =
     RepPayload (Some ''/light'') [Some ''oic.r.switch''] [Some ''oic.if.a'']
       [RepValue (Some ''value'') (OCREP_PROP_BOOL True),
        RepValue (Some ''range'') (OCREP_PROP_ARRAY [2, 0, 0] (iArray (Some [Some 0, Some 100]))),
        RepValue (Some ''link'') (OCREP_PROP_OBJECT (Some (RepPayload None [] [] [RepValue (Some ''x'') OCREP_PROP_NULL] None)))]
       (Some (RepPayload None [] [] [] None))"

lemma sample_payload_wf: "wf_payload s sample_payload" "named sample_payload" "freeable sample_payload" "plain_payload sample_payload"
  by (auto simp: sample_payload_def named_def freeable_def calcDimTotal_def MAX_REP_ARRAY_DEPTH_def size_t_range_def wf_cells_def max_object_def)

lemma payload_set_refines_witness:
  "\<exists>q m'. OCRepPayloadSetProp (Some sample_payload) (Some ''value'') OCREP_PROP_NULL [False] = Some (True, Some q, m')
    \<and> rep_map q = (rep_map sample_payload)(''value'' \<mapsto> OCREP_PROP_NULL)
    \<and> get_prop (Some q) (Some ''range'') = get_prop (Some sample_payload) (Some ''range'')"
proof -
  have "''value'' \<in> dom (rep_map sample_payload)" by (simp add: rep_map_def sample_payload_def)
  then show ?thesis using payload_set_refines [OF sample_payload_wf(2,3), of OCREP_PROP_NULL "''value''" "[False]"] by auto
qed

lemma payload_clone_witness:
  "OCRepPayloadClone (Some sample_payload) [] = Some (Some (alone sample_payload), [])
    \<and> (\<exists>q m'. OCRepPayloadClone (Some sample_payload) [True, False, True] = Some (Some q, m') \<and> partial_copy sample_payload q)"
proof -
  have "fst (OICCalloc [True, False, True] 1 sizeof_RepPayload)" by (simp add: OICCalloc_def max_object_def sizeof_RepPayload_def)
  then show ?thesis
    using payload_clone [OF sample_payload_wf(1), of "[True, False, True]"] sample_payload_wf(1) [of True] sample_payload_wf(4)
    by (auto split: option.splits)
qed

text \<open>
  C35: with enough memory, an array that is set under a name is what the getter of its type returns, with its
  dimensions; objects come back without the payloads that follow them. An array of integers can be read
  as one of doubles. The values that the payload has can be freed (\<open>freeable\<close>), since one of the same name is.
\<close>

theorem payload_array_roundtrip:
  assumes p: "named p" "freeable p" "length n < max_object"
    and dims: "length dims = 3" "calcDimTotal dims = k" "0 < k" "k * 16 \<le> max_object"
    and len: "length xs = k" "length ds = k" "length cs = k" "length ss = k" "length bs = k" "length ps = k"
    and wf: "list_all fits ss" "list_all exact_bytes bs" "list_all (\<lambda>p. case p of None \<Rightarrow> True | Some q \<Rightarrow> wf_payload True q) ps"
  shows "(\<exists>q. OCRepPayloadSetIntArray (Some p) (Some n) (Some xs) dims [] = Some (True, Some q, [])
           \<and> OCRepPayloadGetIntArray (Some q) (Some n) [] = Some (True, Some (map Some xs, dims), [])
           \<and> OCRepPayloadGetDoubleArray conv (Some q) (Some n) [] = Some (True, Some (map conv xs, dims), []))
    \<and> (\<exists>q. OCRepPayloadSetDoubleArray (Some p) (Some n) (Some ds) dims [] = Some (True, Some q, [])
           \<and> OCRepPayloadGetDoubleArray conv (Some q) (Some n) [] = Some (True, Some (ds, dims), []))
    \<and> (\<exists>q. OCRepPayloadSetBoolArray (Some p) (Some n) (Some cs) dims [] = Some (True, Some q, [])
           \<and> OCRepPayloadGetBoolArray (Some q) (Some n) [] = Some (True, Some (cs, dims), []))
    \<and> (\<exists>q. OCRepPayloadSetStringArray (Some p) (Some n) ss dims [] = Some (True, Some q, [])
           \<and> OCRepPayloadGetStringArray (Some q) (Some n) [] = Some (True, Some (ss, dims), []))
    \<and> (\<exists>q. OCRepPayloadSetByteStringArray (Some p) (Some n) (Some bs) dims [] = Some (True, Some q, [])
           \<and> OCRepPayloadGetByteStringArray (Some q) (Some n) [] = Some (True, Some (bs, dims), []))
    \<and> (\<exists>q. OCRepPayloadSetPropObjectArray (Some p) (Some n) ps dims [] = Some (True, Some q, [])
           \<and> OCRepPayloadGetPropObjectArray (Some q) (Some n) [] = Some (True, Some (map (map_option alone) ps, dims), []))"
proof -
  have c: "array_bytes k 8 = k * 8 \<and> array_cells k 8 = k" using dims(4) by (intro cells_exact) auto
  have b: "k * 8 \<le> max_object" using dims(4) by simp
  note set = set_array_plenty [OF p dims(1)]
  have wf': "list_all (\<lambda>p. case p of None \<Rightarrow> True | Some q \<Rightarrow> wf_payload True q) (map (map_option alone) ps)"
    using wf_alone_objs [OF wf(3)] .
  have objs: "copy_objs k ps [] = Some (map (map_option alone) ps, [])"
    "copy_objs k (map (map_option alone) ps) [] = Some (map (map_option alone) ps, [])"
    using clone_exact(5) [OF wf(3) len(6) refl] clone_exact(5) [OF wf' _ refl, of k, unfolded map_alone_idem] len(6) by simp_all
  have strs: "dup_strs k ss [] = Some (ss, [])" using dup_strs_nil [OF wf(1)] len(4) by simp
  have bss: "dup_byte_strs k bs [] = Some (Some bs, [])" using dup_byte_strs_nil [OF wf(2)] len(5) by simp
  have ne: "xs \<noteq> []" "ds \<noteq> []" "cs \<noteq> []" using len dims(3) by auto
  have i: "get_flat_array 8 (Some (map Some xs)) dims [] = Some (True, Some (map Some xs, dims), [])"
    using flat_roundtrip [of "map Some xs" dims 8] dims len b ne by simp_all
  have d: "copy_flat k 8 (Some ds) [] = Some (Some ds, [])" "get_flat_array 8 (Some ds) dims [] = Some (True, Some (ds, dims), [])"
    using flat_roundtrip [of ds dims 8] dims len b ne by simp_all
  have bo: "copy_flat k 1 (Some cs) [] = Some (Some cs, [])" "get_flat_array 1 (Some cs) dims [] = Some (True, Some (cs, dims), [])"
    using flat_roundtrip [of cs dims 1] dims len b ne by simp_all
  have cf: "copy_from k (Some xs) = Some xs" using len(1) copy_from_exact [of xs] by simp
  have nz: "k \<noteq> 0" using dims(3) by simp
  show ?thesis
    apply (intro conjI)
    subgoal using set [of "iArray (Some (map Some xs))"]
      by (auto simp: OCRepPayloadSetIntArray_def OCRepPayloadSetIntArrayAsOwner_def OCRepPayloadGetIntArray_def
            OCRepPayloadGetDoubleArray_def get_prop_map dims(2,3) c b nz i cf len(1) comp_def Let_def)
    subgoal using set [of "dArray (Some ds)"]
      by (auto simp: OCRepPayloadSetDoubleArray_def OCRepPayloadSetDoubleArrayAsOwner_def set_flat_array_def
            OCRepPayloadGetDoubleArray_def get_prop_map dims(2) d nz)
    subgoal using set [of "bArray (Some cs)"]
      by (auto simp: OCRepPayloadSetBoolArray_def OCRepPayloadSetBoolArrayAsOwner_def set_flat_array_def
            OCRepPayloadGetBoolArray_def get_prop_map dims(2) bo [simplified] nz)
    subgoal using set [of "strArray (Some (map Some ss))"]
      by (auto simp: OCRepPayloadSetStringArray_def OCRepPayloadSetStringArrayAsOwner_def
            OCRepPayloadGetStringArray_def get_prop_map dims(2,3) c b nz strs Let_def comp_def dest!: in_set_takeD)
    subgoal using set [of "ocByteStrArray (Some bs)"] dims(4)
      by (auto simp: OCRepPayloadSetByteStringArray_def OCRepPayloadSetByteStringArrayAsOwner_def
            OCRepPayloadGetByteStringArray_def get_prop_map dims(2,3) sizeof_OCByteString_def nz bss Let_def)
    subgoal using set [of "objArray (Some (map (map_option alone) ps))"]
      by (auto simp: OCRepPayloadSetPropObjectArray_def OCRepPayloadSetPropObjectArrayAsOwner_def
            OCRepPayloadGetPropObjectArray_def get_prop_map dims(2,3) c b nz objs Let_def)
    done
qed


lemma payload_array_roundtrip_witness:
  "\<exists>q. OCRepPayloadSetByteStringArray (Some sample_payload) (Some ''key'') (Some [\<lparr>bs_bytes = Some [1, 2], bs_len = 2\<rparr>]) [1, 0, 0] []
         = Some (True, Some q, [])
       \<and> OCRepPayloadGetByteStringArray (Some q) (Some ''key'') []
         = Some (True, Some ([\<lparr>bs_bytes = Some [1, 2], bs_len = 2\<rparr>], [1, 0, 0]), [])"
  using payload_array_roundtrip [OF sample_payload_wf(2,3), of "''key''" "[1, 0, 0]" 1 "[5]" "[2]" "[True]" "[None]"
      "[\<lparr>bs_bytes = Some [1, 2], bs_len = 2\<rparr>]" "[None]"]
  by (simp add: calcDimTotal_def MAX_REP_ARRAY_DEPTH_def size_t_range_def max_object_def exact_bytes_def)

text \<open>
  With enough memory, a value that is set under a name is what the getter of its type returns, and the
  rest of the representation is unchanged; an integer can be read as a double; an object comes back
  without the payloads that follow it.
\<close>

lemma payload_value_roundtrip:
  assumes "named p" "freeable p" "length n < max_object" "length s < max_object" "exact_bytes b" "wf_payload True o1"
  shows "(\<exists>q. OCRepPayloadSetPropInt (Some p) (Some n) i [] = Some (True, Some q, [])
           \<and> rep_map q = (rep_map p)(n \<mapsto> OCREP_PROP_INT i)
           \<and> OCRepPayloadGetPropInt (Some q) (Some n) = Some (Some i)
           \<and> OCRepPayloadGetPropDouble conv (Some q) (Some n) = Some (Some (conv i)))
    \<and> (\<exists>q. OCRepPayloadSetPropDouble (Some p) (Some n) d [] = Some (True, Some q, [])
           \<and> rep_map q = (rep_map p)(n \<mapsto> OCREP_PROP_DOUBLE d)
           \<and> OCRepPayloadGetPropDouble conv (Some q) (Some n) = Some (Some d))
    \<and> (\<exists>q. OCRepPayloadSetPropBool (Some p) (Some n) c [] = Some (True, Some q, [])
           \<and> rep_map q = (rep_map p)(n \<mapsto> OCREP_PROP_BOOL c)
           \<and> OCRepPayloadGetPropBool (Some q) (Some n) = Some (Some c))
    \<and> (\<exists>q. OCRepPayloadSetNull (Some p) (Some n) [] = Some (True, Some q, [])
           \<and> rep_map q = (rep_map p)(n \<mapsto> OCREP_PROP_NULL) \<and> OCRepPayloadIsNull (Some q) (Some n) = Some True)
    \<and> (\<exists>q. OCRepPayloadSetPropString (Some p) (Some n) (Some s) [] = Some (True, Some q, [])
           \<and> rep_map q = (rep_map p)(n \<mapsto> OCREP_PROP_STRING (Some s))
           \<and> OCRepPayloadGetPropString (Some q) (Some n) [] = Some (True, Some s, []))
    \<and> (\<exists>q. OCRepPayloadSetPropByteString (Some p) (Some n) b [] = Some (True, Some q, [])
           \<and> rep_map q = (rep_map p)(n \<mapsto> OCREP_PROP_BYTE_STRING b)
           \<and> OCRepPayloadGetPropByteString (Some q) (Some n) True [] = Some (True, Some b, []))
    \<and> (\<exists>q. OCRepPayloadSetPropObject (Some p) (Some n) (Some o1) [] = Some (True, Some q, [])
           \<and> rep_map q = (rep_map p)(n \<mapsto> OCREP_PROP_OBJECT (Some (alone o1)))
           \<and> OCRepPayloadGetPropObject (Some q) (Some n) [] = Some (True, Some (alone o1), []))"
proof -
  note set = SetProp_plenty [OF assms(1-3)]
  note flat = payload_set_get [OF assms(1-5)]
  have clone: "OCRepPayloadClone (Some o1) [] = Some (Some (alone o1), [])"
    "OCRepPayloadClone (Some (alone o1)) [] = Some (Some (alone o1), [])"
    using assms(6) wf_alone(1) [OF assms(6)] by (simp_all add: OCRepPayloadClone_def clone_exact alone_alone)
  have "\<exists>q. OCRepPayloadSetPropObject (Some p) (Some n) (Some o1) [] = Some (True, Some q, [])
      \<and> rep_map q = (rep_map p)(n \<mapsto> OCREP_PROP_OBJECT (Some (alone o1)))
      \<and> OCRepPayloadGetPropObject (Some q) (Some n) [] = Some (True, Some (alone o1), [])"
    using set [of "OCREP_PROP_OBJECT (Some (alone o1))"]
    by (auto simp: OCRepPayloadSetPropObject_def OCRepPayloadSetPropObjectAsOwner_def OCRepPayloadGetPropObject_def clone get_prop_map)
  then show ?thesis using flat by blast
qed

lemma payload_value_roundtrip_example:
  "\<exists>q. OCRepPayloadSetPropObject (Some sample_payload) (Some ''self'') (Some sample_payload) [] = Some (True, Some q, [])
       \<and> OCRepPayloadGetPropObject (Some q) (Some ''self'') [] = Some (True, Some (alone sample_payload), [])"
proof -
  have v: "length ''v'' < max_object" "exact_bytes \<lparr>bs_bytes = None, bs_len = 0\<rparr>" "length ''self'' < max_object"
    by (simp_all add: max_object_def exact_bytes_def)
  show ?thesis
    using payload_value_roundtrip [OF sample_payload_wf(2,3) v(3,1,2) sample_payload_wf(1), of 0 uint 0 True] by blast
qed


section \<open>Byte strings without bytes, failed copies, and arrays that are NULL\<close>

text \<open>
  When an array of strings, byte strings or objects could not be copied, and then there is no memory for the next value, the
  elements of an array that is NULL are freed; in the last case the array has strings that were never written.
\<close>

definition then_null :: "int OCRepArray \<Rightarrow> int OCRepPayload option" where
  "then_null a = Some (RepPayload None [] [] [RepValue (Some ''a'') (OCREP_PROP_ARRAY [2, 0, 0] a), RepValue (Some ''b'') OCREP_PROP_NULL] None)"

lemma two_cells:
  "free_strs 2 [] = None" "free_strs 2 [Some s, None] = None" "free_byte_strs 2 [] = None"
  "length x < max_object \<Longrightarrow> copy_strs 2 [Some (Some x), Some (Some y)] (False # m) = Some ([Some None, None], m)"
  by (simp_all add: numeral_2_eq_2 OICStrdup_def OICMalloc_def)

lemma clone_frees_NULL:
  "OCRepPayloadClone (then_null (strArray (Some [Some (Some ''x''), Some (Some ''y'')]))) [True, True, True, False, False] = None"
  "OCRepPayloadClone (then_null (ocByteStrArray (Some [\<lparr>bs_bytes = Some [7], bs_len = 1\<rparr>, \<lparr>bs_bytes = Some [8], bs_len = 1\<rparr>])))
     [True, True, True, False, False] = None"
  "OCRepPayloadClone (then_null (objArray (Some [None, None]))) [True, True, True, False, False] = None"
  "OCRepPayloadClone (then_null (strArray (Some [Some (Some ''x''), Some (Some ''y'')]))) [True, True, True, True, False, False] = None"
  by (simp_all add: then_null_def OCRepPayloadClone_def OICCalloc_def OICMalloc_def OICStrdup_def max_object_def sizeof_RepPayload_def
      sizeof_RepValue_def sizeof_OCByteString_def CloneOCStringLL_def calcDimTotal_def MAX_REP_ARRAY_DEPTH_def size_t_range_def
      array_bytes_def array_cells_def two_cells)

text \<open>A string that is NULL replaces the value of its name, and the caller is told that setting it failed.\<close>

lemma null_string_stored:
  "OCRepPayloadSetPropString (Some (RepPayload None [] [] [RepValue (Some ''a'') (OCREP_PROP_INT 1)] None)) (Some ''a'') None []
   = Some (False, Some (RepPayload None [] [] [RepValue (Some ''a'') (OCREP_PROP_STRING None)] None), [])"
  by (simp add: OCRepPayloadSetPropString_def OICStrdup_def OCRepPayloadSetPropStringAsOwner_def OCRepPayloadSetProp_def
      OCRepPayloadFindAndSetValue_def with_values_def)

text \<open>The copy of an array of byte strings stops at one without bytes; what follows is lost.\<close>

lemma small_sizes:
  "calcDimTotal [2, 0, 0] = 2" "array_bytes 2 8 = 16" "array_cells 2 8 = 2" "32 \<le> max_object" "16 \<le> max_object" "1 < max_object"
  by (simp_all add: calcDimTotal_def MAX_REP_ARRAY_DEPTH_def size_t_range_def array_bytes_def array_cells_def max_object_def)

lemma byte_strings_lost:
  "OCRepPayloadClone (Some (RepPayload None [] [] [RepValue (Some ''a'') (OCREP_PROP_ARRAY [2, 0, 0]
       (ocByteStrArray (Some [\<lparr>bs_bytes = None, bs_len = 0\<rparr>, \<lparr>bs_bytes = Some [7], bs_len = 1\<rparr>])))] None)) []
   = Some (Some (RepPayload None [] [] [RepValue (Some ''a'') (OCREP_PROP_ARRAY [2, 0, 0]
       (ocByteStrArray (Some [\<lparr>bs_bytes = None, bs_len = 0\<rparr>, \<lparr>bs_bytes = None, bs_len = 0\<rparr>])))] None), [])"
  using small_sizes by (simp add: OCRepPayloadClone_def sizeof_OCByteString_def OCByteStringCopy_def numeral_2_eq_2)

text \<open>
  Without memory for its bytes the copy of a byte string has no bytes but keeps its length, and reading it
  copies from NULL.
\<close>

lemma failed_copy_is_read:
  "\<exists>q. OCRepPayloadClone (Some (RepPayload None [] [] [RepValue (Some ''a'') (OCREP_PROP_BYTE_STRING \<lparr>bs_bytes = Some [7], bs_len = 1\<rparr>)] None))
         [True, True, True, False] = Some (Some q, [])
     \<and> OCRepPayloadGetPropByteString (Some q) (Some ''a'') True [] = None"
  by (simp add: OCRepPayloadClone_def OICCalloc_def OICMalloc_def OICStrdup_def max_object_def sizeof_RepPayload_def
      sizeof_RepValue_def CloneOCStringLL_def OCRepPayloadGetPropByteString_def get_prop_def OCRepPayloadFindValue_def copy_from_def)

text \<open>A clone without memory for its values is empty, and the caller is not told.\<close>

lemma values_lost:
  "OCRepPayloadClone (Some (RepPayload None [] [] [RepValue (Some ''a'') OCREP_PROP_NULL, RepValue (Some ''b'') OCREP_PROP_NULL] None))
     [True, True, True, False] = Some (Some (RepPayload None [] [] [] None), [])"
  by (simp add: OCRepPayloadClone_def OICCalloc_def OICMalloc_def OICStrdup_def max_object_def sizeof_RepPayload_def
      sizeof_RepValue_def CloneOCStringLL_def)

text \<open>An array of integers that is NULL is stored as memory that was never written, and the getter hands it out.\<close>

lemma int_array_uninitialised:
  "\<exists>q. OCRepPayloadSetIntArray (Some (RepPayload None [] [] [] None)) (Some ''a'') None [2, 0, 0] [] = Some (True, Some q, [])
     \<and> OCRepPayloadGetIntArray (Some q) (Some ''a'') [] = Some (True, Some ([None, None], [2, 0, 0]), [])"
proof -
  have two: "replicate 2 x = [x, x]" for x :: "'b option" by (simp add: numeral_2_eq_2)
  have f: "get_flat_array 8 (Some [None, None]) [2, 0, 0] [] = Some (True, Some ([None :: i64 option, None], [2, 0, 0]), [])"
    using flat_roundtrip [of "[None :: i64 option, None]" "[2, 0, 0]" 8] small_sizes by simp
  show ?thesis
    using small_sizes f
    by (simp add: OCRepPayloadSetIntArray_def OCRepPayloadSetIntArrayAsOwner_def set_array_def OCRepPayloadFindAndSetValue_def
        two MAX_REP_ARRAY_DEPTH_def OCRepPayloadGetIntArray_def get_prop_def OCRepPayloadFindValue_def Let_def)
qed

end
