(* ===== verification/Endpoints.thy ===== *)
theory Endpoints
  imports CATypes OicString ICalendar "HOL-Library.Monad_Syntax"
begin

unbundle bit_operations_syntax

text \<open>
  The endpoints of resources, \<^verbatim>\<open>resource/csdk/stack/src/ocendpoint.c\<close>: the transport protocol suites that a
  network adapter offers, and the text of an endpoint, for example \<open>coaps://[fe80::1]:5684\<close>, written and parsed.
  Which adapters are compiled in is a value of the record \<open>adapters\<close>; the build has \<^verbatim>\<open>__WITH_DTLS__\<close>. Positions in a
  string stand for pointers into it; differences of pointers are computed in \<open>size_t\<close>.
\<close>

section \<open>Types\<close>

record adapters =
  TCP_ADAPTER :: bool
  HTTP_ADAPTER :: bool
  EDR_ADAPTER :: bool
  LE_ADAPTER :: bool
  NFC_ADAPTER :: bool
  RA_ADAPTER :: bool

record OCEndpointPayload =
  epl_tps :: "string option"
  epl_addr :: "string option"
  epl_family :: u32
  epl_port :: u16
  epl_pri :: u16

definition OC_ADAPTER_IP :: u32 where "OC_ADAPTER_IP = 1"
definition OC_ADAPTER_GATT_BTLE :: u32 where "OC_ADAPTER_GATT_BTLE = 2"
definition OC_ADAPTER_RFCOMM_BTEDR :: u32 where "OC_ADAPTER_RFCOMM_BTEDR = 4"
definition OC_ADAPTER_REMOTE_ACCESS :: u32 where "OC_ADAPTER_REMOTE_ACCESS = 8"
definition OC_ADAPTER_TCP :: u32 where "OC_ADAPTER_TCP = 16"
definition OC_ADAPTER_NFC :: u32 where "OC_ADAPTER_NFC = 32"

definition OC_FLAG_SECURE :: u32 where "OC_FLAG_SECURE = 16"
definition OC_IP_USE_V6 :: u32 where "OC_IP_USE_V6 = 32"
definition OC_IP_USE_V4 :: u32 where "OC_IP_USE_V4 = 64"

definition OC_COAP :: u32 where "OC_COAP = 1"
definition OC_COAPS :: u32 where "OC_COAPS = 2"
definition OC_COAP_TCP :: u32 where "OC_COAP_TCP = 4"
definition OC_COAPS_TCP :: u32 where "OC_COAPS_TCP = 8"
definition OC_HTTP :: u32 where "OC_HTTP = 16"
definition OC_HTTPS :: u32 where "OC_HTTPS = 32"
definition OC_COAP_RFCOMM :: u32 where "OC_COAP_RFCOMM = 64"
definition OC_COAP_GATT :: u32 where "OC_COAP_GATT = 128"
definition OC_COAP_NFC :: u32 where "OC_COAP_NFC = 256"
definition OC_COAP_RA :: u32 where "OC_COAP_RA = 512"

lemmas adapter_defs = OC_ADAPTER_IP_def OC_ADAPTER_GATT_BTLE_def OC_ADAPTER_RFCOMM_BTEDR_def OC_ADAPTER_REMOTE_ACCESS_def
  OC_ADAPTER_TCP_def OC_ADAPTER_NFC_def

lemmas tps_defs = OC_COAP_def OC_COAPS_def OC_COAP_TCP_def OC_COAPS_TCP_def OC_HTTP_def OC_HTTPS_def OC_COAP_RFCOMM_def
  OC_COAP_GATT_def OC_COAP_NFC_def OC_COAP_RA_def

definition OC_SECURE :: u32 where "OC_SECURE = 16"

definition OC_MAX_TPS_STR_SIZE :: nat where "OC_MAX_TPS_STR_SIZE = 12"
definition OC_MAX_ADDR_STR_SIZE :: nat where "OC_MAX_ADDR_STR_SIZE = 46"
definition MAX_ADDR_STR_SIZE :: "adapters \<Rightarrow> nat" where "MAX_ADDR_STR_SIZE b = (if RA_ADAPTER b then 256 else 66)"

definition COAP_STR :: string where "COAP_STR = ''coap''"
definition COAPS_STR :: string where "COAPS_STR = ''coaps''"
definition COAP_TCP_STR :: string where "COAP_TCP_STR = ''coap+tcp''"
definition COAPS_TCP_STR :: string where "COAPS_TCP_STR = ''coaps+tcp''"
definition HTTP_STR :: string where "HTTP_STR = ''http''"
definition HTTPS_STR :: string where "HTTPS_STR = ''https''"
definition COAP_RFCOMM_STR :: string where "COAP_RFCOMM_STR = ''coap+rfcomm''"

lemmas tps_str_defs = COAP_STR_def COAPS_STR_def COAP_TCP_STR_def COAPS_TCP_STR_def HTTP_STR_def HTTPS_STR_def COAP_RFCOMM_STR_def

definition OC_ENDPOINT_TPS_TOKEN :: string where "OC_ENDPOINT_TPS_TOKEN = ''://''"
definition OC_ENDPOINT_ADDR_TOKEN :: char where "OC_ENDPOINT_ADDR_TOKEN = CHR '':''"
definition OC_ENDPOINT_BRACKET_START :: char where "OC_ENDPOINT_BRACKET_START = CHR ''[''"
definition OC_ENDPOINT_BRACKET_END :: char where "OC_ENDPOINT_BRACKET_END = CHR '']''"

lemmas token_defs = OC_ENDPOINT_TPS_TOKEN_def OC_ENDPOINT_ADDR_TOKEN_def OC_ENDPOINT_BRACKET_START_def OC_ENDPOINT_BRACKET_END_def

section \<open>Protocol suites\<close>

text \<open>The flags that are set when a condition holds.\<close>

definition set_if :: "bool \<Rightarrow> u32 \<Rightarrow> u32 \<Rightarrow> u32" where
  "set_if c f out = (if c then out OR f else out)"

text \<open>The selected networks are what \<open>CAGetSelectedNetwork\<close> returns.\<close>

definition OCGetSupportedEndpointFlags :: "adapters \<Rightarrow> u32 \<Rightarrow> u32 \<Rightarrow> u32 option \<Rightarrow> OCStackResult \<times> u32 option" where
  "OCGetSupportedEndpointFlags b selected given out =
     (case out of
        None \<Rightarrow> (OC_STACK_INVALID_PARAM, None)
      | Some f \<Rightarrow>
          let ip = given AND (OC_COAP OR OC_COAPS) \<noteq> 0 \<and> selected AND OC_ADAPTER_IP \<noteq> 0;
              tcp = TCP_ADAPTER b \<and> given AND (OC_COAP_TCP OR OC_COAPS_TCP) \<noteq> 0 \<and> selected AND OC_ADAPTER_TCP \<noteq> 0;
              f = set_if ip OC_COAP f;
              f = set_if (ip \<and> OC_SECURE \<noteq> 0) OC_COAPS f;
              f = set_if tcp OC_COAP_TCP f;
              f = set_if (tcp \<and> OC_SECURE \<noteq> 0) OC_COAPS_TCP f;
              f = set_if (EDR_ADAPTER b \<and> given AND OC_COAP_RFCOMM \<noteq> 0 \<and> selected AND OC_ADAPTER_RFCOMM_BTEDR \<noteq> 0) OC_COAP_RFCOMM f;
              f = set_if (LE_ADAPTER b \<and> given AND OC_COAP_GATT \<noteq> 0 \<and> selected AND OC_ADAPTER_GATT_BTLE \<noteq> 0) OC_COAP_GATT f;
              f = set_if (NFC_ADAPTER b \<and> given AND OC_COAP_NFC \<noteq> 0 \<and> selected AND OC_ADAPTER_NFC \<noteq> 0) OC_COAP_NFC f;
              f = set_if (RA_ADAPTER b \<and> given AND OC_COAP_RA \<noteq> 0 \<and> selected AND OC_ADAPTER_REMOTE_ACCESS \<noteq> 0) OC_COAP_RA f
          in (OC_STACK_OK, Some f))"

definition OCGetMatchedTpsFlags :: "adapters \<Rightarrow> u32 \<Rightarrow> u32 \<Rightarrow> u32 option \<Rightarrow> OCStackResult \<times> u32 option" where
  "OCGetMatchedTpsFlags b adapter flags out =
     (case out of
        None \<Rightarrow> (OC_STACK_INVALID_PARAM, None)
      | Some f \<Rightarrow>
          let ip = adapter AND OC_ADAPTER_IP \<noteq> 0 \<and> flags AND (OC_IP_USE_V4 OR OC_IP_USE_V6) \<noteq> 0;
              tcp = TCP_ADAPTER b \<and> adapter AND OC_ADAPTER_TCP \<noteq> 0 \<and> flags AND (OC_IP_USE_V4 OR OC_IP_USE_V6) \<noteq> 0;
              secure = flags AND OC_FLAG_SECURE \<noteq> 0;
              f = set_if ip (if secure then OC_COAPS else OC_COAP) f;
              f = set_if tcp (if secure then OC_COAPS_TCP else OC_COAP_TCP) f;
              f = set_if (EDR_ADAPTER b \<and> adapter AND OC_ADAPTER_RFCOMM_BTEDR \<noteq> 0) OC_COAP_RFCOMM f;
              f = set_if (LE_ADAPTER b \<and> adapter AND OC_ADAPTER_GATT_BTLE \<noteq> 0) OC_COAP_GATT f;
              f = set_if (NFC_ADAPTER b \<and> adapter AND OC_ADAPTER_NFC \<noteq> 0) OC_COAP_NFC f;
              f = set_if (RA_ADAPTER b \<and> adapter AND OC_ADAPTER_REMOTE_ACCESS \<noteq> 0) OC_COAP_RA f
          in (OC_STACK_OK, Some f))"

definition OCGetSupportedTpsFlags :: "adapters \<Rightarrow> u32 \<Rightarrow> u32" where
  "OCGetSupportedTpsFlags b selected =
     (let ip = selected AND OC_ADAPTER_IP \<noteq> 0;
          tcp = TCP_ADAPTER b \<and> selected AND OC_ADAPTER_TCP \<noteq> 0;
          f = set_if ip OC_COAP 0;
          f = set_if (ip \<and> OC_SECURE \<noteq> 0) OC_COAPS f;
          f = set_if tcp OC_COAP_TCP f;
          f = set_if (tcp \<and> OC_SECURE \<noteq> 0) OC_COAPS_TCP f;
          f = set_if (EDR_ADAPTER b \<and> selected AND OC_ADAPTER_RFCOMM_BTEDR \<noteq> 0) OC_COAP_RFCOMM f;
          f = set_if (LE_ADAPTER b \<and> selected AND OC_ADAPTER_GATT_BTLE \<noteq> 0) OC_COAP_GATT f;
          f = set_if (NFC_ADAPTER b \<and> selected AND OC_ADAPTER_NFC \<noteq> 0) OC_COAP_NFC f
      in set_if (RA_ADAPTER b \<and> selected AND OC_ADAPTER_REMOTE_ACCESS \<noteq> 0) OC_COAP_RA f)"

definition ConvertTpsToString :: "adapters \<Rightarrow> u32 \<Rightarrow> string option" where
  "ConvertTpsToString b tps =
     (if tps = OC_COAP then Some COAP_STR
      else if tps = OC_COAPS then Some COAPS_STR
      else if TCP_ADAPTER b \<and> tps = OC_COAP_TCP then Some COAP_TCP_STR
      else if TCP_ADAPTER b \<and> tps = OC_COAPS_TCP then Some COAPS_TCP_STR
      else if HTTP_ADAPTER b \<and> tps = OC_HTTP then Some HTTP_STR
      else if HTTP_ADAPTER b \<and> tps = OC_HTTPS then Some HTTPS_STR
      else if EDR_ADAPTER b \<and> tps = OC_COAP_RFCOMM then Some COAP_RFCOMM_STR
      else None)"

text \<open>The pointer to the result is not NULL.\<close>

definition OCConvertTpsToString :: "adapters \<Rightarrow> u32 \<Rightarrow> mem \<Rightarrow> OCStackResult \<times> string option \<times> mem" where
  "OCConvertTpsToString b tps m =
     (case OICStrdup m (ConvertTpsToString b tps) of
        (None, m) \<Rightarrow> (OC_STACK_NO_MEMORY, None, m)
      | (Some s, m) \<Rightarrow> (OC_STACK_OK, Some s, m))"

section \<open>Writing endpoints\<close>

text \<open>\<open>%d\<close> of a port, and \<open>snprintf\<close> into a buffer of \<open>n\<close> characters, which fails when the text does not fit.\<close>

fun show_nat :: "nat \<Rightarrow> string" where
  "show_nat n = (if n < 10 then [digit (int n)] else show_nat (n div 10) @ [digit (int (n mod 10))])"

definition snprintf_fits :: "nat \<Rightarrow> string \<Rightarrow> string option" where
  "snprintf_fits n s = (if length s < n then Some s else None)"

definition ip_tps :: "adapters \<Rightarrow> string \<Rightarrow> bool" where
  "ip_tps b tps \<longleftrightarrow> tps = COAP_STR \<or> tps = COAPS_STR \<or> TCP_ADAPTER b \<and> (tps = COAP_TCP_STR \<or> tps = COAPS_TCP_STR)
     \<or> HTTP_ADAPTER b \<and> (tps = HTTP_STR \<or> tps = HTTPS_STR)"

definition v4_text :: "string \<Rightarrow> string \<Rightarrow> u16 \<Rightarrow> string" where
  "v4_text tps addr port = tps @ ''://'' @ addr @ '':'' @ show_nat (unat port)"

definition v6_text :: "string \<Rightarrow> string \<Rightarrow> u16 \<Rightarrow> string" where
  "v6_text tps addr port = tps @ ''://['' @ addr @ '']:'' @ show_nat (unat port)"

text \<open>A protocol suite or an address that is NULL has no result.\<close>

definition OCCreateEndpointString :: "adapters \<Rightarrow> OCEndpointPayload option \<Rightarrow> mem \<Rightarrow> (string option \<times> mem) option" where
  "OCCreateEndpointString b endpoint m =
     (case endpoint of
        None \<Rightarrow> Some (None, m)
      | Some ep \<Rightarrow>
          (case OICCalloc m (MAX_ADDR_STR_SIZE b) 1 of
             (False, m) \<Rightarrow> Some (None, m)
           | (True, m) \<Rightarrow>
               do {
                 tps \<leftarrow> epl_tps ep;
                 if ip_tps b tps then
                   do {
                     addr \<leftarrow> epl_addr ep;
                     Some (snprintf_fits (MAX_ADDR_STR_SIZE b)
                       (if epl_family ep AND OC_IP_USE_V4 \<noteq> 0 then v4_text tps addr (epl_port ep) else v6_text tps addr (epl_port ep)), m)
                   }
                 else if EDR_ADAPTER b \<and> tps = COAP_RFCOMM_STR then
                   do { addr \<leftarrow> epl_addr ep; Some (snprintf_fits (MAX_ADDR_STR_SIZE b) (tps @ ''://'' @ addr), m) }
                 else Some (None, m)
               }))"

definition OCCreateEndpointStringFromCA :: "adapters \<Rightarrow> CAEndpoint option \<Rightarrow> mem \<Rightarrow> string option \<times> mem" where
  "OCCreateEndpointStringFromCA b endpoint m =
     (case endpoint of
        None \<Rightarrow> (None, m)
      | Some ep \<Rightarrow>
          if ep_addr ep = [] then (None, m)
          else
            (case OCGetMatchedTpsFlags b (ep_adapter ep) (ep_flags ep) (Some 0) of
               (OC_STACK_OK, Some tps) \<Rightarrow>
                 (case OICCalloc m (MAX_ADDR_STR_SIZE b) 1 of
                    (False, m) \<Rightarrow> (None, m)
                  | (True, m) \<Rightarrow>
                      (case ConvertTpsToString b tps of
                         None \<Rightarrow> (None, m)
                       | Some str \<Rightarrow>
                           if tps = OC_COAP_RFCOMM then (snprintf_fits (MAX_ADDR_STR_SIZE b) (str @ ''://'' @ ep_addr ep), m)
                           else if ep_port ep = 0 then (None, m)
                           else
                             (snprintf_fits (MAX_ADDR_STR_SIZE b)
                               (if ep_flags ep AND OC_IP_USE_V4 \<noteq> 0 then v4_text str (ep_addr ep) (ep_port ep)
                                else v6_text str (ep_addr ep) (ep_port ep)), m)))
             | _ \<Rightarrow> (None, m)))"

section \<open>Parsing endpoints\<close>

text \<open>\<open>strstr\<close> and \<open>strrchr\<close>: the position of the first occurrence of a string, of the last of a character.\<close>

fun strstr_at :: "string \<Rightarrow> string \<Rightarrow> nat option" where
  "strstr_at [] needle = (if needle = [] then Some 0 else None)"
| "strstr_at (c # s) needle = (if take (length needle) (c # s) = needle then Some 0 else map_option Suc (strstr_at s needle))"

fun strrchr_at :: "string \<Rightarrow> char \<Rightarrow> nat option" where
  "strrchr_at [] c = None"
| "strrchr_at (x # s) c = (case strrchr_at s c of Some i \<Rightarrow> Some (Suc i) | None \<Rightarrow> if x = c then Some 0 else None)"

definition strtol10 :: "string \<Rightarrow> int" where
  "strtol10 s =
     (let v = (case dropWhile is_space s of
                 [] \<Rightarrow> 0
               | c # cs \<Rightarrow>
                   if c = CHR ''-'' then - digits_value (takeWhile is_digit cs)
                   else if c = CHR ''+'' then digits_value (takeWhile is_digit cs)
                   else digits_value (takeWhile is_digit (c # cs)))
      in max (- (2 ^ 63)) (min (2 ^ 63 - 1) v))"

definition size_diff :: "nat \<Rightarrow> nat \<Rightarrow> nat" where
  "size_diff p q = nat ((int p - int q) mod 2 ^ 64)"

text \<open>The adapter of a protocol suite and whether it is secure; \<^const>\<open>None\<close> when it is not enabled.\<close>

definition tps_adapter :: "adapters \<Rightarrow> string \<Rightarrow> (u32 \<times> bool) option" where
  "tps_adapter b tps =
     (if tps = COAP_STR then Some (OC_ADAPTER_IP, False)
      else if tps = COAPS_STR then Some (OC_ADAPTER_IP, True)
      else if TCP_ADAPTER b \<and> tps = COAP_TCP_STR then Some (OC_ADAPTER_TCP, False)
      else if TCP_ADAPTER b \<and> tps = COAPS_TCP_STR then Some (OC_ADAPTER_TCP, True)
      else if EDR_ADAPTER b \<and> tps = COAP_RFCOMM_STR then Some (OC_ADAPTER_RFCOMM_BTEDR, False)
      else None)"

text \<open>An address with a port. The family of the result is written before the address is known to be right.\<close>

definition parse_ip :: "string \<Rightarrow> nat \<Rightarrow> string \<Rightarrow> bool \<Rightarrow> OCEndpointPayload \<Rightarrow> OCStackResult \<times> OCEndpointPayload" where
  "parse_ip origin tokPos tps isSecure out =
     (let v6 = strchr origin OC_ENDPOINT_BRACKET_START \<noteq> None;
          family = (if v6 then OC_IP_USE_V6 else OC_IP_USE_V4);
          start = (if v6 then tokPos + 4 else tokPos + 3)
      in
      case strrchr_at origin (if v6 then OC_ENDPOINT_BRACKET_END else OC_ENDPOINT_ADDR_TOKEN) of
        None \<Rightarrow> (OC_STACK_ERROR, out\<lparr>epl_family := family\<rparr>)
      | Some tmp \<Rightarrow>
          let out = out\<lparr>epl_family := (if isSecure then family OR OC_FLAG_SECURE else family)\<rparr>;
              n = size_diff tmp start
          in
          if n < 1 \<or> OC_MAX_ADDR_STR_SIZE \<le> n then (OC_STACK_ERROR, out)
          else
            (case strrchr_at origin OC_ENDPOINT_ADDR_TOKEN of
               None \<Rightarrow> (OC_STACK_ERROR, out)
             | Some colon \<Rightarrow>
                 let port = strtol10 (drop (Suc colon) origin) in
                 if port < 1 \<or> port > 65535 then (OC_STACK_ERROR, out)
                 else (OC_STACK_OK, out\<lparr>epl_tps := Some tps, epl_addr := Some (take n (drop start origin)), epl_port := of_int port\<rparr>)))"

definition parse_origin :: "adapters \<Rightarrow> string \<Rightarrow> OCEndpointPayload \<Rightarrow> OCStackResult \<times> OCEndpointPayload" where
  "parse_origin b origin out =
     (case strstr_at origin OC_ENDPOINT_TPS_TOKEN of
        None \<Rightarrow> (OC_STACK_ERROR, out)
      | Some tokPos \<Rightarrow>
          if tokPos < 1 \<or> OC_MAX_TPS_STR_SIZE \<le> tokPos then (OC_STACK_ERROR, out)
          else
            let tps = take tokPos origin in
            (case tps_adapter b tps of
               None \<Rightarrow> (OC_STACK_ADAPTER_NOT_ENABLED, out)
             | Some (adapter, isSecure) \<Rightarrow>
                 if adapter = OC_ADAPTER_RFCOMM_BTEDR then
                   (case OICStrcpy (Some (Some [])) OC_MAX_ADDR_STR_SIZE (Some (drop (tokPos + 3) origin)) of
                      (True, Some addr) \<Rightarrow> (OC_STACK_OK, out\<lparr>epl_tps := Some tps, epl_addr := addr, epl_family := 0, epl_port := 0\<rparr>)
                    | _ \<Rightarrow> (OC_STACK_ERROR, out))
                 else parse_ip origin tokPos tps isSecure out))"

definition OCParseEndpointString ::
  "adapters \<Rightarrow> string option \<Rightarrow> OCEndpointPayload option \<Rightarrow> mem \<Rightarrow> OCStackResult \<times> OCEndpointPayload option \<times> mem" where
  "OCParseEndpointString b endpointStr out m =
     (case (endpointStr, out) of
        (Some str, Some o1) \<Rightarrow>
          (case OICCalloc m OC_MAX_TPS_STR_SIZE 1 of
             (False, m) \<Rightarrow> (OC_STACK_ERROR, out, m)
           | (True, m) \<Rightarrow>
               (case OICCalloc m OC_MAX_ADDR_STR_SIZE 1 of
                  (False, m) \<Rightarrow> (OC_STACK_ERROR, out, m)
                | (True, m) \<Rightarrow>
                    (case OICStrdup m (Some str) of
                       (None, m) \<Rightarrow> (OC_STACK_ERROR, out, m)
                     | (Some origin, m) \<Rightarrow> (case parse_origin b origin o1 of (r, o2) \<Rightarrow> (r, Some o2, m)))))
      | _ \<Rightarrow> (OC_STACK_INVALID_PARAM, out, m))"


section \<open>Numbers in texts\<close>

declare show_nat.simps [simp del]

lemma digit_chars: "n < 10 \<Longrightarrow> is_digit (digit (int n)) \<and> (of_char (digit (int n)) :: int) = 48 + int n"
  using digit_nat [of "int n"] of_char_digit [of "int n"] by (simp add: is_digit_def)

lemma digits_value_snoc: "digits_value (xs @ [c]) = 10 * digits_value xs + (of_char c - 48)"
  by (simp add: digits_value_def)

lemma show_nat_value: "digits_value (show_nat n) = int n \<and> list_all is_digit (show_nat n) \<and> show_nat n \<noteq> []"
proof (induction n rule: show_nat.induct)
  case (1 n)
  show ?case
  proof (cases "n < 10")
    case True
    then show ?thesis using digit_chars [of n] by (simp add: show_nat.simps [of n] digits_value_def)
  next
    case False
    then have *: "show_nat n = show_nat (n div 10) @ [digit (int (n mod 10))]" by (simp add: show_nat.simps [of n])
    have d: "n mod 10 < 10" by simp
    have "int n = int (10 * (n div 10) + n mod 10)" by simp
    then have n: "10 * int (n div 10) + int (n mod 10) = int n" by (simp only: of_nat_add of_nat_mult of_nat_numeral)
    show ?thesis
      unfolding * digits_value_snoc using 1 [OF False] digit_chars [OF d] n by simp
  qed
qed

lemma digit_not_token: "is_digit c \<Longrightarrow> c \<noteq> CHR '':'' \<and> c \<noteq> CHR '']'' \<and> c \<noteq> CHR ''['' \<and> c \<noteq> CHR ''-'' \<and> c \<noteq> CHR ''+'' \<and> \<not> is_space c"
  by (auto simp: is_digit_def is_space_def)

lemma strtol10_show:
  assumes "n < 2 ^ 63"
  shows "strtol10 (show_nat n) = int n"
proof -
  have v: "digits_value (show_nat n) = int n" "list_all is_digit (show_nat n)" "show_nat n \<noteq> []"
    using show_nat_value by auto
  then obtain c cs where c: "show_nat n = c # cs" "is_digit c" by (cases "show_nat n") auto
  have t: "takeWhile is_digit (show_nat n) = show_nat n" using v(2) by (simp add: takeWhile_eq_all_conv list_all_iff)
  have "dropWhile is_space (show_nat n) = c # cs" using c digit_not_token [of c] by simp
  then show ?thesis using digit_not_token [OF c(2)] t v(1) assms unfolding strtol10_def Let_def c(1) by simp
qed

lemma show_nat_plain: "CHR '':'' \<notin> set (show_nat n)" "CHR '']'' \<notin> set (show_nat n)" "CHR ''['' \<notin> set (show_nat n)"
  using show_nat_value [of n] digit_not_token by (auto simp: list_all_iff)

section \<open>Searching\<close>

lemma strstr_at_token: "CHR '':'' \<notin> set tps \<Longrightarrow> strstr_at (tps @ ''://'' @ rest) OC_ENDPOINT_TPS_TOKEN = Some (length tps)"
  by (induction tps) (auto simp: OC_ENDPOINT_TPS_TOKEN_def)

lemma strstr_at_Some: "strstr_at s needle = Some i \<Longrightarrow> \<exists>rest. s = take i s @ needle @ rest \<and> i \<le> length s"
proof (induction s needle arbitrary: i rule: strstr_at.induct)
  case (2 c s needle)
  show ?case
  proof (cases "take (length needle) (c # s) = needle")
    case True
    then have "i = 0" using 2(2) by simp
    then show ?thesis using True append_take_drop_id [of "length needle" "c # s"] by (metis append_Nil le0 take0)
  next
    case False
    then obtain j where j: "strstr_at s needle = Some j" "i = Suc j" using 2(2) by auto
    then show ?thesis using 2(1) [OF False j(1)] by auto
  qed
qed (auto split: if_splits)

lemma strrchr_at_None: "strrchr_at s c = None \<longleftrightarrow> c \<notin> set s"
  by (induction s) (auto split: option.splits)

lemma strrchr_at_last: "c \<notin> set ys \<Longrightarrow> strrchr_at (xs @ c # ys) c = Some (length xs)"
  by (induction xs) (auto simp: strrchr_at_None split: option.splits)

lemma strrchr_at_bound: "strrchr_at s c = Some i \<Longrightarrow> i < length s"
  by (induction s arbitrary: i) (auto split: option.splits if_splits)

lemma size_diff_le: "q \<le> p \<Longrightarrow> p < 2 ^ 64 \<Longrightarrow> size_diff p q = p - q"
  unfolding size_diff_def by (simp add: nat_diff_distrib)

lemma size_diff_small:
  assumes "size_diff p q < OC_MAX_ADDR_STR_SIZE" "p < 2 ^ 63" "q < 2 ^ 63" "1 \<le> size_diff p q"
  shows "q < p \<and> size_diff p q = p - q"
proof (cases "q \<le> p")
  case True
  then show ?thesis using size_diff_le [of q p] assms by simp
next
  case False
  have "(int p - int q) mod 2 ^ 64 = (int p - int q + 2 ^ 64) mod 2 ^ 64" by simp
  also have "\<dots> = int p - int q + 2 ^ 64" using assms False by (intro mod_pos_pos_trivial) auto
  finally show ?thesis using assms False by (simp add: size_diff_def OC_MAX_ADDR_STR_SIZE_def)
qed


lemma show_nat_length: "n < 10 ^ Suc k \<Longrightarrow> length (show_nat n) \<le> Suc k"
proof (induction k arbitrary: n)
  case 0
  then show ?case by (simp add: show_nat.simps [of n])
next
  case (Suc k)
  then have "n div 10 < 10 ^ Suc k" by (simp add: less_mult_imp_div_less mult.commute)
  then show ?case using Suc.IH [of "n div 10"] by (simp add: show_nat.simps [of n])
qed

lemma port_bound: "unat (p :: u16) \<le> 65535"
  using unsigned_less [of p, where ?'a = nat] by simp

lemma port_length: "length (show_nat (unat (p :: u16))) \<le> 5"
  using show_nat_length [of "unat p" 4] port_bound [of p] by simp

lemma port_at: "n = length pre \<Longrightarrow> strtol10 (drop n (pre @ show_nat (unat (p :: u16)))) = int (unat p)"
  using strtol10_show [of "unat p"] port_bound [of p] by simp

section \<open>Round trip\<close>

lemma tps_adapter_cases:
  assumes "tps_adapter b tps = Some (a, sec)"
  shows "CHR '':'' \<notin> set tps" "CHR ''['' \<notin> set tps" "CHR '']'' \<notin> set tps" "1 \<le> length tps" "length tps < OC_MAX_TPS_STR_SIZE"
    "a = OC_ADAPTER_RFCOMM_BTEDR \<Longrightarrow> tps = COAP_RFCOMM_STR \<and> EDR_ADAPTER b \<and> \<not> ip_tps b tps"
    "a \<noteq> OC_ADAPTER_RFCOMM_BTEDR \<Longrightarrow> ip_tps b tps \<and> length tps \<le> 9"
  using assms by (auto simp: tps_adapter_def tps_str_defs OC_MAX_TPS_STR_SIZE_def ip_tps_def adapter_defs split: if_splits)

definition endpoint_ok :: "adapters \<Rightarrow> OCEndpointPayload \<Rightarrow> bool" where
  "endpoint_ok b ep =
     (case (epl_tps ep, epl_addr ep) of
        (Some tps, Some addr) \<Rightarrow>
          length addr < OC_MAX_ADDR_STR_SIZE
          \<and> (case tps_adapter b tps of
                None \<Rightarrow> False
              | Some (a, _) \<Rightarrow>
                  a = OC_ADAPTER_RFCOMM_BTEDR
                  \<or> addr \<noteq> [] \<and> epl_port ep \<noteq> 0 \<and> (epl_family ep AND OC_IP_USE_V4 \<noteq> 0 \<longrightarrow> OC_ENDPOINT_BRACKET_START \<notin> set addr))
      | _ \<Rightarrow> False)"

definition secure_tps :: "string \<Rightarrow> bool" where
  "secure_tps tps \<longleftrightarrow> tps = COAPS_STR \<or> tps = COAPS_TCP_STR"

definition parsed_family :: "OCEndpointPayload \<Rightarrow> u32" where
  "parsed_family ep =
     (if epl_tps ep = Some COAP_RFCOMM_STR then 0
      else (if epl_family ep AND OC_IP_USE_V4 \<noteq> 0 then OC_IP_USE_V4 else OC_IP_USE_V6)
        OR (if epl_tps ep \<noteq> None \<and> secure_tps (the (epl_tps ep)) then OC_FLAG_SECURE else 0))"

lemma tps_adapter_secure: "tps_adapter b tps = Some (a, sec) \<Longrightarrow> sec = secure_tps tps"
  by (auto simp: tps_adapter_def secure_tps_def tps_str_defs split: if_splits)

lemma parse_ip_OK:
  assumes "v6 = (strchr origin OC_ENDPOINT_BRACKET_START \<noteq> None)"
    and "strrchr_at origin (if v6 then OC_ENDPOINT_BRACKET_END else OC_ENDPOINT_ADDR_TOKEN) = Some tmp"
    and "size_diff tmp (tokPos + (if v6 then 4 else 3)) = length addr" "addr \<noteq> []" "length addr < OC_MAX_ADDR_STR_SIZE"
    and "take (length addr) (drop (tokPos + (if v6 then 4 else 3)) origin) = addr"
    and "strrchr_at origin OC_ENDPOINT_ADDR_TOKEN = Some colon" "strtol10 (drop (Suc colon) origin) = int (unat port)" "port \<noteq> 0"
  shows "parse_ip origin tokPos tps sec out
    = (OC_STACK_OK, out\<lparr>epl_tps := Some tps, epl_addr := Some addr, epl_port := port,
         epl_family := (if v6 then OC_IP_USE_V6 else OC_IP_USE_V4) OR (if sec then OC_FLAG_SECURE else 0)\<rparr>)"
proof -
  have "1 \<le> unat port" "unat port \<le> 65535" using assms(9) port_bound [of port] by (simp_all add: unat_gt_0 Suc_le_eq)
  then have "1 \<le> int (unat port)" "int (unat port) \<le> 65535" by linarith+
  then have u: "\<not> uint port < 1" "\<not> 65535 < uint port" by simp_all
  have "length addr \<noteq> 0" using assms(4) by simp
  then show ?thesis using assms(2,3,5-8) u
    unfolding parse_ip_def Let_def assms(1) [symmetric]
    by (cases v6; cases sec) simp_all
qed

lemma parse_v4:
  assumes t: "tps_adapter b tps = Some (a, sec)" and addr: "addr \<noteq> []" "length addr < OC_MAX_ADDR_STR_SIZE" "CHR ''['' \<notin> set addr"
    and port: "port \<noteq> 0"
  shows "parse_ip (v4_text tps addr port) (length tps) tps sec out
    = (OC_STACK_OK, out\<lparr>epl_tps := Some tps, epl_addr := Some addr, epl_port := port,
         epl_family := OC_IP_USE_V4 OR (if sec then OC_FLAG_SECURE else 0)\<rparr>)"
proof -
  let ?s = "v4_text tps addr port"
  have b: "strchr ?s OC_ENDPOINT_BRACKET_START = None"
    using tps_adapter_cases [OF t] addr(3) show_nat_plain by (auto simp: strchr_None v4_text_def OC_ENDPOINT_BRACKET_START_def)
  have c: "strrchr_at ?s OC_ENDPOINT_ADDR_TOKEN = Some (length tps + 3 + length addr)"
    using strrchr_at_last [of "CHR '':''" "show_nat (unat port)" "tps @ ''://'' @ addr"] show_nat_plain
    by (simp add: v4_text_def OC_ENDPOINT_ADDR_TOKEN_def)
  have n: "size_diff (length tps + 3 + length addr) (length tps + 3) = length addr"
    using size_diff_le [of "length tps + 3" "length tps + 3 + length addr"] tps_adapter_cases(5) [OF t] addr(2)
    by (simp add: OC_MAX_TPS_STR_SIZE_def OC_MAX_ADDR_STR_SIZE_def)
  have p: "strtol10 (drop (Suc (length tps + 3 + length addr)) ?s) = int (unat port)"
    using port_at [of "Suc (length tps + 3 + length addr)" "tps @ ''://'' @ addr @ '':''" port] by (simp add: v4_text_def)
  have d: "take (length addr) (drop (length tps + 3) ?s) = addr" by (simp add: v4_text_def)
  show ?thesis using parse_ip_OK [of False ?s _ "length tps" addr _ port tps sec out] b c n p d addr(1,2) port by simp
qed

lemma parse_v6:
  assumes t: "tps_adapter b tps = Some (a, sec)" and addr: "addr \<noteq> []" "length addr < OC_MAX_ADDR_STR_SIZE"
    and port: "port \<noteq> 0"
  shows "parse_ip (v6_text tps addr port) (length tps) tps sec out
    = (OC_STACK_OK, out\<lparr>epl_tps := Some tps, epl_addr := Some addr, epl_port := port,
         epl_family := OC_IP_USE_V6 OR (if sec then OC_FLAG_SECURE else 0)\<rparr>)"
proof -
  let ?s = "v6_text tps addr port"
  have b: "strchr ?s OC_ENDPOINT_BRACKET_START \<noteq> None"
    by (auto simp: strchr_None v6_text_def OC_ENDPOINT_BRACKET_START_def)
  have e: "strrchr_at ?s OC_ENDPOINT_BRACKET_END = Some (length tps + 4 + length addr)"
    using strrchr_at_last [of "CHR '']''" "'':'' @ show_nat (unat port)" "tps @ ''://['' @ addr"] show_nat_plain
    by (simp add: v6_text_def OC_ENDPOINT_BRACKET_END_def)
  have c: "strrchr_at ?s OC_ENDPOINT_ADDR_TOKEN = Some (length tps + 5 + length addr)"
    using strrchr_at_last [of "CHR '':''" "show_nat (unat port)" "tps @ ''://['' @ addr @ '']''"] show_nat_plain
    by (simp add: v6_text_def OC_ENDPOINT_ADDR_TOKEN_def)
  have n: "size_diff (length tps + 4 + length addr) (length tps + 4) = length addr"
    using size_diff_le [of "length tps + 4" "length tps + 4 + length addr"] tps_adapter_cases(5) [OF t] addr(2)
    by (simp add: OC_MAX_TPS_STR_SIZE_def OC_MAX_ADDR_STR_SIZE_def)
  have p: "strtol10 (drop (Suc (length tps + 5 + length addr)) ?s) = int (unat port)"
    using port_at [of "Suc (length tps + 5 + length addr)" "tps @ ''://['' @ addr @ '']:''" port] by (simp add: v6_text_def)
  have d: "take (length addr) (drop (length tps + 4) ?s) = addr" by (simp add: v6_text_def)
  show ?thesis using parse_ip_OK [of True ?s _ "length tps" addr "length tps + 5 + length addr" port tps sec out] b c e n p d addr(1,2) port
    by simp
qed


lemma calloc_nil: "0 < n \<Longrightarrow> n \<le> 256 \<Longrightarrow> OICCalloc [] n 1 = (True, [])"
  by (simp add: OICCalloc_def max_object_def)

lemma strdup_nil: "length s < max_object \<Longrightarrow> OICStrdup [] (Some s) = (Some s, [])"
  by (simp add: OICStrdup_def OICMalloc_def)

lemma parse_plenty:
  "length s < max_object \<Longrightarrow> OCParseEndpointString b (Some s) (Some out) [] = (case parse_origin b s out of (r, o2) \<Rightarrow> (r, Some o2, []))"
  by (simp add: OCParseEndpointString_def calloc_nil [simplified] strdup_nil OC_MAX_TPS_STR_SIZE_def OC_MAX_ADDR_STR_SIZE_def)

lemma write_parse:
  assumes "endpoint_ok b ep"
  shows "\<exists>s. OCCreateEndpointString b (Some ep) [] = Some (Some s, [])
    \<and> OCParseEndpointString b (Some s) (Some out) []
        = (OC_STACK_OK, Some (out\<lparr>epl_tps := epl_tps ep, epl_addr := epl_addr ep, epl_family := parsed_family ep,
             epl_port := (if epl_tps ep = Some COAP_RFCOMM_STR then 0 else epl_port ep)\<rparr>), [])"
proof -
  obtain tps addr a sec where t: "epl_tps ep = Some tps" "epl_addr ep = Some addr" "tps_adapter b tps = Some (a, sec)"
      and l: "length addr < OC_MAX_ADDR_STR_SIZE"
      and ok: "a = OC_ADAPTER_RFCOMM_BTEDR \<or> addr \<noteq> [] \<and> epl_port ep \<noteq> 0
        \<and> (epl_family ep AND OC_IP_USE_V4 \<noteq> 0 \<longrightarrow> CHR ''['' \<notin> set addr)"
    using assms by (auto simp: endpoint_ok_def OC_ENDPOINT_BRACKET_START_def split: option.splits)
  note c = tps_adapter_cases [OF t(3)]
  have mem: "OICCalloc [] (MAX_ADDR_STR_SIZE b) 1 = (True, [])" by (simp add: MAX_ADDR_STR_SIZE_def calloc_nil [simplified])
  have room: "length s < 66 \<Longrightarrow> snprintf_fits (MAX_ADDR_STR_SIZE b) s = Some s" for s
    by (simp add: snprintf_fits_def MAX_ADDR_STR_SIZE_def)
  show ?thesis
  proof (cases "a = OC_ADAPTER_RFCOMM_BTEDR")
    case True
    let ?s = "tps @ ''://'' @ addr"
    have r: "tps = COAP_RFCOMM_STR" "EDR_ADAPTER b" "\<not> ip_tps b tps" using c(6) [OF True] by auto
    have len: "length ?s < 66" using l r(1) by (simp add: COAP_RFCOMM_STR_def OC_MAX_ADDR_STR_SIZE_def)
    have "OCCreateEndpointString b (Some ep) [] = Some (Some ?s, [])"
      using t mem r room [OF len] by (simp add: OCCreateEndpointString_def)
    moreover have "parse_origin b ?s out = (OC_STACK_OK, out\<lparr>epl_tps := Some tps, epl_addr := Some addr, epl_family := 0, epl_port := 0\<rparr>)"
      using strstr_at_token [OF c(1), of addr] c(4,5) t(3) True l
      by (auto simp: parse_origin_def OICStrcpy_def OICStrcpyPartial_def OC_MAX_ADDR_STR_SIZE_def)
    ultimately show ?thesis using len t r(1) parse_plenty [of ?s b out] by (simp add: max_object_def parsed_family_def)
  next
    case False
    then have o: "addr \<noteq> []" "epl_port ep \<noteq> 0" "epl_family ep AND OC_IP_USE_V4 \<noteq> 0 \<longrightarrow> CHR ''['' \<notin> set addr" and i: "ip_tps b tps" "length tps \<le> 9"
      using ok c(7) by auto
    have nr: "tps \<noteq> COAP_RFCOMM_STR" using i(2) by (auto simp: COAP_RFCOMM_STR_def)
    let ?v4 = "epl_family ep AND OC_IP_USE_V4 \<noteq> 0"
    let ?s = "if ?v4 then v4_text tps addr (epl_port ep) else v6_text tps addr (epl_port ep)"
    have len: "length ?s < 66" using l i(2) port_length [of "epl_port ep"] by (simp add: v4_text_def v6_text_def OC_MAX_ADDR_STR_SIZE_def)
    have cr: "OCCreateEndpointString b (Some ep) [] = Some (Some ?s, [])"
      using t mem i(1) room [OF len] by (simp add: OCCreateEndpointString_def)
    have tok: "strstr_at ?s OC_ENDPOINT_TPS_TOKEN = Some (length tps)" "take (length tps) ?s = tps"
      using strstr_at_token [OF c(1)] by (auto simp: v4_text_def v6_text_def)
    have "parse_origin b ?s out = parse_ip ?s (length tps) tps sec out"
      using tok c(4,5) t(3) False unfolding parse_origin_def by (cases "tps = []") simp_all
    also have "\<dots> = (OC_STACK_OK, out\<lparr>epl_tps := Some tps, epl_addr := Some addr, epl_port := epl_port ep,
        epl_family := (if ?v4 then OC_IP_USE_V4 else OC_IP_USE_V6) OR (if sec then OC_FLAG_SECURE else 0)\<rparr>)"
      using parse_v4 [OF t(3) o(1) l _ o(2), of out] parse_v6 [OF t(3) o(1) l o(2), of out] o(3) by (cases ?v4) simp_all
    finally show ?thesis
      using cr parse_plenty [of ?s b out] len t nr tps_adapter_secure [OF t(3)]
      by (intro exI [of _ ?s]) (simp add: parsed_family_def max_object_def)
  qed
qed

text \<open>
  C36: writing an endpoint and parsing the text gives back its protocol suite, address and port; of the
  family remain the IP version and whether the suite is secure. Every address of at most 45
  characters has room in the text.
\<close>

theorem endpoint_roundtrip:
  assumes "endpoint_ok b ep"
  shows "\<exists>s. OCCreateEndpointString b (Some ep) [] = Some (Some s, [])
    \<and> OCParseEndpointString b (Some s) (Some out) []
        = (OC_STACK_OK, Some (out\<lparr>epl_tps := epl_tps ep, epl_addr := epl_addr ep, epl_family := parsed_family ep,
             epl_port := (if epl_tps ep = Some COAP_RFCOMM_STR then 0 else epl_port ep)\<rparr>), [])"
  using assms by (rule write_parse)

definition all_adapters :: adapters where
  "all_adapters = \<lparr>TCP_ADAPTER = True, HTTP_ADAPTER = False, EDR_ADAPTER = True, LE_ADAPTER = True, NFC_ADAPTER = False, RA_ADAPTER = False\<rparr>"

definition sample_ep :: OCEndpointPayload where
  "sample_ep = \<lparr>epl_tps = Some COAPS_TCP_STR, epl_addr = Some ''fe80::1'', epl_family = OC_IP_USE_V6, epl_port = 5684, epl_pri = 1\<rparr>"

theorem endpoint_roundtrip_witness:
  "\<exists>s. OCCreateEndpointString all_adapters (Some sample_ep) [] = Some (Some s, [])
    \<and> OCParseEndpointString all_adapters (Some s) (Some sample_ep) []
        = (OC_STACK_OK, Some (sample_ep\<lparr>epl_family := OC_IP_USE_V6 OR OC_FLAG_SECURE\<rparr>), [])"
  using endpoint_roundtrip [of all_adapters sample_ep sample_ep]
  by (simp add: endpoint_ok_def sample_ep_def all_adapters_def tps_adapter_def tps_str_defs OC_MAX_ADDR_STR_SIZE_def adapter_defs
      OC_ENDPOINT_BRACKET_START_def parsed_family_def secure_tps_def OC_IP_USE_V4_def OC_IP_USE_V6_def OC_FLAG_SECURE_def)


section \<open>What is accepted\<close>

text \<open>
  What a parsed endpoint says about the text: it starts with an enabled protocol suite, the address stands in the
  text after it, and the flag for security is that of the suite.
\<close>

definition parsed_from :: "adapters \<Rightarrow> string \<Rightarrow> OCEndpointPayload \<Rightarrow> bool" where
  "parsed_from b s ep \<longleftrightarrow>
     (\<exists>tps addr a pre post. epl_tps ep = Some tps \<and> epl_addr ep = Some addr \<and> tps_adapter b tps = Some (a, secure_tps tps)
        \<and> s = tps @ ''://'' @ pre @ addr @ post \<and> length pre \<le> 1 \<and> length addr < OC_MAX_ADDR_STR_SIZE
        \<and> (if a = OC_ADAPTER_RFCOMM_BTEDR then pre = [] \<and> epl_family ep = 0 \<and> epl_port ep = 0
           else addr \<noteq> [] \<and> epl_port ep \<noteq> 0 \<and> (epl_family ep AND OC_FLAG_SECURE \<noteq> 0 \<longleftrightarrow> secure_tps tps)))"

definition same_but_family :: "OCEndpointPayload \<Rightarrow> OCEndpointPayload \<Rightarrow> bool" where
  "same_but_family out o2 \<longleftrightarrow> o2 = out\<lparr>epl_family := epl_family o2\<rparr>"

lemma family_secure: "((if v6 then OC_IP_USE_V6 else OC_IP_USE_V4) OR (if sec then OC_FLAG_SECURE else 0)) AND OC_FLAG_SECURE \<noteq> 0 \<longleftrightarrow> sec"
  by (simp add: OC_IP_USE_V4_def OC_IP_USE_V6_def OC_FLAG_SECURE_def)

lemma port_nonzero: "1 \<le> port \<Longrightarrow> port \<le> 65535 \<Longrightarrow> (of_int port :: u16) \<noteq> 0"
  by (simp add: word_of_int_eq_0_iff zdvd_not_zless)

lemma strdup_same: "OICStrdup m (Some s) = (Some t, m') \<Longrightarrow> t = s"
  by (auto simp: OICStrdup_def split: prod.splits bool.splits)

lemma parse_ip_sound:
  assumes t: "tps_adapter b tps = Some (a, sec)" "a \<noteq> OC_ADAPTER_RFCOMM_BTEDR"
    and s: "origin = tps @ ''://'' @ rest" "length origin < 2 ^ 62"
    and r: "parse_ip origin (length tps) tps sec out = (r, o2)"
  shows "(r = OC_STACK_ERROR \<and> same_but_family out o2) \<or> (r = OC_STACK_OK \<and> parsed_from b origin o2 \<and> epl_pri o2 = epl_pri out)"
proof -
  define v6 where "v6 = (strchr origin OC_ENDPOINT_BRACKET_START \<noteq> None)"
  define start where "start = (if v6 then length tps + 4 else length tps + 3)"
  define family where "family = (if v6 then OC_IP_USE_V6 else OC_IP_USE_V4)"
  define out1 where "out1 = out\<lparr>epl_family := family OR (if sec then OC_FLAG_SECURE else 0)\<rparr>"
  have same: "same_but_family out (out\<lparr>epl_family := f\<rparr>)" for f by (simp add: same_but_family_def)
  show ?thesis
  proof (cases "strrchr_at origin (if v6 then OC_ENDPOINT_BRACKET_END else OC_ENDPOINT_ADDR_TOKEN)")
    case None
    then show ?thesis using r same unfolding parse_ip_def Let_def v6_def [symmetric] by auto
  next
    case (Some tmp)
    let ?n = "size_diff tmp start"
    have o1: "out\<lparr>epl_family := (if sec then family OR OC_FLAG_SECURE else family)\<rparr> = out1" by (simp add: out1_def)
    have parse: "(r, o2) =
        (if ?n < 1 \<or> OC_MAX_ADDR_STR_SIZE \<le> ?n then (OC_STACK_ERROR, out1)
         else (case strrchr_at origin OC_ENDPOINT_ADDR_TOKEN of
                 None \<Rightarrow> (OC_STACK_ERROR, out1)
               | Some colon \<Rightarrow>
                   let port = strtol10 (drop (Suc colon) origin) in
                   if port < 1 \<or> port > 65535 then (OC_STACK_ERROR, out1)
                   else (OC_STACK_OK, out1\<lparr>epl_tps := Some tps, epl_addr := Some (take ?n (drop start origin)), epl_port := of_int port\<rparr>)))"
      unfolding r [symmetric] parse_ip_def Let_def v6_def [symmetric] family_def [symmetric] start_def [symmetric] Some option.case o1
      by (rule refl)
    have err: "same_but_family out out1" unfolding out1_def by (rule same)
    show ?thesis
    proof (cases "r = OC_STACK_OK")
      case False
      then show ?thesis using parse err by (auto simp: Let_def split: if_splits option.splits)
    next
      case True
      then obtain port where n: "1 \<le> ?n" "?n < OC_MAX_ADDR_STR_SIZE" and port: "1 \<le> port" "port \<le> 65535"
        and o2: "o2 = out1\<lparr>epl_tps := Some tps, epl_addr := Some (take ?n (drop start origin)), epl_port := of_int port\<rparr>"
        using parse by (auto simp: Let_def not_less not_le split: if_splits option.splits)
      have tmp: "tmp < length origin" using strrchr_at_bound [OF Some] .
      have d: "start < tmp" "?n = tmp - start"
        using size_diff_small [OF n(2) _ _ n(1)] tmp s tps_adapter_cases(5) [OF t(1)]
        by (auto simp: start_def OC_MAX_TPS_STR_SIZE_def)
      define e where "e = (if v6 then 1 else 0 :: nat)"
      have drop: "drop start origin = drop e rest" unfolding s(1) start_def e_def by simp
      have whole: "origin = tps @ ''://'' @ take e rest @ take ?n (drop e rest) @ drop ?n (drop e rest)"
        unfolding s(1) by (simp del: drop_drop)
      have ne: "take ?n (drop e rest) \<noteq> []" using n(1) d tmp drop [symmetric] by auto
      have p: "(of_int port :: u16) \<noteq> 0" using port by (rule port_nonzero)
      have "epl_tps o2 = Some tps" "epl_addr o2 = Some (take ?n (drop e rest))" "epl_port o2 = of_int port" "epl_pri o2 = epl_pri out"
        "epl_family o2 = family OR (if sec then OC_FLAG_SECURE else 0)"
        unfolding o2 out1_def drop by simp_all
      moreover have "length (take e rest) \<le> 1" "length (take ?n (drop e rest)) < OC_MAX_ADDR_STR_SIZE" using n by (simp_all add: e_def)
      moreover have "(family OR (if sec then OC_FLAG_SECURE else 0)) AND OC_FLAG_SECURE \<noteq> 0 \<longleftrightarrow> sec"
        unfolding family_def by (rule family_secure)
      ultimately show ?thesis
        using True whole ne p t tps_adapter_secure [OF t(1)] unfolding parsed_from_def by auto
    qed
  qed
qed

text \<open>
  C37: parsing an endpoint never fails to return; what it accepts has an enabled protocol suite, an address of
  at most 45 characters that stands in the text, a port that is not zero unless the suite has none, and the flag for security
  exactly when the suite is secure; what it refuses changes at most the family of the result.
\<close>

theorem endpoint_parse_sound:
  assumes "length s < 2 ^ 62"
  shows "\<exists>r o2 m'. OCParseEndpointString b (Some s) (Some out) m = (r, Some o2, m')
    \<and> (r = OC_STACK_OK \<and> parsed_from b s o2 \<and> epl_pri o2 = epl_pri out
       \<or> r \<in> {OC_STACK_ERROR, OC_STACK_ADAPTER_NOT_ENABLED} \<and> same_but_family out o2)"
proof -
  have same: "same_but_family out out" by (simp add: same_but_family_def)
  obtain r o2 where r: "parse_origin b s out = (r, o2)" by fastforce
  have "r = OC_STACK_OK \<and> parsed_from b s o2 \<and> epl_pri o2 = epl_pri out
      \<or> r \<in> {OC_STACK_ERROR, OC_STACK_ADAPTER_NOT_ENABLED} \<and> same_but_family out o2"
  proof (cases "strstr_at s OC_ENDPOINT_TPS_TOKEN")
    case None
    then show ?thesis using r same by (simp add: parse_origin_def)
  next
    case (Some i)
    obtain rest where s: "s = take i s @ ''://'' @ rest" "i \<le> length s"
      using strstr_at_Some [OF Some] by (auto simp: OC_ENDPOINT_TPS_TOKEN_def)
    show ?thesis
    proof (cases "i < 1 \<or> OC_MAX_TPS_STR_SIZE \<le> i \<or> tps_adapter b (take i s) = None")
      case True
      then show ?thesis using r Some same by (auto simp: parse_origin_def Let_def split: if_splits)
    next
      case False
      then obtain a sec where t: "tps_adapter b (take i s) = Some (a, sec)" by auto
      have l: "length (take i s) = i" using s(2) by simp
      show ?thesis
      proof (cases "a = OC_ADAPTER_RFCOMM_BTEDR")
        case True
        have "drop (i + 3) s = drop 3 (''://'' @ rest)" using s l by (metis append_eq_conv_conj drop_drop add.commute)
        then have "drop (i + 3) s = rest" by simp
        then have o2: "r = OC_STACK_OK" "o2 = out\<lparr>epl_tps := Some (take i s), epl_addr := Some (take 45 rest), epl_family := 0, epl_port := 0\<rparr>"
          using r Some False t True by (auto simp: parse_origin_def OICStrcpy_def OICStrcpyPartial_def OC_MAX_ADDR_STR_SIZE_def)
        define tps where "tps = take i s"
        have w: "s = tps @ ''://'' @ [] @ take 45 rest @ drop 45 rest" using s(1) unfolding tps_def by simp
        have "parsed_from b s o2"
          unfolding parsed_from_def
          by (rule exI [of _ tps], rule exI [of _ "take 45 rest"], rule exI [of _ a], rule exI [of _ "[]"], rule exI [of _ "drop 45 rest"])
            (use w o2(2) [folded tps_def] t [folded tps_def] True tps_adapter_secure [OF t, folded tps_def] in \<open>auto simp: OC_MAX_ADDR_STR_SIZE_def\<close>)
        then show ?thesis using o2 by simp
      next
        case n: False
        have "parse_ip s (length (take i s)) (take i s) sec out = (r, o2)"
          using r Some False t n l by (simp add: parse_origin_def)
        then show ?thesis using parse_ip_sound [OF t n s(1) assms] by blast
      qed
    qed
  qed
  then show ?thesis
    using r same by (auto simp: OCParseEndpointString_def split: prod.splits bool.splits option.splits dest: strdup_same)
qed


theorem endpoint_parse_sound_witness:
  "\<exists>r o2 m'. OCParseEndpointString all_adapters (Some ''coaps://[fe80::1]:5684'') (Some sample_ep) [True, True, False] = (r, Some o2, m')
    \<and> (r = OC_STACK_OK \<and> parsed_from all_adapters ''coaps://[fe80::1]:5684'' o2 \<and> epl_pri o2 = epl_pri sample_ep
       \<or> r \<in> {OC_STACK_ERROR, OC_STACK_ADAPTER_NOT_ENABLED} \<and> same_but_family sample_ep o2)"
  by (rule endpoint_parse_sound) simp

text \<open>All suites that are supported are those supported of every suite.\<close>

lemma supported_flags_agree: "OCGetSupportedEndpointFlags b selected 0xFFFF (Some 0) = (OC_STACK_OK, Some (OCGetSupportedTpsFlags b selected))"
  by (simp add: OCGetSupportedEndpointFlags_def OCGetSupportedTpsFlags_def tps_defs Let_def)

text \<open>The text of an endpoint of the connectivity layer is that of the endpoint of a payload with the same members.\<close>

lemma endpoint_string_from_CA:
  assumes "ep_addr ep \<noteq> []" "OCGetMatchedTpsFlags b (ep_adapter ep) (ep_flags ep) (Some 0) = (OC_STACK_OK, Some f)"
    "ConvertTpsToString b f = Some tps" "ep_port ep \<noteq> 0"
  shows "Some (OCCreateEndpointStringFromCA b (Some ep) m)
    = OCCreateEndpointString b (Some \<lparr>epl_tps = Some tps, epl_addr = Some (ep_addr ep), epl_family = ep_flags ep, epl_port = ep_port ep, epl_pri = 1\<rparr>) m"
proof -
  have "f = OC_COAP_RFCOMM \<longleftrightarrow> \<not> ip_tps b tps" "f = OC_COAP_RFCOMM \<Longrightarrow> EDR_ADAPTER b \<and> tps = COAP_RFCOMM_STR"
    using assms(3) by (auto simp: ConvertTpsToString_def ip_tps_def tps_str_defs tps_defs split: if_splits)
  then show ?thesis
    using assms by (auto simp: OCCreateEndpointStringFromCA_def OCCreateEndpointString_def split: prod.splits bool.splits)
qed

section \<open>Texts that are accepted although they are no endpoints\<close>

text \<open>Without a port, the last part of an IPv6 address is taken for one.\<close>

lemma four: "Suc (Suc (Suc (Suc 0))) = 4"
  by simp

lemma address_taken_for_port:
  "OCParseEndpointString all_adapters (Some ''coap://[fe80::17]'') (Some out) []
    = (OC_STACK_OK, Some (out\<lparr>epl_tps := Some ''coap'', epl_addr := Some ''fe80::17'', epl_port := 17, epl_family := OC_IP_USE_V6\<rparr>), [])"
proof -
  have "parse_ip ''coap://[fe80::17]'' 4 ''coap'' False out
      = (OC_STACK_OK, out\<lparr>epl_tps := Some ''coap'', epl_addr := Some ''fe80::17'', epl_port := 17,
           epl_family := (if True then OC_IP_USE_V6 else OC_IP_USE_V4) OR (if False then OC_FLAG_SECURE else 0)\<rparr>)"
    by (rule parse_ip_OK [where tmp = 16 and colon = 13])
      (simp_all add: strchr_def token_defs size_diff_def OC_MAX_ADDR_STR_SIZE_def strtol10_def is_space_def is_digit_def digits_value_def)
  then show ?thesis
    by (simp add: parse_plenty max_object_def parse_origin_def token_defs OC_MAX_TPS_STR_SIZE_def tps_adapter_def tps_str_defs
        adapter_defs four)
qed

text \<open>What follows the digits of the port is ignored.\<close>

lemma port_with_rest:
  "OCParseEndpointString all_adapters (Some ''coap://10.0.0.1:80x'') (Some out) []
    = (OC_STACK_OK, Some (out\<lparr>epl_tps := Some ''coap'', epl_addr := Some ''10.0.0.1'', epl_port := 80, epl_family := OC_IP_USE_V4\<rparr>), [])"
proof -
  have "parse_ip ''coap://10.0.0.1:80x'' 4 ''coap'' False out
      = (OC_STACK_OK, out\<lparr>epl_tps := Some ''coap'', epl_addr := Some ''10.0.0.1'', epl_port := 80,
           epl_family := (if False then OC_IP_USE_V6 else OC_IP_USE_V4) OR (if False then OC_FLAG_SECURE else 0)\<rparr>)"
    by (rule parse_ip_OK [where tmp = 15 and colon = 15])
      (simp_all add: strchr_def token_defs size_diff_def OC_MAX_ADDR_STR_SIZE_def strtol10_def is_space_def is_digit_def digits_value_def)
  then show ?thesis
    by (simp add: parse_plenty max_object_def parse_origin_def token_defs OC_MAX_TPS_STR_SIZE_def tps_adapter_def tps_str_defs
        adapter_defs four)
qed

end
