(* ===== verification/DiscoveryPayload.thy ===== *)
theory DiscoveryPayload
  imports Observers RepPayload Endpoints
begin

unbundle bit_operations_syntax

text \<open>
  The payloads of discovery, the second half of \<^verbatim>\<open>resource/csdk/stack/src/ocpayload.c\<close>: a resource is copied with its
  types and interfaces and with the endpoints at which a client on the same network interface reaches it. Lists linked by
  \<open>next\<close> are lists. A pointer to an endpoint that may have been freed with its list is a value of \<open>self_ep\<close>; using it
  then has no result.
\<close>

section \<open>Types\<close>

record OCDiscoverable = OCResource +
  rs_endpointType :: u32
  rs_rsrcType :: "string list"
  rs_rsrcInterface :: "string list"

record OCResourcePayload =
  rp_resUri :: "string option"
  rp_rel :: "string option"
  rp_anchor :: "string option"
  rp_resTypes :: "string option list"
  rp_resInterfaces :: "string option list"
  rp_bitmap :: u8
  rp_secure :: bool
  rp_port :: u16
  rp_tcpPort :: u16
  rp_eps :: "OCEndpointPayload list"

record OCDiscoveryPayload =
  dp_sid :: "string option"
  dp_name :: "string option"
  dp_type :: "string option list"
  dp_iface :: "string option list"
  dp_resources :: "OCResourcePayload list"

datatype self_ep = No_ep | Ep OCEndpointPayload | Freed_ep

definition OC_NONSECURE :: u32 where "OC_NONSECURE = 64"
definition MASK_SECURE_FAMS :: u32 where "MASK_SECURE_FAMS = OC_FLAG_SECURE OR (OC_IP_USE_V6 OR OC_IP_USE_V4)"
definition sizeof_OCEndpointPayload :: nat where "sizeof_OCEndpointPayload = 32"
definition sizeof_OCResourcePayload :: nat where "sizeof_OCResourcePayload = 64"
definition sizeof_OCDiscoveryPayload :: nat where "sizeof_OCDiscoveryPayload = 56"

section \<open>Endpoints of a resource\<close>

definition reachable_at :: "OCDevAddr \<Rightarrow> CAEndpoint \<Rightarrow> bool" where
  "reachable_at devAddr info \<longleftrightarrow>
     (OC_ADAPTER_IP OR OC_ADAPTER_TCP) AND ep_adapter info \<noteq> 0 \<and> ep_ifindex info = ep_ifindex devAddr
     \<or> ep_adapter info = OC_ADAPTER_RFCOMM_BTEDR"

definition offered :: "OCDiscoverable \<Rightarrow> u32 \<Rightarrow> CAEndpoint \<Rightarrow> bool" where
  "offered res matchedTps info \<longleftrightarrow>
     rs_endpointType res AND matchedTps \<noteq> 0
     \<and> (if ep_flags info AND OC_FLAG_SECURE \<noteq> 0 then rs_resourceProperties res AND OC_SECURE \<noteq> 0
        else rs_resourceProperties res AND OC_NONSECURE \<noteq> 0)"

text \<open>
  One round of the loop: \<open>Inl\<close> is the jump to \<open>exit\<close>. \<open>self\<close> is the position of the last endpoint whose flags for security
  and for the version of IP are among those of the address of the client.
\<close>

definition endpoint_step ::
  "adapters \<Rightarrow> OCDiscoverable \<Rightarrow> OCDevAddr \<Rightarrow> CAEndpoint \<Rightarrow> OCEndpointPayload list \<times> nat option \<Rightarrow> mem
     \<Rightarrow> (unit + OCEndpointPayload list \<times> nat option) \<times> mem" where
  "endpoint_step b res devAddr info acc m =
     (case acc of (eps, self) \<Rightarrow>
      if \<not> reachable_at devAddr info then (Inr acc, m)
      else
        (case OCGetMatchedTpsFlags b (ep_adapter info) (ep_flags info) (Some 0) of
           (OC_STACK_OK, Some matchedTps) \<Rightarrow>
             if \<not> offered res matchedTps info then (Inr acc, m)
             else
               (case OICCalloc m 1 sizeof_OCEndpointPayload of
                  (False, m) \<Rightarrow> (Inl (), m)
                | (True, m) \<Rightarrow>
                    (case OCConvertTpsToString b matchedTps m of
                       (OC_STACK_OK, tps, m) \<Rightarrow>
                         (case OICCalloc m (MAX_ADDR_STR_SIZE b) 1 of
                            (False, m) \<Rightarrow> (Inl (), m)
                          | (True, m) \<Rightarrow>
                              (Inr (eps @ [\<lparr>epl_tps = tps, epl_addr = Some (ep_addr info), epl_family = ep_flags info,
                                            epl_port = ep_port info, epl_pri = 1\<rparr>],
                                    if (ep_flags info AND MASK_SECURE_FAMS) AND ep_flags devAddr = ep_flags info AND MASK_SECURE_FAMS
                                    then Some (length eps) else self), m))
                     | (_, _, m) \<Rightarrow> (Inl (), m)))
         | _ \<Rightarrow> (Inl (), m)))"

text \<open>The result has the endpoints, or \<^const>\<open>None\<close> when they were freed and the list was not written.\<close>

fun endpoint_loop ::
  "adapters \<Rightarrow> OCDiscoverable \<Rightarrow> OCDevAddr \<Rightarrow> CAEndpoint list \<Rightarrow> OCEndpointPayload list \<times> nat option \<Rightarrow> mem
     \<Rightarrow> OCEndpointPayload list option \<times> self_ep \<times> mem" where
  "endpoint_loop b res devAddr [] (eps, self) m = (Some eps, (case self of None \<Rightarrow> No_ep | Some i \<Rightarrow> Ep (eps ! i)), m)"
| "endpoint_loop b res devAddr (info # infos) acc m =
     (case endpoint_step b res devAddr info acc m of
        (Inl _, m) \<Rightarrow> (None, (if snd acc = None then No_ep else Freed_ep), m)
      | (Inr acc, m) \<Rightarrow> endpoint_loop b res devAddr infos acc m)"

definition CreateEndpointPayloadList ::
  "adapters \<Rightarrow> OCDiscoverable option \<Rightarrow> OCDevAddr option \<Rightarrow> CAEndpoint list option \<Rightarrow> mem
     \<Rightarrow> OCEndpointPayload list option \<times> self_ep \<times> mem" where
  "CreateEndpointPayloadList b resource devAddr networkInfo m =
     (case (resource, devAddr, networkInfo) of
        (Some res, Some addr, Some infos) \<Rightarrow>
          if (OC_ADAPTER_IP OR OC_ADAPTER_TCP) AND ep_adapter addr \<noteq> 0 then endpoint_loop b res addr infos ([], None) m
          else (Some [], No_ep, m)
      | _ \<Rightarrow> (None, No_ep, m))"

definition OCEndpointPayloadGetEndpointCount :: "OCEndpointPayload list \<Rightarrow> nat" where
  "OCEndpointPayloadGetEndpointCount payload = length payload"

definition nth_opt :: "'a list \<Rightarrow> nat \<Rightarrow> 'a option" where
  "nth_opt xs i = (if i < length xs then Some (xs ! i) else None)"

definition OCEndpointPayloadGetEndpoint :: "OCEndpointPayload list \<Rightarrow> nat \<Rightarrow> OCEndpointPayload option" where
  "OCEndpointPayloadGetEndpoint payload index = nth_opt payload index"

definition OCResourcePayloadAddNewEndpoint :: "OCResourcePayload option \<Rightarrow> OCEndpointPayload list \<Rightarrow> OCResourcePayload option" where
  "OCResourcePayloadAddNewEndpoint payload endpoint = map_option (\<lambda>p. p\<lparr>rp_eps := rp_eps p @ endpoint\<rparr>) payload"

section \<open>Copies of resources\<close>

fun copy_names :: "string list \<Rightarrow> mem \<Rightarrow> string option list option \<times> mem" where
  "copy_names [] m = (Some [], m)"
| "copy_names (t # ts) m =
     (case OICCalloc m 1 sizeof_OCStringLL of
        (False, m) \<Rightarrow> (None, m)
      | (True, m) \<Rightarrow>
          (case OICStrdup m (Some t) of
             (None, m) \<Rightarrow> (None, m)
           | (Some s, m) \<Rightarrow> (case copy_names ts m of (r, m) \<Rightarrow> (map_option (Cons (Some s)) r, m))))"

text \<open>
  The relation of the well-known resource is \<open>self\<close>. The anchor is the text of the endpoint that \<open>selfEp\<close> points to.
\<close>

definition copy_rel :: "string \<Rightarrow> mem \<Rightarrow> string option option \<times> mem" where
  "copy_rel uri m =
     (if uri = OC_RSRVD_WELL_KNOWN_URI then
        (case OICStrdup m (Some ''self'') of (None, m) \<Rightarrow> (None, m) | (Some s, m) \<Rightarrow> (Some (Some s), m))
      else (Some None, m))"

definition anchor_of :: "adapters \<Rightarrow> self_ep \<Rightarrow> mem \<Rightarrow> (string option \<times> mem) option" where
  "anchor_of b self m =
     (case self of
        No_ep \<Rightarrow> OCCreateEndpointString b None m
      | Ep ep \<Rightarrow> OCCreateEndpointString b (Some ep) m
      | Freed_ep \<Rightarrow> None)"

text \<open>The types, the interfaces and the members that need no memory.\<close>

definition copy_members ::
  "adapters \<Rightarrow> OCDiscoverable \<Rightarrow> u16 \<Rightarrow> u16 \<Rightarrow> string \<Rightarrow> string option \<Rightarrow> string option \<Rightarrow> OCEndpointPayload list option \<Rightarrow> mem
     \<Rightarrow> OCResourcePayload option \<times> mem" where
  "copy_members b res securePort tcpPort uri rel anchor eps m =
     (case copy_names (rs_rsrcType res) m of
        (None, m) \<Rightarrow> (None, m)
      | (Some types, m) \<Rightarrow>
          (case copy_names (rs_rsrcInterface res) m of
             (None, m) \<Rightarrow> (None, m)
           | (Some interfaces, m) \<Rightarrow>
               (Some \<lparr>rp_resUri = Some uri, rp_rel = rel, rp_anchor = anchor, rp_resTypes = types, rp_resInterfaces = interfaces,
                      rp_bitmap = ucast (rs_resourceProperties res AND (OC_OBSERVABLE OR OC_DISCOVERABLE)),
                      rp_secure = (rs_resourceProperties res AND OC_SECURE \<noteq> 0), rp_port = securePort,
                      rp_tcpPort = (if TCP_ADAPTER b then tcpPort else 0),
                      rp_eps = (case eps of None \<Rightarrow> [] | Some es \<Rightarrow> es)\<rparr>, m)))"

definition OCCopyResource ::
  "adapters \<Rightarrow> OCDiscoverable \<Rightarrow> u16 \<Rightarrow> CAEndpoint list option \<Rightarrow> OCDevAddr option \<Rightarrow> u16 \<Rightarrow> mem \<Rightarrow> (OCResourcePayload option \<times> mem) option" where
  "OCCopyResource b res securePort networkInfo devAddr tcpPort m =
     (case OICCalloc m 1 sizeof_OCResourcePayload of
        (False, m) \<Rightarrow> Some (None, m)
      | (True, m) \<Rightarrow>
          (case (if networkInfo \<noteq> None \<and> networkInfo \<noteq> Some [] \<and> devAddr \<noteq> None
                 then CreateEndpointPayloadList b (Some res) devAddr networkInfo m else (None, No_ep, m)) of
             (eps, self, m) \<Rightarrow>
               (case OICStrdup m (Some (rs_uri res)) of
                  (None, m) \<Rightarrow> Some (None, m)
                | (Some uri, m) \<Rightarrow>
                    (case copy_rel (rs_uri res) m of
                       (None, m) \<Rightarrow> Some (None, m)
                     | (Some rel, m) \<Rightarrow>
                         do {
                           (anchor, m) \<leftarrow> anchor_of b self m;
                           Some (copy_members b res securePort tcpPort uri rel anchor eps m)
                         }))))"

section \<open>Discovery payloads\<close>

definition OCDiscoveryPayloadCreate :: "mem \<Rightarrow> OCDiscoveryPayload option \<times> mem" where
  "OCDiscoveryPayloadCreate m =
     (case OICCalloc m 1 sizeof_OCDiscoveryPayload of
        (False, m) \<Rightarrow> (None, m)
      | (True, m) \<Rightarrow> (Some \<lparr>dp_sid = None, dp_name = None, dp_type = [], dp_iface = [], dp_resources = []\<rparr>, m))"

definition OCDiscoveryPayloadGetResourceCount :: "OCDiscoveryPayload \<Rightarrow> nat" where
  "OCDiscoveryPayloadGetResourceCount payload = length (dp_resources payload)"

definition OCDiscoveryPayloadGetResource :: "OCDiscoveryPayload \<Rightarrow> nat \<Rightarrow> OCResourcePayload option" where
  "OCDiscoveryPayloadGetResource payload index = nth_opt (dp_resources payload) index"

definition OCDiscoveryPayloadAddNewResource :: "OCDiscoveryPayload option \<Rightarrow> OCResourcePayload option \<Rightarrow> OCDiscoveryPayload option" where
  "OCDiscoveryPayloadAddNewResource payload res =
     map_option (\<lambda>p. p\<lparr>dp_resources := dp_resources p @ (case res of None \<Rightarrow> [] | Some r \<Rightarrow> [r])\<rparr>) payload"

definition OCDiscoveryPayloadAddResourceWithEps ::
  "adapters \<Rightarrow> OCDiscoveryPayload option \<Rightarrow> OCDiscoverable \<Rightarrow> u16 \<Rightarrow> CAEndpoint list option \<Rightarrow> OCDevAddr option \<Rightarrow> u16 \<Rightarrow> mem
     \<Rightarrow> (OCDiscoveryPayload option \<times> mem) option" where
  "OCDiscoveryPayloadAddResourceWithEps b payload res securePort networkInfo devAddr tcpPort m =
     do { (r, m) \<leftarrow> OCCopyResource b res securePort networkInfo devAddr tcpPort m; Some (OCDiscoveryPayloadAddNewResource payload r, m) }"

definition OCDiscoveryPayloadAddResource ::
  "adapters \<Rightarrow> OCDiscoveryPayload option \<Rightarrow> OCDiscoverable \<Rightarrow> u16 \<Rightarrow> u16 \<Rightarrow> mem \<Rightarrow> (OCDiscoveryPayload option \<times> mem) option" where
  "OCDiscoveryPayloadAddResource b payload res securePort tcpPort m =
     do { (r, m) \<leftarrow> OCCopyResource b res securePort None None tcpPort m; Some (OCDiscoveryPayloadAddNewResource payload r, m) }"

definition OCResourcePayloadAddStringLL :: "string option list \<Rightarrow> string option \<Rightarrow> mem \<Rightarrow> bool \<times> string option list \<times> mem" where
  "OCResourcePayloadAddStringLL stringLL v m =
     (case v of
        None \<Rightarrow> (False, stringLL, m)
      | Some _ \<Rightarrow>
          (case OICStrdup m v of
             (None, m) \<Rightarrow> (False, stringLL, m)
           | (Some s, m) \<Rightarrow>
               (case OICCalloc m 1 sizeof_OCStringLL of
                  (False, m) \<Rightarrow> (False, stringLL, m)
                | (True, m) \<Rightarrow> (True, stringLL @ [Some s], m))))"


section \<open>Which endpoints are advertised\<close>

definition matched :: "adapters \<Rightarrow> CAEndpoint \<Rightarrow> u32" where
  "matched b info = (case OCGetMatchedTpsFlags b (ep_adapter info) (ep_flags info) (Some 0) of (_, Some f) \<Rightarrow> f | _ \<Rightarrow> 0)"

definition advertised :: "adapters \<Rightarrow> OCDiscoverable \<Rightarrow> OCDevAddr \<Rightarrow> CAEndpoint \<Rightarrow> bool" where
  "advertised b res devAddr info \<longleftrightarrow> reachable_at devAddr info \<and> offered res (matched b info) info"

definition ep_of :: "adapters \<Rightarrow> CAEndpoint \<Rightarrow> OCEndpointPayload" where
  "ep_of b info = \<lparr>epl_tps = ConvertTpsToString b (matched b info), epl_addr = Some (ep_addr info), epl_family = ep_flags info,
     epl_port = ep_port info, epl_pri = 1\<rparr>"

text \<open>
  What the code requires of the endpoint for the anchor: its flags for security and for the version of IP are among those of
  the address of the client. The adapter, the address and the port are not compared.
\<close>

definition flags_among :: "OCDevAddr \<Rightarrow> CAEndpoint \<Rightarrow> bool" where
  "flags_among devAddr info \<longleftrightarrow> (ep_flags info AND MASK_SECURE_FAMS) AND ep_flags devAddr = ep_flags info AND MASK_SECURE_FAMS"

definition ip_client :: "OCDevAddr \<Rightarrow> bool" where
  "ip_client devAddr \<longleftrightarrow> (OC_ADAPTER_IP OR OC_ADAPTER_TCP) AND ep_adapter devAddr \<noteq> 0"

text \<open>
  There is memory for all of these endpoints: for each, three allocations succeed in turn, for the endpoint, for the text of its
  protocol suite, which it has, and for its address.
\<close>

fun room_for_eps :: "adapters \<Rightarrow> CAEndpoint list \<Rightarrow> mem \<Rightarrow> bool" where
  "room_for_eps b [] m = True"
| "room_for_eps b (info # infos) m =
     (case (OICCalloc m 1 sizeof_OCEndpointPayload, ConvertTpsToString b (matched b info)) of
        ((True, m), Some tps) \<Rightarrow>
          (case OICMalloc m (length tps + 1) of
             (True, m) \<Rightarrow> (case OICCalloc m (MAX_ADDR_STR_SIZE b) 1 of (True, m) \<Rightarrow> room_for_eps b infos m | (False, m) \<Rightarrow> False)
           | (False, m) \<Rightarrow> False)
      | _ \<Rightarrow> False)"

definition known_adapter :: "CAEndpoint \<Rightarrow> bool" where
  "known_adapter info \<longleftrightarrow> ep_adapter info \<in> {OC_ADAPTER_IP, OC_ADAPTER_TCP, OC_ADAPTER_RFCOMM_BTEDR}"

lemma matched_eq: "OCGetMatchedTpsFlags b (ep_adapter info) (ep_flags info) (Some 0) = (OC_STACK_OK, Some (matched b info))"
  by (simp add: matched_def OCGetMatchedTpsFlags_def Let_def)

lemma matched_cases:
  "ep_adapter info = OC_ADAPTER_IP \<Longrightarrow> matched b info \<in> {0, OC_COAP, OC_COAPS}"
  "ep_adapter info = OC_ADAPTER_TCP \<Longrightarrow> matched b info = 0 \<or> TCP_ADAPTER b \<and> matched b info \<in> {OC_COAP_TCP, OC_COAPS_TCP}"
  "ep_adapter info = OC_ADAPTER_RFCOMM_BTEDR \<Longrightarrow> matched b info = 0 \<or> EDR_ADAPTER b \<and> matched b info = OC_COAP_RFCOMM"
  by (simp_all add: matched_def OCGetMatchedTpsFlags_def Let_def set_if_def adapter_defs)

lemma known_convert:
  assumes "known_adapter info" "matched b info \<noteq> 0"
  shows "\<exists>tps. ConvertTpsToString b (matched b info) = Some tps \<and> length tps \<le> 11"
proof -
  have c: "\<exists>tps. ConvertTpsToString b f = Some tps \<and> length tps \<le> 11"
    if "f \<in> {OC_COAP, OC_COAPS} \<or> TCP_ADAPTER b \<and> f \<in> {OC_COAP_TCP, OC_COAPS_TCP} \<or> EDR_ADAPTER b \<and> f = OC_COAP_RFCOMM" for f
    using that by (elim disjE conjE insertE emptyE) (simp_all add: ConvertTpsToString_def tps_defs tps_str_defs)
  show ?thesis
    by (rule c) (use assms matched_cases [of info b] in \<open>auto simp: known_adapter_def\<close>)
qed

lemma small_allocs:
  "OICCalloc [] 1 sizeof_OCEndpointPayload = (True, [])" "OICCalloc [] 1 sizeof_OCResourcePayload = (True, [])"
  "OICCalloc [] 1 sizeof_OCStringLL = (True, [])" "OICCalloc [] (MAX_ADDR_STR_SIZE b) 1 = (True, [])"
  by (simp_all add: OICCalloc_def sizeof_OCEndpointPayload_def sizeof_OCResourcePayload_def sizeof_OCStringLL_def
      MAX_ADDR_STR_SIZE_def max_object_def)

text \<open>What a round does with enough memory.\<close>

lemma endpoint_step_plenty:
  assumes "known_adapter info"
  shows "endpoint_step b res devAddr info (eps, self) [] =
    (Inr (if advertised b res devAddr info
          then (eps @ [ep_of b info], if flags_among devAddr info then Some (length eps) else self) else (eps, self)), [])"
proof (cases "advertised b res devAddr info")
  case True
  then have "matched b info \<noteq> 0" by (auto simp: advertised_def offered_def)
  then obtain tps where t: "ConvertTpsToString b (matched b info) = Some tps" "length tps \<le> 11"
    using known_convert [OF assms] by blast
  have "OCConvertTpsToString b (matched b info) [] = (OC_STACK_OK, Some tps, [])"
    using t strdup_nil [of tps] by (simp add: OCConvertTpsToString_def max_object_def)
  then show ?thesis
    using True t by (simp add: endpoint_step_def matched_eq small_allocs [simplified] advertised_def ep_of_def flags_among_def)
next
  case False
  then show ?thesis by (auto simp: endpoint_step_def matched_eq advertised_def)
qed

lemma endpoint_loop_plenty:
  assumes "list_all known_adapter infos" "\<forall>i. self = Some i \<longrightarrow> i < length eps"
  shows "endpoint_loop b res devAddr infos (eps, self) [] =
    (Some (eps @ map (ep_of b) (filter (advertised b res devAddr) infos)),
     (case rev (filter (flags_among devAddr) (filter (advertised b res devAddr) infos)) of
        [] \<Rightarrow> (case self of None \<Rightarrow> No_ep | Some i \<Rightarrow> Ep (eps ! i))
      | info # _ \<Rightarrow> Ep (ep_of b info)), [])"
  using assms
proof (induction infos arbitrary: eps self)
  case Nil
  then show ?case by simp
next
  case (Cons info infos)
  note step = endpoint_step_plenty [of info b res devAddr eps self]
  show ?case
  proof (cases "advertised b res devAddr info")
    case False
    then show ?thesis using Cons step by simp
  next
    case adv: True
    let ?self = "if flags_among devAddr info then Some (length eps) else self"
    have inv: "\<forall>i. ?self = Some i \<longrightarrow> i < length (eps @ [ep_of b info])" using Cons.prems(2) by (auto split: if_splits)
    have ih: "endpoint_loop b res devAddr infos (eps @ [ep_of b info], ?self) [] = (Some ((eps @ [ep_of b info]) @ map (ep_of b) (filter (advertised b res devAddr) infos)),
     (case rev (filter (flags_among devAddr) (filter (advertised b res devAddr) infos)) of
        [] \<Rightarrow> (case ?self of None \<Rightarrow> No_ep | Some i \<Rightarrow> Ep ((eps @ [ep_of b info]) ! i))
      | info # _ \<Rightarrow> Ep (ep_of b info)), [])"
      using Cons.IH [OF _ inv] Cons.prems(1) by simp
    have "(case ?self of None \<Rightarrow> No_ep | Some i \<Rightarrow> Ep ((eps @ [ep_of b info]) ! i))
        = (if flags_among devAddr info then Ep (ep_of b info) else (case self of None \<Rightarrow> No_ep | Some i \<Rightarrow> Ep (eps ! i)))"
      using Cons.prems(2) by (auto simp: nth_append split: option.splits)
    then show ?thesis
      using ih step Cons.prems(1) adv
      by (cases "rev (filter (flags_among devAddr) (filter (advertised b res devAddr) infos))") (auto split: if_splits)
  qed
qed


text \<open>Whatever the memory, the list is complete when there is memory for all of it, and otherwise not returned.\<close>

lemma endpoint_step_exact:
  assumes "advertised b res devAddr info"
  shows "\<exists>r m'. endpoint_step b res devAddr info (eps, self) m = (r, m')
    \<and> (case r of Inl _ \<Rightarrow> \<not> room_for_eps b (info # infos) m
       | Inr (es, _) \<Rightarrow> es = eps @ [ep_of b info] \<and> (room_for_eps b (info # infos) m \<longleftrightarrow> room_for_eps b infos m'))"
proof -
  have adv: "reachable_at devAddr info" "offered res (matched b info) info" using assms by (simp_all add: advertised_def)
  obtain c1 m1 where c1: "OICCalloc m 1 sizeof_OCEndpointPayload = (c1, m1)" by fastforce
  show ?thesis
  proof (cases "c1 \<and> ConvertTpsToString b (matched b info) \<noteq> None")
    case False
    then show ?thesis using adv c1
      by (cases c1; cases "ConvertTpsToString b (matched b info)") (simp_all add: endpoint_step_def matched_eq OCConvertTpsToString_def OICStrdup_def)
  next
    case True
    then obtain tps where t: "ConvertTpsToString b (matched b info) = Some tps" by blast
    obtain c2 m2 where c2: "OICMalloc m1 (Suc (length tps)) = (c2, m2)" by fastforce
    obtain c3 m3 where c3: "OICCalloc m2 (MAX_ADDR_STR_SIZE b) (Suc 0) = (c3, m3)" by fastforce
    show ?thesis using adv c1 True t c2 c3
      by (cases c2; cases c3) (simp_all add: endpoint_step_def matched_eq OCConvertTpsToString_def OICStrdup_def ep_of_def)
  qed
qed

lemma endpoint_loop_exact:
  "fst (endpoint_loop b res devAddr infos (eps, self) m) =
    (if room_for_eps b (filter (advertised b res devAddr) infos) m
     then Some (eps @ map (ep_of b) (filter (advertised b res devAddr) infos)) else None)"
proof (induction infos arbitrary: eps self m)
  case (Cons info infos)
  let ?rest = "filter (advertised b res devAddr) infos"
  show ?case
  proof (cases "advertised b res devAddr info")
    case False
    then have "endpoint_step b res devAddr info (eps, self) m = (Inr (eps, self), m)"
      by (auto simp: endpoint_step_def matched_eq advertised_def)
    then show ?thesis using False Cons.IH by simp
  next
    case True
    obtain r m' where r: "endpoint_step b res devAddr info (eps, self) m = (r, m')"
      and c: "case r of Inl _ \<Rightarrow> \<not> room_for_eps b (info # ?rest) m
        | Inr (es, _) \<Rightarrow> es = eps @ [ep_of b info] \<and> (room_for_eps b (info # ?rest) m \<longleftrightarrow> room_for_eps b ?rest m')"
      using endpoint_step_exact [OF True, of eps self m ?rest] by blast
    show ?thesis
    proof (cases r)
      case (Inl u)
      then have "\<not> room_for_eps b (info # ?rest) m" using c by simp
      then show ?thesis using r Inl True by (simp del: room_for_eps.simps)
    next
      case (Inr acc)
      obtain es self' where acc: "acc = (es, self')" by fastforce
      then have "es = eps @ [ep_of b info]" "room_for_eps b (info # ?rest) m \<longleftrightarrow> room_for_eps b ?rest m'" using c Inr by simp_all
      then show ?thesis using r Inr acc True Cons.IH [of es self' m'] by (simp del: room_for_eps.simps)
    qed
  qed
qed simp

lemma room_plenty: "list_all known_adapter infos \<Longrightarrow> room_for_eps b (filter (advertised b res devAddr) infos) []"
proof (induction infos)
  case (Cons info infos)
  show ?case
  proof (cases "advertised b res devAddr info")
    case True
    then have "matched b info \<noteq> 0" by (auto simp: advertised_def offered_def)
    then obtain tps where "ConvertTpsToString b (matched b info) = Some tps" "length tps \<le> 11"
      using known_convert Cons.prems by auto
    then show ?thesis using True Cons by (simp add: small_allocs [simplified] OICMalloc_def max_object_def)
  qed (use Cons in simp)
qed simp

lemma copy_names_result: "copy_names ts m = (Some ds, m') \<Longrightarrow> ds = map Some ts"
proof (induction ts arbitrary: ds m)
  case (Cons t ts)
  then show ?case by (auto dest: strdup_same split: prod.splits bool.splits option.splits)
qed simp

lemma copy_names_nil: "list_all (\<lambda>t. length t < max_object) ts \<Longrightarrow> copy_names ts [] = (Some (map Some ts), [])"
  by (induction ts) (simp_all add: small_allocs [simplified] strdup_nil)

lemma copy_members_result:
  assumes "copy_members b res securePort tcpPort uri rel anchor eps m = (Some pl, m')"
  shows "rp_eps pl = (case eps of None \<Rightarrow> [] | Some es \<Rightarrow> es) \<and> rp_secure pl = (rs_resourceProperties res AND OC_SECURE \<noteq> 0)
    \<and> rp_resUri pl = Some uri \<and> rp_resTypes pl = map Some (rs_rsrcType res) \<and> rp_resInterfaces pl = map Some (rs_rsrcInterface res)"
proof -
  obtain types m1 where t: "copy_names (rs_rsrcType res) m = (Some types, m1)"
    using assms by (auto simp: copy_members_def split: prod.splits option.splits)
  obtain interfaces m2 where i: "copy_names (rs_rsrcInterface res) m1 = (Some interfaces, m2)"
    using assms t by (auto simp: copy_members_def split: prod.splits option.splits)
  show ?thesis using assms t i copy_names_result [OF t] copy_names_result [OF i] by (auto simp: copy_members_def)
qed

text \<open>
  C38: A resource that is discovered by a client over IP or TCP is advertised at exactly the endpoints of the network interface that
  asked (and of Bluetooth) whose protocol suite it has, in their order, when there is memory for all of them, and else at none;
  a client over another adapter gets none. With unlimited memory, and networks of the adapters that the stack knows, there is
  always room. No endpoint is insecure unless the resource allows it, nor secure unless it is secure; its URI, types and
  interfaces are complete.
\<close>

theorem discovery_advertises:
  assumes "OCCopyResource b res securePort (Some infos) (Some devAddr) tcpPort m = Some (Some pl, m')"
  shows "rp_eps pl =
      (if ip_client devAddr \<and> room_for_eps b (filter (advertised b res devAddr) infos) (snd (OICCalloc m 1 sizeof_OCResourcePayload))
       then map (ep_of b) (filter (advertised b res devAddr) infos) else [])
    \<and> (m = [] \<and> ip_client devAddr \<and> list_all known_adapter infos
         \<longrightarrow> rp_eps pl = map (ep_of b) (filter (advertised b res devAddr) infos))
    \<and> (\<forall>ep \<in> set (rp_eps pl). if epl_family ep AND OC_FLAG_SECURE \<noteq> 0 then rs_resourceProperties res AND OC_SECURE \<noteq> 0
         else rs_resourceProperties res AND OC_NONSECURE \<noteq> 0)
    \<and> rp_secure pl = (rs_resourceProperties res AND OC_SECURE \<noteq> 0)
    \<and> rp_resUri pl = Some (rs_uri res) \<and> rp_resTypes pl = map Some (rs_rsrcType res)
    \<and> rp_resInterfaces pl = map Some (rs_rsrcInterface res)"
proof -
  obtain m1 where c: "OICCalloc m 1 sizeof_OCResourcePayload = (True, m1)"
    using assms by (cases "OICCalloc m 1 sizeof_OCResourcePayload"; cases "fst (OICCalloc m 1 sizeof_OCResourcePayload)")
      (auto simp: OCCopyResource_def)
  obtain eps self m2 where e: "(if infos \<noteq> [] then CreateEndpointPayloadList b (Some res) (Some devAddr) (Some infos) m1 else (None, No_ep, m1)) = (eps, self, m2)"
    by (metis prod_cases3)
  let ?eps = "if ip_client devAddr \<and> room_for_eps b (filter (advertised b res devAddr) infos) m1
      then map (ep_of b) (filter (advertised b res devAddr) infos) else []"
  have eps: "(case eps of None \<Rightarrow> [] | Some es \<Rightarrow> es) = ?eps"
    using e endpoint_loop_exact [of b res devAddr infos "[]" None m1]
    by (cases eps) (auto simp: CreateEndpointPayloadList_def ip_client_def split: if_splits)
  obtain uri m3 where u: "OICStrdup m2 (Some (rs_uri res)) = (Some uri, m3)"
    using assms c e by (auto simp: OCCopyResource_def split: prod.splits option.splits)
  obtain rel m4 where rel: "copy_rel (rs_uri res) m3 = (Some rel, m4)"
    using assms c e u by (auto simp: OCCopyResource_def split: prod.splits option.splits)
  obtain anchor m5 where a: "copy_members b res securePort tcpPort uri rel anchor eps m5 = (Some pl, m')"
    using assms c e u rel by (auto simp: OCCopyResource_def bind_eq_Some_conv)
  have pl: "rp_eps pl = (case eps of None \<Rightarrow> [] | Some es \<Rightarrow> es) \<and> rp_secure pl = (rs_resourceProperties res AND OC_SECURE \<noteq> 0)
      \<and> rp_resUri pl = Some (rs_uri res) \<and> rp_resTypes pl = map Some (rs_rsrcType res) \<and> rp_resInterfaces pl = map Some (rs_rsrcInterface res)"
    using copy_members_result [OF a] strdup_same [OF u] by simp
  have "offered res (matched b info) info \<Longrightarrow> if epl_family (ep_of b info) AND OC_FLAG_SECURE \<noteq> 0 then rs_resourceProperties res AND OC_SECURE \<noteq> 0
         else rs_resourceProperties res AND OC_NONSECURE \<noteq> 0" for info
    by (simp add: offered_def ep_of_def split: if_splits)
  then have "\<forall>ep \<in> set ?eps. if epl_family ep AND OC_FLAG_SECURE \<noteq> 0 then rs_resourceProperties res AND OC_SECURE \<noteq> 0
         else rs_resourceProperties res AND OC_NONSECURE \<noteq> 0" by (auto simp: advertised_def)
  moreover have "m = [] \<Longrightarrow> m1 = []" using c by (auto simp: OICCalloc_def split: if_splits)
  ultimately show ?thesis using pl c room_plenty [of infos b res devAddr] unfolding eps by simp
qed


lemma copy_resource_plenty:
  assumes infos: "infos \<noteq> []" "list_all known_adapter infos" and dev: "(OC_ADAPTER_IP OR OC_ADAPTER_TCP) AND ep_adapter devAddr \<noteq> 0"
    and fit: "length (rs_uri res) < max_object" "list_all (\<lambda>t. length t < max_object) (rs_rsrcType res)"
      "list_all (\<lambda>t. length t < max_object) (rs_rsrcInterface res)"
    and ok: "\<forall>info \<in> set infos. advertised b res devAddr info \<and> flags_among devAddr info \<longrightarrow> endpoint_ok b (ep_of b info)"
  shows "\<exists>pl. OCCopyResource b res securePort (Some infos) (Some devAddr) tcpPort [] = Some (Some pl, [])
    \<and> rp_eps pl = map (ep_of b) (filter (advertised b res devAddr) infos)
    \<and> rp_rel pl = (if rs_uri res = OC_RSRVD_WELL_KNOWN_URI then Some ''self'' else None)
    \<and> (case rev (filter (flags_among devAddr) (filter (advertised b res devAddr) infos)) of
         [] \<Rightarrow> rp_anchor pl = None
       | info # _ \<Rightarrow> \<exists>s. rp_anchor pl = Some s
           \<and> OCParseEndpointString b (Some s) (Some out) []
               = (OC_STACK_OK, Some (out\<lparr>epl_tps := ConvertTpsToString b (matched b info), epl_addr := Some (ep_addr info),
                    epl_family := parsed_family (ep_of b info),
                    epl_port := (if ConvertTpsToString b (matched b info) = Some COAP_RFCOMM_STR then 0 else ep_port info)\<rparr>), []))"
proof -
  let ?asked = "rev (filter (flags_among devAddr) (filter (advertised b res devAddr) infos))"
  let ?self = "case ?asked of [] \<Rightarrow> No_ep | info # _ \<Rightarrow> Ep (ep_of b info)"
  have e: "CreateEndpointPayloadList b (Some res) (Some devAddr) (Some infos) []
      = (Some (map (ep_of b) (filter (advertised b res devAddr) infos)), ?self, [])"
    using dev endpoint_loop_plenty [OF infos(2), of None "[]" b res devAddr, unfolded option.case append_Nil]
    by (simp add: CreateEndpointPayloadList_def)
  define rel where "rel = (if rs_uri res = OC_RSRVD_WELL_KNOWN_URI then Some ''self'' else None)"
  have r: "copy_rel (rs_uri res) [] = (Some rel, [])"
    using strdup_nil [of "''self''"] by (simp add: copy_rel_def rel_def max_object_def)
  have an: "\<exists>anchor. anchor_of b ?self [] = Some (anchor, [])
      \<and> (case ?asked of [] \<Rightarrow> anchor = None
          | info # _ \<Rightarrow> \<exists>s. anchor = Some s \<and> OCParseEndpointString b (Some s) (Some out) []
               = (OC_STACK_OK, Some (out\<lparr>epl_tps := ConvertTpsToString b (matched b info), epl_addr := Some (ep_addr info),
                    epl_family := parsed_family (ep_of b info),
                    epl_port := (if ConvertTpsToString b (matched b info) = Some COAP_RFCOMM_STR then 0 else ep_port info)\<rparr>), []))"
  proof (cases ?asked)
    case Nil
    then show ?thesis by (simp add: anchor_of_def OCCreateEndpointString_def)
  next
    case (Cons info rest)
    then have "info \<in> set ?asked" by simp
    then have "endpoint_ok b (ep_of b info)" using ok by auto
    from write_parse [OF this, of out] show ?thesis using Cons by (auto simp: anchor_of_def ep_of_def)
  qed
  then obtain anchor where an: "anchor_of b ?self [] = Some (anchor, [])"
    and anchor: "case ?asked of [] \<Rightarrow> anchor = None
          | info # _ \<Rightarrow> \<exists>s. anchor = Some s \<and> OCParseEndpointString b (Some s) (Some out) []
               = (OC_STACK_OK, Some (out\<lparr>epl_tps := ConvertTpsToString b (matched b info), epl_addr := Some (ep_addr info),
                    epl_family := parsed_family (ep_of b info),
                    epl_port := (if ConvertTpsToString b (matched b info) = Some COAP_RFCOMM_STR then 0 else ep_port info)\<rparr>), [])"
    by blast
  define pl where "pl = \<lparr>rp_resUri = Some (rs_uri res), rp_rel = rel, rp_anchor = anchor, rp_resTypes = map Some (rs_rsrcType res),
      rp_resInterfaces = map Some (rs_rsrcInterface res),
      rp_bitmap = ucast (rs_resourceProperties res AND (OC_OBSERVABLE OR OC_DISCOVERABLE)),
      rp_secure = (rs_resourceProperties res AND OC_SECURE \<noteq> 0), rp_port = securePort,
      rp_tcpPort = (if TCP_ADAPTER b then tcpPort else 0),
      rp_eps = map (ep_of b) (filter (advertised b res devAddr) infos)\<rparr>"
  have "OCCopyResource b res securePort (Some infos) (Some devAddr) tcpPort [] = Some (Some pl, [])"
    using e r an infos(1) fit
    by (simp add: OCCopyResource_def small_allocs [simplified] strdup_nil copy_members_def copy_names_nil pl_def)
  moreover have "rp_eps pl = map (ep_of b) (filter (advertised b res devAddr) infos)"
    "rp_rel pl = (if rs_uri res = OC_RSRVD_WELL_KNOWN_URI then Some ''self'' else None)" and a: "rp_anchor pl = anchor"
    by (simp_all add: pl_def rel_def)
  ultimately show ?thesis using anchor unfolding a [symmetric] by blast
qed

text \<open>
  C39: With enough memory a resource that is discovered over IP or TCP has all endpoints of the interface that asked, and the relation
  \<open>self\<close> exactly when it is the well-known resource. Its anchor is a text from which the client reads the protocol
  suite, the address and the port of the last of these endpoints whose flags for security and for the version of IP are all among those
  of the client, and there is none when there is no such endpoint. (This need not be the endpoint at which the client has
  asked, see \<open>anchor_is_insecure\<close>.)
\<close>

theorem discovery_resource:
  assumes infos: "infos \<noteq> []" "list_all known_adapter infos" and dev: "(OC_ADAPTER_IP OR OC_ADAPTER_TCP) AND ep_adapter devAddr \<noteq> 0"
    and fit: "length (rs_uri res) < max_object" "list_all (\<lambda>t. length t < max_object) (rs_rsrcType res)"
      "list_all (\<lambda>t. length t < max_object) (rs_rsrcInterface res)"
    and ok: "\<forall>info \<in> set infos. advertised b res devAddr info \<and> flags_among devAddr info \<longrightarrow> endpoint_ok b (ep_of b info)"
  shows "\<exists>pl. OCCopyResource b res securePort (Some infos) (Some devAddr) tcpPort [] = Some (Some pl, [])
    \<and> rp_eps pl = map (ep_of b) (filter (advertised b res devAddr) infos)
    \<and> rp_rel pl = (if rs_uri res = OC_RSRVD_WELL_KNOWN_URI then Some ''self'' else None)
    \<and> (case rev (filter (flags_among devAddr) (filter (advertised b res devAddr) infos)) of
         [] \<Rightarrow> rp_anchor pl = None
       | info # _ \<Rightarrow> \<exists>s. rp_anchor pl = Some s
           \<and> OCParseEndpointString b (Some s) (Some out) []
               = (OC_STACK_OK, Some (out\<lparr>epl_tps := ConvertTpsToString b (matched b info), epl_addr := Some (ep_addr info),
                    epl_family := parsed_family (ep_of b info),
                    epl_port := (if ConvertTpsToString b (matched b info) = Some COAP_RFCOMM_STR then 0 else ep_port info)\<rparr>), []))"
  using assms by (rule copy_resource_plenty)

definition sample_info :: CAEndpoint where
  "sample_info = \<lparr>ep_adapter = OC_ADAPTER_IP, ep_flags = OC_IP_USE_V6 OR OC_FLAG_SECURE, ep_port = 5684, ep_addr = ''fe80::1'', ep_ifindex = 2,
     ep_remoteId = [], ep_routeData = []\<rparr>"

definition sample_resource :: OCDiscoverable where
  "sample_resource = \<lparr>rs_uri = ''/light'', rs_entityHandler = None, rs_resourceProperties = 19, rs_observersHead = None, rs_sequenceNum = 0,
     rs_endpointType = OC_COAPS, rs_rsrcType = [''oic.r.switch''], rs_rsrcInterface = [''oic.if.a'']\<rparr>"

lemma sample_discovery:
  "matched all_adapters sample_info = OC_COAPS" "advertised all_adapters sample_resource sample_info sample_info" "flags_among sample_info sample_info"
  "known_adapter sample_info" "endpoint_ok all_adapters (ep_of all_adapters sample_info)"
  "(OC_ADAPTER_IP OR OC_ADAPTER_TCP) AND ep_adapter sample_info \<noteq> 0"
proof -
  show m: "matched all_adapters sample_info = OC_COAPS"
    by (simp add: matched_def OCGetMatchedTpsFlags_def sample_info_def all_adapters_def Let_def set_if_def adapter_defs tps_defs
        OC_IP_USE_V6_def OC_IP_USE_V4_def OC_FLAG_SECURE_def)
  show "advertised all_adapters sample_resource sample_info sample_info" unfolding advertised_def m
    by (simp add: reachable_at_def offered_def sample_info_def sample_resource_def adapter_defs tps_defs OC_IP_USE_V6_def
        OC_FLAG_SECURE_def OC_SECURE_def)
  show "flags_among sample_info sample_info"
    by (simp add: flags_among_def sample_info_def MASK_SECURE_FAMS_def OC_IP_USE_V6_def OC_IP_USE_V4_def OC_FLAG_SECURE_def)
  show "known_adapter sample_info" "(OC_ADAPTER_IP OR OC_ADAPTER_TCP) AND ep_adapter sample_info \<noteq> 0"
    by (simp_all add: known_adapter_def sample_info_def adapter_defs)
  show "endpoint_ok all_adapters (ep_of all_adapters sample_info)"
    unfolding endpoint_ok_def ep_of_def m
    by (simp add: ConvertTpsToString_def tps_defs tps_str_defs tps_adapter_def sample_info_def OC_MAX_ADDR_STR_SIZE_def adapter_defs
        OC_IP_USE_V4_def OC_IP_USE_V6_def OC_FLAG_SECURE_def)
qed

lemma sample_copy_hyps:
  "length (rs_uri sample_resource) < max_object" "list_all (\<lambda>t. length t < max_object) (rs_rsrcType sample_resource)"
  "list_all (\<lambda>t. length t < max_object) (rs_rsrcInterface sample_resource)" "[sample_info] \<noteq> []" "list_all known_adapter [sample_info]"
  "\<forall>info \<in> set [sample_info]. advertised all_adapters sample_resource sample_info info \<and> flags_among sample_info info
    \<longrightarrow> endpoint_ok all_adapters (ep_of all_adapters info)"
  using sample_discovery by (simp_all add: sample_resource_def max_object_def)

lemma sample_copied:
  "\<exists>pl. OCCopyResource all_adapters sample_resource 5684 (Some [sample_info]) (Some sample_info) 0 [] = Some (Some pl, [])"
  using copy_resource_plenty [OF sample_copy_hyps(4,5) sample_discovery(6) sample_copy_hyps(1-3,6), of 5684 0] by blast

theorem discovery_resource_witness:
  "\<exists>pl. OCCopyResource all_adapters sample_resource 5684 (Some [sample_info]) (Some sample_info) 0 [] = Some (Some pl, [])
    \<and> rp_eps pl = [ep_of all_adapters sample_info]"
  using discovery_resource [OF sample_copy_hyps(4,5) sample_discovery(6) sample_copy_hyps(1-3,6), of 5684 0 sample_ep] sample_discovery(2)
  by auto

theorem discovery_advertises_witness:
  "\<exists>pl. OCCopyResource all_adapters sample_resource 5684 (Some [sample_info]) (Some sample_info) 0 [] = Some (Some pl, [])
    \<and> rp_secure pl \<and> rp_resTypes pl = [Some ''oic.r.switch'']"
proof -
  obtain pl where pl: "OCCopyResource all_adapters sample_resource 5684 (Some [sample_info]) (Some sample_info) 0 [] = Some (Some pl, [])"
    using sample_copied by blast
  show ?thesis using pl discovery_advertises [OF pl] by (simp add: sample_resource_def OC_SECURE_def)
qed

text \<open>
  A client that has asked at \<^verbatim>\<open>coaps://[fe80::1]:5684\<close> is given the later \<^verbatim>\<open>coap://[fe80::1]:5683\<close> as anchor, since the flags of an
  insecure endpoint are among those of a secure client.
\<close>

definition insecure_info :: CAEndpoint where
  "insecure_info = \<lparr>ep_adapter = OC_ADAPTER_IP, ep_flags = OC_IP_USE_V6, ep_port = 5683, ep_addr = ''fe80::1'', ep_ifindex = 2,
     ep_remoteId = [], ep_routeData = []\<rparr>"

definition open_resource :: OCDiscoverable where
  "open_resource = sample_resource\<lparr>rs_resourceProperties := OC_SECURE OR OC_NONSECURE, rs_endpointType := OC_COAP OR OC_COAPS\<rparr>"

lemma insecure_discovery:
  "matched all_adapters insecure_info = OC_COAP" "advertised all_adapters open_resource sample_info insecure_info"
  "advertised all_adapters open_resource sample_info sample_info"
  "flags_among sample_info insecure_info" "known_adapter insecure_info" "endpoint_ok all_adapters (ep_of all_adapters insecure_info)"
proof -
  show m: "matched all_adapters insecure_info = OC_COAP"
    by (simp add: matched_def OCGetMatchedTpsFlags_def insecure_info_def all_adapters_def Let_def set_if_def adapter_defs tps_defs
        OC_IP_USE_V6_def OC_IP_USE_V4_def OC_FLAG_SECURE_def)
  show "advertised all_adapters open_resource sample_info insecure_info" unfolding advertised_def m
    by (simp add: reachable_at_def offered_def sample_info_def insecure_info_def open_resource_def adapter_defs tps_defs OC_IP_USE_V6_def
        OC_FLAG_SECURE_def OC_SECURE_def OC_NONSECURE_def)
  show "advertised all_adapters open_resource sample_info sample_info" unfolding advertised_def sample_discovery(1)
    by (simp add: reachable_at_def offered_def sample_info_def open_resource_def adapter_defs tps_defs OC_IP_USE_V6_def
        OC_FLAG_SECURE_def OC_SECURE_def OC_NONSECURE_def)
  show "flags_among sample_info insecure_info"
    by (simp add: flags_among_def sample_info_def insecure_info_def MASK_SECURE_FAMS_def OC_IP_USE_V6_def OC_IP_USE_V4_def OC_FLAG_SECURE_def)
  show "known_adapter insecure_info" by (simp add: known_adapter_def insecure_info_def adapter_defs)
  show "endpoint_ok all_adapters (ep_of all_adapters insecure_info)"
    unfolding endpoint_ok_def ep_of_def m
    by (simp add: ConvertTpsToString_def tps_defs tps_str_defs tps_adapter_def insecure_info_def OC_MAX_ADDR_STR_SIZE_def adapter_defs
        OC_IP_USE_V4_def OC_IP_USE_V6_def OC_FLAG_SECURE_def)
qed

lemma anchor_is_insecure:
  "\<exists>pl s ep. OCCopyResource all_adapters open_resource 5684 (Some [sample_info, insecure_info]) (Some sample_info) 0 [] = Some (Some pl, [])
    \<and> rp_anchor pl = Some s \<and> OCParseEndpointString all_adapters (Some s) (Some sample_ep) [] = (OC_STACK_OK, Some ep, [])
    \<and> epl_tps ep = Some COAP_STR \<and> epl_port ep = 5683"
proof -
  have h: "[sample_info, insecure_info] \<noteq> []" "list_all known_adapter [sample_info, insecure_info]"
    "length (rs_uri open_resource) < max_object" "list_all (\<lambda>t. length t < max_object) (rs_rsrcType open_resource)"
    "list_all (\<lambda>t. length t < max_object) (rs_rsrcInterface open_resource)"
    "\<forall>info \<in> set [sample_info, insecure_info]. advertised all_adapters open_resource sample_info info \<and> flags_among sample_info info
      \<longrightarrow> endpoint_ok all_adapters (ep_of all_adapters info)"
    using sample_discovery insecure_discovery by (simp_all add: open_resource_def sample_resource_def max_object_def)
  have "ConvertTpsToString all_adapters OC_COAP = Some COAP_STR" "COAP_STR \<noteq> COAP_RFCOMM_STR" "ep_port insecure_info = 5683"
    by (simp_all add: ConvertTpsToString_def tps_defs tps_str_defs insecure_info_def)
  then show ?thesis
    using copy_resource_plenty [OF h(1,2) sample_discovery(6) h(3-6), of 5684 0 sample_ep] insecure_discovery(1-4) sample_discovery(3)
    by auto
qed

text \<open>
  When the memory ends after an endpoint for the anchor was found, the list is freed and the endpoint is
  used for the anchor nevertheless.
\<close>

lemma anchor_of_freed_endpoint:
  "OCCopyResource all_adapters sample_resource 5684 (Some [sample_info, sample_info]) (Some sample_info) 0
     [True, True, True, True, False] = None"
proof -
  have first: "endpoint_step all_adapters sample_resource sample_info sample_info ([], None) [True, True, True, False]
      = (Inr ([ep_of all_adapters sample_info], Some 0), [False])"
    using sample_discovery(2,3)
    by (simp add: endpoint_step_def matched_eq advertised_def sample_discovery(1) flags_among_def ep_of_def OCConvertTpsToString_def
        ConvertTpsToString_def tps_defs tps_str_defs OICStrdup_def OICMalloc_def OICCalloc_def sizeof_OCEndpointPayload_def
        MAX_ADDR_STR_SIZE_def max_object_def)
  have second: "endpoint_step all_adapters sample_resource sample_info sample_info ([ep_of all_adapters sample_info], Some 0) [False]
      = (Inl (), [])"
    using sample_discovery(2)
    by (simp add: endpoint_step_def matched_eq advertised_def OICCalloc_def sizeof_OCEndpointPayload_def)
  have "CreateEndpointPayloadList all_adapters (Some sample_resource) (Some sample_info) (Some [sample_info, sample_info]) [True, True, True, False]
      = (None, Freed_ep, [])"
    using sample_discovery(6) by (simp add: CreateEndpointPayloadList_def first second)
  then show ?thesis
    by (simp add: OCCopyResource_def OICCalloc_def sizeof_OCResourcePayload_def max_object_def OICStrdup_def OICMalloc_def
        sample_resource_def copy_rel_def OC_RSRVD_WELL_KNOWN_URI_def anchor_of_def)
qed

end
