(* ===== verification/Spec2Isabelle.thy ===== *)
theory Spec2Isabelle
  imports SecureResourceManager ULinklist Retransmission QueueingThread RouteOption Routes Base64 BleCleanup CallbackList ObserverProps RepPayloadProps DiscoveryPayload
begin

text \<open>
  Verification development of the C stack of IoTivity (\<^verbatim>\<open>resource/csdk\<close> and \<^verbatim>\<open>resource/c_common\<close>), an
  implementation of the OCF specifications: devices offer resources by URI, clients read, write and
  observe them over CoAP. Paths below are relative to \<^verbatim>\<open>resource/csdk\<close>.

  The parts and how they work together. The connectivity layer (\<^verbatim>\<open>connectivity\<close>) sends and receives
  messages through transport adapters; messages wait in queues that a thread works off, the adapter for
  Bluetooth LE cuts them into packets, a confirmable message is sent again until it is
  acknowledged, and a gateway adds a route to each message (\<^verbatim>\<open>routing\<close>). A request that arrives passes
  the secure resource manager (\<^verbatim>\<open>security\<close>), which asks the policy engine for a decision; the decision
  depends on the state of the onboarding of the device and on the access control entries with their
  validity periods. The stack (\<^verbatim>\<open>stack\<close>) keeps the callbacks by which a client finds the request of a
  response, and the observers to which a server sends notifications; it builds the payloads of requests and
  responses, among them those of discovery, which tell a client the endpoints of a resource.

  Theories, in the order of their imports, with the sources they model.

  \<^item> \<^verbatim>\<open>Prelude\<close>: machine integers, result codes, the allocator (\<^verbatim>\<open>oic_malloc.c\<close>), cells and buffers, lemmas
    on lists. \<^verbatim>\<open>CATypes\<close>: endpoints, header options, the fixed CoAP header. \<^verbatim>\<open>OicString\<close>:
    \<^verbatim>\<open>oic_string.c\<close>.
  \<^item> Containers. \<^verbatim>\<open>UArraylist\<close> (\<^verbatim>\<open>uarraylist.c\<close>) and \<^verbatim>\<open>ULinklist\<close> (\<^verbatim>\<open>ulinklist.c\<close>) refine HOL
    lists; their interfaces are the locales \<open>indexed_list\<close> and \<open>iterable\<close>, interpreted there on the
    operations of the code and used by the clients. \<^verbatim>\<open>Utlist\<close>: the intrusive lists of
    \<^verbatim>\<open>utlist.h\<close>, shared by the callbacks and the observers. \<^verbatim>\<open>UQueue\<close> (\<^verbatim>\<open>uqueue.c\<close>): the
    queue of messages, with the locale \<open>fifo\<close> for its clients.
  \<^item> Security. \<^verbatim>\<open>Svr_State\<close>: the resources /pstat, /doxm, /acl2, /cred and their accessors, whose contract
    is the locale \<open>svr_property\<close> (a value that was set is read back, others stay) with the extension
    \<open>svr_volatile\<close>, interpreted for each property. \<^verbatim>\<open>Onboarding\<close> (\<^verbatim>\<open>deviceonboardingstate.c\<close>, the POST handler
    and the self-ownership of \<^verbatim>\<open>pstatresource.c\<close>): the state machine of a device as a labelled step relation over all writes to
    /pstat, with its invariant. \<^verbatim>\<open>ICalendar\<close>
    (\<^verbatim>\<open>iotvticalendar.c\<close>, \<^verbatim>\<open>strptime.c\<close>): periods and recurrences. \<^verbatim>\<open>PolicyEngine\<close>
    (\<^verbatim>\<open>policyengine.c\<close>): the decision, equal to a declarative rule; the three searches for entries share the
    locale \<open>ace_iterator\<close>. \<^verbatim>\<open>SecureResourceManager\<close> (\<^verbatim>\<open>secureresourcemanager.c\<close>): mediation of requests.
    \<^verbatim>\<open>Base64\<close> (\<^verbatim>\<open>base64.c\<close>): the codec against RFC 4648.
  \<^item> Connectivity. \<^verbatim>\<open>QueueingThread\<close> (\<^verbatim>\<open>caqueueingthread.c\<close>): the worker and its clients as interleaved steps;
    every message is handled once and in order, no wake-up is lost, a stop ends the worker.
    \<^verbatim>\<open>Retransmission\<close> (\<^verbatim>\<open>caretransmission.c\<close>): passes of the thread refine an abstract pass over
    the waiting messages; for any number of messages the invariant, the bound on the transmissions of each, back-off.
    \<^verbatim>\<open>Fragmentation\<close> (\<^verbatim>\<open>cafragmentation.c\<close>), \<^verbatim>\<open>BleAdapter\<close>, \<^verbatim>\<open>BleTransfer\<close>, \<^verbatim>\<open>BleReassembly\<close>, \<^verbatim>\<open>BleCleanup\<close>
    (\<^verbatim>\<open>caleadapter.c\<close>): packet format, sending threads, the receiving handler as a refinement of an
    abstract reassembly, end to end delivery, cleaning up.
  \<^item> Routing. \<^verbatim>\<open>RouteOption\<close> (\<^verbatim>\<open>routingutility.c\<close>): encoding and decoding of the route of a message.
    \<^verbatim>\<open>RoutingTable\<close> and \<^verbatim>\<open>Routes\<close> (\<^verbatim>\<open>routingtablemanager.c\<close>): the tables over stores of shared objects, as a
    refinement of a list of routes with an invariant.
  \<^item> Stack. \<^verbatim>\<open>ClientCallbacks\<close> and \<^verbatim>\<open>CallbackList\<close> (\<^verbatim>\<open>occlientcb.c\<close>): ownership of blocks, the first callback with
    the token of a response, and over runs of all operations: no block is freed twice or lost, contexts are released once. \<^verbatim>\<open>Observers\<close> (\<^verbatim>\<open>ocobserve.c\<close> with the functions
    of \<^verbatim>\<open>ocstack.c\<close>, \<^verbatim>\<open>ocresource.c\<close> and \<^verbatim>\<open>ocserverrequest.c\<close> around it), on which \<^verbatim>\<open>ObserverList\<close> (what the
    lists mean, notifying, searching), \<^verbatim>\<open>ObserverRegistry\<close> (adding, removing, ids, feedback),
    \<^verbatim>\<open>ObserverRuns\<close> (loops over all observers, requests), \<^verbatim>\<open>ObserverSystem\<close> (the invariant of all operations,
    registering and deregistering) and \<^verbatim>\<open>ObserverProps\<close> (the remaining properties, examples) build.
    \<^verbatim>\<open>RepPayload\<close> (\<^verbatim>\<open>ocpayload.c\<close>): the representations that requests and responses carry, as trees of named values
    with arrays and string lists; \<^verbatim>\<open>RepPayloadProps\<close>: the contract of setting and getting by name is the locale
    \<open>property_store\<close>, interpreted on the code; round trips of all types; clones, with what they lose when memory runs out.
    \<^verbatim>\<open>Endpoints\<close> (\<^verbatim>\<open>ocendpoint.c\<close>): protocol suites and the text of an endpoint, written and parsed.
    \<^verbatim>\<open>DiscoveryPayload\<close> (\<^verbatim>\<open>ocpayload.c\<close>): the endpoints at which a resource is advertised, and its anchor.
  \<^item> This theory: the composition of onboarding, policy engine and secure resource manager.

  How the code is modelled. A structure is a record, a pointer that may be NULL an option; shared or
  freed objects live in stores with addresses, and reading a freed object, a second free or an access
  outside an array is the result \<^const>\<open>None\<close> of an operation, as is a loop that does not end
  (\<open>partial_function\<close>). So a property that an operation returns \<^const>\<open>Some\<close> says that it ends and is
  memory safe. Error codes are values, every early return is a branch. Integers keep their width;
  \<open>size_t\<close> is a natural number with the wrap-around written out where the code multiplies. What the
  environment decides is an input: the outcomes of allocations (a list \<open>mem\<close>; after its end all succeed), clock
  readings, random numbers, results of the transport, of encoders and of storage. What leaves a component
  is recorded in its state as a list of events.

  Bounds. Lists have less than \<open>2^32\<close> elements where their counters have 32 bits. Tokens of observers have one
  length, because the code compares them over the length of the token it looks for. Loops whose counter is part of
  the code recurse over it; there is no fuel besides, except the number of passes of a thread that a
  statement quantifies over. Packets of Bluetooth LE come from addresses of 17 characters.

  The build that is modelled: Linux, threads, \<^verbatim>\<open>__WITH_DTLS__\<close>, \<^verbatim>\<open>WITH_PRESENCE\<close>, \<^verbatim>\<open>ROUTING_GATEWAY\<close>, without
  \<^verbatim>\<open>MULTIPLE_OWNER\<close>, little endian.

  Where the code does not do what it means to, a lemma next to the component shows the behaviour on the
  model: for example addresses that are taken for each other by a prefix (\<open>address_prefix_clash\<close>), the double free
  of a request that cannot be sent (\<open>failed_request_double_free\<close>), a partial clone that is freed through NULL
  (\<open>clone_frees_NULL\<close>), an insecure anchor for a secure client (\<open>anchor_is_insecure\<close>), observers that never time out
  (\<open>observers_never_time_out\<close>), and short packets that are read past their end
  (\<open>short_start_packet_overread\<close>).

  Not modelled: the CBOR codecs of payloads and of the security resources (calls
  into tinycbor around data that is modelled) and their entity handlers other than the POST of /pstat; that freeing a payload gives memory
  back (that it reads what it frees is modelled); TLS (mbedtls, not in the
  repository); PDU parsing (libcoap); block-wise transfer, which works on libcoap types; the dispatch of requests to
  entity handlers, whose answers are inputs; sockets, Bluetooth and storage; the provisioning client;
  the bindings, services and tools in other languages.
\<close>

section \<open>Onboarding and access control\<close>

text \<open>After a reset no requester is the owner of anything.\<close>

lemma reset_no_implicit_access:
  assumes "SetDosState s DOS_RESET = (OC_STACK_OK, s')" and "gPstat s' = Some p"
    and "implicit_access s' env (dos_state (pstat_dos p)) c"
  shows "admin_session env c"
proof -
  obtain d a where "gDoxm s' = Some d" "gAcl s' = Some a" "doxm_owner d = THE_NIL_UUID"
    "pstat_rownerID p = THE_NIL_UUID" "doxm_rownerID d = THE_NIL_UUID" "acl_rownerID a = THE_NIL_UUID"
    "gRownerId s' = THE_NIL_UUID"
    using RESET_outcome [OF assms(1)] assms(2) by (auto simp: numeral_nat)
  then have o: "\<not> device_owner s' c" and r: "rowner_of s' t = None \<or> rowner_of s' t = Some THE_NIL_UUID" for t
    using assms(2) by (auto simp: device_owner_def rowner_of_def)
  have "rowner_of s' t \<noteq> Some (ctx_subjectUuid c)" if "known_subject c" for t
    using r [of t] that by (auto simp: known_subject_def)
  then show ?thesis using assms(3) o unfolding implicit_access_def by fastforce
qed

text \<open>
  C5: a reset revokes every ownership. After a successful reset of the device, a request that does
  not come from an ownership transfer session and that no access control entry grants is never
  handed to the request handler, whoever sends it: the former owners have no access left.
\<close>

theorem reset_revokes_ownership:
  assumes "SetDosState s DOS_RESET = (OC_STACK_OK, s')"
    and "times_defined (env_now env) (acl_list s')" and "srm_handlers st"
    and "\<not> admin_session env (sc_context (build_context f ep req))"
    and "\<forall>ace\<in>set (acl_list s'). \<not> (subject_matches env (sc_context (build_context f ep req)) ace
           \<and> ace_grants (env_now env) (sc_context (build_context f ep req)) ace)"
  shows "\<exists>st' sc'. SRMRequestHandler f s' env st (Some ep) (Some req) = Some (st', sc')
     \<and> (\<forall>ev\<in>set (drop (length (srm_events st)) (srm_events st')). ev = ResponseSent ep CA_UNAUTHORIZED_REQ)"
proof -
  let ?c = "sc_context (build_context f ep req)"
  obtain p where p: "gPstat s' = Some p" using RESET_outcome [OF assms(1)] by blast
  have "\<not> srm_grants s' env p ?c"
    using reset_no_implicit_access [OF assms(1) p] assms(4,5) by (auto simp: srm_grants_def)
  with SRMRequestHandler_events [OF p assms(2,3), of f ep req] show ?thesis by auto
qed

theorem reset_revokes_ownership_witness:
  "\<exists>s'. SetDosState example_svr DOS_RESET = (OC_STACK_OK, s')
     \<and> (\<exists>st' sc'. SRMRequestHandler (\<lambda>_. None) s'
          \<lparr>env_now = tm_zero, CAGetSecureEndpointAttributes = (\<lambda>_. None), GetEndpointRoles = (\<lambda>_. Some [])\<rparr>
          \<lparr>srm_handlers = True, srm_events = [], srm_send_results = []\<rparr> (Some example_peer) (Some example_req)
        = Some (st', sc'))"
proof -
  let ?env = "\<lparr>env_now = tm_zero, CAGetSecureEndpointAttributes = (\<lambda>_. None), GetEndpointRoles = (\<lambda>_. Some [])\<rparr>"
  obtain s' where s': "SetDosState example_svr DOS_RESET = (OC_STACK_OK, s')"
    using RESET_gets_through [of example_svr] by (auto simp: example_svr_def)
  then have acl: "acl_list s' = []"
    using RESET_outcome [OF s'] by (auto simp: acl_list_def example_svr_def)
  have h: "times_defined (env_now ?env) (acl_list s')" "srm_handlers \<lparr>srm_handlers = True, srm_events = [], srm_send_results = []\<rparr>"
    "\<not> admin_session ?env (sc_context (build_context (\<lambda>_. None) example_peer example_req))"
    "\<forall>ace\<in>set (acl_list s'). \<not> (subject_matches ?env (sc_context (build_context (\<lambda>_. None) example_peer example_req)) ace
       \<and> ace_grants (env_now ?env) (sc_context (build_context (\<lambda>_. None) example_peer example_req)) ace)"
    by (simp_all add: acl times_defined_def admin_session_def)
  from reset_revokes_ownership [OF s' h] s' show ?thesis by blast
qed

end
